(* ===== verification/Prelude.thy ===== *)
theory Prelude
  imports Main
begin

text \<open>
  Shared vocabulary of the development.

  \<^item> Go's \<open>byte\<close> is HOL's \<open>char\<close> (both have 256 values), so a Go
    \<open>string\<close> or \<open>[]byte\<close> is a HOL string; where byte arithmetic matters the
    value is read through \<open>of_char\<close>.
  \<^item> Go's error values are one datatype, \<open>goerr\<close>: every sentinel variable the
    modelled packages declare is a constructor, \<open>fmt.Errorf\<close> with \<open>%w\<close> is
    \<open>ErrWrap\<close>, \<open>errors.Join\<close> is \<open>ErrJoin\<close>, an anonymous \<open>errors.New\<close>
    is \<open>ErrText\<close>, and an error produced outside the modelled code is
    \<open>ErrExternal\<close>. \<open>err_is\<close> is \<open>errors.Is\<close>.
  \<^item> A Go function returning \<open>(T, error)\<close> returns \<open>goerr + 'T\<close>, with
    \<open>Inl\<close> for the non-nil error, unless the code returns a meaningful value
    together with the error; then it returns a pair with a \<open>goerr option\<close>.
  \<^item> The rest are generic facts on lists and on \<open>copy\<close> that several
    components share.
\<close>

named_theorems go_simps \<open>computation rules for the modelled Go library calls\<close>

type_synonym byte = char

section \<open>Errors as values\<close>

datatype goerr =
    IoEOF                              \<comment> \<open>\<open>io.EOF\<close>\<close>
  | IoErrShortWrite                    \<comment> \<open>\<open>io.ErrShortWrite\<close>\<close>
  | IoErrUnexpectedEOF                 \<comment> \<open>\<open>io.ErrUnexpectedEOF\<close>\<close>
  | CtxCanceled                        \<comment> \<open>\<open>context.Canceled\<close>\<close>
  | CtxDeadlineExceeded                \<comment> \<open>\<open>context.DeadlineExceeded\<close>\<close>
  | ErrSentinel string                 \<comment> \<open>a package-level sentinel, by its Go name\<close>
  | ErrText string                     \<comment> \<open>\<open>errors.New\<close> or \<open>fmt.Errorf\<close> without \<open>%w\<close>\<close>
  | ErrWrap goerr string               \<comment> \<open>\<open>fmt.Errorf\<close> with one \<open>%w\<close>\<close>
  | ErrJoin goerr goerr                \<comment> \<open>\<open>errors.Join\<close> of two non-nil errors\<close>
  | ErrExternal nat                    \<comment> \<open>an error of the operating system or a peer\<close>

fun err_is :: "goerr \<Rightarrow> goerr \<Rightarrow> bool" where
  "err_is (ErrWrap e m) target \<longleftrightarrow> ErrWrap e m = target \<or> err_is e target"
| "err_is (ErrJoin a b) target \<longleftrightarrow> ErrJoin a b = target \<or> err_is a target \<or> err_is b target"
| "err_is e target \<longleftrightarrow> e = target"

definition err_join :: "goerr option \<Rightarrow> goerr option \<Rightarrow> goerr option" where
  "err_join a b =
     (case (a, b) of
        (None, _) \<Rightarrow> b
      | (_, None) \<Rightarrow> a
      | (Some x, Some y) \<Rightarrow> Some (ErrJoin x y))"

lemma err_is_refl [simp, intro]: "err_is e e"
  by (cases e) auto

lemma err_join_None [simp]: "err_join None b = b" "err_join a None = a"
  by (auto simp: err_join_def split: option.splits)

lemma err_join_is:
  "err_join a b = Some e \<Longrightarrow> a = Some x \<Longrightarrow> err_is x t \<Longrightarrow> err_is e t"
  by (auto simp: err_join_def split: option.splits)

section \<open>Lists\<close>

text \<open>\<open>copy(dst[lo:hi], src)\<close>: the prefix of \<open>src\<close> that fits is written at \<open>lo\<close>.\<close>

definition go_copy :: "'a list \<Rightarrow> nat \<Rightarrow> nat \<Rightarrow> 'a list \<Rightarrow> 'a list" where
  "go_copy dst lo hi src =
     (let n = min (hi - lo) (length src)
      in take lo dst @ take n src @ drop (lo + n) dst)"

lemma length_go_copy [simp]:
  "lo \<le> hi \<Longrightarrow> hi \<le> length dst \<Longrightarrow> length (go_copy dst lo hi src) = length dst"
  by (auto simp: go_copy_def Let_def)

lemma nth_go_copy:
  assumes "lo \<le> hi" "hi \<le> length dst" "i < length dst"
  shows "go_copy dst lo hi src ! i =
    (if lo \<le> i \<and> i < lo + min (hi - lo) (length src) then src ! (i - lo) else dst ! i)"
  using assms by (auto simp: go_copy_def Let_def nth_append min_def)

end
