(* ===== verification/Ring.thy ===== *)
theory Ring
  imports Prelude
begin

text \<open>
  Circular storage. Every bounded buffer of the program (the receive buffer, the
  activity and event buffers of a Session and the device registry's event
  buffer) keeps a fixed slice, a start index and a size. \<open>ring_view\<close> is the
  linear sequence such a triple stands for; the lemmas say what the code's
  index arithmetic does to it.
\<close>

definition ring_view :: "'a list \<Rightarrow> nat \<Rightarrow> nat \<Rightarrow> 'a list" where
  "ring_view slots start sz = map (\<lambda>i. slots ! ((start + i) mod length slots)) [0..<sz]"

lemma length_ring_view [simp]: "length (ring_view slots start sz) = sz"
  by (simp add: ring_view_def)

lemma ring_view_0 [simp]: "ring_view slots start 0 = []"
  by (simp add: ring_view_def)

lemma nth_ring_view:
  "i < sz \<Longrightarrow> ring_view slots start sz ! i = slots ! ((start + i) mod length slots)"
  by (simp add: ring_view_def)

lemma ring_view_whole: "length slots = n \<Longrightarrow> ring_view slots 0 n = slots"
  by (intro nth_equalityI) (auto simp: nth_ring_view)

lemma ring_view_sub:
  "i + n \<le> sz \<Longrightarrow> map (\<lambda>j. slots ! ((start + i + j) mod length slots)) [0..<n]
     = take n (drop i (ring_view slots start sz))"
  by (intro nth_equalityI) (auto simp: nth_ring_view add.assoc)

text \<open>Distinct offsets inside one window of the capacity are distinct slots.\<close>

lemma slot_inj:
  fixes s :: nat
  assumes "i < j" "j < i + c"
  shows "(s + i) mod c \<noteq> (s + j) mod c"
proof
  assume "(s + i) mod c = (s + j) mod c"
  then have "c dvd (s + j) - (s + i)"
    using mod_eq_dvd_iff_nat [of "s + i" "s + j" c] assms by simp
  then have "c dvd j - i" using assms by simp
  then have "c \<le> j - i" using assms by (intro dvd_imp_le) auto
  then show False using assms by simp
qed

text \<open>Dropping the oldest element: \<open>start = (start + 1) % cap; size--\<close>.\<close>

lemma ring_view_drop_oldest:
  assumes "0 < sz"
  shows "ring_view slots ((start + k) mod length slots) (sz - k) = drop k (ring_view slots start sz)"
  by (intro nth_equalityI) (auto simp: nth_ring_view mod_simps ac_simps)

text \<open>Writing the slot behind the newest element.\<close>

lemma ring_view_push:
  assumes "sz < length slots"
  shows "ring_view (slots[(start + sz) mod length slots := x]) start (Suc sz)
           = ring_view slots start sz @ [x]"
proof (rule nth_equalityI)
  show "length (ring_view (slots[(start + sz) mod length slots := x]) start (Suc sz))
      = length (ring_view slots start sz @ [x])" by simp
next
  fix i assume "i < length (ring_view (slots[(start + sz) mod length slots := x]) start (Suc sz))"
  then have i: "i \<le> sz" by simp
  have L: "0 < length slots" using assms by linarith
  show "ring_view (slots[(start + sz) mod length slots := x]) start (Suc sz) ! i
      = (ring_view slots start sz @ [x]) ! i"
  proof (cases "i = sz")
    case True
    then show ?thesis using assms L by (simp add: nth_ring_view nth_append)
  next
    case False
    then have "i < sz" using i by simp
    then have "(start + i) mod length slots \<noteq> (start + sz) mod length slots"
      using assms by (intro slot_inj) auto
    then show ?thesis using \<open>i < sz\<close> L by (simp add: nth_ring_view nth_append)
  qed
qed

text \<open>Overwriting a slot outside the window leaves the view alone.\<close>

lemma ring_view_update_outside:
  assumes "sz < length slots"
  shows "ring_view (slots[(start + sz) mod length slots := x]) start sz = ring_view slots start sz"
proof -
  have "ring_view (slots[(start + sz) mod length slots := x]) start sz
      = take sz (ring_view (slots[(start + sz) mod length slots := x]) start (Suc sz))"
    by (intro nth_equalityI) (auto simp: nth_ring_view)
  then show ?thesis using ring_view_push [OF assms] by simp
qed

text \<open>
  Overwriting the oldest slot of a full ring and advancing the start:
  \<open>events[start] = e; start = (start + 1) % cap\<close>.
\<close>

lemma ring_view_overwrite:
  assumes "0 < length slots" "start < length slots"
  shows "ring_view (slots[start := x]) ((start + 1) mod length slots) (length slots)
           = tl (ring_view slots start (length slots)) @ [x]"
proof -
  let ?c = "length slots"
  let ?s = "(start + 1) mod ?c"
  have "(?s + (?c - 1)) mod ?c = (start + 1 + (?c - 1)) mod ?c" by (simp only: mod_add_left_eq)
  moreover have "start + 1 + (?c - 1) = start + ?c" using assms by simp
  ultimately have last: "(?s + (?c - 1)) mod ?c = start" using assms by simp
  have "ring_view (slots[start := x]) ?s (Suc (?c - 1)) = ring_view slots ?s (?c - 1) @ [x]"
    using ring_view_push [of "?c - 1" slots ?s x] assms last by simp
  moreover have "ring_view slots ?s (?c - 1) = tl (ring_view slots start ?c)"
    using ring_view_drop_oldest [of ?c slots start 1] assms by (simp add: drop_Suc)
  ultimately show ?thesis using assms by simp
qed

text \<open>Clearing the oldest slot before advancing: \<open>slots[start] = zero; start = (start + 1) % cap\<close>.\<close>

lemma ring_view_clear_oldest:
  assumes "0 < sz" "sz \<le> length slots" "start < length slots"
  shows "ring_view (slots[start := z]) ((start + 1) mod length slots) (sz - 1) = tl (ring_view slots start sz)"
proof (rule nth_equalityI)
  fix i assume "i < length (ring_view (slots[start := z]) ((start + 1) mod length slots) (sz - 1))"
  then have i: "i < sz - 1" by simp
  have "i + 1 < 0 + length slots" using i assms by linarith
  then have "(start + 0) mod length slots \<noteq> (start + (i + 1)) mod length slots"
    by (intro slot_inj) auto
  then have "(start + Suc i) mod length slots \<noteq> start" using assms(3) by auto
  then show "ring_view (slots[start := z]) ((start + 1) mod length slots) (sz - 1) ! i
      = tl (ring_view slots start sz) ! i"
    using i assms by (simp add: nth_ring_view nth_tl mod_simps)
qed simp

section \<open>The two-part copy of a block that may wrap\<close>

definition ring_write :: "'a list \<Rightarrow> nat \<Rightarrow> nat \<Rightarrow> 'a list \<Rightarrow> 'a list" where
  "ring_write slots start sz p =
     (let cap = length slots;
          writeAt = (start + sz) mod cap;
          first = min (length p) (cap - writeAt);
          d1 = go_copy slots writeAt (writeAt + first) (take first p)
      in go_copy d1 0 (length p - first) (drop first p))"

lemma length_ring_write [simp]:
  assumes "length p < length slots"
  shows "length (ring_write slots start sz p) = length slots"
proof -
  have "(start + sz) mod length slots < length slots" using assms by (intro mod_less_divisor) linarith
  then show ?thesis using assms by (auto simp: ring_write_def Let_def)
qed

lemma nth_ring_write:
  fixes slots p :: "'a list" and start sz i :: nat
  assumes "length p < length slots" "i < length slots"
  defines "w \<equiv> (start + sz) mod length slots"
  shows "ring_write slots start sz p ! i =
     (if i < w + length p - length slots then p ! (length slots - w + i)
      else if w \<le> i \<and> i < w + length p then p ! (i - w) else slots ! i)"
proof -
  have w: "w < length slots" unfolding w_def using assms by (intro mod_less_divisor) linarith
  define f where "f = min (length p) (length slots - w)"
  have f: "w + f \<le> length slots" "f \<le> length p" using w by (auto simp: f_def)
  have eq: "ring_write slots start sz p
      = go_copy (go_copy slots w (w + f) (take f p)) 0 (length p - f) (drop f p)"
    by (simp add: ring_write_def Let_def f_def w_def)
  have d1: "go_copy slots w (w + f) (take f p) ! i
      = (if w \<le> i \<and> i < w + f then p ! (i - w) else slots ! i)"
    using f assms(2) by (subst nth_go_copy) auto
  have l1: "length (go_copy slots w (w + f) (take f p)) = length slots" using f by simp
  have d2: "ring_write slots start sz p ! i
      = (if i < length p - f then drop f p ! i else go_copy slots w (w + f) (take f p) ! i)"
    unfolding eq using f assms l1 by (subst nth_go_copy) auto
  have g: "length p - f = w + length p - length slots" using w by (auto simp: f_def)
  show ?thesis
  proof (cases "i < length p - f")
    case True
    then have "f = length slots - w" by (auto simp: f_def)
    then show ?thesis using True d2 g f by simp
  next
    case False
    then show ?thesis using d2 d1 g assms(2) by (auto simp: f_def)
  qed
qed

text \<open>After the copy the bytes of \<open>p\<close> sit behind the old view, the oldest overwritten.\<close>

lemma ring_write_new:
  assumes "length p < length slots" "j < length p"
  shows "ring_write slots start sz p ! ((start + sz + j) mod length slots) = p ! j"
proof -
  let ?c = "length slots"
  let ?w = "(start + sz) mod ?c"
  have c: "0 < ?c" "j < ?c" "?w < ?c" using assms by (auto intro: mod_less_divisor)
  have i: "(start + sz + j) mod ?c = (?w + j) mod ?c" by (simp add: mod_simps)
  show ?thesis
  proof (cases "?w + j < ?c")
    case True
    then show ?thesis using assms c by (auto simp: i nth_ring_write)
  next
    case False
    then have "(?w + j) mod ?c = (?w + j - ?c) mod ?c" by (intro le_mod_geq) simp
    then have "(?w + j) mod ?c = ?w + j - ?c" using c by (simp add: less_imp_add_positive)
    moreover have "?w + j - ?c < ?w + length p - ?c" "?w + j - ?c < ?c" "?c - ?w + (?w + j - ?c) = j"
      using assms c False by linarith+
    ultimately show ?thesis using assms by (simp add: i nth_ring_write)
  qed
qed

lemma ring_write_old:
  assumes "length p < length slots" "sz \<le> length slots"
    and "k < sz" "sz + length p - length slots \<le> k"
  shows "ring_write slots start sz p ! ((start + k) mod length slots) = slots ! ((start + k) mod length slots)"
proof -
  let ?c = "length slots"
  let ?w = "(start + sz) mod ?c"
  let ?i = "(start + k) mod ?c"
  have c: "0 < ?c" "?w < ?c" "?i < ?c" using assms by (auto intro: mod_less_divisor)
  have apart: "?i \<noteq> (start + (sz + j)) mod ?c" if "j < length p" for j
    using assms that by (intro slot_inj) auto
  have idx: "(start + (sz + j)) mod ?c = (?w + j) mod ?c" for j by (simp add: mod_simps add.assoc)
  have "\<not> ?i < ?w + length p - ?c"
  proof
    assume a: "?i < ?w + length p - ?c"
    have "?w + (?c - ?w + ?i) = ?c + ?i" using c by linarith
    then have "(?w + (?c - ?w + ?i)) mod ?c = ?i" using c by (simp only: mod_add_self1 mod_less)
    moreover have "?c - ?w + ?i < length p" using a c by linarith
    ultimately show False using apart [of "?c - ?w + ?i"] idx by metis
  qed
  moreover have "\<not> (?w \<le> ?i \<and> ?i < ?w + length p)"
  proof
    assume a: "?w \<le> ?i \<and> ?i < ?w + length p"
    then have "(?w + (?i - ?w)) mod ?c = ?i" using c by simp
    moreover have "?i - ?w < length p" using a by linarith
    ultimately show False using apart [of "?i - ?w"] idx by metis
  qed
  ultimately show ?thesis using assms(1) c(3) by (subst nth_ring_write) auto
qed

theorem ring_view_write:
  fixes slots p :: "'a list" and start sz :: nat
  assumes "length p < length slots" "sz \<le> length slots"
  defines "ov \<equiv> sz + length p - length slots"
  shows "ring_view (ring_write slots start sz p) ((start + ov) mod length slots)
            (min (length slots) (sz + length p))
         = drop ov (ring_view slots start sz @ p)"
proof (rule nth_equalityI)
  show "length (ring_view (ring_write slots start sz p) ((start + ov) mod length slots)
            (min (length slots) (sz + length p))) = length (drop ov (ring_view slots start sz @ p))"
    using assms by (auto simp: min_def)
next
  fix i
  assume "i < length (ring_view (ring_write slots start sz p) ((start + ov) mod length slots)
            (min (length slots) (sz + length p)))"
  then have i: "i < min (length slots) (sz + length p)" by simp
  have lhs: "ring_view (ring_write slots start sz p) ((start + ov) mod length slots)
            (min (length slots) (sz + length p)) ! i
      = ring_write slots start sz p ! ((start + (ov + i)) mod length slots)"
    using i assms by (simp add: nth_ring_view mod_simps ac_simps)
  have ovle: "ov \<le> sz" using assms by auto
  show "ring_view (ring_write slots start sz p) ((start + ov) mod length slots)
            (min (length slots) (sz + length p)) ! i = drop ov (ring_view slots start sz @ p) ! i"
  proof (cases "ov + i < sz")
    case True
    then have "ring_write slots start sz p ! ((start + (ov + i)) mod length slots)
        = slots ! ((start + (ov + i)) mod length slots)"
      using assms by (intro ring_write_old) auto
    moreover have "i < sz - ov" using True by linarith
    ultimately show ?thesis using True lhs ovle by (simp add: nth_append nth_ring_view)
  next
    case False
    then obtain j where j: "ov + i = sz + j" using le_Suc_ex [of sz "ov + i"] by auto
    have "j < length p" using i j assms by auto
    then have "ring_write slots start sz p ! ((start + sz + j) mod length slots) = p ! j"
      using assms by (intro ring_write_new) auto
    moreover have "\<not> i < sz - ov" "i + ov - sz = j" using False j by linarith+
    ultimately show ?thesis using lhs j ovle by (simp add: nth_append add.assoc)
  qed
qed

end
