(* ===== verification/Cursor_Log.thy ===== *)
theory Cursor_Log
  imports Ring
begin

text \<open>
  The contract between a bounded cursor-addressed buffer and its independent
  readers. A provider keeps \<open>contents\<close>, the newest entries, and \<open>base\<close>, the
  absolute cursor of the oldest one; \<open>put\<close> appends \<open>entries\<close> and may forget
  old ones; \<open>read\<close> answers a cursor with a chunk, the next cursor and a dropped
  flag, or with nothing when the reader has to wait. The client lemmas are about
  a reader that follows such a log while other calls keep appending to it.
  The receive, activity, event and device-event buffers interpret the locale.
\<close>

section \<open>Blocking reads\<close>

text \<open>
  The three blocking read loops share one shape: inspect one consistent state of
  the buffer, answer, or wait for the notification generation seen in that state.
  A run of the loop is given by the states its turns observe; after the last one
  the context is done and \<open>ctx\<close> is its error.
\<close>

datatype 'c attempt = Answer "goerr + 'c" | Wait "nat option"

fun wait_loop :: "('s \<Rightarrow> 'c attempt) \<Rightarrow> 's list \<Rightarrow> goerr \<Rightarrow> goerr + 'c" where
  "wait_loop turn [] ctx = Inl ctx"
| "wait_loop turn (s # ss) ctx =
     (case turn s of
        Answer r \<Rightarrow> r
      | Wait _ \<Rightarrow> wait_loop turn ss ctx)"

lemma wait_loop_answer:
  "wait_loop turn ss ctx = r \<Longrightarrow>
     (\<exists>s \<in> set ss. turn s = Answer r) \<or> (r = Inl ctx \<and> (\<forall>s \<in> set ss. \<exists>g. turn s = Wait g))"
  by (induction turn ss ctx rule: wait_loop.induct) (auto split: attempt.splits)

section \<open>Histories and readers over any provider\<close>

text \<open>The entries a sequence of puts contributes, in order.\<close>

fun log_entries :: "('x \<Rightarrow> 's \<Rightarrow> 's) \<Rightarrow> ('s \<Rightarrow> 'x \<Rightarrow> 'a list) \<Rightarrow> 's \<Rightarrow> 'x list \<Rightarrow> 'a list" where
  "log_entries put entries s [] = []"
| "log_entries put entries s (x # xs) = entries s x @ log_entries put entries (put x s) xs"

datatype 'x log_act = Put 'x | Fetch int

text \<open>One reader among arbitrary appends: its cursor, the entries it got, whether it lost any.\<close>

fun follow :: "('x \<Rightarrow> 's \<Rightarrow> 's) \<Rightarrow> ('s \<Rightarrow> nat \<Rightarrow> int \<Rightarrow> ('a list \<times> nat \<times> bool) option) \<Rightarrow>
    's \<times> nat \<times> 'a list \<times> bool \<Rightarrow> 'x log_act list \<Rightarrow> 's \<times> nat \<times> 'a list \<times> bool" where
  "follow put rd (s, n, got, lost) [] = (s, n, got, lost)"
| "follow put rd (s, n, got, lost) (Put x # as) = follow put rd (put x s, n, got, lost) as"
| "follow put rd (s, n, got, lost) (Fetch lim # as) =
     (case rd s n lim of
        None \<Rightarrow> follow put rd (s, n, got, lost) as
      | Some (ys, n', d) \<Rightarrow> follow put rd (s, n', got @ ys, lost \<or> d) as)"

fun put_args :: "'x log_act list \<Rightarrow> 'x list" where
  "put_args [] = []"
| "put_args (Put x # as) = x # put_args as"
| "put_args (Fetch _ # as) = put_args as"

text \<open>A reader that keeps fetching until it would have to wait.\<close>

fun drain :: "('s \<Rightarrow> nat \<Rightarrow> int \<Rightarrow> ('a list \<times> nat \<times> bool) option) \<Rightarrow> 's \<Rightarrow> int \<Rightarrow> nat \<Rightarrow> nat \<Rightarrow> 'a list option" where
  "drain rd s lim 0 n = None"
| "drain rd s lim (Suc fuel) n =
     (case rd s n lim of
        None \<Rightarrow> Some []
      | Some (ys, n', d) \<Rightarrow> map_option ((@) ys) (drain rd s lim fuel n'))"

text \<open>How many entries a chunk read copies: \<open>min(limit, int(end-next))\<close>.\<close>

lemma segment_count:
  fixes n base sz :: nat and limit :: int
  assumes "0 < limit" "max n base < base + sz" "length v = sz"
  defines "cnt \<equiv> nat (min limit (int (base + sz - max n base)))"
  shows "take cnt (drop (max n base - base) v) = take (nat limit) (drop (max n base - base) v)"
    and "cnt = length (take (nat limit) (drop (max n base - base) v))"
    and "0 < cnt" and "max n base + cnt \<le> base + sz"
proof -
  have len: "length (take (nat limit) (drop (max n base - base) v)) = min (nat limit) (sz - (max n base - base))"
    using assms(3) by simp
  show c: "cnt = length (take (nat limit) (drop (max n base - base) v))"
  proof -
    have "base + sz - max n base = sz - (max n base - base)" by simp
    moreover have "nat (min limit (int k)) = min (nat limit) k" for k
      using assms(1) by (auto simp: min_def)
    ultimately show ?thesis unfolding len cnt_def by simp
  qed
  show "take cnt (drop (max n base - base) v) = take (nat limit) (drop (max n base - base) v)"
    unfolding c by (simp add: min_def)
  have "0 < base + sz - max n base" using assms(2) by linarith
  then have "0 < int (base + sz - max n base)" by linarith
  then show "0 < cnt" using assms(1) unfolding cnt_def zero_less_nat_eq by (simp only: min_less_iff_conj)
  have "nat (min limit (int k)) \<le> k" for k by (auto simp: min_def)
  then have "cnt \<le> base + sz - max n base" unfolding cnt_def .
  then show "max n base + cnt \<le> base + sz" using assms(2) by linarith
qed

section \<open>The contract\<close>

locale cursor_log =
  fixes inv :: "'s \<Rightarrow> bool"
    and base :: "'s \<Rightarrow> nat"
    and contents :: "'s \<Rightarrow> 'a list"
    and put :: "'x \<Rightarrow> 's \<Rightarrow> 's"
    and entries :: "'s \<Rightarrow> 'x \<Rightarrow> 'a list"
    and rd :: "'s \<Rightarrow> nat \<Rightarrow> int \<Rightarrow> ('a list \<times> nat \<times> bool) option"
  assumes inv_put: "inv s \<Longrightarrow> inv (put x s)"
    and put_law: "inv s \<Longrightarrow> \<exists>k \<le> length (contents s @ entries s x).
          contents (put x s) = drop k (contents s @ entries s x) \<and> base (put x s) = base s + k"
    and rd_some: "inv s \<Longrightarrow> 0 < lim \<Longrightarrow> rd s n lim = Some (ys, n', d) \<Longrightarrow>
          d = (n < base s) \<and>
          ys = take (nat lim) (drop (max n (base s) - base s) (contents s)) \<and>
          n' = max n (base s) + length ys"
    and rd_none: "inv s \<Longrightarrow> 0 < lim \<Longrightarrow>
          rd s n lim = None \<longleftrightarrow> base s \<le> n \<and> base s + length (contents s) \<le> n"
begin

definition retains :: "'s \<Rightarrow> 'a list \<Rightarrow> bool" where
  "retains s h \<longleftrightarrow> base s \<le> length h \<and> contents s = drop (base s) h"

lemma retains_put:
  assumes "inv s" "retains s h"
  shows "retains (put x s) (h @ entries s x)"
proof -
  obtain k where k: "k \<le> length (contents s @ entries s x)"
      "contents (put x s) = drop k (contents s @ entries s x)" "base (put x s) = base s + k"
    using put_law [OF assms(1)] by blast
  have b: "base s \<le> length h" using assms(2) by (simp add: retains_def)
  have "contents s @ entries s x = drop (base s) (h @ entries s x)"
    using assms(2) b by (simp add: retains_def)
  then have "contents (put x s) = drop (base s + k) (h @ entries s x)"
    using k(2) by (metis drop_drop add.commute)
  moreover have "base s + k \<le> length (h @ entries s x)"
    using k(1) assms(2) b by (simp add: retains_def)
  ultimately show ?thesis using k(3) by (simp add: retains_def)
qed

lemma inv_puts: "inv s \<Longrightarrow> inv (fold put xs s)"
  by (induction xs arbitrary: s) (auto intro: inv_put)

lemma retains_puts:
  "inv s \<Longrightarrow> retains s h \<Longrightarrow> retains (fold put xs s) (h @ log_entries put entries s xs)"
proof (induction xs arbitrary: s h)
  case (Cons x xs)
  then show ?case using Cons.IH [OF inv_put retains_put] by (simp add: Cons.prems)
qed simp

text \<open>A chunk is a contiguous segment of the history, adjacent to the cursor unless marked dropped.\<close>

lemma chunk_segment:
  assumes "inv s" "retains s h" "0 < lim" "rd s n lim = Some (ys, n', d)"
  shows "ys = take (length ys) (drop (n' - length ys) h)"
    and "length ys \<le> nat lim" and "n' = max n (base s) + length ys" and "d \<longleftrightarrow> n < base s"
    and "n \<le> length h \<Longrightarrow> n' \<le> length h"
proof -
  have ys: "ys = take (nat lim) (drop (max n (base s)) h)"
    using rd_some [OF assms(1,3,4)] assms(2) by (auto simp: retains_def max_def)
  show n': "n' = max n (base s) + length ys" and "d \<longleftrightarrow> n < base s"
    using rd_some [OF assms(1,3,4)] by auto
  show "length ys \<le> nat lim" using ys by simp
  show "ys = take (length ys) (drop (n' - length ys) h)"
    using ys n' by (simp add: min_def)
  show "n' \<le> length h" if "n \<le> length h"
    using that assms(2) ys n' by (auto simp: retains_def max_def min_def)
qed

text \<open>A waiting reader has seen everything; any other fetch makes progress.\<close>

lemma fetch_progress:
  assumes "inv s" "0 < lim" "n < base s + length (contents s)"
  shows "\<exists>ys n' d. rd s n lim = Some (ys, n', d) \<and> n < n'"
proof -
  have "rd s n lim \<noteq> None" using assms by (auto simp: rd_none)
  then obtain ys n' d where r: "rd s n lim = Some (ys, n', d)" by (cases "rd s n lim") auto
  note f = rd_some [OF assms(1,2) r]
  show ?thesis
  proof (cases "n < base s")
    case True
    then have "n < n'" using f by simp
    then show ?thesis using r by blast
  next
    case False
    then have "length ys > 0" using f assms by (simp add: max_def)
    then have "n < n'" using f False by (simp add: max_def)
    then show ?thesis using r by blast
  qed
qed

lemma drain_complete:
  assumes "inv s" "retains s h" "0 < lim" "base s \<le> n" "length h - n < fuel"
  shows "drain rd s lim fuel n = Some (drop n h)"
  using assms(4,5)
proof (induction fuel arbitrary: n)
  case (Suc fuel)
  show ?case
  proof (cases "n < length h")
    case False
    then have "rd s n lim = None" using assms Suc.prems by (simp add: rd_none retains_def)
    then show ?thesis using False by simp
  next
    case True
    then obtain ys n' d where r: "rd s n lim = Some (ys, n', d)" "n < n'"
      using fetch_progress [OF assms(1,3), of n] assms(2) by (auto simp: retains_def)
    note seg = chunk_segment [OF assms(1-3) r(1)]
    have n': "n' = n + length ys" "n' \<le> length h" using seg Suc.prems True by (auto simp: max_def)
    have "drain rd s lim fuel n' = Some (drop n' h)"
    proof (rule Suc.IH)
      show "base s \<le> n'" using Suc.prems n' by simp
      show "length h - n' < fuel" using Suc.prems r(2) True by linarith
    qed
    moreover have "ys @ drop n' h = drop n h"
      using seg(1) n' by (metis add.commute add_diff_cancel_right' append_take_drop_id drop_drop)
    ultimately show ?thesis using r(1) by simp
  qed
qed simp

text \<open>
  The reader theorem: whatever other calls append between its fetches, a reader
  that was never told it lost entries has received exactly the history from its
  first cursor to its current one.
\<close>

lemma follow_exact:
  assumes "inv s" "retains s h" "c \<le> n" "n \<le> length h" "got = take (n - c) (drop c h)"
    and "\<forall>lim. Fetch lim \<in> set as \<longrightarrow> 0 < lim"
    and "follow put rd (s, n, got, False) as = (s', n', got', False)"
  shows "inv s' \<and> retains s' (h @ log_entries put entries s (put_args as)) \<and>
         c \<le> n' \<and> n' \<le> length (h @ log_entries put entries s (put_args as)) \<and>
         got' = take (n' - c) (drop c (h @ log_entries put entries s (put_args as)))"
  using assms
proof (induction as arbitrary: s n got h)
  case Nil
  then show ?case by auto
next
  case (Cons a as)
  have lost: "snd (snd (snd (follow put rd (s, n, got, True) as))) = True" for s n got as
    by (induction put rd "(s, n, got, True)" as arbitrary: s n got rule: follow.induct)
       (auto split: option.splits)
  show ?case
  proof (cases a)
    case (Put x)
    have "got = take (n - c) (drop c (h @ entries s x))"
      using Cons.prems(3-5) by simp
    then show ?thesis
      using Cons.IH [of "put x s" "h @ entries s x" n got] Cons.prems Put
        inv_put retains_put by auto
  next
    case (Fetch lim)
    have lim: "0 < lim" using Cons.prems(6) Fetch by auto
    show ?thesis
    proof (cases "rd s n lim")
      case None
      then show ?thesis using Cons.IH [of s h n got] Cons.prems Fetch by auto
    next
      case (Some r)
      obtain ys m d where r: "r = (ys, m, d)" by (cases r) auto
      have rd': "rd s n lim = Some (ys, m, d)" using Some r by simp
      note seg = chunk_segment [OF Cons.prems(1,2) lim rd']
      have f: "follow put rd (s, m, got @ ys, d) as = (s', n', got', False)"
        using Cons.prems(7) Fetch rd' by simp
      have d: "\<not> d" using f lost by (metis (full_types) snd_conv)
      then have m: "m = n + length ys" "m \<le> length h" using seg Cons.prems(4) by (auto simp: max_def)
      have "got @ ys = take (m - c) (drop c h)"
      proof -
        have "take (m - c) (drop c h) = take (n - c) (drop c h) @ take (m - n) (drop n h)"
          using Cons.prems(3) m(1) take_add [of "n - c" "m - n" "drop c h"] by simp
        then show ?thesis using Cons.prems(5) seg(1) m(1) by simp
      qed
      then show ?thesis
        using Cons.IH [of s h m "got @ ys"] Cons.prems Fetch rd' f d m by auto
    qed
  qed
qed

end

end
