(* ===== verification/Receive_Buffer.thy ===== *)
theory Receive_Buffer
  imports Cursor_Log
begin

text \<open>
  \<open>internal/core/session/ring_buffer.go\<close>: the receive buffer of a Session. The
  record has the struct's fields; the replaceable \<open>notify\<close> channel is the number
  of its generation, so \<open>signalLocked\<close> (close the old channel, publish a new one)
  is an increment, and a reader waiting on generation \<open>g\<close> wakes when the
  current generation is no longer \<open>g\<close>. Cursors (\<open>uint64\<close>) are naturals: a
  Session would have to receive \<open>2^64\<close> bytes before they differ. Each operation
  is one critical section of the mutex; \<open>readOutput\<close> sees one buffer state per
  turn of its loop.
\<close>

abbreviation "ErrInvalidBufferCapacity \<equiv> ErrSentinel ''session.ErrInvalidBufferCapacity''"
abbreviation "ErrInvalidReadLimit \<equiv> ErrSentinel ''session.ErrInvalidReadLimit''"

record output_chunk =
  oc_data :: "byte list"
  oc_next :: nat
  oc_dropped :: bool

definition no_output :: output_chunk where
  "no_output = \<lparr>oc_data = [], oc_next = 0, oc_dropped = False\<rparr>"

record receive_buffer =
  rb_data :: "byte list"
  rb_start :: nat
  rb_size :: nat
  rb_base :: nat
  rb_notify :: nat
  rb_closed :: bool
  rb_err :: "goerr option"

definition newReceiveBuffer :: "int \<Rightarrow> goerr + receive_buffer" where
  "newReceiveBuffer capacity =
     (if capacity \<le> 0 then Inl ErrInvalidBufferCapacity
      else Inr \<lparr>rb_data = replicate (nat capacity) CHR 0x00, rb_start = 0, rb_size = 0,
                rb_base = 0, rb_notify = 0, rb_closed = False, rb_err = None\<rparr>)"

definition rb_signalLocked :: "receive_buffer \<Rightarrow> receive_buffer" where
  "rb_signalLocked b = b\<lparr>rb_notify := Suc (rb_notify b)\<rparr>"

definition rb_append :: "byte list \<Rightarrow> receive_buffer \<Rightarrow> receive_buffer" where
  "rb_append p b =
     (if length p = 0 then b
      else if rb_closed b \<or> length (rb_data b) = 0 then b
      else
        let capacity = length (rb_data b);
            end_cursor = rb_base b + rb_size b
        in if length p \<ge> capacity then
             rb_signalLocked (b\<lparr>rb_data := go_copy (rb_data b) 0 capacity (drop (length p - capacity) p),
                rb_start := 0, rb_size := capacity,
                rb_base := end_cursor + (length p - capacity)\<rparr>)
           else
             let overwritten = rb_size b + length p - capacity
             in rb_signalLocked (b\<lparr>rb_data := ring_write (rb_data b) (rb_start b) (rb_size b) p,
                  rb_start := (rb_start b + overwritten) mod capacity,
                  rb_base := rb_base b + overwritten,
                  rb_size := min capacity (rb_size b + length p)\<rparr>))"

definition rb_copyLocked :: "receive_buffer \<Rightarrow> nat \<Rightarrow> nat \<Rightarrow> bool \<Rightarrow> output_chunk" where
  "rb_copyLocked b start count dropped =
     (let offset = start - rb_base b;
          readAt = (rb_start b + offset) mod length (rb_data b);
          first = min count (length (rb_data b) - readAt)
      in \<lparr>oc_data = take first (drop readAt (rb_data b)) @ take (count - first) (rb_data b),
          oc_next = start + count, oc_dropped = dropped\<rparr>)"

definition rb_readChunk :: "receive_buffer \<Rightarrow> nat \<Rightarrow> int \<Rightarrow>
    output_chunk \<times> nat option \<times> bool \<times> goerr option" where
  "rb_readChunk b next_cursor limit =
     (if length (rb_data b) = 0 then (no_output, Some (rb_notify b), True, rb_err b)
      else
        let dropped = next_cursor < rb_base b;
            next' = (if dropped then rb_base b else next_cursor);
            end_cursor = rb_base b + rb_size b
        in if next' < end_cursor
           then (rb_copyLocked b next' (nat (min limit (int (end_cursor - next')))) dropped,
                 None, False, None)
           else (no_output, Some (rb_notify b), rb_closed b, rb_err b))"

text \<open>One turn of the \<open>readOutput\<close> loop: a result, or the generation to wait for.\<close>

definition rb_attempt :: "receive_buffer \<Rightarrow> nat \<Rightarrow> int \<Rightarrow> output_chunk attempt" where
  "rb_attempt b next_cursor limit =
     (case rb_readChunk b next_cursor limit of (chunk, notify, isClosed, err) \<Rightarrow>
        if 0 < length (oc_data chunk) \<or> oc_dropped chunk then Answer (Inr chunk)
        else if isClosed then Answer (Inl (case err of Some e \<Rightarrow> e | None \<Rightarrow> IoEOF))
        else Wait notify)"

definition rb_readOutput :: "receive_buffer list \<Rightarrow> goerr \<Rightarrow> nat \<Rightarrow> int \<Rightarrow> goerr + output_chunk" where
  "rb_readOutput bs ctx next_cursor limit =
     (if limit \<le> 0 then Inl ErrInvalidReadLimit else wait_loop (\<lambda>b. rb_attempt b next_cursor limit) bs ctx)"

definition rb_readRecent :: "receive_buffer \<Rightarrow> int \<Rightarrow> goerr + output_chunk" where
  "rb_readRecent b limit =
     (if limit \<le> 0 then Inl ErrInvalidReadLimit
      else if length (rb_data b) = 0 then Inl IoEOF
      else
        let count = nat (min limit (int (rb_size b)));
            start = rb_base b + (rb_size b - count)
        in Inr (rb_copyLocked b start count False))"

definition rb_close :: "goerr option \<Rightarrow> receive_buffer \<Rightarrow> receive_buffer" where
  "rb_close err b = (if rb_closed b then b else rb_signalLocked (b\<lparr>rb_closed := True, rb_err := err\<rparr>))"

definition rb_release :: "receive_buffer \<Rightarrow> receive_buffer" where
  "rb_release b = rb_signalLocked (b\<lparr>rb_data := [], rb_start := 0, rb_size := 0\<rparr>)"

section \<open>Well-formed buffers\<close>

definition rb_view :: "receive_buffer \<Rightarrow> byte list" where
  "rb_view b = ring_view (rb_data b) (rb_start b) (rb_size b)"

definition rb_wf :: "receive_buffer \<Rightarrow> bool" where
  "rb_wf b \<longleftrightarrow> 0 < length (rb_data b) \<and> rb_start b < length (rb_data b) \<and>
     rb_size b \<le> length (rb_data b) \<and> (0 < rb_base b \<longrightarrow> 0 < rb_size b)"

lemma length_rb_view [simp]: "length (rb_view b) = rb_size b"
  by (simp add: rb_view_def)

lemma rb_signalLocked_sel [simp]:
  "rb_data (rb_signalLocked b) = rb_data b" "rb_start (rb_signalLocked b) = rb_start b"
  "rb_size (rb_signalLocked b) = rb_size b" "rb_base (rb_signalLocked b) = rb_base b"
  "rb_closed (rb_signalLocked b) = rb_closed b" "rb_err (rb_signalLocked b) = rb_err b"
  "rb_notify (rb_signalLocked b) = Suc (rb_notify b)" "rb_view (rb_signalLocked b) = rb_view b"
  by (simp_all add: rb_signalLocked_def rb_view_def)

lemma new_wf:
  "newReceiveBuffer c = Inr b \<Longrightarrow>
     rb_wf b \<and> rb_view b = [] \<and> rb_base b = 0 \<and> \<not> rb_closed b \<and> int (length (rb_data b)) = c"
  by (auto simp: newReceiveBuffer_def rb_wf_def rb_view_def split: if_splits)

lemma rb_append_wf: "rb_wf b \<Longrightarrow> rb_wf (rb_append p b)"
  by (auto simp: rb_append_def rb_wf_def Let_def simp del: length_greater_0_conv length_0_conv)

lemma rb_append_length [simp]:
  "rb_wf b \<Longrightarrow> length (rb_data (rb_append p b)) = length (rb_data b)"
  by (auto simp: rb_append_def rb_wf_def Let_def)

lemma rb_append_flags [simp]:
  "rb_closed (rb_append p b) = rb_closed b" "rb_err (rb_append p b) = rb_err b"
  by (auto simp: rb_append_def Let_def)

text \<open>What an append does to the linear contents: the oldest bytes give way, none is reordered.\<close>

lemma rb_append_view:
  fixes b :: receive_buffer and p :: "byte list"
  assumes "rb_wf b" "\<not> rb_closed b"
  defines "k \<equiv> rb_size b + length p - length (rb_data b)"
  shows "rb_view (rb_append p b) = drop k (rb_view b @ p)"
    and "rb_base (rb_append p b) = rb_base b + k"
proof -
  let ?c = "length (rb_data b)"
  have c: "0 < ?c" "rb_size b \<le> ?c" using assms by (auto simp: rb_wf_def)
  have "rb_view (rb_append p b) = drop k (rb_view b @ p) \<and> rb_base (rb_append p b) = rb_base b + k"
  proof (cases "length p = 0")
    case True
    then show ?thesis using c by (simp add: rb_append_def k_def)
  next
    case nonempty: False
    show ?thesis
    proof (cases "?c \<le> length p")
      case True
      have "go_copy (rb_data b) 0 ?c (drop (length p - ?c) p) = drop (length p - ?c) p"
        using True by (simp add: go_copy_def)
      moreover have "rb_size b + length p - ?c - rb_size b = length p - ?c" using True by simp
      ultimately show ?thesis
        using True nonempty assms(2) c
        by (simp add: rb_append_def Let_def rb_view_def ring_view_whole k_def)
    next
      case False
      then have "length p < ?c" by simp
      from ring_view_write [OF this c(2), of "rb_start b"] show ?thesis
        using False nonempty assms(2) c
        by (simp add: rb_append_def Let_def rb_view_def k_def)
    qed
  qed
  then show "rb_view (rb_append p b) = drop k (rb_view b @ p)"
    and "rb_base (rb_append p b) = rb_base b + k" by auto
qed

lemma rb_append_closed: "rb_closed b \<Longrightarrow> rb_append p b = b"
  by (simp add: rb_append_def)

lemma rb_copyLocked_view:
  assumes "rb_wf b" "rb_base b \<le> start" "start + count \<le> rb_base b + rb_size b"
  shows "rb_copyLocked b start count d =
    \<lparr>oc_data = take count (drop (start - rb_base b) (rb_view b)), oc_next = start + count, oc_dropped = d\<rparr>"
proof -
  let ?c = "length (rb_data b)"
  let ?off = "start - rb_base b"
  let ?r = "(rb_start b + ?off) mod ?c"
  define f where "f = min count (?c - ?r)"
  have c: "0 < ?c" "rb_size b \<le> ?c" using assms by (auto simp: rb_wf_def)
  have r: "?r < ?c" using c by simp
  have cnt: "?off + count \<le> rb_size b" using assms by linarith
  have f_le: "f \<le> ?c - ?r" "f \<le> count" by (simp_all add: f_def)
  moreover have "count - f \<le> ?c" using cnt c by linarith
  ultimately have len: "length (take f (drop ?r (rb_data b)) @ take (count - f) (rb_data b)) = count" by simp
  have "take f (drop ?r (rb_data b)) @ take (count - f) (rb_data b) = take count (drop ?off (rb_view b))"
  proof (rule nth_equalityI)
    show "length (take f (drop ?r (rb_data b)) @ take (count - f) (rb_data b))
        = length (take count (drop ?off (rb_view b)))"
      unfolding len using cnt by simp
  next
    fix i assume "i < length (take f (drop ?r (rb_data b)) @ take (count - f) (rb_data b))"
    then have i: "i < count" unfolding len .
    have "take count (drop ?off (rb_view b)) ! i = rb_data b ! ((?r + i) mod ?c)"
      using i cnt by (simp add: rb_view_def nth_ring_view mod_simps add.assoc)
    moreover have "(take f (drop ?r (rb_data b)) @ take (count - f) (rb_data b)) ! i
        = rb_data b ! ((?r + i) mod ?c)"
    proof (cases "i < f")
      case True
      then show ?thesis using r by (auto simp: nth_append f_def)
    next
      case False
      then have f: "f = ?c - ?r" using i by (auto simp: f_def)
      have w: "(?r + i) mod ?c = i - f"
      proof -
        have "?r + i = ?c + (i - f)" using f False r by linarith
        moreover have "i - f < ?c" using i cnt c by linarith
        ultimately show ?thesis by simp
      qed
      have "length (take f (drop ?r (rb_data b))) = f" using f by simp
      moreover have "i - f < count - f" using i False by linarith
      ultimately show ?thesis using False w by (simp add: nth_append)
    qed
    ultimately show "(take f (drop ?r (rb_data b)) @ take (count - f) (rb_data b)) ! i
        = take count (drop ?off (rb_view b)) ! i" by simp
  qed
  then show ?thesis by (simp add: rb_copyLocked_def Let_def f_def)
qed

section \<open>The receive buffer is a cursor log\<close>

definition rb_entries :: "receive_buffer \<Rightarrow> byte list \<Rightarrow> byte list" where
  "rb_entries b p = (if rb_closed b then [] else p)"

definition rb_fetch :: "receive_buffer \<Rightarrow> nat \<Rightarrow> int \<Rightarrow> (byte list \<times> nat \<times> bool) option" where
  "rb_fetch b next_cursor limit =
     (case rb_attempt b next_cursor limit of
        Answer (Inr chunk) \<Rightarrow> Some (oc_data chunk, oc_next chunk, oc_dropped chunk)
      | _ \<Rightarrow> None)"

definition rb_segment :: "receive_buffer \<Rightarrow> nat \<Rightarrow> int \<Rightarrow> byte list" where
  "rb_segment b n limit = take (nat limit) (drop (max n (rb_base b) - rb_base b) (rb_view b))"

lemma length_rb_segment:
  "length (rb_segment b n limit) = min (nat limit) (rb_base b + rb_size b - max n (rb_base b))"
  by (simp add: rb_segment_def)

lemma rb_readChunk_data:
  assumes "rb_wf b" "0 < limit" "max n (rb_base b) < rb_base b + rb_size b"
  shows "rb_readChunk b n limit =
     (\<lparr>oc_data = rb_segment b n limit, oc_next = max n (rb_base b) + length (rb_segment b n limit),
       oc_dropped = n < rb_base b\<rparr>, None, False, None)"
proof -
  let ?m = "max n (rb_base b)"
  define cnt where "cnt = nat (min limit (int (rb_base b + rb_size b - ?m)))"
  note seg = segment_count [OF assms(2,3) length_rb_view, folded cnt_def, folded rb_segment_def]
  have m: "(if n < rb_base b then rb_base b else n) = ?m" by (simp add: max_def)
  have "rb_copyLocked b ?m cnt (n < rb_base b) =
     \<lparr>oc_data = rb_segment b n limit, oc_next = ?m + cnt, oc_dropped = n < rb_base b\<rparr>"
    using seg(4) by (subst rb_copyLocked_view [OF assms(1)]) (auto simp: seg(1))
  moreover have "length (rb_data b) \<noteq> 0" using assms(1) by (simp add: rb_wf_def)
  ultimately show ?thesis
    using assms(3) by (simp only: rb_readChunk_def m cnt_def [symmetric] seg(2) [symmetric] Let_def if_True if_False simp_thms)
qed

lemma rb_readChunk_empty:
  assumes "rb_wf b" "\<not> max n (rb_base b) < rb_base b + rb_size b"
  shows "rb_readChunk b n limit = (no_output, Some (rb_notify b), rb_closed b, rb_err b)"
proof -
  have "\<not> n < rb_base b" using assms by (auto simp: rb_wf_def)
  then show ?thesis using assms by (simp add: rb_readChunk_def rb_wf_def Let_def)
qed

lemma rb_attempt_data:
  assumes "rb_wf b" "0 < limit" "max n (rb_base b) < rb_base b + rb_size b"
  shows "rb_attempt b n limit = Answer (Inr \<lparr>oc_data = rb_segment b n limit,
     oc_next = max n (rb_base b) + length (rb_segment b n limit), oc_dropped = n < rb_base b\<rparr>)"
proof -
  have "0 < length (rb_segment b n limit)"
    using assms(2,3) unfolding length_rb_segment by linarith
  then show ?thesis by (simp add: rb_attempt_def rb_readChunk_data [OF assms])
qed

lemma rb_attempt_empty:
  assumes "rb_wf b" "\<not> max n (rb_base b) < rb_base b + rb_size b"
  shows "rb_attempt b n limit =
    (if rb_closed b then Answer (Inl (case rb_err b of Some e \<Rightarrow> e | None \<Rightarrow> IoEOF))
     else Wait (Some (rb_notify b)))"
  by (simp add: rb_attempt_def rb_readChunk_empty [OF assms] no_output_def)

lemma rb_fetch_cases:
  assumes "rb_wf b" "0 < limit"
  shows "rb_fetch b n limit =
    (if max n (rb_base b) < rb_base b + rb_size b
     then Some (rb_segment b n limit, max n (rb_base b) + length (rb_segment b n limit), n < rb_base b)
     else None)"
  using assms by (auto simp: rb_fetch_def rb_attempt_data rb_attempt_empty)

interpretation rbl: cursor_log rb_wf rb_base rb_view rb_append rb_entries rb_fetch
proof unfold_locales
  fix b p assume wf: "rb_wf b"
  show "rb_wf (rb_append p b)" using wf by (rule rb_append_wf)
  show "\<exists>k \<le> length (rb_view b @ rb_entries b p).
     rb_view (rb_append p b) = drop k (rb_view b @ rb_entries b p) \<and> rb_base (rb_append p b) = rb_base b + k"
  proof (cases "rb_closed b")
    case True
    then show ?thesis by (intro exI [of _ 0]) (simp add: rb_entries_def rb_append_closed)
  next
    case False
    have "rb_size b + length p - length (rb_data b) \<le> length (rb_view b @ rb_entries b p)"
      using False by (simp add: rb_entries_def)
    then show ?thesis using rb_append_view [OF wf False, of p] False
      by (intro exI [of _ "rb_size b + length p - length (rb_data b)"]) (simp add: rb_entries_def)
  qed
next
  fix b lim n ys n' d
  assume "rb_wf b" "0 < lim" "rb_fetch b n lim = Some (ys, n', d)"
  then show "d = (n < rb_base b) \<and> ys = take (nat lim) (drop (max n (rb_base b) - rb_base b) (rb_view b)) \<and>
      n' = max n (rb_base b) + length ys"
    by (auto simp: rb_fetch_cases rb_segment_def split: if_splits)
next
  fix b lim n assume "rb_wf b" "0 < (lim::int)"
  then show "(rb_fetch b n lim = None) = (rb_base b \<le> n \<and> rb_base b + length (rb_view b) \<le> n)"
    by (auto simp: rb_fetch_cases rb_wf_def max_def)
qed

section \<open>Properties\<close>

lemma rb_append_open:
  assumes "rb_wf b" "\<not> rb_closed b"
    and "rb_view b = drop (length h - length (rb_data b)) h" "rb_base b = length h - length (rb_data b)"
  shows "rb_view (rb_append p b) = drop (length (h @ p) - length (rb_data b)) (h @ p)"
    and "rb_base (rb_append p b) = length (h @ p) - length (rb_data b)"
proof -
  have sz: "rb_size b = length h - (length h - length (rb_data b))"
    using assms(3) by (metis length_drop length_rb_view)
  note v = rb_append_view [OF assms(1,2), of p]
  have e: "rb_base b + (rb_size b + length p - length (rb_data b)) = length (h @ p) - length (rb_data b)"
    using sz assms(4) by simp
  have "drop (rb_size b + length p - length (rb_data b)) (drop (length h - length (rb_data b)) h @ p)
      = drop (length (h @ p) - length (rb_data b)) (h @ p)"
  proof (cases "length (rb_data b) \<le> length h")
    case True
    then have "drop (length h - length (rb_data b)) h @ p = drop (length h - length (rb_data b)) (h @ p)" by simp
    moreover have "rb_size b + length p - length (rb_data b) + (length h - length (rb_data b))
       = length (h @ p) - length (rb_data b)" using sz True by simp
    ultimately show ?thesis by (metis drop_drop)
  next
    case False
    then show ?thesis using sz by simp
  qed
  then show "rb_view (rb_append p b) = drop (length (h @ p) - length (rb_data b)) (h @ p)"
    using v(1) assms(3) by simp
  show "rb_base (rb_append p b) = length (h @ p) - length (rb_data b)" using v(2) e by simp
qed

lemma rb_appends_retain:
  assumes "rb_wf b" "\<not> rb_closed b" "length (rb_data b) = c"
    and "rb_view b = drop (length h - c) h" "rb_base b = length h - c"
  shows "rb_view (fold rb_append ps b) = drop (length (h @ concat ps) - c) (h @ concat ps) \<and>
         rb_base (fold rb_append ps b) = length (h @ concat ps) - c"
  using assms
proof (induction ps arbitrary: b h)
  case (Cons p ps)
  have b: "rb_view b = drop (length h - length (rb_data b)) h" "rb_base b = length h - length (rb_data b)"
    using Cons.prems(3-5) by simp_all
  note o = rb_append_open [OF Cons.prems(1,2) b, of p]
  have "rb_wf (rb_append p b)" "\<not> rb_closed (rb_append p b)" "length (rb_data (rb_append p b)) = c"
    using Cons.prems(1-3) by (simp_all add: rb_append_wf)
  from Cons.IH [OF this, of "h @ p"] show ?case using o Cons.prems(3) by simp
qed simp

text \<open>
  C1 The receive buffer of capacity \<open>c\<close> always holds exactly the newest \<open>c\<close> bytes
  of everything that was appended (all of it when less), in order, whatever the
  sizes of the appended pieces, and its base cursor counts the overwritten bytes.
\<close>

theorem rb_retains_newest:
  assumes "newReceiveBuffer c = Inr b"
  shows "rb_view (fold rb_append ps b) = drop (length (concat ps) - nat c) (concat ps) \<and>
         rb_base (fold rb_append ps b) = length (concat ps) - nat c"
proof -
  note w = new_wf [OF assms]
  then have "length (rb_data b) = nat c" by auto
  then show ?thesis using w rb_appends_retain [of b "nat c" "[]" ps] by simp
qed

theorem rb_retains_newest_witness:
  "rb_view (fold rb_append [''ab'', ''cde'', ''f''] (projr (newReceiveBuffer 4))) = ''cdef''"
  using rb_retains_newest [of 4 "projr (newReceiveBuffer 4)" "[''ab'', ''cde'', ''f'']"]
  by (simp add: newReceiveBuffer_def)

lemma rb_log_entries_open: "\<not> rb_closed b \<Longrightarrow> log_entries rb_append rb_entries b ps = concat ps"
  by (induction ps arbitrary: b) (auto simp: rb_entries_def)

text \<open>
  C2 A reader that starts at cursor 0 and passes each \<open>Next\<close> back, with any
  appends of any sizes between its reads, has received exactly the byte stream up
  to its cursor, provided no chunk was marked dropped: no byte is skipped,
  duplicated or reordered by the circular storage.
\<close>

theorem rb_reader_exact:
  assumes "newReceiveBuffer c = Inr b" "\<forall>lim. Fetch lim \<in> set as \<longrightarrow> 0 < lim"
    and "follow rb_append rb_fetch (b, 0, [], False) as = (b', n', got, False)"
  shows "n' \<le> length (concat (put_args as)) \<and> got = take n' (concat (put_args as))"
proof -
  note w = new_wf [OF assms(1)]
  have "rbl.retains b []" using w by (simp add: rbl.retains_def)
  from rbl.follow_exact [OF _ this _ _ _ assms(2,3), of 0] show ?thesis
    using w by (simp add: rb_log_entries_open)
qed

theorem rb_reader_exact_witness:
  "case follow rb_append rb_fetch (projr (newReceiveBuffer 4), 0, [], False)
      [Put ''abc'', Fetch 2, Put ''de'', Fetch 9]
   of (b', n', got, lost) \<Rightarrow> \<not> lost \<and> n' = 5 \<and> got = take n' ''abcde''"
proof -
  let ?b = "projr (newReceiveBuffer 4)" and ?as = "[Put ''abc'', Fetch 2, Put ''de'', Fetch 9]"
  obtain b' n' got lost where r: "follow rb_append rb_fetch (?b, 0, [], False) ?as = (b', n', got, lost)"
    by (rule prod_cases4)
  have "case follow rb_append rb_fetch (?b, 0, [], False) ?as of (b', n', got, lost) \<Rightarrow> \<not> lost \<and> n' = 5"
    by code_simp
  then have d: "\<not> lost \<and> n' = 5" unfolding r prod.case .
  have "newReceiveBuffer 4 = Inr ?b" by (simp add: newReceiveBuffer_def)
  then have "got = take n' (concat (put_args ?as))"
    using rb_reader_exact [of 4 ?b ?as b' n' got] r d by (simp del: follow.simps)
  then show ?thesis unfolding r prod.case using d by simp
qed

datatype rb_op = RAppend "byte list" | RClose "goerr option" | RRelease

fun rb_run :: "rb_op \<Rightarrow> receive_buffer \<Rightarrow> receive_buffer" where
  "rb_run (RAppend p) b = rb_append p b"
| "rb_run (RClose e) b = rb_close e b"
| "rb_run RRelease b = rb_release b"

lemma rb_run_notify: "rb_run op b = b \<or> rb_notify (rb_run op b) = Suc (rb_notify b)"
  by (cases op) (auto simp: rb_append_def rb_close_def rb_release_def Let_def)

lemma rb_notify_mono: "rb_notify b \<le> rb_notify (fold rb_run ops b)"
proof (induction ops arbitrary: b)
  case (Cons op ops)
  show ?case using Cons.IH [of "rb_run op b"] rb_run_notify [of op b] by auto
qed simp

lemma rb_notify_same: "rb_notify (fold rb_run ops b) = rb_notify b \<Longrightarrow> fold rb_run ops b = b"
proof (induction ops)
  case (Cons op ops)
  show ?case
  proof (cases "rb_run op b = b")
    case True
    then have "fold rb_run (op # ops) b = fold rb_run ops b" by (simp only: fold_simps)
    then show ?thesis using Cons by metis
  next
    case False
    then have "rb_notify b < rb_notify (rb_run op b)" using rb_run_notify [of op b] by linarith
    then have "rb_notify b < rb_notify (fold rb_run ops (rb_run op b))"
      using rb_notify_mono [of "rb_run op b" ops] by linarith
    then show ?thesis using Cons.prems by (simp only: fold_simps)
  qed
qed simp

lemma rb_attempt_wait: "rb_attempt b n lim = Wait (Some g) \<Longrightarrow> g = rb_notify b"
  by (simp add: rb_attempt_def rb_readChunk_def Let_def no_output_def split: if_splits)

text \<open>
  C3 No wakeup is lost. A reader that was told to wait for a generation of the
  notification channel sleeps only while the buffer is exactly the state it
  inspected: if after any further operations that generation is still the current
  one, none of them changed anything; and a state in which the reader would get
  an answer always has a newer generation.
\<close>

theorem rb_no_lost_wakeup:
  assumes "rb_attempt b n lim = Wait (Some g)"
  shows "g = rb_notify b \<and> g \<le> rb_notify (fold rb_run ops b) \<and>
         (rb_notify (fold rb_run ops b) = g \<longrightarrow> fold rb_run ops b = b) \<and>
         (rb_attempt (fold rb_run ops b) n lim \<noteq> Wait (Some g) \<longrightarrow> g < rb_notify (fold rb_run ops b))"
proof -
  have g: "g = rb_notify b" using rb_attempt_wait [OF assms] by simp
  have mono: "g \<le> rb_notify (fold rb_run ops b)" using rb_notify_mono g by simp
  have same: "rb_notify (fold rb_run ops b) = g \<Longrightarrow> fold rb_run ops b = b"
    using rb_notify_same g by blast
  have "rb_notify (fold rb_run ops b) \<noteq> g" if "rb_attempt (fold rb_run ops b) n lim \<noteq> Wait (Some g)"
    using that same assms by metis
  then show ?thesis using g mono same by (metis order_less_le)
qed

theorem rb_no_lost_wakeup_witness:
  "0 < rb_notify (fold rb_run [RAppend ''x''] (projr (newReceiveBuffer 4)))"
proof -
  have w: "rb_attempt (projr (newReceiveBuffer 4)) 0 1 = Wait (Some 0)"
    by (simp add: newReceiveBuffer_def rb_attempt_def rb_readChunk_def no_output_def)
  have "rb_attempt (fold rb_run [RAppend ''x''] (projr (newReceiveBuffer 4))) 0 1 \<noteq> Wait (Some 0)"
    by code_simp
  then show ?thesis using rb_no_lost_wakeup [OF w, of "[RAppend ''x'']"] by simp
qed

text \<open>
  What \<open>readOutput\<close> answers: a positive-limit read either returns the chunk one
  of the inspected states holds at its cursor, or ends with the close error
  (\<open>io.EOF\<close> by default) of a closed state that has no unread byte, or with the
  context error; it never ends while unread bytes are retained.
\<close>

theorem rb_readOutput_answers:
  assumes "\<forall>b \<in> set bs. rb_wf b" "0 < lim"
  shows "(\<exists>b \<in> set bs. \<exists>chunk. rb_readOutput bs ctx n lim = Inr chunk \<and>
            rb_fetch b n lim = Some (oc_data chunk, oc_next chunk, oc_dropped chunk)) \<or>
         (\<exists>b \<in> set bs. rb_closed b \<and> rb_base b + rb_size b \<le> n \<and>
            rb_readOutput bs ctx n lim = Inl (case rb_err b of Some e \<Rightarrow> e | None \<Rightarrow> IoEOF)) \<or>
         (rb_readOutput bs ctx n lim = Inl ctx \<and>
            (\<forall>b \<in> set bs. \<not> rb_closed b \<and> rb_base b + rb_size b \<le> n))"
proof -
  let ?turn = "\<lambda>b. rb_attempt b n lim"
  have r: "rb_readOutput bs ctx n lim = wait_loop ?turn bs ctx"
    using assms(2) by (simp add: rb_readOutput_def)
  have over: "rb_base b + rb_size b \<le> n" if "rb_wf b" "\<not> max n (rb_base b) < rb_base b + rb_size b" for b
    using that by (auto simp: rb_wf_def max_def split: if_splits)
  consider b where "b \<in> set bs" "?turn b = Answer (wait_loop ?turn bs ctx)"
    | "wait_loop ?turn bs ctx = Inl ctx" "\<forall>b \<in> set bs. \<exists>g. ?turn b = Wait g"
    using wait_loop_answer [where turn = ?turn and ss = bs and ctx = ctx, OF refl] by blast
  then show ?thesis
  proof cases
    case 1
    then have wf: "rb_wf b" using assms(1) by blast
    show ?thesis
    proof (cases "max n (rb_base b) < rb_base b + rb_size b")
      case True
      then obtain chunk where "?turn b = Answer (Inr chunk)"
        using rb_attempt_data [OF wf assms(2)] by blast
      then show ?thesis using 1 r by (intro disjI1 bexI [of _ b]) (auto simp: rb_fetch_def)
    next
      case False
      then show ?thesis using 1 rb_attempt_empty [OF wf False, of lim] r over [OF wf False]
        by (intro disjI2 disjI1 bexI [of _ b]) (auto split: if_splits)
    qed
  next
    case 2
    have "\<not> rb_closed b \<and> rb_base b + rb_size b \<le> n" if "b \<in> set bs" for b
    proof -
      have wf: "rb_wf b" and w: "\<exists>g. ?turn b = Wait g" using that assms(1) 2(2) by auto
      have m: "\<not> max n (rb_base b) < rb_base b + rb_size b"
      proof
        assume "max n (rb_base b) < rb_base b + rb_size b"
        from rb_attempt_data [OF wf assms(2) this] show False using w by simp
      qed
      then show ?thesis using w rb_attempt_empty [OF wf m, of lim] over [OF wf m] by (auto split: if_splits)
    qed
    then show ?thesis using 2(1) r by auto
  qed
qed

theorem rb_readOutput_answers_witness:
  "rb_readOutput [rb_close None (projr (newReceiveBuffer 4))] CtxCanceled 0 1 = Inl IoEOF"
  using rb_readOutput_answers [of "[rb_close None (projr (newReceiveBuffer 4))]" 1 CtxCanceled 0]
  by (auto simp: newReceiveBuffer_def rb_wf_def rb_close_def rb_signalLocked_def rb_fetch_def
      rb_attempt_def rb_readChunk_def no_output_def)

end
