(* ===== verification/Session_Types.thy ===== *)
theory Session_Types
  imports Cursor_Log Complex_Main
begin

text \<open>
  The value types of \<open>internal/core/session\<close> that several components share:
  write sources, lifecycle states, activity and structured events. Go's open
  string types \<open>Actor\<close> and \<open>Operation\<close> stay strings; \<open>EventType\<close> is a datatype
  with the declared constants and one constructor for other values; the values
  of a \<open>map[string]any\<close> are \<open>goval\<close> (a \<open>float64\<close> is the rational it denotes),
  with \<open>None\<close> for the nil map. Times are
  instants (\<open>int\<close>), so \<open>UTC()\<close> does not change them.
\<close>

type_synonym time = int

section \<open>Actors\<close>

type_synonym actor = string

definition ActorUser :: actor where "ActorUser = ''user''"
definition ActorAgent :: actor where "ActorAgent = ''agent''"
definition ActorSystem :: actor where "ActorSystem = ''system''"

definition Actor_Valid :: "actor \<Rightarrow> bool" where
  "Actor_Valid a \<longleftrightarrow> a = ActorUser \<or> a = ActorAgent \<or> a = ActorSystem"

section \<open>Lifecycle states\<close>

datatype session_state =
  StateNew | StateConnecting | StateOpen | StateClosing | StateClosed | StateFailed

fun SessionState_String :: "session_state \<Rightarrow> string" where
  "SessionState_String StateNew = ''new''"
| "SessionState_String StateConnecting = ''connecting''"
| "SessionState_String StateOpen = ''open''"
| "SessionState_String StateClosing = ''closing''"
| "SessionState_String StateClosed = ''closed''"
| "SessionState_String StateFailed = ''failed''"

section \<open>Activity\<close>

definition OperationWrite :: string where "OperationWrite = ''write''"

record session_event =
  se_timestamp :: time
  se_actor :: actor
  se_operation :: string
  se_data :: "byte list"

definition zero_session_event :: session_event where
  "zero_session_event = \<lparr>se_timestamp = 0, se_actor = '''', se_operation = '''', se_data = []\<rparr>"

record activity_chunk =
  ac_events :: "session_event list"
  ac_next :: nat
  ac_dropped :: bool

record write_request =
  wr_actor :: actor
  wr_data :: "byte list"

section \<open>Structured events\<close>

datatype event_type =
    EventOperationState | EventDebugState | EventDebugClientReport
  | EventSessionCreated | EventSessionAttached | EventSessionDetached
  | EventLeaseAcquired | EventLeaseReleased
  | EventFileTransferStarted | EventFileTransferProgress | EventFileTransferCompleted
  | EventFileTransferCancelled | EventFileTransferFailed
  | EventTerminalCommandStarted | EventTerminalCommandOutputStarted
  | EventTerminalCommandCompleted | EventTerminalCommandFailed
  | EventOther string

datatype goval =
    GNil
  | GBool bool
  | GInt int
  | GFloat rat
  | GString string
  | GStrings "string list"
  | GList "goval list"
  | GMap "(string \<times> goval) list option"

type_synonym metadata = "(string \<times> goval) list option"

record event =
  ev_id :: nat
  ev_timestamp :: time
  ev_session :: string
  ev_type :: event_type
  ev_actor :: actor
  ev_metadata :: metadata

definition zero_event :: event where
  "zero_event = \<lparr>ev_id = 0, ev_timestamp = 0, ev_session = '''', ev_type = EventOther '''',
     ev_actor = '''', ev_metadata = None\<rparr>"

record event_chunk =
  ec_events :: "event list"
  ec_next :: nat
  ec_dropped :: bool

text \<open>Cloning keeps every value; an empty map becomes the nil map.\<close>

fun cloneEventValue :: "goval \<Rightarrow> goval" where
  "cloneEventValue (GMap None) = GMap None"
| "cloneEventValue (GMap (Some m)) =
     GMap (if m = [] then None else Some (map (\<lambda>(k, v). (k, cloneEventValue v)) m))"
| "cloneEventValue (GList vs) = GList (map cloneEventValue vs)"
| "cloneEventValue v = v"

definition cloneEventMetadata :: "metadata \<Rightarrow> metadata" where
  "cloneEventMetadata m =
     (case m of
        None \<Rightarrow> None
      | Some kvs \<Rightarrow> if kvs = [] then None else Some (map (\<lambda>(k, v). (k, cloneEventValue v)) kvs))"

lemma cloneEventValue_idem: "cloneEventValue (cloneEventValue v) = cloneEventValue v"
  by (induction v rule: cloneEventValue.induct) (auto split: prod.splits)

lemma cloneEventMetadata_idem [simp]: "cloneEventMetadata (cloneEventMetadata m) = cloneEventMetadata m"
  by (cases m) (auto simp: cloneEventMetadata_def cloneEventValue_idem)

lemma cloneEventMetadata_keys:
  "m = Some kvs \<Longrightarrow> kvs \<noteq> [] \<Longrightarrow>
     \<exists>kvs'. cloneEventMetadata m = Some kvs' \<and> map fst kvs' = map fst kvs"
  by (auto simp: cloneEventMetadata_def intro!: nth_equalityI)

end
