(* ===== verification/Activity_Buffer.thy ===== *)
theory Activity_Buffer
  imports Session_Types
begin

text \<open>
  \<open>internal/core/session/activity_buffer.go\<close>: recent write activity, bounded both
  by the number of events and by their total payload bytes. The eviction loop of
  \<open>append\<close> is \<open>ab_evict\<close>; an event larger than the byte bound is not stored,
  it only moves the cursors, so its readers learn that something was dropped.
\<close>

abbreviation "ErrInvalidActivityBufferCapacity \<equiv> ErrSentinel ''session.ErrInvalidActivityBufferCapacity''"
abbreviation "ErrInvalidActivityBufferByteCapacity \<equiv> ErrSentinel ''session.ErrInvalidActivityBufferByteCapacity''"
abbreviation "ErrInvalidActivityReadLimit \<equiv> ErrSentinel ''session.ErrInvalidActivityReadLimit''"

record activity_buffer =
  ab_events :: "session_event list"
  ab_start :: nat
  ab_size :: nat
  ab_base :: nat
  ab_bytes :: int
  ab_maxBytes :: int
  ab_notify :: nat
  ab_closed :: bool
  ab_err :: "goerr option"

definition newActivityBuffer :: "int \<Rightarrow> int \<Rightarrow> goerr + activity_buffer" where
  "newActivityBuffer capacity maxBytes =
     (if capacity \<le> 0 then Inl ErrInvalidActivityBufferCapacity
      else if maxBytes \<le> 0 then Inl ErrInvalidActivityBufferByteCapacity
      else Inr \<lparr>ab_events = replicate (nat capacity) zero_session_event, ab_start = 0, ab_size = 0,
                ab_base = 0, ab_bytes = 0, ab_maxBytes = maxBytes, ab_notify = 0,
                ab_closed = False, ab_err = None\<rparr>)"

definition ab_signalLocked :: "activity_buffer \<Rightarrow> activity_buffer" where
  "ab_signalLocked b = b\<lparr>ab_notify := Suc (ab_notify b)\<rparr>"

function ab_evict :: "nat \<Rightarrow> activity_buffer \<Rightarrow> activity_buffer" where
  "ab_evict n b =
     (if 0 < ab_size b \<and> (ab_size b = length (ab_events b) \<or> ab_bytes b + int n > ab_maxBytes b)
      then ab_evict n
             (b\<lparr>ab_bytes := ab_bytes b - int (length (se_data (ab_events b ! ab_start b))),
                ab_events := (ab_events b)[ab_start b := zero_session_event],
                ab_start := (ab_start b + 1) mod length (ab_events b),
                ab_size := ab_size b - 1,
                ab_base := ab_base b + 1\<rparr>)
      else b)"
  by pat_completeness auto
termination by (relation "measure (\<lambda>(n, b). ab_size b)") auto

declare ab_evict.simps [simp del]

definition ab_append :: "session_event \<Rightarrow> activity_buffer \<Rightarrow> activity_buffer" where
  "ab_append event b =
     (if ab_closed b \<or> length (ab_events b) = 0 then b
      else
        let b1 = ab_evict (length (se_data event)) b;
            b2 = (if int (length (se_data event)) \<le> ab_maxBytes b1
                  then b1\<lparr>ab_events := (ab_events b1)
                             [(ab_start b1 + ab_size b1) mod length (ab_events b1) := event],
                          ab_size := ab_size b1 + 1,
                          ab_bytes := ab_bytes b1 + int (length (se_data event))\<rparr>
                  else b1\<lparr>ab_base := ab_base b1 + 1\<rparr>)
        in ab_signalLocked b2)"

definition ab_copyLocked :: "activity_buffer \<Rightarrow> nat \<Rightarrow> nat \<Rightarrow> bool \<Rightarrow> activity_chunk" where
  "ab_copyLocked b start count dropped =
     \<lparr>ac_events = map (\<lambda>index. ab_events b ! ((ab_start b + (start - ab_base b) + index) mod length (ab_events b)))
                     [0..<count],
      ac_next = start + count, ac_dropped = dropped\<rparr>"

definition ab_readChunk :: "activity_buffer \<Rightarrow> nat \<Rightarrow> int \<Rightarrow>
    activity_chunk \<times> nat option \<times> bool \<times> goerr option" where
  "ab_readChunk b next_cursor limit =
     (if length (ab_events b) = 0
      then (\<lparr>ac_events = [], ac_next = 0, ac_dropped = False\<rparr>, Some (ab_notify b), True, ab_err b)
      else
        let dropped = next_cursor < ab_base b;
            next' = (if dropped then ab_base b else next_cursor);
            end_cursor = ab_base b + ab_size b
        in if next' < end_cursor
           then (ab_copyLocked b next' (nat (min limit (int (end_cursor - next')))) dropped, None, False, None)
           else if dropped
           then (\<lparr>ac_events = [], ac_next = next', ac_dropped = True\<rparr>, None, False, None)
           else (\<lparr>ac_events = [], ac_next = 0, ac_dropped = False\<rparr>, Some (ab_notify b), ab_closed b, ab_err b))"

definition ab_attempt :: "activity_buffer \<Rightarrow> nat \<Rightarrow> int \<Rightarrow> activity_chunk attempt" where
  "ab_attempt b next_cursor limit =
     (case ab_readChunk b next_cursor limit of (chunk, notify, isClosed, err) \<Rightarrow>
        if 0 < length (ac_events chunk) \<or> ac_dropped chunk then Answer (Inr chunk)
        else if isClosed then Answer (Inl (case err of Some e \<Rightarrow> e | None \<Rightarrow> IoEOF))
        else Wait notify)"

definition ab_readActivity :: "activity_buffer list \<Rightarrow> goerr \<Rightarrow> nat \<Rightarrow> int \<Rightarrow> goerr + activity_chunk" where
  "ab_readActivity bs ctx next_cursor limit =
     (if limit \<le> 0 then Inl ErrInvalidActivityReadLimit
      else wait_loop (\<lambda>b. ab_attempt b next_cursor limit) bs ctx)"

definition ab_readRecent :: "activity_buffer \<Rightarrow> int \<Rightarrow> goerr + activity_chunk" where
  "ab_readRecent b limit =
     (if limit \<le> 0 then Inl ErrInvalidActivityReadLimit
      else if length (ab_events b) = 0 then Inl IoEOF
      else
        let count = nat (min limit (int (ab_size b)));
            start = ab_base b + (ab_size b - count)
        in Inr (ab_copyLocked b start count False))"

definition ab_close :: "goerr option \<Rightarrow> activity_buffer \<Rightarrow> activity_buffer" where
  "ab_close err b = (if ab_closed b then b else ab_signalLocked (b\<lparr>ab_closed := True, ab_err := err\<rparr>))"

definition ab_release :: "activity_buffer \<Rightarrow> activity_buffer" where
  "ab_release b = ab_signalLocked (b\<lparr>ab_events := [], ab_start := 0, ab_size := 0, ab_bytes := 0\<rparr>)"

section \<open>Well-formed buffers\<close>

definition ab_view :: "activity_buffer \<Rightarrow> session_event list" where
  "ab_view b = ring_view (ab_events b) (ab_start b) (ab_size b)"

definition payload :: "session_event list \<Rightarrow> int" where
  "payload es = (\<Sum>e\<leftarrow>es. int (length (se_data e)))"

definition ab_wf :: "activity_buffer \<Rightarrow> bool" where
  "ab_wf b \<longleftrightarrow> 0 < length (ab_events b) \<and> ab_start b < length (ab_events b) \<and>
     ab_size b \<le> length (ab_events b) \<and> 0 < ab_maxBytes b \<and>
     ab_bytes b = payload (ab_view b) \<and> ab_bytes b \<le> ab_maxBytes b"

lemma length_ab_view [simp]: "length (ab_view b) = ab_size b"
  by (simp add: ab_view_def)

lemma payload_simps [simp]:
  "payload [] = 0" "payload (e # es) = int (length (se_data e)) + payload es"
  "payload (xs @ ys) = payload xs + payload ys"
  by (simp_all add: payload_def)

lemma payload_nonneg [simp]: "0 \<le> payload es"
  by (induction es) auto

lemma ab_signalLocked_sel [simp]:
  "ab_events (ab_signalLocked b) = ab_events b" "ab_start (ab_signalLocked b) = ab_start b"
  "ab_size (ab_signalLocked b) = ab_size b" "ab_base (ab_signalLocked b) = ab_base b"
  "ab_bytes (ab_signalLocked b) = ab_bytes b" "ab_maxBytes (ab_signalLocked b) = ab_maxBytes b"
  "ab_closed (ab_signalLocked b) = ab_closed b" "ab_err (ab_signalLocked b) = ab_err b"
  "ab_notify (ab_signalLocked b) = Suc (ab_notify b)" "ab_view (ab_signalLocked b) = ab_view b"
  by (simp_all add: ab_signalLocked_def ab_view_def)

lemma ab_wf_signal [simp]: "ab_wf (ab_signalLocked b) = ab_wf b"
  by (simp add: ab_wf_def)

lemma newActivity_wf:
  "newActivityBuffer c m = Inr b \<Longrightarrow>
     ab_wf b \<and> ab_view b = [] \<and> ab_base b = 0 \<and> \<not> ab_closed b \<and> ab_maxBytes b = m"
  by (auto simp: newActivityBuffer_def ab_wf_def ab_view_def split: if_splits)

text \<open>One eviction drops exactly the oldest event and its payload.\<close>

definition ab_drop_oldest :: "activity_buffer \<Rightarrow> activity_buffer" where
  "ab_drop_oldest b =
     b\<lparr>ab_bytes := ab_bytes b - int (length (se_data (ab_events b ! ab_start b))),
       ab_events := (ab_events b)[ab_start b := zero_session_event],
       ab_start := (ab_start b + 1) mod length (ab_events b),
       ab_size := ab_size b - 1,
       ab_base := ab_base b + 1\<rparr>"

lemma ab_drop_oldest_sel [simp]:
  "length (ab_events (ab_drop_oldest b)) = length (ab_events b)"
  "ab_size (ab_drop_oldest b) = ab_size b - 1" "ab_base (ab_drop_oldest b) = ab_base b + 1"
  "ab_closed (ab_drop_oldest b) = ab_closed b" "ab_maxBytes (ab_drop_oldest b) = ab_maxBytes b"
  "ab_notify (ab_drop_oldest b) = ab_notify b" "ab_err (ab_drop_oldest b) = ab_err b"
  by (simp_all add: ab_drop_oldest_def)

lemma ab_drop_oldest_view:
  assumes "ab_wf b" "0 < ab_size b"
  shows "ab_view (ab_drop_oldest b) = tl (ab_view b)" and "ab_wf (ab_drop_oldest b)"
proof -
  show view: "ab_view (ab_drop_oldest b) = tl (ab_view b)"
    using ring_view_clear_oldest [of "ab_size b" "ab_events b" "ab_start b"] assms
    by (simp add: ab_drop_oldest_def ab_view_def ab_wf_def)
  have "0 < length (ab_view b)" using assms(2) by simp
  then obtain x xs where v: "ab_view b = x # xs" by (cases "ab_view b") auto
  moreover have "ab_view b ! 0 = ab_events b ! ab_start b"
    using assms by (simp add: ab_view_def nth_ring_view ab_wf_def)
  ultimately have "payload (ab_view b) = int (length (se_data (ab_events b ! ab_start b))) + payload (tl (ab_view b))"
    by simp
  moreover have "ab_bytes (ab_drop_oldest b) = ab_bytes b - int (length (se_data (ab_events b ! ab_start b)))"
    "ab_start (ab_drop_oldest b) < length (ab_events b)"
    using assms by (simp_all add: ab_drop_oldest_def ab_wf_def)
  ultimately show "ab_wf (ab_drop_oldest b)" using assms view by (auto simp: ab_wf_def)
qed

lemma ab_evict_unfold:
  "ab_evict n b =
     (if 0 < ab_size b \<and> (ab_size b = length (ab_events b) \<or> ab_bytes b + int n > ab_maxBytes b)
      then ab_evict n (ab_drop_oldest b) else b)"
  by (subst ab_evict.simps) (simp add: ab_drop_oldest_def)

lemma ab_evict_spec:
  assumes "ab_wf b"
  shows "\<exists>k \<le> ab_size b. ab_view (ab_evict n b) = drop k (ab_view b) \<and> ab_base (ab_evict n b) = ab_base b + k \<and>
     ab_wf (ab_evict n b) \<and> ab_closed (ab_evict n b) = ab_closed b \<and> ab_maxBytes (ab_evict n b) = ab_maxBytes b \<and>
     length (ab_events (ab_evict n b)) = length (ab_events b) \<and> ab_notify (ab_evict n b) = ab_notify b \<and>
     (0 < ab_size (ab_evict n b) \<longrightarrow> ab_size (ab_evict n b) < length (ab_events b) \<and>
        ab_bytes (ab_evict n b) + int n \<le> ab_maxBytes b)"
  using assms
proof (induction "ab_size b" arbitrary: b)
  case 0
  then show ?case by (intro exI [of _ 0]) (simp add: ab_evict_unfold [of n b])
next
  case (Suc sz)
  show ?case
  proof (cases "ab_size b = length (ab_events b) \<or> ab_bytes b + int n > ab_maxBytes b")
    case False
    then show ?thesis using Suc.prems
      by (intro exI [of _ 0]) (auto simp: ab_evict_unfold [of n b] ab_wf_def)
  next
    case True
    have pos: "0 < ab_size b" using Suc.hyps(2) by simp
    note d = ab_drop_oldest_view [OF Suc.prems pos]
    have e: "ab_evict n b = ab_evict n (ab_drop_oldest b)"
      using True pos by (simp add: ab_evict_unfold [of n b])
    have "sz = ab_size (ab_drop_oldest b)" using Suc.hyps(2) by simp
    from Suc.hyps(1) [OF this d(2)] obtain k where "k \<le> sz"
      and "ab_view (ab_evict n b) = drop k (tl (ab_view b))"
      and "ab_base (ab_evict n b) = ab_base b + 1 + k" and rest: "ab_wf (ab_evict n b)"
        "ab_closed (ab_evict n b) = ab_closed b" "ab_maxBytes (ab_evict n b) = ab_maxBytes b"
        "length (ab_events (ab_evict n b)) = length (ab_events b)" "ab_notify (ab_evict n b) = ab_notify b"
        "0 < ab_size (ab_evict n b) \<longrightarrow> ab_size (ab_evict n b) < length (ab_events b) \<and>
           ab_bytes (ab_evict n b) + int n \<le> ab_maxBytes b"
      unfolding e d(1) using \<open>sz = ab_size (ab_drop_oldest b)\<close> by auto
    then show ?thesis using Suc.hyps(2)
      by (intro exI [of _ "Suc k"]) (simp add: drop_Suc)
  qed
qed


lemma ab_append_closed: "ab_closed b \<Longrightarrow> ab_append e b = b"
  by (simp add: ab_append_def)

text \<open>
  What an append does to a well-formed open buffer: the oldest events give way
  and the event is stored behind the rest, or, when it alone exceeds the byte
  bound, everything gives way and only the cursors move.
\<close>

lemma ab_append_spec:
  assumes wf: "ab_wf b" and opn: "\<not> ab_closed b"
  shows "\<exists>k \<le> Suc (ab_size b). ab_view (ab_append e b) = drop k (ab_view b @ [e]) \<and>
     ab_base (ab_append e b) = ab_base b + k \<and> ab_wf (ab_append e b) \<and>
     (k \<le> ab_size b \<longleftrightarrow> int (length (se_data e)) \<le> ab_maxBytes b) \<and>
     ab_notify (ab_append e b) = Suc (ab_notify b) \<and> \<not> ab_closed (ab_append e b) \<and>
     ab_maxBytes (ab_append e b) = ab_maxBytes b"
proof -
  let ?n = "length (se_data e)"
  define b1 where "b1 = ab_evict ?n b"
  obtain k where k: "k \<le> ab_size b" "ab_view b1 = drop k (ab_view b)" "ab_base b1 = ab_base b + k"
     "ab_wf b1" "ab_closed b1 = ab_closed b" "ab_maxBytes b1 = ab_maxBytes b"
     "length (ab_events b1) = length (ab_events b)" "ab_notify b1 = ab_notify b"
     "0 < ab_size b1 \<longrightarrow> ab_size b1 < length (ab_events b) \<and> ab_bytes b1 + int ?n \<le> ab_maxBytes b"
    using ab_evict_spec [OF wf, of ?n, folded b1_def] by (elim exE conjE) (rule that)
  have ne: "length (ab_events b) \<noteq> 0" using wf by (simp add: ab_wf_def)
  have room: "ab_size b1 < length (ab_events b1)"
    using k(7,9) ne by (cases "ab_size b1") auto
  show ?thesis
  proof (cases "int ?n \<le> ab_maxBytes b")
    case True
    define b2 where "b2 = b1\<lparr>ab_events := (ab_events b1)[(ab_start b1 + ab_size b1) mod length (ab_events b1) := e],
                          ab_size := ab_size b1 + 1, ab_bytes := ab_bytes b1 + int ?n\<rparr>"
    have app: "ab_append e b = ab_signalLocked b2"
      using True opn ne k(6) by (simp add: ab_append_def Let_def b1_def [symmetric] b2_def)
    have sel: "ab_events b2 = (ab_events b1)[(ab_start b1 + ab_size b1) mod length (ab_events b1) := e]"
      "ab_start b2 = ab_start b1" "ab_size b2 = Suc (ab_size b1)" "ab_bytes b2 = ab_bytes b1 + int ?n"
      "ab_base b2 = ab_base b1" "ab_maxBytes b2 = ab_maxBytes b1" "ab_closed b2 = ab_closed b1"
      "ab_notify b2 = ab_notify b1"
      by (simp_all add: b2_def)
    have v1: "ab_view b2 = ab_view b1 @ [e]"
      using ring_view_push [OF room, of "ab_start b1" e] by (simp only: ab_view_def sel)
    then have view: "ab_view b2 = drop k (ab_view b @ [e])" using k(1,2) by simp
    have bytes: "ab_bytes b1 + int ?n \<le> ab_maxBytes b"
    proof (cases "ab_size b1")
      case 0
      then have "ab_view b1 = []" by (metis length_0_conv length_ab_view)
      then have "ab_bytes b1 = 0" using k(4) by (simp add: ab_wf_def)
      then show ?thesis using True by simp
    next
      case (Suc m)
      then show ?thesis using k(9) by simp
    qed
    have "ab_wf b2" using k(4,6) room bytes by (simp add: ab_wf_def sel v1)
    then show ?thesis
      unfolding app using view k opn True by (intro exI [of _ k]) (simp add: sel)
  next
    case False
    have "ab_size b1 = 0"
    proof (rule ccontr)
      assume "ab_size b1 \<noteq> 0"
      then have "ab_bytes b1 + int ?n \<le> ab_maxBytes b" using k(9) by simp
      moreover have "0 \<le> ab_bytes b1" using k(4) by (simp add: ab_wf_def)
      ultimately show False using False by linarith
    qed
    moreover have "ab_size b1 = ab_size b - k" using k(2) by (metis length_ab_view length_drop)
    ultimately have keq: "k = ab_size b" "ab_view b1 = []"
      using k(1,2) by (simp_all flip: length_0_conv)
    have app: "ab_append e b = ab_signalLocked (b1\<lparr>ab_base := ab_base b1 + 1\<rparr>)"
      using False opn ne k(6) by (simp add: ab_append_def Let_def b1_def [symmetric])
    have "ab_view (b1\<lparr>ab_base := ab_base b1 + 1\<rparr>) = []" using keq by (simp add: ab_view_def)
    moreover from this have "ab_wf (b1\<lparr>ab_base := ab_base b1 + 1\<rparr>)"
      using k(4) keq by (simp add: ab_wf_def)
    ultimately show ?thesis
      unfolding app using k opn keq False by (intro exI [of _ "Suc k"]) simp
  qed
qed

section \<open>The activity buffer is a cursor log\<close>

definition ab_entries :: "activity_buffer \<Rightarrow> session_event \<Rightarrow> session_event list" where
  "ab_entries b e = (if ab_closed b then [] else [e])"

definition ab_fetch :: "activity_buffer \<Rightarrow> nat \<Rightarrow> int \<Rightarrow> (session_event list \<times> nat \<times> bool) option" where
  "ab_fetch b next_cursor limit =
     (case ab_attempt b next_cursor limit of
        Answer (Inr chunk) \<Rightarrow> Some (ac_events chunk, ac_next chunk, ac_dropped chunk)
      | _ \<Rightarrow> None)"

lemma ab_copyLocked_view:
  assumes "ab_base b \<le> start" "start + count \<le> ab_base b + ab_size b"
  shows "ab_copyLocked b start count d =
    \<lparr>ac_events = take count (drop (start - ab_base b) (ab_view b)), ac_next = start + count, ac_dropped = d\<rparr>"
proof -
  have "start - ab_base b + count \<le> ab_size b" using assms by linarith
  from ring_view_sub [OF this, of "ab_events b" "ab_start b"] show ?thesis
    by (simp add: ab_copyLocked_def ab_view_def)
qed

definition ab_segment :: "activity_buffer \<Rightarrow> nat \<Rightarrow> int \<Rightarrow> session_event list" where
  "ab_segment b n limit = take (nat limit) (drop (max n (ab_base b) - ab_base b) (ab_view b))"

lemma length_ab_segment:
  "length (ab_segment b n limit) = min (nat limit) (ab_base b + ab_size b - max n (ab_base b))"
  by (simp add: ab_segment_def)

lemma ab_fetch_cases:
  assumes "ab_wf b" "0 < limit"
  shows "ab_fetch b n limit =
    (if max n (ab_base b) < ab_base b + ab_size b \<or> n < ab_base b
     then Some (ab_segment b n limit, max n (ab_base b) + length (ab_segment b n limit), n < ab_base b)
     else None)"
proof -
  let ?m = "max n (ab_base b)"
  have m: "(if n < ab_base b then ab_base b else n) = ?m" by (simp add: max_def)
  have ne: "length (ab_events b) \<noteq> 0" using assms(1) by (simp add: ab_wf_def)
  show ?thesis
  proof (cases "?m < ab_base b + ab_size b")
    case True
    define cnt where "cnt = nat (min limit (int (ab_base b + ab_size b - ?m)))"
    note seg = segment_count [OF assms(2) True length_ab_view, folded cnt_def, folded ab_segment_def]
    have "ab_copyLocked b ?m cnt (n < ab_base b) =
       \<lparr>ac_events = ab_segment b n limit, ac_next = ?m + cnt, ac_dropped = n < ab_base b\<rparr>"
      using seg(4) by (subst ab_copyLocked_view) (auto simp: seg(1))
    then have rc: "ab_readChunk b n limit =
        (\<lparr>ac_events = ab_segment b n limit, ac_next = ?m + cnt, ac_dropped = n < ab_base b\<rparr>, None, False, None)"
      using True ne by (simp only: ab_readChunk_def m cnt_def [symmetric] Let_def if_True if_False simp_thms)
    show ?thesis using True seg(2,3) by (simp add: ab_fetch_def ab_attempt_def rc)
  next
    case False
    then have "length (ab_segment b n limit) = 0" unfolding length_ab_segment by linarith
    then have "ab_segment b n limit = []" by simp
    then show ?thesis using False ne
      by (simp add: ab_fetch_def ab_attempt_def ab_readChunk_def Let_def m max_def)
  qed
qed

interpretation abl: cursor_log ab_wf ab_base ab_view ab_append ab_entries ab_fetch
proof unfold_locales
  fix b e assume wf: "ab_wf b"
  show "ab_wf (ab_append e b)"
    using ab_append_spec [OF wf, of e] wf by (cases "ab_closed b") (auto simp: ab_append_closed)
  show "\<exists>k \<le> length (ab_view b @ ab_entries b e).
     ab_view (ab_append e b) = drop k (ab_view b @ ab_entries b e) \<and> ab_base (ab_append e b) = ab_base b + k"
  proof (cases "ab_closed b")
    case True
    then show ?thesis by (intro exI [of _ 0]) (simp add: ab_entries_def ab_append_closed)
  next
    case False
    then show ?thesis using ab_append_spec [OF wf False, of e] by (auto simp: ab_entries_def)
  qed
next
  fix b lim n ys n' d
  assume "ab_wf b" "0 < lim" "ab_fetch b n lim = Some (ys, n', d)"
  then show "d = (n < ab_base b) \<and> ys = take (nat lim) (drop (max n (ab_base b) - ab_base b) (ab_view b)) \<and>
      n' = max n (ab_base b) + length ys"
    by (auto simp: ab_fetch_cases ab_segment_def split: if_splits)
next
  fix b lim n assume "ab_wf b" "0 < (lim::int)"
  then show "(ab_fetch b n lim = None) = (ab_base b \<le> n \<and> ab_base b + length (ab_view b) \<le> n)"
    by (auto simp: ab_fetch_cases max_def)
qed

section \<open>Properties\<close>

lemma ab_log_entries_open: "ab_wf b \<Longrightarrow> \<not> ab_closed b \<Longrightarrow> log_entries ab_append ab_entries b es = es"
proof (induction es arbitrary: b)
  case (Cons e es)
  have "\<not> ab_closed (ab_append e b)" using ab_append_spec [OF Cons.prems, of e] by blast
  then show ?case using Cons.IH [OF abl.inv_put] Cons.prems by (simp add: ab_entries_def)
qed simp

lemma ab_appends_keep:
  "ab_wf b \<Longrightarrow> \<not> ab_closed b \<Longrightarrow>
     ab_maxBytes (fold ab_append es b) = ab_maxBytes b \<and>
     length (ab_events (fold ab_append es b)) = length (ab_events b)"
proof (induction es arbitrary: b)
  case (Cons e es)
  note s = ab_append_spec [OF Cons.prems, of e]
  have "length (ab_events (ab_append e b)) = length (ab_events b)"
    using ab_evict_spec [OF Cons.prems(1), of "length (se_data e)"] by (auto simp: ab_append_def Let_def)
  moreover have "\<not> ab_closed (ab_append e b)" "ab_maxBytes (ab_append e b) = ab_maxBytes b" using s by auto
  ultimately show ?case using Cons.IH [OF abl.inv_put] Cons.prems by simp
qed simp

text \<open>
  Activity is bounded twice and only ever loses its oldest part: after any
  sequence of recorded operations, the retained events are a suffix of the
  history starting at the base cursor, there are at most \<open>capacity\<close> of them,
  and their payloads together never exceed \<open>maxBytes\<close>, also when a single
  operation is larger than the whole bound.
\<close>

theorem ab_bounded_suffix:
  assumes "newActivityBuffer c m = Inr b"
  shows "ab_view (fold ab_append es b) = drop (ab_base (fold ab_append es b)) es \<and>
         ab_base (fold ab_append es b) \<le> length es \<and>
         int (ab_size (fold ab_append es b)) \<le> c \<and>
         payload (ab_view (fold ab_append es b)) \<le> m"
proof -
  note w = newActivity_wf [OF assms]
  have cap: "int (length (ab_events b)) = c"
    using assms by (auto simp: newActivityBuffer_def split: if_splits)
  have "abl.retains b []" using w by (simp add: abl.retains_def)
  from abl.retains_puts [OF _ this, of es] have "abl.retains (fold ab_append es b) es"
    using w by (simp add: ab_log_entries_open)
  moreover have "ab_wf (fold ab_append es b)" using w by (simp add: abl.inv_puts)
  ultimately show ?thesis
    using ab_appends_keep [of b es] w cap by (auto simp: abl.retains_def ab_wf_def)
qed

theorem ab_bounded_suffix_witness:
  "payload (ab_view (fold ab_append
     [zero_session_event\<lparr>se_data := ''abc''\<rparr>, zero_session_event\<lparr>se_data := ''defg''\<rparr>]
     (projr (newActivityBuffer 8 5)))) \<le> 5"
proof -
  have "newActivityBuffer 8 5 = Inr (projr (newActivityBuffer 8 5))" by (simp add: newActivityBuffer_def)
  from ab_bounded_suffix [OF this] show ?thesis by blast
qed

end
