(* ===== verification/Event_Buffer.thy ===== *)
theory Event_Buffer
  imports Session_Types
begin

text \<open>
  \<open>internal/core/session/event_buffer.go\<close>: structured Session events in a
  fixed-size ring that overwrites its oldest slot. \<open>append\<close> assigns the event's
  ID from the cursor it gets and clones its metadata.
\<close>

abbreviation "ErrInvalidEventBufferCapacity \<equiv> ErrSentinel ''session.ErrInvalidEventBufferCapacity''"
abbreviation "ErrInvalidEventReadLimit \<equiv> ErrSentinel ''session.ErrInvalidEventReadLimit''"

record event_buffer =
  eb_events :: "event list"
  eb_start :: nat
  eb_size :: nat
  eb_base :: nat
  eb_notify :: nat
  eb_closed :: bool
  eb_err :: "goerr option"

definition newEventBuffer :: "int \<Rightarrow> goerr + event_buffer" where
  "newEventBuffer capacity =
     (if capacity \<le> 0 then Inl ErrInvalidEventBufferCapacity
      else Inr \<lparr>eb_events = replicate (nat capacity) zero_event, eb_start = 0, eb_size = 0,
                eb_base = 0, eb_notify = 0, eb_closed = False, eb_err = None\<rparr>)"

definition eb_signalLocked :: "event_buffer \<Rightarrow> event_buffer" where
  "eb_signalLocked b = b\<lparr>eb_notify := Suc (eb_notify b)\<rparr>"

text \<open>The event as the buffer stores it.\<close>

definition eb_stamp :: "event_buffer \<Rightarrow> event \<Rightarrow> event" where
  "eb_stamp b event = event\<lparr>ev_id := eb_base b + eb_size b,
                            ev_metadata := cloneEventMetadata (ev_metadata event)\<rparr>"

definition eb_append :: "event \<Rightarrow> event_buffer \<Rightarrow> event_buffer" where
  "eb_append event b =
     (if eb_closed b \<or> length (eb_events b) = 0 then b
      else
        let event' = eb_stamp b event
        in eb_signalLocked
             (if eb_size b = length (eb_events b)
              then b\<lparr>eb_events := (eb_events b)[eb_start b := event'],
                     eb_start := (eb_start b + 1) mod length (eb_events b),
                     eb_base := eb_base b + 1\<rparr>
              else b\<lparr>eb_events := (eb_events b)[(eb_start b + eb_size b) mod length (eb_events b) := event'],
                     eb_size := eb_size b + 1\<rparr>))"

definition eb_copyLocked :: "event_buffer \<Rightarrow> nat \<Rightarrow> nat \<Rightarrow> bool \<Rightarrow> event_chunk" where
  "eb_copyLocked b start count dropped =
     \<lparr>ec_events = map (\<lambda>index.
          (let source = eb_events b ! ((eb_start b + (start - eb_base b) + index) mod length (eb_events b))
           in source\<lparr>ev_metadata := cloneEventMetadata (ev_metadata source)\<rparr>)) [0..<count],
      ec_next = start + count, ec_dropped = dropped\<rparr>"

definition eb_readChunk :: "event_buffer \<Rightarrow> nat \<Rightarrow> int \<Rightarrow> event_chunk \<times> nat option \<times> bool \<times> goerr option" where
  "eb_readChunk b next_cursor limit =
     (let nothing = \<lparr>ec_events = [], ec_next = 0, ec_dropped = False\<rparr>
      in if length (eb_events b) = 0 then (nothing, Some (eb_notify b), True, eb_err b)
         else
           let dropped = next_cursor < eb_base b;
               next' = (if dropped then eb_base b else next_cursor);
               end_cursor = eb_base b + eb_size b
           in if next' < end_cursor
              then (eb_copyLocked b next' (nat (min limit (int (end_cursor - next')))) dropped, None, False, None)
              else (nothing, Some (eb_notify b), eb_closed b, eb_err b))"

definition eb_attempt :: "event_buffer \<Rightarrow> nat \<Rightarrow> int \<Rightarrow> event_chunk attempt" where
  "eb_attempt b next_cursor limit =
     (case eb_readChunk b next_cursor limit of (chunk, notify, isClosed, err) \<Rightarrow>
        if 0 < length (ec_events chunk) \<or> ec_dropped chunk then Answer (Inr chunk)
        else if isClosed then Answer (Inl (case err of Some e \<Rightarrow> e | None \<Rightarrow> IoEOF))
        else Wait notify)"

definition eb_readEvents :: "event_buffer list \<Rightarrow> goerr \<Rightarrow> nat \<Rightarrow> int \<Rightarrow> goerr + event_chunk" where
  "eb_readEvents bs ctx next_cursor limit =
     (if limit \<le> 0 then Inl ErrInvalidEventReadLimit
      else wait_loop (\<lambda>b. eb_attempt b next_cursor limit) bs ctx)"

definition eb_readRecent :: "event_buffer \<Rightarrow> int \<Rightarrow> goerr + event_chunk" where
  "eb_readRecent b limit =
     (if limit \<le> 0 then Inl ErrInvalidEventReadLimit
      else if length (eb_events b) = 0 then Inl IoEOF
      else
        let count = nat (min limit (int (eb_size b)));
            start = eb_base b + (eb_size b - count)
        in Inr (eb_copyLocked b start count False))"

definition eb_close :: "goerr option \<Rightarrow> event_buffer \<Rightarrow> event_buffer" where
  "eb_close err b = (if eb_closed b then b else eb_signalLocked (b\<lparr>eb_closed := True, eb_err := err\<rparr>))"

definition eb_release :: "event_buffer \<Rightarrow> event_buffer" where
  "eb_release b = eb_signalLocked (b\<lparr>eb_events := [], eb_start := 0, eb_size := 0\<rparr>)"

section \<open>Well-formed buffers\<close>

definition eb_view :: "event_buffer \<Rightarrow> event list" where
  "eb_view b = ring_view (eb_events b) (eb_start b) (eb_size b)"

definition eb_wf :: "event_buffer \<Rightarrow> bool" where
  "eb_wf b \<longleftrightarrow> 0 < length (eb_events b) \<and> eb_start b < length (eb_events b) \<and>
     eb_size b \<le> length (eb_events b) \<and> (0 < eb_base b \<longrightarrow> eb_size b = length (eb_events b)) \<and>
     (\<forall>i < eb_size b. ev_id (eb_view b ! i) = eb_base b + i \<and>
        cloneEventMetadata (ev_metadata (eb_view b ! i)) = ev_metadata (eb_view b ! i))"

lemma length_eb_view [simp]: "length (eb_view b) = eb_size b"
  by (simp add: eb_view_def)

lemma eb_signalLocked_sel [simp]:
  "eb_events (eb_signalLocked b) = eb_events b" "eb_start (eb_signalLocked b) = eb_start b"
  "eb_size (eb_signalLocked b) = eb_size b" "eb_base (eb_signalLocked b) = eb_base b"
  "eb_closed (eb_signalLocked b) = eb_closed b" "eb_notify (eb_signalLocked b) = Suc (eb_notify b)"
  "eb_view (eb_signalLocked b) = eb_view b"
  by (simp_all add: eb_signalLocked_def eb_view_def)

lemma eb_append_closed: "eb_closed b \<Longrightarrow> eb_append e b = b"
  by (simp add: eb_append_def)

lemma eb_append_closed_sel [simp]: "eb_closed (eb_append e b) = eb_closed b"
  by (simp add: eb_append_def Let_def)

text \<open>An append to an open buffer drops the oldest event exactly when the ring is full.\<close>

lemma eb_append_view:
  assumes "0 < length (eb_events b)" "eb_start b < length (eb_events b)" "eb_size b \<le> length (eb_events b)"
    and "\<not> eb_closed b"
  shows "eb_view (eb_append e b) = drop (if eb_size b = length (eb_events b) then 1 else 0) (eb_view b @ [eb_stamp b e])"
    and "eb_base (eb_append e b) = eb_base b + (if eb_size b = length (eb_events b) then 1 else 0)"
    and "length (eb_events (eb_append e b)) = length (eb_events b)"
    and "eb_start (eb_append e b) < length (eb_events b)"
    and "eb_size (eb_append e b) = min (length (eb_events b)) (Suc (eb_size b))"
proof -
  show "eb_base (eb_append e b) = eb_base b + (if eb_size b = length (eb_events b) then 1 else 0)"
    and "length (eb_events (eb_append e b)) = length (eb_events b)"
    and "eb_start (eb_append e b) < length (eb_events b)"
    and "eb_size (eb_append e b) = min (length (eb_events b)) (Suc (eb_size b))"
    using assms by (auto simp: eb_append_def Let_def)
  have pos: "eb_events b \<noteq> []" using assms(1) by auto
  show "eb_view (eb_append e b) = drop (if eb_size b = length (eb_events b) then 1 else 0) (eb_view b @ [eb_stamp b e])"
  proof (cases "eb_size b = length (eb_events b)")
    case True
    have "0 < length (eb_view b)" using True assms(1) by simp
    then have "tl (eb_view b) @ [eb_stamp b e] = drop 1 (eb_view b @ [eb_stamp b e])"
      by (cases "eb_view b") auto
    then show ?thesis using True pos assms(4) ring_view_overwrite [OF assms(1,2)]
      by (simp add: eb_append_def Let_def eb_view_def)
  next
    case False
    then have "eb_size b < length (eb_events b)" using assms(3) by simp
    from ring_view_push [OF this] False pos assms(4) show ?thesis
      by (simp add: eb_append_def Let_def eb_view_def)
  qed
qed

lemma newEvent_wf:
  "newEventBuffer c = Inr b \<Longrightarrow> eb_wf b \<and> eb_view b = [] \<and> eb_base b = 0 \<and> \<not> eb_closed b"
  by (auto simp: newEventBuffer_def eb_wf_def eb_view_def split: if_splits)

lemma eb_append_wf:
  assumes "eb_wf b"
  shows "eb_wf (eb_append e b)"
proof (cases "eb_closed b")
  case True
  then show ?thesis using assms by (simp add: eb_append_closed)
next
  case False
  have pre: "0 < length (eb_events b)" "eb_start b < length (eb_events b)" "eb_size b \<le> length (eb_events b)"
    using assms by (simp_all add: eb_wf_def)
  note v = eb_append_view [OF pre False, of e]
  let ?k = "if eb_size b = length (eb_events b) then 1 else 0 :: nat"
  have ids: "ev_id ((eb_view b @ [eb_stamp b e]) ! j) = eb_base b + j \<and>
      cloneEventMetadata (ev_metadata ((eb_view b @ [eb_stamp b e]) ! j)) = ev_metadata ((eb_view b @ [eb_stamp b e]) ! j)"
    if "j \<le> eb_size b" for j
    using that assms by (cases "j = eb_size b") (auto simp: nth_append eb_stamp_def eb_wf_def)
  have "ev_id (eb_view (eb_append e b) ! i) = eb_base (eb_append e b) + i \<and>
      cloneEventMetadata (ev_metadata (eb_view (eb_append e b) ! i)) = ev_metadata (eb_view (eb_append e b) ! i)"
    if "i < eb_size (eb_append e b)" for i
  proof -
    have "i + ?k \<le> eb_size b" using that v(5) pre by (auto split: if_splits)
    note idk = ids [OF this]
    have "drop ?k (eb_view b @ [eb_stamp b e]) ! i = (eb_view b @ [eb_stamp b e]) ! (i + ?k)"
      by (subst nth_drop) (auto simp: add.commute)
    then show ?thesis unfolding v(1,2) using idk by (simp only: ac_simps)
  qed
  moreover have "0 < eb_base (eb_append e b) \<longrightarrow> eb_size (eb_append e b) = length (eb_events b)"
    using assms v(2,5) by (auto simp: eb_wf_def)
  ultimately show ?thesis using pre v(3-5) by (simp add: eb_wf_def)
qed

section \<open>The buffer is a cursor log\<close>

definition eb_entries :: "event_buffer \<Rightarrow> event \<Rightarrow> event list" where
  "eb_entries b e = (if eb_closed b then [] else [eb_stamp b e])"

definition eb_fetch :: "event_buffer \<Rightarrow> nat \<Rightarrow> int \<Rightarrow> (event list \<times> nat \<times> bool) option" where
  "eb_fetch b next_cursor limit =
     (case eb_attempt b next_cursor limit of
        Answer (Inr chunk) \<Rightarrow> Some (ec_events chunk, ec_next chunk, ec_dropped chunk)
      | _ \<Rightarrow> None)"

lemma eb_copyLocked_view:
  assumes "eb_wf b" "eb_base b \<le> start" "start + count \<le> eb_base b + eb_size b"
  shows "eb_copyLocked b start count d =
    \<lparr>ec_events = take count (drop (start - eb_base b) (eb_view b)), ec_next = start + count, ec_dropped = d\<rparr>"
proof -
  have le: "start - eb_base b + count \<le> eb_size b" using assms(2,3) by linarith
  have "\<forall>i < eb_size b. (eb_view b ! i)\<lparr>ev_metadata := cloneEventMetadata (ev_metadata (eb_view b ! i))\<rparr> = eb_view b ! i"
    using assms(1) by (simp add: eb_wf_def)
  then have "map (\<lambda>x. x\<lparr>ev_metadata := cloneEventMetadata (ev_metadata x)\<rparr>) (take count (drop (start - eb_base b) (eb_view b)))
      = take count (drop (start - eb_base b) (eb_view b))"
    using le by (intro nth_equalityI) auto
  then show ?thesis using ring_view_sub [OF le, of "eb_events b" "eb_start b", symmetric]
    by (simp add: eb_copyLocked_def eb_view_def Let_def comp_def)
qed

definition eb_segment :: "event_buffer \<Rightarrow> nat \<Rightarrow> int \<Rightarrow> event list" where
  "eb_segment b n limit = take (nat limit) (drop (max n (eb_base b) - eb_base b) (eb_view b))"

lemma eb_fetch_cases:
  assumes "eb_wf b" "0 < limit"
  shows "eb_fetch b n limit =
    (if max n (eb_base b) < eb_base b + eb_size b
     then Some (eb_segment b n limit, max n (eb_base b) + length (eb_segment b n limit), n < eb_base b)
     else None)"
proof -
  let ?m = "max n (eb_base b)"
  have m: "(if n < eb_base b then eb_base b else n) = ?m" by (simp add: max_def)
  have ne: "length (eb_events b) \<noteq> 0" using assms(1) by (simp add: eb_wf_def)
  show ?thesis
  proof (cases "?m < eb_base b + eb_size b")
    case True
    define cnt where "cnt = nat (min limit (int (eb_base b + eb_size b - ?m)))"
    note seg = segment_count [OF assms(2) True length_eb_view, folded cnt_def, folded eb_segment_def]
    have "eb_copyLocked b ?m cnt (n < eb_base b) =
       \<lparr>ec_events = eb_segment b n limit, ec_next = ?m + cnt, ec_dropped = n < eb_base b\<rparr>"
      using seg(4) by (subst eb_copyLocked_view [OF assms(1)]) (auto simp: seg(1))
    then have rc: "eb_readChunk b n limit =
        (\<lparr>ec_events = eb_segment b n limit, ec_next = ?m + cnt, ec_dropped = n < eb_base b\<rparr>, None, False, None)"
      using True ne by (simp only: eb_readChunk_def m cnt_def [symmetric] Let_def if_True if_False simp_thms)
    show ?thesis using True seg(2,3) by (simp add: eb_fetch_def eb_attempt_def rc)
  next
    case False
    have rc: "eb_readChunk b n limit =
        (\<lparr>ec_events = [], ec_next = 0, ec_dropped = False\<rparr>, Some (eb_notify b), eb_closed b, eb_err b)"
      using ne by (simp only: eb_readChunk_def m Let_def False if_False simp_thms)
    show ?thesis by (simp only: False if_False) (simp add: eb_fetch_def eb_attempt_def rc)
  qed
qed

interpretation ebl: cursor_log eb_wf eb_base eb_view eb_append eb_entries eb_fetch
proof unfold_locales
  fix b e assume wf: "eb_wf b"
  show "eb_wf (eb_append e b)" using wf by (rule eb_append_wf)
  show "\<exists>k \<le> length (eb_view b @ eb_entries b e).
     eb_view (eb_append e b) = drop k (eb_view b @ eb_entries b e) \<and> eb_base (eb_append e b) = eb_base b + k"
  proof (cases "eb_closed b")
    case True
    then show ?thesis by (intro exI [of _ 0]) (simp add: eb_entries_def eb_append_closed)
  next
    case False
    have pre: "0 < length (eb_events b)" "eb_start b < length (eb_events b)" "eb_size b \<le> length (eb_events b)"
      using wf by (simp_all add: eb_wf_def)
    show ?thesis using eb_append_view [OF pre False, of e] False
      by (intro exI [of _ "if eb_size b = length (eb_events b) then 1 else 0"]) (simp add: eb_entries_def)
  qed
next
  fix b lim n ys n' d
  assume "eb_wf b" "0 < lim" "eb_fetch b n lim = Some (ys, n', d)"
  then show "d = (n < eb_base b) \<and> ys = take (nat lim) (drop (max n (eb_base b) - eb_base b) (eb_view b)) \<and>
      n' = max n (eb_base b) + length ys"
    by (auto simp: eb_fetch_cases eb_segment_def split: if_splits)
next
  fix b lim n assume "eb_wf b" "0 < (lim::int)"
  then show "(eb_fetch b n lim = None) = (eb_base b \<le> n \<and> eb_base b + length (eb_view b) \<le> n)"
    by (auto simp: eb_fetch_cases eb_wf_def max_def)
qed

section \<open>Properties\<close>

lemma eb_appends_wf: "eb_wf b \<Longrightarrow> eb_wf (fold eb_append es b)"
  by (rule ebl.inv_puts)

lemma eb_appends_total:
  "eb_wf b \<Longrightarrow> \<not> eb_closed b \<Longrightarrow>
     eb_base (fold eb_append es b) + eb_size (fold eb_append es b) = eb_base b + eb_size b + length es"
proof (induction es arbitrary: b)
  case (Cons e es)
  have pre: "0 < length (eb_events b)" "eb_start b < length (eb_events b)" "eb_size b \<le> length (eb_events b)"
    using Cons.prems by (simp_all add: eb_wf_def)
  note v = eb_append_view [OF pre Cons.prems(2), of e]
  have "eb_base (eb_append e b) + eb_size (eb_append e b) = eb_base b + Suc (eb_size b)"
    using v(2,5) pre by auto
  then show ?case using Cons.IH [OF eb_append_wf] Cons.prems by simp
qed simp

text \<open>
  Event identifiers: after any sequence of publications to a new Session event
  buffer, the retained events carry consecutive IDs, the newest one is the number
  of publications minus one, and event \<open>i\<close> of the retained window has the ID its
  cursor addresses, so IDs are strictly monotonic and never reused.
\<close>

theorem eb_ids_consecutive:
  assumes "newEventBuffer c = Inr b"
  shows "map ev_id (eb_view (fold eb_append es b)) = [length es - eb_size (fold eb_append es b) ..< length es] \<and>
         eb_size (fold eb_append es b) \<le> length es"
proof -
  note w = newEvent_wf [OF assms]
  let ?b = "fold eb_append es b"
  have "eb_base ?b + eb_size ?b = length es" using eb_appends_total [of b es] w length_eb_view [of b] by simp
  moreover have "eb_wf ?b" using w by (simp add: eb_appends_wf)
  ultimately show ?thesis
    by (intro conjI nth_equalityI) (auto simp: eb_wf_def)
qed

theorem eb_ids_consecutive_witness:
  "map ev_id (eb_view (fold eb_append [zero_event, zero_event, zero_event] (projr (newEventBuffer 2)))) = [1, 2]"
proof -
  have "eb_size (fold eb_append [zero_event, zero_event, zero_event] (projr (newEventBuffer 2))) = 2"
    by (simp add: newEventBuffer_def eb_append_def eb_signalLocked_def numeral_eq_Suc Let_def)
  then show ?thesis
    using eb_ids_consecutive [of 2 "projr (newEventBuffer 2)" "[zero_event, zero_event, zero_event]"]
    by (simp add: newEventBuffer_def numeral_eq_Suc upt_rec)
qed

end
