(* ===== verification/Session_Core.thy ===== *)
theory Session_Core
  imports Receive_Buffer Activity_Buffer Event_Buffer "HOL-Library.Word"
begin

text \<open>
  \<open>internal/core/session/session.go\<close>: the Session implementation \<open>Core\<close>.
  Its Transport and Channel are behind Go interfaces, so what they answer is an
  argument of the operation that calls them. Operations with one critical
  section are functions on the record; \<open>Connect\<close>, \<open>Close\<close> and the reader
  goroutine release the lock in between and are cut there into the pieces that
  other goroutines can interleave with. The reader goroutine's progress
  (\<open>readerDone\<close> and the position inside \<open>handleReadError\<close>) is \<open>co_reader\<close>.
\<close>

abbreviation "ErrNotOpen \<equiv> ErrSentinel ''session.ErrNotOpen''"
abbreviation "ErrInvalidID \<equiv> ErrSentinel ''session.ErrInvalidID''"
abbreviation "ErrNilTransport \<equiv> ErrSentinel ''session.ErrNilTransport''"
abbreviation "ErrNilChannel \<equiv> ErrSentinel ''session.ErrNilChannel''"
abbreviation "ErrInvalidActor \<equiv> ErrSentinel ''session.ErrInvalidActor''"
abbreviation "ErrResizeUnsupported \<equiv> ErrSentinel ''channel.ErrResizeUnsupported''"

definition DefaultReceiveBufferSize :: int where "DefaultReceiveBufferSize = 16 * 1024 * 1024"
definition DefaultAIReadLimit :: int where "DefaultAIReadLimit = 64 * 1024"
definition DefaultActivityBufferCapacity :: int where "DefaultActivityBufferCapacity = 1024"
definition DefaultActivityBufferByteCapacity :: int where "DefaultActivityBufferByteCapacity = 16 * 1024 * 1024"
definition DefaultEventBufferCapacity :: int where "DefaultEventBufferCapacity = 1024"

section \<open>Options and construction\<close>

record config =
  cf_receive :: int
  cf_activity :: int
  cf_activityBytes :: int
  cf_events :: int

type_synonym session_option = "config \<Rightarrow> goerr + config"

definition WithReceiveBufferCapacity :: "int \<Rightarrow> session_option" where
  "WithReceiveBufferCapacity bytes cfg =
     (if bytes \<le> 0 then Inl ErrInvalidBufferCapacity else Inr (cfg\<lparr>cf_receive := bytes\<rparr>))"

definition WithActivityBufferCapacity :: "int \<Rightarrow> session_option" where
  "WithActivityBufferCapacity events cfg =
     (if events \<le> 0 then Inl ErrInvalidActivityBufferCapacity else Inr (cfg\<lparr>cf_activity := events\<rparr>))"

definition WithActivityBufferByteCapacity :: "int \<Rightarrow> session_option" where
  "WithActivityBufferByteCapacity bytes cfg =
     (if bytes \<le> 0 then Inl ErrInvalidActivityBufferByteCapacity else Inr (cfg\<lparr>cf_activityBytes := bytes\<rparr>))"

definition WithEventBufferCapacity :: "int \<Rightarrow> session_option" where
  "WithEventBufferCapacity events cfg =
     (if events \<le> 0 then Inl ErrInvalidEventBufferCapacity else Inr (cfg\<lparr>cf_events := events\<rparr>))"

text \<open>The option loop of \<open>New\<close>; a nil option is \<open>None\<close>.\<close>

fun apply_options :: "session_option option list \<Rightarrow> config \<Rightarrow> goerr + config" where
  "apply_options [] cfg = Inr cfg"
| "apply_options (None # opts) cfg = apply_options opts cfg"
| "apply_options (Some f # opts) cfg =
     (case f cfg of Inl e \<Rightarrow> Inl e | Inr cfg' \<Rightarrow> apply_options opts cfg')"

datatype reader =
    NoReader                          \<comment> \<open>\<open>readerDone == nil\<close>\<close>
  | ReaderRunning
  | ReaderFailing goerr bool          \<comment> \<open>between the two halves of \<open>handleReadError\<close>\<close>
  | ReaderDone                        \<comment> \<open>\<open>readerDone\<close> closed\<close>

record core =
  co_id :: string
  co_channel :: bool                  \<comment> \<open>\<open>channel != nil\<close>\<close>
  co_receive :: receive_buffer
  co_activity :: activity_buffer
  co_events :: event_buffer
  co_inputPending :: bool
  co_state :: session_state
  co_closeErr :: "goerr option"
  co_reader :: reader
  co_readerStop :: bool               \<comment> \<open>\<open>readerStop\<close> closed\<close>
  co_managerDone :: bool              \<comment> \<open>\<open>managerDone\<close> closed\<close>
  co_reapByManager :: bool

text \<open>\<open>New\<close>: \<open>nil_source\<close> is the answer of \<open>isNilTransport\<close>.\<close>

definition core_New :: "string \<Rightarrow> bool \<Rightarrow> session_option option list \<Rightarrow> goerr + core" where
  "core_New ident nil_source opts =
     (if ident = [] then Inl ErrInvalidID
      else if nil_source then Inl ErrNilTransport
      else case apply_options opts
              \<lparr>cf_receive = DefaultReceiveBufferSize, cf_activity = DefaultActivityBufferCapacity,
               cf_activityBytes = DefaultActivityBufferByteCapacity, cf_events = DefaultEventBufferCapacity\<rparr> of
          Inl e \<Rightarrow> Inl e
        | Inr cfg \<Rightarrow>
            (case newReceiveBuffer (cf_receive cfg) of
               Inl e \<Rightarrow> Inl e
             | Inr receive \<Rightarrow>
                 (case newActivityBuffer (cf_activity cfg) (cf_activityBytes cfg) of
                    Inl e \<Rightarrow> Inl e
                  | Inr activity \<Rightarrow>
                      (case newEventBuffer (cf_events cfg) of
                         Inl e \<Rightarrow> Inl e
                       | Inr events \<Rightarrow>
                           Inr \<lparr>co_id = ident, co_channel = False, co_receive = receive,
                                co_activity = activity, co_events = events,
                                co_inputPending = False, co_state = StateNew, co_closeErr = None,
                                co_reader = NoReader, co_readerStop = False,
                                co_managerDone = False, co_reapByManager = False\<rparr>))))"

section \<open>Connecting\<close>

definition core_isOpen :: "core \<Rightarrow> bool" where
  "core_isOpen s \<longleftrightarrow> co_state s = StateOpen"

text \<open>The three \<open>close(err)\<close> calls every terminal path makes.\<close>

definition core_closeBuffers :: "goerr \<Rightarrow> core \<Rightarrow> core" where
  "core_closeBuffers err s =
     s\<lparr>co_receive := rb_close (Some err) (co_receive s),
       co_activity := ab_close (Some err) (co_activity s),
       co_events := eb_close (Some err) (co_events s)\<rparr>"

text \<open>The first critical section of \<open>Connect\<close>: \<open>Inl\<close> is its early return.\<close>

definition core_connectBegin :: "goerr option \<Rightarrow> core \<Rightarrow> core \<times> goerr option" where
  "core_connectBegin ctx s =
     (if co_state s \<noteq> StateNew
      then (s, Some (ErrText (''cannot connect session in '' @ SessionState_String (co_state s) @ '' state'')))
      else case ctx of
          Some err \<Rightarrow> (core_closeBuffers err (s\<lparr>co_state := StateFailed\<rparr>), Some err)
        | None \<Rightarrow> (s\<lparr>co_state := StateConnecting\<rparr>, None))"

text \<open>
  The second one, after \<open>Transport.Connect\<close> answered an error or a stream, of
  which \<open>isNilChannel\<close> says whether it is nil.
\<close>

definition core_connectEnd :: "goerr + bool \<Rightarrow> core \<Rightarrow> core \<times> goerr option" where
  "core_connectEnd answer s =
     (case answer of
        Inl err \<Rightarrow> (core_closeBuffers err (s\<lparr>co_state := StateFailed\<rparr>), Some err)
      | Inr isNil \<Rightarrow>
          if isNil then (core_closeBuffers ErrNilChannel (s\<lparr>co_state := StateFailed\<rparr>), Some ErrNilChannel)
          else (s\<lparr>co_channel := True, co_state := StateOpen, co_reader := ReaderRunning\<rparr>, None))"

definition core_Connect :: "goerr option \<Rightarrow> goerr + bool \<Rightarrow> core \<Rightarrow> core \<times> goerr option" where
  "core_Connect ctx answer s =
     (case core_connectBegin ctx s of
        (s', Some err) \<Rightarrow> (s', Some err)
      | (s', None) \<Rightarrow> core_connectEnd answer s')"

section \<open>Reading\<close>

text \<open>
  The blocking reads check the state once and then follow the states their
  buffer goes through; \<open>s\<close> is the state at the check.
\<close>

definition core_ReadOutput :: "core \<Rightarrow> receive_buffer list \<Rightarrow> goerr \<Rightarrow> nat \<Rightarrow> int \<Rightarrow> goerr + output_chunk" where
  "core_ReadOutput s bs ctx next_cursor maxBytes =
     (if \<not> core_isOpen s then Inl ErrNotOpen else rb_readOutput bs ctx next_cursor maxBytes)"

definition core_ReadRecent :: "core \<Rightarrow> int \<Rightarrow> goerr + output_chunk" where
  "core_ReadRecent s maxBytes =
     (if \<not> core_isOpen s then Inl ErrNotOpen else rb_readRecent (co_receive s) maxBytes)"

definition core_ReadActivity :: "core \<Rightarrow> activity_buffer list \<Rightarrow> goerr \<Rightarrow> nat \<Rightarrow> int \<Rightarrow> goerr + activity_chunk" where
  "core_ReadActivity s bs ctx next_cursor maxEvents =
     (if \<not> core_isOpen s then Inl ErrNotOpen else ab_readActivity bs ctx next_cursor maxEvents)"

definition core_ReadRecentActivity :: "core \<Rightarrow> int \<Rightarrow> goerr + activity_chunk" where
  "core_ReadRecentActivity s maxEvents =
     (if \<not> core_isOpen s then Inl ErrNotOpen else ab_readRecent (co_activity s) maxEvents)"

definition core_ReadEvents :: "core \<Rightarrow> event_buffer list \<Rightarrow> goerr \<Rightarrow> nat \<Rightarrow> int \<Rightarrow> goerr + event_chunk" where
  "core_ReadEvents s bs ctx next_cursor maxEvents =
     (if \<not> core_isOpen s then Inl ErrNotOpen else eb_readEvents bs ctx next_cursor maxEvents)"

definition core_ReadRecentEvents :: "core \<Rightarrow> int \<Rightarrow> goerr + event_chunk" where
  "core_ReadRecentEvents s maxEvents =
     (if \<not> core_isOpen s then Inl ErrNotOpen else eb_readRecent (co_events s) maxEvents)"

text \<open>\<open>now\<close> is the reading of \<open>time.Now\<close>; 0 is the zero time.\<close>

definition core_PublishEvent :: "time \<Rightarrow> event \<Rightarrow> core \<Rightarrow> core" where
  "core_PublishEvent now event s =
     (if ev_type event = EventOther [] \<or> \<not> core_isOpen s then s
      else
        let event1 = (if ev_timestamp event = 0 then event\<lparr>ev_timestamp := now\<rparr> else event)
        in s\<lparr>co_events := eb_append (event1\<lparr>ev_session := co_id s\<rparr>) (co_events s)\<rparr>)"

section \<open>Writing\<close>

text \<open>
  The short-write retry loop. \<open>chan k p\<close> is what call \<open>k\<close> of \<open>Channel.Write\<close>
  answers when it is offered \<open>p\<close>: a count and perhaps an error. The result has
  the bytes counted as written, the error, and the calls with the bytes each took.
\<close>

function write_loop :: "(nat \<Rightarrow> byte list \<Rightarrow> nat \<times> goerr option) \<Rightarrow> nat \<Rightarrow> byte list \<Rightarrow> nat \<Rightarrow>
    nat \<times> goerr option \<times> byte list list" where
  "write_loop chan k p written =
     (if p = [] then (written, None, [])
      else
        let (n0, err) = chan k p;
            n = (if n0 > length p then length p else n0)
        in case err of
             Some e \<Rightarrow> (written + n, Some e, [take n p])
           | None \<Rightarrow>
               if n = 0 then (written + n, Some IoErrShortWrite, [take n p])
               else (case write_loop chan (Suc k) (drop n p) (written + n) of
                       (w, e, calls) \<Rightarrow> (w, e, take n p # calls)))"
  by pat_completeness auto
termination by (relation "measure (\<lambda>(chan, k, p, written). length p)") auto

declare write_loop.simps [simp del]

text \<open>The input summary of \<open>recordWriteActivity\<close>, byte by byte.\<close>

definition pending_byte :: "byte \<Rightarrow> bool \<Rightarrow> bool" where
  "pending_byte value pending =
     (if value \<in> {CHR 0x0D, CHR 0x0A, CHR 0x03, CHR 0x15} then False
      else if value \<in> {CHR 0x08, CHR 0x7F} then pending
      else True)"

definition core_recordWriteActivity :: "time \<Rightarrow> write_request \<Rightarrow> nat \<Rightarrow> core \<Rightarrow> core" where
  "core_recordWriteActivity timestamp request written s =
     (if written = 0 then s
      else
        let s1 = (if wr_actor request \<noteq> ActorSystem
                  then s\<lparr>co_inputPending := fold pending_byte (take written (wr_data request)) (co_inputPending s)\<rparr>
                  else s)
        in s1\<lparr>co_activity := ab_append
                \<lparr>se_timestamp = timestamp, se_actor = wr_actor request, se_operation = OperationWrite,
                 se_data = take written (wr_data request)\<rparr> (co_activity s1)\<rparr>)"

definition core_Write :: "(nat \<Rightarrow> byte list \<Rightarrow> nat \<times> goerr option) \<Rightarrow> time \<Rightarrow> write_request \<Rightarrow> core \<Rightarrow>
    core \<times> nat \<times> goerr option \<times> byte list list" where
  "core_Write chan now request s =
     (if \<not> Actor_Valid (wr_actor request) then (s, 0, Some (ErrWrap ErrInvalidActor (wr_actor request)), [])
      else if \<not> core_isOpen s then (s, 0, Some ErrNotOpen, [])
      else (case write_loop chan 0 (wr_data request) 0 of
              (written, err, calls) \<Rightarrow>
                (core_recordWriteActivity now request written s, written, err, calls)))"

text \<open>\<open>resizer\<close> is the Channel's optional Resizer.\<close>

definition core_Resize :: "(16 word \<Rightarrow> 16 word \<Rightarrow> goerr option) option \<Rightarrow> 16 word \<Rightarrow> 16 word \<Rightarrow> core \<Rightarrow> goerr option" where
  "core_Resize resizer cols rows s =
     (if \<not> core_isOpen s then Some ErrNotOpen
      else case resizer of None \<Rightarrow> Some ErrResizeUnsupported | Some resize \<Rightarrow> resize cols rows)"

definition core_HasPendingInput :: "core \<Rightarrow> bool" where
  "core_HasPendingInput s = co_inputPending s"

section \<open>The reader goroutine\<close>

definition core_signalManagerDone :: "core \<Rightarrow> core" where
  "core_signalManagerDone s = s\<lparr>co_managerDone := True\<rparr>"

text \<open>
  One turn of \<open>readLoop\<close> for one answer of \<open>Channel.Read\<close>: data is published
  before an accompanying error is handled; an empty answer without an error
  returns once \<open>readerStop\<close> is closed.
\<close>

definition core_readTurn :: "byte list \<Rightarrow> goerr option \<Rightarrow> core \<Rightarrow> core" where
  "core_readTurn bytes err s =
     (let s1 = (if 0 < length bytes then s\<lparr>co_receive := rb_append bytes (co_receive s)\<rparr> else s)
      in case err of
           Some e \<Rightarrow>
             let closing = (co_state s1 = StateClosing \<or> co_state s1 = StateClosed)
             in (if closing then s1 else s1\<lparr>co_state := StateFailed, co_reapByManager := True\<rparr>)
                  \<lparr>co_reader := ReaderFailing e closing\<rparr>
         | None \<Rightarrow>
             if length bytes = 0 \<and> co_readerStop s1 then s1\<lparr>co_reader := ReaderDone\<rparr> else s1)"

text \<open>The rest of \<open>handleReadError\<close>, after its critical section.\<close>

definition core_readErrorEnd :: "goerr \<Rightarrow> bool \<Rightarrow> core \<Rightarrow> core" where
  "core_readErrorEnd err closing s =
     (if closing then core_closeBuffers IoEOF s
      else core_signalManagerDone (core_closeBuffers (if err_is err IoEOF then IoEOF else err) s))
       \<lparr>co_reader := ReaderDone\<rparr>"

section \<open>Closing\<close>

text \<open>The first critical section of \<open>Close\<close>: \<open>Some r\<close> is its early return.\<close>

definition core_closeBegin :: "core \<Rightarrow> core \<times> goerr option option" where
  "core_closeBegin s =
     (if co_state s = StateClosed then (s, Some (co_closeErr s))
      else if co_state s = StateClosing then (s, Some None)
      else (s\<lparr>co_state := StateClosing\<rparr>, None))"

text \<open>Waking the consumers and stopping the reader.\<close>

definition core_closeWake :: "core \<Rightarrow> core" where
  "core_closeWake s = (core_closeBuffers IoEOF s)\<lparr>co_readerStop := True\<rparr>"

text \<open>
  After the reader goroutine has ended: release, then the last critical section.
  \<open>err\<close> is what \<open>Channel.Close\<close> answered. The Manager's watcher is woken after the
  lock is given up, by \<open>core_signalManagerDone\<close>.
\<close>

definition core_closeEnd :: "goerr option \<Rightarrow> core \<Rightarrow> core" where
  "core_closeEnd err s =
     s\<lparr>co_receive := rb_release (co_receive s),
       co_activity := ab_release (co_activity s),
       co_events := eb_release (co_events s),
       co_closeErr := err,
       co_state := StateClosed\<rparr>"

text \<open>
  \<open>Close\<close> as one sequential run: \<open>chan_err\<close> is the answer of \<open>Channel.Close\<close> and
  \<open>reader_err\<close> the error with which the unblocked reader ends, if one runs.
\<close>

definition core_Close :: "goerr option \<Rightarrow> goerr \<Rightarrow> core \<Rightarrow> core \<times> goerr option" where
  "core_Close chan_err reader_err s =
     (case core_closeBegin s of
        (s1, Some r) \<Rightarrow> (s1, r)
      | (s1, None) \<Rightarrow>
          let s2 = core_closeWake s1;
              err = (if co_channel s2 then chan_err else None);
              s3 = (case co_reader s2 of
                      ReaderRunning \<Rightarrow> core_readErrorEnd reader_err True (core_readTurn [] (Some reader_err) s2)
                    | ReaderFailing e closing \<Rightarrow> core_readErrorEnd e closing s2
                    | _ \<Rightarrow> s2)
          in (core_signalManagerDone (core_closeEnd err s3), err))"

end
