(* ===== verification/Session_Lifecycle.thy ===== *)
theory Session_Lifecycle
  imports Session_Core
begin

text \<open>
  Properties of the Session: the write loop against any Channel, the pending-input
  summary, and the lifecycle as a step relation in which the caller that connects
  and closes, the reader goroutine, writers and publishers interleave at the
  granularity of their critical sections.
\<close>

section \<open>Writing\<close>

lemma write_loop_spec:
  assumes "write_loop chan k p w = (w', err, calls)"
  shows "w \<le> w' \<and> concat calls = take (w' - w) p \<and> w' - w \<le> length p \<and>
         (err = None \<longrightarrow> w' = w + length p)"
  using assms
proof (induction chan k p w arbitrary: w' err calls rule: write_loop.induct)
  case (1 chan k p w)
  obtain n0 e0 where c: "chan k p = (n0, e0)" by (cases "chan k p") auto
  define n where "n = (if n0 > length p then length p else n0)"
  have n: "n \<le> length p" by (simp add: n_def)
  show ?case
  proof (cases "p = [] \<or> e0 \<noteq> None \<or> n = 0")
    case True
    then show ?thesis using "1.prems" c n
      by (auto simp: write_loop.simps [of chan k p w] n_def [symmetric] Let_def split: option.splits if_splits)
  next
    case False
    then have ne: "p \<noteq> []" "e0 = None" "n \<noteq> 0" by auto
    obtain w1 e1 cs where r: "write_loop chan (Suc k) (drop n p) (w + n) = (w1, e1, cs)"
      by (metis prod_cases3)
    have eq: "w' = w1" "err = e1" "calls = take n p # cs"
      using "1.prems" ne c r by (simp_all add: write_loop.simps [of chan k p w] n_def [symmetric] Let_def)
    have "w + n \<le> w1 \<and> concat cs = take (w1 - (w + n)) (drop n p) \<and> w1 - (w + n) \<le> length (drop n p) \<and>
        (e1 = None \<longrightarrow> w1 = w + n + length (drop n p))"
      by (rule "1.IH" [OF ne(1) refl c [symmetric] n_def ne(2,3) r])
    moreover have "take n p @ take (w1 - (w + n)) (drop n p) = take (n + (w1 - (w + n))) p"
      by (simp add: take_add)
    ultimately show ?thesis using eq n by auto
  qed
qed

lemma core_record_activity:
  "co_activity (core_recordWriteActivity t request w s) =
     (if w = 0 then co_activity s
      else ab_append \<lparr>se_timestamp = t, se_actor = wr_actor request, se_operation = OperationWrite,
                      se_data = take w (wr_data request)\<rparr> (co_activity s))"
  by (simp add: core_recordWriteActivity_def Let_def)

text \<open>
  C4 Write accounting. Whatever an open Session's Channel answers, the bytes the
  Channel took over all retries are exactly the first \<open>n\<close> bytes of the request,
  in order and without a repetition, \<open>n\<close> is the count returned and the payload
  recorded as activity; no error means that every byte went out; and a request by
  an invalid actor, or on a Session that is not open, reaches the Channel not at all.
\<close>

theorem core_write_accounting:
  assumes "core_Write chan now request s = (s', n, err, calls)"
  shows "concat calls = take n (wr_data request) \<and> n \<le> length (wr_data request) \<and>
         (err = None \<longrightarrow> n = length (wr_data request) \<and> Actor_Valid (wr_actor request) \<and> core_isOpen s) \<and>
         (Actor_Valid (wr_actor request) \<and> core_isOpen s \<or> s' = s \<and> calls = [] \<and> err \<noteq> None) \<and>
         co_activity s' = (if n = 0 then co_activity s
            else ab_append \<lparr>se_timestamp = now, se_actor = wr_actor request, se_operation = OperationWrite,
                            se_data = take n (wr_data request)\<rparr> (co_activity s))"
proof (cases "Actor_Valid (wr_actor request) \<and> core_isOpen s")
  case True
  obtain w e cs where r: "write_loop chan 0 (wr_data request) 0 = (w, e, cs)" by (metis prod_cases3)
  have "n = w" "err = e" "calls = cs" "s' = core_recordWriteActivity now request w s"
    using assms True r by (auto simp: core_Write_def)
  then show ?thesis using write_loop_spec [OF r] True by (simp add: core_record_activity)
next
  case False
  then show ?thesis using assms by (auto simp: core_Write_def split: if_splits)
qed

definition demo_core :: core where
  "demo_core = fst (core_Connect None (Inr False) (projr (core_New ''s'' False
     [Some (WithReceiveBufferCapacity 4), Some (WithActivityBufferCapacity 4),
      Some (WithActivityBufferByteCapacity 16), Some (WithEventBufferCapacity 4)])))"

text \<open>A channel that takes two bytes per call.\<close>

theorem core_write_accounting_witness:
  "case core_Write (\<lambda>k p. (2, None)) 7 \<lparr>wr_actor = ActorUser, wr_data = ''abc''\<rparr> demo_core
   of (s', n, err, calls) \<Rightarrow> n = 3 \<and> concat calls = take n ''abc''"
proof -
  obtain s' n err calls where
    r: "core_Write (\<lambda>k p. (2, None)) 7 \<lparr>wr_actor = ActorUser, wr_data = ''abc''\<rparr> demo_core = (s', n, err, calls)"
    by (rule prod_cases4)
  have "case core_Write (\<lambda>k p. (2, None)) 7 \<lparr>wr_actor = ActorUser, wr_data = ''abc''\<rparr> demo_core
        of (s', n, err, calls) \<Rightarrow> n = 3" by code_simp
  then have "n = 3" unfolding r prod.case .
  then show ?thesis using core_write_accounting [OF r] unfolding r prod.case by simp
qed

section \<open>The pending-input summary\<close>

definition input_reset :: "byte \<Rightarrow> bool" where
  "input_reset v \<longleftrightarrow> v \<in> {CHR 0x0D, CHR 0x0A, CHR 0x03, CHR 0x15}"

definition input_erase :: "byte \<Rightarrow> bool" where
  "input_erase v \<longleftrightarrow> v \<in> {CHR 0x08, CHR 0x7F}"

lemma pending_fold:
  "fold pending_byte vs False \<longleftrightarrow> (\<exists>v \<in> set (takeWhile (\<lambda>v. \<not> input_reset v) (rev vs)). \<not> input_erase v)"
  by (induction vs rule: rev_induct)
     (auto simp: pending_byte_def input_reset_def input_erase_def)

lemma core_record_pending:
  "wr_actor r \<noteq> ActorSystem \<Longrightarrow>
     co_inputPending (core_recordWriteActivity t r (length (wr_data r)) s) = fold pending_byte (wr_data r) (co_inputPending s)"
  by (simp add: core_recordWriteActivity_def Let_def)

text \<open>
  What the pending-input summary means: after any sequence of user or Agent
  payloads written to a Session that starts with no pending input, input is
  pending exactly when some byte after the last submit, interrupt or clear byte is
  not an erase key.
\<close>

theorem core_pending_input:
  assumes "\<not> co_inputPending s" "\<forall>request \<in> set requests. wr_actor request \<noteq> ActorSystem"
  shows "core_HasPendingInput
           (fold (\<lambda>request. core_recordWriteActivity now request (length (wr_data request))) requests s) \<longleftrightarrow>
         (\<exists>v \<in> set (takeWhile (\<lambda>v. \<not> input_reset v) (rev (concat (map wr_data requests)))). \<not> input_erase v)"
proof -
  have "co_inputPending (fold (\<lambda>request. core_recordWriteActivity now request (length (wr_data request))) requests s)
      = fold pending_byte (concat (map wr_data requests)) (co_inputPending s)"
    using assms(2) by (induction requests arbitrary: s) (simp_all add: core_record_pending)
  moreover have "co_inputPending s = False" using assms(1) by simp
  ultimately show ?thesis by (simp only: core_HasPendingInput_def pending_fold)
qed

theorem core_pending_input_witness:
  "core_HasPendingInput (fold (\<lambda>request. core_recordWriteActivity 0 request (length (wr_data request)))
     [\<lparr>wr_actor = ActorUser, wr_data = [CHR ''l'', CHR 0x0D, CHR ''x'']\<rparr>] demo_core)"
proof -
  let ?r = "\<lparr>wr_actor = ActorUser, wr_data = [CHR ''l'', CHR 0x0D, CHR ''x'']\<rparr>"
  have idle: "\<not> co_inputPending demo_core"
    by (simp add: demo_core_def core_New_def core_Connect_def core_connectBegin_def core_connectEnd_def
        WithReceiveBufferCapacity_def WithActivityBufferCapacity_def WithActivityBufferByteCapacity_def
        WithEventBufferCapacity_def newReceiveBuffer_def newActivityBuffer_def newEventBuffer_def)
  have user: "\<forall>request \<in> set [?r]. wr_actor request \<noteq> ActorSystem" by (simp add: ActorUser_def ActorSystem_def)
  have "\<exists>v \<in> set (takeWhile (\<lambda>v. \<not> input_reset v) (rev (concat (map wr_data [?r])))). \<not> input_erase v"
    by (simp add: input_reset_def input_erase_def)
  with core_pending_input [OF idle user, where now = 0] show ?thesis by (rule iffD2)
qed

section \<open>The lifecycle as a transition system\<close>

text \<open>Where the goroutine that connects and closes the Session is.\<close>

datatype owner = OwnerIdle | OwnerConnecting | OwnerWaking | OwnerJoining | OwnerSignaling

datatype core_action =
    ActConnectBegin "goerr option"
  | ActConnectEnd "goerr + bool"
  | ActCloseBegin
  | ActCloseWake
  | ActCloseEnd "goerr option"
  | ActCloseSignal
  | ActReadTurn "byte list" "goerr option"
  | ActReadErrorEnd
  | ActPublish time event
  | ActRecord time write_request nat

text \<open>
  One atomic action, when it is enabled. \<open>ActRecord\<close> is the end of a \<open>Write\<close> whose
  state check may be long past, so it is enabled in every state.
\<close>

fun core_exec :: "core_action \<Rightarrow> core \<times> owner \<Rightarrow> (core \<times> owner) option" where
  "core_exec (ActConnectBegin ctx) (s, ow) =
     (if ow \<noteq> OwnerIdle then None
      else case core_connectBegin ctx s of
          (s', None) \<Rightarrow> Some (s', OwnerConnecting)
        | (s', Some _) \<Rightarrow> Some (s', OwnerIdle))"
| "core_exec (ActConnectEnd answer) (s, ow) =
     (if ow = OwnerConnecting then Some (fst (core_connectEnd answer s), OwnerIdle) else None)"
| "core_exec ActCloseBegin (s, ow) =
     (if ow \<noteq> OwnerIdle then None
      else case core_closeBegin s of
          (s', None) \<Rightarrow> Some (s', OwnerWaking)
        | (s', Some _) \<Rightarrow> Some (s', OwnerIdle))"
| "core_exec ActCloseWake (s, ow) =
     (if ow = OwnerWaking then Some (core_closeWake s, OwnerJoining) else None)"
| "core_exec (ActCloseEnd err) (s, ow) =
     (if ow = OwnerJoining \<and> (co_reader s = NoReader \<or> co_reader s = ReaderDone)
      then Some (core_closeEnd err s, OwnerSignaling) else None)"
| "core_exec ActCloseSignal (s, ow) =
     (if ow = OwnerSignaling then Some (core_signalManagerDone s, OwnerIdle) else None)"
| "core_exec (ActReadTurn bytes err) (s, ow) =
     (if co_reader s = ReaderRunning then Some (core_readTurn bytes err s, ow) else None)"
| "core_exec ActReadErrorEnd (s, ow) =
     (case co_reader s of
        ReaderFailing e closing \<Rightarrow> Some (core_readErrorEnd e closing s, ow)
      | _ \<Rightarrow> None)"
| "core_exec (ActPublish now event) (s, ow) = Some (core_PublishEvent now event s, ow)"
| "core_exec (ActRecord now request n) (s, ow) = Some (core_recordWriteActivity now request n s, ow)"

inductive core_step :: "core \<times> owner \<Rightarrow> core \<times> owner \<Rightarrow> bool" where
  act: "core_exec a c = Some c' \<Longrightarrow> core_step c c'"

inductive_cases core_stepE: "core_step c c'"

inductive core_reachable :: "core \<times> owner \<Rightarrow> bool" where
  init: "core_New ident nil_source opts = Inr s \<Longrightarrow> core_reachable (s, OwnerIdle)"
| step: "core_reachable c \<Longrightarrow> core_step c c' \<Longrightarrow> core_reachable c'"

definition buffers_wf :: "core \<Rightarrow> bool" where
  "buffers_wf s \<longleftrightarrow> rb_wf (co_receive s) \<and> ab_wf (co_activity s) \<and> eb_wf (co_events s)"

definition buffers_open :: "core \<Rightarrow> bool" where
  "buffers_open s \<longleftrightarrow> \<not> rb_closed (co_receive s) \<and> \<not> ab_closed (co_activity s) \<and> \<not> eb_closed (co_events s)"

definition buffers_closed :: "core \<Rightarrow> bool" where
  "buffers_closed s \<longleftrightarrow> rb_closed (co_receive s) \<and> ab_closed (co_activity s) \<and> eb_closed (co_events s)"

definition buffers_released :: "core \<Rightarrow> bool" where
  "buffers_released s \<longleftrightarrow> rb_data (co_receive s) = [] \<and> ab_events (co_activity s) = [] \<and> eb_events (co_events s) = []"

lemmas buffers_defs = buffers_wf_def buffers_open_def buffers_closed_def buffers_released_def

text \<open>The invariant, in the order of the life of a Session.\<close>

fun core_inv :: "core \<times> owner \<Rightarrow> bool" where
  "core_inv (s, ow) \<longleftrightarrow>
     (ow = OwnerConnecting \<longleftrightarrow> co_state s = StateConnecting) \<and>
     (ow = OwnerWaking \<or> ow = OwnerJoining \<longleftrightarrow> co_state s = StateClosing) \<and>
     (ow = OwnerSignaling \<longrightarrow> co_state s = StateClosed) \<and>
     (co_readerStop s \<longleftrightarrow> co_state s = StateClosed \<or> ow = OwnerJoining) \<and>
     (ow = OwnerJoining \<or> co_state s = StateClosed \<longrightarrow> buffers_closed s) \<and>
     (co_state s \<noteq> StateClosed \<longrightarrow> buffers_wf s) \<and>
     (co_state s \<in> {StateNew, StateConnecting} \<longrightarrow>
        co_reader s = NoReader \<and> \<not> co_channel s \<and> \<not> co_managerDone s \<and> buffers_open s) \<and>
     (co_state s = StateOpen \<longrightarrow>
        co_reader s = ReaderRunning \<and> co_channel s \<and> \<not> co_managerDone s \<and> buffers_open s) \<and>
     (co_reader s = ReaderRunning \<longrightarrow> co_state s = StateOpen \<or> co_state s = StateClosing) \<and>
     (\<forall>e c. co_reader s = ReaderFailing e c \<longrightarrow> co_state s = StateFailed \<or> co_state s = StateClosing) \<and>
     (co_reapByManager s \<longrightarrow> co_state s \<in> {StateFailed, StateClosing, StateClosed}) \<and>
     (co_state s = StateClosed \<longrightarrow>
        (co_reader s = NoReader \<or> co_reader s = ReaderDone) \<and> (co_managerDone s \<or> ow = OwnerSignaling) \<and> buffers_released s)"

declare core_inv.simps [simp del]

lemma rb_close_keeps [simp]: "rb_wf (rb_close e b) = rb_wf b" "rb_closed (rb_close e b)" "rb_data (rb_close e b) = rb_data b"
  by (simp_all add: rb_close_def rb_wf_def)

lemma ab_close_keeps [simp]: "ab_wf (ab_close e b) = ab_wf b" "ab_closed (ab_close e b)" "ab_events (ab_close e b) = ab_events b"
  by (simp_all add: ab_close_def ab_wf_def ab_view_def)

lemma eb_close_keeps [simp]: "eb_wf (eb_close e b) = eb_wf b" "eb_closed (eb_close e b)" "eb_events (eb_close e b) = eb_events b"
  by (simp_all add: eb_close_def eb_wf_def eb_view_def)

lemma ab_append_closed_flag [simp]: "ab_wf b \<Longrightarrow> ab_closed (ab_append e b) = ab_closed b"
  using ab_append_spec [of b e] by (cases "ab_closed b") (auto simp: ab_append_closed)

lemma closeBuffers_sel [simp]:
  "co_state (core_closeBuffers e s) = co_state s" "co_reader (core_closeBuffers e s) = co_reader s"
  "co_channel (core_closeBuffers e s) = co_channel s" "co_readerStop (core_closeBuffers e s) = co_readerStop s"
  "co_managerDone (core_closeBuffers e s) = co_managerDone s"
  "co_reapByManager (core_closeBuffers e s) = co_reapByManager s"
  "buffers_closed (core_closeBuffers e s)" "buffers_wf (core_closeBuffers e s) = buffers_wf s"
  "buffers_released (core_closeBuffers e s) = buffers_released s"
  by (simp_all add: core_closeBuffers_def buffers_defs)

lemma core_init_inv:
  assumes "core_New ident nil_source opts = Inr s"
  shows "core_inv (s, OwnerIdle)"
proof -
  obtain c1 c2 c3 c4 r a ev where b: "newReceiveBuffer c1 = Inr r" "newActivityBuffer c2 c3 = Inr a" "newEventBuffer c4 = Inr ev"
     and s: "co_receive s = r" "co_activity s = a" "co_events s = ev" "co_state s = StateNew" "co_reader s = NoReader"
       "\<not> co_channel s" "\<not> co_readerStop s" "\<not> co_managerDone s" "\<not> co_reapByManager s"
    using assms by (auto simp: core_New_def split: if_splits sum.splits)
  show ?thesis
    using new_wf [OF b(1)] newActivity_wf [OF b(2)] newEvent_wf [OF b(3)] s
    by (simp add: core_inv.simps buffers_defs)
qed

text \<open>Each action keeps the invariant.\<close>

lemma inv_connectBegin:
  assumes "core_inv (s, OwnerIdle)" "core_exec (ActConnectBegin ctx) (s, OwnerIdle) = Some c'"
  shows "core_inv c'"
proof (cases "co_state s = StateNew")
  case False
  then have "c' = (s, OwnerIdle)" using assms(2) by (simp add: core_connectBegin_def)
  then show ?thesis using assms(1) by simp
next
  case True
  then have "c' = (case ctx of Some err \<Rightarrow> (core_closeBuffers err (s\<lparr>co_state := StateFailed\<rparr>), OwnerIdle)
       | None \<Rightarrow> (s\<lparr>co_state := StateConnecting\<rparr>, OwnerConnecting))"
    using assms(2) by (simp add: core_connectBegin_def split: option.splits)
  then show ?thesis using assms(1) True
    by (cases ctx) (simp_all add: core_inv.simps buffers_defs core_closeBuffers_def)
qed

lemma inv_connectEnd:
  assumes "core_inv (s, OwnerConnecting)"
  shows "core_inv (fst (core_connectEnd answer s), OwnerIdle)"
proof -
  have "co_state s = StateConnecting" using assms by (simp add: core_inv.simps)
  then show ?thesis using assms
    by (cases answer) (simp_all add: core_connectEnd_def core_inv.simps buffers_defs core_closeBuffers_def)
qed

lemma inv_closeBegin:
  assumes "core_inv (s, OwnerIdle)" "core_exec ActCloseBegin (s, OwnerIdle) = Some c'"
  shows "core_inv c'"
proof (cases "co_state s = StateClosed \<or> co_state s = StateClosing")
  case True
  then have "c' = (s, OwnerIdle)" using assms(2) by (auto simp: core_closeBegin_def)
  then show ?thesis using assms(1) by simp
next
  case False
  then have "c' = (s\<lparr>co_state := StateClosing\<rparr>, OwnerWaking)" using assms(2) by (simp add: core_closeBegin_def)
  then show ?thesis using assms(1) False by (simp add: core_inv.simps buffers_defs)
qed

lemma inv_closeWake:
  assumes "core_inv (s, OwnerWaking)"
  shows "core_inv (core_closeWake s, OwnerJoining)"
proof -
  have "co_state s = StateClosing" using assms by (simp add: core_inv.simps)
  then show ?thesis using assms
    by (simp add: core_closeWake_def core_inv.simps buffers_defs core_closeBuffers_def)
qed

lemma inv_closeEnd:
  assumes "core_inv (s, OwnerJoining)" "co_reader s = NoReader \<or> co_reader s = ReaderDone"
  shows "core_inv (core_closeEnd err s, OwnerSignaling)"
proof -
  have "co_state s = StateClosing" using assms by (simp add: core_inv.simps)
  then show ?thesis using assms(2,1)
    by (elim disjE) (simp_all add: core_closeEnd_def core_signalManagerDone_def core_inv.simps buffers_defs
      rb_release_def rb_signalLocked_def ab_release_def ab_signalLocked_def eb_release_def eb_signalLocked_def)
qed

lemma inv_closeSignal:
  assumes "core_inv (s, OwnerSignaling)"
  shows "core_inv (core_signalManagerDone s, OwnerIdle)"
proof -
  have "co_state s = StateClosed" using assms by (simp add: core_inv.simps)
  then show ?thesis using assms by (simp add: core_signalManagerDone_def core_inv.simps buffers_defs)
qed

lemma inv_readTurn:
  assumes "core_inv (s, ow)" "co_reader s = ReaderRunning"
  shows "core_inv (core_readTurn bytes err s, ow)"
proof -
  define s1 where "s1 = (if 0 < length bytes then s\<lparr>co_receive := rb_append bytes (co_receive s)\<rparr> else s)"
  have live: "co_state s = StateOpen \<or> co_state s = StateClosing" using assms by (simp add: core_inv.simps)
  have i1: "core_inv (s1, ow)"
    using assms(1) live by (auto simp: s1_def core_inv.simps buffers_defs rb_append_wf)
  have sel: "co_reader s1 = ReaderRunning" "co_state s1 = co_state s" using assms(2) by (simp_all add: s1_def)
  show ?thesis
  proof (cases err)
    case None
    then have eq: "core_readTurn bytes err s = (if length bytes = 0 \<and> co_readerStop s1 then s1\<lparr>co_reader := ReaderDone\<rparr> else s1)"
      by (simp add: core_readTurn_def s1_def Let_def)
    show ?thesis unfolding eq using i1 live sel by (auto simp: core_inv.simps buffers_defs)
  next
    case (Some e)
    let ?closing = "co_state s1 = StateClosing \<or> co_state s1 = StateClosed"
    have eq: "core_readTurn bytes err s = (if ?closing then s1 else s1\<lparr>co_state := StateFailed, co_reapByManager := True\<rparr>)
        \<lparr>co_reader := ReaderFailing e ?closing\<rparr>"
      by (simp add: core_readTurn_def s1_def Let_def Some)
    show ?thesis unfolding eq using i1 live sel by (auto simp: core_inv.simps buffers_defs)
  qed
qed

lemma inv_readErrorEnd:
  assumes "core_inv (s, ow)" "co_reader s = ReaderFailing e c"
  shows "core_inv (core_readErrorEnd e c s, ow)"
proof -
  have "co_state s = StateFailed \<or> co_state s = StateClosing" using assms by (auto simp: core_inv.simps)
  then show ?thesis using assms
    by (elim disjE; cases c)
       (simp_all add: core_readErrorEnd_def core_signalManagerDone_def core_inv.simps buffers_defs core_closeBuffers_def)
qed

lemma inv_publish: "core_inv (s, ow) \<Longrightarrow> core_inv (core_PublishEvent now event s, ow)"
  by (auto simp: core_PublishEvent_def core_isOpen_def core_inv.simps buffers_defs eb_append_wf Let_def)

lemma inv_record:
  assumes "core_inv (s, ow)"
  shows "core_inv (core_recordWriteActivity now request n s, ow)"
proof -
  define e where "e = \<lparr>se_timestamp = now, se_actor = wr_actor request, se_operation = OperationWrite,
                       se_data = take n (wr_data request)\<rparr>"
  define s1 where "s1 = (if wr_actor request \<noteq> ActorSystem
      then s\<lparr>co_inputPending := fold pending_byte (take n (wr_data request)) (co_inputPending s)\<rparr> else s)"
  have "core_inv (s1, ow)" using assms by (simp add: s1_def core_inv.simps buffers_defs)
  moreover have "ab_closed (co_activity s1) \<or> ab_wf (co_activity s1) \<and> co_state s1 \<noteq> StateClosed"
    using \<open>core_inv (s1, ow)\<close> by (auto simp: core_inv.simps buffers_defs)
  ultimately have "core_inv (s1\<lparr>co_activity := ab_append e (co_activity s1)\<rparr>, ow)"
  proof (elim disjE)
    assume "ab_closed (co_activity s1)"
    then have "s1\<lparr>co_activity := ab_append e (co_activity s1)\<rparr> = s1" by (simp add: ab_append_closed)
    then show ?thesis using \<open>core_inv (s1, ow)\<close> by simp
  next
    assume "ab_wf (co_activity s1) \<and> co_state s1 \<noteq> StateClosed"
    then show ?thesis using \<open>core_inv (s1, ow)\<close> by (simp add: core_inv.simps buffers_defs abl.inv_put)
  qed
  moreover have "core_recordWriteActivity now request n s =
      (if n = 0 then s else s1\<lparr>co_activity := ab_append e (co_activity s1)\<rparr>)"
    by (simp add: core_recordWriteActivity_def s1_def e_def Let_def)
  ultimately show ?thesis using assms by simp
qed

lemma core_step_inv:
  assumes "core_step c c'" "core_inv c"
  shows "core_inv c'"
proof -
  obtain s ow where c: "c = (s, ow)" by (cases c)
  from assms(1) obtain a where a: "core_exec a c = Some c'" by (rule core_stepE)
  show ?thesis
  proof (cases a)
    case (ActConnectBegin ctx)
    then have "ow = OwnerIdle" using a c by (simp split: if_splits)
    then show ?thesis using inv_connectBegin a c ActConnectBegin assms(2) by blast
  next
    case (ActConnectEnd answer)
    then show ?thesis using a c assms(2) by (auto split: if_splits intro: inv_connectEnd)
  next
    case ActCloseBegin
    then have "ow = OwnerIdle" using a c by (simp split: if_splits)
    then show ?thesis using inv_closeBegin a c ActCloseBegin assms(2) by blast
  next
    case ActCloseWake
    then show ?thesis using a c assms(2) by (auto split: if_splits intro: inv_closeWake)
  next
    case (ActCloseEnd err)
    then show ?thesis using a c assms(2) by (auto split: if_splits intro: inv_closeEnd)
  next
    case ActCloseSignal
    then show ?thesis using a c assms(2) by (auto split: if_splits intro: inv_closeSignal)
  next
    case (ActReadTurn bytes err)
    then show ?thesis using a c assms(2) by (auto split: if_splits intro: inv_readTurn)
  next
    case ActReadErrorEnd
    then show ?thesis using a c assms(2) by (auto split: reader.splits intro: inv_readErrorEnd)
  next
    case (ActPublish now event)
    then show ?thesis using a c assms(2) by (auto intro: inv_publish)
  next
    case (ActRecord now request n)
    then show ?thesis using a c assms(2) by (auto intro: inv_record)
  qed
qed

lemma core_reachable_inv: "core_reachable c \<Longrightarrow> core_inv c"
  by (induction rule: core_reachable.induct) (auto intro: core_init_inv core_step_inv)

definition state_rank :: "session_state \<Rightarrow> nat" where
  "state_rank st = (case st of StateNew \<Rightarrow> 0 | StateConnecting \<Rightarrow> 1 | StateOpen \<Rightarrow> 2 | StateFailed \<Rightarrow> 3
                     | StateClosing \<Rightarrow> 4 | StateClosed \<Rightarrow> 5)"

lemma core_step_rank:
  assumes "core_step (s, ow) (s', ow')" "core_inv (s, ow)"
  shows "state_rank (co_state s) \<le> state_rank (co_state s')"
proof -
  from assms(1) obtain a where a: "core_exec a (s, ow) = Some (s', ow')" by (rule core_stepE)
  note inv = assms(2) [unfolded core_inv.simps]
  show ?thesis
  proof (cases a)
    case (ActConnectBegin ctx)
    then show ?thesis using a
      by (auto simp: core_connectBegin_def state_rank_def split: if_splits option.splits)
  next
    case (ActConnectEnd answer)
    then have "co_state s = StateConnecting" using a inv by (simp split: if_splits)
    then show ?thesis using a ActConnectEnd
      by (auto simp: core_connectEnd_def state_rank_def split: if_splits sum.splits)
  next
    case ActCloseBegin
    then show ?thesis using a
      by (auto simp: core_closeBegin_def state_rank_def split: if_splits session_state.splits)
  next
    case ActCloseWake
    then show ?thesis using a by (auto simp: core_closeWake_def split: if_splits)
  next
    case (ActCloseEnd err)
    then show ?thesis using a
      by (auto simp: core_closeEnd_def state_rank_def split: if_splits session_state.splits)
  next
    case ActCloseSignal
    then show ?thesis using a by (auto simp: core_signalManagerDone_def split: if_splits)
  next
    case (ActReadTurn bytes err)
    then have "co_state s = StateOpen \<or> co_state s = StateClosing" using a inv by (simp split: if_splits)
    then show ?thesis using a ActReadTurn
      by (auto simp: core_readTurn_def state_rank_def Let_def split: if_splits option.splits)
  next
    case ActReadErrorEnd
    then show ?thesis using a
      by (auto simp: core_readErrorEnd_def core_signalManagerDone_def split: reader.splits)
  next
    case (ActPublish now event)
    then show ?thesis using a by (auto simp: core_PublishEvent_def Let_def)
  next
    case (ActRecord now request n)
    then show ?thesis using a by (auto simp: core_recordWriteActivity_def Let_def)
  qed
qed


text \<open>
  C5 Session lifecycle safety, for every interleaving of the connecting and
  closing caller, the reader goroutine, writers and publishers: an open Session
  has its Channel, its one running reader and open buffers; the reader only runs
  while the Session is open or closing; the storage is released only after the
  reader has ended, and then every read is refused; the Manager's watcher has been
  woken by then unless the closing caller has still to do so, after giving up the
  lock; a Session that failed asynchronously is never reaped while open.
\<close>

theorem core_lifecycle_safe:
  assumes "core_reachable (s, ow)"
  shows "(co_state s = StateOpen \<longrightarrow> co_channel s \<and> co_reader s = ReaderRunning \<and> buffers_open s \<and> buffers_wf s) \<and>
         (co_reader s = ReaderRunning \<longrightarrow> co_state s = StateOpen \<or> co_state s = StateClosing) \<and>
         (co_state s = StateClosed \<longrightarrow> buffers_closed s \<and> buffers_released s \<and> (co_managerDone s \<or> ow = OwnerSignaling) \<and>
            (co_reader s = NoReader \<or> co_reader s = ReaderDone) \<and>
            (\<forall>lim. core_ReadRecent s lim = Inl ErrNotOpen)) \<and>
         (co_readerStop s \<longrightarrow> co_state s = StateClosing \<or> co_state s = StateClosed) \<and>
         (co_reapByManager s \<longrightarrow> co_state s \<in> {StateFailed, StateClosing, StateClosed})"
proof -
  note inv = core_reachable_inv [OF assms, unfolded core_inv.simps]
  have "co_readerStop s \<longrightarrow> co_state s = StateClosing \<or> co_state s = StateClosed"
    using inv by (elim conjE) blast
  moreover have "co_state s = StateClosed \<longrightarrow> (\<forall>lim. core_ReadRecent s lim = Inl ErrNotOpen)"
    by (simp add: core_ReadRecent_def core_isOpen_def)
  moreover have "co_state s = StateOpen \<longrightarrow> co_state s \<noteq> StateClosed" by simp
  ultimately show ?thesis using inv by (elim conjE) (intro conjI impI; blast)
qed

lemma demo_new: "core_New ''s'' False [Some (WithReceiveBufferCapacity 4), Some (WithActivityBufferCapacity 4),
      Some (WithActivityBufferByteCapacity 16), Some (WithEventBufferCapacity 4)]
    = Inr (projr (core_New ''s'' False [Some (WithReceiveBufferCapacity 4), Some (WithActivityBufferCapacity 4),
      Some (WithActivityBufferByteCapacity 16), Some (WithEventBufferCapacity 4)]))"
  by (simp add: core_New_def WithReceiveBufferCapacity_def WithActivityBufferCapacity_def
      WithActivityBufferByteCapacity_def WithEventBufferCapacity_def
      newReceiveBuffer_def newActivityBuffer_def newEventBuffer_def)

definition demo_new_core :: core where
  "demo_new_core = projr (core_New ''s'' False [Some (WithReceiveBufferCapacity 4), Some (WithActivityBufferCapacity 4),
      Some (WithActivityBufferByteCapacity 16), Some (WithEventBufferCapacity 4)])"

lemma demo_reachable: "core_reachable (demo_new_core, OwnerIdle)"
  unfolding demo_new_core_def by (rule core_reachable.init [OF demo_new])

lemma demo_reachable_open: "core_reachable (demo_core, OwnerIdle)"
proof -
  have "co_state demo_new_core = StateNew" by code_simp
  then have b: "core_exec (ActConnectBegin None) (demo_new_core, OwnerIdle)
      = Some (demo_new_core\<lparr>co_state := StateConnecting\<rparr>, OwnerConnecting)"
    by (simp add: core_connectBegin_def)
  have e: "core_exec (ActConnectEnd (Inr False)) (demo_new_core\<lparr>co_state := StateConnecting\<rparr>, OwnerConnecting)
      = Some (demo_core, OwnerIdle)"
    using \<open>co_state demo_new_core = StateNew\<close>
    by (simp add: demo_core_def demo_new_core_def core_Connect_def core_connectBegin_def)
  show ?thesis
    using core_reachable.step [OF core_reachable.step [OF demo_reachable core_step.act [OF b]] core_step.act [OF e]] .
qed

theorem core_lifecycle_safe_witness: "co_channel demo_core \<and> co_reader demo_core = ReaderRunning"
proof -
  have "co_state demo_core = StateOpen" by code_simp
  then show ?thesis using core_lifecycle_safe [OF demo_reachable_open] by simp
qed

text \<open>
  The lifecycle only moves forward (new, connecting, open, failed, closing,
  closed): no action of any goroutine takes a reachable Session back, and a closed
  Session stays closed.
\<close>

theorem core_lifecycle_monotone:
  assumes "core_reachable (s, ow)" "core_step (s, ow) (s', ow')"
  shows "state_rank (co_state s) \<le> state_rank (co_state s') \<and>
         (co_state s = StateClosed \<longrightarrow> co_state s' = StateClosed)"
proof -
  have "state_rank (co_state s) \<le> state_rank (co_state s')"
    using core_step_rank [OF assms(2) core_reachable_inv [OF assms(1)]] .
  then show ?thesis by (cases "co_state s'") (auto simp: state_rank_def)
qed

theorem core_lifecycle_monotone_witness:
  "state_rank (co_state demo_core) \<le> state_rank (co_state (demo_core\<lparr>co_state := StateClosing\<rparr>))"
proof -
  have "co_state demo_core = StateOpen" by code_simp
  then have "core_exec ActCloseBegin (demo_core, OwnerIdle) = Some (demo_core\<lparr>co_state := StateClosing\<rparr>, OwnerWaking)"
    by (simp add: core_closeBegin_def)
  from core_lifecycle_monotone [OF demo_reachable_open core_step.act [OF this]] show ?thesis by blast
qed

lemma core_closeWake_sel [simp]:
  "co_state (core_closeWake s) = co_state s" "co_reader (core_closeWake s) = co_reader s"
  "co_channel (core_closeWake s) = co_channel s" "buffers_closed (core_closeWake s)" "co_readerStop (core_closeWake s)"
  by (simp_all add: core_closeWake_def core_closeBuffers_def buffers_defs)

lemma core_closeEnd_sel [simp]:
  "co_state (core_closeEnd e s) = StateClosed" "co_closeErr (core_closeEnd e s) = e"
  "buffers_released (core_closeEnd e s)"
  by (simp_all add: core_closeEnd_def buffers_defs rb_release_def rb_signalLocked_def
      ab_release_def ab_signalLocked_def eb_release_def eb_signalLocked_def)

lemma signal_sel [simp]:
  "co_state (core_signalManagerDone s) = co_state s" "co_closeErr (core_signalManagerDone s) = co_closeErr s"
  "buffers_released (core_signalManagerDone s) = buffers_released s"
  by (simp_all add: core_signalManagerDone_def buffers_defs)

text \<open>
  \<open>Close\<close> called alone always ends with the Session closed, its storage
  released and the Channel's close result returned, whatever state it was in; and
  every later \<open>Close\<close> changes nothing and returns that same result.
\<close>

theorem core_close_idempotent:
  assumes "co_state s \<noteq> StateClosing"
  shows "co_state (fst (core_Close chan_err reader_err s)) = StateClosed \<and>
         (co_state s \<noteq> StateClosed \<longrightarrow> buffers_released (fst (core_Close chan_err reader_err s)) \<and>
            snd (core_Close chan_err reader_err s) = (if co_channel s then chan_err else None)) \<and>
         core_Close chan_err' reader_err' (fst (core_Close chan_err reader_err s))
           = (fst (core_Close chan_err reader_err s), snd (core_Close chan_err reader_err s))"
proof (cases "co_state s = StateClosed")
  case True
  then show ?thesis by (simp add: core_Close_def core_closeBegin_def)
next
  case False
  then obtain s3 where "core_Close chan_err reader_err s
      = (core_signalManagerDone (core_closeEnd (if co_channel s then chan_err else None) s3), if co_channel s then chan_err else None)"
    using assms by (simp add: core_Close_def core_closeBegin_def Let_def)
  then show ?thesis using False by (simp add: core_Close_def [of _ _ "core_signalManagerDone _"] core_closeBegin_def)
qed

theorem core_close_idempotent_witness:
  "snd (core_Close None IoEOF (fst (core_Close (Some (ErrExternal 3)) IoEOF demo_core))) = Some (ErrExternal 3)"
proof -
  have o: "co_state demo_core = StateOpen" by code_simp
  have ch: "co_channel demo_core" by code_simp
  have "co_state demo_core \<noteq> StateClosing" using o by simp
  from core_close_idempotent [OF this, of "Some (ErrExternal 3)" IoEOF None IoEOF] show ?thesis
    using o ch by simp
qed

end
