(* ===== verification/Go_Strings.thy ===== *)
theory Go_Strings
  imports Prelude
begin

text \<open>
  The functions of Go's \<open>strings\<close> and \<open>strconv\<close> packages the modelled code
  calls, on byte strings. White space is the set of \<open>unicode.IsSpace\<close>, as the
  UTF-8 encodings of its runes; the case mappings change the ASCII letters and
  leave every other byte alone, which is what Go does on the transport, tool and
  key names the program maps (they are ASCII identifiers).
\<close>

section \<open>Prefixes, suffixes, substrings\<close>

definition has_prefix :: "string \<Rightarrow> string \<Rightarrow> bool" where
  "has_prefix s p \<longleftrightarrow> take (length p) s = p"

lemma has_prefix_code [code]:
  "has_prefix s [] = True"
  "has_prefix [] (d # p) = False"
  "has_prefix (c # s) (d # p) = (c = d \<and> has_prefix s p)"
  by (auto simp: has_prefix_def)

definition has_suffix :: "string \<Rightarrow> string \<Rightarrow> bool" where
  "has_suffix s p \<longleftrightarrow> length p \<le> length s \<and> drop (length s - length p) s = p"

lemma has_prefixI [simp]: "has_prefix (p @ s) p"
  by (simp add: has_prefix_def)

lemma has_prefix_iff: "has_prefix s p \<longleftrightarrow> (\<exists>t. s = p @ t)"
  by (metis append_eq_conv_conj append_take_drop_id has_prefix_def)

lemma has_suffixI [simp]: "has_suffix (s @ p) p"
  by (simp add: has_suffix_def)

text \<open>\<open>strings.Index\<close>: the first occurrence.\<close>

fun str_index :: "string \<Rightarrow> string \<Rightarrow> nat option" where
  "str_index [] p = (if p = [] then Some 0 else None)"
| "str_index (c # s) p = (if has_prefix (c # s) p then Some 0 else map_option Suc (str_index s p))"

definition str_contains :: "string \<Rightarrow> string \<Rightarrow> bool" where
  "str_contains s p \<longleftrightarrow> str_index s p \<noteq> None"

lemma str_index_Some:
  "str_index s p = Some i \<Longrightarrow> has_prefix (drop i s) p \<and> (\<forall>j < i. \<not> has_prefix (drop j s) p)"
proof (induction s arbitrary: i)
  case (Cons c s)
  show ?case
  proof (cases "has_prefix (c # s) p")
    case True
    then show ?thesis using Cons.prems by simp
  next
    case False
    then obtain k where k: "str_index s p = Some k" "i = Suc k" using Cons.prems by auto
    show ?thesis using Cons.IH [OF k(1)] k(2) False by (auto simp: less_Suc_eq_0_disj)
  qed
qed (auto simp: has_prefix_def split: if_splits)

lemma str_index_None: "str_index s p = None \<Longrightarrow> \<not> has_prefix (drop j s) p"
proof (induction s arbitrary: j)
  case (Cons c s)
  then show ?case by (cases j) (auto split: if_splits)
qed (auto simp: has_prefix_def split: if_splits)

text \<open>\<open>strings.Split\<close> on one byte, and \<open>strings.Join\<close>.\<close>

fun split_byte :: "byte \<Rightarrow> string \<Rightarrow> string list" where
  "split_byte d [] = [[]]"
| "split_byte d (c # s) =
     (if c = d then [] # split_byte d s
      else case split_byte d s of w # ws \<Rightarrow> (c # w) # ws | [] \<Rightarrow> [[c]])"

fun str_join :: "string \<Rightarrow> string list \<Rightarrow> string" where
  "str_join sep [] = []"
| "str_join sep [w] = w"
| "str_join sep (w # ws) = w @ sep @ str_join sep ws"

lemma split_byte_ne [simp]: "split_byte d s \<noteq> []"
  by (induction s) (auto split: list.splits)

lemma split_byte_append: "split_byte d (a @ d # b) = split_byte d a @ split_byte d b"
proof (induction a)
  case (Cons c a)
  obtain v vs where v: "split_byte d a = v # vs" by (cases "split_byte d a") auto
  show ?case using Cons v by simp
qed simp

lemma split_byte_plain: "d \<notin> set w \<Longrightarrow> split_byte d w = [w]"
  by (induction w) auto

lemma split_join: "cs \<noteq> [] \<Longrightarrow> \<forall>c \<in> set cs. d \<notin> set c \<Longrightarrow> split_byte d (str_join [d] cs) = cs"
proof (induction cs)
  case (Cons w ws)
  then show ?case by (cases ws) (simp_all add: split_byte_plain split_byte_append)
qed simp

lemma join_split_byte: "str_join [d] (split_byte d s) = s"
proof (induction s)
  case (Cons c s)
  obtain w ws where w: "split_byte d s = w # ws" by (cases "split_byte d s") auto
  show ?case
  proof (cases "c = d")
    case True
    then show ?thesis using Cons w by simp
  next
    case False
    then show ?thesis using Cons w by (cases ws) auto
  qed
qed simp

section \<open>White space\<close>

definition is_ascii_space :: "byte \<Rightarrow> bool" where
  "is_ascii_space c \<longleftrightarrow> c \<in> {CHR 0x09, CHR 0x0A, CHR 0x0B, CHR 0x0C, CHR 0x0D, CHR 0x20}"

definition space_runes :: "string list" where
  "space_runes =
     map (\<lambda>c. [c]) [CHR 0x20, CHR 0x09, CHR 0x0A, CHR 0x0B, CHR 0x0C, CHR 0x0D] @
     [[CHR 0xC2, CHR 0x85], [CHR 0xC2, CHR 0xA0], [CHR 0xE1, CHR 0x9A, CHR 0x80]] @
     map (\<lambda>c. [CHR 0xE2, CHR 0x80, c])
       [CHR 0x80, CHR 0x81, CHR 0x82, CHR 0x83, CHR 0x84, CHR 0x85, CHR 0x86, CHR 0x87, CHR 0x88,
        CHR 0x89, CHR 0x8A, CHR 0xA8, CHR 0xA9, CHR 0xAF] @
     [[CHR 0xE2, CHR 0x81, CHR 0x9F], [CHR 0xE3, CHR 0x80, CHR 0x80]]"

definition lead_space :: "string \<Rightarrow> nat" where
  "lead_space s = (case find (has_prefix s) space_runes of None \<Rightarrow> 0 | Some r \<Rightarrow> length r)"

definition tail_space :: "string \<Rightarrow> nat" where
  "tail_space s = (case find (has_suffix s) space_runes of None \<Rightarrow> 0 | Some r \<Rightarrow> length r)"

function trim_left :: "string \<Rightarrow> string" where
  "trim_left s = (if lead_space s = 0 \<or> s = [] then s else trim_left (drop (lead_space s) s))"
  by pat_completeness auto
termination by (relation "measure length") auto

function trim_right :: "string \<Rightarrow> string" where
  "trim_right s = (if tail_space s = 0 \<or> s = [] then s else trim_right (take (length s - tail_space s) s))"
  by pat_completeness auto
termination by (relation "measure length") auto

declare trim_left.simps [simp del] trim_right.simps [simp del]

definition trim_space :: "string \<Rightarrow> string" where
  "trim_space s = trim_right (trim_left s)"

text \<open>\<open>strings.Fields\<close>: the maximal runs of non-space runes.\<close>

function fields_acc :: "string \<Rightarrow> string \<Rightarrow> string list" where
  "fields_acc cur s =
     (case s of
        [] \<Rightarrow> (if cur = [] then [] else [cur])
      | c # cs \<Rightarrow>
          if lead_space s = 0 then fields_acc (cur @ [c]) cs
          else (if cur = [] then [] else [cur]) @ fields_acc [] (drop (lead_space s) s))"
  by pat_completeness auto
termination by (relation "measure (\<lambda>(cur, s). length s)") auto

declare fields_acc.simps [simp del]

definition str_fields :: "string \<Rightarrow> string list" where
  "str_fields s = fields_acc [] s"

section \<open>Case mappings\<close>

definition lower_byte :: "byte \<Rightarrow> byte" where
  "lower_byte c = (if 65 \<le> (of_char c :: nat) \<and> (of_char c :: nat) \<le> 90 then char_of ((of_char c :: nat) + 32) else c)"

definition upper_byte :: "byte \<Rightarrow> byte" where
  "upper_byte c = (if 97 \<le> (of_char c :: nat) \<and> (of_char c :: nat) \<le> 122 then char_of ((of_char c :: nat) - 32) else c)"

definition to_lower :: "string \<Rightarrow> string" where "to_lower = map lower_byte"
definition to_upper :: "string \<Rightarrow> string" where "to_upper = map upper_byte"

section \<open>Decimal numbers\<close>

definition digit_char :: "nat \<Rightarrow> byte" where "digit_char d = char_of (48 + d)"

lemma digit_chars:
  "digit_char 0 = CHR ''0''" "digit_char 1 = CHR ''1''" "digit_char (Suc 0) = CHR ''1''" "digit_char 2 = CHR ''2''"
  "digit_char 3 = CHR ''3''" "digit_char 4 = CHR ''4''" "digit_char 5 = CHR ''5''" "digit_char 6 = CHR ''6''"
  "digit_char 7 = CHR ''7''" "digit_char 8 = CHR ''8''" "digit_char 9 = CHR ''9''"
  by code_simp+

definition is_digit :: "byte \<Rightarrow> bool" where
  "is_digit c \<longleftrightarrow> 48 \<le> (of_char c :: nat) \<and> (of_char c :: nat) \<le> 57"

definition digit_val :: "byte \<Rightarrow> nat" where "digit_val c = of_char c - 48"

lemma digit_val_char [simp]: "d < 10 \<Longrightarrow> digit_val (digit_char d) = d"
  by (simp add: digit_val_def digit_char_def)

lemma is_digit_char [simp]: "d < 10 \<Longrightarrow> is_digit (digit_char d)"
  by (simp add: is_digit_def digit_char_def)

text \<open>\<open>strconv.FormatUint(n, 10)\<close> and its inverse on digits.\<close>

fun format_nat :: "nat \<Rightarrow> string" where
  "format_nat n = (if n < 10 then [digit_char n] else format_nat (n div 10) @ [digit_char (n mod 10)])"

declare format_nat.simps [simp del]

definition decimal_value :: "string \<Rightarrow> nat" where
  "decimal_value s = foldl (\<lambda>a c. 10 * a + digit_val c) 0 s"

lemma decimal_format [simp]: "decimal_value (format_nat n) = n"
  by (induction n rule: format_nat.induct) (subst format_nat.simps, auto simp: decimal_value_def)

lemma format_nat_inj: "format_nat m = format_nat n \<longleftrightarrow> m = n"
  by (metis decimal_format)

lemma format_nat_digits: "c \<in> set (format_nat n) \<Longrightarrow> is_digit c"
  by (induction n rule: format_nat.induct) (subst (asm) (2) format_nat.simps, auto split: if_splits)

lemma format_nat_ne [simp]: "format_nat n \<noteq> []"
  by (subst format_nat.simps) simp

definition format_int :: "int \<Rightarrow> string" where
  "format_int i = (if i < 0 then CHR ''-'' # format_nat (nat (- i)) else format_nat (nat i))"

section \<open>Hexadecimal digits\<close>

definition is_hex :: "byte \<Rightarrow> bool" where
  "is_hex c \<longleftrightarrow> is_digit c \<or> lower_byte c \<in> set ''abcdef''"

lemma lower_lower: "lower_byte (lower_byte c) = lower_byte c"
  by (auto simp: lower_byte_def)

lemma hex_lower: "is_hex c \<Longrightarrow> is_hex (lower_byte c)"
  by (auto simp: is_hex_def lower_lower) (auto simp: lower_byte_def is_digit_def)

end
