(* ===== verification/Manager.thy ===== *)
theory Manager
  imports Session_Types Go_Strings "HOL-Library.List_Lexorder" "HOL-Library.Char_ord"
begin

text \<open>
  \<open>internal/core/session/manager.go\<close>: the registry of live Sessions.

  A Session is an interface value: \<open>ms_handle\<close> is its instance (the identity of its
  lifecycle channel), \<open>ms_id\<close> its \<open>ID()\<close>, \<open>ms_observed\<close> says whether it implements
  \<open>managedLifecycleSession\<close>. Its \<open>State()\<close> changes on its own, so operations that
  call it take the state function \<open>st\<close> of that moment. What the Manager calls on
  Sessions is returned as a list of \<open>session_call\<close>s. The map of Sessions is an
  association list (new entries at the end); the reference counters are \<open>nat\<close> (the
  code's \<open>uint64\<close> would need \<open>2 ^ 64\<close> registrations to wrap). An
  \<open>endpointOpening\<close> is a number; \<open>mg_results\<close> holds the outcome of the finished ones.

  \<open>GetOrCreate\<close> gives its lock up while it opens the connection, so it is three
  critical sections (\<open>gocBegin\<close>, \<open>gocRegister\<close>, \<open>gocFinish\<close>) and their sequential
  composition \<open>mg_GetOrCreate\<close>.
\<close>

section \<open>Data\<close>

definition ErrDuplicateSession :: goerr where "ErrDuplicateSession = ErrSentinel ''ErrDuplicateSession''"
definition ErrManagerClosed :: goerr where "ErrManagerClosed = ErrSentinel ''ErrManagerClosed''"

record managed_session =
  ms_handle :: nat
  ms_id :: string
  ms_observed :: bool

record session_metadata =
  sm_transport :: string
  sm_endpoint :: string
  sm_label :: string
  sm_reference :: string

definition zero_metadata :: session_metadata where
  "zero_metadata = \<lparr>sm_transport = [], sm_endpoint = [], sm_label = [], sm_reference = []\<rparr>"

record session_info =
  si_id :: string
  si_metadata :: session_metadata
  si_state :: session_state

definition zero_info :: session_info where
  "zero_info = \<lparr>si_id = [], si_metadata = zero_metadata, si_state = StateNew\<rparr>"

record registered_session =
  rs_session :: managed_session
  rs_metadata :: session_metadata

record manager =
  mg_sessions :: "(string \<times> registered_session) list"
  mg_nextReferences :: "string \<Rightarrow> nat"
  mg_openings :: "(string \<times> nat) list"
  mg_openingCount :: nat
  mg_results :: "nat \<Rightarrow> (goerr + session_info) option"
  mg_closed :: bool

datatype session_call =
    CallPublish managed_session event
  | CallClose managed_session

type_synonym state_reader = "nat \<Rightarrow> session_state"

definition NewManager :: manager where
  "NewManager = \<lparr>mg_sessions = [], mg_nextReferences = (\<lambda>_. 0), mg_openings = [],
     mg_openingCount = 0, mg_results = (\<lambda>_. None), mg_closed = False\<rparr>"

section \<open>Lookup\<close>

text \<open>A direct ID wins; otherwise the first entry with that reference.\<close>

definition sessionIDLocked :: "manager \<Rightarrow> string \<Rightarrow> (string \<times> registered_session) option" where
  "sessionIDLocked m identifier =
     (case map_of (mg_sessions m) identifier of
        Some r \<Rightarrow> Some (identifier, r)
      | None \<Rightarrow> find (\<lambda>(k, r). sm_reference (rs_metadata r) = identifier) (mg_sessions m))"

definition mg_Get :: "manager \<Rightarrow> string \<Rightarrow> managed_session option" where
  "mg_Get m identifier = map_option (\<lambda>(k, r). rs_session r) (sessionIDLocked m identifier)"

definition mg_Reference :: "manager \<Rightarrow> string \<Rightarrow> string option" where
  "mg_Reference m identifier = map_option (\<lambda>(k, r). sm_reference (rs_metadata r)) (sessionIDLocked m identifier)"

definition mg_List :: "manager \<Rightarrow> managed_session list" where
  "mg_List m = map (\<lambda>(k, r). rs_session r) (mg_sessions m)"

definition mg_ListInfo :: "state_reader \<Rightarrow> manager \<Rightarrow> session_info list" where
  "mg_ListInfo st m =
     map (\<lambda>(k, r). \<lparr>si_id = ms_id (rs_session r), si_metadata = rs_metadata r,
                     si_state = st (ms_handle (rs_session r))\<rparr>) (mg_sessions m)"

definition delete_session :: "string \<Rightarrow> manager \<Rightarrow> manager" where
  "delete_session k m = m\<lparr>mg_sessions := filter (\<lambda>e. fst e \<noteq> k) (mg_sessions m)\<rparr>"

definition mg_Remove :: "string \<Rightarrow> manager \<Rightarrow> managed_session option \<times> manager" where
  "mg_Remove identifier m =
     (case sessionIDLocked m identifier of
        None \<Rightarrow> (None, m)
      | Some (k, r) \<Rightarrow> (Some (rs_session r), delete_session k m))"

section \<open>References\<close>

definition referencePrefix :: "string \<Rightarrow> string" where
  "referencePrefix transport =
     (if transport = ''serial'' then ''SER''
      else if transport = ''ssh'' then ''SSH''
      else if transport = ''telnet'' then ''TELNET''
      else if transport = [] then ''SESSION''
      else to_upper (str_join ''-'' (str_fields transport)))"

definition reference_key :: "string \<Rightarrow> string" where
  "reference_key transport = to_lower (trim_space transport)"

definition reference_text :: "string \<Rightarrow> nat \<Rightarrow> string" where
  "reference_text prefix n = prefix @ ''-'' @ format_nat n"

lemma reference_text_inj [simp]: "reference_text p a = reference_text p b \<longleftrightarrow> a = b"
  by (simp add: reference_text_def format_nat_inj)

definition identifiers :: "manager \<Rightarrow> string set" where
  "identifiers m = fst ` set (mg_sessions m) \<union> (\<lambda>(k, r). sm_reference (rs_metadata r)) ` set (mg_sessions m)"

lemma sessionID_exists: "sessionIDLocked m x \<noteq> None \<longleftrightarrow> x \<in> identifiers m"
proof (cases "map_of (mg_sessions m) x")
  case None
  then have "x \<notin> fst ` set (mg_sessions m)" by (simp add: map_of_eq_None_iff)
  moreover have "sessionIDLocked m x = None \<longleftrightarrow> x \<notin> (\<lambda>(k, r). sm_reference (rs_metadata r)) ` set (mg_sessions m)"
    using None by (auto simp: sessionIDLocked_def find_None_iff image_iff split: prod.splits)
  ultimately show ?thesis by (auto simp: identifiers_def)
next
  case (Some r)
  then have "x \<in> fst ` set (mg_sessions m)" by (force dest: map_of_SomeD)
  then show ?thesis using Some by (simp add: sessionIDLocked_def identifiers_def)
qed

text \<open>
  The numbering loop: it stops because only finitely many numbers are taken by a
  registered ID or reference.
\<close>

function nextReference_loop :: "manager \<Rightarrow> string \<Rightarrow> nat \<Rightarrow> string \<times> nat" where
  "nextReference_loop m prefix n =
     (if sessionIDLocked m (reference_text prefix (Suc n)) \<noteq> None
      then nextReference_loop m prefix (Suc n)
      else (reference_text prefix (Suc n), Suc n))"
  by pat_completeness auto
termination
proof (relation "measure (\<lambda>(m, prefix, n). card {k. n < k \<and> reference_text prefix k \<in> identifiers m})", goal_cases)
  case (2 m prefix n)
  define T where "T j = {k. j < k \<and> reference_text prefix k \<in> identifiers m}" for j
  have "finite (reference_text prefix -` identifiers m)"
    by (rule finite_vimageI) (auto simp: identifiers_def intro!: injI)
  then have fin: "finite (T n)"
    by (rule finite_subset [rotated]) (auto simp: T_def)
  have "Suc n \<in> T n" "Suc n \<notin> T (Suc n)" "T (Suc n) \<subseteq> T n"
    using 2 [unfolded sessionID_exists] by (auto simp: T_def)
  then have "T (Suc n) \<subset> T n" by blast
  then show ?case using psubset_card_mono [OF fin] by (simp add: T_def)
qed simp

declare nextReference_loop.simps [simp del]

definition nextReferenceLocked :: "string \<Rightarrow> manager \<Rightarrow> string \<times> manager" where
  "nextReferenceLocked transport m =
     (let key = reference_key transport;
          (reference, n) = nextReference_loop m (referencePrefix key) (mg_nextReferences m key)
      in (reference, m\<lparr>mg_nextReferences := (mg_nextReferences m)(key := n)\<rparr>))"

lemma nextReference_loop_spec:
  "nextReference_loop m prefix n = (r, k) \<Longrightarrow>
     n < k \<and> r = reference_text prefix k \<and> r \<notin> identifiers m"
proof (induction m prefix n rule: nextReference_loop.induct)
  case (1 m prefix n)
  show ?case
  proof (cases "sessionIDLocked m (reference_text prefix (Suc n)) \<noteq> None")
    case True
    have "nextReference_loop m prefix (Suc n) = (r, k)"
      using 1(2) unfolding nextReference_loop.simps [of m prefix n] if_P [OF True] .
    from 1(1) [OF True this] show ?thesis by auto
  next
    case False
    have "reference_text prefix (Suc n) = r \<and> Suc n = k"
      using 1(2) unfolding nextReference_loop.simps [of m prefix n] if_not_P [OF False] prod.inject .
    then show ?thesis using False [unfolded sessionID_exists] by auto
  qed
qed

section \<open>Registration\<close>

definition publishSessionCreated :: "managed_session \<Rightarrow> session_metadata \<Rightarrow> session_call" where
  "publishSessionCreated s md =
     CallPublish s
       (zero_event\<lparr>ev_type := EventSessionCreated, ev_actor := ActorSystem,
          ev_metadata := Some [(''transport'', GString (sm_transport md)), (''endpoint'', GString (sm_endpoint md)),
                               (''reference'', GString (sm_reference md)), (''label'', GString (sm_label md))]\<rparr>)"

text \<open>The entry both registration paths write under the lock.\<close>

definition enter_session :: "managed_session \<Rightarrow> session_metadata \<Rightarrow> manager \<Rightarrow> session_metadata \<times> manager" where
  "enter_session s metadata m =
     (let (reference, m1) = nextReferenceLocked (sm_transport metadata) m;
          md = metadata\<lparr>sm_reference := reference\<rparr>
      in (md, m1\<lparr>mg_sessions := mg_sessions m1 @ [(ms_id s, \<lparr>rs_session = s, rs_metadata = md\<rparr>)]\<rparr>))"

definition RegisterWithMetadata ::
  "managed_session \<Rightarrow> session_metadata \<Rightarrow> manager \<Rightarrow> goerr option \<times> session_call list \<times> manager" where
  "RegisterWithMetadata s metadata m =
     (if mg_closed m then (Some ErrManagerClosed, [], m)
      else if map_of (mg_sessions m) (ms_id s) \<noteq> None then (Some ErrDuplicateSession, [], m)
      else let (md, m1) = enter_session s metadata m
           in (None, [publishSessionCreated s md], m1))"

definition mg_Register :: "managed_session \<Rightarrow> manager \<Rightarrow> goerr option \<times> session_call list \<times> manager" where
  "mg_Register s m = RegisterWithMetadata s zero_metadata m"

text \<open>
  \<open>removeExact\<close> and the watcher of \<open>watchLifecycle\<close>, once the Session's lifecycle
  channel is closed; \<open>reap\<close> is \<open>managerShouldReap\<close>.
\<close>

definition removeExact :: "managed_session \<Rightarrow> manager \<Rightarrow> bool \<times> manager" where
  "removeExact terminal m =
     (if \<not> ms_observed terminal then (False, m)
      else case map_of (mg_sessions m) (ms_id terminal) of
             None \<Rightarrow> (False, m)
           | Some r \<Rightarrow>
               if \<not> ms_observed (rs_session r) \<or> ms_handle (rs_session r) \<noteq> ms_handle terminal then (False, m)
               else (True, delete_session (ms_id terminal) m))"

definition watchLifecycle :: "bool \<Rightarrow> managed_session \<Rightarrow> manager \<Rightarrow> session_call list \<times> manager" where
  "watchLifecycle reap terminal m =
     (if \<not> ms_observed terminal \<or> \<not> reap then ([], m)
      else case removeExact terminal m of
             (True, m') \<Rightarrow> ([CallClose terminal], m')
           | (False, m') \<Rightarrow> ([], m'))"

lemma enter_session_spec:
  assumes "enter_session s metadata m = (md, m')"
  obtains n where "mg_nextReferences m (reference_key (sm_transport metadata)) < n"
    "md = metadata\<lparr>sm_reference := reference_text (referencePrefix (reference_key (sm_transport metadata))) n\<rparr>"
    "sm_reference md \<notin> identifiers m"
    "m' = m\<lparr>mg_nextReferences := (mg_nextReferences m)(reference_key (sm_transport metadata) := n),
            mg_sessions := mg_sessions m @ [(ms_id s, \<lparr>rs_session = s, rs_metadata = md\<rparr>)]\<rparr>"
proof -
  obtain r n where l: "nextReference_loop m (referencePrefix (reference_key (sm_transport metadata)))
      (mg_nextReferences m (reference_key (sm_transport metadata))) = (r, n)" by (meson surj_pair)
  from nextReference_loop_spec [OF l] that [of n] assms show thesis
    by (auto simp: enter_session_def nextReferenceLocked_def l Let_def)
qed

lemma RegisterWithMetadata_cases:
  assumes "RegisterWithMetadata s metadata m = (e, calls, m')"
  obtains "e \<noteq> None" "calls = []" "m' = m"
  | md where "e = None" "calls = [publishSessionCreated s md]" "map_of (mg_sessions m) (ms_id s) = None"
      "\<not> mg_closed m" "enter_session s metadata m = (md, m')"
  using assms by (auto simp: RegisterWithMetadata_def split: if_splits prod.splits)

section \<open>GetOrCreate\<close>

fun managerOwnsEndpoint :: "session_state \<Rightarrow> bool" where
  "managerOwnsEndpoint StateNew = True"
| "managerOwnsEndpoint StateConnecting = True"
| "managerOwnsEndpoint StateOpen = True"
| "managerOwnsEndpoint StateClosing = True"
| "managerOwnsEndpoint _ = False"

definition sessionEndpointKey :: "string \<Rightarrow> string \<Rightarrow> string" where
  "sessionEndpointKey transport endpoint = transport @ [CHR 0x00] @ endpoint"

definition owns_endpoint :: "state_reader \<Rightarrow> string \<Rightarrow> string \<Rightarrow> registered_session \<Rightarrow> bool" where
  "owns_endpoint st transport endpoint r \<longleftrightarrow>
     sm_transport (rs_metadata r) = transport \<and> sm_endpoint (rs_metadata r) = endpoint \<and>
     managerOwnsEndpoint (st (ms_handle (rs_session r)))"

fun active_scan :: "state_reader \<Rightarrow> string \<Rightarrow> string \<Rightarrow> session_info \<Rightarrow> (string \<times> registered_session) list \<Rightarrow> session_info" where
  "active_scan st transport endpoint sel [] = sel"
| "active_scan st transport endpoint sel ((k, r) # rest) =
     active_scan st transport endpoint
       (if owns_endpoint st transport endpoint r \<and> (si_id sel = [] \<or> k < si_id sel)
        then \<lparr>si_id = k, si_metadata = rs_metadata r, si_state = st (ms_handle (rs_session r))\<rparr>
        else sel) rest"

definition activeSessionForEndpointLocked :: "state_reader \<Rightarrow> string \<Rightarrow> string \<Rightarrow> manager \<Rightarrow> session_info option" where
  "activeSessionForEndpointLocked st transport endpoint m =
     (let sel = active_scan st transport endpoint zero_info (mg_sessions m)
      in if si_id sel = [] then None else Some sel)"

datatype goc_decision =
    GocClosed
  | GocFound session_info
  | GocWait nat
  | GocOwn nat

definition gocBegin :: "state_reader \<Rightarrow> session_metadata \<Rightarrow> manager \<Rightarrow> goc_decision \<times> manager" where
  "gocBegin st metadata m =
     (if mg_closed m then (GocClosed, m)
      else case activeSessionForEndpointLocked st (sm_transport metadata) (sm_endpoint metadata) m of
             Some info \<Rightarrow> (GocFound info, m)
           | None \<Rightarrow>
               (let key = sessionEndpointKey (sm_transport metadata) (sm_endpoint metadata)
                in case map_of (mg_openings m) key of
                     Some o1 \<Rightarrow> (GocWait o1, m)
                   | None \<Rightarrow>
                       (GocOwn (mg_openingCount m),
                        m\<lparr>mg_openings := mg_openings m @ [(key, mg_openingCount m)],
                          mg_openingCount := Suc (mg_openingCount m)\<rparr>)))"

definition join_close :: "goerr \<Rightarrow> goerr option \<Rightarrow> goerr" where
  "join_close e closeErr = (case closeErr of None \<Rightarrow> e | Some c \<Rightarrow> ErrJoin e c)"

text \<open>
  What follows \<open>create()\<close>: \<open>candidate\<close> and \<open>err\<close> are its results, \<open>closeErr\<close> the
  answer of the candidate's \<open>Close\<close> if registration fails.
\<close>

definition gocRegister ::
  "state_reader \<Rightarrow> session_metadata \<Rightarrow> managed_session option \<Rightarrow> goerr option \<Rightarrow> goerr option \<Rightarrow> manager
     \<Rightarrow> (goerr + session_info) \<times> session_call list \<times> manager" where
  "gocRegister st metadata candidate err closeErr m =
     (case (candidate, err) of
        (None, None) \<Rightarrow> (Inl (ErrText ''session create function returned nil session''), [], m)
      | (None, Some e) \<Rightarrow> (Inl e, [], m)
      | (Some s, Some e) \<Rightarrow> (Inl (join_close e closeErr), [CallClose s], m)
      | (Some s, None) \<Rightarrow>
          if mg_closed m then (Inl (join_close ErrManagerClosed closeErr), [CallClose s], m)
          else if map_of (mg_sessions m) (ms_id s) \<noteq> None
          then (Inl (join_close ErrDuplicateSession closeErr), [CallClose s], m)
          else let (md, m1) = enter_session s metadata m
               in (Inr \<lparr>si_id = ms_id s, si_metadata = md, si_state = st (ms_handle s)\<rparr>,
                   [publishSessionCreated s md], m1))"

lemma gocRegister_cases:
  assumes "gocRegister st metadata candidate err closeErr m = (outcome, calls, m')"
  obtains e where "outcome = Inl e" "calls = (case candidate of None \<Rightarrow> [] | Some s \<Rightarrow> [CallClose s])" "m' = m"
  | s md where "candidate = Some s" "outcome = Inr \<lparr>si_id = ms_id s, si_metadata = md, si_state = st (ms_handle s)\<rparr>"
      "calls = [publishSessionCreated s md]" "map_of (mg_sessions m) (ms_id s) = None"
      "\<not> mg_closed m" "enter_session s metadata m = (md, m')"
  using assms by (cases candidate; cases err) (auto simp: gocRegister_def split: if_splits prod.splits)

definition gocFinish :: "string \<Rightarrow> nat \<Rightarrow> goerr + session_info \<Rightarrow> manager \<Rightarrow> manager" where
  "gocFinish key o1 outcome m =
     m\<lparr>mg_results := (mg_results m)(o1 := Some outcome),
       mg_openings := filter (\<lambda>e. fst e \<noteq> key) (mg_openings m)\<rparr>"

text \<open>What a waiter is answered: nothing until its opening is done.\<close>

definition gocWaiter :: "nat \<Rightarrow> manager \<Rightarrow> (goerr + session_info \<times> bool) option" where
  "gocWaiter o1 m =
     (case mg_results m o1 of
        None \<Rightarrow> None
      | Some (Inl e) \<Rightarrow> Some (Inl e)
      | Some (Inr info) \<Rightarrow> Some (Inr (info, False)))"

datatype goc_answer =
    GocAnswer "goerr + session_info \<times> bool"
  | GocBlocked nat

text \<open>
  One caller with no other goroutine in between. \<open>ctxErr\<close> is \<open>ctx.Err()\<close> on entry;
  \<open>create = None\<close> is the nil function, and otherwise gives its two results.
\<close>

definition mg_GetOrCreate ::
  "goerr option \<Rightarrow> state_reader \<Rightarrow> session_metadata \<Rightarrow> (managed_session option \<times> goerr option) option \<Rightarrow> goerr option
     \<Rightarrow> manager \<Rightarrow> goc_answer \<times> session_call list \<times> manager" where
  "mg_GetOrCreate ctxErr st metadata create closeErr m =
     (case ctxErr of
        Some e \<Rightarrow> (GocAnswer (Inl e), [], m)
      | None \<Rightarrow>
          (case create of
             None \<Rightarrow> (GocAnswer (Inl (ErrText ''session create function must not be nil'')), [], m)
           | Some (candidate, err) \<Rightarrow>
               (case gocBegin st metadata m of
                  (GocClosed, m1) \<Rightarrow> (GocAnswer (Inl ErrManagerClosed), [], m1)
                | (GocFound info, m1) \<Rightarrow> (GocAnswer (Inr (info, False)), [], m1)
                | (GocWait o1, m1) \<Rightarrow> (GocBlocked o1, [], m1)
                | (GocOwn o1, m1) \<Rightarrow>
                    (case gocRegister st metadata candidate err closeErr m1 of
                       (outcome, calls, m2) \<Rightarrow>
                         (GocAnswer (case outcome of Inl e \<Rightarrow> Inl e | Inr info \<Rightarrow> Inr (info, True)), calls,
                          gocFinish (sessionEndpointKey (sm_transport metadata) (sm_endpoint metadata)) o1 outcome m2)))))"

section \<open>Close\<close>

definition mg_closeBegin :: "manager \<Rightarrow> manager" where
  "mg_closeBegin m = m\<lparr>mg_closed := True\<rparr>"

text \<open>The wait ends only when no connection attempt is in progress.\<close>

definition mg_closeReady :: "manager \<Rightarrow> bool" where
  "mg_closeReady m \<longleftrightarrow> mg_openings m = []"

definition mg_closeTake :: "(managed_session \<Rightarrow> goerr option) \<Rightarrow> manager \<Rightarrow> goerr option \<times> session_call list \<times> manager" where
  "mg_closeTake closeErr m =
     (let ss = mg_List m
      in (foldl (\<lambda>acc s. err_join acc (closeErr s)) None ss, map CallClose ss, m\<lparr>mg_sessions := []\<rparr>))"

definition mg_Close :: "(managed_session \<Rightarrow> goerr option) \<Rightarrow> manager \<Rightarrow> (goerr option \<times> session_call list \<times> manager) option" where
  "mg_Close closeErr m =
     (let m1 = mg_closeBegin m in if mg_closeReady m1 then Some (mg_closeTake closeErr m1) else None)"

end
