(* ===== verification/Manager_Safety.thy ===== *)
theory Manager_Safety
  imports Manager "HOL-Library.Multiset"
begin

text \<open>
  Safety of the Session registry under every interleaving of its critical sections:
  references are unambiguous, every Session has exactly one owner, an endpoint has
  at most one live Session, and callers waiting for a connection attempt get its
  outcome.

  \<open>mgr_world\<close> adds to the Manager what runs around it: the Sessions' states, the
  \<open>GetOrCreate\<close> callers that own an opening (with their metadata, and \<open>None\<close> before
  registration or the outcome after it), and ghost logs of the references allocated,
  of the Sessions handed to the Manager, of those it gave back to a caller and of
  the calls it made.
\<close>

section \<open>Interleavings\<close>

record mgr_world =
  mw_manager :: manager
  mw_state :: state_reader
  mw_owners :: "(nat \<times> session_metadata \<times> (goerr + session_info) option) list"
  mw_allocated :: "(string \<times> string) list"
  mw_handed :: "nat list"
  mw_returned :: "nat list"
  mw_calls :: "session_call list"

definition initial_world :: "state_reader \<Rightarrow> mgr_world" where
  "initial_world st = \<lparr>mw_manager = NewManager, mw_state = st, mw_owners = [], mw_allocated = [],
     mw_handed = [], mw_returned = [], mw_calls = []\<rparr>"

datatype mgr_action =
    ActRegister managed_session session_metadata
  | ActBegin session_metadata
  | ActCreated nat "managed_session option" "goerr option" "goerr option"
  | ActFinish nat
  | ActRemove string
  | ActWatch bool managed_session
  | ActState nat session_state
  | ActCloseBegin
  | ActCloseTake

text \<open>The references a step adds to the registry, with their counter's key.\<close>

definition new_references :: "manager \<Rightarrow> manager \<Rightarrow> (string \<times> string) list" where
  "new_references m m' =
     map (\<lambda>(k, r). (reference_key (sm_transport (rs_metadata r)), sm_reference (rs_metadata r)))
       (drop (length (mg_sessions m)) (mg_sessions m'))"

definition set_owner ::
  "nat \<Rightarrow> session_metadata \<Rightarrow> goerr + session_info
     \<Rightarrow> (nat \<times> session_metadata \<times> (goerr + session_info) option) list
     \<Rightarrow> (nat \<times> session_metadata \<times> (goerr + session_info) option) list" where
  "set_owner o1 md r owners = map (\<lambda>(k, v). if k = o1 then (k, md, Some r) else (k, v)) owners"

text \<open>
  One atomic action; \<open>None\<close> if it cannot happen there. What the environment may do
  is: hand over a Session with a non-empty ID (\<open>session.New\<close> refuses an empty one)
  that was not handed over before, and move a Session's state, also that of a
  registered one, from failed to closing for example (the end of an RSP bridge closes
  a Session that is still registered); only a registered Session that has closed,
  failed or begun to close is never new, connecting or open again
  (\<open>core_lifecycle_monotone\<close> proves it of \<open>Core\<close>).
\<close>

definition handles :: "(string \<times> registered_session) list \<Rightarrow> nat list" where
  "handles ss = map (\<lambda>(k, r). ms_handle (rs_session r)) ss"

definition references :: "(string \<times> registered_session) list \<Rightarrow> string list" where
  "references ss = map (\<lambda>(k, r). sm_reference (rs_metadata r)) ss"

text \<open>The states in which a Session is usable, or going to be.\<close>

fun usable :: "session_state \<Rightarrow> bool" where
  "usable StateNew = True"
| "usable StateConnecting = True"
| "usable StateOpen = True"
| "usable _ = False"

lemma usable_owns: "usable s \<longleftrightarrow> managerOwnsEndpoint s \<and> s \<noteq> StateClosing"
  by (cases s) simp_all

definition acceptable :: "mgr_world \<Rightarrow> managed_session \<Rightarrow> bool" where
  "acceptable w s \<longleftrightarrow> ms_id s \<noteq> [] \<and> ms_handle s \<notin> set (mw_handed w)"

definition step_register :: "managed_session \<Rightarrow> session_metadata \<Rightarrow> mgr_world \<Rightarrow> mgr_world" where
  "step_register s md w =
     (case RegisterWithMetadata s md (mw_manager w) of
        (e, calls, m') \<Rightarrow>
          w\<lparr>mw_manager := m', mw_calls := mw_calls w @ calls,
            mw_allocated := mw_allocated w @ new_references (mw_manager w) m',
            mw_handed := mw_handed w @ [ms_handle s],
            mw_returned := mw_returned w @ (if e = None then [] else [ms_handle s])\<rparr>)"

definition step_begin :: "session_metadata \<Rightarrow> mgr_world \<Rightarrow> mgr_world" where
  "step_begin md w =
     (case gocBegin (mw_state w) md (mw_manager w) of
        (GocOwn o1, m') \<Rightarrow> w\<lparr>mw_manager := m', mw_owners := mw_owners w @ [(o1, md, None)]\<rparr>
      | (_, m') \<Rightarrow> w\<lparr>mw_manager := m'\<rparr>)"

definition step_created ::
  "nat \<Rightarrow> session_metadata \<Rightarrow> managed_session option \<Rightarrow> goerr option \<Rightarrow> goerr option \<Rightarrow> mgr_world \<Rightarrow> mgr_world" where
  "step_created o1 md candidate err closeErr w =
     (case gocRegister (mw_state w) md candidate err closeErr (mw_manager w) of
        (outcome, calls, m') \<Rightarrow>
          w\<lparr>mw_manager := m', mw_calls := mw_calls w @ calls,
            mw_owners := set_owner o1 md outcome (mw_owners w),
            mw_allocated := mw_allocated w @ new_references (mw_manager w) m',
            mw_handed := mw_handed w @ (case candidate of None \<Rightarrow> [] | Some s \<Rightarrow> [ms_handle s])\<rparr>)"

fun mgr_exec :: "mgr_action \<Rightarrow> mgr_world \<Rightarrow> mgr_world option" where
  "mgr_exec (ActRegister s md) w = (if acceptable w s then Some (step_register s md w) else None)"
| "mgr_exec (ActBegin md) w = Some (step_begin md w)"
| "mgr_exec (ActCreated o1 candidate err closeErr) w =
     (case map_of (mw_owners w) o1 of
        Some (md, None) \<Rightarrow>
          if (case candidate of None \<Rightarrow> True | Some s \<Rightarrow> acceptable w s)
          then Some (step_created o1 md candidate err closeErr w) else None
      | _ \<Rightarrow> None)"
| "mgr_exec (ActFinish o1) w =
     (case map_of (mw_owners w) o1 of
        Some (md, Some outcome) \<Rightarrow>
          Some (w\<lparr>mw_manager := gocFinish (sessionEndpointKey (sm_transport md) (sm_endpoint md)) o1 outcome (mw_manager w),
                  mw_owners := filter (\<lambda>e. fst e \<noteq> o1) (mw_owners w)\<rparr>)
      | _ \<Rightarrow> None)"
| "mgr_exec (ActRemove identifier) w =
     (case mg_Remove identifier (mw_manager w) of
        (s, m') \<Rightarrow> Some (w\<lparr>mw_manager := m',
                           mw_returned := mw_returned w @ (case s of None \<Rightarrow> [] | Some s \<Rightarrow> [ms_handle s])\<rparr>))"
| "mgr_exec (ActWatch reap s) w =
     (case watchLifecycle reap s (mw_manager w) of
        (calls, m') \<Rightarrow> Some (w\<lparr>mw_manager := m', mw_calls := mw_calls w @ calls\<rparr>))"
| "mgr_exec (ActState h s) w =
     (if usable s \<and> \<not> usable (mw_state w h) \<and> h \<in> set (handles (mg_sessions (mw_manager w))) then None
      else Some (w\<lparr>mw_state := (mw_state w)(h := s)\<rparr>))"
| "mgr_exec ActCloseBegin w = Some (w\<lparr>mw_manager := mg_closeBegin (mw_manager w)\<rparr>)"
| "mgr_exec ActCloseTake w =
     (if mg_closed (mw_manager w) \<and> mg_closeReady (mw_manager w)
      then (case mg_closeTake (\<lambda>_. None) (mw_manager w) of
              (e, calls, m') \<Rightarrow> Some (w\<lparr>mw_manager := m', mw_calls := mw_calls w @ calls\<rparr>))
      else None)"

fun mgr_run :: "mgr_action list \<Rightarrow> mgr_world \<Rightarrow> mgr_world option" where
  "mgr_run [] w = Some w"
| "mgr_run (a # as) w = (case mgr_exec a w of None \<Rightarrow> None | Some w' \<Rightarrow> mgr_run as w')"

section \<open>The ledger the registry keeps\<close>

text \<open>
  The abstract view: the registrations, the counters, and which Sessions are away
  (given back or closed). Every action of the code is a step of the ledger.
\<close>

record ledger =
  ld_sessions :: "(string \<times> registered_session) list"
  ld_next :: "string \<Rightarrow> nat"
  ld_allocated :: "(string \<times> string) list"
  ld_handed :: "nat list"
  ld_away :: "nat multiset"

definition closed_handles :: "session_call list \<Rightarrow> nat list" where
  "closed_handles calls = concat (map (\<lambda>c. case c of CallClose s \<Rightarrow> [ms_handle s] | CallPublish _ _ \<Rightarrow> []) calls)"

lemma closed_handles_simps [simp]:
  "closed_handles [] = []" "closed_handles (xs @ ys) = closed_handles xs @ closed_handles ys"
  "closed_handles (CallClose s # cs) = ms_handle s # closed_handles cs"
  "closed_handles (publishSessionCreated s md # cs) = closed_handles cs"
  "closed_handles (map CallClose ss) = map ms_handle ss"
  by (induction ss) (auto simp: closed_handles_def publishSessionCreated_def)

definition ledger_of :: "mgr_world \<Rightarrow> ledger" where
  "ledger_of w = \<lparr>ld_sessions = mg_sessions (mw_manager w), ld_next = mg_nextReferences (mw_manager w),
     ld_allocated = mw_allocated w, ld_handed = mw_handed w,
     ld_away = mset (mw_returned w) + mset (closed_handles (mw_calls w))\<rparr>"

inductive ledger_step :: "ledger \<Rightarrow> ledger \<Rightarrow> bool" where
  stutter: "ledger_step l l"
| enter: "ms_id s \<noteq> [] \<Longrightarrow> ms_handle s \<notin> set (ld_handed l) \<Longrightarrow> map_of (ld_sessions l) (ms_id s) = None
    \<Longrightarrow> sm_reference md \<notin> set (references (ld_sessions l))
    \<Longrightarrow> key = reference_key (sm_transport md) \<Longrightarrow> ld_next l key < n
    \<Longrightarrow> sm_reference md = reference_text (referencePrefix key) n
    \<Longrightarrow> ledger_step l (l\<lparr>ld_sessions := ld_sessions l @ [(ms_id s, \<lparr>rs_session = s, rs_metadata = md\<rparr>)],
          ld_next := (ld_next l)(key := n), ld_allocated := ld_allocated l @ [(key, sm_reference md)],
          ld_handed := ld_handed l @ [ms_handle s]\<rparr>)"
| give_back: "h \<notin> set (ld_handed l)
    \<Longrightarrow> ledger_step l (l\<lparr>ld_handed := ld_handed l @ [h], ld_away := add_mset h (ld_away l)\<rparr>)"
| withdraw: "map_of (ld_sessions l) k = Some r
    \<Longrightarrow> ledger_step l (l\<lparr>ld_sessions := filter (\<lambda>e. fst e \<noteq> k) (ld_sessions l),
          ld_away := add_mset (ms_handle (rs_session r)) (ld_away l)\<rparr>)"
| close_all: "ledger_step l (l\<lparr>ld_sessions := [], ld_away := ld_away l + mset (handles (ld_sessions l))\<rparr>)"

lemma enter_references: "x \<notin> identifiers m \<Longrightarrow> x \<notin> set (references (mg_sessions m))"
  by (auto simp: identifiers_def references_def)

lemma new_references_self [simp]: "new_references m m = []"
  by (simp add: new_references_def)

lemma ledger_enter:
  assumes e: "enter_session s metadata m = (md, m')" and f: "map_of (mg_sessions m) (ms_id s) = None"
    and a: "acceptable w s" and m: "m = mw_manager w"
    and w': "mw_manager w' = m'" "mw_allocated w' = mw_allocated w @ new_references m m'"
      "mw_handed w' = mw_handed w @ [ms_handle s]" "mw_returned w' = mw_returned w"
      "closed_handles (mw_calls w') = closed_handles (mw_calls w)"
  shows "ledger_step (ledger_of w) (ledger_of w')"
proof -
  obtain n where n: "mg_nextReferences m (reference_key (sm_transport metadata)) < n"
    "md = metadata\<lparr>sm_reference := reference_text (referencePrefix (reference_key (sm_transport metadata))) n\<rparr>"
    "sm_reference md \<notin> identifiers m"
    "m' = m\<lparr>mg_nextReferences := (mg_nextReferences m)(reference_key (sm_transport metadata) := n),
            mg_sessions := mg_sessions m @ [(ms_id s, \<lparr>rs_session = s, rs_metadata = md\<rparr>)]\<rparr>"
    using e by (rule enter_session_spec)
  define K where "K = reference_key (sm_transport metadata)"
  define R where "R = (ms_id s, \<lparr>rs_session = s, rs_metadata = md\<rparr>)"
  have t: "sm_transport md = sm_transport metadata" using n(2) by simp
  have m': "mg_sessions m' = mg_sessions m @ [R]" "mg_nextReferences m' = (mg_nextReferences m)(K := n)"
    using n(4) by (simp_all add: R_def K_def)
  have nr: "new_references m m' = [(K, sm_reference md)]"
    by (simp add: new_references_def m' R_def K_def t)
  have l: "ledger_of w' = (ledger_of w)
     \<lparr>ld_sessions := ld_sessions (ledger_of w) @ [R],
      ld_next := (ld_next (ledger_of w))(K := n),
      ld_allocated := ld_allocated (ledger_of w) @ [(K, sm_reference md)],
      ld_handed := ld_handed (ledger_of w) @ [ms_handle s]\<rparr>"
    unfolding ledger_of_def w' m' nr m [symmetric] by simp
  have "ledger_step (ledger_of w) ((ledger_of w)
     \<lparr>ld_sessions := ld_sessions (ledger_of w) @ [R],
      ld_next := (ld_next (ledger_of w))(K := n),
      ld_allocated := ld_allocated (ledger_of w) @ [(K, sm_reference md)],
      ld_handed := ld_handed (ledger_of w) @ [ms_handle s]\<rparr>)"
    unfolding R_def
  proof (rule ledger_step.enter)
    show "ms_id s \<noteq> []" "ms_handle s \<notin> set (ld_handed (ledger_of w))"
      using a by (simp_all add: acceptable_def ledger_of_def)
    show "map_of (ld_sessions (ledger_of w)) (ms_id s) = None"
      using f m by (simp add: ledger_of_def)
    show "sm_reference md \<notin> set (references (ld_sessions (ledger_of w)))"
      using enter_references [OF n(3)] m by (simp add: ledger_of_def)
    show "K = reference_key (sm_transport md)" by (simp add: K_def t)
    show "ld_next (ledger_of w) K < n" using n(1) m by (simp add: ledger_of_def K_def)
    show "sm_reference md = reference_text (referencePrefix K) n" using n(2) by (simp add: K_def)
  qed
  then show ?thesis unfolding l .
qed

lemma sessionIDLocked_Some:
  assumes "sessionIDLocked m x = Some (k, r)" "distinct (map fst (mg_sessions m))"
  shows "map_of (mg_sessions m) k = Some r"
proof (cases "map_of (mg_sessions m) x")
  case None
  then show ?thesis using assms
    by (auto simp: sessionIDLocked_def find_Some_iff intro!: map_of_is_SomeI dest: nth_mem)
next
  case (Some r')
  then show ?thesis using assms by (simp add: sessionIDLocked_def)
qed

lemma watchLifecycle_cases:
  assumes "watchLifecycle reap s m = (calls, m')"
  obtains "calls = []" "m' = m"
  | r where "calls = [CallClose s]" "map_of (mg_sessions m) (ms_id s) = Some r"
      "ms_handle (rs_session r) = ms_handle s" "m' = delete_session (ms_id s) m"
proof (cases "ms_observed s \<and> reap \<and> fst (removeExact s m)")
  case True
  then obtain r where r: "map_of (mg_sessions m) (ms_id s) = Some r" "ms_handle (rs_session r) = ms_handle s"
      "removeExact s m = (True, delete_session (ms_id s) m)"
    by (auto simp: removeExact_def split: option.splits if_splits)
  with True assms show thesis by (intro that(2) [OF _ r(1,2)]) (simp_all add: watchLifecycle_def)
next
  case False
  have "removeExact s m = (False, m)" if "\<not> fst (removeExact s m)"
    using that by (auto simp: removeExact_def split: option.splits if_splits)
  with False assms show thesis by (intro that(1)) (auto simp: watchLifecycle_def split: if_splits)
qed

text \<open>The ledger's invariant.\<close>

definition ledger_inv :: "ledger \<Rightarrow> bool" where
  "ledger_inv l \<longleftrightarrow>
     distinct (map fst (ld_sessions l)) \<and>
     (\<forall>(k, r) \<in> set (ld_sessions l). ms_id (rs_session r) = k \<and> k \<noteq> []) \<and>
     distinct (references (ld_sessions l)) \<and>
     distinct (ld_handed l) \<and>
     mset (ld_handed l) = mset (handles (ld_sessions l)) + ld_away l \<and>
     distinct (ld_allocated l) \<and>
     (\<forall>(key, ref) \<in> set (ld_allocated l). \<exists>n. n \<le> ld_next l key \<and> ref = reference_text (referencePrefix key) n)"

lemma distinct_map_filter_list: "distinct (map f xs) \<Longrightarrow> distinct (map f (filter P xs))"
  by (rule distinct_map_filter)

lemma references_filter [simp]:
  "distinct (references ss) \<Longrightarrow> distinct (references (filter P ss))"
  unfolding references_def by (rule distinct_map_filter)

lemma handles_drop:
  "distinct (map fst ss) \<Longrightarrow> map_of ss k = Some r \<Longrightarrow>
     mset (handles ss) = add_mset (ms_handle (rs_session r)) (mset (handles (filter (\<lambda>e. fst e \<noteq> k) ss)))"
proof (induction ss)
  case (Cons e ss)
  show ?case
  proof (cases "fst e = k")
    case True
    then have "filter (\<lambda>e. fst e \<noteq> k) ss = ss" using Cons.prems(1) by (auto simp: filter_id_conv image_iff)
    then show ?thesis using True Cons.prems by (cases e) (simp add: handles_def)
  next
    case False
    then show ?thesis using Cons by (cases e) (simp add: handles_def)
  qed
qed simp

lemma ledger_step_inv: "ledger_step l l' \<Longrightarrow> ledger_inv l \<Longrightarrow> ledger_inv l'"
proof (induction rule: ledger_step.induct)
  case (enter s l md key n)
  have al: "(key, sm_reference md) \<notin> set (ld_allocated l)"
  proof
    assume "(key, sm_reference md) \<in> set (ld_allocated l)"
    then obtain j where "j \<le> ld_next l key" "reference_text (referencePrefix key) n = reference_text (referencePrefix key) j"
      using enter.prems enter(7) by (fastforce simp: ledger_inv_def)
    then show False using enter(6) by simp
  qed
  have bound: "\<forall>(k, ref) \<in> set (ld_allocated l). \<exists>j. j \<le> ((ld_next l)(key := n)) k \<and> ref = reference_text (referencePrefix k) j"
    using enter.prems enter(6) by (fastforce simp: ledger_inv_def)
  have "ms_id s \<notin> fst ` set (ld_sessions l)" using enter(3) by (simp add: map_of_eq_None_iff)
  then show ?case using enter al bound
    by (simp add: ledger_inv_def references_def handles_def)
next
  case (withdraw l k r)
  then show ?case
    using handles_drop [of "ld_sessions l" k r]
    by (simp add: ledger_inv_def distinct_map_filter)
qed (auto simp: ledger_inv_def references_def handles_def)

lemma drop_session_ledger:
  assumes "map_of (mg_sessions (mw_manager w)) k = Some r"
    and "mw_manager w' = delete_session k (mw_manager w)" "mw_allocated w' = mw_allocated w" "mw_handed w' = mw_handed w"
    and "mset (mw_returned w') + mset (closed_handles (mw_calls w')) =
         add_mset (ms_handle (rs_session r)) (mset (mw_returned w) + mset (closed_handles (mw_calls w)))"
  shows "ledger_step (ledger_of w) (ledger_of w')"
proof -
  have "ledger_of w' = (ledger_of w)\<lparr>ld_sessions := filter (\<lambda>e. fst e \<noteq> k) (ld_sessions (ledger_of w)),
          ld_away := add_mset (ms_handle (rs_session r)) (ld_away (ledger_of w))\<rparr>"
    using assms by (simp add: ledger_of_def delete_session_def)
  then show ?thesis using ledger_step.withdraw [of "ledger_of w" k r] assms(1) by (simp add: ledger_of_def)
qed

lemma give_back_ledger:
  assumes "acceptable w s" "mw_manager w' = mw_manager w" "mw_allocated w' = mw_allocated w"
    and "mw_handed w' = mw_handed w @ [ms_handle s]"
    and "mset (mw_returned w') + mset (closed_handles (mw_calls w')) =
         add_mset (ms_handle s) (mset (mw_returned w) + mset (closed_handles (mw_calls w)))"
  shows "ledger_step (ledger_of w) (ledger_of w')"
proof -
  have "ledger_of w' = (ledger_of w)\<lparr>ld_handed := ld_handed (ledger_of w) @ [ms_handle s],
          ld_away := add_mset (ms_handle s) (ld_away (ledger_of w))\<rparr>"
    using assms by (simp add: ledger_of_def)
  then show ?thesis using ledger_step.give_back [of "ms_handle s" "ledger_of w"] assms(1)
    by (simp add: ledger_of_def acceptable_def)
qed

lemma same_ledger: "ledger_of w' = ledger_of w \<Longrightarrow> ledger_step (ledger_of w) (ledger_of w')"
  by (simp add: ledger_step.stutter)

lemma gocBegin_same:
  assumes "gocBegin st md m = (d, m')"
  shows "mg_sessions m' = mg_sessions m" "mg_nextReferences m' = mg_nextReferences m"
    "mg_closed m' = mg_closed m" "mg_results m' = mg_results m"
  using assms by (auto simp: gocBegin_def Let_def split: if_splits option.splits)

lemma step_register_ledger:
  assumes "acceptable w s"
  shows "ledger_step (ledger_of w) (ledger_of (step_register s md w))"
proof -
  obtain e calls m' where r: "RegisterWithMetadata s md (mw_manager w) = (e, calls, m')"
    by (metis prod_cases3)
  then show ?thesis
  proof (cases rule: RegisterWithMetadata_cases)
    case 1
    show ?thesis by (rule give_back_ledger [OF assms]) (use 1 r in \<open>simp_all add: step_register_def\<close>)
  next
    case (2 md')
    show ?thesis
      by (rule ledger_enter [OF 2(5,3) assms refl]) (use 2 r in \<open>simp_all add: step_register_def\<close>)
  qed
qed

lemma step_created_ledger:
  assumes "case candidate of None \<Rightarrow> True | Some s \<Rightarrow> acceptable w s"
  shows "ledger_step (ledger_of w) (ledger_of (step_created o1 md candidate err closeErr w))"
proof -
  obtain outcome calls m' where r: "gocRegister (mw_state w) md candidate err closeErr (mw_manager w) = (outcome, calls, m')"
    by (metis prod_cases3)
  then show ?thesis
  proof (cases rule: gocRegister_cases)
    case (1 e)
    show ?thesis
    proof (cases candidate)
      case None
      show ?thesis by (rule same_ledger) (use 1 r None in \<open>simp add: step_created_def ledger_of_def\<close>)
    next
      case (Some s)
      show ?thesis by (rule give_back_ledger [of w s]) (use 1 r Some assms in \<open>simp_all add: step_created_def\<close>)
    qed
  next
    case (2 s md')
    have "acceptable w s" using assms 2(1) by simp
    show ?thesis
      by (rule ledger_enter [OF 2(6,4) \<open>acceptable w s\<close> refl]) (use 2 r in \<open>simp_all add: step_created_def\<close>)
  qed
qed

text \<open>The simulation: one action of the code is one step of the ledger.\<close>

lemma mgr_exec_ledger:
  assumes "mgr_exec a w = Some w'" "ledger_inv (ledger_of w)"
  shows "ledger_step (ledger_of w) (ledger_of w')"
proof (cases a)
  case (ActRegister s md)
  then show ?thesis using assms(1) step_register_ledger [of w s md] by (simp split: if_splits)
next
  case (ActBegin md)
  obtain d m' where g: "gocBegin (mw_state w) md (mw_manager w) = (d, m')" by (metis surj_pair)
  have "ledger_of (step_begin md w) = ledger_of w"
    using gocBegin_same [OF g] by (cases d) (simp_all add: step_begin_def g ledger_of_def)
  then show ?thesis using assms(1) ActBegin by (simp add: ledger_step.stutter)
next
  case (ActCreated o1 candidate err closeErr)
  then show ?thesis using assms(1) step_created_ledger
    by (auto split: option.splits if_splits prod.splits)
next
  case (ActFinish o1)
  then show ?thesis using assms(1)
    by (intro same_ledger) (auto simp: ledger_of_def gocFinish_def split: option.splits prod.splits)
next
  case (ActRemove ident)
  show ?thesis
  proof (cases "sessionIDLocked (mw_manager w) ident")
    case None
    then show ?thesis using assms(1) ActRemove by (intro same_ledger) (auto simp: mg_Remove_def ledger_of_def)
  next
    case (Some kr)
    obtain k r where kr: "kr = (k, r)" by (cases kr)
    have "map_of (mg_sessions (mw_manager w)) k = Some r"
      using sessionIDLocked_Some Some kr assms(2) by (auto simp: ledger_inv_def ledger_of_def)
    then show ?thesis
      by (rule drop_session_ledger) (use Some kr assms(1) ActRemove in \<open>auto simp: mg_Remove_def\<close>)
  qed
next
  case (ActWatch reap s)
  obtain calls m' where g: "watchLifecycle reap s (mw_manager w) = (calls, m')" by (metis surj_pair)
  then show ?thesis
  proof (cases rule: watchLifecycle_cases)
    case 1
    then show ?thesis using g assms(1) ActWatch by (intro same_ledger) (auto simp: ledger_of_def)
  next
    case (2 r)
    show ?thesis
      by (rule drop_session_ledger [OF 2(2)]) (use g 2 assms(1) ActWatch in auto)
  qed
next
  case (ActState h s)
  then show ?thesis using assms(1) by (intro same_ledger) (auto simp: ledger_of_def split: if_splits)
next
  case ActCloseBegin
  then show ?thesis using assms(1) by (intro same_ledger) (auto simp: ledger_of_def mg_closeBegin_def)
next
  case ActCloseTake
  have "map ms_handle (mg_List m) = handles (mg_sessions m)" for m
    by (auto simp: mg_List_def handles_def)
  then have "ledger_of w' = (ledger_of w)\<lparr>ld_sessions := [], ld_away := ld_away (ledger_of w) + mset (handles (ld_sessions (ledger_of w)))\<rparr>"
    using assms(1) ActCloseTake by (auto simp: ledger_of_def mg_closeTake_def Let_def split: if_splits)
  then show ?thesis by (simp add: ledger_step.close_all)
qed

lemma mgr_run_inv: "mgr_run as w = Some w' \<Longrightarrow> ledger_inv (ledger_of w) \<Longrightarrow> ledger_inv (ledger_of w')"
  by (induction as w rule: mgr_run.induct) (auto split: option.splits dest: mgr_exec_ledger ledger_step_inv)

lemma initial_ledger: "ledger_inv (ledger_of (initial_world st))"
  by (simp add: ledger_inv_def ledger_of_def initial_world_def NewManager_def references_def handles_def)

section \<open>Openings\<close>

definition owner_key :: "session_metadata \<Rightarrow> string" where
  "owner_key md = sessionEndpointKey (sm_transport md) (sm_endpoint md)"

definition opening_inv :: "mgr_world \<Rightarrow> bool" where
  "opening_inv w \<longleftrightarrow>
     distinct (map fst (mw_owners w)) \<and>
     mg_openings (mw_manager w) = map (\<lambda>(o1, md, r). (owner_key md, o1)) (mw_owners w) \<and>
     distinct (map fst (mg_openings (mw_manager w))) \<and>
     (\<forall>o1 \<in> set (map fst (mw_owners w)). o1 < mg_openingCount (mw_manager w)) \<and>
     (\<forall>o1. mg_results (mw_manager w) o1 \<noteq> None \<longrightarrow>
        o1 < mg_openingCount (mw_manager w) \<and> o1 \<notin> set (map fst (mw_owners w)))"

lemma set_owner_fst [simp]: "map fst (set_owner o1 md r owners) = map fst owners"
  by (auto simp: set_owner_def)

lemma set_owner_view:
  "distinct (map fst owners) \<Longrightarrow> map_of owners o1 = Some (md, v) \<Longrightarrow>
     map (\<lambda>(k, md, r). (owner_key md, k)) (set_owner o1 md r owners) = map (\<lambda>(k, md, r). (owner_key md, k)) owners"
  by (auto simp: set_owner_def dest!: map_of_SomeD dest: eq_key_imp_eq_value)

lemma register_openings:
  assumes "gocRegister st md c e ce m = (out, calls, m')"
  shows "mg_openings m' = mg_openings m" "mg_openingCount m' = mg_openingCount m" "mg_results m' = mg_results m"
    "mg_closed m' = mg_closed m"
  using assms by (cases rule: gocRegister_cases; auto elim!: enter_session_spec)+

lemma direct_openings:
  assumes "RegisterWithMetadata s md m = (e, calls, m')"
  shows "mg_openings m' = mg_openings m" "mg_openingCount m' = mg_openingCount m" "mg_results m' = mg_results m"
    "mg_closed m' = mg_closed m"
  using assms by (cases rule: RegisterWithMetadata_cases; auto elim!: enter_session_spec)+

lemma delete_session_sel [simp]:
  "mg_openings (delete_session k m) = mg_openings m" "mg_openingCount (delete_session k m) = mg_openingCount m"
  "mg_results (delete_session k m) = mg_results m" "mg_closed (delete_session k m) = mg_closed m"
  by (simp_all add: delete_session_def)

lemma finish_openings:
  assumes d: "distinct (map fst owners)" and k: "distinct (map (\<lambda>(o1, md, r). owner_key md) owners)"
    and m: "map_of owners o1 = Some (md, v)"
  shows "filter (\<lambda>e. fst e \<noteq> owner_key md) (map (\<lambda>(o1, md, r). (owner_key md, o1)) owners)
       = map (\<lambda>(o1, md, r). (owner_key md, o1)) (filter (\<lambda>e. fst e \<noteq> o1) owners)"
  using assms
proof (induction owners)
  case (Cons e owners)
  obtain a b c where e: "e = (a, b, c)" by (cases e)
  show ?case
  proof (cases "a = o1")
    case True
    then have "o1 \<notin> fst ` set owners" "owner_key md \<notin> (\<lambda>(o1, md, r). owner_key md) ` set owners" "b = md"
      using Cons.prems e by auto
    then have "filter (\<lambda>e. fst e \<noteq> o1) owners = owners"
      "filter (\<lambda>e. fst e \<noteq> owner_key md) (map (\<lambda>(o1, md, r). (owner_key md, o1)) owners)
         = map (\<lambda>(o1, md, r). (owner_key md, o1)) owners"
      by (auto simp: filter_id_conv image_iff split: prod.splits)
    then show ?thesis using True e \<open>b = md\<close> by simp
  next
    case False
    then have m': "map_of owners o1 = Some (md, v)" using Cons.prems e by simp
    then have "(o1, md, v) \<in> set owners" by (rule map_of_SomeD)
    then have "owner_key b \<noteq> owner_key md" using Cons.prems(2) e by force
    then show ?thesis using Cons.IH Cons.prems m' False e by simp
  qed
qed simp

lemma opening_inv_same:
  assumes "opening_inv w" "mw_owners w' = mw_owners w"
    "mg_openings (mw_manager w') = mg_openings (mw_manager w)"
    "mg_openingCount (mw_manager w') = mg_openingCount (mw_manager w)"
    "mg_results (mw_manager w') = mg_results (mw_manager w)"
  shows "opening_inv w'"
  using assms(1) unfolding opening_inv_def assms(2-5) .

lemma step_begin_opening:
  assumes inv: "opening_inv w"
  shows "opening_inv (step_begin md w)"
proof -
  obtain d m' where g: "gocBegin (mw_state w) md (mw_manager w) = (d, m')" by (metis surj_pair)
  show ?thesis
  proof (cases d)
    case (GocOwn n)
    then have n: "n = mg_openingCount (mw_manager w)" "map_of (mg_openings (mw_manager w)) (owner_key md) = None"
      "m' = (mw_manager w)\<lparr>mg_openings := mg_openings (mw_manager w) @ [(owner_key md, n)], mg_openingCount := Suc n\<rparr>"
      using g by (auto simp: gocBegin_def owner_key_def Let_def split: if_splits option.splits)
    have key: "owner_key md \<notin> fst ` set (mg_openings (mw_manager w))"
      using n(2) by (simp add: map_of_eq_None_iff)
    have o: "mw_owners (step_begin md w) = mw_owners w @ [(n, md, None)]" "mw_manager (step_begin md w) = m'"
      by (simp_all add: step_begin_def g GocOwn)
    have fresh: "n \<notin> set (map fst (mw_owners w))" using inv n(1) unfolding opening_inv_def by blast
    show ?thesis unfolding opening_inv_def o
    proof (intro conjI)
      have "distinct (map fst (mg_openings (mw_manager w)))" using inv unfolding opening_inv_def by blast
      then show "distinct (map fst (mg_openings m'))" using key by (simp add: n(3))
      show "\<forall>o1\<in>set (map fst (mw_owners w @ [(n, md, None)])). o1 < mg_openingCount m'"
        using inv n(1) by (auto simp: n(3) opening_inv_def less_Suc_eq)
      show "\<forall>o1. mg_results m' o1 \<noteq> None \<longrightarrow>
          o1 < mg_openingCount m' \<and> o1 \<notin> set (map fst (mw_owners w @ [(n, md, None)]))"
        using inv n(1) unfolding opening_inv_def by (auto simp: n(3) less_Suc_eq)
    qed (use inv fresh in \<open>auto simp: n(3) opening_inv_def\<close>)
  qed (use g inv in \<open>auto simp: step_begin_def gocBegin_def Let_def opening_inv_def split: if_splits option.splits\<close>)
qed

lemma mgr_exec_opening:
  assumes ex: "mgr_exec a w = Some w'" and inv: "opening_inv w"
  shows "opening_inv w'"
proof (cases a)
  case (ActRegister s md)
  obtain e calls m' where r: "RegisterWithMetadata s md (mw_manager w) = (e, calls, m')" by (metis prod_cases3)
  have "w' = step_register s md w" using ex ActRegister by (simp split: if_splits)
  then show ?thesis using opening_inv_same [OF inv] direct_openings [OF r] by (simp add: step_register_def r)
next
  case (ActBegin md)
  then show ?thesis using ex step_begin_opening [OF inv] by auto
next
  case (ActCreated o1 candidate err closeErr)
  then obtain md where md: "map_of (mw_owners w) o1 = Some (md, None)" "w' = step_created o1 md candidate err closeErr w"
    using ex by (auto split: option.splits if_splits prod.splits)
  obtain out calls m' where r: "gocRegister (mw_state w) md candidate err closeErr (mw_manager w) = (out, calls, m')"
    by (metis prod_cases3)
  have v: "map (\<lambda>(o1, md, r). (owner_key md, o1)) (mw_owners w') = map (\<lambda>(o1, md, r). (owner_key md, o1)) (mw_owners w)"
    "map fst (mw_owners w') = map fst (mw_owners w)" "mw_manager w' = m'"
    using inv set_owner_view [OF _ md(1)] by (simp_all add: md(2) step_created_def r opening_inv_def)
  show ?thesis using inv unfolding opening_inv_def v register_openings [OF r] .
next
  case (ActFinish o1)
  then obtain md out where md: "map_of (mw_owners w) o1 = Some (md, Some out)"
      "w' = w\<lparr>mw_manager := gocFinish (owner_key md) o1 out (mw_manager w),
                  mw_owners := filter (\<lambda>e. fst e \<noteq> o1) (mw_owners w)\<rparr>"
    using ex by (auto simp: owner_key_def split: option.splits prod.splits)
  have o1: "o1 \<in> fst ` set (mw_owners w)" using map_of_SomeD [OF md(1)] by force
  have "map fst (mg_openings (mw_manager w)) = map (\<lambda>(o1, md, r). owner_key md) (mw_owners w)"
    using inv by (auto simp: opening_inv_def)
  moreover have dd: "distinct (map fst (mg_openings (mw_manager w)))" using inv unfolding opening_inv_def by blast
  ultimately have kk: "distinct (map (\<lambda>(o1, md, r). owner_key md) (mw_owners w))" by metis
  have F: "mg_openings (mw_manager w') = map (\<lambda>(o1, md, r). (owner_key md, o1)) (mw_owners w')"
    using inv finish_openings [OF _ kk md(1)] by (simp add: md(2) gocFinish_def opening_inv_def)
  have D: "distinct (map fst (mg_openings (mw_manager w')))"
    using distinct_map_filter [OF dd] by (simp add: md(2) gocFinish_def)
  have R: "mg_results (mw_manager w') = (mg_results (mw_manager w))(o1 := Some out)"
    "mg_openingCount (mw_manager w') = mg_openingCount (mw_manager w)"
    "map fst (mw_owners w') = filter (\<lambda>x. x \<noteq> o1) (map fst (mw_owners w))"
    by (simp_all add: md(2) gocFinish_def filter_map comp_def)
  show ?thesis unfolding opening_inv_def R
  proof (intro conjI)
    show "distinct (filter (\<lambda>x. x \<noteq> o1) (map fst (mw_owners w)))" using inv by (simp add: opening_inv_def)
    show "\<forall>x\<in>set (filter (\<lambda>x. x \<noteq> o1) (map fst (mw_owners w))). x < mg_openingCount (mw_manager w)"
      using inv by (auto simp: opening_inv_def)
    show "\<forall>x. ((mg_results (mw_manager w))(o1 := Some out)) x \<noteq> None \<longrightarrow>
        x < mg_openingCount (mw_manager w) \<and> x \<notin> set (filter (\<lambda>x. x \<noteq> o1) (map fst (mw_owners w)))"
      using inv o1 by (auto simp: opening_inv_def)
  qed (use F D in simp_all)
next
  case (ActRemove ident)
  then show ?thesis using ex opening_inv_same [OF inv]
    by (auto simp: mg_Remove_def split: option.splits)
next
  case (ActWatch reap s)
  obtain calls m' where g: "watchLifecycle reap s (mw_manager w) = (calls, m')" by (metis surj_pair)
  then have "mg_openings m' = mg_openings (mw_manager w)" "mg_openingCount m' = mg_openingCount (mw_manager w)"
    "mg_results m' = mg_results (mw_manager w)"
    by (cases rule: watchLifecycle_cases; simp)+
  then show ?thesis using ex g ActWatch opening_inv_same [OF inv] by auto
next
  case ActCloseTake
  then show ?thesis using ex opening_inv_same [OF inv]
    by (auto simp: mg_closeTake_def Let_def split: if_splits)
next
  case (ActState h s)
  then show ?thesis using ex opening_inv_same [OF inv] by (auto split: if_splits)
next
  case ActCloseBegin
  then show ?thesis using ex opening_inv_same [OF inv] by (auto simp: mg_closeBegin_def)
qed

lemma mgr_run_opening: "mgr_run as w = Some w' \<Longrightarrow> opening_inv w \<Longrightarrow> opening_inv w'"
  by (induction as w rule: mgr_run.induct) (auto split: option.splits dest: mgr_exec_opening)

lemma initial_opening: "opening_inv (initial_world st)"
  by (simp add: opening_inv_def initial_world_def NewManager_def)

text \<open>An outcome, once published, never changes.\<close>

lemma mgr_exec_result:
  assumes ex: "mgr_exec a w = Some w'" and inv: "opening_inv w" and r: "mg_results (mw_manager w) o1 = Some out"
  shows "mg_results (mw_manager w') o1 = Some out"
proof (cases a)
  case (ActRegister s md)
  obtain e calls m' where g: "RegisterWithMetadata s md (mw_manager w) = (e, calls, m')" by (metis prod_cases3)
  have "w' = step_register s md w" using ex ActRegister by (simp split: if_splits)
  then show ?thesis using r direct_openings [OF g] by (simp add: step_register_def g)
next
  case (ActBegin md)
  obtain d m' where g: "gocBegin (mw_state w) md (mw_manager w) = (d, m')" by (metis surj_pair)
  show ?thesis using gocBegin_same [OF g] r ActBegin ex by (cases d) (auto simp: step_begin_def g)
next
  case (ActCreated o2 candidate err closeErr)
  then obtain md where md: "w' = step_created o2 md candidate err closeErr w"
    using ex by (auto split: option.splits if_splits prod.splits)
  obtain out' calls m' where g: "gocRegister (mw_state w) md candidate err closeErr (mw_manager w) = (out', calls, m')"
    by (metis prod_cases3)
  show ?thesis using r register_openings [OF g] by (simp add: md step_created_def g)
next
  case (ActFinish o2)
  then obtain md out2 where md: "map_of (mw_owners w) o2 = Some (md, Some out2)"
      "mg_results (mw_manager w') = (mg_results (mw_manager w))(o2 := Some out2)"
    using ex by (auto simp: gocFinish_def split: option.splits prod.splits)
  have "o2 \<in> set (map fst (mw_owners w))" using map_of_SomeD [OF md(1)] by force
  then have "o2 \<noteq> o1" using inv r by (auto simp: opening_inv_def)
  then show ?thesis using r by (simp add: md(2))
next
  case (ActWatch reap s)
  obtain calls m' where g: "watchLifecycle reap s (mw_manager w) = (calls, m')" by (metis surj_pair)
  then have "mg_results m' = mg_results (mw_manager w)"
    by (cases rule: watchLifecycle_cases; simp)
  then show ?thesis using ex g ActWatch r by auto
qed (use ex r in \<open>auto simp: mg_Remove_def mg_closeTake_def mg_closeBegin_def Let_def split: if_splits option.splits\<close>)

lemma mgr_run_result:
  "mgr_run as w = Some w' \<Longrightarrow> opening_inv w \<Longrightarrow> mg_results (mw_manager w) o1 = Some out \<Longrightarrow>
     mg_results (mw_manager w') o1 = Some out"
  by (induction as w rule: mgr_run.induct)
    (auto split: option.splits dest: mgr_exec_opening mgr_exec_result)

section \<open>One live Session per endpoint\<close>

text \<open>\<open>live w e r\<close>: \<open>r\<close> is at endpoint \<open>e\<close> and is usable.\<close>

definition endpoint_of :: "session_metadata \<Rightarrow> string \<times> string" where
  "endpoint_of md = (sm_transport md, sm_endpoint md)"

definition live :: "mgr_world \<Rightarrow> string \<times> string \<Rightarrow> registered_session \<Rightarrow> bool" where
  "live w e r \<longleftrightarrow> endpoint_of (rs_metadata r) = e \<and> usable (mw_state w (ms_handle (rs_session r)))"

lemma live_owns: "live w e r \<longleftrightarrow> owns_endpoint (mw_state w) (fst e) (snd e) r \<and> mw_state w (ms_handle (rs_session r)) \<noteq> StateClosing"
  by (auto simp: live_def owns_endpoint_def endpoint_of_def usable_owns)

definition endpoint_inv :: "string \<times> string \<Rightarrow> mgr_world \<Rightarrow> bool" where
  "endpoint_inv e w \<longleftrightarrow>
     (\<forall>k r k' r'. (k, r) \<in> set (mg_sessions (mw_manager w)) \<longrightarrow> (k', r') \<in> set (mg_sessions (mw_manager w)) \<longrightarrow>
        live w e r \<longrightarrow> live w e r' \<longrightarrow> k = k') \<and>
     (\<forall>o1 md k r. (o1, md, None) \<in> set (mw_owners w) \<longrightarrow> endpoint_of md = e \<longrightarrow>
        (k, r) \<in> set (mg_sessions (mw_manager w)) \<longrightarrow> \<not> live w e r)"

lemma endpoint_inv_unique:
  "endpoint_inv e w \<Longrightarrow> (k, r) \<in> set (mg_sessions (mw_manager w)) \<Longrightarrow> (k', r') \<in> set (mg_sessions (mw_manager w)) \<Longrightarrow>
     live w e r \<Longrightarrow> live w e r' \<Longrightarrow> k = k'"
  unfolding endpoint_inv_def by blast

lemma endpoint_inv_pending:
  "endpoint_inv (endpoint_of md) w \<Longrightarrow> (o1, md, None) \<in> set (mw_owners w) \<Longrightarrow> (k, r) \<in> set (mg_sessions (mw_manager w)) \<Longrightarrow>
     \<not> live w (endpoint_of md) r"
  unfolding endpoint_inv_def by blast

fun registers_at :: "string \<times> string \<Rightarrow> mgr_action \<Rightarrow> bool" where
  "registers_at e (ActRegister _ md) = (endpoint_of md = e)"
| "registers_at e _ = False"

lemma active_scan_keep: "si_id sel \<noteq> [] \<Longrightarrow> \<forall>(k, r) \<in> set ss. k \<noteq> [] \<Longrightarrow> si_id (active_scan st t e sel ss) \<noteq> []"
  by (induction st t e sel ss rule: active_scan.induct) auto

lemma active_scan_none:
  "si_id (active_scan st t e sel ss) = [] \<Longrightarrow> \<forall>(k, r) \<in> set ss. k \<noteq> [] \<Longrightarrow> (k, r) \<in> set ss \<Longrightarrow>
     \<not> owns_endpoint st t e r"
proof (induction st t e sel ss rule: active_scan.induct)
  case (2 st t e sel k1 r1 rest)
  have "\<not> owns_endpoint st t e r1" if "k1 \<noteq> []"
  proof
    assume o: "owns_endpoint st t e r1"
    show False using 2(2,3) active_scan_keep [of _ rest st t e] o that
      by (cases "si_id sel = []") (auto split: if_splits)
  qed
  then show ?case using 2 by auto
qed simp

lemma endpoint_inv_mono:
  assumes inv: "endpoint_inv e w"
    and ss: "\<And>k r. (k, r) \<in> set (mg_sessions (mw_manager w')) \<Longrightarrow> live w' e r \<Longrightarrow>
       (k, r) \<in> set (mg_sessions (mw_manager w)) \<and> live w e r"
    and ow: "\<And>o1 md. (o1, md, None) \<in> set (mw_owners w') \<Longrightarrow> (o1, md, None) \<in> set (mw_owners w)"
  shows "endpoint_inv e w'"
  unfolding endpoint_inv_def
proof (intro conjI allI impI)
  fix k r k' r'
  assume a: "(k, r) \<in> set (mg_sessions (mw_manager w'))" "(k', r') \<in> set (mg_sessions (mw_manager w'))" "live w' e r" "live w' e r'"
  show "k = k'" using endpoint_inv_unique [OF inv] ss [OF a(1,3)] ss [OF a(2,4)] by metis
next
  fix o1 md k r
  assume a: "(o1, md, None) \<in> set (mw_owners w')" "endpoint_of md = e" "(k, r) \<in> set (mg_sessions (mw_manager w'))"
  show "\<not> live w' e r" using endpoint_inv_pending [of md w o1 k r] inv a(2) ow [OF a(1)] ss [OF a(3)] by metis
qed

lemma endpoint_inv_fewer:
  assumes "endpoint_inv e w" "set (mg_sessions (mw_manager w')) \<subseteq> set (mg_sessions (mw_manager w))"
    and "mw_state w' = mw_state w"
    and "\<And>o1 md. (o1, md, None) \<in> set (mw_owners w') \<Longrightarrow> (o1, md, None) \<in> set (mw_owners w)"
  shows "endpoint_inv e w'"
  by (rule endpoint_inv_mono [OF assms(1) _ assms(4)]) (use assms(2,3) in \<open>auto simp: live_def\<close>)

lemma delete_session_subset: "set (mg_sessions (delete_session k m)) \<subseteq> set (mg_sessions m)"
  by (auto simp: delete_session_def)

lemma gocBegin_own:
  "gocBegin st md m = (GocOwn n, m') \<Longrightarrow> activeSessionForEndpointLocked st (sm_transport md) (sm_endpoint md) m = None"
  by (auto simp: gocBegin_def split: if_splits option.splits)

lemma activeSession_None:
  "activeSessionForEndpointLocked st t e m = None \<longleftrightarrow> si_id (active_scan st t e zero_info (mg_sessions m)) = []"
  by (simp add: activeSessionForEndpointLocked_def Let_def)

lemma step_begin_endpoint:
  assumes inv: "endpoint_inv e w" and ids: "\<forall>(k, r) \<in> set (mg_sessions (mw_manager w)). k \<noteq> []"
  shows "endpoint_inv e (step_begin md w)"
proof -
  obtain d m' where g: "gocBegin (mw_state w) md (mw_manager w) = (d, m')" by (metis surj_pair)
  note same = gocBegin_same [OF g]
  show ?thesis
  proof (cases "\<exists>n. d = GocOwn n")
    case True
    then obtain n where d: "d = GocOwn n" ..
    then have "si_id (active_scan (mw_state w) (sm_transport md) (sm_endpoint md) zero_info (mg_sessions (mw_manager w))) = []"
      using gocBegin_own g activeSession_None by simp
    then have none: "\<not> live w (endpoint_of md) r" if "(k, r) \<in> set (mg_sessions (mw_manager w))" for k r
      using active_scan_none [OF _ ids that] by (simp add: live_owns endpoint_of_def)
    have o: "mw_owners (step_begin md w) = mw_owners w @ [(n, md, None)]" "mw_manager (step_begin md w) = m'"
      "live (step_begin md w) = live w"
      by (simp_all add: step_begin_def g d live_def fun_eq_iff)
    show ?thesis unfolding endpoint_inv_def o same
    proof (intro conjI allI impI)
      fix o1 md1 k r
      assume a: "(o1, md1, None) \<in> set (mw_owners w @ [(n, md, None)])" "endpoint_of md1 = e" "(k, r) \<in> set (mg_sessions (mw_manager w))"
      then have "(o1, md1, None) \<in> set (mw_owners w) \<or> md1 = md" by auto
      then show "\<not> live w e r" using endpoint_inv_pending [of md1 w o1 k r] inv a(2,3) none [OF a(3)] by blast
    qed (use endpoint_inv_unique [OF inv] in blast)
  next
    case False
    then have "step_begin md w = w\<lparr>mw_manager := m'\<rparr>"
      by (cases d) (simp_all add: step_begin_def g)
    then show ?thesis by (intro endpoint_inv_fewer [OF inv]) (simp_all add: same)
  qed
qed

lemma set_owner_pending:
  "(o2, md2, None) \<in> set (set_owner o1 md out owners) \<Longrightarrow> o2 \<noteq> o1 \<and> (o2, md2, None) \<in> set owners"
  by (auto simp: set_owner_def split: if_splits)

text \<open>A new registration at another endpoint says nothing about this one.\<close>

lemma endpoint_inv_entered:
  assumes inv: "endpoint_inv e w" and n: "enter_session s md (mw_manager w) = (md', m')"
    and v: "mw_manager w' = m'" "mw_state w' = mw_state w" and other: "endpoint_of md \<noteq> e"
    and ow: "\<And>o1 md. (o1, md, None) \<in> set (mw_owners w') \<Longrightarrow> (o1, md, None) \<in> set (mw_owners w)"
  shows "endpoint_inv e w'"
proof (rule endpoint_inv_mono [OF inv _ ow])
  fix k r
  assume a: "(k, r) \<in> set (mg_sessions (mw_manager w'))" "live w' e r"
  obtain x where "md' = md\<lparr>sm_reference := x\<rparr>" and
    ss: "mg_sessions m' = mg_sessions (mw_manager w) @ [(ms_id s, \<lparr>rs_session = s, rs_metadata = md'\<rparr>)]"
    using n by (auto elim!: enter_session_spec)
  then have "endpoint_of md' \<noteq> e" using other by (simp add: endpoint_of_def)
  then show "(k, r) \<in> set (mg_sessions (mw_manager w)) \<and> live w e r"
    using a v ss by (auto simp: live_def)
qed

lemma step_created_endpoint:
  assumes inv: "endpoint_inv e w" and op: "opening_inv w" and m: "map_of (mw_owners w) o1 = Some (md, None)"
  shows "endpoint_inv e (step_created o1 md candidate err closeErr w)"
proof -
  obtain out calls m' where r: "gocRegister (mw_state w) md candidate err closeErr (mw_manager w) = (out, calls, m')"
    by (metis prod_cases3)
  define w' where "w' = step_created o1 md candidate err closeErr w"
  have v: "mw_manager w' = m'" "mw_owners w' = set_owner o1 md out (mw_owners w)" "mw_state w' = mw_state w"
    by (simp_all add: w'_def step_created_def r)
  have ow: "(o2, md2, None) \<in> set (mw_owners w)" if "(o2, md2, None) \<in> set (mw_owners w')" for o2 md2
    using that set_owner_pending unfolding v by metis
  from r have "endpoint_inv e w'"
  proof (cases rule: gocRegister_cases)
    case (1 err)
    then show ?thesis by (intro endpoint_inv_fewer [OF inv _ _ ow]) (use v in simp_all)
  next
    case (2 s md')
    show ?thesis
    proof (cases "endpoint_of md = e")
      case False
      then show ?thesis by (rule endpoint_inv_entered [OF inv 2(6) v(1,3) _ ow])
    next
      case True
      obtain n where ss: "mg_sessions m' = mg_sessions (mw_manager w) @ [(ms_id s, \<lparr>rs_session = s, rs_metadata = md'\<rparr>)]"
        using 2(6) by (auto elim!: enter_session_spec)
      have old: "\<not> live w e r" if "(k, r) \<in> set (mg_sessions (mw_manager w))" for k r
        using endpoint_inv_pending [of md w o1 k r] inv map_of_SomeD [OF m] that True by blast
      have l: "live w' = live w" by (simp add: live_def v fun_eq_iff)
      have other: "endpoint_of md2 \<noteq> e" if p: "(o2, md2, None) \<in> set (mw_owners w')" for o2 md2
      proof
        assume eq: "endpoint_of md2 = e"
        have "o2 \<noteq> o1" using set_owner_pending p v by metis
        have "(owner_key md2, o2) \<in> set (mg_openings (mw_manager w))" "(owner_key md, o1) \<in> set (mg_openings (mw_manager w))"
          using op ow [OF p] map_of_SomeD [OF m] by (force simp: opening_inv_def)+
        moreover have "owner_key md2 = owner_key md" using eq True by (auto simp: owner_key_def endpoint_of_def)
        moreover have "distinct (map fst (mg_openings (mw_manager w)))" using op unfolding opening_inv_def by blast
        ultimately show False using \<open>o2 \<noteq> o1\<close> eq_key_imp_eq_value by metis
      qed
      have new: "k = ms_id s" if "(k, r) \<in> set (mg_sessions m')" "live w e r" for k r
        using that old by (auto simp: ss)
      show ?thesis unfolding endpoint_inv_def v(1) l using new other by blast
    qed
  qed
  then show ?thesis by (simp add: w'_def)
qed

lemma mgr_exec_endpoint:
  assumes ex: "mgr_exec a w = Some w'" and inv: "endpoint_inv e w" and op: "opening_inv w"
    and ld: "ledger_inv (ledger_of w)" and nr: "\<not> registers_at e a"
  shows "endpoint_inv e w'"
proof (cases a)
  case (ActRegister s md)
  obtain er calls m' where r: "RegisterWithMetadata s md (mw_manager w) = (er, calls, m')" by (metis prod_cases3)
  have w': "mw_manager w' = m'" "mw_state w' = mw_state w" "mw_owners w' = mw_owners w"
    using ex ActRegister by (auto simp: step_register_def r split: if_splits)
  have other: "endpoint_of md \<noteq> e" using nr ActRegister by simp
  from r show ?thesis
  proof (cases rule: RegisterWithMetadata_cases)
    case 1
    then show ?thesis by (intro endpoint_inv_fewer [OF inv]) (simp_all add: w')
  next
    case (2 md')
    then show ?thesis using endpoint_inv_entered [OF inv 2(5) w'(1,2) other] w'(3) by simp
  qed
next
  case (ActBegin md)
  have "\<forall>(k, r) \<in> set (mg_sessions (mw_manager w)). k \<noteq> []"
    using ld by (auto simp: ledger_inv_def ledger_of_def)
  from step_begin_endpoint [OF inv this] show ?thesis using ex ActBegin by auto
next
  case (ActCreated o1 candidate err closeErr)
  then show ?thesis using ex step_created_endpoint [OF inv op]
    by (auto split: option.splits if_splits prod.splits)
next
  case (ActFinish o1)
  show ?thesis by (rule endpoint_inv_fewer [OF inv])
    (use ex ActFinish in \<open>auto simp: gocFinish_def split: option.splits prod.splits\<close>)
next
  case (ActRemove ident)
  show ?thesis by (rule endpoint_inv_fewer [OF inv])
    (use ex ActRemove in \<open>auto simp: mg_Remove_def delete_session_def split: option.splits\<close>)
next
  case (ActWatch reap s)
  obtain calls m' where g: "watchLifecycle reap s (mw_manager w) = (calls, m')" by (metis surj_pair)
  then have "set (mg_sessions m') \<subseteq> set (mg_sessions (mw_manager w))"
    by (cases rule: watchLifecycle_cases) (use delete_session_subset in auto)
  then show ?thesis by (intro endpoint_inv_fewer [OF inv]) (use ex ActWatch g in auto)
next
  case (ActState h s)
  then have g: "usable s \<Longrightarrow> h \<in> set (handles (mg_sessions (mw_manager w))) \<Longrightarrow> usable (mw_state w h)"
    and w': "w' = w\<lparr>mw_state := (mw_state w)(h := s)\<rparr>"
    using ex by (auto split: if_splits)
  show ?thesis
  proof (rule endpoint_inv_mono [OF inv])
    fix k r
    assume r: "(k, r) \<in> set (mg_sessions (mw_manager w'))" "live w' e r"
    then have "ms_handle (rs_session r) \<in> set (handles (mg_sessions (mw_manager w)))"
      by (force simp: handles_def w')
    then show "(k, r) \<in> set (mg_sessions (mw_manager w)) \<and> live w e r"
      using r g by (auto simp: live_def w' split: if_splits)
  qed (simp add: w')
next
  case ActCloseBegin
  show ?thesis by (rule endpoint_inv_fewer [OF inv]) (use ex ActCloseBegin in \<open>auto simp: mg_closeBegin_def\<close>)
next
  case ActCloseTake
  show ?thesis by (rule endpoint_inv_fewer [OF inv])
    (use ex ActCloseTake in \<open>auto simp: mg_closeTake_def Let_def split: if_splits\<close>)
qed

lemma mgr_run_endpoint:
  "mgr_run as w = Some w' \<Longrightarrow> endpoint_inv e w \<Longrightarrow> opening_inv w \<Longrightarrow> ledger_inv (ledger_of w) \<Longrightarrow>
     list_all (\<lambda>a. \<not> registers_at e a) as \<Longrightarrow> endpoint_inv e w'"
proof (induction as w rule: mgr_run.induct)
  case (2 a as w)
  then show ?case
    using mgr_exec_endpoint [of a w] mgr_exec_opening [of a w] mgr_exec_ledger [of a w] ledger_step_inv
    by (auto split: option.splits)
qed simp

section \<open>After Close\<close>

lemma mgr_exec_shut:
  assumes "mgr_exec a w = Some w'" "mg_closed (mw_manager w)" "mg_sessions (mw_manager w) = []"
  shows "mg_closed (mw_manager w') \<and> mg_sessions (mw_manager w') = []"
proof (cases a)
  case (ActRegister s md)
  then show ?thesis using assms by (auto simp: step_register_def RegisterWithMetadata_def split: if_splits)
next
  case (ActBegin md)
  then show ?thesis using assms by (auto simp: step_begin_def gocBegin_def)
next
  case (ActCreated o1 candidate err closeErr)
  then obtain md where md: "w' = step_created o1 md candidate err closeErr w"
    using assms(1) by (auto split: option.splits if_splits prod.splits)
  obtain out calls m' where g: "gocRegister (mw_state w) md candidate err closeErr (mw_manager w) = (out, calls, m')"
    by (metis prod_cases3)
  from g have "m' = mw_manager w" by (cases rule: gocRegister_cases) (use assms(2) in auto)
  then show ?thesis using assms(2,3) by (simp add: md step_created_def g)
next
  case (ActWatch reap s)
  then show ?thesis using assms
    by (auto simp: watchLifecycle_def removeExact_def split: if_splits)
qed (use assms in \<open>auto simp: mg_Remove_def sessionIDLocked_def gocFinish_def mg_closeBegin_def mg_closeTake_def Let_def
    split: if_splits option.splits\<close>)

lemma mgr_run_shut:
  "mgr_run as w = Some w' \<Longrightarrow> mg_closed (mw_manager w) \<Longrightarrow> mg_sessions (mw_manager w) = [] \<Longrightarrow>
     mg_closed (mw_manager w') \<and> mg_sessions (mw_manager w') = []"
  by (induction as w rule: mgr_run.induct) (auto split: option.splits dest: mgr_exec_shut)

section \<open>Properties\<close>

text \<open>A run used by the witnesses: one caller opens \<open>/dev/ttyUSB0\<close>, another waits for it.\<close>

definition demo_metadata :: session_metadata where
  "demo_metadata = \<lparr>sm_transport = ''serial'', sm_endpoint = ''tty'', sm_label = [], sm_reference = []\<rparr>"

definition demo_session :: managed_session where
  "demo_session = \<lparr>ms_handle = 7, ms_id = ''a'', ms_observed = True\<rparr>"

definition demo_opening :: mgr_world where
  "demo_opening = the (mgr_run [ActBegin demo_metadata, ActCreated 0 (Some demo_session) None None]
      (initial_world (\<lambda>_. StateOpen)))"

definition demo_world :: mgr_world where
  "demo_world = the (mgr_exec (ActFinish 0) demo_opening)"

lemma demo_opening_run:
  "mgr_run [ActBegin demo_metadata, ActCreated 0 (Some demo_session) None None] (initial_world (\<lambda>_. StateOpen)) = Some demo_opening"
proof -
  have "mgr_run [ActBegin demo_metadata, ActCreated 0 (Some demo_session) None None] (initial_world (\<lambda>_. StateOpen)) \<noteq> None"
    by code_simp
  then show ?thesis by (auto simp: demo_opening_def)
qed

lemma demo_world_run: "mgr_exec (ActFinish 0) demo_opening = Some demo_world"
proof -
  have "mgr_exec (ActFinish 0) demo_opening \<noteq> None" by code_simp
  then show ?thesis by (auto simp: demo_world_def)
qed

lemma mgr_run_append:
  "mgr_run (as @ bs) w = (case mgr_run as w of None \<Rightarrow> None | Some w' \<Rightarrow> mgr_run bs w')"
  by (induction as w rule: mgr_run.induct) (auto split: option.splits)

lemma demo_run:
  "mgr_run [ActBegin demo_metadata, ActCreated 0 (Some demo_session) None None, ActFinish 0] (initial_world (\<lambda>_. StateOpen)) = Some demo_world"
  using mgr_run_append [of "[ActBegin demo_metadata, ActCreated 0 (Some demo_session) None None]" "[ActFinish 0]"
      "initial_world (\<lambda>_. StateOpen)"] demo_opening_run demo_world_run by simp

text \<open>
  A Session is found under its ID, and under its short reference as long as no
  registered ID is spelled like that reference; no other Session answers to either.
\<close>

theorem manager_reference_resolves:
  assumes "mgr_run as (initial_world st) = Some w" "(k, r) \<in> set (mg_sessions (mw_manager w))"
    and "sm_reference (rs_metadata r) \<notin> fst ` set (mg_sessions (mw_manager w))"
  shows "sessionIDLocked (mw_manager w) k = Some (k, r) \<and>
         sessionIDLocked (mw_manager w) (sm_reference (rs_metadata r)) = Some (k, r)"
proof -
  let ?ss = "mg_sessions (mw_manager w)" and ?P = "\<lambda>(k, q). sm_reference (rs_metadata q) = sm_reference (rs_metadata r)"
  have inv: "ledger_inv (ledger_of w)" using mgr_run_inv [OF assms(1) initial_ledger] .
  then have d: "distinct (map fst ?ss)" "distinct (references ?ss)" by (simp_all add: ledger_inv_def ledger_of_def)
  have id: "map_of ?ss k = Some r" using d(1) assms(2) by simp
  have none: "map_of ?ss (sm_reference (rs_metadata r)) = None" using assms(3) by (simp add: map_of_eq_None_iff)
  have "find ?P ?ss \<noteq> None" using assms(2) by (auto simp: find_None_iff)
  then obtain e where e: "find ?P ?ss = Some e" by blast
  then have "e \<in> set ?ss" "?P e" by (auto simp: find_Some_iff dest: nth_mem)
  then have "e = (k, r)"
    using inj_onD [OF conjunct2 [OF d(2) [unfolded references_def distinct_map]], of e "(k, r)"] assms(2) by auto
  then show ?thesis using id none e by (simp add: sessionIDLocked_def)
qed

theorem manager_reference_resolves_witness:
  "\<exists>r. sessionIDLocked (mw_manager demo_world) ''SER-1'' = Some (''a'', r)"
proof -
  have s: "map (\<lambda>(k, r). (k, sm_reference (rs_metadata r))) (mg_sessions (mw_manager demo_world)) = [(''a'', ''SER-1'')]"
    by code_simp
  then obtain r where "mg_sessions (mw_manager demo_world) = [(''a'', r)]" "sm_reference (rs_metadata r) = ''SER-1''" by auto
  then show ?thesis using manager_reference_resolves [OF demo_run, of "''a''" r] by auto
qed

text \<open>
  Within one transport name a reference is never handed out twice, also after the
  Session that had it is gone.
\<close>

theorem manager_references_never_reused:
  assumes "mgr_run as (initial_world st) = Some w"
  shows "distinct (mw_allocated w)"
  using mgr_run_inv [OF assms initial_ledger] by (simp add: ledger_inv_def ledger_of_def)

theorem manager_references_never_reused_witness:
  "mw_allocated demo_world = [(''serial'', ''SER-1'')] \<and> distinct (mw_allocated demo_world)"
  using manager_references_never_reused [OF demo_run] by (intro conjI) code_simp

text \<open>
  Across transport names it is: the counters are kept per name but two names can
  have one prefix, so the reference of a removed Session can be handed out again,
  which the comment on \<open>SessionMetadata\<close> excludes.
\<close>

theorem manager_reference_reused_across_names:
  "\<exists>as w. mgr_run as (initial_world st) = Some w \<and> \<not> distinct (map snd (mw_allocated w))"
proof -
  let ?as = "[ActRegister demo_session (demo_metadata\<lparr>sm_transport := []\<rparr>), ActRemove ''a'',
     ActRegister (demo_session\<lparr>ms_handle := 8\<rparr>) (demo_metadata\<lparr>sm_transport := ''session''\<rparr>)]"
  have "case mgr_run ?as (initial_world st) of None \<Rightarrow> False | Some w \<Rightarrow> map snd (mw_allocated w) = [''SESSION-1'', ''SESSION-1'']"
    by code_simp
  then obtain w where "mgr_run ?as (initial_world st) = Some w" "map snd (mw_allocated w) = [''SESSION-1'', ''SESSION-1'']"
    by (auto split: option.splits)
  then show ?thesis by (intro exI [of _ ?as] exI [of _ w]) simp
qed

text \<open>
  Every Session handed to the Manager has exactly one owner at every moment: it is
  registered, or was given back to a caller, or was closed by the Manager; none is
  lost, owned twice or closed twice.
\<close>

theorem manager_single_owner:
  assumes "mgr_run as (initial_world st) = Some w"
  shows "distinct (mw_handed w) \<and>
         mset (mw_handed w) = mset (handles (mg_sessions (mw_manager w))) + mset (mw_returned w)
                            + mset (closed_handles (mw_calls w))"
  using mgr_run_inv [OF assms initial_ledger] by (simp add: ledger_inv_def ledger_of_def add.assoc)

theorem manager_single_owner_witness: "mset (handles (mg_sessions (mw_manager demo_world))) = {#7#}"
proof -
  have "mw_handed demo_world = [7]" "mw_returned demo_world = []" "closed_handles (mw_calls demo_world) = []"
    by code_simp+
  then show ?thesis using manager_single_owner [OF demo_run] by simp
qed

text \<open>
  C12 One usable Session per endpoint, whatever the callers do and however their critical sections interleave, as long as nobody registers a Session
  of that endpoint past \<open>GetOrCreate\<close>: of the registered Sessions whose states own the transport and endpoint at most one is not
  closing, and while there is such a one no connection attempt for that endpoint is in progress. Sessions may fail, begin to close while they are
  registered, and be removed at any moment, and Sessions of other endpoints may be registered directly.
\<close>

theorem manager_one_session_per_endpoint:
  assumes "mgr_run as (initial_world st) = Some w"
    and "list_all (\<lambda>a. \<not> registers_at (t, e) a) as"
    and "(k, r) \<in> set (mg_sessions (mw_manager w))" "owns_endpoint (mw_state w) t e r"
    and "mw_state w (ms_handle (rs_session r)) \<noteq> StateClosing"
  shows "((k', r') \<in> set (mg_sessions (mw_manager w)) \<and> owns_endpoint (mw_state w) t e r' \<longrightarrow>
            k' = k \<or> mw_state w (ms_handle (rs_session r')) = StateClosing) \<and>
         ((o1, md, None) \<in> set (mw_owners w) \<longrightarrow> (sm_transport md, sm_endpoint md) \<noteq> (t, e))"
proof -
  have "endpoint_inv (t, e) (initial_world st)" by (simp add: endpoint_inv_def initial_world_def NewManager_def)
  then have inv: "endpoint_inv (t, e) w"
    by (rule mgr_run_endpoint [OF assms(1) _ initial_opening initial_ledger assms(2)])
  have l: "live w (t, e) r" using assms(4,5) by (simp add: live_owns)
  show ?thesis
    using endpoint_inv_unique [OF inv assms(3) _ l, of k' r'] endpoint_inv_pending [of md w o1 k r] inv assms(3) l
    by (auto simp: live_owns endpoint_of_def)
qed

theorem manager_one_session_per_endpoint_witness:
  "map fst (mg_sessions (mw_manager demo_world)) = [''a''] \<and> mw_owners demo_world = []"
proof -
  have s: "map fst (mg_sessions (mw_manager demo_world)) = [''a'']"
    "list_all (\<lambda>(k, r). owns_endpoint (mw_state demo_world) ''serial'' ''tty'' r) (mg_sessions (mw_manager demo_world))"
    "list_all (\<lambda>(k, r). mw_state demo_world (ms_handle (rs_session r)) \<noteq> StateClosing) (mg_sessions (mw_manager demo_world))"
    "mw_owners demo_world = []" by code_simp+
  then obtain r where "(''a'', r) \<in> set (mg_sessions (mw_manager demo_world))"
    "owns_endpoint (mw_state demo_world) ''serial'' ''tty'' r" "mw_state demo_world (ms_handle (rs_session r)) \<noteq> StateClosing"
    by (auto simp: map_eq_Cons_conv list_all_iff)
  from manager_one_session_per_endpoint [OF demo_run _ this] s show ?thesis by simp
qed

text \<open>
  A Session that failed and begins to close while it is registered owns its endpoint again, beside the one that replaced it.
\<close>

theorem manager_closing_owner_returns:
  "\<exists>as w. mgr_run as (initial_world (\<lambda>_. StateOpen)) = Some w \<and> list_all (\<lambda>a. \<not> registers_at (t, e) a) as \<and>
     length (filter (\<lambda>(k, r). owns_endpoint (mw_state w) ''serial'' ''tty'' r) (mg_sessions (mw_manager w))) = 2"
proof -
  let ?as = "[ActBegin demo_metadata, ActCreated 0 (Some demo_session) None None, ActFinish 0, ActState 7 StateFailed,
     ActBegin demo_metadata, ActCreated 1 (Some (demo_session\<lparr>ms_handle := 8, ms_id := ''b''\<rparr>)) None None, ActFinish 1,
     ActState 7 StateClosing]"
  have "case mgr_run ?as (initial_world (\<lambda>_. StateOpen)) of None \<Rightarrow> False | Some w \<Rightarrow>
     length (filter (\<lambda>(k, r). owns_endpoint (mw_state w) ''serial'' ''tty'' r) (mg_sessions (mw_manager w))) = 2"
    by code_simp
  then obtain w where w: "mgr_run ?as (initial_world (\<lambda>_. StateOpen)) = Some w"
    "length (filter (\<lambda>(k, r). owns_endpoint (mw_state w) ''serial'' ''tty'' r) (mg_sessions (mw_manager w))) = 2"
    by (auto simp del: mgr_run.simps split: option.splits)
  then show ?thesis by (intro exI [of _ ?as] exI [of _ w]) (simp del: mgr_run.simps)
qed

text \<open>
  Callers that waited for a connection attempt get its outcome: once the caller
  that owned the opening has finished, every waiter is answered with that caller's
  error or Session, whatever happened in between and however late it looks.
\<close>

theorem manager_waiters_share_outcome:
  assumes "mgr_run as (initial_world st) = Some w" "map_of (mw_owners w) o1 = Some (md, Some outcome)"
    and "mgr_run (ActFinish o1 # bs) w = Some w'"
  shows "gocWaiter o1 (mw_manager w') = Some (case outcome of Inl e \<Rightarrow> Inl e | Inr info \<Rightarrow> Inr (info, False))"
proof -
  have inv: "opening_inv w" using mgr_run_opening [OF assms(1) initial_opening] .
  obtain w1 where w1: "mgr_exec (ActFinish o1) w = Some w1" "mgr_run bs w1 = Some w'"
    using assms(3) by (auto simp del: mgr_exec.simps split: option.splits)
  then have "mg_results (mw_manager w1) o1 = Some outcome"
    using assms(2) by (auto simp: gocFinish_def)
  from mgr_run_result [OF w1(2) mgr_exec_opening [OF w1(1) inv] this]
  show ?thesis by (cases outcome) (simp_all add: gocWaiter_def)
qed

theorem manager_waiters_share_outcome_witness:
  "gocWaiter 0 (mw_manager demo_world) \<noteq> None"
proof -
  have "case map_of (mw_owners demo_opening) 0 of Some (md, Some out) \<Rightarrow> True | _ \<Rightarrow> False" by code_simp
  then obtain md out where o: "map_of (mw_owners demo_opening) 0 = Some (md, Some out)"
    by (auto split: option.splits prod.splits)
  have "mgr_run (ActFinish 0 # []) demo_opening = Some demo_world" using demo_world_run by simp
  from manager_waiters_share_outcome [OF demo_opening_run o this] show ?thesis by simp
qed

text \<open>
  Shutdown is complete and final: it takes the registrations only once no
  connection attempt is left, closes each of them once, and from then on nothing is
  ever registered again.
\<close>

theorem manager_close_final:
  assumes "mgr_run as (initial_world st) = Some w" "mgr_exec ActCloseTake w = Some w1" "mgr_run bs w1 = Some w2"
  shows "mw_owners w = [] \<and>
         closed_handles (mw_calls w1) = closed_handles (mw_calls w) @ handles (mg_sessions (mw_manager w)) \<and>
         mg_sessions (mw_manager w2) = [] \<and> mg_closed (mw_manager w2)"
proof -
  have "opening_inv w" using mgr_run_opening [OF assms(1) initial_opening] .
  then have o: "mw_owners w = []" using assms(2) by (auto simp: opening_inv_def mg_closeReady_def split: if_splits)
  have "map ms_handle (mg_List m) = handles (mg_sessions m)" for m
    by (auto simp: mg_List_def handles_def)
  then have c: "closed_handles (mw_calls w1) = closed_handles (mw_calls w) @ handles (mg_sessions (mw_manager w))"
    "mg_closed (mw_manager w1)" "mg_sessions (mw_manager w1) = []"
    using assms(2) by (auto simp: mg_closeTake_def Let_def split: if_splits)
  then show ?thesis using o mgr_run_shut [OF assms(3)] by simp
qed

theorem manager_close_final_witness:
  "\<exists>w1 w2. mgr_exec ActCloseTake w1 = Some w2 \<and> mg_sessions (mw_manager w2) = []"
proof -
  let ?as = "[ActBegin demo_metadata, ActCreated 0 (Some demo_session) None None, ActFinish 0, ActCloseBegin]"
  have "case mgr_run ?as (initial_world (\<lambda>_. StateOpen)) of None \<Rightarrow> False | Some w \<Rightarrow> mgr_exec ActCloseTake w \<noteq> None"
    by code_simp
  then obtain w1 w2 where r: "mgr_run ?as (initial_world (\<lambda>_. StateOpen)) = Some w1" "mgr_exec ActCloseTake w1 = Some w2"
    by (auto simp del: mgr_exec.simps mgr_run.simps split: option.splits)
  have "mgr_run [] w2 = Some w2" by simp
  from manager_close_final [OF r this] r(2) show ?thesis by blast
qed

end
