(* ===== verification/Lease.thy ===== *)
theory Lease
  imports Session_Types Go_Strings
begin

text \<open>
  \<open>internal/core/app/lease.go\<close>: the coordinator of exclusive writer leases. The
  per-Session gate serialises acquire, renew, release, status, write and the two
  cleanups; timer expiry and the cancellation prompts only take the mutex. Each
  function is one such critical section (or two, for a write around its
  operation), with one argument for every reading of the clock it makes. The
  result \<open>None\<close> is Go's run-time panic on closing a closed channel. What
  \<open>onExpired\<close> is called with is part of the result.
\<close>

abbreviation "ErrInvalidLeaseOwner \<equiv> ErrSentinel ''app.ErrInvalidLeaseOwner''"
abbreviation "ErrInvalidLeaseType \<equiv> ErrSentinel ''app.ErrInvalidLeaseType''"
abbreviation "ErrSessionBusy \<equiv> ErrSentinel ''app.ErrSessionBusy''"
abbreviation "ErrLeaseNotOwned \<equiv> ErrSentinel ''app.ErrLeaseNotOwned''"
abbreviation "ErrFileTransferCancelPending \<equiv> ErrSentinel ''app.ErrFileTransferCancelPending''"
abbreviation "ErrFileTransferCancelRequest \<equiv> ErrSentinel ''app.ErrFileTransferCancelRequest''"
abbreviation "ErrFileTransferIDMismatch \<equiv> ErrSentinel ''app.ErrFileTransferIDMismatch''"

text \<open>Durations in nanoseconds, as \<open>time.Duration\<close>.\<close>

definition defaultLeaseTTL :: int where "defaultLeaseTTL = 30 * 1000000000"
definition FileTransferCancelConfirmationTimeout :: int where
  "FileTransferCancelConfirmationTimeout = 30 * 1000000000"

datatype lease_type = LeaseTypeTerminal | LeaseTypeFileTransfer | LeaseTypeDebug | LeaseTypeOther string

fun LeaseType_Valid :: "lease_type \<Rightarrow> bool" where
  "LeaseType_Valid LeaseTypeTerminal = True"
| "LeaseType_Valid LeaseTypeFileTransfer = True"
| "LeaseType_Valid LeaseTypeDebug = True"
| "LeaseType_Valid (LeaseTypeOther s) = False"

fun lease_type_name :: "lease_type \<Rightarrow> string" where
  "lease_type_name LeaseTypeTerminal = ''terminal''"
| "lease_type_name LeaseTypeFileTransfer = ''file-transfer''"
| "lease_type_name LeaseTypeDebug = ''debug''"
| "lease_type_name (LeaseTypeOther s) = s"

record session_lease =
  sl_session :: string
  sl_owner :: string
  sl_type :: lease_type
  sl_transfer :: string
  sl_created :: time
  sl_expires :: time
  sl_state :: string
  sl_reference :: string

record cancel_request =
  cq_active :: bool
  cq_id :: string
  cq_state :: string

record cancel_resolution =
  cr_state :: string
  cr_transferred :: int
  cr_total :: int
  cr_percent :: rat

datatype control_action = FileTransferContinue | FileTransferCancel

text \<open>The states of a transfer's control object, strings in the code.\<close>

datatype control_state = CtlRunning | CtlConfirming | CtlCancelled | CtlCompleted | CtlExpired

text \<open>
  \<open>fc_ident\<close> stands for the object's address (the prompt timer compares it),
  \<open>fc_changed\<close> is the generation of the replaceable \<open>changed\<close> channel and the two
  flags say that the current \<open>changed\<close> and the \<open>released\<close> channel are closed.
\<close>

record file_control =
  fc_ident :: nat
  fc_request :: string
  fc_timer :: bool
  fc_deadline :: time
  fc_state :: control_state
  fc_changed :: nat
  fc_changedClosed :: bool
  fc_releasedClosed :: bool
  fc_transferred :: int
  fc_total :: int
  fc_percent :: rat
  fc_resolution :: "cancel_resolution option"

record coordinator =
  lc_leases :: "string \<Rightarrow> session_lease option"
  lc_timers :: "string \<Rightarrow> (string \<times> time) option"
  lc_fileTransfers :: "string \<Rightarrow> file_control option"
  lc_activeWrites :: "string \<Rightarrow> nat"
  lc_recovering :: "string \<Rightarrow> session_lease option"
  lc_nextCancelRequest :: nat
  lc_nextTransferID :: nat
  lc_nextControl :: nat
  lc_ttl :: int

definition newLeaseCoordinatorWithTTL :: "int \<Rightarrow> coordinator" where
  "newLeaseCoordinatorWithTTL ttl =
     \<lparr>lc_leases = Map.empty, lc_timers = Map.empty, lc_fileTransfers = Map.empty,
      lc_activeWrites = (\<lambda>_. 0), lc_recovering = Map.empty, lc_nextCancelRequest = 0,
      lc_nextTransferID = 0, lc_nextControl = 0, lc_ttl = ttl\<rparr>"

definition newLeaseCoordinator :: coordinator where
  "newLeaseCoordinator = newLeaseCoordinatorWithTTL defaultLeaseTTL"

definition busy_error :: "string \<Rightarrow> session_lease \<Rightarrow> goerr" where
  "busy_error sid lease =
     ErrWrap ErrSessionBusy (''Session '' @ sid @ '' is locked by '' @ lease_type_name (sl_type lease))"

definition closing_error :: "string \<Rightarrow> goerr" where
  "closing_error sid = ErrWrap ErrSessionBusy (''Session '' @ sid @ '' is closing after lease expiry'')"

section \<open>Control objects\<close>

definition new_control :: "nat \<Rightarrow> file_control" where
  "new_control ident =
     \<lparr>fc_ident = ident, fc_request = [], fc_timer = False, fc_deadline = 0, fc_state = CtlRunning,
      fc_changed = 0, fc_changedClosed = False, fc_releasedClosed = False,
      fc_transferred = 0, fc_total = 0, fc_percent = 0, fc_resolution = None\<rparr>"

definition stopConfirmationTimer :: "file_control \<Rightarrow> file_control" where
  "stopConfirmationTimer ct = ct\<lparr>fc_timer := False\<rparr>"

definition expireConfirmation :: "time \<Rightarrow> file_control \<Rightarrow> file_control" where
  "expireConfirmation now ct =
     (if fc_state ct \<noteq> CtlConfirming \<or> now < fc_deadline ct then ct
      else (stopConfirmationTimer ct)\<lparr>fc_state := CtlRunning, fc_request := [], fc_changed := Suc (fc_changed ct)\<rparr>)"

definition resolution_of :: "string \<Rightarrow> file_control \<Rightarrow> cancel_resolution" where
  "resolution_of st ct = \<lparr>cr_state = st, cr_transferred = fc_transferred ct,
                          cr_total = fc_total ct, cr_percent = fc_percent ct\<rparr>"

text \<open>\<open>close(control.released); close(control.changed)\<close>, a panic when either is closed.\<close>

definition close_control :: "file_control \<Rightarrow> file_control option" where
  "close_control ct =
     (if fc_releasedClosed ct \<or> fc_changedClosed ct then None
      else Some (ct\<lparr>fc_releasedClosed := True, fc_changedClosed := True\<rparr>))"

section \<open>Expiry\<close>

definition scheduleExpiryLocked :: "session_lease \<Rightarrow> coordinator \<Rightarrow> coordinator" where
  "scheduleExpiryLocked lease c =
     c\<lparr>lc_timers := (lc_timers c)(sl_session lease \<mapsto> (sl_owner lease, sl_expires lease))\<rparr>"

definition stopExpiryLocked :: "string \<Rightarrow> coordinator \<Rightarrow> coordinator" where
  "stopExpiryLocked sid c = c\<lparr>lc_timers := (lc_timers c)(sid := None)\<rparr>"

text \<open>
  \<open>expireLocked\<close> on a Session whose lease exists: the lease goes, and the Session
  is marked recovering when only its closure can stop the old operation.
\<close>

definition lease_aborts :: "string \<Rightarrow> session_lease \<Rightarrow> coordinator \<Rightarrow> bool" where
  "lease_aborts sid lease c \<longleftrightarrow> 0 < lc_activeWrites c sid \<or> sl_type lease = LeaseTypeDebug \<or> sl_type lease = LeaseTypeFileTransfer"

definition expireLocked :: "string \<Rightarrow> session_lease \<Rightarrow> coordinator \<Rightarrow> (coordinator \<times> session_lease \<times> bool) option" where
  "expireLocked sid lease c =
     (let abort = lease_aborts sid lease c;
          c1 = c\<lparr>lc_leases := (lc_leases c)(sid := None), lc_timers := (lc_timers c)(sid := None),
                 lc_recovering := (if abort then (lc_recovering c)(sid \<mapsto> lease) else lc_recovering c)\<rparr>
      in case lc_fileTransfers c1 sid of
           None \<Rightarrow> Some (c1, lease, abort)
         | Some ct \<Rightarrow>
             (case close_control ((stopConfirmationTimer ct)
                      \<lparr>fc_state := CtlExpired, fc_resolution := Some (resolution_of ''expired'' ct)\<rparr>) of
                None \<Rightarrow> None
              | Some _ \<Rightarrow> Some (c1\<lparr>lc_fileTransfers := (lc_fileTransfers c1)(sid := None)\<rparr>, lease, abort)))"

text \<open>The timer callback \<open>expire\<close>; the last component is what \<open>onExpired\<close> gets.\<close>

definition lc_expire :: "time \<Rightarrow> string \<Rightarrow> string \<Rightarrow> time \<Rightarrow> coordinator \<Rightarrow>
    (coordinator \<times> (session_lease \<times> bool) option) option" where
  "lc_expire now sid owner expiresAt c =
     (case lc_leases c sid of
        None \<Rightarrow> Some (c, None)
      | Some lease \<Rightarrow>
          if sl_owner lease \<noteq> owner \<or> sl_expires lease \<noteq> expiresAt \<or> now < sl_expires lease then Some (c, None)
          else (case expireLocked sid lease c of
                  None \<Rightarrow> None
                | Some (c', expired, abort) \<Rightarrow> Some (c', Some (expired, abort))))"

section \<open>Acquire, renew, release, status\<close>

type_synonym 'a lc_result = "(coordinator \<times> (goerr + 'a) \<times> (session_lease \<times> bool) option) option"

text \<open>The second half of \<open>acquireReferenced\<close>, with the clock reading \<open>now\<close>.\<close>

definition lc_grant :: "time \<Rightarrow> string \<Rightarrow> string \<Rightarrow> lease_type \<Rightarrow> string \<Rightarrow> coordinator \<Rightarrow> coordinator \<times> session_lease" where
  "lc_grant now sid owner typ reference c =
     (let transfer = (typ = LeaseTypeFileTransfer);
          c1 = (if transfer then c\<lparr>lc_nextTransferID := Suc (lc_nextTransferID c)\<rparr> else c);
          lease = \<lparr>sl_session = sid, sl_owner = owner, sl_type = typ,
                   sl_transfer = (if transfer then ''FT-'' @ format_nat (lc_nextTransferID c1) else []),
                   sl_created = now, sl_expires = now + lc_ttl c, sl_state = ''active'', sl_reference = reference\<rparr>;
          c2 = scheduleExpiryLocked lease (c1\<lparr>lc_leases := (lc_leases c1)(sid \<mapsto> lease)\<rparr>);
          c3 = (if transfer
                then c2\<lparr>lc_fileTransfers := (lc_fileTransfers c2)(sid \<mapsto> new_control (lc_nextControl c2)),
                        lc_nextControl := Suc (lc_nextControl c2)\<rparr>
                else c2)
      in (c3, lease))"

definition acquireReferenced :: "time \<Rightarrow> time \<Rightarrow> string \<Rightarrow> string \<Rightarrow> lease_type \<Rightarrow> string \<Rightarrow> coordinator \<Rightarrow>
    session_lease lc_result" where
  "acquireReferenced now1 now2 sid owner0 typ reference c =
     (let owner = trim_space owner0 in
      if owner = [] then Some (c, Inl ErrInvalidLeaseOwner, None)
      else if \<not> LeaseType_Valid typ then Some (c, Inl (ErrWrap ErrInvalidLeaseType (lease_type_name typ)), None)
      else case lc_recovering c sid of
          Some _ \<Rightarrow> Some (c, Inl (closing_error sid), None)
        | None \<Rightarrow>
            (case lc_leases c sid of
               None \<Rightarrow> (case lc_grant now2 sid owner typ reference c of (c', lease) \<Rightarrow> Some (c', Inr lease, None))
             | Some active \<Rightarrow>
                 if now1 < sl_expires active then Some (c, Inl (busy_error sid active), None)
                 else (case expireLocked sid active c of
                         None \<Rightarrow> None
                       | Some (c1, expired, abort) \<Rightarrow>
                           if abort then Some (c1, Inl ErrSessionBusy, Some (expired, abort))
                           else (case lc_grant now2 sid owner typ reference c1 of
                                   (c', lease) \<Rightarrow> Some (c', Inr lease, Some (expired, abort))))))"

definition lc_acquire :: "time \<Rightarrow> time \<Rightarrow> string \<Rightarrow> string \<Rightarrow> lease_type \<Rightarrow> coordinator \<Rightarrow> session_lease lc_result" where
  "lc_acquire now1 now2 sid owner typ c = acquireReferenced now1 now2 sid owner typ [] c"

definition lc_renew :: "time \<Rightarrow> time \<Rightarrow> string \<Rightarrow> string \<Rightarrow> coordinator \<Rightarrow> session_lease lc_result" where
  "lc_renew now1 now2 sid owner0 c =
     (let owner = trim_space owner0 in
      case lc_leases c sid of
        None \<Rightarrow> Some (c, Inl ErrLeaseNotOwned, None)
      | Some lease \<Rightarrow>
          if sl_owner lease \<noteq> owner then Some (c, Inl ErrLeaseNotOwned, None)
          else if \<not> now1 < sl_expires lease
          then (case expireLocked sid lease c of
                  None \<Rightarrow> None
                | Some (c1, expired, abort) \<Rightarrow> Some (c1, Inl ErrLeaseNotOwned, Some (expired, abort)))
          else
            let lease' = lease\<lparr>sl_expires := now2 + lc_ttl c\<rparr>
            in Some (scheduleExpiryLocked lease' (c\<lparr>lc_leases := (lc_leases c)(sid \<mapsto> lease')\<rparr>), Inr lease', None))"

text \<open>
  \<open>release\<close>: the answer is the released lease, if any, and the resolution of a
  confirmed cancellation.
\<close>

definition lc_release :: "time \<Rightarrow> string \<Rightarrow> string \<Rightarrow> coordinator \<Rightarrow>
    (session_lease option \<times> cancel_resolution option) lc_result" where
  "lc_release now sid owner c =
     (case lc_leases c sid of
        None \<Rightarrow> Some (c, Inr (None, None), None)
      | Some active \<Rightarrow>
          if sl_owner active \<noteq> owner then Some (c, Inl ErrLeaseNotOwned, None)
          else if sl_type active = LeaseTypeFileTransfer \<and> \<not> now < sl_expires active
          then (case expireLocked sid active c of
                  None \<Rightarrow> None
                | Some (c1, expired, abort) \<Rightarrow> Some (c1, Inl ErrLeaseNotOwned, Some (expired, abort)))
          else
            let c1 = stopExpiryLocked sid c;
                c2 = c1\<lparr>lc_leases := (lc_leases c1)(sid := None)\<rparr>
            in case lc_fileTransfers c2 sid of
                 None \<Rightarrow> Some (c2, Inr (Some active, None), None)
               | Some ct0 \<Rightarrow>
                   let ct = stopConfirmationTimer ct0;
                       ct1 = (case fc_state ct of
                                CtlCancelled \<Rightarrow> ct\<lparr>fc_resolution := Some (resolution_of ''cancelled'' ct)\<rparr>
                              | CtlConfirming \<Rightarrow> ct\<lparr>fc_state := CtlCompleted,
                                                   fc_resolution := Some (resolution_of ''completed'' ct)\<rparr>
                              | _ \<Rightarrow> ct);
                       cancelled = (if fc_state ct = CtlCancelled then fc_resolution ct1 else None)
                   in case close_control ct1 of
                        None \<Rightarrow> None
                      | Some ct2 \<Rightarrow>
                          Some (c2\<lparr>lc_fileTransfers := (lc_fileTransfers c2)
                                     (sid := if fc_state ct2 = CtlCompleted then Some ct2 else None)\<rparr>,
                                Inr (Some active, cancelled), None))"

definition lc_status :: "time \<Rightarrow> string \<Rightarrow> coordinator \<Rightarrow>
    (coordinator \<times> session_lease option \<times> (session_lease \<times> bool) option) option" where
  "lc_status now sid c =
     (case lc_leases c sid of
        None \<Rightarrow> Some (c, None, None)
      | Some lease \<Rightarrow>
          if \<not> now < sl_expires lease
          then (case expireLocked sid lease c of
                  None \<Rightarrow> None
                | Some (c1, expired, abort) \<Rightarrow> Some (c1, None, Some (expired, abort)))
          else Some (c, Some lease, None))"

section \<open>Write admission\<close>

text \<open>
  \<open>write\<close> up to its operation: refused with an error, admitted as an ordinary
  write, or admitted as the lease owner's write (counted until \<open>lc_writeEnd\<close>).
\<close>

datatype admission = Refuse goerr | AdmitPlain | AdmitOwned

definition lc_writeBegin :: "time \<Rightarrow> string \<Rightarrow> string \<Rightarrow> string \<Rightarrow> coordinator \<Rightarrow>
    (coordinator \<times> admission \<times> (session_lease \<times> bool) option) option" where
  "lc_writeBegin now sid owner displayID c =
     (let requireLease = (trim_space owner \<noteq> []) in
      case lc_recovering c sid of
        Some _ \<Rightarrow> Some (c, Refuse (if requireLease then ErrLeaseNotOwned else closing_error displayID), None)
      | None \<Rightarrow>
          (case lc_leases c sid of
             None \<Rightarrow> Some (c, if requireLease then Refuse ErrLeaseNotOwned else AdmitPlain, None)
           | Some lease \<Rightarrow>
               if \<not> now < sl_expires lease
               then (case expireLocked sid lease c of
                       None \<Rightarrow> None
                     | Some (c1, expired, abort) \<Rightarrow>
                         Some (c1,
                           if requireLease then Refuse ErrLeaseNotOwned
                           else if abort then Refuse ErrSessionBusy else AdmitPlain,
                           Some (expired, abort)))
               else if requireLease
               then (if sl_owner lease \<noteq> owner then Some (c, Refuse ErrLeaseNotOwned, None)
                     else Some (c\<lparr>lc_activeWrites := (lc_activeWrites c)(sid := Suc (lc_activeWrites c sid))\<rparr>,
                                AdmitOwned, None))
               else Some (c, Refuse (busy_error displayID lease), None)))"

definition lc_writeEnd :: "string \<Rightarrow> coordinator \<Rightarrow> coordinator" where
  "lc_writeEnd sid c = c\<lparr>lc_activeWrites := (lc_activeWrites c)(sid := lc_activeWrites c sid - 1)\<rparr>"

section \<open>Cancellation prompts\<close>

text \<open>The clock is read for the lease, for the control and for the new deadline.\<close>

definition beginFileTransferCancel :: "time \<Rightarrow> time \<Rightarrow> time \<Rightarrow> string \<Rightarrow> coordinator \<Rightarrow>
    coordinator \<times> (goerr + cancel_request)" where
  "beginFileTransferCancel now1 now2 now3 sid c =
     (case lc_leases c sid of
        None \<Rightarrow> (c, Inr \<lparr>cq_active = False, cq_id = [], cq_state = ''inactive''\<rparr>)
      | Some lease \<Rightarrow>
          if sl_type lease \<noteq> LeaseTypeFileTransfer
          then (c, Inr \<lparr>cq_active = False, cq_id = [], cq_state = ''inactive''\<rparr>)
          else if \<not> now1 < sl_expires lease then (c, Inl ErrLeaseNotOwned)
          else (case lc_fileTransfers c sid of
                  None \<Rightarrow> (c, Inl (ErrText ''active file-transfer lease has no control state''))
                | Some ct0 \<Rightarrow>
                    let ct = expireConfirmation now2 ct0;
                        c1 = c\<lparr>lc_fileTransfers := (lc_fileTransfers c)(sid \<mapsto> ct)\<rparr>
                    in if fc_state ct \<noteq> CtlRunning then (c1, Inl ErrFileTransferCancelPending)
                       else
                         let n = Suc (lc_nextCancelRequest c1);
                             rid = ''file-transfer-cancel-'' @ format_nat n;
                             ct1 = ct\<lparr>fc_request := rid, fc_state := CtlConfirming,
                                      fc_deadline := now3 + FileTransferCancelConfirmationTimeout, fc_timer := True\<rparr>
                         in (c1\<lparr>lc_nextCancelRequest := n, lc_fileTransfers := (lc_fileTransfers c1)(sid \<mapsto> ct1)\<rparr>,
                             Inr \<lparr>cq_active = True, cq_id = rid, cq_state = ''confirming''\<rparr>)))"

text \<open>The prompt timer's callback for the control object \<open>ident\<close> and its request.\<close>

definition expireFileTransferConfirmation :: "time \<Rightarrow> time \<Rightarrow> time \<Rightarrow> string \<Rightarrow> nat \<Rightarrow> string \<Rightarrow> coordinator \<Rightarrow>
    (coordinator \<times> (session_lease \<times> bool) option) option" where
  "expireFileTransferConfirmation now1 now2 now3 sid ident rid c =
     (case lc_fileTransfers c sid of
        None \<Rightarrow> Some (c, None)
      | Some ct \<Rightarrow>
          if fc_ident ct \<noteq> ident \<or> fc_request ct \<noteq> rid \<or> fc_state ct \<noteq> CtlConfirming \<or> now1 < fc_deadline ct
          then Some (c, None)
          else (case lc_leases c sid of
                  None \<Rightarrow> Some (c, None)
                | Some lease \<Rightarrow>
                    if \<not> now2 < sl_expires lease
                    then (case expireLocked sid lease c of
                            None \<Rightarrow> None
                          | Some (c1, expired, abort) \<Rightarrow> Some (c1, Some (expired, abort)))
                    else Some (c\<lparr>lc_fileTransfers := (lc_fileTransfers c)(sid \<mapsto> expireConfirmation now3 ct)\<rparr>, None)))"

text \<open>
  \<open>resolveFileTransferCancel\<close> up to its wait: an answer, or the released channel
  of the cancelled control \<open>ident\<close> to wait for.
\<close>

datatype resolve_answer = ResolveDone "goerr + cancel_resolution" | ResolveWait nat

definition resolveFileTransferCancel :: "time \<Rightarrow> time \<Rightarrow> time \<Rightarrow> string \<Rightarrow> string \<Rightarrow> bool \<Rightarrow> coordinator \<Rightarrow>
    coordinator \<times> resolve_answer" where
  "resolveFileTransferCancel now1 now2 now3 sid rid cancel c =
     (case lc_fileTransfers c sid of
        None \<Rightarrow> (c, ResolveDone (Inl ErrFileTransferCancelRequest))
      | Some ct0 \<Rightarrow>
          if fc_state ct0 = CtlCompleted \<and> fc_request ct0 = rid
          then (c\<lparr>lc_fileTransfers := (lc_fileTransfers c)(sid := None)\<rparr>,
                ResolveDone (Inr (case fc_resolution ct0 of Some r \<Rightarrow> r | None \<Rightarrow> resolution_of [] (new_control 0))))
          else
            let live = (\<lambda>now. case lc_leases c sid of None \<Rightarrow> False | Some lease \<Rightarrow> now < sl_expires lease);
                ct = (if live now1 then expireConfirmation now2 ct0 else ct0);
                c1 = c\<lparr>lc_fileTransfers := (lc_fileTransfers c)(sid \<mapsto> ct)\<rparr>
            in if fc_state ct \<noteq> CtlConfirming \<or> fc_request ct \<noteq> rid
               then (c1, ResolveDone (Inl ErrFileTransferCancelRequest))
               else if \<not> live now3 then (c1, ResolveDone (Inl ErrLeaseNotOwned))
               else
                 let ct1 = (stopConfirmationTimer ct)\<lparr>fc_changed := Suc (fc_changed ct)\<rparr>
                 in if \<not> cancel
                    then (c1\<lparr>lc_fileTransfers := (lc_fileTransfers c1)
                               (sid \<mapsto> ct1\<lparr>fc_state := CtlRunning, fc_request := []\<rparr>)\<rparr>,
                          ResolveDone (Inr (resolution_of ''resumed'' ct1)))
                    else (c1\<lparr>lc_fileTransfers := (lc_fileTransfers c1)(sid \<mapsto> ct1\<lparr>fc_state := CtlCancelled\<rparr>)\<rparr>,
                          ResolveWait (fc_ident ct1)))"

text \<open>One turn of the \<open>fileTransferCheckpoint\<close> loop; \<open>tid\<close> is the ID seen in an earlier turn.\<close>

datatype checkpoint_turn = CheckDone "goerr + control_action" | CheckWait string nat

definition fileTransferCheckpoint :: "time \<Rightarrow> time \<Rightarrow> string \<Rightarrow> string \<Rightarrow> string \<Rightarrow> coordinator \<Rightarrow>
    coordinator \<times> checkpoint_turn" where
  "fileTransferCheckpoint now1 now2 tid sid owner c =
     (case lc_leases c sid of
        None \<Rightarrow> (c, CheckDone (Inl ErrLeaseNotOwned))
      | Some lease \<Rightarrow>
          if sl_owner lease \<noteq> owner \<or> sl_type lease \<noteq> LeaseTypeFileTransfer \<or> \<not> now1 < sl_expires lease
          then (c, CheckDone (Inl ErrLeaseNotOwned))
          else if tid \<noteq> [] \<and> sl_transfer lease \<noteq> tid then (c, CheckDone (Inl ErrLeaseNotOwned))
          else (case lc_fileTransfers c sid of
                  None \<Rightarrow> (c, CheckDone (Inr FileTransferContinue))
                | Some ct0 \<Rightarrow>
                    let ct = expireConfirmation now2 ct0;
                        c1 = c\<lparr>lc_fileTransfers := (lc_fileTransfers c)(sid \<mapsto> ct)\<rparr>
                    in if fc_state ct = CtlRunning then (c1, CheckDone (Inr FileTransferContinue))
                       else if fc_state ct = CtlCancelled then (c1, CheckDone (Inr FileTransferCancel))
                       else (c1, CheckWait (sl_transfer lease) (fc_changed ct))))"

section \<open>Progress reports\<close>

text \<open>Conversion of a \<open>float64\<close> to \<open>int64\<close>: towards zero.\<close>

definition go_trunc :: "rat \<Rightarrow> int" where
  "go_trunc r = (if r < 0 then - floor (- r) else floor r)"

fun fileTransferMetadataInt64 :: "metadata \<Rightarrow> string list \<Rightarrow> int" where
  "fileTransferMetadataInt64 m [] = 0"
| "fileTransferMetadataInt64 m (k # ks) =
     (case (case m of None \<Rightarrow> None | Some kvs \<Rightarrow> map_of kvs k) of
        Some (GInt i) \<Rightarrow> i
      | Some (GFloat r) \<Rightarrow> go_trunc r
      | _ \<Rightarrow> fileTransferMetadataInt64 m ks)"

definition fileTransferMetadataFloat64 :: "metadata \<Rightarrow> string \<Rightarrow> rat" where
  "fileTransferMetadataFloat64 m k =
     (case (case m of None \<Rightarrow> None | Some kvs \<Rightarrow> map_of kvs k) of
        Some (GFloat r) \<Rightarrow> r
      | Some (GInt i) \<Rightarrow> of_int i
      | _ \<Rightarrow> 0)"

definition recordFileTransferProgress :: "string \<Rightarrow> metadata \<Rightarrow> coordinator \<Rightarrow> coordinator" where
  "recordFileTransferProgress sid m c =
     (case lc_fileTransfers c sid of
        None \<Rightarrow> c
      | Some ct \<Rightarrow>
          c\<lparr>lc_fileTransfers := (lc_fileTransfers c)(sid \<mapsto>
              ct\<lparr>fc_transferred := fileTransferMetadataInt64 m [''sent'', ''received'', ''transferred''],
                 fc_total := fileTransferMetadataInt64 m [''total''],
                 fc_percent := fileTransferMetadataFloat64 m ''percent''\<rparr>)\<rparr>)"

definition validateFileTransferReporter :: "string \<Rightarrow> string \<Rightarrow> string \<Rightarrow> coordinator \<Rightarrow> goerr option" where
  "validateFileTransferReporter sid owner0 transfer0 c =
     (let owner = trim_space owner0; transfer = trim_space transfer0 in
      case lc_leases c sid of
        None \<Rightarrow> Some ErrLeaseNotOwned
      | Some lease \<Rightarrow>
          if sl_type lease \<noteq> LeaseTypeFileTransfer \<or> sl_owner lease \<noteq> owner then Some ErrLeaseNotOwned
          else if transfer = [] \<or> sl_transfer lease \<noteq> transfer then Some ErrFileTransferIDMismatch
          else None)"

definition fileTransferCancelConfirmed :: "string \<Rightarrow> coordinator \<Rightarrow> bool" where
  "fileTransferCancelConfirmed sid c =
     (case lc_fileTransfers c sid of None \<Rightarrow> False | Some ct \<Rightarrow> fc_state ct = CtlCancelled)"

section \<open>Cleanup\<close>

definition removeRegistration :: "string \<Rightarrow> string \<Rightarrow> coordinator \<Rightarrow> coordinator option" where
  "removeRegistration sid reference c =
     (let foreign = (\<lambda>l. case l of None \<Rightarrow> False | Some lease \<Rightarrow> sl_reference lease \<noteq> reference) in
      if reference \<noteq> [] \<and> (foreign (lc_leases c sid) \<or> foreign (lc_recovering c sid)) then Some c
      else
        let c1 = (stopExpiryLocked sid c)
                   \<lparr>lc_leases := (lc_leases c)(sid := None),
                    lc_activeWrites := (lc_activeWrites c)(sid := 0),
                    lc_recovering := (lc_recovering c)(sid := None)\<rparr>
        in case lc_fileTransfers c1 sid of
             None \<Rightarrow> Some c1
           | Some ct \<Rightarrow>
               if fc_state ct \<noteq> CtlCompleted \<and> close_control (stopConfirmationTimer ct) = None then None
               else Some (c1\<lparr>lc_fileTransfers := (lc_fileTransfers c1)(sid := None)\<rparr>))"

definition lc_remove :: "string \<Rightarrow> coordinator \<Rightarrow> coordinator option" where
  "lc_remove sid c = removeRegistration sid [] c"

definition finishFileTransferExpiry :: "session_lease \<Rightarrow> coordinator \<Rightarrow> coordinator" where
  "finishFileTransferExpiry lease c =
     (case lc_recovering c (sl_session lease) of
        None \<Rightarrow> c
      | Some current \<Rightarrow>
          if sl_transfer current = sl_transfer lease
          then c\<lparr>lc_recovering := (lc_recovering c)(sl_session lease := None)\<rparr> else c)"

end
