(* ===== verification/Lease_Safety.thy ===== *)
theory Lease_Safety
  imports Lease
begin

text \<open>
  Safety of the lease coordinator: an invariant over every Session's entry that
  all operations keep, exclusivity of writers, the cancellation protocol, and the
  one reachable run-time panic.
\<close>

section \<open>The operations as one executable step\<close>

datatype lease_op =
    OpAcquire time time string string lease_type string
  | OpRenew time time string string
  | OpRelease time string string
  | OpStatus time string
  | OpWriteBegin time string string string
  | OpWriteEnd string
  | OpExpire time string string time
  | OpBeginCancel time time time string
  | OpPromptTimer time time time string nat string
  | OpResolve time time time string string bool
  | OpCheckpoint time time string string string
  | OpProgress string metadata
  | OpRemove string string
  | OpFinish session_lease

fun lc_exec :: "lease_op \<Rightarrow> coordinator \<Rightarrow> coordinator option" where
  "lc_exec (OpAcquire n1 n2 sid owner typ ref) c = map_option fst (acquireReferenced n1 n2 sid owner typ ref c)"
| "lc_exec (OpRenew n1 n2 sid owner) c = map_option fst (lc_renew n1 n2 sid owner c)"
| "lc_exec (OpRelease now sid owner) c = map_option fst (lc_release now sid owner c)"
| "lc_exec (OpStatus now sid) c = map_option fst (lc_status now sid c)"
| "lc_exec (OpWriteBegin now sid owner disp) c = map_option fst (lc_writeBegin now sid owner disp c)"
| "lc_exec (OpWriteEnd sid) c = Some (lc_writeEnd sid c)"
| "lc_exec (OpExpire now sid owner due) c = map_option fst (lc_expire now sid owner due c)"
| "lc_exec (OpBeginCancel n1 n2 n3 sid) c = Some (fst (beginFileTransferCancel n1 n2 n3 sid c))"
| "lc_exec (OpPromptTimer n1 n2 n3 sid ident rid) c = map_option fst (expireFileTransferConfirmation n1 n2 n3 sid ident rid c)"
| "lc_exec (OpResolve n1 n2 n3 sid rid cancel) c = Some (fst (resolveFileTransferCancel n1 n2 n3 sid rid cancel c))"
| "lc_exec (OpCheckpoint n1 n2 tid sid owner) c = Some (fst (fileTransferCheckpoint n1 n2 tid sid owner c))"
| "lc_exec (OpProgress sid m) c = Some (recordFileTransferProgress sid m c)"
| "lc_exec (OpRemove sid ref) c = removeRegistration sid ref c"
| "lc_exec (OpFinish lease) c = Some (finishFileTransferExpiry lease c)"

fun lc_run :: "lease_op list \<Rightarrow> coordinator \<Rightarrow> coordinator option" where
  "lc_run [] c = Some c"
| "lc_run (op # ops) c = (case lc_exec op c of None \<Rightarrow> None | Some c' \<Rightarrow> lc_run ops c')"

section \<open>The invariant\<close>

definition control_live :: "file_control \<Rightarrow> bool" where
  "control_live ct \<longleftrightarrow> fc_state ct \<in> {CtlRunning, CtlConfirming, CtlCancelled} \<and>
     \<not> fc_releasedClosed ct \<and> \<not> fc_changedClosed ct"

definition control_spent :: "file_control \<Rightarrow> bool" where
  "control_spent ct \<longleftrightarrow> fc_state ct = CtlCompleted \<and> fc_releasedClosed ct"

text \<open>
  One Session's entry: \<open>l\<close> its lease, \<open>t\<close> its armed timer, \<open>f\<close> its control object
  and \<open>r\<close> its recovering mark, under the counters for transfers and controls.
\<close>

definition lease_shape :: "string \<Rightarrow> session_lease option \<Rightarrow> file_control option \<Rightarrow> session_lease option \<Rightarrow> bool" where
  "lease_shape sid l f r \<longleftrightarrow>
     (case l of
        None \<Rightarrow> (\<forall>ct. f = Some ct \<longrightarrow> control_spent ct)
      | Some lease \<Rightarrow> r = None \<and> sl_session lease = sid \<and> LeaseType_Valid (sl_type lease) \<and> sl_owner lease \<noteq> [] \<and>
          (if sl_type lease = LeaseTypeFileTransfer then (\<exists>ct. f = Some ct \<and> control_live ct)
           else sl_transfer lease = [] \<and> (\<forall>ct. f = Some ct \<longrightarrow> control_spent ct)))"

definition transfer_ok :: "nat \<Rightarrow> session_lease option \<Rightarrow> bool" where
  "transfer_ok nt l \<longleftrightarrow>
     (\<forall>lease. l = Some lease \<longrightarrow> sl_type lease = LeaseTypeFileTransfer \<longrightarrow>
        (\<exists>n. 0 < n \<and> n \<le> nt \<and> sl_transfer lease = ''FT-'' @ format_nat n))"

definition entry_ok :: "nat \<Rightarrow> nat \<Rightarrow> string \<Rightarrow> session_lease option \<Rightarrow> (string \<times> time) option \<Rightarrow>
    file_control option \<Rightarrow> session_lease option \<Rightarrow> bool" where
  "entry_ok nt nc sid l t f r \<longleftrightarrow>
     t = map_option (\<lambda>lease. (sl_owner lease, sl_expires lease)) l \<and> lease_shape sid l f r \<and> transfer_ok nt l \<and>
     (\<forall>ct. f = Some ct \<longrightarrow> fc_ident ct < nc) \<and> (\<forall>lease. r = Some lease \<longrightarrow> sl_session lease = sid)"

definition lc_inv :: "coordinator \<Rightarrow> bool" where
  "lc_inv c \<longleftrightarrow> (\<forall>sid. entry_ok (lc_nextTransferID c) (lc_nextControl c) sid (lc_leases c sid)
                  (lc_timers c sid) (lc_fileTransfers c sid) (lc_recovering c sid))"

lemma lc_invD:
  "lc_inv c \<Longrightarrow> entry_ok (lc_nextTransferID c) (lc_nextControl c) sid (lc_leases c sid)
                  (lc_timers c sid) (lc_fileTransfers c sid) (lc_recovering c sid)"
  by (simp add: lc_inv_def)

lemma transfer_ok_mono: "transfer_ok nt l \<Longrightarrow> nt \<le> nt' \<Longrightarrow> transfer_ok nt' l"
  unfolding transfer_ok_def using le_trans by blast

lemma entry_ok_mono:
  assumes "entry_ok nt nc sid l t f r" "nt \<le> nt'" "nc \<le> nc'"
  shows "entry_ok nt' nc' sid l t f r"
proof -
  have "\<forall>ct. f = Some ct \<longrightarrow> fc_ident ct < nc'"
    using assms(1,3) by (auto simp: entry_ok_def)
  then show ?thesis using assms transfer_ok_mono by (auto simp: entry_ok_def)
qed

text \<open>An operation that touches only \<open>sid\<close> keeps the invariant when it keeps that entry's part.\<close>

lemma lc_inv_local:
  assumes "lc_inv c" "lc_nextTransferID c \<le> lc_nextTransferID c'" "lc_nextControl c \<le> lc_nextControl c'"
    and "\<And>x. x \<noteq> sid \<Longrightarrow> lc_leases c' x = lc_leases c x \<and> lc_timers c' x = lc_timers c x \<and>
          lc_fileTransfers c' x = lc_fileTransfers c x \<and> lc_recovering c' x = lc_recovering c x"
    and "entry_ok (lc_nextTransferID c') (lc_nextControl c') sid (lc_leases c' sid)
          (lc_timers c' sid) (lc_fileTransfers c' sid) (lc_recovering c' sid)"
  shows "lc_inv c'"
  unfolding lc_inv_def
proof
  fix x
  show "entry_ok (lc_nextTransferID c') (lc_nextControl c') x (lc_leases c' x)
          (lc_timers c' x) (lc_fileTransfers c' x) (lc_recovering c' x)"
  proof (cases "x = sid")
    case True
    then show ?thesis using assms(5) by simp
  next
    case False
    then show ?thesis using entry_ok_mono [OF lc_invD [OF assms(1), of x] assms(2,3)] assms(4) by simp
  qed
qed

lemma lc_inv_new: "lc_inv (newLeaseCoordinatorWithTTL ttl)"
  by (simp add: lc_inv_def entry_ok_def lease_shape_def transfer_ok_def newLeaseCoordinatorWithTTL_def)

lemma control_live_close: "control_live ct \<Longrightarrow> close_control ct \<noteq> None"
  by (simp add: control_live_def close_control_def)

lemma expireConfirmation_live [simp]:
  "fc_ident (expireConfirmation now ct) = fc_ident ct"
  "control_live ct \<Longrightarrow> control_live (expireConfirmation now ct)"
  "control_spent (expireConfirmation now ct) = control_spent ct"
  by (auto simp: expireConfirmation_def control_live_def control_spent_def stopConfirmationTimer_def)

section \<open>Preservation\<close>

text \<open>Replacing the control object of a Session by one of the same standing.\<close>

lemma lc_inv_control:
  assumes "lc_inv c" "lc_fileTransfers c sid = Some ct" "fc_ident ct' = fc_ident ct"
    and "control_live ct \<Longrightarrow> control_live ct'" "control_spent ct \<Longrightarrow> control_spent ct'"
  shows "lc_inv (c\<lparr>lc_fileTransfers := (lc_fileTransfers c)(sid \<mapsto> ct')\<rparr>)"
proof (rule lc_inv_local [OF assms(1), where sid = sid])
  show "entry_ok (lc_nextTransferID (c\<lparr>lc_fileTransfers := (lc_fileTransfers c)(sid \<mapsto> ct')\<rparr>))
     (lc_nextControl (c\<lparr>lc_fileTransfers := (lc_fileTransfers c)(sid \<mapsto> ct')\<rparr>)) sid
     (lc_leases (c\<lparr>lc_fileTransfers := (lc_fileTransfers c)(sid \<mapsto> ct')\<rparr>) sid)
     (lc_timers (c\<lparr>lc_fileTransfers := (lc_fileTransfers c)(sid \<mapsto> ct')\<rparr>) sid)
     (lc_fileTransfers (c\<lparr>lc_fileTransfers := (lc_fileTransfers c)(sid \<mapsto> ct')\<rparr>) sid)
     (lc_recovering (c\<lparr>lc_fileTransfers := (lc_fileTransfers c)(sid \<mapsto> ct')\<rparr>) sid)"
    using lc_invD [OF assms(1), of sid] assms(2-5)
    by (cases "lc_leases c sid") (simp_all add: entry_ok_def lease_shape_def split: if_splits)
qed auto

lemma expireLocked_inv:
  assumes "lc_inv c" "lc_leases c sid = Some lease" "expireLocked sid lease c = Some (c', lease', abort)"
  shows "lc_inv c'" and "lease' = lease" and "abort = lease_aborts sid lease c"
    and "lc_leases c' sid = None" and "lc_fileTransfers c' sid = None"
    and "lc_recovering c' sid = (if abort then Some lease else None)"
    and "lc_nextControl c' = lc_nextControl c" and "lc_ttl c' = lc_ttl c"
    and "\<And>x. x \<noteq> sid \<Longrightarrow> lc_leases c' x = lc_leases c x \<and> lc_fileTransfers c' x = lc_fileTransfers c x \<and>
          lc_recovering c' x = lc_recovering c x"
proof -
  have e: "entry_ok (lc_nextTransferID c) (lc_nextControl c) sid (Some lease) (lc_timers c sid)
       (lc_fileTransfers c sid) (lc_recovering c sid)"
    using lc_invD [OF assms(1), of sid] assms(2) by simp
  have c': "lc_leases c' = (lc_leases c)(sid := None)" "lc_timers c' = (lc_timers c)(sid := None)"
     "lc_recovering c' = (if abort then (lc_recovering c)(sid \<mapsto> lease) else lc_recovering c)"
     "lc_fileTransfers c' = (lc_fileTransfers c)(sid := None)" "lease' = lease"
     "abort = lease_aborts sid lease c" "lc_nextTransferID c' = lc_nextTransferID c"
     "lc_nextControl c' = lc_nextControl c" "lc_ttl c' = lc_ttl c"
    using assms(3) by (cases "lc_fileTransfers c sid"; force simp: expireLocked_def Let_def split: option.splits)+
  show "lc_inv c'"
    by (rule lc_inv_local [OF assms(1), where sid = sid]) (use c' e in \<open>simp_all add: entry_ok_def lease_shape_def transfer_ok_def\<close>)
  show "lease' = lease" "abort = lease_aborts sid lease c" "lc_leases c' sid = None"
    "lc_fileTransfers c' sid = None" "lc_nextControl c' = lc_nextControl c" "lc_ttl c' = lc_ttl c"
    using c' by auto
  show "lc_recovering c' sid = (if abort then Some lease else None)" using c' e by (simp add: entry_ok_def lease_shape_def)
  show "lc_leases c' x = lc_leases c x \<and> lc_fileTransfers c' x = lc_fileTransfers c x \<and>
          lc_recovering c' x = lc_recovering c x" if "x \<noteq> sid" for x
    using that c' by auto
qed

lemma lc_grant_inv:
  assumes "lc_inv c" "lc_recovering c sid = None" "LeaseType_Valid typ" "owner \<noteq> []"
    and "typ = LeaseTypeFileTransfer \<or> (\<forall>ct. lc_fileTransfers c sid = Some ct \<longrightarrow> control_spent ct)"
  shows "lc_inv (fst (lc_grant now sid owner typ ref c))"
proof (rule lc_inv_local [OF assms(1), where sid = sid])
  have e: "\<forall>ct. lc_fileTransfers c sid = Some ct \<longrightarrow> fc_ident ct < lc_nextControl c"
    using lc_invD [OF assms(1), of sid] by (simp add: entry_ok_def)
  show "entry_ok (lc_nextTransferID (fst (lc_grant now sid owner typ ref c)))
     (lc_nextControl (fst (lc_grant now sid owner typ ref c))) sid
     (lc_leases (fst (lc_grant now sid owner typ ref c)) sid) (lc_timers (fst (lc_grant now sid owner typ ref c)) sid)
     (lc_fileTransfers (fst (lc_grant now sid owner typ ref c)) sid)
     (lc_recovering (fst (lc_grant now sid owner typ ref c)) sid)"
    using assms(2-5) e
    by (auto simp: lc_grant_def scheduleExpiryLocked_def Let_def entry_ok_def lease_shape_def transfer_ok_def new_control_def control_live_def)
qed (auto simp: lc_grant_def scheduleExpiryLocked_def Let_def)


lemma acquire_inv:
  assumes "lc_inv c" "acquireReferenced n1 n2 sid owner typ ref c = Some (c', res, nt)"
  shows "lc_inv c'"
proof (cases "trim_space owner = [] \<or> \<not> LeaseType_Valid typ \<or> lc_recovering c sid \<noteq> None")
  case True
  then show ?thesis using assms by (auto simp: acquireReferenced_def Let_def split: option.splits if_splits)
next
  case False
  then have pre: "trim_space owner \<noteq> []" "LeaseType_Valid typ" "lc_recovering c sid = None" by auto
  show ?thesis
  proof (cases "lc_leases c sid")
    case None
    then have "\<forall>ct. lc_fileTransfers c sid = Some ct \<longrightarrow> control_spent ct"
      using lc_invD [OF assms(1), of sid] by (simp add: entry_ok_def lease_shape_def)
    from lc_grant_inv [OF assms(1) pre(3,2,1) disjI2 [OF this], of n2 ref] show ?thesis
      using assms(2) pre None by (auto simp: acquireReferenced_def Let_def split: prod.splits)
  next
    case (Some active)
    show ?thesis
    proof (cases "n1 < sl_expires active")
      case True
      then show ?thesis using assms pre Some by (simp add: acquireReferenced_def Let_def)
    next
      case False
      obtain c1 lease abort where x: "expireLocked sid active c = Some (c1, lease, abort)"
        using assms(2) pre Some False by (auto simp: acquireReferenced_def Let_def split: option.splits)
      note e = expireLocked_inv [OF assms(1) Some x]
      show ?thesis
      proof (cases abort)
        case True
        then show ?thesis using assms(2) pre Some False x e(1) by (simp add: acquireReferenced_def Let_def)
      next
        case nab: False
        have "\<forall>ct. lc_fileTransfers c1 sid = Some ct \<longrightarrow> control_spent ct" using e(5) by simp
        from lc_grant_inv [OF e(1) _ pre(2,1) disjI2 [OF this], of n2 ref] show ?thesis
          using assms(2) pre Some False x nab e(6)
          by (auto simp: acquireReferenced_def Let_def split: prod.splits)
      qed
    qed
  qed
qed

lemma renew_inv:
  assumes "lc_inv c" "lc_renew n1 n2 sid owner c = Some (c', res, nt)"
  shows "lc_inv c'"
proof (cases "\<exists>lease. lc_leases c sid = Some lease \<and> sl_owner lease = trim_space owner")
  case False
  then show ?thesis using assms by (auto simp: lc_renew_def Let_def split: option.splits)
next
  case True
  then obtain lease where l: "lc_leases c sid = Some lease" "sl_owner lease = trim_space owner" by blast
  show ?thesis
  proof (cases "n1 < sl_expires lease")
    case False
    then show ?thesis using assms l expireLocked_inv(1) [OF assms(1) l(1)]
      by (auto simp: lc_renew_def Let_def split: option.splits)
  next
    case True
    let ?l = "lease\<lparr>sl_expires := n2 + lc_ttl c\<rparr>"
    have c': "c' = scheduleExpiryLocked ?l (c\<lparr>lc_leases := (lc_leases c)(sid \<mapsto> ?l)\<rparr>)"
      using assms(2) l True by (simp add: lc_renew_def Let_def)
    have sid: "sl_session lease = sid" using lc_invD [OF assms(1), of sid] l by (simp add: entry_ok_def lease_shape_def)
    show ?thesis
      by (rule lc_inv_local [OF assms(1), where sid = sid])
         (use lc_invD [OF assms(1), of sid] l sid in
           \<open>simp_all add: c' scheduleExpiryLocked_def entry_ok_def lease_shape_def transfer_ok_def\<close>)
  qed
qed

lemma close_control_sel:
  "close_control ct = Some ct' \<Longrightarrow> ct' = ct\<lparr>fc_releasedClosed := True, fc_changedClosed := True\<rparr>"
  by (simp add: close_control_def split: if_splits)

lemma release_inv:
  assumes "lc_inv c" "lc_release now sid owner c = Some (c', res, nt)"
  shows "lc_inv c'"
proof (cases "\<exists>lease. lc_leases c sid = Some lease \<and> sl_owner lease = owner")
  case False
  then show ?thesis using assms by (auto simp: lc_release_def split: option.splits)
next
  case True
  then obtain lease where l: "lc_leases c sid = Some lease" "sl_owner lease = owner" by blast
  show ?thesis
  proof (cases "sl_type lease = LeaseTypeFileTransfer \<and> \<not> now < sl_expires lease")
    case True
    then show ?thesis using assms l expireLocked_inv(1) [OF assms(1) l(1)]
      by (auto simp: lc_release_def split: option.splits)
  next
    case False
    have ent: "entry_ok (lc_nextTransferID c) (lc_nextControl c) sid (Some lease)
       (lc_timers c sid) (lc_fileTransfers c sid) (lc_recovering c sid)"
      using lc_invD [OF assms(1), of sid] l(1) by simp
    have c': "lc_leases c' = (lc_leases c)(sid := None)" "lc_timers c' = (lc_timers c)(sid := None)"
      "lc_recovering c' = lc_recovering c" "lc_nextTransferID c' = lc_nextTransferID c"
      "lc_nextControl c' = lc_nextControl c"
      "\<And>x. x \<noteq> sid \<Longrightarrow> lc_fileTransfers c' x = lc_fileTransfers c x"
      "\<And>ct'. lc_fileTransfers c' sid = Some ct' \<Longrightarrow> control_spent ct' \<and>
          (\<exists>ct. lc_fileTransfers c sid = Some ct \<and> fc_ident ct = fc_ident ct')"
      using assms(2) l False
      by (auto simp: lc_release_def stopExpiryLocked_def stopConfirmationTimer_def control_spent_def Let_def
          split: option.splits control_state.splits if_splits dest!: close_control_sel)
    show ?thesis
      by (rule lc_inv_local [OF assms(1), where sid = sid])
         (use ent c' in \<open>auto simp: entry_ok_def lease_shape_def transfer_ok_def\<close>)
  qed
qed


lemma status_inv: "lc_inv c \<Longrightarrow> lc_status now sid c = Some (c', res, nt) \<Longrightarrow> lc_inv c'"
  by (auto simp: lc_status_def split: option.splits if_splits dest: expireLocked_inv(1))

lemma expire_inv: "lc_inv c \<Longrightarrow> lc_expire now sid owner due c = Some (c', nt) \<Longrightarrow> lc_inv c'"
  by (auto simp: lc_expire_def split: option.splits if_splits dest: expireLocked_inv(1))

lemma lc_inv_writes [simp]: "lc_inv (c\<lparr>lc_activeWrites := w\<rparr>) = lc_inv c"
  by (simp add: lc_inv_def)

lemma lc_inv_nextCancel [simp]: "lc_inv (c\<lparr>lc_nextCancelRequest := n, lc_fileTransfers := f\<rparr>) = lc_inv (c\<lparr>lc_fileTransfers := f\<rparr>)"
  by (simp add: lc_inv_def)

lemma writeBegin_inv: "lc_inv c \<Longrightarrow> lc_writeBegin now sid owner disp c = Some (c', adm, nt) \<Longrightarrow> lc_inv c'"
  by (auto simp: lc_writeBegin_def Let_def split: option.splits if_splits dest: expireLocked_inv(1))

lemma writeEnd_inv: "lc_inv c \<Longrightarrow> lc_inv (lc_writeEnd sid c)"
  by (simp add: lc_writeEnd_def)

lemma stop_live [simp]:
  "control_live (stopConfirmationTimer ct) = control_live ct" "control_spent (stopConfirmationTimer ct) = control_spent ct"
  "fc_ident (stopConfirmationTimer ct) = fc_ident ct" "fc_state (stopConfirmationTimer ct) = fc_state ct"
  "fc_request (stopConfirmationTimer ct) = fc_request ct" "fc_changed (stopConfirmationTimer ct) = fc_changed ct"
  by (simp_all add: stopConfirmationTimer_def control_live_def control_spent_def)

lemma expireConfirmation_confirming:
  "fc_state (expireConfirmation now ct) = CtlConfirming \<Longrightarrow> expireConfirmation now ct = ct"
  by (auto simp: expireConfirmation_def split: if_splits)

lemma control_spent_state: "control_spent ct \<Longrightarrow> fc_state ct = CtlCompleted"
  by (simp add: control_spent_def)

lemma beginCancel_inv:
  assumes "lc_inv c"
  shows "lc_inv (fst (beginFileTransferCancel n1 n2 n3 sid c))"
proof (cases "\<exists>lease ct. lc_leases c sid = Some lease \<and> sl_type lease = LeaseTypeFileTransfer \<and>
        n1 < sl_expires lease \<and> lc_fileTransfers c sid = Some ct")
  case False
  then show ?thesis using assms by (auto simp: beginFileTransferCancel_def split: option.splits)
next
  case True
  then obtain lease ct where l: "lc_leases c sid = Some lease" "sl_type lease = LeaseTypeFileTransfer"
    "n1 < sl_expires lease" "lc_fileTransfers c sid = Some ct" by blast
  let ?e = "expireConfirmation n2 ct"
  have live: "control_live ct" using lc_invD [OF assms, of sid] l by (simp add: entry_ok_def lease_shape_def)
  have i: "lc_inv (c\<lparr>lc_fileTransfers := (lc_fileTransfers c)(sid \<mapsto> ?e)\<rparr>)"
    by (rule lc_inv_control [OF assms l(4)]) auto
  have "control_live (?e\<lparr>fc_request := r, fc_state := CtlConfirming, fc_deadline := d, fc_timer := True\<rparr>)" for r d
    using expireConfirmation_live(2) [OF live, of n2] by (simp add: control_live_def)
  moreover have "\<not> control_spent ct" using live by (auto simp: control_live_def control_spent_def)
  ultimately have "lc_inv (c\<lparr>lc_fileTransfers := (lc_fileTransfers c)(sid \<mapsto>
      ?e\<lparr>fc_request := r, fc_state := CtlConfirming, fc_deadline := d, fc_timer := True\<rparr>)\<rparr>)" for r d
    by (intro lc_inv_control [OF assms l(4)]) auto
  then show ?thesis using i l by (simp add: beginFileTransferCancel_def Let_def)
qed

lemma promptTimer_inv:
  assumes "lc_inv c" "expireFileTransferConfirmation n1 n2 n3 sid ident rid c = Some (c', nt)"
  shows "lc_inv c'"
proof (cases "lc_fileTransfers c sid")
  case None
  then show ?thesis using assms by (simp add: expireFileTransferConfirmation_def)
next
  case (Some ct)
  have "lc_inv (c\<lparr>lc_fileTransfers := (lc_fileTransfers c)(sid \<mapsto> expireConfirmation n3 ct)\<rparr>)"
    by (rule lc_inv_control [OF assms(1) Some]) auto
  then show ?thesis using assms Some
    by (auto simp: expireFileTransferConfirmation_def split: option.splits if_splits dest: expireLocked_inv(1))
qed

lemma resolve_inv:
  assumes "lc_inv c"
  shows "lc_inv (fst (resolveFileTransferCancel n1 n2 n3 sid rid cancel c))"
proof (cases "lc_fileTransfers c sid")
  case None
  then show ?thesis using assms by (simp add: resolveFileTransferCancel_def)
next
  case (Some ct)
  define live where "live = (\<lambda>now. case lc_leases c sid of None \<Rightarrow> False | Some lease \<Rightarrow> now < sl_expires lease)"
  define ct1 where "ct1 = (if live n1 then expireConfirmation n2 ct else ct)"
  have ct1: "fc_ident ct1 = fc_ident ct" "control_live ct \<Longrightarrow> control_live ct1" "control_spent ct1 = control_spent ct"
    by (auto simp: ct1_def)
  have drop_completed: "lc_inv (c\<lparr>lc_fileTransfers := (lc_fileTransfers c)(sid := None)\<rparr>)" if "fc_state ct = CtlCompleted"
    by (rule lc_inv_local [OF assms, where sid = sid])
       (use lc_invD [OF assms, of sid] that Some in
         \<open>auto simp: entry_ok_def lease_shape_def control_live_def split: option.splits if_splits\<close>)
  have keep: "lc_inv (c\<lparr>lc_fileTransfers := (lc_fileTransfers c)(sid \<mapsto> ct1)\<rparr>)"
    by (rule lc_inv_control [OF assms Some]) (use ct1 in auto)
  have move: "lc_inv (c\<lparr>lc_fileTransfers := (lc_fileTransfers c)(sid \<mapsto> ct2)\<rparr>)"
    if "fc_state ct1 = CtlConfirming" "fc_ident ct2 = fc_ident ct" "control_live ct1 \<Longrightarrow> control_live ct2" for ct2
    by (rule lc_inv_control [OF assms Some]) (use that ct1 control_spent_state [of ct1] in auto)
  have m1: "lc_inv (c\<lparr>lc_fileTransfers := (lc_fileTransfers c)(sid \<mapsto>
        (stopConfirmationTimer ct1)\<lparr>fc_changed := n, fc_state := CtlRunning, fc_request := []\<rparr>)\<rparr>)"
     and m2: "lc_inv (c\<lparr>lc_fileTransfers := (lc_fileTransfers c)(sid \<mapsto>
        (stopConfirmationTimer ct1)\<lparr>fc_changed := n, fc_state := CtlCancelled\<rparr>)\<rparr>)"
    if "fc_state ct1 = CtlConfirming" for n
    by (rule move [OF that]; use ct1(1) in \<open>simp add: control_live_def stopConfirmationTimer_def\<close>)+
  show ?thesis
    using Some drop_completed keep m1 m2
    by (simp add: resolveFileTransferCancel_def Let_def live_def [symmetric] ct1_def [symmetric])
qed

lemma checkpoint_inv:
  assumes "lc_inv c"
  shows "lc_inv (fst (fileTransferCheckpoint n1 n2 tid sid owner c))"
proof (cases "lc_fileTransfers c sid")
  case None
  then show ?thesis using assms by (simp add: fileTransferCheckpoint_def split: option.splits)
next
  case (Some ct)
  have "lc_inv (c\<lparr>lc_fileTransfers := (lc_fileTransfers c)(sid \<mapsto> expireConfirmation n2 ct)\<rparr>)"
    by (rule lc_inv_control [OF assms Some]) auto
  then show ?thesis using assms Some by (simp add: fileTransferCheckpoint_def Let_def split: option.splits)
qed

lemma progress_inv:
  assumes "lc_inv c"
  shows "lc_inv (recordFileTransferProgress sid m c)"
proof (cases "lc_fileTransfers c sid")
  case (Some ct)
  have "lc_inv (c\<lparr>lc_fileTransfers := (lc_fileTransfers c)(sid \<mapsto>
      ct\<lparr>fc_transferred := x, fc_total := y, fc_percent := z\<rparr>)\<rparr>)" for x y z
    by (rule lc_inv_control [OF assms Some]) (auto simp: control_live_def control_spent_def)
  then show ?thesis using Some by (simp add: recordFileTransferProgress_def)
qed (simp add: recordFileTransferProgress_def assms)

lemma removeRegistration_cases:
  assumes "removeRegistration sid ref c = Some c'"
  shows "c' = c \<or> c' = (stopExpiryLocked sid c)
                   \<lparr>lc_leases := (lc_leases c)(sid := None), lc_activeWrites := (lc_activeWrites c)(sid := 0),
                    lc_recovering := (lc_recovering c)(sid := None),
                    lc_fileTransfers := (lc_fileTransfers c)(sid := None)\<rparr>"
proof -
  define foreign where "foreign = (\<lambda>l :: session_lease option. case l of None \<Rightarrow> False | Some lease \<Rightarrow> sl_reference lease \<noteq> ref)"
  define g where "g = (ref \<noteq> [] \<and> (foreign (lc_leases c sid) \<or> foreign (lc_recovering c sid)))"
  note d = assms [unfolded removeRegistration_def Let_def, folded foreign_def, folded g_def]
  show ?thesis
  proof (cases "lc_fileTransfers c sid")
    case None
    then have "(lc_fileTransfers c)(sid := None) = lc_fileTransfers c" by (simp add: fun_upd_idem)
    then show ?thesis using d None by (cases g) (auto simp: stopExpiryLocked_def)
  next
    case (Some ct)
    then show ?thesis using d by (cases g) (simp_all add: stopExpiryLocked_def split: if_splits)
  qed
qed

lemma remove_inv:
  assumes "lc_inv c" "removeRegistration sid ref c = Some c'"
  shows "lc_inv c'"
proof (cases "c' = c")
  case False
  then have c': "lc_leases c' = (lc_leases c)(sid := None)" "lc_timers c' = (lc_timers c)(sid := None)"
    "lc_recovering c' = (lc_recovering c)(sid := None)" "lc_fileTransfers c' = (lc_fileTransfers c)(sid := None)"
    "lc_nextTransferID c' = lc_nextTransferID c" "lc_nextControl c' = lc_nextControl c"
    using removeRegistration_cases [OF assms(2)] by (simp_all add: stopExpiryLocked_def)
  show ?thesis
    by (rule lc_inv_local [OF assms(1), where sid = sid])
       (simp_all add: c' entry_ok_def lease_shape_def transfer_ok_def)
qed (simp add: assms(1))

lemma clear_recovering_inv:
  assumes "lc_inv c"
  shows "lc_inv (c\<lparr>lc_recovering := (lc_recovering c)(sid := None)\<rparr>)"
proof -
  have "entry_ok (lc_nextTransferID c) (lc_nextControl c) sid (lc_leases c sid) (lc_timers c sid)
      (lc_fileTransfers c sid) None"
    using lc_invD [OF assms, of sid] unfolding entry_ok_def lease_shape_def
    by (cases "lc_leases c sid") simp_all
  then show ?thesis by (intro lc_inv_local [OF assms, where sid = sid]) simp_all
qed

lemma finish_inv: "lc_inv c \<Longrightarrow> lc_inv (finishFileTransferExpiry lease c)"
  using clear_recovering_inv [of c "sl_session lease"]
  by (simp add: finishFileTransferExpiry_def split: option.splits)

lemmas lc_op_invs = acquire_inv renew_inv release_inv status_inv writeBegin_inv expire_inv promptTimer_inv remove_inv

lemma lc_exec_inv: "lc_inv c \<Longrightarrow> lc_exec op c = Some c' \<Longrightarrow> lc_inv c'"
  by (cases op)
     (auto simp: writeEnd_inv beginCancel_inv resolve_inv checkpoint_inv progress_inv finish_inv dest: lc_op_invs)

lemma lc_run_inv: "lc_inv c \<Longrightarrow> lc_run ops c = Some c' \<Longrightarrow> lc_inv c'"
  by (induction ops arbitrary: c) (auto split: option.splits dest: lc_exec_inv)


section \<open>Properties\<close>

lemma expireLocked_sel:
  assumes "expireLocked x lease c = Some (c', lease', abort)"
  shows "lc_leases c' = (lc_leases c)(x := None)" "lc_timers c' = (lc_timers c)(x := None)"
     "lc_recovering c' = (if abort then (lc_recovering c)(x \<mapsto> lease) else lc_recovering c)"
     "lc_fileTransfers c' = (lc_fileTransfers c)(x := None)" "lease' = lease"
     "abort = lease_aborts x lease c" "lc_nextControl c' = lc_nextControl c" "lc_ttl c' = lc_ttl c"
  using assms by (cases "lc_fileTransfers c x"; force simp: expireLocked_def Let_def split: option.splits)+

text \<open>
  C6 Exclusive writers. A write is admitted only when the Session is not fenced
  by an expired lease, and while an unexpired lease exists only its owner's writes
  are: every other caller is refused, so two lease holders can never interleave
  bytes on one Session.
\<close>

theorem lc_write_exclusive:
  assumes "lc_writeBegin now sid owner disp c = Some (c', adm, nt)" "\<forall>e. adm \<noteq> Refuse e"
  shows "lc_recovering c sid = None \<and>
         (\<forall>lease. lc_leases c sid = Some lease \<and> now < sl_expires lease \<longrightarrow>
            adm = AdmitOwned \<and> sl_owner lease = owner) \<and>
         (adm = AdmitOwned \<longrightarrow> (\<exists>lease. lc_leases c sid = Some lease \<and> now < sl_expires lease \<and>
            sl_owner lease = owner \<and> 0 < lc_activeWrites c' sid))"
proof (cases "lc_recovering c sid")
  case (Some l)
  then show ?thesis using assms by (auto simp: lc_writeBegin_def Let_def)
next
  case None
  show ?thesis
  proof (cases "lc_leases c sid")
    case None
    then show ?thesis using assms \<open>lc_recovering c sid = None\<close>
      by (auto simp: lc_writeBegin_def Let_def split: if_splits)
  next
    case (Some lease)
    then show ?thesis using assms None
      by (cases "now < sl_expires lease") (auto simp: lc_writeBegin_def Let_def split: if_splits option.splits)
  qed
qed

definition leased :: "lease_type \<Rightarrow> coordinator" where
  "leased typ = fst (lc_grant 0 ''s'' ''A'' typ [] newLeaseCoordinator)"

lemma leased_sel [simp]:
  "lc_leases (leased typ) ''s'' = Some \<lparr>sl_session = ''s'', sl_owner = ''A'', sl_type = typ,
     sl_transfer = (if typ = LeaseTypeFileTransfer then ''FT-1'' else []), sl_created = 0,
     sl_expires = defaultLeaseTTL, sl_state = ''active'', sl_reference = []\<rparr>"
  "lc_recovering (leased typ) = Map.empty"
  "lc_activeWrites (leased typ) = (\<lambda>_. 0)"
  by (simp_all add: leased_def lc_grant_def newLeaseCoordinator_def newLeaseCoordinatorWithTTL_def
      scheduleExpiryLocked_def Let_def format_nat.simps digit_chars)

lemma trim_space_A: "trim_space ''A'' = ''A''"
  by (simp add: trim_space_def trim_left.simps trim_right.simps lead_space_def tail_space_def space_runes_def
      has_prefix_def has_suffix_def)

theorem lc_write_exclusive_witness:
  "\<exists>lease. lc_leases (leased LeaseTypeTerminal) ''s'' = Some lease \<and> sl_owner lease = ''A''"
proof -
  have w: "lc_writeBegin 5 ''s'' ''A'' ''s'' (leased LeaseTypeTerminal)
      = Some ((leased LeaseTypeTerminal)\<lparr>lc_activeWrites := (\<lambda>_. 0)(''s'' := 1)\<rparr>, AdmitOwned, None)"
    by (simp add: lc_writeBegin_def trim_space_A defaultLeaseTTL_def)
  from lc_write_exclusive [OF w] show ?thesis by auto
qed

text \<open>
  C7 Coordinator invariant: after any sequence of coordinator operations, in any
  order and with any clock readings, every lease has its expiry timer armed for
  its own owner and deadline and is not at the same time fenced as recovering; a
  file-transfer lease has a live control object and a transfer ID already drawn
  from the counter; other leases have neither a transfer ID nor a live control.
\<close>

theorem lc_run_wellformed:
  assumes "lc_run ops (newLeaseCoordinatorWithTTL ttl) = Some c" "lc_leases c sid = Some lease"
  shows "lc_timers c sid = Some (sl_owner lease, sl_expires lease) \<and> lc_recovering c sid = None \<and>
         sl_session lease = sid \<and> LeaseType_Valid (sl_type lease) \<and> sl_owner lease \<noteq> [] \<and>
         (sl_type lease = LeaseTypeFileTransfer \<longrightarrow>
            (\<exists>ct. lc_fileTransfers c sid = Some ct \<and> control_live ct) \<and>
            (\<exists>n. 0 < n \<and> n \<le> lc_nextTransferID c \<and> sl_transfer lease = ''FT-'' @ format_nat n)) \<and>
         (sl_type lease \<noteq> LeaseTypeFileTransfer \<longrightarrow> sl_transfer lease = [] \<and>
            (\<forall>ct. lc_fileTransfers c sid = Some ct \<longrightarrow> \<not> control_live ct))"
  using lc_invD [OF lc_run_inv [OF lc_inv_new assms(1)], of sid] assms(2)
  by (auto simp: entry_ok_def lease_shape_def transfer_ok_def control_live_def control_spent_def split: if_splits)

lemma acquire_terminal:
  "lc_run [OpAcquire 0 0 ''s'' ''A'' LeaseTypeTerminal []] (newLeaseCoordinatorWithTTL defaultLeaseTTL)
     = Some (leased LeaseTypeTerminal)"
  by (simp add: acquireReferenced_def trim_space_A newLeaseCoordinator_def newLeaseCoordinatorWithTTL_def
      leased_def Let_def split: prod.splits)

theorem lc_run_wellformed_witness:
  "lc_timers (leased LeaseTypeTerminal) ''s'' = Some (''A'', defaultLeaseTTL)"
  using lc_run_wellformed [OF acquire_terminal, of "''s''"] by simp

text \<open>What an operation does to the fence of a Session it does not clean up.\<close>

lemma expireLocked_recovering:
  assumes "lc_inv c" "lc_recovering c sid = Some l" "lc_leases c x = Some lease"
    "expireLocked x lease c = Some (c', lease', abort)"
  shows "lc_recovering c' sid = Some l"
proof -
  have "x \<noteq> sid" using lc_invD [OF assms(1), of sid] assms(2,3) by (auto simp: entry_ok_def lease_shape_def)
  then show ?thesis using expireLocked_inv(9) [OF assms(1,3,4), of sid] assms(2) by simp
qed

lemma lc_grant_recovering [simp]: "lc_recovering (fst (lc_grant now x owner typ ref c)) = lc_recovering c"
  by (simp add: lc_grant_def scheduleExpiryLocked_def Let_def)

lemma acquire_recovering:
  assumes "lc_inv c" "lc_recovering c sid = Some l" "acquireReferenced n1 n2 x owner typ ref c = Some (c', res, nt)"
  shows "lc_recovering c' sid = Some l"
  using assms(3) expireLocked_recovering [OF assms(1,2)] assms(2)
  by (auto simp: acquireReferenced_def Let_def split: option.splits if_splits prod.splits)
     (metis fst_conv lc_grant_recovering)+

lemma release_recovering:
  assumes "lc_inv c" "lc_recovering c sid = Some l" "lc_release now x owner c = Some (c', res, nt)"
  shows "lc_recovering c' sid = Some l"
  using assms(3) expireLocked_recovering [OF assms(1,2)] assms(2)
  by (auto simp: lc_release_def stopExpiryLocked_def Let_def split: option.splits if_splits)

lemma fence_kept:
  assumes "lc_inv c" "lc_recovering c sid = Some l" "lc_exec op c = Some c'"
    and "\<forall>ref. op \<noteq> OpRemove sid ref"
    and "\<forall>lease. op = OpFinish lease \<longrightarrow> sl_session lease \<noteq> sid \<or> sl_transfer lease \<noteq> sl_transfer l"
  shows "lc_recovering c' sid = Some l"
proof (cases op)
  case (OpAcquire n1 n2 x owner ty ref)
  then show ?thesis using assms(3) acquire_recovering [OF assms(1,2)] by auto
next
  case (OpRelease now x owner)
  then show ?thesis using assms(3) release_recovering [OF assms(1,2)] by auto
next
  case (OpRenew n1 n2 x owner)
  then show ?thesis using assms(2,3) expireLocked_recovering [OF assms(1,2)]
    by (auto simp: lc_renew_def scheduleExpiryLocked_def Let_def split: option.splits if_splits)
next
  case (OpStatus now x)
  then show ?thesis using assms(2,3) expireLocked_recovering [OF assms(1,2)]
    by (auto simp: lc_status_def split: option.splits if_splits)
next
  case (OpWriteBegin now x owner disp)
  then show ?thesis using assms(2,3) expireLocked_recovering [OF assms(1,2)]
    by (auto simp: lc_writeBegin_def Let_def split: option.splits if_splits)
next
  case (OpExpire now x owner due)
  then show ?thesis using assms(2,3) expireLocked_recovering [OF assms(1,2)]
    by (auto simp: lc_expire_def split: option.splits if_splits)
next
  case (OpPromptTimer n1 n2 n3 x ident rid)
  then show ?thesis using assms(2,3) expireLocked_recovering [OF assms(1,2)]
    by (auto simp: expireFileTransferConfirmation_def split: option.splits if_splits)
next
  case (OpRemove x ref)
  then show ?thesis using assms(2-4) removeRegistration_cases [of x ref c c'] by (auto simp: stopExpiryLocked_def)
next
  case (OpFinish lease)
  then show ?thesis using assms(2,3,5) by (auto simp: finishFileTransferExpiry_def split: option.splits if_splits)
qed (insert assms(2,3), auto simp: lc_writeEnd_def beginFileTransferCancel_def resolveFileTransferCancel_def
       fileTransferCheckpoint_def recordFileTransferProgress_def Let_def split: option.splits if_splits)

text \<open>What an operation does to a lease that only closing the Session can stop.\<close>

definition held_or_fenced :: "string \<Rightarrow> session_lease \<Rightarrow> coordinator \<Rightarrow> bool" where
  "held_or_fenced sid l c \<longleftrightarrow>
     (\<exists>t. lc_leases c sid = Some (l\<lparr>sl_expires := t\<rparr>)) \<or> lc_leases c sid = None \<and> lc_recovering c sid = Some l"

lemma held_same: "lc_leases c' sid = lc_leases c sid \<Longrightarrow> lc_leases c sid = Some l \<Longrightarrow> held_or_fenced sid l c'"
  unfolding held_or_fenced_def by (intro disjI1 exI [of _ "sl_expires l"]) simp

lemma held_expire:
  assumes "lc_leases c sid = Some l" "lease_aborts sid l c" "lc_leases c x = Some lease" "expireLocked x lease c = Some (c1, lease', abort)"
  shows "held_or_fenced sid l c1" "x = sid \<Longrightarrow> abort"
proof -
  note s = expireLocked_sel [OF assms(4)]
  show "x = sid \<Longrightarrow> abort" using s(6) assms(1-3) by simp
  show "held_or_fenced sid l c1"
  proof (cases "x = sid")
    case True
    then show ?thesis using s(1,3,6) assms(1-3) by (simp add: held_or_fenced_def)
  next
    case False
    then show ?thesis using s(1) assms(1) by (intro held_same [of c1 sid c]) simp_all
  qed
qed

lemma held_grant: "held_or_fenced sid l c \<Longrightarrow> x \<noteq> sid \<Longrightarrow> held_or_fenced sid l (fst (lc_grant now x owner typ ref c))"
  by (simp add: held_or_fenced_def lc_grant_def scheduleExpiryLocked_def Let_def)

lemma held_acquire:
  assumes "lc_leases c sid = Some l" "lease_aborts sid l c" "acquireReferenced n1 n2 x owner typ ref c = Some (c', res, nt)"
  shows "held_or_fenced sid l c'"
proof -
  note same = held_same [OF refl assms(1)] and exp = held_expire [OF assms(1,2)]
  show ?thesis
  proof (cases "lc_leases c x")
    case None
    then have x: "x \<noteq> sid" using assms(1) by auto
    have "c' = c \<or> c' = fst (lc_grant n2 x (trim_space owner) typ ref c)"
      using assms(3) None by (auto simp: acquireReferenced_def Let_def split: option.splits if_splits prod.splits)
    then show ?thesis using same held_grant [OF same x] by auto
  next
    case (Some lease)
    show ?thesis
    proof (cases "c' = c")
      case True
      then show ?thesis using same by simp
    next
      case False
      then obtain c1 lease' abort where e: "expireLocked x lease c = Some (c1, lease', abort)"
        and r: "c' = c1 \<or> \<not> abort \<and> c' = fst (lc_grant n2 x (trim_space owner) typ ref c1)"
        using assms(3) Some by (fastforce simp: acquireReferenced_def Let_def split: option.splits if_splits prod.splits)
      then show ?thesis using exp [OF Some e] held_grant [OF exp(1) [OF Some e]] by blast
    qed
  qed
qed

lemma held_release:
  assumes "lc_leases c sid = Some l" "lc_release now x owner c = Some (c', res, nt)" "x = sid \<Longrightarrow> owner \<noteq> sl_owner l"
  shows "lc_leases c' sid = Some l"
proof (cases "lc_leases c x")
  case None
  then show ?thesis using assms by (auto simp: lc_release_def)
next
  case (Some active)
  show ?thesis
  proof (cases "x = sid")
    case True
    then show ?thesis using assms Some by (auto simp: lc_release_def)
  next
    case False
    have "lc_leases c' sid = lc_leases c sid"
      using assms(2) Some False expireLocked_sel(1)
      by (auto simp: lc_release_def stopExpiryLocked_def Let_def split: option.splits if_splits)
    then show ?thesis using assms(1) by simp
  qed
qed

lemma held_exec:
  assumes L: "lc_leases c sid = Some l" and A: "lease_aborts sid l c" and ex: "lc_exec op c = Some c'"
    and rel: "\<forall>now. op \<noteq> OpRelease now sid (sl_owner l)" and rem: "\<forall>ref. op \<noteq> OpRemove sid ref"
  shows "held_or_fenced sid l c'"
proof -
  note same = held_same [OF refl L] and exp = held_expire [OF L A]
  show ?thesis
  proof (cases op)
    case (OpAcquire n1 n2 x owner ty ref)
    then show ?thesis using ex held_acquire [OF L A] by auto
  next
    case (OpRelease now x owner)
    then obtain res nt where r: "lc_release now x owner c = Some (c', res, nt)" using ex by auto
    have "x = sid \<Longrightarrow> owner \<noteq> sl_owner l" using OpRelease rel by blast
    from held_release [OF L r this] show ?thesis using held_same [of c' sid c l] L by simp
  next
    case (OpRenew n1 n2 x owner)
    show ?thesis
    proof (cases "c' = c")
      case True
      then show ?thesis using same by simp
    next
      case False
      then obtain lease where lease: "lc_leases c x = Some lease" and
        r: "(\<exists>a b. expireLocked x lease c = Some (c', a, b)) \<or>
            c' = scheduleExpiryLocked (lease\<lparr>sl_expires := n2 + lc_ttl c\<rparr>)
                   (c\<lparr>lc_leases := (lc_leases c)(x \<mapsto> lease\<lparr>sl_expires := n2 + lc_ttl c\<rparr>)\<rparr>)"
        using ex OpRenew by (auto simp: lc_renew_def Let_def split: option.splits if_splits)
      from r show ?thesis
      proof
        assume "\<exists>a b. expireLocked x lease c = Some (c', a, b)"
        then show ?thesis using exp(1) [OF lease] by blast
      next
        assume c': "c' = scheduleExpiryLocked (lease\<lparr>sl_expires := n2 + lc_ttl c\<rparr>)
                   (c\<lparr>lc_leases := (lc_leases c)(x \<mapsto> lease\<lparr>sl_expires := n2 + lc_ttl c\<rparr>)\<rparr>)"
        show ?thesis
        proof (cases "x = sid")
          case True
          then show ?thesis using L lease c' by (auto simp: held_or_fenced_def scheduleExpiryLocked_def)
        next
          case x: False
          then show ?thesis using c' L by (intro held_same [of c' sid c]) (simp_all add: scheduleExpiryLocked_def)
        qed
      qed
    qed
  next
    case (OpStatus now x)
    then show ?thesis using ex same exp(1) by (auto simp: lc_status_def split: option.splits if_splits)
  next
    case (OpWriteBegin now x owner disp)
    then have "c' = c \<or> lc_leases c' = lc_leases c \<or> (\<exists>lease a b. lc_leases c x = Some lease \<and> expireLocked x lease c = Some (c', a, b))"
      using ex by (auto simp: lc_writeBegin_def Let_def split: option.splits if_splits)
    then show ?thesis using same held_same [of c' sid c l] L exp(1) by (elim disjE exE conjE) auto
  next
    case (OpExpire now x owner due)
    then show ?thesis using ex same exp(1) by (auto simp: lc_expire_def split: option.splits if_splits)
  next
    case (OpPromptTimer n1 n2 n3 x ident rid)
    then have "lc_leases c' = lc_leases c \<or> (\<exists>lease a b. lc_leases c x = Some lease \<and> expireLocked x lease c = Some (c', a, b))"
      using ex by (auto simp: expireFileTransferConfirmation_def split: option.splits if_splits)
    then show ?thesis using held_same [of c' sid c l] L exp(1) by (elim disjE exE conjE) auto
  next
    case (OpRemove x ref)
    then have "lc_leases c' sid = lc_leases c sid"
      using ex rem removeRegistration_cases [of x ref c c'] by (auto simp: stopExpiryLocked_def)
    then show ?thesis using held_same L by metis
  next
    case (OpFinish lease)
    then have "lc_leases c' = lc_leases c" using ex by (auto simp: finishFileTransferExpiry_def split: option.splits if_splits)
    then show ?thesis using held_same L by metis
  next
    case (OpWriteEnd x)
    then have "lc_leases c' = lc_leases c" using ex by (auto simp: lc_writeEnd_def)
    then show ?thesis using held_same L by metis
  next
    case (OpBeginCancel n1 n2 n3 x)
    then have "lc_leases c' = lc_leases c" using ex by (auto simp: beginFileTransferCancel_def Let_def split: option.splits if_splits)
    then show ?thesis using held_same L by metis
  next
    case (OpResolve n1 n2 n3 x rid cancel)
    then have "lc_leases c' = lc_leases c" using ex by (auto simp: resolveFileTransferCancel_def Let_def split: option.splits if_splits)
    then show ?thesis using held_same L by metis
  next
    case (OpCheckpoint n1 n2 tid x owner)
    then have "lc_leases c' = lc_leases c" using ex by (auto simp: fileTransferCheckpoint_def Let_def split: option.splits if_splits)
    then show ?thesis using held_same L by metis
  next
    case (OpProgress x m)
    then have "lc_leases c' = lc_leases c" using ex by (auto simp: recordFileTransferProgress_def split: option.splits)
    then show ?thesis using held_same L by metis
  qed
qed

text \<open>The cleanups that lift the fence a lease left: of the registration, or of that very transfer.\<close>

fun lc_lifts :: "string \<Rightarrow> session_lease \<Rightarrow> lease_op \<Rightarrow> bool" where
  "lc_lifts sid l (OpRemove x ref) \<longleftrightarrow> x = sid"
| "lc_lifts sid l (OpFinish lease) \<longleftrightarrow> sl_session lease = sid \<and> sl_transfer lease = sl_transfer l"
| "lc_lifts sid l _ \<longleftrightarrow> False"

lemma fence_run:
  "lc_run ops c = Some c' \<Longrightarrow> lc_inv c \<Longrightarrow> lc_recovering c sid = Some l \<Longrightarrow> list_all (\<lambda>op. \<not> lc_lifts sid l op) ops \<Longrightarrow>
     lc_recovering c' sid = Some l"
proof (induction ops arbitrary: c)
  case (Cons op ops)
  then obtain c1 where c1: "lc_exec op c = Some c1" "lc_run ops c1 = Some c'" by (auto split: option.splits)
  have "\<not> lc_lifts sid l op" using Cons.prems(4) by simp
  then have "\<forall>ref. op \<noteq> OpRemove sid ref" "\<forall>lease. op = OpFinish lease \<longrightarrow> sl_session lease \<noteq> sid \<or> sl_transfer lease \<noteq> sl_transfer l"
    by auto
  from fence_kept [OF Cons.prems(2,3) c1(1) this] show ?case
    using Cons.IH [OF c1(2) lc_exec_inv [OF Cons.prems(2) c1(1)]] Cons.prems(4) by simp
qed simp

text \<open>
  C8 The recovery fence. Take a lease whose holder only closing the Session can stop: one with a write in flight, a debug
  lease or a file transfer. Whatever operation then takes the lease away without its owner releasing it and without a cleanup of the registration (its
  timer, an acquisition by somebody else, a renewal or a write that comes too late, a status query, a prompt's timer), the Session is
  fenced from that moment: no new lease takes its place, and after any further operations short of the cleanup of that registration or of that
  very transfer, every acquisition and every write is refused without changing anything.
\<close>

theorem lc_recovery_fence:
  assumes "lc_run ops (newLeaseCoordinatorWithTTL ttl) = Some c" "lc_leases c sid = Some l"
    and "0 < lc_activeWrites c sid \<or> sl_type l = LeaseTypeDebug \<or> sl_type l = LeaseTypeFileTransfer"
    and "lc_exec op c = Some c'" "\<forall>now. op \<noteq> OpRelease now sid (sl_owner l)" "\<forall>ref. op \<noteq> OpRemove sid ref"
    and "\<forall>t. lc_leases c' sid \<noteq> Some (l\<lparr>sl_expires := t\<rparr>)"
    and "lc_run later c' = Some c''" "list_all (\<lambda>op. \<not> lc_lifts sid l op) later"
  shows "lc_leases c' sid = None \<and> lc_recovering c'' sid = Some l \<and>
         (\<forall>n1 n2 owner typ ref. \<exists>e. acquireReferenced n1 n2 sid owner typ ref c'' = Some (c'', Inl e, None)) \<and>
         (\<forall>now owner disp. \<exists>e. lc_writeBegin now sid owner disp c'' = Some (c'', Refuse e, None))"
proof -
  have "lease_aborts sid l c" using assms(3) by (simp add: lease_aborts_def)
  then have f: "lc_leases c' sid = None" "lc_recovering c' sid = Some l"
    using held_exec [OF assms(2) _ assms(4-6)] assms(7) by (auto simp: held_or_fenced_def)
  have "lc_inv c'" using lc_exec_inv [OF lc_run_inv [OF lc_inv_new assms(1)] assms(4)] .
  from fence_run [OF assms(8) this f(2) assms(9)] have "lc_recovering c'' sid = Some l" .
  then show ?thesis using f(1) by (auto simp: acquireReferenced_def lc_writeBegin_def Let_def)
qed

lemma written_terminal:
  "lc_run [OpAcquire 0 0 ''s'' ''A'' LeaseTypeTerminal [], OpWriteBegin 5 ''s'' ''A'' ''s''] (newLeaseCoordinatorWithTTL defaultLeaseTTL)
     = Some ((leased LeaseTypeTerminal)\<lparr>lc_activeWrites := (\<lambda>_. 0)(''s'' := 1)\<rparr>)"
proof -
  have a: "lc_exec (OpAcquire 0 0 ''s'' ''A'' LeaseTypeTerminal []) (newLeaseCoordinatorWithTTL defaultLeaseTTL) = Some (leased LeaseTypeTerminal)"
    using acquire_terminal by (simp del: lc_exec.simps split: option.splits)
  have w: "lc_exec (OpWriteBegin 5 ''s'' ''A'' ''s'') (leased LeaseTypeTerminal)
      = Some ((leased LeaseTypeTerminal)\<lparr>lc_activeWrites := (\<lambda>_. 0)(''s'' := 1)\<rparr>)"
    by (simp add: lc_writeBegin_def trim_space_A defaultLeaseTTL_def)
  show ?thesis by (simp only: lc_run.simps a w option.case)
qed

theorem lc_recovery_fence_witness:
  "\<exists>c e. lc_exec (OpAcquire (defaultLeaseTTL + 1) (defaultLeaseTTL + 1) ''s'' ''B'' LeaseTypeTerminal [])
       ((leased LeaseTypeTerminal)\<lparr>lc_activeWrites := (\<lambda>_. 0)(''s'' := 1)\<rparr>) = Some c \<and>
     lc_writeBegin 0 ''s'' ''A'' ''s'' c = Some (c, Refuse e, None)"
proof -
  let ?w = "(leased LeaseTypeTerminal)\<lparr>lc_activeWrites := (\<lambda>_. 0)(''s'' := 1)\<rparr>"
  let ?l = "the (lc_leases (leased LeaseTypeTerminal) ''s'')"
  let ?c = "?w\<lparr>lc_leases := (lc_leases ?w)(''s'' := None), lc_timers := (lc_timers ?w)(''s'' := None), lc_recovering := [''s'' \<mapsto> ?l]\<rparr>"
  have b: "trim_space ''B'' = ''B''"
    by (simp add: trim_space_def trim_left.simps trim_right.simps lead_space_def tail_space_def space_runes_def has_prefix_def has_suffix_def)
  have f: "lc_fileTransfers (leased LeaseTypeTerminal) = Map.empty"
    by (simp add: leased_def lc_grant_def newLeaseCoordinator_def newLeaseCoordinatorWithTTL_def scheduleExpiryLocked_def Let_def)
  have e: "lc_exec (OpAcquire (defaultLeaseTTL + 1) (defaultLeaseTTL + 1) ''s'' ''B'' LeaseTypeTerminal []) ?w = Some ?c"
    by (simp add: acquireReferenced_def b f expireLocked_def lease_aborts_def Let_def)
  have l: "lc_leases ?w ''s'' = Some ?l" by simp
  from lc_recovery_fence [OF written_terminal l _ e, of "[]" ?c] show ?thesis using e by fastforce
qed


section \<open>Cancellation\<close>

definition cancel_sticky :: "string \<Rightarrow> nat \<Rightarrow> coordinator \<Rightarrow> bool" where
  "cancel_sticky sid ident c \<longleftrightarrow>
     (\<forall>ct. lc_fileTransfers c sid = Some ct \<longrightarrow> fc_ident ct = ident \<longrightarrow> fc_state ct = CtlCancelled)"

lemma sticky_control:
  "cancel_sticky sid ident c \<Longrightarrow>
     (x = sid \<Longrightarrow> fc_ident ct' = ident \<Longrightarrow> fc_state ct' = CtlCancelled) \<Longrightarrow>
     lc_fileTransfers c' = (lc_fileTransfers c)(x \<mapsto> ct') \<Longrightarrow> cancel_sticky sid ident c'"
  by (simp add: cancel_sticky_def)

lemma sticky_drop:
  "cancel_sticky sid ident c \<Longrightarrow> lc_fileTransfers c' = (lc_fileTransfers c)(x := None) \<Longrightarrow> cancel_sticky sid ident c'"
  by (simp add: cancel_sticky_def)

lemma sticky_same: "cancel_sticky sid ident c \<Longrightarrow> lc_fileTransfers c' = lc_fileTransfers c \<Longrightarrow> cancel_sticky sid ident c'"
  by (simp add: cancel_sticky_def)

lemma expireConfirmation_cancelled [simp]:
  "fc_state ct = CtlCancelled \<Longrightarrow> expireConfirmation now ct = ct"
  by (simp add: expireConfirmation_def)

lemma sticky_expire:
  "cancel_sticky sid ident c \<Longrightarrow> expireLocked x lease c = Some (c', lease', abort) \<Longrightarrow> cancel_sticky sid ident c'"
  by (rule sticky_drop) (auto dest: expireLocked_sel(4))

lemma sticky_grant:
  assumes "cancel_sticky sid ident c" "ident < lc_nextControl c"
  shows "cancel_sticky sid ident (fst (lc_grant now x owner typ ref c))"
  using assms by (auto simp: lc_grant_def scheduleExpiryLocked_def new_control_def cancel_sticky_def Let_def)

lemma sticky_acquire:
  assumes "cancel_sticky sid ident c" "ident < lc_nextControl c"
    and "acquireReferenced n1 n2 x owner typ ref c = Some (c', res, nt)"
  shows "cancel_sticky sid ident c'"
proof -
  have grant: "lc_grant n2 x (trim_space owner) typ ref c0 = (c', l) \<Longrightarrow> cancel_sticky sid ident c0 \<Longrightarrow>
      lc_nextControl c0 = lc_nextControl c \<Longrightarrow> cancel_sticky sid ident c'" for c0 l
    using sticky_grant [of sid ident c0 n2 x "trim_space owner" "typ" ref] assms(2) by simp
  have expired: "expireLocked x active c = Some (c0, lease, abort) \<Longrightarrow>
      cancel_sticky sid ident c0 \<and> lc_nextControl c0 = lc_nextControl c" for active c0 lease abort
    using sticky_expire [OF assms(1)] expireLocked_sel(7) by blast
  show ?thesis
    using assms(3,1)
    by (auto simp: acquireReferenced_def Let_def split: option.splits if_splits prod.splits
        dest: expired intro: grant)
qed

lemma sticky_release:
  assumes "cancel_sticky sid ident c" "lc_release now x owner c = Some (c', res, nt)"
  shows "cancel_sticky sid ident c'"
proof (cases "\<exists>lease. lc_leases c x = Some lease \<and> sl_owner lease = owner \<and>
      \<not> (sl_type lease = LeaseTypeFileTransfer \<and> \<not> now < sl_expires lease)")
  case False
  then show ?thesis using assms sticky_expire [OF assms(1)] by (auto simp: lc_release_def split: option.splits if_splits)
next
  case True
  then obtain lease where l: "lc_leases c x = Some lease" "sl_owner lease = owner"
    "\<not> (sl_type lease = LeaseTypeFileTransfer \<and> \<not> now < sl_expires lease)" by blast
  show ?thesis
  proof (cases "lc_fileTransfers c x")
    case None
    then show ?thesis using assms l by (auto simp: lc_release_def stopExpiryLocked_def Let_def intro: sticky_same)
  next
    case (Some ct)
    have "lc_fileTransfers c' = (lc_fileTransfers c)(x := None) \<or>
       (\<exists>ct'. lc_fileTransfers c' = (lc_fileTransfers c)(x \<mapsto> ct') \<and> fc_ident ct' = fc_ident ct \<and>
          fc_state ct \<noteq> CtlCancelled)"
      using assms(2) l Some
      by (cases "fc_state ct")
         (auto simp: lc_release_def stopExpiryLocked_def stopConfirmationTimer_def close_control_def Let_def
          split: if_splits)
    then show ?thesis
    proof (elim disjE exE conjE)
      assume "lc_fileTransfers c' = (lc_fileTransfers c)(x := None)"
      then show ?thesis by (rule sticky_drop [OF assms(1)])
    next
      fix ct' assume a: "lc_fileTransfers c' = (lc_fileTransfers c)(x \<mapsto> ct')"
        "fc_ident ct' = fc_ident ct" "fc_state ct \<noteq> CtlCancelled"
      show ?thesis by (rule sticky_control [OF assms(1) _ a(1)]) (use assms(1) Some a in \<open>auto simp: cancel_sticky_def\<close>)
    qed
  qed
qed

lemma sticky_resolve:
  assumes "cancel_sticky sid ident c"
  shows "cancel_sticky sid ident (fst (resolveFileTransferCancel n1 n2 n3 x rid cancel c))"
proof (cases "lc_fileTransfers c x")
  case None
  then show ?thesis using assms by (simp add: resolveFileTransferCancel_def)
next
  case (Some ct)
  define live where "live = (\<lambda>now. case lc_leases c x of None \<Rightarrow> False | Some lease \<Rightarrow> now < sl_expires lease)"
  define ct1 where "ct1 = (if live n1 then expireConfirmation n2 ct else ct)"
  have canc: "x = sid \<Longrightarrow> fc_ident ct = ident \<Longrightarrow> fc_state ct = CtlCancelled"
    using assms Some by (auto simp: cancel_sticky_def)
  have ct1: "fc_ident ct1 = fc_ident ct" "fc_state ct = CtlCancelled \<Longrightarrow> fc_state ct1 = CtlCancelled"
    by (auto simp: ct1_def)
  have keep: "cancel_sticky sid ident (c\<lparr>lc_fileTransfers := (lc_fileTransfers c)(x \<mapsto> ct1)\<rparr>)"
    by (rule sticky_control [OF assms]) (use canc ct1 in auto)
  have move: "cancel_sticky sid ident (c\<lparr>lc_fileTransfers := (lc_fileTransfers c)(x \<mapsto> ct2)\<rparr>)"
    if "fc_state ct1 = CtlConfirming" "fc_ident ct2 = fc_ident ct1" for ct2
    by (rule sticky_control [OF assms]) (use canc ct1 that in auto)
  have drop: "cancel_sticky sid ident (c\<lparr>lc_fileTransfers := (lc_fileTransfers c)(x := None)\<rparr>)"
    by (rule sticky_drop [OF assms]) simp
  have m1: "cancel_sticky sid ident (c\<lparr>lc_fileTransfers := (lc_fileTransfers c)(x \<mapsto>
        (stopConfirmationTimer ct1)\<lparr>fc_changed := n, fc_state := CtlRunning, fc_request := []\<rparr>)\<rparr>)"
     and m2: "cancel_sticky sid ident (c\<lparr>lc_fileTransfers := (lc_fileTransfers c)(x \<mapsto>
        (stopConfirmationTimer ct1)\<lparr>fc_changed := n, fc_state := CtlCancelled\<rparr>)\<rparr>)"
    if "fc_state ct1 = CtlConfirming" for n
    by (rule move [OF that]; simp)+
  show ?thesis
    using Some keep m1 m2 drop
    by (simp add: resolveFileTransferCancel_def Let_def live_def [symmetric] ct1_def [symmetric])
qed

lemma sticky_exec:
  assumes "cancel_sticky sid ident c" "ident < lc_nextControl c" "lc_exec op c = Some c'"
  shows "cancel_sticky sid ident c'"
proof (cases op)
  case (OpAcquire n1 n2 x owner ty ref)
  then show ?thesis using assms(3) sticky_acquire [OF assms(1,2)] by auto
next
  case (OpRelease now x owner)
  then show ?thesis using assms(3) sticky_release [OF assms(1)] by auto
next
  case (OpResolve n1 n2 n3 x rid cancel)
  then show ?thesis using assms(3) sticky_resolve [OF assms(1)] by auto
next
  case (OpRemove x ref)
  then show ?thesis using assms(1,3) removeRegistration_cases [of x ref c c']
    by (auto simp: stopExpiryLocked_def intro: sticky_drop)
next
  case (OpRenew n1 n2 x owner)
  then show ?thesis using assms(1,3) sticky_expire [OF assms(1)]
    by (auto simp: lc_renew_def scheduleExpiryLocked_def Let_def split: option.splits if_splits intro: sticky_same)
next
  case (OpBeginCancel n1 n2 n3 x)
  then show ?thesis using assms(1,3)
    by (auto simp: beginFileTransferCancel_def cancel_sticky_def Let_def split: option.splits if_splits)
next
  case (OpCheckpoint n1 n2 tid x owner)
  then show ?thesis using assms(1,3)
    by (auto simp: fileTransferCheckpoint_def cancel_sticky_def Let_def split: option.splits if_splits)
next
  case (OpPromptTimer n1 n2 n3 x ident' rid)
  then show ?thesis using assms(1,3) sticky_expire [OF assms(1)]
    by (auto simp: expireFileTransferConfirmation_def cancel_sticky_def split: option.splits if_splits)
next
  case (OpWriteBegin now x owner disp)
  then show ?thesis using assms(1,3) sticky_expire [OF assms(1)]
    by (auto simp: lc_writeBegin_def Let_def split: option.splits if_splits intro: sticky_same)
qed (insert assms(1,3) sticky_expire [OF assms(1)], auto simp: lc_status_def lc_expire_def lc_writeEnd_def
      recordFileTransferProgress_def finishFileTransferExpiry_def cancel_sticky_def split: option.splits if_splits)

lemma lc_grant_nextControl: "lc_nextControl c \<le> lc_nextControl (fst (lc_grant now x owner typ ref c))"
  by (simp add: lc_grant_def scheduleExpiryLocked_def Let_def)

lemma exec_nextControl:
  assumes "lc_exec op c = Some c'"
  shows "lc_nextControl c \<le> lc_nextControl c'"
proof (cases op)
  case (OpAcquire n1 n2 x owner ty ref)
  then obtain res nt where a: "acquireReferenced n1 n2 x owner ty ref c = Some (c', res, nt)" using assms by auto
  have "c' = c \<or> (\<exists>c0. lc_nextControl c0 = lc_nextControl c \<and>
      (c' = c0 \<or> c' = fst (lc_grant n2 x (trim_space owner) ty ref c0)))"
    using a by (auto simp: acquireReferenced_def Let_def split: option.splits if_splits prod.splits
        dest: expireLocked_sel(7))
  then show ?thesis using lc_grant_nextControl by (metis order_refl)
next
  case (OpRelease now x owner)
  then show ?thesis using assms
    by (auto simp: lc_release_def stopExpiryLocked_def Let_def split: option.splits if_splits dest: expireLocked_sel(7))
next
  case (OpRemove x ref)
  then show ?thesis using assms removeRegistration_cases [of x ref c c'] by (auto simp: stopExpiryLocked_def)
next
  case (OpResolve n1 n2 n3 x rid cancel)
  then show ?thesis using assms by (auto simp: resolveFileTransferCancel_def Let_def split: option.splits if_splits)
qed (insert assms, auto simp: lc_renew_def scheduleExpiryLocked_def lc_status_def lc_expire_def lc_writeBegin_def
      lc_writeEnd_def beginFileTransferCancel_def expireFileTransferConfirmation_def fileTransferCheckpoint_def
      recordFileTransferProgress_def finishFileTransferExpiry_def Let_def
      split: option.splits if_splits dest: expireLocked_sel(7))

lemma sticky_run:
  "cancel_sticky sid ident c \<Longrightarrow> ident < lc_nextControl c \<Longrightarrow> lc_run ops c = Some c' \<Longrightarrow> cancel_sticky sid ident c'"
proof (induction ops arbitrary: c)
  case (Cons op ops)
  then obtain c1 where c1: "lc_exec op c = Some c1" "lc_run ops c1 = Some c'" by (auto split: option.splits)
  show ?case
    using Cons.IH [OF sticky_exec [OF Cons.prems(1,2) c1(1)] _ c1(2)] Cons.prems(2) exec_nextControl [OF c1(1)] by simp
qed simp

text \<open>
  A confirmed cancellation is final. Once the Host has accepted a cancellation
  (the resolve call waits for the release), no later sequence of operations makes
  a checkpoint of that same transfer answer "continue": every checkpoint that
  still sees this transfer's control object answers "cancel".
\<close>

theorem lc_cancel_final:
  assumes "lc_inv c" "resolveFileTransferCancel n1 n2 n3 sid rid cancel c = (c1, ResolveWait ident)"
    and "lc_run ops c1 = Some c2" "lc_fileTransfers c2 sid = Some ct" "fc_ident ct = ident"
    and "fileTransferCheckpoint m1 m2 tid sid owner c2 = (c3, CheckDone (Inr act))"
  shows "cancel \<and> act = FileTransferCancel"
proof -
  have r: "cancel \<and> cancel_sticky sid ident c1 \<and> ident < lc_nextControl c1"
    using assms(2) lc_invD [OF assms(1), of sid]
    by (auto simp: resolveFileTransferCancel_def cancel_sticky_def entry_ok_def Let_def
        split: option.splits if_splits)
  then have "cancel_sticky sid ident c2" using sticky_run [OF _ _ assms(3)] by blast
  then have "fc_state ct = CtlCancelled" using assms(4,5) by (simp add: cancel_sticky_def)
  then show ?thesis using assms(4,6) r
    by (auto simp: fileTransferCheckpoint_def Let_def split: option.splits if_splits)
qed


definition demo_transfer :: coordinator where
  "demo_transfer = fst (beginFileTransferCancel 1 1 1 ''s'' (leased LeaseTypeFileTransfer))"

lemma acquire_transfer:
  "lc_run [OpAcquire 0 0 ''s'' ''A'' LeaseTypeFileTransfer [], OpBeginCancel 1 1 1 ''s'']
     (newLeaseCoordinatorWithTTL defaultLeaseTTL) = Some demo_transfer"
  by (simp add: acquireReferenced_def trim_space_A newLeaseCoordinator_def newLeaseCoordinatorWithTTL_def
      leased_def demo_transfer_def Let_def split: prod.splits)

lemma demo_transfer_sel [simp]:
  "lc_leases demo_transfer = lc_leases (leased LeaseTypeFileTransfer)"
  "lc_recovering demo_transfer = Map.empty"
  "lc_fileTransfers demo_transfer ''s'' = Some ((new_control 0)\<lparr>fc_request := ''file-transfer-cancel-1'',
      fc_state := CtlConfirming, fc_deadline := 1 + FileTransferCancelConfirmationTimeout, fc_timer := True\<rparr>)"
  by (simp_all add: demo_transfer_def beginFileTransferCancel_def leased_def lc_grant_def newLeaseCoordinator_def
      newLeaseCoordinatorWithTTL_def scheduleExpiryLocked_def new_control_def expireConfirmation_def
      defaultLeaseTTL_def format_nat.simps digit_chars Let_def)

theorem lc_cancel_final_witness:
  "\<exists>c1 act. resolveFileTransferCancel 2 2 2 ''s'' ''file-transfer-cancel-1'' True demo_transfer = (c1, ResolveWait 0) \<and>
     fileTransferCheckpoint 3 3 [] ''s'' ''A'' c1 = (c1, CheckDone (Inr act)) \<and> act = FileTransferCancel"
proof -
  define ct where "ct = (new_control 0)\<lparr>fc_request := ''file-transfer-cancel-1'', fc_state := CtlCancelled,
      fc_deadline := 1 + FileTransferCancelConfirmationTimeout, fc_timer := False, fc_changed := 1\<rparr>"
  define c1 where "c1 = demo_transfer\<lparr>lc_fileTransfers := (lc_fileTransfers demo_transfer)(''s'' \<mapsto> ct)\<rparr>"
  have inv: "lc_inv demo_transfer" by (rule lc_run_inv [OF lc_inv_new acquire_transfer])
  have r: "resolveFileTransferCancel 2 2 2 ''s'' ''file-transfer-cancel-1'' True demo_transfer = (c1, ResolveWait 0)"
    by (simp add: resolveFileTransferCancel_def expireConfirmation_def stopConfirmationTimer_def new_control_def
        FileTransferCancelConfirmationTimeout_def defaultLeaseTTL_def c1_def ct_def Let_def)
  have f: "lc_fileTransfers c1 ''s'' = Some ct" "fc_ident ct = 0" by (simp_all add: c1_def ct_def new_control_def)
  have p: "fileTransferCheckpoint 3 3 [] ''s'' ''A'' c1 = (c1, CheckDone (Inr FileTransferCancel))"
    by (simp add: fileTransferCheckpoint_def c1_def ct_def new_control_def defaultLeaseTTL_def expireConfirmation_def Let_def)
  have "lc_run [] c1 = Some c1" by simp
  from lc_cancel_final [OF inv r this f p] show ?thesis using r p by blast
qed

section \<open>Run-time panics\<close>

text \<open>
  C9 The release panic. \<open>release\<close> leaves a completed control object behind when a
  file transfer ends while its cancellation prompt is unanswered. The next lease
  of that Session, if it is not a file transfer, then finds the stale object and
  closes its channels a second time: releasing it (or letting it expire) crashes
  the process. For a coordinator reached by any operations, releasing one's own
  terminal or debug lease panics exactly when such a stale object is present.
\<close>

theorem lc_release_panics_iff:
  assumes "lc_run ops (newLeaseCoordinatorWithTTL ttl) = Some c"
    and "lc_leases c sid = Some lease" "sl_owner lease = owner" "sl_type lease \<noteq> LeaseTypeFileTransfer"
  shows "lc_release now sid owner c = None \<longleftrightarrow> lc_fileTransfers c sid \<noteq> None"
proof (cases "lc_fileTransfers c sid")
  case None
  then show ?thesis using assms(2-4) by (simp add: lc_release_def stopExpiryLocked_def Let_def)
next
  case (Some ct)
  have "control_spent ct"
    using lc_invD [OF lc_run_inv [OF lc_inv_new assms(1)], of sid] assms(2,4) Some
    by (simp add: entry_ok_def lease_shape_def)
  then show ?thesis using assms(2-4) Some
    by (simp add: lc_release_def stopExpiryLocked_def close_control_def control_spent_def Let_def
        stopConfirmationTimer_def)
qed

text \<open>The history: transfer, prompt, transfer released, terminal lease acquired.\<close>

definition stale_history :: "lease_op list" where
  "stale_history = [OpAcquire 0 0 ''s'' ''A'' LeaseTypeFileTransfer [], OpBeginCancel 1 1 1 ''s'',
     OpRelease 2 ''s'' ''A'', OpAcquire 3 3 ''s'' ''A'' LeaseTypeTerminal []]"

lemma lc_run_append: "lc_run (xs @ ys) c = (case lc_run xs c of None \<Rightarrow> None | Some c' \<Rightarrow> lc_run ys c')"
  by (induction xs arbitrary: c) (auto split: option.splits)

theorem lc_release_panics_iff_witness:
  "\<exists>c. lc_run stale_history (newLeaseCoordinatorWithTTL defaultLeaseTTL) = Some c \<and> lc_release 4 ''s'' ''A'' c = None"
proof -
  have "case lc_run stale_history (newLeaseCoordinatorWithTTL defaultLeaseTTL) of None \<Rightarrow> False
      | Some c \<Rightarrow> lc_leases c ''s'' \<noteq> None \<and> sl_owner (the (lc_leases c ''s'')) = ''A'' \<and>
          sl_type (the (lc_leases c ''s'')) = LeaseTypeTerminal \<and> lc_fileTransfers c ''s'' \<noteq> None"
    by code_simp
  then obtain c where c: "lc_run stale_history (newLeaseCoordinatorWithTTL defaultLeaseTTL) = Some c"
    and l: "lc_leases c ''s'' \<noteq> None" "sl_owner (the (lc_leases c ''s'')) = ''A''"
      "sl_type (the (lc_leases c ''s'')) = LeaseTypeTerminal" "lc_fileTransfers c ''s'' \<noteq> None"
    by (cases "lc_run stale_history (newLeaseCoordinatorWithTTL defaultLeaseTTL)") (simp_all del: lc_run.simps)
  obtain lease where "lc_leases c ''s'' = Some lease" using l(1) by auto
  with l lc_release_panics_iff [OF c, of "''s''" lease "''A''" 4] show ?thesis using c by auto
qed

end
