(* ===== verification/Debugger_MI.thy ===== *)
theory Debugger_MI
  imports Go_Strings
begin

text \<open>
  \<open>internal/core/debugger/mi.go\<close>: the GDB/MI record parser and the argument
  quoting. The parser object (line and index) is the rest of the line. A Go map
  of results is an association list in order of first insertion. Error
  texts keep their constant part.
\<close>

datatype mi_val =
    MIString string
  | MITuple "(string \<times> mi_val) list"
  | MIList "mi_val list"

record mi_record =
  mr_token :: string
  mr_kind :: string
  mr_class :: string
  mr_results :: "(string \<times> mi_val) list"
  mr_text :: string

abbreviation "mi_out_of_fuel \<equiv> ErrSentinel ''model.fuel''"

section \<open>Strings\<close>

definition is_octal :: "byte \<Rightarrow> bool" where
  "is_octal c \<longleftrightarrow> 48 \<le> (of_char c :: nat) \<and> (of_char c :: nat) \<le> 55"

text \<open>The digit loop of an octal escape: at most \<open>k\<close> more digits.\<close>

fun octal_more :: "nat \<Rightarrow> nat \<Rightarrow> string \<Rightarrow> nat \<times> string" where
  "octal_more 0 n s = (n, s)"
| "octal_more (Suc k) n [] = (n, [])"
| "octal_more (Suc k) n (c # s) =
     (if is_octal c then octal_more k (n * 8 + digit_val c) s else (n, c # s))"

lemma octal_more_length: "length (snd (octal_more k n s)) \<le> length s"
  by (induction k n s rule: octal_more.induct) auto

definition simple_escape :: "byte \<Rightarrow> byte option" where
  "simple_escape c =
     (if c = CHR ''n'' then Some (CHR 0x0A)
      else if c = CHR ''r'' then Some (CHR 0x0D)
      else if c = CHR ''t'' then Some (CHR 0x09)
      else if c = CHR ''b'' then Some (CHR 0x08)
      else if c = CHR ''f'' then Some (CHR 0x0C)
      else if c = CHR ''v'' then Some (CHR 0x0B)
      else if c = CHR ''a'' then Some (CHR 0x07)
      else if c \<in> {CHR 0x5C, CHR 0x22, CHR 0x27} then Some c
      else None)"

text \<open>The string case of \<open>value\<close>, after the opening quote; \<open>b\<close> is what the builder holds.\<close>

function mi_string :: "string \<Rightarrow> string \<Rightarrow> goerr + (string \<times> string)" where
  "mi_string b s =
     (case s of
        [] \<Rightarrow> Inl (ErrText ''unterminated MI string'')
      | c # s1 \<Rightarrow>
          if c = CHR 0x22 then Inr (b, s1)
          else if c \<noteq> CHR 0x5C then mi_string (b @ [c]) s1
          else (case s1 of
                  [] \<Rightarrow> Inl (ErrText ''unterminated MI string'')
                | e # s2 \<Rightarrow>
                    (case simple_escape e of
                       Some x \<Rightarrow> mi_string (b @ [x]) s2
                     | None \<Rightarrow>
                         if \<not> is_octal e then Inl (ErrText ''invalid MI escape'')
                         else if 255 < fst (octal_more 2 (digit_val e) s2) then Inl (ErrText ''MI octal overflow'')
                         else mi_string (b @ [char_of (fst (octal_more 2 (digit_val e) s2))])
                                (snd (octal_more 2 (digit_val e) s2)))))"
  by pat_completeness auto
termination
  by (relation "measure (\<lambda>(b, s). length s)") (auto intro: le_less_trans [OF octal_more_length])

declare mi_string.simps [simp del]

section \<open>Values and results\<close>

fun addResult :: "(string \<times> mi_val) list \<Rightarrow> string \<Rightarrow> mi_val \<Rightarrow> (string \<times> mi_val) list" where
  "addResult [] k v = [(k, v)]"
| "addResult ((k', old) # m) k v =
     (if k' = k then (k', case old of MIList l \<Rightarrow> MIList (l @ [v]) | _ \<Rightarrow> MIList [old, v]) # m
      else (k', old) # addResult m k v)"

definition is_key_byte :: "byte \<Rightarrow> bool" where
  "is_key_byte c \<longleftrightarrow>
     (97 \<le> (of_char c :: nat) \<and> (of_char c :: nat) \<le> 122) \<or> (65 \<le> (of_char c :: nat) \<and> (of_char c :: nat) \<le> 90) \<or>
     is_digit c \<or> c = CHR ''-'' \<or> c = CHR ''_''"

definition mi_take :: "byte \<Rightarrow> string \<Rightarrow> string option" where
  "mi_take c s = (case s of [] \<Rightarrow> None | d # s' \<Rightarrow> if d = c then Some s' else None)"

text \<open>
  \<open>value\<close> recurses only to a greater depth and fails beyond depth 64, so it is
  defined by recursion on the levels left (\<open>mi_levels_irrelevant\<close>: any number that
  reaches depth 65 gives the same answer). The element loops take the element
  parser as an argument and as many turns as the text has bytes.
\<close>

type_synonym mi_value_parser = "nat \<Rightarrow> string \<Rightarrow> goerr + (mi_val \<times> string)"

definition mi_result :: "mi_value_parser \<Rightarrow> nat \<Rightarrow> string \<Rightarrow> goerr + (string \<times> mi_val \<times> string)" where
  "mi_result value depth s =
     (let k = takeWhile is_key_byte s; s1 = dropWhile is_key_byte s
      in if k = [] then Inl (ErrText ''invalid MI result'')
         else case mi_take (CHR ''='') s1 of
             None \<Rightarrow> Inl (ErrText ''invalid MI result'')
           | Some s2 \<Rightarrow>
               (case value (depth + 1) s2 of Inl e \<Rightarrow> Inl e | Inr (v, s3) \<Rightarrow> Inr (k, v, s3)))"

fun mi_tuple :: "mi_value_parser \<Rightarrow> nat \<Rightarrow> nat \<Rightarrow> (string \<times> mi_val) list \<Rightarrow> string \<Rightarrow> goerr + (mi_val \<times> string)" where
  "mi_tuple value depth 0 m s = Inl mi_out_of_fuel"
| "mi_tuple value depth (Suc fuel) m s =
     (case mi_result value (depth + 1) s of
        Inl e \<Rightarrow> Inl e
      | Inr (k, v, s1) \<Rightarrow>
          (case mi_take (CHR ''}'') s1 of
             Some s2 \<Rightarrow> Inr (MITuple (addResult m k v), s2)
           | None \<Rightarrow>
               (case mi_take (CHR '','') s1 of
                  None \<Rightarrow> Inl (ErrText ''invalid MI tuple'')
                | Some s2 \<Rightarrow> mi_tuple value depth fuel (addResult m k v) s2)))"

text \<open>A list element: a value when it starts like one, else a result as a one-key tuple.\<close>

definition mi_element :: "mi_value_parser \<Rightarrow> nat \<Rightarrow> string \<Rightarrow> goerr + (mi_val \<times> string)" where
  "mi_element value depth s =
     (if s \<noteq> [] \<and> hd s \<in> {CHR 0x22, CHR ''{'', CHR ''[''} then value (depth + 1) s
      else (case mi_result value (depth + 1) s of
              Inl e \<Rightarrow> Inl e
            | Inr (k, v, s1) \<Rightarrow> Inr (MITuple [(k, v)], s1)))"

fun mi_list :: "mi_value_parser \<Rightarrow> nat \<Rightarrow> nat \<Rightarrow> mi_val list \<Rightarrow> string \<Rightarrow> goerr + (mi_val \<times> string)" where
  "mi_list value depth 0 a s = Inl mi_out_of_fuel"
| "mi_list value depth (Suc fuel) a s =
     (case mi_element value depth s of
        Inl e \<Rightarrow> Inl e
      | Inr (v, s1) \<Rightarrow>
          (case mi_take (CHR '']'') s1 of
             Some s2 \<Rightarrow> Inr (MIList (a @ [v]), s2)
           | None \<Rightarrow>
               (case mi_take (CHR '','') s1 of
                  None \<Rightarrow> Inl (ErrText ''invalid MI list'')
                | Some s2 \<Rightarrow> mi_list value depth fuel (a @ [v]) s2)))"

primrec mi_value :: "nat \<Rightarrow> mi_value_parser" where
  "mi_value 0 = (\<lambda>depth s. Inl (ErrText ''invalid MI value/depth''))"
| "mi_value (Suc levels) = (\<lambda>depth s.
     (if depth > 64 then Inl (ErrText ''invalid MI value/depth'')
      else case s of
          [] \<Rightarrow> Inl (ErrText ''invalid MI value/depth'')
        | c # s1 \<Rightarrow>
            if c = CHR 0x22
            then (case mi_string [] s1 of Inl e \<Rightarrow> Inl e | Inr (t, s2) \<Rightarrow> Inr (MIString t, s2))
            else if c = CHR ''{''
            then (case mi_take (CHR ''}'') s1 of
                    Some s2 \<Rightarrow> Inr (MITuple [], s2)
                  | None \<Rightarrow> mi_tuple (mi_value levels) depth (Suc (length s1)) [] s1)
            else if c = CHR ''[''
            then (case mi_take (CHR '']'') s1 of
                    Some s2 \<Rightarrow> Inr (MIList [], s2)
                  | None \<Rightarrow> mi_list (mi_value levels) depth (Suc (length s1)) [] s1)
            else Inl (ErrText ''invalid MI value'')))"

definition mi_levels :: nat where "mi_levels = 65"

section \<open>Records\<close>

text \<open>The result loop of an async or result record.\<close>

fun mi_results :: "nat \<Rightarrow> (string \<times> mi_val) list \<Rightarrow> string \<Rightarrow> goerr + (string \<times> mi_val) list" where
  "mi_results 0 m s = Inl mi_out_of_fuel"
| "mi_results (Suc fuel) m s =
     (case s of
        [] \<Rightarrow> Inr m
      | c # s1 \<Rightarrow>
          if c \<noteq> CHR '','' then Inl (ErrText ''invalid MI result separator'')
          else (case mi_result (mi_value mi_levels) 0 s1 of
                  Inl e \<Rightarrow> Inl e
                | Inr (k, v, s2) \<Rightarrow> mi_results fuel (addResult m k v) s2))"

definition mi_Parse :: "string \<Rightarrow> goerr + mi_record" where
  "mi_Parse line =
     (if trim_space line = ''(gdb)''
      then Inr \<lparr>mr_token = [], mr_kind = ''prompt'', mr_class = [], mr_results = [], mr_text = []\<rparr>
      else
        let token = takeWhile is_digit line; s = dropWhile is_digit line
        in case s of
             [] \<Rightarrow> Inl (ErrText ''missing MI record kind'')
           | kind # s1 \<Rightarrow>
               if kind \<in> {CHR ''~'', CHR 0x40, CHR ''&''}
               then (case mi_value mi_levels 0 s1 of
                       Inl e \<Rightarrow> Inl e
                     | Inr (MIString t, s2) \<Rightarrow>
                         if s2 \<noteq> [] then Inl (ErrText ''trailing MI data'')
                         else Inr \<lparr>mr_token = token, mr_kind = [kind], mr_class = [], mr_results = [], mr_text = t\<rparr>
                     | Inr _ \<Rightarrow> Inl (ErrText ''MI stream is not a string''))
               else if kind \<in> {CHR ''^'', CHR ''*'', CHR ''+'', CHR ''=''}
               then
                 let cls = takeWhile (\<lambda>c. c \<noteq> CHR '','') s1; s2 = dropWhile (\<lambda>c. c \<noteq> CHR '','') s1
                 in if cls = [] then Inl (ErrText ''empty MI class'')
                    else (case mi_results (Suc (length s2)) [] s2 of
                            Inl e \<Rightarrow> Inl e
                          | Inr m \<Rightarrow> Inr \<lparr>mr_token = token, mr_kind = [kind], mr_class = cls,
                                           mr_results = m, mr_text = []\<rparr>)
               else Inl (ErrText ''invalid MI kind''))"

section \<open>Quoting\<close>

definition octal_digits :: "byte \<Rightarrow> string" where
  "octal_digits c = [digit_char (of_char c div 64), digit_char (of_char c div 8 mod 8), digit_char (of_char c mod 8)]"

definition quote_byte :: "byte \<Rightarrow> string" where
  "quote_byte c =
     (if c = CHR 0x22 \<or> c = CHR 0x5C then [CHR 0x5C, c]
      else if (of_char c :: nat) < 32 \<or> 127 \<le> (of_char c :: nat) then CHR 0x5C # octal_digits c
      else [c])"

definition mi_Quote :: "string \<Rightarrow> string" where
  "mi_Quote s = [CHR 0x22] @ concat (map quote_byte s) @ [CHR 0x22]"

section \<open>Fuel\<close>

lemma mi_take_Some: "mi_take c s = Some s' \<Longrightarrow> s = c # s'"
  by (auto simp: mi_take_def split: list.splits if_splits)

lemma mi_string_unfold:
  "mi_string b [] = Inl (ErrText ''unterminated MI string'')"
  "mi_string b (c # s) =
     (if c = CHR 0x22 then Inr (b, s)
      else if c \<noteq> CHR 0x5C then mi_string (b @ [c]) s
      else (case s of
              [] \<Rightarrow> Inl (ErrText ''unterminated MI string'')
            | e # s2 \<Rightarrow>
                (case simple_escape e of
                   Some x \<Rightarrow> mi_string (b @ [x]) s2
                 | None \<Rightarrow>
                     if \<not> is_octal e then Inl (ErrText ''invalid MI escape'')
                     else if 255 < fst (octal_more 2 (digit_val e) s2) then Inl (ErrText ''MI octal overflow'')
                     else mi_string (b @ [char_of (fst (octal_more 2 (digit_val e) s2))])
                            (snd (octal_more 2 (digit_val e) s2)))))"
  by (subst mi_string.simps, simp)+

lemma mi_string_shorter: "mi_string b s = Inr (t, s') \<Longrightarrow> length s' < length s"
proof (induction b s rule: mi_string.induct)
  case (1 b s)
  show ?case
  proof (cases s)
    case Nil
    then show ?thesis using "1.prems" by (simp add: mi_string_unfold)
  next
    case s: (Cons c s1)
    consider "c = CHR 0x22" | "c \<noteq> CHR 0x22" "c \<noteq> CHR 0x5C" | "c = CHR 0x5C" by blast
    then show ?thesis
    proof cases
      case 1
      then show ?thesis using "1.prems" s by (simp add: mi_string_unfold)
    next
      case 2
      then have "length s' < length s1"
        using "1.IH"(1) [OF s 2] "1.prems" s by (simp add: mi_string_unfold)
      then show ?thesis using s by simp
    next
      case 3
      then obtain e s2 where s1: "s1 = e # s2"
        using "1.prems" s by (cases s1) (simp_all add: mi_string_unfold)
      have ne: "c \<noteq> CHR 0x22" "\<not> c \<noteq> CHR 0x5C" using 3 by simp_all
      show ?thesis
      proof (cases "simple_escape e")
        case (Some x)
        then have "length s' < length s2"
          using "1.IH"(3) [OF s ne s1 Some] "1.prems" s s1 3 by (simp add: mi_string_unfold)
        then show ?thesis using s s1 by simp
      next
        case None
        let ?o = "octal_more 2 (digit_val e) s2"
        have oct: "is_octal e" "\<not> 255 < fst ?o"
          using "1.prems" s s1 3 None by (simp_all add: mi_string_unfold split: if_splits)
        then have "length s' < length (snd ?o)"
          using "1.IH"(2) [OF s ne s1 None] "1.prems" s s1 3 None by (simp add: mi_string_unfold)
        then show ?thesis using s s1 octal_more_length [of 2 "digit_val e" s2] by simp
      qed
    qed
  qed
qed

lemma mi_string_fuel: "mi_string b s \<noteq> Inl mi_out_of_fuel"
proof (induction b s rule: mi_string.induct)
  case (1 b s)
  then show ?case
    by (subst mi_string.simps) (auto split: list.splits option.splits)
qed

text \<open>A value parser that consumes input and does not run out of turns.\<close>

definition good_parser :: "mi_value_parser \<Rightarrow> bool" where
  "good_parser value \<longleftrightarrow>
     (\<forall>d s v s'. value d s = Inr (v, s') \<longrightarrow> length s' < length s) \<and>
     (\<forall>d s. value d s \<noteq> Inl mi_out_of_fuel)"

lemma dropWhile_length: "length (dropWhile P s) \<le> length s"
  by (induction s) auto

lemma good_result:
  assumes "good_parser value"
  shows "mi_result value d s = Inr (k, v, s') \<Longrightarrow> length s' < length s"
    and "mi_result value d s \<noteq> Inl mi_out_of_fuel"
proof -
  show "mi_result value d s \<noteq> Inl mi_out_of_fuel"
    using assms by (auto simp: mi_result_def good_parser_def Let_def split: option.splits sum.splits)
  assume "mi_result value d s = Inr (k, v, s')"
  then obtain s2 where "mi_take (CHR ''='') (dropWhile is_key_byte s) = Some s2" "value (d + 1) s2 = Inr (v, s')"
    by (auto simp: mi_result_def Let_def split: option.splits sum.splits if_splits)
  then have "length s' < length s2" "length s2 < length (dropWhile is_key_byte s)"
    using assms by (auto simp: good_parser_def dest: mi_take_Some)
  then show "length s' < length s" using dropWhile_length [of is_key_byte s] by linarith
qed

lemma good_element:
  assumes "good_parser value"
  shows "mi_element value d s = Inr (v, s') \<Longrightarrow> length s' < length s"
    and "mi_element value d s \<noteq> Inl mi_out_of_fuel"
proof -
  show "mi_element value d s \<noteq> Inl mi_out_of_fuel"
    using assms good_result(2) [OF assms] by (auto simp: mi_element_def good_parser_def split: sum.splits)
  show "mi_element value d s = Inr (v, s') \<Longrightarrow> length s' < length s"
    using assms by (auto simp: mi_element_def good_parser_def split: if_splits sum.splits dest: good_result(1) [OF assms])
qed

lemma good_tuple:
  assumes "good_parser value"
  shows "mi_tuple value d f m s = Inr (v, s') \<Longrightarrow> length s' < length s"
    and "length s < f \<Longrightarrow> mi_tuple value d f m s \<noteq> Inl mi_out_of_fuel"
proof (induction f arbitrary: m s)
  case (Suc f)
  {
    case 1
    then obtain k v0 s1 where r: "mi_result value (d + 1) s = Inr (k, v0, s1)" by (auto split: sum.splits)
    then have "length s1 < length s" by (rule good_result(1) [OF assms])
    then show ?case using 1 r Suc(1)
      by (auto split: option.splits dest!: mi_take_Some) fastforce
  next
    case 2
    show ?case
    proof
      assume f: "mi_tuple value d (Suc f) m s = Inl mi_out_of_fuel"
      then obtain k v0 s1 where r: "mi_result value (d + 1) s = Inr (k, v0, s1)"
        using good_result(2) [OF assms] by (auto split: sum.splits)
      then have "length s1 < length s" by (rule good_result(1) [OF assms])
      then show False using f r 2 Suc(2) by (auto split: option.splits dest!: mi_take_Some)
    qed
  }
qed auto

lemma good_list:
  assumes "good_parser value"
  shows "mi_list value d f a s = Inr (v, s') \<Longrightarrow> length s' < length s"
    and "length s < f \<Longrightarrow> mi_list value d f a s \<noteq> Inl mi_out_of_fuel"
proof (induction f arbitrary: a s)
  case (Suc f)
  {
    case 1
    then obtain v0 s1 where r: "mi_element value d s = Inr (v0, s1)" by (auto split: sum.splits)
    then have "length s1 < length s" by (rule good_element(1) [OF assms])
    then show ?case using 1 r Suc(1)
      by (auto split: option.splits dest!: mi_take_Some) fastforce
  next
    case 2
    show ?case
    proof
      assume f: "mi_list value d (Suc f) a s = Inl mi_out_of_fuel"
      then obtain v0 s1 where r: "mi_element value d s = Inr (v0, s1)"
        using good_element(2) [OF assms] by (auto split: sum.splits)
      then have "length s1 < length s" by (rule good_element(1) [OF assms])
      then show False using f r 2 Suc(2) by (auto split: option.splits dest!: mi_take_Some)
    qed
  }
qed auto

lemma good_value: "good_parser (mi_value levels)"
proof (induction levels)
  case 0
  show ?case by (simp add: good_parser_def)
next
  case (Suc levels)
  have "length s' < length s" if r: "mi_value (Suc levels) d s = Inr (v, s')" for d s v s'
  proof (cases s)
    case Nil
    then show ?thesis using r by (simp split: if_splits)
  next
    case (Cons c s1)
    have "length s' < length s1"
      using r Cons mi_string_shorter [of "[]" s1] good_tuple(1) [OF Suc] good_list(1) [OF Suc]
      by (auto split: option.splits sum.splits if_splits simp del: mi_tuple.simps mi_list.simps dest!: mi_take_Some)
    then show ?thesis using Cons by simp
  qed
  moreover have "mi_value (Suc levels) d s \<noteq> Inl mi_out_of_fuel" for d s
  proof (cases s)
    case (Cons c s1)
    show ?thesis
      using mi_string_fuel [of "[]" s1] good_tuple(2) [OF Suc, of s1 "Suc (length s1)" d "[]"]
        good_list(2) [OF Suc, of s1 "Suc (length s1)" d "[]"]
      by (auto simp: Cons split: option.splits sum.splits prod.splits simp del: mi_tuple.simps mi_list.simps)
  qed simp
  ultimately show ?case by (simp add: good_parser_def del: mi_value.simps)
qed

lemma mi_results_fuel: "length s < f \<Longrightarrow> mi_results f m s \<noteq> Inl mi_out_of_fuel"
proof (induction f m s rule: mi_results.induct)
  case (2 f m s)
  show ?case
  proof
    assume e: "mi_results (Suc f) m s = Inl mi_out_of_fuel"
    then obtain s1 k v s2 where s: "s = CHR '','' # s1" "mi_result (mi_value mi_levels) 0 s1 = Inr (k, v, s2)"
       "mi_results f (addResult m k v) s2 = Inl mi_out_of_fuel"
      using good_result(2) [OF good_value] by (auto split: list.splits sum.splits if_splits)
    have "length s2 < length s1" by (rule good_result(1) [OF good_value s(2)])
    then show False using 2 s by auto
  qed
qed auto

text \<open>
  The MI parser is total: whatever line GDB sends, \<open>Parse\<close> returns a record
  or one of its own errors; the element loops of the model never use up the turns
  they are given, so the bounds of the model are never what ends a parse.
\<close>

theorem mi_Parse_total: "mi_Parse line \<noteq> Inl mi_out_of_fuel"
proof (cases "trim_space line = ''(gdb)''")
  case True
  then show ?thesis by (simp add: mi_Parse_def)
next
  case False
  show ?thesis
  proof (cases "dropWhile is_digit line")
    case Nil
    then show ?thesis using False unfolding mi_Parse_def Let_def Nil by simp
  next
    case (Cons kind s1)
    let ?s2 = "dropWhile (\<lambda>c. c \<noteq> CHR '','') s1"
    have v: "mi_value mi_levels 0 s1 \<noteq> Inl mi_out_of_fuel"
      using good_value by (simp add: good_parser_def)
    have m: "mi_results (Suc (length ?s2)) [] ?s2 \<noteq> Inl mi_out_of_fuel"
      by (rule mi_results_fuel) simp
    show ?thesis
    proof (cases "kind \<in> {CHR ''~'', CHR 0x40, CHR ''&''}")
      case True
      then show ?thesis using False Cons v
        by (cases "mi_value mi_levels 0 s1") (auto simp: mi_Parse_def Let_def split: mi_val.splits if_splits)
    next
      case nonstream: False
      show ?thesis
        using False Cons nonstream m
        by (cases "mi_results (Suc (length ?s2)) [] ?s2") (auto simp: mi_Parse_def Let_def simp del: mi_results.simps)
    qed
  qed
qed

section \<open>Quoting and parsing\<close>

lemma octal_byte: "is_octal (digit_char d) \<longleftrightarrow> d < 8" if "d < 10" for d
  using that by (auto simp: is_octal_def digit_char_def)

lemma no_simple_escape_digit: "d < 8 \<Longrightarrow> simple_escape (digit_char d) = None"
proof -
  assume "d < 8"
  then have "d \<in> {0, 1, 2, 3, 4, 5, 6, 7}" by auto
  then show ?thesis by (elim insertE emptyE) (simp_all add: digit_chars simple_escape_def)
qed

lemma octal_more_digits:
  "octal_more 2 n (digit_char a # digit_char b # s) = (n * 64 + a * 8 + b, s)" if "a < 8" "b < 8" for a b
  using that by (simp add: numeral_2_eq_2 octal_byte)

lemma octal_value: "(n::nat) div 64 * 64 + n div 8 mod 8 * 8 + n mod 8 = n"
proof -
  have "n div 64 = n div 8 div 8" by (simp add: div_mult2_eq [symmetric])
  then show ?thesis using div_mult_mod_eq [of n 8] div_mult_mod_eq [of "n div 8" 8] by linarith
qed

lemma byte_digits:
  fixes n :: nat
  assumes "n < 256"
  shows "n div 64 < 8" "n div 8 mod 8 < 8" "n mod 8 < 8"
  using assms by linarith+

lemma mi_string_quoted:
  "mi_string b (quote_byte c @ s) = mi_string (b @ [c]) s"
proof -
  let ?n = "of_char c :: nat"
  have n: "?n < 256" by simp
  show ?thesis
  proof (cases "c = CHR 0x22 \<or> c = CHR 0x5C")
    case True
    then show ?thesis
      by (subst mi_string.simps) (auto simp: quote_byte_def simple_escape_def)
  next
    case False
    show ?thesis
    proof (cases "?n < 32 \<or> 127 \<le> ?n")
      case True
      note d = byte_digits [OF n]
      have o: "octal_more 2 (digit_val (digit_char (?n div 64)))
            (digit_char (?n div 8 mod 8) # digit_char (?n mod 8) # s) = (?n, s)"
        using d by (simp add: octal_more_digits octal_value)
      have "\<not> 255 < ?n" using n by linarith
      then show ?thesis using True False d o
        by (subst mi_string.simps) (simp add: quote_byte_def octal_digits_def no_simple_escape_digit octal_byte)
    next
      case plain: False
      then show ?thesis using False by (subst mi_string.simps) (simp add: quote_byte_def)
    qed
  qed
qed

lemma mi_string_quote: "mi_string b (concat (map quote_byte t) @ CHR 0x22 # s) = Inr (b @ t, s)"
proof (induction t arbitrary: b)
  case Nil
  show ?case by (subst mi_string.simps) simp
next
  case (Cons c t)
  then show ?case by (simp add: mi_string_quoted)
qed

lemma mi_value_quote:
  "depth \<le> 64 \<Longrightarrow> 0 < levels \<Longrightarrow> mi_value levels depth (mi_Quote t @ rest) = Inr (MIString t, rest)"
  by (cases levels) (simp_all add: mi_Quote_def mi_string_quote)

text \<open>
  Quoting is injective and safe: GDB's own reading of MI strings, as the
  parser implements it, turns the quoted form of any bytes back into exactly those
  bytes and leaves what follows untouched, at every nesting depth; and the quoted
  form has only printable ASCII bytes, so no newline can smuggle in a command.
\<close>

theorem mi_quote_roundtrip:
  assumes "depth \<le> 64" "0 < levels"
  shows "mi_value levels depth (mi_Quote t @ rest) = Inr (MIString t, rest) \<and>
         (\<forall>c \<in> set (mi_Quote t). 32 \<le> (of_char c :: nat) \<and> (of_char c :: nat) < 127)"
proof
  show "mi_value levels depth (mi_Quote t @ rest) = Inr (MIString t, rest)"
    using assms by (rule mi_value_quote)
  have d: "32 \<le> (of_char (digit_char k) :: nat) \<and> (of_char (digit_char k) :: nat) < 127" if "k < 10" for k
    using that by (simp add: digit_char_def)
  have q: "32 \<le> (of_char c :: nat) \<and> (of_char c :: nat) < 127" if "c \<in> set (quote_byte x)" for c x
  proof -
    have "(of_char x :: nat) < 256" by simp
    from byte_digits [OF this]
    have "(of_char x :: nat) div 64 < 10" "(of_char x :: nat) div 8 mod 8 < 10" "(of_char x :: nat) mod 8 < 10"
      by linarith+
    then show ?thesis using that d
      by (auto simp: quote_byte_def octal_digits_def split: if_splits)
  qed
  then show "\<forall>c \<in> set (mi_Quote t). 32 \<le> (of_char c :: nat) \<and> (of_char c :: nat) < 127"
    by (auto simp: mi_Quote_def)
qed

theorem mi_quote_roundtrip_witness:
  "mi_value 65 0 (mi_Quote [CHR ''a'', CHR 0x0A, CHR 0x22] @ ''}'') = Inr (MIString [CHR ''a'', CHR 0x0A, CHR 0x22], ''}'')"
  using mi_quote_roundtrip [of 0 65 "[CHR ''a'', CHR 0x0A, CHR 0x22]" "''}''"] by simp

text \<open>
  A stream record carries its text: a console, target or log record built from
  a token, a kind and a quoted text is parsed to exactly these.
\<close>

theorem mi_Parse_stream:
  assumes "kind \<in> {CHR ''~'', CHR 0x40, CHR ''&''}" "\<forall>c \<in> set token. is_digit c"
    and "trim_space (token @ [kind] @ mi_Quote t) \<noteq> ''(gdb)''"
  shows "mi_Parse (token @ [kind] @ mi_Quote t)
           = Inr \<lparr>mr_token = token, mr_kind = [kind], mr_class = [], mr_results = [], mr_text = t\<rparr>"
proof -
  have nd: "\<not> is_digit kind" using assms(1) by (auto simp: is_digit_def)
  have "takeWhile is_digit (token @ [kind] @ mi_Quote t) = token"
    and "dropWhile is_digit (token @ [kind] @ mi_Quote t) = kind # mi_Quote t"
    using assms(2) nd by (simp_all add: takeWhile_append dropWhile_append)
  moreover have "mi_value mi_levels 0 (mi_Quote t) = Inr (MIString t, [])"
    using mi_value_quote [of 0 mi_levels t "[]"] by (simp add: mi_levels_def)
  ultimately show ?thesis using assms(1,3) by (simp add: mi_Parse_def Let_def)
qed

theorem mi_Parse_stream_witness:
  "mi_Parse (''7'' @ ''~'' @ mi_Quote ''hi'')
     = Inr \<lparr>mr_token = ''7'', mr_kind = ''~'', mr_class = [], mr_results = [], mr_text = ''hi''\<rparr>"
proof -
  have "trim_space (''7'' @ ''~'' @ mi_Quote ''hi'') \<noteq> ''(gdb)''" by code_simp
  then show ?thesis using mi_Parse_stream [of "CHR ''~''" "''7''" "''hi''"] by (simp add: is_digit_def)
qed

end
