(* ===== verification/Debugger_RSP.thy ===== *)
theory Debugger_RSP
  imports Go_Strings "HOL-Library.Word"
begin

text \<open>
  \<open>internal/core/debugger/bridge.go\<close>: the byte-transparent RSP relay's framing
  observer. It validates checksums (arithmetic modulo 256, an \<open>8 word\<close>) of
  packets that arrive in arbitrary fragments and keeps evidence that GDB
  acknowledged the inferior's exit packet.
\<close>

abbreviation "ErrDataLost \<equiv> ErrSentinel ''debugger.ErrDataLost''"

section \<open>Packet frames\<close>

record rsp_frame =
  rf_phase :: nat
  rf_sum :: "8 word"
  rf_check :: "8 word"
  rf_first :: byte
  rf_length :: nat

definition zero_frame :: rsp_frame where
  "zero_frame = \<lparr>rf_phase = 0, rf_sum = 0, rf_check = 0, rf_first = CHR 0x00, rf_length = 0\<rparr>"

definition byte_word :: "byte \<Rightarrow> 8 word" where "byte_word c = of_char c"

definition hexNibble :: "byte \<Rightarrow> 8 word option" where
  "hexNibble c =
     (if 48 \<le> (of_char c :: nat) \<and> (of_char c :: nat) \<le> 57 then Some (byte_word c - 48)
      else if 97 \<le> (of_char c :: nat) \<and> (of_char c :: nat) \<le> 102 then Some (byte_word c - 97 + 10)
      else if 65 \<le> (of_char c :: nat) \<and> (of_char c :: nat) \<le> 70 then Some (byte_word c - 65 + 10)
      else None)"

text \<open>\<open>feed\<close>: the new frame, whether a packet completed, and whether it was valid.\<close>

definition frame_feed :: "byte \<Rightarrow> rsp_frame \<Rightarrow> rsp_frame \<times> bool \<times> bool" where
  "frame_feed c f =
     (if rf_phase f = 0 then
        (if c = CHR 0x24 \<or> c = CHR ''%''
         then f\<lparr>rf_phase := 1, rf_sum := 0, rf_first := CHR 0x00, rf_length := 0\<rparr> else f, False, False)
      else if rf_phase f = 1 then
        (if c = CHR ''#'' then (f\<lparr>rf_phase := 2\<rparr>, False, False)
         else (f\<lparr>rf_first := (if rf_length f = 0 then c else rf_first f),
                 rf_length := rf_length f + 1, rf_sum := rf_sum f + byte_word c\<rparr>, False, False))
      else if rf_phase f = 2 then
        (case hexNibble c of
           None \<Rightarrow> (f\<lparr>rf_phase := 0\<rparr>, False, False)
         | Some n \<Rightarrow> (f\<lparr>rf_check := push_bit 4 n, rf_phase := 3\<rparr>, False, False))
      else if rf_phase f = 3 then
        (f\<lparr>rf_phase := 0\<rparr>, True,
         case hexNibble c of None \<Rightarrow> False | Some n \<Rightarrow> or (rf_check f) n = rf_sum f)
      else (f, False, False))"

definition checksum :: "byte list \<Rightarrow> 8 word" where
  "checksum p = sum_list (map byte_word p)"

lemma checksum_snoc [simp]: "checksum [] = 0" "checksum (p @ [c]) = checksum p + byte_word c"
  by (simp_all add: checksum_def)

text \<open>The frame after a whole stream, from any start.\<close>

definition frame_after :: "byte list \<Rightarrow> rsp_frame \<Rightarrow> rsp_frame" where
  "frame_after bs f = fold (\<lambda>c f. fst (frame_feed c f)) bs f"

text \<open>What a frame says about the payload it has seen.\<close>

definition packet_of :: "byte \<Rightarrow> byte list \<Rightarrow> rsp_frame \<Rightarrow> bool" where
  "packet_of d p f \<longleftrightarrow> d \<in> {CHR 0x24, CHR ''%''} \<and> CHR ''#'' \<notin> set p \<and> rf_sum f = checksum p \<and>
     rf_length f = length p \<and> (p \<noteq> [] \<longrightarrow> rf_first f = hd p)"

lemma packet_of_upd [simp]:
  "packet_of d p (f\<lparr>rf_phase := x\<rparr>) = packet_of d p f" "packet_of d p (f\<lparr>rf_check := y\<rparr>) = packet_of d p f"
  by (simp_all add: packet_of_def)

lemma frame_after_snoc: "frame_after (bs @ [c]) f = fst (frame_feed c (frame_after bs f))"
  by (simp add: frame_after_def)

text \<open>
  The streams after which no packet is open, as a grammar: noise, and packets with their digits, of which the first ends the packet when it
  is not hexadecimal. \<open>packet_body\<close> is a start, a payload and its end.
\<close>

definition packet_body :: "byte \<Rightarrow> byte list \<Rightarrow> byte list \<Rightarrow> bool" where
  "packet_body d p bs \<longleftrightarrow> d \<in> {CHR 0x24, CHR ''%''} \<and> CHR ''#'' \<notin> set p \<and> bs = [d] @ p @ [CHR ''#'']"

inductive rsp_between :: "byte list \<Rightarrow> bool" where
  start: "rsp_between []"
| noise: "rsp_between bs \<Longrightarrow> c \<notin> {CHR 0x24, CHR ''%''} \<Longrightarrow> rsp_between (bs @ [c])"
| broken: "rsp_between bs \<Longrightarrow> packet_body d p q \<Longrightarrow> hexNibble h = None \<Longrightarrow> rsp_between (bs @ q @ [h])"
| packet: "rsp_between bs \<Longrightarrow> packet_body d p q \<Longrightarrow> hexNibble h = Some n \<Longrightarrow> rsp_between (bs @ q @ [h, c])"

text \<open>What a frame says about the stream that led to it, exactly.\<close>

definition frame_exact :: "byte list \<Rightarrow> rsp_frame \<Rightarrow> bool" where
  "frame_exact bs f \<longleftrightarrow>
     (rf_phase f = 0 \<and> rsp_between bs) \<or>
     (rf_phase f = 1 \<and> (\<exists>pre d p. rsp_between pre \<and> packet_of d p f \<and> bs = pre @ [d] @ p)) \<or>
     (rf_phase f = 2 \<and> (\<exists>pre d p. rsp_between pre \<and> packet_of d p f \<and> bs = pre @ [d] @ p @ [CHR ''#''])) \<or>
     (rf_phase f = 3 \<and> (\<exists>pre d p h n. rsp_between pre \<and> packet_of d p f \<and> bs = pre @ [d] @ p @ [CHR ''#'', h] \<and>
        hexNibble h = Some n \<and> rf_check f = push_bit 4 n))"

lemma packet_of_body: "packet_of d p f \<Longrightarrow> packet_body d p ([d] @ p @ [CHR ''#''])"
  by (simp add: packet_of_def packet_body_def)

lemma frame_exactI:
  "rf_phase f = 0 \<Longrightarrow> rsp_between bs \<Longrightarrow> frame_exact bs f"
  "rf_phase f = 1 \<Longrightarrow> rsp_between pre \<Longrightarrow> packet_of d p f \<Longrightarrow> frame_exact (pre @ [d] @ p) f"
  "rf_phase f = 2 \<Longrightarrow> rsp_between pre \<Longrightarrow> packet_of d p f \<Longrightarrow> frame_exact (pre @ [d] @ p @ [CHR ''#'']) f"
  "rf_phase f = 3 \<Longrightarrow> rsp_between pre \<Longrightarrow> packet_of d p f \<Longrightarrow> hexNibble h = Some n \<Longrightarrow> rf_check f = push_bit 4 n \<Longrightarrow>
     frame_exact (pre @ [d] @ p @ [CHR ''#'', h]) f"
  unfolding frame_exact_def by blast+

lemma frame_exactE:
  assumes "frame_exact bs f"
  obtains (between) "rf_phase f = 0" "rsp_between bs"
  | (body) pre d p where "rf_phase f = 1" "rsp_between pre" "packet_of d p f" "bs = pre @ [d] @ p"
  | (ended) pre d p where "rf_phase f = 2" "rsp_between pre" "packet_of d p f" "bs = pre @ [d] @ p @ [CHR ''#'']"
  | (digit) pre d p h n where "rf_phase f = 3" "rsp_between pre" "packet_of d p f" "bs = pre @ [d] @ p @ [CHR ''#'', h]"
      "hexNibble h = Some n" "rf_check f = push_bit 4 n"
  using assms unfolding frame_exact_def by (elim disjE conjE exE) (rule that; assumption)+

lemma step_between:
  assumes f: "rf_phase f = 0" "rsp_between bs"
  shows "frame_exact (bs @ [c]) (fst (frame_feed c f))"
proof (cases "c = CHR 0x24 \<or> c = CHR ''%''")
  case True
  let ?f = "f\<lparr>rf_phase := 1, rf_sum := 0, rf_first := CHR 0x00, rf_length := 0\<rparr>"
  have "fst (frame_feed c f) = ?f" using f(1) True by (simp add: frame_feed_def)
  moreover have "packet_of c [] ?f" using True by (auto simp: packet_of_def)
  ultimately show ?thesis using frame_exactI(2) [of ?f bs c "[]"] f(2) by simp
next
  case False
  then have "rsp_between (bs @ [c])" using f(2) by (intro rsp_between.noise) auto
  moreover have "fst (frame_feed c f) = f" using f(1) False by (simp add: frame_feed_def)
  ultimately show ?thesis using f(1) by (simp add: frame_exactI(1))
qed

lemma packet_of_snoc:
  assumes "packet_of d p f" "c \<noteq> CHR ''#''"
  shows "packet_of d (p @ [c]) (f\<lparr>rf_first := (if rf_length f = 0 then c else rf_first f),
                 rf_length := rf_length f + 1, rf_sum := rf_sum f + byte_word c\<rparr>)"
  using assms by (cases p) (auto simp: packet_of_def checksum_def ac_simps)

lemma step_body:
  assumes f: "rf_phase f = 1" "rsp_between pre" "packet_of d p f"
  shows "frame_exact (pre @ [d] @ p @ [c]) (fst (frame_feed c f))"
proof (cases "c = CHR ''#''")
  case True
  then have "fst (frame_feed c f) = f\<lparr>rf_phase := 2\<rparr>" using f(1) by (simp add: frame_feed_def)
  then show ?thesis using frame_exactI(3) [of "f\<lparr>rf_phase := 2\<rparr>" pre d p] f(2,3) True by simp
next
  case False
  let ?f = "f\<lparr>rf_first := (if rf_length f = 0 then c else rf_first f), rf_length := rf_length f + 1, rf_sum := rf_sum f + byte_word c\<rparr>"
  have "fst (frame_feed c f) = ?f" using f(1) False by (simp add: frame_feed_def)
  then show ?thesis using frame_exactI(2) [of ?f pre d "p @ [c]"] f packet_of_snoc [OF f(3) False] by simp
qed

lemma step_ended:
  assumes f: "rf_phase f = 2" "rsp_between pre" "packet_of d p f"
  shows "frame_exact (pre @ [d] @ p @ [CHR ''#'', c]) (fst (frame_feed c f))"
proof (cases "hexNibble c")
  case None
  then have "fst (frame_feed c f) = f\<lparr>rf_phase := 0\<rparr>" using f(1) by (simp add: frame_feed_def)
  moreover have "rsp_between (pre @ [d] @ p @ [CHR ''#'', c])"
    using rsp_between.broken [OF f(2) packet_of_body [OF f(3)] None] by simp
  ultimately show ?thesis by (simp add: frame_exactI(1))
next
  case (Some n)
  let ?f = "f\<lparr>rf_check := push_bit 4 n, rf_phase := 3\<rparr>"
  have "fst (frame_feed c f) = ?f" using f(1) Some by (simp add: frame_feed_def)
  then show ?thesis using frame_exactI(4) [of ?f pre d p c n] f(2,3) Some by simp
qed

lemma step_digit:
  assumes f: "rf_phase f = 3" "rsp_between pre" "packet_of d p f" "hexNibble h = Some n"
  shows "frame_exact (pre @ [d] @ p @ [CHR ''#'', h, c]) (fst (frame_feed c f))"
proof -
  have "fst (frame_feed c f) = f\<lparr>rf_phase := 0\<rparr>" using f(1) by (simp add: frame_feed_def)
  moreover have "rsp_between (pre @ [d] @ p @ [CHR ''#'', h, c])"
    using rsp_between.packet [OF f(2) packet_of_body [OF f(3)] f(4), of c] by simp
  ultimately show ?thesis by (simp add: frame_exactI(1))
qed

lemma frame_exact_step: "frame_exact bs f \<Longrightarrow> frame_exact (bs @ [c]) (fst (frame_feed c f))"
proof (erule frame_exactE)
  fix pre d p
  assume f: "rf_phase f = 1" "rsp_between pre" "packet_of d p f" and b: "bs = pre @ [d] @ p"
  show ?thesis using step_body [OF f, of c] unfolding b append_assoc .
next
  fix pre d p
  assume f: "rf_phase f = 2" "rsp_between pre" "packet_of d p f" and b: "bs = pre @ [d] @ p @ [CHR ''#'']"
  show ?thesis using step_ended [OF f, of c] unfolding b append_assoc append_Cons append_Nil .
next
  fix pre d p h n
  assume f: "rf_phase f = 3" "rsp_between pre" "packet_of d p f" and b: "bs = pre @ [d] @ p @ [CHR ''#'', h]" and h: "hexNibble h = Some n"
  show ?thesis using step_digit [OF f h, of c] unfolding b append_assoc append_Cons append_Nil .
qed (rule step_between)

lemma frame_exact_after: "frame_exact bs (frame_after bs zero_frame)"
proof (induction bs rule: rev_induct)
  case Nil
  show ?case by (rule frame_exactI(1)) (simp_all add: frame_after_def zero_frame_def rsp_between.start)
next
  case (snoc c bs)
  then show ?case unfolding frame_after_snoc by (rule frame_exact_step)
qed

text \<open>Conversely the streams of the grammar lead between packets, and a packet's bytes to its frame.\<close>

lemma frame_after_append: "frame_after (a @ b) f = frame_after b (frame_after a f)"
  by (simp add: frame_after_def)

lemma frame_after_Cons: "frame_after (c # bs) f = frame_after bs (fst (frame_feed c f))"
  by (simp add: frame_after_def)

lemma payload_frame:
  assumes "rf_phase f = 1" "packet_of d q f" "CHR ''#'' \<notin> set p"
  shows "rf_phase (frame_after p f) = 1 \<and> packet_of d (q @ p) (frame_after p f)"
  using assms
proof (induction p arbitrary: f q)
  case (Cons c p)
  let ?f = "fst (frame_feed c f)"
  have c: "c \<noteq> CHR ''#''" using Cons.prems(3) by auto
  have f: "?f = f\<lparr>rf_first := (if rf_length f = 0 then c else rf_first f), rf_length := rf_length f + 1, rf_sum := rf_sum f + byte_word c\<rparr>"
    using Cons.prems(1) c by (simp add: frame_feed_def)
  have "packet_of d (q @ [c]) ?f"
    unfolding f using Cons.prems(2) c by (cases q) (auto simp: packet_of_def checksum_def ac_simps)
  moreover have "rf_phase ?f = 1" unfolding f using Cons.prems(1) by simp
  ultimately show ?case using Cons.IH [of ?f "q @ [c]"] Cons.prems(3) by (simp add: frame_after_Cons)
qed (simp add: frame_after_def)

lemma body_frame:
  assumes "rf_phase f = 0" "packet_body d p q"
  shows "rf_phase (frame_after q f) = 2 \<and> packet_of d p (frame_after q f)"
proof -
  have d: "d = CHR 0x24 \<or> d = CHR ''%''" and p: "CHR ''#'' \<notin> set p" and q: "q = d # p @ [CHR ''#'']"
    using assms(2) unfolding packet_body_def by simp_all
  obtain g where g: "g = fst (frame_feed d f)" by simp
  have f: "rf_phase g = 1" "packet_of d [] g" using assms(1) d unfolding g by (auto simp: frame_feed_def packet_of_def)
  obtain h where h: "h = frame_after p g" by simp
  have "rf_phase h = 1" "packet_of d p h" using payload_frame [OF f p] unfolding h by simp_all
  moreover have "frame_after q f = fst (frame_feed (CHR ''#'') h)"
    unfolding q h g frame_after_def by simp
  ultimately show ?thesis by (simp add: frame_feed_def)
qed

lemma valid_feed:
  assumes "frame_exact bs g" "frame_feed c g = (f, True, True)"
  obtains pre d p h n m where "rsp_between pre" "bs @ [c] = pre @ [d] @ p @ [CHR ''#'', h, c]" "d \<in> {CHR 0x24, CHR ''%''}"
    "CHR ''#'' \<notin> set p" "hexNibble h = Some n" "hexNibble c = Some m" "or (push_bit 4 n) m = checksum p"
    "rf_length f = length p" "p \<noteq> [] \<longrightarrow> rf_first f = hd p"
proof -
  have ph: "rf_phase g = 3" using assms(2) by (auto simp: frame_feed_def split: if_splits option.splits)
  obtain m where m: "hexNibble c = Some m" "or (rf_check g) m = rf_sum g" "f = g\<lparr>rf_phase := 0\<rparr>"
    using assms(2) ph by (auto simp: frame_feed_def split: option.splits)
  from assms(1) show ?thesis
  proof (cases rule: frame_exactE)
    case (digit pre d p h n)
    then show ?thesis using that [of pre d p h n m] m unfolding packet_of_def by simp
  qed (use ph in simp_all)
qed

lemma between_phase: "rsp_between bs \<Longrightarrow> rf_phase (frame_after bs zero_frame) = 0"
proof (induction rule: rsp_between.induct)
  case start
  show ?case by (simp add: frame_after_def zero_frame_def)
next
  case (noise bs c)
  then show ?case unfolding frame_after_snoc by (simp add: frame_feed_def)
next
  case (broken bs d p q h)
  let ?g = "frame_after q (frame_after bs zero_frame)"
  have "rf_phase ?g = 2" using body_frame [OF broken.IH broken(2)] by simp
  moreover have "frame_after (bs @ q @ [h]) zero_frame = fst (frame_feed h ?g)"
    by (simp add: frame_after_def)
  ultimately show ?case using broken(3) by (simp add: frame_feed_def)
next
  case (packet bs d p q h n c)
  let ?g = "frame_after q (frame_after bs zero_frame)"
  have "rf_phase ?g = 2" using body_frame [OF packet.IH packet(2)] by simp
  then have "rf_phase (fst (frame_feed h ?g)) = 3" using packet(3) by (simp add: frame_feed_def)
  moreover have "frame_after (bs @ q @ [h, c]) zero_frame = fst (frame_feed c (fst (frame_feed h ?g)))"
    by (simp add: frame_after_def)
  ultimately show ?case by (simp add: frame_feed_def)
qed

text \<open>
  C10 The observer recognises exactly the packets whose checksum is right, however the target's bytes are cut into reads: it reports a
  complete valid packet at a byte if and only if the stream up to that byte is one that leaves no packet open, followed by a packet whose payload
  has no \<open>#\<close> and whose two hexadecimal digits are the payload's byte sum modulo 256; and then the first byte and the length it
  recorded are the payload's.
\<close>

theorem rsp_valid_packet:
  "(snd (frame_feed c (frame_after bs zero_frame)) = (True, True) \<longleftrightarrow>
      (\<exists>pre d p h n m. rsp_between pre \<and> bs @ [c] = pre @ [d] @ p @ [CHR ''#'', h, c] \<and> d \<in> {CHR 0x24, CHR ''%''} \<and>
         CHR ''#'' \<notin> set p \<and> hexNibble h = Some n \<and> hexNibble c = Some m \<and> or (push_bit 4 n) m = checksum p)) \<and>
   (\<forall>f. frame_feed c (frame_after bs zero_frame) = (f, True, True) \<longrightarrow>
      (\<exists>pre d p h. rsp_between pre \<and> bs @ [c] = pre @ [d] @ p @ [CHR ''#'', h, c] \<and> CHR ''#'' \<notin> set p \<and>
         rf_length f = length p \<and> (p \<noteq> [] \<longrightarrow> rf_first f = hd p)))"
proof (intro conjI iffI allI impI)
  let ?g = "frame_after bs zero_frame"
  assume "snd (frame_feed c ?g) = (True, True)"
  then obtain f where "frame_feed c ?g = (f, True, True)" by (cases "frame_feed c ?g") simp
  then show "\<exists>pre d p h n m. rsp_between pre \<and> bs @ [c] = pre @ [d] @ p @ [CHR ''#'', h, c] \<and> d \<in> {CHR 0x24, CHR ''%''} \<and>
         CHR ''#'' \<notin> set p \<and> hexNibble h = Some n \<and> hexNibble c = Some m \<and> or (push_bit 4 n) m = checksum p"
    by (rule valid_feed [OF frame_exact_after]) (intro exI conjI)
next
  fix f
  assume "frame_feed c (frame_after bs zero_frame) = (f, True, True)"
  then show "\<exists>pre d p h. rsp_between pre \<and> bs @ [c] = pre @ [d] @ p @ [CHR ''#'', h, c] \<and> CHR ''#'' \<notin> set p \<and>
         rf_length f = length p \<and> (p \<noteq> [] \<longrightarrow> rf_first f = hd p)"
    by (rule valid_feed [OF frame_exact_after]) (intro exI conjI)
next
  let ?g = "frame_after bs zero_frame"
  assume "\<exists>pre d p h n m. rsp_between pre \<and> bs @ [c] = pre @ [d] @ p @ [CHR ''#'', h, c] \<and> d \<in> {CHR 0x24, CHR ''%''} \<and>
         CHR ''#'' \<notin> set p \<and> hexNibble h = Some n \<and> hexNibble c = Some m \<and> or (push_bit 4 n) m = checksum p"
  then obtain pre d p h n m where s: "rsp_between pre" "bs @ [c] = pre @ [d] @ p @ [CHR ''#'', h, c]" "d \<in> {CHR 0x24, CHR ''%''}"
      "CHR ''#'' \<notin> set p" "hexNibble h = Some n" "hexNibble c = Some m" "or (push_bit 4 n) m = checksum p"
    by (elim exE conjE)
  let ?q = "[d] @ p @ [CHR ''#'']"
  obtain e where e: "e = frame_after ?q (frame_after pre zero_frame)" by simp
  have "packet_body d p ?q" using s(3,4) by (simp add: packet_body_def)
  then have body: "rf_phase e = 2" "packet_of d p e" using body_frame [OF between_phase [OF s(1)]] unfolding e by simp_all
  have "bs = pre @ ?q @ [h]" using s(2) by simp
  then have "?g = fst (frame_feed h e)" unfolding e frame_after_def by simp
  then have "rf_phase ?g = 3" "rf_check ?g = push_bit 4 n" "rf_sum ?g = checksum p"
    using body s(5) by (simp_all add: frame_feed_def packet_of_def)
  then show "snd (frame_feed c ?g) = (True, True)" using s(6,7) by (simp add: frame_feed_def)
qed

theorem rsp_valid_packet_witness:
  "\<exists>f. frame_feed (CHR ''7'') (frame_after [CHR 0x24, CHR ''W'', CHR ''0'', CHR ''0'', CHR ''#'', CHR ''b''] zero_frame)
      = (f, True, True) \<and> rf_length f = 3"
proof -
  let ?bs = "[CHR 0x24, CHR ''W'', CHR ''0'', CHR ''0'', CHR ''#'', CHR ''b'']"
  have n: "hexNibble (CHR ''b'') = Some 11" "hexNibble (CHR ''7'') = Some 7" "or (push_bit 4 11) 7 = checksum ''W00''" by code_simp+
  have "snd (frame_feed (CHR ''7'') (frame_after ?bs zero_frame)) = (True, True)"
    unfolding conjunct1 [OF rsp_valid_packet]
    by (rule exI [of _ "[]"], rule exI [of _ "CHR 0x24"], rule exI [of _ "''W00''"], rule exI [of _ "CHR ''b''"],
        rule exI [of _ 11], rule exI [of _ 7], intro conjI) (rule n rsp_between.start | simp)+
  then obtain f where f: "frame_feed (CHR ''7'') (frame_after ?bs zero_frame) = (f, True, True)"
    by (cases "frame_feed (CHR ''7'') (frame_after ?bs zero_frame)") simp
  have "rf_length (fst (frame_feed (CHR ''7'') (frame_after ?bs zero_frame))) = 3" by code_simp
  then show ?thesis using f by simp
qed

section \<open>The exit-acknowledgement tracker\<close>

record ack_tracker =
  tk_target :: rsp_frame
  tk_client :: rsp_frame
  tk_pending :: bool
  tk_pendingExit :: bool
  tk_lastACK :: bool
  tk_ack :: bool

definition zero_tracker :: ack_tracker where
  "zero_tracker = \<lparr>tk_target = zero_frame, tk_client = zero_frame, tk_pending = False,
     tk_pendingExit = False, tk_lastACK = False, tk_ack = False\<rparr>"

definition target_byte :: "byte \<Rightarrow> ack_tracker \<Rightarrow> ack_tracker" where
  "target_byte b t =
     (case frame_feed b (tk_target t) of (f, complete, valid) \<Rightarrow>
        let t1 = t\<lparr>tk_target := f\<rparr>
        in if complete \<and> valid
           then let ex = (rf_first f = CHR ''W'' \<or> rf_first f = CHR ''X'')
                in t1\<lparr>tk_pending := True, tk_pendingExit := ex, tk_lastACK := False,
                      tk_ack := (if ex then False else tk_ack t1)\<rparr>
           else t1)"

definition client_byte :: "byte \<Rightarrow> ack_tracker \<Rightarrow> ack_tracker" where
  "client_byte b t =
     (let t1 = (if rf_phase (tk_client t) = 0 \<and> b = CHR ''+'' \<and> tk_pending t
                then t\<lparr>tk_pending := False, tk_lastACK := True,
                       tk_ack := (if tk_pendingExit t then True else tk_ack t)\<rparr>
                else t)
      in t1\<lparr>tk_client := fst (frame_feed b (tk_client t1))\<rparr>)"

definition tracker_target :: "byte list \<Rightarrow> ack_tracker \<Rightarrow> ack_tracker" where
  "tracker_target data t = fold target_byte data t"

definition tracker_client :: "byte list \<Rightarrow> ack_tracker \<Rightarrow> ack_tracker" where
  "tracker_client data t = fold client_byte data t"

definition tracker_acknowledged :: "ack_tracker \<Rightarrow> bool" where
  "tracker_acknowledged t = tk_ack t"

record relay_result =
  rr_exitACK :: bool
  rr_lastACK :: bool

definition tracker_result :: "ack_tracker \<Rightarrow> relay_result" where
  "tracker_result t = \<lparr>rr_exitACK = tk_ack t, rr_lastACK = tk_lastACK t\<rparr>"

text \<open>The two pumps call the tracker with fragments in any interleaving.\<close>

datatype fragment = FromTarget "byte list" | FromClient "byte list"

fun tracker_step :: "fragment \<Rightarrow> ack_tracker \<Rightarrow> ack_tracker" where
  "tracker_step (FromTarget d) t = tracker_target d t"
| "tracker_step (FromClient d) t = tracker_client d t"

text \<open>The target's bytes so far, and what they say about the tracker.\<close>

fun target_bytes :: "fragment list \<Rightarrow> byte list" where
  "target_bytes [] = []"
| "target_bytes (FromTarget d # fs) = d @ target_bytes fs"
| "target_bytes (FromClient d # fs) = target_bytes fs"

lemma target_bytes_append [simp]: "target_bytes (xs @ ys) = target_bytes xs @ target_bytes ys"
  by (induction xs rule: target_bytes.induct) auto

definition exit_packet_in :: "byte list \<Rightarrow> bool" where
  "exit_packet_in bs \<longleftrightarrow>
     (\<exists>pre c. (\<exists>post. bs = pre @ [c] @ post) \<and>
        (\<exists>f. frame_feed c (frame_after pre zero_frame) = (f, True, True) \<and> rf_first f \<in> {CHR ''W'', CHR ''X''}))"

lemma exit_packet_mono: "exit_packet_in bs \<Longrightarrow> exit_packet_in (bs @ xs)"
  unfolding exit_packet_in_def by (metis append.assoc)

definition tracker_ok :: "byte list \<Rightarrow> ack_tracker \<Rightarrow> bool" where
  "tracker_ok bs t \<longleftrightarrow> tk_target t = frame_after bs zero_frame \<and>
     (tk_pendingExit t \<longrightarrow> exit_packet_in bs) \<and> (tk_ack t \<longrightarrow> exit_packet_in bs)"

lemma target_byte_ok:
  assumes "tracker_ok bs t"
  shows "tracker_ok (bs @ [b]) (target_byte b t)"
proof -
  obtain f co va where f: "frame_feed b (frame_after bs zero_frame) = (f, co, va)" by (metis prod_cases3)
  have fr: "frame_after (bs @ [b]) zero_frame = f" using f by (simp add: frame_after_snoc)
  have t: "tk_target t = frame_after bs zero_frame" using assms by (simp add: tracker_ok_def)
  have ex: "exit_packet_in (bs @ [b])" if "co" "va" "rf_first f \<in> {CHR ''W'', CHR ''X''}"
    unfolding exit_packet_in_def using f that by (intro exI [of _ bs] exI [of _ b]) auto
  show ?thesis
    using assms f fr ex exit_packet_mono [of bs "[b]"]
    by (auto simp: tracker_ok_def target_byte_def t Let_def)
qed

lemma client_byte_ok: "tracker_ok bs t \<Longrightarrow> tracker_ok bs (client_byte b t)"
  by (auto simp: tracker_ok_def client_byte_def Let_def)

lemma tracker_target_ok: "tracker_ok bs t \<Longrightarrow> tracker_ok (bs @ d) (tracker_target d t)"
proof (induction d arbitrary: bs t)
  case (Cons b d)
  from Cons.IH [OF target_byte_ok [OF Cons.prems, of b]] show ?case by (simp add: tracker_target_def)
qed (simp add: tracker_target_def)

lemma tracker_client_ok: "tracker_ok bs t \<Longrightarrow> tracker_ok bs (tracker_client d t)"
  by (induction d arbitrary: t) (auto simp: tracker_client_def client_byte_ok)

lemma tracker_run_ok: "tracker_ok bs t \<Longrightarrow> tracker_ok (bs @ target_bytes fs) (fold tracker_step fs t)"
proof (induction fs arbitrary: bs t)
  case (Cons f fs)
  then show ?case
    by (cases f) (use tracker_target_ok tracker_client_ok in fastforce)+
qed simp

text \<open>
  No false exit evidence: whatever the two directions carry and however it is
  fragmented and interleaved, the relay reports that GDB acknowledged the exit
  only if the target really sent a checksum-valid \<open>W\<close> or \<open>X\<close> packet; and while no
  client byte has arrived since, an acknowledgement of it is not reported.
\<close>

theorem rsp_exit_ack_sound:
  assumes "rr_exitACK (tracker_result (fold tracker_step fs zero_tracker))"
  shows "exit_packet_in (target_bytes fs)"
proof -
  have "tracker_ok [] zero_tracker"
    by (simp add: tracker_ok_def zero_tracker_def frame_after_def)
  from tracker_run_ok [OF this, of fs] assms show ?thesis
    by (simp add: tracker_ok_def tracker_result_def)
qed

theorem rsp_exit_ack_sound_witness:
  "exit_packet_in [CHR 0x24, CHR ''W'', CHR ''0'', CHR ''0'', CHR ''#'', CHR ''b'', CHR ''7'']"
proof -
  let ?fs = "[FromTarget [CHR 0x24, CHR ''W'', CHR ''0''], FromTarget [CHR ''0'', CHR ''#'', CHR ''b'', CHR ''7''],
      FromClient [CHR ''+'']]"
  have "rr_exitACK (tracker_result (fold tracker_step ?fs zero_tracker))" by code_simp
  from rsp_exit_ack_sound [OF this] show ?thesis by simp
qed

section \<open>The relay\<close>

text \<open>
  \<open>writeAll\<close>: \<open>w k p\<close> is what write call \<open>k\<close> answers when offered \<open>p\<close>. The
  code relies on the \<open>io.Writer\<close> contract that the count is at most the bytes
  offered (it would panic otherwise); the minimum makes the model total.
\<close>

function rsp_writeAll :: "(nat \<Rightarrow> byte list \<Rightarrow> nat \<times> goerr option) \<Rightarrow> nat \<Rightarrow> byte list \<Rightarrow> nat \<Rightarrow> nat \<times> goerr option" where
  "rsp_writeAll w k b done_n =
     (if b = [] then (done_n, None)
      else
        let (n0, e) = w k b; n = min n0 (length b)
        in case e of
             Some err \<Rightarrow> (done_n + n, Some err)
           | None \<Rightarrow> if n = 0 then (done_n + n, Some IoErrShortWrite)
                     else rsp_writeAll w (Suc k) (drop n b) (done_n + n))"
  by pat_completeness auto
termination by (relation "measure (\<lambda>(w, k, b, done_n). length b)") auto

declare rsp_writeAll.simps [simp del]

text \<open>Which of the two directions' errors the relay reports; \<open>None\<close> is a clean end.\<close>

definition ErrNetClosed :: goerr where "ErrNetClosed = ErrSentinel ''net.ErrClosed''"

definition relay_error :: "goerr option \<Rightarrow> goerr option \<Rightarrow> goerr option" where
  "relay_error e other =
     (let is = (\<lambda>x t. case x of None \<Rightarrow> False | Some err \<Rightarrow> err_is err t);
          e1 = (if is other ErrDataLost \<or>
                   ((is e IoEOF \<or> is e CtxCanceled \<or> is e ErrNetClosed) \<and> other \<noteq> None \<and>
                    \<not> is other CtxCanceled \<and> \<not> is other ErrNetClosed)
                then other else e)
      in if is e1 IoEOF then None else e1)"

lemma rsp_writeAll_spec:
  "rsp_writeAll w k b done_n = (n, e) \<Longrightarrow> done_n \<le> n \<and> n - done_n \<le> length b \<and> (e = None \<longrightarrow> n = done_n + length b)"
proof (induction w k b done_n rule: rsp_writeAll.induct)
  case (1 w k b done_n)
  obtain n0 e0 where c: "w k b = (n0, e0)" by (cases "w k b") auto
  show ?case
  proof (cases "b = [] \<or> e0 \<noteq> None \<or> min n0 (length b) = 0")
    case True
    then show ?thesis using "1.prems" c
      by (auto simp: rsp_writeAll.simps [of w k b done_n] Let_def split: if_splits option.splits)
  next
    case False
    define m where "m = min n0 (length b)"
    have ne: "b \<noteq> []" "e0 = None" "m \<noteq> 0" using False by (auto simp: m_def)
    then have r: "rsp_writeAll w (Suc k) (drop m b) (done_n + m) = (n, e)"
      using "1.prems" c by (simp add: rsp_writeAll.simps [of w k b done_n] m_def [symmetric] Let_def)
    have "m \<le> length b" by (simp add: m_def)
    with "1.IH" [OF ne(1) refl c [symmetric] m_def ne(2,3) r] show ?thesis by auto
  qed
qed

text \<open>
  Lost target bytes are never hidden: when either direction of the relay ended
  with lost data and the other with an end of file, a cancellation or a closed
  socket, the relay reports the data loss.
\<close>

theorem relay_reports_loss:
  assumes "x = Some e" "err_is e ErrDataLost" "\<not> err_is e IoEOF" "\<not> err_is e CtxCanceled" "\<not> err_is e ErrNetClosed"
    and "y \<in> {None, Some IoEOF, Some CtxCanceled, Some ErrNetClosed}"
  shows "relay_error x y = x \<and> relay_error y x = x"
  using assms by (auto simp: relay_error_def ErrNetClosed_def Let_def)

theorem relay_reports_loss_witness: "relay_error (Some IoEOF) (Some ErrDataLost) = Some ErrDataLost"
  using relay_reports_loss [of "Some ErrDataLost" ErrDataLost "Some IoEOF"] by (simp add: ErrNetClosed_def)

end
