(* ===== verification/Debugger_Ports.thy ===== *)
theory Debugger_Ports
  imports Go_Strings
begin

text \<open>
  \<open>EndpointAllocator\<close> of \<open>internal/core/debugger/endpoint.go\<close>: the reservations of RSP
  listening addresses. \<open>held\<close> is the set of reserved addresses (a list without
  duplicates), \<open>int\<close> ports are HOL integers. \<open>net.Listen\<close> is a parameter, indexed by
  the number of its calls within one \<open>bind\<close>, since it may answer the same address
  differently each time; a listener is its address string, whether its IP is
  127.0.0.1, and its port. The release function \<open>bind\<close> returns is the pair of the
  values it captures.
\<close>

record net_listener =
  nl_addr :: string
  nl_loopback :: bool
  nl_port :: int

record endpoint_allocator =
  ea_held :: "string list"
  ea_next :: int
  ea_poolHeld :: int
  ea_first :: int
  ea_last :: int

type_synonym listen_fn = "nat \<Rightarrow> string \<Rightarrow> goerr + net_listener"

definition zero_allocator :: endpoint_allocator where
  "zero_allocator = \<lparr>ea_held = [], ea_next = 0, ea_poolHeld = 0, ea_first = 0, ea_last = 0\<rparr>"

definition pool_range :: "endpoint_allocator \<Rightarrow> int \<times> int" where
  "pool_range a = (if ea_first a = 0 then (37100, 37999) else (ea_first a, ea_last a))"

definition pool_candidate :: "int \<Rightarrow> string" where
  "pool_candidate port = ''127.0.0.1:'' @ format_int port"

text \<open>The closure \<open>bind\<close>, with the number of \<open>listen\<close> calls so far.\<close>

definition bind_address :: "listen_fn \<Rightarrow> nat \<Rightarrow> endpoint_allocator \<Rightarrow> string \<Rightarrow> (goerr + net_listener) \<times> nat" where
  "bind_address listen k a address =
     (if address \<in> set (ea_held a)
      then (Inl (ErrText (''RSP endpoint '' @ address @ '' is reserved by an unfinished bridge'')), k)
      else case listen k address of
             Inl e \<Rightarrow> (Inl (ErrWrap e (''bind RSP endpoint '' @ address)), Suc k)
           | Inr l \<Rightarrow>
               if nl_addr l \<in> set (ea_held a)
               then (Inl (ErrText ''OS selected an RSP endpoint reserved by an unfinished bridge''), Suc k)
               else (Inr l, Suc k))"

text \<open>The pool scan: \<open>err\<close> is the last error, \<open>remaining\<close> the loop variable.\<close>

fun pool_scan ::
  "listen_fn \<Rightarrow> int \<Rightarrow> int \<Rightarrow> nat \<Rightarrow> nat \<Rightarrow> endpoint_allocator \<Rightarrow> goerr
     \<Rightarrow> (goerr + net_listener) \<times> nat \<times> endpoint_allocator" where
  "pool_scan listen lo hi 0 k a err = (Inl err, k, a)"
| "pool_scan listen lo hi (Suc remaining) k a err =
     (let candidate = pool_candidate (ea_next a);
          n = (if ea_next a + 1 > hi then lo else ea_next a + 1);
          a1 = a\<lparr>ea_next := n\<rparr>
      in if candidate \<in> set (ea_held a1) then pool_scan listen lo hi remaining k a1 err
         else case bind_address listen k a1 candidate of
                (Inr l, k1) \<Rightarrow> (Inr l, k1, a1)
              | (Inl e, k1) \<Rightarrow> pool_scan listen lo hi remaining k1 a1 e)"

definition in_pool :: "int \<Rightarrow> int \<Rightarrow> net_listener \<Rightarrow> bool" where
  "in_pool lo hi l \<longleftrightarrow> nl_loopback l \<and> lo \<le> nl_port l \<and> nl_port l \<le> hi"

definition reserve :: "int \<Rightarrow> int \<Rightarrow> net_listener \<Rightarrow> endpoint_allocator \<Rightarrow> endpoint_allocator" where
  "reserve lo hi l a =
     a\<lparr>ea_held := ea_held a @ [nl_addr l],
       ea_poolHeld := ea_poolHeld a + (if in_pool lo hi l then 1 else 0)\<rparr>"

definition allocator_bind ::
  "listen_fn \<Rightarrow> string \<Rightarrow> bool \<Rightarrow> bool \<Rightarrow> endpoint_allocator
     \<Rightarrow> (goerr + net_listener \<times> (string \<times> bool)) \<times> endpoint_allocator" where
  "allocator_bind listen address automatic strict a =
     (let (lo, hi) = pool_range a;
          a0 = (if automatic \<and> ea_next a = 0 then a\<lparr>ea_next := lo\<rparr> else a);
          none = ErrText ''all pool ports are reserved by unfinished bridges'';
          remaining = (if automatic \<and> ea_poolHeld a0 < hi - lo + 1 then nat (hi - lo + 1) else 0);
          (r, k, a1) = pool_scan listen lo hi remaining 0 a0 none
      in case r of
           Inr l \<Rightarrow> (Inr (l, (nl_addr l, in_pool lo hi l)), reserve lo hi l a1)
         | Inl e \<Rightarrow>
             if automatic \<and> strict
             then (Inl (ErrWrap e (''RSP port pool '' @ format_int lo @ ''..'' @ format_int hi @ '' exhausted'')), a1)
             else case bind_address listen k a1 address of
                    (Inl e2, k2) \<Rightarrow> (Inl e2, a1)
                  | (Inr l, k2) \<Rightarrow> (Inr (l, (nl_addr l, in_pool lo hi l)), reserve lo hi l a1))"

definition allocator_release :: "string \<times> bool \<Rightarrow> endpoint_allocator \<Rightarrow> endpoint_allocator" where
  "allocator_release rel a =
     a\<lparr>ea_held := filter (\<lambda>x. x \<noteq> fst rel) (ea_held a),
       ea_poolHeld := ea_poolHeld a - (if snd rel then 1 else 0)\<rparr>"

section \<open>The pool scan is complete\<close>

text \<open>\<open>port_after lo hi p n\<close> is the cursor after \<open>n\<close> steps from \<open>p\<close>.\<close>

fun port_after :: "int \<Rightarrow> int \<Rightarrow> int \<Rightarrow> nat \<Rightarrow> int" where
  "port_after lo hi p 0 = p"
| "port_after lo hi p (Suc n) = port_after lo hi (if p + 1 > hi then lo else p + 1) n"

lemma port_after_mod:
  assumes "lo \<le> p" "p \<le> hi"
  shows "port_after lo hi p n = lo + (p - lo + int n) mod (hi - lo + 1)"
  using assms
proof (induction n arbitrary: p)
  case (Suc n)
  show ?case
  proof (cases "p + 1 > hi")
    case True
    then have p: "p = hi" using Suc.prems by simp
    have "(hi - lo + int (Suc n)) mod (hi - lo + 1) = (int n + (hi - lo + 1)) mod (hi - lo + 1)"
      by (simp add: algebra_simps)
    then show ?thesis using Suc.IH [of lo] Suc.prems p by simp
  next
    case False
    then show ?thesis using Suc.IH [of "p + 1"] Suc.prems by (simp add: algebra_simps)
  qed
qed simp

lemma port_after_covers:
  assumes "lo \<le> p" "p \<le> hi" "lo \<le> q" "q \<le> hi"
  shows "\<exists>n < nat (hi - lo + 1). port_after lo hi p n = q"
proof -
  let ?m = "hi - lo + 1"
  let ?n = "nat ((q - p) mod ?m)"
  have m: "0 < ?m" using assms by simp
  then have "int ?n = (q - p) mod ?m" by simp
  then have "(p - lo + int ?n) mod ?m = (q - lo) mod ?m"
    by (metis add_diff_cancel_left' add_diff_eq diff_add_cancel diff_add_eq mod_add_right_eq)
  also have "\<dots> = q - lo" using assms by simp
  finally have "port_after lo hi p ?n = q" using port_after_mod [OF assms(1,2)] by simp
  moreover have "?n < nat ?m" using m pos_mod_bound [OF m, of "q - p"] by (simp only: nat_less_eq_zless pos_mod_sign)
  ultimately show ?thesis by blast
qed

text \<open>
  A candidate was refused: it is reserved, or one of the first \<open>m\<close> calls of \<open>listen\<close>
  refused it or got a reserved address for it.
\<close>

definition refused :: "listen_fn \<Rightarrow> nat \<Rightarrow> endpoint_allocator \<Rightarrow> string \<Rightarrow> bool" where
  "refused listen m a address \<longleftrightarrow>
     address \<in> set (ea_held a) \<or>
     (\<exists>k < m. case listen k address of Inl e \<Rightarrow> True | Inr l \<Rightarrow> nl_addr l \<in> set (ea_held a))"

lemma bind_address_refused:
  "bind_address listen k a address = (Inl e, k1) \<Longrightarrow> refused listen (Suc k) a address"
  by (auto simp: bind_address_def refused_def split: if_splits sum.splits intro: exI [of _ k])

lemma bind_address_calls: "bind_address listen k a address = (r, k1) \<Longrightarrow> k1 \<le> Suc k"
  by (auto simp: bind_address_def split: if_splits sum.splits)

lemma refused_mono: "refused listen m a address \<Longrightarrow> m \<le> m' \<Longrightarrow> refused listen m' a address"
  by (force simp: refused_def)

lemma bind_address_ok:
  "bind_address listen k a address = (Inr l, k1) \<Longrightarrow> nl_addr l \<notin> set (ea_held a) \<and> listen k address = Inr l"
  by (auto simp: bind_address_def split: if_splits sum.splits)

lemma bind_address_next: "bind_address listen k (a\<lparr>ea_next := n\<rparr>) address = bind_address listen k a address"
  by (simp add: bind_address_def split: sum.splits)

lemma refused_next: "refused listen m (a\<lparr>ea_next := n\<rparr>) address = refused listen m a address"
  by (simp add: refused_def split: sum.splits)

definition scan_post ::
  "listen_fn \<Rightarrow> nat \<Rightarrow> int \<Rightarrow> int \<Rightarrow> nat \<Rightarrow> endpoint_allocator \<Rightarrow> goerr + net_listener \<Rightarrow> endpoint_allocator \<Rightarrow> bool" where
  "scan_post listen m lo hi n a r a' \<longleftrightarrow>
     ea_held a' = ea_held a \<and> ea_poolHeld a' = ea_poolHeld a \<and> ea_first a' = ea_first a \<and> ea_last a' = ea_last a \<and>
     (lo \<le> ea_next a \<and> ea_next a \<le> hi \<longrightarrow> lo \<le> ea_next a' \<and> ea_next a' \<le> hi) \<and>
     (case r of
        Inl e \<Rightarrow> \<forall>i < n. refused listen m a (pool_candidate (port_after lo hi (ea_next a) i))
      | Inr l \<Rightarrow> nl_addr l \<notin> set (ea_held a) \<and>
          (\<exists>i < n. \<exists>j. listen j (pool_candidate (port_after lo hi (ea_next a) i)) = Inr l))"

lemma scan_post_step:
  assumes p: "scan_post listen m1 lo hi n (a\<lparr>ea_next := nx\<rparr>) r a'" and m1: "m1 \<le> m" and ref: "refused listen m a (pool_candidate (ea_next a))"
    and nx: "nx = (if ea_next a + 1 > hi then lo else ea_next a + 1)"
  shows "scan_post listen m lo hi (Suc n) a r a'"
proof -
  have ps: "port_after lo hi (ea_next a) (Suc i) = port_after lo hi nx i" for i by (simp add: nx)
  have range: "lo \<le> ea_next a \<and> ea_next a \<le> hi \<longrightarrow> lo \<le> nx \<and> nx \<le> hi" by (auto simp: nx)
  show ?thesis
  proof (cases r)
    case (Inl e)
    have "refused listen m a (pool_candidate (port_after lo hi (ea_next a) i))" if "i < Suc n" for i
      using that p Inl ref ps refused_mono [OF _ m1] by (cases i) (simp_all add: scan_post_def refused_next)
    then show ?thesis using p range Inl by (auto simp: scan_post_def)
  next
    case (Inr l)
    then obtain i j where "i < n" "listen j (pool_candidate (port_after lo hi nx i)) = Inr l"
      using p by (auto simp: scan_post_def)
    then have "\<exists>i < Suc n. \<exists>j. listen j (pool_candidate (port_after lo hi (ea_next a) i)) = Inr l"
      using ps by (intro exI [of _ "Suc i"]) auto
    then show ?thesis using p range Inr by (auto simp: scan_post_def)
  qed
qed

lemma pool_scan_spec:
  "pool_scan listen lo hi n k a err = (r, k', a') \<Longrightarrow> scan_post listen (k + n) lo hi n a r a'"
proof (induction n arbitrary: k a err)
  case 0
  then show ?case by (auto simp: scan_post_def)
next
  case (Suc n)
  define nx where "nx = (if ea_next a + 1 > hi then lo else ea_next a + 1)"
  define c where "c = pool_candidate (ea_next a)"
  show ?case
  proof (cases "c \<in> set (ea_held a)")
    case True
    have "pool_scan listen lo hi n k (a\<lparr>ea_next := nx\<rparr>) err = (r, k', a')"
      using Suc.prems True by (simp add: c_def nx_def Let_def)
    from scan_post_step [OF Suc.IH [OF this] _ _ nx_def, of "k + Suc n"] True show ?thesis by (simp add: refused_def c_def)
  next
    case False
    obtain b k1 where b: "bind_address listen k a c = (b, k1)" by (metis surj_pair)
    show ?thesis
    proof (cases b)
      case (Inl e)
      have "pool_scan listen lo hi n k1 (a\<lparr>ea_next := nx\<rparr>) e = (r, k', a')"
        using Suc.prems False b Inl by (simp add: c_def nx_def Let_def bind_address_next)
      from scan_post_step [OF Suc.IH [OF this] _ _ nx_def, of "k + Suc n"] bind_address_calls [OF b]
        refused_mono [OF bind_address_refused [OF b [unfolded Inl]], of "k + Suc n"]
      show ?thesis by (simp add: c_def)
    next
      case (Inr l)
      have e: "r = Inr l" "a' = a\<lparr>ea_next := nx\<rparr>"
        using Suc.prems False b Inr by (simp_all add: c_def nx_def Let_def bind_address_next)
      have "nl_addr l \<notin> set (ea_held a)" "listen k c = Inr l"
        using bind_address_ok [OF b [unfolded Inr]] by auto
      moreover have "lo \<le> ea_next a \<and> ea_next a \<le> hi \<longrightarrow> lo \<le> nx \<and> nx \<le> hi" by (auto simp: nx_def)
      moreover have "\<exists>i < Suc n. \<exists>j. listen j (pool_candidate (port_after lo hi (ea_next a) i)) = Inr l"
        using calculation(2) by (intro exI [of _ 0]) (auto simp: c_def)
      ultimately show ?thesis by (simp add: scan_post_def e)
    qed
  qed
qed

section \<open>Reservations over a sequence of bridges\<close>

text \<open>
  Binds and releases in any order; \<open>out\<close> lists the release functions not called yet,
  each of which the owner calls once.
\<close>

datatype allocator_op =
    Bind listen_fn string bool bool
  | Release "string \<times> bool"

fun allocator_exec ::
  "allocator_op \<Rightarrow> endpoint_allocator \<times> (string \<times> bool) list \<Rightarrow> (endpoint_allocator \<times> (string \<times> bool) list) option" where
  "allocator_exec (Bind listen address automatic strict) (a, out) =
     (case allocator_bind listen address automatic strict a of
        (Inl e, a') \<Rightarrow> Some (a', out)
      | (Inr (l, rel), a') \<Rightarrow> Some (a', out @ [rel]))"
| "allocator_exec (Release rel) (a, out) =
     (if rel \<in> set out then Some (allocator_release rel a, remove1 rel out) else None)"

fun allocator_run ::
  "allocator_op list \<Rightarrow> endpoint_allocator \<times> (string \<times> bool) list \<Rightarrow> (endpoint_allocator \<times> (string \<times> bool) list) option" where
  "allocator_run [] s = Some s"
| "allocator_run (op # ops) s = (case allocator_exec op s of None \<Rightarrow> None | Some s' \<Rightarrow> allocator_run ops s')"

text \<open>
  What \<open>net\<close> documents of a TCP listener's address: it prints as the host and the
  port, so the addresses of the form 127.0.0.1:p are those of IP 127.0.0.1, port p.
\<close>

definition net_answers :: "listen_fn \<Rightarrow> bool" where
  "net_answers listen \<longleftrightarrow>
     (\<forall>k address l. listen k address = Inr l \<longrightarrow>
        (nl_loopback l \<longrightarrow> nl_addr l = pool_candidate (nl_port l)))"

definition ops_ok :: "allocator_op \<Rightarrow> bool" where
  "ops_ok op = (case op of Bind listen _ _ _ \<Rightarrow> net_answers listen | Release _ \<Rightarrow> True)"

definition allocator_inv :: "int \<Rightarrow> int \<Rightarrow> endpoint_allocator \<times> (string \<times> bool) list \<Rightarrow> bool" where
  "allocator_inv lo hi s \<longleftrightarrow>
     pool_range (fst s) = (lo, hi) \<and> lo \<le> hi \<and> (ea_next (fst s) = 0 \<or> lo \<le> ea_next (fst s) \<and> ea_next (fst s) \<le> hi) \<and>
     ea_held (fst s) = map fst (snd s) \<and> distinct (map fst (snd s)) \<and>
     ea_poolHeld (fst s) = int (length (filter snd (snd s))) \<and>
     (\<forall>rel \<in> set (snd s). snd rel \<longrightarrow> (\<exists>p. lo \<le> p \<and> p \<le> hi \<and> fst rel = pool_candidate p))"

lemma reserve_inv:
  assumes inv: "allocator_inv lo hi (a, out)" and l: "nl_addr l \<notin> set (ea_held a)"
    and net: "nl_loopback l \<longrightarrow> nl_addr l = pool_candidate (nl_port l)"
  shows "allocator_inv lo hi (reserve lo hi l a, out @ [(nl_addr l, in_pool lo hi l)])"
  using assms by (auto simp: allocator_inv_def reserve_def in_pool_def pool_range_def)

lemma bind_result:
  assumes "allocator_bind listen address automatic strict a = (r, a')" "pool_range a = (lo, hi)"
  obtains a0 a1 k n r1 where
    "a0 = (if automatic \<and> ea_next a = 0 then a\<lparr>ea_next := lo\<rparr> else a)"
    "pool_scan listen lo hi n 0 a0 (ErrText ''all pool ports are reserved by unfinished bridges'') = (r1, k, a1)"
    "n = (if automatic \<and> ea_poolHeld a < hi - lo + 1 then nat (hi - lo + 1) else 0)"
    "case r1 of
       Inr l \<Rightarrow> r = Inr (l, (nl_addr l, in_pool lo hi l)) \<and> a' = reserve lo hi l a1
     | Inl e \<Rightarrow>
         if automatic \<and> strict then (\<exists>m. r = Inl (ErrWrap e m)) \<and> a' = a1
         else case bind_address listen k a1 address of
                (Inl e2, k2) \<Rightarrow> r = Inl e2 \<and> a' = a1
              | (Inr l, k2) \<Rightarrow> r = Inr (l, (nl_addr l, in_pool lo hi l)) \<and> a' = reserve lo hi l a1"
proof -
  define a0 where "a0 = (if automatic \<and> ea_next a = 0 then a\<lparr>ea_next := lo\<rparr> else a)"
  define n where "n = (if automatic \<and> ea_poolHeld a < hi - lo + 1 then nat (hi - lo + 1) else 0)"
  obtain r1 k a1 where s: "pool_scan listen lo hi n 0 a0 (ErrText ''all pool ports are reserved by unfinished bridges'') = (r1, k, a1)"
    by (metis prod_cases3)
  have ph: "ea_poolHeld a0 = ea_poolHeld a" by (simp add: a0_def)
  have "allocator_bind listen address automatic strict a =
     (case r1 of
           Inr l \<Rightarrow> (Inr (l, (nl_addr l, in_pool lo hi l)), reserve lo hi l a1)
         | Inl e \<Rightarrow>
             if automatic \<and> strict
             then (Inl (ErrWrap e (''RSP port pool '' @ format_int lo @ ''..'' @ format_int hi @ '' exhausted'')), a1)
             else case bind_address listen k a1 address of
                    (Inl e2, k2) \<Rightarrow> (Inl e2, a1)
                  | (Inr l, k2) \<Rightarrow> (Inr (l, (nl_addr l, in_pool lo hi l)), reserve lo hi l a1))"
    unfolding allocator_bind_def assms(2) Let_def prod.case a0_def [symmetric] ph n_def [symmetric] s ..
  with assms(1) show thesis
    by (intro that [OF a0_def s n_def]) (auto split: sum.splits prod.splits if_splits)
qed

lemma allocator_exec_inv:
  assumes ex: "allocator_exec op s = Some s'" and inv: "allocator_inv lo hi s" and ok: "ops_ok op"
  shows "allocator_inv lo hi s'"
proof -
  obtain a out where s: "s = (a, out)" by (cases s)
  show ?thesis
  proof (cases op)
    case (Bind listen address automatic strict)
    obtain r a' where b: "allocator_bind listen address automatic strict a = (r, a')" by (metis surj_pair)
    have range: "pool_range a = (lo, hi)" using inv s by (simp add: allocator_inv_def)
    have net: "nl_loopback l \<longrightarrow> nl_addr l = pool_candidate (nl_port l)" if "listen k x = Inr l" for k x l
      using ok that by (simp add: ops_ok_def Bind net_answers_def)
    from b range obtain a0 a1 k n r1 where
      a0: "a0 = (if automatic \<and> ea_next a = 0 then a\<lparr>ea_next := lo\<rparr> else a)"
      and sc: "pool_scan listen lo hi n 0 a0 (ErrText ''all pool ports are reserved by unfinished bridges'') = (r1, k, a1)"
      and n: "n = (if automatic \<and> ea_poolHeld a < hi - lo + 1 then nat (hi - lo + 1) else 0)"
      and res: "case r1 of
       Inr l \<Rightarrow> r = Inr (l, (nl_addr l, in_pool lo hi l)) \<and> a' = reserve lo hi l a1
     | Inl e \<Rightarrow>
         if automatic \<and> strict then (\<exists>m. r = Inl (ErrWrap e m)) \<and> a' = a1
         else case bind_address listen k a1 address of
                (Inl e2, k2) \<Rightarrow> r = Inl e2 \<and> a' = a1
              | (Inr l, k2) \<Rightarrow> r = Inr (l, (nl_addr l, in_pool lo hi l)) \<and> a' = reserve lo hi l a1"
      by (rule bind_result)
    have post: "scan_post listen n lo hi n a0 r1 a1" using pool_scan_spec [OF sc] by simp
    have same: "ea_held a1 = ea_held a" "ea_held a0 = ea_held a" using post a0 by (auto simp: scan_post_def)
    have i1: "allocator_inv lo hi (a1, out)"
    proof (cases "n = 0")
      case True
      then have "a1 = a0" using sc by simp
      then show ?thesis using inv s a0 n by (auto simp: allocator_inv_def pool_range_def split: if_splits)
    next
      case False
      then have "lo \<le> hi" "automatic" by (auto simp: n split: if_splits)
      then have "lo \<le> ea_next a0 \<and> ea_next a0 \<le> hi" using inv s a0 by (auto simp: allocator_inv_def)
      then show ?thesis using inv s post a0 by (auto simp: allocator_inv_def scan_post_def pool_range_def)
    qed
    show ?thesis
    proof (cases r1)
      case (Inr l)
      then have "nl_addr l \<notin> set (ea_held a1)" "\<exists>j x. listen j x = Inr l" using post same by (auto simp: scan_post_def)
      then have "allocator_inv lo hi (reserve lo hi l a1, out @ [(nl_addr l, in_pool lo hi l)])"
        using reserve_inv [OF i1] net by blast
      then show ?thesis using ex Bind s b res Inr by simp
    next
      case (Inl e)
      obtain r2 k2 where ba: "bind_address listen k a1 address = (r2, k2)" by (metis surj_pair)
      show ?thesis
      proof (cases "(automatic \<and> strict) \<or> (\<exists>e2. r2 = Inl e2)")
        case True
        then have "a' = a1 \<and> (\<exists>e3. r = Inl e3)" using res Inl ba by (cases "automatic \<and> strict") auto
        then show ?thesis using ex Bind s b i1 by auto
      next
        case False
        then obtain l where l: "r2 = Inr l" by (cases r2) auto
        have "nl_addr l \<notin> set (ea_held a1)" "listen k address = Inr l" using bind_address_ok ba l by auto
        then have "allocator_inv lo hi (reserve lo hi l a1, out @ [(nl_addr l, in_pool lo hi l)])"
          using reserve_inv [OF i1] net by blast
        then show ?thesis using ex Bind s b res Inl ba l False by (auto split: if_splits)
      qed
    qed
  next
    case (Release rel)
    then have r: "rel \<in> set out" "s' = (allocator_release rel a, remove1 rel out)"
      using ex s by (auto split: if_splits)
    have d: "distinct (map fst out)" using inv s by (simp add: allocator_inv_def)
    obtain u v where out: "out = u @ rel # v" using split_list [OF r(1)] by blast
    have d': "fst rel \<notin> fst ` set u" "fst rel \<notin> fst ` set v" "rel \<notin> set u"
      using d by (auto simp: out)
    have f: "filter (\<lambda>x. x \<noteq> fst rel) (map fst u) = map fst u" "filter (\<lambda>x. x \<noteq> fst rel) (map fst v) = map fst v"
      using d' by (metis (mono_tags, lifting) filter_True list.set_map)+
    show ?thesis using inv s d' f
      by (auto simp: r(2) out allocator_inv_def allocator_release_def pool_range_def remove1_append)
  qed
qed

lemma allocator_run_inv:
  "allocator_run ops s = Some s' \<Longrightarrow> allocator_inv lo hi s \<Longrightarrow> list_all ops_ok ops \<Longrightarrow> allocator_inv lo hi s'"
  by (induction ops s rule: allocator_run.induct) (auto split: option.splits dest: allocator_exec_inv)

lemma initial_allocator: "allocator_inv lo hi (zero_allocator\<lparr>ea_first := f, ea_last := g\<rparr>, [])"
  if "pool_range (zero_allocator\<lparr>ea_first := f, ea_last := g\<rparr>) = (lo, hi)" "lo \<le> hi"
  using that by (simp add: allocator_inv_def zero_allocator_def)

lemma format_int_inj_pos: "0 \<le> p \<Longrightarrow> 0 \<le> q \<Longrightarrow> format_int p = format_int q \<Longrightarrow> p = q"
  by (simp add: format_int_def format_nat_inj split: if_splits)

lemma inj_pool_candidate: "0 \<le> lo \<Longrightarrow> inj_on pool_candidate {lo..hi}"
  by (auto simp: inj_on_def pool_candidate_def intro: format_int_inj_pos)

lemma pool_counts:
  assumes inv: "allocator_inv lo hi (a, out)" and lo: "0 < lo" "lo \<le> hi"
  shows "ea_poolHeld a \<le> hi - lo + 1"
    "ea_poolHeld a = hi - lo + 1 \<Longrightarrow> lo \<le> p \<Longrightarrow> p \<le> hi \<Longrightarrow> pool_candidate p \<in> set (ea_held a)"
proof -
  let ?H = "set (map fst (filter snd out))" and ?C = "pool_candidate ` {lo..hi}"
  have d: "distinct (map fst (filter snd out))" using inv by (simp add: allocator_inv_def distinct_map_filter)
  have sub: "?H \<subseteq> ?C"
  proof
    fix x assume "x \<in> ?H"
    then obtain rel where "rel \<in> set out" "snd rel" "x = fst rel" by auto
    then obtain q where "lo \<le> q" "q \<le> hi" "x = pool_candidate q" using inv by (auto simp: allocator_inv_def)
    then show "x \<in> ?C" by simp
  qed
  have cH: "card ?H = length (filter snd out)" using distinct_card [OF d] by simp
  have cC: "int (card ?C) = hi - lo + 1"
    using lo card_image [OF inj_pool_candidate, of lo hi] by simp
  have ph: "ea_poolHeld a = int (card ?H)" using inv cH by (simp add: allocator_inv_def)
  show "ea_poolHeld a \<le> hi - lo + 1" using card_mono [OF _ sub] ph cC by simp
  assume "ea_poolHeld a = hi - lo + 1" "lo \<le> p" "p \<le> hi"
  then have "?H = ?C" using card_subset_eq [OF _ sub] ph cC by simp
  then have "pool_candidate p \<in> ?H" using \<open>lo \<le> p\<close> \<open>p \<le> hi\<close> by auto
  then show "pool_candidate p \<in> set (ea_held a)" using inv by (auto simp: allocator_inv_def)
qed

section \<open>Properties\<close>

definition demo_listen :: listen_fn where
  "demo_listen k address = Inr \<lparr>nl_addr = pool_candidate 5, nl_loopback = True, nl_port = 5\<rparr>"

definition demo_allocator :: endpoint_allocator where
  "demo_allocator = zero_allocator\<lparr>ea_first := 5, ea_last := 6\<rparr>"

text \<open>
  Two unfinished bridges never hold one RSP address: whatever sequence of binds
  (automatic or explicit) and releases ran, the reserved addresses are exactly those
  of the bridges not released yet, they are distinct, and the pool counter counts
  the reserved ports of the pool and never exceeds its size.
\<close>

theorem endpoint_reservations:
  assumes "0 < lo" "lo \<le> hi" "pool_range (zero_allocator\<lparr>ea_first := f, ea_last := g\<rparr>) = (lo, hi)"
    and "list_all ops_ok ops"
    and "allocator_run ops (zero_allocator\<lparr>ea_first := f, ea_last := g\<rparr>, []) = Some (a, out)"
  shows "ea_held a = map fst out \<and> distinct (map fst out) \<and>
         ea_poolHeld a = int (length (filter snd out)) \<and> ea_poolHeld a \<le> hi - lo + 1"
proof -
  have inv: "allocator_inv lo hi (a, out)"
    by (rule allocator_run_inv [OF assms(5) initial_allocator [OF assms(3,2)] assms(4)])
  from pool_counts(1) [OF this assms(1,2)] inv show ?thesis by (simp add: allocator_inv_def)
qed

theorem endpoint_reservations_witness:
  "\<exists>a. allocator_run [Bind demo_listen [] True True] (demo_allocator, []) = Some (a, [(pool_candidate 5, True)]) \<and>
       ea_poolHeld a = 1"
proof -
  have "(case allocator_run [Bind demo_listen [] True True] (demo_allocator, []) of
      None \<Rightarrow> False | Some (a, out) \<Rightarrow> out = [(pool_candidate 5, True)])" by code_simp
  then obtain a where r: "allocator_run [Bind demo_listen [] True True] (demo_allocator, []) = Some (a, [(pool_candidate 5, True)])"
    by (auto simp del: allocator_run.simps split: option.splits)
  have ok: "list_all ops_ok [Bind demo_listen [] True True]"
    by (simp add: ops_ok_def net_answers_def demo_listen_def)
  have range: "pool_range (zero_allocator\<lparr>ea_first := 5, ea_last := 6\<rparr>) = (5, 6)" by (simp add: pool_range_def)
  from endpoint_reservations [OF _ _ range ok r [unfolded demo_allocator_def]] r show ?thesis by simp
qed

text \<open>
  Exhaustion is reported only when it is true: if a strict automatic bind fails,
  then every port of the pool is reserved by an unfinished bridge, or the operating
  system refused it in this very request; the scan skips no port, also when it
  starts in the middle of the pool or is skipped because the counter is full.
\<close>

theorem endpoint_exhausted_only_if_full:
  assumes "0 < lo" "lo \<le> hi" "pool_range (zero_allocator\<lparr>ea_first := f, ea_last := g\<rparr>) = (lo, hi)"
    and "list_all ops_ok ops"
    and "allocator_run ops (zero_allocator\<lparr>ea_first := f, ea_last := g\<rparr>, []) = Some (a, out)"
    and "allocator_bind listen address True True a = (Inl e, a')" "lo \<le> p" "p \<le> hi"
  shows "refused listen (nat (hi - lo + 1)) a (pool_candidate p)"
proof -
  have inv: "allocator_inv lo hi (a, out)"
    by (rule allocator_run_inv [OF assms(5) initial_allocator [OF assms(3,2)] assms(4)])
  then have range: "pool_range a = (lo, hi)" by (simp add: allocator_inv_def)
  define r :: "goerr + net_listener \<times> (string \<times> bool)" where "r = Inl e"
  from assms(6) [folded r_def] range obtain a0 a1 k n r1 where
      a0: "a0 = (if True \<and> ea_next a = 0 then a\<lparr>ea_next := lo\<rparr> else a)"
      and sc: "pool_scan listen lo hi n 0 a0 (ErrText ''all pool ports are reserved by unfinished bridges'') = (r1, k, a1)"
      and n: "n = (if True \<and> ea_poolHeld a < hi - lo + 1 then nat (hi - lo + 1) else 0)"
      and res: "case r1 of
       Inr l \<Rightarrow> r = Inr (l, (nl_addr l, in_pool lo hi l)) \<and> a' = reserve lo hi l a1
     | Inl e' \<Rightarrow>
         if True \<and> True then (\<exists>m. r = Inl (ErrWrap e' m)) \<and> a' = a1
         else case bind_address listen k a1 address of
                (Inl e2, k2) \<Rightarrow> r = Inl e2 \<and> a' = a1
              | (Inr l, k2) \<Rightarrow> r = Inr (l, (nl_addr l, in_pool lo hi l)) \<and> a' = reserve lo hi l a1"
    by (rule bind_result)
  show ?thesis
  proof (cases "ea_poolHeld a < hi - lo + 1")
    case False
    then have "pool_candidate p \<in> set (ea_held a)" using pool_counts [OF inv assms(1,2)] assms(7,8) by force
    then show ?thesis by (simp add: refused_def)
  next
    case True
    obtain e1 where r1: "r1 = Inl e1" using res by (cases r1) (auto simp: r_def)
    have "lo \<le> ea_next a0" "ea_next a0 \<le> hi" using inv a0 assms(2) by (auto simp: allocator_inv_def)
    from port_after_covers [OF this assms(7,8)] obtain i where i: "i < n" "port_after lo hi (ea_next a0) i = p"
      using n True by auto
    have "refused listen n a0 (pool_candidate p)"
      using pool_scan_spec [OF sc] r1 i by (auto simp: scan_post_def)
    then show ?thesis using a0 n True refused_next by (auto split: if_splits)
  qed
qed

theorem endpoint_exhausted_only_if_full_witness:
  "refused (\<lambda>k x. Inl (ErrExternal 1)) 2 demo_allocator (pool_candidate 6)"
proof -
  have "case allocator_bind (\<lambda>k x. Inl (ErrExternal 1)) [] True True demo_allocator of (Inl e, a') \<Rightarrow> True | _ \<Rightarrow> False" by code_simp
  then obtain e a' where b: "allocator_bind (\<lambda>k x. Inl (ErrExternal 1)) [] True True demo_allocator = (Inl e, a')"
    by (auto split: prod.splits sum.splits)
  have range: "pool_range (zero_allocator\<lparr>ea_first := 5, ea_last := 6\<rparr>) = (5, 6)" by (simp add: pool_range_def)
  have run: "allocator_run [] (zero_allocator\<lparr>ea_first := 5, ea_last := 6\<rparr>, []) = Some (demo_allocator, [])"
    by (simp add: demo_allocator_def)
  from endpoint_exhausted_only_if_full [OF _ _ range _ run b, of 6] show ?thesis by simp
qed

end
