(* ===== verification/Device_State.thy ===== *)
theory Device_State
  imports Go_Strings "HOL-Library.AList"
begin

text \<open>
  \<open>internal/core/device/state.go\<close>: the durable device identities.

  The store's functions are parameters: \<open>newID\<close>, indexed by its calls so far
  (\<open>st_ids\<close>), and \<open>write\<close>, whose \<open>None\<close> means that the file was replaced by this
  state (encoding a state never fails, and \<open>atomicWrite\<close> leaves the old file on an
  error). \<open>st_disk\<close> is what the file holds; no code reads it but \<open>load\<close>. The
  \<open>runtime\<close> map is an association list. The deferred rollback of \<open>Resolve\<close> restores
  the devices and nothing else.
\<close>

definition stateVersion :: int where "stateVersion = 1"

datatype identity_method = IdentityUSBSerial | IdentityUSBPath | IdentityRuntime | IdentityUnset

record device_identity =
  di_deviceID :: string
  di_method :: identity_method
  di_persistent :: bool

record serial_metadata =
  me_vid :: string
  me_pid :: string
  me_usbSerial :: string
  me_manufacturer :: string
  me_product :: string
  me_usbPath :: string

record device_endpoint =
  ep_transport :: string
  ep_endpoint :: string
  ep_metadata :: serial_metadata

definition deviceKey :: "device_endpoint \<Rightarrow> string" where
  "deviceKey e = ep_transport e @ [CHR 0x00] @ ep_endpoint e"

record state_identity =
  si_vid :: string
  si_pid :: string
  si_usbSerial :: string
  si_usbPath :: string
  si_manufacturer :: string
  si_product :: string

record state_device =
  sd_deviceID :: string
  sd_transport :: string
  sd_identity :: state_identity
  sd_lastEndpoint :: string
  sd_createdAt :: int
  sd_updatedAt :: int

record state_file =
  sf_version :: int
  sf_devices :: "state_device list"

record state_store =
  st_state :: state_file
  st_runtime :: "(string \<times> device_identity) list"
  st_ids :: nat
  st_disk :: "state_file option"

type_synonym id_source = "nat \<Rightarrow> goerr + string"
type_synonym state_writer = "state_file \<Rightarrow> goerr option"

definition newStateStore :: state_store where
  "newStateStore = \<lparr>st_state = \<lparr>sf_version = stateVersion, sf_devices = []\<rparr>, st_runtime = [], st_ids = 0, st_disk = None\<rparr>"

section \<open>Matching\<close>

definition no_identity :: state_identity where
  "no_identity = \<lparr>si_vid = [], si_pid = [], si_usbSerial = [], si_usbPath = [], si_manufacturer = [], si_product = []\<rparr>"

definition persistentEvidence :: "device_endpoint \<Rightarrow> identity_method \<times> state_identity" where
  "persistentEvidence e =
     (let m = ep_metadata e;
          ev = \<lparr>si_vid = trim_space (me_vid m), si_pid = trim_space (me_pid m),
                si_usbSerial = trim_space (me_usbSerial m), si_usbPath = trim_space (me_usbPath m),
                si_manufacturer = trim_space (me_manufacturer m), si_product = trim_space (me_product m)\<rparr>
      in if si_vid ev \<noteq> [] \<and> si_pid ev \<noteq> [] \<and> si_usbSerial ev \<noteq> [] then (IdentityUSBSerial, ev)
         else if si_vid ev \<noteq> [] \<and> si_pid ev \<noteq> [] \<and> si_usbSerial ev = [] \<and> si_usbPath ev \<noteq> [] then (IdentityUSBPath, ev)
         else (IdentityRuntime, no_identity))"

text \<open>One record against the evidence; \<open>matches\<close> returns the indices of all that match.\<close>

definition record_matches :: "string \<Rightarrow> identity_method \<Rightarrow> state_identity \<Rightarrow> state_device \<Rightarrow> bool" where
  "record_matches transport method ev r \<longleftrightarrow>
     sd_transport r = transport \<and>
     (method = IdentityUSBSerial \<and> si_usbSerial (sd_identity r) \<noteq> [] \<and> si_vid (sd_identity r) = si_vid ev \<and>
        si_pid (sd_identity r) = si_pid ev \<and> si_usbSerial (sd_identity r) = si_usbSerial ev \<or>
      method = IdentityUSBPath \<and> si_usbSerial (sd_identity r) = [] \<and> si_vid (sd_identity r) = si_vid ev \<and>
        si_pid (sd_identity r) = si_pid ev \<and> si_usbPath (sd_identity r) = si_usbPath ev)"

definition st_matches :: "state_store \<Rightarrow> string \<Rightarrow> identity_method \<Rightarrow> state_identity \<Rightarrow> nat list" where
  "st_matches s transport method ev =
     filter (\<lambda>i. record_matches transport method ev (sf_devices (st_state s) ! i)) [0..<length (sf_devices (st_state s))]"

definition updateStateRecord :: "state_device \<Rightarrow> device_endpoint \<Rightarrow> state_identity \<Rightarrow> int \<Rightarrow> bool \<times> state_device" where
  "updateStateRecord r e ev observedAt =
     (if sd_identity r = ev \<and> sd_lastEndpoint r = ep_endpoint e then (False, r)
      else (True, r\<lparr>sd_identity := ev, sd_lastEndpoint := ep_endpoint e, sd_updatedAt := observedAt\<rparr>))"

section \<open>New identifiers\<close>

definition st_hasID :: "state_store \<Rightarrow> string \<Rightarrow> bool" where
  "st_hasID s i \<longleftrightarrow> i \<in> sd_deviceID ` set (sf_devices (st_state s)) \<or> i \<in> (di_deviceID \<circ> snd) ` set (st_runtime s)"

fun allocate_tries :: "id_source \<Rightarrow> nat \<Rightarrow> state_store \<Rightarrow> (goerr + string) \<times> state_store" where
  "allocate_tries newID 0 s = (Inl (ErrText ''generate unique device ID: repeated collision''), s)"
| "allocate_tries newID (Suc n) s =
     (let s1 = s\<lparr>st_ids := Suc (st_ids s)\<rparr>
      in case newID (st_ids s) of
           Inl e \<Rightarrow> (Inl (ErrWrap e ''generate device ID''), s1)
         | Inr i \<Rightarrow> if st_hasID s1 i then allocate_tries newID n s1 else (Inr i, s1))"

definition allocateID :: "id_source \<Rightarrow> state_store \<Rightarrow> (goerr + string) \<times> state_store" where
  "allocateID newID s = allocate_tries newID 8 s"

section \<open>Resolve\<close>

definition saveLocked :: "state_writer \<Rightarrow> state_store \<Rightarrow> goerr option \<times> state_store" where
  "saveLocked write s =
     (case write (st_state s) of
        Some e \<Rightarrow> (Some (ErrWrap e ''write device state''), s)
      | None \<Rightarrow> (None, s\<lparr>st_disk := Some (st_state s)\<rparr>))"

record scan_result =
  sr_resolved :: "(string \<times> device_identity) list"
  sr_used :: "string list"
  sr_changed :: bool

text \<open>
  The two branches that give an endpoint a new process-local identity (no durable
  evidence and not seen before, or ambiguous evidence).
\<close>

definition runtime_identity :: "string \<Rightarrow> device_identity" where
  "runtime_identity d = \<lparr>di_deviceID = d, di_method = IdentityRuntime, di_persistent = False\<rparr>"

definition durable_identity :: "string \<Rightarrow> identity_method \<Rightarrow> device_identity" where
  "durable_identity d m = \<lparr>di_deviceID = d, di_method = m, di_persistent = True\<rparr>"

definition assign_runtime ::
  "id_source \<Rightarrow> string \<Rightarrow> state_store \<Rightarrow> scan_result \<Rightarrow> (goerr + scan_result) \<times> state_store" where
  "assign_runtime newID key s r =
     (case allocateID newID s of
        (Inl x, s1) \<Rightarrow> (Inl x, s1)
      | (Inr d, s1) \<Rightarrow>
          (Inr (r\<lparr>sr_resolved := AList.update key (runtime_identity d) (sr_resolved r)\<rparr>),
           s1\<lparr>st_runtime := AList.update key (runtime_identity d) (st_runtime s1)\<rparr>))"

text \<open>The body of the loop, for one endpoint; an error leaves the loop.\<close>

definition resolve_one ::
  "id_source \<Rightarrow> int \<Rightarrow> device_endpoint \<Rightarrow> state_store \<Rightarrow> scan_result \<Rightarrow> (goerr + scan_result) \<times> state_store" where
  "resolve_one newID observedAt e s r =
     (let key = deviceKey e;
          (method, ev) = persistentEvidence e
      in if method = IdentityRuntime then
           (case map_of (st_runtime s) key of
              Some i \<Rightarrow> (Inr (r\<lparr>sr_resolved := AList.update key i (sr_resolved r)\<rparr>), s)
            | None \<Rightarrow>
                assign_runtime newID key s r)
         else
           let ms = st_matches s (ep_transport e) method ev;
               alreadyUsed = (length ms = 1 \<and> sd_deviceID (sf_devices (st_state s) ! hd ms) \<in> set (sr_used r))
           in if length ms > 1 \<or> alreadyUsed then
                assign_runtime newID key s r
              else if length ms = 1 then
                let old = sf_devices (st_state s) ! hd ms;
                    (upd, new) = updateStateRecord old e ev observedAt
                in (Inr (r\<lparr>sr_used := sd_deviceID old # sr_used r,
                           sr_changed := sr_changed r \<or> upd,
                           sr_resolved := AList.update key
                             (durable_identity (sd_deviceID old) method) (sr_resolved r)\<rparr>),
                    s\<lparr>st_state := (st_state s)\<lparr>sf_devices := (sf_devices (st_state s))[hd ms := new]\<rparr>\<rparr>)
              else
                (case allocateID newID s of
                   (Inl x, s1) \<Rightarrow> (Inl x, s1)
                 | (Inr d, s1) \<Rightarrow>
                     (Inr (r\<lparr>sr_used := d # sr_used r, sr_changed := True,
                             sr_resolved := AList.update key
                               (durable_identity d method) (sr_resolved r)\<rparr>),
                      s1\<lparr>st_state := (st_state s1)\<lparr>sf_devices := sf_devices (st_state s1) @
                          [\<lparr>sd_deviceID = d, sd_transport = ep_transport e, sd_identity = ev,
                            sd_lastEndpoint = ep_endpoint e, sd_createdAt = observedAt, sd_updatedAt = observedAt\<rparr>]\<rparr>\<rparr>)))"

fun resolve_loop ::
  "id_source \<Rightarrow> int \<Rightarrow> device_endpoint list \<Rightarrow> state_store \<Rightarrow> scan_result \<Rightarrow> (goerr + scan_result) \<times> state_store" where
  "resolve_loop newID observedAt [] s r = (Inr r, s)"
| "resolve_loop newID observedAt (e # es) s r =
     (case resolve_one newID observedAt e s r of
        (Inl x, s1) \<Rightarrow> (Inl x, s1)
      | (Inr r1, s1) \<Rightarrow> resolve_loop newID observedAt es s1 r1)"

text \<open>\<open>now\<close> is \<open>s.now()\<close>, used for a zero \<open>observedAt\<close> (\<open>None\<close>).\<close>

definition st_Resolve ::
  "id_source \<Rightarrow> state_writer \<Rightarrow> int \<Rightarrow> device_endpoint list \<Rightarrow> int option \<Rightarrow> state_store
     \<Rightarrow> (goerr + (string \<times> device_identity) list) \<times> state_store" where
  "st_Resolve newID write now endpoints observedAt s =
     (let at_time = (case observedAt of None \<Rightarrow> now | Some t \<Rightarrow> t);
          before = st_state s
      in case resolve_loop newID at_time endpoints s \<lparr>sr_resolved = [], sr_used = [], sr_changed = False\<rparr> of
           (Inl x, s1) \<Rightarrow> (Inl x, s1\<lparr>st_state := before\<rparr>)
         | (Inr r, s1) \<Rightarrow>
             if sr_changed r then
               (case saveLocked write s1 of
                  (Some x, s2) \<Rightarrow> (Inl x, s2\<lparr>st_state := before\<rparr>)
                | (None, s2) \<Rightarrow> (Inr (sr_resolved r), s2))
             else (Inr (sr_resolved r), s1))"

section \<open>Loading\<close>

fun validate_devices :: "state_device list \<Rightarrow> string list \<Rightarrow> goerr option" where
  "validate_devices [] seen = None"
| "validate_devices (r # rs) seen =
     (if trim_space (sd_deviceID r) = [] \<or> trim_space (sd_transport r) = []
      then Some (ErrText ''device record has empty device_id or transport'')
      else if si_vid (sd_identity r) = [] \<or> si_pid (sd_identity r) = [] \<or>
              (si_usbSerial (sd_identity r) = [] \<and> si_usbPath (sd_identity r) = [])
      then Some (ErrText (''device record has incomplete persistent identity: '' @ sd_deviceID r))
      else if sd_deviceID r \<in> set seen then Some (ErrText (''duplicate device_id: '' @ sd_deviceID r))
      else validate_devices rs (sd_deviceID r # seen))"

definition validateStateFile :: "state_file \<Rightarrow> goerr option" where
  "validateStateFile file = validate_devices (sf_devices file) []"

text \<open>
  \<open>load\<close> on what reading and decoding the file gave: no file, a read error, a decoding
  error, or a file (whose nil device list is the empty one).
\<close>

datatype state_read = FileMissing | FileError goerr | FileInvalid goerr | FileDecoded state_file

definition st_load :: "state_writer \<Rightarrow> state_read \<Rightarrow> state_store \<Rightarrow> goerr option \<times> state_store" where
  "st_load write rd s =
     (case rd of
        FileMissing \<Rightarrow> saveLocked write s
      | FileError e \<Rightarrow> (Some (ErrWrap e ''read device state''), s)
      | FileInvalid e \<Rightarrow> (Some (ErrWrap e ''decode device state''), s)
      | FileDecoded stored \<Rightarrow>
          if sf_version stored \<noteq> stateVersion
          then (Some (ErrWrap (ErrSentinel ''ErrUnsupportedStateVersion'') (format_int (sf_version stored))), s)
          else (case validateStateFile stored of
                  Some e \<Rightarrow> (Some (ErrWrap e ''validate device state''), s)
                | None \<Rightarrow> (None, s\<lparr>st_state := stored\<rparr>)))"

definition LoadStateStore :: "state_writer \<Rightarrow> state_read \<Rightarrow> goerr + state_store" where
  "LoadStateStore write rd =
     (case st_load write rd newStateStore of
        (Some e, s) \<Rightarrow> Inl e
      | (None, s) \<Rightarrow> Inr (s\<lparr>st_disk := Some (st_state s)\<rparr>))"

end
