(* ===== verification/Device_Identity.thy ===== *)
theory Device_Identity
  imports Device_State
begin

text \<open>
  What the state store promises of the identities it assigns: one DeviceID per
  endpoint of a scan, the same durable DeviceID for the same evidence whatever the
  endpoint is called, and an in-memory state that is always the one on disk.
\<close>

section \<open>One endpoint\<close>

lemma allocate_tries_spec:
  "allocate_tries newID n s = (x, s1) \<Longrightarrow>
     (\<exists>k. s1 = s\<lparr>st_ids := k\<rparr>) \<and> (\<forall>d. x = Inr d \<longrightarrow> \<not> st_hasID s d)"
proof (induction n arbitrary: s)
  case 0
  then have "s1 = s\<lparr>st_ids := st_ids s\<rparr>" "\<forall>d. x \<noteq> Inr d" by auto
  then show ?case by blast
next
  case (Suc n)
  have h: "st_hasID (s\<lparr>st_ids := k\<rparr>) = st_hasID s" for k by (simp add: st_hasID_def fun_eq_iff)
  show ?case
  proof (cases "newID (st_ids s)")
    case (Inl e)
    then show ?thesis using Suc.prems by auto
  next
    case (Inr i)
    show ?thesis
    proof (cases "st_hasID s i")
      case True
      have "allocate_tries newID n (s\<lparr>st_ids := Suc (st_ids s)\<rparr>) = (x, s1)"
        using Suc.prems Inr True by (simp add: Let_def h)
      from Suc.IH [OF this] show ?thesis by (auto simp: h)
    next
      case False
      then show ?thesis using Suc.prems Inr by (auto simp: Let_def h)
    qed
  qed
qed

lemma allocateID_ok: "allocateID newID s = (Inr d, s1) \<Longrightarrow> \<not> st_hasID s d \<and> (\<exists>k. s1 = s\<lparr>st_ids := k\<rparr>)"
  using allocate_tries_spec by (fastforce simp: allocateID_def)

lemma allocateID_error: "allocateID newID s = (Inl x, s1) \<Longrightarrow> \<exists>k. s1 = s\<lparr>st_ids := k\<rparr>"
  using allocate_tries_spec by (fastforce simp: allocateID_def)

lemma persistentEvidence_cases:
  assumes "persistentEvidence e = (m, ev)" "m \<noteq> IdentityRuntime"
  shows "m = IdentityUSBSerial \<and> si_usbSerial ev \<noteq> [] \<or> m = IdentityUSBPath \<and> si_usbSerial ev = []"
  using assms by (auto simp: persistentEvidence_def Let_def split: if_splits)

definition set_devices :: "state_device list \<Rightarrow> state_store \<Rightarrow> state_store" where
  "set_devices ds s = s\<lparr>st_state := (st_state s)\<lparr>sf_devices := ds\<rparr>\<rparr>"

definition devices :: "state_store \<Rightarrow> state_device list" where
  "devices s = sf_devices (st_state s)"

lemma store_sel [simp]:
  "devices (set_devices ds s) = ds" "devices (s\<lparr>st_ids := k\<rparr>) = devices s"
  "devices (s\<lparr>st_runtime := rt\<rparr>) = devices s" "st_runtime (set_devices ds s) = st_runtime s"
  "st_disk (set_devices ds s) = st_disk s"
  by (simp_all add: devices_def set_devices_def)

lemma in_matches:
  "k \<in> set (st_matches s t m ev) \<longleftrightarrow> k < length (devices s) \<and> record_matches t m ev (devices s ! k)"
  by (auto simp: st_matches_def devices_def)

lemma matches_one:
  assumes j: "st_matches s t m ev = [j]"
  shows "j < length (devices s)" "record_matches t m ev (devices s ! j)"
    "q \<in> set (devices s) \<Longrightarrow> record_matches t m ev q \<Longrightarrow> q = devices s ! j"
proof -
  have mem: "k \<in> set (st_matches s t m ev) \<longleftrightarrow> k = j" for k by (simp add: j)
  then show "j < length (devices s)" "record_matches t m ev (devices s ! j)"
    using in_matches [of j s t m ev] by simp_all
  assume q: "q \<in> set (devices s)" "record_matches t m ev q"
  then obtain k where k: "k < length (devices s)" "devices s ! k = q" by (metis in_set_conv_nth)
  then show "q = devices s ! j" using q(2) mem [of k] in_matches [of k s t m ev] by simp
qed

lemma matches_none:
  assumes "st_matches s t m ev = []" "q \<in> set (devices s)"
  shows "\<not> record_matches t m ev q"
  using assms by (auto simp: st_matches_def devices_def in_set_conv_nth filter_empty_conv)

text \<open>The outcomes of one endpoint.\<close>

lemma resolve_one_cases:
  assumes "resolve_one newID t e s r = (x, s')"
  obtains
    (failed) y k where "x = Inl y" "s' = s\<lparr>st_ids := k\<rparr>"
  | (known) i where "map_of (st_runtime s) (deviceKey e) = Some i" "s' = s"
      "x = Inr (r\<lparr>sr_resolved := AList.update (deviceKey e) i (sr_resolved r)\<rparr>)"
  | (runtime) d k where "\<not> st_hasID s d"
      "s' = s\<lparr>st_ids := k, st_runtime := AList.update (deviceKey e) (runtime_identity d) (st_runtime s)\<rparr>"
      "x = Inr (r\<lparr>sr_resolved := AList.update (deviceKey e) (runtime_identity d) (sr_resolved r)\<rparr>)"
  | (matched) m ev j upd new where "persistentEvidence e = (m, ev)" "m \<noteq> IdentityRuntime"
      "st_matches s (ep_transport e) m ev = [j]" "sd_deviceID (devices s ! j) \<notin> set (sr_used r)"
      "updateStateRecord (devices s ! j) e ev t = (upd, new)"
      "s' = set_devices ((devices s)[j := new]) s"
      "x = Inr (r\<lparr>sr_used := sd_deviceID (devices s ! j) # sr_used r, sr_changed := sr_changed r \<or> upd,
          sr_resolved := AList.update (deviceKey e) (durable_identity (sd_deviceID (devices s ! j)) m) (sr_resolved r)\<rparr>)"
  | (created) m ev d k where "persistentEvidence e = (m, ev)" "m \<noteq> IdentityRuntime"
      "st_matches s (ep_transport e) m ev = []" "\<not> st_hasID s d"
      "s' = set_devices (devices s @ [\<lparr>sd_deviceID = d, sd_transport = ep_transport e, sd_identity = ev,
              sd_lastEndpoint = ep_endpoint e, sd_createdAt = t, sd_updatedAt = t\<rparr>]) (s\<lparr>st_ids := k\<rparr>)"
      "x = Inr (r\<lparr>sr_used := d # sr_used r, sr_changed := True,
          sr_resolved := AList.update (deviceKey e) (durable_identity d m) (sr_resolved r)\<rparr>)"
proof -
  obtain m ev where pe: "persistentEvidence e = (m, ev)" by (metis surj_pair)
  obtain y s1 where al: "allocateID newID s = (y, s1)" by (metis surj_pair)
  define ms where "ms = st_matches s (ep_transport e) m ev"
  have fresh: thesis if "assign_runtime newID (deviceKey e) s r = (x, s')"
  proof (cases y)
    case (Inl z)
    then show ?thesis using failed allocateID_error [OF al [unfolded Inl]] that al by (auto simp: assign_runtime_def)
  next
    case (Inr d)
    then show ?thesis using runtime [of d] allocateID_ok [OF al [unfolded Inr]] that al by (auto simp: assign_runtime_def)
  qed
  show thesis
  proof (cases "m = IdentityRuntime")
    case True
    show ?thesis
    proof (cases "map_of (st_runtime s) (deviceKey e)")
      case None
      then show ?thesis using assms True by (intro fresh) (simp add: resolve_one_def pe)
    next
      case (Some i)
      then show ?thesis using assms True by (intro known [of i]) (auto simp: resolve_one_def pe)
    qed
  next
    case rt: False
    consider "length ms > 1 \<or> (length ms = 1 \<and> sd_deviceID (devices s ! hd ms) \<in> set (sr_used r))"
      | "length ms = 1" "sd_deviceID (devices s ! hd ms) \<notin> set (sr_used r)" | "ms = []"
      by (cases ms) auto
    then show ?thesis
    proof cases
      case 1
      then show ?thesis using assms rt
        by (intro fresh) (simp add: resolve_one_def pe Let_def ms_def [symmetric] devices_def)
    next
      case 2
      obtain j where j: "ms = [j]" using 2(1) by (auto simp: length_Suc_conv)
      obtain upd new where u: "updateStateRecord (devices s ! j) e ev t = (upd, new)" by (metis surj_pair)
      show ?thesis
        by (rule matched [OF pe rt _ _ u])
          (use assms rt 2 j u in \<open>auto simp: resolve_one_def pe Let_def ms_def [symmetric] devices_def set_devices_def\<close>)
    next
      case 3
      show ?thesis
      proof (cases y)
        case (Inl z)
        then show ?thesis using assms rt 3 al allocateID_error [OF al [unfolded Inl]]
          by (auto simp: resolve_one_def pe Let_def ms_def [symmetric] intro: failed)
      next
        case (Inr d)
        obtain k where "\<not> st_hasID s d" "s1 = s\<lparr>st_ids := k\<rparr>" using allocateID_ok [OF al [unfolded Inr]] by blast
        then show ?thesis using assms rt 3 al Inr
          by (intro created [OF pe rt]) (auto simp: resolve_one_def pe Let_def ms_def [symmetric] devices_def set_devices_def)
      qed
    qed
  qed
qed

section \<open>Identifiers are unique\<close>

definition runtime_ids :: "state_store \<Rightarrow> string list" where
  "runtime_ids s = map (di_deviceID \<circ> snd) (st_runtime s)"

definition store_inv :: "state_store \<Rightarrow> bool" where
  "store_inv s \<longleftrightarrow>
     distinct (map sd_deviceID (devices s)) \<and> distinct (map fst (st_runtime s)) \<and> distinct (runtime_ids s) \<and>
     sd_deviceID ` set (devices s) \<inter> set (runtime_ids s) = {} \<and>
     (\<forall>e \<in> set (st_runtime s). \<not> di_persistent (snd e))"

definition scan_inv :: "state_store \<Rightarrow> scan_result \<Rightarrow> bool" where
  "scan_inv s r \<longleftrightarrow>
     set (sr_used r) \<subseteq> sd_deviceID ` set (devices s) \<and>
     (\<forall>k i. map_of (sr_resolved r) k = Some i \<longrightarrow>
        (if di_persistent i then di_deviceID i \<in> set (sr_used r) else map_of (st_runtime s) k = Some i)) \<and>
     (\<forall>k k' i i'. map_of (sr_resolved r) k = Some i \<longrightarrow> map_of (sr_resolved r) k' = Some i' \<longrightarrow>
        di_persistent i \<longrightarrow> di_persistent i' \<longrightarrow> di_deviceID i = di_deviceID i' \<longrightarrow> k = k')"

lemma hasID_iff: "st_hasID s d \<longleftrightarrow> d \<in> sd_deviceID ` set (devices s) \<or> d \<in> set (runtime_ids s)"
  by (simp add: st_hasID_def devices_def runtime_ids_def)

lemma map_of_update: "map_of (AList.update k v xs) = (map_of xs)(k \<mapsto> v)"
  by (rule update_conv')

lemma update_runtime_ids:
  "distinct (map fst rt) \<Longrightarrow> set (map (di_deviceID \<circ> snd) (AList.update k i rt))
     \<subseteq> insert (di_deviceID i) (set (map (di_deviceID \<circ> snd) rt))"
  by (induction rt) auto

lemma update_runtime_distinct:
  "distinct (map fst rt) \<Longrightarrow> distinct (map (di_deviceID \<circ> snd) rt) \<Longrightarrow>
     di_deviceID i \<notin> set (map (di_deviceID \<circ> snd) rt) \<Longrightarrow>
     distinct (map (di_deviceID \<circ> snd) (AList.update k i rt))"
proof (induction rt)
  case (Cons e rt)
  show ?case
  proof (cases "fst e = k")
    case True
    then show ?thesis using Cons by (cases e) simp
  next
    case False
    have "(di_deviceID \<circ> snd) e \<notin> set (map (di_deviceID \<circ> snd) (AList.update k i rt))"
      using update_runtime_ids [of rt k i] Cons.prems by auto
    then show ?thesis using Cons False by (cases e) simp
  qed
qed simp

lemma update_set: "set (AList.update k v xs) \<subseteq> insert (k, v) (set xs)"
  by (induction xs) auto

lemma updateStateRecord_id:
  "updateStateRecord r e ev t = (u, new) \<Longrightarrow> sd_deviceID new = sd_deviceID r \<and> sd_transport new = sd_transport r"
  by (auto simp: updateStateRecord_def split: if_splits)

lemma map_update_same: "j < length xs \<Longrightarrow> f y = f (xs ! j) \<Longrightarrow> map f (xs[j := y]) = map f xs"
  by (metis list_update_id map_update nth_map)

lemma resolve_one_store_inv:
  assumes r: "resolve_one newID t e s r = (x, s')" and inv: "store_inv s"
  shows "store_inv s'"
  using r
proof (cases rule: resolve_one_cases)
  case (failed y k)
  then show ?thesis using inv by (simp add: store_inv_def runtime_ids_def)
next
  case (known i)
  then show ?thesis using inv by simp
next
  case (runtime d k)
  let ?rt = "AList.update (deviceKey e) (runtime_identity d) (st_runtime s)"
  have d: "d \<notin> sd_deviceID ` set (devices s)" "d \<notin> set (runtime_ids s)" using runtime(1) by (simp_all add: hasID_iff)
  have "set (map (di_deviceID \<circ> snd) ?rt) \<subseteq> insert d (set (runtime_ids s))"
    using update_runtime_ids [of "st_runtime s" "deviceKey e" "runtime_identity d"] inv
    by (simp add: store_inv_def runtime_ids_def runtime_identity_def)
  then have "sd_deviceID ` set (devices s) \<inter> set (map (di_deviceID \<circ> snd) ?rt) = {}"
    using d inv by (auto simp: store_inv_def)
  moreover have "distinct (map (di_deviceID \<circ> snd) ?rt)"
    using inv d(2) by (intro update_runtime_distinct) (simp_all add: store_inv_def runtime_ids_def runtime_identity_def)
  moreover have "\<forall>e \<in> set ?rt. \<not> di_persistent (snd e)"
    using inv update_set [of "deviceKey e" "runtime_identity d" "st_runtime s"]
    by (auto simp: store_inv_def runtime_identity_def)
  ultimately show ?thesis using inv by (simp add: runtime(2) store_inv_def runtime_ids_def distinct_update)
next
  case (matched m ev j upd new)
  have "map sd_deviceID ((devices s)[j := new]) = map sd_deviceID (devices s)"
    using matches_one(1) [OF matched(3)] updateStateRecord_id [OF matched(5)] by (intro map_update_same) auto
  then show ?thesis using inv unfolding store_inv_def
    by (simp add: matched(6) runtime_ids_def flip: set_map)
next
  case (created m ev d k)
  then show ?thesis using inv by (auto simp: store_inv_def runtime_ids_def hasID_iff set_devices_def devices_def)
qed

lemma scan_inv_assign:
  assumes sc: "scan_inv s r"
    and used: "set (sr_used r') \<subseteq> sd_deviceID ` set (devices s')" "set (sr_used r) \<subseteq> set (sr_used r')"
    and res: "sr_resolved r' = AList.update key i (sr_resolved r)"
    and rt: "\<And>k v. k \<noteq> key \<Longrightarrow> map_of (st_runtime s) k = Some v \<Longrightarrow> map_of (st_runtime s') k = Some v"
    and i: "if di_persistent i then di_deviceID i \<in> set (sr_used r') \<and> di_deviceID i \<notin> set (sr_used r)
            else map_of (st_runtime s') key = Some i"
  shows "scan_inv s' r'"
proof -
  have old: "di_deviceID v \<in> set (sr_used r)" if "map_of (sr_resolved r) k = Some v" "di_persistent v" for k v
    using sc that by (auto simp: scan_inv_def)
  show ?thesis unfolding scan_inv_def res map_of_update
  proof (intro conjI allI impI)
    show "set (sr_used r') \<subseteq> sd_deviceID ` set (devices s')" by (rule used(1))
  next
    fix k v assume v: "((map_of (sr_resolved r))(key \<mapsto> i)) k = Some v"
    show "if di_persistent v then di_deviceID v \<in> set (sr_used r') else map_of (st_runtime s') k = Some v"
    proof (cases "k = key")
      case True
      then show ?thesis using v i by (auto split: if_splits)
    next
      case False
      then show ?thesis using v sc rt used(2) old by (auto simp: scan_inv_def split: if_splits)
    qed
  next
    fix k k' v v'
    assume a: "((map_of (sr_resolved r))(key \<mapsto> i)) k = Some v" "((map_of (sr_resolved r))(key \<mapsto> i)) k' = Some v'"
      "di_persistent v" "di_persistent v'" "di_deviceID v = di_deviceID v'"
    show "k = k'"
    proof (cases "k = key \<or> k' = key")
      case True
      then show ?thesis using a i old by (metis fun_upd_apply option.inject)
    next
      case False
      then have "map_of (sr_resolved r) k = Some v" "map_of (sr_resolved r) k' = Some v'" using a by auto
      then show ?thesis using sc a(3-5) unfolding scan_inv_def by blast
    qed
  qed
qed

lemma resolve_one_scan_inv:
  assumes r: "resolve_one newID t e s r = (Inr r', s')" and inv: "store_inv s" and sc: "scan_inv s r"
  shows "scan_inv s' r'"
  using r
proof (cases rule: resolve_one_cases)
  case (known i)
  have "\<not> di_persistent i" using inv map_of_SomeD [OF known(1)] by (force simp: store_inv_def)
  then show ?thesis using known sc
    by (intro scan_inv_assign [OF sc, of r' s' "deviceKey e" i]) (auto simp: scan_inv_def)
next
  case (runtime d k)
  then show ?thesis using sc
    by (intro scan_inv_assign [OF sc, of r' s' "deviceKey e" "runtime_identity d"])
      (auto simp: scan_inv_def map_of_update runtime_identity_def)
next
  case (matched m ev j upd new)
  have "sd_deviceID ` set ((devices s)[j := new]) = sd_deviceID ` set (devices s)"
    using matches_one(1) [OF matched(3)] updateStateRecord_id [OF matched(5)] map_update_same [of j "devices s" sd_deviceID new]
    by (metis set_map)
  then have "set (sr_used r') \<subseteq> sd_deviceID ` set (devices s')"
    using matched(6,7) sc matches_one(1) [OF matched(3)] by (auto simp: scan_inv_def)
  then show ?thesis using matched
    by (intro scan_inv_assign [OF sc, of r' s' "deviceKey e" "durable_identity (sd_deviceID (devices s ! j)) m"])
      (auto simp: durable_identity_def)
next
  case (created m ev d k)
  have "d \<notin> set (sr_used r)" using created(4) sc by (auto simp: hasID_iff scan_inv_def)
  moreover have "set (sr_used r') \<subseteq> sd_deviceID ` set (devices s')"
    using created(5,6) sc by (auto simp: scan_inv_def)
  ultimately show ?thesis using created
    by (intro scan_inv_assign [OF sc, of r' s' "deviceKey e" "durable_identity d m"])
      (auto simp: durable_identity_def)
qed simp

lemma resolve_loop_inv:
  "resolve_loop newID t es s r = (x, s') \<Longrightarrow> store_inv s \<Longrightarrow> scan_inv s r \<Longrightarrow>
     store_inv s' \<and> (\<forall>r'. x = Inr r' \<longrightarrow> scan_inv s' r')"
proof (induction newID t es s r rule: resolve_loop.induct)
  case (2 newID t e es s r)
  obtain y s1 where y: "resolve_one newID t e s r = (y, s1)" by (metis surj_pair)
  note i1 = resolve_one_store_inv [OF y "2.prems"(2)]
  show ?case
  proof (cases y)
    case (Inl z)
    then show ?thesis using "2.prems"(1) y i1 by auto
  next
    case (Inr r1)
    then have "resolve_loop newID t es s1 r1 = (x, s')" using "2.prems"(1) y by simp
    from "2.IH" [OF y [symmetric, unfolded Inr] refl this i1 resolve_one_scan_inv [OF y [unfolded Inr] "2.prems"(2,3)]]
    show ?thesis .
  qed
qed auto

text \<open>Nothing marked as changed: the devices are as before.\<close>

lemma resolve_one_unchanged:
  assumes "resolve_one newID t e s r = (Inr r', s')"
  shows "sr_changed r' \<or> (\<not> sr_changed r \<and> devices s' = devices s)"
  using assms
proof (cases rule: resolve_one_cases)
  case (matched m ev j upd new)
  have "new = devices s ! j" if "\<not> upd"
    using matched(5) that by (simp add: updateStateRecord_def split: if_splits)
  moreover have "devices s' = (devices s)[j := new]" "sr_changed r' = (sr_changed r \<or> upd)"
    using matched(6,7) by simp_all
  ultimately show ?thesis by (cases upd) simp_all
next
  case (created m ev d k)
  then show ?thesis by simp
qed simp_all

lemma resolve_loop_unchanged:
  "resolve_loop newID t es s r = (Inr r', s') \<Longrightarrow> sr_changed r' \<or> (\<not> sr_changed r \<and> devices s' = devices s)"
proof (induction newID t es s r rule: resolve_loop.induct)
  case (2 newID t e es s r)
  obtain y s1 where y: "resolve_one newID t e s r = (y, s1)" by (metis surj_pair)
  then obtain r1 where r1: "y = Inr r1" using "2.prems" by (cases y) auto
  then have "resolve_loop newID t es s1 r1 = (Inr r', s')" using "2.prems" y by simp
  from "2.IH" [OF y [symmetric, unfolded r1] refl this] resolve_one_unchanged [OF y [unfolded r1]] show ?case by auto
qed simp

lemma resolve_one_disk:
  assumes "resolve_one newID t e s r = (x, s')"
  shows "st_disk s' = st_disk s \<and> sf_version (st_state s') = sf_version (st_state s)"
  using assms by (cases rule: resolve_one_cases) (simp_all add: set_devices_def)

lemma resolve_loop_disk:
  "resolve_loop newID t es s r = (x, s') \<Longrightarrow> st_disk s' = st_disk s \<and> sf_version (st_state s') = sf_version (st_state s)"
proof (induction newID t es s r rule: resolve_loop.induct)
  case (2 newID t e es s r)
  obtain y s1 where y: "resolve_one newID t e s r = (y, s1)" by (metis surj_pair)
  show ?case
  proof (cases y)
    case (Inl z)
    then show ?thesis using "2.prems" y resolve_one_disk [OF y] by auto
  next
    case (Inr r1)
    then have "resolve_loop newID t es s1 r1 = (x, s')" using "2.prems" y by simp
    from "2.IH" [OF y [symmetric, unfolded Inr] refl this] resolve_one_disk [OF y] show ?thesis by simp
  qed
qed simp

section \<open>The same evidence keeps its record\<close>

definition has_record :: "state_store \<Rightarrow> string \<Rightarrow> string \<Rightarrow> identity_method \<Rightarrow> state_identity \<Rightarrow> bool" where
  "has_record s d t m ev \<longleftrightarrow> (\<exists>q \<in> set (devices s). sd_deviceID q = d \<and> record_matches t m ev q)"

lemma updated_matches:
  assumes "record_matches t m ev q" "record_matches t2 m2 ev2 q" "updateStateRecord q e ev2 time = (u, q')"
    and "m2 = IdentityUSBSerial \<and> si_usbSerial ev2 \<noteq> [] \<or> m2 = IdentityUSBPath \<and> si_usbSerial ev2 = []"
  shows "record_matches t m ev q'"
proof -
  have q': "sd_identity q' = ev2" "sd_transport q' = sd_transport q"
    using assms(3) by (auto simp: updateStateRecord_def split: if_splits)
  from assms(4) show ?thesis
  proof (elim disjE conjE)
    assume "m2 = IdentityUSBSerial" "si_usbSerial ev2 \<noteq> []"
    then show ?thesis using assms(1,2) by (simp add: record_matches_def q')
  next
    assume "m2 = IdentityUSBPath" "si_usbSerial ev2 = []"
    then show ?thesis using assms(1,2) by (simp add: record_matches_def q')
  qed
qed

lemma resolve_one_has_record:
  assumes r: "resolve_one newID time e s r = (x, s')" and h: "has_record s d t m ev"
  shows "has_record s' d t m ev"
  using r
proof (cases rule: resolve_one_cases)
  case (matched m2 ev2 j upd new)
  obtain q where q: "q \<in> set (devices s)" "sd_deviceID q = d" "record_matches t m ev q"
    using h by (auto simp: has_record_def)
  then obtain k where k: "k < length (devices s)" "devices s ! k = q" by (metis in_set_conv_nth)
  show ?thesis
  proof (cases "k = j")
    case True
    have qj: "devices s ! j = q" using True k(2) by simp
    have "record_matches t m ev new"
      by (rule updated_matches [OF q(3) matches_one(2) [OF matched(3), unfolded qj] matched(5) [unfolded qj]
          persistentEvidence_cases [OF matched(1,2)]])
    moreover have "sd_deviceID new = d" using updateStateRecord_id [OF matched(5)] qj q(2) by simp
    moreover have "new \<in> set (devices s')" using True k(1) by (simp add: matched(6) set_update_memI)
    ultimately show ?thesis unfolding has_record_def by blast
  next
    case False
    then have "(devices s)[j := new] ! k = q" "k < length ((devices s)[j := new])" using k by simp_all
    then have "q \<in> set ((devices s)[j := new])" by (metis nth_mem)
    then have "q \<in> set (devices s')" by (simp add: matched(6))
    then show ?thesis using q unfolding has_record_def by blast
  qed
next
  case (created m2 ev2 d2 k)
  show ?thesis using h by (simp add: created(5) has_record_def)
qed (use h in \<open>simp_all add: has_record_def\<close>)

lemma resolve_loop_has_record:
  "resolve_loop newID time es s r = (x, s') \<Longrightarrow> has_record s d t m ev \<Longrightarrow> has_record s' d t m ev"
proof (induction newID time es s r rule: resolve_loop.induct)
  case (2 newID time e es s r)
  obtain y s1 where y: "resolve_one newID time e s r = (y, s1)" by (metis surj_pair)
  note h = resolve_one_has_record [OF y "2.prems"(2)]
  show ?case
  proof (cases y)
    case (Inl z)
    then show ?thesis using "2.prems" y h by auto
  next
    case (Inr r1)
    then have "resolve_loop newID time es s1 r1 = (x, s')" using "2.prems" y by simp
    from "2.IH" [OF y [symmetric, unfolded Inr] refl this h] show ?thesis .
  qed
qed simp

text \<open>
  A durable answer for an endpoint comes from the only record that matches its
  evidence, and leaves such a record behind.
\<close>

lemma resolve_one_durable:
  assumes r: "resolve_one newID time e s r = (Inr r', s')" and inv: "store_inv s"
    and i: "map_of (sr_resolved r') (deviceKey e) = Some i" "di_persistent i"
    and pe: "persistentEvidence e = (m, ev)"
  shows "has_record s' (di_deviceID i) (ep_transport e) m ev \<and>
    (\<forall>d. has_record s d (ep_transport e) m ev \<longrightarrow> d = di_deviceID i)"
  using r
proof (cases rule: resolve_one_cases)
  case (known v)
  have "\<not> di_persistent v" using inv map_of_SomeD [OF known(1)] by (force simp: store_inv_def)
  then show ?thesis using known(3) i by (simp add: map_of_update)
next
  case (runtime d k)
  then show ?thesis using i by (auto simp: map_of_update runtime_identity_def)
next
  case (matched m2 ev2 j upd new)
  have m: "m2 = m" "ev2 = ev" using matched(1) pe by simp_all
  have d: "di_deviceID i = sd_deviceID (devices s ! j)" using matched(7) i by (auto simp: map_of_update durable_identity_def)
  note one = matches_one [OF matched(3)]
  have "record_matches (ep_transport e) m2 ev2 new"
    using updated_matches [OF one(2) one(2) matched(5) persistentEvidence_cases [OF matched(1,2)]] .
  moreover have "new \<in> set (devices s')" using matched(6) one(1) by (simp add: set_update_memI)
  ultimately have "has_record s' (di_deviceID i) (ep_transport e) m ev"
    using updateStateRecord_id [OF matched(5)] d m by (auto simp: has_record_def)
  then show ?thesis using one(3) d m by (auto simp: has_record_def)
next
  case (created m2 ev2 d k)
  have m: "m2 = m" "ev2 = ev" using created(1) pe by simp_all
  have d: "di_deviceID i = d" using created(6) i by (auto simp: map_of_update durable_identity_def)
  have "record_matches (ep_transport e) m ev
     \<lparr>sd_deviceID = d, sd_transport = ep_transport e, sd_identity = ev, sd_lastEndpoint = ep_endpoint e, sd_createdAt = time, sd_updatedAt = time\<rparr>"
    using persistentEvidence_cases [OF created(1,2)] m by (auto simp: record_matches_def)
  then have "has_record s' d (ep_transport e) m ev" using created(5) m by (auto simp: has_record_def)
  then show ?thesis using d matches_none [OF created(3)] m by (auto simp: has_record_def)
qed simp

lemma resolve_one_other:
  assumes "resolve_one newID time e s r = (Inr r', s')" "k \<noteq> deviceKey e"
  shows "map_of (sr_resolved r') k = map_of (sr_resolved r) k"
  using assms(1) by (cases rule: resolve_one_cases) (use assms(2) in \<open>auto simp: map_of_update\<close>)

lemma resolve_loop_other:
  "resolve_loop newID time es s r = (Inr r', s') \<Longrightarrow> k \<notin> deviceKey ` set es \<Longrightarrow>
     map_of (sr_resolved r') k = map_of (sr_resolved r) k"
proof (induction newID time es s r rule: resolve_loop.induct)
  case (2 newID time e es s r)
  obtain y s1 where y: "resolve_one newID time e s r = (y, s1)" by (metis surj_pair)
  then obtain r1 where r1: "y = Inr r1" using "2.prems" by (cases y) auto
  then have "resolve_loop newID time es s1 r1 = (Inr r', s')" using "2.prems" y by simp
  from "2.IH" [OF y [symmetric, unfolded r1] refl this] resolve_one_other [OF y [unfolded r1]] "2.prems"(2) show ?case by auto
qed simp

lemma resolve_loop_durable:
  "resolve_loop newID time es s r = (Inr r', s') \<Longrightarrow> store_inv s \<Longrightarrow> distinct (map deviceKey es) \<Longrightarrow> e \<in> set es \<Longrightarrow>
     map_of (sr_resolved r') (deviceKey e) = Some i \<Longrightarrow> di_persistent i \<Longrightarrow> persistentEvidence e = (m, ev) \<Longrightarrow>
     has_record s' (di_deviceID i) (ep_transport e) m ev \<and>
     (\<forall>d. has_record s d (ep_transport e) m ev \<longrightarrow> d = di_deviceID i)"
proof (induction newID time es s r rule: resolve_loop.induct)
  case (2 newID time e0 es s r)
  obtain y s1 where y: "resolve_one newID time e0 s r = (y, s1)" by (metis surj_pair)
  then obtain r1 where r1: "y = Inr r1" using "2.prems" by (cases y) auto
  have l: "resolve_loop newID time es s1 r1 = (Inr r', s')" using "2.prems" y r1 by simp
  note y1 = y [unfolded r1]
  show ?case
  proof (cases "e = e0")
    case True
    then have "deviceKey e \<notin> deviceKey ` set es" using "2.prems"(3) by auto
    then have "map_of (sr_resolved r1) (deviceKey e0) = Some i"
      using resolve_loop_other [OF l] "2.prems"(5) True by simp
    from resolve_one_durable [OF y1 "2.prems"(2) this "2.prems"(6) "2.prems"(7) [unfolded True]] resolve_loop_has_record [OF l]
    show ?thesis using True by blast
  next
    case False
    have "has_record s' (di_deviceID i) (ep_transport e) m ev \<and>
      (\<forall>d. has_record s1 d (ep_transport e) m ev \<longrightarrow> d = di_deviceID i)"
      by (rule "2.IH" [OF y1 [symmetric] refl l resolve_one_store_inv [OF y1 "2.prems"(2)]])
        (use "2.prems" False in auto)
    then show ?thesis using resolve_one_has_record [OF y1] by blast
  qed
qed simp

section \<open>Whole scans\<close>

text \<open>
  The scans of one store, each with its own outcome of the file replacement; \<open>newID\<close>
  is the store's generator.
\<close>

type_synonym resolve_call = "state_writer \<times> int \<times> device_endpoint list \<times> int option"

fun resolve_run :: "id_source \<Rightarrow> resolve_call list \<Rightarrow> state_store \<Rightarrow> state_store" where
  "resolve_run newID [] s = s"
| "resolve_run newID ((write, now, es, obs) # calls) s =
     resolve_run newID calls (snd (st_Resolve newID write now es obs s))"

definition store_ok :: "state_store \<Rightarrow> bool" where
  "store_ok s \<longleftrightarrow> store_inv s \<and> st_disk s = Some (st_state s)"

lemma resolve_one_ids_grow:
  assumes "resolve_one newID t e s r = (x, s')"
  shows "sd_deviceID ` set (devices s) \<subseteq> sd_deviceID ` set (devices s')"
  using assms
proof (cases rule: resolve_one_cases)
  case (matched m ev j upd new)
  have "map sd_deviceID ((devices s)[j := new]) = map sd_deviceID (devices s)"
    using matches_one(1) [OF matched(3)] updateStateRecord_id [OF matched(5)] by (intro map_update_same) auto
  then show ?thesis by (simp add: matched(6) flip: set_map)
qed auto

lemma resolve_loop_ids_grow:
  "resolve_loop newID t es s r = (x, s') \<Longrightarrow> sd_deviceID ` set (devices s) \<subseteq> sd_deviceID ` set (devices s')"
proof (induction newID t es s r rule: resolve_loop.induct)
  case (2 newID t e es s r)
  obtain y s1 where y: "resolve_one newID t e s r = (y, s1)" by (metis surj_pair)
  note g = resolve_one_ids_grow [OF y]
  show ?case
  proof (cases y)
    case (Inl z)
    then show ?thesis using "2.prems" y g by auto
  next
    case (Inr r1)
    then have "resolve_loop newID t es s1 r1 = (x, s')" using "2.prems" y by simp
    from "2.IH" [OF y [symmetric, unfolded Inr] refl this] g show ?thesis by blast
  qed
qed simp

abbreviation no_result :: scan_result where
  "no_result \<equiv> \<lparr>sr_resolved = [], sr_used = [], sr_changed = False\<rparr>"

lemma no_result_inv: "scan_inv s no_result"
  by (simp add: scan_inv_def)

lemma state_eqI: "sf_version a = sf_version b \<Longrightarrow> sf_devices a = sf_devices b \<Longrightarrow> a = (b :: state_file)"
  by simp

text \<open>A scan either answers with the state the loop reached, on disk, or restores the devices.\<close>

lemma st_Resolve_cases:
  assumes R: "st_Resolve newID write now es obs s = (x, s')" and ok: "st_disk s = Some (st_state s)"
  obtains
    (answered) t r s1 where "resolve_loop newID t es s no_result = (Inr r, s1)" "x = Inr (sr_resolved r)"
      "st_state s' = st_state s1" "st_runtime s' = st_runtime s1" "st_disk s' = Some (st_state s')"
  | (refused) t y z s1 where "resolve_loop newID t es s no_result = (y, s1)" "x = Inl z"
      "st_state s' = st_state s" "st_runtime s' = st_runtime s1" "st_disk s' = Some (st_state s')"
proof -
  define t where "t = (case obs of None \<Rightarrow> now | Some t \<Rightarrow> t)"
  obtain y s1 where l: "resolve_loop newID t es s no_result = (y, s1)" by (metis surj_pair)
  have disk: "st_disk s1 = Some (st_state s)" "sf_version (st_state s1) = sf_version (st_state s)"
    using resolve_loop_disk [OF l] ok by simp_all
  show thesis
  proof (cases y)
    case (Inl z)
    then show ?thesis using R l disk by (intro refused [OF l]) (auto simp: st_Resolve_def t_def Let_def)
  next
    case (Inr r)
    show ?thesis
    proof (cases "sr_changed r")
      case True
      show ?thesis
      proof (cases "write (st_state s1)")
        case None
        then show ?thesis using R l Inr True
          by (intro answered [of t r s1]) (auto simp: st_Resolve_def t_def Let_def saveLocked_def)
      next
        case (Some e)
        then show ?thesis using R l Inr True disk
          by (intro refused [OF l]) (auto simp: st_Resolve_def t_def Let_def saveLocked_def)
      qed
    next
      case False
      then have "st_state s1 = st_state s"
        using resolve_loop_unchanged [OF l [unfolded Inr]] disk(2) by (simp add: devices_def)
      then show ?thesis using R l Inr False disk
        by (intro answered [of t r s1]) (auto simp: st_Resolve_def t_def Let_def)
    qed
  qed
qed

lemma st_Resolve_ok:
  assumes R: "st_Resolve newID write now es obs s = (x, s')" and ok: "store_ok s"
  shows "store_ok s'"
proof -
  have d: "st_disk s = Some (st_state s)" and inv: "store_inv s" using ok by (simp_all add: store_ok_def)
  from R d show ?thesis
  proof (cases rule: st_Resolve_cases)
    case (answered t r s1)
    have "store_inv s1" using resolve_loop_inv [OF answered(1) inv no_result_inv] by simp
    then show ?thesis using answered(3-5) by (simp add: store_ok_def store_inv_def devices_def runtime_ids_def)
  next
    case (refused t y z s1)
    have "store_inv s1" using resolve_loop_inv [OF refused(1) inv no_result_inv] by simp
    moreover have "sd_deviceID ` set (devices s) \<subseteq> sd_deviceID ` set (devices s1)"
      by (rule resolve_loop_ids_grow [OF refused(1)])
    ultimately show ?thesis using refused(3-5) inv
      unfolding store_ok_def store_inv_def devices_def runtime_ids_def by auto
  qed
qed

lemma resolve_run_ok: "store_ok s \<Longrightarrow> store_ok (resolve_run newID calls s)"
  by (induction newID calls s rule: resolve_run.induct) (auto intro: st_Resolve_ok [OF surjective_pairing])

lemma validate_devices_distinct:
  "validate_devices ds seen = None \<Longrightarrow> distinct (map sd_deviceID ds) \<and> sd_deviceID ` set ds \<inter> set seen = {}"
proof (induction ds arbitrary: seen)
  case (Cons r ds)
  then have new: "sd_deviceID r \<notin> set seen" "validate_devices ds (sd_deviceID r # seen) = None"
    by (simp_all split: if_splits)
  from Cons.IH [OF new(2)] new(1) show ?case by auto
qed simp

lemma LoadStateStore_ok:
  assumes "LoadStateStore write rd = Inr s"
  shows "store_ok s"
  using assms validate_devices_distinct
  by (auto simp: LoadStateStore_def st_load_def saveLocked_def newStateStore_def validateStateFile_def store_ok_def
      store_inv_def devices_def runtime_ids_def split: state_read.splits option.splits if_splits prod.splits)

lemma st_Resolve_has_record:
  assumes R: "st_Resolve newID write now es obs s = (x, s')" and ok: "store_ok s" and h: "has_record s d t m ev"
  shows "has_record s' d t m ev"
proof -
  have "st_disk s = Some (st_state s)" using ok by (simp add: store_ok_def)
  with R show ?thesis
  proof (cases rule: st_Resolve_cases)
    case (answered time r s1)
    from resolve_loop_has_record [OF answered(1) h] show ?thesis using answered(3) by (simp add: has_record_def devices_def)
  next
    case (refused time y z s1)
    then show ?thesis using h by (simp add: has_record_def devices_def)
  qed
qed

lemma resolve_run_has_record:
  "store_ok s \<Longrightarrow> has_record s d t m ev \<Longrightarrow> has_record (resolve_run newID calls s) d t m ev"
  by (induction newID calls s rule: resolve_run.induct)
    (auto intro: st_Resolve_ok [OF surjective_pairing] st_Resolve_has_record [OF surjective_pairing])

lemma st_Resolve_durable:
  assumes R: "st_Resolve newID write now es obs s = (Inr res, s')" and ok: "store_ok s"
    and e: "distinct (map deviceKey es)" "e \<in> set es" "map_of res (deviceKey e) = Some i" "di_persistent i"
      "persistentEvidence e = (m, ev)"
  shows "has_record s' (di_deviceID i) (ep_transport e) m ev"
    "has_record s d (ep_transport e) m ev \<Longrightarrow> d = di_deviceID i"
proof -
  have "st_disk s = Some (st_state s)" using ok by (simp add: store_ok_def)
  with R obtain t r s1 where a: "resolve_loop newID t es s no_result = (Inr r, s1)" "res = sr_resolved r"
      "st_state s' = st_state s1"
    by (cases rule: st_Resolve_cases) auto
  have "store_inv s" using ok by (simp add: store_ok_def)
  note D = resolve_loop_durable [OF a(1) this e(1,2) e(3) [unfolded a(2)] e(4,5)]
  show "has_record s' (di_deviceID i) (ep_transport e) m ev" using D a(3) by (simp add: has_record_def devices_def)
  show "has_record s d (ep_transport e) m ev \<Longrightarrow> d = di_deviceID i" using D by blast
qed

section \<open>Properties\<close>

definition demo_usb :: "string \<Rightarrow> device_endpoint" where
  "demo_usb name = \<lparr>ep_transport = ''serial'', ep_endpoint = name,
     ep_metadata = \<lparr>me_vid = ''0403'', me_pid = ''6001'', me_usbSerial = ''A1'', me_manufacturer = [], me_product = [], me_usbPath = []\<rparr>\<rparr>"

definition demo_ids :: id_source where "demo_ids k = Inr (CHR ''d'' # format_nat k)"

definition demo_store :: state_store where
  "demo_store = newStateStore\<lparr>st_disk := Some (st_state newStateStore)\<rparr>"

lemma demo_load: "LoadStateStore (\<lambda>_. None) FileMissing = Inr demo_store"
  by (simp add: LoadStateStore_def st_load_def saveLocked_def demo_store_def)

text \<open>
  No two identities share a DeviceID: after any number of scans, failed ones
  included, the durable records and the process-local identities of a loaded store
  all have different DeviceIDs.
\<close>

theorem device_ids_unique:
  assumes "LoadStateStore write rd = Inr s"
  shows "distinct (map sd_deviceID (sf_devices (st_state (resolve_run newID calls s)))
         @ map (di_deviceID \<circ> snd) (st_runtime (resolve_run newID calls s)))"
  using resolve_run_ok [OF LoadStateStore_ok [OF assms], of newID calls]
  by (simp add: store_ok_def store_inv_def devices_def runtime_ids_def)

theorem device_ids_unique_witness:
  "distinct (map sd_deviceID (sf_devices (st_state (resolve_run demo_ids
       [(\<lambda>_. None, 1, [demo_usb ''COM3''], None)] demo_store))))"
  using device_ids_unique [OF demo_load, of demo_ids "[(\<lambda>_. None, 1, [demo_usb ''COM3''], None)]"]
  unfolding distinct_append by (rule conjunct1)

lemma scan_inv_unique:
  "scan_inv s r \<Longrightarrow> map_of (sr_resolved r) k = Some i \<Longrightarrow> map_of (sr_resolved r) k' = Some i' \<Longrightarrow>
     di_persistent i \<Longrightarrow> di_persistent i' \<Longrightarrow> di_deviceID i = di_deviceID i' \<Longrightarrow> k = k'"
  unfolding scan_inv_def by blast

text \<open>
  C13 A scan never merges two endpoints: endpoints with different keys get different
  DeviceIDs, also when they present the same evidence.
\<close>

theorem device_scan_no_merge:
  assumes "LoadStateStore write0 rd = Inr s"
    and "st_Resolve newID write now es obs (resolve_run newID calls s) = (Inr res, s')"
    and "map_of res k = Some i" "map_of res k' = Some i'" "k \<noteq> k'"
  shows "di_deviceID i \<noteq> di_deviceID i'"
proof
  assume eq: "di_deviceID i = di_deviceID i'"
  define s0 where "s0 = resolve_run newID calls s"
  have ok: "store_ok s0" unfolding s0_def using resolve_run_ok [OF LoadStateStore_ok [OF assms(1)]] .
  then have d: "st_disk s0 = Some (st_state s0)" "store_inv s0" by (simp_all add: store_ok_def)
  from assms(2) [folded s0_def] d(1) obtain t r s1 where a: "resolve_loop newID t es s0 no_result = (Inr r, s1)" "res = sr_resolved r"
    by (cases rule: st_Resolve_cases) auto
  have inv: "store_inv s1" "scan_inv s1 r" using resolve_loop_inv [OF a(1) d(2) no_result_inv] by simp_all
  have durable: "di_deviceID v \<in> sd_deviceID ` set (devices s1)" if "map_of res j = Some v" "di_persistent v" for j v
    using inv(2) that a(2) by (auto simp: scan_inv_def)
  have rt: "(j, v) \<in> set (st_runtime s1)" if "map_of res j = Some v" "\<not> di_persistent v" for j v
  proof -
    have "map_of (st_runtime s1) j = Some v" using inv(2) that a(2) by (auto simp: scan_inv_def)
    then show ?thesis by (rule map_of_SomeD)
  qed
  have mix: False if "map_of res j = Some v" "di_persistent v" "map_of res j' = Some v'" "\<not> di_persistent v'"
      "di_deviceID v = di_deviceID v'" for j v j' v'
  proof -
    have "(di_deviceID \<circ> snd) (j', v') \<in> (di_deviceID \<circ> snd) ` set (st_runtime s1)" using rt [OF that(3,4)] by (rule imageI)
    then have "di_deviceID v' \<in> set (runtime_ids s1)" by (simp add: runtime_ids_def)
    moreover have "sd_deviceID ` set (devices s1) \<inter> set (runtime_ids s1) = {}" using inv(1) by (simp add: store_inv_def)
    ultimately show False using durable [OF that(1,2)] that(5) by (simp add: disjoint_iff)
  qed
  show False
  proof (cases "di_persistent i"; cases "di_persistent i'")
    assume "di_persistent i" "di_persistent i'"
    then have "k = k'" using scan_inv_unique [OF inv(2)] assms(3,4) a(2) eq by simp
    then show False using assms(5) by simp
  next
    assume p: "\<not> di_persistent i" "\<not> di_persistent i'"
    have e: "(di_deviceID \<circ> snd) (k, i) = (di_deviceID \<circ> snd) (k', i')" using eq by simp
    have "inj_on (di_deviceID \<circ> snd) (set (st_runtime s1))"
      using inv(1) by (simp add: store_inv_def runtime_ids_def distinct_map)
    from inj_onD [OF this e rt [OF assms(3) p(1)] rt [OF assms(4) p(2)]] show False using assms(5) by simp
  next
    assume "di_persistent i" "\<not> di_persistent i'"
    then show False using mix [OF assms(3) _ assms(4)] eq by simp
  next
    assume "\<not> di_persistent i" "di_persistent i'"
    then show False using mix [OF assms(4) _ assms(3)] eq by simp
  qed
qed

theorem device_scan_no_merge_witness:
  "\<exists>i i' s'. st_Resolve demo_ids (\<lambda>_. None) 1 [demo_usb ''a'', demo_usb ''b''] None demo_store
      = (Inr [(deviceKey (demo_usb ''a''), i), (deviceKey (demo_usb ''b''), i')], s') \<and> di_deviceID i \<noteq> di_deviceID i'"
proof -
  let ?k = "deviceKey (demo_usb ''a'')" and ?k' = "deviceKey (demo_usb ''b'')"
  have "case st_Resolve demo_ids (\<lambda>_. None) 1 [demo_usb ''a'', demo_usb ''b''] None demo_store of
      (Inr res, s') \<Rightarrow> map fst res = [?k, ?k'] | _ \<Rightarrow> False" by code_simp
  then obtain i i' s' where r: "st_Resolve demo_ids (\<lambda>_. None) 1 [demo_usb ''a'', demo_usb ''b''] None demo_store
      = (Inr [(?k, i), (?k', i')], s')"
    by (auto split: prod.splits sum.splits simp: map_eq_Cons_conv)
  have ne: "?k \<noteq> ?k'" by code_simp
  have r': "st_Resolve demo_ids (\<lambda>_. None) 1 [demo_usb ''a'', demo_usb ''b''] None (resolve_run demo_ids [] demo_store)
      = (Inr [(?k, i), (?k', i')], s')" using r by simp
  from device_scan_no_merge [OF demo_load r' _ _ ne, of i i'] ne r show ?thesis by auto
qed

text \<open>
  Durable identities are stable: if a scan gives an endpoint a durable identity and,
  after any number of further scans (failed ones included), another scan gives a
  durable identity to an endpoint of the same transport with the same evidence,
  possibly under another name, then both have the same DeviceID.
\<close>

theorem device_identity_stable:
  assumes "LoadStateStore write0 rd = Inr s"
    and "st_Resolve newID write now es obs (resolve_run newID calls s) = (Inr res, s1)"
    and "distinct (map deviceKey es)" "e \<in> set es" "map_of res (deviceKey e) = Some i" "di_persistent i"
    and "st_Resolve newID write' now' es' obs' (resolve_run newID calls' s1) = (Inr res', s2)"
    and "distinct (map deviceKey es')" "e' \<in> set es'" "map_of res' (deviceKey e') = Some i'" "di_persistent i'"
    and "ep_transport e' = ep_transport e" "persistentEvidence e' = persistentEvidence e"
  shows "di_deviceID i' = di_deviceID i"
proof -
  obtain m ev where pe: "persistentEvidence e = (m, ev)" by (metis surj_pair)
  have ok: "store_ok (resolve_run newID calls s)" using resolve_run_ok [OF LoadStateStore_ok [OF assms(1)]] .
  have ok1: "store_ok s1" using st_Resolve_ok [OF assms(2) ok] .
  have "has_record s1 (di_deviceID i) (ep_transport e) m ev"
    by (rule st_Resolve_durable(1) [OF assms(2) ok assms(3-6) pe])
  then have "has_record (resolve_run newID calls' s1) (di_deviceID i) (ep_transport e') m ev"
    using resolve_run_has_record [OF ok1] assms(12) by simp
  from st_Resolve_durable(2) [OF assms(7) resolve_run_ok [OF ok1] assms(8-11) pe [folded assms(13)] this] show ?thesis by simp
qed

theorem device_identity_stable_witness:
  "\<exists>i i' s1 s2.
     st_Resolve demo_ids (\<lambda>_. None) 1 [demo_usb ''COM3''] None demo_store = (Inr [(deviceKey (demo_usb ''COM3''), i)], s1) \<and>
     st_Resolve demo_ids (\<lambda>_. None) 2 [demo_usb ''COM7''] None s1 = (Inr [(deviceKey (demo_usb ''COM7''), i')], s2) \<and>
     di_deviceID i' = di_deviceID i"
proof -
  let ?k = "deviceKey (demo_usb ''COM3'')" and ?k' = "deviceKey (demo_usb ''COM7'')"
  have "case st_Resolve demo_ids (\<lambda>_. None) 1 [demo_usb ''COM3''] None demo_store of
      (Inr res, s1) \<Rightarrow> map fst res = [?k] \<and> list_all (di_persistent \<circ> snd) res \<and>
        (case st_Resolve demo_ids (\<lambda>_. None) 2 [demo_usb ''COM7''] None s1 of
           (Inr res', s2) \<Rightarrow> map fst res' = [?k'] \<and> list_all (di_persistent \<circ> snd) res'
         | _ \<Rightarrow> False) | _ \<Rightarrow> False" by code_simp
  then obtain i i' s1 s2 where r:
      "st_Resolve demo_ids (\<lambda>_. None) 1 [demo_usb ''COM3''] None demo_store = (Inr [(?k, i)], s1)" "di_persistent i"
      "st_Resolve demo_ids (\<lambda>_. None) 2 [demo_usb ''COM7''] None s1 = (Inr [(?k', i')], s2)" "di_persistent i'"
    by (auto split: prod.splits sum.splits simp: map_eq_Cons_conv)
  have r0: "st_Resolve demo_ids (\<lambda>_. None) 1 [demo_usb ''COM3''] None (resolve_run demo_ids [] demo_store) = (Inr [(?k, i)], s1)"
    "st_Resolve demo_ids (\<lambda>_. None) 2 [demo_usb ''COM7''] None (resolve_run demo_ids [] s1) = (Inr [(?k', i')], s2)"
    using r by simp_all
  have e: "ep_transport (demo_usb ''COM7'') = ep_transport (demo_usb ''COM3'')"
    "persistentEvidence (demo_usb ''COM7'') = persistentEvidence (demo_usb ''COM3'')"
    by (simp_all add: demo_usb_def persistentEvidence_def)
  from device_identity_stable [OF demo_load r0(1) _ _ _ r(2) r0(2) _ _ _ r(4) e] r show ?thesis by auto
qed

text \<open>
  The state in memory is always the one on disk: whatever scans ran and whichever
  of them failed, to allocate an identity or to replace the file, the devices the
  store works with are those the file holds.
\<close>

theorem device_state_is_disk:
  assumes "LoadStateStore write rd = Inr s"
  shows "st_disk (resolve_run newID calls s) = Some (st_state (resolve_run newID calls s))"
  using resolve_run_ok [OF LoadStateStore_ok [OF assms]] by (simp add: store_ok_def)

theorem device_state_is_disk_witness:
  "map sd_deviceID (sf_devices (the (st_disk (resolve_run demo_ids
      [(\<lambda>_. None, 1, [demo_usb ''a''], None), (\<lambda>_. Some (ErrExternal 5), 2, [demo_usb ''b''], None)] demo_store)))) = [''d0'']"
proof -
  show ?thesis unfolding device_state_is_disk [OF demo_load] option.sel by code_simp
qed

text \<open>
  An ambiguous endpoint changes its identity with every scan: of two endpoints that
  present the same evidence, the second is given a new process-local DeviceID by each
  scan, although its entry of the runtime map from the scan before is still there.
\<close>

theorem device_ambiguous_identity_changes:
  "\<exists>i i' s1 s2.
     st_Resolve demo_ids (\<lambda>_. None) 1 [demo_usb ''a'', demo_usb ''b''] None demo_store = (Inr i, s1) \<and>
     st_Resolve demo_ids (\<lambda>_. None) 2 [demo_usb ''a'', demo_usb ''b''] None s1 = (Inr i', s2) \<and>
     map (di_deviceID \<circ> snd) i = [''d0'', ''d1''] \<and> map (di_deviceID \<circ> snd) i' = [''d0'', ''d2'']"
proof -
  have "case st_Resolve demo_ids (\<lambda>_. None) 1 [demo_usb ''a'', demo_usb ''b''] None demo_store of
      (Inr i, s1) \<Rightarrow> map (di_deviceID \<circ> snd) i = [''d0'', ''d1''] \<and>
        (case st_Resolve demo_ids (\<lambda>_. None) 2 [demo_usb ''a'', demo_usb ''b''] None s1 of
           (Inr i', s2) \<Rightarrow> map (di_deviceID \<circ> snd) i' = [''d0'', ''d2'']
         | _ \<Rightarrow> False) | _ \<Rightarrow> False" by code_simp
  then show ?thesis by (auto split: prod.splits sum.splits)
qed

end
