(* ===== verification/Device_Events.thy ===== *)
theory Device_Events
  imports Cursor_Log
begin

text \<open>
  The event ring of the device registry (\<open>internal/core/device/registry.go\<close>):
  presence transitions, without IDs and without a close error.
\<close>

abbreviation "ErrInvalidDeviceReadLimit \<equiv> ErrSentinel ''device.ErrInvalidReadLimit''"

datatype device_event_type = EventAppeared | EventDisappeared

record device_event =
  de_timestamp :: int
  de_type :: device_event_type
  de_transport :: string
  de_endpoint :: string

definition zero_device_event :: device_event where
  "zero_device_event = \<lparr>de_timestamp = 0, de_type = EventAppeared, de_transport = [], de_endpoint = []\<rparr>"

record device_event_chunk =
  dc_events :: "device_event list"
  dc_next :: nat
  dc_dropped :: bool

record device_buffer =
  db_events :: "device_event list"
  db_start :: nat
  db_size :: nat
  db_base :: nat
  db_notify :: nat
  db_closed :: bool

definition db_newEventBuffer :: "int \<Rightarrow> device_buffer" where
  "db_newEventBuffer capacity =
     \<lparr>db_events = replicate (nat capacity) zero_device_event, db_start = 0, db_size = 0,
      db_base = 0, db_notify = 0, db_closed = False\<rparr>"

definition db_signalLocked :: "device_buffer \<Rightarrow> device_buffer" where
  "db_signalLocked b = b\<lparr>db_notify := Suc (db_notify b)\<rparr>"

definition db_append :: "device_event \<Rightarrow> device_buffer \<Rightarrow> device_buffer" where
  "db_append event b =
     (if db_closed b then b
      else db_signalLocked
             (if db_size b = length (db_events b)
              then b\<lparr>db_events := (db_events b)[db_start b := event],
                     db_start := (db_start b + 1) mod length (db_events b),
                     db_base := db_base b + 1\<rparr>
              else b\<lparr>db_events := (db_events b)[(db_start b + db_size b) mod length (db_events b) := event],
                     db_size := db_size b + 1\<rparr>))"

definition db_copyLocked :: "device_buffer \<Rightarrow> nat \<Rightarrow> nat \<Rightarrow> bool \<Rightarrow> device_event_chunk" where
  "db_copyLocked b start count dropped =
     \<lparr>dc_events = map (\<lambda>index. db_events b ! ((db_start b + (start - db_base b) + index) mod length (db_events b)))
                     [0..<count],
      dc_next = start + count, dc_dropped = dropped\<rparr>"

definition db_readChunk :: "device_buffer \<Rightarrow> nat \<Rightarrow> int \<Rightarrow> device_event_chunk \<times> nat option \<times> bool" where
  "db_readChunk b next_cursor limit =
     (let dropped = next_cursor < db_base b;
          next' = (if dropped then db_base b else next_cursor);
          end_cursor = db_base b + db_size b
      in if next' < end_cursor
         then (db_copyLocked b next' (nat (min limit (int (end_cursor - next')))) dropped, None, False)
         else (\<lparr>dc_events = [], dc_next = 0, dc_dropped = False\<rparr>, Some (db_notify b), db_closed b))"

definition db_attempt :: "device_buffer \<Rightarrow> nat \<Rightarrow> int \<Rightarrow> device_event_chunk attempt" where
  "db_attempt b next_cursor limit =
     (case db_readChunk b next_cursor limit of (chunk, notify, isClosed) \<Rightarrow>
        if 0 < length (dc_events chunk) \<or> dc_dropped chunk then Answer (Inr chunk)
        else if isClosed then Answer (Inl IoEOF)
        else Wait notify)"

definition db_read :: "device_buffer list \<Rightarrow> goerr \<Rightarrow> nat \<Rightarrow> int \<Rightarrow> goerr + device_event_chunk" where
  "db_read bs ctx next_cursor limit =
     (if limit \<le> 0 then Inl ErrInvalidDeviceReadLimit
      else wait_loop (\<lambda>b. db_attempt b next_cursor limit) bs ctx)"

definition db_readRecent :: "device_buffer \<Rightarrow> int \<Rightarrow> goerr + device_event_chunk" where
  "db_readRecent b limit =
     (if limit \<le> 0 then Inl ErrInvalidDeviceReadLimit
      else
        let count = nat (min limit (int (db_size b)))
        in Inr (db_copyLocked b (db_base b + (db_size b - count)) count False))"

definition db_close :: "device_buffer \<Rightarrow> device_buffer" where
  "db_close b = (if db_closed b then b else db_signalLocked (b\<lparr>db_closed := True\<rparr>))"

section \<open>Well-formed buffers\<close>

definition db_view :: "device_buffer \<Rightarrow> device_event list" where
  "db_view b = ring_view (db_events b) (db_start b) (db_size b)"

definition db_wf :: "device_buffer \<Rightarrow> bool" where
  "db_wf b \<longleftrightarrow> 0 < length (db_events b) \<and> db_start b < length (db_events b) \<and>
     db_size b \<le> length (db_events b) \<and> (0 < db_base b \<longrightarrow> db_size b = length (db_events b))"

lemma length_db_view [simp]: "length (db_view b) = db_size b"
  by (simp add: db_view_def)

lemma db_signalLocked_sel [simp]:
  "db_events (db_signalLocked b) = db_events b" "db_start (db_signalLocked b) = db_start b"
  "db_size (db_signalLocked b) = db_size b" "db_base (db_signalLocked b) = db_base b"
  "db_closed (db_signalLocked b) = db_closed b" "db_notify (db_signalLocked b) = Suc (db_notify b)"
  "db_view (db_signalLocked b) = db_view b"
  by (simp_all add: db_signalLocked_def db_view_def)

lemma db_append_closed: "db_closed b \<Longrightarrow> db_append e b = b"
  by (simp add: db_append_def)

lemma db_append_closed_sel [simp]: "db_closed (db_append e b) = db_closed b"
  by (simp add: db_append_def Let_def)

text \<open>An append to an open buffer drops the oldest event exactly when the ring is full.\<close>

lemma db_append_view:
  assumes "0 < length (db_events b)" "db_start b < length (db_events b)" "db_size b \<le> length (db_events b)"
    and "\<not> db_closed b"
  shows "db_view (db_append e b) = drop (if db_size b = length (db_events b) then 1 else 0) (db_view b @ [e])"
    and "db_base (db_append e b) = db_base b + (if db_size b = length (db_events b) then 1 else 0)"
    and "length (db_events (db_append e b)) = length (db_events b)"
    and "db_start (db_append e b) < length (db_events b)"
    and "db_size (db_append e b) = min (length (db_events b)) (Suc (db_size b))"
proof -
  show "db_base (db_append e b) = db_base b + (if db_size b = length (db_events b) then 1 else 0)"
    and "length (db_events (db_append e b)) = length (db_events b)"
    and "db_start (db_append e b) < length (db_events b)"
    and "db_size (db_append e b) = min (length (db_events b)) (Suc (db_size b))"
    using assms by (auto simp: db_append_def Let_def)
  have pos: "db_events b \<noteq> []" using assms(1) by auto
  show "db_view (db_append e b) = drop (if db_size b = length (db_events b) then 1 else 0) (db_view b @ [e])"
  proof (cases "db_size b = length (db_events b)")
    case True
    have "0 < length (db_view b)" using True assms(1) by simp
    then have "tl (db_view b) @ [e] = drop 1 (db_view b @ [e])"
      by (cases "db_view b") auto
    then show ?thesis using True pos assms(4) ring_view_overwrite [OF assms(1,2)]
      by (simp add: db_append_def Let_def db_view_def)
  next
    case False
    then have "db_size b < length (db_events b)" using assms(3) by simp
    from ring_view_push [OF this] False pos assms(4) show ?thesis
      by (simp add: db_append_def Let_def db_view_def)
  qed
qed

lemma db_new_wf:
  "0 < c \<Longrightarrow> db_wf (db_newEventBuffer c) \<and> db_view (db_newEventBuffer c) = [] \<and>
     db_base (db_newEventBuffer c) = 0 \<and> \<not> db_closed (db_newEventBuffer c)"
  by (auto simp: db_newEventBuffer_def db_wf_def db_view_def)

lemma db_append_wf:
  assumes "db_wf b"
  shows "db_wf (db_append e b)"
proof (cases "db_closed b")
  case True
  then show ?thesis using assms by (simp add: db_append_closed)
next
  case False
  have pre: "0 < length (db_events b)" "db_start b < length (db_events b)" "db_size b \<le> length (db_events b)"
    using assms by (simp_all add: db_wf_def)
  note v = db_append_view [OF pre False, of e]
  have "0 < db_base (db_append e b) \<longrightarrow> db_size (db_append e b) = length (db_events b)"
    using assms v(2,5) by (auto simp: db_wf_def)
  then show ?thesis using pre v(3-5) by (simp add: db_wf_def)
qed

section \<open>The buffer is a cursor log\<close>

definition db_entries :: "device_buffer \<Rightarrow> device_event \<Rightarrow> device_event list" where
  "db_entries b e = (if db_closed b then [] else [e])"

definition db_fetch :: "device_buffer \<Rightarrow> nat \<Rightarrow> int \<Rightarrow> (device_event list \<times> nat \<times> bool) option" where
  "db_fetch b next_cursor limit =
     (case db_attempt b next_cursor limit of
        Answer (Inr chunk) \<Rightarrow> Some (dc_events chunk, dc_next chunk, dc_dropped chunk)
      | _ \<Rightarrow> None)"

lemma db_copyLocked_view:
  assumes "db_wf b" "db_base b \<le> start" "start + count \<le> db_base b + db_size b"
  shows "db_copyLocked b start count d =
    \<lparr>dc_events = take count (drop (start - db_base b) (db_view b)), dc_next = start + count, dc_dropped = d\<rparr>"
proof -
  have le: "start - db_base b + count \<le> db_size b" using assms(2,3) by linarith
  show ?thesis using ring_view_sub [OF le, of "db_events b" "db_start b", symmetric]
    by (simp add: db_copyLocked_def db_view_def)
qed

definition db_segment :: "device_buffer \<Rightarrow> nat \<Rightarrow> int \<Rightarrow> device_event list" where
  "db_segment b n limit = take (nat limit) (drop (max n (db_base b) - db_base b) (db_view b))"

lemma db_fetch_cases:
  assumes "db_wf b" "0 < limit"
  shows "db_fetch b n limit =
    (if max n (db_base b) < db_base b + db_size b
     then Some (db_segment b n limit, max n (db_base b) + length (db_segment b n limit), n < db_base b)
     else None)"
proof -
  let ?m = "max n (db_base b)"
  have m: "(if n < db_base b then db_base b else n) = ?m" by (simp add: max_def)
  have ne: "length (db_events b) \<noteq> 0" using assms(1) by (simp add: db_wf_def)
  show ?thesis
  proof (cases "?m < db_base b + db_size b")
    case True
    define cnt where "cnt = nat (min limit (int (db_base b + db_size b - ?m)))"
    note seg = segment_count [OF assms(2) True length_db_view, folded cnt_def, folded db_segment_def]
    have "db_copyLocked b ?m cnt (n < db_base b) =
       \<lparr>dc_events = db_segment b n limit, dc_next = ?m + cnt, dc_dropped = n < db_base b\<rparr>"
      using seg(4) by (subst db_copyLocked_view [OF assms(1)]) (auto simp: seg(1))
    then have rc: "db_readChunk b n limit =
        (\<lparr>dc_events = db_segment b n limit, dc_next = ?m + cnt, dc_dropped = n < db_base b\<rparr>, None, False)"
      using True ne by (simp only: db_readChunk_def m cnt_def [symmetric] Let_def if_True if_False simp_thms)
    show ?thesis using True seg(2,3) by (simp add: db_fetch_def db_attempt_def rc)
  next
    case False
    have rc: "db_readChunk b n limit =
        (\<lparr>dc_events = [], dc_next = 0, dc_dropped = False\<rparr>, Some (db_notify b), db_closed b)"
      using ne by (simp only: db_readChunk_def m Let_def False if_False simp_thms)
    show ?thesis by (simp only: False if_False) (simp add: db_fetch_def db_attempt_def rc)
  qed
qed

interpretation dbl: cursor_log db_wf db_base db_view db_append db_entries db_fetch
proof unfold_locales
  fix b e assume wf: "db_wf b"
  show "db_wf (db_append e b)" using wf by (rule db_append_wf)
  show "\<exists>k \<le> length (db_view b @ db_entries b e).
     db_view (db_append e b) = drop k (db_view b @ db_entries b e) \<and> db_base (db_append e b) = db_base b + k"
  proof (cases "db_closed b")
    case True
    then show ?thesis by (intro exI [of _ 0]) (simp add: db_entries_def db_append_closed)
  next
    case False
    have pre: "0 < length (db_events b)" "db_start b < length (db_events b)" "db_size b \<le> length (db_events b)"
      using wf by (simp_all add: db_wf_def)
    show ?thesis using db_append_view [OF pre False, of e] False
      by (intro exI [of _ "if db_size b = length (db_events b) then 1 else 0"]) (simp add: db_entries_def)
  qed
next
  fix b lim n ys n' d
  assume "db_wf b" "0 < lim" "db_fetch b n lim = Some (ys, n', d)"
  then show "d = (n < db_base b) \<and> ys = take (nat lim) (drop (max n (db_base b) - db_base b) (db_view b)) \<and>
      n' = max n (db_base b) + length ys"
    by (auto simp: db_fetch_cases db_segment_def split: if_splits)
next
  fix b lim n assume "db_wf b" "0 < (lim::int)"
  then show "(db_fetch b n lim = None) = (db_base b \<le> n \<and> db_base b + length (db_view b) \<le> n)"
    by (auto simp: db_fetch_cases db_wf_def max_def)
qed

end
