(* ===== verification/Device_Registry.thy ===== *)
theory Device_Registry
  imports Device_Identity Device_Events "HOL-Library.List_Lexorder" "HOL-Library.Char_ord" "HOL-Library.Product_Lexorder"
begin

text \<open>
  \<open>internal/core/device/registry.go\<close>: device presence. The scanner, the contexts and
  the clock are arguments of a scan; the devices are an association list by device
  key (the code's map, whose iteration order fixes only the order of the events of
  one scan). The state store's generator and writer are parameters as in
  \<open>Device_State\<close>.
\<close>

definition ErrNilScanner :: goerr where "ErrNilScanner = ErrSentinel ''device.ErrNilScanner''"
definition ErrRegistryStarted :: goerr where "ErrRegistryStarted = ErrSentinel ''device.ErrRegistryStarted''"
definition ErrRegistryClosed :: goerr where "ErrRegistryClosed = ErrSentinel ''device.ErrRegistryClosed''"

datatype presence = StatePresent | StateDisappeared

record device =
  dv_deviceID :: string
  dv_method :: identity_method
  dv_persistent :: bool
  dv_transport :: string
  dv_endpoint :: string
  dv_state :: presence
  dv_metadata :: serial_metadata
  dv_firstSeen :: int
  dv_lastSeen :: int

record registry =
  rg_interval :: int
  rg_store :: "state_store option"
  rg_devices :: "(string \<times> device) list"
  rg_initialized :: bool
  rg_started :: bool
  rg_closed :: bool
  rg_cancel :: bool
  rg_events :: device_buffer

section \<open>Construction\<close>

definition newRegistry :: "bool \<Rightarrow> int \<Rightarrow> int \<Rightarrow> bool \<Rightarrow> goerr + registry" where
  "newRegistry scannerNil interval eventCapacity nowNil =
     (if scannerNil then Inl ErrNilScanner
      else if interval \<le> 0 then Inl (ErrText ''device scan interval must be positive'')
      else if eventCapacity \<le> 0 then Inl (ErrText ''device event capacity must be positive'')
      else if nowNil then Inl (ErrText ''device clock must not be nil'')
      else Inr \<lparr>rg_interval = interval, rg_store = None, rg_devices = [], rg_initialized = False,
                rg_started = False, rg_closed = False, rg_cancel = False,
                rg_events = db_newEventBuffer eventCapacity\<rparr>)"

definition NewRegistryWithStateStore :: "bool \<Rightarrow> int \<Rightarrow> int \<Rightarrow> state_store option \<Rightarrow> goerr + registry" where
  "NewRegistryWithStateStore scannerNil interval eventCapacity store =
     (case store of
        None \<Rightarrow> Inl (ErrText ''device state store must not be nil'')
      | Some s \<Rightarrow> (case newRegistry scannerNil interval eventCapacity False of
                     Inl e \<Rightarrow> Inl e
                   | Inr r \<Rightarrow> Inr (r\<lparr>rg_store := Some s\<rparr>)))"

section \<open>One scan\<close>

definition newDevice :: "device_endpoint \<Rightarrow> device_identity option \<Rightarrow> int \<Rightarrow> device" where
  "newDevice e i now =
     (let v = (case i of None \<Rightarrow> \<lparr>di_deviceID = [], di_method = IdentityUnset, di_persistent = False\<rparr> | Some v \<Rightarrow> v)
      in \<lparr>dv_deviceID = di_deviceID v, dv_method = di_method v, dv_persistent = di_persistent v,
          dv_transport = ep_transport e, dv_endpoint = ep_endpoint e, dv_state = StatePresent,
          dv_metadata = ep_metadata e, dv_firstSeen = now, dv_lastSeen = now\<rparr>)"

definition trim_endpoint :: "device_endpoint \<Rightarrow> device_endpoint" where
  "trim_endpoint e = e\<lparr>ep_transport := trim_space (ep_transport e), ep_endpoint := trim_space (ep_endpoint e)\<rparr>"

fun collect_seen :: "device_endpoint list \<Rightarrow> (string \<times> device_endpoint) list \<Rightarrow> (string \<times> device_endpoint) list option" where
  "collect_seen [] seen = Some seen"
| "collect_seen (e # es) seen =
     (let e' = trim_endpoint e
      in if ep_transport e' = [] \<or> ep_endpoint e' = [] then None
         else collect_seen es (AList.update (deviceKey e') e' seen))"

definition appeared :: "int \<Rightarrow> device_endpoint \<Rightarrow> device_event" where
  "appeared now e = \<lparr>de_timestamp = now, de_type = EventAppeared, de_transport = ep_transport e, de_endpoint = ep_endpoint e\<rparr>"

definition disappeared :: "int \<Rightarrow> device \<Rightarrow> device_event" where
  "disappeared now d = \<lparr>de_timestamp = now, de_type = EventDisappeared, de_transport = dv_transport d, de_endpoint = dv_endpoint d\<rparr>"

text \<open>The first loop over \<open>seen\<close>.\<close>

definition refresh_device :: "device \<Rightarrow> device_endpoint \<Rightarrow> device_identity option \<Rightarrow> int \<Rightarrow> device" where
  "refresh_device d e i now =
     (let d1 = d\<lparr>dv_state := StatePresent, dv_metadata := ep_metadata e\<rparr>;
          d2 = (case i of None \<Rightarrow> d1
                | Some v \<Rightarrow> d1\<lparr>dv_deviceID := di_deviceID v, dv_method := di_method v, dv_persistent := di_persistent v\<rparr>)
      in d2\<lparr>dv_lastSeen := now\<rparr>)"

fun apply_seen ::
  "int \<Rightarrow> (string \<times> device_identity) list \<Rightarrow> (string \<times> device_endpoint) list \<Rightarrow> (string \<times> device) list
     \<Rightarrow> device_event list \<times> (string \<times> device) list" where
  "apply_seen now ids [] devs = ([], devs)"
| "apply_seen now ids ((k, e) # seen) devs =
     (case map_of devs k of
        None \<Rightarrow>
          (case apply_seen now ids seen (AList.update k (newDevice e (map_of ids k) now) devs) of
             (evs, devs') \<Rightarrow> (appeared now e # evs, devs'))
      | Some d \<Rightarrow>
          (case apply_seen now ids seen (AList.update k (refresh_device d e (map_of ids k) now) devs) of
             (evs, devs') \<Rightarrow> ((if dv_state d = StateDisappeared then [appeared now e] else []) @ evs, devs')))"

text \<open>The second loop, over the devices.\<close>

definition missing :: "(string \<times> device_endpoint) list \<Rightarrow> string \<times> device \<Rightarrow> bool" where
  "missing seen kd \<longleftrightarrow> dv_state (snd kd) = StatePresent \<and> map_of seen (fst kd) = None"

definition apply_missing ::
  "int \<Rightarrow> (string \<times> device_endpoint) list \<Rightarrow> (string \<times> device) list \<Rightarrow> device_event list \<times> (string \<times> device) list" where
  "apply_missing now seen devs =
     (map (\<lambda>kd. disappeared now (snd kd)) (filter (missing seen) devs),
      map (\<lambda>kd. if missing seen kd then (fst kd, (snd kd)\<lparr>dv_state := StateDisappeared\<rparr>) else kd) devs)"

text \<open>The baseline of the first successful scan.\<close>

definition baseline ::
  "int \<Rightarrow> (string \<times> device_identity) list \<Rightarrow> (string \<times> device_endpoint) list \<Rightarrow> (string \<times> device) list \<Rightarrow> (string \<times> device) list" where
  "baseline now ids seen devs = foldl (\<lambda>ds (k, e). AList.update k (newDevice e (map_of ids k) now) ds) devs seen"

text \<open>The identities of a scan, if the registry has a store.\<close>

definition rg_identify ::
  "id_source \<Rightarrow> state_writer \<Rightarrow> int \<Rightarrow> device_endpoint list \<Rightarrow> registry \<Rightarrow> (goerr + (string \<times> device_identity) list) \<times> registry" where
  "rg_identify newID write now endpoints r =
     (case rg_store r of
        None \<Rightarrow> (Inr [], r)
      | Some s \<Rightarrow> (case st_Resolve newID write now endpoints (Some now) s of (x, s') \<Rightarrow> (x, r\<lparr>rg_store := Some s'\<rparr>)))"

definition append_events :: "device_event list \<Rightarrow> device_buffer \<Rightarrow> device_buffer" where
  "append_events evs b = foldl (\<lambda>b e. db_append e b) b evs"

text \<open>
  \<open>scan\<close>: \<open>ctx1\<close> and \<open>ctx2\<close> are the context's error before and after \<open>Scan\<close>, \<open>answer\<close>
  its result, \<open>now\<close> the clock. The events it appends are returned too.
\<close>

definition rg_scan ::
  "id_source \<Rightarrow> state_writer \<Rightarrow> goerr option \<Rightarrow> goerr + device_endpoint list \<Rightarrow> goerr option \<Rightarrow> int \<Rightarrow> registry
     \<Rightarrow> goerr option \<times> device_event list \<times> registry" where
  "rg_scan newID write ctx1 answer ctx2 now r =
     (case ctx1 of Some e \<Rightarrow> (Some e, [], r) | None \<Rightarrow>
     (case answer of Inl e \<Rightarrow> (Some e, [], r) | Inr endpoints \<Rightarrow>
     (case ctx2 of Some e \<Rightarrow> (Some e, [], r) | None \<Rightarrow>
     (case collect_seen endpoints [] of
        None \<Rightarrow> (Some (ErrText ''device scan returned an endpoint with empty transport or endpoint''), [], r)
      | Some seen \<Rightarrow>
          (case rg_identify newID write now endpoints r of
             (Inl e, r1) \<Rightarrow> (Some (ErrWrap e ''resolve device identities''), [], r1)
           | (Inr ids, r1) \<Rightarrow>
               if \<not> rg_initialized r1 then
                 (None, [],
                  r1\<lparr>rg_devices := baseline now ids seen (rg_devices r1), rg_initialized := True\<rparr>)
               else
                 let (evs1, devs1) = apply_seen now ids seen (rg_devices r1);
                     (evs2, devs2) = apply_missing now seen devs1
                 in (None, evs1 @ evs2, r1\<lparr>rg_devices := devs2, rg_events := append_events (evs1 @ evs2) (rg_events r1)\<rparr>))))))"

section \<open>Lifetime\<close>

text \<open>\<open>Start\<close>'s two critical sections around the initial scan.\<close>

definition rg_startCheck :: "registry \<Rightarrow> goerr option" where
  "rg_startCheck r = (if rg_closed r then Some ErrRegistryClosed else if rg_started r then Some ErrRegistryStarted else None)"

definition rg_startCommit :: "registry \<Rightarrow> goerr option \<times> registry" where
  "rg_startCommit r =
     (if rg_closed r then (Some ErrRegistryClosed, r)
      else if rg_started r then (Some ErrRegistryStarted, r)
      else (None, r\<lparr>rg_started := True, rg_cancel := True\<rparr>))"

definition rg_Start ::
  "id_source \<Rightarrow> state_writer \<Rightarrow> goerr option \<Rightarrow> goerr + device_endpoint list \<Rightarrow> goerr option \<Rightarrow> int \<Rightarrow> registry
     \<Rightarrow> goerr option \<times> registry" where
  "rg_Start newID write ctx1 answer ctx2 now r =
     (case rg_startCheck r of
        Some e \<Rightarrow> (Some e, r)
      | None \<Rightarrow>
          (case rg_scan newID write ctx1 answer ctx2 now r of
             (Some e, evs, r1) \<Rightarrow> (Some e, r1)
           | (None, evs, r1) \<Rightarrow> rg_startCommit r1))"

definition rg_Close :: "registry \<Rightarrow> registry" where
  "rg_Close r =
     (if rg_closed r then r
      else r\<lparr>rg_closed := True, rg_cancel := False, rg_events := db_close (rg_events r)\<rparr>)"

text \<open>What \<open>watch\<close> does when its context ends; a tick is one \<open>rg_scan\<close>, its error dropped.\<close>

definition rg_watchEnd :: "registry \<Rightarrow> registry" where
  "rg_watchEnd r = r\<lparr>rg_events := db_close (rg_events r)\<rparr>"

definition rg_List :: "registry \<Rightarrow> device list" where
  "rg_List r =
     sort_key (\<lambda>d. (dv_transport d, dv_endpoint d))
       (filter (\<lambda>d. dv_state d = StatePresent) (map snd (rg_devices r)))"

definition rg_Read :: "registry list \<Rightarrow> goerr \<Rightarrow> nat \<Rightarrow> int \<Rightarrow> goerr + device_event_chunk" where
  "rg_Read rs ctx_err next_cursor limit = db_read (map rg_events rs) ctx_err next_cursor limit"

definition rg_ReadRecent :: "registry \<Rightarrow> int \<Rightarrow> goerr + device_event_chunk" where
  "rg_ReadRecent r limit = db_readRecent (rg_events r) limit"

section \<open>Presence\<close>

definition present :: "registry \<Rightarrow> string set" where
  "present r = {k. \<exists>d. map_of (rg_devices r) k = Some d \<and> dv_state d = StatePresent}"

definition event_key :: "device_event \<Rightarrow> string" where
  "event_key ev = de_transport ev @ [CHR 0x00] @ de_endpoint ev"

text \<open>What a consumer of the event stream does.\<close>

definition replay_event :: "device_event \<Rightarrow> string set \<Rightarrow> string set" where
  "replay_event ev K = (case de_type ev of EventAppeared \<Rightarrow> insert (event_key ev) K | EventDisappeared \<Rightarrow> K - {event_key ev})"

definition replay :: "device_event list \<Rightarrow> string set \<Rightarrow> string set" where
  "replay evs K = foldl (\<lambda>K ev. replay_event ev K) K evs"

lemma replay_simps [simp]:
  "replay [] K = K" "replay (ev # evs) K = replay evs (replay_event ev K)" "replay (as @ bs) K = replay bs (replay as K)"
  by (simp_all add: replay_def)

definition devices_wf :: "(string \<times> device) list \<Rightarrow> bool" where
  "devices_wf devs \<longleftrightarrow> distinct (map fst devs) \<and>
     (\<forall>(k, d) \<in> set devs. dv_transport d @ [CHR 0x00] @ dv_endpoint d = k)"

definition seen_wf :: "(string \<times> device_endpoint) list \<Rightarrow> bool" where
  "seen_wf seen \<longleftrightarrow> distinct (map fst seen) \<and> (\<forall>(k, e) \<in> set seen. deviceKey e = k)"

definition present_keys :: "(string \<times> device) list \<Rightarrow> string set" where
  "present_keys devs = {k. \<exists>d. map_of devs k = Some d \<and> dv_state d = StatePresent}"

lemma collect_seen_wf:
  "collect_seen es seen = Some seen' \<Longrightarrow> seen_wf seen \<Longrightarrow> seen_wf seen'"
proof (induction es arbitrary: seen)
  case (Cons e es)
  have "seen_wf (AList.update (deviceKey (trim_endpoint e)) (trim_endpoint e) seen)"
    using Cons.prems(2) update_set by (fastforce simp: seen_wf_def distinct_update)
  then show ?case using Cons by (auto simp: Let_def split: if_splits)
qed simp

lemma newDevice_sel [simp]:
  "dv_transport (newDevice e i now) = ep_transport e" "dv_endpoint (newDevice e i now) = ep_endpoint e"
  "dv_state (newDevice e i now) = StatePresent"
  by (simp_all add: newDevice_def Let_def)

lemma refresh_device_sel [simp]:
  "dv_transport (refresh_device d e i now) = dv_transport d" "dv_endpoint (refresh_device d e i now) = dv_endpoint d"
  "dv_state (refresh_device d e i now) = StatePresent"
  by (simp_all add: refresh_device_def Let_def split: option.splits)

lemma present_keys_update:
  "dv_state d = StatePresent \<Longrightarrow> present_keys (AList.update k d devs) = insert k (present_keys devs)"
  by (auto simp: present_keys_def map_of_update)

lemma devices_wf_update:
  "devices_wf devs \<Longrightarrow> dv_transport d @ [CHR 0x00] @ dv_endpoint d = k \<Longrightarrow> devices_wf (AList.update k d devs)"
  using update_set by (fastforce simp: devices_wf_def distinct_update)

lemma event_key_appeared [simp]: "event_key (appeared now e) = deviceKey e"
  by (simp add: appeared_def event_key_def deviceKey_def)

lemma replay_appeared [simp]: "replay_event (appeared now e) K = insert (deviceKey e) K"
  by (simp add: replay_event_def appeared_def event_key_def deviceKey_def)

text \<open>The first loop: the seen keys become present, announced exactly when they were not.\<close>

lemma apply_seen_spec:
  "apply_seen now ids seen devs = (evs, devs') \<Longrightarrow> devices_wf devs \<Longrightarrow> seen_wf seen \<Longrightarrow>
     devices_wf devs' \<and> present_keys devs' = present_keys devs \<union> fst ` set seen \<and>
     evs = map (\<lambda>(k, e). appeared now e) (filter (\<lambda>(k, e). k \<notin> present_keys devs) seen)"
proof (induction now ids seen devs arbitrary: evs devs' rule: apply_seen.induct)
  case (2 now ids k e seen devs)
  have sw: "seen_wf seen" "k \<notin> fst ` set seen" "deviceKey e = k" using "2.prems"(3) by (auto simp: seen_wf_def)
  have same: "filter (\<lambda>(j, e). j \<notin> insert k (present_keys devs)) seen = filter (\<lambda>(j, e). j \<notin> present_keys devs) seen"
    using sw(2) by (intro filter_cong) (auto simp: image_iff)
  show ?case
  proof (cases "map_of devs k")
    case None
    let ?d = "newDevice e (map_of ids k) now"
    obtain evs1 where a: "apply_seen now ids seen (AList.update k ?d devs) = (evs1, devs')" "evs = appeared now e # evs1"
      using "2.prems"(1) None by (auto split: prod.splits)
    have wf: "devices_wf (AList.update k ?d devs)"
      using sw(3) by (intro devices_wf_update [OF "2.prems"(2)]) (simp add: deviceKey_def)
    have "k \<notin> present_keys devs" using None by (simp add: present_keys_def)
    then show ?thesis using "2.IH"(1) [OF None a(1) wf sw(1)] a(2) same by (simp add: present_keys_update)
  next
    case (Some d)
    let ?d = "refresh_device d e (map_of ids k) now"
    obtain evs1 where a: "apply_seen now ids seen (AList.update k ?d devs) = (evs1, devs')"
        "evs = (if dv_state d = StateDisappeared then [appeared now e] else []) @ evs1"
      using "2.prems"(1) Some by (auto split: prod.splits)
    have "dv_transport d @ [CHR 0x00] @ dv_endpoint d = k"
      using map_of_SomeD [OF Some] "2.prems"(2) by (auto simp: devices_wf_def)
    then have wf: "devices_wf (AList.update k ?d devs)" by (intro devices_wf_update [OF "2.prems"(2)]) simp
    have "k \<in> present_keys devs \<longleftrightarrow> dv_state d \<noteq> StateDisappeared"
      using Some by (cases "dv_state d") (simp_all add: present_keys_def)
    then show ?thesis using "2.IH"(2) [OF Some a(1) wf sw(1)] a(2) same by (simp add: present_keys_update)
  qed
qed simp

lemma map_of_map_state:
  "map_of (map (\<lambda>kd. if P kd then (fst kd, g (snd kd)) else kd) devs) k =
     map_option (\<lambda>d. if P (k, d) then g d else d) (map_of devs k)"
  by (induction devs) auto

text \<open>The second loop: what was not seen is marked and announced.\<close>

lemma apply_missing_spec:
  assumes "apply_missing now seen devs = (evs, devs')" "devices_wf devs"
  shows "devices_wf devs'" "present_keys devs' = present_keys devs \<inter> fst ` set seen"
    "map event_key evs = filter (\<lambda>k. k \<in> present_keys devs - fst ` set seen) (map fst devs)"
    "\<forall>ev \<in> set evs. de_type ev = EventDisappeared"
proof -
  let ?m = "\<lambda>kd. if missing seen kd then (fst kd, (snd kd)\<lparr>dv_state := StateDisappeared\<rparr>) else kd"
  have e: "evs = map (\<lambda>kd. disappeared now (snd kd)) (filter (missing seen) devs)" "devs' = map ?m devs"
    using assms(1) by (simp_all add: apply_missing_def)
  have f: "map fst devs' = map fst devs" by (simp add: e(2) comp_def)
  show "devices_wf devs'" using assms(2) unfolding devices_wf_def f by (fastforce simp: e(2))
  have inS: "map_of seen k = None \<longleftrightarrow> k \<notin> fst ` set seen" for k by (rule map_of_eq_None_iff)
  show "present_keys devs' = present_keys devs \<inter> fst ` set seen"
    unfolding present_keys_def e(2) map_of_map_state [of "missing seen" "\<lambda>d. d\<lparr>dv_state := StateDisappeared\<rparr>"]
    by (auto simp: missing_def inS split: if_splits dest: arg_cong [of _ _ dv_state])
  have m: "missing seen kd \<longleftrightarrow> fst kd \<in> present_keys devs - fst ` set seen" if "kd \<in> set devs" for kd
  proof -
    have "map_of devs (fst kd) = Some (snd kd)" using assms(2) that by (simp add: devices_wf_def)
    then show ?thesis by (auto simp: missing_def present_keys_def inS)
  qed
  have k: "event_key (disappeared now (snd kd)) = fst kd" if "kd \<in> set devs" for kd
    using assms(2) that by (auto simp: devices_wf_def event_key_def disappeared_def)
  have "map event_key evs = map fst (filter (missing seen) devs)"
    using k by (simp add: e(1))
  also have "filter (missing seen) devs = filter (\<lambda>kd. fst kd \<in> present_keys devs - fst ` set seen) devs"
    using m by (intro filter_cong) auto
  also have "map fst \<dots> = filter (\<lambda>k. k \<in> present_keys devs - fst ` set seen) (map fst devs)"
    by (simp add: filter_map comp_def)
  finally show "map event_key evs = filter (\<lambda>k. k \<in> present_keys devs - fst ` set seen) (map fst devs)" .
  show "\<forall>ev \<in> set evs. de_type ev = EventDisappeared" by (simp add: e(1) disappeared_def)
qed

lemma replay_disappeared:
  "\<forall>ev \<in> set evs. de_type ev = EventDisappeared \<Longrightarrow> replay evs K = K - event_key ` set evs"
  by (induction evs arbitrary: K) (auto simp: replay_event_def)

lemma replay_appeared_list: "replay (map (\<lambda>(k, e). appeared now e) es) K = K \<union> (\<lambda>(k, e). deviceKey e) ` set es"
  by (induction es arbitrary: K) auto

definition registry_ok :: "registry \<Rightarrow> bool" where
  "registry_ok r \<longleftrightarrow> devices_wf (rg_devices r)"

definition seen_keys :: "device_endpoint list \<Rightarrow> string set" where
  "seen_keys es = (deviceKey \<circ> trim_endpoint) ` set es"

lemma collect_seen_keys: "collect_seen es seen = Some seen' \<Longrightarrow> fst ` set seen' = fst ` set seen \<union> seen_keys es"
proof (induction es arbitrary: seen)
  case (Cons e es)
  then have "collect_seen es (AList.update (deviceKey (trim_endpoint e)) (trim_endpoint e) seen) = Some seen'"
    by (simp add: Let_def split: if_splits)
  from Cons.IH [OF this] show ?case by (auto simp: seen_keys_def dom_update [unfolded dom_map_of_conv_image_fst])
qed (simp add: seen_keys_def)

lemma baseline_spec:
  "devices_wf devs \<Longrightarrow> seen_wf seen \<Longrightarrow>
     devices_wf (baseline now ids seen devs) \<and>
     present_keys (baseline now ids seen devs) = present_keys devs \<union> fst ` set seen"
proof (induction seen arbitrary: devs)
  case (Cons ke seen)
  obtain k e where ke: "ke = (k, e)" by (cases ke)
  have "deviceKey e = k" "seen_wf seen" using Cons.prems(2) ke by (auto simp: seen_wf_def)
  then show ?case
    using Cons.IH [OF devices_wf_update [OF Cons.prems(1), of "newDevice e (map_of ids k) now" k]]
    by (simp add: ke deviceKey_def present_keys_update baseline_def)
qed (simp add: baseline_def)

lemma present_eq: "present r = present_keys (rg_devices r)"
  by (simp add: present_def present_keys_def)

text \<open>The shape of a successful scan.\<close>

lemma rg_scan_success:
  assumes s: "rg_scan newID write ctx1 (Inr es) ctx2 now r = (None, evs, r')"
  obtains seen ids where "collect_seen es [] = Some seen" "rg_initialized r'" "rg_events r' = append_events evs (rg_events r)"
    "if rg_initialized r then
       (\<exists>evs1 devs1 evs2. apply_seen now ids seen (rg_devices r) = (evs1, devs1) \<and>
          apply_missing now seen devs1 = (evs2, rg_devices r') \<and> evs = evs1 @ evs2)
     else evs = [] \<and> rg_devices r' = baseline now ids seen (rg_devices r)"
proof -
  have ctx: "ctx1 = None" "ctx2 = None" using s by (auto simp: rg_scan_def split: option.splits)
  obtain seen where c: "collect_seen es [] = Some seen"
    using s by (cases "collect_seen es []") (auto simp: rg_scan_def ctx)
  obtain x r1 where x: "rg_identify newID write now es r = (x, r1)" by (metis surj_pair)
  have r1: "rg_devices r1 = rg_devices r" "rg_initialized r1 = rg_initialized r" "rg_events r1 = rg_events r"
    using x by (auto simp: rg_identify_def split: option.splits prod.splits)
  obtain ids where ids: "x = Inr ids"
    using s x by (cases x) (auto simp: rg_scan_def ctx c)
  show thesis
  proof (cases "rg_initialized r")
    case False
    then show ?thesis using s x r1
      by (intro that [OF c, of ids]) (auto simp: rg_scan_def ctx c ids append_events_def)
  next
    case True
    obtain evs1 devs1 where a: "apply_seen now ids seen (rg_devices r) = (evs1, devs1)" by (metis surj_pair)
    obtain evs2 devs2 where m: "apply_missing now seen devs1 = (evs2, devs2)" by (metis surj_pair)
    have "evs = evs1 @ evs2" "r' = r1\<lparr>rg_devices := devs2, rg_events := append_events (evs1 @ evs2) (rg_events r1)\<rparr>"
      using s x r1 True by (auto simp: rg_scan_def ctx c ids a m Let_def)
    then show ?thesis using True a m r1 by (intro that [OF c, of ids]) auto
  qed
qed

lemma rg_scan_baseline:
  assumes s: "rg_scan newID write ctx1 (Inr es) ctx2 now r = (None, evs, r')" and ok: "registry_ok r"
    and init: "\<not> rg_initialized r"
  shows "registry_ok r' \<and> evs = [] \<and> present r' = present r \<union> seen_keys es"
  using s
proof (cases rule: rg_scan_success)
  case (1 seen ids)
  have "seen_wf seen" using collect_seen_wf [OF 1(1)] by (simp add: seen_wf_def)
  with baseline_spec [of "rg_devices r" seen now ids] show ?thesis
    using 1(4) init ok collect_seen_keys [OF 1(1)] by (simp add: registry_ok_def present_eq)
qed

lemma rg_scan_exact:
  assumes s: "rg_scan newID write ctx1 (Inr es) ctx2 now r = (None, evs, r')" and ok: "registry_ok r"
    and init: "rg_initialized r"
  shows "registry_ok r' \<and> present r' = seen_keys es \<and> replay evs (present r) = present r' \<and> distinct (map event_key evs) \<and>
     set (map event_key evs) = (present r - present r') \<union> (present r' - present r)"
  using s
proof (cases rule: rg_scan_success)
  case (1 seen ids)
  have sw: "seen_wf seen" using collect_seen_wf [OF 1(1)] by (simp add: seen_wf_def)
  have sk: "fst ` set seen = seen_keys es" using collect_seen_keys [OF 1(1)] by simp
  obtain evs1 devs1 evs2 where e: "apply_seen now ids seen (rg_devices r) = (evs1, devs1)"
      "apply_missing now seen devs1 = (evs2, rg_devices r')" "evs = evs1 @ evs2"
    using 1(4) init by auto
  note A = apply_seen_spec [OF e(1) ok [unfolded registry_ok_def] sw]
  have wf1: "devices_wf devs1" using A by blast
  note M = apply_missing_spec [OF e(2) wf1]
  have P1: "present_keys devs1 = present r \<union> seen_keys es" using A sk by (simp add: present_eq)
  have P2: "present r' = seen_keys es" using M(2) P1 sk by (auto simp: present_eq)
  have k1: "map event_key evs1 = filter (\<lambda>k. k \<notin> present r) (map fst seen)"
  proof -
    have "map event_key evs1 = map (\<lambda>(k, e). deviceKey e) (filter (\<lambda>(k, e). k \<notin> present r) seen)"
      using A by (simp add: present_eq appeared_def event_key_def deviceKey_def comp_def case_prod_beta)
    also have "\<dots> = map fst (filter (\<lambda>(k, e). k \<notin> present r) seen)"
      using sw by (intro map_cong) (auto simp: seen_wf_def)
    also have "\<dots> = filter (\<lambda>k. k \<notin> present r) (map fst seen)"
      by (induction seen) auto
    finally show ?thesis .
  qed
  have k2: "map event_key evs2 = filter (\<lambda>k. k \<in> present r - seen_keys es) (map fst devs1)"
    using M(3) P1 sk by (auto intro: filter_cong)
  have dom: "present r - seen_keys es \<subseteq> fst ` set devs1"
    using P1 by (force simp: present_keys_def dest: map_of_SomeD)
  have K: "set (map event_key evs2) = present r - seen_keys es" using k2 dom by auto
  have "set (map event_key evs1) = seen_keys es - present r" using k1 sk by auto
  moreover have "distinct (map event_key evs1)" "distinct (map event_key evs2)"
    using sw wf1 by (simp_all add: k1 k2 seen_wf_def devices_wf_def)
  moreover have "replay evs (present r) = seen_keys es"
  proof -
    have "replay evs1 (present r) = present r \<union> set (map event_key evs1)"
      using A by (simp add: replay_appeared_list image_image case_prod_beta)
    then show ?thesis
      using e(3) replay_disappeared [OF M(4)] K calculation(1) by auto
  qed
  ultimately show ?thesis using M(1) K P2 e(3) by (auto simp: registry_ok_def)
qed

lemma rg_scan_failed:
  assumes "rg_scan newID write ctx1 answer ctx2 now r = (Some e, evs, r')"
  shows "evs = [] \<and> rg_devices r' = rg_devices r \<and> rg_initialized r' = rg_initialized r \<and> rg_events r' = rg_events r"
proof (cases "ctx1 \<noteq> None \<or> ctx2 \<noteq> None \<or> (\<exists>x. answer = Inl x)")
  case True
  then show ?thesis using assms by (cases ctx1; cases ctx2; cases answer) (simp_all add: rg_scan_def)
next
  case False
  then obtain es where c: "ctx1 = None" "ctx2 = None" "answer = Inr es" by (cases answer) auto
  obtain x r1 where x: "rg_identify newID write now es r = (x, r1)" by (metis surj_pair)
  have r1: "rg_devices r1 = rg_devices r" "rg_initialized r1 = rg_initialized r" "rg_events r1 = rg_events r"
    using x by (auto simp: rg_identify_def split: option.splits prod.splits)
  show ?thesis
  proof (cases "collect_seen es []")
    case None
    then show ?thesis using assms by (simp add: rg_scan_def c)
  next
    case (Some seen)
    then show ?thesis using assms x r1
      by (cases x) (auto simp: rg_scan_def c Let_def split: if_splits prod.splits)
  qed
qed

section \<open>Properties\<close>

text \<open>
  The scans of one registry (the initial one first); each is given by the outcomes of
  the file replacement, the context, the scanner and the clock. The events all scans
  appended are collected.
\<close>

type_synonym scan_call =
  "state_writer \<times> goerr option \<times> (goerr + device_endpoint list) \<times> goerr option \<times> int"

fun scan_run :: "id_source \<Rightarrow> scan_call list \<Rightarrow> registry \<Rightarrow> device_event list \<times> registry" where
  "scan_run newID [] r = ([], r)"
| "scan_run newID ((write, ctx1, answer, ctx2, now) # calls) r =
     (case rg_scan newID write ctx1 answer ctx2 now r of
        (e, evs, r1) \<Rightarrow> (case scan_run newID calls r1 of (evs', r2) \<Rightarrow> (evs @ evs', r2)))"

lemma present_same: "rg_devices r' = rg_devices r \<Longrightarrow> present r' = present r"
  by (simp add: present_eq)

lemma rg_scan_replay:
  assumes s: "rg_scan newID write ctx1 answer ctx2 now r = (e, evs, r')" and ok: "registry_ok r" "rg_initialized r"
  shows "registry_ok r' \<and> rg_initialized r' \<and> replay evs (present r) = present r' \<and>
         rg_events r' = append_events evs (rg_events r)"
proof (cases e)
  case (Some x)
  note F = rg_scan_failed [OF s [unfolded Some]]
  then have "present r' = present r" by (intro present_same) simp
  then show ?thesis using F ok by (simp add: registry_ok_def append_events_def)
next
  case None
  obtain es where a: "answer = Inr es" using s None by (cases answer) (auto simp: rg_scan_def split: option.splits)
  note s1 = s [unfolded None a]
  have "rg_initialized r'" "rg_events r' = append_events evs (rg_events r)"
    by (rule rg_scan_success [OF s1]; assumption)+
  then show ?thesis using rg_scan_exact [OF s1 ok] by simp
qed

lemma scan_run_replay:
  "scan_run newID calls r = (evs, r') \<Longrightarrow> registry_ok r \<Longrightarrow> rg_initialized r \<Longrightarrow>
     registry_ok r' \<and> replay evs (present r) = present r' \<and> rg_events r' = append_events evs (rg_events r)"
proof (induction newID calls r arbitrary: evs r' rule: scan_run.induct)
  case (2 newID wr ctx1 answer ctx2 now calls r)
  obtain e evs1 r1 where a: "rg_scan newID wr ctx1 answer ctx2 now r = (e, evs1, r1)" by (metis prod_cases3)
  obtain evs2 where b: "scan_run newID calls r1 = (evs2, r')" "evs = evs1 @ evs2"
    using "2.prems"(1) a by (auto split: prod.splits)
  note A = rg_scan_replay [OF a "2.prems"(2,3)]
  from "2.IH" [OF a [symmetric] refl b(1)] A show ?case by (simp add: b(2) append_events_def)
qed (simp add: append_events_def)

definition demo_registry :: registry where
  "demo_registry = \<lparr>rg_interval = 2, rg_store = None, rg_devices = [], rg_initialized = False, rg_started = False,
     rg_closed = False, rg_cancel = False, rg_events = db_newEventBuffer 4\<rparr>"

lemma demo_registry_new: "newRegistry False 2 4 False = Inr demo_registry"
  by (simp add: newRegistry_def demo_registry_def)

lemma new_registry_ok: "newRegistry sn interval cap nn = Inr r \<Longrightarrow> registry_ok r \<and> present r = {}"
  by (auto simp: newRegistry_def registry_ok_def devices_wf_def present_def split: if_splits)

text \<open>
  C14 A successful scan reports presence exactly: afterwards the present devices are the
  endpoints it saw; it announces every endpoint whose presence changed, each once, in
  the direction that replaying the events over the old presence gives the new one.
\<close>

theorem registry_scan_exact:
  assumes "rg_scan newID write ctx1 (Inr es) ctx2 now r = (None, evs, r')" "registry_ok r" "rg_initialized r"
  shows "present r' = seen_keys es \<and> replay evs (present r) = present r' \<and> distinct (map event_key evs) \<and>
         set (map event_key evs) = (present r - present r') \<union> (present r' - present r)"
  using rg_scan_exact [OF assms] by simp

theorem registry_scan_exact_witness:
  "\<exists>evs r'. rg_scan demo_ids (\<lambda>_. None) None (Inr []) None 9 (demo_registry\<lparr>rg_initialized := True,
       rg_devices := [(deviceKey (demo_usb ''a''), newDevice (demo_usb ''a'') None 1)]\<rparr>) = (None, evs, r') \<and> present r' = {}"
proof -
  let ?r = "demo_registry\<lparr>rg_initialized := True, rg_devices := [(deviceKey (demo_usb ''a''), newDevice (demo_usb ''a'') None 1)]\<rparr>"
  have "fst (rg_scan demo_ids (\<lambda>_. None) None (Inr []) None 9 ?r) = None" by code_simp
  then obtain evs r' where s: "rg_scan demo_ids (\<lambda>_. None) None (Inr []) None 9 ?r = (None, evs, r')"
    by (metis prod.collapse)
  have "registry_ok ?r" by (simp add: registry_ok_def devices_wf_def deviceKey_def)
  from registry_scan_exact [OF s this] s show ?thesis by (auto simp: seen_keys_def)
qed

text \<open>
  C15 The initial scan is a silent baseline, and from then on the event stream tells a
  consumer everything: replaying all events appended since (the failed scans append
  none) over the baseline gives exactly the devices that are present now.
\<close>

theorem registry_events_replay:
  assumes "newRegistry sn interval cap nn = Inr r0"
    and "rg_scan newID write ctx1 (Inr es) ctx2 now r0 = (None, evs0, r1)"
    and "scan_run newID calls r1 = (evs, r2)"
  shows "evs0 = [] \<and> present r1 = seen_keys es \<and> present r2 = replay evs (seen_keys es)"
proof -
  have init: "\<not> rg_initialized r0" using assms(1) by (auto simp: newRegistry_def split: if_splits)
  have i1: "rg_initialized r1" by (rule rg_scan_success [OF assms(2)])
  from rg_scan_baseline [OF assms(2) _ init] new_registry_ok [OF assms(1)]
  have b: "registry_ok r1" "evs0 = []" "present r1 = seen_keys es" by auto
  from scan_run_replay [OF assms(3) b(1) i1] b show ?thesis by simp
qed

theorem registry_events_replay_witness:
  "\<exists>r1 evs r2. scan_run demo_ids [(\<lambda>_. None, None, Inr [demo_usb ''b''], None, 5)] r1 = (evs, r2) \<and>
     present r2 = replay evs (seen_keys [demo_usb ''a''])"
proof -
  have "fst (rg_scan demo_ids (\<lambda>_. None) None (Inr [demo_usb ''a'']) None 1 demo_registry) = None" by code_simp
  then obtain evs0 r1 where s: "rg_scan demo_ids (\<lambda>_. None) None (Inr [demo_usb ''a'']) None 1 demo_registry = (None, evs0, r1)"
    by (metis prod.collapse)
  obtain evs r2 where t: "scan_run demo_ids [(\<lambda>_. None, None, Inr [demo_usb ''b''], None, 5)] r1 = (evs, r2)"
    by (metis surj_pair)
  from registry_events_replay [OF demo_registry_new s t] t show ?thesis by blast
qed

text \<open>
  Padded endpoint names lose their identity: \<open>scan\<close> trims a copy of each endpoint for
  its own keys but resolves identities for the untrimmed ones, so an endpoint reported
  with a trailing space is listed, with a durable record on disk, and without a DeviceID.
\<close>

theorem registry_padded_endpoint_loses_identity:
  "\<exists>r'. rg_scan demo_ids (\<lambda>_. None) None (Inr [demo_usb ''COM3 '']) None 1 (demo_registry\<lparr>rg_store := Some demo_store\<rparr>)
       = (None, [], r') \<and>
     map (\<lambda>d. (dv_endpoint d, dv_deviceID d)) (rg_List r') = [(''COM3'', [])] \<and>
     map_option (\<lambda>s. map sd_deviceID (sf_devices (st_state s))) (rg_store r') = Some [''d0'']"
proof -
  have "case rg_scan demo_ids (\<lambda>_. None) None (Inr [demo_usb ''COM3 '']) None 1 (demo_registry\<lparr>rg_store := Some demo_store\<rparr>) of
      (None, [], r') \<Rightarrow> map (\<lambda>d. (dv_endpoint d, dv_deviceID d)) (rg_List r') = [(''COM3'', [])] \<and>
        map_option (\<lambda>s. map sd_deviceID (sf_devices (st_state s))) (rg_store r') = Some [''d0'']
    | _ \<Rightarrow> False" by code_simp
  then show ?thesis by (auto split: prod.splits option.splits list.splits)
qed

end
