(* ===== verification/Interactive_Controller.thy ===== *)
theory Interactive_Controller
  imports Prelude
begin

text \<open>
  \<open>internal/cli/interactive/controller.go\<close>: the escape-prefix state machine of an
  interactive terminal. \<open>Process\<close> scans one chunk of local input with the index
  where unsent remote bytes start; here those bytes are carried along as \<open>acc\<close>.
\<close>

definition DefaultEscapeByte :: byte where "DefaultEscapeByte = CHR 0x1D"

datatype action =
    ActionRemote "byte list"
  | ActionQuit
  | ActionHelp
  | ActionTogglePromptTimestamp
  | ActionFileTransfer
  | ActionEscapePending
  | ActionCancelEscape
  | ActionUnknownEscape byte

record controller =
  ic_escapeByte :: byte
  ic_pending :: bool

definition NewController :: "byte \<Rightarrow> controller" where
  "NewController escapeByte = \<lparr>ic_escapeByte = escapeByte, ic_pending = False\<rparr>"

definition EscapeByte :: "controller \<Rightarrow> byte" where
  "EscapeByte c = (if ic_escapeByte c = CHR 0x00 then DefaultEscapeByte else ic_escapeByte c)"

definition flushRemote :: "byte list \<Rightarrow> action list" where
  "flushRemote acc = (if acc = [] then [] else [ActionRemote acc])"

text \<open>The command byte after the prefix.\<close>

definition escape_action :: "controller \<Rightarrow> byte \<Rightarrow> action" where
  "escape_action c v =
     (if v = CHR ''q'' then ActionQuit
      else if v = CHR ''?'' then ActionHelp
      else if v = CHR ''t'' then ActionTogglePromptTimestamp
      else if v = CHR ''f'' then ActionFileTransfer
      else if v = CHR '']'' then ActionRemote [EscapeByte c]
      else if v = CHR 0x03 then ActionRemote [v]
      else if v = CHR 0x1B then ActionCancelEscape
      else ActionUnknownEscape v)"

fun process_loop :: "controller \<Rightarrow> byte list \<Rightarrow> byte list \<Rightarrow> action list \<times> controller" where
  "process_loop c acc [] = (flushRemote acc, c)"
| "process_loop c acc (v # vs) =
     (if ic_pending c then
        (case process_loop (c\<lparr>ic_pending := False\<rparr>) [] vs of
           (as, c') \<Rightarrow> (flushRemote acc @ [escape_action c v] @ as, c'))
      else if v = EscapeByte c then
        (case process_loop (c\<lparr>ic_pending := True\<rparr>) [] vs of
           (as, c') \<Rightarrow> (flushRemote acc @ [ActionEscapePending] @ as, c'))
      else process_loop c (acc @ [v]) vs)"

definition controller_Process :: "controller \<Rightarrow> byte list \<Rightarrow> action list \<times> controller" where
  "controller_Process c data = process_loop c [] data"

section \<open>The effects of a sequence of actions\<close>

text \<open>
  What the actions ask for, byte by byte: remote bytes one at a time, local
  commands as they are. Two action lists with the same effects differ only in how
  remote bytes are grouped into writes.
\<close>

datatype effect = Send byte | Local action

fun effects :: "action list \<Rightarrow> effect list" where
  "effects [] = []"
| "effects (ActionRemote p # as) = map Send p @ effects as"
| "effects (a # as) = Local a # effects as"

lemma effects_append [simp]: "effects (xs @ ys) = effects xs @ effects ys"
  by (induction xs rule: effects.induct) auto

lemma effects_flush [simp]: "effects (flushRemote acc) = map Send acc"
  by (simp add: flushRemote_def)

text \<open>One byte at a time, the machine the documentation describes.\<close>

definition step_byte :: "controller \<Rightarrow> byte \<Rightarrow> effect list \<times> controller" where
  "step_byte c v =
     (if ic_pending c then (effects [escape_action c v], c\<lparr>ic_pending := False\<rparr>)
      else if v = EscapeByte c then ([Local ActionEscapePending], c\<lparr>ic_pending := True\<rparr>)
      else ([Send v], c))"

fun step_bytes :: "controller \<Rightarrow> byte list \<Rightarrow> effect list \<times> controller" where
  "step_bytes c [] = ([], c)"
| "step_bytes c (v # vs) =
     (case step_byte c v of (es, c1) \<Rightarrow> (case step_bytes c1 vs of (es', c2) \<Rightarrow> (es @ es', c2)))"

lemma EscapeByte_pending [simp]: "EscapeByte (c\<lparr>ic_pending := b\<rparr>) = EscapeByte c"
  by (simp add: EscapeByte_def)

lemma effects_cons: "effects (a # as) = effects [a] @ effects as"
  by (cases a) simp_all

lemma process_loop_next:
  "process_loop c acc (v # vs) =
     (if ic_pending c \<or> v = EscapeByte c
      then let c1 = snd (step_byte c v); r = process_loop c1 [] vs;
               a = (if ic_pending c then escape_action c v else ActionEscapePending)
           in (flushRemote acc @ [a] @ fst r, snd r)
      else process_loop c (acc @ [v]) vs)"
  by (simp add: step_byte_def Let_def case_prod_beta)

lemma step_bytes_next:
  "fst (step_bytes c (v # vs)) = fst (step_byte c v) @ fst (step_bytes (snd (step_byte c v)) vs)"
  "snd (step_bytes c (v # vs)) = snd (step_bytes (snd (step_byte c v)) vs)"
  by (simp_all add: case_prod_beta)

lemma process_loop_effects:
  "effects (fst (process_loop c acc vs)) = map Send acc @ fst (step_bytes c vs) \<and>
   snd (process_loop c acc vs) = snd (step_bytes c vs)"
proof (induction vs arbitrary: c acc)
  case (Cons v vs)
  have plain: "step_byte c v = ([Send v], c)" if "\<not> (ic_pending c \<or> v = EscapeByte c)"
    using that by (simp add: step_byte_def)
  have esc: "fst (step_byte c v) = effects [if ic_pending c then escape_action c v else ActionEscapePending]"
    if "ic_pending c \<or> v = EscapeByte c"
    using that by (auto simp: step_byte_def)
  show ?case
  proof (cases "ic_pending c \<or> v = EscapeByte c")
    case True
    show ?thesis
      unfolding process_loop_next if_P [OF True] Let_def fst_conv snd_conv step_bytes_next effects_append
        esc [OF True] effects_flush
      using Cons.IH [of "snd (step_byte c v)" "[]"] by simp
  next
    case False
    show ?thesis
      unfolding process_loop_next if_not_P [OF False] step_bytes_next plain [OF False] fst_conv snd_conv
      using Cons.IH [of c "acc @ [v]"] by simp
  qed
qed simp

lemma step_bytes_append:
  "step_bytes c (xs @ ys) =
     (case step_bytes c xs of (es, c1) \<Rightarrow> (case step_bytes c1 ys of (es', c2) \<Rightarrow> (es @ es', c2)))"
  by (induction c xs rule: step_bytes.induct) (auto split: prod.splits)

text \<open>
  C11 Chunk independence of interactive input: however the terminal's bytes are
  cut into reads, the controller ends in the same state and asks for the same
  effects in the same order as when it is given all of them at once, and these are
  the effects of the byte-at-a-time machine: every byte outside an escape sequence
  is sent unchanged, and an escape prefix split across two reads still works.
\<close>

theorem controller_chunk_independent:
  "effects (fst (controller_Process c xs)) @ effects (fst (controller_Process (snd (controller_Process c xs)) ys))
     = effects (fst (controller_Process c (xs @ ys))) \<and>
   snd (controller_Process (snd (controller_Process c xs)) ys) = snd (controller_Process c (xs @ ys)) \<and>
   effects (fst (controller_Process c xs)) = fst (step_bytes c xs)"
proof -
  have e: "effects (fst (controller_Process c zs)) = fst (step_bytes c zs)"
      "snd (controller_Process c zs) = snd (step_bytes c zs)" for c zs
    using process_loop_effects [of c "[]" zs] by (simp_all add: controller_Process_def)
  show ?thesis by (simp add: e step_bytes_append split: prod.splits)
qed

end
