(* ===== verification/Config_Profile.thy ===== *)
theory Config_Profile
  imports Go_Strings
begin

text \<open>
  \<open>internal/core/config/profile.go\<close> (named serial profiles) and
  \<open>internal/core/connectionpolicy/policy.go\<close> (the reaction to a discovered
  device). A Go pointer field of the overrides is an option.
\<close>

section \<open>Serial profiles\<close>

abbreviation "ErrProfileNotFound \<equiv> ErrSentinel ''config.ErrProfileNotFound''"
abbreviation "ErrSerialPortRequired \<equiv> ErrSentinel ''config.ErrSerialPortRequired''"

record serial_profile =
  sp_port :: string
  sp_baud :: int
  sp_dataBits :: int
  sp_parity :: string
  sp_stopBits :: string
  sp_flowControl :: string
  sp_wake :: bool

record serial_overrides =
  so_port :: "string option"
  so_baud :: "int option"
  so_dataBits :: "int option"
  so_parity :: "string option"
  so_stopBits :: "string option"
  so_flowControl :: "string option"
  so_wake :: "bool option"

record serial_config =
  sc_default :: string
  sc_profiles :: "string \<Rightarrow> serial_profile option"

definition builtinSerialProfile :: serial_profile where
  "builtinSerialProfile = \<lparr>sp_port = [], sp_baud = 115200, sp_dataBits = 8, sp_parity = ''none'',
     sp_stopBits = ''1'', sp_flowControl = ''none'', sp_wake = False\<rparr>"

definition mergeProfile :: "serial_profile \<Rightarrow> serial_profile \<Rightarrow> serial_profile" where
  "mergeProfile base profile =
     \<lparr>sp_port = (if sp_port profile \<noteq> [] then sp_port profile else sp_port base),
      sp_baud = (if sp_baud profile \<noteq> 0 then sp_baud profile else sp_baud base),
      sp_dataBits = (if sp_dataBits profile \<noteq> 0 then sp_dataBits profile else sp_dataBits base),
      sp_parity = (if sp_parity profile \<noteq> [] then sp_parity profile else sp_parity base),
      sp_stopBits = (if sp_stopBits profile \<noteq> [] then sp_stopBits profile else sp_stopBits base),
      sp_flowControl = (if sp_flowControl profile \<noteq> [] then sp_flowControl profile else sp_flowControl base),
      sp_wake = sp_wake profile\<rparr>"

definition ResolveSerial :: "serial_config \<Rightarrow> string \<Rightarrow> goerr + serial_profile" where
  "ResolveSerial file name0 =
     (let name1 = trim_space name0;
          name = (if name1 = [] then trim_space (sc_default file) else name1)
      in if name = [] then Inr builtinSerialProfile
         else case sc_profiles file name of
             None \<Rightarrow> Inl (ErrWrap ErrProfileNotFound name)
           | Some stored \<Rightarrow> Inr (mergeProfile builtinSerialProfile stored))"

definition SaveSerialProfile :: "string \<Rightarrow> serial_profile \<Rightarrow> serial_config \<Rightarrow> serial_config" where
  "SaveSerialProfile name profile file =
     (let file1 = file\<lparr>sc_profiles := (sc_profiles file)(name \<mapsto> profile)\<rparr>
      in if trim_space (sc_default file1) = [] then file1\<lparr>sc_default := name\<rparr> else file1)"

definition override :: "'a option \<Rightarrow> 'a \<Rightarrow> 'a" where
  "override ov v = (case ov of None \<Rightarrow> v | Some x \<Rightarrow> x)"

definition ApplySerialOverrides :: "serial_profile \<Rightarrow> serial_overrides \<Rightarrow> serial_profile" where
  "ApplySerialOverrides profile ov =
     \<lparr>sp_port = override (so_port ov) (sp_port profile),
      sp_baud = override (so_baud ov) (sp_baud profile),
      sp_dataBits = override (so_dataBits ov) (sp_dataBits profile),
      sp_parity = override (so_parity ov) (sp_parity profile),
      sp_stopBits = override (so_stopBits ov) (sp_stopBits profile),
      sp_flowControl = override (so_flowControl ov) (sp_flowControl profile),
      sp_wake = override (so_wake ov) (sp_wake profile)\<rparr>"

definition RequireSerialPort :: "serial_profile \<Rightarrow> goerr option" where
  "RequireSerialPort profile = (if trim_space (sp_port profile) = [] then Some ErrSerialPortRequired else None)"

text \<open>A profile every optional field of which is set: what resolution promises.\<close>

definition profile_complete :: "serial_profile \<Rightarrow> bool" where
  "profile_complete p \<longleftrightarrow> sp_baud p \<noteq> 0 \<and> sp_dataBits p \<noteq> 0 \<and> sp_parity p \<noteq> [] \<and>
     sp_stopBits p \<noteq> [] \<and> sp_flowControl p \<noteq> []"

lemma mergeProfile_complete: "profile_complete base \<Longrightarrow> profile_complete (mergeProfile base p)"
  by (auto simp: profile_complete_def mergeProfile_def)

lemma merge_complete_id: "profile_complete p \<Longrightarrow> sp_port p \<noteq> [] \<Longrightarrow> mergeProfile base p = p"
  by (cases p) (auto simp: profile_complete_def mergeProfile_def)

text \<open>
  Saving a profile and resolving it again: a complete profile saved under a
  name without surrounding space resolves, by that name, to exactly itself; it
  also becomes what an omitted name resolves to when no default was configured;
  profiles under other names resolve as before when named explicitly; and every
  successful resolution, of any file, has all optional settings filled in.
\<close>

theorem profile_save_resolve:
  assumes "profile_complete p" "sp_port p \<noteq> []" "trim_space name = name" "name \<noteq> []"
  shows "ResolveSerial (SaveSerialProfile name p file) name = Inr p \<and>
         (trim_space (sc_default file) = [] \<longrightarrow> ResolveSerial (SaveSerialProfile name p file) [] = Inr p) \<and>
         (\<forall>other. trim_space other \<noteq> [] \<and> trim_space other \<noteq> name \<longrightarrow>
            ResolveSerial (SaveSerialProfile name p file) other = ResolveSerial file other) \<and>
         (\<forall>f n q. ResolveSerial f n = Inr q \<longrightarrow> profile_complete q)"
proof -
  have t: "trim_space [] = []" by (simp add: trim_space_def trim_left.simps trim_right.simps)
  have "profile_complete builtinSerialProfile" by (simp add: profile_complete_def builtinSerialProfile_def)
  then have "ResolveSerial f n = Inr q \<longrightarrow> profile_complete q" for f n q
    by (auto simp: ResolveSerial_def Let_def mergeProfile_complete split: option.splits if_splits)
  then show ?thesis
    using assms merge_complete_id [OF assms(1,2)] t
    by (auto simp: ResolveSerial_def SaveSerialProfile_def Let_def)
qed

theorem profile_save_resolve_witness:
  "ResolveSerial (SaveSerialProfile ''a'' (builtinSerialProfile\<lparr>sp_port := ''COM1''\<rparr>)
      \<lparr>sc_default = [], sc_profiles = Map.empty\<rparr>) [] = Inr (builtinSerialProfile\<lparr>sp_port := ''COM1''\<rparr>)"
proof -
  have t: "trim_space ''a'' = ''a''" "trim_space [] = []" by code_simp+
  show ?thesis
    using profile_save_resolve [of "builtinSerialProfile\<lparr>sp_port := ''COM1''\<rparr>" "''a''"
        "\<lparr>sc_default = [], sc_profiles = Map.empty\<rparr>"] t
    by (simp add: profile_complete_def builtinSerialProfile_def)
qed

section \<open>Connection policy\<close>

datatype policy = PolicyAsk | PolicyAuto | PolicyDeny | PolicyOther string

datatype policy_action = ActionNone | ActionAsk | ActionConnect | ActionDeny

definition policy_Default :: policy where "policy_Default = PolicyAsk"

definition policy_Parse :: "string \<Rightarrow> goerr + policy" where
  "policy_Parse value =
     (let v = to_lower (trim_space value)
      in if v = ''ask'' then Inr PolicyAsk
         else if v = ''auto'' then Inr PolicyAuto
         else if v = ''deny'' then Inr PolicyDeny
         else Inl (ErrText (''connection default policy is invalid: '' @ value)))"

definition policy_FromConfig :: "string \<Rightarrow> goerr + policy" where
  "policy_FromConfig value = (if trim_space value = [] then Inr policy_Default else policy_Parse value)"

definition policy_Decide :: "policy \<Rightarrow> bool \<Rightarrow> bool \<Rightarrow> policy_action" where
  "policy_Decide p present connected =
     (if \<not> present \<or> connected then ActionNone
      else case p of PolicyAuto \<Rightarrow> ActionConnect | PolicyDeny \<Rightarrow> ActionDeny | _ \<Rightarrow> ActionAsk)"

text \<open>
  Discovery never connects by accident: a client is told to connect only for a
  present endpoint without an active Session under a configuration that, up to
  case and surrounding space, says \<open>auto\<close>; an omitted value asks.
\<close>

theorem policy_connect_only_auto:
  assumes "policy_FromConfig value = Inr p" "policy_Decide p present connected = ActionConnect"
  shows "present \<and> \<not> connected \<and> to_lower (trim_space value) = ''auto''"
  using assms
  by (auto simp: policy_FromConfig_def policy_Parse_def policy_Decide_def policy_Default_def Let_def
      split: if_splits policy.splits)

theorem policy_connect_only_auto_witness: "to_lower (trim_space '' Auto '') = ''auto''"
proof -
  have "policy_FromConfig '' Auto '' = Inr PolicyAuto" by code_simp
  then show ?thesis using policy_connect_only_auto [of "'' Auto ''" PolicyAuto True False]
    by (simp add: policy_Decide_def)
qed

end
