(* ===== verification/Go_Regexp.thy ===== *)
theory Go_Regexp
  imports Go_Strings
begin

text \<open>
  What the program uses of Go's \<open>unicode/utf8\<close>, \<open>strconv.Atoi\<close> and \<open>regexp\<close>
  packages. A pattern is the string the Go source holds; \<open>regexp_compile\<close> parses
  the syntax those strings use (alternation, groups, character classes, \<open>*\<close>,
  \<open>+\<close>, \<open>?\<close>, counted repetition, \<open>^\<close>, \<open>$\<close>, \<open>\b\<close> and a leading \<open>(?i)\<close>) and
  answers \<open>None\<close> on anything else. Matching is leftmost-first, by backtracking
  in the order of preference the package documents, over the runes of the byte
  string, so the indices are byte offsets as in \<open>FindSubmatchIndex\<close>.
\<close>

section \<open>UTF-8\<close>

definition byte_at :: "string \<Rightarrow> nat \<Rightarrow> int" where
  "byte_at s i = (case drop i s of [] \<Rightarrow> 0 | c # cs \<Rightarrow> of_char c)"

definition byte_in :: "int \<Rightarrow> int \<Rightarrow> int \<Rightarrow> bool" where
  "byte_in lo hi b \<longleftrightarrow> lo \<le> b \<and> b \<le> hi"

definition RuneError :: int where "RuneError = 0xFFFD"

text \<open>The well-formed sequences of two, three and four bytes (no overlong forms, no surrogates).\<close>

definition utf8_two :: "string \<Rightarrow> bool" where
  "utf8_two s \<longleftrightarrow> byte_in 0xC2 0xDF (byte_at s 0) \<and> byte_in 0x80 0xBF (byte_at s 1)"

definition utf8_three :: "string \<Rightarrow> bool" where
  "utf8_three s \<longleftrightarrow> byte_in 0xE0 0xEF (byte_at s 0) \<and>
     byte_in (if byte_at s 0 = 0xE0 then 0xA0 else 0x80) (if byte_at s 0 = 0xED then 0x9F else 0xBF) (byte_at s 1) \<and>
     byte_in 0x80 0xBF (byte_at s 2)"

definition utf8_four :: "string \<Rightarrow> bool" where
  "utf8_four s \<longleftrightarrow> byte_in 0xF0 0xF4 (byte_at s 0) \<and>
     byte_in (if byte_at s 0 = 0xF0 then 0x90 else 0x80) (if byte_at s 0 = 0xF4 then 0x8F else 0xBF) (byte_at s 1) \<and>
     byte_in 0x80 0xBF (byte_at s 2) \<and> byte_in 0x80 0xBF (byte_at s 3)"

text \<open>\<open>utf8.DecodeRune\<close>: the rune and its width; \<open>(RuneError, 1)\<close> for an invalid byte.\<close>

definition decode_rune :: "string \<Rightarrow> int \<times> nat" where
  "decode_rune s =
     (if s = [] then (RuneError, 0)
      else
        let b0 = byte_at s 0; b1 = byte_at s 1; b2 = byte_at s 2; b3 = byte_at s 3
        in if b0 < 0x80 then (b0, 1)
           else if utf8_two s then ((b0 - 0xC0) * 64 + (b1 - 0x80), 2)
           else if utf8_three s then ((b0 - 0xE0) * 4096 + (b1 - 0x80) * 64 + (b2 - 0x80), 3)
           else if utf8_four s
           then ((b0 - 0xF0) * 262144 + (b1 - 0x80) * 4096 + (b2 - 0x80) * 64 + (b3 - 0x80), 4)
           else (RuneError, 1))"

lemma byte_at_ge: "length s \<le> i \<Longrightarrow> byte_at s i = 0"
  by (simp add: byte_at_def)

lemma byte_at_nth: "i < length s \<Longrightarrow> byte_at s i = of_char (s ! i)"
  by (simp add: byte_at_def Cons_nth_drop_Suc [symmetric])

lemma byte_in_bound: "byte_in a b (byte_at s i) \<Longrightarrow> 0 < a \<Longrightarrow> i < length s"
  by (cases "i < length s") (auto simp: byte_at_ge byte_in_def)

lemma utf8_lengths:
  "utf8_two s \<Longrightarrow> 2 \<le> length s" "utf8_three s \<Longrightarrow> 3 \<le> length s" "utf8_four s \<Longrightarrow> 4 \<le> length s"
proof -
  show "2 \<le> length s" if "utf8_two s"
    using that byte_in_bound [of 128 191 s 1] by (simp add: utf8_two_def)
  show "3 \<le> length s" if "utf8_three s"
    using that byte_in_bound [of 128 191 s 2] by (simp add: utf8_three_def)
  show "4 \<le> length s" if "utf8_four s"
    using that byte_in_bound [of 128 191 s 3] by (simp add: utf8_four_def)
qed

lemma decode_rune_width:
  assumes "s \<noteq> []"
  shows "1 \<le> snd (decode_rune s) \<and> snd (decode_rune s) \<le> length s"
proof -
  have "0 < length s" using assms by simp
  then show ?thesis using assms utf8_lengths [of s]
    by (auto simp: decode_rune_def Let_def Suc_le_eq)
qed

lemma decode_rune_ascii: "byte_at s 0 < 0x80 \<Longrightarrow> s \<noteq> [] \<Longrightarrow> decode_rune s = (byte_at s 0, 1)"
  by (simp add: decode_rune_def Let_def)

text \<open>\<open>utf8.Valid\<close>.\<close>

function utf8_valid :: "string \<Rightarrow> bool" where
  "utf8_valid s =
     (if s = [] then True
      else let (r, n) = decode_rune s
           in \<not> (r = RuneError \<and> n = 1) \<and> utf8_valid (drop n s))"
  by pat_completeness auto
termination
proof (relation "measure length", goal_cases)
  case (2 s x r n)
  then have "snd (decode_rune s) = n" by (metis snd_conv)
  then show ?case using 2 decode_rune_width [of s] by simp
qed simp

declare utf8_valid.simps [simp del]

section \<open>\<open>strconv.Atoi\<close>\<close>

text \<open>An optional sign and decimal digits within \<open>int64\<close>; \<open>None\<close> is a syntax or range error.\<close>

definition go_Atoi :: "string \<Rightarrow> int option" where
  "go_Atoi s =
     (let neg = has_prefix s ''-'';
          ds = (if neg \<or> has_prefix s ''+'' then drop 1 s else s);
          v = (if neg then - int (decimal_value ds) else int (decimal_value ds))
      in if ds = [] \<or> \<not> list_all is_digit ds then None
         else if - (2 ^ 63) \<le> v \<and> v < 2 ^ 63 then Some v else None)"

lemma go_Atoi_range: "go_Atoi s = Some v \<Longrightarrow> - (2 ^ 63) \<le> v \<and> v < 2 ^ 63"
  by (auto simp: go_Atoi_def Let_def split: if_splits)

lemma digit_not_sign:
  assumes "is_digit c" shows "c \<noteq> CHR ''-''" "c \<noteq> CHR ''+''"
  using assms by (auto simp: is_digit_def)

lemma go_Atoi_format:
  assumes "- (2 ^ 63) \<le> v" "v < 2 ^ 63"
  shows "go_Atoi (format_int v) = Some v"
proof -
  have d: "list_all is_digit (format_nat n)" for n
    using format_nat_digits by (auto simp: list_all_iff)
  show ?thesis
  proof (cases "v < 0")
    case True
    then show ?thesis using assms d [of "nat (- v)"]
      by (simp add: go_Atoi_def Let_def format_int_def has_prefix_def)
  next
    case False
    obtain c cs where c: "format_nat (nat v) = c # cs" by (cases "format_nat (nat v)") auto
    then have "is_digit c" using d [of "nat v"] by simp
    moreover have "decimal_value (c # cs) = nat v" using c decimal_format [of "nat v"] by simp
    ultimately show ?thesis using assms False d [of "nat v"] c digit_not_sign [of c]
      by (simp add: go_Atoi_def Let_def format_int_def has_prefix_def)
  qed
qed

section \<open>Patterns\<close>

text \<open>A class: negated, case-folded, inclusive rune ranges.\<close>

datatype rx =
    REmpty
  | RClass bool bool "(int \<times> int) list"
  | RSeq rx rx
  | RAlt rx rx
  | RStar rx
  | RCap nat rx
  | RBegin
  | REnd
  | RWordB

text \<open>
  \<open>unicode.SimpleFold\<close> on the runes the program's case-insensitive patterns name:
  ASCII letters, with the Kelvin sign and the long s in the orbits of \<open>k\<close> and \<open>s\<close>.
\<close>

definition fold_orbit :: "int \<Rightarrow> int list" where
  "fold_orbit r =
     (if r = 0x212A \<or> r = 75 \<or> r = 107 then [75, 107, 0x212A]
      else if r = 0x17F \<or> r = 83 \<or> r = 115 then [83, 115, 0x17F]
      else if 65 \<le> r \<and> r \<le> 90 then [r, r + 32]
      else if 97 \<le> r \<and> r \<le> 122 then [r, r - 32]
      else [r])"

definition in_ranges :: "(int \<times> int) list \<Rightarrow> int \<Rightarrow> bool" where
  "in_ranges rs r \<longleftrightarrow> list_ex (\<lambda>(lo, hi). lo \<le> r \<and> r \<le> hi) rs"

definition class_has :: "bool \<Rightarrow> bool \<Rightarrow> (int \<times> int) list \<Rightarrow> int \<Rightarrow> bool" where
  "class_has neg fc rs r \<longleftrightarrow>
     (if fc then list_ex (in_ranges rs) (fold_orbit r) else in_ranges rs r) \<noteq> neg"

definition word_rune :: "int \<Rightarrow> bool" where
  "word_rune r \<longleftrightarrow> 65 \<le> r \<and> r \<le> 90 \<or> 97 \<le> r \<and> r \<le> 122 \<or> 48 \<le> r \<and> r \<le> 57 \<or> r = 95"

text \<open>
  \<open>\b\<close> looks at the ASCII word characters on both sides; a byte of a multi-byte
  rune is not one, so the last byte decides as the last rune does.
\<close>

definition word_before :: "string \<Rightarrow> nat \<Rightarrow> bool" where
  "word_before s i \<longleftrightarrow> 0 < i \<and> word_rune (byte_at s (i - 1))"

definition word_after :: "string \<Rightarrow> nat \<Rightarrow> bool" where
  "word_after s i \<longleftrightarrow> i < length s \<and> word_rune (byte_at s i)"

section \<open>Matching\<close>

type_synonym captures = "nat \<Rightarrow> (nat \<times> nat) option"

text \<open>
  \<open>rx_match r s i c k\<close>: match \<open>r\<close> at offset \<open>i\<close> and continue with \<open>k\<close>; the
  first continuation that succeeds, in order of preference, is the answer. A
  repetition that consumes nothing is not iterated; \<open>length s - i\<close> iterations
  are then enough.
\<close>

primrec star_loop :: "(nat \<Rightarrow> captures \<Rightarrow> (nat \<Rightarrow> captures \<Rightarrow> 'r option) \<Rightarrow> 'r option) \<Rightarrow>
    nat \<Rightarrow> nat \<Rightarrow> captures \<Rightarrow> (nat \<Rightarrow> captures \<Rightarrow> 'r option) \<Rightarrow> 'r option" where
  "star_loop f 0 i c k = k i c"
| "star_loop f (Suc n) i c k =
     (case f i c (\<lambda>j d. if j = i then None else star_loop f n j d k) of
        Some x \<Rightarrow> Some x
      | None \<Rightarrow> k i c)"

primrec rx_match :: "rx \<Rightarrow> string \<Rightarrow> nat \<Rightarrow> captures \<Rightarrow> (nat \<Rightarrow> captures \<Rightarrow> 'r option) \<Rightarrow> 'r option" where
  "rx_match REmpty s i c k = k i c"
| "rx_match (RClass neg fc rs) s i c k =
     (if i < length s
      then let (r, n) = decode_rune (drop i s) in if class_has neg fc rs r then k (i + n) c else None
      else None)"
| "rx_match (RSeq a b) s i c k = rx_match a s i c (\<lambda>j d. rx_match b s j d k)"
| "rx_match (RAlt a b) s i c k =
     (case rx_match a s i c k of Some x \<Rightarrow> Some x | None \<Rightarrow> rx_match b s i c k)"
| "rx_match (RStar a) s i c k = star_loop (rx_match a s) (length s - i) i c k"
| "rx_match (RCap m a) s i c k = rx_match a s i c (\<lambda>j d. k j (d(m \<mapsto> (i, j))))"
| "rx_match RBegin s i c k = (if i = 0 then k i c else None)"
| "rx_match REnd s i c k = (if i = length s then k i c else None)"
| "rx_match RWordB s i c k = (if word_before s i \<noteq> word_after s i then k i c else None)"

text \<open>\<open>find_from\<close>: the leftmost match at or after \<open>i\<close>, offsets advancing rune by rune.\<close>

function find_from :: "rx \<Rightarrow> string \<Rightarrow> nat \<Rightarrow> ((nat \<times> nat) \<times> captures) option" where
  "find_from r s i =
     (case rx_match r s i Map.empty (\<lambda>j d. Some (j, d)) of
        Some (j, d) \<Rightarrow> Some ((i, j), d)
      | None \<Rightarrow>
          if length s \<le> i then None
          else find_from r s (i + snd (decode_rune (drop i s))))"
  by pat_completeness auto
termination
proof (relation "measure (\<lambda>(r, s, i). length s - i)", goal_cases)
  case (2 r s i)
  then show ?case using decode_rune_width [of "drop i s"] by (simp, linarith)
qed simp

declare find_from.simps [simp del]

definition rx_test :: "rx \<Rightarrow> string \<Rightarrow> bool" where
  "rx_test r s \<longleftrightarrow> find_from r s 0 \<noteq> None"

text \<open>
  \<open>FindAllSubmatchIndex(line, -1)\<close>: successive matches; an empty match right
  after the previous one is not delivered, and the search moves on by a rune.
\<close>

function find_all :: "rx \<Rightarrow> string \<Rightarrow> nat \<Rightarrow> nat option \<Rightarrow> ((nat \<times> nat) \<times> captures) list" where
  "find_all r s pos prev =
     (if length s < pos then []
      else case find_from r s pos of
        None \<Rightarrow> []
      | Some ((a, b), d) \<Rightarrow>
          if b \<le> pos
          then (if Some a = prev then [] else [((a, b), d)]) @
               find_all r s (if pos < length s then pos + snd (decode_rune (drop pos s)) else length s + 1) (Some b)
          else ((a, b), d) # find_all r s b (Some b))"
  by pat_completeness auto
termination
proof (relation "measure (\<lambda>(r, s, pos, prev). length s + 1 - pos)", goal_cases)
  case (2 r s pos prev)
  then show ?case using decode_rune_width [of "drop pos s"] by auto
qed auto

declare find_all.simps [simp del]

text \<open>The byte range of group \<open>g\<close> in a match, group 0 being the whole match.\<close>

definition group_range :: "(nat \<times> nat) \<times> captures \<Rightarrow> nat \<Rightarrow> (nat \<times> nat) option" where
  "group_range m g = (if g = 0 then Some (fst m) else snd m g)"

definition caps_ok :: "string \<Rightarrow> captures \<Rightarrow> bool" where
  "caps_ok s c \<longleftrightarrow> (\<forall>m a b. c m = Some (a, b) \<longrightarrow> a \<le> b \<and> b \<le> length s)"

lemma caps_ok_empty [simp]: "caps_ok s Map.empty"
  by (simp add: caps_ok_def)

lemma caps_ok_upd [intro]: "caps_ok s c \<Longrightarrow> i \<le> j \<Longrightarrow> j \<le> length s \<Longrightarrow> caps_ok s (c(m \<mapsto> (i, j)))"
  by (auto simp: caps_ok_def)

lemma star_loop_range:
  assumes f: "\<And>i c k x. f i c k = Some x \<Longrightarrow> i \<le> length s \<Longrightarrow> caps_ok s c \<Longrightarrow>
      \<exists>j d. k j d = Some x \<and> i \<le> j \<and> j \<le> length s \<and> caps_ok s d"
  shows "star_loop f n i c k = Some x \<Longrightarrow> i \<le> length s \<Longrightarrow> caps_ok s c \<Longrightarrow>
      \<exists>j d. k j d = Some x \<and> i \<le> j \<and> j \<le> length s \<and> caps_ok s d"
proof (induction n arbitrary: i c)
  case (Suc n)
  show ?case
  proof (cases "f i c (\<lambda>j d. if j = i then None else star_loop f n j d k)")
    case None
    then show ?thesis using Suc.prems by auto
  next
    case (Some y)
    then have y: "y = x" using Suc.prems by simp
    from f [OF Some Suc.prems(2,3)] obtain j d where
      j: "(if j = i then None else star_loop f n j d k) = Some y" "i \<le> j" "j \<le> length s" "caps_ok s d"
      by blast
    then have "star_loop f n j d k = Some x" using y by (simp split: if_splits)
    from Suc.IH [OF this j(3,4)] j(2) show ?thesis by (meson order_trans)
  qed
qed auto

lemma rx_match_range:
  fixes x :: "'r"
  shows "rx_match r s i c k = Some x \<Longrightarrow> i \<le> length s \<Longrightarrow> caps_ok s c \<Longrightarrow>
    \<exists>j d. k j d = Some x \<and> i \<le> j \<and> j \<le> length s \<and> caps_ok s d"
proof (induction r arbitrary: i c k x)
  case (RClass neg fc rs)
  then have l: "i < length s" by (simp split: if_splits)
  obtain r n where r: "decode_rune (drop i s) = (r, n)" by (cases "decode_rune (drop i s)")
  have "n \<le> length s - i" using decode_rune_width [of "drop i s"] l r by simp
  then show ?case using RClass l r by (auto split: if_splits intro!: exI [of _ "i + n"] exI [of _ c])
next
  case (RSeq a b)
  have "rx_match a s i c (\<lambda>j d. rx_match b s j d k) = Some x" using RSeq.prems(1) by simp
  from RSeq.IH(1) [OF this RSeq.prems(2,3)] obtain j d where
    j: "rx_match b s j d k = Some x" "i \<le> j" "j \<le> length s" "caps_ok s d" by blast
  from RSeq.IH(2) [OF j(1,3,4)] j(2) show ?case by (meson order_trans)
next
  case (RAlt a b)
  show ?case
  proof (cases "rx_match a s i c k")
    case None
    then show ?thesis using RAlt.IH(2) [of i c k x] RAlt.prems by simp
  next
    case (Some y)
    then show ?thesis using RAlt.IH(1) [of i c k x] RAlt.prems by simp
  qed
next
  case (RStar a)
  have f: "\<exists>j d. k j d = Some x \<and> i \<le> j \<and> j \<le> length s \<and> caps_ok s d"
    if "rx_match a s i c k = Some x" "i \<le> length s" "caps_ok s c" for i c k and x :: "'r"
    using RStar.IH [OF that] .
  have "star_loop (rx_match a s) (length s - i) i c k = Some x" using RStar.prems(1) by simp
  from star_loop_range [OF f this RStar.prems(2,3)] show ?case .
next
  case (RCap m a)
  have "rx_match a s i c (\<lambda>j d. k j (d(m \<mapsto> (i, j)))) = Some x" using RCap.prems(1) by simp
  from RCap.IH [OF this RCap.prems(2,3)] show ?case by blast
qed (auto split: if_splits)

lemma find_from_range:
  "find_from r s i = Some ((a, b), d) \<Longrightarrow> i \<le> length s \<Longrightarrow> i \<le> a \<and> a \<le> b \<and> b \<le> length s \<and> caps_ok s d"
proof (induction r s i rule: find_from.induct)
  case (1 r s i)
  show ?case
  proof (cases "rx_match r s i Map.empty (\<lambda>j d. Some (j, d))")
    case None
    note n = None
    then have l: "i < length s" and
      rec: "find_from r s (i + snd (decode_rune (drop i s))) = Some ((a, b), d)"
      using "1.prems"(1) by (auto simp: find_from.simps [of r s i] split: if_splits)
    have "i + snd (decode_rune (drop i s)) \<le> length s"
      using decode_rune_width [of "drop i s"] l by (simp, linarith)
    then show ?thesis using "1.IH" [OF n _ rec] l by simp
  next
    case (Some p)
    from rx_match_range [OF Some "1.prems"(2) caps_ok_empty] obtain j e where
      "p = (j, e)" "i \<le> j" "j \<le> length s" "caps_ok s e" by auto
    then show ?thesis using Some "1.prems"(1) by (simp add: find_from.simps [of r s i])
  qed
qed

lemma find_all_range:
  "m \<in> set (find_all r s pos prev) \<Longrightarrow> fst (fst m) \<le> snd (fst m) \<and> snd (fst m) \<le> length s \<and> caps_ok s (snd m)"
proof (induction r s pos prev rule: find_all.induct)
  case (1 r s pos prev)
  show ?case
  proof (cases "length s < pos")
    case True
    then show ?thesis using "1.prems" by (simp add: find_all.simps [of r s pos])
  next
    case False
    note l = False
    show ?thesis
    proof (cases "find_from r s pos")
      case None
      then show ?thesis using "1.prems" by (simp add: find_all.simps [of r s pos] split: if_splits)
    next
      case (Some q)
      obtain a b d where q: "q = ((a, b), d)" by (metis surj_pair)
      have g: "a \<le> b \<and> b \<le> length s \<and> caps_ok s d"
        using find_from_range [of r s pos a b d] Some q l by simp
      show ?thesis
      proof (cases "b \<le> pos")
        case True
        then show ?thesis
          using "1.prems" "1.IH"(1) [OF l Some [unfolded q] refl refl True] Some q l g
          by (auto simp: find_all.simps [of r s pos] split: if_splits)
      next
        case False
        then show ?thesis
          using "1.prems" "1.IH"(2) [OF l Some [unfolded q] refl refl False] Some q l g
          by (auto simp: find_all.simps [of r s pos])
      qed
    qed
  qed
qed

lemma group_range_ok:
  assumes "m \<in> set (find_all r s pos prev)" "group_range m g = Some (a, b)"
  shows "a \<le> b \<and> b \<le> length s"
  using find_all_range [OF assms(1)] assms(2)
  by (auto simp: group_range_def caps_ok_def split: if_splits)

section \<open>Pattern syntax\<close>

definition rx_lit :: "bool \<Rightarrow> int \<Rightarrow> rx" where
  "rx_lit ci r = RClass False ci [(r, r)]"

primrec rx_copies :: "rx \<Rightarrow> nat \<Rightarrow> rx \<Rightarrow> rx" where
  "rx_copies r 0 x = x"
| "rx_copies r (Suc n) x = RSeq r (rx_copies r n x)"

primrec rx_opts :: "rx \<Rightarrow> nat \<Rightarrow> rx" where
  "rx_opts r 0 = REmpty"
| "rx_opts r (Suc n) = RAlt (RSeq r (rx_opts r n)) REmpty"

text \<open>One literal rune, escapes included.\<close>

definition punct_byte :: "byte \<Rightarrow> bool" where
  "punct_byte c \<longleftrightarrow> (let n = of_char c :: int in 0x21 \<le> n \<and> n < 0x7F \<and> \<not> word_rune n)"

definition p_lit :: "string \<Rightarrow> (int \<times> string) option" where
  "p_lit s =
     (case s of
        [] \<Rightarrow> None
      | c # cs \<Rightarrow>
          if c = CHR 0x5C
          then case cs of
                 [] \<Rightarrow> None
               | e # es \<Rightarrow>
                   if e = CHR ''n'' then Some (10, es)
                   else if e = CHR ''r'' then Some (13, es)
                   else if e = CHR ''t'' then Some (9, es)
                   else if punct_byte e then Some (of_char e, es)
                   else None
          else let (r, n) = decode_rune s
               in if r = RuneError \<and> n = 1 then None else Some (r, drop n s))"

text \<open>The items of a bracket class up to the closing bracket.\<close>

fun p_class :: "nat \<Rightarrow> (int \<times> int) list \<Rightarrow> string \<Rightarrow> ((int \<times> int) list \<times> string) option" where
  "p_class 0 acc s = None"
| "p_class (Suc n) acc s =
     (if has_prefix s '']'' \<and> acc \<noteq> [] then Some (acc, drop 1 s)
      else if has_prefix s ''[:alnum:]'' then p_class n (acc @ [(48, 57), (65, 90), (97, 122)]) (drop 9 s)
      else if has_prefix s ''[:alpha:]'' then p_class n (acc @ [(65, 90), (97, 122)]) (drop 9 s)
      else case p_lit s of
        None \<Rightarrow> None
      | Some (lo, s1) \<Rightarrow>
          if has_prefix s1 ''-'' \<and> \<not> has_prefix s1 ''-]''
          then case p_lit (drop 1 s1) of
                 None \<Rightarrow> None
               | Some (hi, s2) \<Rightarrow> if hi < lo then None else p_class n (acc @ [(lo, hi)]) s2
          else p_class n (acc @ [(lo, lo)]) s1)"

definition p_count :: "string \<Rightarrow> (nat \<times> string) option" where
  "p_count s =
     (let ds = takeWhile is_digit s
      in if ds = [] then None else Some (decimal_value ds, drop (length ds) s))"

text \<open>The repetition operator behind an atom, if there is one.\<close>

definition p_repeat :: "rx \<Rightarrow> string \<Rightarrow> (rx \<times> string) option" where
  "p_repeat r s =
     (if has_prefix s ''*'' then Some (RStar r, drop 1 s)
      else if has_prefix s ''+'' then Some (RSeq r (RStar r), drop 1 s)
      else if has_prefix s ''?'' then Some (RAlt r REmpty, drop 1 s)
      else if has_prefix s ''{''
      then case p_count (drop 1 s) of
             None \<Rightarrow> None
           | Some (lo, s1) \<Rightarrow>
               if has_prefix s1 ''}'' then Some (rx_copies r lo REmpty, drop 1 s1)
               else if has_prefix s1 '',''
               then case p_count (drop 1 s1) of
                      None \<Rightarrow> None
                    | Some (hi, s2) \<Rightarrow>
                        if has_prefix s2 ''}'' \<and> lo \<le> hi
                        then Some (rx_copies r lo (rx_opts r (hi - lo)), drop 1 s2) else None
               else None
      else Some (r, s))"

text \<open>
  \<open>p_alt fuel fold next_group input\<close> answers the pattern, the next group number
  and the rest; every call spends fuel, and three units a byte are enough.
\<close>

fun p_alt :: "nat \<Rightarrow> bool \<Rightarrow> nat \<Rightarrow> string \<Rightarrow> (rx \<times> nat \<times> string) option"
and p_cat :: "nat \<Rightarrow> bool \<Rightarrow> nat \<Rightarrow> string \<Rightarrow> (rx \<times> nat \<times> string) option"
and p_atom :: "nat \<Rightarrow> bool \<Rightarrow> nat \<Rightarrow> string \<Rightarrow> (rx \<times> nat \<times> string) option" where
  "p_alt 0 ci g s = None"
| "p_alt (Suc n) ci g s =
     (case p_cat n ci g s of
        None \<Rightarrow> None
      | Some (r, g1, s1) \<Rightarrow>
          if has_prefix s1 ''|''
          then case p_alt n ci g1 (drop 1 s1) of
                 None \<Rightarrow> None
               | Some (r2, g2, s2) \<Rightarrow> Some (RAlt r r2, g2, s2)
          else Some (r, g1, s1))"
| "p_cat 0 ci g s = None"
| "p_cat (Suc n) ci g s =
     (if s = [] \<or> has_prefix s ''|'' \<or> has_prefix s '')'' then Some (REmpty, g, s)
      else case p_atom n ci g s of
        None \<Rightarrow> None
      | Some (r, g1, s1) \<Rightarrow>
          (case p_repeat r s1 of
             None \<Rightarrow> None
           | Some (r1, s2) \<Rightarrow>
               (case p_cat n ci g1 s2 of
                  None \<Rightarrow> None
                | Some (r2, g2, s3) \<Rightarrow> Some (if r2 = REmpty then r1 else RSeq r1 r2, g2, s3))))"
| "p_atom 0 ci g s = None"
| "p_atom (Suc n) ci g s =
     (if has_prefix s ''(''
      then let cap = \<not> has_prefix s ''(?:'';
               body = (if cap then drop 1 s else drop 3 s)
           in if has_prefix body ''?'' then None
              else case p_alt n ci (if cap then g + 1 else g) body of
                None \<Rightarrow> None
              | Some (r, g1, s1) \<Rightarrow>
                  if has_prefix s1 '')'' then Some (if cap then RCap g r else r, g1, drop 1 s1) else None
      else if has_prefix s ''[''
      then let neg = has_prefix s ''[^''
           in (case p_class (length s) [] (if neg then drop 2 s else drop 1 s) of
                 None \<Rightarrow> None
               | Some (rs, s1) \<Rightarrow> Some (RClass neg ci rs, g, s1))
      else if has_prefix s ''^'' then Some (RBegin, g, drop 1 s)
      else if has_prefix s ''$'' then Some (REnd, g, drop 1 s)
      else if has_prefix s (CHR 0x5C # ''b'') then Some (RWordB, g, drop 2 s)
      else if has_prefix s ''*'' \<or> has_prefix s ''+'' \<or> has_prefix s ''?'' \<or> has_prefix s ''{'' \<or> has_prefix s ''.'' then None
      else case p_lit s of
        None \<Rightarrow> None
      | Some (r, s1) \<Rightarrow> Some (rx_lit ci r, g, s1))"

definition regexp_compile :: "string \<Rightarrow> rx option" where
  "regexp_compile pat =
     (let ci = has_prefix pat ''(?i)'';
          s = (if ci then drop 4 pat else pat)
      in case p_alt (3 * length s + 3) ci 1 s of
           Some (r, g, []) \<Rightarrow> Some r
         | _ \<Rightarrow> None)"

text \<open>
  \<open>regexp.MustCompile\<close> panics when the package is initialised with a malformed
  pattern; each theory that compiles patterns proves that its own compile, so the
  branch for \<open>None\<close>, a pattern that matches nothing, is never taken.
\<close>

definition regexp_MustCompile :: "string \<Rightarrow> rx" where
  "regexp_MustCompile pat =
     (case regexp_compile pat of Some r \<Rightarrow> r | None \<Rightarrow> RClass False False [])"

text \<open>
  A raw string literal of the Go source. Such a literal cannot contain a back
  quote, so the back quote stands for the backslash here.
\<close>

definition go_raw :: "string \<Rightarrow> string" where
  "go_raw s = map (\<lambda>c. if c = CHR 0x60 then CHR 0x5C else c) s"

end
