(* ===== verification/Highlight_VT.thy ===== *)
theory Highlight_VT
  imports Go_Regexp "HOL-Library.Word"
begin

unbundle bit_operations_syntax

text \<open>
  \<open>internal/cli/highlight/vt.go\<close>: the tracker that decides when line-oriented
  highlighting may resume after remote escape sequences. It follows the VT
  parser state, the SGR attributes still in force and the alternate screen; it
  is fed every byte of the remote output exactly once.
\<close>

section \<open>State\<close>

definition maxCSIParameterBytes :: nat where "maxCSIParameterBytes = 128"

definition ESC :: byte where "ESC = CHR 0x1B"

definition shellSizeProbe :: string where
  "shellSizeProbe =
     ESC # ''7'' @ ESC # ''[r'' @ ESC # ''[999;999H'' @ ESC # ''[6n'' @ ESC # ''8''"

datatype vt_state = VtGround | VtEscape | VtCSI | VtOSC | VtOSCEscape | VtString | VtStringEscape

definition sgrIntensity :: "16 word" where "sgrIntensity = 0x1"
definition sgrItalic :: "16 word" where "sgrItalic = 0x2"
definition sgrUnderline :: "16 word" where "sgrUnderline = 0x4"
definition sgrBlink :: "16 word" where "sgrBlink = 0x8"
definition sgrInverse :: "16 word" where "sgrInverse = 0x10"
definition sgrConceal :: "16 word" where "sgrConceal = 0x20"
definition sgrStrike :: "16 word" where "sgrStrike = 0x40"
definition sgrFrame :: "16 word" where "sgrFrame = 0x80"
definition sgrOverline :: "16 word" where "sgrOverline = 0x100"
definition sgrForeground :: "16 word" where "sgrForeground = 0x200"
definition sgrBackground :: "16 word" where "sgrBackground = 0x400"
definition sgrUnderlineColor :: "16 word" where "sgrUnderlineColor = 0x800"
definition sgrUnknown :: "16 word" where "sgrUnknown = 0x1000"

lemmas sgr_bits =
  sgrIntensity_def sgrItalic_def sgrUnderline_def sgrBlink_def sgrInverse_def sgrConceal_def
  sgrStrike_def sgrFrame_def sgrOverline_def sgrForeground_def sgrBackground_def
  sgrUnderlineColor_def sgrUnknown_def

record vt_tracker =
  vt_st :: vt_state
  vt_csi :: string
  vt_alt :: bool
  vt_sgr :: "16 word"
  vt_text :: bool
  vt_probe :: nat

definition zero_vt :: vt_tracker where
  "zero_vt = \<lparr>vt_st = VtGround, vt_csi = [], vt_alt = False, vt_sgr = 0, vt_text = False, vt_probe = 0\<rparr>"

definition canResumeHighlighting :: "vt_tracker \<Rightarrow> bool" where
  "canResumeHighlighting t \<longleftrightarrow> vt_st t = VtGround \<and> \<not> vt_alt t \<and> vt_sgr t = 0"

section \<open>Select graphic rendition\<close>

definition setSGRCode :: "int \<Rightarrow> 16 word \<Rightarrow> 16 word" where
  "setSGRCode code a =
     (if code = 0 then 0
      else if code = 1 \<or> code = 2 then a OR sgrIntensity
      else if code = 3 then a OR sgrItalic
      else if code = 4 \<or> code = 21 then a OR sgrUnderline
      else if code = 5 \<or> code = 6 then a OR sgrBlink
      else if code = 7 then a OR sgrInverse
      else if code = 8 then a OR sgrConceal
      else if code = 9 then a OR sgrStrike
      else if code = 22 then a AND NOT sgrIntensity
      else if code = 23 then a AND NOT sgrItalic
      else if code = 24 then a AND NOT sgrUnderline
      else if code = 25 then a AND NOT sgrBlink
      else if code = 27 then a AND NOT sgrInverse
      else if code = 28 then a AND NOT sgrConceal
      else if code = 29 then a AND NOT sgrStrike
      else if 30 \<le> code \<and> code \<le> 37 \<or> 90 \<le> code \<and> code \<le> 97 \<or> code = 38 then a OR sgrForeground
      else if code = 39 then a AND NOT sgrForeground
      else if 40 \<le> code \<and> code \<le> 47 \<or> 100 \<le> code \<and> code \<le> 107 \<or> code = 48 then a OR sgrBackground
      else if code = 49 then a AND NOT sgrBackground
      else if code = 51 \<or> code = 52 then a OR sgrFrame
      else if code = 53 then a OR sgrOverline
      else if code = 54 then a AND NOT sgrFrame
      else if code = 55 then a AND NOT sgrOverline
      else if code = 58 then a OR sgrUnderlineColor
      else if code = 59 then a AND NOT sgrUnderlineColor
      else a OR sgrUnknown)"

definition extendedColorParameterCount :: "string list \<Rightarrow> nat" where
  "extendedColorParameterCount ps =
     (if ps = [] then 0
      else if hd ps = ''5'' then min 2 (length ps)
      else if hd ps = ''2'' then min 4 (length ps)
      else 0)"

text \<open>The parameter loop of \<open>applySGR\<close>; an extended colour skips its operands.\<close>

function sgr_loop :: "string list \<Rightarrow> 16 word \<Rightarrow> 16 word" where
  "sgr_loop [] a = a"
| "sgr_loop (p # ps) a =
     (let part = (if p = [] then ''0'' else p)
      in case str_index part '':'' of
           Some separator \<Rightarrow>
             (case go_Atoi (take separator part) of
                None \<Rightarrow> sgr_loop ps (a OR sgrUnknown)
              | Some code \<Rightarrow> sgr_loop ps (setSGRCode code a))
         | None \<Rightarrow>
             (case go_Atoi part of
                None \<Rightarrow> sgr_loop ps (a OR sgrUnknown)
              | Some code \<Rightarrow>
                  if code = 38 \<or> code = 48 \<or> code = 58
                  then sgr_loop (drop (extendedColorParameterCount ps) ps) (setSGRCode code a)
                  else sgr_loop ps (setSGRCode code a)))"
  by pat_completeness auto
termination by (relation "measure (\<lambda>(ps, a). length ps)") auto

definition applySGR :: "string \<Rightarrow> 16 word \<Rightarrow> 16 word" where
  "applySGR parameters a = (if parameters = [] then 0 else sgr_loop (split_byte (CHR '';'') parameters) a)"

section \<open>Control sequences\<close>

text \<open>The private modes of one \<open>CSI ? ... h/l\<close>: the alternate screen and the boundary verdict.\<close>

fun private_modes :: "bool \<Rightarrow> string list \<Rightarrow> bool \<Rightarrow> bool \<Rightarrow> bool \<times> bool" where
  "private_modes enabled [] alt boundary = (alt, boundary)"
| "private_modes enabled (p # ps) alt boundary =
     (case go_Atoi p of
        None \<Rightarrow> private_modes enabled ps alt False
      | Some mode \<Rightarrow>
          if mode = 25 \<or> mode = 2004 then private_modes enabled ps alt boundary
          else if mode = 47 \<or> mode = 1047 \<or> mode = 1049
          then private_modes enabled ps enabled (boundary \<and> \<not> enabled)
          else private_modes enabled ps alt False)"

definition finishCSI :: "byte \<Rightarrow> vt_tracker \<Rightarrow> vt_tracker \<times> bool" where
  "finishCSI final t =
     (let parameters = vt_csi t; t1 = t\<lparr>vt_csi := []\<rparr>
      in if final = CHR ''m'' then (t1\<lparr>vt_sgr := applySGR parameters (vt_sgr t1)\<rparr>, True)
         else if (final = CHR ''h'' \<or> final = CHR ''l'') \<and> has_prefix parameters ''?''
         then let (alt, boundary) =
                    private_modes (final = CHR ''h'') (split_byte (CHR '';'') (drop 1 parameters)) (vt_alt t1) True
              in (t1\<lparr>vt_alt := alt\<rparr>, boundary)
         else (t1, False))"

text \<open>The shell size probe: progress through the one cursor sequence that is recognised.\<close>

definition probe_step :: "byte \<Rightarrow> vt_tracker \<Rightarrow> vt_tracker \<times> bool" where
  "probe_step v t =
     (if 0 < vt_probe t \<and> v = shellSizeProbe ! vt_probe t
      then if vt_probe t + 1 = length shellSizeProbe then (t\<lparr>vt_probe := 0\<rparr>, True)
           else (t\<lparr>vt_probe := vt_probe t + 1\<rparr>, False)
      else if v = ESC \<and> \<not> vt_text t \<and> canResumeHighlighting t then (t\<lparr>vt_probe := 1\<rparr>, False)
      else (t\<lparr>vt_probe := 0\<rparr>, False))"

text \<open>The state machine proper, one case per parser state.\<close>

definition vt_ground :: "byte \<Rightarrow> vt_tracker \<Rightarrow> vt_tracker" where
  "vt_ground v t =
     (if v = ESC then t\<lparr>vt_st := VtEscape\<rparr>
      else if v = CHR 0x0A then t\<lparr>vt_text := False\<rparr>
      else if 0x20 \<le> (of_char v :: nat) \<and> v \<noteq> CHR 0x7F then t\<lparr>vt_text := True\<rparr>
      else t)"

definition vt_escape :: "bool \<Rightarrow> byte \<Rightarrow> vt_tracker \<Rightarrow> vt_tracker \<times> bool" where
  "vt_escape probeComplete v t =
     (if v = CHR ''8''
      then let t1 = t\<lparr>vt_st := VtGround\<rparr> in (t1, probeComplete \<and> \<not> vt_text t1 \<and> canResumeHighlighting t1)
      else if v = CHR ''['' then (t\<lparr>vt_st := VtCSI, vt_csi := []\<rparr>, False)
      else if v = CHR '']'' then (t\<lparr>vt_st := VtOSC\<rparr>, False)
      else if v = CHR ''P'' \<or> v = CHR ''X'' \<or> v = CHR ''^'' \<or> v = CHR ''_'' then (t\<lparr>vt_st := VtString\<rparr>, False)
      else if v = CHR ''c''
      then (t\<lparr>vt_alt := False, vt_sgr := 0, vt_text := False, vt_st := VtGround\<rparr>, True)
      else if v = ESC then (t\<lparr>vt_st := VtEscape\<rparr>, False)
      else (t\<lparr>vt_st := VtGround\<rparr>, False))"

definition vt_control :: "byte \<Rightarrow> vt_tracker \<Rightarrow> vt_tracker \<times> bool" where
  "vt_control v t =
     (let n = of_char v :: nat
      in if v = ESC then (t\<lparr>vt_st := VtEscape\<rparr>, False)
         else if 0x30 \<le> n \<and> n \<le> 0x3F
         then (if length (vt_csi t) < maxCSIParameterBytes then t\<lparr>vt_csi := vt_csi t @ [v]\<rparr> else t, False)
         else if 0x20 \<le> n \<and> n \<le> 0x2F then (t, False)
         else if 0x40 \<le> n \<and> n \<le> 0x7E
         then let (t1, promptBoundary) = finishCSI v t; t2 = t1\<lparr>vt_st := VtGround\<rparr>
              in (t2, promptBoundary \<and> \<not> vt_text t2 \<and> canResumeHighlighting t2)
         else (t\<lparr>vt_st := VtGround\<rparr>, False))"

definition vt_feed :: "byte \<Rightarrow> vt_tracker \<Rightarrow> vt_tracker \<times> bool" where
  "vt_feed v t0 =
     (let (t, probeComplete) = probe_step v t0
      in if v = CHR 0x18 \<or> v = CHR 0x1A then (t\<lparr>vt_st := VtGround, vt_csi := []\<rparr>, False)
         else case vt_st t of
           VtGround \<Rightarrow> (vt_ground v t, False)
         | VtEscape \<Rightarrow> vt_escape probeComplete v t
         | VtCSI \<Rightarrow> vt_control v t
         | VtOSC \<Rightarrow>
             if v = CHR 0x07
             then let t1 = t\<lparr>vt_st := VtGround\<rparr> in (t1, \<not> vt_text t1 \<and> canResumeHighlighting t1)
             else (if v = ESC then t\<lparr>vt_st := VtOSCEscape\<rparr> else t, False)
         | VtOSCEscape \<Rightarrow>
             if v = CHR 0x5C
             then let t1 = t\<lparr>vt_st := VtGround\<rparr> in (t1, \<not> vt_text t1 \<and> canResumeHighlighting t1)
             else (if v \<noteq> ESC then t\<lparr>vt_st := VtOSC\<rparr> else t, False)
         | VtString \<Rightarrow> (if v = ESC then t\<lparr>vt_st := VtStringEscape\<rparr> else t, False)
         | VtStringEscape \<Rightarrow>
             (if v = CHR 0x5C then t\<lparr>vt_st := VtGround\<rparr>
              else if v \<noteq> ESC then t\<lparr>vt_st := VtString\<rparr> else t, False))"

definition vt_bytes :: "string \<Rightarrow> vt_tracker \<Rightarrow> vt_tracker" where
  "vt_bytes s t = fold (\<lambda>v t. fst (vt_feed v t)) s t"

lemma vt_bytes_simps [simp]:
  "vt_bytes [] t = t" "vt_bytes (v # s) t = vt_bytes s (fst (vt_feed v t))"
  "vt_bytes (a @ b) t = vt_bytes b (vt_bytes a t)"
  by (simp_all add: vt_bytes_def)

section \<open>Invariant\<close>

text \<open>
  Collected CSI parameters stay within their bound, the probe offset stays within
  the probe, and only the thirteen declared attribute bits are ever set.
\<close>

definition sgr_mask :: "16 word" where "sgr_mask = 0x1FFF"

definition vt_inv :: "vt_tracker \<Rightarrow> bool" where
  "vt_inv t \<longleftrightarrow> length (vt_csi t) \<le> maxCSIParameterBytes \<and> vt_probe t < length shellSizeProbe \<and>
     vt_sgr t AND NOT sgr_mask = 0"

lemma zero_vt_inv [simp]: "vt_inv zero_vt"
  by (simp add: vt_inv_def zero_vt_def shellSizeProbe_def)

lemma or_masked: "(a :: 16 word) AND NOT sgr_mask = 0 \<Longrightarrow> b AND NOT sgr_mask = 0 \<Longrightarrow> (a OR b) AND NOT sgr_mask = 0"
  by (metis bit.conj_disj_distrib2 or.right_neutral)

lemma and_masked: "(a :: 16 word) AND NOT sgr_mask = 0 \<Longrightarrow> (a AND b) AND NOT sgr_mask = 0"
  by (metis and.assoc and.commute and_zero_eq)

lemma sgr_bit_masked:
  "sgrIntensity AND NOT sgr_mask = 0" "sgrItalic AND NOT sgr_mask = 0" "sgrUnderline AND NOT sgr_mask = 0"
  "sgrBlink AND NOT sgr_mask = 0" "sgrInverse AND NOT sgr_mask = 0" "sgrConceal AND NOT sgr_mask = 0"
  "sgrStrike AND NOT sgr_mask = 0" "sgrFrame AND NOT sgr_mask = 0" "sgrOverline AND NOT sgr_mask = 0"
  "sgrForeground AND NOT sgr_mask = 0" "sgrBackground AND NOT sgr_mask = 0"
  "sgrUnderlineColor AND NOT sgr_mask = 0" "sgrUnknown AND NOT sgr_mask = 0"
  by (simp_all add: sgr_bits sgr_mask_def)

lemma setSGRCode_masked: "a AND NOT sgr_mask = 0 \<Longrightarrow> setSGRCode c a AND NOT sgr_mask = 0"
  unfolding setSGRCode_def by (simp add: or_masked and_masked sgr_bit_masked)

lemma sgr_loop_masked: "a AND NOT sgr_mask = 0 \<Longrightarrow> sgr_loop ps a AND NOT sgr_mask = 0"
proof (induction ps a rule: sgr_loop.induct)
  case (2 p ps a)
  show ?case
    by (simp only: sgr_loop.simps Let_def split: option.split if_split)
       (use 2 in \<open>simp add: Let_def or_masked sgr_bit_masked setSGRCode_masked\<close>)
qed simp

lemma applySGR_masked: "a AND NOT sgr_mask = 0 \<Longrightarrow> applySGR ps a AND NOT sgr_mask = 0"
  by (simp add: applySGR_def sgr_loop_masked)

lemma finishCSI_inv: "vt_inv t \<Longrightarrow> vt_inv (fst (finishCSI v t))"
  by (auto simp: finishCSI_def vt_inv_def Let_def applySGR_masked split: prod.splits)

lemma probe_step_inv: "vt_inv t \<Longrightarrow> vt_inv (fst (probe_step v t))"
  by (auto simp: probe_step_def vt_inv_def shellSizeProbe_def)

lemma probe_step_frame [simp]:
  "vt_st (fst (probe_step v t)) = vt_st t" "vt_sgr (fst (probe_step v t)) = vt_sgr t"
  "vt_alt (fst (probe_step v t)) = vt_alt t" "vt_text (fst (probe_step v t)) = vt_text t"
  "vt_csi (fst (probe_step v t)) = vt_csi t"
  by (simp_all add: probe_step_def)

lemma vt_ground_inv: "vt_inv t \<Longrightarrow> vt_inv (vt_ground v t)"
  by (simp add: vt_ground_def vt_inv_def)

lemma vt_escape_inv: "vt_inv t \<Longrightarrow> vt_inv (fst (vt_escape p v t))"
  by (simp add: vt_escape_def vt_inv_def Let_def)

lemma vt_control_inv:
  assumes "vt_inv t" shows "vt_inv (fst (vt_control v t))"
  using assms finishCSI_inv [OF assms, of v]
  by (auto simp: vt_control_def vt_inv_def Let_def split: prod.splits)

lemma vt_inv_st [simp]: "vt_inv (t\<lparr>vt_st := s\<rparr>) = vt_inv t"
  by (simp add: vt_inv_def)

lemma vt_feed_inv: "vt_inv t \<Longrightarrow> vt_inv (fst (vt_feed v t))"
proof -
  assume i: "vt_inv t"
  obtain t1 p where p: "probe_step v t = (t1, p)" by (cases "probe_step v t")
  have i1: "vt_inv t1" using probe_step_inv [OF i, of v] p by simp
  then have "vt_inv (t1\<lparr>vt_st := VtGround, vt_csi := []\<rparr>)" by (simp add: vt_inv_def)
  then show ?thesis
    using i1 vt_ground_inv [OF i1] vt_escape_inv [OF i1] vt_control_inv [OF i1]
    by (cases "vt_st t1") (simp_all add: vt_feed_def p Let_def)
qed

lemma vt_bytes_inv: "vt_inv t \<Longrightarrow> vt_inv (vt_bytes s t)"
  by (induction s arbitrary: t) (simp_all add: vt_feed_inv)

section \<open>When highlighting resumes\<close>

lemma vt_feed_resume: "snd (vt_feed v t) \<Longrightarrow> canResumeHighlighting (fst (vt_feed v t)) \<and> \<not> vt_text (fst (vt_feed v t))"
proof -
  assume s: "snd (vt_feed v t)"
  obtain t1 p where p: "probe_step v t = (t1, p)" by (cases "probe_step v t")
  have e: "snd (vt_escape p v t1) \<Longrightarrow> canResumeHighlighting (fst (vt_escape p v t1)) \<and> \<not> vt_text (fst (vt_escape p v t1))"
    by (auto simp: vt_escape_def Let_def canResumeHighlighting_def ESC_def split: if_splits)
  have c: "snd (vt_control v t1) \<Longrightarrow> canResumeHighlighting (fst (vt_control v t1)) \<and> \<not> vt_text (fst (vt_control v t1))"
    by (auto simp: vt_control_def Let_def split: if_splits prod.splits)
  from s e c show ?thesis
    by (cases "vt_st t1") (auto simp: vt_feed_def p Let_def split: if_splits)
qed

text \<open>Plain text, free of escapes, keeps the tracker where highlighting may go on.\<close>

lemma vt_feed_plain:
  assumes "canResumeHighlighting t" "v \<noteq> ESC"
  shows "canResumeHighlighting (fst (vt_feed v t))"
proof -
  obtain t1 p where p: "probe_step v t = (t1, p)" by (cases "probe_step v t")
  have "vt_st t1 = VtGround \<and> vt_alt t1 = False \<and> vt_sgr t1 = 0"
    using assms(1) probe_step_frame [of v t] p by (simp add: canResumeHighlighting_def)
  then show ?thesis using assms(2) by (simp add: vt_feed_def p vt_ground_def canResumeHighlighting_def)
qed

lemma vt_bytes_plain:
  "canResumeHighlighting t \<Longrightarrow> ESC \<notin> set s \<Longrightarrow> canResumeHighlighting (vt_bytes s t)"
  by (induction s arbitrary: t) (auto simp: vt_feed_plain)

end
