(* ===== verification/Highlight_Patterns.thy ===== *)
theory Highlight_Patterns
  imports Go_Regexp
begin

text \<open>
  The pattern tables of \<open>internal/cli/highlight\<close>: the built-in rules and prompt
  patterns of \<open>highlight.go\<close> and the interactive prompts of
  \<open>interactive_prompt.go\<close>, with the proof that every one of them compiles.
\<close>

datatype token_kind =
    TokenError | TokenWarning | TokenSuccess | TokenHeading | TokenField | TokenAddress | TokenNumber
  | TokenVersion | TokenTimestamp | TokenUnit | TokenString | TokenInfo | TokenDebug | TokenInterface
  | TokenDelimiter

definition quote :: string where "quote = [CHR 0x27]"
definition lsquo :: string where "lsquo = [CHR 0xE2, CHR 0x80, CHR 0x98]"
definition rsquo :: string where "rsquo = [CHR 0xE2, CHR 0x80, CHR 0x99]"
definition ldquo :: string where "ldquo = [CHR 0xE2, CHR 0x80, CHR 0x9C]"
definition rdquo :: string where "rdquo = [CHR 0xE2, CHR 0x80, CHR 0x9D]"

text \<open>The built-in rules: pattern, group, token kind, priority.\<close>

definition builtinRules :: "(string \<times> nat \<times> token_kind \<times> nat) list" where
  \<open>builtinRules = [
      (go_raw ''(?:^|[^[:alnum:]_])('' @ quote @ go_raw ''[^'' @ quote @ go_raw ''`r`n]*'' @ quote @ go_raw ''|"[^"`r`n]*"|'' @ ldquo @ go_raw ''[^'' @ rdquo @ go_raw ''`r`n]*'' @ rdquo @ go_raw ''|'' @ lsquo @ go_raw ''[^'' @ rsquo @ go_raw ''`r`n]*'' @ rsquo @ go_raw '')'', 1, TokenString, 160),
      (go_raw ''(?:`(|`)|`[|`]|`{|`})'', 0, TokenDelimiter, 150),
      (go_raw ''(?i)`b(?:fatal|panic|critical|abort|error|failed|failure|unable|denied|invalid|disabled|unknown)`b'', 0, TokenError, 120),
      (go_raw ''(?i)`bcan(?:[ `t]*not|['' @ quote @ rsquo @ go_raw '']t|[ `t]+n['' @ quote @ rsquo @ go_raw '']t)[ `t]+open`b'', 0, TokenError, 119),
      (go_raw ''(?i)`bnot[ `t]+properly`b'', 0, TokenError, 118),
      (go_raw ''(?i)`bno[ `t]+such`b'', 0, TokenError, 117),
      (go_raw ''(?i)`bcan(?:[ `t]*not|['' @ quote @ rsquo @ go_raw '']t|[ `t]+n['' @ quote @ rsquo @ go_raw '']t)`b'', 0, TokenError, 118),
      (go_raw ''(?i)`bnot`b[ `t]+(?:found|open|ready|available|connected|enabled|mounted|running|configured|valid)`b'', 0, TokenError, 116),
      (go_raw ''(?i)`bnot`b'', 0, TokenError, 115),
      (go_raw ''(?i)`bno`b'', 0, TokenError, 115),
      (go_raw ''(?i)`b(?:warn|warning|timeout|retry|skipped)`b'', 0, TokenWarning, 110),
      (go_raw ''(?i)`b(?:ok|ready|success|passed|connected|started|enabled|available)`b'', 0, TokenSuccess, 105),
      (go_raw ''`b(?:Jan|Feb|Mar|Apr|May|Jun|Jul|Aug|Sep|Oct|Nov|Dec)[ `t]+[0-9]{1,2}[ `t]+[0-9]{4}[ `t]+-[ `t]+[0-9]{2}:[0-9]{2}:[0-9]{2}(?:[ `t]+[+-][0-9]{4})?`b'', 0, TokenTimestamp, 130),
      (go_raw ''`b(?:(?:Mon|Tue|Wed|Thu|Fri|Sat|Sun)[ `t]+)?(?:Jan|Feb|Mar|Apr|May|Jun|Jul|Aug|Sep|Oct|Nov|Dec)[ `t]+[0-9]{1,2}[ `t]+[0-9]{2}:[0-9]{2}:[0-9]{2}(?:[ `t]+[A-Z]{2,5})?(?:[ `t]+[0-9]{4})?`b'', 0, TokenTimestamp, 130),
      (go_raw ''`b[0-9]{4}-[0-9]{2}-[0-9]{2}(?:[ T][0-9]{2}:[0-9]{2}:[0-9]{2}(?:Z|[+-][0-9]{2}:?[0-9]{2})?)?`b'', 0, TokenTimestamp, 129),
      (go_raw ''(?i)`b0x[0-9a-f]+`b'', 0, TokenAddress, 95),
      (go_raw ''(?i)`b0b[01]+`b'', 0, TokenNumber, 95),
      (go_raw ''(?i)`b0o[0-7]+`b'', 0, TokenNumber, 95),
      (go_raw ''(?i)`b[0-9]+'' @ quote @ go_raw ''[hbod][0-9a-f_xz]+`b'', 0, TokenNumber, 95),
      (go_raw ''`b[0-9A-Fa-f]{8,16}`b'', 0, TokenAddress, 92),
      (go_raw ''(?i)`bv?[0-9]+(?:`.[0-9]+){1,4}(?:[-+._][[:alnum:]-]+)*`b'', 0, TokenVersion, 90),
      (go_raw ''`[[ `t]*[0-9]+(?:`.[0-9]+)?`]'', 0, TokenTimestamp, 88),
      (go_raw ''`b[0-9]{2}:[0-9]{2}:[0-9]{2}`b|`b(?:Mon|Tue|Wed|Thu|Fri|Sat|Sun|Jan|Feb|Mar|Apr|May|Jun|Jul|Aug|Sep|Oct|Nov|Dec|UTC)`b|[+-][0-9]{4}`b'', 0, TokenTimestamp, 86),
      (go_raw ''(?i)`b(?:spi(?:-nor|flash)?|can|i2c|i2s|uart|serial|tty(?:ps|s)?|mmc(?:blk)?|sdhci|mtd|nand|nor|usb(?:core|hid|-storage)?|ehci|xhci|pcie?|gpio|alsa|ethernet|eth|macb|mdio|rgmii|phy|fpga|dmac?|adma|vdma|jtag|rtc|watchdog|wdt|scsi|sata|net|tcp|udp|ipv[46]|rpc|nfs|cpu|smp|srcu|rcu|gic|l2c|vfp|armv[4-9]|mips|riscv)`b'', 0, TokenInterface, 80),
      (go_raw ''(?i)`b(mmcblk|ttyps|ttys|sdhci|serial|pcie|uart|spi|can|i2c|i2s|tty|mmc|mtd|usb|ehci|xhci|pci|gpio|eth|mdio|fpga|dmac|dma|adma|vdma|rtc|cpu|armv)[0-9]'', 1, TokenInterface, 80),
      (go_raw ''(?i)[0-9]+(?:`.[0-9]+)?(?:e[+-]?[0-9]+)?'', 0, TokenNumber, 70),
      (go_raw ''(?i)`b(?:bytes?|KiB|MiB|GiB|KB|MB|GB|kB/s|MB/s|MHz|GHz|BogoMIPS|ms|ns|us|jiffies|bits?)`b'', 0, TokenUnit, 68),
      (go_raw ''^[ `t]*([[:alpha:]_][[:alnum:]_./ -]{0,30}:)'', 1, TokenField, 60),
      (go_raw ''(?i)`b(?:U-Boot|Linux version|Starting kernel|Booting Linux|Booting kernel|Loading Kernel Image|Loading Device Tree|Flattened Device Tree)`b'', 0, TokenHeading, 58),
      (go_raw ''`*`*`*'', 0, TokenHeading, 56),
      (go_raw ''##'', 0, TokenDelimiter, 56),
      (go_raw ''(?i)`b(?:info|notice)`b'', 0, TokenInfo, 40),
      (go_raw ''(?i)`b(?:debug|trace)`b'', 0, TokenDebug, 30)]\<close>

definition hl_promptSource :: string where
  "hl_promptSource = go_raw ''^(?:`[[0-9]{2}:[0-9]{2}:[0-9]{2}`][ `t]+)?(?:`([^)`r`n]+`)[ `t]+)?([A-Za-z0-9_.-]+)@([A-Za-z0-9_.-]+):([^ `t`r`n]+)([$#])[ `t]*''"

definition hl_promptPattern :: rx where "hl_promptPattern = regexp_MustCompile hl_promptSource"

definition minimalShellPromptSource :: string where
  "minimalShellPromptSource = go_raw ''^(?:`[[0-9]{2}:[0-9]{2}:[0-9]{2}`][ `t]+)?(?:(?:ba)?sh-[0-9]+(?:`.[0-9]+)*[$#]|/[ `t]+#|`[[A-Za-z0-9_.-]+@[A-Za-z0-9_.-]+[ `t]+[^ `t`r`n`]]+`][$#])(?:[ `t]+|$)''"

definition minimalShellPromptPattern :: rx where "minimalShellPromptPattern = regexp_MustCompile minimalShellPromptSource"

definition bootloaderPromptSource :: string where
  "bootloaderPromptSource = go_raw ''^(?:=>|[A-Za-z0-9_.-]+>)[ `t]+''"

definition bootloaderPromptPattern :: rx where "bootloaderPromptPattern = regexp_MustCompile bootloaderPromptSource"

definition HasBootloaderPromptPrefix :: "string \<Rightarrow> bool" where
  "HasBootloaderPromptPrefix line \<longleftrightarrow> rx_test bootloaderPromptPattern line"

definition interactivePromptPatterns :: "string list" where
  "interactivePromptPatterns = [
      go_raw ''^[$#>](?:[ `t]+|$)'',
      go_raw ''^(?:=>|(?:[A-Za-z0-9_.-]+[ `t]+)*U-Boot[ `t]*>|Zynq(?:MP)?[ `t]*>)'',
      go_raw ''^barebox@[^:`r`n]+:[^ `t`r`n]+(?:[ `t]+|$)'',
      go_raw ''^grub[ `t]+rescue>'',
      go_raw ''(?i)^fs[0-9]+:``[^>`r`n]*>'',
      go_raw ''^(?:[A-Za-z0-9_.-]+[ `t]+)?rommon[ `t]+(?:[0-9]+[ `t]*)?>'',
      go_raw ''^(?:uart|rtt|usb):[^ `t`r`n]*[$#](?:[ `t]+|$)'',
      go_raw ''^(?:msh|finsh)[ `t]+[^>`r`n]*>'',
      go_raw ''^(?:>>>|`.`.`.|===)(?:[ `t]+|$)'',
      go_raw ''(?i)^(?:(?:[A-Za-z0-9_.-]+[ `t]+)?login:|password:)(?:[ `t]+|$)'',
      go_raw ''^`(initramfs`)'',
      go_raw ''^`(gdb`)'']"

definition HasInteractivePromptPrefix :: "string \<Rightarrow> bool" where
  "HasInteractivePromptPrefix line \<longleftrightarrow>
     HasBootloaderPromptPrefix line \<or>
     list_ex (\<lambda>pattern. rx_test (regexp_MustCompile pattern) line) interactivePromptPatterns"

section \<open>Every pattern compiles\<close>

text \<open>So no \<open>MustCompile\<close> of the package panics when it is initialised.\<close>

definition compiles :: "string \<Rightarrow> bool" where
  "compiles p \<longleftrightarrow> regexp_compile p \<noteq> None"

lemma rules_compile_1: "list_all (\<lambda>(p, r). compiles p) (take 10 builtinRules)"
  by code_simp

lemma rules_compile_2: "list_all (\<lambda>(p, r). compiles p) (take 4 (drop 10 builtinRules))"
  by code_simp

lemma rules_compile_3: "list_all (\<lambda>(p, r). compiles p) (take 8 (drop 14 builtinRules))"
  by code_simp

lemma rules_compile_4: "list_all (\<lambda>(p, r). compiles p) (take 2 (drop 22 builtinRules))"
  by code_simp

lemma rules_compile_5: "list_all (\<lambda>(p, r). compiles p) (drop 24 builtinRules)"
  by code_simp

lemma interactive_patterns_compile: "list_all compiles interactivePromptPatterns"
  by code_simp

lemma prompt_patterns_compile: "list_all compiles [hl_promptSource, minimalShellPromptSource, bootloaderPromptSource]"
  by code_simp

end
