(* ===== verification/Highlight.thy ===== *)
theory Highlight
  imports Highlight_VT Highlight_Patterns "HOL-Library.Product_Lexorder"
begin

text \<open>
  \<open>internal/cli/highlight/highlight.go\<close> and \<open>interactive_prompt.go\<close>: the local,
  presentation-only renderer that inserts ANSI styles into terminal output. The
  output writer is a scripted sink, the colour sequences of the third-party
  \<open>termenv\<close> package are a parameter of the theme; everything else, the built-in
  rules with their patterns included, is as in the code.
\<close>

section \<open>The output writer\<close>

text \<open>
  \<open>io.Writer\<close> as a script: each \<open>Write\<close> call takes the next answer, the number of
  bytes it accepted and its error; a sink whose script has ended accepts everything.
\<close>

record sink =
  delivered :: string
  answers :: "(nat \<times> goerr option) list"

definition sink_write :: "string \<Rightarrow> sink \<Rightarrow> (nat \<times> goerr option) \<times> sink" where
  "sink_write p w =
     (case answers w of
        [] \<Rightarrow> ((length p, None), w\<lparr>delivered := delivered w @ p\<rparr>)
      | (n, e) # as \<Rightarrow> ((n, e), w\<lparr>delivered := delivered w @ take n p, answers := as\<rparr>))"

text \<open>\<open>writeAll\<close>, with its clamp of an over-reported count.\<close>

function hl_writeAll :: "string \<Rightarrow> sink \<Rightarrow> goerr option \<times> sink" where
  "hl_writeAll d w =
     (if d = [] then (None, w)
      else case sink_write d w of
        ((n, e), w1) \<Rightarrow>
          let n1 = min n (length d)
          in (case e of
                Some err \<Rightarrow> (Some err, w1)
              | None \<Rightarrow> if n1 = 0 then (Some IoErrShortWrite, w1) else hl_writeAll (drop n1 d) w1))"
  by pat_completeness auto
termination by (relation "measure (\<lambda>(d, w). length d)") auto

declare hl_writeAll.simps [simp del]

lemma hl_writeAll_ok:
  "hl_writeAll d w = (None, w') \<Longrightarrow> delivered w' = delivered w @ d"
proof (induction d w rule: hl_writeAll.induct)
  case (1 d w)
  show ?case
  proof (cases "d = []")
    case True
    then show ?thesis using "1.prems" by (simp add: hl_writeAll.simps)
  next
    case False
    obtain n e w1 where s: "sink_write d w = ((n, e), w1)" by (metis surj_pair)
    have e: "e = None" and n: "min n (length d) \<noteq> 0"
      and r: "hl_writeAll (drop (min n (length d)) d) w1 = (None, w')"
      using "1.prems" False s by (auto simp: hl_writeAll.simps [of d w] Let_def split: option.splits if_splits)
    have "delivered w1 = delivered w @ take n d"
      using s e by (auto simp: sink_write_def split: list.splits prod.splits)
    moreover have "delivered w' = delivered w1 @ drop (min n (length d)) d"
      using "1.IH" [OF False s [symmetric] refl refl e n r] .
    ultimately show ?thesis by (simp add: min_def)
  qed
qed

text \<open>A sink without a script never fails.\<close>

lemma hl_writeAll_perfect:
  "answers w = [] \<Longrightarrow> hl_writeAll d w = (None, w\<lparr>delivered := delivered w @ d\<rparr>)"
  by (cases "d = []") (simp_all add: hl_writeAll.simps [of d w] hl_writeAll.simps [of "[]"] sink_write_def)

section \<open>Theme\<close>

datatype profile = TrueColor | ANSI256 | ANSI | Ascii

record theme =
  th_styles :: "token_kind \<Rightarrow> string"
  promptUser :: string
  promptHost :: string
  promptPath :: string

definition styleReset :: string where "styleReset = ESC # ''[0m''"

text \<open>
  \<open>profile.Color(hex).Sequence(false)\<close> is \<open>termenv\<close>'s: \<open>None\<close> is its nil colour.
\<close>

type_synonym color_seq = "profile \<Rightarrow> string \<Rightarrow> string option"

definition colorStyle :: "color_seq \<Rightarrow> profile \<Rightarrow> string \<Rightarrow> string" where
  "colorStyle color p hex =
     (case color p hex of
        None \<Rightarrow> []
      | Some sequence \<Rightarrow> if sequence = [] then [] else ESC # ''['' @ sequence @ ''m'')"

definition ansiPaletteStyle :: "profile \<Rightarrow> nat \<Rightarrow> string" where
  "ansiPaletteStyle p code = (if p = Ascii then [] else ESC # ''['' @ format_nat code @ ''m'')"

definition delimiterStyle :: "color_seq \<Rightarrow> profile \<Rightarrow> string" where
  "delimiterStyle color p =
     (if p = TrueColor then ESC # ''[38;2;109;177;41m'' else colorStyle color p ''#6DB129'')"

definition newTheme :: "color_seq \<Rightarrow> profile \<Rightarrow> theme" where
  "newTheme color p =
     (let numberStyle = colorStyle color p ''#AF87FF''; errorStyle = colorStyle color p ''#FF5F5F''
      in \<lparr>th_styles = (\<lambda>k. case k of
              TokenError \<Rightarrow> errorStyle
            | TokenWarning \<Rightarrow> errorStyle
            | TokenSuccess \<Rightarrow> colorStyle color p ''#5FFF87''
            | TokenHeading \<Rightarrow> colorStyle color p ''#CBA94B''
            | TokenField \<Rightarrow> colorStyle color p ''#569CD6''
            | TokenAddress \<Rightarrow> numberStyle
            | TokenNumber \<Rightarrow> numberStyle
            | TokenVersion \<Rightarrow> numberStyle
            | TokenTimestamp \<Rightarrow> colorStyle color p ''#87D7AF''
            | TokenUnit \<Rightarrow> colorStyle color p ''#CBA94B''
            | TokenString \<Rightarrow> colorStyle color p ''#CBA94B''
            | TokenInfo \<Rightarrow> colorStyle color p ''#5FD7FF''
            | TokenDebug \<Rightarrow> ansiPaletteStyle p 95
            | TokenInterface \<Rightarrow> colorStyle color p ''#4EC9B0''
            | TokenDelimiter \<Rightarrow> delimiterStyle color p),
          promptUser = ansiPaletteStyle p 31,
          promptHost = ansiPaletteStyle p 36,
          promptPath = ansiPaletteStyle p 94\<rparr>)"

section \<open>Matches and their rendering\<close>

record hl_match =
  m_start :: nat
  m_end :: nat
  m_style :: string
  m_priority :: nat

text \<open>
  \<open>sort.Slice\<close> by falling priority, rising start, falling end. Go leaves the order of
  equal keys open; equal keys have equal ranges, and the rules give them one style.
\<close>

definition match_key :: "hl_match \<Rightarrow> int \<times> int \<times> int" where
  "match_key m = (- int (m_priority m), int (m_start m), - int (m_end m))"

text \<open>The part of a fragment that a blocker leaves, as its left and right remainders.\<close>

definition subtract_one :: "hl_match \<Rightarrow> hl_match \<Rightarrow> hl_match list" where
  "subtract_one blocker fragment =
     (if m_end fragment \<le> m_start blocker \<or> m_end blocker \<le> m_start fragment then [fragment]
      else (if m_start fragment < m_start blocker then [fragment\<lparr>m_end := m_start blocker\<rparr>] else []) @
           (if m_end blocker < m_end fragment then [fragment\<lparr>m_start := m_end blocker\<rparr>] else []))"

fun uncovered_loop :: "hl_match list \<Rightarrow> hl_match list \<Rightarrow> hl_match list" where
  "uncovered_loop fragments [] = fragments"
| "uncovered_loop fragments (blocker # bs) =
     (let nxt = concat (map (subtract_one blocker) fragments)
      in if nxt = [] then [] else uncovered_loop nxt bs)"

definition uncoveredMatchFragments :: "hl_match \<Rightarrow> hl_match list \<Rightarrow> hl_match list" where
  "uncoveredMatchFragments candidate selected = uncovered_loop [candidate] selected"

definition select_match :: "hl_match \<Rightarrow> hl_match list \<Rightarrow> hl_match list" where
  "select_match candidate selected =
     (if m_start candidate = m_end candidate \<or> m_style candidate = [] then selected
      else selected @ uncoveredMatchFragments candidate selected)"

text \<open>The slices of the final loop; \<open>line[a:b]\<close> is \<open>slice line a b\<close>.\<close>

definition slice :: "string \<Rightarrow> nat \<Rightarrow> nat \<Rightarrow> string" where
  "slice line a b = take (b - a) (drop a line)"

fun render_loop :: "string \<Rightarrow> nat \<Rightarrow> hl_match list \<Rightarrow> string" where
  "render_loop line nxt [] = drop nxt line"
| "render_loop line nxt (c # cs) =
     slice line nxt (m_start c) @ m_style c @ slice line (m_start c) (m_end c) @ styleReset @
     render_loop line (m_end c) cs"

definition renderMatches :: "string \<Rightarrow> hl_match list \<Rightarrow> string" where
  "renderMatches line matches =
     (if matches = [] then line
      else let selected = fold select_match (sort_key match_key matches) []
           in render_loop line 0 (sort_key m_start selected))"

definition rule_matches :: "string \<Rightarrow> theme \<Rightarrow> string \<times> nat \<times> token_kind \<times> nat \<Rightarrow> hl_match list" where
  "rule_matches line colors = (\<lambda>(pattern, group, kind, priority).
     concat (map (\<lambda>m. case group_range m group of
                        None \<Rightarrow> []
                      | Some (a, b) \<Rightarrow>
                          if a = b then []
                          else [\<lparr>m_start = a, m_end = b, m_style = th_styles colors kind, m_priority = priority\<rparr>])
       (find_all (regexp_MustCompile pattern) line 0 None)))"

definition renderText :: "string \<Rightarrow> theme \<Rightarrow> string" where
  "renderText line colors = renderMatches line (concat (map (rule_matches line colors) builtinRules))"

text \<open>All four groups of the prompt pattern take part in every match.\<close>

definition renderPrompt :: "theme \<Rightarrow> string \<Rightarrow> string option" where
  "renderPrompt th line =
     (case find_from hl_promptPattern line 0 of
        None \<Rightarrow> if rx_test minimalShellPromptPattern line then Some line else None
      | Some index \<Rightarrow>
          Some (renderMatches line
            (concat (map (\<lambda>(g, st). case group_range index g of
                             None \<Rightarrow> []
                           | Some (a, b) \<Rightarrow> [\<lparr>m_start = a, m_end = b, m_style = st, m_priority = 1\<rparr>])
              [(1, promptUser th), (2, promptHost th), (3, promptPath th), (4, promptUser th)]))))"

section \<open>Lines\<close>

text \<open>\<open>splitLineEnding\<close>: the line feed with the carriage returns before it.\<close>

definition splitLineEnding :: "string \<Rightarrow> string \<times> string" where
  "splitLineEnding line =
     (if has_suffix line [CHR 0x0A]
      then let content = rev (dropWhile (\<lambda>c. c = CHR 0x0D) (rev (butlast line)))
           in (content, drop (length content) line)
      else (line, []))"

text \<open>
  The loop of \<open>containsScreenControl\<close>: a run of carriage returns is accepted only
  directly before a line feed, which is then skipped with it or on the next turn.
\<close>

fun screen_control_loop :: "string \<Rightarrow> bool" where
  "screen_control_loop [] = False"
| "screen_control_loop (v # rest) =
     (if v = CHR 0x09 \<or> v = CHR 0x0A then screen_control_loop rest
      else if v = CHR 0x0D
      then (case rest of
              [] \<Rightarrow> True
            | w # _ \<Rightarrow> if w = CHR 0x0D \<or> w = CHR 0x0A then screen_control_loop rest else True)
      else if (of_char v :: nat) < 0x20 \<or> v = CHR 0x7F then True
      else screen_control_loop rest)"

definition containsScreenControl :: "string \<Rightarrow> bool" where
  "containsScreenControl data \<longleftrightarrow> \<not> utf8_valid data \<or> screen_control_loop data"

section \<open>The renderer\<close>

definition maxPendingBytes :: nat where "maxPendingBytes = 8 * 1024"

record renderer =
  hl_out :: sink
  hl_pending :: string
  hl_raw :: bool
  hl_vtp :: bool
  hl_vt :: vt_tracker
  hl_theme :: theme

text \<open>A nil output is \<open>io.Discard\<close>, a sink that accepts everything.\<close>

definition newRenderer :: "color_seq \<Rightarrow> sink option \<Rightarrow> profile option \<Rightarrow> renderer" where
  "newRenderer color out profile =
     \<lparr>hl_out = (case out of None \<Rightarrow> \<lparr>delivered = [], answers = []\<rparr> | Some w \<Rightarrow> w),
      hl_pending = [], hl_raw = False, hl_vtp = False, hl_vt = zero_vt,
      hl_theme = newTheme color (case profile of None \<Rightarrow> TrueColor | Some p \<Rightarrow> p)\<rparr>"

definition hl_writeLine :: "theme \<Rightarrow> string \<Rightarrow> bool \<Rightarrow> sink \<Rightarrow> goerr option \<times> sink" where
  "hl_writeLine th line raw w =
     (if raw \<or> containsScreenControl line \<or> HasInteractivePromptPrefix line then hl_writeAll line w
      else let (content, ending) = splitLineEnding line
           in case renderPrompt th content of
                Some rendered \<Rightarrow>
                  (case hl_writeAll rendered w of
                     (Some e, w1) \<Rightarrow> (Some e, w1)
                   | (None, w1) \<Rightarrow> hl_writeAll ending w1)
              | None \<Rightarrow> hl_writeAll (renderText line th) w)"

text \<open>Writing the whole pending buffer and clearing it, as several branches do.\<close>

definition hl_release :: "renderer \<Rightarrow> goerr option \<times> renderer" where
  "hl_release r =
     (case hl_writeAll (hl_pending r) (hl_out r) of
        (Some e, w) \<Rightarrow> (Some e, r\<lparr>hl_out := w\<rparr>)
      | (None, w) \<Rightarrow> (None, r\<lparr>hl_out := w, hl_pending := []\<rparr>))"

text \<open>The part of \<open>drain\<close> behind the newline branch: no line feed is pending.\<close>

definition drain_partial :: "renderer \<Rightarrow> goerr option \<times> renderer" where
  "drain_partial r =
     (if \<not> hl_raw r \<and> last (hl_pending r) = CHR 0x0D then (None, r)
      else if hl_raw r \<or> containsScreenControl (hl_pending r) \<or> length (hl_pending r) > maxPendingBytes
      then hl_release r
      else if HasInteractivePromptPrefix (hl_pending r)
      then (case hl_release r of (Some e, r1) \<Rightarrow> (Some e, r1) | (None, r1) \<Rightarrow> (None, r1\<lparr>hl_raw := True\<rparr>))
      else case renderPrompt (hl_theme r) (hl_pending r) of
        Some rendered \<Rightarrow>
          (case hl_writeAll rendered (hl_out r) of
             (Some e, w) \<Rightarrow> (Some e, r\<lparr>hl_out := w\<rparr>)
           | (None, w) \<Rightarrow> (None, r\<lparr>hl_out := w, hl_pending := [], hl_raw := True\<rparr>))
      | None \<Rightarrow> (None, r))"

function hl_drain :: "renderer \<Rightarrow> goerr option \<times> renderer" where
  "hl_drain r =
     (if hl_pending r = [] then (None, r)
      else case str_index (hl_pending r) [CHR 0x0A] of
        Some newline \<Rightarrow>
          (case hl_writeLine (hl_theme r) (take (newline + 1) (hl_pending r)) (hl_raw r) (hl_out r) of
             (Some e, w) \<Rightarrow> (Some e, r\<lparr>hl_out := w\<rparr>)
           | (None, w) \<Rightarrow>
               hl_drain (r\<lparr>hl_out := w, hl_pending := drop (newline + 1) (hl_pending r), hl_raw := False\<rparr>))
      | None \<Rightarrow> drain_partial r)"
  by pat_completeness auto
termination by (relation "measure (\<lambda>r. length (hl_pending r))") auto

declare hl_drain.simps [simp del]

text \<open>The scan of \<open>writeVTPassthrough\<close>: bytes consumed, and whether to resume.\<close>

fun vt_scan :: "string \<Rightarrow> vt_tracker \<Rightarrow> nat \<Rightarrow> vt_tracker \<times> nat \<times> bool" where
  "vt_scan [] t n = (t, n, False)"
| "vt_scan (v # p) t n =
     (let (t1, signal) = vt_feed v t
      in if signal \<or> v = CHR 0x0A \<and> canResumeHighlighting t1 then (t1, n + 1, True)
         else vt_scan p t1 (n + 1))"

definition writeVTPassthrough :: "renderer \<Rightarrow> string \<Rightarrow> (goerr + nat) \<times> renderer" where
  "writeVTPassthrough r p =
     (let (t, consumed, resume) = vt_scan p (hl_vt r) 0
      in case hl_writeAll (take consumed p) (hl_out r) of
           (Some e, w) \<Rightarrow> (Inl e, r\<lparr>hl_vt := t, hl_out := w\<rparr>)
         | (None, w) \<Rightarrow>
             (Inr consumed, r\<lparr>hl_vt := t, hl_out := w, hl_vtp := (if resume then False else hl_vtp r)\<rparr>))"

lemma vt_scan_bound: "vt_scan p t n = (t', m, b) \<Longrightarrow> n \<le> m \<and> m \<le> n + length p \<and> (p \<noteq> [] \<longrightarrow> n < m)"
proof (induction p arbitrary: t n)
  case (Cons v p)
  obtain t1 signal where f: "vt_feed v t = (t1, signal)" by (cases "vt_feed v t")
  show ?case
  proof (cases "signal \<or> v = CHR 0x0A \<and> canResumeHighlighting t1")
    case True
    then show ?thesis using Cons.prems f by simp
  next
    case False
    then have "vt_scan p t1 (n + 1) = (t', m, b)" using Cons.prems f by (auto split: if_splits)
    from Cons.IH [OF this] show ?thesis by auto
  qed
qed simp

lemma passthrough_consumes:
  "writeVTPassthrough r p = (Inr n, r') \<Longrightarrow> p \<noteq> [] \<Longrightarrow> 0 < n \<and> n \<le> length p"
  by (auto simp: writeVTPassthrough_def dest!: vt_scan_bound split: prod.splits option.splits)

text \<open>\<open>Write\<close>: what it does up to the first escape, and its loop over the segments.\<close>

definition write_plain :: "renderer \<Rightarrow> string \<Rightarrow> goerr option \<times> renderer" where
  "write_plain r p = hl_drain (r\<lparr>hl_vt := vt_bytes p (hl_vt r), hl_pending := hl_pending r @ p\<rparr>)"

function hl_write_loop :: "renderer \<Rightarrow> string \<Rightarrow> goerr option \<times> renderer" where
  "hl_write_loop r p =
     (if p = [] then (None, r)
      else if hl_vtp r
      then (case writeVTPassthrough r p of
              (Inl e, r1) \<Rightarrow> (Some e, r1)
            | (Inr consumed, r1) \<Rightarrow> hl_write_loop r1 (drop consumed p))
      else case str_index p [ESC] of
        None \<Rightarrow> write_plain r p
      | Some escape \<Rightarrow>
          (case write_plain r (take escape p) of
             (Some e, r1) \<Rightarrow> (Some e, r1)
           | (None, r1) \<Rightarrow>
               (case (if hl_pending r1 \<noteq> [] then hl_release r1 else (None, r1)) of
                  (Some e, r2) \<Rightarrow> (Some e, r2)
                | (None, r2) \<Rightarrow> hl_write_loop (r2\<lparr>hl_raw := False, hl_vtp := True\<rparr>) (drop escape p))))"
  by pat_completeness auto
termination
proof (relation "measure (\<lambda>(r, p). 2 * length p + (if hl_vtp r then 0 else 1))", goal_cases)
  case (2 r p x y n)
  then have "writeVTPassthrough r p = (Inr n, y)" by simp
  from passthrough_consumes [OF this 2(1)] 2(2) show ?case by (simp, linarith)
next
  case (3 r p escape x y x' y')
  have "length (drop escape p) \<le> length p" by simp
  then show ?case using 3(2) by simp
qed simp

declare hl_write_loop.simps [simp del]

text \<open>\<open>Write\<close> answers the length of its input, or 0 with the error.\<close>

definition hl_Write :: "renderer \<Rightarrow> string \<Rightarrow> (nat \<times> goerr option) \<times> renderer" where
  "hl_Write r p =
     (case hl_write_loop r p of
        (Some e, r1) \<Rightarrow> ((0, Some e), r1)
      | (None, r1) \<Rightarrow> ((length p, None), r1))"

definition hl_Flush :: "renderer \<Rightarrow> goerr option \<times> renderer" where
  "hl_Flush r =
     (case (if hl_pending r \<noteq> [] then hl_release r else (None, r)) of
        (Some e, r1) \<Rightarrow> (Some e, r1)
      | (None, r1) \<Rightarrow> (None, r1\<lparr>hl_raw := False, hl_vt := (hl_vt r1)\<lparr>vt_text := False\<rparr>\<rparr>))"

definition hl_ReleasePending :: "renderer \<Rightarrow> goerr option \<times> renderer" where
  "hl_ReleasePending r =
     (if hl_pending r = [] then (None, r)
      else case hl_release r of
        (Some e, r1) \<Rightarrow> (Some e, r1)
      | (None, r1) \<Rightarrow> (None, r1\<lparr>hl_raw := True\<rparr>))"

end
