(* ===== verification/Highlight_Safety.thy ===== *)
theory Highlight_Safety
  imports Highlight "HOL-Library.Multiset"
begin

text \<open>
  What the highlighter promises. Its output is the remote text with emphasis
  inserted: segments of the input, each alone or between one theme style and the
  reset sequence. Styling one line gives every byte to the highest-priority match
  that covers it. The tracker sees every byte once, and highlighting is active
  only in its safe state.
\<close>

section \<open>Presented text\<close>

type_synonym segment = "string option \<times> string"

fun emit :: "segment \<Rightarrow> string" where
  "emit (None, tx) = tx"
| "emit (Some st, tx) = st @ tx @ styleReset"

definition theme_styles :: "theme \<Rightarrow> string set" where
  "theme_styles th = range (th_styles th) \<union> {promptUser th, promptHost th, promptPath th}"

text \<open>An emphasised segment is not empty and its style is one of the theme's.\<close>

fun seg_ok :: "string set \<Rightarrow> segment \<Rightarrow> bool" where
  "seg_ok S (None, tx) = True"
| "seg_ok S (Some st, tx) = (st \<in> S \<and> st \<noteq> [] \<and> tx \<noteq> [])"

definition presents :: "theme \<Rightarrow> string \<Rightarrow> string \<Rightarrow> bool" where
  "presents th out inp \<longleftrightarrow>
     (\<exists>segs. list_all (seg_ok (theme_styles th)) segs \<and> out = concat (map emit segs) \<and> inp = concat (map snd segs))"

lemma presents_append:
  assumes "presents th a x" "presents th b y" shows "presents th (a @ b) (x @ y)"
proof -
  obtain s1 s2 where "list_all (seg_ok (theme_styles th)) s1" "a = concat (map emit s1)" "x = concat (map snd s1)"
    "list_all (seg_ok (theme_styles th)) s2" "b = concat (map emit s2)" "y = concat (map snd s2)"
    using assms unfolding presents_def by blast
  then show ?thesis unfolding presents_def by (intro exI [of _ "s1 @ s2"]) simp
qed

lemma presents_raw [simp]: "presents th a a"
  unfolding presents_def by (intro exI [of _ "[(None, a)]"]) simp

lemma presents_raw_append: "presents th a x \<Longrightarrow> presents th (a @ y) (x @ y)"
  by (rule presents_append) simp_all

section \<open>Ownership\<close>

definition covers :: "nat \<Rightarrow> hl_match \<Rightarrow> bool" where
  "covers i m \<longleftrightarrow> m_start m \<le> i \<and> i < m_end m"

definition proper :: "hl_match \<Rightarrow> bool" where
  "proper m \<longleftrightarrow> m_start m < m_end m"

text \<open>The styles at offset \<open>i\<close>, in list order.\<close>

definition styles_at :: "hl_match list \<Rightarrow> nat \<Rightarrow> string list" where
  "styles_at ms i = map m_style (filter (covers i) ms)"

lemma styles_at_simps [simp]:
  "styles_at [] i = []" "styles_at (a @ b) i = styles_at a i @ styles_at b i"
  by (simp_all add: styles_at_def)

lemma subtract_one_styles:
  assumes "proper b" "proper f"
  shows "styles_at (subtract_one b f) i = (if covers i b then [] else styles_at [f] i)"
  using assms by (auto simp: subtract_one_def styles_at_def covers_def proper_def)

lemma subtract_one_parts:
  assumes "proper b" "proper f" "x \<in> set (subtract_one b f)"
  shows "proper x \<and> m_style x = m_style f \<and> m_start f \<le> m_start x \<and> m_end x \<le> m_end f"
  using assms by (auto simp: subtract_one_def proper_def split: if_splits)

lemma subtract_all_styles:
  assumes "proper b" "list_all proper fs"
  shows "styles_at (concat (map (subtract_one b) fs)) i = (if covers i b then [] else styles_at fs i)"
  using assms(2)
proof (induction fs)
  case (Cons f fs)
  then show ?case using subtract_one_styles [OF assms(1), of f i] by (simp add: styles_at_def)
qed simp

definition within :: "hl_match \<Rightarrow> hl_match \<Rightarrow> bool" where
  "within c x \<longleftrightarrow> proper x \<and> m_style x = m_style c \<and> m_start c \<le> m_start x \<and> m_end x \<le> m_end c"

lemma subtract_all_within:
  assumes "proper b" "list_all (within c) fs"
  shows "list_all (within c) (concat (map (subtract_one b) fs))"
  using assms subtract_one_parts [OF assms(1)] by (fastforce simp: list_all_iff within_def)

lemma within_proper: "list_all (within c) fs \<Longrightarrow> list_all proper fs"
  by (auto simp: list_all_iff within_def)

lemma uncovered_loop_spec:
  assumes "list_all proper bs" "list_all (within c) fs"
  shows "styles_at (uncovered_loop fs bs) i = (if list_ex (covers i) bs then [] else styles_at fs i) \<and>
         list_all (within c) (uncovered_loop fs bs)"
  using assms
proof (induction fs bs rule: uncovered_loop.induct)
  case (2 fs b bs)
  let ?n = "concat (map (subtract_one b) fs)"
  have w: "list_all (within c) ?n" using 2 by (intro subtract_all_within) auto
  have s: "styles_at ?n i = (if covers i b then [] else styles_at fs i)"
    using 2 by (intro subtract_all_styles) (auto dest: within_proper)
  show ?case
  proof (cases "?n = []")
    case True
    then have "styles_at ?n i = styles_at [] i" by (rule arg_cong)
    then have "covers i b \<or> styles_at fs i = []" using s by (metis styles_at_simps(1))
    moreover have "uncovered_loop fs (b # bs) = []" using True by (simp del: concat_eq_Nil_conv)
    ultimately show ?thesis by auto
  next
    case False
    have "list_all proper bs" using "2.prems"(1) by simp
    from "2.IH" [OF refl False this w] show ?thesis using False s by (simp del: concat_eq_Nil_conv)
  qed
qed simp

lemma select_match_spec:
  assumes "list_all proper sel" "m_start c \<le> m_end c"
  shows "styles_at (select_match c sel) i =
      (if styles_at sel i \<noteq> [] then styles_at sel i
       else if m_style c \<noteq> [] \<and> covers i c then [m_style c] else []) \<and>
    list_all (\<lambda>x. x \<in> set sel \<or> within c x \<and> m_style c \<noteq> []) (select_match c sel)"
proof (cases "m_start c = m_end c \<or> m_style c = []")
  case True
  then show ?thesis by (auto simp: select_match_def covers_def list_all_iff)
next
  case False
  then have c: "list_all (within c) [c]" using assms(2) by (auto simp: within_def proper_def)
  have e: "list_ex (covers i) sel \<longleftrightarrow> styles_at sel i \<noteq> []"
    by (auto simp: styles_at_def list_ex_iff filter_empty_conv)
  show ?thesis
    using uncovered_loop_spec [OF assms(1) c, of i] False e
    by (auto simp: select_match_def uncoveredMatchFragments_def list_all_iff)
       (auto simp: styles_at_def)
qed

definition match_ok :: "nat \<Rightarrow> hl_match \<Rightarrow> bool" where
  "match_ok n m \<longleftrightarrow> m_start m \<le> m_end m \<and> m_end m \<le> n"

lemma select_all_spec:
  assumes "list_all (match_ok n) cs" "list_all (\<lambda>x. proper x \<and> m_end x \<le> n \<and> m_style x \<in> S - {[]}) sel"
    and "m_style ` set cs \<subseteq> S"
  shows "styles_at (fold select_match cs sel) i =
      (if styles_at sel i \<noteq> [] then styles_at sel i
       else take 1 (styles_at (filter (\<lambda>m. m_style m \<noteq> []) cs) i)) \<and>
    list_all (\<lambda>x. proper x \<and> m_end x \<le> n \<and> m_style x \<in> S - {[]}) (fold select_match cs sel)"
  using assms
proof (induction cs arbitrary: sel)
  case (Cons c cs)
  have p: "list_all proper sel" "m_start c \<le> m_end c" using Cons.prems by (auto simp: list_all_iff match_ok_def)
  note sp = select_match_spec [OF p, of i]
  have "list_all (\<lambda>x. proper x \<and> m_end x \<le> n \<and> m_style x \<in> S - {[]}) (select_match c sel)"
    using sp Cons.prems by (fastforce simp: list_all_iff within_def match_ok_def)
  from Cons.IH [OF _ this] Cons.prems sp show ?case
    by (auto simp: styles_at_def)
qed simp

text \<open>The reference: the style of the first match in priority order that covers the byte.\<close>

definition owner :: "hl_match list \<Rightarrow> nat \<Rightarrow> string option" where
  "owner ms i = map_option m_style (find (\<lambda>m. m_style m \<noteq> [] \<and> covers i m) (sort_key match_key ms))"

definition head_style :: "string list \<Rightarrow> string option" where
  "head_style xs = (case xs of [] \<Rightarrow> None | x # _ \<Rightarrow> Some x)"

lemma find_head: "map_option g (find P xs) = head_style (map g (filter P xs))"
  by (induction xs) (auto simp: head_style_def)

text \<open>What a reader sees: every byte with the style it is shown in.\<close>

definition seg_view :: "segment list \<Rightarrow> (byte \<times> string option) list" where
  "seg_view segs = concat (map (\<lambda>(st, tx). map (\<lambda>c. (c, st)) tx) segs)"

lemma seg_view_simps [simp]:
  "seg_view [] = []" "seg_view ((st, tx) # segs) = map (\<lambda>c. (c, st)) tx @ seg_view segs"
  by (simp_all add: seg_view_def)

lemma seg_view_text: "concat (map snd segs) = map fst (seg_view segs)"
  by (induction segs) (auto simp: comp_def)

definition marked :: "string \<Rightarrow> hl_match list \<Rightarrow> nat \<Rightarrow> byte \<times> string option" where
  "marked line ms i = (line ! i, head_style (styles_at ms i))"

lemma slice_map:
  "b \<le> length line \<Longrightarrow> slice line a b = map ((!) line) [a..<b]"
  by (rule nth_equalityI) (auto simp: slice_def)

lemma render_loop_spec:
  assumes "sorted (map m_start ms)" "list_all (\<lambda>x. proper x \<and> m_end x \<le> length line \<and> m_style x \<in> S - {[]}) ms"
    and "\<And>i. length (styles_at ms i) \<le> 1" "\<And>m. m \<in> set ms \<Longrightarrow> nxt \<le> m_start m" "nxt \<le> length line"
  shows "\<exists>segs. render_loop line nxt ms = concat (map emit segs) \<and> list_all (seg_ok S) segs \<and>
    seg_view segs = map (marked line ms) [nxt..<length line]"
  using assms
proof (induction ms arbitrary: nxt)
  case Nil
  have "drop nxt line = map ((!) line) [nxt..<length line]"
    by (metis map_nth drop_map drop_upt add_0)
  then show ?case
    by (intro exI [of _ "[(None, drop nxt line)]"]) (auto simp: marked_def head_style_def)
next
  case (Cons c cs)
  have c: "m_start c < m_end c" "m_end c \<le> length line" "nxt \<le> m_start c" "m_style c \<in> S" "m_style c \<noteq> []"
    using Cons.prems by (auto simp: proper_def)
  have later: "m_end c \<le> m_start m" if m: "m \<in> set cs" for m
  proof (rule ccontr)
    assume "\<not> m_end c \<le> m_start m"
    then have cov: "covers (m_start m) c" "covers (m_start m) m"
      using Cons.prems(1,2) m by (auto simp: covers_def proper_def list_all_iff)
    then have "styles_at cs (m_start m) \<noteq> []" using m by (auto simp: styles_at_def filter_empty_conv)
    moreover have "styles_at (c # cs) (m_start m) = m_style c # styles_at cs (m_start m)"
      using cov(1) by (simp add: styles_at_def)
    ultimately show False using Cons.prems(3) [of "m_start m"] by (cases "styles_at cs (m_start m)") auto
  qed
  have one: "length (styles_at cs i) \<le> 1" for i
    using Cons.prems(3) [of i] by (auto simp: styles_at_def split: if_splits)
  obtain segs where s: "render_loop line (m_end c) cs = concat (map emit segs)" "list_all (seg_ok S) segs"
    "seg_view segs = map (marked line cs) [m_end c..<length line]"
    using Cons.IH [of "m_end c"] Cons.prems(1,2) one later c by auto
  have none: "styles_at (c # cs) i = []" if "nxt \<le> i" "i < m_start c" for i
    using that later c by (force simp: styles_at_def filter_empty_conv covers_def)
  have inside: "styles_at (c # cs) i = [m_style c]" if "m_start c \<le> i" "i < m_end c" for i
    using that later by (force simp: styles_at_def filter_empty_conv covers_def)
  have after: "styles_at (c # cs) i = styles_at cs i" if "m_end c \<le> i" for i
    using that by (simp add: styles_at_def covers_def)
  have split: "[nxt..<length line] = [nxt..<m_start c] @ [m_start c..<m_end c] @ [m_end c..<length line]"
    using c by (metis upt_add_eq_append le_add_diff_inverse less_imp_le order_trans)
  have "seg_view ((None, slice line nxt (m_start c)) # (Some (m_style c), slice line (m_start c) (m_end c)) # segs) =
      map (marked line (c # cs)) [nxt..<length line]"
    using c s(3) none inside after by (simp add: split slice_map marked_def head_style_def)
  moreover have "slice line (m_start c) (m_end c) \<noteq> []" using c by (simp add: slice_def)
  ultimately show ?case using s c
    by (intro exI [of _ "(None, slice line nxt (m_start c)) # (Some (m_style c), slice line (m_start c) (m_end c)) # segs"]) auto
qed

lemma styles_at_sort:
  assumes "length (styles_at ms i) \<le> 1"
  shows "styles_at (sort_key f ms) i = styles_at ms i"
proof -
  have "mset (styles_at (sort_key f ms) i) = mset (styles_at ms i)"
    by (simp add: styles_at_def mset_filter)
  moreover have "xs = ys" if "mset xs = mset ys" "length ys \<le> 1" for xs ys :: "string list"
    using that by (cases ys) (auto simp: length_Suc_conv dest: mset_eq_length)
  ultimately show ?thesis using assms by blast
qed

lemma renderMatches_spec:
  assumes "list_all (match_ok (length line)) ms" "m_style ` set ms \<subseteq> S"
  shows "\<exists>segs. renderMatches line ms = concat (map emit segs) \<and> list_all (seg_ok S) segs \<and>
    seg_view segs = map (\<lambda>i. (line ! i, owner ms i)) [0..<length line]"
proof -
  let ?sel = "fold select_match (sort_key match_key ms) []"
  have a: "list_all (match_ok (length line)) (sort_key match_key ms)" "m_style ` set (sort_key match_key ms) \<subseteq> S"
    using assms by (auto simp: list_all_iff)
  note sp = select_all_spec [OF a(1) _ a(2), of "[]", simplified]
  have one: "length (styles_at ?sel i) \<le> 1" for i using sp [of i] by simp
  have own: "head_style (styles_at ?sel i) = owner ms i" for i
  proof -
    have "owner ms i = head_style (styles_at (filter (\<lambda>m. m_style m \<noteq> []) (sort_key match_key ms)) i)"
      by (simp add: owner_def find_head styles_at_def conj_commute)
    then show ?thesis using sp [of i] by (simp add: head_style_def split: list.splits)
  qed
  have ok: "list_all (\<lambda>x. proper x \<and> m_end x \<le> length line \<and> m_style x \<in> S - {[]}) (sort_key m_start ?sel)"
    using sp by (auto simp: list_all_iff)
  have one': "length (styles_at (sort_key m_start ?sel) i) \<le> 1" for i
    using one [of i] by (simp only: styles_at_sort [OF one])
  from render_loop_spec [of "sort_key m_start ?sel" line S 0, OF _ ok one']
  obtain segs where s: "render_loop line 0 (sort_key m_start ?sel) = concat (map emit segs)" "list_all (seg_ok S) segs"
    "seg_view segs = map (marked line (sort_key m_start ?sel)) [0..<length line]"
    by auto
  have "marked line (sort_key m_start ?sel) i = (line ! i, owner ms i)" for i
    by (simp add: marked_def styles_at_sort [OF one] own)
  then have v: "seg_view segs = map (\<lambda>i. (line ! i, owner ms i)) [0..<length line]" using s(3) by simp
  show ?thesis
  proof (cases "ms = []")
    case True
    then have "seg_view [(None, line)] = map (\<lambda>i. (line ! i, owner ms i)) [0..<length line]"
      by (auto simp: owner_def intro: nth_equalityI)
    then show ?thesis using True by (intro exI [of _ "[(None, line)]"]) (simp add: renderMatches_def)
  next
    case False
    then show ?thesis using s(1,2) v by (auto simp: renderMatches_def)
  qed
qed

section \<open>Rendered lines\<close>

lemma presents_render:
  assumes "list_all (match_ok (length line)) ms" "m_style ` set ms \<subseteq> theme_styles th"
  shows "presents th (renderMatches line ms) line"
proof -
  obtain segs where s: "renderMatches line ms = concat (map emit segs)" "list_all (seg_ok (theme_styles th)) segs"
    "seg_view segs = map (\<lambda>i. (line ! i, owner ms i)) [0..<length line]"
    using renderMatches_spec [OF assms] by blast
  have "concat (map snd segs) = line"
    by (simp add: seg_view_text s(3) comp_def map_nth)
  then show ?thesis using s(1,2) unfolding presents_def by metis
qed

lemma rule_matches_ok:
  "m \<in> set (rule_matches line th rule) \<Longrightarrow> match_ok (length line) m \<and> m_style m \<in> theme_styles th"
  by (auto simp: rule_matches_def match_ok_def theme_styles_def
      dest: group_range_ok [OF _ sym] split: prod.splits option.splits if_splits)

lemma renderText_presents: "presents th (renderText line th) line"
  unfolding renderText_def
  by (rule presents_render) (auto simp: list_all_iff dest: rule_matches_ok)

lemma find_from_group:
  assumes "find_from r s 0 = Some m" "group_range m g = Some (a, b)"
  shows "a \<le> b \<and> b \<le> length s"
proof -
  obtain x y d where m: "m = ((x, y), d)" by (metis surj_pair)
  show ?thesis using find_from_range [of r s 0 x y d] assms m
    by (auto simp: group_range_def caps_ok_def split: if_splits)
qed

lemma renderPrompt_presents: "renderPrompt th line = Some out \<Longrightarrow> presents th out line"
proof -
  assume r: "renderPrompt th line = Some out"
  show ?thesis
  proof (cases "find_from hl_promptPattern line 0")
    case None
    then show ?thesis using r by (simp add: renderPrompt_def split: if_splits)
  next
    case (Some m)
    then show ?thesis using r find_from_group [OF Some]
      by (auto simp: renderPrompt_def theme_styles_def match_ok_def list_all_iff split: option.splits prod.splits
          intro!: presents_render)
  qed
qed

lemma splitLineEnding_append: "splitLineEnding line = (a, b) \<Longrightarrow> a @ b = line"
proof -
  assume s: "splitLineEnding line = (a, b)"
  have "rev (dropWhile P (rev xs)) @ drop (length (rev (dropWhile P (rev xs)))) (xs @ ys) = xs @ ys" for P and xs ys :: string
  proof -
    have "rev (takeWhile P (rev xs) @ dropWhile P (rev xs)) = xs" by simp
    then obtain t where "rev (dropWhile P (rev xs)) @ t = xs" by (metis rev_append)
    then show ?thesis by (metis append_assoc append_eq_conv_conj)
  qed
  note cut = this
  show ?thesis
  proof (cases "has_suffix line [CHR 0x0A]")
    case True
    then have "line \<noteq> []" by (auto simp: has_suffix_def)
    then have "butlast line @ [last line] = line" by simp
    then show ?thesis using cut [of "\<lambda>c. c = CHR 0x0D" "butlast line" "[last line]"] s True
      by (simp add: splitLineEnding_def Let_def)
  next
    case False
    then show ?thesis using s by (simp add: splitLineEnding_def)
  qed
qed

text \<open>A call that succeeded delivered presented text.\<close>

definition delivers :: "theme \<Rightarrow> sink \<Rightarrow> string \<Rightarrow> sink \<Rightarrow> bool" where
  "delivers th w line w' \<longleftrightarrow> (\<exists>out. delivered w' = delivered w @ out \<and> presents th out line)"

lemma delivers_raw: "hl_writeAll line w = (None, w') \<Longrightarrow> delivers th w line w'"
  using hl_writeAll_ok presents_raw unfolding delivers_def by blast

lemma delivers_out: "hl_writeAll out w = (None, w') \<Longrightarrow> presents th out line \<Longrightarrow> delivers th w line w'"
  using hl_writeAll_ok unfolding delivers_def by blast

lemma delivers_trans: "delivers th w a w1 \<Longrightarrow> delivers th w1 b w2 \<Longrightarrow> delivers th w (a @ b) w2"
  unfolding delivers_def using presents_append by (metis append_assoc)

lemma hl_writeLine_delivers:
  assumes "hl_writeLine th line raw w = (None, w')"
  shows "delivers th w line w'"
proof (cases "raw \<or> containsScreenControl line \<or> HasInteractivePromptPrefix line")
  case True
  then show ?thesis using assms by (simp add: hl_writeLine_def delivers_raw)
next
  case False
  obtain c e where s: "splitLineEnding line = (c, e)" by (cases "splitLineEnding line")
  show ?thesis
  proof (cases "renderPrompt th c")
    case None
    then have "hl_writeAll (renderText line th) w = (None, w')" using assms False s by (simp add: hl_writeLine_def)
    then show ?thesis using renderText_presents by (rule delivers_out)
  next
    case (Some out)
    then obtain w1 where w: "hl_writeAll out w = (None, w1)" "hl_writeAll e w1 = (None, w')"
      using assms False s by (auto simp: hl_writeLine_def split: prod.splits option.splits)
    have "delivers th w (c @ e) w'"
      using delivers_trans [OF delivers_out [OF w(1) renderPrompt_presents [OF Some]] delivers_raw [OF w(2)]] .
    then show ?thesis using splitLineEnding_append [OF s] by simp
  qed
qed

section \<open>The renderer's operations\<close>

text \<open>The renderer has accepted \<open>x\<close>: it presented a part and holds the rest.\<close>

definition hl_accepts :: "renderer \<Rightarrow> string \<Rightarrow> bool" where
  "hl_accepts r x \<longleftrightarrow> (\<exists>raw. presents (hl_theme r) (delivered (hl_out r)) raw \<and> x = raw @ hl_pending r)"

lemma accepts_deliver:
  assumes "hl_accepts r x" "hl_pending r = a @ b" "delivers (hl_theme r) (hl_out r) a w"
    and "hl_out r' = w" "hl_pending r' = b" "hl_theme r' = hl_theme r"
  shows "hl_accepts r' x"
proof -
  obtain raw where raw: "presents (hl_theme r) (delivered (hl_out r)) raw" "x = raw @ hl_pending r"
    using assms(1) unfolding hl_accepts_def by blast
  obtain out where out: "delivered w = delivered (hl_out r) @ out" "presents (hl_theme r) out a"
    using assms(3) unfolding delivers_def by blast
  have "presents (hl_theme r') (delivered (hl_out r')) (raw @ a)"
    using presents_append [OF raw(1) out(2)] assms(4,6) out(1) by simp
  then show ?thesis using raw(2) assms(2,5) unfolding hl_accepts_def by auto
qed

lemma hl_release_ok:
  assumes "hl_release r = (None, r')"
  shows "delivers (hl_theme r) (hl_out r) (hl_pending r) (hl_out r') \<and> hl_pending r' = [] \<and> hl_theme r' = hl_theme r"
  using assms delivers_raw by (auto simp: hl_release_def split: prod.splits option.splits)

lemma release_accepts:
  assumes "hl_release r = (None, r')" "hl_accepts r x" shows "hl_accepts r' x"
  using accepts_deliver [OF assms(2), of "hl_pending r" "[]" "hl_out r'" r'] hl_release_ok [OF assms(1)] by simp

text \<open>What no output call touches.\<close>

definition same_mode :: "renderer \<Rightarrow> renderer \<Rightarrow> bool" where
  "same_mode r r' \<longleftrightarrow> hl_vt r' = hl_vt r \<and> hl_vtp r' = hl_vtp r \<and> hl_theme r' = hl_theme r"

lemma same_mode_refl [simp]: "same_mode r r"
  by (simp add: same_mode_def)

lemma release_mode: "hl_release r = (e, r') \<Longrightarrow> same_mode r r'"
  by (auto simp: hl_release_def same_mode_def split: prod.splits option.splits)

lemma drain_partial_mode: "drain_partial r = (e, r') \<Longrightarrow> same_mode r r'"
  by (auto simp: drain_partial_def same_mode_def split: if_splits prod.splits option.splits
      dest: release_mode [unfolded same_mode_def])

lemma hl_drain_mode: "hl_drain r = (e, r') \<Longrightarrow> same_mode r r'"
proof (induction r arbitrary: e r' rule: hl_drain.induct)
  case (1 r)
  show ?case
  proof (cases "hl_pending r = []")
    case True
    then show ?thesis using "1.prems" by (simp add: hl_drain.simps [of r])
  next
    case False
    show ?thesis
    proof (cases "str_index (hl_pending r) [CHR 0x0A]")
      case None
      then show ?thesis using "1.prems" False drain_partial_mode by (simp add: hl_drain.simps [of r])
    next
      case (Some n)
      obtain e1 w where w: "hl_writeLine (hl_theme r) (take (n + 1) (hl_pending r)) (hl_raw r) (hl_out r) = (e1, w)"
        by (metis surj_pair)
      show ?thesis
      proof (cases e1)
        case None
        then show ?thesis using "1.IH" [OF False Some w [symmetric] None] "1.prems" False Some w
          by (simp add: hl_drain.simps [of r] same_mode_def)
      next
        case (Some x)
        then show ?thesis using "1.prems" False \<open>str_index (hl_pending r) [CHR 0x0A] = Some n\<close> w
          by (auto simp: hl_drain.simps [of r] same_mode_def)
      qed
    qed
  qed
qed

lemma drain_partial_accepts:
  assumes "drain_partial r = (None, r')" "hl_accepts r x" shows "hl_accepts r' x"
proof (cases "renderPrompt (hl_theme r) (hl_pending r)")
  case None
  show ?thesis using assms None release_accepts [OF _ assms(2)]
    by (auto simp: drain_partial_def hl_accepts_def split: if_splits prod.splits option.splits)
next
  case (Some out)
  have d: "hl_accepts (r\<lparr>hl_out := w, hl_pending := [], hl_raw := True\<rparr>) x"
    if "hl_writeAll out (hl_out r) = (None, w)" for w
    using accepts_deliver [OF assms(2), of "hl_pending r" "[]" w]
      delivers_out [OF that renderPrompt_presents [OF Some]] by simp
  have raw: "hl_accepts (r1\<lparr>hl_raw := True\<rparr>) x" if "hl_release r = (None, r1)" for r1
    using release_accepts [OF that assms(2)] by (simp add: hl_accepts_def)
  show ?thesis using assms Some d raw release_accepts [OF _ assms(2)]
    by (auto simp: drain_partial_def split: if_splits prod.splits option.splits)
qed

lemma hl_drain_accepts:
  "hl_drain r = (None, r') \<Longrightarrow> hl_accepts r x \<Longrightarrow> hl_accepts r' x"
proof (induction r arbitrary: r' rule: hl_drain.induct)
  case (1 r)
  show ?case
  proof (cases "hl_pending r = []")
    case True
    then show ?thesis using "1.prems" by (simp add: hl_drain.simps [of r])
  next
    case False
    show ?thesis
    proof (cases "str_index (hl_pending r) [CHR 0x0A]")
      case None
      then show ?thesis using "1.prems" False drain_partial_accepts by (simp add: hl_drain.simps [of r])
    next
      case (Some n)
      let ?p = "hl_pending r"
      obtain w where w: "hl_writeLine (hl_theme r) (take (n + 1) ?p) (hl_raw r) (hl_out r) = (None, w)"
        and r: "hl_drain (r\<lparr>hl_out := w, hl_pending := drop (n + 1) ?p, hl_raw := False\<rparr>) = (None, r')"
        using "1.prems"(1) False Some by (auto simp: hl_drain.simps [of r] split: prod.splits option.splits)
      have "hl_accepts (r\<lparr>hl_out := w, hl_pending := drop (n + 1) ?p, hl_raw := False\<rparr>) x"
        using accepts_deliver [OF "1.prems"(2), of "take (n + 1) ?p" "drop (n + 1) ?p" w]
          hl_writeLine_delivers [OF w] by simp
      from "1.IH" [OF False Some w [symmetric] refl r this] show ?thesis .
    qed
  qed
qed

section \<open>When highlighting is active\<close>

text \<open>
  Outside the byte-transparent mode the remote terminal is in its default
  presentation state; inside it nothing is held back, so the order is kept.
\<close>

definition hl_inv :: "renderer \<Rightarrow> bool" where
  "hl_inv r \<longleftrightarrow> vt_inv (hl_vt r) \<and> (\<not> hl_vtp r \<longrightarrow> canResumeHighlighting (hl_vt r)) \<and> (hl_vtp r \<longrightarrow> hl_pending r = [])"

lemma newRenderer_inv [simp]: "hl_inv (newRenderer color out p)"
  by (simp add: hl_inv_def newRenderer_def canResumeHighlighting_def) (simp add: zero_vt_def)

lemma vt_scan_bytes:
  "vt_scan p t n = (t', m, b) \<Longrightarrow> t' = vt_bytes (take (m - n) p) t \<and> (b \<longrightarrow> canResumeHighlighting t') \<and> (\<not> b \<longrightarrow> m = n + length p)"
proof (induction p arbitrary: t n)
  case (Cons v p)
  obtain t1 signal where f: "vt_feed v t = (t1, signal)" by (cases "vt_feed v t")
  show ?case
  proof (cases "signal \<or> v = CHR 0x0A \<and> canResumeHighlighting t1")
    case True
    then have "t' = t1" "m = n + 1" "b" using Cons.prems f by auto
    moreover have "canResumeHighlighting t1" using True vt_feed_resume [of v t] f by auto
    ultimately show ?thesis using f by simp
  next
    case False
    then have s: "vt_scan p t1 (n + 1) = (t', m, b)" using Cons.prems f by (auto split: if_splits)
    then have "n + 1 \<le> m" using vt_scan_bound by blast
    then have "take (m - n) (v # p) = v # take (m - (n + 1)) p" by (simp add: take_Cons')
    then show ?thesis using Cons.IH [OF s] f by auto
  qed
qed simp

lemma passthrough_spec:
  assumes "writeVTPassthrough r p = (res, r')" "hl_inv r" "hl_vtp r"
  shows "hl_inv r' \<and> hl_theme r' = hl_theme r \<and>
    (\<forall>n. res = Inr n \<longrightarrow> hl_vt r' = vt_bytes (take n p) (hl_vt r) \<and>
       (\<forall>x. hl_accepts r x \<longrightarrow> hl_accepts r' (x @ take n p)))"
proof -
  obtain t m b where s: "vt_scan p (hl_vt r) 0 = (t, m, b)" by (metis surj_pair)
  obtain e w where w: "hl_writeAll (take m p) (hl_out r) = (e, w)" by (metis surj_pair)
  note v = vt_scan_bytes [OF s]
  have i: "vt_inv t" using v assms(2) vt_bytes_inv by (simp add: hl_inv_def)
  have p: "hl_pending r = []" using assms(2,3) by (simp add: hl_inv_def)
  show ?thesis
  proof (cases e)
    case None
    then have r': "r' = r\<lparr>hl_vt := t, hl_out := w, hl_vtp := (if b then False else hl_vtp r)\<rparr>" and res: "res = Inr m"
      using assms(1) s w by (auto simp: writeVTPassthrough_def)
    have "hl_accepts r' (x @ take m p)" if "hl_accepts r x" for x
      using that p hl_writeAll_ok [OF w [unfolded None]] r' presents_raw_append
      unfolding hl_accepts_def by fastforce
    then show ?thesis using r' res v i p assms(3) by (auto simp: hl_inv_def)
  next
    case (Some x)
    then show ?thesis using assms s w i by (auto simp: writeVTPassthrough_def hl_inv_def)
  qed
qed

lemma write_plain_spec:
  assumes "write_plain r p = (e, r')" "hl_inv r" "\<not> hl_vtp r" "ESC \<notin> set p"
  shows "hl_inv r' \<and> \<not> hl_vtp r' \<and> hl_theme r' = hl_theme r \<and> hl_vt r' = vt_bytes p (hl_vt r) \<and>
    (e = None \<longrightarrow> (\<forall>x. hl_accepts r x \<longrightarrow> hl_accepts r' (x @ p)))"
proof -
  let ?r = "r\<lparr>hl_vt := vt_bytes p (hl_vt r), hl_pending := hl_pending r @ p\<rparr>"
  have d: "hl_drain ?r = (e, r')" using assms(1) by (simp add: write_plain_def)
  have "hl_accepts r x \<Longrightarrow> hl_accepts ?r (x @ p)" for x by (auto simp: hl_accepts_def)
  then have "e = None \<longrightarrow> (\<forall>x. hl_accepts r x \<longrightarrow> hl_accepts r' (x @ p))"
    using d hl_drain_accepts by blast
  moreover have "hl_vt r' = vt_bytes p (hl_vt r)" "hl_vtp r' = hl_vtp r" "hl_theme r' = hl_theme r"
    using hl_drain_mode [OF d] by (simp_all add: same_mode_def)
  moreover have "vt_inv (vt_bytes p (hl_vt r))" "canResumeHighlighting (vt_bytes p (hl_vt r))"
    using assms(2-4) by (auto simp: hl_inv_def vt_bytes_inv vt_bytes_plain)
  ultimately show ?thesis using assms(3) by (simp add: hl_inv_def)
qed

lemma str_index_byte:
  "str_index s [c] = None \<Longrightarrow> c \<notin> set s" "str_index s [c] = Some n \<Longrightarrow> c \<notin> set (take n s)"
proof -
  show "c \<notin> set s" if "str_index s [c] = None"
    using that by (induction s) (auto simp: has_prefix_def split: if_splits)
  show "c \<notin> set (take n s)" if "str_index s [c] = Some n"
    using that by (induction s arbitrary: n) (auto simp: has_prefix_def split: if_splits)
qed

lemma str_index_absent: "c \<notin> set s \<Longrightarrow> str_index s [c] = None"
  by (induction s) (auto simp: has_prefix_def)

text \<open>The contract of \<open>Write\<close>'s loop, on its result \<open>e\<close> and final state.\<close>

definition write_contract :: "renderer \<Rightarrow> string \<Rightarrow> goerr option \<Rightarrow> renderer \<Rightarrow> bool" where
  "write_contract r p e r' \<longleftrightarrow> hl_inv r' \<and> hl_theme r' = hl_theme r \<and>
     (e = None \<longrightarrow> hl_vt r' = vt_bytes p (hl_vt r) \<and> (\<forall>x. hl_accepts r x \<longrightarrow> hl_accepts r' (x @ p)))"

lemma write_contract_trans:
  assumes "write_contract r p None r1" "write_contract r1 q e r2" shows "write_contract r (p @ q) e r2"
  using assms unfolding write_contract_def by (metis append_assoc vt_bytes_simps(3))

lemma hl_write_loop_contract:
  "hl_write_loop r p = (e, r') \<Longrightarrow> hl_inv r \<Longrightarrow> write_contract r p e r'"
proof (induction r p arbitrary: e r' rule: hl_write_loop.induct)
  case (1 r p)
  show ?case
  proof (cases "p = []")
    case True
    then show ?thesis using "1.prems" by (simp add: hl_write_loop.simps [of r "[]"] write_contract_def)
  next
    case ne: False
    show ?thesis
    proof (cases "hl_vtp r")
      case True
      obtain res r1 where w: "writeVTPassthrough r p = (res, r1)" by (metis surj_pair)
      note sp = passthrough_spec [OF w "1.prems"(2) True]
      show ?thesis
      proof (cases res)
        case (Inl x)
        then show ?thesis using "1.prems" ne True w sp
          by (auto simp: hl_write_loop.simps [of r p] write_contract_def)
      next
        case (Inr n)
        then have l: "hl_write_loop r1 (drop n p) = (e, r')"
          using "1.prems" ne True w by (simp add: hl_write_loop.simps [of r p])
        have "write_contract r (take n p) None r1" using sp Inr by (simp add: write_contract_def)
        moreover have "write_contract r1 (drop n p) e r'"
          using "1.IH"(1) [OF ne True w [symmetric] Inr l] sp by simp
        ultimately show ?thesis using write_contract_trans by fastforce
      qed
    next
      case vt: False
      show ?thesis
      proof (cases "str_index p [ESC]")
        case None
        then have "write_plain r p = (e, r')"
          using "1.prems"(1) ne vt by (simp add: hl_write_loop.simps [of r p])
        from write_plain_spec [OF this "1.prems"(2) vt str_index_byte(1) [OF None]]
        show ?thesis by (simp add: write_contract_def)
      next
        case (Some n)
        obtain e1 r1 where w: "write_plain r (take n p) = (e1, r1)" by (metis surj_pair)
        note sp = write_plain_spec [OF w "1.prems"(2) vt str_index_byte(2) [OF Some]]
        define rel where "rel = (if hl_pending r1 \<noteq> [] then hl_release r1 else (None, r1))"
        obtain e2 r2 where r2: "rel = (e2, r2)" by (metis surj_pair)
        have m: "same_mode r1 r2" using r2 release_mode by (auto simp: rel_def split: if_splits)
        have i2: "hl_inv r2" using m sp by (auto simp: same_mode_def hl_inv_def)
        show ?thesis
        proof (cases "e1 = None \<and> e2 = None")
          case False
          then show ?thesis using "1.prems" ne vt Some w r2 sp i2 m
            by (auto simp: hl_write_loop.simps [of r p] rel_def [symmetric] write_contract_def same_mode_def split: option.splits)
        next
          case True
          let ?r3 = "r2\<lparr>hl_raw := False, hl_vtp := True\<rparr>"
          have l: "hl_write_loop ?r3 (drop n p) = (e, r')"
            using "1.prems" ne vt Some w r2 True by (simp add: hl_write_loop.simps [of r p] rel_def [symmetric])
          have pend: "hl_pending r2 = []"
            using r2 True hl_release_ok by (auto simp: rel_def split: if_splits)
          have acc: "hl_accepts r1 x \<Longrightarrow> hl_accepts r2 x" for x
            using r2 True release_accepts by (auto simp: rel_def split: if_splits)
          have "write_contract r (take n p) None ?r3"
            using sp True acc m pend i2
            by (auto simp: write_contract_def same_mode_def hl_inv_def hl_accepts_def)
          moreover have "write_contract ?r3 (drop n p) e r'"
            using "1.IH"(2) [OF ne vt Some w [symmetric] _ r2 [unfolded rel_def, symmetric] _ l] True i2 pend
            by (simp add: hl_inv_def)
          ultimately show ?thesis using write_contract_trans by fastforce
        qed
      qed
    qed
  qed
qed

section \<open>Whole sessions\<close>

datatype hl_op = HlWrite string | HlFlush | HlRelease

definition hl_apply :: "hl_op \<Rightarrow> renderer \<Rightarrow> goerr option \<times> renderer" where
  "hl_apply op r =
     (case op of
        HlWrite p \<Rightarrow> (let ((n, e), r1) = hl_Write r p in (e, r1))
      | HlFlush \<Rightarrow> hl_Flush r
      | HlRelease \<Rightarrow> hl_ReleasePending r)"

text \<open>A caller that stops at the first error.\<close>

fun hl_run :: "hl_op list \<Rightarrow> renderer \<Rightarrow> goerr option \<times> renderer" where
  "hl_run [] r = (None, r)"
| "hl_run (op # ops) r =
     (case hl_apply op r of (Some e, r1) \<Rightarrow> (Some e, r1) | (None, r1) \<Rightarrow> hl_run ops r1)"

fun hl_input :: "hl_op list \<Rightarrow> string" where
  "hl_input [] = []"
| "hl_input (HlWrite p # ops) = p @ hl_input ops"
| "hl_input (op # ops) = hl_input ops"

lemma release_ops:
  assumes "hl_apply op r = (e, r')" "op = HlFlush \<or> op = HlRelease" "hl_inv r"
  shows "hl_inv r' \<and> hl_theme r' = hl_theme r \<and> (e = None \<longrightarrow> (\<forall>x. hl_accepts r x \<longrightarrow> hl_accepts r' x)) \<and>
    (op = HlRelease \<longrightarrow> hl_vt r' = hl_vt r)"
proof -
  define rel where "rel = (if hl_pending r \<noteq> [] then hl_release r else (None, r))"
  obtain e2 r2 where r2: "rel = (e2, r2)" by (metis surj_pair)
  have m: "same_mode r r2" using r2 release_mode by (auto simp: rel_def split: if_splits)
  have p: "hl_pending r = [] \<longrightarrow> hl_pending r2 = []" using r2 by (auto simp: rel_def)
  have acc: "e2 = None \<Longrightarrow> hl_accepts r x \<Longrightarrow> hl_accepts r2 x" for x
    using r2 release_accepts by (auto simp: rel_def split: if_splits)
  have inv: "hl_inv r2" "hl_inv (r2\<lparr>hl_raw := b\<rparr>)" "hl_inv (r2\<lparr>hl_raw := b, hl_vt := (hl_vt r2)\<lparr>vt_text := False\<rparr>\<rparr>)" for b
    using m p assms(3) by (auto simp: same_mode_def hl_inv_def canResumeHighlighting_def vt_inv_def)
  have upd: "hl_accepts (r2\<lparr>hl_raw := b\<rparr>) x = hl_accepts r2 x"
    "hl_accepts (r2\<lparr>hl_raw := b, hl_vt := v\<rparr>) x = hl_accepts r2 x" for b v x
    by (simp_all add: hl_accepts_def)
  have flush: "hl_Flush r = (case rel of (Some e, r1) \<Rightarrow> (Some e, r1)
      | (None, r1) \<Rightarrow> (None, r1\<lparr>hl_raw := False, hl_vt := (hl_vt r1)\<lparr>vt_text := False\<rparr>\<rparr>))"
    by (simp add: hl_Flush_def rel_def)
  have rls: "hl_pending r \<noteq> [] \<Longrightarrow> hl_release r = rel" by (simp add: rel_def)
  from assms(2) show ?thesis
  proof
    assume "op = HlFlush"
    then show ?thesis using assms(1) flush r2 inv acc upd m
      by (cases e2) (auto simp: hl_apply_def same_mode_def)
  next
    assume op: "op = HlRelease"
    show ?thesis
    proof (cases "hl_pending r = []")
      case True
      then show ?thesis using assms(1,3) op by (simp add: hl_apply_def hl_ReleasePending_def)
    next
      case False
      then show ?thesis using assms(1) op rls r2 inv acc upd m
        by (cases e2) (auto simp: hl_apply_def hl_ReleasePending_def same_mode_def)
    qed
  qed
qed

lemma hl_Write_contract:
  assumes "hl_Write r p = ((n, e), r')" "hl_inv r" shows "write_contract r p e r'"
proof -
  obtain e1 r1 where w: "hl_write_loop r p = (e1, r1)" by (metis surj_pair)
  from hl_write_loop_contract [OF this assms(2)] assms(1) w show ?thesis
    by (cases e1) (simp_all add: hl_Write_def)
qed

lemma hl_apply_spec:
  assumes "hl_apply op r = (e, r')" "hl_inv r"
  shows "hl_inv r' \<and> hl_theme r' = hl_theme r \<and>
    (e = None \<longrightarrow> (\<forall>x. hl_accepts r x \<longrightarrow> hl_accepts r' (x @ hl_input [op])))"
proof (cases op)
  case (HlWrite p)
  then obtain n where "hl_Write r p = ((n, e), r')"
    using assms(1) by (auto simp: hl_apply_def split: prod.splits)
  from hl_Write_contract [OF this assms(2)] HlWrite show ?thesis by (simp add: write_contract_def)
qed (use release_ops [OF assms(1) _ assms(2)] in simp_all)

lemma hl_input_Cons: "hl_input (op # ops) = hl_input [op] @ hl_input ops"
  by (cases op) simp_all

lemma hl_run_spec:
  assumes "hl_run ops r = (e, r')" "hl_inv r"
  shows "hl_inv r' \<and> hl_theme r' = hl_theme r \<and>
    (e = None \<longrightarrow> (\<forall>x. hl_accepts r x \<longrightarrow> hl_accepts r' (x @ hl_input ops)))"
  using assms
proof (induction ops arbitrary: r)
  case (Cons op ops)
  obtain e1 r1 where a: "hl_apply op r = (e1, r1)" by (metis surj_pair)
  note sp = hl_apply_spec [OF a Cons.prems(2)]
  show ?case
  proof (cases e1)
    case None
    then have "hl_run ops r1 = (e, r')" using Cons.prems a by simp
    note ih = Cons.IH [OF this]
    have "e = None \<longrightarrow> (\<forall>x. hl_accepts r x \<longrightarrow> hl_accepts r' (x @ hl_input [op] @ hl_input ops))"
      using ih sp None by (metis append_assoc)
    then show ?thesis using ih sp by (simp add: hl_input_Cons [of op ops])
  next
    case (Some x)
    then show ?thesis using Cons.prems a sp by auto
  qed
qed simp

text \<open>A writer that never fails makes every operation succeed.\<close>

lemma perfect_writeLine:
  "answers w = [] \<Longrightarrow> \<exists>w'. hl_writeLine th l raw w = (None, w') \<and> answers w' = []"
  by (auto simp: hl_writeLine_def hl_writeAll_perfect split: prod.splits option.splits)

lemma perfect_release:
  "answers (hl_out r) = [] \<Longrightarrow> \<exists>r'. hl_release r = (None, r') \<and> answers (hl_out r') = []"
  by (auto simp: hl_release_def hl_writeAll_perfect)

lemma perfect_partial:
  assumes "answers (hl_out r) = []" shows "\<exists>r'. drain_partial r = (None, r') \<and> answers (hl_out r') = []"
  using perfect_release [OF assms] assms
  by (auto simp: drain_partial_def hl_writeAll_perfect split: option.splits)

lemma perfect_drain:
  "answers (hl_out r) = [] \<Longrightarrow> \<exists>r'. hl_drain r = (None, r') \<and> answers (hl_out r') = []"
proof (induction r rule: hl_drain.induct)
  case (1 r)
  show ?case
  proof (cases "hl_pending r = []")
    case True
    then show ?thesis using "1.prems" by (simp add: hl_drain.simps [of r])
  next
    case False
    show ?thesis
    proof (cases "str_index (hl_pending r) [CHR 0x0A]")
      case None
      then show ?thesis using perfect_partial [OF "1.prems"] False by (simp add: hl_drain.simps [of r])
    next
      case (Some n)
      obtain w where w: "hl_writeLine (hl_theme r) (take (n + 1) (hl_pending r)) (hl_raw r) (hl_out r) = (None, w)"
        "answers w = []"
        using perfect_writeLine [OF "1.prems"] by blast
      from "1.IH" [OF False Some w(1) [symmetric] refl] w(2)
      show ?thesis using False Some w(1) by (simp add: hl_drain.simps [of r])
    qed
  qed
qed

lemma perfect_write_loop:
  "answers (hl_out r) = [] \<Longrightarrow> \<exists>r'. hl_write_loop r p = (None, r') \<and> answers (hl_out r') = []"
proof (induction r p rule: hl_write_loop.induct)
  case (1 r p)
  have plain: "\<exists>r'. write_plain r q = (None, r') \<and> answers (hl_out r') = []" for q
    using perfect_drain "1.prems" by (simp add: write_plain_def)
  show ?case
  proof (cases "p = []")
    case True
    then show ?thesis using "1.prems" by (simp add: hl_write_loop.simps [of r "[]"])
  next
    case ne: False
    show ?thesis
    proof (cases "hl_vtp r")
      case True
      obtain t m b where s: "vt_scan p (hl_vt r) 0 = (t, m, b)" by (metis surj_pair)
      then obtain r1 where w: "writeVTPassthrough r p = (Inr m, r1)" "answers (hl_out r1) = []"
        using "1.prems" by (simp add: writeVTPassthrough_def hl_writeAll_perfect)
      from "1.IH"(1) [OF ne True w(1) [symmetric] refl w(2)]
      show ?thesis using ne True w(1) by (simp add: hl_write_loop.simps [of r p])
    next
      case vt: False
      show ?thesis
      proof (cases "str_index p [ESC]")
        case None
        then show ?thesis using plain ne vt by (simp add: hl_write_loop.simps [of r p])
      next
        case (Some n)
        obtain r1 where w: "write_plain r (take n p) = (None, r1)" "answers (hl_out r1) = []" using plain by blast
        obtain r2 where r2: "(if hl_pending r1 \<noteq> [] then hl_release r1 else (None, r1)) = (None, r2)"
          "answers (hl_out r2) = []"
          using perfect_release [OF w(2)] w(2) by (cases "hl_pending r1 = []") auto
        from "1.IH"(2) [OF ne vt Some w(1) [symmetric] refl r2(1) [symmetric] refl] r2(2)
        show ?thesis using ne vt Some w(1) r2(1) by (simp add: hl_write_loop.simps [of r p])
      qed
    qed
  qed
qed

lemma perfect_run:
  "answers (hl_out r) = [] \<Longrightarrow> \<exists>r'. hl_run ops r = (None, r') \<and> answers (hl_out r') = []"
proof (induction ops arbitrary: r)
  case (Cons op ops)
  have "\<exists>r'. hl_apply op r = (None, r') \<and> answers (hl_out r') = []"
  proof (cases op)
    case (HlWrite p)
    then show ?thesis using perfect_write_loop [OF Cons.prems, of p] by (auto simp: hl_apply_def hl_Write_def)
  next
    case HlFlush
    then show ?thesis using perfect_release [OF Cons.prems] Cons.prems by (auto simp: hl_apply_def hl_Flush_def)
  next
    case HlRelease
    then show ?thesis using perfect_release [OF Cons.prems] Cons.prems by (auto simp: hl_apply_def hl_ReleasePending_def)
  qed
  then obtain r1 where "hl_apply op r = (None, r1)" "answers (hl_out r1) = []" by blast
  with Cons.IH [of r1] show ?case by simp
qed simp

section \<open>Properties\<close>

text \<open>
  The highlighter never loses, reorders or rewrites remote output: while no
  write to the local terminal has failed, what it delivered is the text it was
  given, in order, less the tail it still holds, with only whole segments of that
  text wrapped in a theme style and the reset sequence.
\<close>

theorem highlight_preserves_output:
  assumes "hl_run ops (newRenderer color (Some w) p) = (None, r)" "delivered w = []"
  shows "\<exists>raw. presents (hl_theme r) (delivered (hl_out r)) raw \<and> raw @ hl_pending r = hl_input ops \<and>
    (hl_vtp r \<longrightarrow> hl_pending r = [])"
proof -
  have "hl_accepts (newRenderer color (Some w) p) []"
    using assms(2) presents_raw [of _ "[]"] by (simp add: hl_accepts_def newRenderer_def)
  then have "hl_accepts r ([] @ hl_input ops)" "hl_inv r" using hl_run_spec [OF assms(1)] by auto
  then show ?thesis unfolding hl_accepts_def hl_inv_def by auto
qed

theorem highlight_preserves_output_witness:
  "\<exists>r raw. hl_run [HlWrite (''eth0: link up'' @ [CHR 0x0D, CHR 0x0A] @ ESC # ''[31m'' @ ''x''), HlFlush, HlWrite ''login: '', HlRelease]
      (newRenderer (\<lambda>p hex. Some hex) (Some \<lparr>delivered = [], answers = []\<rparr>) None) = (None, r) \<and>
    presents (hl_theme r) (delivered (hl_out r)) raw \<and>
    raw @ hl_pending r = ''eth0: link up'' @ [CHR 0x0D, CHR 0x0A] @ ESC # ''[31m'' @ ''x'' @ ''login: ''"
proof -
  let ?r0 = "newRenderer (\<lambda>p hex. Some hex) (Some \<lparr>delivered = [], answers = []\<rparr>) None"
  let ?ops = "[HlWrite (''eth0: link up'' @ [CHR 0x0D, CHR 0x0A] @ ESC # ''[31m'' @ ''x''), HlFlush, HlWrite ''login: '', HlRelease]"
  have "answers (hl_out ?r0) = []" by (simp add: newRenderer_def)
  from perfect_run [OF this] obtain r where r: "hl_run ?ops ?r0 = (None, r)" by blast
  have d: "delivered \<lparr>delivered = [], answers = []\<rparr> = []" by simp
  from highlight_preserves_output [OF r d] r show ?thesis by auto
qed

text \<open>
  C17 Styling a line: the rendered line is a sequence of segments whose text is
  the line, and each byte is shown in exactly the style of the first match, in
  order of priority, start and length, that covers it (or in none).
\<close>

theorem highlight_ownership:
  assumes "\<forall>m \<in> set ms. m_start m \<le> m_end m \<and> m_end m \<le> length line"
  shows "\<exists>segs. renderMatches line ms = concat (map emit segs) \<and>
    seg_view segs = map (\<lambda>i. (line ! i, owner ms i)) [0..<length line]"
  using renderMatches_spec [of line ms "m_style ` set ms"] assms
  by (auto simp: list_all_iff match_ok_def)

theorem highlight_ownership_witness:
  "\<exists>segs. renderMatches ''mmc0''
      [\<lparr>m_start = 0, m_end = 4, m_style = ''A'', m_priority = 80\<rparr>, \<lparr>m_start = 3, m_end = 4, m_style = ''B'', m_priority = 90\<rparr>] =
      concat (map emit segs) \<and>
    seg_view segs = [(CHR ''m'', Some ''A''), (CHR ''m'', Some ''A''), (CHR ''c'', Some ''A''), (CHR ''0'', Some ''B'')]"
proof -
  let ?ms = "[\<lparr>m_start = 0, m_end = 4, m_style = ''A'', m_priority = 80\<rparr>, \<lparr>m_start = 3, m_end = 4, m_style = ''B'', m_priority = 90\<rparr>] :: hl_match list"
  have "map (\<lambda>i. (''mmc0'' ! i, owner ?ms i)) [0..<length ''mmc0''] =
      [(CHR ''m'', Some ''A''), (CHR ''m'', Some ''A''), (CHR ''c'', Some ''A''), (CHR ''0'', Some ''B'')]"
    by code_simp
  with highlight_ownership [of ?ms "''mmc0''"] show ?thesis by simp
qed

text \<open>
  Highlighting is only ever active when the remote terminal is in its default
  state: whatever is written, flushed or released, and even when the local writer
  fails, a renderer that is not passing bytes through has seen no open escape
  sequence, no SGR attribute in force and no alternate screen; its tracker holds
  at most 128 parameter bytes and none but the declared attribute bits.
\<close>

theorem highlight_active_only_when_safe:
  "let r = snd (hl_run ops (newRenderer color w p))
   in (hl_vtp r \<or> vt_st (hl_vt r) = VtGround \<and> \<not> vt_alt (hl_vt r) \<and> vt_sgr (hl_vt r) = 0) \<and>
      length (vt_csi (hl_vt r)) \<le> 128 \<and> vt_sgr (hl_vt r) AND NOT 0x1FFF = 0"
proof -
  obtain e r where r: "hl_run ops (newRenderer color w p) = (e, r)" by (metis surj_pair)
  have "hl_inv r" using hl_run_spec [OF r] by simp
  then show ?thesis
    by (auto simp: r hl_inv_def vt_inv_def canResumeHighlighting_def maxCSIParameterBytes_def sgr_mask_def)
qed

lemma drain_trailing_cr:
  assumes "hl_pending r \<noteq> []" "CHR 0x0A \<notin> set (hl_pending r)" "last (hl_pending r) = CHR 0x0D" "\<not> hl_raw r"
  shows "hl_drain r = (None, r)"
proof -
  have "str_index (hl_pending r) [CHR 0x0A] = None"
    using assms(2) by (rule str_index_absent)
  then show ?thesis using assms by (simp add: hl_drain.simps [of r] drain_partial_def)
qed

lemma write_progress:
  assumes "hl_inv r" "\<not> hl_vtp r" "\<not> hl_raw r" "CHR 0x0A \<notin> set (hl_pending r)"
  shows "\<exists>r'. hl_run [HlWrite [CHR ''.'', CHR 0x0D]] r = (None, r') \<and> hl_inv r' \<and> \<not> hl_vtp r' \<and> \<not> hl_raw r' \<and>
    hl_pending r' = hl_pending r @ [CHR ''.'', CHR 0x0D]"
proof -
  let ?p = "[CHR ''.'', CHR 0x0D]"
  let ?r = "r\<lparr>hl_vt := vt_bytes ?p (hl_vt r), hl_pending := hl_pending r @ ?p\<rparr>"
  have "str_index ?p [ESC] = None" by (simp add: has_prefix_def ESC_def)
  moreover have "hl_drain ?r = (None, ?r)"
    using assms by (intro drain_trailing_cr) auto
  ultimately have w: "hl_write_loop r ?p = (None, ?r)"
    using assms(2) by (simp add: hl_write_loop.simps [of r ?p] write_plain_def)
  then have "hl_inv ?r" using hl_write_loop_contract [OF w assms(1)] by (simp add: write_contract_def)
  then show ?thesis using w assms(2,3) by (simp add: hl_apply_def hl_Write_def del: vt_bytes_simps)
qed

text \<open>
  C18 The held-back tail has no bound: a remote program that redraws a line with
  carriage returns, each read ending in one, is buffered whole, past the 8 KiB
  the buffer is meant to keep to, because a trailing carriage return is tested
  before the limit.
\<close>

theorem highlight_pending_unbounded:
  "\<exists>r. hl_run (replicate n (HlWrite [CHR ''.'', CHR 0x0D])) (newRenderer color w p) = (None, r) \<and>
    length (hl_pending r) = 2 * n"
proof -
  have "\<exists>r'. hl_run (replicate n (HlWrite [CHR ''.'', CHR 0x0D])) r = (None, r') \<and>
      length (hl_pending r') = length (hl_pending r) + 2 * n"
    if "hl_inv r" "\<not> hl_vtp r" "\<not> hl_raw r" "CHR 0x0A \<notin> set (hl_pending r)" for r
    using that
  proof (induction n arbitrary: r)
    case (Suc n)
    obtain r1 where r1: "hl_run [HlWrite [CHR ''.'', CHR 0x0D]] r = (None, r1)" "hl_inv r1" "\<not> hl_vtp r1" "\<not> hl_raw r1"
      "hl_pending r1 = hl_pending r @ [CHR ''.'', CHR 0x0D]"
      using write_progress [OF Suc.prems] by blast
    have "hl_apply (HlWrite [CHR ''.'', CHR 0x0D]) r = (None, r1)"
      using r1(1) by (auto split: prod.splits option.splits)
    moreover obtain r2 where "hl_run (replicate n (HlWrite [CHR ''.'', CHR 0x0D])) r1 = (None, r2)"
      "length (hl_pending r2) = length (hl_pending r1) + 2 * n"
      using Suc.IH [OF r1(2-4)] r1(5) Suc.prems(4) by auto
    ultimately show ?case using r1(5) by simp
  qed simp
  from this [of "newRenderer color w p"] show ?thesis by (simp add: newRenderer_def [of color w p] hl_inv_def canResumeHighlighting_def zero_vt_def vt_inv_def shellSizeProbe_def)
qed

end
