(* ===== verification/Prompt_Timestamp.thy ===== *)
theory Prompt_Timestamp
  imports Highlight_Safety
begin

text \<open>
  \<open>internal/cli/command/prompt_timestamp.go\<close> and \<open>presentation_line_state.go\<close>: the
  local renderer that stamps recognised shell prompts with the time of day, and
  the record of whether the local terminal is at a line start. The renderer's
  downstream writer is a contract, \<open>byte_output\<close>; the plain writer and the
  highlighter of \<open>Highlight\<close>, the two the attached client uses, both meet it.
\<close>

section \<open>The downstream writer\<close>

text \<open>
  \<open>accepts s x\<close>: the writer's state \<open>s\<close> has taken exactly the bytes \<open>x\<close>, whatever
  it has done with them so far.
\<close>

locale byte_output =
  fixes out_write :: "string \<Rightarrow> 's \<Rightarrow> goerr option \<times> 's"
    and out_flush :: "'s \<Rightarrow> goerr option \<times> 's"
    and accepts :: "'s \<Rightarrow> string \<Rightarrow> bool"
  assumes write_ok: "accepts s x \<Longrightarrow> out_write p s = (None, s') \<Longrightarrow> accepts s' (x @ p)"
    and flush_ok: "accepts s x \<Longrightarrow> out_flush s = (None, s') \<Longrightarrow> accepts s' x"

interpretation plain_output: byte_output hl_writeAll "\<lambda>w. (None, w)" "\<lambda>w x. delivered w = x"
  by unfold_locales (auto dest: hl_writeAll_ok)

definition highlighted_write :: "string \<Rightarrow> renderer \<Rightarrow> goerr option \<times> renderer" where
  "highlighted_write p r = (let ((n, e), r1) = hl_Write r p in (e, r1))"

lemma highlighted_write_contract:
  "highlighted_write p r = (e, r') \<Longrightarrow> hl_inv r \<Longrightarrow> write_contract r p e r'"
  by (auto simp: highlighted_write_def dest: hl_Write_contract split: prod.splits)

lemma hl_Flush_ok:
  "hl_Flush r = (None, r') \<Longrightarrow> hl_inv r \<Longrightarrow> hl_accepts r x \<Longrightarrow> hl_inv r' \<and> hl_accepts r' x"
  using release_ops [of HlFlush r None r'] by (simp add: hl_apply_def)

interpretation highlighted_output: byte_output highlighted_write hl_Flush "\<lambda>r x. hl_inv r \<and> hl_accepts r x"
  by unfold_locales (auto dest: highlighted_write_contract hl_Flush_ok simp: write_contract_def)

section \<open>Recognising a prompt\<close>

definition maxPromptTimestampPendingBytes :: nat where "maxPromptTimestampPendingBytes = 8 * 1024"

definition pt_promptSource :: string where
  "pt_promptSource = go_raw ''^(?:[A-Za-z0-9_.-]+@[A-Za-z0-9_.-]+:[^ `t`r`n]+[$#]|(?:ba)?sh-[0-9]+(?:`.[0-9]+)*[$#]|/[ `t]+#|`[[A-Za-z0-9_.-]+@[A-Za-z0-9_.-]+[ `t]+[^ `t`r`n`]]+`][$#])(?:[ `t]+|$)''"

definition pt_promptPattern :: rx where "pt_promptPattern = regexp_MustCompile pt_promptSource"

lemma pt_pattern_compiles: "compiles pt_promptSource"
  by code_simp

text \<open>\<open>promptVisibleText\<close> as its scan: visible bytes so far, then (complete, safe).\<close>

definition csi_parameter :: "byte \<Rightarrow> bool" where
  "csi_parameter c \<longleftrightarrow> 0x30 \<le> (of_char c :: nat) \<and> (of_char c :: nat) \<le> 0x3F"

function visible_loop :: "string \<Rightarrow> string \<Rightarrow> string \<times> bool \<times> bool" where
  "visible_loop visible [] = (visible, True, True)"
| "visible_loop visible (v # rest) =
     (if v = ESC
      then case rest of
             [] \<Rightarrow> (visible, False, True)
           | d # ds \<Rightarrow>
               if d \<noteq> CHR ''['' then (visible, True, False)
               else case dropWhile csi_parameter ds of
                 [] \<Rightarrow> (visible, False, True)
               | f # fs \<Rightarrow> if f \<noteq> CHR ''m'' then (visible, True, False) else visible_loop visible fs
      else if (of_char v :: nat) < 0x20 \<or> v = CHR 0x7F then (visible, True, False)
      else visible_loop (visible @ [v]) rest)"
  by pat_completeness auto
termination
proof (relation "measure (\<lambda>(visible, s). length s)", goal_cases)
  case (2 visible v rest d ds f fs)
  have "length (f # fs) \<le> length ds" using 2 by (metis length_dropWhile_le)
  then show ?case using 2 by simp
qed auto

definition promptVisibleText :: "string \<Rightarrow> string \<times> bool \<times> bool" where
  "promptVisibleText data = visible_loop [] data"

section \<open>The renderer\<close>

record pt_renderer =
  pt_enabled :: bool
  pt_pending :: string
  pt_raw :: bool

definition newPromptTimestampRenderer :: pt_renderer where
  "newPromptTimestampRenderer = \<lparr>pt_enabled = False, pt_pending = [], pt_raw = False\<rparr>"

text \<open>\<open>now().Format("15:04:05")\<close> of the hour, minute and second read.\<close>

type_synonym clock = "nat \<times> nat \<times> nat"

definition two_digits :: "nat \<Rightarrow> string" where
  "two_digits n = [digit_char (n div 10 mod 10), digit_char (n mod 10)]"

definition stamp :: "clock \<Rightarrow> string" where
  "stamp now = (case now of (h, m, s) \<Rightarrow>
     ''['' @ two_digits h @ '':'' @ two_digits m @ '':'' @ two_digits s @ ''] '')"

text \<open>The first byte of \<open>\r\n\<close>: \<open>bytes.IndexAny(data, "\r\n")\<close>.\<close>

fun index_line_end :: "string \<Rightarrow> nat option" where
  "index_line_end [] = None"
| "index_line_end (c # s) = (if c = CHR 0x0D \<or> c = CHR 0x0A then Some 0 else map_option Suc (index_line_end s))"

type_synonym 's writer = "string \<Rightarrow> 's \<Rightarrow> goerr option \<times> 's"

text \<open>Forwarding \<open>text\<close> for the pending candidate, then clearing it and setting the raw mark.\<close>

definition pt_forward :: "'s writer \<Rightarrow> string \<Rightarrow> bool \<Rightarrow> pt_renderer \<Rightarrow> 's \<Rightarrow> goerr option \<times> pt_renderer \<times> 's" where
  "pt_forward w text raw r s =
     (case w text s of
        (Some e, s1) \<Rightarrow> (Some e, r, s1)
      | (None, s1) \<Rightarrow> (None, r\<lparr>pt_pending := [], pt_raw := raw\<rparr>, s1))"

text \<open>The end of \<open>Write\<close>'s loop body: the data joined an incomplete line.\<close>

definition pt_candidate :: "'s writer \<Rightarrow> clock \<Rightarrow> pt_renderer \<Rightarrow> 's \<Rightarrow> goerr option \<times> pt_renderer \<times> 's" where
  "pt_candidate w now r s =
     (let (visible, complete, safe) = promptVisibleText (pt_pending r)
      in if \<not> safe \<or> length (pt_pending r) > maxPromptTimestampPendingBytes then pt_forward w (pt_pending r) True r s
         else if \<not> complete then (None, r, s)
         else if HasInteractivePromptPrefix visible then pt_forward w (pt_pending r) True r s
         else if rx_test pt_promptPattern visible then pt_forward w (stamp now @ pt_pending r) True r s
         else (None, r, s))"

function pt_loop :: "'s writer \<Rightarrow> clock \<Rightarrow> string \<Rightarrow> pt_renderer \<Rightarrow> 's \<Rightarrow> goerr option \<times> pt_renderer \<times> 's" where
  "pt_loop w now data r s =
     (if data = [] then (None, r, s)
      else if pt_raw r
      then case index_line_end data of
             Some lineEnd \<Rightarrow>
               (case w (take (lineEnd + 1) data) s of
                  (Some e, s1) \<Rightarrow> (Some e, r, s1)
                | (None, s1) \<Rightarrow> pt_loop w now (drop (lineEnd + 1) data) (r\<lparr>pt_raw := False\<rparr>) s1)
           | None \<Rightarrow> (case w data s of (e, s1) \<Rightarrow> (e, r, s1))
      else case str_index data [CHR 0x0A] of
             Some newline \<Rightarrow>
               (case pt_forward w (pt_pending r @ take (newline + 1) data) False
                       (r\<lparr>pt_pending := pt_pending r @ take (newline + 1) data\<rparr>) s of
                  (Some e, r1, s1) \<Rightarrow> (Some e, r1, s1)
                | (None, r1, s1) \<Rightarrow> pt_loop w now (drop (newline + 1) data) r1 s1)
           | None \<Rightarrow> pt_candidate w now (r\<lparr>pt_pending := pt_pending r @ data\<rparr>) s)"
  by pat_completeness auto
termination by (relation "measure (\<lambda>(w, now, data, r, s). length data)") auto

declare pt_loop.simps [simp del]

definition pt_Write :: "'s writer \<Rightarrow> clock \<Rightarrow> string \<Rightarrow> pt_renderer \<Rightarrow> 's \<Rightarrow> goerr option \<times> pt_renderer \<times> 's" where
  "pt_Write w now data r s =
     (if \<not> pt_enabled r then (case w data s of (e, s1) \<Rightarrow> (e, r, s1)) else pt_loop w now data r s)"

definition pt_flushPending :: "'s writer \<Rightarrow> ('s \<Rightarrow> goerr option \<times> 's) \<Rightarrow> pt_renderer \<Rightarrow> 's \<Rightarrow> goerr option \<times> pt_renderer \<times> 's" where
  "pt_flushPending w fl r s =
     (case (if pt_pending r \<noteq> [] then pt_forward w (pt_pending r) (pt_raw r) r s else (None, r, s)) of
        (Some e, r1, s1) \<Rightarrow> (Some e, r1, s1)
      | (None, r1, s1) \<Rightarrow> (case fl s1 of (e, s2) \<Rightarrow> (e, r1\<lparr>pt_raw := False\<rparr>, s2)))"

definition pt_Flush :: "'s writer \<Rightarrow> ('s \<Rightarrow> goerr option \<times> 's) \<Rightarrow> pt_renderer \<Rightarrow> 's \<Rightarrow> goerr option \<times> pt_renderer \<times> 's" where
  "pt_Flush w fl r s = pt_flushPending w fl r s"

definition pt_Toggle :: "'s writer \<Rightarrow> ('s \<Rightarrow> goerr option \<times> 's) \<Rightarrow> pt_renderer \<Rightarrow> 's \<Rightarrow> (bool \<times> goerr option) \<times> pt_renderer \<times> 's" where
  "pt_Toggle w fl r s =
     (case pt_flushPending w fl r s of
        (Some e, r1, s1) \<Rightarrow> ((pt_enabled r1, Some e), r1, s1)
      | (None, r1, s1) \<Rightarrow> ((\<not> pt_enabled r1, None), r1\<lparr>pt_enabled := \<not> pt_enabled r1\<rparr>, s1))"

definition pt_releasePending :: "'s writer \<Rightarrow> pt_renderer \<Rightarrow> 's \<Rightarrow> goerr option \<times> pt_renderer \<times> 's" where
  "pt_releasePending w r s =
     (if pt_pending r = [] then (None, r, s) else pt_forward w (pt_pending r) True r s)"

section \<open>Stamped text\<close>

text \<open>A stamp stands directly before text whose visible part the prompt pattern matches.\<close>

fun pt_emit :: "clock option \<times> string \<Rightarrow> string" where
  "pt_emit (None, tx) = tx"
| "pt_emit (Some now, tx) = stamp now @ tx"

fun pt_seg_ok :: "clock option \<times> string \<Rightarrow> bool" where
  "pt_seg_ok (None, tx) = True"
| "pt_seg_ok (Some now, tx) = rx_test pt_promptPattern (fst (promptVisibleText tx))"

definition stamped :: "string \<Rightarrow> string \<Rightarrow> bool" where
  "stamped out inp \<longleftrightarrow> (\<exists>segs. list_all pt_seg_ok segs \<and> out = concat (map pt_emit segs) \<and> inp = concat (map snd segs))"

lemma stamped_Nil [simp]: "stamped [] []"
  unfolding stamped_def by (intro exI [of _ "[]"]) simp

lemma stamped_snoc:
  assumes "stamped out inp" "pt_seg_ok seg" shows "stamped (out @ pt_emit seg) (inp @ snd seg)"
proof -
  obtain segs where "list_all pt_seg_ok segs" "out = concat (map pt_emit segs)" "inp = concat (map snd segs)"
    using assms(1) unfolding stamped_def by blast
  then show ?thesis using assms(2) unfolding stamped_def by (intro exI [of _ "segs @ [seg]"]) simp
qed

lemma stamped_raw: "stamped out inp \<Longrightarrow> stamped (out @ x) (inp @ x)"
  using stamped_snoc [of out inp "(None, x)"] by simp

text \<open>Between calls: nothing is held while raw or disabled, and at most 8 KiB otherwise.\<close>

definition pt_ok :: "pt_renderer \<Rightarrow> bool" where
  "pt_ok r \<longleftrightarrow> (pt_raw r \<or> \<not> pt_enabled r \<longrightarrow> pt_pending r = []) \<and>
     length (pt_pending r) \<le> maxPromptTimestampPendingBytes"

context byte_output
begin

text \<open>The renderer over the writer has taken \<open>x\<close>: all but its candidate was forwarded, stamped.\<close>

definition taken :: "pt_renderer \<Rightarrow> 's \<Rightarrow> string \<Rightarrow> bool" where
  "taken r s x \<longleftrightarrow> (\<exists>out inp. stamped out inp \<and> accepts s out \<and> x = inp @ pt_pending r)"

lemma forward_seg:
  assumes "pt_forward out_write (pt_emit seg) raw r s = (None, r', s')"
    and "stamped out inp" "accepts s out" "pt_seg_ok seg"
  shows "taken r' s' (inp @ snd seg) \<and> pt_enabled r' = pt_enabled r \<and> pt_pending r' = [] \<and> pt_raw r' = raw"
proof -
  obtain s1 where w: "out_write (pt_emit seg) s = (None, s1)" "r' = r\<lparr>pt_pending := [], pt_raw := raw\<rparr>" "s' = s1"
    using assms(1) by (auto simp: pt_forward_def split: prod.splits option.splits)
  have "accepts s' (out @ pt_emit seg)" using write_ok [OF assms(3) w(1)] w(3) by simp
  then show ?thesis using stamped_snoc [OF assms(2,4)] w(2) unfolding taken_def by auto
qed

lemma forward_pending:
  assumes "pt_forward out_write (pt_pending r) raw r s = (None, r', s')" "taken r s x"
  shows "taken r' s' x \<and> pt_enabled r' = pt_enabled r \<and> pt_pending r' = []"
proof -
  obtain out inp where x: "stamped out inp" "accepts s out" "x = inp @ pt_pending r"
    using assms(2) unfolding taken_def by blast
  from forward_seg [of "(None, pt_pending r)", OF _ x(1,2)] assms(1) x(3) show ?thesis by simp
qed

lemma candidate_taken:
  assumes "pt_candidate out_write now r s = (None, r', s')" "taken r s x"
    and raw: "\<not> pt_raw r"
  shows "taken r' s' x \<and> pt_enabled r' = pt_enabled r \<and> length (pt_pending r') \<le> maxPromptTimestampPendingBytes \<and>
    (pt_raw r' \<longrightarrow> pt_pending r' = [])"
proof -
  obtain v c f where v: "promptVisibleText (pt_pending r) = (v, c, f)" by (metis surj_pair)
  obtain out inp where x: "stamped out inp" "accepts s out" "x = inp @ pt_pending r"
    using assms(2) unfolding taken_def by blast
  have st: "taken r' s' x \<and> pt_enabled r' = pt_enabled r \<and> pt_pending r' = []"
    if "rx_test pt_promptPattern v" "pt_forward out_write (stamp now @ pt_pending r) True r s = (None, r', s')"
    using forward_seg [of "(Some now, pt_pending r)", OF _ x(1,2)] that v x(3) by simp
  show ?thesis using assms(1,2) raw v st forward_pending [OF _ assms(2)]
    by (fastforce simp: pt_candidate_def split: if_splits)
qed

lemma loop_taken:
  "pt_loop out_write now data r s = (None, r', s') \<Longrightarrow> taken r s x \<Longrightarrow> (pt_raw r \<longrightarrow> pt_pending r = []) \<Longrightarrow>
    length (pt_pending r) \<le> maxPromptTimestampPendingBytes \<Longrightarrow>
    taken r' s' (x @ data) \<and> pt_enabled r' = pt_enabled r \<and> length (pt_pending r') \<le> maxPromptTimestampPendingBytes \<and>
    (pt_raw r' \<longrightarrow> pt_pending r' = [])"
proof (induction data arbitrary: r s x rule: measure_induct_rule [of length])
  case (less data)
  show ?case
  proof (cases "data = []")
    case True
    then show ?thesis using less.prems by (simp add: pt_loop.simps [of _ _ "[]"])
  next
    case ne: False
    obtain out inp where x: "stamped out inp" "accepts s out" "x = inp @ pt_pending r"
      using less.prems(2) unfolding taken_def by blast
    show ?thesis
    proof (cases "pt_raw r")
      case raw: True
      then have p: "pt_pending r = []" using less.prems(3) by simp
      have acc: "taken (r\<lparr>pt_raw := b\<rparr>) s1 (x @ q)" if "out_write q s = (None, s1)" for q s1 b
        using write_ok [OF x(2) that] stamped_raw [OF x(1), of q] x(3) p unfolding taken_def by auto
      show ?thesis
      proof (cases "index_line_end data")
        case None
        then have "out_write data s = (None, s')" "r' = r"
          using less.prems(1) ne raw by (auto simp: pt_loop.simps [of _ _ data] split: prod.splits)
        then show ?thesis using acc [of data s' True] raw p by (simp add: taken_def)
      next
        case (Some n)
        obtain s1 where w: "out_write (take (n + 1) data) s = (None, s1)"
          and l: "pt_loop out_write now (drop (n + 1) data) (r\<lparr>pt_raw := False\<rparr>) s1 = (None, r', s')"
          using less.prems(1) ne raw Some by (auto simp: pt_loop.simps [of _ _ data] split: prod.splits option.splits)
        show ?thesis
          using less.IH [OF _ l acc [OF w]] ne p by simp
      qed
    next
      case raw: False
      show ?thesis
      proof (cases "str_index data [CHR 0x0A]")
        case None
        then have c: "pt_candidate out_write now (r\<lparr>pt_pending := pt_pending r @ data\<rparr>) s = (None, r', s')"
          using less.prems(1) ne raw by (simp add: pt_loop.simps [of _ _ data])
        have "taken (r\<lparr>pt_pending := pt_pending r @ data\<rparr>) s (x @ data)" using x unfolding taken_def by auto
        from candidate_taken [OF c this] raw show ?thesis by simp
      next
        case (Some n)
        let ?q = "pt_pending r @ take (n + 1) data"
        obtain r1 s1 where f: "pt_forward out_write ?q False (r\<lparr>pt_pending := ?q\<rparr>) s = (None, r1, s1)"
          and l: "pt_loop out_write now (drop (n + 1) data) r1 s1 = (None, r', s')"
          using less.prems(1) ne raw Some
          by (auto simp: pt_loop.simps [of _ _ data] split: prod.splits option.splits)
        have t: "taken r1 s1 (inp @ ?q) \<and> pt_enabled r1 = pt_enabled r \<and> pt_pending r1 = [] \<and> pt_raw r1 = False"
          using forward_seg [of "(None, ?q)", OF _ x(1,2)] f by simp
        show ?thesis
          using less.IH [OF _ l conjunct1 [OF t]] t x(3) ne by simp
      qed
    qed
  qed
qed

lemma write_taken:
  assumes "pt_Write out_write now data r s = (None, r', s')" "taken r s x" "pt_ok r"
  shows "taken r' s' (x @ data) \<and> pt_ok r'"
proof (cases "pt_enabled r")
  case True
  then show ?thesis using loop_taken [of now data r s r' s' x] assms by (auto simp: pt_Write_def pt_ok_def)
next
  case False
  then have w: "out_write data s = (None, s')" "r' = r" using assms(1) by (auto simp: pt_Write_def split: prod.splits)
  obtain out inp where x: "stamped out inp" "accepts s out" "x = inp @ pt_pending r"
    using assms(2) unfolding taken_def by blast
  have "pt_pending r = []" using False assms(3) by (simp add: pt_ok_def)
  then show ?thesis using write_ok [OF x(2) w(1)] stamped_raw [OF x(1), of data] x(3) w(2) assms(3)
    unfolding taken_def by auto
qed

lemma flush_taken:
  assumes "pt_flushPending out_write out_flush r s = (None, r', s')" "taken r s x" "pt_ok r"
  shows "taken r' s' x \<and> pt_ok r' \<and> pt_pending r' = [] \<and> pt_enabled r' = pt_enabled r"
proof -
  obtain r1 s1 where f: "(if pt_pending r \<noteq> [] then pt_forward out_write (pt_pending r) (pt_raw r) r s else (None, r, s)) = (None, r1, s1)"
    and fl: "out_flush s1 = (None, s')" "r' = r1\<lparr>pt_raw := False\<rparr>"
    using assms(1) by (auto simp: pt_flushPending_def split: prod.splits option.splits)
  have t: "taken r1 s1 x \<and> pt_enabled r1 = pt_enabled r \<and> pt_pending r1 = []"
    using f assms(2) forward_pending [OF _ assms(2), of "pt_raw r" r1 s1] by (auto split: if_splits)
  then have "taken r' s' x" using flush_ok [OF _ fl(1)] fl(2) unfolding taken_def by auto
  then show ?thesis using t fl(2) by (simp add: pt_ok_def)
qed

lemma release_taken:
  assumes "pt_releasePending out_write r s = (None, r', s')" "taken r s x" "pt_ok r"
  shows "taken r' s' x \<and> pt_ok r'"
  using assms forward_pending [OF _ assms(2), of True r' s']
  by (auto simp: pt_releasePending_def pt_ok_def split: if_splits)

end

section \<open>Whole sessions\<close>

datatype pt_op = PtWrite clock string | PtToggle | PtFlush | PtRelease

definition pt_apply :: "'s writer \<Rightarrow> ('s \<Rightarrow> goerr option \<times> 's) \<Rightarrow> pt_op \<Rightarrow> pt_renderer \<Rightarrow> 's \<Rightarrow> goerr option \<times> pt_renderer \<times> 's" where
  "pt_apply w fl op r s =
     (case op of
        PtWrite now p \<Rightarrow> pt_Write w now p r s
      | PtToggle \<Rightarrow> (let ((b, e), r1, s1) = pt_Toggle w fl r s in (e, r1, s1))
      | PtFlush \<Rightarrow> pt_Flush w fl r s
      | PtRelease \<Rightarrow> pt_releasePending w r s)"

fun pt_run :: "'s writer \<Rightarrow> ('s \<Rightarrow> goerr option \<times> 's) \<Rightarrow> pt_op list \<Rightarrow> pt_renderer \<Rightarrow> 's \<Rightarrow> goerr option \<times> pt_renderer \<times> 's" where
  "pt_run w fl [] r s = (None, r, s)"
| "pt_run w fl (op # ops) r s =
     (case pt_apply w fl op r s of
        (Some e, r1, s1) \<Rightarrow> (Some e, r1, s1)
      | (None, r1, s1) \<Rightarrow> pt_run w fl ops r1 s1)"

fun pt_input :: "pt_op list \<Rightarrow> string" where
  "pt_input [] = []"
| "pt_input (PtWrite now p # ops) = p @ pt_input ops"
| "pt_input (op # ops) = pt_input ops"

context byte_output
begin

lemma apply_taken:
  assumes "pt_apply out_write out_flush op r s = (None, r', s')" "taken r s x" "pt_ok r"
  shows "taken r' s' (x @ pt_input [op]) \<and> pt_ok r'"
proof (cases op)
  case (PtWrite now p)
  then show ?thesis using assms write_taken by (simp add: pt_apply_def)
next
  case PtToggle
  then obtain r1 where f: "pt_flushPending out_write out_flush r s = (None, r1, s')"
    and r': "r' = r1\<lparr>pt_enabled := \<not> pt_enabled r1\<rparr>"
    using assms(1) by (auto simp: pt_apply_def pt_Toggle_def split: prod.splits option.splits)
  from flush_taken [OF f assms(2,3)] r' PtToggle show ?thesis by (auto simp: taken_def pt_ok_def)
next
  case PtFlush
  then show ?thesis using assms flush_taken by (simp add: pt_apply_def pt_Flush_def)
next
  case PtRelease
  then show ?thesis using assms release_taken by (simp add: pt_apply_def)
qed

lemma run_taken:
  "pt_run out_write out_flush ops r s = (None, r', s') \<Longrightarrow> taken r s x \<Longrightarrow> pt_ok r \<Longrightarrow>
    taken r' s' (x @ pt_input ops) \<and> pt_ok r'"
proof (induction ops arbitrary: r s x)
  case (Cons op ops)
  obtain r1 s1 where a: "pt_apply out_write out_flush op r s = (None, r1, s1)"
    and b: "pt_run out_write out_flush ops r1 s1 = (None, r', s')"
    using Cons.prems(1) by (auto split: prod.splits option.splits)
  have t: "taken r1 s1 (x @ pt_input [op])" "pt_ok r1" using apply_taken [OF a Cons.prems(2,3)] by auto
  have "pt_input (op # ops) = pt_input [op] @ pt_input ops" by (cases op) simp_all
  then show ?case using Cons.IH [OF b t] by simp
qed simp

lemma run_from_start:
  assumes "pt_run out_write out_flush ops newPromptTimestampRenderer s = (None, r', s')" "accepts s []"
  shows "taken r' s' (pt_input ops) \<and> pt_ok r'"
proof -
  have "taken newPromptTimestampRenderer s []"
    using assms(2) unfolding taken_def newPromptTimestampRenderer_def
    by (intro exI [of _ "[]"]) simp
  from run_taken [OF assms(1) this] show ?thesis by (simp add: pt_ok_def newPromptTimestampRenderer_def)
qed

end

text \<open>A downstream writer that never fails: no operation fails, so runs exist.\<close>

lemma forward_never_fails:
  assumes "\<And>p s. Q s \<Longrightarrow> \<exists>s'. w p s = (None, s') \<and> Q s'" "Q s"
  shows "\<exists>r' s'. pt_forward w x raw r s = (None, r', s') \<and> Q s'"
  using assms(1) [OF assms(2), of x] by (auto simp: pt_forward_def)

lemma loop_never_fails:
  assumes w: "\<And>p s. Q s \<Longrightarrow> \<exists>s'. w p s = (None, s') \<and> Q s'"
  shows "Q s \<Longrightarrow> \<exists>r' s'. pt_loop w now data r s = (None, r', s') \<and> Q s'"
proof (induction data arbitrary: r s rule: measure_induct_rule [of length])
  case (less data)
  note fw = forward_never_fails [of Q w, OF w]
  have c: "\<exists>r' s'. pt_candidate w now r s = (None, r', s') \<and> Q s'" for r
    using fw less.prems by (auto simp: pt_candidate_def split: prod.splits)
  show ?case
  proof (cases "data = []")
    case True
    then show ?thesis using less.prems by (simp add: pt_loop.simps [of _ _ "[]"])
  next
    case ne: False
    have len: "length (drop (n + 1) data) < length data" for n using ne by simp
    show ?thesis
    proof (cases "pt_raw r")
      case True
      obtain n s1 where "w (take (n + 1) data) s = (None, s1)" "Q s1" "index_line_end data = Some n"
        if "index_line_end data \<noteq> None" using w [OF less.prems] by blast
      then show ?thesis using ne True less.IH [OF len] w [OF less.prems, of data]
        by (cases "index_line_end data") (auto simp: pt_loop.simps [of _ _ data])
    next
      case False
      show ?thesis
      proof (cases "str_index data [CHR 0x0A]")
        case None
        then show ?thesis using ne False c by (simp add: pt_loop.simps [of _ _ data])
      next
        case (Some n)
        obtain r1 s1 where "pt_forward w (pt_pending r @ take (n + 1) data) False
            (r\<lparr>pt_pending := pt_pending r @ take (n + 1) data\<rparr>) s = (None, r1, s1)" "Q s1"
          using fw [OF _ less.prems] by blast
        then show ?thesis using ne False Some less.IH [OF len] by (simp add: pt_loop.simps [of _ _ data])
      qed
    qed
  qed
qed

lemma run_never_fails:
  assumes w: "\<And>p s. Q s \<Longrightarrow> \<exists>s'. w p s = (None, s') \<and> Q s'" and fl: "\<And>s. Q s \<Longrightarrow> \<exists>s'. fl s = (None, s') \<and> Q s'"
  shows "Q s \<Longrightarrow> \<exists>r' s'. pt_run w fl ops r s = (None, r', s') \<and> Q s'"
proof (induction ops arbitrary: r s)
  case (Cons op ops)
  note fw = forward_never_fails [of Q w, OF w]
  have flush: "\<exists>r' s'. pt_flushPending w fl r s = (None, r', s') \<and> Q s'"
  proof (cases "pt_pending r = []")
    case True
    then show ?thesis using fl [OF Cons.prems] by (auto simp: pt_flushPending_def)
  next
    case False
    obtain r1 s1 where "pt_forward w (pt_pending r) (pt_raw r) r s = (None, r1, s1)" "Q s1"
      using fw [OF _ Cons.prems] by blast
    then show ?thesis using False fl [of s1] by (auto simp: pt_flushPending_def)
  qed
  have "\<exists>r' s'. pt_apply w fl op r s = (None, r', s') \<and> Q s'"
  proof (cases op)
    case (PtWrite now p)
    obtain s1 where "w p s = (None, s1)" "Q s1" using w [OF Cons.prems] by blast
    moreover obtain r2 s2 where "pt_loop w now p r s = (None, r2, s2)" "Q s2"
      using loop_never_fails [of Q w, OF w Cons.prems] by blast
    ultimately show ?thesis using PtWrite by (simp add: pt_apply_def pt_Write_def)
  next
    case PtToggle
    then show ?thesis using flush by (auto simp: pt_apply_def pt_Toggle_def)
  next
    case PtFlush
    then show ?thesis using flush by (simp add: pt_apply_def pt_Flush_def)
  next
    case PtRelease
    obtain r2 s2 where "pt_forward w (pt_pending r) True r s = (None, r2, s2)" "Q s2"
      using fw [OF _ Cons.prems] by blast
    then show ?thesis using PtRelease Cons.prems by (simp add: pt_apply_def pt_releasePending_def)
  qed
  then obtain r1 s1 where "pt_apply w fl op r s = (None, r1, s1)" "Q s1" by blast
  with Cons.IH [of s1 r1] show ?case by simp
qed simp

lemma highlighted_never_fails:
  assumes "answers (hl_out h) = []"
  shows "\<exists>r' h'. pt_run highlighted_write hl_Flush ops r h = (None, r', h')"
proof -
  have w: "\<exists>h'. highlighted_write p h = (None, h') \<and> answers (hl_out h') = []" if "answers (hl_out h) = []" for p h
    using perfect_write_loop [OF that, of p] by (auto simp: highlighted_write_def hl_Write_def)
  have f: "\<exists>h'. hl_Flush h = (None, h') \<and> answers (hl_out h') = []" if "answers (hl_out h) = []" for h
    using perfect_release [OF that] that by (cases "hl_pending h = []") (auto simp: hl_Flush_def)
  show ?thesis
    using run_never_fails [of "\<lambda>h. answers (hl_out h) = []" highlighted_write hl_Flush h ops r, OF w f assms] by blast
qed

text \<open>
  C16 The two presentation layers of the attached terminal composed: prompt
  timestamps over highlighting. While no local write has failed, what the
  terminal got is the remote output in order, with nothing but a time stamp put
  before recognised prompts and theme styles put around segments; the rest is
  the two held-back tails, of which the stamping layer's is at most 8 KiB.
\<close>

theorem presentation_pipeline_preserves_output:
  assumes "pt_run highlighted_write hl_Flush ops newPromptTimestampRenderer (newRenderer color (Some w) p) = (None, r, h)"
    and "delivered w = []"
  shows "\<exists>out inp raw. stamped out inp \<and> inp @ pt_pending r = pt_input ops \<and>
    presents (hl_theme h) (delivered (hl_out h)) raw \<and> raw @ hl_pending h = out \<and>
    length (pt_pending r) \<le> 8 * 1024"
proof -
  have "hl_accepts (newRenderer color (Some w) p) []"
    using assms(2) presents_raw [of _ "[]"] by (simp add: hl_accepts_def newRenderer_def)
  then have "hl_inv (newRenderer color (Some w) p) \<and> hl_accepts (newRenderer color (Some w) p) []" by simp
  from highlighted_output.run_from_start [OF assms(1) this]
  have "highlighted_output.taken r h (pt_input ops)" "length (pt_pending r) \<le> 8 * 1024"
    by (auto simp: pt_ok_def maxPromptTimestampPendingBytes_def)
  then obtain out inp where "stamped out inp" "pt_input ops = inp @ pt_pending r" "hl_accepts h out"
    unfolding highlighted_output.taken_def by blast
  moreover from this(3) obtain raw where "presents (hl_theme h) (delivered (hl_out h)) raw" "out = raw @ hl_pending h"
    unfolding hl_accepts_def by blast
  ultimately show ?thesis using \<open>length (pt_pending r) \<le> 8 * 1024\<close> by metis
qed

theorem presentation_pipeline_preserves_output_witness:
  "\<exists>r h out inp raw.
    pt_run highlighted_write hl_Flush [PtToggle, PtWrite (9, 5, 7) (''boot'' @ [CHR 0x0A]), PtWrite (9, 5, 8) ''sh-5# ''] newPromptTimestampRenderer
      (newRenderer (\<lambda>p hex. Some hex) (Some \<lparr>delivered = [], answers = []\<rparr>) None) = (None, r, h) \<and>
    stamped out inp \<and> inp @ pt_pending r = ''boot'' @ [CHR 0x0A] @ ''sh-5# '' \<and>
    presents (hl_theme h) (delivered (hl_out h)) raw \<and> raw @ hl_pending h = out"
proof -
  let ?h0 = "newRenderer (\<lambda>p hex. Some hex) (Some \<lparr>delivered = [], answers = []\<rparr>) None"
  let ?ops = "[PtToggle, PtWrite (9, 5, 7) (''boot'' @ [CHR 0x0A]), PtWrite (9, 5, 8) ''sh-5# '']"
  have "answers (hl_out ?h0) = []" by (simp add: newRenderer_def)
  from highlighted_never_fails [OF this] obtain r h where
    r: "pt_run highlighted_write hl_Flush ?ops newPromptTimestampRenderer ?h0 = (None, r, h)" by blast
  have d: "delivered \<lparr>delivered = [], answers = []\<rparr> = []" by simp
  from presentation_pipeline_preserves_output [OF r d] r show ?thesis by fastforce
qed

section \<open>The line-start record\<close>

record line_state =
  atLineStart :: bool

definition newPresentationLineState :: line_state where
  "newPresentationLineState = \<lparr>atLineStart = True\<rparr>"

definition line_observe :: "line_state \<Rightarrow> string \<Rightarrow> line_state" where
  "line_observe s data =
     (if data = [] then s
      else s\<lparr>atLineStart := (last data = CHR 0x0D \<or> last data = CHR 0x0A)\<rparr>)"

definition lineStartPrefix :: "line_state \<Rightarrow> string" where
  "lineStartPrefix s = (if atLineStart s then [] else [CHR 0x0D, CHR 0x0A])"

text \<open>Observing in pieces is observing the whole, and the prefix always reaches a line start.\<close>

lemma line_observe_append: "line_observe (line_observe s a) b = line_observe s (a @ b)"
  by (simp add: line_observe_def)

lemma line_prefix_reaches_start: "atLineStart (line_observe s (lineStartPrefix s))"
  by (simp add: line_observe_def lineStartPrefix_def)

end
