(* ===== verification/Sliding_Window.thy ===== *)
theory Sliding_Window
  imports Go_Regexp
begin

text \<open>
  Searching a stream for a marker in a bounded window, as the protocol readers of
  \<open>core/app\<close> do: the new bytes join the window, the marker is searched there,
  and when it is absent all but the last bytes are dropped. The lemmas relate a
  search in the window to the search in the whole stream. The section on runes
  holds the \<open>range\<close> loop over a string.
\<close>

section \<open>First occurrences\<close>

lemma str_indexI:
  assumes "has_prefix (drop i s) m" "i \<le> length s" "\<And>j. j < i \<Longrightarrow> \<not> has_prefix (drop j s) m"
  shows "str_index s m = Some i"
proof (cases "str_index s m")
  case None
  then show ?thesis using str_index_None [OF None, of i] assms(1) by simp
next
  case (Some k)
  from str_index_Some [OF this] have "has_prefix (drop k s) m" "\<forall>j < k. \<not> has_prefix (drop j s) m" by auto
  then have "k = i" using assms(1,3) by (metis linorder_neqE_nat)
  then show ?thesis using Some by simp
qed

lemma str_index_NoneI: "(\<And>j. \<not> has_prefix (drop j s) m) \<Longrightarrow> str_index s m = None"
  using str_index_Some [of s m] by (cases "str_index s m") auto

lemma has_prefix_take: "has_prefix (drop j (take n s)) m \<Longrightarrow> has_prefix (drop j s) m"
proof (cases "j \<le> length (take n s)")
  case True
  assume "has_prefix (drop j (take n s)) m"
  then obtain t where "drop j (take n s) = m @ t" by (auto simp: has_prefix_iff)
  moreover have "drop j s = drop j (take n s) @ drop n s"
    using True by (metis append_take_drop_id drop_append drop_0 diff_is_0_eq)
  ultimately show ?thesis by (auto simp: has_prefix_iff)
next
  case False
  assume "has_prefix (drop j (take n s)) m"
  moreover have "length (take n s) \<le> j" using False by linarith
  then have "drop j (take n s) = []" by simp
  ultimately have "m = []" by (simp add: has_prefix_def)
  then show ?thesis by (simp add: has_prefix_def)
qed

lemma has_prefix_length: "has_prefix s m \<Longrightarrow> length m \<le> length s"
  by (auto simp: has_prefix_iff)

lemma has_prefix_append: "has_prefix s m \<Longrightarrow> has_prefix (s @ t) m"
  by (auto simp: has_prefix_iff)

lemma has_prefix_append_short: "length m \<le> length s \<Longrightarrow> has_prefix (s @ t) m = has_prefix s m"
  by (simp add: has_prefix_def)

lemma str_index_bound: "str_index s m = Some i \<Longrightarrow> i + length m \<le> length s"
  using str_index_Some [of s m i] has_prefix_length [of "drop i s" m]
  by (cases "i \<le> length s") (auto simp: has_prefix_def)

text \<open>Dropping a part that holds no occurrence shifts the first one.\<close>

lemma str_index_drop:
  assumes "n \<le> length s" "\<And>j. j < n \<Longrightarrow> \<not> has_prefix (drop j s) m"
  shows "str_index (drop n s) m = map_option (\<lambda>i. i - n) (str_index s m) \<and> (\<forall>i. str_index s m = Some i \<longrightarrow> n \<le> i)"
proof (cases "str_index s m")
  case None
  have "str_index (drop n s) m = None"
    by (rule str_index_NoneI) (use str_index_None [OF None] in auto)
  then show ?thesis using None by simp
next
  case (Some i)
  have i: "has_prefix (drop i s) m" "\<And>j. j < i \<Longrightarrow> \<not> has_prefix (drop j s) m" using str_index_Some [OF Some] by auto
  have n: "n \<le> i" using i(1) assms(2) by (meson not_le)
  have "str_index (drop n s) m = Some (i - n)"
  proof (rule str_indexI)
    show "has_prefix (drop (i - n) (drop n s)) m" using i(1) n by simp
    show "i - n \<le> length (drop n s)" using str_index_bound [OF Some] by simp
    show "\<not> has_prefix (drop j (drop n s)) m" if "j < i - n" for j using i(2) [of "j + n"] that by (simp add: add.commute)
  qed
  then show ?thesis using Some n by simp
qed

text \<open>
  A window that keeps at least one byte less than the marker loses no occurrence:
  if the marker is not in \<open>S\<close>, what comes first in \<open>S\<close> and \<open>d\<close> is found in the
  window and \<open>d\<close>.
\<close>

definition window :: "nat \<Rightarrow> string \<Rightarrow> string" where
  "window keep s = drop (length s - keep) s"

lemma length_window: "length (window k s) = min k (length s)"
  by (simp add: window_def)

lemma window_window: "window k (window k s @ d) = window k (s @ d)"
  unfolding window_def by (cases "k \<le> length s") (auto simp: add.commute)

lemma window_search:
  assumes "str_index S m = None" "length m \<le> Suc k" "m \<noteq> []"
  shows "str_index (window k S @ d) m = map_option (\<lambda>i. i - (length S - k)) (str_index (S @ d) m)"
    and "str_index (S @ d) m = Some i \<Longrightarrow> length S - k \<le> i"
proof -
  have no: "\<not> has_prefix (drop j (S @ d)) m" if "j < length S - k" for j
  proof -
    have "length m \<le> length (drop j S)" using that assms(2) by simp
    then have "has_prefix (drop j (S @ d)) m = has_prefix (drop j S) m"
      using that by (simp add: has_prefix_append_short)
    then show ?thesis using str_index_None [OF assms(1)] by simp
  qed
  have "drop (length S - k) (S @ d) = window k S @ d" by (simp add: window_def)
  then show "str_index (window k S @ d) m = map_option (\<lambda>i. i - (length S - k)) (str_index (S @ d) m)"
    and "str_index (S @ d) m = Some i \<Longrightarrow> length S - k \<le> i"
    using str_index_drop [of "length S - k" "S @ d" m] no by auto
qed

lemma str_index_prefix_None: "str_index (a @ b) m = None \<Longrightarrow> str_index a m = None"
  by (rule str_index_NoneI) (metis append_Nil drop_append has_prefix_append str_index_None)

lemma str_contains_append: "str_contains a m \<Longrightarrow> str_contains (a @ b) m"
  unfolding str_contains_def by (erule contrapos_nn) (rule str_index_prefix_None)

section \<open>Runes\<close>

function go_runes :: "string \<Rightarrow> int list" where
  "go_runes s = (if s = [] then [] else let (r, n) = decode_rune s in r # go_runes (drop n s))"
  by pat_completeness auto
termination
proof (relation "measure length", goal_cases)
  case (2 s x r n)
  then have "snd (decode_rune s) = n" by (metis snd_conv)
  then show ?case using 2 decode_rune_width [of s] by simp
qed simp

declare go_runes.simps [simp del]

text \<open>\<open>unicode.IsControl\<close>: the C0 and C1 controls and DEL.\<close>

definition is_control :: "int \<Rightarrow> bool" where
  "is_control r \<longleftrightarrow> 0 \<le> r \<and> r < 0x20 \<or> 0x7F \<le> r \<and> r < 0xA0"

lemma of_char_nonneg: "0 \<le> (of_char c :: int)"
  by (metis of_nat_of_char of_nat_0_le_iff)

lemma byte_in_high: "byte_in a b x \<Longrightarrow> 0x80 \<le> a \<Longrightarrow> 0x80 \<le> x"
  by (simp add: byte_in_def)

lemma byte_in_low: "byte_in (if P then a else 0x80) b x \<Longrightarrow> 0x80 \<le> a \<Longrightarrow> 0x80 \<le> x"
  by (cases P) (auto simp: byte_in_def)

lemma utf8_two_bytes: "utf8_two s \<Longrightarrow> i < 2 \<Longrightarrow> 0x80 \<le> byte_at s i"
proof -
  assume u: "utf8_two s" "i < 2"
  then have "0x80 \<le> byte_at s 0" "0x80 \<le> byte_at s 1"
    unfolding utf8_two_def by (auto elim: byte_in_high)
  moreover have "i = 0 \<or> i = 1" using u(2) by auto
  ultimately show ?thesis by auto
qed

lemma utf8_three_bytes: "utf8_three s \<Longrightarrow> i < 3 \<Longrightarrow> 0x80 \<le> byte_at s i"
proof -
  assume u: "utf8_three s" "i < 3"
  note w = u(1) [unfolded utf8_three_def]
  have "0x80 \<le> byte_at s 0" by (rule byte_in_high [OF conjunct1 [OF w]]) simp
  moreover have "0x80 \<le> byte_at s 1" by (rule byte_in_low [OF conjunct1 [OF conjunct2 [OF w]]]) simp
  moreover have "0x80 \<le> byte_at s 2" by (rule byte_in_high [OF conjunct2 [OF conjunct2 [OF w]]]) simp
  moreover have "i = 0 \<or> i = 1 \<or> i = 2" using u(2) by linarith
  ultimately show ?thesis by (elim disjE) simp_all
qed

lemma utf8_four_bytes: "utf8_four s \<Longrightarrow> i < 4 \<Longrightarrow> 0x80 \<le> byte_at s i"
proof -
  assume u: "utf8_four s" "i < 4"
  have a: "byte_in 0xF0 0xF4 (byte_at s 0)" "byte_in 0x80 0xBF (byte_at s 2)" "byte_in 0x80 0xBF (byte_at s 3)"
    "byte_in (if byte_at s 0 = 0xF0 then 0x90 else 0x80) (if byte_at s 0 = 0xF4 then 0x8F else 0xBF) (byte_at s 1)"
    using u(1) by (simp_all only: utf8_four_def)
  have "0x80 \<le> byte_at s 0" "0x80 \<le> byte_at s 1" "0x80 \<le> byte_at s 2" "0x80 \<le> byte_at s 3"
    using byte_in_high [OF a(1)] byte_in_low [OF a(4)] byte_in_high [OF a(2)] byte_in_high [OF a(3)] by simp_all
  moreover have "i = 0 \<or> i = 1 \<or> i = 2 \<or> i = 3" using u(2) by auto
  ultimately show ?thesis by auto
qed

lemmas utf8_lead_bytes = utf8_two_bytes utf8_three_bytes utf8_four_bytes

lemma decode_rune_cases:
  assumes "s \<noteq> []" "decode_rune s = (r, n)"
  shows "(byte_at s 0 < 0x80 \<and> n = 1 \<and> r = byte_at s 0) \<or> (utf8_two s \<and> n = 2) \<or> (utf8_three s \<and> n = 3) \<or>
    (utf8_four s \<and> n = 4) \<or> (r = RuneError \<and> n = 1)"
proof -
  consider "byte_at s 0 < 0x80" | "\<not> byte_at s 0 < 0x80" "utf8_two s"
    | "\<not> byte_at s 0 < 0x80" "\<not> utf8_two s" "utf8_three s"
    | "\<not> byte_at s 0 < 0x80" "\<not> utf8_two s" "\<not> utf8_three s" "utf8_four s"
    | "\<not> byte_at s 0 < 0x80" "\<not> utf8_two s" "\<not> utf8_three s" "\<not> utf8_four s" by blast
  then show ?thesis by cases (use assms in \<open>simp_all add: decode_rune_def Let_def\<close>)
qed

text \<open>A valid string without control runes has no control byte.\<close>

lemma no_control_bytes:
  "utf8_valid s \<Longrightarrow> \<not> list_ex is_control (go_runes s) \<Longrightarrow> c \<in> set s \<Longrightarrow> 0x20 \<le> (of_char c :: int) \<and> (of_char c :: int) \<noteq> 0x7F"
proof (induction s rule: go_runes.induct)
  case (1 s)
  show ?case
  proof (cases "s = []")
    case False
    obtain r n where d: "decode_rune s = (r, n)" by (cases "decode_rune s")
    have v: "utf8_valid (drop n s)" "\<not> (r = RuneError \<and> n = 1)" "\<not> is_control r" "\<not> list_ex is_control (go_runes (drop n s))"
      using "1.prems"(1,2) False d by (auto simp: utf8_valid.simps [of s] go_runes.simps [of s])
    note ih = "1.IH" [OF False d [symmetric] refl v(1,4)]
    have "0x20 \<le> (of_char c :: int) \<and> (of_char c :: int) \<noteq> 0x7F" if c: "c \<in> set (take n s)"
    proof -
      obtain i where i: "i < n" "i < length s" "c = s ! i" using c by (auto simp: in_set_conv_nth)
      have b: "byte_at s i = of_char c" using i byte_at_nth by blast
      consider "byte_at s 0 < 0x80" "n = 1" "r = byte_at s 0" | "utf8_two s" "n = 2"
        | "utf8_three s" "n = 3" | "utf8_four s" "n = 4"
        using decode_rune_cases [OF False d] v(2) by blast
      then show ?thesis
      proof cases
        case 1
        have "0 \<le> byte_at s 0" using b 1 i of_char_nonneg by simp
        then show ?thesis using 1 i b v(3) by (auto simp: is_control_def)
      qed (use utf8_lead_bytes [of s i] i b in auto)
    qed
    moreover have "c \<in> set (take n s) \<or> c \<in> set (drop n s)"
      using "1.prems"(3) by (metis append_take_drop_id Un_iff set_append)
    ultimately show ?thesis using ih by blast
  qed (use "1.prems" in simp)
qed

section \<open>Streams cut into reads\<close>

fun contiguous :: "nat \<Rightarrow> string list \<Rightarrow> (nat \<Rightarrow> string \<Rightarrow> 'r) \<Rightarrow> 'r list" where
  "contiguous c [] f = []"
| "contiguous c (d # ds) f = f (c + length d) d # contiguous (c + length d) ds f"

end
