(* ===== verification/Terminal_Command.thy ===== *)
theory Terminal_Command
  imports Sliding_Window Session_Core
begin

text \<open>
  \<open>internal/core/app/terminal_command.go\<close>, \<open>terminal_input.go\<close> and
  \<open>bash_history.go\<close>: isolated Agent commands in an interactive Bash. The pure parts
  (validation, shell quoting, the bootstrap line, the inspection of unsubmitted
  input) are functions; the two marker waits run over the script of the
  \<open>ReadOutput\<close> answers they get, \<open>None\<close> meaning that they are still waiting when
  the script ends; \<open>ExecuteTerminalCommand\<close> answers the trace of its effects.
\<close>

section \<open>Errors and limits\<close>

definition MaxTerminalCommandBytes :: nat where "MaxTerminalCommandBytes = 64 * 1024"
definition ErrTerminalCommandRequired :: goerr where "ErrTerminalCommandRequired = ErrSentinel ''ErrTerminalCommandRequired''"
definition ErrTerminalCommandTooLarge :: goerr where "ErrTerminalCommandTooLarge = ErrSentinel ''ErrTerminalCommandTooLarge''"
definition ErrTerminalCommandControlCharacter :: goerr where
  "ErrTerminalCommandControlCharacter = ErrSentinel ''ErrTerminalCommandControlCharacter''"
definition ErrTerminalCommandInputPending :: goerr where
  "ErrTerminalCommandInputPending = ErrSentinel ''ErrTerminalCommandInputPending''"
definition ErrTerminalCommandRequiresBash :: goerr where
  "ErrTerminalCommandRequiresBash = ErrSentinel ''ErrTerminalCommandRequiresBash''"
definition ErrTerminalCommandProtocol :: goerr where "ErrTerminalCommandProtocol = ErrSentinel ''ErrTerminalCommandProtocol''"

lemmas terminal_errors =
  ErrTerminalCommandRequired_def ErrTerminalCommandTooLarge_def ErrTerminalCommandControlCharacter_def
  ErrTerminalCommandInputPending_def ErrTerminalCommandRequiresBash_def ErrTerminalCommandProtocol_def

section \<open>Validation\<close>

definition validateTerminalCommand :: "string \<Rightarrow> goerr option" where
  "validateTerminalCommand command =
     (if trim_space command = [] then Some ErrTerminalCommandRequired
      else if length command > MaxTerminalCommandBytes
      then Some (ErrWrap ErrTerminalCommandTooLarge (format_nat (length command)))
      else if \<not> utf8_valid command then Some ErrTerminalCommandControlCharacter
      else if list_ex is_control (go_runes command) then Some ErrTerminalCommandControlCharacter
      else None)"

section \<open>Shell quoting\<close>

definition single_quote :: byte where "single_quote = CHR 0x27"

text \<open>\<open>ReplaceAll(value, "'", "'\"'\"'")\<close> inside single quotes.\<close>

definition quoteTerminalCommand :: "string \<Rightarrow> string" where
  "quoteTerminalCommand value =
     single_quote # concat (map (\<lambda>c. if c = single_quote
         then [single_quote, CHR 0x22, single_quote, CHR 0x22, single_quote] else [c]) value) @ [single_quote]"

definition quoteSplitTerminalCommandToken :: "string \<Rightarrow> string" where
  "quoteSplitTerminalCommandToken token =
     (let middle = length token div 2
      in single_quote # take middle token @ [single_quote, single_quote] @ drop middle token @ [single_quote])"

definition bashDeleteCurrentHistoryEntry :: string where
  \<open>bashDeleteCurrentHistoryEntry = ''history -d "$((HISTCMD-(BASH_VERSINFO[0]<4)))"''\<close>

definition bashDeleteTokenHistoryEntry :: "string \<Rightarrow> string" where
  \<open>bashDeleteTokenHistoryEntry token =
     ''if [ -n "${BASH_VERSION-}" ];then case "$(HISTTIMEFORMAT= builtin history 1)" in *'' @
     quoteTerminalCommand (quoteSplitTerminalCommandToken token) @ ''*) builtin '' @ bashDeleteCurrentHistoryEntry @ '';;esac;fi;''\<close>

text \<open>The back quote stands for the backslash, as in \<open>go_raw\<close>.\<close>

definition terminalCommandBootstrap :: "string \<Rightarrow> string \<Rightarrow> string" where
  \<open>terminalCommandBootstrap command token =
     (let quotedCommand = quoteTerminalCommand command; quotedToken = quoteSplitTerminalCommandToken token
      in ''if [ -n "$BASH_VERSION" ];then '' @ bashDeleteCurrentHistoryEntry @
         go_raw '';(ct_done=0;ct_finish(){ [ "$ct_done" = 1 ]&&return;ct_done=1;stty echo;printf '`035`034%s:%s`034`035' '' @ quotedToken @
         go_raw '' "$1";};trap 'ct_finish 130' 1 2 15;trap 'ct_finish $?' 0;stty -echo;printf '`036`037%s`037`036' '' @ quotedToken @
         '';"$BASH" --noprofile --norc -c '' @ quotedCommand @
         go_raw '';ct_rc=$?;ct_finish "$ct_rc";trap - 0 1 2 15);else printf '`035`034%s:UNSUPPORTED`034`035' '' @ quotedToken @ '';fi'')\<close>

text \<open>
  How a POSIX shell reads one word made of quoted parts and plain characters:
  \<open>None\<close> where the word would end, expand or stay open.
\<close>

datatype sh_mode = Bare | Single | Double

definition sh_plain :: "byte \<Rightarrow> bool" where
  "sh_plain c \<longleftrightarrow> word_rune (of_char c) \<or> c \<in> {CHR ''.'', CHR ''-'', CHR ''/'', CHR '':''}"

definition sh_expands :: "byte \<Rightarrow> bool" where
  "sh_expands c \<longleftrightarrow> c \<in> {CHR ''$'', CHR 0x60, CHR 0x5C}"

fun sh_word :: "sh_mode \<Rightarrow> string \<Rightarrow> string option" where
  "sh_word Bare [] = Some []"
| "sh_word m [] = None"
| "sh_word Bare (c # s) =
     (if c = single_quote then sh_word Single s
      else if c = CHR 0x22 then sh_word Double s
      else if sh_plain c then map_option ((#) c) (sh_word Bare s)
      else None)"
| "sh_word Single (c # s) = (if c = single_quote then sh_word Bare s else map_option ((#) c) (sh_word Single s))"
| "sh_word Double (c # s) =
     (if c = CHR 0x22 then sh_word Bare s
      else if sh_expands c then None
      else map_option ((#) c) (sh_word Double s))"

section \<open>Unsubmitted input\<close>

text \<open>The digits of a cursor-position reply: column seen, digits and number so far.\<close>

fun reply_scan :: "string \<Rightarrow> bool \<Rightarrow> nat \<Rightarrow> nat \<Rightarrow> bool \<times> bool" where
  "reply_scan [] column digits number = (False, True)"
| "reply_scan (b # bs) column digits number =
     (if is_digit b
      then if digits + 1 > 6 then (False, False)
           else reply_scan bs column (digits + 1) (number * 10 + digit_val b)
      else if b = CHR '';'' \<and> \<not> column \<and> digits > 0 \<and> number > 0 then reply_scan bs True 0 0
      else if b = CHR ''R'' \<and> column \<and> digits > 0 \<and> number > 0 \<and> bs = [] then (True, False)
      else (False, False))"

definition cursorPositionReply :: "string \<Rightarrow> bool \<times> bool" where
  "cursorPositionReply data =
     (if length data > 16 \<or> hd data \<noteq> CHR 0x1B then (False, False)
      else if length data = 1 then (False, True)
      else if data ! 1 \<noteq> CHR ''['' then (False, False)
      else reply_scan (drop 2 data) False 0 0)"

text \<open>One input byte: the pending flag and the reply collected so far.\<close>

definition input_byte :: "byte \<Rightarrow> bool \<times> string \<Rightarrow> bool \<times> string" where
  "input_byte value = (\<lambda>(pending, reply).
     if reply \<noteq> [] \<or> value = CHR 0x1B
     then let reply1 = reply @ [value]; (complete, possible) = cursorPositionReply reply1
          in if complete then (pending, [])
             else if possible then (pending, reply1)
             else (pending_byte value True, [])
     else (pending_byte value pending, reply))"

definition input_events :: "session_event list \<Rightarrow> bool \<times> string \<Rightarrow> bool \<times> string" where
  "input_events es st =
     fold (\<lambda>e st. if se_operation e \<noteq> OperationWrite \<or> se_actor e = ActorSystem then st
                  else fold input_byte (se_data e) st) es st"

definition terminalHasPendingInteractiveInput :: "goerr + activity_chunk \<Rightarrow> goerr + bool" where
  "terminalHasPendingInteractiveInput read =
     (case read of
        Inl e \<Rightarrow> Inl (ErrWrap e ''inspect terminal input activity'')
      | Inr activity \<Rightarrow>
          (case input_events (ac_events activity)
                  (ac_dropped activity \<or> ac_next activity > length (ac_events activity), []) of
             (pending, reply) \<Rightarrow> Inr (pending \<or> reply \<noteq> [])))"

section \<open>Marker waits\<close>

definition start_marker :: "string \<Rightarrow> string" where
  "start_marker token = [CHR 0x1E, CHR 0x1F] @ token @ [CHR 0x1F, CHR 0x1E]"

definition end_prefix :: "string \<Rightarrow> string" where
  "end_prefix token = [CHR 0x1D, CHR 0x1C] @ token @ '':''"

definition end_suffix :: string where "end_suffix = [CHR 0x1C, CHR 0x1D]"

type_synonym read_script = "(goerr + output_chunk) list"

definition overwritten :: "string \<Rightarrow> goerr" where
  "overwritten phase = ErrWrap ErrTerminalCommandProtocol (''Session output was overwritten before command '' @ phase)"

text \<open>
  \<open>waitStart\<close>: window, stream position of the window, cursor. The answer is the
  marker's end, which becomes the cursor, or an error with the cursor reached.
\<close>

fun waitStart_loop :: "string \<Rightarrow> string \<Rightarrow> nat \<Rightarrow> nat \<Rightarrow> read_script \<Rightarrow> ((goerr + nat) \<times> nat) option" where
  "waitStart_loop token pending pstart cursor [] = None"
| "waitStart_loop token pending pstart cursor (r # rs) =
     (case r of
        Inl e \<Rightarrow> Some (Inl e, cursor)
      | Inr chunk \<Rightarrow>
          if oc_dropped chunk then Some (Inl (overwritten ''start''), cursor)
          else
            let pending1 = pending @ oc_data chunk; keep = max (length (start_marker token)) (length (end_prefix token)) - 1
            in case str_index pending1 (start_marker token) of
                 Some i \<Rightarrow> (let markerEnd = pstart + (i + length (start_marker token)) in Some (Inr markerEnd, markerEnd))
               | None \<Rightarrow>
                   if str_contains pending1 (end_prefix token)
                   then Some (Inl ErrTerminalCommandRequiresBash, oc_next chunk)
                   else waitStart_loop token (window keep pending1) (pstart + (length pending1 - keep)) (oc_next chunk) rs)"

definition waitStart :: "string \<Rightarrow> nat \<Rightarrow> read_script \<Rightarrow> ((goerr + nat) \<times> nat) option" where
  "waitStart token cursor rs = waitStart_loop token [] cursor cursor rs"

text \<open>The completed end marker in the window, if there is one: its start, status and length.\<close>

definition find_end :: "string \<Rightarrow> string \<Rightarrow> (nat \<times> string \<times> nat) option" where
  "find_end token pending =
     (case str_index pending (end_prefix token) of
        None \<Rightarrow> None
      | Some i \<Rightarrow>
          let statusStart = i + length (end_prefix token)
          in case str_index (drop statusStart pending) end_suffix of
               None \<Rightarrow> None
             | Some k \<Rightarrow> Some (i, take k (drop statusStart pending), statusStart + k + length end_suffix))"

fun waitEnd_loop :: "string \<Rightarrow> string \<Rightarrow> nat \<Rightarrow> nat \<Rightarrow> read_script \<Rightarrow> ((goerr + int \<times> nat \<times> nat) \<times> nat) option" where
  "waitEnd_loop token pending pstart cursor [] = None"
| "waitEnd_loop token pending pstart cursor (r # rs) =
     (case r of
        Inl e \<Rightarrow> Some (Inl e, cursor)
      | Inr chunk \<Rightarrow>
          if oc_dropped chunk then Some (Inl (overwritten ''completion''), cursor)
          else
            let pending1 = pending @ oc_data chunk; keep = length (end_prefix token) + 8
            in case find_end token pending1 of
                 Some (i, status, e) \<Rightarrow>
                   (case go_Atoi status of
                      Some exitCode \<Rightarrow>
                        if exitCode < 0 \<or> exitCode > 255
                        then Some (Inl (ErrWrap ErrTerminalCommandProtocol (''invalid exit status '' @ status)), oc_next chunk)
                        else Some (Inr (exitCode, pstart + i, pstart + e), oc_next chunk)
                    | None \<Rightarrow> Some (Inl (ErrWrap ErrTerminalCommandProtocol (''invalid exit status '' @ status)), oc_next chunk))
               | None \<Rightarrow>
                   waitEnd_loop token (window keep pending1) (pstart + (length pending1 - keep)) (oc_next chunk) rs)"

definition waitEnd :: "string \<Rightarrow> nat \<Rightarrow> read_script \<Rightarrow> ((goerr + int \<times> nat \<times> nat) \<times> nat) option" where
  "waitEnd token cursor rs = waitEnd_loop token [] cursor cursor rs"

section \<open>Lemmas on quoting\<close>

lemma sh_word_escaped:
  "sh_word Single (concat (map (\<lambda>c. if c = single_quote
      then [single_quote, CHR 0x22, single_quote, CHR 0x22, single_quote] else [c]) v) @ [single_quote]) = Some v"
  by (induction v) (auto simp: single_quote_def sh_expands_def)

lemma sh_word_plain_single:
  "single_quote \<notin> set a \<Longrightarrow> sh_word Single (a @ single_quote # s) = map_option ((@) a) (sh_word Bare s)"
proof (induction a)
  case (Cons c a)
  then show ?case by (cases "sh_word Bare s") auto
next
  case Nil
  then show ?case by (cases "sh_word Bare s") auto
qed

section \<open>Properties of the pure parts\<close>

text \<open>
  Quoting for the target shell is exact: the shell reads the quoted command
  back as the one word the caller gave, byte for byte and whatever quotes it
  holds, and the split spelling of a marker token as that token.
\<close>

theorem terminal_quote_roundtrip:
  "sh_word Bare (quoteTerminalCommand command) = Some command \<and>
   (single_quote \<in> set token \<or> sh_word Bare (quoteSplitTerminalCommandToken token) = Some token)"
proof -
  have "sh_word Bare (quoteSplitTerminalCommandToken token) = Some token" if n: "single_quote \<notin> set token"
  proof -
    let ?a = "take (length token div 2) token" and ?b = "drop (length token div 2) token"
    have a: "single_quote \<notin> set ?a" "single_quote \<notin> set ?b"
      using n by (auto dest: in_set_takeD in_set_dropD)
    have "sh_word Single (?b @ single_quote # []) = Some ?b" using sh_word_plain_single [OF a(2), of "[]"] by simp
    then have "sh_word Single (?a @ single_quote # single_quote # ?b @ [single_quote]) = Some (?a @ ?b)"
      using sh_word_plain_single [OF a(1), of "single_quote # ?b @ [single_quote]"] by simp
    then show ?thesis by (simp add: quoteSplitTerminalCommandToken_def Let_def)
  qed
  then show ?thesis using sh_word_escaped [of command] by (auto simp: quoteTerminalCommand_def)
qed

lemma quote_bytes: "c \<in> set (quoteTerminalCommand v) \<Longrightarrow> c \<in> set v \<or> c = single_quote \<or> c = CHR 0x22"
  by (auto simp: quoteTerminalCommand_def split: if_splits)

lemma split_bytes: "c \<in> set (quoteSplitTerminalCommandToken v) \<Longrightarrow> c \<in> set v \<or> c = single_quote"
  by (auto simp: quoteSplitTerminalCommandToken_def Let_def dest: in_set_takeD in_set_dropD)

definition printable :: "byte \<Rightarrow> bool" where
  "printable c \<longleftrightarrow> 0x20 \<le> (of_char c :: int) \<and> (of_char c :: int) \<noteq> 0x7F"

lemma bootstrap_literals:
  \<open>list_all printable (bashDeleteCurrentHistoryEntry @ ''if [ -n "$BASH_VERSION" ];then '' @
     go_raw '';(ct_done=0;ct_finish(){ [ "$ct_done" = 1 ]&&return;ct_done=1;stty echo;printf '`035`034%s:%s`034`035' '' @
     go_raw '' "$1";};trap 'ct_finish 130' 1 2 15;trap 'ct_finish $?' 0;stty -echo;printf '`036`037%s`037`036' '' @
     '';"$BASH" --noprofile --norc -c '' @
     go_raw '';ct_rc=$?;ct_finish "$ct_rc";trap - 0 1 2 15);else printf '`035`034%s:UNSUPPORTED`034`035' '' @ '';fi'')\<close>
  by code_simp

lemma bootstrap_printable:
  assumes "list_all printable command" "list_all printable token"
  shows "list_all printable (terminalCommandBootstrap command token)"
proof -
  have q: "printable single_quote" "printable (CHR 0x22)" by (code_simp, code_simp)
  have c: "list_all printable (quoteTerminalCommand command)"
    using assms(1) q quote_bytes [of _ command] by (metis list_all_iff)
  have t: "list_all printable (quoteSplitTerminalCommandToken token)"
    using assms(2) q split_bytes [of _ token] by (metis list_all_iff)
  show ?thesis using bootstrap_literals c t
    by (simp only: terminalCommandBootstrap_def Let_def list_all_append)
qed

lemma unprintable_absent:
  assumes "list_all printable s" "\<not> printable c" shows "\<not> str_contains s (c # m)"
proof
  assume "str_contains s (c # m)"
  then obtain i where i: "str_index s (c # m) = Some i" by (auto simp: str_contains_def)
  have p: "has_prefix (drop i s) (c # m)" using str_index_Some [OF i] by simp
  then have "c \<in> set (drop i s)" by (auto simp: has_prefix_iff)
  then have "c \<in> set s" by (rule in_set_dropD)
  then show False using assms by (auto simp: list_all_iff)
qed

text \<open>
  The bootstrap line of an accepted command is one printable line: it holds no
  control byte at all, so its echo can neither submit a second line nor contain
  a start or end marker.
\<close>

theorem terminal_bootstrap_single_line:
  assumes "validateTerminalCommand command = None" "list_all printable token"
  shows "list_all printable (terminalCommandBootstrap command token) \<and>
    \<not> str_contains (terminalCommandBootstrap command token) (start_marker t) \<and>
    \<not> str_contains (terminalCommandBootstrap command token) (end_prefix t)"
proof -
  have "utf8_valid command" "\<not> list_ex is_control (go_runes command)"
    using assms(1) by (auto simp: validateTerminalCommand_def split: if_splits)
  then have "list_all printable command"
    using no_control_bytes by (auto simp: list_all_iff printable_def)
  then have p: "list_all printable (terminalCommandBootstrap command token)"
    using bootstrap_printable assms(2) by blast
  have "\<not> printable (CHR 0x1E)" "\<not> printable (CHR 0x1D)" by (code_simp, code_simp)
  then show ?thesis using p unprintable_absent [OF p] by (simp add: start_marker_def end_prefix_def)
qed

theorem terminal_bootstrap_single_line_witness:
  "list_all printable (terminalCommandBootstrap ''echo 'a b' && ls'' ''0f3c'')"
proof -
  let ?c = "''echo 'a b' && ls''"
  have "trim_space ?c \<noteq> []" "utf8_valid ?c" "\<not> list_ex is_control (go_runes ?c)" by (code_simp, code_simp, code_simp)
  moreover have "\<not> length ?c > MaxTerminalCommandBytes" by (simp add: MaxTerminalCommandBytes_def)
  ultimately have v: "validateTerminalCommand ?c = None" by (simp only: validateTerminalCommand_def if_False not_True_eq_False)
  have "list_all printable ''0f3c''" by code_simp
  from terminal_bootstrap_single_line [OF v this] show ?thesis by blast
qed

section \<open>The end marker\<close>

text \<open>The answers a Session gives a reader that keeps up, cut into the reads \<open>ds\<close>.\<close>

definition stream_reads :: "nat \<Rightarrow> string list \<Rightarrow> read_script" where
  "stream_reads c ds = contiguous c ds (\<lambda>next d. Inr \<lparr>oc_data = d, oc_next = next, oc_dropped = False\<rparr>)"

lemma stream_reads_simps [simp]:
  "stream_reads c [] = []"
  "stream_reads c (d # ds) = Inr \<lparr>oc_data = d, oc_next = c + length d, oc_dropped = False\<rparr> # stream_reads (c + length d) ds"
  by (simp_all add: stream_reads_def)

definition end_marker :: "string \<Rightarrow> string \<Rightarrow> string" where
  "end_marker token status = end_prefix token @ status @ end_suffix"

lemma suffix_in_status:
  assumes "CHR 0x1C \<notin> set status"
  shows "str_index (take n (status @ end_suffix @ post)) end_suffix =
    (if length status + 2 \<le> n then Some (length status) else None)"
proof -
  let ?R = "status @ end_suffix @ post"
  have none: "\<not> has_prefix (drop j ?R) end_suffix" if "j < length status" for j
  proof -
    have "drop j ?R = status ! j # drop (Suc j) ?R"
      using that by (simp add: Cons_nth_drop_Suc [symmetric] nth_append)
    moreover have "status ! j \<noteq> CHR 0x1C" using that assms nth_mem by metis
    ultimately show ?thesis by (simp add: has_prefix_def end_suffix_def)
  qed
  have at: "has_prefix (drop (length status) ?R) end_suffix" by (simp add: has_prefix_def)
  show ?thesis
  proof (cases "length status + 2 \<le> n")
    case True
    have "str_index (take n ?R) end_suffix = Some (length status)"
    proof (rule str_indexI)
      show "has_prefix (drop (length status) (take n ?R)) end_suffix"
        using True by (simp add: has_prefix_def end_suffix_def take_Cons' drop_take)
      show "length status \<le> length (take n ?R)" using True by (simp add: end_suffix_def)
      show "\<not> has_prefix (drop j (take n ?R)) end_suffix" if "j < length status" for j
        using none [OF that] has_prefix_take by blast
    qed
    then show ?thesis using True by simp
  next
    case False
    have "\<not> has_prefix (drop j (take n ?R)) end_suffix" for j
    proof
      assume h: "has_prefix (drop j (take n ?R)) end_suffix"
      then have "\<not> j < length status" using none has_prefix_take by blast
      moreover have "j + 2 \<le> n" using has_prefix_length [OF h] by (simp add: end_suffix_def)
      ultimately show False using False by simp
    qed
    then have "str_index (take n ?R) end_suffix = None" by (rule str_index_NoneI)
    then show ?thesis using False by simp
  qed
qed

text \<open>What the window holds once the first \<open>n\<close> bytes of a stream with one end marker are read.\<close>

lemma find_end_window:
  assumes stream: "stream = pre @ end_marker token status @ post"
    and first: "str_index stream (end_prefix token) = Some (length pre)"
    and status: "CHR 0x1C \<notin> set status" and n: "n \<le> length stream" "off \<le> n" "off \<le> length pre"
  shows "find_end token (drop off (take n stream)) =
    (if length pre + length (end_marker token status) \<le> n
     then Some (length pre - off, status, length pre + length (end_marker token status) - off) else None)"
proof -
  let ?P = "end_prefix token" and ?w = "drop off (take n stream)"
  have no: "\<not> has_prefix (drop j stream) ?P" if "j < length pre" for j
    using str_index_Some [OF first] that by blast
  have len: "length (end_marker token status) = length ?P + length status + 2"
    by (simp add: end_marker_def end_suffix_def)
  show ?thesis
  proof (cases "length pre + length ?P \<le> n")
    case False
    have "\<not> has_prefix (drop j ?w) ?P" for j
    proof
      assume h: "has_prefix (drop j ?w) ?P"
      then have "has_prefix (drop (j + off) stream) ?P" using has_prefix_take [of "j + off" n stream] by (simp add: add.commute)
      then have "length pre \<le> j + off" using no by (meson not_le)
      moreover have "length ?P \<le> n - off - j" using has_prefix_length [OF h] n(1) by simp
      moreover have "0 < length ?P" by (simp add: end_prefix_def)
      ultimately show False using False n(2) by linarith
    qed
    then have "str_index ?w ?P = None" by (rule str_index_NoneI)
    then show ?thesis using False len by (simp add: find_end_def)
  next
    case True
    have rest: "drop (length pre + length ?P) stream = status @ end_suffix @ post"
      using stream by (simp add: end_marker_def)
    have idx: "str_index ?w ?P = Some (length pre - off)"
    proof (rule str_indexI)
      have "drop (length pre) (take n stream) = ?P @ take (n - length pre - length ?P) (status @ end_suffix @ post)"
        using stream True by (simp add: end_marker_def drop_take)
      then have "drop (length pre - off) ?w = ?P @ take (n - length pre - length ?P) (status @ end_suffix @ post)"
        using n(3) by simp
      then show "has_prefix (drop (length pre - off) ?w) ?P" by simp
      show "length pre - off \<le> length ?w" using True n by simp
      show "\<not> has_prefix (drop j ?w) ?P" if "j < length pre - off" for j
      proof -
        have "j + off < length pre" using that by simp
        then have "\<not> has_prefix (drop (j + off) (take n stream)) ?P" using no has_prefix_take by blast
        then show ?thesis by (simp add: add.commute)
      qed
    qed
    have tail: "drop (length pre - off + length ?P) ?w = take (n - (length pre + length ?P)) (status @ end_suffix @ post)"
    proof -
      have "length pre - off + length ?P + off = length pre + length ?P" using n(3) by simp
      then have "drop (length pre - off + length ?P) ?w = drop (length pre + length ?P) (take n stream)" by simp
      then show ?thesis using rest by (simp add: drop_take)
    qed
    have cond: "length status + 2 \<le> n - (length pre + length ?P) \<longleftrightarrow> length pre + length (end_marker token status) \<le> n"
      using True len by linarith
    show ?thesis
    proof (cases "length pre + length (end_marker token status) \<le> n")
      case True
      have "take (length status) (take (n - (length pre + length ?P)) (status @ end_suffix @ post)) = status"
        using True len by simp
      moreover have "str_index (drop (length pre - off + length ?P) ?w) end_suffix = Some (length status)"
        unfolding tail suffix_in_status [OF status] using cond True by simp
      moreover have "length end_suffix = 2" by (simp add: end_suffix_def)
      ultimately have "find_end token ?w = Some (length pre - off, status, length pre - off + length ?P + length status + 2)"
        using idx tail by (simp add: find_end_def Let_def)
      then show ?thesis using True len n(3) by simp
    next
      case False
      moreover have "str_index (drop (length pre - off + length ?P) ?w) end_suffix = None"
        unfolding tail suffix_in_status [OF status] using cond False by simp
      ultimately show ?thesis using idx by (simp add: find_end_def Let_def)
    qed
  qed
qed

lemma drop_sub: "n \<le> length s \<Longrightarrow> window k (drop off (take n s)) = drop (off + (n - off - k)) (take n s)"
  by (simp add: window_def add.commute)

lemma waitEnd_stream:
  assumes stream: "stream = pre @ end_marker token status @ post"
    and first: "str_index stream (end_prefix token) = Some (length pre)"
    and status: "CHR 0x1C \<notin> set status" "length status \<le> 6" "go_Atoi status = Some code" "0 \<le> code" "code \<le> 255"
  shows "n \<le> length stream \<Longrightarrow> concat ds = drop n stream \<Longrightarrow> off \<le> n \<Longrightarrow> off \<le> length pre \<Longrightarrow>
      n < length pre + length (end_marker token status) \<Longrightarrow>
    \<exists>cur. waitEnd_loop token (drop off (take n stream)) (c + off) (c + n) (stream_reads (c + n) ds) =
      Some (Inr (code, c + length pre, c + length pre + length (end_marker token status)), cur)"
proof (induction ds arbitrary: n off)
  case Nil
  then have "length stream \<le> n" by simp
  moreover have "length pre + length (end_marker token status) \<le> length stream" using stream by simp
  ultimately show ?case using Nil.prems(5) by simp
next
  case (Cons d ds)
  let ?n = "n + length d" and ?m = "length (end_marker token status)" and ?k = "length (end_prefix token) + 8"
  have d: "d = take (length d) (drop n stream)" "concat ds = drop ?n stream"
    using Cons.prems(2) by (metis append_eq_conv_conj concat.simps(2), metis add.commute append_eq_conv_conj concat.simps(2) drop_drop)
  have le: "?n \<le> length stream"
    using d(1) Cons.prems(1) by (metis Nat.le_diff_conv2 add.commute length_drop length_take min.bounded_iff order_refl)
  have w: "drop off (take n stream) @ d = drop off (take ?n stream)"
  proof -
    have "take n stream @ d = take ?n stream" using d(1) by (metis take_add)
    moreover have "off \<le> length (take n stream)" using Cons.prems(1,3) by simp
    ultimately show ?thesis by (metis drop_append diff_is_0_eq drop_0)
  qed
  have off: "off \<le> ?n" using Cons.prems(3) by simp
  note fe = find_end_window [OF stream first status(1) le off Cons.prems(4)]
  show ?case
  proof (cases "length pre + ?m \<le> ?n")
    case True
    have "c + off + (length pre - off) = c + length pre" "c + off + (length pre + ?m - off) = c + length pre + ?m"
      using Cons.prems(4) by simp_all
    then show ?thesis using fe True status(3-5) w by simp
  next
    case False
    let ?off = "off + (?n - off - ?k)"
    have "?m = length (end_prefix token) + length status + 2" by (simp add: end_marker_def end_suffix_def)
    then have o: "?off \<le> length pre" using False status(2) Cons.prems(4) by linarith
    have o2: "?off \<le> ?n" using off by simp
    have "length (drop off (take ?n stream)) - ?k = ?n - off - ?k" using le by simp
    then have "waitEnd_loop token (drop off (take n stream)) (c + off) (c + n) (stream_reads (c + n) (d # ds)) =
      waitEnd_loop token (drop ?off (take ?n stream)) (c + ?off) (c + ?n) (stream_reads (c + ?n) ds)"
      using fe False w drop_sub [OF le, of ?k off] by (simp add: Let_def add.assoc)
    then show ?thesis using Cons.IH [OF le d(2) o2 o] False by simp
  qed
qed

lemma status_text:
  assumes "code \<le> 255"
  shows "CHR 0x1C \<notin> set (format_nat code)" "length (format_nat code) \<le> 6" "go_Atoi (format_nat code) = Some (int code)"
proof -
  have "\<not> is_digit (CHR 0x1C)" by code_simp
  then show "CHR 0x1C \<notin> set (format_nat code)" using format_nat_digits by blast
  have "length (format_nat n) \<le> 3" if "n < 1000" for n
  proof -
    have "length (format_nat n) \<le> 1" if "n < 10" for n using that by (subst format_nat.simps) simp
    then have "length (format_nat n) \<le> 2" if "n < 100" for n using that by (subst format_nat.simps) (auto simp: le_Suc_eq)
    then show ?thesis using that by (subst format_nat.simps) (auto simp: le_Suc_eq)
  qed
  from this [of code] show "length (format_nat code) \<le> 6" using assms by simp
  show "go_Atoi (format_nat code) = Some (int code)"
    using go_Atoi_format [of "int code"] assms by (simp add: format_int_def)
qed

text \<open>
  The end of a command is found exactly, however its output is cut into reads:
  when the output after the start marker is \<open>pre\<close>, then the end marker with an exit
  code, then anything, the wait returns that code with the marker's stream
  positions, although it never keeps more than the marker prefix and eight bytes.
\<close>

theorem terminal_command_end_exact:
  assumes "concat reads = pre @ end_marker token (format_nat code) @ post"
    and "str_index (concat reads) (end_prefix token) = Some (length pre)" "code \<le> 255"
  shows "\<exists>cur. waitEnd token cursor (stream_reads cursor reads) =
    Some (Inr (int code, cursor + length pre, cursor + length pre + length (end_marker token (format_nat code))), cur)"
  using waitEnd_stream [OF assms(1,2) status_text [OF assms(3)], of 0 reads 0 cursor] assms(3)
  by (simp add: waitEnd_def end_marker_def end_prefix_def)

theorem terminal_command_end_exact_witness:
  "\<exists>cur. waitEnd ''ab'' 7 (stream_reads 7 [''ok'', [CHR 0x1D], CHR 0x1C # ''ab:1'', ''30'' @ [CHR 0x1C], [CHR 0x1D] @ ''$ '']) =
    Some (Inr (130, 9, 19), cur)"
proof -
  let ?r = "[''ok'', [CHR 0x1D], CHR 0x1C # ''ab:1'', ''30'' @ [CHR 0x1C], [CHR 0x1D] @ ''$ '']"
  have "concat ?r = ''ok'' @ end_marker ''ab'' (format_nat 130) @ ''$ ''" by code_simp
  moreover have "str_index (concat ?r) (end_prefix ''ab'') = Some (length ''ok'')" by code_simp
  ultimately have "\<exists>cur. waitEnd ''ab'' 7 (stream_reads 7 ?r) =
    Some (Inr (int 130, 7 + length ''ok'', 7 + length ''ok'' + length (end_marker ''ab'' (format_nat 130))), cur)"
    by (rule terminal_command_end_exact) simp
  moreover have "length (end_marker ''ab'' (format_nat 130)) = 10" by code_simp
  ultimately show ?thesis by simp
qed

end
