(* ===== verification/Terminal_Command_Run.thy ===== *)
theory Terminal_Command_Run
  imports Terminal_Command
begin

text \<open>
  \<open>ExecuteTerminalCommand\<close> and its recovery (\<open>terminal_command.go\<close>) as a function
  from the answers of the calls it makes to its result and the trace of its
  effects, deferred calls included, in the order the code runs them; and the
  contracts of the start wait and of the inspection of unsubmitted input.
\<close>

section \<open>The start marker\<close>

lemma first_take:
  assumes "str_index s m = Some p" "m \<noteq> []"
  shows "str_index (take n s) m = (if p + length m \<le> n then Some p else None)"
proof -
  have i: "has_prefix (drop p s) m" "\<And>j. j < p \<Longrightarrow> \<not> has_prefix (drop j s) m" using str_index_Some [OF assms(1)] by auto
  show ?thesis
  proof (cases "p + length m \<le> n")
    case True
    have "str_index (take n s) m = Some p"
    proof (rule str_indexI)
      obtain t where "drop p s = m @ t" using i(1) by (auto simp: has_prefix_iff)
      then have "drop p (take n s) = m @ take (n - p - length m) t" using True by (simp add: drop_take)
      then show "has_prefix (drop p (take n s)) m" by simp
      show "p \<le> length (take n s)" using True str_index_bound [OF assms(1)] by simp
      show "\<not> has_prefix (drop j (take n s)) m" if "j < p" for j using i(2) [OF that] has_prefix_take by blast
    qed
    then show ?thesis using True by simp
  next
    case False
    have "\<not> has_prefix (drop j (take n s)) m" for j
    proof
      assume h: "has_prefix (drop j (take n s)) m"
      then have "p \<le> j" using i(2) has_prefix_take by (meson not_le)
      moreover have "length m \<le> n - j" using has_prefix_length [OF h] by simp
      moreover have "0 < length m" using assms(2) by simp
      ultimately show False using False by linarith
    qed
    then have "str_index (take n s) m = None" by (rule str_index_NoneI)
    then show ?thesis using False by simp
  qed
qed

lemma str_contains_drop: "str_contains (drop n s) m \<Longrightarrow> str_contains s m"
proof -
  assume "str_contains (drop n s) m"
  then obtain i where "str_index (drop n s) m = Some i" by (auto simp: str_contains_def)
  then have "has_prefix (drop (i + n) s) m" using str_index_Some by fastforce
  then show ?thesis using str_index_None [of s m] unfolding str_contains_def by blast
qed

lemma str_contains_take: "str_contains (take n s) m \<Longrightarrow> n \<le> k \<Longrightarrow> str_contains (take k s) m"
  using str_contains_append [of "take n s" m "take (k - n) (drop n s)"] by (simp add: take_add [symmetric])

lemma waitStart_stream:
  assumes first: "str_index stream (start_marker token) = Some p"
    and none: "\<not> str_contains (take (p + length (start_marker token)) stream) (end_prefix token)"
  shows "n \<le> length stream \<Longrightarrow> concat ds = drop n stream \<Longrightarrow> n < p + length (start_marker token) \<Longrightarrow>
    waitStart_loop token (window (length token + 3) (take n stream)) (c + (n - (length token + 3))) (c + n) (stream_reads (c + n) ds) =
      Some (Inr (c + p + length (start_marker token)), c + p + length (start_marker token))"
proof (induction ds arbitrary: n)
  case Nil
  then show ?case using str_index_bound [OF first] by simp
next
  case (Cons d ds)
  let ?m = "start_marker token" and ?k = "length token + 3" and ?n = "n + length d"
  have keep: "max (length ?m) (length (end_prefix token)) - 1 = ?k" by (simp add: start_marker_def end_prefix_def)
  have m: "?m \<noteq> []" "length ?m \<le> Suc ?k" by (simp_all add: start_marker_def)
  have d: "d = take (length d) (drop n stream)" "concat ds = drop ?n stream"
    using Cons.prems(2) by (metis append_eq_conv_conj concat.simps(2), metis add.commute append_eq_conv_conj concat.simps(2) drop_drop)
  have le: "?n \<le> length stream"
    using d(1) Cons.prems(1) by (metis Nat.le_diff_conv2 add.commute length_drop length_take min.bounded_iff order_refl)
  have sd: "take n stream @ d = take ?n stream" using d(1) by (metis take_add)
  have len: "length (take n stream) = n" using Cons.prems(1) by simp
  have old: "str_index (take n stream) ?m = None" using first_take [OF first m(1)] Cons.prems(3) by simp
  note ws = window_search [OF old m(2,1), of d, unfolded sd len]
  let ?w = "window ?k (take n stream) @ d"
  show ?case
  proof (cases "p + length ?m \<le> ?n")
    case True
    then have a: "str_index (take ?n stream) ?m = Some p" using first_take [OF first m(1)] by simp
    then have "str_index ?w ?m = Some (p - (n - ?k))" "n - ?k \<le> p" using ws by auto
    then show ?thesis using keep by (simp add: Let_def)
  next
    case False
    then have "str_index (take ?n stream) ?m = None" using first_take [OF first m(1)] by simp
    then have a: "str_index ?w ?m = None" using ws by simp
    have "?w = drop (n - ?k) (take ?n stream)" using sd len by (simp add: window_def flip: sd)
    then have b: "\<not> str_contains ?w (end_prefix token)"
      using none str_contains_drop str_contains_take [of ?n stream "end_prefix token" "p + length ?m"] False
      by (metis nat_le_linear)
    have w: "window ?k ?w = window ?k (take ?n stream)" using window_window [of ?k "take n stream" d] sd by simp
    have "n - ?k + (length ?w - ?k) = ?n - ?k" using len by (simp add: length_window)
    then have "waitStart_loop token (window ?k (take n stream)) (c + (n - ?k)) (c + n) (stream_reads (c + n) (d # ds)) =
        waitStart_loop token (window ?k (take ?n stream)) (c + (?n - ?k)) (c + ?n) (stream_reads (c + ?n) ds)"
      using a b w keep by (simp add: Let_def add.assoc)
    then show ?thesis using Cons.IH [OF le d(2)] False by simp
  qed
qed

lemma waitStart_exact:
  assumes "str_index (concat reads) (start_marker token) = Some p"
    and "\<not> str_contains (take (p + length (start_marker token)) (concat reads)) (end_prefix token)"
  shows "waitStart token c (stream_reads c reads) =
    Some (Inr (c + p + length (start_marker token)), c + p + length (start_marker token))"
  using waitStart_stream [OF assms, of 0 reads c]
  by (simp add: waitStart_def window_def start_marker_def)

section \<open>Inspection of unsubmitted input\<close>

lemma input_byte_plain: "v \<noteq> CHR 0x1B \<Longrightarrow> input_byte v (pending, []) = (pending_byte v pending, [])"
  by (simp add: input_byte_def)

lemma input_bytes_plain:
  "CHR 0x1B \<notin> set bs \<Longrightarrow> fold input_byte bs (pending, []) = (fold pending_byte bs pending, [])"
  by (induction bs arbitrary: pending) (auto simp: input_byte_plain)

definition user_bytes :: "session_event list \<Rightarrow> string" where
  "user_bytes es = concat (map se_data (filter (\<lambda>e. se_operation e = OperationWrite \<and> se_actor e \<noteq> ActorSystem) es))"

lemma input_events_plain:
  "CHR 0x1B \<notin> set (user_bytes es) \<Longrightarrow> input_events es (pending, []) = (fold pending_byte (user_bytes es) pending, [])"
proof (induction es arbitrary: pending)
  case (Cons e es)
  have u: "user_bytes (e # es) = (if se_operation e = OperationWrite \<and> se_actor e \<noteq> ActorSystem then se_data e else []) @ user_bytes es"
    by (simp add: user_bytes_def)
  have i: "input_events (e # es) st = input_events es (if se_operation e \<noteq> OperationWrite \<or> se_actor e = ActorSystem then st
      else fold input_byte (se_data e) st)" for st
    by (simp add: input_events_def)
  show ?case using Cons u by (auto simp: i input_bytes_plain)
qed (simp add: input_events_def user_bytes_def)

text \<open>
  The inspection before an automated command agrees with the Session's own
  summary: on retained input without escape sequences it answers what
  \<open>HasPendingInput\<close> computes byte by byte, starting from pending when older
  activity is lost; so lost activity alone never passes for an empty line.
\<close>

theorem terminal_input_inspection:
  assumes "CHR 0x1B \<notin> set (user_bytes (ac_events a))"
  shows "terminalHasPendingInteractiveInput (Inr a) =
      Inr (fold pending_byte (user_bytes (ac_events a)) (ac_dropped a \<or> length (ac_events a) < ac_next a)) \<and>
    (ac_dropped a \<and> list_all (\<lambda>c. c \<notin> {CHR 0x0D, CHR 0x0A, CHR 0x03, CHR 0x15}) (user_bytes (ac_events a)) \<longrightarrow>
      terminalHasPendingInteractiveInput (Inr a) = Inr True)"
proof -
  have e: "terminalHasPendingInteractiveInput (Inr a) =
      Inr (fold pending_byte (user_bytes (ac_events a)) (ac_dropped a \<or> length (ac_events a) < ac_next a))"
    using input_events_plain [OF assms] by (simp add: terminalHasPendingInteractiveInput_def)
  have "list_all (\<lambda>c. c \<notin> {CHR 0x0D, CHR 0x0A, CHR 0x03, CHR 0x15}) bs \<Longrightarrow> fold pending_byte bs True" for bs
    by (induction bs) (auto simp: pending_byte_def)
  then show ?thesis using e by simp
qed

theorem terminal_input_inspection_witness:
  "terminalHasPendingInteractiveInput (Inr \<lparr>ac_events = [\<lparr>se_timestamp = 0, se_actor = ActorUser, se_operation = OperationWrite,
      se_data = [CHR 0x0D, CHR ''l'', CHR ''s'']\<rparr>], ac_next = 4, ac_dropped = True\<rparr>) = Inr True"
proof -
  let ?a = "\<lparr>ac_events = [\<lparr>se_timestamp = 0, se_actor = ActorUser, se_operation = OperationWrite,
      se_data = [CHR 0x0D, CHR ''l'', CHR ''s'']\<rparr>], ac_next = 4, ac_dropped = True\<rparr>"
  have u: "user_bytes (ac_events ?a) = [CHR 0x0D, CHR ''l'', CHR ''s'']" by code_simp
  have "CHR 0x1B \<notin> set (user_bytes (ac_events ?a))" unfolding u by simp
  from conjunct1 [OF terminal_input_inspection [OF this]] show ?thesis
    unfolding u by (simp add: pending_byte_def)
qed

section \<open>The operation\<close>

definition ErrSessionNotFound :: goerr where "ErrSessionNotFound = ErrSentinel ''app.ErrSessionNotFound''"

record tc_result =
  tr_session :: string
  tr_command :: string
  tr_exit :: int
  tr_start :: nat
  tr_end :: nat

definition no_result :: tc_result where
  "no_result = \<lparr>tr_session = [], tr_command = [], tr_exit = 0, tr_start = 0, tr_end = 0\<rparr>"

text \<open>What the operation does to the world, in order.\<close>

datatype tc_effect =
    TcAcquired string                       \<comment> \<open>a granted \<open>AcquireLease\<close>\<close>
  | TcPublish event_type actor metadata
  | TcWrite string                          \<comment> \<open>\<open>writeSession\<close> with the owned lease\<close>
  | TcCancel                                \<comment> \<open>\<open>cancelExecution\<close>\<close>
  | TcJoinRenewal                           \<comment> \<open>\<open><-renewDone\<close>\<close>
  | TcRelease                               \<comment> \<open>\<open>ReleaseLease\<close>\<close>
  | TcRemoveClose                           \<comment> \<open>\<open>removeAndCloseSession\<close>\<close>
  | TcLeaseRemove                           \<comment> \<open>\<open>leases.remove\<close>\<close>

text \<open>
  The answers of the calls: entry context, Session lookup, the two tokens, the
  lease, the activity, the output tail, the bootstrap write, the reads of the three
  waits, the execution context's cause after a failed wait, the interrupt write,
  the close, the explicit and the deferred release; and \<open>error.Error()\<close>.
\<close>

record tc_env =
  xe_ctx :: "goerr option"
  xe_session :: "goerr + string"
  xe_token :: "goerr + string"
  xe_owner :: "goerr + string"
  xe_acquire :: "goerr option"
  xe_activity :: "goerr + activity_chunk"
  xe_recent :: "goerr + output_chunk"
  xe_write :: "goerr option"
  xe_starts :: read_script
  xe_start_cause :: "goerr option"
  xe_ends :: read_script
  xe_end_cause :: "goerr option"
  xe_interrupt :: "goerr option"
  xe_recovery :: read_script
  xe_close :: "goerr option"
  xe_release :: "goerr option"
  xe_deferred :: "goerr option"
  xe_text :: "goerr \<Rightarrow> string"

type_synonym tc_outcome = "tc_effect list \<times> tc_result \<times> goerr option"

definition sessionOutputCursor :: "goerr + output_chunk \<Rightarrow> nat" where
  "sessionOutputCursor r = (case r of Inl e \<Rightarrow> 0 | Inr chunk \<Rightarrow> oc_next chunk)"

definition terminalCommandExecutionError :: "goerr option \<Rightarrow> goerr \<Rightarrow> goerr" where
  "terminalCommandExecutionError cause fallback = (case cause of Some e \<Rightarrow> e | None \<Rightarrow> fallback)"

text \<open>\<open>hidden\<close> is the optional hidden range; it is published only when it is not empty.\<close>

definition publishTerminalCommandFailed :: "tc_env \<Rightarrow> string \<Rightarrow> goerr \<Rightarrow> (nat \<times> nat) option \<Rightarrow> tc_effect" where
  "publishTerminalCommandFailed env commandID e hidden =
     TcPublish EventTerminalCommandFailed ActorSystem
       (Some ([(''command_id'', GString commandID), (''error'', GString (xe_text env e))] @
          (case hidden of
             None \<Rightarrow> []
           | Some (a, b) \<Rightarrow>
               if a < b then [(''output_cursor'', GInt (int a)), (''hidden_start'', GInt (int a)), (''hidden_end'', GInt (int b))]
               else [])))"

definition recoverTerminalCommand :: "tc_env \<Rightarrow> string \<Rightarrow> string \<Rightarrow> nat \<Rightarrow> tc_result \<Rightarrow> goerr \<Rightarrow> tc_outcome option" where
  "recoverTerminalCommand env token commandID cursor result cause =
     (let pre = [TcCancel, TcWrite [CHR 0x03]];
          failed = (\<lambda>interruptErr.
            (pre @ [publishTerminalCommandFailed env commandID (ErrJoin cause interruptErr) (Some (0, 0)), TcRemoveClose, TcLeaseRemove],
             result,
             err_join (err_join (Some cause) (Some (ErrWrap interruptErr ''terminal command recovery failed; Session closed'')))
               (xe_close env)))
      in case xe_interrupt env of
           Some e \<Rightarrow> Some (failed e)
         | None \<Rightarrow>
             (case waitEnd token cursor (xe_recovery env) of
                None \<Rightarrow> None
              | Some (Inl e, _) \<Rightarrow> Some (failed e)
              | Some (Inr (exitCode, outputEnd, markerEnd), _) \<Rightarrow>
                  Some (pre @ [publishTerminalCommandFailed env commandID cause (Some (outputEnd, markerEnd))],
                        result\<lparr>tr_exit := exitCode, tr_end := outputEnd\<rparr>, Some cause)))"

text \<open>The deferred lease release, unless the command released it itself.\<close>

definition deferred_release :: "tc_env \<Rightarrow> bool \<Rightarrow> tc_outcome \<Rightarrow> tc_outcome" where
  "deferred_release env released = (\<lambda>(fx, result, err).
     if released then (fx, result, err)
     else (fx @ [TcRelease], result,
           (case xe_deferred env of
              Some e \<Rightarrow> if err_is e ErrSessionNotFound then err
                        else err_join err (Some (ErrWrap e ''release terminal command lease''))
            | None \<Rightarrow> err)))"

text \<open>The deferred end of the lease renewal.\<close>

definition deferred_renewal :: "tc_outcome \<Rightarrow> tc_outcome" where
  "deferred_renewal = (\<lambda>(fx, result, err). (fx @ [TcCancel, TcJoinRenewal], result, err))"

text \<open>The part behind the start marker, with the flag \<open>released\<close>.\<close>

definition await_end :: "tc_env \<Rightarrow> string \<Rightarrow> string \<Rightarrow> nat \<Rightarrow> tc_result \<Rightarrow> (tc_outcome \<times> bool) option" where
  "await_end env token commandID outputStart result0 =
     (let result = result0\<lparr>tr_start := outputStart\<rparr>;
          started = [TcPublish EventTerminalCommandOutputStarted ActorSystem
            (Some [(''command_id'', GString commandID), (''output_cursor'', GInt (int outputStart))])]
      in case waitEnd token outputStart (xe_ends env) of
           None \<Rightarrow> None
         | Some (Inl e, cursor) \<Rightarrow>
             map_option (\<lambda>(fx, r, err). ((started @ fx, r, err), False))
               (recoverTerminalCommand env token commandID cursor result (terminalCommandExecutionError (xe_end_cause env) e))
         | Some (Inr (exitCode, outputEnd, markerEnd), _) \<Rightarrow>
             let r = result\<lparr>tr_exit := exitCode, tr_end := outputEnd\<rparr>;
                 fx = started @ [TcPublish EventTerminalCommandCompleted ActorAgent
                   (Some [(''command_id'', GString commandID), (''exit_code'', GInt exitCode),
                     (''output_cursor'', GInt (int outputEnd)), (''hidden_start'', GInt (int outputEnd)),
                     (''hidden_end'', GInt (int markerEnd))]), TcCancel, TcRelease]
             in Some (case xe_release env of
                        Some e \<Rightarrow> ((fx, r, Some (ErrWrap e ''release terminal command lease'')), False)
                      | None \<Rightarrow> ((fx, r, None), True)))"

text \<open>From the started event on: write the bootstrap, wait for the start, then for the end.\<close>

definition run_command :: "tc_env \<Rightarrow> string \<Rightarrow> string \<Rightarrow> string \<Rightarrow> tc_result \<Rightarrow> (tc_outcome \<times> bool) option" where
  "run_command env command token commandID result =
     (let startCursor = sessionOutputCursor (xe_recent env);
          fx = [TcPublish EventTerminalCommandStarted ActorAgent
                  (Some [(''command_id'', GString commandID), (''command'', GString command),
                    (''output_cursor'', GInt (int startCursor))]),
                TcWrite (terminalCommandBootstrap command token @ [CHR 0x0A])]
      in map_option (\<lambda>((fx2, r, err), released). ((fx @ fx2, r, err), released))
        (case xe_write env of
           Some e \<Rightarrow>
             Some (([publishTerminalCommandFailed env commandID e None, TcCancel], result,
               Some (ErrWrap e ''start terminal command'')), False)
         | None \<Rightarrow>
             (case waitStart token startCursor (xe_starts env) of
                None \<Rightarrow> None
              | Some (Inl e0, cursor) \<Rightarrow>
                  (let e = terminalCommandExecutionError (xe_start_cause env) e0
                   in if err_is e ErrTerminalCommandRequiresBash
                      then Some (([publishTerminalCommandFailed env commandID e None, TcCancel], result, Some e), False)
                      else map_option (\<lambda>out. (out, False)) (recoverTerminalCommand env token commandID cursor result e))
              | Some (Inr outputStart, _) \<Rightarrow> await_end env token commandID outputStart result)))"

definition ExecuteTerminalCommand :: "tc_env \<Rightarrow> string \<Rightarrow> tc_outcome option" where
  "ExecuteTerminalCommand env command =
     (case xe_ctx env of Some e \<Rightarrow> Some ([], no_result, Some e) | None \<Rightarrow>
      case validateTerminalCommand command of Some e \<Rightarrow> Some ([], no_result, Some e) | None \<Rightarrow>
      case xe_session env of Inl e \<Rightarrow> Some ([], no_result, Some e) | Inr sid \<Rightarrow>
      case xe_token env of Inl e \<Rightarrow> Some ([], no_result, Some e) | Inr token \<Rightarrow>
      case xe_owner env of Inl e \<Rightarrow> Some ([], no_result, Some e) | Inr ownerToken \<Rightarrow>
      case xe_acquire env of Some e \<Rightarrow> Some ([], no_result, Some e) | None \<Rightarrow>
      let owner = ''terminal-command-'' @ ownerToken; commandID = ''CMD-'' @ token;
          result = no_result\<lparr>tr_session := sid, tr_command := commandID\<rparr>
      in map_option (\<lambda>(fx, r, err). (TcAcquired owner # fx, r, err))
        (case terminalHasPendingInteractiveInput (xe_activity env) of
           Inl e \<Rightarrow> Some (deferred_release env False ([], result, Some e))
         | Inr True \<Rightarrow>
             Some (deferred_release env False
               ([publishTerminalCommandFailed env commandID ErrTerminalCommandInputPending None], result,
                Some ErrTerminalCommandInputPending))
         | Inr False \<Rightarrow>
             map_option (\<lambda>(out, released). deferred_release env released (deferred_renewal out))
               (run_command env command token commandID result)))"

section \<open>Every command is concluded\<close>

fun is_started :: "tc_effect \<Rightarrow> bool" where
  "is_started (TcPublish t a m) = (t = EventTerminalCommandStarted)"
| "is_started _ = False"

fun is_concluded :: "tc_effect \<Rightarrow> bool" where
  "is_concluded (TcPublish t a m) = (t = EventTerminalCommandCompleted \<or> t = EventTerminalCommandFailed)"
| "is_concluded _ = False"

fun is_completed :: "tc_effect \<Rightarrow> bool" where
  "is_completed (TcPublish t a m) = (t = EventTerminalCommandCompleted)"
| "is_completed _ = False"

lemma failed_event [simp]:
  "is_concluded (publishTerminalCommandFailed env c e h)" "\<not> is_started (publishTerminalCommandFailed env c e h)"
  "\<not> is_completed (publishTerminalCommandFailed env c e h)" "publishTerminalCommandFailed env c e h \<noteq> TcRelease"
  "publishTerminalCommandFailed env c e h \<noteq> TcRemoveClose" "publishTerminalCommandFailed env c e h \<noteq> TcAcquired ow"
  by (simp_all add: publishTerminalCommandFailed_def)

lemma err_join_some [simp]: "(\<exists>y. err_join a b = Some y) \<longleftrightarrow> a \<noteq> None \<or> b \<noteq> None"
  by (auto simp: err_join_def split: option.splits)

lemma err_join_none [simp]: "err_join a b = None \<longleftrightarrow> a = None \<and> b = None"
  by (auto simp: err_join_def split: option.splits)

lemma failed_not_acquired [simp]: "TcAcquired ow \<noteq> publishTerminalCommandFailed env c e h"
  by (simp add: publishTerminalCommandFailed_def)

lemma recover_concludes:
  assumes "recoverTerminalCommand env token cid cur res cause = Some (fx, r, err)"
  shows "length (filter is_concluded fx) = 1 \<and> filter is_completed fx = [] \<and> filter is_started fx = [] \<and> err \<noteq> None \<and>
    (\<forall>ow. TcAcquired ow \<notin> set fx)"
  using assms by (auto simp: recoverTerminalCommand_def Let_def split: option.splits sum.splits)

lemma await_end_concludes:
  assumes "await_end env token cid st res = Some ((fx, r, err), released)"
  shows "length (filter is_concluded fx) = 1 \<and> filter is_started fx = [] \<and>
    (err = None \<longrightarrow> filter is_completed fx \<noteq> [] \<and> 0 \<le> tr_exit r \<and> tr_exit r \<le> 255) \<and>
    (released \<longrightarrow> TcRelease \<in> set fx) \<and> (\<forall>ow. TcAcquired ow \<notin> set fx)"
proof -
  have code: "0 \<le> x \<and> x \<le> 255" if "waitEnd_loop token p ps cur rs = Some (Inr (x, a, b), c)" for p ps cur rs x a b c
    using that
  proof (induction rs arbitrary: p ps cur)
    case (Cons rd rs)
    then show ?case
      by (auto simp: Let_def split: sum.splits option.splits prod.splits if_splits)
  qed simp
  show ?thesis
  proof (cases "waitEnd token st (xe_ends env)")
    case None
    then show ?thesis using assms by (simp add: await_end_def Let_def)
  next
    case (Some a)
    obtain res1 cur where a: "a = (res1, cur)" by (cases a)
    show ?thesis
    proof (cases res1)
      case (Inl e)
      then show ?thesis using assms Some a recover_concludes
        by (fastforce simp: await_end_def Let_def)
    next
      case (Inr t)
      obtain x oe me where t: "t = (x, oe, me)" by (metis surj_pair)
      have "0 \<le> x \<and> x \<le> 255" using code [of "[]" st st "xe_ends env" x oe me cur] Some a Inr t by (simp add: waitEnd_def)
      then show ?thesis using assms Some a Inr t
        by (cases "xe_release env") (auto simp: await_end_def Let_def)
    qed
  qed
qed

lemma run_command_concludes:
  assumes "run_command env command token cid res = Some ((fx, r, err), released)"
  shows "length (filter is_concluded fx) = 1 \<and> length (filter is_started fx) = 1 \<and>
    (err = None \<longrightarrow> filter is_completed fx \<noteq> [] \<and> 0 \<le> tr_exit r \<and> tr_exit r \<le> 255) \<and>
    (released \<longrightarrow> TcRelease \<in> set fx) \<and> (\<forall>ow. TcAcquired ow \<notin> set fx)"
proof (cases "xe_write env")
  case (Some e)
  then show ?thesis using assms by (auto simp: run_command_def Let_def)
next
  case None
  note w = None
  show ?thesis
  proof (cases "waitStart token (sessionOutputCursor (xe_recent env)) (xe_starts env)")
    case None
    then show ?thesis using assms w by (simp add: run_command_def Let_def)
  next
    case (Some a)
    obtain res1 cur where a: "a = (res1, cur)" by (cases a)
    show ?thesis
    proof (cases res1)
      case (Inr st)
      then obtain fx2 where "await_end env token cid st res = Some ((fx2, r, err), released)"
        and fx: "fx = TcPublish EventTerminalCommandStarted ActorAgent
          (Some [(''command_id'', GString cid), (''command'', GString command),
            (''output_cursor'', GInt (int (sessionOutputCursor (xe_recent env))))]) #
          TcWrite (terminalCommandBootstrap command token @ [CHR 0x0A]) # fx2"
        using assms w Some a by (auto simp: run_command_def Let_def)
      from await_end_concludes [OF this(1)] fx show ?thesis by simp
    next
      case (Inl e0)
      let ?e = "terminalCommandExecutionError (xe_start_cause env) e0"
      show ?thesis
      proof (cases "err_is ?e ErrTerminalCommandRequiresBash")
        case True
        then show ?thesis using assms w Some a Inl by (auto simp: run_command_def Let_def)
      next
        case False
        then obtain fx2 where "recoverTerminalCommand env token cid cur res ?e = Some (fx2, r, err)" "\<not> released"
          and fx: "fx = TcPublish EventTerminalCommandStarted ActorAgent
            (Some [(''command_id'', GString cid), (''command'', GString command),
              (''output_cursor'', GInt (int (sessionOutputCursor (xe_recent env))))]) #
            TcWrite (terminalCommandBootstrap command token @ [CHR 0x0A]) # fx2"
          using assms w Some a Inl by (auto simp: run_command_def Let_def)
        from recover_concludes [OF this(1)] this(2) fx show ?thesis by simp
      qed
    qed
  qed
qed

text \<open>
  Whatever its calls answer, a command that returns leaves nothing open: an
  acquired lease is released, a published start is concluded by exactly one
  completed or failed event, and a nil error means a completed event with an exit
  code between 0 and 255.
\<close>

theorem terminal_command_concluded:
  assumes "ExecuteTerminalCommand env command = Some (fx, res, err)"
  shows "((\<exists>ow. TcAcquired ow \<in> set fx) \<longrightarrow> TcRelease \<in> set fx) \<and>
    length (filter is_started fx) \<le> length (filter is_concluded fx) \<and> length (filter is_concluded fx) \<le> 1 \<and>
    (err = None \<longrightarrow> (\<exists>x \<in> set fx. is_completed x) \<and> 0 \<le> tr_exit res \<and> tr_exit res \<le> 255)"
proof (cases "\<exists>sid token ow. xe_ctx env = None \<and> validateTerminalCommand command = None \<and> xe_session env = Inr sid \<and>
    xe_token env = Inr token \<and> xe_owner env = Inr ow \<and> xe_acquire env = None")
  case False
  then show ?thesis using assms
    by (auto simp: ExecuteTerminalCommand_def split: option.splits sum.splits; metis)
next
  case True
  then obtain sid token ow where pre: "xe_ctx env = None" "validateTerminalCommand command = None" "xe_session env = Inr sid"
    "xe_token env = Inr token" "xe_owner env = Inr ow" "xe_acquire env = None" by blast
  let ?c = "''CMD-'' @ token" and ?r = "no_result\<lparr>tr_session := sid, tr_command := ''CMD-'' @ token\<rparr>"
  show ?thesis
  proof (cases "terminalHasPendingInteractiveInput (xe_activity env) = Inr False")
    case True
    then obtain fx1 r1 err1 released where rc: "run_command env command token ?c ?r = Some ((fx1, r1, err1), released)"
      and out: "(fx, res, err) = (let (a, b, c) = deferred_release env released (deferred_renewal (fx1, r1, err1))
        in (TcAcquired (''terminal-command-'' @ ow) # a, b, c))"
      using assms pre by (auto simp: ExecuteTerminalCommand_def Let_def split: prod.splits)
    show ?thesis using run_command_concludes [OF rc] out
      by (auto simp: deferred_release_def deferred_renewal_def filter_empty_conv split: if_splits option.splits)
  next
    case False
    then show ?thesis using assms pre
      by (auto simp: ExecuteTerminalCommand_def Let_def deferred_release_def split: sum.splits bool.splits option.splits if_splits)
  qed
qed

section \<open>A run that succeeds\<close>

text \<open>
  C19 A command on an idle prompt: when the Session takes the bootstrap and its
  output holds the start marker and later, after \<open>output\<close>, the end marker with an
  exit code, the operation returns that code, delimits exactly \<open>output\<close> in the raw
  stream, however either phase was cut into reads, and has released its lease.
\<close>

theorem terminal_command_success:
  assumes env: "xe_ctx env = None" "validateTerminalCommand command = None" "xe_session env = Inr sid"
      "xe_token env = Inr token" "xe_owner env = Inr ow" "xe_acquire env = None"
      "terminalHasPendingInteractiveInput (xe_activity env) = Inr False" "xe_write env = None" "xe_release env = None"
    and start: "c = sessionOutputCursor (xe_recent env)" "xe_starts env = stream_reads c reads1"
      "str_index (concat reads1) (start_marker token) = Some p"
      "\<not> str_contains (take (p + length (start_marker token)) (concat reads1)) (end_prefix token)"
    and out: "s = c + p + length (start_marker token)" "xe_ends env = stream_reads s reads2"
      "concat reads2 = output @ end_marker token (format_nat code) @ post"
      "str_index (concat reads2) (end_prefix token) = Some (length output)" "code \<le> 255"
  shows "\<exists>fx res. ExecuteTerminalCommand env command = Some (fx, res, None) \<and> tr_exit res = int code \<and>
    tr_start res = s \<and> tr_end res = s + length output \<and> TcRelease \<in> set fx"
proof -
  have ws: "waitStart token c (xe_starts env) = Some (Inr s, s)"
    using waitStart_exact [OF start(3,4)] start(2) out(1) by simp
  obtain cur where we: "waitEnd token s (xe_ends env) =
      Some (Inr (int code, s + length output, s + length output + length (end_marker token (format_nat code))), cur)"
    using waitEnd_stream [OF out(3,4) status_text [OF out(5)], of 0 reads2 0 s] out(2,5)
    by (auto simp: waitEnd_def end_marker_def end_prefix_def)
  show ?thesis using env start(1) ws we
    by (simp add: ExecuteTerminalCommand_def run_command_def await_end_def Let_def deferred_release_def deferred_renewal_def)
qed

text \<open>A concrete environment that meets the hypotheses.\<close>

definition demo_env :: tc_env where
  "demo_env = \<lparr>xe_ctx = None, xe_session = Inr ''s1'', xe_token = Inr ''ab'', xe_owner = Inr ''cd'', xe_acquire = None,
     xe_activity = Inr \<lparr>ac_events = [], ac_next = 0, ac_dropped = False\<rparr>,
     xe_recent = Inr \<lparr>oc_data = [], oc_next = 5, oc_dropped = False\<rparr>, xe_write = None,
     xe_starts = stream_reads 5 [''$ echo'', [CHR 0x1E], CHR 0x1F # ''ab'' @ [CHR 0x1F, CHR 0x1E], ''hi''], xe_start_cause = None,
     xe_ends = stream_reads 17 [''hi'', [CHR 0x1D, CHR 0x1C], ''ab:7'' @ [CHR 0x1C, CHR 0x1D]], xe_end_cause = None,
     xe_interrupt = None, xe_recovery = [], xe_close = None, xe_release = None, xe_deferred = None, xe_text = (\<lambda>e. [])\<rparr>"

lemma demo_fields:
  "xe_ctx demo_env = None" "xe_session demo_env = Inr ''s1''" "xe_token demo_env = Inr ''ab''" "xe_owner demo_env = Inr ''cd''"
  "xe_acquire demo_env = None" "xe_write demo_env = None" "xe_release demo_env = None"
  by (simp_all add: demo_env_def)

lemma demo_command: "validateTerminalCommand ''echo hi'' = None"
proof -
  let ?c = "''echo hi''"
  have "trim_space ?c \<noteq> []" "utf8_valid ?c" "\<not> list_ex is_control (go_runes ?c)" by (code_simp, code_simp, code_simp)
  moreover have "\<not> length ?c > MaxTerminalCommandBytes" by (simp add: MaxTerminalCommandBytes_def)
  ultimately show ?thesis by (simp only: validateTerminalCommand_def if_False not_True_eq_False)
qed

theorem terminal_command_success_witness:
  "\<exists>fx res. ExecuteTerminalCommand demo_env ''echo hi'' = Some (fx, res, None) \<and> tr_exit res = 7 \<and> tr_start res = 17 \<and> tr_end res = 19"
proof -
  let ?r1 = "[''$ echo'', [CHR 0x1E], CHR 0x1F # ''ab'' @ [CHR 0x1F, CHR 0x1E], ''hi'']"
  let ?r2 = "[''hi'', [CHR 0x1D, CHR 0x1C], ''ab:7'' @ [CHR 0x1C, CHR 0x1D]]"
  have a: "terminalHasPendingInteractiveInput (xe_activity demo_env) = Inr False" by code_simp
  have b: "str_index (concat ?r1) (start_marker ''ab'') = Some 6" by code_simp
  have c: "\<not> str_contains (take (6 + length (start_marker ''ab'')) (concat ?r1)) (end_prefix ''ab'')" by code_simp
  have d: "concat ?r2 = ''hi'' @ end_marker ''ab'' (format_nat 7) @ []" by code_simp
  have e: "str_index (concat ?r2) (end_prefix ''ab'') = Some (length ''hi'')" by code_simp
  have s: "(17::nat) = 5 + 6 + length (start_marker ''ab'')" by code_simp
  have "\<exists>fx res. ExecuteTerminalCommand demo_env ''echo hi'' = Some (fx, res, None) \<and> tr_exit res = int 7 \<and>
      tr_start res = 17 \<and> tr_end res = 17 + length ''hi'' \<and> TcRelease \<in> set fx"
    by (rule terminal_command_success [OF _ demo_command _ _ _ _ a _ _ _ _ b c s _ d e])
       (simp_all add: demo_env_def sessionOutputCursor_def)
  then show ?thesis by auto
qed

theorem terminal_command_concluded_witness:
  "\<exists>fx res. ExecuteTerminalCommand demo_env ''echo hi'' = Some (fx, res, None) \<and> TcRelease \<in> set fx \<and> length (filter is_concluded fx) \<le> 1"
proof -
  have a: "terminalHasPendingInteractiveInput (xe_activity demo_env) = Inr False" by code_simp
  have "waitStart ''ab'' 5 (xe_starts demo_env) = Some (Inr 17, 17)" by code_simp
  moreover have "waitEnd ''ab'' 17 (xe_ends demo_env) = Some (Inr (7, 19, 27), 27)" by code_simp
  moreover have "sessionOutputCursor (xe_recent demo_env) = 5" by code_simp
  ultimately have "\<exists>fx res. ExecuteTerminalCommand demo_env ''echo hi'' = Some (fx, res, None) \<and>
      TcAcquired (''terminal-command-'' @ ''cd'') \<in> set fx"
    using a demo_command
    by (simp add: ExecuteTerminalCommand_def run_command_def await_end_def Let_def deferred_release_def deferred_renewal_def demo_fields)
  then obtain fx res where x: "ExecuteTerminalCommand demo_env ''echo hi'' = Some (fx, res, None)"
    and acq: "TcAcquired (''terminal-command-'' @ ''cd'') \<in> set fx" by blast
  from terminal_command_concluded [OF x] x acq show ?thesis by blast
qed

lemma str_index_last: "c \<notin> set s \<Longrightarrow> str_index (s @ [c]) (c # d # m) = None"
  by (induction s) (auto simp: has_prefix_def)

text \<open>
  Recovery can miss the end marker: a wait that is cancelled when half of the
  marker has been read drops that half with its window, so the recovery wait over
  the rest of the marker does not find it, however long it reads, and a Session
  whose command had ended is closed.
\<close>

theorem terminal_recovery_misses_split_marker:
  assumes "CHR 0x1D \<notin> set token"
  shows "\<exists>reads rest cur. concat (reads @ rest) = end_marker token (format_nat code) \<and>
     waitEnd token c (stream_reads c reads @ [Inl CtxCanceled]) = Some (Inl CtxCanceled, cur) \<and>
     waitEnd token cur (stream_reads cur rest) = None"
proof -
  let ?s = "CHR 0x1C # token @ '':'' @ format_nat code @ [CHR 0x1C]"
  have "CHR 0x1D \<notin> set (format_nat code)"
    using format_nat_digits [of "CHR 0x1D" code] by (auto simp: is_digit_def)
  then have "CHR 0x1D \<notin> set ?s" using assms by auto
  then have "str_index (?s @ [CHR 0x1D]) (CHR 0x1D # CHR 0x1C # token @ '':'') = None" by (rule str_index_last)
  then have r: "find_end token (?s @ [CHR 0x1D]) = None" by (simp add: find_end_def end_prefix_def)
  have "str_index ([] @ [CHR 0x1D]) (CHR 0x1D # CHR 0x1C # token @ '':'') = None" by (rule str_index_last) simp
  then have f: "find_end token [CHR 0x1D] = None" by (simp add: find_end_def end_prefix_def)
  have "waitEnd token c (stream_reads c [[CHR 0x1D]] @ [Inl CtxCanceled]) = Some (Inl CtxCanceled, c + 1)"
    using f by (simp add: waitEnd_def)
  moreover have "waitEnd token (c + 1) (stream_reads (c + 1) [?s @ [CHR 0x1D]]) = None"
    using r by (simp add: waitEnd_def)
  moreover have "concat ([[CHR 0x1D]] @ [?s @ [CHR 0x1D]]) = end_marker token (format_nat code)"
    by (simp add: end_marker_def end_prefix_def end_suffix_def)
  ultimately show ?thesis by blast
qed

theorem terminal_recovery_misses_split_marker_witness:
  "\<exists>reads rest cur. concat (reads @ rest) = end_marker ''0f'' (format_nat 130) \<and>
     waitEnd ''0f'' 0 (stream_reads 0 reads @ [Inl CtxCanceled]) = Some (Inl CtxCanceled, cur) \<and>
     waitEnd ''0f'' cur (stream_reads cur rest) = None"
  by (rule terminal_recovery_misses_split_marker) simp

end
