(* ===== verification/UBoot.thy ===== *)
theory UBoot
  imports Terminal_Command_Run
begin

text \<open>
  \<open>internal/core/app/uboot.go\<close>: one bounded interruption of a serial boot. The
  matcher that watches the raw output is shown to compute a property of the whole
  output it was fed, although it keeps only bounded overlaps; \<open>EnterUBoot\<close> is a
  function from the answers of its calls, one \<open>turn\<close> for each round of its loop, to
  its result and the trace of its effects.
\<close>

section \<open>Requests\<close>

definition ErrInvalidUBootRequest :: goerr where "ErrInvalidUBootRequest = ErrSentinel ''ErrInvalidUBootRequest''"
definition ErrUBootFailed :: goerr where "ErrUBootFailed = ErrSentinel ''ErrUBootFailed''"

record uboot_request =
  ub_mode :: string
  ub_reboot :: string
  ub_countdown :: string
  ub_prompt :: string
  ub_booted :: "string list"
  ub_interrupt :: string
  ub_timeout :: int                 \<comment> \<open>nanoseconds\<close>
  ub_capture :: bool

definition millisecond :: int where "millisecond = 1000000"
definition minute :: int where "minute = 60 * 1000 * millisecond"

definition is_line_end :: "byte \<Rightarrow> bool" where
  "is_line_end b \<longleftrightarrow> b = CHR 0x0D \<or> b = CHR 0x0A"

text \<open>\<open>fmt.Errorf("%w: %w", a, b)\<close> is found by \<open>errors.Is\<close> under both: \<open>ErrJoin\<close>.\<close>

definition validateUBootRequest :: "uboot_request \<Rightarrow> goerr + uboot_request" where
  "validateUBootRequest r =
     (let invalid = (\<lambda>reason. Inl (ErrWrap ErrInvalidUBootRequest reason))
      in if ub_mode r \<noteq> ''wait_reset'' \<and> ub_mode r \<noteq> ''reboot'' then invalid ''mode must be wait_reset or reboot''
         else
           case (if ub_mode r = ''reboot'' then validateTerminalCommand (ub_reboot r) else None) of
             Some e \<Rightarrow> Inl (ErrJoin ErrInvalidUBootRequest e)
           | None \<Rightarrow>
               if ub_mode r \<noteq> ''reboot'' \<and> ub_reboot r \<noteq> [] then invalid ''reboot_command requires reboot mode''
               else if list_ex (\<lambda>p. length p = 0 \<or> length p > 256) (ub_countdown r # ub_prompt r # ub_booted r)
               then invalid ''patterns must contain 1..256 bytes''
               else if list_ex is_line_end (ub_prompt r) then invalid ''prompt must be a single line''
               else if length (ub_booted r) = 0 \<or> length (ub_booted r) > 8 then invalid ''provide 1..8 boot_started_patterns''
               else if length (ub_interrupt r) = 0 \<or> length (ub_interrupt r) > 32 then invalid ''interrupt must contain 1..32 bytes''
               else
                 let r1 = (if ub_timeout r = 0 then r\<lparr>ub_timeout := minute\<rparr> else r)
                 in if ub_timeout r1 < millisecond \<or> ub_timeout r1 > 3 * minute
                    then invalid ''timeout must be 1..180000 milliseconds''
                    else Inr r1)"

section \<open>The matcher\<close>

record boot_matcher =
  bm_request :: uboot_request
  bm_tail :: string
  bm_line :: string
  bm_lineKnown :: bool
  bm_longLine :: bool
  bm_countdown :: bool
  bm_booted :: bool
  bm_prompt :: bool
  bm_countdownCursor :: nat
  bm_promptCursor :: nat

definition new_matcher :: "uboot_request \<Rightarrow> boot_matcher" where
  "new_matcher r = \<lparr>bm_request = r, bm_tail = [], bm_line = [], bm_lineKnown = False, bm_longLine = False,
     bm_countdown = False, bm_booted = False, bm_prompt = False, bm_countdownCursor = 0, bm_promptCursor = 0\<rparr>"

text \<open>One byte of the current line, at stream position \<open>pos\<close>.\<close>

definition bm_byte :: "nat \<Rightarrow> byte \<Rightarrow> boot_matcher \<Rightarrow> boot_matcher" where
  "bm_byte pos b m =
     (if is_line_end b then m\<lparr>bm_line := [], bm_lineKnown := True, bm_longLine := False, bm_prompt := False\<rparr>
      else
        let m1 = (if length (bm_line m) \<ge> 256 then m\<lparr>bm_longLine := True\<rparr> else m\<lparr>bm_line := bm_line m @ [b]\<rparr>);
            m2 = m1\<lparr>bm_prompt := bm_countdown m1 \<and> bm_lineKnown m1 \<and> \<not> bm_longLine m1 \<and>
                      bm_line m1 = ub_prompt (bm_request m1)\<rparr>
        in if bm_prompt m2 then m2\<lparr>bm_promptCursor := pos + 1 - length (bm_line m2)\<rparr> else m2)"

fun bm_bytes :: "nat \<Rightarrow> string \<Rightarrow> boot_matcher \<Rightarrow> boot_matcher" where
  "bm_bytes pos [] m = m"
| "bm_bytes pos (b # bs) m = bm_bytes (pos + 1) bs (bm_byte pos b m)"

definition bm_feed :: "string \<Rightarrow> nat \<Rightarrow> boot_matcher \<Rightarrow> boot_matcher" where
  "bm_feed data start m =
     (let joined = bm_tail m @ data; base = start - length (bm_tail m);
          m1 = (case str_index joined (ub_countdown (bm_request m)) of
                  Some i \<Rightarrow> if \<not> bm_countdown m then m\<lparr>bm_countdown := True, bm_countdownCursor := base + i\<rparr> else m
                | None \<Rightarrow> m);
          m2 = (if list_ex (str_contains joined) (ub_booted (bm_request m)) then m1\<lparr>bm_booted := True\<rparr> else m1);
          m3 = m2\<lparr>bm_tail := window 255 joined\<rparr>
      in bm_bytes start data m3)"

text \<open>Feeding the reads of a stream from position \<open>pos\<close> on.\<close>

fun bm_reads :: "nat \<Rightarrow> string list \<Rightarrow> boot_matcher \<Rightarrow> boot_matcher" where
  "bm_reads pos [] m = m"
| "bm_reads pos (d # ds) m = bm_reads (pos + length d) ds (bm_feed d pos m)"

section \<open>What the matcher computes\<close>

text \<open>The bytes behind the last line end.\<close>

definition last_line :: "string \<Rightarrow> string" where
  "last_line s = rev (takeWhile (\<lambda>b. \<not> is_line_end b) (rev s))"

lemma last_line_simps [simp]:
  "last_line [] = []" "last_line (s @ [b]) = (if is_line_end b then [] else last_line s @ [b])"
  by (simp_all add: last_line_def)

definition line_view :: "string \<Rightarrow> boot_matcher \<Rightarrow> bool" where
  "line_view S m \<longleftrightarrow> bm_line m = take 256 (last_line S) \<and> bm_longLine m = (256 < length (last_line S)) \<and>
     bm_lineKnown m = list_ex is_line_end S"

definition prompt_view :: "nat \<Rightarrow> string \<Rightarrow> boot_matcher \<Rightarrow> bool" where
  "prompt_view pos S m \<longleftrightarrow> bm_prompt m = (bm_countdown m \<and> list_ex is_line_end S \<and> last_line S = ub_prompt (bm_request m)) \<and>
     (bm_prompt m \<longrightarrow> bm_promptCursor m = pos - length (ub_prompt (bm_request m)))"

text \<open>What the bytes of a line do not touch.\<close>

definition bm_frame :: "boot_matcher \<Rightarrow> boot_matcher \<Rightarrow> bool" where
  "bm_frame m m' \<longleftrightarrow> bm_request m' = bm_request m \<and> bm_tail m' = bm_tail m \<and> bm_countdown m' = bm_countdown m \<and>
     bm_booted m' = bm_booted m \<and> bm_countdownCursor m' = bm_countdownCursor m"

lemma bm_byte_spec:
  assumes "line_view S m" "ub_prompt (bm_request m) \<noteq> []" "length (ub_prompt (bm_request m)) \<le> 256"
  shows "line_view (S @ [b]) (bm_byte pos b m) \<and> prompt_view (pos + 1) (S @ [b]) (bm_byte pos b m) \<and> bm_frame m (bm_byte pos b m)"
proof (cases "is_line_end b")
  case True
  then show ?thesis using assms by (auto simp: bm_byte_def line_view_def prompt_view_def bm_frame_def)
next
  case False
  note nl = False
  show ?thesis
  proof (cases "256 \<le> length (last_line S)")
    case True
    have "last_line S @ [b] \<noteq> ub_prompt (bm_request m)"
    proof
      assume "last_line S @ [b] = ub_prompt (bm_request m)"
      from arg_cong [OF this, of length] show False using True assms(3) by simp
    qed
    then show ?thesis using True nl assms
      by (auto simp: bm_byte_def line_view_def prompt_view_def bm_frame_def Let_def)
  next
    case False
    then show ?thesis using nl assms
      by (auto simp: bm_byte_def line_view_def prompt_view_def bm_frame_def Let_def)
  qed
qed

lemma bm_bytes_spec:
  assumes "line_view S m" "ub_prompt (bm_request m) \<noteq> []" "length (ub_prompt (bm_request m)) \<le> 256" "prompt_view pos S m \<or> d \<noteq> []"
  shows "line_view (S @ d) (bm_bytes pos d m) \<and> prompt_view (pos + length d) (S @ d) (bm_bytes pos d m) \<and>
    bm_frame m (bm_bytes pos d m)"
  using assms
proof (induction d arbitrary: S m pos)
  case (Cons b d)
  note sp = bm_byte_spec [OF Cons.prems(1-3), of b pos]
  then have "bm_request (bm_byte pos b m) = bm_request m" by (simp add: bm_frame_def)
  then show ?case using Cons.IH [of "S @ [b]" "bm_byte pos b m" "pos + 1"] sp Cons.prems(2,3)
    by (auto simp: bm_frame_def)
qed (simp add: bm_frame_def)

text \<open>The state after the stream \<open>S\<close>, first byte at \<open>s\<close>, as a property of \<open>S\<close>.\<close>

definition matched :: "nat \<Rightarrow> string \<Rightarrow> boot_matcher \<Rightarrow> bool" where
  "matched s S m \<longleftrightarrow>
     bm_tail m = window 255 S \<and>
     bm_countdown m = str_contains S (ub_countdown (bm_request m)) \<and>
     (bm_countdown m \<longrightarrow> str_index S (ub_countdown (bm_request m)) = Some (bm_countdownCursor m - s) \<and> s \<le> bm_countdownCursor m) \<and>
     bm_booted m = list_ex (str_contains S) (ub_booted (bm_request m)) \<and>
     line_view S m \<and> prompt_view (s + length S) S m"

definition patterns_ok :: "uboot_request \<Rightarrow> bool" where
  "patterns_ok r \<longleftrightarrow> (\<forall>p \<in> set (ub_countdown r # ub_prompt r # ub_booted r). p \<noteq> [] \<and> length p \<le> 256)"

lemma new_matcher_matched: "patterns_ok r \<Longrightarrow> matched s [] (new_matcher r)"
proof -
  assume r: "patterns_ok r"
  then have c: "\<not> str_contains [] p" if "p \<in> set (ub_countdown r # ub_booted r)" for p
    using that by (auto simp: patterns_ok_def str_contains_def)
  then have "\<not> list_ex (str_contains []) (ub_booted r)" by (auto simp: list_ex_iff)
  then show ?thesis using c [of "ub_countdown r"]
    by (simp add: matched_def new_matcher_def window_def line_view_def prompt_view_def)
qed

text \<open>A pattern of at most 256 bytes is seen in the overlap exactly when the stream holds it.\<close>

lemma overlap_contains:
  assumes "length p \<le> 256" "p \<noteq> []"
  shows "str_contains (S @ d) p \<longleftrightarrow> str_contains S p \<or> str_contains (window 255 S @ d) p"
proof (cases "str_index S p")
  case None
  have "str_index (window 255 S @ d) p = map_option (\<lambda>i. i - (length S - 255)) (str_index (S @ d) p)"
    by (rule window_search(1)) (use None assms in auto)
  then show ?thesis using None by (simp add: str_contains_def)
next
  case (Some i)
  then show ?thesis using str_contains_append [of S p d] by (auto simp: str_contains_def)
qed

lemma overlap_index:
  assumes "str_index S p = None" "length p \<le> 256" "p \<noteq> []" "str_index (window 255 S @ d) p = Some i"
  shows "str_index (S @ d) p = Some (length S - 255 + i)"
proof -
  have "length p \<le> Suc 255" using assms(2) by simp
  note w = window_search [OF assms(1) this assms(3), of d]
  obtain k where k: "str_index (S @ d) p = Some k" "i = k - (length S - 255)"
    using w(1) assms(4) by (cases "str_index (S @ d) p") auto
  from w(2) [OF k(1)] k show ?thesis by simp
qed

lemma index_append_found: "str_index S p = Some i \<Longrightarrow> p \<noteq> [] \<Longrightarrow> str_index (S @ d) p = Some i"
proof -
  assume a: "str_index S p = Some i" "p \<noteq> []"
  have l: "i + length p \<le> length S" using str_index_bound [OF a(1)] .
  have keep: "has_prefix (drop j (S @ d)) p = has_prefix (drop j S) p" if "j \<le> i" for j
    using that l by (simp add: has_prefix_append_short)
  show ?thesis
    by (rule str_indexI) (use str_index_Some [OF a(1)] keep l in auto)
qed

lemma bm_feed_matched:
  assumes m: "matched s S m" and r: "patterns_ok (bm_request m)"
  shows "matched s (S @ d) (bm_feed d (s + length S) m) \<and> bm_request (bm_feed d (s + length S) m) = bm_request m"
proof -
  let ?C = "ub_countdown (bm_request m)" and ?J = "bm_tail m @ d"
  have tail: "bm_tail m = window 255 S" using m by (simp add: matched_def)
  have C: "?C \<noteq> []" "length ?C \<le> 256" using r by (simp_all add: patterns_ok_def)
  have P: "ub_prompt (bm_request m) \<noteq> []" "length (ub_prompt (bm_request m)) \<le> 256" using r by (simp_all add: patterns_ok_def)
  define m1 where "m1 = (case str_index ?J ?C of
      Some i \<Rightarrow> if \<not> bm_countdown m then m\<lparr>bm_countdown := True, bm_countdownCursor := s + length S - length (bm_tail m) + i\<rparr> else m
    | None \<Rightarrow> m)"
  define m2 where "m2 = (if list_ex (str_contains ?J) (ub_booted (bm_request m)) then m1\<lparr>bm_booted := True\<rparr> else m1)"
  define m3 where "m3 = m2\<lparr>bm_tail := window 255 ?J\<rparr>"
  have feed: "bm_feed d (s + length S) m = bm_bytes (s + length S) d m3"
    unfolding bm_feed_def Let_def m3_def m2_def m1_def ..
  have keep1: "bm_request m1 = bm_request m" "bm_line m1 = bm_line m" "bm_lineKnown m1 = bm_lineKnown m"
    "bm_longLine m1 = bm_longLine m" "bm_prompt m1 = bm_prompt m" "bm_promptCursor m1 = bm_promptCursor m" "bm_booted m1 = bm_booted m"
    by (simp_all add: m1_def split: option.splits)
  have keep: "bm_request m3 = bm_request m" "bm_line m3 = bm_line m" "bm_lineKnown m3 = bm_lineKnown m"
    "bm_longLine m3 = bm_longLine m" "bm_prompt m3 = bm_prompt m" "bm_promptCursor m3 = bm_promptCursor m"
    "bm_countdown m3 = bm_countdown m1" "bm_countdownCursor m3 = bm_countdownCursor m1"
    by (simp_all add: m3_def m2_def keep1)
  have lt: "length (bm_tail m) = min 255 (length S)" using tail by (simp add: length_window)
  have cd: "bm_countdown m1 = str_contains (S @ d) ?C \<and>
      (bm_countdown m1 \<longrightarrow> str_index (S @ d) ?C = Some (bm_countdownCursor m1 - s) \<and> s \<le> bm_countdownCursor m1)"
  proof (cases "bm_countdown m")
    case True
    then have old: "str_index S ?C = Some (bm_countdownCursor m - s)" "s \<le> bm_countdownCursor m" "m1 = m"
      using m by (auto simp: matched_def m1_def split: option.splits)
    then show ?thesis using index_append_found [OF old(1) C(1)] True by (simp add: str_contains_def)
  next
    case False
    then have none: "str_index S ?C = None" using m by (simp add: matched_def str_contains_def)
    show ?thesis
    proof (cases "str_index ?J ?C")
      case None
      then show ?thesis using False none overlap_contains [OF C(2,1), of S d] tail
        by (simp add: m1_def str_contains_def)
    next
      case (Some i)
      have idx: "str_index (S @ d) ?C = Some (length S - 255 + i)"
        using overlap_index [OF none C(2,1)] Some tail by simp
      moreover have "s + length S - length (bm_tail m) + i = s + (length S - 255 + i)" using lt
        by (cases "255 \<le> length S") (simp_all add: min_def add.assoc)
      ultimately show ?thesis using False Some by (simp add: m1_def str_contains_def)
    qed
  qed
  have bo: "bm_booted m3 = list_ex (str_contains (S @ d)) (ub_booted (bm_request m))"
  proof -
    have "bm_booted m3 \<longleftrightarrow> list_ex (str_contains ?J) (ub_booted (bm_request m)) \<or> bm_booted m"
      by (simp add: m3_def m2_def keep1)
    also have "\<dots> \<longleftrightarrow> list_ex (\<lambda>p. str_contains S p \<or> str_contains (window 255 S @ d) p) (ub_booted (bm_request m))"
      using m tail by (auto simp: matched_def list_ex_iff)
    also have "\<dots> \<longleftrightarrow> list_ex (str_contains (S @ d)) (ub_booted (bm_request m))"
      using r overlap_contains [of _ S d] by (auto simp: patterns_ok_def list_ex_iff)
    finally show ?thesis .
  qed
  have lv: "line_view S m3" using m keep by (simp add: matched_def line_view_def)
  have pv: "prompt_view (s + length S) S m3 \<or> d \<noteq> []"
  proof (cases "d = []")
    case True
    then have "bm_countdown m1 = bm_countdown m" using cd m by (simp add: matched_def)
    then show ?thesis using m keep by (simp add: matched_def prompt_view_def)
  qed simp
  have t3: "bm_tail m3 = window 255 (S @ d)" using tail by (simp add: m3_def window_window)
  note sp = bm_bytes_spec [OF lv, unfolded keep(1), OF P pv]
  then have fr: "bm_request (bm_bytes (s + length S) d m3) = bm_request m" "bm_tail (bm_bytes (s + length S) d m3) = window 255 (S @ d)"
    "bm_countdown (bm_bytes (s + length S) d m3) = bm_countdown m1" "bm_booted (bm_bytes (s + length S) d m3) = bm_booted m3"
    "bm_countdownCursor (bm_bytes (s + length S) d m3) = bm_countdownCursor m1"
    using t3 keep by (simp_all add: bm_frame_def)
  show ?thesis unfolding feed matched_def fr using sp cd bo by (simp add: add.assoc)
qed

lemma bm_reads_matched:
  "matched s S m \<Longrightarrow> patterns_ok (bm_request m) \<Longrightarrow>
    matched s (S @ concat ds) (bm_reads (s + length S) ds m) \<and> bm_request (bm_reads (s + length S) ds m) = bm_request m"
proof (induction ds arbitrary: S m)
  case (Cons d ds)
  note f = bm_feed_matched [OF Cons.prems, of d]
  then show ?case using Cons.IH [of "S @ d" "bm_feed d (s + length S) m"] Cons.prems(2) by (simp add: add.assoc)
qed simp

lemma validated_patterns: "validateUBootRequest r = Inr r' \<Longrightarrow> patterns_ok r'"
  by (auto simp: validateUBootRequest_def patterns_ok_def list_ex_iff Let_def not_less split: if_splits option.splits)

text \<open>
  The boot matcher, which keeps 255 bytes of overlap and 256 of the current
  line, computes a property of the whole output, however it was cut into reads:
  the countdown and boot-start flags say whether their patterns occur anywhere in
  it, the countdown cursor is the first occurrence, and the prompt flag says that
  the countdown has been seen, a line end too, and that the text behind the last
  line end is exactly the prompt, which begins at the prompt cursor.
\<close>

theorem boot_matcher_exact:
  assumes "validateUBootRequest r0 = Inr r"
  shows "let m = bm_reads s reads (new_matcher r); S = concat reads
    in bm_countdown m = str_contains S (ub_countdown r) \<and>
       (bm_countdown m \<longrightarrow> str_index S (ub_countdown r) = Some (bm_countdownCursor m - s)) \<and>
       bm_booted m = list_ex (str_contains S) (ub_booted r) \<and>
       bm_prompt m = (bm_countdown m \<and> list_ex is_line_end S \<and> last_line S = ub_prompt r) \<and>
       (bm_prompt m \<longrightarrow> bm_promptCursor m = s + length S - length (ub_prompt r))"
proof -
  have p: "patterns_ok r" using validated_patterns [OF assms] .
  have "bm_request (new_matcher r) = r" by (simp add: new_matcher_def)
  then have "matched s (concat reads) (bm_reads s reads (new_matcher r)) \<and> bm_request (bm_reads s reads (new_matcher r)) = r"
    using bm_reads_matched [OF new_matcher_matched [OF p], of s reads] p by simp
  then show ?thesis by (auto simp: matched_def prompt_view_def Let_def)
qed

definition demo_request :: uboot_request where
  "demo_request = \<lparr>ub_mode = ''wait_reset'', ub_reboot = [], ub_countdown = ''Hit any key'', ub_prompt = ''=> '',
     ub_booted = [''Starting kernel''], ub_interrupt = '' '', ub_timeout = 1000 * millisecond, ub_capture = False\<rparr>"

lemma demo_request_valid: "validateUBootRequest demo_request = Inr demo_request"
  by (simp add: validateUBootRequest_def demo_request_def is_line_end_def Let_def millisecond_def minute_def)

theorem boot_matcher_exact_witness:
  "let m = bm_reads 100 [''Hit a'', ''ny key: 0'' @ [CHR 0x0D, CHR 0x0A], ''='', ''> ''] (new_matcher demo_request)
   in bm_prompt m \<and> bm_promptCursor m = 116"
proof -
  let ?S = "''Hit any key: 0'' @ [CHR 0x0D, CHR 0x0A] @ ''=> ''"
  let ?R = "[''Hit a'', ''ny key: 0'' @ [CHR 0x0D, CHR 0x0A], ''='', ''> '']"
  define m where "m = bm_reads 100 ?R (new_matcher demo_request)"
  have cat: "concat ?R = ?S" by simp
  have "str_contains ?S (ub_countdown demo_request)" by code_simp
  moreover have "list_ex is_line_end ?S" "last_line ?S = ub_prompt demo_request" by (code_simp, code_simp)
  moreover have "100 + length ?S - length (ub_prompt demo_request) = 116" by code_simp
  ultimately show ?thesis
    using boot_matcher_exact [OF demo_request_valid, of 100 ?R] unfolding Let_def m_def [symmetric] cat by metis
qed

section \<open>The operation\<close>

definition bootErrorStatus :: "goerr \<Rightarrow> string" where
  "bootErrorStatus e =
     (if err_is e CtxDeadlineExceeded then ''timeout''
      else if err_is e CtxCanceled then ''cancelled''
      else if err_is e ErrNotOpen \<or> err_is e IoEOF then ''session_closed''
      else ''failed'')"

record uboot_result =
  ur_operation :: string
  ur_session :: string
  ur_status :: string
  ur_outputStart :: nat
  ur_outputEnd :: nat
  ur_countdownCursor :: nat
  ur_promptCursor :: nat
  ur_countdownMatched :: bool
  ur_promptMatched :: bool
  ur_bytesWritten :: nat
  ur_elapsed :: nat
  ur_dropped :: bool
  ur_diagnosticID :: string
  ur_diagnosticError :: string

definition zero_uboot_result :: uboot_result where
  "zero_uboot_result = \<lparr>ur_operation = [], ur_session = [], ur_status = [], ur_outputStart = 0, ur_outputEnd = 0,
     ur_countdownCursor = 0, ur_promptCursor = 0, ur_countdownMatched = False, ur_promptMatched = False, ur_bytesWritten = 0,
     ur_elapsed = 0, ur_dropped = False, ur_diagnosticID = [], ur_diagnosticError = []\<rparr>"

datatype ub_effect =
    UbAcquired string
  | UbPublish metadata               \<comment> \<open>an \<open>OPERATION_STATE\<close> event\<close>
  | UbWrite actor string
  | UbCapture output_chunk
  | UbCancel
  | UbJoinRenewal
  | UbRelease
  | UbExport

text \<open>
  The answers of one round: the context's cause before the read, the read, the cause
  after a failed read, the output tail, and the write of the interrupt, should the
  round come that far.
\<close>

record ub_turn =
  ut_cause :: "goerr option"
  ut_read :: "goerr + output_chunk"
  ut_after :: "goerr option"
  ut_latest :: "goerr + nat"
  ut_write :: "nat \<times> goerr option"

definition boot_start_marker :: "string \<Rightarrow> string" where
  "boot_start_marker token = CHR 0x1E # token @ [CHR 0x1F]"

definition boot_unsupported :: "string \<Rightarrow> string" where
  "boot_unsupported token = CHR 0x1E # token @ '':unsupported'' @ [CHR 0x1F]"

definition uboot_bootstrap :: "string \<Rightarrow> string \<Rightarrow> string" where
  \<open>uboot_bootstrap command token =
     ''if [ -n "$BASH_VERSION" ];then '' @ bashDeleteCurrentHistoryEntry @ go_raw '';printf '`036%s`037' '' @
     quoteSplitTerminalCommandToken token @ '';"$BASH" --noprofile --norc -c '' @ quoteTerminalCommand command @
     go_raw '';else printf '`036%s:unsupported`037' '' @ quoteSplitTerminalCommandToken token @ '';fi'' @ [CHR 0x0A]\<close>

record ub_state =
  us_armed :: bool
  us_handshake :: string
  us_sent :: bool
  us_matcher :: boot_matcher
  us_cursor :: nat
  us_result :: uboot_result

text \<open>
  The handshake of reboot mode: the data for the matcher once armed, \<open>None\<close> while the
  shell has not answered, or the unsupported shell.
\<close>

definition handshake_step :: "string \<Rightarrow> string \<Rightarrow> ub_state \<Rightarrow> (goerr + string option) \<times> ub_state" where
  "handshake_step token data st =
     (if us_armed st then (Inr (Some data), st)
      else
        let h = us_handshake st @ data
        in if str_contains h (boot_unsupported token) then (Inl ErrTerminalCommandRequiresBash, st\<lparr>us_handshake := h\<rparr>)
           else case str_index h (boot_start_marker token) of
             Some i \<Rightarrow>
               (Inr (Some (drop (i + length (boot_start_marker token)) h)), st\<lparr>us_handshake := h, us_armed := True\<rparr>)
           | None \<Rightarrow> (Inr None, st\<lparr>us_handshake := window (length (boot_unsupported token)) h\<rparr>))"

text \<open>What the matcher has found goes into the result.\<close>

definition copy_matcher :: "boot_matcher \<Rightarrow> uboot_result \<Rightarrow> uboot_result" where
  "copy_matcher m r = r\<lparr>ur_countdownCursor := bm_countdownCursor m, ur_promptCursor := bm_promptCursor m,
     ur_countdownMatched := bm_countdown m, ur_promptMatched := bm_prompt m\<rparr>"

text \<open>
  One round of the loop: \<open>Inr\<close> goes on with the next; \<open>Inl\<close> is the return with its
  result and error. First what follows once the matcher has been fed.
\<close>

type_synonym ub_next = "(uboot_result \<times> goerr option + ub_state) \<times> ub_effect list"

definition ub_decide :: "ub_turn \<Rightarrow> ub_state \<Rightarrow> ub_next" where
  "ub_decide t st =
     (case ut_latest t of
        Inl e \<Rightarrow> (Inl ((us_result st)\<lparr>ur_status := bootErrorStatus e\<rparr>, Some e), [])
      | Inr latest \<Rightarrow>
          if us_cursor st < latest then (Inr st, [])
          else if bm_booted (us_matcher st) then (Inl ((us_result st)\<lparr>ur_status := ''boot_started''\<rparr>, Some ErrUBootFailed), [])
          else if bm_countdown (us_matcher st) \<and> bm_prompt (us_matcher st)
          then (Inl ((us_result st)\<lparr>ur_status := ''entered''\<rparr>, None), [])
          else if bm_countdown (us_matcher st) \<and> \<not> us_sent st
          then (case ut_write t of
                  (n, Some e) \<Rightarrow>
                    (Inl ((us_result st)\<lparr>ur_bytesWritten := ur_bytesWritten (us_result st) + n, ur_status := ''write_failed''\<rparr>, Some e),
                     [UbWrite ActorAgent (ub_interrupt (bm_request (us_matcher st)))])
                | (n, None) \<Rightarrow>
                    (Inr (st\<lparr>us_sent := True, us_result := (us_result st)\<lparr>ur_bytesWritten := ur_bytesWritten (us_result st) + n\<rparr>\<rparr>),
                     [UbWrite ActorAgent (ub_interrupt (bm_request (us_matcher st)))]))
          else (Inr st, []))"

definition ub_watched :: "string \<Rightarrow> ub_state \<Rightarrow> ub_state" where
  "ub_watched data st = st\<lparr>us_matcher := bm_feed data (us_cursor st - length data) (us_matcher st),
     us_result := copy_matcher (bm_feed data (us_cursor st - length data) (us_matcher st)) (us_result st)\<rparr>"

text \<open>What a chunk leads to, by the answer of the handshake.\<close>

fun ub_chunk :: "ub_turn \<Rightarrow> (goerr + string option) \<times> ub_state \<Rightarrow> ub_next" where
  "ub_chunk t (Inl e, st) = (Inl ((us_result st)\<lparr>ur_status := ''unsupported_shell''\<rparr>, Some e), [])"
| "ub_chunk t (Inr None, st) = (Inr st, [])"
| "ub_chunk t (Inr (Some fresh), st) = ub_decide t (ub_watched fresh st)"

definition ub_round :: "string \<Rightarrow> ub_turn \<Rightarrow> ub_state \<Rightarrow> ub_next" where
  "ub_round token t st =
     (case ut_cause t of
        Some c \<Rightarrow> (Inl ((us_result st)\<lparr>ur_status := bootErrorStatus c\<rparr>, Some c), [])
      | None \<Rightarrow>
      case ut_read t of
        Inl e0 \<Rightarrow>
          (let e = (case ut_after t of Some c \<Rightarrow> c | None \<Rightarrow> e0)
           in (Inl ((us_result st)\<lparr>ur_status := bootErrorStatus e\<rparr>, Some e), []))
      | Inr chunk \<Rightarrow>
          (case (if oc_dropped chunk
                 then (Inl ((us_result st)\<lparr>ur_outputEnd := oc_next chunk, ur_dropped := True, ur_status := ''output_lost''\<rparr>,
                         Some ErrUBootFailed), [])
                 else ub_chunk t (handshake_step token (oc_data chunk)
                   (st\<lparr>us_cursor := oc_next chunk, us_result := (us_result st)\<lparr>ur_outputEnd := oc_next chunk\<rparr>\<rparr>))) of
             (next_state, fx) \<Rightarrow>
               (next_state, (if ub_capture (bm_request (us_matcher st)) then [UbCapture chunk] else []) @ fx)))"

text \<open>The loop, \<open>None\<close> when it is still waiting at the end of the script.\<close>

fun ub_loop :: "string \<Rightarrow> ub_turn list \<Rightarrow> ub_state \<Rightarrow> ((uboot_result \<times> goerr option) \<times> ub_effect list) option" where
  "ub_loop token [] st = None"
| "ub_loop token (t # ts) st =
     (case ub_round token t st of
        (Inl out, fx) \<Rightarrow> Some (out, fx)
      | (Inr st1, fx) \<Rightarrow> map_option (\<lambda>(out, fx2). (out, fx @ fx2)) (ub_loop token ts st1))"

text \<open>
  The answers of the calls outside the loop, with the script of the rounds; the
  deferred release and the archive come last.
\<close>

record ub_env =
  ue_ctx :: "goerr option"
  ue_session :: "goerr + string"
  ue_transport :: string
  ue_open :: bool
  ue_token :: "goerr + string"
  ue_owner :: "goerr + string"
  ue_acquire :: "goerr option"
  ue_activity :: "goerr + activity_chunk"
  ue_tail :: "goerr + nat"
  ue_boot_write :: "nat \<times> goerr option"
  ue_turns :: "ub_turn list"
  ue_release :: "goerr option"
  ue_elapsed :: nat
  ue_archive :: "goerr + string"

type_synonym ub_outcome = "ub_effect list \<times> uboot_result \<times> goerr option"

definition ub_metadata :: "uboot_result \<Rightarrow> metadata" where
  "ub_metadata r = Some (
     [(''operation_id'', GString (ur_operation r)), (''operation'', GString ''uboot''), (''status'', GString (ur_status r)),
      (''output_cursor'', GInt (int (ur_outputEnd r)))] @
     (if ur_diagnosticID r \<noteq> [] then [(''diagnostic_id'', GString (ur_diagnosticID r))] else []) @
     (if ur_diagnosticError r \<noteq> [] then [(''diagnostic_error'', GString (ur_diagnosticError r))] else []))"

text \<open>The deferred function: stop the renewal, release, archive, publish.\<close>

definition ub_deferred :: "ub_env \<Rightarrow> bool \<Rightarrow> ub_outcome \<Rightarrow> ub_outcome" where
  "ub_deferred env capture = (\<lambda>(fx, r0, err0).
     let (r1, err) = (case ue_release env of
             Some e \<Rightarrow>
               if err_is e ErrSessionNotFound then (r0, err0)
               else ((if ur_status r0 = ''entered'' then r0\<lparr>ur_status := ''cleanup_failed''\<rparr> else r0), err_join err0 (Some e))
           | None \<Rightarrow> (r0, err0));
         r2 = r1\<lparr>ur_elapsed := ue_elapsed env\<rparr>;
         r3 = (if capture
               then (case ue_archive env of
                       Inl e \<Rightarrow> r2\<lparr>ur_diagnosticError := ''diagnostic archive unavailable''\<rparr>
                     | Inr aid \<Rightarrow> r2\<lparr>ur_diagnosticID := aid\<rparr>)
               else r2)
     in (fx @ [UbCancel, UbJoinRenewal, UbRelease] @ (if capture then [UbExport] else []) @ [UbPublish (ub_metadata r3)],
         r3, err))"

text \<open>From the tail read on: announce ready, in reboot mode write the bootstrap, watch.\<close>

definition ub_watch :: "ub_env \<Rightarrow> uboot_request \<Rightarrow> string \<Rightarrow> uboot_result \<Rightarrow> ub_outcome option" where
  "ub_watch env r token result =
     (case ue_tail env of
        Inl e \<Rightarrow> Some ([], result, Some e)
      | Inr cursor \<Rightarrow>
          let r1 = result\<lparr>ur_outputStart := cursor, ur_outputEnd := cursor\<rparr>;
              ready = UbPublish (Some [(''operation_id'', GString (ur_operation r1)), (''operation'', GString ''uboot''),
                (''status'', GString ''ready''), (''output_cursor'', GInt (int cursor))]);
              armed = (ub_mode r = ''wait_reset'');
              bootstrap = UbWrite ActorSystem (uboot_bootstrap (ub_reboot r) token);
              st = (\<lambda>res. \<lparr>us_armed = armed, us_handshake = [], us_sent = False, us_matcher = new_matcher r,
                us_cursor = cursor, us_result = res\<rparr>);
              watch = (\<lambda>pre res. map_option (\<lambda>((r', e), fx). (pre @ fx, r', e)) (ub_loop token (ue_turns env) (st res)))
          in if armed then watch [ready] r1
             else (case ue_boot_write env of
                     (n, Some e) \<Rightarrow>
                       Some ([ready, bootstrap], r1\<lparr>ur_bytesWritten := ur_bytesWritten r1 + n, ur_status := ''write_failed''\<rparr>, Some e)
                   | (n, None) \<Rightarrow> watch [ready, bootstrap] (r1\<lparr>ur_bytesWritten := ur_bytesWritten r1 + n\<rparr>)))"

text \<open>The part under the deferred function.\<close>

definition ub_body :: "ub_env \<Rightarrow> uboot_request \<Rightarrow> string \<Rightarrow> uboot_result \<Rightarrow> ub_outcome option" where
  "ub_body env r token result =
     (case (if ub_mode r = ''reboot'' then terminalHasPendingInteractiveInput (ue_activity env) else Inr False) of
        Inl e \<Rightarrow> Some ([], result, Some e)
      | Inr True \<Rightarrow> Some ([], result\<lparr>ur_status := ''input_pending''\<rparr>, Some ErrTerminalCommandInputPending)
      | Inr False \<Rightarrow> ub_watch env r token result)"

definition EnterUBoot :: "ub_env \<Rightarrow> uboot_request \<Rightarrow> ub_outcome option" where
  "EnterUBoot env r0 =
     (case validateUBootRequest r0 of Inl e \<Rightarrow> Some ([], zero_uboot_result, Some e) | Inr r \<Rightarrow>
      case ue_ctx env of Some e \<Rightarrow> Some ([], zero_uboot_result, Some e) | None \<Rightarrow>
      case ue_session env of Inl e \<Rightarrow> Some ([], zero_uboot_result, Some e) | Inr sid \<Rightarrow>
      if ue_transport env \<noteq> ''serial''
      then Some ([], zero_uboot_result, Some (ErrWrap ErrInvalidUBootRequest ''requires an open serial Session''))
      else if \<not> ue_open env then Some ([], zero_uboot_result, Some ErrNotOpen) else
      case ue_token env of Inl e \<Rightarrow> Some ([], zero_uboot_result, Some e) | Inr token \<Rightarrow>
      case ue_owner env of Inl e \<Rightarrow> Some ([], zero_uboot_result, Some e) | Inr ownerToken \<Rightarrow>
      case ue_acquire env of Some e \<Rightarrow> Some ([], zero_uboot_result, Some e) | None \<Rightarrow>
      map_option (\<lambda>out. case ub_deferred env (ub_capture r) out of (fx, res, e) \<Rightarrow> (UbAcquired (''uboot-'' @ ownerToken) # fx, res, e))
        (ub_body env r token (zero_uboot_result\<lparr>ur_operation := ''BOOT-'' @ token, ur_session := sid, ur_status := ''failed''\<rparr>)))"

lemma ub_chunk_eq:
  "ub_chunk t x = (case x of
     (Inl e, st) \<Rightarrow> (Inl ((us_result st)\<lparr>ur_status := ''unsupported_shell''\<rparr>, Some e), [])
   | (Inr None, st) \<Rightarrow> (Inr st, [])
   | (Inr (Some fresh), st) \<Rightarrow> ub_decide t (ub_watched fresh st))"
  by (cases "(t, x)" rule: ub_chunk.cases) simp_all

declare ub_chunk.simps [simp del]

lemmas ub_round_defs = ub_round_def ub_chunk_eq ub_watched_def ub_decide_def Let_def

section \<open>Entered means evidence\<close>

text \<open>The reads follow the stream: an undropped chunk starts where the previous one ended.\<close>

fun ub_stream :: "nat \<Rightarrow> ub_turn list \<Rightarrow> bool" where
  "ub_stream c [] = True"
| "ub_stream c (t # ts) =
     (case ut_read t of
        Inl e \<Rightarrow> True
      | Inr chunk \<Rightarrow> (oc_dropped chunk \<or> oc_next chunk = c + length (oc_data chunk)) \<and> ub_stream (oc_next chunk) ts)"

text \<open>Where fresh output begins in the observed stream: at once, or behind the start marker.\<close>

definition ub_from :: "bool \<Rightarrow> string \<Rightarrow> string \<Rightarrow> nat option" where
  "ub_from waiting token S =
     (if waiting then Some 0
      else map_option (\<lambda>p. p + length (boot_start_marker token)) (str_index S (boot_start_marker token)))"

definition boot_evidence :: "uboot_request \<Rightarrow> string \<Rightarrow> bool" where
  "boot_evidence r T \<longleftrightarrow> str_contains T (ub_countdown r) \<and> \<not> list_ex (str_contains T) (ub_booted r) \<and>
     list_ex is_line_end T \<and> last_line T = ub_prompt r"

definition ub_inv :: "nat \<Rightarrow> uboot_request \<Rightarrow> string \<Rightarrow> string \<Rightarrow> ub_state \<Rightarrow> bool" where
  "ub_inv c r token S st \<longleftrightarrow> us_cursor st = c + length S \<and> bm_request (us_matcher st) = r \<and>
     (if us_armed st
      then \<exists>n. ub_from (ub_mode r = ''wait_reset'') token S = Some n \<and> n \<le> length S \<and> matched (c + n) (drop n S) (us_matcher st)
      else ub_mode r \<noteq> ''wait_reset'' \<and> str_index S (boot_start_marker token) = None \<and>
        us_handshake st = window (length (boot_unsupported token)) S \<and> us_matcher st = new_matcher r)"

lemma boot_start_marker_len: "length (boot_start_marker token) \<le> Suc (length (boot_unsupported token))" "boot_start_marker token \<noteq> []"
  by (simp_all add: boot_start_marker_def boot_unsupported_def)

lemma ub_from_append: "ub_from w token S = Some n \<Longrightarrow> ub_from w token (S @ d) = Some n"
  by (auto simp: ub_from_def index_append_found boot_start_marker_len split: if_splits)

text \<open>The handshake keeps enough to find the first start marker, and hands over the bytes behind it.\<close>

lemma handshake_step_inv:
  assumes st: "us_armed st \<longrightarrow> X" "\<not> us_armed st \<longrightarrow> str_index S (boot_start_marker token) = None \<and>
      us_handshake st = window (length (boot_unsupported token)) S"
    and step: "handshake_step token d st = (Inr a, st1)" and na: "\<not> us_armed st"
  shows "us_matcher st1 = us_matcher st \<and> us_cursor st1 = us_cursor st \<and>
    (case a of
       None \<Rightarrow> \<not> us_armed st1 \<and> str_index (S @ d) (boot_start_marker token) = None \<and>
         us_handshake st1 = window (length (boot_unsupported token)) (S @ d)
     | Some D \<Rightarrow> us_armed st1 \<and> (\<exists>n. ub_from False token (S @ d) = Some n \<and> n \<le> length (S @ d) \<and> D = drop n (S @ d)))"
proof -
  let ?m = "boot_start_marker token" and ?k = "length (boot_unsupported token)"
  have none: "str_index S ?m = None" and hs: "us_handshake st = window ?k S" using st na by auto
  note w = window_search [OF none boot_start_marker_len, of d]
  have h: "window ?k S @ d = drop (length S - ?k) (S @ d)" by (simp add: window_def)
  show ?thesis
  proof (cases "str_index (S @ d) ?m")
    case None
    then have "str_index (window ?k S @ d) ?m = None" using w(1) by simp
    then show ?thesis using step na hs None
      by (auto simp: handshake_step_def Let_def window_window split: if_splits)
  next
    case (Some p)
    have p: "length S - ?k \<le> p" using w(2) [OF Some] .
    have i: "str_index (window ?k S @ d) ?m = Some (p - (length S - ?k))" using w(1) Some by simp
    have D: "drop (p - (length S - ?k) + length ?m) (window ?k S @ d) = drop (p + length ?m) (S @ d)"
      unfolding h drop_drop using p by (simp add: add.commute add.left_commute)
    show ?thesis using step na hs i D Some str_index_bound [OF Some]
      by (auto simp: handshake_step_def Let_def ub_from_def split: if_splits)
  qed
qed

lemma bm_feed_request: "matched s S m \<Longrightarrow> patterns_ok (bm_request m) \<Longrightarrow> bm_request (bm_feed d (s + length S) m) = bm_request m"
  using bm_feed_matched by blast

text \<open>One round that read \<open>d\<close>: the data handed to the matcher leaves it matched with the fresh output.\<close>

lemma handshake_matched:
  assumes inv: "ub_inv c r token S st" and r: "patterns_ok r"
    and step: "handshake_step token d (st\<lparr>us_cursor := c + length (S @ d), us_result := x\<rparr>) = (Inr (Some D), st1)"
  shows "\<exists>n. ub_from (ub_mode r = ''wait_reset'') token (S @ d) = Some n \<and> n \<le> length (S @ d) \<and>
    matched (c + n) (drop n (S @ d)) (bm_feed D (c + length (S @ d) - length D) (us_matcher st1)) \<and>
    bm_request (bm_feed D (c + length (S @ d) - length D) (us_matcher st1)) = r \<and>
    us_armed st1 \<and> us_cursor st1 = c + length (S @ d)"
proof (cases "us_armed st")
  case True
  then have D: "D = d" "us_matcher st1 = us_matcher st" "us_armed st1" "us_cursor st1 = c + length (S @ d)"
    using step by (auto simp: handshake_step_def)
  obtain n where n: "ub_from (ub_mode r = ''wait_reset'') token S = Some n" "n \<le> length S"
      "matched (c + n) (drop n S) (us_matcher st)" "bm_request (us_matcher st) = r"
    using inv True by (auto simp: ub_inv_def)
  have "c + length (S @ d) - length d = c + n + length (drop n S)" using n(2) by simp
  then show ?thesis using bm_feed_matched [OF n(3), unfolded n(4), OF r, of d] ub_from_append [OF n(1)] n(2,4) D by simp
next
  case False
  let ?st = "st\<lparr>us_cursor := c + length (S @ d), us_result := x\<rparr>"
  have i: "str_index S (boot_start_marker token) = None" "us_handshake ?st = window (length (boot_unsupported token)) S"
      "us_matcher st = new_matcher r" "ub_mode r \<noteq> ''wait_reset''"
    using inv False by (auto simp: ub_inv_def)
  have na: "\<not> us_armed ?st" using False by simp
  obtain n where n: "ub_from False token (S @ d) = Some n" "n \<le> length (S @ d)" "D = drop n (S @ d)"
      "us_armed st1" "us_matcher st1 = new_matcher r" "us_cursor st1 = c + length (S @ d)"
    using handshake_step_inv [OF _ _ step na, of True S] i by auto
  have "c + length (S @ d) - length D = c + n + length ([] :: string)" using n(2,3) by simp
  moreover have "matched (c + n) [] (new_matcher r)" "bm_request (new_matcher r) = r"
    using new_matcher_matched [OF r] by (simp_all add: new_matcher_def)
  ultimately show ?thesis using bm_feed_matched [of "c + n" "[]" "new_matcher r" D] r n i(4) by simp
qed

lemma handshake_step_result: "handshake_step token d st = (a, st1) \<Longrightarrow>
    us_result st1 = us_result st \<and> us_sent st1 = us_sent st \<and> us_matcher st1 = us_matcher st \<and> us_cursor st1 = us_cursor st"
  by (auto simp: handshake_step_def Let_def split: if_splits option.splits)

lemma ub_round_inv:
  assumes inv: "ub_inv c r token S st" and r: "patterns_ok r"
    and chunk: "ut_read t = Inr ch" "\<not> oc_dropped ch \<longrightarrow> oc_next ch = us_cursor st + length (oc_data ch)"
    and go: "ub_round token t st = (Inr st1, fx)"
  shows "\<not> oc_dropped ch \<and> ub_inv c r token (S @ oc_data ch) st1"
proof -
  let ?d = "oc_data ch"
  have nd: "\<not> oc_dropped ch" and nc: "ut_cause t = None"
    using go chunk(1) by (auto simp: ub_round_defs split: option.splits if_splits)
  have cur: "oc_next ch = c + length (S @ ?d)" using inv chunk(2) nd by (simp add: ub_inv_def)
  let ?st = "st\<lparr>us_cursor := c + length (S @ ?d), us_result := (us_result st)\<lparr>ur_outputEnd := c + length (S @ ?d)\<rparr>\<rparr>"
  obtain a sth where step: "handshake_step token ?d ?st = (Inr a, sth)"
    using go chunk(1) nd nc cur by (auto simp: ub_round_defs split: sum.splits prod.splits)
  show ?thesis
  proof (cases a)
    case None
    then have na: "\<not> us_armed ?st" using step by (auto simp: handshake_step_def split: if_splits)
    have i: "str_index S (boot_start_marker token) = None" "us_handshake ?st = window (length (boot_unsupported token)) S"
        "us_matcher st = new_matcher r" "ub_mode r \<noteq> ''wait_reset''"
      using inv na by (auto simp: ub_inv_def)
    have "st1 = sth" using go chunk(1) nd nc cur step None by (auto simp: ub_round_defs)
    then show ?thesis using handshake_step_inv [OF _ _ step na, of True S] i nd None
      by (simp add: ub_inv_def new_matcher_def)
  next
    case (Some D)
    have s1: "us_matcher st1 = bm_feed D (c + length (S @ ?d) - length D) (us_matcher sth)" "us_armed st1 = us_armed sth" "us_cursor st1 = us_cursor sth"
      using go chunk(1) nd nc cur step Some handshake_step_result [OF step]
      by (auto simp: ub_round_defs split: sum.splits if_splits prod.splits option.splits)
    show ?thesis using handshake_matched [OF inv r step [unfolded Some]] s1 nd by (auto simp: ub_inv_def)
  qed
qed

lemma bootErrorStatus_not_entered [simp]: "bootErrorStatus e \<noteq> ''entered''"
  by (simp add: bootErrorStatus_def)

text \<open>A round that returns without error has seen the evidence, in all output read, with none left unread.\<close>

lemma ub_round_entered:
  assumes inv: "ub_inv c r token S st" and r: "patterns_ok r"
    and chunk: "\<And>ch. ut_read t = Inr ch \<Longrightarrow> \<not> oc_dropped ch \<Longrightarrow> oc_next ch = us_cursor st + length (oc_data ch)"
    and ret: "ub_round token t st = (Inl (res, e), fx)" and ok: "e = None \<or> ur_status res = ''entered''"
  shows "\<exists>ch n latest. ut_read t = Inr ch \<and> \<not> oc_dropped ch \<and> e = None \<and> ur_status res = ''entered'' \<and>
    ub_from (ub_mode r = ''wait_reset'') token (S @ oc_data ch) = Some n \<and> boot_evidence r (drop n (S @ oc_data ch)) \<and>
    ur_outputEnd res = c + length (S @ oc_data ch) \<and> ut_latest t = Inr latest \<and> latest \<le> ur_outputEnd res"
proof -
  obtain ch where ch: "ut_read t = Inr ch" and nc: "ut_cause t = None" and nd: "\<not> oc_dropped ch"
    using ret ok by (auto simp: ub_round_defs split: option.splits sum.splits if_splits)
  let ?d = "oc_data ch"
  have cur: "oc_next ch = c + length (S @ ?d)" using inv chunk [OF ch nd] by (simp add: ub_inv_def)
  let ?st = "st\<lparr>us_cursor := c + length (S @ ?d), us_result := (us_result st)\<lparr>ur_outputEnd := c + length (S @ ?d)\<rparr>\<rparr>"
  obtain D sth where step: "handshake_step token ?d ?st = (Inr (Some D), sth)"
    using ret ch nd nc cur ok by (auto simp: ub_round_defs split: sum.splits prod.splits option.splits)
  define m where "m = bm_feed D (c + length (S @ ?d) - length D) (us_matcher sth)"
  obtain n where n: "ub_from (ub_mode r = ''wait_reset'') token (S @ ?d) = Some n"
      "matched (c + n) (drop n (S @ ?d)) m" "bm_request m = r"
    using handshake_matched [OF inv r step] unfolding m_def by blast
  have out: "e = None \<and> ur_status res = ''entered'' \<and> ur_outputEnd res = c + length (S @ ?d) \<and>
      (\<exists>latest. ut_latest t = Inr latest \<and> latest \<le> c + length (S @ ?d)) \<and> \<not> bm_booted m \<and> bm_countdown m \<and> bm_prompt m"
    using ret ch nd nc cur step ok handshake_step_result [OF step] unfolding m_def
    by (auto simp: ub_round_defs copy_matcher_def split: sum.splits prod.splits option.splits if_splits)
  then have "boot_evidence r (drop n (S @ ?d))" using n by (auto simp: matched_def prompt_view_def boot_evidence_def)
  then show ?thesis using ch nd n(1) out by auto
qed

text \<open>The output of the rounds before the one that returned, and of that one.\<close>

fun ub_output :: "ub_turn list \<Rightarrow> string" where
  "ub_output [] = []"
| "ub_output (t # ts) = (case ut_read t of Inl e \<Rightarrow> [] | Inr chunk \<Rightarrow> oc_data chunk) @ ub_output ts"

lemma ub_loop_entered:
  assumes "ub_inv c r token S st" "patterns_ok r" "ub_stream (us_cursor st) ts"
    and "ub_loop token ts st = Some ((res, e), fx)" "e = None \<or> ur_status res = ''entered''"
  shows "\<exists>k T n latest. k < length ts \<and> T = S @ ub_output (take (Suc k) ts) \<and> e = None \<and> ur_status res = ''entered'' \<and>
    ub_from (ub_mode r = ''wait_reset'') token T = Some n \<and> boot_evidence r (drop n T) \<and>
    ur_outputEnd res = c + length T \<and> ut_latest (ts ! k) = Inr latest \<and> latest \<le> ur_outputEnd res"
  using assms
proof (induction ts arbitrary: S st fx)
  case (Cons t ts)
  have chunk: "oc_next ch = us_cursor st + length (oc_data ch)" if "ut_read t = Inr ch" "\<not> oc_dropped ch" for ch
    using Cons.prems(3) that by simp
  show ?case
  proof (cases "ub_round token t st")
    case (Pair a fx1)
    show ?thesis
    proof (cases a)
      case (Inl out)
      then have r: "ub_round token t st = (Inl (res, e), fx1)" using Cons.prems(4) Pair by simp
      obtain ch n latest where e: "ut_read t = Inr ch" "e = None" "ur_status res = ''entered''"
          "ub_from (ub_mode r = ''wait_reset'') token (S @ oc_data ch) = Some n" "boot_evidence r (drop n (S @ oc_data ch))"
          "ur_outputEnd res = c + length (S @ oc_data ch)" "ut_latest t = Inr latest" "latest \<le> ur_outputEnd res"
        using ub_round_entered [OF Cons.prems(1,2) chunk r Cons.prems(5)] by blast
      have "ub_output (take (Suc 0) (t # ts)) = oc_data ch" using e(1) by simp
      then show ?thesis using e(2-8) by (intro exI [of _ 0]) auto
    next
      case (Inr st1)
      then have go: "ub_round token t st = (Inr st1, fx1)" using Pair by simp
      obtain ch where ch: "ut_read t = Inr ch"
        using go by (auto simp: ub_round_defs split: option.splits sum.splits)
      have inv1: "\<not> oc_dropped ch \<and> ub_inv c r token (S @ oc_data ch) st1"
        using ub_round_inv [OF Cons.prems(1,2) ch _ go] chunk [OF ch] by blast
      then have cur1: "us_cursor st1 = oc_next ch" using chunk [OF ch] Cons.prems(1) by (auto simp: ub_inv_def)
      obtain fx2 where l: "ub_loop token ts st1 = Some ((res, e), fx2)" using Cons.prems(4) go by auto
      have strm: "ub_stream (us_cursor st1) ts" using Cons.prems(3) ch cur1 by simp
      obtain k T n latest where k: "k < length ts" "T = (S @ oc_data ch) @ ub_output (take (Suc k) ts)" "e = None"
          "ur_status res = ''entered''" "ub_from (ub_mode r = ''wait_reset'') token T = Some n" "boot_evidence r (drop n T)"
          "ur_outputEnd res = c + length T" "ut_latest (ts ! k) = Inr latest" "latest \<le> ur_outputEnd res"
        using Cons.IH [OF conjunct2 [OF inv1] Cons.prems(2) strm l Cons.prems(5)] by blast
      have "T = S @ ub_output (take (Suc (Suc k)) (t # ts))" using k(2) ch by simp
      then show ?thesis using k(1,3-9) by (intro exI [of _ "Suc k"]) auto
    qed
  qed
qed simp

lemma ub_deferred_entered:
  assumes "ub_deferred env cap (fx, r0, e0) = (fx', r, e)" "ur_status r = ''entered''"
  shows "ur_status r0 = ''entered'' \<and> e = e0 \<and> ur_outputStart r = ur_outputStart r0 \<and> ur_outputEnd r = ur_outputEnd r0"
  using assms by (auto simp: ub_deferred_def Let_def split: option.splits if_splits sum.splits)

definition ub_start_result :: "string \<Rightarrow> string \<Rightarrow> uboot_result" where
  "ub_start_result token sid = zero_uboot_result\<lparr>ur_operation := ''BOOT-'' @ token, ur_session := sid, ur_status := ''failed''\<rparr>"

text \<open>Either nothing was done, or the lease was acquired and the deferred function concludes the body.\<close>

lemma EnterUBoot_cases:
  assumes "EnterUBoot env r0 = Some (fx, res, err)"
  shows "(fx = [] \<and> res = zero_uboot_result \<and> err \<noteq> None) \<or>
    (\<exists>r token owner sid mid fx1. validateUBootRequest r0 = Inr r \<and> ue_token env = Inr token \<and>
       ue_owner env = Inr owner \<and> ue_transport env = ''serial'' \<and> ue_open env \<and>
       ub_body env r token (ub_start_result token sid) = Some mid \<and>
       ub_deferred env (ub_capture r) mid = (fx1, res, err) \<and> fx = UbAcquired (''uboot-'' @ owner) # fx1)"
proof (cases "\<exists>r token sid owner. validateUBootRequest r0 = Inr r \<and> ue_ctx env = None \<and> ue_session env = Inr sid \<and>
    ue_transport env = ''serial'' \<and> ue_open env \<and> ue_token env = Inr token \<and> ue_owner env = Inr owner \<and> ue_acquire env = None")
  case True
  then obtain r token sid owner where e: "validateUBootRequest r0 = Inr r" "ue_ctx env = None" "ue_session env = Inr sid"
      "ue_transport env = ''serial''" "ue_open env" "ue_token env = Inr token" "ue_owner env = Inr owner" "ue_acquire env = None"
    by blast
  obtain mid where mid: "ub_body env r token (ub_start_result token sid) = Some mid"
    using assms e by (auto simp: EnterUBoot_def ub_start_result_def)
  obtain fx1 r1 e1 where d: "ub_deferred env (ub_capture r) mid = (fx1, r1, e1)" by (cases "ub_deferred env (ub_capture r) mid") auto
  have "fx = UbAcquired (''uboot-'' @ owner) # fx1" "res = r1" "err = e1"
    using assms e d mid by (auto simp: EnterUBoot_def ub_start_result_def)
  then show ?thesis using e d mid by blast
next
  case False
  then have "fx = [] \<and> res = zero_uboot_result \<and> err \<noteq> None"
    using assms by (auto simp: EnterUBoot_def split: option.splits sum.splits if_splits; metis)
  then show ?thesis by blast
qed

lemma EnterUBoot_entered:
  assumes "EnterUBoot env r0 = Some (fx, res, err)" "ur_status res = ''entered''"
  shows "\<exists>r token sid r1 fx0. validateUBootRequest r0 = Inr r \<and> ue_token env = Inr token \<and>
    ub_body env r token (ub_start_result token sid) = Some (fx0, r1, err) \<and> ur_status r1 = ''entered'' \<and>
    ur_outputStart res = ur_outputStart r1 \<and> ur_outputEnd res = ur_outputEnd r1"
proof -
  obtain r token sid mid fx1 where m: "validateUBootRequest r0 = Inr r" "ue_token env = Inr token"
      "ub_body env r token (ub_start_result token sid) = Some mid" "ub_deferred env (ub_capture r) mid = (fx1, res, err)"
    using EnterUBoot_cases [OF assms(1)] assms(2) by (auto simp: zero_uboot_result_def)
  obtain fx0 r1 e1 where mid: "mid = (fx0, r1, e1)" by (cases mid)
  show ?thesis using m ub_deferred_entered [OF m(4) [unfolded mid] assms(2)] unfolding mid by metis
qed

lemma ub_loop_start:
  "ub_loop token ts st = Some ((res, e), fx) \<Longrightarrow> ur_outputStart res = ur_outputStart (us_result st)"
proof (induction ts arbitrary: st fx)
  case (Cons t ts)
  have "case ub_round token t st of
      (Inl (res, e), fx) \<Rightarrow> ur_outputStart res = ur_outputStart (us_result st)
    | (Inr st1, fx) \<Rightarrow> ur_outputStart (us_result st1) = ur_outputStart (us_result st)"
    by (auto simp: ub_round_defs copy_matcher_def dest!: handshake_step_result split: option.splits sum.splits if_splits prod.splits)
  then show ?case using Cons by (fastforce split: prod.splits sum.splits)
qed simp

lemma ub_body_loop:
  assumes "ub_body env r token (ub_start_result token sid) = Some (fx0, r1, err)" "ur_status r1 = ''entered''" "ue_tail env = Inr c"
  shows "\<exists>x fx2. ub_loop token (ue_turns env) \<lparr>us_armed = (ub_mode r = ''wait_reset''), us_handshake = [], us_sent = False,
      us_matcher = new_matcher r, us_cursor = c, us_result = x\<rparr> = Some ((r1, err), fx2) \<and> ur_outputStart x = c"
  using assms
  by (auto simp: ub_body_def ub_watch_def Let_def ub_start_result_def split: if_splits prod.splits option.splits sum.splits bool.splits)

text \<open>
  C20 \<open>EnterUBoot\<close> reports \<open>entered\<close> only on evidence: the reads from the announced
  start cursor to the reported end cursor hold, behind the start marker where one
  was awaited, the countdown, no boot-start pattern, a line end, and the prompt as
  the whole text behind the last line end; nothing later was retained when this was
  decided; and no error is returned.
\<close>

theorem uboot_entered_evidence:
  assumes run: "EnterUBoot env r0 = Some (fx, res, err)" and entered: "ur_status res = ''entered''"
    and tail: "ue_tail env = Inr c" and stream: "ub_stream c (ue_turns env)"
  shows "\<exists>r token k n S latest. validateUBootRequest r0 = Inr r \<and> ue_token env = Inr token \<and> err = None \<and>
    ur_outputStart res = c \<and> ur_outputEnd res = c + length S \<and> S = ub_output (take (Suc k) (ue_turns env)) \<and>
    ub_from (ub_mode r = ''wait_reset'') token S = Some n \<and> boot_evidence r (drop n S) \<and>
    k < length (ue_turns env) \<and> ut_latest (ue_turns env ! k) = Inr latest \<and> latest \<le> ur_outputEnd res"
proof -
  obtain r token sid r1 fx0 where r: "validateUBootRequest r0 = Inr r" and token: "ue_token env = Inr token"
      and body: "ub_body env r token (ub_start_result token sid) = Some (fx0, r1, err)"
      and r1: "ur_status r1 = ''entered''" "ur_outputStart res = ur_outputStart r1" "ur_outputEnd res = ur_outputEnd r1"
    using EnterUBoot_entered [OF run entered] by blast
  define st where "st = (\<lambda>res. \<lparr>us_armed = (ub_mode r = ''wait_reset''), us_handshake = [], us_sent = False, us_matcher = new_matcher r,
     us_cursor = c, us_result = res\<rparr>)"
  obtain x fx2 where x: "ub_loop token (ue_turns env) (st x) = Some ((r1, err), fx2)" "ur_outputStart x = c"
    using ub_body_loop [OF body r1(1) tail] unfolding st_def by blast
  have p: "patterns_ok r" using validated_patterns [OF r] .
  have inv: "ub_inv c r token [] (st x)"
    using new_matcher_matched [OF p, of c] by (auto simp: ub_inv_def st_def ub_from_def window_def new_matcher_def boot_start_marker_def)
  have "ub_stream (us_cursor (st x)) (ue_turns env)" using stream by (simp add: st_def)
  from ub_loop_entered [OF inv p this x(1) disjI2 [OF r1(1)]] ub_loop_start [OF x(1)] x(2) r r1 token
  show ?thesis by (simp add: st_def) blast
qed

definition demo_turn :: "string \<Rightarrow> nat \<Rightarrow> ub_turn" where
  "demo_turn d c = \<lparr>ut_cause = None, ut_read = Inr \<lparr>oc_data = d, oc_next = c, oc_dropped = False\<rparr>, ut_after = None,
     ut_latest = Inr c, ut_write = (1, None)\<rparr>"

definition demo_uboot :: ub_env where
  "demo_uboot = \<lparr>ue_ctx = None, ue_session = Inr ''s1'', ue_transport = ''serial'', ue_open = True, ue_token = Inr ''t'',
     ue_owner = Inr ''o'', ue_acquire = None, ue_activity = Inl IoEOF, ue_tail = Inr 7, ue_boot_write = (0, None),
     ue_turns = [demo_turn ''Hit any'' 14, demo_turn '' key: 1'' 21, demo_turn ([CHR 0x0A] @ ''=> '') 25],
     ue_release = None, ue_elapsed = 5, ue_archive = Inr ''a''\<rparr>"

lemma demo_uboot_run:
  "\<exists>fx res err. EnterUBoot demo_uboot demo_request = Some (fx, res, err) \<and> fx \<noteq> [] \<and> ur_status res = ''entered'' \<and> ur_bytesWritten res = 1"
proof -
  have "case EnterUBoot demo_uboot demo_request of
     Some (fx, res, err) \<Rightarrow> fx \<noteq> [] \<and> ur_status res = ''entered'' \<and> ur_bytesWritten res = 1 | None \<Rightarrow> False"
    by code_simp
  then show ?thesis by (cases "EnterUBoot demo_uboot demo_request") auto
qed

theorem uboot_entered_evidence_witness:
  "\<exists>fx res k S. EnterUBoot demo_uboot demo_request = Some (fx, res, None) \<and> ur_outputEnd res = 7 + length S \<and>
    S = ub_output (take (Suc k) (ue_turns demo_uboot)) \<and> ur_bytesWritten res = 1"
proof -
  obtain fx res err where run: "EnterUBoot demo_uboot demo_request = Some (fx, res, err)"
      "ur_status res = ''entered''" "ur_bytesWritten res = 1"
    using demo_uboot_run by blast
  have t: "ue_tail demo_uboot = Inr 7" "ub_stream 7 (ue_turns demo_uboot)" by (code_simp, code_simp)
  from uboot_entered_evidence [OF run(1,2) t] run show ?thesis by blast
qed

section \<open>Writes and the conclusion\<close>

fun ub_write :: "ub_effect \<Rightarrow> (actor \<times> string) option" where
  "ub_write (UbWrite a d) = Some (a, d)"
| "ub_write _ = None"

definition ub_writes :: "ub_effect list \<Rightarrow> (actor \<times> string) list" where
  "ub_writes fx = List.map_filter ub_write fx"

lemma ub_writes_simps [simp]:
  "ub_writes [] = []" "ub_writes (e # fx) = (case ub_write e of None \<Rightarrow> ub_writes fx | Some w \<Rightarrow> w # ub_writes fx)"
  by (simp_all add: ub_writes_def map_filter_simps split: option.splits)

lemma ub_writes_append [simp]: "ub_writes (a @ b) = ub_writes a @ ub_writes b"
  by (induction a) (simp_all split: option.splits)

text \<open>What a round may do: capture, and write the interrupt if it was not sent yet.\<close>

definition ub_inner :: "ub_effect \<Rightarrow> bool" where
  "ub_inner e \<longleftrightarrow> e \<notin> {UbCancel, UbJoinRenewal, UbRelease, UbExport} \<and> (\<forall>ow. e \<noteq> UbAcquired ow)"

lemma bm_bytes_keeps: "bm_request (bm_bytes pos d m) = bm_request m"
  by (induction pos d m rule: bm_bytes.induct) (simp_all add: bm_byte_def Let_def)

lemma bm_feed_keeps [simp]: "bm_request (bm_feed d pos m) = bm_request m"
  by (simp add: bm_feed_def Let_def bm_bytes_keeps split: option.splits)

lemma ub_round_writes:
  assumes "ub_round token t st = (a, fx)"
  shows "(case a of
      Inl (res, e) \<Rightarrow> ub_writes fx = [] \<or> \<not> us_sent st \<and> ur_countdownMatched res \<and>
        ub_writes fx = [(ActorAgent, ub_interrupt (bm_request (us_matcher st)))]
    | Inr st1 \<Rightarrow> bm_request (us_matcher st1) = bm_request (us_matcher st) \<and>
        (ub_writes fx = [] \<and> us_sent st1 = us_sent st \<or>
         \<not> us_sent st \<and> us_sent st1 \<and> bm_countdown (us_matcher st1) \<and>
         ub_writes fx = [(ActorAgent, ub_interrupt (bm_request (us_matcher st)))])) \<and>
    list_all ub_inner fx"
  using assms
  by (auto simp: ub_round_defs copy_matcher_def ub_inner_def dest!: handshake_step_result
      split: option.splits sum.splits if_splits prod.splits)

lemma ub_loop_writes:
  assumes "ub_loop token ts st = Some ((res, e), fx)"
  shows "(ub_writes fx = [] \<or> \<not> us_sent st \<and> ub_writes fx = [(ActorAgent, ub_interrupt (bm_request (us_matcher st)))]) \<and>
    list_all ub_inner fx"
  using assms
proof (induction ts arbitrary: st fx)
  case (Cons t ts)
  obtain a fx1 where a: "ub_round token t st = (a, fx1)" by (cases "ub_round token t st")
  note w = ub_round_writes [OF a]
  show ?case
  proof (cases a)
    case (Inl out)
    then show ?thesis using w a Cons.prems by (auto split: prod.splits)
  next
    case (Inr st1)
    then obtain fx2 where l: "ub_loop token ts st1 = Some ((res, e), fx2)" "fx = fx1 @ fx2" using a Cons.prems by auto
    show ?thesis using Cons.IH [OF l(1)] w Inr l(2) by auto
  qed
qed simp

lemma ub_body_writes:
  assumes "ub_body env r token x = Some (fx, res, e)"
  shows "\<exists>boot intr. ub_writes fx = boot @ intr \<and> intr \<in> {[], [(ActorAgent, ub_interrupt r)]} \<and>
    boot \<in> {[], [(ActorSystem, uboot_bootstrap (ub_reboot r) token)]} \<and> (ub_mode r = ''wait_reset'' \<longrightarrow> boot = []) \<and>
    list_all ub_inner fx"
proof (cases "fx = []")
  case False
  have w: "ub_watch env r token x = Some (fx, res, e)"
    using assms False by (auto simp: ub_body_def split: sum.splits bool.splits if_splits)
  then obtain c where c: "ue_tail env = Inr c" using False by (auto simp: ub_watch_def split: sum.splits)
  define P where "P fx' = ((ub_writes fx' = [] \<or> ub_writes fx' = [(ActorAgent, ub_interrupt r)]) \<and> list_all ub_inner fx')" for fx'
  have l: "P fx'" if "ub_loop token ts st = Some ((res', e'), fx')" "us_matcher st = new_matcher r" for ts st res' e' fx'
    using ub_loop_writes [OF that(1)] that(2) by (auto simp: new_matcher_def P_def)
  have P0: "P []" by (simp add: P_def)
  have "\<exists>ready bs fx'. fx = UbPublish ready # bs @ fx' \<and> P fx' \<and>
      bs = (if ub_mode r = ''wait_reset'' then [] else [UbWrite ActorSystem (uboot_bootstrap (ub_reboot r) token)])"
  proof (cases "ub_mode r = ''wait_reset''")
    case True
    then show ?thesis using w c by (auto simp: ub_watch_def Let_def split: prod.splits dest!: l)
  next
    case False
    then show ?thesis using w c P0 by (auto simp: ub_watch_def Let_def split: prod.splits option.splits dest!: l)
  qed
  then obtain ready bs fx' where fx: "fx = UbPublish ready # bs @ fx'" "P fx'"
      "bs = (if ub_mode r = ''wait_reset'' then [] else [UbWrite ActorSystem (uboot_bootstrap (ub_reboot r) token)])" by blast
  show ?thesis
    by (rule exI [of _ "ub_writes bs"], rule exI [of _ "ub_writes fx'"]) (use fx in \<open>auto simp: P_def ub_inner_def\<close>)
qed auto

text \<open>
  Whatever happens after the lease was granted, the operation ends by stopping and
  joining the renewal and giving the lease back, once and after the last write, then
  publishes its final status. Before that it wrote at most the bootstrap command (in
  reboot mode only) and then at most one interrupt; where the lease was not granted it
  did nothing at all.
\<close>

theorem uboot_concluded:
  assumes "EnterUBoot env r0 = Some (fx, res, err)"
  shows "(fx = [] \<and> err \<noteq> None) \<or>
    (\<exists>r token owner inner boot intr. validateUBootRequest r0 = Inr r \<and> ue_token env = Inr token \<and>
       fx = UbAcquired owner # inner @ [UbCancel, UbJoinRenewal, UbRelease] @ (if ub_capture r then [UbExport] else []) @
         [UbPublish (ub_metadata res)] \<and>
       list_all ub_inner inner \<and> ub_writes inner = boot @ intr \<and> intr \<in> {[], [(ActorAgent, ub_interrupt r)]} \<and>
       boot \<in> {[], [(ActorSystem, uboot_bootstrap (ub_reboot r) token)]} \<and> (ub_mode r = ''wait_reset'' \<longrightarrow> boot = []))"
proof (cases "fx = [] \<and> err \<noteq> None")
  case False
  obtain r token owner sid mid fx1 where m: "validateUBootRequest r0 = Inr r" "ue_token env = Inr token"
      "ub_body env r token (ub_start_result token sid) = Some mid" "ub_deferred env (ub_capture r) mid = (fx1, res, err)"
      "fx = UbAcquired (''uboot-'' @ owner) # fx1"
    using EnterUBoot_cases [OF assms] False by blast
  obtain inner r1 e1 where mid: "mid = (inner, r1, e1)" by (cases mid)
  have "fx1 = inner @ [UbCancel, UbJoinRenewal, UbRelease] @ (if ub_capture r then [UbExport] else []) @ [UbPublish (ub_metadata res)]"
    using m(4) unfolding mid by (auto simp: ub_deferred_def Let_def split: option.splits if_splits sum.splits)
  then show ?thesis using ub_body_writes [OF m(3) [unfolded mid]] m(1,2,5) by blast
qed blast

theorem uboot_concluded_witness:
  "\<exists>fx res err owner inner. EnterUBoot demo_uboot demo_request = Some (fx, res, err) \<and> 
    fx = UbAcquired owner # inner @ [UbCancel, UbJoinRenewal, UbRelease, UbPublish (ub_metadata res)] \<and> list_all ub_inner inner"
proof -
  obtain fx res err where run: "EnterUBoot demo_uboot demo_request = Some (fx, res, err)" "fx \<noteq> []"
    using demo_uboot_run by blast
  have c: "validateUBootRequest demo_request = Inr r \<Longrightarrow> \<not> ub_capture r" for r
    using demo_request_valid by (auto simp: demo_request_def)
  show ?thesis using uboot_concluded [OF run(1)] run c by fastforce
qed

end
