(* ===== verification/SCP.thy ===== *)
theory SCP
  imports Terminal_Command
begin

text \<open>
  \<open>internal/transport/ssh/scp.go\<close>: the legacy SCP protocol. Names and paths, the
  sink that receives a tree, the source that sends one, and the commands and the
  connection around them. A connection is the bytes that arrive on it, the error at
  their end, and the bytes written; what callbacks and writes answer is a parameter.
\<close>

section \<open>Names\<close>

text \<open>
  \<open>strings.ToUpper\<close> as far as comparisons with ASCII text see it: beside the ASCII
  letters only the dotless i and the long s have ASCII capitals, and no rune becomes
  a superscript digit; other bytes keep their place.
\<close>

fun upper_name :: "string \<Rightarrow> string" where
  "upper_name [] = []"
| "upper_name [c] = [upper_byte c]"
| "upper_name (c # d # s) =
     (if c = CHR 0xC4 \<and> d = CHR 0xB1 then CHR ''I'' # upper_name s
      else if c = CHR 0xC5 \<and> d = CHR 0xBF then CHR ''S'' # upper_name s
      else upper_byte c # upper_name (d # s))"

definition name_forbidden :: "byte \<Rightarrow> bool" where
  "name_forbidden c \<longleftrightarrow> c \<in> set ''/:<>|?*'' \<or> c \<in> {CHR 0x5C, CHR 0x22, CHR 0x00, CHR 0x0D, CHR 0x0A}"

definition control_byte :: "byte \<Rightarrow> bool" where
  "control_byte c \<longleftrightarrow> (of_char c :: int) < 32 \<or> (of_char c :: int) = 127"

definition device_names :: "string list" where
  "device_names = [''CON'', ''PRN'', ''AUX'', ''NUL'', ''CONIN$'', ''CONOUT$'']"

definition device_digit :: "string \<Rightarrow> bool" where
  "device_digit d \<longleftrightarrow> (\<exists>c \<in> set d. d = [c] \<and> is_digit c) \<or> d \<in> {[CHR 0xC2, CHR 0xB9], [CHR 0xC2, CHR 0xB2], [CHR 0xC2, CHR 0xB3]}"

text \<open>
  \<open>ValidFileName\<close>. A rune is below 32 or 127 exactly when it is such a byte, since
  every other rune, the replacement of an invalid byte too, is at least 128 or
  printable ASCII.
\<close>

definition ValidFileName :: "string \<Rightarrow> bool" where
  "ValidFileName name \<longleftrightarrow>
     \<not> (name = [] \<or> name = ''.'' \<or> name = ''..'' \<or> list_ex name_forbidden name \<or> List.last name \<in> {CHR '' '', CHR ''.''}) \<and>
     \<not> list_ex control_byte name \<and>
     (let base = upper_name (takeWhile (\<lambda>c. c \<noteq> CHR ''.'') name)
      in base \<notin> set device_names \<and>
         \<not> ((has_prefix base ''COM'' \<or> has_prefix base ''LPT'') \<and> device_digit (drop 3 base)))"

lemma valid_name:
  assumes "ValidFileName n"
  shows "n \<noteq> []" "n \<noteq> ''.''" "n \<noteq> ''..''" "CHR ''/'' \<notin> set n" "CHR 0x5C \<notin> set n" "CHR 0x0A \<notin> set n" "CHR 0x00 \<notin> set n"
  using assms by (auto simp: ValidFileName_def list_ex_iff name_forbidden_def)

section \<open>Paths\<close>

definition path_unsafe :: "byte \<Rightarrow> bool" where
  "path_unsafe c \<longleftrightarrow> c \<in> {CHR 0x00, CHR 0x0D, CHR 0x0A}"

definition scpPath :: "string \<Rightarrow> goerr + string" where
  "scpPath value =
     (if value = [] \<or> list_ex path_unsafe value
      then Inl (ErrText ''SCP path must be nonempty and contain no NUL or newline'')
      else Inr (quoteTerminalCommand (if has_prefix value ''/'' then value else ''./'' @ value)))"

text \<open>\<open>path.Base\<close> and \<open>path.Clean\<close>.\<close>

definition trim_right_byte :: "byte \<Rightarrow> string \<Rightarrow> string" where
  "trim_right_byte c s = rev (dropWhile (\<lambda>b. b = c) (rev s))"

definition path_Base :: "string \<Rightarrow> string" where
  "path_Base p =
     (if p = [] then ''.''
      else let t = trim_right_byte (CHR ''/'') p in if t = [] then ''/'' else List.last (split_byte (CHR ''/'') t))"

fun clean_parts :: "bool \<Rightarrow> string list \<Rightarrow> string list \<Rightarrow> string list" where
  "clean_parts rooted out [] = rev out"
| "clean_parts rooted out (w # ws) =
     (if w = [] \<or> w = ''.'' then clean_parts rooted out ws
      else if w = ''..'' then
        (case out of
           [] \<Rightarrow> clean_parts rooted (if rooted then [] else [w]) ws
         | u # us \<Rightarrow> clean_parts rooted (if u = ''..'' then w # out else us) ws)
      else clean_parts rooted (w # out) ws)"

definition path_Clean :: "string \<Rightarrow> string" where
  "path_Clean p =
     (let rooted = has_prefix p ''/'';
          body = str_join ''/'' (clean_parts rooted [] (split_byte (CHR ''/'') p))
      in if rooted then ''/'' @ body else if body = [] then ''.'' else body)"

section \<open>A connection\<close>

definition BufioErrBufferFull :: goerr where "BufioErrBufferFull = ErrSentinel ''bufio.ErrBufferFull''"

record scp_io =
  io_in :: string           \<comment> \<open>the bytes that arrive and are not read yet\<close>
  io_fail :: goerr          \<comment> \<open>the error of a read behind them\<close>
  io_out :: string          \<comment> \<open>the bytes written\<close>
  io_writes :: nat          \<comment> \<open>the number of writes\<close>

text \<open>What a write answers, by its number and its data: bytes taken and error.\<close>

type_synonym write_answers = "nat \<Rightarrow> string \<Rightarrow> nat \<times> goerr option"

definition io_write :: "write_answers \<Rightarrow> string \<Rightarrow> scp_io \<Rightarrow> (nat \<times> goerr option) \<times> scp_io" where
  "io_write w d io =
     (w (io_writes io) d,
      io\<lparr>io_out := io_out io @ take (fst (w (io_writes io) d)) d, io_writes := Suc (io_writes io)\<rparr>)"

definition io_ReadByte :: "scp_io \<Rightarrow> (goerr + byte) \<times> scp_io" where
  "io_ReadByte io = (case io_in io of [] \<Rightarrow> (Inl (io_fail io), io) | c # s \<Rightarrow> (Inr c, io\<lparr>io_in := s\<rparr>))"

text \<open>\<open>scpLine\<close>: the reader holds 4096 bytes, and a line with its end must fit into them.\<close>

definition scpLine :: "scp_io \<Rightarrow> (goerr + string) \<times> scp_io" where
  "scpLine io =
     (let line = takeWhile (\<lambda>c. c \<noteq> CHR 0x0A) (io_in io);
          wrap = (\<lambda>e. ErrWrap e ''read SCP control record'')
      in if int (length line) \<ge> 4096 then (Inl (wrap BufioErrBufferFull), io)
         else if length line = length (io_in io) then (Inl (wrap (io_fail io)), io)
         else (Inr line, io\<lparr>io_in := drop (Suc (length line)) (io_in io)\<rparr>))"

definition scpAck :: "scp_io \<Rightarrow> goerr option \<times> scp_io" where
  "scpAck io =
     (case io_ReadByte io of
        (Inl e, io1) \<Rightarrow> (Some e, io1)
      | (Inr status, io1) \<Rightarrow>
          if status = CHR 0x00 then (None, io1)
          else if status \<noteq> CHR 0x01 \<and> status \<noteq> CHR 0x02 then (Some (ErrText ''invalid SCP acknowledgement''), io1)
          else (case scpLine io1 of
                  (Inl e, io2) \<Rightarrow> (Some e, io2)
                | (Inr message, io2) \<Rightarrow> (Some (ErrText (''remote SCP error: '' @ message)), io2)))"

definition scpOK :: "write_answers \<Rightarrow> scp_io \<Rightarrow> goerr option \<times> scp_io" where
  "scpOK w io =
     (case io_write w [CHR 0x00] io of
        ((n, None), io1) \<Rightarrow> (if n \<noteq> 1 then Some IoErrShortWrite else None, io1)
      | ((n, Some e), io1) \<Rightarrow> (Some e, io1))"

section \<open>The sink\<close>

record scp_entry =
  sc_path :: string
  sc_size :: nat
  sc_mode :: nat
  sc_dir :: bool

definition octal_digit :: "byte \<Rightarrow> bool" where
  "octal_digit c \<longleftrightarrow> is_digit c \<and> digit_val c < 8"

text \<open>\<open>ParseUint(s, 8, 12)\<close> on four bytes: four octal digits always fit into 12 bits.\<close>

definition parse_mode :: "string \<Rightarrow> nat option" where
  "parse_mode s = (if s \<noteq> [] \<and> list_all octal_digit s then Some (foldl (\<lambda>a c. 8 * a + digit_val c) 0 s) else None)"

text \<open>\<open>SplitN(line, " ", 3)\<close>: at most two cuts.\<close>

definition cut_space :: "string \<Rightarrow> (string \<times> string) option" where
  "cut_space s = (let a = takeWhile (\<lambda>c. c \<noteq> CHR '' '') s in if length a = length s then None else Some (a, drop (Suc (length a)) s))"

definition entry_fields :: "string \<Rightarrow> (string \<times> string \<times> string) option" where
  "entry_fields line =
     (case cut_space line of None \<Rightarrow> None
      | Some (a, rest) \<Rightarrow> (case cut_space rest of None \<Rightarrow> None | Some (b, c) \<Rightarrow> Some (a, b, c)))"

text \<open>
  The state of the sink: the connection, the open directories, the names seen, and
  what it delivered to \<open>receive\<close>: every entry with the payload bytes consumed there.
\<close>

record scp_sink =
  rx_io :: scp_io
  rx_stack :: "string list"
  rx_seen :: "string list"
  rx_root :: bool
  rx_files :: nat
  rx_log :: "(scp_entry \<times> string) list"

text \<open>
  \<open>receive\<close> is given an entry and, for a file, the payload bytes that will arrive of
  the size announced; it answers how many it consumed, and its error. \<open>verify\<close> is
  optional.
\<close>

record scp_sink_env =
  re_expected :: string
  re_recursive :: bool
  re_receive :: "nat \<Rightarrow> scp_entry \<Rightarrow> string \<Rightarrow> nat \<times> goerr option"
  re_verify :: "(nat \<Rightarrow> scp_entry \<Rightarrow> goerr option) option"
  re_write :: write_answers

text \<open>Steps that may fail: \<open>Inl\<close> is the error to return.\<close>

definition rx_ok :: "scp_sink_env \<Rightarrow> scp_sink \<Rightarrow> (goerr \<times> scp_sink) + scp_sink" where
  "rx_ok env st =
     (case scpOK (re_write env) (rx_io st) of
        (Some e, io) \<Rightarrow> Inl (e, st\<lparr>rx_io := io\<rparr>)
      | (None, io) \<Rightarrow> Inr (st\<lparr>rx_io := io\<rparr>))"

text \<open>The payload: what \<open>receive\<close> consumes of the next \<open>size\<close> bytes leaves the connection.\<close>

definition rx_deliver :: "scp_sink_env \<Rightarrow> scp_entry \<Rightarrow> scp_sink \<Rightarrow> (goerr \<times> scp_sink) + scp_sink" where
  "rx_deliver env entry st =
     (let body = (if sc_dir entry then [] else take (sc_size entry) (io_in (rx_io st)));
          answer = re_receive env (length (rx_log st)) entry body;
          used = take (fst answer) body;
          st1 = st\<lparr>rx_io := (rx_io st)\<lparr>io_in := drop (length used) (io_in (rx_io st))\<rparr>, rx_log := rx_log st @ [(entry, used)]\<rparr>
      in case snd answer of
           Some e \<Rightarrow> Inl (e, st1)
         | None \<Rightarrow> if \<not> sc_dir entry \<and> length used \<noteq> sc_size entry then Inl (IoErrUnexpectedEOF, st1) else Inr st1)"

definition rx_directory :: "scp_sink_env \<Rightarrow> string \<Rightarrow> scp_entry \<Rightarrow> scp_sink \<Rightarrow> (goerr \<times> scp_sink) + scp_sink" where
  "rx_directory env name entry st =
     (case rx_deliver env entry st of
        Inl x \<Rightarrow> Inl x
      | Inr st1 \<Rightarrow> rx_ok env (st1\<lparr>rx_stack := rx_stack st1 @ [name]\<rparr>))"

definition rx_verified :: "scp_sink_env \<Rightarrow> scp_entry \<Rightarrow> scp_sink \<Rightarrow> (goerr \<times> scp_sink) + scp_sink" where
  "rx_verified env entry st =
     (case (case re_verify env of None \<Rightarrow> None | Some v \<Rightarrow> v (rx_files st) entry) of
        Some e \<Rightarrow> Inl (e, st)
      | None \<Rightarrow> Inr (st\<lparr>rx_files := Suc (rx_files st)\<rparr>))"

definition rx_file :: "scp_sink_env \<Rightarrow> scp_entry \<Rightarrow> scp_sink \<Rightarrow> (goerr \<times> scp_sink) + scp_sink" where
  "rx_file env entry st =
     (case rx_ok env st of Inl x \<Rightarrow> Inl x | Inr st1 \<Rightarrow>
      case rx_deliver env entry st1 of Inl x \<Rightarrow> Inl x | Inr st2 \<Rightarrow>
      case scpAck (rx_io st2) of
        (Some e, io) \<Rightarrow> Inl (e, st2\<lparr>rx_io := io\<rparr>)
      | (None, io) \<Rightarrow>
          (case rx_ok env (st2\<lparr>rx_io := io\<rparr>) of Inl x \<Rightarrow> Inl x | Inr st3 \<Rightarrow> rx_verified env entry st3))"

definition bad_timestamp :: "string \<Rightarrow> bool" where
  "bad_timestamp part \<longleftrightarrow> (case go_Atoi part of None \<Rightarrow> True | Some n \<Rightarrow> n < 0)"

text \<open>A \<open>C\<close> or \<open>D\<close> record.\<close>

definition rx_entry :: "scp_sink_env \<Rightarrow> bool \<Rightarrow> string \<Rightarrow> scp_sink \<Rightarrow> (goerr \<times> scp_sink) + scp_sink" where
  "rx_entry env dir line st =
     (case entry_fields line of
        None \<Rightarrow> Inl (ErrText ''invalid SCP entry'', st)
      | Some (mode, count, name) \<Rightarrow>
          if length mode \<noteq> 4 \<or> \<not> ValidFileName name then Inl (ErrText ''invalid SCP entry'', st)
          else (case (parse_mode mode, go_Atoi count) of
            (Some m, Some n) \<Rightarrow>
              if n < 0 \<or> dir \<and> (n \<noteq> 0 \<or> \<not> re_recursive env)
              then Inl (ErrText ''invalid SCP size/mode or directory without --recursive'', st)
              else if rx_stack st = [] \<and> (rx_root st \<or> name \<noteq> re_expected env)
              then Inl (ErrText ''unexpected SCP root filename'', st)
              else
                let st1 = (if rx_stack st = [] then st\<lparr>rx_root := True\<rparr> else st);
                    path = str_join ''/'' (rx_stack st @ [name])
                in if path \<in> set (rx_seen st) \<or> int (length (rx_seen st)) \<ge> 100000 \<or> int (length (rx_stack st)) \<ge> 128
                   then Inl (ErrText ''duplicate SCP entry or tree limit exceeded'', st1)
                   else
                     let entry = \<lparr>sc_path = path, sc_size = nat n, sc_mode = m mod 512, sc_dir = dir\<rparr>;
                         st2 = st1\<lparr>rx_seen := rx_seen st1 @ [path]\<rparr>
                     in if dir then rx_directory env name entry st2 else rx_file env entry st2
          | _ \<Rightarrow> Inl (ErrText ''invalid SCP size/mode or directory without --recursive'', st)))"

text \<open>What follows the kind byte.\<close>

definition rx_record :: "scp_sink_env \<Rightarrow> byte \<Rightarrow> string \<Rightarrow> scp_sink \<Rightarrow> (goerr \<times> scp_sink) + scp_sink" where
  "rx_record env kind line st =
     (if kind = CHR 0x01 \<or> kind = CHR 0x02 then Inl (ErrText (''remote SCP error: '' @ line), st)
      else if kind = CHR ''T'' then
        (if length (str_fields line) \<noteq> 4 \<or> list_ex bad_timestamp (str_fields line) then Inl (ErrText ''invalid SCP timestamp'', st)
         else rx_ok env st)
      else if kind = CHR ''E'' then
        (if line \<noteq> [] \<or> rx_stack st = [] then Inl (ErrText ''unmatched SCP directory end'', st)
         else rx_ok env (st\<lparr>rx_stack := butlast (rx_stack st)\<rparr>))
      else if kind \<noteq> CHR ''C'' \<and> kind \<noteq> CHR ''D'' then Inl (ErrText ''unexpected SCP record'', st)
      else rx_entry env (kind = CHR ''D'') line st)"

text \<open>One turn: \<open>Inl\<close> is the return with its error, \<open>Inr\<close> the state of the next turn.\<close>

definition rx_turn :: "scp_sink_env \<Rightarrow> scp_sink \<Rightarrow> (goerr option \<times> scp_sink) + scp_sink" where
  "rx_turn env st =
     (case io_ReadByte (rx_io st) of
        (Inl e, io) \<Rightarrow>
          Inl (if e = IoEOF \<and> rx_root st \<and> rx_stack st = [] then None else Some (ErrWrap e ''incomplete SCP transfer''), st\<lparr>rx_io := io\<rparr>)
      | (Inr kind, io) \<Rightarrow>
          (case scpLine io of
             (Inl e, io1) \<Rightarrow> Inl (Some e, st\<lparr>rx_io := io1\<rparr>)
           | (Inr line, io1) \<Rightarrow>
               (case rx_record env kind line (st\<lparr>rx_io := io1\<rparr>) of
                  Inl (e, st1) \<Rightarrow> Inl (Some e, st1)
                | Inr st1 \<Rightarrow> Inr st1)))"

text \<open>A turn that goes on has consumed its kind byte at least.\<close>

definition rx_left :: "scp_sink \<Rightarrow> nat" where
  "rx_left st = length (io_in (rx_io st))"

definition rx_shrinks :: "scp_sink \<Rightarrow> scp_sink \<Rightarrow> bool" where
  "rx_shrinks st st' \<longleftrightarrow> (\<exists>n. io_in (rx_io st') = drop n (io_in (rx_io st)))"

lemma rx_shrinks_refl [simp, intro]: "io_in (rx_io st') = io_in (rx_io st) \<Longrightarrow> rx_shrinks st st'"
  unfolding rx_shrinks_def by (rule exI [of _ 0]) simp

lemma rx_shrinks_trans [trans]: "rx_shrinks a b \<Longrightarrow> rx_shrinks b c \<Longrightarrow> rx_shrinks a c"
  by (auto simp: rx_shrinks_def drop_drop)

lemma rx_shrinks_left: "rx_shrinks a b \<Longrightarrow> rx_left b \<le> rx_left a"
  by (auto simp: rx_shrinks_def rx_left_def)

lemma io_write_in: "io_write w d io = (r, io') \<Longrightarrow> io_in io' = io_in io"
  by (auto simp: io_write_def)

lemma scpOK_in: "scpOK w io = (r, io') \<Longrightarrow> io_in io' = io_in io"
  by (auto simp: scpOK_def split: prod.splits option.splits dest: io_write_in)

lemma scpLine_in: "scpLine io = (r, io') \<Longrightarrow> \<exists>n. io_in io' = drop n (io_in io)"
  by (auto simp: scpLine_def Let_def split: if_splits intro: exI [of _ 0])

lemma io_ReadByte_in: "io_ReadByte io = (r, io') \<Longrightarrow> (case r of Inl e \<Rightarrow> io' = io | Inr c \<Rightarrow> io_in io = c # io_in io')"
  by (auto simp: io_ReadByte_def split: list.splits)

lemma scpAck_in: "scpAck io = (r, io') \<Longrightarrow> \<exists>n. io_in io' = drop n (io_in io)"
proof -
  assume a: "scpAck io = (r, io')"
  obtain b io1 where b: "io_ReadByte io = (b, io1)" by (cases "io_ReadByte io")
  show ?thesis
  proof (cases b)
    case (Inl e)
    then show ?thesis using a b io_ReadByte_in [OF b] by (auto simp: scpAck_def intro: exI [of _ 0])
  next
    case (Inr c)
    have d: "drop (Suc n) (io_in io) = drop n (io_in io1)" for n using io_ReadByte_in [OF b] Inr by simp
    have "\<exists>n. io_in io' = drop n (io_in io1)"
      using a b Inr by (auto simp: scpAck_def split: if_splits prod.splits sum.splits dest!: scpLine_in intro: exI [of _ 0])
    then show ?thesis using d by metis
  qed
qed

lemma rx_ok_shrinks: "rx_ok env st = Inr st' \<Longrightarrow> rx_shrinks st st'"
  by (auto simp: rx_ok_def split: prod.splits option.splits dest!: scpOK_in)

lemma rx_deliver_shrinks: "rx_deliver env e st = Inr st' \<Longrightarrow> rx_shrinks st st'"
  by (auto simp: rx_deliver_def Let_def rx_shrinks_def split: option.splits if_splits intro: exI [of _ 0])

lemma rx_ack_shrinks: "scpAck (rx_io st) = (r, io) \<Longrightarrow> rx_shrinks st (st\<lparr>rx_io := io\<rparr>)"
  using scpAck_in by (auto simp: rx_shrinks_def)

lemma rx_file_shrinks: "rx_file env e st = Inr st' \<Longrightarrow> rx_shrinks st st'"
proof -
  assume a: "rx_file env e st = Inr st'"
  obtain st1 where 1: "rx_ok env st = Inr st1" using a by (auto simp: rx_file_def split: sum.splits)
  obtain st2 where 2: "rx_deliver env e st1 = Inr st2" using a 1 by (auto simp: rx_file_def split: sum.splits)
  obtain io where 3: "scpAck (rx_io st2) = (None, io)" using a 1 2 by (auto simp: rx_file_def split: prod.splits option.splits)
  obtain st3 where 4: "rx_ok env (st2\<lparr>rx_io := io\<rparr>) = Inr st3" using a 1 2 3 by (auto simp: rx_file_def split: sum.splits)
  have "rx_shrinks st3 st'" using a 1 2 3 4 by (auto simp: rx_file_def rx_verified_def split: option.splits)
  with rx_ok_shrinks [OF 1] rx_deliver_shrinks [OF 2] rx_ack_shrinks [OF 3] rx_ok_shrinks [OF 4] show ?thesis
    by (meson rx_shrinks_trans)
qed

lemma rx_directory_shrinks: "rx_directory env n e st = Inr st' \<Longrightarrow> rx_shrinks st st'"
  by (auto simp: rx_directory_def split: sum.splits dest!: rx_deliver_shrinks rx_ok_shrinks) (auto simp: rx_shrinks_def drop_drop)

lemma rx_entry_shrinks: "rx_entry env dir line st = Inr st' \<Longrightarrow> rx_shrinks st st'"
proof -
  have k: "rx_shrinks (s\<lparr>rx_seen := x\<rparr>) st' \<Longrightarrow> rx_shrinks s st'" "rx_shrinks (s\<lparr>rx_root := r\<rparr>) st' \<Longrightarrow> rx_shrinks s st'" for s x r
    by (simp_all add: rx_shrinks_def)
  show "rx_entry env dir line st = Inr st' \<Longrightarrow> ?thesis"
    by (auto simp: rx_entry_def Let_def split: option.splits prod.splits if_splits dest!: rx_file_shrinks rx_directory_shrinks dest: k)
qed

lemma rx_record_shrinks: "rx_record env kind line st = Inr st' \<Longrightarrow> rx_shrinks st st'"
  by (auto simp: rx_record_def split: if_splits dest!: rx_entry_shrinks rx_ok_shrinks) (auto simp: rx_shrinks_def)

lemma rx_turn_less: "rx_turn env st = Inr st' \<Longrightarrow> rx_left st' < rx_left st"
proof -
  assume a: "rx_turn env st = Inr st'"
  obtain c io where c: "io_ReadByte (rx_io st) = (Inr c, io)" using a by (auto simp: rx_turn_def split: prod.splits sum.splits)
  obtain line io1 where l: "scpLine io = (Inr line, io1)" using a c by (auto simp: rx_turn_def split: prod.splits sum.splits)
  have "rx_record env c line (st\<lparr>rx_io := io1\<rparr>) = Inr st'" using a c l by (auto simp: rx_turn_def split: sum.splits)
  from rx_shrinks_left [OF rx_record_shrinks [OF this]] have "rx_left st' \<le> length (io_in io1)" by (simp add: rx_left_def)
  moreover have "length (io_in io1) \<le> length (io_in io)" using scpLine_in [OF l] by auto
  moreover have "io_in (rx_io st) = c # io_in io" using io_ReadByte_in [OF c] by simp
  ultimately show ?thesis by (simp add: rx_left_def)
qed

function rx_loop :: "scp_sink_env \<Rightarrow> scp_sink \<Rightarrow> goerr option \<times> scp_sink" where
  "rx_loop env st = (case rx_turn env st of Inl out \<Rightarrow> out | Inr st1 \<Rightarrow> rx_loop env st1)"
  by pat_completeness auto
termination by (relation "measure (\<lambda>(env, st). rx_left st)") (auto dest: rx_turn_less)

declare rx_loop.simps [simp del]

definition receiveSCP :: "scp_sink_env \<Rightarrow> scp_io \<Rightarrow> goerr option \<times> scp_sink" where
  "receiveSCP env io =
     (let st = \<lparr>rx_io = io, rx_stack = [], rx_seen = [], rx_root = False, rx_files = 0, rx_log = []\<rparr>
      in case rx_ok env st of
           Inl (e, st1) \<Rightarrow> (Some e, st1)
         | Inr st1 \<Rightarrow> rx_loop env st1)"

section \<open>What the sink delivers\<close>

definition entry_paths :: "(scp_entry \<times> string) list \<Rightarrow> string set" where
  "entry_paths ds = sc_path ` fst ` set ds"

text \<open>
  An entry is in order after those of \<open>ds\<close>: a new path of at most 129 safe
  components below the requested name, whose directory was delivered before.
\<close>

definition entry_ok :: "scp_sink_env \<Rightarrow> (scp_entry \<times> string) list \<Rightarrow> scp_entry \<times> string \<Rightarrow> bool" where
  "entry_ok env ds x \<longleftrightarrow>
     (let e = fst x; cs = split_byte (CHR ''/'') (sc_path e)
      in list_all ValidFileName cs \<and> hd cs = re_expected env \<and> length cs \<le> 129 \<and> sc_path e \<notin> entry_paths ds \<and>
         (length cs = 1 \<longleftrightarrow> ds = []) \<and>
         (ds \<noteq> [] \<longrightarrow> (\<exists>d \<in> set ds. sc_dir (fst d) \<and> sc_path (fst d) = str_join ''/'' (butlast cs))) \<and>
         (sc_dir e \<longrightarrow> re_recursive env) \<and> length (snd x) \<le> sc_size e)"

inductive delivered_ok :: "scp_sink_env \<Rightarrow> (scp_entry \<times> string) list \<Rightarrow> bool" for env where
  none: "delivered_ok env []"
| more: "delivered_ok env ds \<Longrightarrow> entry_ok env ds x \<Longrightarrow> delivered_ok env (ds @ [x])"

definition rx_inv :: "scp_sink_env \<Rightarrow> scp_sink \<Rightarrow> bool" where
  "rx_inv env st \<longleftrightarrow> delivered_ok env (rx_log st) \<and> entry_paths (rx_log st) \<subseteq> set (rx_seen st) \<and>
     list_all ValidFileName (rx_stack st) \<and> length (rx_stack st) \<le> 128 \<and>
     (rx_stack st \<noteq> [] \<longrightarrow> hd (rx_stack st) = re_expected env) \<and>
     (\<not> rx_root st \<longrightarrow> rx_log st = [] \<and> rx_stack st = []) \<and>
     (\<forall>k. 0 < k \<and> k \<le> length (rx_stack st) \<longrightarrow>
        (\<exists>d \<in> set (rx_log st). sc_dir (fst d) \<and> sc_path (fst d) = str_join ''/'' (take k (rx_stack st))))"

text \<open>Only the deliveries, the names, the stack and the root flag matter.\<close>

lemma rx_inv_cong:
  "rx_log st' = rx_log st \<Longrightarrow> rx_seen st' = rx_seen st \<Longrightarrow> rx_stack st' = rx_stack st \<Longrightarrow> rx_root st' = rx_root st \<Longrightarrow>
    rx_inv env st' = rx_inv env st"
  by (simp add: rx_inv_def)

definition rx_same :: "scp_sink \<Rightarrow> scp_sink \<Rightarrow> bool" where
  "rx_same st st' \<longleftrightarrow> rx_log st' = rx_log st \<and> rx_seen st' = rx_seen st \<and> rx_stack st' = rx_stack st \<and> rx_root st' = rx_root st"

lemma rx_same_inv: "rx_same st st' \<Longrightarrow> rx_inv env st \<Longrightarrow> rx_inv env st'"
  by (simp add: rx_same_def rx_inv_def)

text \<open>The state after a step, whichever way it ended.\<close>

fun rx_after :: "('e \<times> scp_sink) + scp_sink \<Rightarrow> scp_sink" where
  "rx_after (Inl (e, st)) = st"
| "rx_after (Inr st) = st"

lemma rx_ok_same [simp]: "rx_same st (rx_after (rx_ok env st))"
  by (auto simp: rx_ok_def rx_same_def split: prod.splits option.splits)

lemma rx_verified_same [simp]: "rx_same st (rx_after (rx_verified env e st))"
  by (auto simp: rx_verified_def rx_same_def split: option.splits)

lemma rx_same_trans: "rx_same a b \<Longrightarrow> rx_same b c \<Longrightarrow> rx_same a c" by (simp add: rx_same_def)

text \<open>Delivering an entry for which everything is in order.\<close>

definition rx_due :: "scp_sink_env \<Rightarrow> string \<Rightarrow> scp_entry \<Rightarrow> scp_sink \<Rightarrow> bool" where
  "rx_due env name e st \<longleftrightarrow> rx_inv env st \<and> ValidFileName name \<and> length (rx_stack st) < 128 \<and> rx_root st \<and>
     sc_path e = str_join ''/'' (rx_stack st @ [name]) \<and> sc_path e \<in> set (rx_seen st) \<and> sc_path e \<notin> entry_paths (rx_log st) \<and>
     (rx_stack st = [] \<longleftrightarrow> rx_log st = []) \<and> (rx_stack st = [] \<longrightarrow> name = re_expected env) \<and> (sc_dir e \<longrightarrow> re_recursive env)"

lemma rx_due_entry_ok:
  assumes "rx_due env name e st" "length body \<le> sc_size e"
  shows "entry_ok env (rx_log st) (e, body)"
proof -
  let ?cs = "rx_stack st @ [name]"
  have v: "list_all ValidFileName ?cs" using assms(1) by (simp add: rx_due_def rx_inv_def)
  then have "\<forall>c \<in> set ?cs. CHR ''/'' \<notin> set c" using valid_name(4) by (auto simp: list_all_iff)
  then have sp: "split_byte (CHR ''/'') (sc_path e) = ?cs"
    using split_join [of ?cs "CHR ''/''"] assms(1) by (simp add: rx_due_def)
  have "rx_stack st \<noteq> [] \<longrightarrow> (\<exists>d \<in> set (rx_log st). sc_dir (fst d) \<and> sc_path (fst d) = str_join ''/'' (rx_stack st))"
  proof -
    have "\<forall>k. 0 < k \<and> k \<le> length (rx_stack st) \<longrightarrow>
        (\<exists>d \<in> set (rx_log st). sc_dir (fst d) \<and> sc_path (fst d) = str_join ''/'' (take k (rx_stack st)))"
      using assms(1) by (simp add: rx_due_def rx_inv_def)
    from spec [OF this, of "length (rx_stack st)"] show ?thesis by simp
  qed
  then have parent: "rx_log st \<noteq> [] \<longrightarrow> (\<exists>d \<in> set (rx_log st). sc_dir (fst d) \<and> sc_path (fst d) = str_join ''/'' (butlast ?cs))"
    using assms(1) by (simp add: rx_due_def)
  have h: "hd ?cs = re_expected env"
    using assms(1) by (cases "rx_stack st") (simp_all add: rx_due_def rx_inv_def)
  have "length ?cs \<le> 129" "sc_path e \<notin> entry_paths (rx_log st)" "(length ?cs = 1) = (rx_log st = [])" "sc_dir e \<longrightarrow> re_recursive env"
    using assms(1) unfolding rx_due_def by (simp, blast, simp, blast)
  with v h parent assms(2) show ?thesis unfolding entry_ok_def Let_def fst_conv snd_conv sp by blast
qed

lemma rx_deliver_inv:
  assumes "rx_due env name e st"
  shows "rx_inv env (rx_after (rx_deliver env e st)) \<and> rx_stack (rx_after (rx_deliver env e st)) = rx_stack st \<and>
    (\<exists>d \<in> set (rx_log (rx_after (rx_deliver env e st))). fst d = e)"
proof -
  define body where "body = take (fst (re_receive env (length (rx_log st)) e (if sc_dir e then [] else take (sc_size e) (io_in (rx_io st)))))
      (if sc_dir e then [] else take (sc_size e) (io_in (rx_io st)))"
  have dl: "rx_log (rx_after (rx_deliver env e st)) = rx_log st @ [(e, body)]" and
    rest: "rx_seen (rx_after (rx_deliver env e st)) = rx_seen st" "rx_stack (rx_after (rx_deliver env e st)) = rx_stack st"
      "rx_root (rx_after (rx_deliver env e st)) = rx_root st"
    by (simp_all add: rx_deliver_def body_def Let_def split: option.splits)
  have "length body \<le> sc_size e" by (simp add: body_def min_le_iff_disj)
  from rx_due_entry_ok [OF assms this] have ok: "delivered_ok env (rx_log st @ [(e, body)])"
    using assms by (auto simp: rx_due_def rx_inv_def intro: delivered_ok.more)
  have "rx_inv env (rx_after (rx_deliver env e st))"
    using assms ok unfolding rx_inv_def dl rest by (auto simp: rx_due_def rx_inv_def entry_paths_def)
  then show ?thesis using dl rest by simp
qed

text \<open>A delivered directory may be entered; nothing else changes what is on record.\<close>

lemma rx_push_inv:
  assumes "rx_inv env st" "ValidFileName name" "length (rx_stack st) < 128" "rx_root st"
    and "rx_stack st = [] \<longrightarrow> name = re_expected env"
    and "\<exists>d \<in> set (rx_log st). sc_dir (fst d) \<and> sc_path (fst d) = str_join ''/'' (rx_stack st @ [name])"
  shows "rx_inv env (st\<lparr>rx_stack := rx_stack st @ [name]\<rparr>)"
  using assms unfolding rx_inv_def by (auto simp: hd_append le_Suc_eq)

lemma rx_pop_inv:
  assumes "rx_inv env st"
  shows "rx_inv env (st\<lparr>rx_stack := butlast (rx_stack st)\<rparr>)"
proof -
  have "hd (butlast xs) = hd xs" if "butlast xs \<noteq> []" for xs :: "string list"
    using that by (cases xs) (auto split: if_splits)
  moreover have "take k (butlast xs) = take k xs" if "k \<le> length (butlast xs)" for k and xs :: "string list"
    using that by (simp add: butlast_conv_take)
  ultimately show ?thesis using assms unfolding rx_inv_def by (auto simp: list_all_iff dest: in_set_butlastD)
qed

lemma rx_directory_inv:
  assumes "rx_due env name e st" "sc_dir e"
  shows "rx_inv env (rx_after (rx_directory env name e st))"
proof (cases "rx_deliver env e st")
  case (Inl x)
  then show ?thesis using rx_deliver_inv [OF assms(1)] by (cases x) (simp add: rx_directory_def)
next
  case (Inr st1)
  have keep: "rx_root st1 = rx_root st" using Inr by (auto simp: rx_deliver_def Let_def split: option.splits if_splits)
  have d: "rx_inv env st1" "rx_stack st1 = rx_stack st" "\<exists>d \<in> set (rx_log st1). fst d = e"
    using rx_deliver_inv [OF assms(1)] Inr by simp_all
  have "rx_inv env (st1\<lparr>rx_stack := rx_stack st1 @ [name]\<rparr>)"
    by (rule rx_push_inv) (use assms d keep in \<open>auto simp: rx_due_def\<close>)
  then show ?thesis using Inr rx_same_inv [OF rx_ok_same] by (simp add: rx_directory_def)
qed

lemma rx_file_inv:
  assumes "rx_due env name e st"
  shows "rx_inv env (rx_after (rx_file env e st))"
proof (cases "rx_ok env st")
  case (Inl x)
  then show ?thesis using assms rx_same_inv [OF rx_ok_same, of env st env] by (cases x) (simp add: rx_file_def rx_due_def)
next
  case (Inr st1)
  have "rx_same st st1" using rx_ok_same [of st env] Inr by simp
  then have due: "rx_due env name e st1" using assms unfolding rx_due_def rx_same_def rx_inv_def by auto
  show ?thesis
  proof (cases "rx_deliver env e st1")
    case (Inl x)
    then show ?thesis using Inr rx_deliver_inv [OF due] by (cases x) (simp add: rx_file_def)
  next
    case r2: (Inr st2)
    have i2: "rx_inv env st2" using rx_deliver_inv [OF due] r2 by simp
    obtain a io where a: "scpAck (rx_io st2) = (a, io)" by (cases "scpAck (rx_io st2)")
    let ?s = "st2\<lparr>rx_io := io\<rparr>"
    have i3: "rx_inv env ?s" using i2 by (simp add: rx_inv_def)
    show ?thesis
    proof (cases a)
      case (Some x)
      then show ?thesis using Inr r2 a i3 by (simp add: rx_file_def)
    next
      case None
      show ?thesis
      proof (cases "rx_ok env ?s")
        case (Inl x)
        then show ?thesis using Inr r2 a None rx_same_inv [OF rx_ok_same, of env ?s env] i3 by (cases x) (simp add: rx_file_def)
      next
        case r3: (Inr st3)
        then have "rx_inv env st3" using rx_same_inv [OF rx_ok_same, of env ?s env] i3 by simp
        then show ?thesis using Inr r2 a None r3 rx_same_inv [OF rx_verified_same] by (simp add: rx_file_def)
      qed
    qed
  qed
qed

lemma rx_entry_inv:
  assumes inv: "rx_inv env st"
  shows "rx_inv env (rx_after (rx_entry env dir line st))"
proof -
  have root: "rx_inv env (st\<lparr>rx_root := True\<rparr>)" using inv by (simp add: rx_inv_def)
  have step: "rx_inv env (rx_after (if dir then rx_directory env name e st2 else rx_file env e st2))"
    if "e = \<lparr>sc_path = str_join ''/'' (rx_stack st @ [name]), sc_size = k, sc_mode = m, sc_dir = dir\<rparr>"
      "st2 = (if rx_stack st = [] then st\<lparr>rx_root := True\<rparr> else st)\<lparr>rx_seen := rx_seen st @ [str_join ''/'' (rx_stack st @ [name])]\<rparr>"
      "ValidFileName name" "dir \<longrightarrow> re_recursive env" "\<not> (rx_stack st = [] \<and> (rx_root st \<or> name \<noteq> re_expected env))"
      "str_join ''/'' (rx_stack st @ [name]) \<notin> set (rx_seen st)" "length (rx_stack st) < 128" for name e st2 k m
  proof -
    have "rx_due env name e st2"
      using inv that unfolding rx_due_def rx_inv_def by (auto simp: entry_paths_def)
    then show ?thesis using rx_directory_inv [of env name e st2] rx_file_inv [of env name e st2] that(1) by (cases dir) simp_all
  qed
  show ?thesis
    using inv root step
    by (auto simp: rx_entry_def Let_def not_le split: option.splits if_splits)
qed

lemma rx_record_inv:
  assumes "rx_inv env st" shows "rx_inv env (rx_after (rx_record env kind line st))"
proof -
  have ok: "rx_inv env (rx_after (rx_ok env s))" if "rx_inv env s" for s
    using rx_same_inv [OF rx_ok_same that] .
  show ?thesis using assms ok [OF assms] ok [OF rx_pop_inv [OF assms]] rx_entry_inv [OF assms]
    by (simp add: rx_record_def)
qed

lemma rx_turn_inv:
  assumes "rx_inv env st"
  shows "case rx_turn env st of Inl (e, st') \<Rightarrow> rx_inv env st' | Inr st' \<Rightarrow> rx_inv env st'"
proof -
  have io: "rx_inv env (st\<lparr>rx_io := io\<rparr>)" for io using assms by (simp add: rx_inv_def)
  have rec: "rx_inv env s" if "rx_record env k line (st\<lparr>rx_io := io\<rparr>) = r" "s = rx_after r" for k line io r s
    using rx_record_inv [OF io] that by blast
  show ?thesis
    by (auto simp: rx_turn_def io intro: rec split: prod.splits sum.splits)
qed

lemma rx_loop_inv: "rx_inv env st \<Longrightarrow> rx_inv env (snd (rx_loop env st))"
proof (induction env st rule: rx_loop.induct)
  case (1 env st)
  note t = rx_turn_inv [OF "1.prems"]
  show ?case
  proof (cases "rx_turn env st")
    case (Inl out)
    then show ?thesis using t by (subst rx_loop.simps) (auto split: prod.splits)
  next
    case (Inr st1)
    then show ?thesis using t "1.IH" by (subst rx_loop.simps) simp
  qed
qed

text \<open>
  C21 Whatever a server sends and however the callbacks answer, the entries a
  download delivers stay inside the requested tree: each path consists of at most 129
  safe portable components, the first of them the requested name; no path comes
  twice; directories come before what they hold, and only in a recursive transfer;
  and no file is given more bytes than its record announced.
\<close>

theorem scp_download_contained: "delivered_ok env (rx_log (snd (receiveSCP env io)))"
proof -
  define st where "st = \<lparr>rx_io = io, rx_stack = [], rx_seen = [], rx_root = False, rx_files = 0, rx_log = []\<rparr>"
  have i: "rx_inv env st" by (auto simp: rx_inv_def st_def entry_paths_def delivered_ok.none)
  have r: "receiveSCP env io = (case rx_ok env st of Inl (e, st1) \<Rightarrow> (Some e, st1) | Inr st1 \<Rightarrow> rx_loop env st1)"
    by (simp add: receiveSCP_def st_def Let_def)
  have a: "rx_inv env (rx_after (rx_ok env st))" by (rule rx_same_inv [OF rx_ok_same i])
  have "rx_inv env (snd (receiveSCP env io))"
    using a rx_loop_inv unfolding r by (auto split: sum.splits prod.splits)
  then show ?thesis by (simp add: rx_inv_def)
qed

text \<open>What containment means for the components of a path.\<close>

lemma delivered_paths_safe:
  assumes "delivered_ok env ds" "x \<in> set ds" "c \<in> set (split_byte (CHR ''/'') (sc_path (fst x)))"
  shows "ValidFileName c" "c \<noteq> ''..''" "c \<noteq> []" "CHR 0x5C \<notin> set c"
proof -
  show "ValidFileName c" using assms
    by (induction rule: delivered_ok.induct) (auto simp: entry_ok_def Let_def list_all_iff)
  from valid_name [OF this] show "c \<noteq> ''..''" "c \<noteq> []" "CHR 0x5C \<notin> set c" by simp_all
qed

end
