(* ===== verification/SCP_Upload.thy ===== *)
theory SCP_Upload
  imports SCP
begin

text \<open>
  The sending half of \<open>internal/transport/ssh/scp.go\<close>: a tree as its directory listings
  and reads answer, the recursive source, and the agreement of source and sink on the
  wire protocol.
\<close>

section \<open>The source\<close>

text \<open>
  A node as \<open>fs.Stat\<close> finds it: a file with its permissions, its size, what the reads
  of its content return and the error behind them; a directory with its listing, in
  which each name says whether it is a symbolic link; and what cannot be sent.
\<close>

datatype scp_node =
    ScpFile nat nat "string list" goerr
  | ScpFileBad goerr                    \<comment> \<open>\<open>Open\<close> fails\<close>
  | ScpDir nat scp_listing
  | ScpDirBad nat goerr                 \<comment> \<open>\<open>ReadDir\<close> fails\<close>
  | ScpSpecial
  | ScpGone goerr                       \<comment> \<open>\<open>Stat\<close> fails\<close>
and scp_listing = ListEnd | ListItem string bool scp_node scp_listing

record scp_source_env =
  te_ctx :: "nat \<Rightarrow> goerr option"       \<comment> \<open>the context at the n-th node\<close>
  te_recursive :: bool
  te_progress :: "(string \<Rightarrow> nat \<Rightarrow> nat \<Rightarrow> goerr option) option"
  te_verify :: "(scp_entry \<Rightarrow> string \<Rightarrow> goerr option) option"
  te_digest :: "string \<Rightarrow> string"       \<comment> \<open>SHA-256 in hexadecimal\<close>
  te_write :: write_answers

record scp_source =
  tx_io :: scp_io
  tx_nodes :: nat
  tx_files :: nat
  tx_total :: nat

type_synonym tx_result = "goerr option \<times> scp_source"

text \<open>The next statement runs when this one returned no error.\<close>

definition tx_then :: "tx_result \<Rightarrow> (scp_source \<Rightarrow> tx_result) \<Rightarrow> tx_result" where
  "tx_then r k = (case r of (Some e, st) \<Rightarrow> (Some e, st) | (None, st) \<Rightarrow> k st)"

definition tx_put :: "scp_source_env \<Rightarrow> string \<Rightarrow> scp_source \<Rightarrow> tx_result" where
  "tx_put env d st = (case io_write (te_write env) d (tx_io st) of ((n, e), io) \<Rightarrow> (e, st\<lparr>tx_io := io\<rparr>))"

definition tx_ack :: "scp_source \<Rightarrow> tx_result" where
  "tx_ack st = (case scpAck (tx_io st) of (e, io) \<Rightarrow> (e, st\<lparr>tx_io := io\<rparr>))"

definition tx_ok :: "scp_source_env \<Rightarrow> scp_source \<Rightarrow> tx_result" where
  "tx_ok env st = (case scpOK (te_write env) (tx_io st) of (e, io) \<Rightarrow> (e, st\<lparr>tx_io := io\<rparr>))"

definition progress_call :: "scp_source_env \<Rightarrow> string \<Rightarrow> nat \<Rightarrow> nat \<Rightarrow> goerr option" where
  "progress_call env name written count = (case te_progress env of None \<Rightarrow> None | Some p \<Rightarrow> p name written count)"

text \<open>
  \<open>scpProgressWriter.Write\<close> of one chunk behind \<open>n\<close> bytes: bytes taken and error. The
  progress callback runs after the write and its error becomes the write's.
\<close>

definition counter_write :: "scp_source_env \<Rightarrow> string \<Rightarrow> nat \<Rightarrow> nat \<Rightarrow> string \<Rightarrow> scp_source \<Rightarrow> (nat \<times> goerr option) \<times> scp_source" where
  "counter_write env name count n d st =
     (case io_write (te_write env) d (tx_io st) of
        ((k, Some e), io) \<Rightarrow> ((k, Some e), st\<lparr>tx_io := io\<rparr>)
      | ((k, None), io) \<Rightarrow> ((k, progress_call env name (n + k) count), st\<lparr>tx_io := io\<rparr>))"

definition IoErrInvalidWrite :: goerr where "IoErrInvalidWrite = ErrSentinel ''io.errInvalidWrite''"

text \<open>
  \<open>io.Copy\<close> of the limited content: \<open>n\<close> bytes are written so far, \<open>reads\<close> are the
  reads to come and \<open>fail\<close> is the error behind them.
\<close>

fun copy_reads :: "scp_source_env \<Rightarrow> string \<Rightarrow> nat \<Rightarrow> nat \<Rightarrow> string list \<Rightarrow> goerr \<Rightarrow> scp_source \<Rightarrow> (nat \<times> goerr option) \<times> scp_source" where
  "copy_reads env name count n [] fail st =
     ((n, if count \<le> n \<or> fail = IoEOF then None else Some fail), st)"
| "copy_reads env name count n (d # ds) fail st =
     (let c = take (count - n) d
      in if count \<le> n then ((n, None), st)
         else if c = [] then copy_reads env name count n ds fail st
         else (case counter_write env name count n c st of
                 ((k, e), st1) \<Rightarrow>
                   if length c < k then ((n, Some IoErrInvalidWrite), st1)
                   else (case e of
                           Some x \<Rightarrow> ((n + k, Some x), st1)
                         | None \<Rightarrow>
                             if k \<noteq> length c then ((n + k, Some IoErrShortWrite), st1)
                             else copy_reads env name count (n + k) ds fail st1)))"

text \<open>\<open>io.CopyN\<close>: no error once the count is reached, whatever the copy returned.\<close>

definition copy_n :: "scp_source_env \<Rightarrow> string \<Rightarrow> nat \<Rightarrow> string list \<Rightarrow> goerr \<Rightarrow> scp_source \<Rightarrow> (nat \<times> goerr option) \<times> scp_source" where
  "copy_n env name count reads fail st =
     (case copy_reads env name count 0 reads fail st of
        ((n, e), st1) \<Rightarrow>
          if n = count then ((n, None), st1)
          else ((n, if e = None then Some IoEOF else e), st1))"

definition octal4 :: "nat \<Rightarrow> string" where
  "octal4 p = map digit_char [p div 512 mod 8, p div 64 mod 8, p div 8 mod 8, p mod 8]"

definition file_header :: "nat \<Rightarrow> nat \<Rightarrow> string \<Rightarrow> string" where
  "file_header perm count base = ''C'' @ octal4 perm @ '' '' @ format_nat count @ '' '' @ base @ [CHR 0x0A]"

definition dir_header :: "nat \<Rightarrow> string \<Rightarrow> string" where
  "dir_header perm base = ''D'' @ octal4 perm @ '' 0 '' @ base @ [CHR 0x0A]"

text \<open>A regular file that could be opened.\<close>

definition send_verify :: "scp_source_env \<Rightarrow> scp_entry \<Rightarrow> string \<Rightarrow> scp_source \<Rightarrow> tx_result" where
  "send_verify env entry body st =
     (case (case te_verify env of None \<Rightarrow> None | Some v \<Rightarrow> v entry (te_digest env body)) of
        Some e \<Rightarrow> (Some e, st)
      | None \<Rightarrow> (None, st\<lparr>tx_files := Suc (tx_files st)\<rparr>))"

definition send_payload :: "scp_source_env \<Rightarrow> string \<Rightarrow> nat \<Rightarrow> string list \<Rightarrow> goerr \<Rightarrow> scp_source \<Rightarrow> tx_result" where
  "send_payload env current count reads fail st =
     (case copy_n env current count reads fail st of
        ((n, e), st1) \<Rightarrow> (e, st1\<lparr>tx_total := tx_total st1 + n\<rparr>))"

definition send_file :: "scp_source_env \<Rightarrow> string \<Rightarrow> nat \<Rightarrow> nat \<Rightarrow> string list \<Rightarrow> goerr \<Rightarrow> scp_source \<Rightarrow> tx_result" where
  "send_file env current perm count reads fail st =
     tx_then (tx_put env (file_header perm count (path_Base current)) st) (\<lambda>st1.
     tx_then (tx_ack st1) (\<lambda>st2.
     tx_then (progress_call env current 0 count, st2) (\<lambda>st3.
     tx_then (send_payload env current count reads fail st3) (\<lambda>st4.
     tx_then (tx_ok env st4) (\<lambda>st5.
     tx_then (tx_ack st5) (\<lambda>st6.
       send_verify env \<lparr>sc_path = current, sc_size = count, sc_mode = perm, sc_dir = False\<rparr>
         (take count (concat reads)) st6))))))"

definition IoErrDepth :: goerr where "IoErrDepth = ErrText ''SCP directory depth exceeds 128''"

text \<open>What every node is checked for before anything of it is sent.\<close>

definition send_check :: "scp_source_env \<Rightarrow> int \<Rightarrow> string \<Rightarrow> goerr option \<Rightarrow> scp_source \<Rightarrow> tx_result" where
  "send_check env depth current stat st =
     ((case te_ctx env (tx_nodes st) of
         Some e \<Rightarrow> Some e
       | None \<Rightarrow>
           if depth > 128 then Some IoErrDepth
           else case stat of
             Some e \<Rightarrow> Some e
           | None \<Rightarrow> if \<not> ValidFileName (path_Base current) then Some (ErrText ''unsafe SCP filename'') else None),
      st\<lparr>tx_nodes := Suc (tx_nodes st)\<rparr>)"

text \<open>
  \<open>path.Join(current, name)\<close> of a clean path and a valid name, which was checked just
  before, is \<open>current/name\<close>.
\<close>

fun send :: "scp_source_env \<Rightarrow> int \<Rightarrow> string \<Rightarrow> scp_node \<Rightarrow> scp_source \<Rightarrow> tx_result"
and send_list :: "scp_source_env \<Rightarrow> int \<Rightarrow> string \<Rightarrow> scp_listing \<Rightarrow> scp_source \<Rightarrow> tx_result" where
  "send env depth current (ScpGone e) st = send_check env depth current (Some e) st"
| "send env depth current ScpSpecial st =
     tx_then (send_check env depth current None st) (\<lambda>st1.
       (Some (ErrText ''SCP supports only regular files and directories''), st1))"
| "send env depth current (ScpFileBad e) st =
     tx_then (send_check env depth current None st) (\<lambda>st1. (Some e, st1))"
| "send env depth current (ScpFile perm count reads fail) st =
     tx_then (send_check env depth current None st) (\<lambda>st1. send_file env current perm count reads fail st1)"
| "send env depth current (ScpDirBad perm e) st =
     tx_then (send_check env depth current None st) (\<lambda>st1.
       if \<not> te_recursive env then (Some (ErrText ''directory transfer requires --recursive''), st1)
       else tx_then (tx_put env (dir_header perm (path_Base current)) st1) (\<lambda>st2.
            tx_then (tx_ack st2) (\<lambda>st3. (Some e, st3))))"
| "send env depth current (ScpDir perm items) st =
     tx_then (send_check env depth current None st) (\<lambda>st1.
       if \<not> te_recursive env then (Some (ErrText ''directory transfer requires --recursive''), st1)
       else tx_then (tx_put env (dir_header perm (path_Base current)) st1) (\<lambda>st2.
            tx_then (tx_ack st2) (\<lambda>st3.
            tx_then (send_list env depth current items st3) (\<lambda>st4.
            tx_then (tx_put env (''E'' @ [CHR 0x0A]) st4) tx_ack))))"
| "send_list env depth current ListEnd st = (None, st)"
| "send_list env depth current (ListItem name link node rest) st =
     (if link \<or> \<not> ValidFileName name then (Some (ErrText ''SCP does not follow symlinks or unsafe names''), st)
      else tx_then (send env (depth + 1) (current @ ''/'' @ name) node st) (\<lambda>st1. send_list env depth current rest st1))"

text \<open>The transfer of \<open>uploadSCP\<close> on an open connection.\<close>

definition uploadSCP_transfer :: "scp_source_env \<Rightarrow> string \<Rightarrow> scp_node \<Rightarrow> scp_io \<Rightarrow> tx_result" where
  "uploadSCP_transfer env name node io =
     tx_then (tx_ack \<lparr>tx_io = io, tx_nodes = 0, tx_files = 0, tx_total = 0\<rparr>) (\<lambda>st. send env 0 name node st)"

section \<open>The wire form of a tree\<close>

fun scp_wire :: "string \<Rightarrow> scp_node \<Rightarrow> string" and scp_wires :: "scp_listing \<Rightarrow> string" where
  "scp_wire name (ScpFile perm count reads fail) =
     file_header perm count name @ take count (concat reads) @ [CHR 0x00]"
| "scp_wire name (ScpDir perm items) = dir_header perm name @ scp_wires items @ ''E'' @ [CHR 0x0A]"
| "scp_wire name node = []"
| "scp_wires ListEnd = []"
| "scp_wires (ListItem name link node rest) = scp_wire name node @ scp_wires rest"

text \<open>The acknowledgements awaited, the files and bytes sent, and the entries below \<open>path\<close>.\<close>

fun acks :: "scp_node \<Rightarrow> nat" and acks_list :: "scp_listing \<Rightarrow> nat" where
  "acks (ScpDir perm items) = Suc (Suc (acks_list items))"
| "acks node = 2"
| "acks_list ListEnd = 0"
| "acks_list (ListItem name link node rest) = acks node + acks_list rest"

fun file_count :: "scp_node \<Rightarrow> nat" and file_count_list :: "scp_listing \<Rightarrow> nat" where
  "file_count (ScpFile perm count reads fail) = 1"
| "file_count (ScpDir perm items) = file_count_list items"
| "file_count node = 0"
| "file_count_list ListEnd = 0"
| "file_count_list (ListItem name link node rest) = file_count node + file_count_list rest"

fun byte_count :: "scp_node \<Rightarrow> nat" and byte_count_list :: "scp_listing \<Rightarrow> nat" where
  "byte_count (ScpFile perm count reads fail) = count"
| "byte_count (ScpDir perm items) = byte_count_list items"
| "byte_count node = 0"
| "byte_count_list ListEnd = 0"
| "byte_count_list (ListItem name link node rest) = byte_count node + byte_count_list rest"

fun tree_entries :: "string list \<Rightarrow> scp_node \<Rightarrow> (scp_entry \<times> string) list"
and list_entries :: "string list \<Rightarrow> scp_listing \<Rightarrow> (scp_entry \<times> string) list" where
  "tree_entries cs (ScpFile perm count reads fail) =
     [(\<lparr>sc_path = str_join ''/'' cs, sc_size = count, sc_mode = perm, sc_dir = False\<rparr>, take count (concat reads))]"
| "tree_entries cs (ScpDir perm items) =
     (\<lparr>sc_path = str_join ''/'' cs, sc_size = 0, sc_mode = perm, sc_dir = True\<rparr>, []) # list_entries cs items"
| "tree_entries cs node = []"
| "list_entries cs ListEnd = []"
| "list_entries cs (ListItem name link node rest) = tree_entries (cs @ [name]) node @ list_entries cs rest"

text \<open>
  A tree that can be sent from \<open>depth\<close>: regular files that hold at least the bytes
  \<open>Stat\<close> announced, directories of distinct valid names, records that fit into a line,
  and at most 128 levels.
\<close>

fun item_names :: "scp_listing \<Rightarrow> string list" where
  "item_names ListEnd = []"
| "item_names (ListItem name link node rest) = name # item_names rest"

fun sendable :: "int \<Rightarrow> string \<Rightarrow> scp_node \<Rightarrow> bool" and sendable_list :: "int \<Rightarrow> scp_listing \<Rightarrow> bool" where
  "sendable depth name (ScpFile perm count reads fail) \<longleftrightarrow>
     ValidFileName name \<and> depth < 128 \<and> perm < 512 \<and> count \<le> length (concat reads) \<and> int count < 2 ^ 63 \<and>
     int (length (file_header perm count name)) \<le> 4096"
| "sendable depth name (ScpDir perm items) \<longleftrightarrow>
     ValidFileName name \<and> depth < 128 \<and> perm < 512 \<and> int (length (dir_header perm name)) \<le> 4096 \<and>
     distinct (item_names items) \<and> sendable_list (depth + 1) items"
| "sendable depth name node \<longleftrightarrow> False"
| "sendable_list depth ListEnd \<longleftrightarrow> True"
| "sendable_list depth (ListItem name link node rest) \<longleftrightarrow>
     \<not> link \<and> sendable depth name node \<and> sendable_list depth rest"

section \<open>The source writes the wire form\<close>

text \<open>Writes that take everything, and callbacks that never object.\<close>

definition full_writes :: "write_answers \<Rightarrow> bool" where
  "full_writes w \<longleftrightarrow> (\<forall>n d. w n d = (length d, None))"

definition calm :: "scp_source_env \<Rightarrow> bool" where
  "calm env \<longleftrightarrow> full_writes (te_write env) \<and> (\<forall>n. te_ctx env n = None) \<and>
     (\<forall>s a b. progress_call env s a b = None) \<and> (\<forall>v e d. te_verify env = Some v \<longrightarrow> v e d = None)"

lemma calm_simps:
  assumes "calm env"
  shows "te_write env n d = (length d, None)" "te_ctx env n = None" "progress_call env s a b = None"
    "(case te_verify env of None \<Rightarrow> None | Some v \<Rightarrow> v e d) = None"
  using assms unfolding calm_def full_writes_def by (blast, blast, blast, cases "te_verify env", auto)

text \<open>\<open>st'\<close> is \<open>st\<close> after reading \<open>k\<close> acknowledgements and writing \<open>d\<close>.\<close>

definition tx_moved :: "nat \<Rightarrow> string \<Rightarrow> scp_source \<Rightarrow> scp_source \<Rightarrow> bool" where
  "tx_moved k d st st' \<longleftrightarrow> io_in (tx_io st) = replicate k (CHR 0x00) @ io_in (tx_io st') \<and>
     io_out (tx_io st') = io_out (tx_io st) @ d \<and> io_fail (tx_io st') = io_fail (tx_io st)"

lemma tx_then_ok [simp]: "tx_then (None, st) k = k st"
  by (simp add: tx_then_def)

definition tx_wrote :: "string \<Rightarrow> scp_source \<Rightarrow> scp_source" where
  "tx_wrote d st = st\<lparr>tx_io := (tx_io st)\<lparr>io_out := io_out (tx_io st) @ d, io_writes := Suc (io_writes (tx_io st))\<rparr>\<rparr>"

lemma tx_wrote_moved: "tx_moved 0 d st (tx_wrote d st) \<and> tx_files (tx_wrote d st) = tx_files st \<and> tx_total (tx_wrote d st) = tx_total st"
  by (simp add: tx_wrote_def tx_moved_def)

lemma tx_put_calm: "calm env \<Longrightarrow> tx_put env d st = (None, tx_wrote d st)"
  by (simp add: tx_put_def io_write_def calm_simps(1) tx_wrote_def)

lemma tx_ok_calm: "calm env \<Longrightarrow> tx_ok env st = (None, tx_wrote [CHR 0x00] st)"
  by (simp add: tx_ok_def scpOK_def io_write_def calm_simps(1) tx_wrote_def)

lemma tx_ack_zero:
  assumes "io_in (tx_io st) = CHR 0x00 # r"
  shows "\<exists>st'. tx_ack st = (None, st') \<and> tx_moved 1 [] st st' \<and> tx_files st' = tx_files st \<and> tx_total st' = tx_total st \<and>
    io_in (tx_io st') = r"
  using assms by (simp add: tx_ack_def scpAck_def io_ReadByte_def tx_moved_def)

lemma tx_moved_trans: "tx_moved j a s t \<Longrightarrow> tx_moved k b t u \<Longrightarrow> tx_moved (j + k) (a @ b) s u"
  by (simp add: tx_moved_def replicate_add)

lemma tx_moved_none: "tx_moved 0 [] st st"
  by (simp add: tx_moved_def)

lemma take_step: "take (k - n) (d @ e) = take (k - n) d @ take (k - (n + length (take (k - n) d))) e" for d e :: string
  by (cases "k - n \<le> length d") auto

lemma counter_write_calm: "calm env \<Longrightarrow> counter_write env name count n c st = ((length c, None), tx_wrote c st)"
  by (simp add: counter_write_def io_write_def calm_simps(1,3) tx_wrote_def)

lemma copy_reads_step:
  assumes "counter_write env name count n c st = ((length c, None), st1)"
    and "c = take (count - n) d" "c \<noteq> []" "\<not> count \<le> n"
  shows "copy_reads env name count n (d # ds) fail st = copy_reads env name count (n + length c) ds fail st1"
  using assms by (simp add: Let_def)

lemma copy_reads_calm:
  assumes "calm env"
  shows "n \<le> count \<Longrightarrow> count \<le> n + length (concat ds) \<Longrightarrow>
    \<exists>st'. copy_reads env name count n ds fail st = ((count, None), st') \<and> tx_moved 0 (take (count - n) (concat ds)) st st' \<and>
      tx_files st' = tx_files st \<and> tx_total st' = tx_total st"
proof (induction ds arbitrary: n st)
  case Nil
  then have "count = n" by simp
  then show ?case using tx_moved_none by auto
next
  case (Cons d ds)
  let ?c = "take (count - n) d"
  show ?case
  proof (cases "count \<le> n")
    case True
    then have "count = n" using Cons.prems(1) by simp
    then show ?thesis using tx_moved_none by auto
  next
    case nc: False
    show ?thesis
    proof (cases "?c = []")
      case True
      then have "d = []" using nc by auto
      then show ?thesis using Cons.IH [of n st] Cons.prems nc by (simp only: copy_reads.simps Let_def) simp
    next
      case False
      let ?st = "tx_wrote ?c st"
      have w: "counter_write env name count n ?c st = ((length ?c, None), ?st)"
        by (rule counter_write_calm [OF assms])
      have m: "tx_moved 0 ?c st ?st" "tx_files ?st = tx_files st" "tx_total ?st = tx_total st" using tx_wrote_moved by simp_all
      have le: "n + length ?c \<le> count" "count \<le> n + length ?c + length (concat ds)"
        using Cons.prems nc by (simp, simp add: min_def)
      obtain st' where s: "copy_reads env name count (n + length ?c) ds fail ?st = ((count, None), st')"
          "tx_moved 0 (take (count - (n + length ?c)) (concat ds)) ?st st'" "tx_files st' = tx_files ?st" "tx_total st' = tx_total ?st"
        using Cons.IH [OF le] by blast
      have e: "copy_reads env name count n (d # ds) fail st = copy_reads env name count (n + length ?c) ds fail ?st"
        by (rule copy_reads_step [OF w]) (use nc False in simp_all)
      have t: "take (count - n) (concat (d # ds)) = ?c @ take (count - (n + length ?c)) (concat ds)"
        by (unfold concat.simps, rule take_step)
      show ?thesis unfolding e t s(1) using s(3,4) m(2,3) tx_moved_trans [OF m(1) s(2)] by auto
    qed
  qed
qed

lemma send_payload_calm:
  assumes "calm env" "count \<le> length (concat ds)"
  shows "\<exists>st'. send_payload env name count ds fail st = (None, st') \<and> tx_moved 0 (take count (concat ds)) st st' \<and>
    tx_files st' = tx_files st \<and> tx_total st' = tx_total st + count"
proof -
  obtain st1 where 1: "copy_reads env name count 0 ds fail st = ((count, None), st1)"
      "tx_moved 0 (take (count - 0) (concat ds)) st st1" "tx_files st1 = tx_files st" "tx_total st1 = tx_total st"
    using copy_reads_calm [OF assms(1), of 0 count ds name fail st] assms(2) by auto
  then show ?thesis by (simp add: send_payload_def copy_n_def tx_moved_def)
qed


text \<open>\<open>st'\<close> is \<open>st\<close> with that much more done.\<close>

definition tx_did :: "nat \<Rightarrow> string \<Rightarrow> nat \<Rightarrow> nat \<Rightarrow> scp_source \<Rightarrow> scp_source \<Rightarrow> bool" where
  "tx_did k d f b st st' \<longleftrightarrow> tx_moved k d st st' \<and> tx_files st' = tx_files st + f \<and> tx_total st' = tx_total st + b"

lemma tx_did_trans: "tx_did j a f b s t \<Longrightarrow> tx_did k c g h t u \<Longrightarrow> tx_did (j + k) (a @ c) (f + g) (b + h) s u"
  using tx_moved_trans by (auto simp: tx_did_def)

lemma tx_did_none: "tx_did 0 [] 0 0 st st"
  by (simp add: tx_did_def tx_moved_none)

lemma tx_did_wrote: "tx_did 0 d 0 0 st (tx_wrote d st)"
  using tx_wrote_moved by (simp add: tx_did_def)

lemma tx_did_in: "tx_did k d f b st st' \<Longrightarrow> io_in (tx_io st) = replicate k (CHR 0x00) @ io_in (tx_io st')"
  by (simp add: tx_did_def tx_moved_def)

lemma tx_ack_did:
  assumes "io_in (tx_io st) = replicate (Suc k) (CHR 0x00) @ r"
  shows "\<exists>st'. tx_ack st = (None, st') \<and> tx_did 1 [] 0 0 st st' \<and> io_in (tx_io st') = replicate k (CHR 0x00) @ r"
  using tx_ack_zero [of st "replicate k (CHR 0x00) @ r"] assms by (auto simp: tx_did_def)

lemma path_Base_valid: "ValidFileName n \<Longrightarrow> path_Base n = n" "ValidFileName n \<Longrightarrow> path_Base (p @ ''/'' @ n) = n"
proof -
  assume v: "ValidFileName n"
  note n = valid_name(1,4) [OF v]
  have t: "trim_right_byte (CHR ''/'') (p @ n) = p @ n" for p
    using n by (cases n rule: rev_cases) (auto simp: trim_right_byte_def)
  have "\<exists>ws. split_byte (CHR ''/'') (p @ CHR ''/'' # n) = ws @ [n] \<and> ws \<noteq> []" for p
  proof (induction p)
    case (Cons c p)
    then obtain ws where "split_byte (CHR ''/'') (p @ CHR ''/'' # n) = ws @ [n]" "ws \<noteq> []" by blast
    then show ?case by (cases ws) auto
  qed (simp add: split_byte_plain n)
  then have l: "List.last (split_byte (CHR ''/'') (p @ CHR ''/'' # n)) = n" for p by (metis last_snoc)
  show "path_Base n = n" using t [of "[]"] n by (simp add: path_Base_def split_byte_plain Let_def)
  show "path_Base (p @ ''/'' @ n) = n" using t [of "p @ ''/''"] l [of p] by (simp add: path_Base_def Let_def)
qed

lemma send_check_calm:
  assumes "calm env" "depth \<le> 128" "ValidFileName (path_Base current)"
  shows "send_check env depth current None st = (None, st\<lparr>tx_nodes := Suc (tx_nodes st)\<rparr>)"
  using assms(2,3) by (simp add: send_check_def calm_simps(2) [OF assms(1)])

lemma tx_nodes_did: "tx_did 0 [] 0 0 st (st\<lparr>tx_nodes := n\<rparr>)"
  by (simp add: tx_did_def tx_moved_def)

lemma send_file_calm:
  assumes c: "calm env" and len: "count \<le> length (concat reads)"
    and acks: "io_in (tx_io st) = replicate 2 (CHR 0x00) @ r"
  shows "\<exists>st'. send_file env current perm count reads fail st = (None, st') \<and> io_in (tx_io st') = r \<and>
    tx_did 2 (file_header perm count (path_Base current) @ take count (concat reads) @ [CHR 0x00]) 1 count st st'"
proof -
  let ?h = "file_header perm count (path_Base current)"
  have "io_in (tx_io (tx_wrote ?h st)) = replicate (Suc 1) (CHR 0x00) @ r" using acks by (simp add: tx_wrote_def numeral_2_eq_2)
  then obtain s2 where s2: "tx_ack (tx_wrote ?h st) = (None, s2)" "tx_did 1 [] 0 0 (tx_wrote ?h st) s2"
      "io_in (tx_io s2) = replicate 1 (CHR 0x00) @ r" using tx_ack_did by blast
  obtain s4 where s4: "send_payload env current count reads fail s2 = (None, s4)" "tx_did 0 (take count (concat reads)) 0 count s2 s4"
    using send_payload_calm [OF c len, of current fail s2] by (auto simp: tx_did_def)
  have "io_in (tx_io (tx_wrote [CHR 0x00] s4)) = replicate (Suc 0) (CHR 0x00) @ r"
    using s2(3) tx_did_in [OF s4(2)] by (simp add: tx_wrote_def)
  then obtain s6 where s6: "tx_ack (tx_wrote [CHR 0x00] s4) = (None, s6)" "tx_did 1 [] 0 0 (tx_wrote [CHR 0x00] s4) s6" "io_in (tx_io s6) = r"
    using tx_ack_did [of "tx_wrote [CHR 0x00] s4" 0 r] by auto
  let ?s7 = "s6\<lparr>tx_files := Suc (tx_files s6)\<rparr>"
  have "send_file env current perm count reads fail st = (None, ?s7)"
    by (simp add: send_file_def tx_put_calm [OF c] s2(1) calm_simps(3) [OF c] s4(1) tx_ok_calm [OF c] s6(1) send_verify_def calm_simps(4) [OF c])
  moreover have s7: "tx_did 0 [] 1 0 s6 ?s7" by (simp add: tx_did_def tx_moved_def)
  have "tx_did 2 (?h @ take count (concat reads) @ [CHR 0x00]) 1 count st ?s7"
    using tx_did_trans [OF tx_did_wrote tx_did_trans [OF s2(2) tx_did_trans [OF s4(2) tx_did_trans [OF tx_did_wrote tx_did_trans [OF s6(2) s7]]]]]
    by (simp add: numeral_2_eq_2)
  moreover have "io_in (tx_io ?s7) = r" using s6(3) by simp
  ultimately show ?thesis by blast
qed

lemma send_calm:
  assumes c: "calm env" and rec: "te_recursive env"
  shows "sendable depth name node \<Longrightarrow> path_Base current = name \<Longrightarrow> io_in (tx_io st) = replicate (acks node) (CHR 0x00) @ r \<Longrightarrow>
      \<exists>st'. send env depth current node st = (None, st') \<and> io_in (tx_io st') = r \<and>
        tx_did (acks node) (scp_wire name node) (file_count node) (byte_count node) st st'"
    and "sendable_list (depth + 1) items \<Longrightarrow> io_in (tx_io st) = replicate (acks_list items) (CHR 0x00) @ r \<Longrightarrow>
      \<exists>st'. send_list env depth current items st = (None, st') \<and> io_in (tx_io st') = r \<and>
        tx_did (acks_list items) (scp_wires items) (file_count_list items) (byte_count_list items) st st'"
proof (induction node and items arbitrary: depth name current st r and depth current st r)
  case (ScpFile perm count reads fail)
  let ?s = "st\<lparr>tx_nodes := Suc (tx_nodes st)\<rparr>"
  have ch: "send_check env depth current None st = (None, ?s)"
    by (rule send_check_calm [OF c]) (use ScpFile in simp_all)
  have len: "count \<le> length (concat reads)" and ac: "io_in (tx_io ?s) = replicate 2 (CHR 0x00) @ r" using ScpFile by simp_all
  obtain st' where s: "send_file env current perm count reads fail ?s = (None, st')" "io_in (tx_io st') = r"
      "tx_did 2 (scp_wire name (ScpFile perm count reads fail)) 1 count ?s st'"
    using send_file_calm [OF c len ac, of current perm fail] ScpFile.prems(2) by auto
  have "tx_did 2 (scp_wire name (ScpFile perm count reads fail)) 1 count st st'"
    using tx_did_trans [OF tx_nodes_did s(3)] by (simp add: numeral_2_eq_2)
  then show ?case using s ch by simp
next
  case (ScpDir perm items)
  let ?s = "st\<lparr>tx_nodes := Suc (tx_nodes st)\<rparr>" and ?h = "dir_header perm name" and ?e = "''E'' @ [CHR 0x0A]"
  have ch: "send_check env depth current None st = (None, ?s)"
    by (rule send_check_calm [OF c]) (use ScpDir in simp_all)
  have "io_in (tx_io (tx_wrote ?h ?s)) = replicate (Suc (Suc (acks_list items))) (CHR 0x00) @ r"
    using ScpDir.prems by (simp add: tx_wrote_def)
  then obtain s3 where s3: "tx_ack (tx_wrote ?h ?s) = (None, s3)" "tx_did 1 [] 0 0 (tx_wrote ?h ?s) s3"
      "io_in (tx_io s3) = replicate (Suc (acks_list items)) (CHR 0x00) @ r" using tx_ack_did by blast
  have in3: "io_in (tx_io s3) = replicate (acks_list items) (CHR 0x00) @ CHR 0x00 # r"
    using s3(3) by (simp add: replicate_app_Cons_same)
  have sl: "sendable_list (depth + 1) items" using ScpDir.prems by simp
  obtain s4 where s4: "send_list env depth current items s3 = (None, s4)" "io_in (tx_io s4) = CHR 0x00 # r"
      "tx_did (acks_list items) (scp_wires items) (file_count_list items) (byte_count_list items) s3 s4"
    using ScpDir.IH [OF sl in3] by blast
  have "io_in (tx_io (tx_wrote ?e s4)) = replicate (Suc 0) (CHR 0x00) @ r" using s4(2) by (simp add: tx_wrote_def)
  then obtain s5 where s5: "tx_ack (tx_wrote ?e s4) = (None, s5)" "tx_did 1 [] 0 0 (tx_wrote ?e s4) s5" "io_in (tx_io s5) = r"
    using tx_ack_did [of "tx_wrote ?e s4" 0 r] by auto
  have "send env depth current (ScpDir perm items) st = (None, s5)"
    using ScpDir.prems(2) by (simp add: ch rec tx_put_calm [OF c] s3(1) s4(1) s5(1) del: append.simps)
  moreover have "tx_did (acks (ScpDir perm items)) (scp_wire name (ScpDir perm items)) (file_count_list items) (byte_count_list items) st s5"
    using tx_did_trans [OF tx_nodes_did tx_did_trans [OF tx_did_wrote tx_did_trans [OF s3(2) tx_did_trans [OF s4(3) tx_did_trans [OF tx_did_wrote s5(2)]]]]]
    by simp
  ultimately show ?case using s5(3) by simp
next
  case (ListItem n link node rest)
  have a: "io_in (tx_io st) = replicate (acks node) (CHR 0x00) @ replicate (acks_list rest) (CHR 0x00) @ r"
    using ListItem.prems by (simp add: replicate_add)
  have v: "ValidFileName n" "\<not> link" "sendable (depth + 1) n node" "sendable_list (depth + 1) rest"
    using ListItem.prems by (cases node; simp)+
  obtain s1 where s1: "send env (depth + 1) (current @ ''/'' @ n) node st = (None, s1)" "io_in (tx_io s1) = replicate (acks_list rest) (CHR 0x00) @ r"
      "tx_did (acks node) (scp_wire n node) (file_count node) (byte_count node) st s1"
    using ListItem.IH(1) [OF v(3) path_Base_valid(2) [OF v(1)] a] by blast
  obtain s2 where s2: "send_list env depth current rest s1 = (None, s2)" "io_in (tx_io s2) = r"
      "tx_did (acks_list rest) (scp_wires rest) (file_count_list rest) (byte_count_list rest) s1 s2"
    using ListItem.IH(2) [OF v(4) s1(2)] by blast
  show ?case using s1(1) s2 tx_did_trans [OF s1(3) s2(3)] v by auto
qed (auto intro: tx_did_none)

text \<open>
  \<open>io.CopyN\<close> forgets the error of a copy that reached its count. So an error the
  progress callback returns for the last chunk of a file, which is the only chunk of a
  small one, does not abort the transfer.
\<close>

theorem scp_last_progress_error_lost:
  assumes w: "full_writes (te_write env)" and p: "te_progress env = Some p" "p current 0 count = None" "p current count count = Some e"
    and v: "te_verify env = None" and body: "body \<noteq> []" "length body = count"
    and acks: "io_in (tx_io st) = replicate 2 (CHR 0x00) @ r"
  shows "\<exists>st'. send_file env current perm count [body] fail st = (None, st') \<and> tx_files st' = Suc (tx_files st)"
proof -
  have w1: "te_write env n d = (length d, None)" for n d using w by (simp add: full_writes_def)
  have put: "tx_put env d s = (None, tx_wrote d s)" for d s by (simp add: tx_put_def io_write_def w1 tx_wrote_def)
  have ok: "tx_ok env s = (None, tx_wrote [CHR 0x00] s)" for s by (simp add: tx_ok_def scpOK_def io_write_def w1 tx_wrote_def)
  let ?s1 = "tx_wrote (file_header perm count (path_Base current)) st"
  have "io_in (tx_io ?s1) = replicate (Suc 1) (CHR 0x00) @ r" using acks by (simp add: tx_wrote_def numeral_2_eq_2)
  then obtain s2 where s2: "tx_ack ?s1 = (None, s2)" "tx_files s2 = tx_files st" "io_in (tx_io s2) = replicate 1 (CHR 0x00) @ r"
    using tx_ack_did [of ?s1 1 r] tx_did_trans [OF tx_did_wrote] by (auto simp: tx_did_def tx_wrote_def)
  have "counter_write env current count 0 body s2 = ((count, Some e), tx_wrote body s2)"
    using p body by (simp add: counter_write_def io_write_def w1 progress_call_def tx_wrote_def)
  then have "copy_n env current count [body] fail s2 = ((count, None), tx_wrote body s2)"
    using body(2) by (simp add: copy_n_def Let_def) (use body in auto)
  then obtain s4 where s4: "send_payload env current count [body] fail s2 = (None, s4)" "tx_files s4 = tx_files st" "tx_io s4 = tx_io (tx_wrote body s2)"
    using s2(2) by (simp add: send_payload_def tx_wrote_def)
  have "io_in (tx_io (tx_wrote [CHR 0x00] s4)) = replicate (Suc 0) (CHR 0x00) @ r" using s2(3) s4(3) by (simp add: tx_wrote_def)
  then obtain s6 where s6: "tx_ack (tx_wrote [CHR 0x00] s4) = (None, s6)" "tx_files s6 = tx_files st"
    using tx_ack_did [of "tx_wrote [CHR 0x00] s4" 0 r] s4(2) by (auto simp: tx_did_def tx_wrote_def)
  have "send_file env current perm count [body] fail st = (None, s6\<lparr>tx_files := Suc (tx_files s6)\<rparr>)"
    using p(2) by (simp add: send_file_def put s2(1) progress_call_def p(1) s4(1) ok s6(1) send_verify_def v)
  then show ?thesis using s6(2) by simp
qed

end
