(* ===== verification/SCP_Roundtrip.thy ===== *)
theory SCP_Roundtrip
  imports SCP_Upload "HOL-Library.Sublist"
begin

text \<open>
  Source and sink of \<open>scp.go\<close> agree: what the source writes for a tree, the sink
  delivers as that tree, acknowledging it with what the source awaits.
\<close>

section \<open>Records read back\<close>

lemma scpLine_to:
  assumes "CHR 0x0A \<notin> set line" "int (length line) < 4096" "io_in io = line @ CHR 0x0A # r"
  shows "scpLine io = (Inr line, io\<lparr>io_in := r\<rparr>)"
proof -
  have "takeWhile (\<lambda>c. c \<noteq> CHR 0x0A) (line @ CHR 0x0A # r) = line"
    using assms(1) by (simp add: takeWhile_append)
  then show ?thesis using assms(2,3) by (simp add: scpLine_def Let_def)
qed

lemma cut_space_at: "CHR '' '' \<notin> set a \<Longrightarrow> cut_space (a @ CHR '' '' # s) = Some (a, s)"
proof -
  assume a: "CHR '' '' \<notin> set a"
  have "takeWhile (\<lambda>c. c \<noteq> CHR '' '') (a @ CHR '' '' # s) = a"
    using a by (simp add: takeWhile_append)
  then show ?thesis by (simp add: cut_space_def)
qed

lemma entry_fields_at:
  "CHR '' '' \<notin> set a \<Longrightarrow> CHR '' '' \<notin> set b \<Longrightarrow> entry_fields (a @ '' '' @ b @ '' '' @ name) = Some (a, b, name)"
  by (simp add: entry_fields_def cut_space_at)

lemma octal4_digits: "c \<in> set (octal4 p) \<Longrightarrow> \<exists>d < 8. c = digit_char d"
  by (auto simp: octal4_def) (metis mod_less_divisor zero_less_numeral)+

lemma digit_char_plain: "d < 10 \<Longrightarrow> digit_char d \<noteq> CHR '' '' \<and> digit_char d \<noteq> CHR 0x0A"
  using is_digit_char [of d] by (auto simp: is_digit_def)

lemma octal4_plain: "CHR '' '' \<notin> set (octal4 p)" "CHR 0x0A \<notin> set (octal4 p)" "length (octal4 p) = 4"
proof -
  have n: "c \<notin> set (octal4 p)" if "c = CHR '' '' \<or> c = CHR 0x0A" for c
  proof
    assume "c \<in> set (octal4 p)"
    then obtain d where "d < 8" "c = digit_char d" using octal4_digits by blast
    then show False using digit_char_plain [of d] that by auto
  qed
  show "CHR '' '' \<notin> set (octal4 p)" "CHR 0x0A \<notin> set (octal4 p)" using n by simp_all
qed (simp add: octal4_def)

lemma format_nat_plain: "CHR '' '' \<notin> set (format_nat n)" "CHR 0x0A \<notin> set (format_nat n)"
  using format_nat_digits [of _ n] by (force simp: is_digit_def)+

lemma parse_mode_octal4: "p < 512 \<Longrightarrow> parse_mode (octal4 p) = Some p"
proof -
  assume p: "p < 512"
  have o: "octal_digit (digit_char d)" if "d < 8" for d using that by (simp add: octal_digit_def)
  have l: "list_all octal_digit (octal4 p)" using octal4_digits o by (fastforce simp: list_all_iff)
  have "foldl (\<lambda>a c. 8 * a + digit_val c) 0 (octal4 p) =
      8 * (8 * (8 * (p div 512 mod 8) + p div 64 mod 8) + p div 8 mod 8) + p mod 8"
    by (simp add: octal4_def)
  also have "\<dots> = p"
  proof -
    have "p div 512 = 0" "p div 64 mod 8 = p div 8 div 8" using p by (simp_all flip: div_mult2_eq)
    then show ?thesis by simp
  qed
  finally have "foldl (\<lambda>a c. 8 * a + digit_val c) 0 (octal4 p) = p" .
  moreover have "octal4 p \<noteq> []" by (simp add: octal4_def)
  ultimately show ?thesis using l by (simp add: parse_mode_def)
qed

lemma parse_count: "int n < 2 ^ 63 \<Longrightarrow> go_Atoi (format_nat n) = Some (int n)"
  using go_Atoi_format [of "int n"] by (simp add: format_int_def)

section \<open>The sink reads the wire form\<close>

definition calm_sink :: "scp_sink_env \<Rightarrow> bool" where
  "calm_sink env \<longleftrightarrow> full_writes (re_write env) \<and> re_recursive env \<and>
     (\<forall>k e b. re_receive env k e b = (length b, None)) \<and> (\<forall>v n e. re_verify env = Some v \<longrightarrow> v n e = None)"

lemma calm_sink_simps:
  assumes "calm_sink env"
  shows "re_write env n d = (length d, None)" "re_recursive env" "re_receive env k e b = (length b, None)"
    "(case re_verify env of None \<Rightarrow> None | Some v \<Rightarrow> v m e) = None"
  using assms unfolding calm_sink_def full_writes_def by (blast, blast, blast, cases "re_verify env", auto)

definition rx_acked :: "scp_sink \<Rightarrow> scp_sink" where
  "rx_acked st = st\<lparr>rx_io := (rx_io st)\<lparr>io_out := io_out (rx_io st) @ [CHR 0x00], io_writes := Suc (io_writes (rx_io st))\<rparr>\<rparr>"

lemma rx_ok_calm: "calm_sink env \<Longrightarrow> rx_ok env st = Inr (rx_acked st)"
  by (simp add: rx_ok_def scpOK_def io_write_def calm_sink_simps(1) rx_acked_def)

text \<open>
  \<open>st'\<close> is \<open>st\<close> after consuming the bytes \<open>d\<close>, delivering \<open>L\<close>, acknowledging \<open>k\<close> times
  and counting \<open>f\<close> files.
\<close>

definition rx_did :: "string \<Rightarrow> (scp_entry \<times> string) list \<Rightarrow> nat \<Rightarrow> nat \<Rightarrow> scp_sink \<Rightarrow> scp_sink \<Rightarrow> bool" where
  "rx_did d L k f st st' \<longleftrightarrow> io_in (rx_io st) = d @ io_in (rx_io st') \<and> io_fail (rx_io st') = io_fail (rx_io st) \<and>
     io_out (rx_io st') = io_out (rx_io st) @ replicate k (CHR 0x00) \<and> rx_log st' = rx_log st @ L \<and>
     rx_seen st' = rx_seen st @ map (\<lambda>x. sc_path (fst x)) L \<and> rx_files st' = rx_files st + f"

lemma rx_did_trans: "rx_did a L k f s t \<Longrightarrow> rx_did b M j g t u \<Longrightarrow> rx_did (a @ b) (L @ M) (k + j) (f + g) s u"
  by (simp add: rx_did_def replicate_add)

text \<open>The loop goes on to the next state.\<close>

lemma rx_loop_turn: "rx_turn env st = Inr st' \<Longrightarrow> rx_loop env st = rx_loop env st'"
  by (subst rx_loop.simps) simp

lemma rx_turn_record:
  assumes "io_in (rx_io st) = kind # line @ CHR 0x0A # r" "CHR 0x0A \<notin> set line" "int (length line) < 4096"
  shows "rx_turn env st =
    (case rx_record env kind line (st\<lparr>rx_io := (rx_io st)\<lparr>io_in := r\<rparr>\<rparr>) of Inl (e, st1) \<Rightarrow> Inl (Some e, st1) | Inr st1 \<Rightarrow> Inr st1)"
proof -
  have b: "io_ReadByte (rx_io st) = (Inr kind, (rx_io st)\<lparr>io_in := line @ CHR 0x0A # r\<rparr>)"
    using assms(1) by (simp add: io_ReadByte_def)
  have l: "scpLine ((rx_io st)\<lparr>io_in := line @ CHR 0x0A # r\<rparr>) = (Inr line, (rx_io st)\<lparr>io_in := r\<rparr>)"
    using scpLine_to [OF assms(2,3), of "(rx_io st)\<lparr>io_in := line @ CHR 0x0A # r\<rparr>" r] by simp
  show ?thesis by (simp add: rx_turn_def b l)
qed

text \<open>When a record for \<open>name\<close> is in order.\<close>

definition rx_ready :: "scp_sink_env \<Rightarrow> string \<Rightarrow> scp_sink \<Rightarrow> bool" where
  "rx_ready env name st \<longleftrightarrow> (rx_stack st = [] \<longrightarrow> \<not> rx_root st \<and> name = re_expected env) \<and> (rx_stack st \<noteq> [] \<longrightarrow> rx_root st) \<and> length (rx_stack st) < 128 \<and>
     str_join ''/'' (rx_stack st @ [name]) \<notin> set (rx_seen st) \<and> int (length (rx_seen st)) < 100000"

definition rx_entered :: "string \<Rightarrow> scp_sink \<Rightarrow> scp_sink" where
  "rx_entered name st = (if rx_stack st = [] then st\<lparr>rx_root := True\<rparr> else st)
     \<lparr>rx_seen := rx_seen st @ [str_join ''/'' (rx_stack st @ [name])]\<rparr>"

lemma rx_entry_ready:
  assumes c: "calm_sink env" and p: "p < 512" and n: "int n < 2 ^ 63" "dir \<longrightarrow> n = 0" and v: "ValidFileName name" and ready: "rx_ready env name st"
  shows "rx_entry env dir (octal4 p @ '' '' @ format_nat n @ '' '' @ name) st =
    (let e = \<lparr>sc_path = str_join ''/'' (rx_stack st @ [name]), sc_size = n, sc_mode = p, sc_dir = dir\<rparr>
     in if dir then rx_directory env name e (rx_entered name st) else rx_file env e (rx_entered name st))"
proof -
  have f: "entry_fields (octal4 p @ '' '' @ format_nat n @ '' '' @ name) = Some (octal4 p, format_nat n, name)"
    by (rule entry_fields_at) (simp_all add: octal4_plain format_nat_plain)
  have "\<not> int (length (rx_stack st)) \<ge> 128" "\<not> int (length (rx_seen st)) \<ge> 100000"
    using ready by (simp_all add: rx_ready_def)
  then show ?thesis using ready n p v unfolding rx_entry_def f
    by (simp add: octal4_plain parse_mode_octal4 parse_count calm_sink_simps(2) [OF c] Let_def rx_ready_def rx_entered_def
        del: of_nat_less_iff)
qed

text \<open>A file record and its payload.\<close>

lemma rx_file_calm:
  assumes c: "calm_sink env" and e: "\<not> sc_dir e" and inp: "io_in (rx_io st) = body @ CHR 0x00 # r" and n: "length body = sc_size e"
  shows "\<exists>st'. rx_file env e st = Inr st' \<and> io_in (rx_io st') = r \<and> io_fail (rx_io st') = io_fail (rx_io st) \<and>
    io_out (rx_io st') = io_out (rx_io st) @ replicate 2 (CHR 0x00) \<and> rx_log st' = rx_log st @ [(e, body)] \<and>
    rx_seen st' = rx_seen st \<and> rx_files st' = Suc (rx_files st) \<and> rx_stack st' = rx_stack st \<and> rx_root st' = rx_root st"
proof -
  let ?s1 = "rx_acked st"
  let ?s2 = "?s1\<lparr>rx_io := (rx_io ?s1)\<lparr>io_in := CHR 0x00 # r\<rparr>, rx_log := rx_log st @ [(e, body)]\<rparr>"
  let ?s3 = "?s2\<lparr>rx_io := (rx_io ?s2)\<lparr>io_in := r\<rparr>\<rparr>"
  have i1: "io_in (rx_io ?s1) = body @ CHR 0x00 # r" using inp by (simp add: rx_acked_def)
  have d: "rx_deliver env e ?s1 = Inr ?s2"
    using e i1 n by (simp add: rx_deliver_def calm_sink_simps(3) [OF c] Let_def rx_acked_def)
  have a: "scpAck (rx_io ?s2) = (None, rx_io ?s3)" by (simp add: scpAck_def io_ReadByte_def)
  have s: "?s2\<lparr>rx_io := rx_io ?s3\<rparr> = ?s3" by simp
  have v: "rx_verified env e (rx_acked ?s3) = Inr ((rx_acked ?s3)\<lparr>rx_files := Suc (rx_files (rx_acked ?s3))\<rparr>)"
    by (simp add: rx_verified_def calm_sink_simps(4) [OF c])
  have "rx_file env e st = Inr ((rx_acked ?s3)\<lparr>rx_files := Suc (rx_files (rx_acked ?s3))\<rparr>)"
    unfolding rx_file_def rx_ok_calm [OF c] sum.case d a prod.case option.case s v ..
  then show ?thesis by (intro exI [of _ "(rx_acked ?s3)\<lparr>rx_files := Suc (rx_files (rx_acked ?s3))\<rparr>"])
      (simp add: rx_acked_def numeral_2_eq_2)
qed

lemma rx_directory_calm:
  assumes c: "calm_sink env" and e: "sc_dir e"
  shows "rx_directory env name e st = Inr (rx_acked (st\<lparr>rx_log := rx_log st @ [(e, [])], rx_stack := rx_stack st @ [name]\<rparr>))"
  using e by (simp add: rx_directory_def rx_deliver_def calm_sink_simps(3) [OF c] Let_def rx_ok_calm [OF c])

text \<open>What comes after \<open>rx_entered\<close>.\<close>

lemma rx_entered_simps [simp]:
  "rx_io (rx_entered name st) = rx_io st" "rx_log (rx_entered name st) = rx_log st" "rx_stack (rx_entered name st) = rx_stack st"
  "rx_seen (rx_entered name st) = rx_seen st @ [str_join ''/'' (rx_stack st @ [name])]" "rx_files (rx_entered name st) = rx_files st"
  "rx_root (rx_entered name st) = (rx_root st \<or> rx_stack st = [])"
  by (simp_all add: rx_entered_def)

text \<open>The names below \<open>cs\<close> are not taken yet.\<close>

definition below_free :: "string list \<Rightarrow> scp_sink \<Rightarrow> bool" where
  "below_free cs st \<longleftrightarrow> (\<forall>p \<in> set (rx_seen st). \<not> prefix cs (split_byte (CHR ''/'') p))"

lemma split_valid: "list_all ValidFileName cs \<Longrightarrow> cs \<noteq> [] \<Longrightarrow> split_byte (CHR ''/'') (str_join ''/'' cs) = cs"
  by (rule split_join) (auto simp: list_all_iff dest: valid_name(4))

lemma below_free_fresh: "below_free cs st \<Longrightarrow> list_all ValidFileName cs \<Longrightarrow> cs \<noteq> [] \<Longrightarrow> str_join ''/'' cs \<notin> set (rx_seen st)"
  unfolding below_free_def using split_valid by fastforce

lemma sendable_valid: "sendable d n node \<Longrightarrow> ValidFileName n"
  by (cases node) auto

lemma tree_entries_below:
  "sendable d (List.last cs) node \<Longrightarrow> list_all ValidFileName cs \<Longrightarrow> cs \<noteq> [] \<Longrightarrow> x \<in> set (tree_entries cs node) \<Longrightarrow>
    prefix cs (split_byte (CHR ''/'') (sc_path (fst x)))"
  "sendable_list d items \<Longrightarrow> list_all ValidFileName cs \<Longrightarrow> cs \<noteq> [] \<Longrightarrow> x \<in> set (list_entries cs items) \<Longrightarrow>
    \<exists>n \<in> set (item_names items). prefix (cs @ [n]) (split_byte (CHR ''/'') (sc_path (fst x)))"
proof (induction node and items arbitrary: d cs x and d cs x)
  case (ScpFile perm count reads fail)
  then show ?case by (simp add: split_valid)
next
  case (ScpDir perm items)
  show ?case
  proof (cases "x \<in> set (list_entries cs items)")
    case True
    then obtain n where "prefix (cs @ [n]) (split_byte (CHR ''/'') (sc_path (fst x)))"
      using ScpDir.IH [of "d + 1" cs x] ScpDir.prems by auto
    then show ?thesis by (rule prefix_order.trans [rotated]) simp
  next
    case False
    then show ?thesis using ScpDir.prems by (simp add: split_valid)
  qed
next
  case (ListItem n link node rest)
  show ?case
  proof (cases "x \<in> set (tree_entries (cs @ [n]) node)")
    case True
    have "sendable d n node" "ValidFileName n" using ListItem.prems(1) sendable_valid by auto
    then show ?thesis using ListItem.IH(1) [of d "cs @ [n]" x] ListItem.prems True by auto
  next
    case False
    then show ?thesis using ListItem.IH(2) [of d cs x] ListItem.prems by auto
  qed
qed simp_all

lemma rx_entry_turn:
  assumes c: "calm_sink env" and p: "p < 512" and n: "int n < 2 ^ 63" "dir \<longrightarrow> n = 0" and v: "ValidFileName name" and ready: "rx_ready env name st"
    and kind: "kind = (if dir then CHR ''D'' else CHR ''C'')"
    and line: "line = octal4 p @ '' '' @ format_nat n @ '' '' @ name" and len: "int (length line) < 4096"
    and inp: "io_in (rx_io st) = kind # line @ CHR 0x0A # r"
    and e: "e = \<lparr>sc_path = str_join ''/'' (rx_stack st @ [name]), sc_size = n, sc_mode = p, sc_dir = dir\<rparr>"
    and st0: "st0 = rx_entered name (st\<lparr>rx_io := (rx_io st)\<lparr>io_in := r\<rparr>\<rparr>)"
  shows "(if dir then rx_directory env name e st0 else rx_file env e st0) = Inr st' \<Longrightarrow> rx_loop env st = rx_loop env st'"
proof -
  assume step: "(if dir then rx_directory env name e st0 else rx_file env e st0) = Inr st'"
  have nl: "CHR 0x0A \<notin> set line" unfolding line using octal4_plain(2) format_nat_plain(2) valid_name(6) [OF v] by simp
  let ?s = "st\<lparr>rx_io := (rx_io st)\<lparr>io_in := r\<rparr>\<rparr>"
  have rdy: "rx_ready env name ?s" using ready by (simp add: rx_ready_def)
  have "rx_record env kind line ?s = rx_entry env dir line ?s" using kind by (simp add: rx_record_def)
  also have "\<dots> = Inr st'" using rx_entry_ready [OF c p n v rdy] step by (cases dir) (simp_all add: line e st0 Let_def)
  finally have "rx_turn env st = Inr st'" using rx_turn_record [OF inp nl len] by simp
  then show ?thesis by (rule rx_loop_turn)
qed

lemma rx_file_tree:
  assumes c: "calm_sink env" and sd: "sendable d name (ScpFile perm count reads fail)" and ready: "rx_ready env name st"
    and inp: "io_in (rx_io st) = scp_wire name (ScpFile perm count reads fail) @ r"
  shows "\<exists>st'. rx_loop env st = rx_loop env st' \<and> io_in (rx_io st') = r \<and> rx_stack st' = rx_stack st \<and> rx_root st' \<and>
    rx_did (scp_wire name (ScpFile perm count reads fail)) (tree_entries (rx_stack st @ [name]) (ScpFile perm count reads fail)) 2 1 st st'"
proof -
  let ?body = "take count (concat reads)" and ?line = "octal4 perm @ '' '' @ format_nat count @ '' '' @ name"
  let ?r = "?body @ CHR 0x00 # r"
  let ?e = "\<lparr>sc_path = str_join ''/'' (rx_stack st @ [name]), sc_size = count, sc_mode = perm, sc_dir = False\<rparr>"
  let ?s0 = "rx_entered name (st\<lparr>rx_io := (rx_io st)\<lparr>io_in := ?r\<rparr>\<rparr>)"
  have f: "perm < 512" "int count < 2 ^ 63" "ValidFileName name" "int (length ?line) < 4096" "length ?body = count"
    using sd by (simp_all add: file_header_def)
  have i: "io_in (rx_io st) = CHR ''C'' # ?line @ CHR 0x0A # ?r" using inp by (simp add: file_header_def)
  have b: "\<not> sc_dir ?e" "io_in (rx_io ?s0) = ?body @ CHR 0x00 # r" "length ?body = sc_size ?e" using f(5) by simp_all
  obtain st' where s: "rx_file env ?e ?s0 = Inr st'" "io_in (rx_io st') = r" "io_fail (rx_io st') = io_fail (rx_io ?s0)"
      "io_out (rx_io st') = io_out (rx_io ?s0) @ replicate 2 (CHR 0x00)" "rx_log st' = rx_log ?s0 @ [(?e, ?body)]"
      "rx_seen st' = rx_seen ?s0" "rx_files st' = Suc (rx_files ?s0)" "rx_stack st' = rx_stack ?s0" "rx_root st' = rx_root ?s0"
    using rx_file_calm [OF c b] by blast
  have "rx_loop env st = rx_loop env st'"
    by (rule rx_entry_turn [OF c f(1,2) _ f(3) ready _ refl f(4) i refl refl, where dir = False]) (use s(1) in simp_all)
  moreover have "rx_root ?s0" using ready by (auto simp: rx_ready_def)
  ultimately show ?thesis using s inp by (intro exI [of _ st']) (simp add: rx_did_def)
qed

lemma rx_end_turn:
  assumes c: "calm_sink env" and inp: "io_in (rx_io st) = ''E'' @ [CHR 0x0A] @ r" and stk: "rx_stack st = cs @ [n]"
  shows "rx_loop env st = rx_loop env (rx_acked (st\<lparr>rx_io := (rx_io st)\<lparr>io_in := r\<rparr>, rx_stack := cs\<rparr>))"
proof -
  have i: "io_in (rx_io st) = CHR ''E'' # [] @ CHR 0x0A # r" using inp by simp
  have "rx_turn env st = Inr (rx_acked (st\<lparr>rx_io := (rx_io st)\<lparr>io_in := r\<rparr>, rx_stack := cs\<rparr>))"
    using rx_turn_record [OF i] stk by (simp add: rx_record_def rx_ok_calm [OF c])
  then show ?thesis by (rule rx_loop_turn)
qed

lemma below_free_did:
  assumes "below_free (cs @ [m]) st" "rx_did w (tree_entries (cs @ [n]) node) k f st st'" "sendable d n node" "n \<noteq> m" "list_all ValidFileName cs"
  shows "below_free (cs @ [m]) st'"
proof -
  have "\<not> prefix (cs @ [m]) (split_byte (CHR ''/'') p)" if p: "p \<in> set (rx_seen st')" for p
  proof (cases "p \<in> set (rx_seen st)")
    case True
    then show ?thesis using assms(1) by (simp add: below_free_def)
  next
    case False
    then obtain x where x: "x \<in> set (tree_entries (cs @ [n]) node)" "p = sc_path (fst x)"
      using p assms(2) by (auto simp: rx_did_def)
    have "prefix (cs @ [n]) (split_byte (CHR ''/'') p)"
      using tree_entries_below(1) [of d "cs @ [n]" node x] assms(3,5) x sendable_valid by simp
    then show ?thesis using assms(4) by (auto simp: prefix_def)
  qed
  then show ?thesis by (simp add: below_free_def)
qed

lemma rx_tree:
  assumes c: "calm_sink env"
  shows "sendable (int (length (rx_stack st))) name node \<Longrightarrow> list_all ValidFileName (rx_stack st) \<Longrightarrow>
      (rx_stack st = [] \<longrightarrow> \<not> rx_root st \<and> name = re_expected env) \<Longrightarrow> (rx_stack st \<noteq> [] \<longrightarrow> rx_root st) \<Longrightarrow>
      below_free (rx_stack st @ [name]) st \<Longrightarrow>
      length (rx_seen st) + length (tree_entries (rx_stack st @ [name]) node) \<le> 100000 \<Longrightarrow>
      io_in (rx_io st) = scp_wire name node @ r \<Longrightarrow>
      \<exists>st'. rx_loop env st = rx_loop env st' \<and> io_in (rx_io st') = r \<and> rx_stack st' = rx_stack st \<and> rx_root st' \<and>
        rx_did (scp_wire name node) (tree_entries (rx_stack st @ [name]) node) (acks node) (file_count node) st st'"
    and "sendable_list (int (length (rx_stack st))) items \<Longrightarrow> list_all ValidFileName (rx_stack st) \<Longrightarrow> rx_stack st \<noteq> [] \<Longrightarrow> rx_root st \<Longrightarrow>
      distinct (item_names items) \<Longrightarrow> (\<forall>n \<in> set (item_names items). below_free (rx_stack st @ [n]) st) \<Longrightarrow>
      length (rx_seen st) + length (list_entries (rx_stack st) items) \<le> 100000 \<Longrightarrow>
      io_in (rx_io st) = scp_wires items @ r \<Longrightarrow>
      \<exists>st'. rx_loop env st = rx_loop env st' \<and> io_in (rx_io st') = r \<and> rx_stack st' = rx_stack st \<and> rx_root st' \<and>
        rx_did (scp_wires items) (list_entries (rx_stack st) items) (acks_list items) (file_count_list items) st st'"
proof (induction node and items arbitrary: name st r and st r)
  case (ScpFile perm count reads fail)
  have v: "ValidFileName name" using ScpFile.prems(1) by simp
  have "str_join ''/'' (rx_stack st @ [name]) \<notin> set (rx_seen st)"
    by (rule below_free_fresh [OF ScpFile.prems(5)]) (use ScpFile.prems(2) v in simp_all)
  then have "rx_ready env name st" using ScpFile.prems by (simp add: rx_ready_def)
  from rx_file_tree [OF c ScpFile.prems(1) this ScpFile.prems(7)] show ?case by simp
next
  case (ScpDir perm items)
  let ?cs = "rx_stack st @ [name]" and ?line = "octal4 perm @ '' '' @ format_nat 0 @ '' '' @ name"
  let ?r = "scp_wires items @ ''E'' @ [CHR 0x0A] @ r"
  let ?e = "\<lparr>sc_path = str_join ''/'' ?cs, sc_size = 0, sc_mode = perm, sc_dir = True\<rparr>"
  have f: "perm < 512" "ValidFileName name" "int (length ?line) < 4096" "length (rx_stack st) < 128" "distinct (item_names items)"
      "sendable_list (int (length ?cs)) items"
    using ScpDir.prems(1) by (simp_all add: dir_header_def digit_chars format_nat.simps add.commute)
  have fresh: "str_join ''/'' ?cs \<notin> set (rx_seen st)"
    by (rule below_free_fresh [OF ScpDir.prems(5)]) (use ScpDir.prems(2) f(2) in simp_all)
  have ready: "rx_ready env name st" using ScpDir.prems f(4) fresh by (simp add: rx_ready_def)
  have i: "io_in (rx_io st) = CHR ''D'' # ?line @ CHR 0x0A # ?r"
    using ScpDir.prems(7) by (simp add: dir_header_def format_nat.simps digit_chars)
  let ?s0 = "rx_entered name (st\<lparr>rx_io := (rx_io st)\<lparr>io_in := ?r\<rparr>\<rparr>)"
  define s1 where "s1 = rx_acked (?s0\<lparr>rx_log := rx_log ?s0 @ [(?e, [])], rx_stack := rx_stack ?s0 @ [name]\<rparr>)"
  have l1: "rx_loop env st = rx_loop env s1"
    by (rule rx_entry_turn [OF c f(1) _ _ f(2) ready _ refl f(3) i refl refl, where dir = True])
      (simp_all add: rx_directory_calm [OF c] s1_def)
  have s1: "rx_stack s1 = ?cs" "rx_root s1" "rx_seen s1 = rx_seen st @ [str_join ''/'' ?cs]" "io_in (rx_io s1) = scp_wires items @ (''E'' @ [CHR 0x0A] @ r)"
      "rx_did (dir_header perm name) [(?e, [])] 1 0 st s1"
    using ready i by (auto simp: s1_def rx_acked_def rx_did_def rx_ready_def dir_header_def format_nat.simps digit_chars)
  have vcs: "list_all ValidFileName ?cs" using ScpDir.prems(2) f(2) by simp
  have free: "below_free (?cs @ [n]) s1" for n
  proof -
    have "\<not> prefix (?cs @ [n]) (split_byte (CHR ''/'') p)" if "p \<in> set (rx_seen st)" for p
      using ScpDir.prems(5) that append_prefixD unfolding below_free_def by blast
    then show ?thesis using vcs by (auto simp: below_free_def s1(3) split_valid)
  qed
  obtain s2 where s2: "rx_loop env s1 = rx_loop env s2" "io_in (rx_io s2) = ''E'' @ [CHR 0x0A] @ r" "rx_stack s2 = ?cs" "rx_root s2"
      "rx_did (scp_wires items) (list_entries ?cs items) (acks_list items) (file_count_list items) s1 s2"
    using ScpDir.IH [of s1 "''E'' @ [CHR 0x0A] @ r"] f(5,6) vcs s1 free ScpDir.prems(6) unfolding s1(1) by auto
  let ?s3 = "rx_acked (s2\<lparr>rx_io := (rx_io s2)\<lparr>io_in := r\<rparr>, rx_stack := rx_stack st\<rparr>)"
  have l3: "rx_loop env s2 = rx_loop env ?s3" by (rule rx_end_turn [OF c s2(2,3)])
  have "rx_did (''E'' @ [CHR 0x0A]) [] 1 0 s2 ?s3" using s2(2) by (simp add: rx_did_def rx_acked_def)
  with rx_did_trans [OF s1(5) rx_did_trans [OF s2(5)]]
  have "rx_did (scp_wire name (ScpDir perm items)) (tree_entries ?cs (ScpDir perm items)) (acks (ScpDir perm items))
      (file_count (ScpDir perm items)) st ?s3" by fastforce
  moreover have "io_in (rx_io ?s3) = r" "rx_stack ?s3 = rx_stack st" "rx_root ?s3" using s2(4) by (simp_all add: rx_acked_def)
  ultimately show ?case using l1 s2(1) l3 by metis
next
  case ListEnd
  then show ?case by (intro exI [of _ st]) (simp add: rx_did_def)
next
  case (ListItem n link node rest)
  have p: "sendable (int (length (rx_stack st))) n node" "sendable_list (int (length (rx_stack st))) rest" "n \<notin> set (item_names rest)"
      "distinct (item_names rest)" "below_free (rx_stack st @ [n]) st"
      "length (rx_seen st) + length (tree_entries (rx_stack st @ [n]) node) \<le> 100000"
      "io_in (rx_io st) = scp_wire n node @ (scp_wires rest @ r)"
    using ListItem.prems by simp_all
  obtain s1 where s1: "rx_loop env st = rx_loop env s1" "io_in (rx_io s1) = scp_wires rest @ r" "rx_stack s1 = rx_stack st" "rx_root s1"
      "rx_did (scp_wire n node) (tree_entries (rx_stack st @ [n]) node) (acks node) (file_count node) st s1"
    using ListItem.IH(1) [OF p(1) ListItem.prems(2) _ _ p(5,6,7)] ListItem.prems(3,4) by blast
  have free: "\<forall>m \<in> set (item_names rest). below_free (rx_stack s1 @ [m]) s1"
    using below_free_did [OF _ s1(5) p(1) _ ListItem.prems(2)] ListItem.prems(6) p(3) s1(3) by auto
  have len: "length (rx_seen s1) + length (list_entries (rx_stack s1) rest) \<le> 100000"
    using ListItem.prems(7) s1(3,5) by (simp add: rx_did_def)
  obtain s2 where s2: "rx_loop env s1 = rx_loop env s2" "io_in (rx_io s2) = r" "rx_stack s2 = rx_stack s1" "rx_root s2"
      "rx_did (scp_wires rest) (list_entries (rx_stack s1) rest) (acks_list rest) (file_count_list rest) s1 s2"
    using ListItem.IH(2) [of s1 r] p(2,4) ListItem.prems(2,3) s1(2,3,4) free len by auto
  show ?case using s1 s2 rx_did_trans [OF s1(5) s2(5)] by (intro exI [of _ s2]) simp
qed simp_all

section \<open>The two ends agree\<close>

text \<open>
  C22 Source and sink agree on the wire protocol: for every tree within the limits
  there is one conversation in which the source reads as acknowledgements just what
  the sink writes and the sink reads just what the source writes; both succeed with
  nothing left unread, the sink delivers exactly the entries of the tree, in order,
  with their paths, sizes, permissions and contents, and both count the same files.
\<close>

theorem scp_transfer_agrees:
  assumes tree: "sendable 0 name node" "length (tree_entries [name] node) \<le> 100000"
    and source: "calm env" "te_recursive env"
    and sink: "calm_sink renv" "re_expected renv = name"
  shows "\<exists>A W tx rx. uploadSCP_transfer env name node \<lparr>io_in = A, io_fail = IoEOF, io_out = [], io_writes = 0\<rparr> = (None, tx) \<and>
    receiveSCP renv \<lparr>io_in = W, io_fail = IoEOF, io_out = [], io_writes = 0\<rparr> = (None, rx) \<and>
    io_out (tx_io tx) = W \<and> io_out (rx_io rx) = A \<and> io_in (tx_io tx) = [] \<and> io_in (rx_io rx) = [] \<and>
    rx_log rx = tree_entries [name] node \<and> rx_files rx = file_count node \<and> tx_files tx = file_count node \<and> tx_total tx = byte_count node"
proof -
  let ?A = "replicate (Suc (acks node)) (CHR 0x00)" and ?W = "scp_wire name node"
  let ?tio = "\<lparr>io_in = ?A, io_fail = IoEOF, io_out = [], io_writes = 0\<rparr>"
  have v: "ValidFileName name" using sendable_valid [OF tree(1)] .
  let ?t0 = "\<lparr>tx_io = ?tio, tx_nodes = 0, tx_files = 0, tx_total = 0\<rparr>"
  obtain t1 where t1: "tx_ack ?t0 = (None, t1)" "tx_did 1 [] 0 0 ?t0 t1" "io_in (tx_io t1) = replicate (acks node) (CHR 0x00) @ []"
    using tx_ack_did [of ?t0 "acks node" "[]"] by auto
  obtain tx where tx: "send env 0 name node t1 = (None, tx)" "io_in (tx_io tx) = []"
      "tx_did (acks node) ?W (file_count node) (byte_count node) t1 tx"
    using send_calm(1) [OF source tree(1) path_Base_valid(1) [OF v] t1(3)] by blast
  have up: "uploadSCP_transfer env name node ?tio = (None, tx)" by (simp add: uploadSCP_transfer_def t1(1) tx(1) del: replicate_Suc)
  have txo: "io_out (tx_io tx) = ?W" "tx_files tx = file_count node" "tx_total tx = byte_count node"
    using tx_did_trans [OF t1(2) tx(3)] by (simp_all add: tx_did_def tx_moved_def)
  let ?rio = "\<lparr>io_in = ?W, io_fail = IoEOF, io_out = [], io_writes = 0\<rparr>"
  let ?r0 = "rx_acked \<lparr>rx_io = ?rio, rx_stack = [], rx_seen = [], rx_root = False, rx_files = 0, rx_log = []\<rparr>"
  have r0: "rx_stack ?r0 = []" "\<not> rx_root ?r0" "rx_seen ?r0 = []" "io_in (rx_io ?r0) = ?W @ []" "rx_log ?r0 = []" "rx_files ?r0 = 0"
      "io_out (rx_io ?r0) = [CHR 0x00]" "io_fail (rx_io ?r0) = IoEOF"
    by (simp_all add: rx_acked_def)
  have "below_free [name] ?r0" by (simp add: below_free_def r0)
  then obtain rx where rx: "rx_loop renv ?r0 = rx_loop renv rx" "io_in (rx_io rx) = []" "rx_stack rx = []" "rx_root rx"
      "rx_did ?W (tree_entries [name] node) (acks node) (file_count node) ?r0 rx"
    using rx_tree(1) [OF sink(1), of ?r0 name node "[]"] tree sink(2) r0 by auto
  have eof: "io_ReadByte (rx_io rx) = (Inl IoEOF, rx_io rx)" using rx(2,5) r0(8) by (simp add: io_ReadByte_def rx_did_def)
  have "rx_turn renv rx = Inl (None, rx)" by (simp add: rx_turn_def eof rx(3,4))
  then have "rx_loop renv ?r0 = (None, rx)" unfolding rx(1) by (subst rx_loop.simps) simp
  then have down: "receiveSCP renv ?rio = (None, rx)" by (simp add: receiveSCP_def Let_def rx_ok_calm [OF sink(1)])
  have rxo: "io_out (rx_io rx) = ?A" "rx_log rx = tree_entries [name] node" "rx_files rx = file_count node"
    using rx(5) r0 by (simp_all add: rx_did_def)
  show ?thesis using up down txo rxo tx(2) rx(2) by blast
qed

definition demo_tree :: scp_node where
  "demo_tree = ScpDir 493 (ListItem ''a.txt'' False (ScpFile 420 3 [''ab'', ''c''] IoEOF)
     (ListItem ''empty'' False (ScpDir 493 ListEnd) ListEnd))"

definition demo_source :: scp_source_env where
  "demo_source = \<lparr>te_ctx = (\<lambda>n. None), te_recursive = True, te_progress = None, te_verify = None, te_digest = (\<lambda>s. s),
     te_write = (\<lambda>n d. (length d, None))\<rparr>"

definition demo_sink :: scp_sink_env where
  "demo_sink = \<lparr>re_expected = ''top'', re_recursive = True, re_receive = (\<lambda>k e b. (length b, None)), re_verify = None,
     re_write = (\<lambda>n d. (length d, None))\<rparr>"

theorem scp_transfer_agrees_witness:
  "\<exists>A W tx rx. uploadSCP_transfer demo_source ''top'' demo_tree \<lparr>io_in = A, io_fail = IoEOF, io_out = [], io_writes = 0\<rparr> = (None, tx) \<and>
    receiveSCP demo_sink \<lparr>io_in = W, io_fail = IoEOF, io_out = [], io_writes = 0\<rparr> = (None, rx) \<and>
    io_out (tx_io tx) = W \<and> io_out (rx_io rx) = A \<and> map (sc_path \<circ> fst) (rx_log rx) = [''top'', ''top/a.txt'', ''top/empty'']"
proof -
  have a: "sendable 0 ''top'' demo_tree" "length (tree_entries [''top''] demo_tree) \<le> 100000" by (code_simp, simp add: demo_tree_def)
  have b: "calm demo_source" "te_recursive demo_source" by (simp_all add: calm_def full_writes_def demo_source_def progress_call_def)
  have c: "calm_sink demo_sink" "re_expected demo_sink = ''top''" by (simp_all add: calm_sink_def full_writes_def demo_sink_def)
  have "map (sc_path \<circ> fst) (tree_entries [''top''] demo_tree) = [''top'', ''top/a.txt'', ''top/empty'']" by code_simp
  then show ?thesis using scp_transfer_agrees [OF a b c] by metis
qed

end
