(* ===== verification/SCP_Session.thy ===== *)
theory SCP_Session
  imports SCP_Roundtrip
begin

text \<open>
  The remote commands and the connection handling of \<open>scp.go\<close> and
  \<open>files_verify.go\<close>: which command is started, how the outcome of the transfer, of
  closing and of waiting are joined, and the checks by \<open>sha256sum\<close>.
\<close>

section \<open>Commands\<close>

definition scpUploadCommand :: "string \<Rightarrow> string \<Rightarrow> bool \<Rightarrow> bool \<Rightarrow> goerr + string" where
  "scpUploadCommand name destination recursive overwrite =
     (if \<not> ValidFileName name then Inl (ErrText ''invalid SCP source basename'')
      else case scpPath destination of Inl e \<Rightarrow> Inl e | Inr quoted \<Rightarrow>
        let command = (if recursive then ''scp -r -t -- '' else ''scp -t -- '') @ quoted
        in if overwrite then Inr command
           else case scpPath (trim_right_byte (CHR ''/'') destination @ ''/'' @ name) of Inl e \<Rightarrow> Inl e | Inr child \<Rightarrow>
             Inr (''if { test -d '' @ quoted @ '' && { test -e '' @ child @ '' || test -L '' @ child @ ''; }; } || { ! test -d '' @ quoted @
               '' && { test -e '' @ quoted @ '' || test -L '' @ quoted @ ''; }; }; then printf '' @ [single_quote] @
               go_raw ''`001destination exists`n'' @ [single_quote] @ ''; exit 1; fi; exec '' @ command))"

definition scpDownloadCommand :: "string \<Rightarrow> bool \<Rightarrow> goerr + string \<times> string" where
  "scpDownloadCommand source recursive =
     (case scpPath source of Inl e \<Rightarrow> Inl e | Inr quoted \<Rightarrow>
      let expected = path_Base (path_Clean source)
      in if \<not> ValidFileName expected then Inl (ErrText ''SCP source must name a file or directory'')
         else Inr (expected, (if recursive then ''scp -r -f -- '' else ''scp -f -- '') @ quoted))"

section \<open>The connection\<close>

text \<open>\<open>scpDiagnostic.Write\<close> keeps the first 4096 bytes; \<open>fileCheckOutput.Write\<close> also notices more.\<close>

definition diagnostic_write :: "string \<Rightarrow> string \<Rightarrow> string" where
  "diagnostic_write kept d = (let remaining = 4096 - int (length kept) in if remaining > 0 then kept @ take (nat remaining) d else kept)"

definition check_write :: "string \<Rightarrow> string \<times> bool \<Rightarrow> string \<times> bool" where
  "check_write d = (\<lambda>(kept, overflow). (diagnostic_write kept d, overflow \<or> int (length d) > 4096 - int (length kept)))"

datatype scp_effect = ScpStart string | ScpCloseClient | ScpInputClose | ScpWait | ScpSessionClose

record scp_run_env =
  sr_ctx :: "goerr option"             \<comment> \<open>the context before\<close>
  sr_ctx_end :: "goerr option"         \<comment> \<open>the context at the return\<close>
  sr_sftp :: bool
  sr_session :: "goerr option"
  sr_stdin :: "goerr option"
  sr_stdout :: "goerr option"
  sr_start :: "goerr option"
  sr_close :: "goerr option"
  sr_wait :: "goerr option"
  sr_stderr :: "string list"           \<comment> \<open>what the peer writes to stderr\<close>

definition scp_diagnostic :: "scp_run_env \<Rightarrow> string" where
  "scp_diagnostic env = foldl diagnostic_write [] (sr_stderr env)"

text \<open>From the running command on; \<open>terr\<close> is the error of the transfer.\<close>

definition scp_conclude :: "scp_run_env \<Rightarrow> goerr option \<Rightarrow> scp_effect list \<times> goerr option" where
  "scp_conclude env terr =
     (let closed = (if sr_close env = Some IoEOF then None else sr_close env);
          err = (if terr \<noteq> None then terr else closed);
          fx = (if terr \<noteq> None then [ScpCloseClient] else [ScpInputClose]) @ [ScpWait];
          err2 = (if (err \<noteq> None \<or> sr_wait env \<noteq> None) \<and> scp_diagnostic env \<noteq> []
                  then err_join err (Some (ErrText (''remote scp: '' @ scp_diagnostic env))) else err)
      in (fx, err_join err2 (sr_wait env)))"

definition runSCP :: "scp_run_env \<Rightarrow> string \<Rightarrow> goerr option \<Rightarrow> scp_effect list \<times> goerr option" where
  "runSCP env command terr =
     (let (fx, err) =
        (if sr_sftp env then ([], Some (ErrText ''legacy SCP requires an SCP file connection''))
         else case sr_ctx env of Some e \<Rightarrow> ([], Some e) | None \<Rightarrow>
         case sr_session env of Some e \<Rightarrow> ([], Some e) | None \<Rightarrow>
         let (fx1, err1) =
           (case sr_stdin env of Some e \<Rightarrow> ([], Some e) | None \<Rightarrow>
            case sr_stdout env of Some e \<Rightarrow> ([], Some e) | None \<Rightarrow>
            case sr_start env of Some e \<Rightarrow> ([ScpStart command], Some (ErrWrap e ''start remote scp'')) | None \<Rightarrow>
            case scp_conclude env terr of (fx2, err2) \<Rightarrow> (ScpStart command # fx2, err2))
         in (fx1 @ [ScpSessionClose], err1))
      in (fx, if sr_ctx_end env \<noteq> None then err_join (sr_ctx_end env) err else err))"

text \<open>Whether the transfer function ran.\<close>

definition scp_started :: "scp_run_env \<Rightarrow> bool" where
  "scp_started env \<longleftrightarrow> \<not> sr_sftp env \<and> sr_ctx env = None \<and> sr_session env = None \<and> sr_stdin env = None \<and> sr_stdout env = None \<and> sr_start env = None"

text \<open>\<open>UploadSCP\<close> and \<open>DownloadSCP\<close>: files, bytes, error and effects.\<close>

definition UploadSCP :: "scp_run_env \<Rightarrow> scp_source_env \<Rightarrow> scp_node \<Rightarrow> string \<Rightarrow> string \<Rightarrow> bool \<Rightarrow> scp_io \<Rightarrow>
    (nat \<times> nat \<times> goerr option) \<times> scp_effect list" where
  "UploadSCP run env node name destination overwrite io =
     (case scpUploadCommand name destination (te_recursive env) overwrite of
        Inl e \<Rightarrow> ((0, 0, Some e), [])
      | Inr command \<Rightarrow>
          (case uploadSCP_transfer env name node io of
             (terr, tx) \<Rightarrow>
               (case runSCP run command terr of
                  (fx, err) \<Rightarrow> (if scp_started run then (tx_files tx, tx_total tx, err) else (0, 0, err), fx))))"

definition DownloadSCP :: "scp_run_env \<Rightarrow> scp_sink_env \<Rightarrow> string \<Rightarrow> scp_io \<Rightarrow> (nat \<times> goerr option) \<times> (scp_entry \<times> string) list \<times> scp_effect list" where
  "DownloadSCP run env source io =
     (case scpDownloadCommand source (re_recursive env) of
        Inl e \<Rightarrow> ((0, Some e), [], [])
      | Inr (expected, command) \<Rightarrow>
          (case receiveSCP (env\<lparr>re_expected := expected\<rparr>) io of
             (terr, rx) \<Rightarrow>
               (case runSCP run command terr of
                  (fx, err) \<Rightarrow> (if scp_started run then ((rx_files rx, err), rx_log rx, fx) else ((0, err), [], fx)))))"

section \<open>Checks by remote commands\<close>

record file_check_env =
  fc_ctx :: "goerr option"
  fc_ctx_end :: "goerr option"
  fc_sftp :: bool
  fc_session :: "goerr option"
  fc_run :: "string \<Rightarrow> goerr option \<times> string list"   \<comment> \<open>the command's error and its writes to stdout\<close>

definition runFileCheck :: "file_check_env \<Rightarrow> string \<Rightarrow> string \<times> goerr option" where
  "runFileCheck env command =
     (let (out, err) =
        (if fc_sftp env then ([], Some (ErrText ''remote file commands require an SCP file connection''))
         else case fc_ctx env of Some e \<Rightarrow> ([], Some e) | None \<Rightarrow>
         case fc_session env of Some e \<Rightarrow> ([], Some e) | None \<Rightarrow>
         case fc_run env command of
           (Some e, writes) \<Rightarrow> ([], Some (ErrWrap e ''remote file check''))
         | (None, writes) \<Rightarrow>
             (case fold check_write writes ([], False) of
                (kept, True) \<Rightarrow> ([], Some (ErrText ''remote file check response exceeds 4096 bytes''))
              | (kept, False) \<Rightarrow> (kept, None)))
      in (out, if fc_ctx_end env \<noteq> None then err_join (fc_ctx_end env) err else err))"

definition RequireSHA256 :: "file_check_env \<Rightarrow> goerr option" where
  "RequireSHA256 env =
     (case snd (runFileCheck env ''command -v sha256sum >/dev/null'') of
        Some e \<Rightarrow> Some (ErrWrap e ''SCP SHA-256 verification requires remote sha256sum'') | None \<Rightarrow> None)"

definition SCPUploadDestination :: "file_check_env \<Rightarrow> string \<Rightarrow> string \<Rightarrow> goerr + string" where
  "SCPUploadDestination env destination name =
     (if \<not> ValidFileName name then Inl (ErrText ''invalid SCP source basename'')
      else case scpPath destination of Inl e \<Rightarrow> Inl e | Inr quoted \<Rightarrow>
      case runFileCheck env (''if test -d '' @ quoted @ ''; then printf d; else printf f; fi'') of
        (out, Some e) \<Rightarrow> Inl e
      | (out, None) \<Rightarrow>
          if out = ''d'' then Inr (trim_right_byte (CHR ''/'') destination @ ''/'' @ name)
          else if out = ''f'' then Inr destination
          else Inl (ErrText ''invalid SCP destination check response''))"

definition SHA256 :: "file_check_env \<Rightarrow> string \<Rightarrow> goerr + string" where
  "SHA256 env remote =
     (case scpPath remote of Inl e \<Rightarrow> Inl e | Inr quoted \<Rightarrow>
      case runFileCheck env (''sha256sum < '' @ quoted) of
        (out, Some e) \<Rightarrow> Inl (ErrWrap e (''remote SHA-256 for '' @ remote))
      | (out, None) \<Rightarrow>
          (case str_fields out of
             [digest, dash] \<Rightarrow>
               if dash \<noteq> ''-'' \<or> int (length digest) \<noteq> 64 then Inl (ErrText ''invalid remote SHA-256 response'')
               else if \<not> list_all is_hex digest then Inl (ErrText ''invalid remote SHA-256 digest'')
               else Inr (to_lower digest)
           | _ \<Rightarrow> Inl (ErrText ''invalid remote SHA-256 response'')))"

section \<open>Properties\<close>

lemma quoted_word: "sh_word Bare (quoteTerminalCommand v) = Some v"
  using sh_word_escaped [of v] by (simp add: quoteTerminalCommand_def)

definition literal_path :: "string \<Rightarrow> string" where
  "literal_path p = (if has_prefix p ''/'' then p else ''./'' @ p)"

lemma scpPath_word:
  assumes "scpPath p = Inr q"
  shows "sh_word Bare q = Some (literal_path p)"
proof -
  have "q = quoteTerminalCommand (literal_path p)"
    using assms unfolding scpPath_def literal_path_def by (cases "p = [] \<or> list_ex path_unsafe p") (simp_all only: if_True if_False sum.inject sum.distinct)
  then show ?thesis by (simp add: quoted_word)
qed

text \<open>The command line of a download, and of an upload with and without its guard.\<close>

lemma scpDownloadCommand_word:
  assumes "scpDownloadCommand source recursive = Inr (expected, command)"
  shows "\<exists>q. command = (if recursive then ''scp -r -f -- '' else ''scp -f -- '') @ q \<and>
    sh_word Bare q = Some (literal_path source) \<and> ValidFileName expected"
  using assms by (auto simp: scpDownloadCommand_def Let_def dest: scpPath_word split: sum.splits if_splits)

lemma diagnostic_bound: "length kept \<le> 4096 \<Longrightarrow> length (diagnostic_write kept d) \<le> 4096"
  by (auto simp: diagnostic_write_def Let_def)

lemma check_writes_spec:
  "length kept \<le> 4096 \<Longrightarrow>
    fold check_write ws (kept, ov) = (take 4096 (kept @ concat ws), ov \<or> length (kept @ concat ws) > 4096)"
proof (induction ws arbitrary: kept ov)
  case (Cons d ws)
  have k: "check_write d (kept, ov) = (take 4096 (kept @ d), ov \<or> length (kept @ d) > 4096)"
    using Cons.prems by (auto simp: check_write_def diagnostic_write_def Let_def nat_diff_distrib)
  have "take 4096 (take 4096 (kept @ d) @ concat ws) = take 4096 (kept @ d @ concat ws)"
    using Cons.prems by (cases "4096 \<le> length (kept @ d)") (simp_all add: min_def)
  then show ?case using k Cons.IH [of "take 4096 (kept @ d)" "ov \<or> length (kept @ d) > 4096"]
    by (cases "length (kept @ d) > 4096") (auto simp: min_def split: if_splits)
qed simp

lemma runFileCheck_ok:
  assumes "runFileCheck env command = (out, None)"
  shows "fc_ctx_end env = None \<and> (\<exists>ws. fc_run env command = (None, ws) \<and> out = concat ws \<and> length (concat ws) \<le> 4096)"
proof -
  have j: "(err_join (Some y) x = None) = False" for x y by (simp add: err_join_def split: option.splits)
  have e: "fc_ctx_end env = None" using assms by (auto simp: runFileCheck_def Let_def j split: prod.splits if_splits)
  obtain r ws where r: "fc_run env command = (r, ws)" by (cases "fc_run env command")
  have f: "fold check_write ws ([], False) = (take 4096 (concat ws), length (concat ws) > 4096)"
    using check_writes_spec [of "[]" ws False] by simp
  show ?thesis
    using assms e unfolding runFileCheck_def r
    by (auto simp: Let_def f split: option.splits if_splits bool.splits)
qed

text \<open>
  A remote SHA-256 answer is accepted only in full: the digest returned is 64
  lower-case hexadecimal digits, the first field of an untruncated answer of at most
  4096 bytes whose other field is the dash of standard input; the command that was run
  names exactly the literal path, never an option; and a cancelled context is never
  reported as success.
\<close>

theorem scp_digest_answer:
  assumes "SHA256 env remote = Inr digest"
  shows "length digest = 64 \<and> list_all is_hex digest \<and> to_lower digest = digest \<and> fc_ctx_end env = None \<and>
    (\<exists>q ws. sh_word Bare q = Some (literal_path remote) \<and>
       fc_run env (''sha256sum < '' @ q) = (None, ws) \<and> length (concat ws) \<le> 4096 \<and>
       (\<exists>d. str_fields (concat ws) = [d, ''-''] \<and> digest = to_lower d))"
proof -
  obtain q where q: "scpPath remote = Inr q" using assms by (auto simp: SHA256_def split: sum.splits)
  obtain out where out: "runFileCheck env (''sha256sum < '' @ q) = (out, None)"
    using assms q by (auto simp: SHA256_def split: prod.splits option.splits)
  obtain d dash where d: "str_fields out = [d, dash]" using assms q out by (auto simp: SHA256_def split: list.splits)
  have f: "dash = ''-''" "length d = 64" "list_all is_hex d" "digest = to_lower d"
    using assms q out d by (auto simp: SHA256_def split: if_splits)
  have "to_lower digest = digest" "list_all is_hex digest" "length digest = 64"
    using f by (simp_all add: to_lower_def lower_lower list_all_iff hex_lower)
  then show ?thesis using runFileCheck_ok [OF out] scpPath_word [OF q] d f by auto
qed

definition demo_check :: file_check_env where
  "demo_check = \<lparr>fc_ctx = None, fc_ctx_end = None, fc_sftp = False, fc_session = None,
     fc_run = (\<lambda>c. (None, [''0123456789ABCDEF0123456789abcdef'', ''0123456789ABCDEF0123456789abcdef  -'' @ [CHR 0x0A]]))\<rparr>"

theorem scp_digest_answer_witness:
  "\<exists>q ws. sh_word Bare q = Some ''./a b'' \<and> fc_run demo_check (''sha256sum < '' @ q) = (None, ws) \<and>
    SHA256 demo_check ''a b'' = Inr ''0123456789abcdef0123456789abcdef0123456789abcdef0123456789abcdef''"
proof -
  have s: "SHA256 demo_check ''a b'' = Inr ''0123456789abcdef0123456789abcdef0123456789abcdef0123456789abcdef''" by code_simp
  have "literal_path ''a b'' = ''./a b''" by code_simp
  with scp_digest_answer [OF s] s show ?thesis by metis
qed

text \<open>
  A legacy SCP command succeeds only when everything did: the transfer, the close,
  the remote exit status and the context; a transfer that failed closes the client,
  whose protocol state is no longer known, one that did not closes its input; and
  once the command was started its exit is awaited before the session is closed.
\<close>

theorem scp_outcome:
  "(snd (runSCP env command terr) = None \<longleftrightarrow>
     scp_started env \<and> sr_ctx_end env = None \<and> terr = None \<and> sr_close env \<in> {None, Some IoEOF} \<and> sr_wait env = None) \<and>
   (scp_started env \<longrightarrow> fst (runSCP env command terr) =
     [ScpStart command, if terr \<noteq> None then ScpCloseClient else ScpInputClose, ScpWait, ScpSessionClose])"
proof -
  have j: "(err_join a b = None) = (a = None \<and> b = None)" for a b by (auto simp: err_join_def split: option.splits)
  have c: "(snd (scp_conclude env terr) = None) = (terr = None \<and> sr_close env \<in> {None, Some IoEOF} \<and> sr_wait env = None)"
    by (auto simp: scp_conclude_def Let_def j)
  have fx: "fst (scp_conclude env terr) = (if terr \<noteq> None then [ScpCloseClient] else [ScpInputClose]) @ [ScpWait]"
    by (simp add: scp_conclude_def Let_def)
  obtain f e where fe: "scp_conclude env terr = (f, e)" by (cases "scp_conclude env terr")
  have A: "snd (runSCP env command terr) = None \<longleftrightarrow>
     scp_started env \<and> sr_ctx_end env = None \<and> terr = None \<and> sr_close env \<in> {None, Some IoEOF} \<and> sr_wait env = None"
  proof (cases "scp_started env")
    case True
    then have "snd (runSCP env command terr) = (if sr_ctx_end env \<noteq> None then err_join (sr_ctx_end env) e else e)"
      by (simp add: runSCP_def scp_started_def fe Let_def)
    then show ?thesis using c True unfolding fe by (cases "sr_ctx_end env") (simp_all add: j)
  next
    case False
    then have "snd (runSCP env command terr) \<noteq> None"
      by (cases "sr_ctx env"; cases "sr_session env"; cases "sr_stdin env"; cases "sr_stdout env"; cases "sr_start env")
        (simp_all add: runSCP_def scp_started_def Let_def j del: not_None_eq)
    then show ?thesis using False by simp
  qed
  have "fst (runSCP env command terr) =
     [ScpStart command, if terr \<noteq> None then ScpCloseClient else ScpInputClose, ScpWait, ScpSessionClose]" if "scp_started env"
    using that fx by (simp add: runSCP_def scp_started_def fe Let_def)
  with A show ?thesis by blast
qed

definition demo_run :: scp_run_env where
  "demo_run = \<lparr>sr_ctx = None, sr_ctx_end = None, sr_sftp = False, sr_session = None, sr_stdin = None, sr_stdout = None,
     sr_start = None, sr_close = Some IoEOF, sr_wait = None, sr_stderr = [''note'']\<rparr>"

theorem scp_outcome_witness:
  "fst (runSCP demo_run ''scp'' None) = [ScpStart ''scp'', ScpInputClose, ScpWait, ScpSessionClose]"
proof -
  have "scp_started demo_run" by (simp add: demo_run_def scp_started_def)
  then show ?thesis using scp_outcome [of demo_run "''scp''" None] by simp
qed

end
