(* ===== verification/File_Commands.thy ===== *)
theory File_Commands
  imports SCP
begin

text \<open>
  The texts of the terminal file transfer (\<open>internal/core/app/file_transfer.go\<close>,
  \<open>file_transfer_shell.go\<close>, \<open>directory_transfer.go\<close>): paths, the shell commands the
  protocol submits, and the fields of its answers. A command is written to an
  echoing terminal and answered by a marker line \<open>@CTERM:token:PHASE:...\<close>; the
  commands build the marker at run time, so that the echo of a command is never
  taken for an answer.
\<close>

section \<open>Paths\<close>

definition ErrFileTransferProtocol :: goerr where "ErrFileTransferProtocol = ErrSentinel ''ErrFileTransferProtocol''"
definition ErrFileTransferSizeMismatch :: goerr where "ErrFileTransferSizeMismatch = ErrSentinel ''ErrFileTransferSizeMismatch''"
definition ErrFileTransferChecksumMismatch :: goerr where
  "ErrFileTransferChecksumMismatch = ErrSentinel ''ErrFileTransferChecksumMismatch''"
definition ErrFileTransferRecoveryUnconfirmed :: goerr where
  "ErrFileTransferRecoveryUnconfirmed = ErrSentinel ''ErrFileTransferRecoveryUnconfirmed''"

lemmas file_transfer_errors =
  ErrFileTransferProtocol_def ErrFileTransferSizeMismatch_def ErrFileTransferChecksumMismatch_def
  ErrFileTransferRecoveryUnconfirmed_def

definition FileTransferChunkSize :: int where "FileTransferChunkSize = 8 * 1024"

definition quoteRemotePath :: "string \<Rightarrow> goerr + string" where
  "quoteRemotePath path =
     (if trim_space path = [] then Inl (ErrText ''remote file path must not be empty'')
      else if list_ex path_unsafe path
      then Inl (ErrText ''remote file path must not contain NUL, carriage return, or newline'')
      else Inr (quoteTerminalCommand path))"

text \<open>\<open>path.Split\<close>, \<open>path.Dir\<close> and \<open>path.Join\<close>.\<close>

definition path_Split :: "string \<Rightarrow> string \<times> string" where
  "path_Split p =
     (let file = rev (takeWhile (\<lambda>c. c \<noteq> CHR ''/'') (rev p)) in (take (length p - length file) p, file))"

definition path_Dir :: "string \<Rightarrow> string" where
  "path_Dir p = path_Clean (fst (path_Split p))"

definition path_Join :: "string list \<Rightarrow> string" where
  "path_Join elems =
     (let es = filter (\<lambda>e. e \<noteq> []) elems in if es = [] then [] else path_Clean (str_join ''/'' es))"

definition splitFilenameExtension :: "string \<Rightarrow> string \<times> string" where
  "splitFilenameExtension filename =
     (if filename = [] \<or> (has_prefix filename ''.'' \<and> \<not> str_contains (drop 1 filename) ''.'') then (filename, [])
      else case str_index filename ''.'' of
        Some i \<Rightarrow> if i > 0 then (take i filename, drop i filename) else (filename, [])
      | None \<Rightarrow> (filename, []))"

definition incrementPOSIXFilename :: "string \<Rightarrow> int \<Rightarrow> string" where
  "incrementPOSIXFilename value sequence =
     (let (directory, filename) = path_Split value;
          (stem, extension) = splitFilenameExtension filename
      in directory @ stem @ ''_'' @ format_int sequence @ extension)"

definition posixDirectoryStagePath :: "string \<Rightarrow> string \<Rightarrow> string" where
  "posixDirectoryStagePath destination token =
     (let (directory, name) = path_Split destination in path_Join [directory, ''.'' @ name @ ''.cterm-part-'' @ token])"

definition posixDirectoryArchivePath :: "string \<Rightarrow> string \<Rightarrow> string" where
  "posixDirectoryArchivePath destination token =
     (let (directory, name) = path_Split destination
      in path_Join [directory, ''.'' @ name @ ''.cterm-archive-'' @ token @ ''.tar''])"

definition posixDirectoryReceiveArchivePath :: "string \<Rightarrow> string" where
  "posixDirectoryReceiveArchivePath token = path_Join [''/tmp'', ''.channelterm-'' @ token @ ''.tar'']"

section \<open>Answers\<close>

definition parseVerifiedFile :: "string list \<Rightarrow> goerr + int \<times> string" where
  "parseVerifiedFile event =
     (case event of
        [f0, f1] \<Rightarrow>
          (case go_Atoi (trim_space f0) of
             None \<Rightarrow> Inl (ErrWrap ErrFileTransferProtocol (''invalid file size '' @ f0))
           | Some n \<Rightarrow>
               if n < 0 then Inl (ErrWrap ErrFileTransferProtocol (''invalid file size '' @ f0))
               else let digest = to_lower (trim_space f1)
                    in if int (length digest) \<noteq> 64 then Inl (ErrWrap ErrFileTransferProtocol (''invalid SHA-256 '' @ f1))
                       else if \<not> list_all is_hex digest then Inl (ErrWrap ErrFileTransferProtocol (''invalid SHA-256 '' @ f1))
                       else Inr (n, digest))
      | _ \<Rightarrow> Inl (ErrWrap ErrFileTransferProtocol ''file metadata''))"

text \<open>
  \<open>strings.EqualFold\<close> against text without the letters k and s: folding changes no
  other rune to or from an ASCII letter.
\<close>

definition equal_fold :: "string \<Rightarrow> string \<Rightarrow> bool" where
  "equal_fold a b \<longleftrightarrow> to_lower a = to_lower b"

definition isFileTransferCommandComplete :: "string \<Rightarrow> bool" where
  "isFileTransferCommandComplete phase \<longleftrightarrow> \<not> equal_fold phase ''READY'' \<and> \<not> equal_fold phase ''DATA''"

section \<open>Commands\<close>

text \<open>\<open>fmt.Sprintf\<close> for the verbs without flags; the arguments are formatted already.\<close>

fun go_sprintf :: "string \<Rightarrow> string list \<Rightarrow> string" where
  "go_sprintf [] args = []"
| "go_sprintf [c] args = (if c = CHR ''%'' then ''%!(NOVERB)'' else [c])"
| "go_sprintf (c # d # s) args =
     (if c \<noteq> CHR ''%'' then c # go_sprintf (d # s) args
      else if d = CHR ''%'' then CHR ''%'' # go_sprintf s args
      else case args of [] \<Rightarrow> ''%!'' @ [d] @ ''(MISSING)'' @ go_sprintf s [] | a # as \<Rightarrow> a @ go_sprintf s as)"

text \<open>The templates are the source's literals; the back quote stands for the backslash.\<close>

definition fileTransferSendDDSetup :: string where
  \<open>fileTransferSendDDSetup =
     ''{ if printf x | dd of=/dev/null bs=1 count=1 iflag=fullblock 2>/dev/null; then ct_dd_fullblock=1; elif '' @
     ''printf x | dd of=/dev/null bs=1 count=1 2>/dev/null; then ct_dd_fullblock=0; else false; fi; }''\<close>

definition sendInitCommand_template :: string where
  \<open>sendInitCommand_template = go_raw (
       ''t='%s'; d=%s; if ! mkdir -p "$d" 2>/dev/null; then printf '`n@CTERM:%%s:ERROR:directory`n' "$t"; elif '' @
       ''command -v stty >/dev/null 2>&1 && command -v dd >/dev/null 2>&1 && command -v wc >/dev/null 2>&1 && '' @
       ''command -v sha256sum >/dev/null 2>&1 && '' @ fileTransferSendDDSetup @
       ''; then if (set -C; : > %s) 2>/dev/null; then printf '`n@CTERM:%%s:INIT:OK`n' "$t"; else '' @
       ''printf '`n@CTERM:%%s:ERROR:exists`n' "$t"; fi; else printf '`n@CTERM:%%s:ERROR:tools`n' "$t"; fi'')\<close>

definition sendInitCommand :: "string \<Rightarrow> string \<Rightarrow> string \<Rightarrow> string" where
  "sendInitCommand token destination directory = go_sprintf sendInitCommand_template [token, directory, destination]"

definition remotePathStatusCommand_template :: string where
  \<open>remotePathStatusCommand_template = go_raw (
       ''t='%s'; if [ -e %s ] || [ -L %s ]; then printf '`n@CTERM:%%s:PICK:EXISTS`n' "$t"; else '' @
       ''printf '`n@CTERM:%%s:PICK:FREE`n' "$t"; fi'')\<close>

definition remotePathStatusCommand :: "string \<Rightarrow> string \<Rightarrow> string" where
  "remotePathStatusCommand token path = go_sprintf remotePathStatusCommand_template [token, path, path]"

definition sendChunkCommand_template :: string where
  \<open>sendChunkCommand_template = go_raw (
       ''t='%s'; n=%d; p=%s; if before=$(wc -c < "$p" 2>/dev/null) && exec 3>> "$p"; then '' @
       ''saved=$(stty -g 2>/dev/null); if [ -n "$saved" ] && stty raw -echo min 0 time 100; then '' @
       ''printf '`n@CTERM:%%s:READY:%%s`n' "$t" "$n"; if [ "$ct_dd_fullblock" = 1 ]; then '' @
       ''dd bs="$n" count=1 iflag=fullblock 2>/dev/null >&3; else dd bs=1 count="$n" 2>/dev/null >&3; fi; status=$?; '' @
       ''exec 3>&-; stty "$saved"; if [ "$status" = 0 ] && after=$(wc -c < "$p" 2>/dev/null) && '' @
       ''[ "$((after-before))" = "$n" ]; then printf '`n@CTERM:%%s:ACK:%%s`n' "$t" "$n"; else '' @
       ''printf '`n@CTERM:%%s:ERROR:write`n' "$t"; fi; else exec 3>&-; printf '`n@CTERM:%%s:ERROR:tty`n' "$t"; fi'' @
       ''; else printf '`n@CTERM:%%s:ERROR:open`n' "$t"; fi'')\<close>

definition sendChunkCommand :: "string \<Rightarrow> string \<Rightarrow> int \<Rightarrow> string" where
  "sendChunkCommand token path n = go_sprintf sendChunkCommand_template [token, format_int n, path]"

definition verifyCommand_template :: string where
  \<open>verifyCommand_template = go_raw (
       ''t='%s'; if size=$(wc -c < %s 2>/dev/null) && digest=$(sha256sum < %s 2>/dev/null); then set -- $digest; '' @
       ''printf '`n@CTERM:%%s:FINAL:%%s:%%s`n' "$t" "$size" "$1"; else printf '`n@CTERM:%%s:ERROR:verify`n' "$t"; fi'')\<close>

definition verifyCommand :: "string \<Rightarrow> string \<Rightarrow> string" where
  "verifyCommand token path = go_sprintf verifyCommand_template [token, path, path]"

definition receiveInitCommand_template :: string where
  \<open>receiveInitCommand_template = go_raw (
       ''t='%s'; if command -v stty >/dev/null 2>&1 && command -v dd >/dev/null 2>&1 && '' @
       ''command -v wc >/dev/null 2>&1 && command -v sha256sum >/dev/null 2>&1; then '' @
       ''if size=$(wc -c < %s 2>/dev/null) && digest=$(sha256sum < %s 2>/dev/null); then set -- $digest; '' @
       ''printf '`n@CTERM:%%s:META:%%s:%%s`n' "$t" "$size" "$1"; else printf '`n@CTERM:%%s:ERROR:read`n' "$t"; fi'' @
       ''; else printf '`n@CTERM:%%s:ERROR:tools`n' "$t"; fi'')\<close>

definition receiveInitCommand :: "string \<Rightarrow> string \<Rightarrow> string" where
  "receiveInitCommand token path = go_sprintf receiveInitCommand_template [token, path, path]"

definition receiveChunkCommand_template :: string where
  \<open>receiveChunkCommand_template = go_raw (
       ''t='%s'; i=%d; n=%d; if exec 3< %s; then saved=$(stty -g 2>/dev/null); if [ -n "$saved" ] && '' @
       ''stty raw -echo; then printf '`n@CTERM:%%s:DATA:%%s`n' "$t" "$n"; '' @
       ''if dd bs=%d skip="$i" count=1 2>/dev/null <&3; then exec 3<&-; stty "$saved"; '' @
       ''printf '`n@CTERM:%%s:ACK:%%s`n' "$t" "$n"; else exec 3<&-; stty "$saved"; '' @
       ''printf '`n@CTERM:%%s:ERROR:read`n' "$t"; fi; else exec 3<&-; printf '`n@CTERM:%%s:ERROR:tty`n' "$t"; fi'' @
       ''; else printf '`n@CTERM:%%s:ERROR:open`n' "$t"; fi'')\<close>

definition receiveChunkCommand :: "string \<Rightarrow> string \<Rightarrow> int \<Rightarrow> int \<Rightarrow> string" where
  "receiveChunkCommand token path blockIndex n = go_sprintf receiveChunkCommand_template [token, format_int blockIndex, format_int n, path, format_int FileTransferChunkSize]"

definition remotePathKindCommand_template :: string where
  \<open>remotePathKindCommand_template = go_raw (
       ''t='%s'; if [ -L %s ]; then k=unsupported; elif [ -f %s ]; then k=file; elif [ -d %s ]; then '' @
       ''k=directory; elif [ -e %s ]; then k=unsupported; else k=missing; fi; '' @
       ''printf '`n@CTERM:%%s:KIND:%%s`n' "$t" "$k"'')\<close>

definition remotePathKindCommand :: "string \<Rightarrow> string \<Rightarrow> string" where
  "remotePathKindCommand token path = go_sprintf remotePathKindCommand_template [token, path, path, path, path]"

definition directorySendInitCommand_template :: string where
  \<open>directorySendInitCommand_template = go_raw (
       ''t='%s'; a=%s; d=%s; if ! mkdir -p "$d" 2>/dev/null; then printf '`n@CTERM:%%s:ERROR:directory`n' "$t"; elif '' @
       ''! command -v tar >/dev/null 2>&1; then printf '`n@CTERM:%%s:ERROR:tar`n' "$t"; elif '' @
       ''command -v stty >/dev/null 2>&1 && command -v dd >/dev/null 2>&1 && command -v wc >/dev/null 2>&1 && '' @
       ''command -v sha256sum >/dev/null 2>&1 && '' @ fileTransferSendDDSetup @
       '' && (set -C; : > "$a") 2>/dev/null; then printf '`n@CTERM:%%s:INIT:OK`n' "$t"; else '' @
       ''printf '`n@CTERM:%%s:ERROR:stage`n' "$t"; fi'')\<close>

definition directorySendInitCommand :: "string \<Rightarrow> string \<Rightarrow> string \<Rightarrow> string" where
  "directorySendInitCommand token archive directory = go_sprintf directorySendInitCommand_template [token, archive, directory]"

definition directorySendFinishCommand_template :: string where
  \<open>directorySendFinishCommand_template = go_raw (
       ''t='%s'; d=%s; s=%s; a=%s; if n=$(wc -c < "$a" 2>/dev/null) && [ "$n" = '%d' ] && '' @
       ''digest=$(sha256sum < "$a" 2>/dev/null); then set -- $digest; if [ "$1" != '%s' ]; then rm -f "$a"; '' @
       ''printf '`n@CTERM:%%s:ERROR:checksum`n' "$t"; elif mkdir "$s" 2>/dev/null && tar -x -f "$a" -C "$s"; then '' @
       ''rm -f "$a"; if [ ! -e "$d" ] && [ ! -L "$d" ] && mv "$s" "$d"; then '' @
       ''printf '`n@CTERM:%%s:FINAL:%%s:%%s`n' "$t" "$n" "$1"; else rm -rf "$s"; '' @
       ''printf '`n@CTERM:%%s:ERROR:commit`n' "$t"; fi; else rm -f "$a"; rm -rf "$s"; '' @
       ''printf '`n@CTERM:%%s:ERROR:extract`n' "$t"; fi; else rm -f "$a"; rm -rf "$s"; '' @
       ''printf '`n@CTERM:%%s:ERROR:extract`n' "$t"; fi'')\<close>

definition directorySendFinishCommand :: "string \<Rightarrow> string \<Rightarrow> string \<Rightarrow> string \<Rightarrow> int \<Rightarrow> string \<Rightarrow> string" where
  "directorySendFinishCommand token destination staging archive n expectedDigest = go_sprintf directorySendFinishCommand_template [token, destination, staging, archive, format_int n, expectedDigest]"

definition directoryReceiveInitCommand_template :: string where
  \<open>directoryReceiveInitCommand_template = go_raw (
       ''t='%s'; a=%s; if ! command -v tar >/dev/null 2>&1; then printf '`n@CTERM:%%s:ERROR:tar`n' "$t"; elif '' @
       ''command -v stty >/dev/null 2>&1 && command -v dd >/dev/null 2>&1 && command -v wc >/dev/null 2>&1 && '' @
       ''command -v sha256sum >/dev/null 2>&1 && tar -c -f "$a" -C %s . 2>/dev/null && '' @
       ''n=$(wc -c < "$a" 2>/dev/null) && digest=$(sha256sum < "$a" 2>/dev/null); then set -- $digest; '' @
       ''printf '`n@CTERM:%%s:META:%%s:%%s`n' "$t" "$n" "$1"; else rm -f "$a"; '' @
       ''printf '`n@CTERM:%%s:ERROR:read`n' "$t"; fi'')\<close>

definition directoryReceiveInitCommand :: "string \<Rightarrow> string \<Rightarrow> string \<Rightarrow> string" where
  "directoryReceiveInitCommand token source archive = go_sprintf directoryReceiveInitCommand_template [token, archive, source]"

definition directoryCleanupCommand_template :: string where
  \<open>directoryCleanupCommand_template = go_raw (
       ''t='%s'; a=%s; s=%s; rm -f "$a"; if [ -n "$s" ]; then rm -rf "$s"; fi; printf '`n@CTERM:%%s:ABORT:OK`n' "$t"'')\<close>

definition directoryCleanupCommand :: "string \<Rightarrow> string \<Rightarrow> string \<Rightarrow> string" where
  "directoryCleanupCommand token archive staging = go_sprintf directoryCleanupCommand_template [token, archive, staging]"

definition directoryReceiveFinishCommand_template :: string where
  \<open>directoryReceiveFinishCommand_template = go_raw (
       ''t='%s'; rm -f %s; printf '`n@CTERM:%%s:FINAL:OK`n' "$t"'')\<close>

definition directoryReceiveFinishCommand :: "string \<Rightarrow> string \<Rightarrow> string" where
  "directoryReceiveFinishCommand token archive = go_sprintf directoryReceiveFinishCommand_template [token, archive]"

section \<open>The shell around the commands\<close>

definition fileTransferShellEchoHiddenMarker :: string where
  "fileTransferShellEchoHiddenMarker = [CHR 0x1E, CHR 0x1F]"

definition fileTransferShellExitedMarker :: string where
  "fileTransferShellExitedMarker = [CHR 0x1D, CHR 0x1C]"

definition fileTransferShellIdleTimeout :: int where "fileTransferShellIdleTimeout = 30"

definition fileTransferShellBootstrapCommand :: "string \<Rightarrow> string" where
  \<open>fileTransferShellBootstrapCommand token =
     bashDeleteTokenHistoryEntry token @ go_raw ''stty -echo;printf '`036`037';CTERM_FT='' @
     quoteSplitTerminalCommandToken token @
     go_raw ('' sh -c 'while read -r x;do eval "$x";done';stty echo;printf '`035`034'' @ [single_quote])\<close>

definition fileTransferShellInitCommand_template :: string where
  \<open>fileTransferShellInitCommand_template = go_raw (
       ''printf '`033[1A`r`033[2K'; t='%s'; if ! command -v sleep >/dev/null 2>&1; then stty echo; '' @
       ''printf '`n@CTERM:%%s:SHELL:ERROR:sleep`n' "$t"; exit 127; fi; ct_pid=$$; ct_watch=; '' @
       ''ct_watchdog(){ trap 'kill "$ct_sleep" 2>/dev/null; wait "$ct_sleep" 2>/dev/null; exit 0' 1 15; '' @
       ''sleep %d & ct_sleep=$!; wait "$ct_sleep"; kill -TERM "$ct_pid" 2>/dev/null; }; '' @
       ''ct_active(){ if [ -n "$ct_watch" ]; then kill "$ct_watch" 2>/dev/null; wait "$ct_watch" 2>/dev/null; '' @
       ''ct_watch=; fi; }; ct_idle(){ ct_watchdog & ct_watch=$!; }; ct_timeout(){ stty echo; '' @
       ''printf '`n@CTERM:%%s:SHELL:TIMEOUT`n' "$t"; exit 124; }; trap 'ct_timeout' 1 15; trap 'ct_active' 0; '' @
       ''printf '`n@CTERM:%%s:SHELL:READY`n' "$t"; ct_idle'')\<close>

definition fileTransferShellInitCommand :: "string \<Rightarrow> string" where
  "fileTransferShellInitCommand token =
     go_sprintf fileTransferShellInitCommand_template [token, format_int fileTransferShellIdleTimeout]"

definition fileTransferShellCloseCommand :: string where
  \<open>fileTransferShellCloseCommand = ''if [ -n "$CTERM_FT" ]; then ct_active; trap - 0 1 15; exit; fi''\<close>

definition fileTransferShellBeat :: string where
  \<open>fileTransferShellBeat = ''if [ -n "$CTERM_FT" ]; then ct_active; ct_idle; fi'' @ [CHR 0x0A]\<close>

text \<open>What \<open>writeCommand\<close> submits.\<close>

definition wrappedCommand :: "string \<Rightarrow> string" where
  \<open>wrappedCommand command = ''if [ -n "$CTERM_FT" ]; then ct_active; '' @ command @ ''; ct_idle; fi''\<close>

section \<open>The echo of a command\<close>

definition ft_prefix :: "string \<Rightarrow> string" where
  "ft_prefix token = ''@CTERM:'' @ token @ '':''"

text \<open>No occurrence of the marker begins in the text, whatever follows it.\<close>

definition quiet :: "string \<Rightarrow> string \<Rightarrow> bool" where
  "quiet m s \<longleftrightarrow> (\<forall>t. \<forall>i < length s. \<not> has_prefix (drop i s @ t) m)"

lemma quiet_Nil [simp]: "quiet m []"
  by (simp add: quiet_def)

lemma quiet_Cons: "quiet m (c # s) \<longleftrightarrow> (\<forall>t. \<not> has_prefix (c # s @ t) m) \<and> quiet m s"
  by (auto simp: quiet_def All_less_Suc2)

lemma quiet_append: "quiet m a \<Longrightarrow> quiet m b \<Longrightarrow> quiet m (a @ b)"
  by (induction a) (auto simp: quiet_Cons)

lemma quiet_not_contains:
  assumes "quiet m s" "m \<noteq> []"
  shows "\<not> str_contains s m"
proof
  assume "str_contains s m"
  then obtain i where i: "str_index s m = Some i" by (auto simp: str_contains_def)
  have "0 < length m" using assms(2) by simp
  then have "i < length s" using str_index_bound [OF i] by linarith
  moreover have "has_prefix (drop i s @ []) m" using str_index_Some [OF i] by simp
  ultimately show False using assms(1) unfolding quiet_def by blast
qed

lemma quiet_head: "c \<noteq> CHR ''@'' \<Longrightarrow> \<not> has_prefix (c # s) (ft_prefix token)"
  by (simp add: ft_prefix_def has_prefix_def)

lemma quiet_plain: "CHR ''@'' \<notin> set s \<Longrightarrow> quiet (ft_prefix token) s"
  by (induction s) (auto simp: quiet_Cons quiet_head)

lemma quiet_percent:
  assumes "token \<noteq> []" "hd token \<noteq> CHR ''%''"
  shows "\<not> has_prefix (''@CTERM:%'' @ s) (ft_prefix token)"
  using assms by (cases token) (auto simp: ft_prefix_def has_prefix_def)

text \<open>A marker without quotes that is not in a path is not in the quoted path.\<close>

definition quote_free :: "string \<Rightarrow> bool" where
  "quote_free m \<longleftrightarrow> single_quote \<notin> set m \<and> CHR 0x22 \<notin> set m"

lemma has_prefix_stop: "c \<notin> set m \<Longrightarrow> has_prefix (a @ c # b) m \<Longrightarrow> has_prefix a m"
proof (induction a arbitrary: m)
  case Nil
  then show ?case by (cases m) (auto simp: has_prefix_def)
next
  case (Cons x a)
  then show ?case by (cases m) (auto simp: has_prefix_def)
qed

lemma has_prefix_quote: "m \<noteq> [] \<Longrightarrow> quote_free m \<Longrightarrow> \<not> has_prefix (single_quote # s) m \<and> \<not> has_prefix (CHR 0x22 # s) m"
  by (cases m) (auto simp: has_prefix_def quote_free_def)

lemma str_contains_Cons: "\<not> str_contains (c # s) m \<Longrightarrow> \<not> str_contains s m \<and> \<not> has_prefix (c # s) m"
  by (auto simp: str_contains_def split: if_splits)

lemma quiet_quoted_body:
  assumes "m \<noteq> []" "quote_free m"
  shows "\<not> str_contains p m \<Longrightarrow>
    quiet m (concat (map (\<lambda>c. if c = single_quote then [single_quote, CHR 0x22, single_quote, CHR 0x22, single_quote] else [c]) p)
      @ [single_quote])"
proof (induction p)
  case Nil
  then show ?case using has_prefix_quote [OF assms] by (simp add: quiet_Cons)
next
  case (Cons c p)
  note p = str_contains_Cons [OF Cons.prems]
  let ?q = "\<lambda>p. concat (map (\<lambda>c. if c = single_quote then [single_quote, CHR 0x22, single_quote, CHR 0x22, single_quote] else [c]) p)"
  note ih = Cons.IH [OF conjunct1 [OF p]]
  show ?case
  proof (cases "c = single_quote")
    case True
    then show ?thesis using ih has_prefix_quote [OF assms] by (simp add: quiet_Cons)
  next
    case False
    have "\<not> has_prefix (c # ?q p @ single_quote # t) m" for t
    proof
      assume a: "has_prefix (c # ?q p @ single_quote # t) m"
      let ?w = "takeWhile (\<lambda>c. c \<noteq> single_quote) p"
      have "\<exists>u. ?q p @ single_quote # t = takeWhile (\<lambda>c. c \<noteq> single_quote) p @ single_quote # u" for p t
        by (induction p) auto
      then obtain u where "?q p @ single_quote # t = ?w @ single_quote # u" by blast
      then have "has_prefix ((c # ?w) @ single_quote # u) m" using a by simp
      then have "has_prefix (c # ?w) m" using assms(2) has_prefix_stop by (metis quote_free_def)
      then have "has_prefix ((c # ?w) @ dropWhile (\<lambda>c. c \<noteq> single_quote) p) m" by (rule has_prefix_append)
      then show False using p by simp
    qed
    then show ?thesis using ih False by (simp add: quiet_Cons)
  qed
qed

lemma quiet_quoted:
  assumes "m \<noteq> []" "quote_free m" "\<not> str_contains p m"
  shows "quiet m (quoteTerminalCommand p)"
  using quiet_quoted_body [OF assms] has_prefix_quote [OF assms(1,2)]
  by (simp add: quoteTerminalCommand_def quiet_Cons)

text \<open>
  A template in which every at sign begins \<open>@CTERM:%%\<close> is quiet when formatted with
  quiet arguments, since the token does not begin with a percent sign.
\<close>

fun safe_template :: "string \<Rightarrow> bool" where
  "safe_template [] = True"
| "safe_template (c # s) = ((c = CHR ''@'' \<longrightarrow> has_prefix s ''CTERM:%%'') \<and> safe_template s)"

lemma sprintf_marker: "go_sprintf (''CTERM:%%'' @ s) args = ''CTERM:%'' @ go_sprintf s args"
  by simp

lemma quiet_sprintf:
  assumes "token \<noteq> []" "hd token \<noteq> CHR ''%''"
  shows "safe_template s \<Longrightarrow> \<forall>a \<in> set args. quiet (ft_prefix token) a \<Longrightarrow> quiet (ft_prefix token) (go_sprintf s args)"
proof (induction s args rule: go_sprintf.induct)
  case (2 c args)
  then show ?case by (auto simp: quiet_plain has_prefix_def)
next
  case (3 c d s args)
  show ?case
  proof (cases "c = CHR ''%''")
    case True
    have "\<not> has_prefix (d # ''(MISSING)'' @ t) (ft_prefix token)" for t by (simp add: ft_prefix_def has_prefix_def)
    then have m: "quiet (ft_prefix token) (''%!'' @ [d] @ ''(MISSING)'')" by (simp add: quiet_Cons quiet_head)
    show ?thesis
    proof (cases "d = CHR ''%''")
      case True
      then show ?thesis using 3 \<open>c = CHR ''%''\<close> by (simp add: quiet_Cons quiet_head)
    next
      case False
      then show ?thesis using 3 \<open>c = CHR ''%''\<close> quiet_append [OF m] by (cases args) (auto intro: quiet_append)
    qed
  next
    case False
    have ih: "quiet (ft_prefix token) (go_sprintf (d # s) args)" using 3 False by simp
    moreover have "\<not> has_prefix (c # go_sprintf (d # s) args @ t) (ft_prefix token)" for t
    proof (cases "c = CHR ''@''")
      case True
      then obtain u where u: "d # s = ''CTERM:%%'' @ u" using 3 by (auto simp: has_prefix_iff)
      show ?thesis using quiet_percent [OF assms, of "go_sprintf u args @ t"] True unfolding u sprintf_marker by simp
    qed (simp add: quiet_head)
    ultimately show ?thesis using False by (simp add: quiet_Cons)
  qed
qed simp


lemma sprintf_line:
  "CHR 0x0A \<notin> set s \<Longrightarrow> \<forall>a \<in> set args. CHR 0x0A \<notin> set a \<Longrightarrow> CHR 0x0A \<notin> set (go_sprintf s args)"
proof (induction s args rule: go_sprintf.induct)
  case (3 e d s args)
  then show ?case by (cases args) auto
qed auto

section \<open>The commands of the protocol\<close>

text \<open>
  Every command the protocol submits for a token, with the quoted paths it names
  and the sizes in it.
\<close>

inductive protocol_command :: "string \<Rightarrow> string list \<Rightarrow> string \<Rightarrow> bool" for token where
  "protocol_command token [d, p] (sendInitCommand token p d)"
| "protocol_command token [p] (remotePathStatusCommand token p)"
| "protocol_command token [p] (sendChunkCommand token p n)"
| "protocol_command token [p] (verifyCommand token p)"
| "protocol_command token [p] (receiveInitCommand token p)"
| "protocol_command token [p] (receiveChunkCommand token p i n)"
| "protocol_command token [p] (remotePathKindCommand token p)"
| "protocol_command token [a, d] (directorySendInitCommand token a d)"
| "list_all is_hex digest \<Longrightarrow> protocol_command token [d, s, a] (directorySendFinishCommand token d s a n digest)"
| "protocol_command token [p, a] (directoryReceiveInitCommand token p a)"
| "protocol_command token [a, s] (directoryCleanupCommand token a s)"
| "protocol_command token [a] (directoryReceiveFinishCommand token a)"

lemma safe_template_append: "safe_template a \<Longrightarrow> safe_template b \<Longrightarrow> safe_template (a @ b)"
  by (induction a) (auto intro: has_prefix_append)

text \<open>A template that is quiet and one line.\<close>

definition line_template :: "string \<Rightarrow> bool" where
  "line_template s \<longleftrightarrow> safe_template s \<and> CHR 0x0A \<notin> set s"

lemma line_append: "line_template (go_raw a) \<Longrightarrow> line_template (go_raw b) \<Longrightarrow> line_template (go_raw (a @ b))"
  by (simp add: line_template_def go_raw_def safe_template_append)

named_theorems echo_templates

lemma sendInitCommand_echo [echo_templates]: "line_template sendInitCommand_template"
  unfolding sendInitCommand_template_def fileTransferSendDDSetup_def
  by ((intro line_append)?; simp add: line_template_def go_raw_def has_prefix_def)

lemma remotePathStatusCommand_echo [echo_templates]: "line_template remotePathStatusCommand_template"
  unfolding remotePathStatusCommand_template_def
  by ((intro line_append)?; simp add: line_template_def go_raw_def has_prefix_def)

lemma sendChunkCommand_echo [echo_templates]: "line_template sendChunkCommand_template"
  unfolding sendChunkCommand_template_def
  by ((intro line_append)?; simp add: line_template_def go_raw_def has_prefix_def)

lemma verifyCommand_echo [echo_templates]: "line_template verifyCommand_template"
  unfolding verifyCommand_template_def
  by ((intro line_append)?; simp add: line_template_def go_raw_def has_prefix_def)

lemma receiveInitCommand_echo [echo_templates]: "line_template receiveInitCommand_template"
  unfolding receiveInitCommand_template_def
  by ((intro line_append)?; simp add: line_template_def go_raw_def has_prefix_def)

lemma receiveChunkCommand_echo [echo_templates]: "line_template receiveChunkCommand_template"
  unfolding receiveChunkCommand_template_def
  by ((intro line_append)?; simp add: line_template_def go_raw_def has_prefix_def)

lemma remotePathKindCommand_echo [echo_templates]: "line_template remotePathKindCommand_template"
  unfolding remotePathKindCommand_template_def
  by ((intro line_append)?; simp add: line_template_def go_raw_def has_prefix_def)

lemma directorySendInitCommand_echo [echo_templates]: "line_template directorySendInitCommand_template"
  unfolding directorySendInitCommand_template_def fileTransferSendDDSetup_def
  by ((intro line_append)?; simp add: line_template_def go_raw_def has_prefix_def)

lemma directorySendFinishCommand_echo [echo_templates]: "line_template directorySendFinishCommand_template"
  unfolding directorySendFinishCommand_template_def
  by ((intro line_append)?; simp add: line_template_def go_raw_def has_prefix_def)

lemma directoryReceiveInitCommand_echo [echo_templates]: "line_template directoryReceiveInitCommand_template"
  unfolding directoryReceiveInitCommand_template_def
  by ((intro line_append)?; simp add: line_template_def go_raw_def has_prefix_def)

lemma directoryCleanupCommand_echo [echo_templates]: "line_template directoryCleanupCommand_template"
  unfolding directoryCleanupCommand_template_def
  by ((intro line_append)?; simp add: line_template_def go_raw_def has_prefix_def)

lemma directoryReceiveFinishCommand_echo [echo_templates]: "line_template directoryReceiveFinishCommand_template"
  unfolding directoryReceiveFinishCommand_template_def
  by ((intro line_append)?; simp add: line_template_def go_raw_def has_prefix_def)

lemmas protocol_command_defs =
  sendInitCommand_def remotePathStatusCommand_def sendChunkCommand_def
  verifyCommand_def receiveInitCommand_def receiveChunkCommand_def
  remotePathKindCommand_def directorySendInitCommand_def directorySendFinishCommand_def
  directoryReceiveInitCommand_def directoryCleanupCommand_def directoryReceiveFinishCommand_def

text \<open>An argument without newline in which the marker does not begin.\<close>

definition echo_argument :: "string \<Rightarrow> string \<Rightarrow> bool" where
  "echo_argument token a \<longleftrightarrow> quiet (ft_prefix token) a \<and> CHR 0x0A \<notin> set a"

lemma plain_argument: "CHR ''@'' \<notin> set a \<Longrightarrow> CHR 0x0A \<notin> set a \<Longrightarrow> echo_argument token a"
  by (simp add: echo_argument_def quiet_plain)

lemma number_argument: "echo_argument token (format_int n)"
proof (rule plain_argument)
  have "c \<noteq> CHR ''@'' \<and> c \<noteq> CHR 0x0A \<and> c \<noteq> CHR ''-''" if "is_digit c" for c
    using that by (auto simp: is_digit_def)
  then show "CHR ''@'' \<notin> set (format_int n)" "CHR 0x0A \<notin> set (format_int n)"
    using format_nat_digits unfolding format_int_def by (auto split: if_splits)
qed

lemma sprintf_argument:
  assumes "token \<noteq> []" "hd token \<noteq> CHR ''%''" "line_template s" "\<forall>a \<in> set args. echo_argument token a"
  shows "echo_argument token (go_sprintf s args)"
  using quiet_sprintf [OF assms(1,2), of s args] sprintf_line [of s args] assms(3,4) by (simp add: echo_argument_def line_template_def)

lemma hex_plain: "is_hex c \<Longrightarrow> c \<noteq> CHR ''@'' \<and> c \<noteq> CHR 0x0A \<and> c \<noteq> CHR ''%'' \<and> c \<noteq> single_quote \<and> c \<noteq> CHR 0x22"
  by (auto simp: is_hex_def is_digit_def lower_byte_def single_quote_def)

lemma command_argument:
  assumes "protocol_command token qs c" "token \<noteq> []" "list_all is_hex token" "\<forall>q \<in> set qs. echo_argument token q"
  shows "echo_argument token c"
proof -
  have t: "hd token \<noteq> CHR ''%''" "echo_argument token token"
    using assms(2,3) hex_plain by (auto simp: list_all_iff intro!: plain_argument)
  note s = sprintf_argument [OF assms(2) t(1)] echo_templates number_argument t(2)
  have digest: "list_all is_hex d \<Longrightarrow> echo_argument token d" for d
    using hex_plain by (auto simp: list_all_iff intro!: plain_argument)
  show ?thesis using assms(1,4)
    by (cases rule: protocol_command.cases) (auto simp: protocol_command_defs intro!: s intro: digest)
qed

lemma fileTransferShellInitCommand_echo [echo_templates]: "line_template fileTransferShellInitCommand_template"
  unfolding fileTransferShellInitCommand_template_def
  by ((intro line_append)?; simp add: line_template_def go_raw_def has_prefix_def)

text \<open>A path as a command names it: quoted, or the empty staging path of a clean-up.\<close>

definition named_path :: "string \<Rightarrow> string \<Rightarrow> bool" where
  "named_path token q \<longleftrightarrow>
     q = [single_quote, single_quote] \<or> (\<exists>p. quoteRemotePath p = Inr q \<and> \<not> str_contains p (ft_prefix token))"

lemma quote_line: "CHR 0x0A \<notin> set p \<Longrightarrow> CHR 0x0A \<notin> set (quoteTerminalCommand p)"
  using quote_bytes [of "CHR 0x0A" p] by (auto simp: single_quote_def)

lemma named_argument:
  assumes "named_path token q" "list_all is_hex token"
  shows "echo_argument token q"
proof (cases "q = [single_quote, single_quote]")
  case True
  then show ?thesis by (simp add: plain_argument single_quote_def)
next
  case False
  then obtain p where p: "quoteRemotePath p = Inr q" "\<not> str_contains p (ft_prefix token)"
    using assms(1) by (auto simp: named_path_def)
  have q: "q = quoteTerminalCommand p" "CHR 0x0A \<notin> set p"
    using p(1) by (auto simp: quoteRemotePath_def list_ex_iff path_unsafe_def split: if_splits)
  have "quote_free (ft_prefix token)"
    using assms(2) hex_plain by (auto simp: quote_free_def ft_prefix_def list_all_iff single_quote_def)
  then show ?thesis
    using quiet_quoted [of "ft_prefix token" p] p(2) q quote_line by (simp add: echo_argument_def ft_prefix_def)
qed

lemma append_argument: "echo_argument token a \<Longrightarrow> echo_argument token b \<Longrightarrow> echo_argument token (a @ b)"
  by (simp add: echo_argument_def quiet_append)

lemma wrapped_argument: "echo_argument token c \<Longrightarrow> echo_argument token (wrappedCommand c)"
  unfolding wrappedCommand_def by (intro append_argument) (auto intro: plain_argument)

text \<open>
  C27 The echo of a protocol command is never taken for an answer. For every command
  of the protocol, with any quoted paths that do not contain the transfer's own
  marker prefix, the line written to the terminal is a single line and does not
  contain that prefix, whatever bytes the paths hold otherwise; the same holds for
  the line that initialises the shell.
\<close>

theorem file_command_echo_harmless:
  assumes "protocol_command token qs c" "token \<noteq> []" "list_all is_hex token" "\<forall>q \<in> set qs. named_path token q"
  shows "\<not> str_contains (wrappedCommand c) (ft_prefix token) \<and> CHR 0x0A \<notin> set (wrappedCommand c) \<and>
    \<not> str_contains (fileTransferShellInitCommand token) (ft_prefix token) \<and>
    CHR 0x0A \<notin> set (fileTransferShellInitCommand token)"
proof -
  have "echo_argument token (wrappedCommand c)"
    using command_argument [OF assms(1-3)] named_argument assms(3,4) wrapped_argument by blast
  moreover have "hd token \<noteq> CHR ''%''" "echo_argument token token"
    using assms(2,3) hex_plain by (auto simp: list_all_iff intro!: plain_argument)
  then have "echo_argument token (fileTransferShellInitCommand token)" unfolding fileTransferShellInitCommand_def
    by (intro sprintf_argument assms echo_templates) (auto intro: number_argument)
  moreover have "ft_prefix token \<noteq> []" by (simp add: ft_prefix_def)
  ultimately show ?thesis using quiet_not_contains by (simp add: echo_argument_def)
qed

theorem file_command_echo_harmless_witness:
  "\<not> str_contains (wrappedCommand (verifyCommand ''0a1f'' (quoteTerminalCommand ''/tmp/@CTERM:x y''))) (ft_prefix ''0a1f'')"
proof -
  have "named_path ''0a1f'' (quoteTerminalCommand ''/tmp/@CTERM:x y'')"
  proof -
    have "quoteRemotePath ''/tmp/@CTERM:x y'' = Inr (quoteTerminalCommand ''/tmp/@CTERM:x y'')" by code_simp
    moreover have "\<not> str_contains ''/tmp/@CTERM:x y'' (ft_prefix ''0a1f'')" by code_simp
    ultimately show ?thesis unfolding named_path_def by blast
  qed
  moreover have "list_all is_hex ''0a1f''" by code_simp
  moreover have "protocol_command ''0a1f'' [quoteTerminalCommand ''/tmp/@CTERM:x y''] (verifyCommand ''0a1f'' (quoteTerminalCommand ''/tmp/@CTERM:x y''))"
    by (rule protocol_command.intros)
  ultimately show ?thesis using file_command_echo_harmless [of "''0a1f''"] by simp
qed

section \<open>Free names\<close>

text \<open>The names tried for a path that exists are pairwise distinct, and none is the path itself.\<close>

lemma path_Split_append: "path_Split p = (d, f) \<Longrightarrow> p = d @ f"
proof -
  assume s: "path_Split p = (d, f)"
  define w where "w = takeWhile (\<lambda>c. c \<noteq> CHR ''/'') (rev p)"
  obtain u where "rev p = w @ u" unfolding w_def by (metis takeWhile_dropWhile_id)
  then have "p = rev u @ rev w" by (metis rev_append rev_rev_ident)
  moreover have "f = rev w" "d = take (length p - length w) p" using s by (auto simp: path_Split_def Let_def w_def)
  ultimately show ?thesis by simp
qed

lemma increment_shape: "\<exists>a b. value = a @ b \<and> (\<forall>n. incrementPOSIXFilename value n = a @ ''_'' @ format_int n @ b)"
proof -
  obtain d f where d: "path_Split value = (d, f)" by (cases "path_Split value")
  have "value = d @ f" by (rule path_Split_append [OF d])
  moreover obtain s x where s: "splitFilenameExtension f = (s, x)" by (cases "splitFilenameExtension f")
  moreover have "f = s @ x" using s by (auto simp: splitFilenameExtension_def split: if_splits option.splits)
  ultimately show ?thesis using d by (intro exI [of _ "d @ s"] exI [of _ x]) (simp add: incrementPOSIXFilename_def)
qed

lemma format_int_inj: "0 \<le> m \<Longrightarrow> 0 \<le> n \<Longrightarrow> format_int m = format_int n \<longleftrightarrow> m = n"
  by (auto simp: format_int_def format_nat_inj)

lemma increment_distinct:
  "0 \<le> m \<Longrightarrow> 0 \<le> n \<Longrightarrow> incrementPOSIXFilename value m = incrementPOSIXFilename value n \<longleftrightarrow> m = n"
  using increment_shape [of "value"] format_int_inj by fastforce

lemma increment_new: "incrementPOSIXFilename value n \<noteq> value"
proof -
  obtain a b where "value = a @ b" "incrementPOSIXFilename value n = a @ ''_'' @ format_int n @ b" using increment_shape by blast
  then have "length (incrementPOSIXFilename value n) > length value" by simp
  then show ?thesis by auto
qed

end
