(* ===== verification/File_Session.thy ===== *)
theory File_Session
  imports File_Commands
begin

text \<open>
  The terminal file-transfer protocol and the shell it runs in
  (\<open>internal/core/app/file_transfer.go\<close>, \<open>file_transfer_shell.go\<close>).

  A run is a function of the state and answers \<open>None\<close> while it still waits for
  output when the script of \<open>ReadOutput\<close> answers ends. Every answer of the outside is a
  parameter, indexed by the operations performed before (\<open>ft_clock\<close>). The keep-alive
  goroutine may write whenever it can take \<open>writeMu\<close>: \<open>fe_beats\<close> says how often its
  ticker fires before the next operation that takes the lock or waits.
\<close>

section \<open>State\<close>

text \<open>Who wrote: the shell around the commands, a command, a raw block, the keep-alive.\<close>

datatype ft_origin = FromShell | FromCommand | FromPayload | FromBeat

datatype ft_event =
    FtWrote ft_origin string      \<comment> \<open>the bytes the Session took\<close>
  | FtMarker "string list"        \<comment> \<open>an answer line, by its fields\<close>
  | FtRaw string                  \<comment> \<open>bytes of a raw block\<close>
  | FtUnconfirmed                 \<comment> \<open>a recovery failed\<close>
  | FtAbort                       \<comment> \<open>the request to close the Session\<close>
  | FtProgress int int

text \<open>\<open>ctx.Err()\<close> at a time.\<close>

type_synonym go_context = "nat \<Rightarrow> goerr option"

record ft_env =
  fe_recent :: "nat \<Rightarrow> goerr + nat"             \<comment> \<open>\<open>ReadRecent\<close>: the cursor behind the output\<close>
  fe_write :: write_answers
  fe_contextual :: bool                           \<comment> \<open>the terminal has a \<open>WriteContext\<close>\<close>
  fe_checkpoint :: "go_context option"            \<comment> \<open>its \<open>FileTransferCancellationCheckpoint\<close>\<close>
  fe_requested :: "(nat \<Rightarrow> bool) option"    \<comment> \<open>its \<open>FileTransferCancelRequested\<close>\<close>
  fe_abort :: "(nat \<Rightarrow> goerr option) option" \<comment> \<open>its \<open>AbortFileTransferRecovery\<close>\<close>
  fe_random :: "nat \<Rightarrow> goerr + string"      \<comment> \<open>twelve random bytes in hexadecimal\<close>
  fe_start :: go_context                          \<comment> \<open>the context of the start of the shell\<close>
  fe_recovery :: go_context                       \<comment> \<open>\<open>fileTransferRecoveryContext\<close>\<close>
  fe_beats :: "nat \<Rightarrow> nat"
  fe_beat_ctx :: go_context
  fe_beat_done :: "goerr option"                  \<comment> \<open>the context of \<open>close\<close> ends before the keep-alive\<close>
  fe_sha256 :: "string \<Rightarrow> string"           \<comment> \<open>the lower-case hexadecimal digest\<close>
  fe_progress :: "(nat \<Rightarrow> int \<Rightarrow> int \<Rightarrow> goerr option) option"
  fe_dest :: write_answers                        \<comment> \<open>the local destination\<close>
  fe_source_end :: goerr                          \<comment> \<open>the error behind the bytes of the local source\<close>

record ft =
  ft_clock :: nat
  ft_reads :: read_script
  ft_cursor :: nat          \<comment> \<open>of the current reader\<close>
  ft_pending :: string      \<comment> \<open>its bytes behind the last answer\<close>
  ft_source :: string       \<comment> \<open>what is left of the local source\<close>
  ft_dest :: string         \<comment> \<open>what the local destination took\<close>
  sh_idle :: bool
  sh_started :: bool
  sh_closed :: bool
  sh_beat_on :: bool
  sh_beat_err :: "goerr option"
  sh_recovery :: "goerr option"
  ft_trace :: "ft_event list"

type_synonym 'a ft_run = "ft \<Rightarrow> ((goerr + 'a) \<times> ft) option"

definition ft_ret :: "'a \<Rightarrow> 'a ft_run" where "ft_ret a st = Some (Inr a, st)"
definition ft_fail :: "goerr \<Rightarrow> 'a ft_run" where "ft_fail e st = Some (Inl e, st)"

definition ft_bind :: "'a ft_run \<Rightarrow> ('a \<Rightarrow> 'b ft_run) \<Rightarrow> 'b ft_run" where
  "ft_bind m f st =
     (case m st of None \<Rightarrow> None | Some (Inl e, st') \<Rightarrow> Some (Inl e, st') | Some (Inr a, st') \<Rightarrow> f a st')"

text \<open>\<open>if err != nil { ... }\<close>: what is returned after an error, cleaning up first.\<close>

definition ft_handle :: "'a ft_run \<Rightarrow> (goerr \<Rightarrow> 'a ft_run) \<Rightarrow> 'a ft_run" where
  "ft_handle m h st =
     (case m st of None \<Rightarrow> None | Some (Inl e, st') \<Rightarrow> h e st' | Some (Inr a, st') \<Rightarrow> Some (Inr a, st'))"

definition ft_check :: "goerr option \<Rightarrow> unit ft_run" where
  "ft_check r = (case r of None \<Rightarrow> ft_ret () | Some e \<Rightarrow> ft_fail e)"

definition ft_emit :: "ft_event \<Rightarrow> ft \<Rightarrow> ft" where
  "ft_emit e st = st\<lparr>ft_trace := ft_trace st @ [e], ft_clock := Suc (ft_clock st)\<rparr>"

section \<open>Writing\<close>

definition base_write :: "ft_env \<Rightarrow> ft_origin \<Rightarrow> string \<Rightarrow> ft \<Rightarrow> (nat \<times> goerr option) \<times> ft" where
  "base_write env origin d st =
     (fe_write env (ft_clock st) d, ft_emit (FtWrote origin (take (fst (fe_write env (ft_clock st) d)) d)) st)"

function writeFilePayload :: "go_context \<Rightarrow> (string \<Rightarrow> ft \<Rightarrow> (nat \<times> goerr option) \<times> ft) \<Rightarrow>
    string \<Rightarrow> ft \<Rightarrow> (nat \<times> goerr option) \<times> ft" where
  "writeFilePayload ctx wr d st =
     (if d = [] then ((0, None), st)
      else case ctx (ft_clock st) of Some e \<Rightarrow> ((0, Some e), st)
      | None \<Rightarrow>
          (case wr d st of
             ((c, Some e), st1) \<Rightarrow> ((min c (length d), Some e), st1)
           | ((c, None), st1) \<Rightarrow>
               if c = 0 then ((0, Some IoErrShortWrite), st1)
               else let (res, st2) = writeFilePayload ctx wr (drop c d) st1
                    in ((min c (length d) + fst res, snd res), st2)))"
  by pat_completeness auto
termination by (relation "measure (\<lambda>(ctx, wr, d, st). length d)") auto

declare writeFilePayload.simps [simp del]

text \<open>\<open>heartbeat\<close>, with \<open>writeMu\<close> held throughout.\<close>

definition heartbeat :: "ft_env \<Rightarrow> ft \<Rightarrow> ft" where
  "heartbeat env st =
     (if \<not> sh_idle st \<or> sh_closed st \<or> sh_beat_err st \<noteq> None \<or> sh_recovery st \<noteq> None then st
      else case writeFilePayload (fe_beat_ctx env) (base_write env FromBeat) fileTransferShellBeat st of
        ((n, None), st1) \<Rightarrow> st1
      | ((n, Some e), st1) \<Rightarrow>
          st1\<lparr>sh_beat_err := Some (ErrWrap e ''keep remote file-transfer shell alive''), sh_idle := False\<rparr>)"

primrec heartbeats :: "ft_env \<Rightarrow> nat \<Rightarrow> ft \<Rightarrow> ft" where
  "heartbeats env 0 st = st"
| "heartbeats env (Suc n) st = heartbeats env n (heartbeat env st)"

text \<open>The ticks of \<open>heartbeatLoop\<close> before the caller's next turn.\<close>

definition beat_turn :: "ft_env \<Rightarrow> ft \<Rightarrow> ft" where
  "beat_turn env st = (if sh_beat_on st then heartbeats env (fe_beats env (ft_clock st)) st else st)"

text \<open>Why the shell refuses to write.\<close>

definition shell_refuses :: "ft \<Rightarrow> goerr option" where
  "shell_refuses st =
     (case sh_recovery st of Some e \<Rightarrow> Some e | None \<Rightarrow>
      if sh_closed st then Some (ErrText ''remote file-transfer shell is closed'') else sh_beat_err st)"

definition shell_WriteContext :: "ft_env \<Rightarrow> go_context \<Rightarrow> string \<Rightarrow> ft \<Rightarrow> (nat \<times> goerr option) \<times> ft" where
  "shell_WriteContext env ctx d st =
     (let st1 = beat_turn env st
      in case shell_refuses st1 of Some e \<Rightarrow> ((0, Some e), st1)
      | None \<Rightarrow>
          if fe_contextual env then base_write env FromPayload d st1
          else case ctx (ft_clock st1) of Some e \<Rightarrow> ((0, Some e), st1) | None \<Rightarrow> base_write env FromPayload d st1)"

definition writeCommand :: "ft_env \<Rightarrow> go_context \<Rightarrow> string \<Rightarrow> unit ft_run" where
  "writeCommand env ctx command st =
     (let st1 = beat_turn env st
      in case shell_refuses st1 of Some e \<Rightarrow> Some (Inl e, st1)
      | None \<Rightarrow>
          (case writeFilePayload ctx (base_write env FromCommand) (wrappedCommand command @ [CHR 0x0A]) (st1\<lparr>sh_idle := False\<rparr>) of
             ((n, Some e), st2) \<Rightarrow> Some (Inl (ErrWrap e ''write remote file-transfer command''), st2)
           | ((n, None), st2) \<Rightarrow> Some (Inr (), st2)))"

definition commandCompleted :: "ft \<Rightarrow> ft" where
  "commandCompleted st = (if \<not> sh_closed st \<and> sh_beat_err st = None then st\<lparr>sh_idle := True\<rparr> else st)"

section \<open>Failed recovery\<close>

definition fileTransferRemoteError :: "string \<Rightarrow> goerr" where
  "fileTransferRemoteError reason = ErrWrap (ErrSentinel ''*fileTransferRemoteError'') reason"

definition after_block_error :: "goerr \<Rightarrow> bool" where
  "after_block_error e \<longleftrightarrow> e = fileTransferRemoteError ''read'' \<or> e = fileTransferRemoteError ''write''"

text \<open>\<open>recoveryError\<close> of a protocol whose terminal is not the shell.\<close>

definition base_recoveryError :: "ft_env \<Rightarrow> goerr \<Rightarrow> ft \<Rightarrow> goerr \<times> ft" where
  "base_recoveryError env e st =
     (if after_block_error e then (e, st)
      else let e1 = ErrJoin ErrFileTransferRecoveryUnconfirmed e
           in case fe_abort env of None \<Rightarrow> (e1, st)
           | Some abort \<Rightarrow>
               (case abort (ft_clock st) of
                  Some a \<Rightarrow> (ErrJoin e1 (ErrWrap a ''close Session after unconfirmed file-transfer recovery''), ft_emit FtAbort st)
                | None \<Rightarrow> (e1, ft_emit FtAbort st)))"

definition shell_recoveryError :: "ft_env \<Rightarrow> goerr \<Rightarrow> ft \<Rightarrow> goerr \<times> ft" where
  "shell_recoveryError env e st =
     (case sh_recovery st of
        Some previous \<Rightarrow> (ErrJoin previous e, st)
      | None \<Rightarrow>
          let (result, st1) = base_recoveryError env e
                (ft_emit FtUnconfirmed (st\<lparr>sh_recovery := Some (ErrJoin ErrFileTransferRecoveryUnconfirmed e)\<rparr>))
          in (result, st1\<lparr>sh_recovery := Some result\<rparr>))"

definition recoveryError :: "ft_env \<Rightarrow> goerr \<Rightarrow> ft \<Rightarrow> goerr \<times> ft" where
  "recoveryError env e st = (if after_block_error e then (e, st) else shell_recoveryError env e st)"

text \<open>\<open>return p.recoveryError(err)\<close>.\<close>

definition ft_recovered :: "ft_env \<Rightarrow> 'a ft_run \<Rightarrow> 'a ft_run" where
  "ft_recovered env m = ft_handle m (\<lambda>e st. let (e', st') = recoveryError env e st in Some (Inl e', st'))"

section \<open>Reading answers\<close>

definition trim_cr :: "string \<Rightarrow> string" where
  "trim_cr line = (if has_suffix line [CHR 0x0D] then butlast line else line)"

text \<open>
  What the pending bytes hold: the fields of an answer line and what follows it, or
  what is kept while more is awaited.
\<close>

definition take_answer :: "string \<Rightarrow> string \<Rightarrow> string + string list \<times> string" where
  "take_answer token p =
     (case str_index p (ft_prefix token) of
        Some start \<Rightarrow>
          (case str_index (drop start p) [CHR 0x0A] of
             Some e \<Rightarrow>
               Inr (split_byte (CHR '':'') (drop (length (ft_prefix token)) (trim_cr (take e (drop start p)))),
                    drop (Suc (start + e)) p)
           | None \<Rightarrow> Inl (drop start p))
      | None \<Rightarrow> Inl (window (length (ft_prefix token) - 1) p))"

definition answer_of :: "string \<Rightarrow> string list \<Rightarrow> goerr + string list" where
  "answer_of phase event =
     (if hd event = ''ERROR'' then Inl (fileTransferRemoteError (str_join '':'' (tl event)))
      else if hd event \<noteq> phase
      then Inl (ErrWrap ErrFileTransferProtocol (''received '' @ hd event @ '' while waiting for '' @ phase))
      else Inr (tl event))"

definition answer_seen :: "bool \<Rightarrow> string list \<Rightarrow> ft \<Rightarrow> ft" where
  "answer_seen in_shell event st =
     (let st1 = ft_emit (FtMarker event) st
      in if in_shell \<and> isFileTransferCommandComplete (hd event) then commandCompleted st1 else st1)"

definition ErrOverwrittenTransfer :: goerr where
  "ErrOverwrittenTransfer = ErrWrap ErrFileTransferProtocol ''Session output was overwritten during transfer''"

text \<open>\<open>expectPhase\<close>; \<open>in_shell\<close> says that the terminal of the protocol is the shell.\<close>

fun expect_loop :: "ft_env \<Rightarrow> bool \<Rightarrow> string \<Rightarrow> string \<Rightarrow> read_script \<Rightarrow> ft \<Rightarrow> ((goerr + string list) \<times> ft) option" where
  "expect_loop env in_shell token phase rs st =
     (case take_answer token (ft_pending st) of
        Inr (event, rest) \<Rightarrow>
          Some (answer_of phase event, answer_seen in_shell event (st\<lparr>ft_pending := rest, ft_reads := rs\<rparr>))
      | Inl kept \<Rightarrow>
          (case rs of
             [] \<Rightarrow> None
           | r # rs' \<Rightarrow>
               let st1 = beat_turn env st
               in case r of
                    Inl e \<Rightarrow> Some (Inl e, st1\<lparr>ft_pending := kept, ft_reads := rs'\<rparr>)
                  | Inr chunk \<Rightarrow>
                      if oc_dropped chunk then Some (Inl ErrOverwrittenTransfer, st1\<lparr>ft_pending := kept, ft_reads := rs'\<rparr>)
                      else expect_loop env in_shell token phase rs'
                             (st1\<lparr>ft_cursor := oc_next chunk, ft_pending := kept @ oc_data chunk\<rparr>)))"

declare expect_loop.simps [simp del]

definition expectPhase :: "ft_env \<Rightarrow> string \<Rightarrow> string \<Rightarrow> string list ft_run" where
  "expectPhase env token phase st = expect_loop env True token phase (ft_reads st) st"

definition expect :: "ft_env \<Rightarrow> string \<Rightarrow> string \<Rightarrow> string list \<Rightarrow> unit ft_run" where
  "expect env token phase arguments =
     ft_bind (expectPhase env token phase) (\<lambda>event.
       if length event \<noteq> length arguments then ft_fail (ErrWrap ErrFileTransferProtocol (phase @ '' arguments''))
       else if event \<noteq> arguments then ft_fail (ErrWrap ErrFileTransferProtocol (phase @ '' argument''))
       else ft_ret ())"

section \<open>Reading a raw block\<close>

text \<open>\<open>readExact\<close>: the bytes read into the destination, and the error.\<close>

fun exact_loop :: "ft_env \<Rightarrow> int \<Rightarrow> string \<Rightarrow> read_script \<Rightarrow> ft \<Rightarrow> ((string \<times> goerr option) \<times> ft) option" where
  "exact_loop env n acc rs st =
     (let got = take (nat n) (ft_pending st);
          st0 = st\<lparr>ft_pending := drop (length got) (ft_pending st)\<rparr>
      in if int (length got) \<ge> n then Some ((acc @ got, None), ft_emit (FtRaw (acc @ got)) (st0\<lparr>ft_reads := rs\<rparr>))
         else case rs of
           [] \<Rightarrow> None
         | r # rs' \<Rightarrow>
             let st1 = beat_turn env st0; failed = ft_emit (FtRaw (acc @ got)) (st1\<lparr>ft_reads := rs'\<rparr>)
             in case r of
                  Inl e \<Rightarrow> Some ((acc @ got, Some e), failed)
                | Inr chunk \<Rightarrow>
                    if oc_dropped chunk then Some ((acc @ got, Some ErrOverwrittenTransfer), failed)
                    else exact_loop env (n - int (length got)) (acc @ got) rs'
                           (st1\<lparr>ft_cursor := oc_next chunk, ft_pending := oc_data chunk\<rparr>))"

declare exact_loop.simps [simp del]

definition readExact :: "ft_env \<Rightarrow> int \<Rightarrow> ft \<Rightarrow> ((string \<times> goerr option) \<times> ft) option" where
  "readExact env n st = exact_loop env n [] (ft_reads st) st"

section \<open>Finishing an interrupted block\<close>

definition finishPendingMarker :: "ft_env \<Rightarrow> string \<Rightarrow> string \<Rightarrow> string \<Rightarrow> unit ft_run" where
  "finishPendingMarker env token phase argument = ft_recovered env (expect env token phase [argument])"

definition finishSendChunk :: "ft_env \<Rightarrow> string \<Rightarrow> int \<Rightarrow> int \<Rightarrow> unit ft_run" where
  "finishSendChunk env token remaining acknowledgedSize st =
     (case (if remaining > 0
            then writeFilePayload (fe_recovery env) (shell_WriteContext env (fe_recovery env)) (replicate (nat remaining) (CHR 0x00)) st
            else ((0, None), st)) of
        ((n, Some e), st1) \<Rightarrow>
          (let (e', st2) = recoveryError env (ErrWrap e ''restore remote TTY after interrupted send'') st1 in Some (Inl e', st2))
      | ((n, None), st1) \<Rightarrow> finishPendingMarker env token ''ACK'' (format_int acknowledgedSize) st1)"

definition finishUnconfirmedSendChunk :: "ft_env \<Rightarrow> string \<Rightarrow> int \<Rightarrow> unit ft_run" where
  "finishUnconfirmedSendChunk env token n =
     ft_bind (finishPendingMarker env token ''READY'' (format_int n)) (\<lambda>u. finishSendChunk env token n n)"

definition finishReceiveChunk :: "ft_env \<Rightarrow> string \<Rightarrow> int \<Rightarrow> int \<Rightarrow> unit ft_run" where
  "finishReceiveChunk env token remaining acknowledgedSize st =
     (case readExact env remaining st of
        None \<Rightarrow> None
      | Some ((d, Some e), st1) \<Rightarrow>
          (let (e', st2) = recoveryError env (ErrWrap e ''drain interrupted receive chunk'') st1 in Some (Inl e', st2))
      | Some ((d, None), st1) \<Rightarrow> ft_recovered env (expect env token ''ACK'' [format_int acknowledgedSize]) st1)"

definition finishUnconfirmedReceiveChunk :: "ft_env \<Rightarrow> string \<Rightarrow> int \<Rightarrow> unit ft_run" where
  "finishUnconfirmedReceiveChunk env token n =
     ft_bind (finishPendingMarker env token ''DATA'' (format_int n)) (\<lambda>u. finishReceiveChunk env token n n)"

section \<open>The protocol\<close>

definition ft_command :: "ft_env \<Rightarrow> go_context \<Rightarrow> string \<Rightarrow> unit ft_run" where
  "ft_command env ctx command st =
     (case ctx (ft_clock st) of Some e \<Rightarrow> Some (Inl e, st) | None \<Rightarrow> writeCommand env ctx command st)"

definition newFileTransferToken :: "ft_env \<Rightarrow> string ft_run" where
  "newFileTransferToken env st =
     (case fe_random env (ft_clock st) of
        Inl e \<Rightarrow> Some (Inl (ErrWrap e ''generate file transfer token''), st) | Inr token \<Rightarrow> Some (Inr token, st))"

text \<open>The new protocol starts with nothing pending, behind the current output.\<close>

definition newFileProtocol :: "ft_env \<Rightarrow> go_context \<Rightarrow> string ft_run" where
  "newFileProtocol env ctx =
     ft_bind (\<lambda>st. ft_check (ctx (ft_clock st)) st) (\<lambda>u.
     ft_bind (newFileTransferToken env) (\<lambda>token st.
       case fe_recent env (ft_clock st) of
         Inl e \<Rightarrow> Some (Inl (ErrWrap e ''initialize file transfer output cursor''), st)
       | Inr cursor \<Rightarrow> Some (Inr token, st\<lparr>ft_cursor := cursor, ft_pending := []\<rparr>)))"

text \<open>The checkpoint of the terminal, which the shell hands through.\<close>

definition terminal_checkpoint :: "ft_env \<Rightarrow> nat \<Rightarrow> goerr option" where
  "terminal_checkpoint env t =
     (case fe_checkpoint env of Some check \<Rightarrow> check t
      | None \<Rightarrow> (case fe_requested env of Some req \<Rightarrow> if req t then Some CtxCanceled else None | None \<Rightarrow> None))"

definition fileTransferCancellationCheckpoint :: "ft_env \<Rightarrow> (nat \<Rightarrow> bool) option \<Rightarrow> unit ft_run" where
  "fileTransferCancellationCheckpoint env cancelRequested st =
     (if (case cancelRequested of None \<Rightarrow> False | Some req \<Rightarrow> req (ft_clock st)) then Some (Inl CtxCanceled, st)
      else ft_check (terminal_checkpoint env (ft_clock st)) st)"

text \<open>\<open>selectAvailableRemotePath\<close>: every name tried consumes an answer, so the
  number of answers in the script and of pending bytes bounds the attempts.\<close>

fun select_loop :: "nat \<Rightarrow> ft_env \<Rightarrow> go_context \<Rightarrow> string \<Rightarrow> string \<Rightarrow> string \<Rightarrow> int \<Rightarrow> (string \<times> string) ft_run" where
  "select_loop 0 env ctx token wanted candidate sequence st = None"
| "select_loop (Suc k) env ctx token wanted candidate sequence st =
     (case quoteRemotePath candidate of Inl e \<Rightarrow> Some (Inl e, st)
      | Inr quoted \<Rightarrow>
          ft_bind (ft_command env ctx (remotePathStatusCommand token quoted)) (\<lambda>u.
          ft_bind (expectPhase env token ''PICK'') (\<lambda>event.
            case event of
              [pick] \<Rightarrow>
                if pick = ''FREE'' then ft_ret (candidate, quoted)
                else if pick = ''EXISTS''
                then select_loop k env ctx token wanted (incrementPOSIXFilename wanted (sequence + 1)) (sequence + 1)
                else ft_fail (ErrWrap ErrFileTransferProtocol (''PICK result '' @ pick))
            | _ \<Rightarrow> ft_fail (ErrWrap ErrFileTransferProtocol ''PICK arguments''))) st)"

definition ft_fuel :: "ft \<Rightarrow> nat" where
  "ft_fuel st = Suc (length (ft_pending st) + length (concat (map (\<lambda>r. case r of Inr c \<Rightarrow> oc_data c | Inl e \<Rightarrow> []) (ft_reads st))))"

definition selectAvailableRemotePath :: "ft_env \<Rightarrow> go_context \<Rightarrow> string \<Rightarrow> string \<Rightarrow> (string \<times> string) ft_run" where
  "selectAvailableRemotePath env ctx token wanted st = select_loop (ft_fuel st) env ctx token wanted wanted 0 st"

definition cleanupDirectory :: "ft_env \<Rightarrow> string \<Rightarrow> string \<Rightarrow> string \<Rightarrow> unit ft_run" where
  "cleanupDirectory env token archive staging =
     (let stage = (if staging = [] then [single_quote, single_quote] else staging)
      in ft_recovered env (ft_bind (ft_command env (fe_recovery env) (directoryCleanupCommand token archive stage))
           (\<lambda>u. expect env token ''ABORT'' [''OK''])))"

section \<open>Local files\<close>

text \<open>\<open>writeAllTo\<close> the destination.\<close>

definition dest_write :: "ft_env \<Rightarrow> string \<Rightarrow> ft \<Rightarrow> (nat \<times> goerr option) \<times> ft" where
  "dest_write env d st =
     (fe_dest env (ft_clock st) d,
      st\<lparr>ft_dest := ft_dest st @ take (fst (fe_dest env (ft_clock st) d)) d, ft_clock := Suc (ft_clock st)\<rparr>)"

function writeAllTo :: "ft_env \<Rightarrow> string \<Rightarrow> unit ft_run" where
  "writeAllTo env d st =
     (if d = [] then Some (Inr (), st)
      else case dest_write env d st of
        ((c, Some e), st1) \<Rightarrow> Some (Inl e, st1)
      | ((c, None), st1) \<Rightarrow> if c = 0 then Some (Inl IoErrShortWrite, st1) else writeAllTo env (drop c d) st1)"
  by pat_completeness auto
termination by (relation "measure (\<lambda>(env, d, st). length d)") auto

declare writeAllTo.simps [simp del]

text \<open>\<open>io.ReadFull(source, chunk)\<close>.\<close>

definition source_ReadFull :: "ft_env \<Rightarrow> int \<Rightarrow> string ft_run" where
  "source_ReadFull env n st =
     (let d = take (nat n) (ft_source st); st1 = st\<lparr>ft_source := drop (nat n) (ft_source st)\<rparr>
      in if int (length d) \<ge> n then Some (Inr d, st1)
         else Some (Inl (if fe_source_end env = IoEOF \<and> d \<noteq> [] then IoErrUnexpectedEOF else fe_source_end env), st1))"

text \<open>The read of one byte behind the announced size: what it says the source is.\<close>

definition source_trailing :: "ft_env \<Rightarrow> ft \<Rightarrow> goerr option" where
  "source_trailing env st =
     (if ft_source st \<noteq> [] then Some ErrFileTransferSizeMismatch
      else if \<not> err_is (fe_source_end env) IoEOF then Some (fe_source_end env) else None)"

definition report_progress :: "ft_env \<Rightarrow> int \<Rightarrow> int \<Rightarrow> unit ft_run" where
  "report_progress env transferred n st =
     (case fe_progress env of None \<Rightarrow> Some (Inr (), st)
      | Some progress \<Rightarrow> ft_check (progress (ft_clock st) transferred n) (ft_emit (FtProgress transferred n) st))"

end
