(* ===== verification/File_Shell.thy ===== *)
theory File_Shell
  imports File_Session
begin

text \<open>
  The target-side shell of a file transfer (\<open>internal/core/app/file_transfer_shell.go\<close>):
  its start, its end, and the operation between them. Then what every operation
  keeps: the keep-alive never writes while a command or a raw block owns the
  terminal, and nothing is written once a recovery has failed.
\<close>

section \<open>Markers of the interactive parent\<close>

fun wait_marker_loop :: "ft_env \<Rightarrow> string \<Rightarrow> string \<Rightarrow> read_script \<Rightarrow> unit ft_run" where
  "wait_marker_loop env marker pending [] st = None"
| "wait_marker_loop env marker pending (r # rs) st =
     (let st1 = (beat_turn env st)\<lparr>ft_reads := rs\<rparr>
      in case r of
           Inl e \<Rightarrow> Some (Inl e, st1)
         | Inr chunk \<Rightarrow>
             if oc_dropped chunk
             then Some (Inl (ErrWrap ErrFileTransferProtocol ''Session output was overwritten while disabling terminal echo''), st1)
             else let p = pending @ oc_data chunk; st2 = st1\<lparr>ft_cursor := oc_next chunk\<rparr>
                  in if str_contains p marker then Some (Inr (), st2)
                     else wait_marker_loop env marker (window (length marker - 1) p) rs st2)"

definition waitForFileTransferShellMarker :: "ft_env \<Rightarrow> nat \<Rightarrow> string \<Rightarrow> unit ft_run" where
  "waitForFileTransferShellMarker env cursor marker st =
     wait_marker_loop env marker [] (ft_reads st) (st\<lparr>ft_cursor := cursor\<rparr>)"

section \<open>Start and end\<close>

definition ft_wrap :: "string \<Rightarrow> 'a ft_run \<Rightarrow> 'a ft_run" where
  "ft_wrap message m = ft_handle m (\<lambda>e. ft_fail (ErrWrap e message))"

definition shell_write :: "ft_env \<Rightarrow> go_context \<Rightarrow> string \<Rightarrow> unit ft_run" where
  "shell_write env ctx command st =
     (case writeFilePayload ctx (base_write env FromShell) (command @ [CHR 0x0A]) st of
        ((n, Some e), st1) \<Rightarrow> Some (Inl e, st1) | ((n, None), st1) \<Rightarrow> Some (Inr (), st1))"

definition shell_recovered :: "ft_env \<Rightarrow> 'a ft_run \<Rightarrow> 'a ft_run" where
  "shell_recovered env m = ft_handle m (\<lambda>e st. let (e', st') = shell_recoveryError env e st in Some (Inl e', st'))"

definition read_cursor :: "ft_env \<Rightarrow> string \<Rightarrow> nat ft_run" where
  "read_cursor env message st =
     (case fe_recent env (ft_clock st) of Inl e \<Rightarrow> Some (Inl (ErrWrap e message), st) | Inr c \<Rightarrow> Some (Inr c, st))"

definition shell_started :: "bool \<Rightarrow> unit ft_run" where
  "shell_started b st = Some (Inr (), st\<lparr>sh_started := b\<rparr>)"

definition shell_ready :: "ft_env \<Rightarrow> nat \<Rightarrow> string list \<Rightarrow> unit ft_run" where
  "shell_ready env cursor event =
     (let noSleep = ErrText ''remote file transfer failed: sleep command is unavailable''
      in if event = [''ERROR'', ''sleep''] then
           ft_bind (ft_handle (waitForFileTransferShellMarker env cursor fileTransferShellExitedMarker) (\<lambda>e. ft_fail (ErrJoin noSleep e)))
             (\<lambda>u. ft_bind (shell_started False) (\<lambda>u. ft_fail noSleep))
         else if event = [''EXITED''] then
           ft_bind (shell_started False) (\<lambda>u. ft_fail (ErrText ''remote file-transfer shell exited before initialization''))
         else if event \<noteq> [''READY''] then ft_fail (ErrWrap ErrFileTransferProtocol ''SHELL response'')
         else (\<lambda>st. Some (Inr (), st\<lparr>sh_idle := True\<rparr>)))"

definition start_shell :: "ft_env \<Rightarrow> go_context \<Rightarrow> string \<Rightarrow> unit ft_run" where
  "start_shell env ctx token =
     ft_bind (read_cursor env ''initialize file-transfer shell cursor'') (\<lambda>recent.
     ft_bind (shell_recovered env (ft_wrap ''start remote file-transfer shell''
                (shell_write env ctx (fileTransferShellBootstrapCommand token)))) (\<lambda>u.
     ft_bind (shell_started True) (\<lambda>u.
     ft_bind (ft_wrap ''wait for remote file-transfer shell to disable echo''
                (waitForFileTransferShellMarker env recent fileTransferShellEchoHiddenMarker)) (\<lambda>u.
     ft_bind (ft_wrap ''initialize remote file-transfer shell''
                (shell_write env ctx (fileTransferShellInitCommand token))) (\<lambda>u.
     ft_bind (ft_wrap ''wait for remote file-transfer shell''
                (\<lambda>st. expect_loop env False token ''SHELL'' (ft_reads st) (st\<lparr>ft_cursor := recent, ft_pending := []\<rparr>))) (\<lambda>event.
     shell_ready env recent event))))))"

definition close_shell :: "ft_env \<Rightarrow> unit ft_run" where
  "close_shell env =
     ft_bind (\<lambda>st.
       if \<not> sh_beat_on st then Some (Inr (), st)
       else let st1 = beat_turn env st
            in case fe_beat_done env of
                 Some e \<Rightarrow> (let (e', st2) = shell_recoveryError env e st1 in Some (Inl e', st2))
               | None \<Rightarrow> Some (Inr (), st1\<lparr>sh_beat_on := False\<rparr>)) (\<lambda>u st.
     case sh_recovery st of Some e \<Rightarrow> Some (Inl e, st)
     | None \<Rightarrow>
         if \<not> sh_started st \<or> sh_closed st then Some (Inr (), st)
         else shell_recovered env
           (ft_bind (read_cursor env ''initialize file-transfer shell exit cursor'') (\<lambda>recent.
            ft_bind (ft_wrap ''close remote file-transfer shell'' (shell_write env (fe_recovery env) fileTransferShellCloseCommand)) (\<lambda>u.
            ft_wrap ''confirm remote file-transfer shell exit''
              (waitForFileTransferShellMarker env recent fileTransferShellExitedMarker))))
           (st\<lparr>sh_closed := True, sh_idle := False\<rparr>))"

text \<open>A new shell: nothing started, the keep-alive not running.\<close>

definition fresh_shell :: "ft \<Rightarrow> ft" where
  "fresh_shell st = st\<lparr>sh_idle := False, sh_started := False, sh_closed := False, sh_beat_on := False,
     sh_beat_err := None, sh_recovery := None\<rparr>"

definition newShellFileTransferSession :: "ft_env \<Rightarrow> unit ft_run" where
  "newShellFileTransferSession env =
     ft_bind (newFileTransferToken env) (\<lambda>token st.
       ft_bind (ft_handle (start_shell env (fe_start env) token) (\<lambda>e st1.
           case close_shell env st1 of
             None \<Rightarrow> None
           | Some (Inl e', st2) \<Rightarrow> Some (Inl (ErrJoin e e'), st2)
           | Some (Inr u, st2) \<Rightarrow> Some (Inl e, st2)))
         (\<lambda>u st1. Some (Inr (), st1\<lparr>sh_beat_on := True\<rparr>)) (fresh_shell st))"

definition WithFileTransferShell :: "ft_env \<Rightarrow> 'a ft_run \<Rightarrow> 'a ft_run" where
  "WithFileTransferShell env operation =
     ft_bind (newShellFileTransferSession env) (\<lambda>u st.
       case operation st of
         None \<Rightarrow> None
       | Some (r, st1) \<Rightarrow>
           (case close_shell env st1 of
              None \<Rightarrow> None
            | Some (Inl e, st2) \<Rightarrow> Some (Inl (case r of Inl e0 \<Rightarrow> ErrJoin e0 e | Inr a \<Rightarrow> e), st2)
            | Some (Inr u, st2) \<Rightarrow> Some (r, st2)))"

end
