(* ===== verification/File_Transfer.thy ===== *)
theory File_Transfer
  imports File_Shell
begin

text \<open>
  Sending and receiving one file (\<open>internal/core/app/file_transfer.go\<close>). The
  functions ending in \<open>_scoped\<close> are the bodies that run in the file-transfer shell;
  \<open>SendFileWithCancellation\<close> and \<open>ReceiveFileWithCancellation\<close> run them there.
  The digest over what has passed is taken at the end, as a function of the bytes.
\<close>

record ft_result =
  fr_size :: int
  fr_sha256 :: string
  fr_path :: string

text \<open>The size of the next block.\<close>

definition block_size :: "int \<Rightarrow> int \<Rightarrow> int" where
  "block_size n transferred = (if n - transferred < FileTransferChunkSize then n - transferred else FileTransferChunkSize)"

text \<open>An error while a block is under way: only a cancelled wait is cleaned up behind.\<close>

definition ft_interrupted :: "string \<Rightarrow> unit ft_run \<Rightarrow> goerr \<Rightarrow> 'a ft_run" where
  "ft_interrupted message cleanup e st =
     (if err_is e CtxCanceled \<or> err_is e CtxDeadlineExceeded then
        (case cleanup st of
           None \<Rightarrow> None
         | Some (Inl e', st') \<Rightarrow> Some (Inl (ErrWrap (ErrJoin e e') message), st')
         | Some (Inr u, st') \<Rightarrow> Some (Inl (ErrWrap e message), st'))
      else Some (Inl (ErrWrap e message), st))"

text \<open>The texts that differ between a file and the archive of a directory; the loops are otherwise the same.\<close>

record block_texts =
  bt_local :: string
  bt_prepare :: string
  bt_payload :: string
  bt_confirm :: string

definition file_send_texts :: block_texts where
  "file_send_texts = \<lparr>bt_local = ''read local file'', bt_prepare = ''prepare remote file chunk'', bt_payload = ''send file chunk'', bt_confirm = ''confirm remote file chunk''\<rparr>"

definition file_receive_texts :: block_texts where
  "file_receive_texts = \<lparr>bt_local = ''write local file'', bt_prepare = ''start remote file chunk'', bt_payload = ''receive remote file chunk'', bt_confirm = ''confirm received file chunk''\<rparr>"

definition at_byte :: "string \<Rightarrow> int \<Rightarrow> string" where
  "at_byte what transferred = what @ '' at byte '' @ format_int transferred"

section \<open>Sending\<close>

definition file_send_payload :: "ft_env \<Rightarrow> go_context \<Rightarrow> string \<Rightarrow> string \<Rightarrow> string \<Rightarrow> int \<Rightarrow> unit ft_run" where
  "file_send_payload env ctx token message d n st =
     (case writeFilePayload ctx (shell_WriteContext env ctx) d st of
        ((w, None), st1) \<Rightarrow> Some (Inr (), st1)
      | ((w, Some e), st1) \<Rightarrow>
          (case finishSendChunk env token (n - int w) n st1 of
             None \<Rightarrow> None
           | Some (Inl e', st2) \<Rightarrow> Some (Inl (ErrJoin (ErrWrap e message) e'), st2)
           | Some (Inr u, st2) \<Rightarrow> Some (Inl (ErrWrap e message), st2)))"

definition send_block :: "ft_env \<Rightarrow> go_context \<Rightarrow> block_texts \<Rightarrow> string \<Rightarrow> string \<Rightarrow> int \<Rightarrow> int \<Rightarrow> string \<Rightarrow> unit ft_run" where
  "send_block env ctx texts token quoted transferred n d =
     ft_bind (ft_command env ctx (sendChunkCommand token quoted n)) (\<lambda>u.
     ft_bind (ft_handle (expect env token ''READY'' [format_int n])
       (ft_interrupted (at_byte (bt_prepare texts) transferred) (finishUnconfirmedSendChunk env token n))) (\<lambda>u.
     ft_bind (file_send_payload env ctx token (at_byte (bt_payload texts) transferred) d n) (\<lambda>u.
     ft_handle (expect env token ''ACK'' [format_int n])
       (ft_interrupted (at_byte (bt_confirm texts) transferred) (finishPendingMarker env token ''ACK'' (format_int n))))))"

text \<open>The loop over the blocks answers the bytes sent, which the hasher has seen.\<close>

function send_loop :: "ft_env \<Rightarrow> go_context \<Rightarrow> (nat \<Rightarrow> bool) option \<Rightarrow> block_texts \<Rightarrow> string \<Rightarrow> string \<Rightarrow> int \<Rightarrow> int \<Rightarrow> string \<Rightarrow> string ft_run" where
  "send_loop env ctx cancel texts token quoted n transferred hashed =
     (if transferred < n then
        let k = block_size n transferred in
        ft_bind (fileTransferCancellationCheckpoint env cancel) (\<lambda>u.
        ft_bind (ft_wrap (at_byte (bt_local texts) transferred) (source_ReadFull env k)) (\<lambda>d.
        ft_bind (send_block env ctx texts token quoted transferred k d) (\<lambda>u.
        ft_bind (report_progress env (transferred + k) n) (\<lambda>u.
        send_loop env ctx cancel texts token quoted n (transferred + k) (hashed @ d)))))
      else ft_ret hashed)"
  by pat_completeness auto
termination
  by (relation "measure (\<lambda>(env, ctx, cancel, texts, token, quoted, n, transferred, hashed). nat (n - transferred))")
    (auto simp: block_size_def FileTransferChunkSize_def)

declare send_loop.simps [simp del]

definition verify_sent :: "ft_env \<Rightarrow> go_context \<Rightarrow> string \<Rightarrow> string \<Rightarrow> string \<Rightarrow> int \<Rightarrow> string \<Rightarrow> ft_result ft_run" where
  "verify_sent env ctx token remotePath quoted n hashed =
     (let localDigest = fe_sha256 env hashed in
      ft_bind (ft_command env ctx (verifyCommand token quoted)) (\<lambda>u.
      ft_bind (ft_wrap (''verify remote file '' @ remotePath) (expectPhase env token ''FINAL'')) (\<lambda>event.
        case parseVerifiedFile event of
          Inl e \<Rightarrow> ft_fail e
        | Inr (remoteSize, remoteDigest) \<Rightarrow>
            if remoteSize \<noteq> n then ft_fail (ErrWrap ErrFileTransferSizeMismatch ''local, remote'')
            else if \<not> equal_fold remoteDigest localDigest then ft_fail (ErrWrap ErrFileTransferChecksumMismatch ''local, remote'')
            else ft_bind (if n = 0 then report_progress env 0 0 else ft_ret ())
              (\<lambda>u. ft_ret \<lparr>fr_size = n, fr_sha256 = localDigest, fr_path = remotePath\<rparr>))))"

definition send_scoped :: "ft_env \<Rightarrow> go_context \<Rightarrow> (nat \<Rightarrow> bool) option \<Rightarrow> int \<Rightarrow> string \<Rightarrow> ft_result ft_run" where
  "send_scoped env ctx cancel n wanted =
     ft_bind (newFileProtocol env ctx) (\<lambda>token.
     ft_bind (fileTransferCancellationCheckpoint env cancel) (\<lambda>u.
     ft_bind (selectAvailableRemotePath env ctx token wanted) (\<lambda>(remotePath, quoted).
     ft_bind (fileTransferCancellationCheckpoint env cancel) (\<lambda>u.
       case quoteRemotePath (path_Dir remotePath) of Inl e \<Rightarrow> ft_fail e
       | Inr directory \<Rightarrow>
           ft_bind (ft_command env ctx (sendInitCommand token quoted directory)) (\<lambda>u.
           ft_bind (ft_wrap (''initialize remote file '' @ remotePath) (expect env token ''INIT'' [''OK''])) (\<lambda>u.
           ft_bind (fileTransferCancellationCheckpoint env cancel) (\<lambda>u.
           ft_bind (send_loop env ctx cancel file_send_texts token quoted n 0 []) (\<lambda>hashed.
           ft_bind (fileTransferCancellationCheckpoint env cancel) (\<lambda>u.
           ft_bind (ft_wrap ''local file changed while sending'' (\<lambda>st. ft_check (source_trailing env st) st)) (\<lambda>u.
           verify_sent env ctx token remotePath quoted n hashed)))))))))) "

definition SendFileWithCancellation :: "ft_env \<Rightarrow> go_context \<Rightarrow> (nat \<Rightarrow> bool) option \<Rightarrow> int \<Rightarrow> string \<Rightarrow> ft_result ft_run" where
  "SendFileWithCancellation env ctx cancel n remotePath =
     (if n < 0 then ft_fail (ErrText ''file transfer size must not be negative'')
      else case quoteRemotePath remotePath of Inl e \<Rightarrow> ft_fail e
      | Inr q \<Rightarrow> WithFileTransferShell env (send_scoped env ctx cancel n remotePath))"

section \<open>Receiving\<close>

definition file_receive_payload :: "ft_env \<Rightarrow> string \<Rightarrow> string \<Rightarrow> int \<Rightarrow> string ft_run" where
  "file_receive_payload env token message n st =
     (case readExact env n st of
        None \<Rightarrow> None
      | Some ((d, None), st1) \<Rightarrow> Some (Inr d, st1)
      | Some ((d, Some e), st1) \<Rightarrow>
          ft_interrupted message (finishReceiveChunk env token (n - int (length d)) n) e st1)"

definition receive_block :: "ft_env \<Rightarrow> go_context \<Rightarrow> block_texts \<Rightarrow> string \<Rightarrow> string \<Rightarrow> int \<Rightarrow> int \<Rightarrow> int \<Rightarrow> string ft_run" where
  "receive_block env ctx texts token quoted transferred blockIndex n =
     ft_bind (ft_command env ctx (receiveChunkCommand token quoted blockIndex n)) (\<lambda>u.
     ft_bind (ft_handle (expect env token ''DATA'' [format_int n])
       (ft_interrupted (at_byte (bt_prepare texts) transferred) (finishUnconfirmedReceiveChunk env token n))) (\<lambda>u.
     ft_bind (file_receive_payload env token (at_byte (bt_payload texts) transferred) n) (\<lambda>d.
     ft_bind (ft_handle (expect env token ''ACK'' [format_int n])
       (ft_interrupted (at_byte (bt_confirm texts) transferred) (finishPendingMarker env token ''ACK'' (format_int n)))) (\<lambda>u.
     ft_ret d))))"

function receive_loop :: "ft_env \<Rightarrow> go_context \<Rightarrow> (nat \<Rightarrow> bool) option \<Rightarrow> block_texts \<Rightarrow> string \<Rightarrow> string \<Rightarrow> int \<Rightarrow> int \<Rightarrow> int \<Rightarrow> string \<Rightarrow> string ft_run" where
  "receive_loop env ctx cancel texts token quoted n transferred blockIndex hashed =
     (if transferred < n then
        let k = block_size n transferred in
        ft_bind (fileTransferCancellationCheckpoint env cancel) (\<lambda>u.
        ft_bind (receive_block env ctx texts token quoted transferred blockIndex k) (\<lambda>d.
        ft_bind (ft_wrap (at_byte (bt_local texts) transferred) (writeAllTo env d)) (\<lambda>u.
        ft_bind (report_progress env (transferred + k) n) (\<lambda>u.
        receive_loop env ctx cancel texts token quoted n (transferred + k) (blockIndex + 1) (hashed @ d)))))
      else ft_ret hashed)"
  by pat_completeness auto
termination
  by (relation "measure (\<lambda>(env, ctx, cancel, texts, token, quoted, n, transferred, blockIndex, hashed). nat (n - transferred))")
    (auto simp: block_size_def FileTransferChunkSize_def)

declare receive_loop.simps [simp del]

definition verify_received :: "ft_env \<Rightarrow> go_context \<Rightarrow> string \<Rightarrow> string \<Rightarrow> string \<Rightarrow> int \<Rightarrow> string \<Rightarrow> string \<Rightarrow> ft_result ft_run" where
  "verify_received env ctx token remotePath quoted n remoteDigest hashed =
     ft_bind (ft_command env ctx (verifyCommand token quoted)) (\<lambda>u.
     ft_bind (ft_wrap (''recheck remote file '' @ remotePath) (expectPhase env token ''FINAL'')) (\<lambda>event.
       case parseVerifiedFile event of
         Inl e \<Rightarrow> ft_fail e
       | Inr (finalSize, finalDigest) \<Rightarrow>
           if finalSize \<noteq> n then ft_fail (ErrWrap ErrFileTransferSizeMismatch ''announced, final'')
           else if \<not> equal_fold finalDigest remoteDigest
           then ft_fail (ErrWrap ErrFileTransferChecksumMismatch ''remote file changed during transfer: announced, final'')
           else let localDigest = fe_sha256 env hashed
                in if \<not> equal_fold remoteDigest localDigest then ft_fail (ErrWrap ErrFileTransferChecksumMismatch ''remote, local'')
                   else ft_bind (if n = 0 then report_progress env 0 0 else ft_ret ())
                     (\<lambda>u. ft_ret \<lparr>fr_size = n, fr_sha256 = localDigest, fr_path = []\<rparr>)))"

definition receive_scoped :: "ft_env \<Rightarrow> go_context \<Rightarrow> (nat \<Rightarrow> bool) option \<Rightarrow> string \<Rightarrow> ft_result ft_run" where
  "receive_scoped env ctx cancel remotePath =
     (case quoteRemotePath remotePath of Inl e \<Rightarrow> ft_fail e
      | Inr quoted \<Rightarrow>
          ft_bind (newFileProtocol env ctx) (\<lambda>token.
          ft_bind (ft_command env ctx (receiveInitCommand token quoted)) (\<lambda>u.
          ft_bind (ft_wrap (''read remote file metadata '' @ remotePath) (expectPhase env token ''META'')) (\<lambda>event.
            case parseVerifiedFile event of
              Inl e \<Rightarrow> ft_fail e
            | Inr (n, remoteDigest) \<Rightarrow>
                ft_bind (if n > 0 then report_progress env 0 n else ft_ret ()) (\<lambda>u.
                ft_bind (fileTransferCancellationCheckpoint env cancel) (\<lambda>u.
                ft_bind (receive_loop env ctx cancel file_receive_texts token quoted n 0 0 []) (\<lambda>hashed.
                ft_bind (fileTransferCancellationCheckpoint env cancel) (\<lambda>u.
                verify_received env ctx token remotePath quoted n remoteDigest hashed))))))))"

definition ReceiveFileWithCancellation :: "ft_env \<Rightarrow> go_context \<Rightarrow> (nat \<Rightarrow> bool) option \<Rightarrow> string \<Rightarrow> ft_result ft_run" where
  "ReceiveFileWithCancellation env ctx cancel remotePath =
     (case quoteRemotePath remotePath of Inl e \<Rightarrow> ft_fail e
      | Inr q \<Rightarrow> WithFileTransferShell env (receive_scoped env ctx cancel remotePath))"

end
