(* ===== verification/File_Rules.thy ===== *)
theory File_Rules
  imports File_Transfer
begin

text \<open>
  Rules for runs of the file-transfer protocol, and what its operations keep. The
  trace of a run is read as an automaton: who owns the remote terminal.
\<close>

section \<open>Runs\<close>

text \<open>Every outcome of a run is related to its start.\<close>

definition ft_keeps :: "(ft \<Rightarrow> ft \<Rightarrow> bool) \<Rightarrow> 'a ft_run \<Rightarrow> bool" where
  "ft_keeps R m \<longleftrightarrow> (\<forall>st r st'. m st = Some (r, st') \<longrightarrow> R st st')"

lemma ft_keepsI: "(\<And>st r st'. m st = Some (r, st') \<Longrightarrow> R st st') \<Longrightarrow> ft_keeps R m"
  by (auto simp: ft_keeps_def)

lemma ft_keepsD: "ft_keeps R m \<Longrightarrow> m st = Some (r, st') \<Longrightarrow> R st st'"
  by (auto simp: ft_keeps_def)

lemma ft_bind_cases:
  assumes "ft_bind m f st = Some (r, st')"
  obtains (failed) e where "m st = Some (Inl e, st')" "r = Inl e"
  | (went) a st1 where "m st = Some (Inr a, st1)" "f a st1 = Some (r, st')"
  using assms by (auto simp: ft_bind_def split: option.splits sum.splits)

lemma ft_handle_cases:
  assumes "ft_handle m h st = Some (r, st')"
  obtains (handled) e st1 where "m st = Some (Inl e, st1)" "h e st1 = Some (r, st')"
  | (went) a where "m st = Some (Inr a, st')" "r = Inr a"
  using assms by (auto simp: ft_handle_def split: option.splits sum.splits)

lemma ft_bind_Inr: "ft_bind m f st = Some (Inr b, st') \<Longrightarrow> \<exists>a st1. m st = Some (Inr a, st1) \<and> f a st1 = Some (Inr b, st')"
  by (erule ft_bind_cases) auto

lemma ft_wrap_Inr: "ft_wrap message m st = Some (Inr b, st') \<Longrightarrow> m st = Some (Inr b, st')"
  unfolding ft_wrap_def by (erule ft_handle_cases) (auto simp: ft_fail_def)

definition ft_preorder :: "(ft \<Rightarrow> ft \<Rightarrow> bool) \<Rightarrow> bool" where
  "ft_preorder R \<longleftrightarrow> (\<forall>st. R st st) \<and> (\<forall>a b c. R a b \<longrightarrow> R b c \<longrightarrow> R a c)"

lemma ft_preorder_refl: "ft_preorder R \<Longrightarrow> R st st"
  and ft_preorder_trans: "ft_preorder R \<Longrightarrow> R a b \<Longrightarrow> R b c \<Longrightarrow> R a c"
  unfolding ft_preorder_def by blast+

lemma ft_keeps_bind: "ft_preorder R \<Longrightarrow> ft_keeps R m \<Longrightarrow> (\<And>a. ft_keeps R (f a)) \<Longrightarrow> ft_keeps R (ft_bind m f)"
  by (rule ft_keepsI) (erule ft_bind_cases; blast dest: ft_keepsD intro: ft_preorder_trans)

lemma ft_keeps_handle: "ft_preorder R \<Longrightarrow> ft_keeps R m \<Longrightarrow> (\<And>e. ft_keeps R (h e)) \<Longrightarrow> ft_keeps R (ft_handle m h)"
  by (rule ft_keepsI) (erule ft_handle_cases; blast dest: ft_keepsD intro: ft_preorder_trans)

lemma ft_keeps_same:
  assumes "ft_preorder R" shows "ft_keeps R (ft_ret a)" "ft_keeps R (ft_fail e)" "ft_keeps R (ft_check c)"
    "ft_keeps R (\<lambda>st. ft_check (c' st) st)"
  using ft_preorder_refl [OF assms]
  by (auto simp: ft_keeps_def ft_ret_def ft_fail_def ft_check_def split: option.splits)

lemma ft_keeps_wrap: "ft_preorder R \<Longrightarrow> ft_keeps R m \<Longrightarrow> ft_keeps R (ft_wrap message m)"
  unfolding ft_wrap_def by (intro ft_keeps_handle ft_keeps_same)

lemma writeFilePayload_keeps:
  assumes R: "ft_preorder R" "\<And>d st. R st (snd (wr d st))"
  shows "R st (snd (writeFilePayload ctx wr d st))"
  using R(2)
proof (induction ctx wr d st rule: writeFilePayload.induct)
  case (1 ctx wr d st)
  note same = ft_preorder_refl [OF R(1)]
  show ?case
  proof (cases "d = [] \<or> ctx (ft_clock st) \<noteq> None")
    case True
    then show ?thesis using same by (auto simp: writeFilePayload.simps [of ctx wr d] split: option.splits)
  next
    case False
    then have d: "d \<noteq> []" "ctx (ft_clock st) = None" by auto
    obtain c err st1 where w: "wr d st = ((c, err), st1)" by (metis surj_pair)
    have s: "R st st1" using "1.prems" [of st d] w by simp
    show ?thesis
    proof (cases "err = None \<and> c \<noteq> 0")
      case True
      then have "R st1 (snd (writeFilePayload ctx wr (drop c d) st1))"
        using "1.IH" [OF d(1,2) w [symmetric] refl _ _ "1.prems"] by simp
      moreover obtain m e2 st2 where "writeFilePayload ctx wr (drop c d) st1 = ((m, e2), st2)" by (metis surj_pair)
      ultimately have "snd (writeFilePayload ctx wr d st) = st2" "R st1 st2"
        using True d w by (simp_all add: writeFilePayload.simps [of ctx wr d])
      then show ?thesis using ft_preorder_trans [OF R(1) s] by simp
    next
      case False
      then show ?thesis using d w s by (cases err) (auto simp: writeFilePayload.simps [of ctx wr d])
    qed
  qed
qed

text \<open>What a complete payload delivers: the bytes every write took, in order.\<close>

lemma writeFilePayload_sent:
  assumes "\<And>d st c err st1. wr d st = ((c, err), st1) \<Longrightarrow> sent st1 = sent st @ take c d"
  shows "writeFilePayload ctx wr d st = ((n, err), st') \<Longrightarrow>
    n \<le> length d \<and> sent st' = sent st @ take n d \<and> (err = None \<longrightarrow> n = length d)"
  using assms
proof (induction ctx wr d st arbitrary: n rule: writeFilePayload.induct)
  case (1 ctx wr d st)
  show ?case
  proof (cases "d = [] \<or> ctx (ft_clock st) \<noteq> None")
    case True
    have "n = 0 \<and> st' = st \<and> (err = None \<longrightarrow> d = [])"
    proof (cases "d = []")
      case False
      then obtain e where "ctx (ft_clock st) = Some e" using True by auto
      then have "n = 0" "st' = st" "err = Some e"
        using "1.prems"(1) False by (simp_all add: writeFilePayload.simps [of ctx wr d st])
      then show ?thesis by simp
    qed (use "1.prems"(1) in \<open>simp add: writeFilePayload.simps [of ctx wr "[]" st]\<close>)
    then show ?thesis by auto
  next
    case False
    then have d: "d \<noteq> []" "ctx (ft_clock st) = None" by auto
    obtain c err1 st1 where w: "wr d st = ((c, err1), st1)" by (metis surj_pair)
    have s: "sent st1 = sent st @ take c d" by (rule "1.prems"(2) [OF w])
    show ?thesis
    proof (cases "err1 = None \<and> c \<noteq> 0")
      case True
      obtain m err2 st2 where rest: "writeFilePayload ctx wr (drop c d) st1 = ((m, err2), st2)" by (metis surj_pair)
      have r: "n = min c (length d) + m" "err = err2" "st' = st2"
        using "1.prems"(1) d w rest True by (auto simp: writeFilePayload.simps [of ctx wr d])
      have ih: "m \<le> length (drop c d) \<and> sent st2 = sent st1 @ take m (drop c d) \<and> (err2 = None \<longrightarrow> m = length (drop c d))"
        unfolding r(2) [symmetric] r(3) [symmetric]
        by (rule "1.IH" [OF d(1,2) w [symmetric] refl]) (use True rest r in simp, use True in simp, use rest r in simp, rule "1.prems"(2))
      show ?thesis
      proof (cases "c \<le> length d")
        case True
        then show ?thesis using ih r s by (auto simp: take_add min_def)
      qed (use ih r s in \<open>auto simp: min_def\<close>)
    next
      case False
      then show ?thesis using "1.prems"(1) d w s by (cases err1) (auto simp: writeFilePayload.simps [of ctx wr d] min_def)
    qed
  qed
qed

section \<open>Who owns the remote terminal\<close>

text \<open>
  Between commands the shell waits for a line; a command owns the terminal until its
  answer; behind \<open>READY\<close> the remote \<open>dd\<close> takes raw bytes from it.
\<close>

datatype ft_owner = Waiting | Running | Taking

fun owner_step :: "ft_owner \<Rightarrow> ft_event \<Rightarrow> ft_owner" where
  "owner_step w (FtWrote FromShell d) = Running"
| "owner_step w (FtWrote FromCommand d) = Running"
| "owner_step w (FtMarker event) =
     (if w = Waiting \<or> isFileTransferCommandComplete (hd event) then Waiting
      else if hd event = ''READY'' then Taking else Running)"
| "owner_step w e = w"

definition ft_owner :: "ft_event list \<Rightarrow> ft_owner" where
  "ft_owner tr = foldl owner_step Waiting tr"

text \<open>
  What may be written after a trace: the keep-alive only while the shell waits, raw
  bytes only while they are taken, and nothing behind a failed recovery.
\<close>

fun event_allowed :: "ft_event list \<Rightarrow> ft_event \<Rightarrow> bool" where
  "event_allowed before (FtWrote origin d) =
     (FtUnconfirmed \<notin> set before \<and> (origin = FromBeat \<longrightarrow> ft_owner before = Waiting) \<and>
      (origin = FromPayload \<longrightarrow> ft_owner before = Taking))"
| "event_allowed before e = True"

definition trace_ok :: "ft_event list \<Rightarrow> bool" where
  "trace_ok tr \<longleftrightarrow> (\<forall>i < length tr. event_allowed (take i tr) (tr ! i))"

lemma trace_ok_Nil [simp]: "trace_ok []"
  by (simp add: trace_ok_def)

lemma trace_ok_snoc [simp]: "trace_ok (tr @ [e]) \<longleftrightarrow> trace_ok tr \<and> event_allowed tr e"
  by (auto simp: trace_ok_def less_Suc_eq nth_append)

lemma ft_owner_Nil [simp]: "ft_owner [] = Waiting"
  by (simp add: ft_owner_def)

lemma ft_owner_snoc [simp]: "ft_owner (tr @ [e]) = owner_step (ft_owner tr) e"
  by (simp add: ft_owner_def)

definition ft_inv :: "ft \<Rightarrow> bool" where
  "ft_inv st \<longleftrightarrow> trace_ok (ft_trace st) \<and> (sh_idle st \<longrightarrow> ft_owner (ft_trace st) = Waiting) \<and>
     (FtUnconfirmed \<in> set (ft_trace st) \<longrightarrow> sh_recovery st \<noteq> None)"

text \<open>The bytes of raw blocks sent and received.\<close>

fun payload_event :: "ft_event \<Rightarrow> string" where
  "payload_event (FtWrote FromPayload d) = d"
| "payload_event e = []"

definition ft_payload :: "ft \<Rightarrow> string" where
  "ft_payload st = concat (map payload_event (ft_trace st))"

lemma ft_emit_simps [simp]:
  "ft_trace (ft_emit e st) = ft_trace st @ [e]" "ft_reads (ft_emit e st) = ft_reads st" "ft_pending (ft_emit e st) = ft_pending st"
  "ft_source (ft_emit e st) = ft_source st" "ft_dest (ft_emit e st) = ft_dest st" "sh_idle (ft_emit e st) = sh_idle st"
  "sh_recovery (ft_emit e st) = sh_recovery st" "sh_closed (ft_emit e st) = sh_closed st" "sh_beat_err (ft_emit e st) = sh_beat_err st"
  "sh_started (ft_emit e st) = sh_started st" "sh_beat_on (ft_emit e st) = sh_beat_on st" "ft_cursor (ft_emit e st) = ft_cursor st"
  by (simp_all add: ft_emit_def)

lemma ft_payload_emit [simp]: "ft_payload (ft_emit e st) = ft_payload st @ payload_event e"
  by (simp add: ft_payload_def)

lemma ft_inv_emit: "ft_inv st \<Longrightarrow> event_allowed (ft_trace st) e \<Longrightarrow> (sh_idle st \<longrightarrow> owner_step (ft_owner (ft_trace st)) e = Waiting) \<Longrightarrow>
    (e = FtUnconfirmed \<longrightarrow> sh_recovery st \<noteq> None) \<Longrightarrow> ft_inv (ft_emit e st)"
  by (auto simp: ft_inv_def)

section \<open>The keep-alive\<close>

text \<open>It leaves everything but its own flags, and acts only on an idle shell.\<close>

definition beat_frame :: "ft \<Rightarrow> _" where
  "beat_frame st = (ft_reads st, ft_cursor st, ft_pending st, ft_source st, ft_dest st, sh_started st, sh_closed st,
     sh_beat_on st, sh_recovery st, ft_payload st, ft_owner (ft_trace st))"

definition beat_step :: "ft \<Rightarrow> ft \<Rightarrow> bool" where
  "beat_step st st' \<longleftrightarrow> beat_frame st' = beat_frame st \<and> (sh_idle st' \<longrightarrow> sh_idle st) \<and>
     (\<not> sh_idle st \<longrightarrow> st' = st) \<and> (ft_inv st \<longrightarrow> ft_inv st') \<and> set (ft_trace st) \<subseteq> set (ft_trace st')"

lemma beat_step_preorder: "ft_preorder beat_step"
  unfolding ft_preorder_def beat_step_def by (metis subset_trans order_refl)

lemma heartbeat_step: "beat_step st (heartbeat env st)"
proof (cases "sh_idle st \<and> \<not> sh_closed st \<and> sh_beat_err st = None \<and> sh_recovery st = None")
  case True
  define R where "R = (\<lambda>a b. sh_idle a \<and> sh_recovery a = None \<longrightarrow> beat_step a b \<and> sh_idle b)"
  have rec: "beat_step a b \<Longrightarrow> sh_recovery b = sh_recovery a" for a b by (simp add: beat_step_def beat_frame_def)
  have "R a a" for a unfolding R_def using ft_preorder_refl [OF beat_step_preorder] by blast
  moreover have "R a c" if "R a b" "R b c" for a b c
    using that rec [of a b] ft_preorder_trans [OF beat_step_preorder, of a b c] unfolding R_def by simp
  ultimately have "ft_preorder R" unfolding ft_preorder_def by blast
  moreover have "R a (snd (base_write env FromBeat d a))" for a d
    unfolding R_def base_write_def beat_step_def by (simp add: ft_inv_def beat_frame_def subset_insertI)
  ultimately have "R st (snd (writeFilePayload (fe_beat_ctx env) (base_write env FromBeat) fileTransferShellBeat st))"
    by (rule writeFilePayload_keeps)
  moreover obtain n err st1 where w: "writeFilePayload (fe_beat_ctx env) (base_write env FromBeat) fileTransferShellBeat st = ((n, err), st1)"
    by (metis surj_pair)
  ultimately have b: "beat_step st st1" using True by (simp add: R_def)
  have "beat_step st (st'\<lparr>sh_beat_err := x, sh_idle := False\<rparr>)" if "beat_step st st'" for st' x
    using that True by (auto simp: beat_step_def beat_frame_def ft_inv_def ft_payload_def)
  then show ?thesis using True b by (cases err) (simp_all add: heartbeat_def w)
next
  case False
  then have "heartbeat env st = st" by (auto simp: heartbeat_def)
  then show ?thesis using ft_preorder_refl [OF beat_step_preorder] by simp
qed

lemma beat_turn_step: "beat_step st (beat_turn env st)"
proof -
  have "beat_step st (heartbeats env n st)" for n
    by (induction n arbitrary: st) (auto intro: ft_preorder_refl ft_preorder_trans beat_step_preorder heartbeat_step)
  then show ?thesis using ft_preorder_refl [OF beat_step_preorder] by (simp add: beat_turn_def)
qed

lemma beat_turn_frame:
  "ft_reads (beat_turn env st) = ft_reads st" "ft_pending (beat_turn env st) = ft_pending st"
  "ft_source (beat_turn env st) = ft_source st" "ft_dest (beat_turn env st) = ft_dest st"
  "sh_recovery (beat_turn env st) = sh_recovery st" "ft_payload (beat_turn env st) = ft_payload st"
  "ft_owner (ft_trace (beat_turn env st)) = ft_owner (ft_trace st)" "sh_closed (beat_turn env st) = sh_closed st"
  "sh_beat_on (beat_turn env st) = sh_beat_on st" "sh_started (beat_turn env st) = sh_started st"
  "ft_cursor (beat_turn env st) = ft_cursor st"
  using beat_turn_step [of st env] by (simp_all add: beat_step_def beat_frame_def)

lemma beat_turn_idle: "\<not> sh_idle st \<Longrightarrow> beat_turn env st = st"
  and beat_turn_inv: "ft_inv st \<Longrightarrow> ft_inv (beat_turn env st)"
  using beat_turn_step [of st env] by (simp_all add: beat_step_def)

section \<open>Operations that send and store nothing\<close>

definition ft_calm :: "ft \<Rightarrow> ft \<Rightarrow> bool" where
  "ft_calm st st' \<longleftrightarrow> (ft_inv st \<longrightarrow> ft_inv st') \<and> ft_source st' = ft_source st \<and> ft_dest st' = ft_dest st \<and>
     ft_payload st' = ft_payload st \<and> set (ft_trace st) \<subseteq> set (ft_trace st')"

lemma ft_calm_preorder: "ft_preorder ft_calm"
  unfolding ft_preorder_def ft_calm_def by (metis subset_trans order_refl)

lemmas ft_calm_trans = ft_preorder_trans [OF ft_calm_preorder]
lemmas ft_calm_refl = ft_preorder_refl [OF ft_calm_preorder]

lemma beat_turn_calm: "ft_calm st (beat_turn env st)"
  using beat_turn_step [of st env] by (simp add: ft_calm_def beat_step_def beat_frame_def)

fun written_event :: "ft_event \<Rightarrow> string" where
  "written_event (FtWrote origin d) = d"
| "written_event e = []"

definition ft_written :: "ft \<Rightarrow> string" where
  "ft_written st = concat (map written_event (ft_trace st))"

lemma base_write_written: "base_write env origin d st = ((c, err), st1) \<Longrightarrow> ft_written st1 = ft_written st @ take c d"
  by (auto simp: base_write_def ft_written_def)

lemma writeCommand_spec:
  assumes "writeCommand env ctx c st = Some (r, st')"
  shows "ft_calm st st' \<and> ft_pending st' = ft_pending st \<and> ft_reads st' = ft_reads st \<and>
    (r = Inr () \<longrightarrow> ft_owner (ft_trace st') = Running \<and> \<not> sh_idle st')"
proof -
  let ?s = "beat_turn env st"
  show ?thesis
  proof (cases "shell_refuses ?s")
    case (Some e)
    then show ?thesis using assms beat_turn_calm by (auto simp: writeCommand_def Let_def beat_turn_frame)
  next
    case None
    then have rec: "sh_recovery ?s = None" by (auto simp: shell_refuses_def split: option.splits)
    let ?t = "?s\<lparr>sh_idle := False\<rparr>" and ?d = "wrappedCommand c @ [CHR 0x0A]"
    have calm: "ft_calm st ?t"
      using beat_turn_calm [of st env] by (auto simp: ft_calm_def ft_inv_def ft_payload_def)
    define R where "R = (\<lambda>a b. ft_pending b = ft_pending a \<and> ft_reads b = ft_reads a \<and> sh_idle b = sh_idle a \<and>
      sh_recovery b = sh_recovery a \<and> (b = a \<or> ft_owner (ft_trace b) = Running) \<and>
      (\<not> sh_idle a \<and> sh_recovery a = None \<longrightarrow> ft_calm a b))"
    have "R a c" if "R a b" "R b c" for a b c
      using that ft_calm_trans [of a b c] unfolding R_def by metis
    then have "ft_preorder R" unfolding ft_preorder_def R_def using ft_calm_refl by blast
    moreover have "R a (snd (base_write env FromCommand d a))" for a d
      by (auto simp: R_def base_write_def ft_calm_def intro!: ft_inv_emit) (auto simp: ft_inv_def)
    ultimately have "R ?t (snd (writeFilePayload ctx (base_write env FromCommand) ?d ?t))" by (rule writeFilePayload_keeps)
    moreover obtain n err st1 where w: "writeFilePayload ctx (base_write env FromCommand) ?d ?t = ((n, err), st1)"
      by (metis surj_pair)
    ultimately have R: "R ?t st1" by simp
    have "ft_written st1 = ft_written ?t @ take n ?d \<and> (err = None \<longrightarrow> n = length ?d)"
      using writeFilePayload_sent [where sent = ft_written, OF _ w] base_write_written by blast
    then have "err = None \<longrightarrow> st1 \<noteq> ?t" by auto
    then show ?thesis using R assms None w rec ft_calm_trans [OF calm, of st1]
      by (cases err) (auto simp: writeCommand_def Let_def R_def beat_turn_frame)
  qed
qed

lemma ft_command_spec:
  assumes "ft_command env ctx c st = Some (r, st')"
  shows "ft_calm st st' \<and> ft_pending st' = ft_pending st \<and> ft_reads st' = ft_reads st \<and>
    (r = Inr () \<longrightarrow> ft_owner (ft_trace st') = Running \<and> \<not> sh_idle st')"
  using assms writeCommand_spec [of env ctx c st r st'] ft_calm_refl
  by (cases "ctx (ft_clock st)") (auto simp: ft_command_def)

text \<open>An answer.\<close>

definition ctx_error :: "goerr \<Rightarrow> bool" where
  "ctx_error e \<longleftrightarrow> err_is e CtxCanceled \<or> err_is e CtxDeadlineExceeded"

lemma protocol_not_ctx [simp]:
  "\<not> ctx_error (ErrWrap ErrFileTransferProtocol m)" "\<not> ctx_error (fileTransferRemoteError m)" "\<not> ctx_error ErrOverwrittenTransfer"
  by (simp_all add: ctx_error_def fileTransferRemoteError_def file_transfer_errors ErrOverwrittenTransfer_def)

lemma ft_calm_cong:
  "ft_calm st st1 \<Longrightarrow> ft_trace st2 = ft_trace st1 \<Longrightarrow> sh_idle st2 = sh_idle st1 \<Longrightarrow> sh_recovery st2 = sh_recovery st1 \<Longrightarrow>
    ft_source st2 = ft_source st1 \<Longrightarrow> ft_dest st2 = ft_dest st1 \<Longrightarrow> ft_calm st st2"
  by (simp add: ft_calm_def ft_inv_def ft_payload_def)

lemma ft_calm_emit:
  assumes "\<not> (\<exists>origin d. e = FtWrote origin d)" "e \<noteq> FtUnconfirmed"
  shows "ft_calm st (ft_emit e st)"
proof -
  have "event_allowed tr e" "payload_event e = []" "w = Waiting \<Longrightarrow> owner_step w e = Waiting" for tr w
    using assms by (cases e; simp)+
  then show ?thesis using assms(2) by (auto simp: ft_calm_def intro!: ft_inv_emit) (auto simp: ft_inv_def)
qed

lemma answer_seen_spec:
  "ft_calm st (answer_seen in_shell event st) \<and> ft_trace (answer_seen in_shell event st) = ft_trace st @ [FtMarker event] \<and>
   ft_pending (answer_seen in_shell event st) = ft_pending st \<and> ft_reads (answer_seen in_shell event st) = ft_reads st"
proof -
  have c: "ft_calm st (ft_emit (FtMarker event) st)" by (rule ft_calm_emit) auto
  have "ft_calm st ((ft_emit (FtMarker event) st)\<lparr>sh_idle := True\<rparr>)" if "isFileTransferCommandComplete (hd event)"
    using c that by (auto simp: ft_calm_def ft_inv_def ft_payload_def)
  then show ?thesis using c by (simp add: answer_seen_def Let_def commandCompleted_def)
qed

text \<open>What a wait for an answer ends with: an answer line, or the error of a read.\<close>

definition answered :: "string \<Rightarrow> goerr + string list \<Rightarrow> ft \<Rightarrow> ft \<Rightarrow> bool" where
  "answered phase r st st' \<longleftrightarrow> ft_calm st st' \<and>
     ((\<exists>event. event \<noteq> [] \<and> r = answer_of phase event \<and> FtMarker event \<in> set (ft_trace st') \<and>
        ft_owner (ft_trace st') = owner_step (ft_owner (ft_trace st)) (FtMarker event)) \<or>
      (\<exists>e. r = Inl e \<and> ft_owner (ft_trace st') = ft_owner (ft_trace st)))"

lemma answered_step:
  assumes "answered phase r st2 st'" "ft_calm st st2" "ft_owner (ft_trace st2) = ft_owner (ft_trace st)"
  shows "answered phase r st st'"
  using assms ft_calm_trans [of st st2 st'] unfolding answered_def by auto

lemma expect_loop_found:
  assumes "take_answer token (ft_pending st) = Inr (event, rest)" "expect_loop env in_shell token phase rs st = Some (r, st')"
  shows "answered phase r st st'"
proof -
  let ?s = "st\<lparr>ft_pending := rest, ft_reads := rs\<rparr>"
  have "r = answer_of phase event" "st' = answer_seen in_shell event ?s"
    using assms by (simp_all add: expect_loop.simps [of env in_shell token phase rs st])
  moreover have "ft_calm st ?s" by (rule ft_calm_cong [OF ft_calm_refl]) simp_all
  moreover have "event \<noteq> []" using assms(1) by (auto simp: take_answer_def split: option.splits)
  ultimately show ?thesis
    using answer_seen_spec [of ?s in_shell event] ft_calm_trans [of st ?s] by (auto simp: answered_def)
qed

lemma expect_loop_spec: "expect_loop env in_shell token phase rs st = Some (r, st') \<Longrightarrow> answered phase r st st'"
proof (induction rs arbitrary: st)
  case Nil
  show ?case
  proof (cases "take_answer token (ft_pending st)")
    case (Inr x)
    then show ?thesis using Nil expect_loop_found by (cases x) blast
  qed (use Nil in \<open>simp add: expect_loop.simps [of _ _ _ _ "[]"]\<close>)
next
  case (Cons a rs)
  show ?case
  proof (cases "take_answer token (ft_pending st)")
    case (Inl kept)
    let ?b = "beat_turn env st"
    have calm: "ft_calm st (?b\<lparr>ft_pending := p, ft_reads := q\<rparr>)" "ft_calm st (?b\<lparr>ft_cursor := c, ft_pending := p\<rparr>)" for p q c
      by (rule ft_calm_cong [OF beat_turn_calm]; simp)+
    show ?thesis
    proof (cases a)
      case (Inl e)
      then have "r = Inl e" "st' = ?b\<lparr>ft_pending := kept, ft_reads := rs\<rparr>"
        using Cons.prems \<open>take_answer token (ft_pending st) = Inl kept\<close>
        by (simp_all add: expect_loop.simps [of _ _ _ _ "x # rs" for x] Let_def)
      then show ?thesis using calm unfolding answered_def by (simp add: beat_turn_frame del: owner_step.simps)
    next
      case (Inr chunk)
      let ?n = "?b\<lparr>ft_cursor := oc_next chunk, ft_pending := kept @ oc_data chunk\<rparr>"
      show ?thesis
      proof (cases "oc_dropped chunk")
        case True
        then have "r = Inl ErrOverwrittenTransfer" "st' = ?b\<lparr>ft_pending := kept, ft_reads := rs\<rparr>"
          using Cons.prems \<open>take_answer token (ft_pending st) = Inl kept\<close> Inr
          by (simp_all add: expect_loop.simps [of _ _ _ _ "x # rs" for x] Let_def)
        then show ?thesis using calm unfolding answered_def by (simp add: beat_turn_frame del: owner_step.simps)
      next
        case False
        then have "expect_loop env in_shell token phase rs ?n = Some (r, st')"
          using Cons.prems \<open>take_answer token (ft_pending st) = Inl kept\<close> Inr
          by (simp add: expect_loop.simps [of _ _ _ _ "x # rs" for x] Let_def)
        from Cons.IH [OF this] show ?thesis by (rule answered_step) (simp_all add: calm beat_turn_frame)
      qed
    qed
  next
    case (Inr x)
    then show ?thesis using Cons.prems expect_loop_found by (cases x) blast
  qed
qed

text \<open>What \<open>expect\<close> ends with, as seen by the owner of the terminal.\<close>

lemma answer_of_Inr: "event \<noteq> [] \<Longrightarrow> answer_of phase event = Inr x \<Longrightarrow> event = phase # x"
  by (cases event) (auto simp: answer_of_def split: if_splits)

lemma expectPhase_spec: "expectPhase env token phase st = Some (r, st') \<Longrightarrow> answered phase r st st'"
  unfolding expectPhase_def by (rule expect_loop_spec)

lemma answer_not_ctx: "answer_of phase event = Inl e \<Longrightarrow> \<not> ctx_error e"
  by (auto simp: answer_of_def split: if_splits)

lemma expect_spec:
  assumes "expect env token phase args st = Some (r, st')"
  shows "ft_calm st st'"
    and "r = Inr () \<Longrightarrow> FtMarker (phase # args) \<in> set (ft_trace st') \<and>
      ft_owner (ft_trace st') = owner_step (ft_owner (ft_trace st)) (FtMarker (phase # args))"
    and "r = Inl e \<Longrightarrow> ctx_error e \<Longrightarrow> ft_owner (ft_trace st') = ft_owner (ft_trace st)"
proof -
  have "ft_calm st st' \<and> (r = Inr () \<longrightarrow> FtMarker (phase # args) \<in> set (ft_trace st') \<and>
      ft_owner (ft_trace st') = owner_step (ft_owner (ft_trace st)) (FtMarker (phase # args))) \<and>
    (\<forall>e. r = Inl e \<longrightarrow> ctx_error e \<longrightarrow> ft_owner (ft_trace st') = ft_owner (ft_trace st))"
    using assms unfolding expect_def
  proof (cases rule: ft_bind_cases)
    case (failed e)
    then show ?thesis using expectPhase_spec [OF failed(1)] answer_not_ctx by (fastforce simp: answered_def simp del: owner_step.simps)
  next
    case (went event st1)
    note a = expectPhase_spec [OF went(1)]
    show ?thesis using went(2) a answer_of_Inr by (fastforce simp: answered_def ft_fail_def ft_ret_def simp del: owner_step.simps split: if_splits)
  qed
  then show "ft_calm st st'" "r = Inr () \<Longrightarrow> FtMarker (phase # args) \<in> set (ft_trace st') \<and>
      ft_owner (ft_trace st') = owner_step (ft_owner (ft_trace st)) (FtMarker (phase # args))"
    "r = Inl e \<Longrightarrow> ctx_error e \<Longrightarrow> ft_owner (ft_trace st') = ft_owner (ft_trace st)" by blast+
qed

end
