(* ===== verification/File_Safety.thy ===== *)
theory File_Safety
  imports File_Rules
begin

text \<open>
  The discipline of a file transfer on the terminal, for every run: the keep-alive
  writes only while the remote shell waits for a command, raw bytes are written only
  while the remote \<open>dd\<close> takes them, and nothing is written once a recovery has failed.
\<close>

section \<open>What the remaining operations keep\<close>

named_theorems ft_kept \<open>operations that keep \<open>ft_calm\<close>\<close>

lemmas calm_same [ft_kept] = ft_keeps_same [OF ft_calm_preorder]
lemmas calm_bind = ft_keeps_bind [OF ft_calm_preorder]
lemmas calm_handle = ft_keeps_handle [OF ft_calm_preorder]
lemmas calm_wrap = ft_keeps_wrap [OF ft_calm_preorder]

lemma exact_loop_done:
  assumes "int (length (take (nat n) (ft_pending st))) \<ge> n"
  shows "exact_loop env n acc rs st =
    Some ((acc @ take (nat n) (ft_pending st), None), ft_emit (FtRaw (acc @ take (nat n) (ft_pending st)))
      (st\<lparr>ft_pending := drop (length (take (nat n) (ft_pending st))) (ft_pending st), ft_reads := rs\<rparr>))"
  by (subst exact_loop.simps) (simp only: Let_def assms if_True simp_thms)

lemma exact_loop_more:
  assumes "\<not> int (length (take (nat n) (ft_pending st))) \<ge> n"
  shows "exact_loop env n acc (r # rs) st =
    (let got = take (nat n) (ft_pending st); st1 = beat_turn env (st\<lparr>ft_pending := drop (length got) (ft_pending st)\<rparr>);
         failed = ft_emit (FtRaw (acc @ got)) (st1\<lparr>ft_reads := rs\<rparr>)
     in case r of
          Inl e \<Rightarrow> Some ((acc @ got, Some e), failed)
        | Inr chunk \<Rightarrow>
            if oc_dropped chunk then Some ((acc @ got, Some ErrOverwrittenTransfer), failed)
            else exact_loop env (n - int (length got)) (acc @ got) rs (st1\<lparr>ft_cursor := oc_next chunk, ft_pending := oc_data chunk\<rparr>))"
  by (subst exact_loop.simps) (simp only: Let_def assms if_False list.case)

lemma exact_loop_spec:
  "exact_loop env n acc rs st = Some ((d, err), st') \<Longrightarrow>
    ft_calm st st' \<and> ft_owner (ft_trace st') = ft_owner (ft_trace st) \<and>
    (err = None \<longrightarrow> 0 \<le> n \<longrightarrow> int (length d) = int (length acc) + n)"
proof (induction rs arbitrary: n acc st)
  case Nil
  let ?got = "take (nat n) (ft_pending st)"
  let ?s = "st\<lparr>ft_pending := drop (length ?got) (ft_pending st), ft_reads := []\<rparr>"
  have s: "ft_calm st ?s" by (rule ft_calm_cong [OF ft_calm_refl]) simp_all
  have f: "ft_calm st (ft_emit (FtRaw x) ?s)" for x by (rule ft_calm_trans [OF s ft_calm_emit]) auto
  have "n \<le> int (length ?got)" "err = None" "d = acc @ ?got" "st' = ft_emit (FtRaw (acc @ ?got)) ?s"
    using Nil by (auto simp: exact_loop.simps [of _ _ _ "[]"] Let_def split: if_splits)
  then show ?case using f [of "acc @ ?got"] by auto
next
  case (Cons a rs)
  let ?got = "take (nat n) (ft_pending st)"
  let ?s = "st\<lparr>ft_pending := drop (length ?got) (ft_pending st)\<rparr>"
  have s: "ft_calm st ?s" "ft_calm st (?s\<lparr>ft_reads := a # rs\<rparr>)" by (rule ft_calm_cong [OF ft_calm_refl]; simp)+
  show ?case
  proof (cases "int (length ?got) \<ge> n")
    case True
    have f: "ft_calm st (ft_emit (FtRaw x) (?s\<lparr>ft_reads := a # rs\<rparr>))" for x
      by (rule ft_calm_trans [OF s(2) ft_calm_emit]) auto
    have "err = None" "d = acc @ ?got" "st' = ft_emit (FtRaw (acc @ ?got)) (?s\<lparr>ft_reads := a # rs\<rparr>)"
      using Cons.prems unfolding exact_loop_done [OF True] by auto
    then show ?thesis using True f [of "acc @ ?got"] by auto
  next
    case False
    let ?b = "beat_turn env ?s"
    have b: "ft_calm st (?b\<lparr>ft_reads := q\<rparr>)" "ft_calm st (?b\<lparr>ft_cursor := c, ft_pending := p\<rparr>)" for q c p
      by (rule ft_calm_trans [OF s(1) ft_calm_cong [OF beat_turn_calm]]; simp)+
    have owner: "ft_owner (ft_trace ?b) = ft_owner (ft_trace st)" by (simp add: beat_turn_frame)
    have failed: "ft_calm st (ft_emit (FtRaw x) (?b\<lparr>ft_reads := rs\<rparr>))" for x
      by (rule ft_calm_trans [OF b(1) ft_calm_emit]) auto
    show ?thesis
    proof (cases "\<exists>chunk. a = Inr chunk \<and> \<not> oc_dropped chunk")
      case True
      then obtain chunk where a: "a = Inr chunk" "\<not> oc_dropped chunk" by blast
      let ?n = "?b\<lparr>ft_cursor := oc_next chunk, ft_pending := oc_data chunk\<rparr>"
      have "exact_loop env (n - int (length ?got)) (acc @ ?got) rs ?n = Some ((d, err), st')"
        using Cons.prems a unfolding exact_loop_more [OF False] by (simp add: Let_def)
      from Cons.IH [OF this] show ?thesis using False owner ft_calm_trans [OF b(2), of "oc_data chunk" "oc_next chunk" st'] by auto
    next
      case no: False
      then obtain e where "err = Some e" "d = acc @ ?got" "st' = ft_emit (FtRaw d) (?b\<lparr>ft_reads := rs\<rparr>)"
        using Cons.prems unfolding exact_loop_more [OF False] by (cases a) (auto simp: Let_def)
      then show ?thesis using failed owner by simp
    qed
  qed
qed

lemma readExact_spec:
  "readExact env n st = Some ((d, err), st') \<Longrightarrow>
    ft_calm st st' \<and> ft_owner (ft_trace st') = ft_owner (ft_trace st) \<and> (err = None \<longrightarrow> 0 \<le> n \<longrightarrow> int (length d) = n)"
  unfolding readExact_def using exact_loop_spec [of env n "[]" "ft_reads st" st d err st'] by simp

text \<open>A failed recovery is recorded; everything else stays.\<close>

lemma calm_recovery: "ft_calm st st1 \<Longrightarrow> ft_calm st (st1\<lparr>sh_recovery := Some e\<rparr>)"
  by (auto simp: ft_calm_def ft_inv_def ft_payload_def)

lemma base_recoveryError_spec:
  assumes "base_recoveryError env e st = (e', st')"
  shows "ft_calm st st' \<and> ft_owner (ft_trace st') = ft_owner (ft_trace st) \<and> sh_recovery st' = sh_recovery st \<and>
    sh_started st' = sh_started st \<and> sh_closed st' = sh_closed st"
  using assms ft_calm_refl ft_calm_emit [of FtAbort st]
  by (auto simp: base_recoveryError_def Let_def split: if_splits option.splits)

lemma shell_recoveryError_spec:
  assumes "shell_recoveryError env e st = (e', st')"
  shows "ft_calm st st' \<and> ft_owner (ft_trace st') = ft_owner (ft_trace st) \<and> sh_recovery st' \<noteq> None \<and>
    sh_started st' = sh_started st \<and> sh_closed st' = sh_closed st"
proof (cases "sh_recovery st")
  case None
  let ?s = "ft_emit FtUnconfirmed (st\<lparr>sh_recovery := Some (ErrJoin ErrFileTransferRecoveryUnconfirmed e)\<rparr>)"
  have s: "ft_calm st ?s" by (auto simp: ft_calm_def ft_inv_def ft_payload_def)
  obtain st1 where b: "base_recoveryError env e ?s = (e', st1)" "st' = st1\<lparr>sh_recovery := Some e'\<rparr>"
    using assms None by (auto simp: shell_recoveryError_def Let_def split: prod.splits)
  note r = base_recoveryError_spec [OF b(1)]
  have "ft_calm st st'" unfolding b(2) by (rule calm_recovery) (use r s ft_calm_trans in blast)
  then show ?thesis using r b(2) by simp
qed (use assms ft_calm_refl in \<open>auto simp: shell_recoveryError_def\<close>)

lemma recoveryError_spec:
  "recoveryError env e st = (e', st') \<Longrightarrow> ft_calm st st' \<and> ft_owner (ft_trace st') = ft_owner (ft_trace st)"
  using shell_recoveryError_spec [of env e st e' st'] ft_calm_refl by (auto simp: recoveryError_def split: if_splits)

lemma keeps_recovered: "ft_keeps ft_calm m \<Longrightarrow> ft_keeps ft_calm (ft_recovered env m)"
  unfolding ft_recovered_def
  by (rule calm_handle, assumption, rule ft_keepsI) (auto dest: recoveryError_spec split: prod.splits)

lemma keeps_shell_recovered: "ft_keeps ft_calm m \<Longrightarrow> ft_keeps ft_calm (shell_recovered env m)"
  unfolding shell_recovered_def
  by (rule calm_handle, assumption, rule ft_keepsI) (auto dest: shell_recoveryError_spec split: prod.splits)

lemma command_kept [ft_kept]: "ft_keeps ft_calm (ft_command env ctx c)"
  by (rule ft_keepsI) (use ft_command_spec in blast)

lemma expectPhase_kept [ft_kept]: "ft_keeps ft_calm (expectPhase env token phase)"
  by (rule ft_keepsI) (use expectPhase_spec in \<open>auto simp: answered_def\<close>)

lemma expect_kept [ft_kept]: "ft_keeps ft_calm (expect env token phase args)"
  by (rule ft_keepsI) (rule expect_spec(1))

lemma finishPendingMarker_kept [ft_kept]: "ft_keeps ft_calm (finishPendingMarker env token phase arg)"
  unfolding finishPendingMarker_def by (intro keeps_recovered ft_kept)

lemma finishReceiveChunk_kept [ft_kept]: "ft_keeps ft_calm (finishReceiveChunk env token n k)"
proof (rule ft_keepsI)
  fix st r st' assume n: "finishReceiveChunk env token n k st = Some (r, st')"
  obtain d err st1 where x: "readExact env n st = Some ((d, err), st1)"
    using n by (cases "readExact env n st") (auto simp: finishReceiveChunk_def)
  note c = readExact_spec [OF x]
  have e: "ft_keeps ft_calm (ft_recovered env (expect env token ''ACK'' [format_int k]))" by (intro keeps_recovered ft_kept)
  show "ft_calm st st'"
  proof (cases err)
    case None
    then show ?thesis using n x c ft_keepsD [OF e] ft_calm_trans by (auto simp: finishReceiveChunk_def)
  next
    case (Some y)
    then show ?thesis using n x c recoveryError_spec ft_calm_trans
      by (auto simp: finishReceiveChunk_def split: prod.splits)
  qed
qed

lemma checkpoint_kept [ft_kept]: "ft_keeps ft_calm (fileTransferCancellationCheckpoint env cancel)"
  by (rule ft_keepsI) (auto simp: fileTransferCancellationCheckpoint_def ft_check_def ft_fail_def ft_ret_def ft_calm_refl split: if_splits option.splits)

lemma progress_kept [ft_kept]: "ft_keeps ft_calm (report_progress env k n)"
  using ft_calm_emit [of "FtProgress k n"]
  by (intro ft_keepsI) (auto simp: report_progress_def ft_check_def ft_fail_def ft_ret_def ft_calm_refl split: option.splits)

lemma token_kept [ft_kept]: "ft_keeps ft_calm (newFileTransferToken env)"
  by (rule ft_keepsI) (auto simp: newFileTransferToken_def ft_calm_refl split: sum.splits)

lemma newFileProtocol_kept [ft_kept]: "ft_keeps ft_calm (newFileProtocol env ctx)"
  unfolding newFileProtocol_def
proof (intro calm_bind ft_kept)
  show "ft_keeps ft_calm (\<lambda>st. case fe_recent env (ft_clock st) of
      Inl e \<Rightarrow> Some (Inl (ErrWrap e ''initialize file transfer output cursor''), st)
    | Inr cursor \<Rightarrow> Some (Inr token, st\<lparr>ft_cursor := cursor, ft_pending := []\<rparr>))" for token :: string
    by (rule ft_keepsI) (auto split: sum.splits intro: ft_calm_refl ft_calm_cong [OF ft_calm_refl])
qed

lemma keeps_option: "(\<And>e. ft_keeps R (f e)) \<Longrightarrow> ft_keeps R (g) \<Longrightarrow> ft_keeps R (case x of None \<Rightarrow> g | Some e \<Rightarrow> f e)"
  by (cases x) auto

lemma select_loop_kept [ft_kept]: "ft_keeps ft_calm (select_loop k env ctx token wanted candidate i)"
proof (induction k arbitrary: candidate i)
  case (Suc k)
  have "ft_keeps ft_calm (ft_bind (ft_command env ctx c) (\<lambda>u. ft_bind (expectPhase env token ''PICK'') (\<lambda>event.
      case event of [pick] \<Rightarrow>
        if pick = ''FREE'' then ft_ret (candidate, q)
        else if pick = ''EXISTS'' then select_loop k env ctx token wanted (incrementPOSIXFilename wanted (i + 1)) (i + 1)
        else ft_fail (ErrWrap ErrFileTransferProtocol (''PICK result '' @ pick))
      | _ \<Rightarrow> ft_fail (ErrWrap ErrFileTransferProtocol ''PICK arguments''))))" for c q
    by (intro calm_bind ft_kept) (auto split: list.splits intro: Suc ft_kept)
  then show ?case
    by (intro ft_keepsI) (auto split: sum.splits dest: ft_keepsD intro: ft_calm_refl)
qed (auto simp: ft_keeps_def)

lemma select_kept [ft_kept]: "ft_keeps ft_calm (selectAvailableRemotePath env ctx token wanted)"
  unfolding selectAvailableRemotePath_def by (rule ft_keepsI) (rule ft_keepsD [OF select_loop_kept])

section \<open>Blocks\<close>

lemma take_phase [simp]: "\<not> isFileTransferCommandComplete ''READY''"
  by (simp add: isFileTransferCommandComplete_def equal_fold_def)

lemma finishPendingMarker_Inr:
  "finishPendingMarker env token phase arg st = Some (Inr u, st') \<Longrightarrow> expect env token phase [arg] st = Some (Inr u, st')"
  unfolding finishPendingMarker_def ft_recovered_def by (erule ft_handle_cases) (auto split: prod.splits)

text \<open>The remote \<open>dd\<close> takes bytes and nothing broke the discipline so far.\<close>

definition ft_taking :: "ft \<Rightarrow> bool" where
  "ft_taking st \<longleftrightarrow> ft_inv st \<and> ft_owner (ft_trace st) = Taking"

lemma taking_calm: "ft_taking st \<Longrightarrow> ft_calm st st' \<Longrightarrow> ft_owner (ft_trace st') = ft_owner (ft_trace st) \<Longrightarrow> ft_taking st'"
  by (simp add: ft_taking_def ft_calm_def)

lemma shell_write_payload:
  "shell_WriteContext env ctx d st = ((c, err), st') \<Longrightarrow> ft_payload st' = ft_payload st @ take c d"
  by (auto simp: shell_WriteContext_def Let_def base_write_def beat_turn_frame split: option.splits if_splits)

lemma shell_write_taking:
  assumes "ft_taking st" "shell_WriteContext env ctx d st = ((c, err), st')"
  shows "ft_taking st' \<and> ft_source st' = ft_source st \<and> ft_dest st' = ft_dest st"
proof -
  have "\<not> sh_idle st" using assms(1) by (auto simp: ft_taking_def ft_inv_def)
  then have b: "beat_turn env st = st" by (rule beat_turn_idle)
  have "ft_taking (ft_emit (FtWrote FromPayload x) st)" if "shell_refuses st = None" for x
    using that assms(1) \<open>\<not> sh_idle st\<close> by (auto simp: ft_taking_def ft_inv_def shell_refuses_def split: option.splits)
  then show ?thesis using assms b
    by (auto simp: shell_WriteContext_def Let_def base_write_def split: option.splits if_splits)
qed

lemma payload_taking:
  assumes "ft_taking st" "writeFilePayload ctx (shell_WriteContext env ctx) d st = ((n, err), st')"
  shows "ft_taking st' \<and> ft_source st' = ft_source st \<and> ft_dest st' = ft_dest st \<and> n \<le> length d \<and>
    ft_payload st' = ft_payload st @ take n d \<and> (err = None \<longrightarrow> n = length d)"
proof -
  define R where "R = (\<lambda>a b. ft_taking a \<longrightarrow> ft_taking b \<and> ft_source b = ft_source a \<and> ft_dest b = ft_dest a)"
  have "ft_preorder R" unfolding ft_preorder_def R_def by simp
  moreover have "R a (snd (shell_WriteContext env ctx d a))" for a d
    using shell_write_taking [of a env ctx d] by (cases "shell_WriteContext env ctx d a") (auto simp: R_def)
  ultimately have "R st (snd (writeFilePayload ctx (shell_WriteContext env ctx) d st))" by (rule writeFilePayload_keeps)
  then have "ft_taking st' \<and> ft_source st' = ft_source st \<and> ft_dest st' = ft_dest st" using assms by (simp add: R_def)
  moreover have "n \<le> length d \<and> ft_payload st' = ft_payload st @ take n d \<and> (err = None \<longrightarrow> n = length d)"
    using writeFilePayload_sent [where sent = ft_payload, OF _ assms(2)] shell_write_payload by blast
  ultimately show ?thesis by blast
qed

lemma finishSendChunk_inv:
  assumes "ft_taking st" "finishSendChunk env token k n st = Some (r, st')"
  shows "ft_inv st'"
proof -
  obtain m err st1 where p: "(if k > 0
      then writeFilePayload (fe_recovery env) (shell_WriteContext env (fe_recovery env)) (replicate (nat k) (CHR 0x00)) st
      else ((0, None), st)) = ((m, err), st1)" by (metis surj_pair)
  have "ft_taking st1" using p payload_taking [OF assms(1)] assms(1) by (auto split: if_splits)
  then have i: "ft_inv st1" by (simp add: ft_taking_def)
  show ?thesis
  proof (cases err)
    case None
    then have "finishPendingMarker env token ''ACK'' (format_int n) st1 = Some (r, st')"
      using assms(2) p by (simp add: finishSendChunk_def)
    from ft_keepsD [OF finishPendingMarker_kept this] show ?thesis using i by (simp add: ft_calm_def)
  next
    case (Some e)
    then obtain e' where "recoveryError env (ErrWrap e ''restore remote TTY after interrupted send'') st1 = (e', st')"
      using assms(2) p by (auto simp: finishSendChunk_def split: prod.splits)
    from recoveryError_spec [OF this] show ?thesis using i by (simp add: ft_calm_def)
  qed
qed

lemma expect_ready:
  assumes "ft_inv st" "ft_owner (ft_trace st) = Running" "expect env token ''READY'' args st = Some (Inr u, st')"
  shows "ft_taking st'"
  using expect_spec(1,2) [OF assms(3)] assms(1,2) by (simp add: ft_taking_def ft_calm_def)

lemma finishUnconfirmedSendChunk_inv:
  assumes "ft_inv st" "ft_owner (ft_trace st) = Running" "finishUnconfirmedSendChunk env token n st = Some (r, st')"
  shows "ft_inv st'"
  using assms(3) unfolding finishUnconfirmedSendChunk_def
proof (cases rule: ft_bind_cases)
  case (failed e)
  then show ?thesis using ft_keepsD [OF finishPendingMarker_kept] assms(1) by (auto simp: ft_calm_def)
next
  case (went u st1)
  then have "ft_taking st1" using expect_ready [OF assms(1,2)] finishPendingMarker_Inr by blast
  then show ?thesis using went(2) finishSendChunk_inv by blast
qed

lemma ft_interrupted_cases:
  assumes "ft_interrupted message cleanup e st = Some (r, st')"
  shows "(\<exists>e'. r = Inl e') \<and> (st' = st \<or> ctx_error e \<and> (\<exists>r'. cleanup st = Some (r', st')))"
  using assms unfolding ft_interrupted_def ctx_error_def [symmetric]
  by (cases "cleanup st") (auto split: if_splits sum.splits)

lemma interrupted_Inr:
  "ft_handle m (ft_interrupted message cleanup) st = Some (Inr a, st') \<Longrightarrow> m st = Some (Inr a, st')"
  by (erule ft_handle_cases) (use ft_interrupted_cases in \<open>blast, simp\<close>)

lemma send_payload_inv:
  assumes "ft_taking st" "file_send_payload env ctx token message d n st = Some (r, st')"
  shows "ft_inv st' \<and> (r = Inr () \<longrightarrow> ft_payload st' = ft_payload st @ d \<and> ft_source st' = ft_source st \<and> ft_dest st' = ft_dest st)"
proof -
  obtain m err st1 where w: "writeFilePayload ctx (shell_WriteContext env ctx) d st = ((m, err), st1)" by (metis surj_pair)
  note p = payload_taking [OF assms(1) w]
  show ?thesis
  proof (cases err)
    case None
    then show ?thesis using assms(2) w p by (auto simp: file_send_payload_def ft_taking_def)
  next
    case (Some e)
    then obtain r1 where "finishSendChunk env token (n - int m) n st1 = Some (r1, st')" "\<exists>e. r = Inl e"
      using assms(2) w by (auto simp: file_send_payload_def split: option.splits sum.splits)
    then show ?thesis using p finishSendChunk_inv by auto
  qed
qed

lemma send_block_inv:
  assumes "ft_inv st" "send_block env ctx texts token quoted k n d st = Some (r, st')"
  shows "ft_inv st' \<and> (r = Inr () \<longrightarrow> ft_payload st' = ft_payload st @ d \<and> ft_source st' = ft_source st \<and> ft_dest st' = ft_dest st)"
  using assms(2) unfolding send_block_def
proof (cases rule: ft_bind_cases)
  case (failed e)
  then show ?thesis using ft_command_spec [OF failed(1)] assms(1) by (auto simp: ft_calm_def)
next
  case (went u st1)
  note c = ft_command_spec [OF went(1)]
  have st1: "ft_inv st1" "ft_owner (ft_trace st1) = Running" using c assms(1) by (auto simp: ft_calm_def)
  from went(2) show ?thesis
  proof (cases rule: ft_bind_cases)
    case (failed e)
    from failed(1) show ?thesis
    proof (cases rule: ft_handle_cases)
      case (handled e1 st2)
      note x = expect_spec [OF handled(1)]
      have "ft_inv st2" using x(1) st1 by (simp add: ft_calm_def)
      moreover have "ctx_error e1 \<Longrightarrow> ft_owner (ft_trace st2) = Running" using x(3) st1 by simp
      ultimately show ?thesis using ft_interrupted_cases [OF handled(2)] finishUnconfirmedSendChunk_inv failed(2) by auto
    qed (use failed in simp)
  next
    case (went u2 st2)
    from went(1) have "expect env token ''READY'' [format_int n] st1 = Some (Inr u2, st2)" by (rule interrupted_Inr)
    note t = expect_ready [OF st1 this] and s2 = expect_spec(1) [OF this]
    from went(2) show ?thesis
    proof (cases rule: ft_bind_cases)
      case (failed e)
      then show ?thesis using send_payload_inv [OF t failed(1)] by simp
    next
      case (went u3 st3)
      note s3 = send_payload_inv [OF t went(1)]
      have "ft_keeps ft_calm (ft_handle (expect env token ''ACK'' [format_int n]) (ft_interrupted m (finishPendingMarker env token a b)))" for m a b
      proof (intro calm_handle ft_kept ft_keepsI)
        fix e st r st' assume "ft_interrupted m (finishPendingMarker env token a b) e st = Some (r, st' :: ft)"
        from ft_interrupted_cases [OF this] show "ft_calm st st'"
          using ft_calm_refl ft_keepsD [OF finishPendingMarker_kept] by blast
      qed
      from ft_keepsD [OF this went(2)] show ?thesis using s3 s2 c by (auto simp: ft_calm_def)
    qed
  qed
qed

section \<open>Whole transfers\<close>

definition ft_disciplined :: "ft \<Rightarrow> ft \<Rightarrow> bool" where
  "ft_disciplined st st' \<longleftrightarrow> (ft_inv st \<longrightarrow> ft_inv st')"

lemma disciplined_preorder: "ft_preorder ft_disciplined"
  by (simp add: ft_preorder_def ft_disciplined_def)

lemma calm_disciplined: "ft_keeps ft_calm m \<Longrightarrow> ft_keeps ft_disciplined m"
  by (auto simp: ft_keeps_def ft_calm_def ft_disciplined_def)

lemmas disciplined_bind = ft_keeps_bind [OF disciplined_preorder]
lemmas disciplined_wrap = ft_keeps_wrap [OF disciplined_preorder]
lemmas disciplined_same = ft_keeps_same [OF disciplined_preorder]

text \<open>The parts of the transfers that keep the discipline.\<close>

lemma send_block_disciplined: "ft_keeps ft_disciplined (send_block env ctx texts token quoted k n d)"
  by (rule ft_keepsI) (use send_block_inv in \<open>auto simp: ft_disciplined_def\<close>)

lemma ReadFull_disciplined: "ft_keeps ft_disciplined (source_ReadFull env n)"
  by (rule ft_keepsI) (auto simp: source_ReadFull_def Let_def ft_disciplined_def ft_inv_def split: if_splits)

lemma writeAllTo_disciplined: "ft_keeps ft_disciplined (writeAllTo env d)"
proof (rule ft_keepsI)
  fix st r st' show "writeAllTo env d st = Some (r, st') \<Longrightarrow> ft_disciplined st st'"
  proof (induction env d st rule: writeAllTo.induct)
    case (1 env d st)
    obtain c err st1 where w: "dest_write env d st = ((c, err), st1)" by (metis surj_pair)
    then have "ft_inv st \<Longrightarrow> ft_inv st1" by (auto simp: dest_write_def ft_inv_def)
    moreover have "d \<noteq> [] \<Longrightarrow> err = None \<Longrightarrow> c \<noteq> 0 \<Longrightarrow> ft_disciplined st1 st'"
      using 1 w by (simp add: writeAllTo.simps [of env d st])
    ultimately show ?case using 1(2) w
      by (auto simp: writeAllTo.simps [of env d st] ft_disciplined_def split: if_splits option.splits)
  qed
qed

lemma send_loop_disciplined: "ft_keeps ft_disciplined (send_loop env ctx cancel texts token quoted n transferred hashed)"
proof (induction "nat (n - transferred)" arbitrary: transferred hashed rule: less_induct)
  case less
  show ?case
  proof (cases "transferred < n")
    case True
    then have k: "nat (n - (transferred + block_size n transferred)) < nat (n - transferred)"
      by (auto simp: block_size_def FileTransferChunkSize_def)
    show ?thesis
      by (subst send_loop.simps)
        (simp add: True Let_def, intro disciplined_bind disciplined_wrap calm_disciplined [OF checkpoint_kept]
          calm_disciplined [OF progress_kept] ReadFull_disciplined send_block_disciplined less k)
  qed (subst send_loop.simps, simp add: disciplined_same)
qed

lemma verify_sent_disciplined: "ft_keeps ft_disciplined (verify_sent env ctx token remotePath quoted n hashed)"
  unfolding verify_sent_def Let_def
  by (intro disciplined_bind disciplined_wrap calm_disciplined [OF command_kept] calm_disciplined [OF expectPhase_kept])
    (auto split: sum.splits intro!: disciplined_bind disciplined_same calm_disciplined [OF progress_kept])

lemma send_scoped_disciplined: "ft_keeps ft_disciplined (send_scoped env ctx cancel n wanted)"
proof -
  have body: "ft_keeps ft_disciplined (case quoteRemotePath (path_Dir remotePath) of Inl e \<Rightarrow> ft_fail e
    | Inr directory \<Rightarrow>
        ft_bind (ft_command env ctx (sendInitCommand token quoted directory)) (\<lambda>u.
        ft_bind (ft_wrap (''initialize remote file '' @ remotePath) (expect env token ''INIT'' [''OK''])) (\<lambda>u.
        ft_bind (fileTransferCancellationCheckpoint env cancel) (\<lambda>u.
        ft_bind (send_loop env ctx cancel file_send_texts token quoted n 0 []) (\<lambda>hashed.
        ft_bind (fileTransferCancellationCheckpoint env cancel) (\<lambda>u.
        ft_bind (ft_wrap ''local file changed while sending'' (\<lambda>st. ft_check (source_trailing env st) st)) (\<lambda>u.
        verify_sent env ctx token remotePath quoted n hashed)))))))" for token remotePath quoted
    by (cases "quoteRemotePath (path_Dir remotePath)")
      (auto intro!: disciplined_bind disciplined_wrap disciplined_same calm_disciplined [OF checkpoint_kept]
        calm_disciplined [OF command_kept] calm_disciplined [OF expect_kept] send_loop_disciplined verify_sent_disciplined)
  show ?thesis unfolding send_scoped_def
    by (intro disciplined_bind calm_disciplined [OF newFileProtocol_kept] calm_disciplined [OF checkpoint_kept]
        calm_disciplined [OF select_kept])
      (simp add: split_def, intro disciplined_bind calm_disciplined [OF checkpoint_kept] body)
qed

lemma finishUnconfirmedReceiveChunk_kept [ft_kept]: "ft_keeps ft_calm (finishUnconfirmedReceiveChunk env token n)"
  unfolding finishUnconfirmedReceiveChunk_def by (intro calm_bind ft_kept)

lemma interrupted_kept: "ft_keeps ft_calm cleanup \<Longrightarrow> ft_keeps ft_calm (ft_interrupted message cleanup e)"
  by (rule ft_keepsI) (use ft_interrupted_cases ft_calm_refl in \<open>blast dest: ft_keepsD\<close>)

lemma receive_payload_kept [ft_kept]: "ft_keeps ft_calm (file_receive_payload env token message n)"
proof (rule ft_keepsI)
  fix st r st' assume p: "file_receive_payload env token message n st = Some (r, st')"
  obtain d err st1 where x: "readExact env n st = Some ((d, err), st1)"
    using p by (cases "readExact env n st") (auto simp: file_receive_payload_def)
  have c: "ft_calm st st1" using readExact_spec [OF x] by simp
  show "ft_calm st st'"
  proof (cases err)
    case (Some e)
    then have "ft_interrupted message (finishReceiveChunk env token (n - int (length d)) n) e st1 = Some (r, st')"
      using p x by (simp add: file_receive_payload_def)
    from ft_keepsD [OF interrupted_kept [OF finishReceiveChunk_kept] this] show ?thesis using c ft_calm_trans by blast
  qed (use p x c in \<open>simp add: file_receive_payload_def\<close>)
qed

lemma receive_block_kept [ft_kept]: "ft_keeps ft_calm (receive_block env ctx texts token quoted k i n)"
  unfolding receive_block_def by (intro calm_bind calm_handle interrupted_kept ft_kept)

lemma receive_loop_disciplined: "ft_keeps ft_disciplined (receive_loop env ctx cancel texts token quoted n transferred i hashed)"
proof (induction "nat (n - transferred)" arbitrary: transferred i hashed rule: less_induct)
  case less
  show ?case
  proof (cases "transferred < n")
    case True
    then have k: "nat (n - (transferred + block_size n transferred)) < nat (n - transferred)"
      by (auto simp: block_size_def FileTransferChunkSize_def)
    show ?thesis
      by (subst receive_loop.simps)
        (simp add: True Let_def, intro disciplined_bind disciplined_wrap calm_disciplined [OF checkpoint_kept]
          calm_disciplined [OF progress_kept] calm_disciplined [OF receive_block_kept] writeAllTo_disciplined less k)
  qed (subst receive_loop.simps, simp add: disciplined_same)
qed

lemma verify_received_disciplined: "ft_keeps ft_disciplined (verify_received env ctx token remotePath quoted n digest hashed)"
  unfolding verify_received_def Let_def
  by (intro disciplined_bind disciplined_wrap calm_disciplined [OF command_kept] calm_disciplined [OF expectPhase_kept])
    (auto split: sum.splits intro!: disciplined_bind disciplined_same calm_disciplined [OF progress_kept])

lemma receive_scoped_disciplined: "ft_keeps ft_disciplined (receive_scoped env ctx cancel remotePath)"
proof -
  have body: "ft_keeps ft_disciplined (case parseVerifiedFile event of Inl e \<Rightarrow> ft_fail e
    | Inr (n, digest) \<Rightarrow>
        ft_bind (if n > 0 then report_progress env 0 n else ft_ret ()) (\<lambda>u.
        ft_bind (fileTransferCancellationCheckpoint env cancel) (\<lambda>u.
        ft_bind (receive_loop env ctx cancel file_receive_texts token quoted n 0 0 []) (\<lambda>hashed.
        ft_bind (fileTransferCancellationCheckpoint env cancel) (\<lambda>u.
        verify_received env ctx token remotePath quoted n digest hashed)))))" for token quoted event
    by (auto split: sum.splits intro!: disciplined_bind disciplined_same calm_disciplined [OF checkpoint_kept]
        calm_disciplined [OF progress_kept] receive_loop_disciplined verify_received_disciplined)
  show ?thesis unfolding receive_scoped_def
    by (cases "quoteRemotePath remotePath")
      (auto intro!: disciplined_bind disciplined_wrap disciplined_same calm_disciplined [OF newFileProtocol_kept]
        calm_disciplined [OF command_kept] calm_disciplined [OF expectPhase_kept] body)
qed

end
