(* ===== verification/File_Roundtrip.thy ===== *)
theory File_Roundtrip
  imports File_Safety
begin

text \<open>
  What a transfer makes of the output of a remote shell that follows the protocol.
  The output is a byte stream, cut into reads in any way and mixed with other
  terminal output; the transfer of its content is exact.
\<close>

section \<open>Answer lines in a stream\<close>

definition answer_line :: "string \<Rightarrow> bool \<Rightarrow> string list \<Rightarrow> string" where
  "answer_line token cr event =
     ft_prefix token @ str_join '':'' event @ (if cr then [CHR 0x0D] else []) @ [CHR 0x0A]"

definition clean_field :: "string \<Rightarrow> bool" where
  "clean_field f \<longleftrightarrow> CHR '':'' \<notin> set f \<and> CHR 0x0A \<notin> set f \<and> CHR 0x0D \<notin> set f"

definition clean_event :: "string list \<Rightarrow> bool" where
  "clean_event event \<longleftrightarrow> event \<noteq> [] \<and> (\<forall>f \<in> set event. clean_field f)"

lemma join_bytes: "c \<in> set (str_join sep ws) \<Longrightarrow> c \<in> set sep \<or> (\<exists>w \<in> set ws. c \<in> set w)"
  by (induction sep ws rule: str_join.induct) auto

lemma clean_join:
  "clean_event event \<Longrightarrow> CHR 0x0A \<notin> set (str_join '':'' event)"
  "clean_event event \<Longrightarrow> CHR 0x0D \<notin> set (str_join '':'' event)"
  using join_bytes [of _ "'':''" event] by (fastforce simp: clean_event_def clean_field_def)+

lemma index_at: "c \<notin> set a \<Longrightarrow> str_index (a @ c # b) [c] = Some (length a)"
  by (induction a) (auto simp: has_prefix_def)

definition plain_token :: "string \<Rightarrow> bool" where
  "plain_token token \<longleftrightarrow> token \<noteq> [] \<and> list_all is_hex token"

lemma prefix_line: "plain_token token \<Longrightarrow> CHR 0x0A \<notin> set (ft_prefix token)"
  using hex_plain by (auto simp: plain_token_def ft_prefix_def list_all_iff)

lemma quiet_index:
  assumes "quiet m noise" shows "str_index (noise @ m @ s) m = Some (length noise)"
  by (rule str_indexI) (use assms in \<open>auto simp: quiet_def\<close>)

lemma take_answer_found:
  assumes "quiet (ft_prefix token) noise" "plain_token token" "clean_event event"
  shows "take_answer token (noise @ answer_line token cr event @ rest) = Inr (event, rest)"
proof -
  let ?j = "str_join '':'' event" and ?c = "if cr then [CHR 0x0D] else []"
  let ?l = "ft_prefix token @ ?j @ ?c"
  have i: "str_index (noise @ answer_line token cr event @ rest) (ft_prefix token) = Some (length noise)"
    using quiet_index [OF assms(1)] by (simp add: answer_line_def)
  have d: "drop (length noise) (noise @ answer_line token cr event @ rest) = ?l @ CHR 0x0A # rest"
    by (simp add: answer_line_def)
  have "CHR 0x0A \<notin> set ?l" using prefix_line [OF assms(2)] clean_join [OF assms(3)] by auto
  then have e: "str_index (?l @ CHR 0x0A # rest) [CHR 0x0A] = Some (length ?l)" by (rule index_at)
  have t: "trim_cr ?l = ft_prefix token @ ?j"
  proof (cases cr)
    case False
    have "\<not> has_suffix (ft_prefix token @ ?j) [CHR 0x0D]"
    proof
      assume "has_suffix (ft_prefix token @ ?j) [CHR 0x0D]"
      then obtain u where u: "ft_prefix token @ ?j = u @ [CHR 0x0D]"
        unfolding has_suffix_def by (metis append_take_drop_id)
      have "CHR 0x0D \<notin> set (ft_prefix token)"
        using assms(2) by (auto simp: plain_token_def ft_prefix_def list_all_iff is_hex_def is_digit_def lower_byte_def)
      then have "CHR 0x0D \<notin> set (ft_prefix token @ ?j)" using clean_join(2) [OF assms(3)] by simp
      then show False unfolding u by simp
    qed
    then show ?thesis using False by (simp add: trim_cr_def)
  qed (simp add: trim_cr_def has_suffix_def butlast_append)
  have s: "split_byte (CHR '':'') ?j = event"
    by (rule split_join) (use assms(3) in \<open>auto simp: clean_event_def clean_field_def\<close>)
  have l: "take (length ?l) (?l @ CHR 0x0A # rest) = ?l" by simp
  have r: "drop (Suc (length noise + length ?l)) (noise @ answer_line token cr event @ rest) = rest"
    by (simp add: answer_line_def)
  have j: "drop (length (ft_prefix token)) (ft_prefix token @ ?j) = ?j" by simp
  show ?thesis unfolding take_answer_def i option.case d e l r t j s ..
qed

text \<open>Until a line is complete, what is kept still begins it or what precedes it.\<close>

lemma quiet_drop: "quiet m s \<Longrightarrow> quiet m (drop n s)"
proof -
  assume q: "quiet m s"
  have "\<not> has_prefix (drop i (drop n s) @ t) m" if "i < length (drop n s)" for i t
    using q that unfolding quiet_def by (simp add: add.commute)
  then show ?thesis unfolding quiet_def by blast
qed

lemma index_extend: "str_index s m = Some i \<Longrightarrow> str_index (s @ t) m = Some i"
proof -
  assume i: "str_index s m = Some i"
  note b = str_index_bound [OF i]
  have "has_prefix (drop j (s @ t)) m = has_prefix (drop j s) m" if "j \<le> i" for j
    using that b has_prefix_append_short [of m "drop j s" t] by simp
  then show ?thesis using str_index_Some [OF i] b by (intro str_indexI) auto
qed

lemma take_answer_append:
  assumes "take_answer token p = Inr (event, rest)"
  shows "take_answer token (p @ t) = Inr (event, rest @ t)"
proof -
  obtain i e where i: "str_index p (ft_prefix token) = Some i" and e: "str_index (drop i p) [CHR 0x0A] = Some e"
    and r: "event = split_byte (CHR '':'') (drop (length (ft_prefix token)) (trim_cr (take e (drop i p))))"
      "rest = drop (Suc (i + e)) p"
    using assms by (auto simp: take_answer_def split: option.splits)
  have b: "i \<le> length p" "i + e < length p" using str_index_bound [OF i] str_index_bound [OF e] by auto
  then show ?thesis
    using index_extend [OF i, of t] index_extend [OF e, of t] r by (simp add: take_answer_def)
qed

lemma take_answer_early:
  assumes "quiet (ft_prefix token) noise" "plain_token token" "clean_event event"
    and "p @ rem = noise @ answer_line token cr event @ rest" "take_answer token p = Inr (event', rest')"
  shows "event' = event \<and> rest' @ rem = rest"
  using take_answer_append [OF assms(5), of rem] take_answer_found [OF assms(1-3), of cr rest] assms(4) by simp

lemma take_answer_waits:
  assumes "quiet (ft_prefix token) noise" "plain_token token" "clean_event event"
    and "p @ rem = noise @ answer_line token cr event @ rest" "take_answer token p = Inl kept"
  shows "\<exists>noise'. quiet (ft_prefix token) noise' \<and> kept @ rem = noise' @ answer_line token cr event @ rest"
proof (cases "str_index p (ft_prefix token)")
  case (Some i)
  then have k: "kept = drop i p" using assms(5) by (auto simp: take_answer_def split: option.splits)
  have "str_index (p @ rem) (ft_prefix token) = Some i" by (rule index_extend [OF Some])
  moreover have "str_index (p @ rem) (ft_prefix token) = Some (length noise)"
    unfolding assms(4) answer_line_def using quiet_index [OF assms(1)] by simp
  ultimately have "i = length noise" by simp
  moreover have "i \<le> length p" using str_index_bound [OF Some] by simp
  ultimately have "kept @ rem = drop (length noise) (p @ rem)" using k by simp
  then show ?thesis unfolding assms(4) by (intro exI [of _ "[]"]) simp
next
  case None
  let ?m = "ft_prefix token"
  let ?n = "length p - (length ?m - 1)"
  have k: "kept = drop ?n p" using assms(5) None by (simp add: take_answer_def window_def)
  have "?n \<le> length noise"
  proof (rule ccontr)
    assume "\<not> ?n \<le> length noise"
    then have l: "length noise + length ?m \<le> length p" by linarith
    have "has_prefix (drop (length noise) (p @ rem)) ?m" unfolding assms(4) answer_line_def by simp
    then have "has_prefix (drop (length noise) p) ?m" using l has_prefix_append_short [of ?m "drop (length noise) p" rem] by simp
    then show False using str_index_None [OF None] by blast
  qed
  then have "kept @ rem = drop ?n noise @ answer_line token cr event @ rest"
    using k assms(4) by (metis diff_is_0_eq drop_append drop_0 diff_le_self le_trans)
  then show ?thesis using quiet_drop [OF assms(1)] by blast
qed

section \<open>A live shell on a calm channel\<close>

text \<open>Writes, checks and local files that succeed.\<close>

definition calm_transfer :: "ft_env \<Rightarrow> go_context \<Rightarrow> (nat \<Rightarrow> bool) option \<Rightarrow> bool" where
  "calm_transfer env ctx cancel \<longleftrightarrow>
     (\<forall>t d. fe_write env t d = (length d, None)) \<and> (\<forall>t. ctx t = None) \<and> (\<forall>t. fe_beat_ctx env t = None) \<and>
     (\<forall>t. terminal_checkpoint env t = None) \<and> (\<forall>req t. cancel = Some req \<longrightarrow> \<not> req t) \<and>
     (\<forall>t. \<exists>c. fe_recent env t = Inr c) \<and> (\<forall>t d. fe_dest env t d = (length d, None)) \<and>
     (\<forall>f t k n. fe_progress env = Some f \<longrightarrow> f t k n = None) \<and>
     (\<forall>t. fe_start env t = None) \<and> (\<forall>t. fe_recovery env t = None) \<and> fe_beat_done env = None"

definition ft_live :: "ft \<Rightarrow> bool" where
  "ft_live st \<longleftrightarrow> sh_recovery st = None \<and> \<not> sh_closed st \<and> sh_beat_err st = None"

lemma live_writes: "ft_live st \<Longrightarrow> shell_refuses st = None"
  by (simp add: ft_live_def shell_refuses_def)

text \<open>The output still to come, pending or in the answers of reads.\<close>

definition read_bytes :: "read_script \<Rightarrow> string" where
  "read_bytes rs = concat (map (\<lambda>r. case r of Inr c \<Rightarrow> oc_data c | Inl e \<Rightarrow> []) rs)"

definition good_reads :: "read_script \<Rightarrow> bool" where
  "good_reads rs \<longleftrightarrow> list_all (\<lambda>r. case r of Inr c \<Rightarrow> \<not> oc_dropped c | Inl e \<Rightarrow> False) rs"

definition feeds :: "read_script \<Rightarrow> ft \<Rightarrow> string \<Rightarrow> bool" where
  "feeds z st s \<longleftrightarrow> (\<exists>rs. ft_reads st = rs @ z \<and> good_reads rs \<and> ft_pending st @ read_bytes rs = s)"

text \<open>A state from which \<open>s\<close> comes in before the reads \<open>z\<close>, \<open>d\<close> is stored, \<open>src\<close> is left of the source and \<open>w\<close> sent.\<close>

definition ft_at :: "read_script \<Rightarrow> string \<Rightarrow> string \<Rightarrow> string \<Rightarrow> string \<Rightarrow> ft \<Rightarrow> bool" where
  "ft_at z s d src w st \<longleftrightarrow> ft_live st \<and> feeds z st s \<and> ft_dest st = d \<and> ft_source st = src \<and> ft_payload st = w"

definition ft_does :: "(ft \<Rightarrow> bool) \<Rightarrow> 'a ft_run \<Rightarrow> 'a \<Rightarrow> (ft \<Rightarrow> bool) \<Rightarrow> bool" where
  "ft_does P m a Q \<longleftrightarrow> (\<forall>st. P st \<longrightarrow> (\<exists>st'. m st = Some (Inr a, st') \<and> Q st'))"

lemma does_bind: "ft_does P m a Q \<Longrightarrow> ft_does Q (f a) b R \<Longrightarrow> ft_does P (ft_bind m f) b R"
  unfolding ft_does_def ft_bind_def by (metis (no_types, lifting) option.simps(5) prod.case sum.case(2))

lemma does_wrap: "ft_does P m a Q \<Longrightarrow> ft_does P (ft_wrap message m) a Q"
  unfolding ft_does_def ft_wrap_def ft_handle_def by fastforce

lemma does_handle: "ft_does P m a Q \<Longrightarrow> ft_does P (ft_handle m h) a Q"
  unfolding ft_does_def ft_handle_def by fastforce

lemma does_ret: "ft_does P (ft_ret a) a P"
  by (simp add: ft_does_def ft_ret_def)

lemma calm_payload:
  assumes "\<forall>t d. fe_write env t d = (length d, None)" "\<forall>t. ctx t = None"
  shows "writeFilePayload ctx (base_write env origin) d st =
    ((length d, None), if d = [] then st else ft_emit (FtWrote origin d) st)"
  using assms by (cases "d = []") (simp_all add: writeFilePayload.simps base_write_def)

lemma calm_beat:
  assumes "calm_transfer env ctx cancel" shows "sh_beat_err (beat_turn env st) = sh_beat_err st"
proof -
  have "sh_beat_err (heartbeat env st) = sh_beat_err st" for st
    using assms calm_payload [of env "fe_beat_ctx env" FromBeat fileTransferShellBeat st]
    by (auto simp: heartbeat_def calm_transfer_def)
  then have "sh_beat_err (heartbeats env n st) = sh_beat_err st" for n by (induction n arbitrary: st) simp_all
  then show ?thesis by (simp add: beat_turn_def)
qed

lemma live_beat: "calm_transfer env ctx cancel \<Longrightarrow> ft_live (beat_turn env st) = ft_live st"
  using calm_beat [of env ctx cancel st] by (simp add: ft_live_def beat_turn_frame)

lemma at_beat: "calm_transfer env ctx cancel \<Longrightarrow> ft_at z s d src w (beat_turn env st) = ft_at z s d src w st"
  using live_beat [of env ctx cancel st] by (simp add: ft_at_def feeds_def beat_turn_frame)

lemma at_emit: "payload_event e = [] \<Longrightarrow> ft_at z s d src w (ft_emit e st) = ft_at z s d src w st"
  by (simp add: ft_at_def feeds_def ft_live_def)

lemma at_idle: "ft_at z s d src w (st\<lparr>sh_idle := b\<rparr>) = ft_at z s d src w st"
  by (simp add: ft_at_def feeds_def ft_live_def ft_payload_def)

lemma does_command:
  assumes "calm_transfer env ctx cancel" shows "ft_does (ft_at z s d src w) (ft_command env ctx c) () (ft_at z s d src w)"
  unfolding ft_does_def
proof (intro allI impI)
  fix st assume a: "ft_at z s d src w st"
  let ?b = "(beat_turn env st)\<lparr>sh_idle := False\<rparr>" and ?d = "wrappedCommand c @ [CHR 0x0A]"
  have b: "ft_at z s d src w (beat_turn env st)" using a at_beat [OF assms] by simp
  have "shell_refuses (beat_turn env st) = None" using b by (intro live_writes) (simp add: ft_at_def)
  moreover have "writeFilePayload ctx (base_write env FromCommand) ?d ?b = ((length ?d, None), ft_emit (FtWrote FromCommand ?d) ?b)"
    using calm_payload [of env ctx FromCommand ?d ?b] assms by (simp add: calm_transfer_def)
  ultimately have "ft_command env ctx c st = Some (Inr (), ft_emit (FtWrote FromCommand ?d) ?b)"
    using assms by (simp add: ft_command_def writeCommand_def Let_def calm_transfer_def)
  moreover have "ft_at z s d src w (ft_emit (FtWrote FromCommand ?d) ?b)" using b by (simp add: at_emit at_idle)
  ultimately show "\<exists>st'. ft_command env ctx c st = Some (Inr (), st') \<and> ft_at z s d src w st'" by blast
qed

lemma does_payload:
  assumes "calm_transfer env ctx cancel"
  shows "ft_does (ft_at z s d src w) (file_send_payload env ctx token message x n) () (ft_at z s d src (w @ x))"
  unfolding ft_does_def
proof (intro allI impI)
  fix st assume a: "ft_at z s d src w st"
  show "\<exists>st'. file_send_payload env ctx token message x n st = Some (Inr (), st') \<and> ft_at z s d src (w @ x) st'"
  proof (cases "x = []")
    case True
    then show ?thesis using a by (simp add: file_send_payload_def writeFilePayload.simps)
  next
    case False
    have b: "ft_at z s d src w (beat_turn env st)" using a at_beat [OF assms] by simp
    then have "shell_refuses (beat_turn env st) = None" by (intro live_writes) (simp add: ft_at_def)
    then have "shell_WriteContext env ctx x st = ((length x, None), ft_emit (FtWrote FromPayload x) (beat_turn env st))"
      using assms by (simp add: shell_WriteContext_def Let_def base_write_def calm_transfer_def)
    then have "writeFilePayload ctx (shell_WriteContext env ctx) x st = ((length x, None), ft_emit (FtWrote FromPayload x) (beat_turn env st))"
      using False assms by (simp add: writeFilePayload.simps [of _ _ x] writeFilePayload.simps [of _ _ "[]"] calm_transfer_def)
    moreover have "ft_at z s d src (w @ x) (ft_emit (FtWrote FromPayload x) (beat_turn env st))"
      using b by (simp add: ft_at_def feeds_def ft_live_def)
    ultimately show ?thesis by (simp add: file_send_payload_def)
  qed
qed

text \<open>A wait for an answer line that is in the stream.\<close>

lemma at_seen: "ft_at z s d src w (answer_seen in_shell event st) = ft_at z s d src w st"
proof -
  have "ft_at z s d src w (commandCompleted st) = ft_at z s d src w st" for st by (simp add: commandCompleted_def at_idle)
  then show ?thesis by (simp add: answer_seen_def Let_def at_emit)
qed

lemma at_stream: "ft_at z s d src w st \<Longrightarrow> good_reads rs \<Longrightarrow> p @ read_bytes rs = s' \<Longrightarrow>
    ft_at z s' d src w (st\<lparr>ft_pending := p, ft_reads := rs @ z\<rparr>)"
  by (simp add: ft_at_def feeds_def ft_live_def ft_payload_def)

lemma loop_answer:
  assumes "calm_transfer env ctx cancel" "plain_token token" "clean_event event"
  shows "ft_at z (noise @ answer_line token cr event @ s) d src w (st\<lparr>ft_reads := rs @ z\<rparr>) \<Longrightarrow> quiet (ft_prefix token) noise \<Longrightarrow>
    \<exists>st'. expect_loop env in_shell token phase (rs @ z) st = Some (answer_of phase event, st') \<and> ft_at z s d src w st'"
proof (induction rs arbitrary: st noise)
  case (Cons a rs)
  have feed: "ft_pending st @ read_bytes (a # rs) = noise @ answer_line token cr event @ s" and good: "good_reads (a # rs)"
    using Cons.prems(1) by (auto simp: ft_at_def feeds_def simp del: append_Cons)
  show ?case
  proof (cases "take_answer token (ft_pending st)")
    case (Inr x)
    obtain event' rest where x: "x = (event', rest)" by (cases x)
    have e: "event' = event" "rest @ read_bytes (a # rs) = s"
      using take_answer_early [OF Cons.prems(2) assms(2,3) feed Inr [unfolded x]] by auto
    have "ft_at z s d src w (st\<lparr>ft_pending := rest, ft_reads := (a # rs) @ z\<rparr>)"
      using at_stream [OF Cons.prems(1) good e(2)] by simp
    then show ?thesis using Inr x e(1) by (simp add: expect_loop.simps [of _ _ _ _ "x # xs" for x xs] at_seen)
  next
    case (Inl kept)
    obtain noise' where n: "quiet (ft_prefix token) noise'" "kept @ read_bytes (a # rs) = noise' @ answer_line token cr event @ s"
      using take_answer_waits [OF Cons.prems(2) assms(2,3) feed Inl] by blast
    obtain chunk where c: "a = Inr chunk" "\<not> oc_dropped chunk" "good_reads rs"
      using good by (cases a) (auto simp: good_reads_def)
    let ?b = "beat_turn env st"
    let ?n = "?b\<lparr>ft_cursor := oc_next chunk, ft_pending := kept @ oc_data chunk\<rparr>"
    have "ft_at z (noise' @ answer_line token cr event @ s) d src w (?n\<lparr>ft_reads := rs @ z\<rparr>)"
    proof -
      have "(kept @ oc_data chunk) @ read_bytes rs = noise' @ answer_line token cr event @ s"
        using n(2) c(1) by (simp add: read_bytes_def)
      moreover have "ft_live ?b \<and> ft_dest ?b = d \<and> ft_source ?b = src \<and> ft_payload ?b = w"
        using Cons.prems(1) live_beat [OF assms(1), of st]
        by (simp add: ft_at_def ft_live_def beat_turn_frame ft_payload_def [of "_\<lparr>ft_reads := _\<rparr>"] ft_payload_def [of st, symmetric])
      ultimately show ?thesis using c(3) by (simp add: ft_at_def feeds_def ft_live_def ft_payload_def)
    qed
    from Cons.IH [OF this n(1)] show ?thesis using Inl c by (simp add: expect_loop.simps [of _ _ _ _ "x # xs" for x xs] Let_def)
  qed
next
  case Nil
  have feed: "ft_pending st = noise @ answer_line token cr event @ s"
    using Nil(1) by (simp add: ft_at_def feeds_def read_bytes_def)
  then have f: "take_answer token (ft_pending st) = Inr (event, s)" using take_answer_found [OF Nil(2) assms(2,3)] by simp
  have "ft_at z s d src w (st\<lparr>ft_pending := s, ft_reads := z\<rparr>)"
    using at_stream [OF Nil(1), of "[]" s s] by (simp add: good_reads_def read_bytes_def)
  then show ?case using f by (simp add: expect_loop.simps [of _ _ _ _ z] at_seen)
qed

lemma ft_reads_same: "ft_reads st = rs \<Longrightarrow> st\<lparr>ft_reads := rs\<rparr> = st"
  by auto

lemma phase_answer: "phase \<noteq> ''ERROR'' \<Longrightarrow> answer_of phase (phase # args) = Inr args"
  by (simp add: answer_of_def)

lemma does_expectPhase:
  assumes "calm_transfer env ctx cancel" "plain_token token" "clean_event (phase # args)" "phase \<noteq> ''ERROR''" "quiet (ft_prefix token) noise"
  shows "ft_does (ft_at z (noise @ answer_line token cr (phase # args) @ s) d src w) (expectPhase env token phase) args (ft_at z s d src w)"
  unfolding ft_does_def
proof (intro allI impI)
  fix st assume a: "ft_at z (noise @ answer_line token cr (phase # args) @ s) d src w st"
  then obtain rs where rs: "ft_reads st = rs @ z" by (auto simp: ft_at_def feeds_def)
  then have "ft_at z (noise @ answer_line token cr (phase # args) @ s) d src w (st\<lparr>ft_reads := rs @ z\<rparr>)" using a by (metis ft_reads_same)
  from loop_answer [OF assms(1-3) this assms(5), of True phase]
  show "\<exists>st'. expectPhase env token phase st = Some (Inr args, st') \<and> ft_at z s d src w st'"
    using phase_answer [OF assms(4)] rs by (simp add: expectPhase_def)
qed

lemma does_expect:
  assumes "calm_transfer env ctx cancel" "plain_token token" "clean_event (phase # args)" "phase \<noteq> ''ERROR''" "quiet (ft_prefix token) noise"
  shows "ft_does (ft_at z (noise @ answer_line token cr (phase # args) @ s) d src w) (expect env token phase args) () (ft_at z s d src w)"
  unfolding expect_def by (rule does_bind [OF does_expectPhase [OF assms]]) (simp add: does_ret)

text \<open>A raw block.\<close>

lemma loop_exact:
  assumes "calm_transfer env ctx cancel"
  shows "ft_at z (x @ s) d src w (st\<lparr>ft_reads := rs @ z\<rparr>) \<Longrightarrow> int (length x) = n \<Longrightarrow>
    \<exists>st'. exact_loop env n acc (rs @ z) st = Some ((acc @ x, None), st') \<and> ft_at z s d src w st'"
proof (induction rs arbitrary: st n acc x)
  case Nil
  have "ft_pending st = x @ s" using Nil(1) by (simp add: ft_at_def feeds_def read_bytes_def)
  then have p: "take (nat n) (ft_pending st) = x" "drop (length x) (ft_pending st) = s" using Nil(2) by auto
  have "ft_at z s d src w (ft_emit (FtRaw (acc @ x)) (st\<lparr>ft_pending := s, ft_reads := z\<rparr>))"
    using at_stream [OF Nil(1), of "[]" s s] by (simp add: at_emit good_reads_def read_bytes_def)
  then show ?case using exact_loop_done [of n st env acc z] p Nil(2) by simp
next
  case (Cons a rs)
  have feed: "ft_pending st @ read_bytes (a # rs) = x @ s" and good: "good_reads (a # rs)"
    using Cons.prems(1) by (auto simp: ft_at_def feeds_def simp del: append_Cons)
  let ?p = "ft_pending st" and ?got = "take (nat n) (ft_pending st)"
  show ?case
  proof (cases "int (length ?got) \<ge> n")
    case True
    then have l: "length x \<le> length ?p" using Cons.prems(2) by simp
    then have p: "?got = x" "drop (length x) ?p @ read_bytes (a # rs) = s"
      using arg_cong [OF feed, of "take (length x)"] arg_cong [OF feed, of "drop (length x)"] Cons.prems(2) by auto
    have "ft_at z s d src w (ft_emit (FtRaw (acc @ x)) (st\<lparr>ft_pending := drop (length x) ?p, ft_reads := (a # rs) @ z\<rparr>))"
      using at_stream [OF Cons.prems(1) good p(2)] by (simp add: at_emit)
    then show ?thesis using exact_loop_done [OF True, of env acc "(a # rs) @ z"] p by simp
  next
    case False
    then have l: "length ?p < length x" "?got = ?p" using Cons.prems(2) by auto
    obtain x2 where x: "x = ?p @ x2" using feed l(1) by (auto simp: append_eq_append_conv2)
    obtain chunk where c: "a = Inr chunk" "\<not> oc_dropped chunk" "good_reads rs"
      using good by (cases a) (auto simp: good_reads_def)
    let ?b = "beat_turn env (st\<lparr>ft_pending := []\<rparr>)"
    let ?n = "?b\<lparr>ft_cursor := oc_next chunk, ft_pending := oc_data chunk\<rparr>"
    have "ft_at z (x2 @ s) d src w (?n\<lparr>ft_reads := rs @ z\<rparr>)"
    proof -
      have "oc_data chunk @ read_bytes rs = x2 @ s" using feed x c(1) by (simp add: read_bytes_def)
      moreover have "ft_live ?b \<and> ft_dest ?b = d \<and> ft_source ?b = src \<and> ft_payload ?b = w"
        using Cons.prems(1) live_beat [OF assms, of "st\<lparr>ft_pending := []\<rparr>"]
        by (simp add: ft_at_def ft_live_def beat_turn_frame) (simp add: ft_payload_def)
      ultimately show ?thesis using c(3) by (simp add: ft_at_def feeds_def ft_live_def ft_payload_def)
    qed
    moreover have "int (length x2) = n - int (length ?p)" using Cons.prems(2) x by simp
    ultimately have "\<exists>st'. exact_loop env (n - int (length ?p)) (acc @ ?p) (rs @ z) ?n = Some (((acc @ ?p) @ x2, None), st') \<and> ft_at z s d src w st'"
      by (rule Cons.IH)
    then show ?thesis using exact_loop_more [OF False, of env acc a "rs @ z"] l(2) c x by (simp add: Let_def)
  qed
qed

lemma does_receive_payload:
  assumes "calm_transfer env ctx cancel" "int (length x) = n"
  shows "ft_does (ft_at z (x @ s) d src w) (file_receive_payload env token message n) x (ft_at z s d src w)"
  unfolding ft_does_def
proof (intro allI impI)
  fix st assume a: "ft_at z (x @ s) d src w st"
  then obtain rs where rs: "ft_reads st = rs @ z" by (auto simp: ft_at_def feeds_def)
  then have "ft_at z (x @ s) d src w (st\<lparr>ft_reads := rs @ z\<rparr>)" using a by (metis ft_reads_same)
  from loop_exact [OF assms(1) this assms(2), of "[]"]
  show "\<exists>st'. file_receive_payload env token message n st = Some (Inr x, st') \<and> ft_at z s d src w st'"
    using rs by (auto simp: file_receive_payload_def readExact_def)
qed

section \<open>Local steps\<close>

lemma does_checkpoint:
  "calm_transfer env ctx cancel \<Longrightarrow> ft_does (ft_at z s d src w) (fileTransferCancellationCheckpoint env cancel) () (ft_at z s d src w)"
  by (auto simp: ft_does_def fileTransferCancellationCheckpoint_def ft_check_def ft_ret_def calm_transfer_def split: option.splits)

lemma does_progress:
  "calm_transfer env ctx cancel \<Longrightarrow> ft_does (ft_at z s d src w) (report_progress env k n) () (ft_at z s d src w)"
  by (auto simp: ft_does_def report_progress_def ft_check_def ft_ret_def calm_transfer_def at_emit split: option.splits)

lemma does_store:
  assumes "calm_transfer env ctx cancel"
  shows "ft_does (ft_at z s d src w) (writeAllTo env x) () (ft_at z s (d @ x) src w)"
  unfolding ft_does_def
proof (intro allI impI)
  fix st assume a: "ft_at z s d src w st"
  show "\<exists>st'. writeAllTo env x st = Some (Inr (), st') \<and> ft_at z s (d @ x) src w st'"
  proof (cases "x = []")
    case True
    then show ?thesis using a by (simp add: writeAllTo.simps)
  next
    case False
    let ?n = "st\<lparr>ft_dest := ft_dest st @ x, ft_clock := Suc (ft_clock st)\<rparr>"
    have "dest_write env x st = ((length x, None), ?n)" using assms by (simp add: dest_write_def calm_transfer_def)
    then have "writeAllTo env x st = Some (Inr (), ?n)"
      using False by (simp add: writeAllTo.simps [of _ x] writeAllTo.simps [of _ "[]"])
    moreover have "ft_at z s (d @ x) src w ?n" using a by (simp add: ft_at_def feeds_def ft_live_def ft_payload_def)
    ultimately show ?thesis by blast
  qed
qed

lemma does_source:
  assumes "int (length x) = n"
  shows "ft_does (ft_at z s d (x @ src) w) (source_ReadFull env n) x (ft_at z s d src w)"
  using assms by (auto simp: ft_does_def source_ReadFull_def ft_at_def feeds_def ft_live_def ft_payload_def)

text \<open>A protocol draws its token at its own time \<open>k\<close>.\<close>

lemma does_protocol:
  assumes "calm_transfer env ctx cancel" "fe_random env k = Inr token"
  shows "ft_does (\<lambda>st. ft_clock st = k \<and> ft_at z (ft_pending st @ s) d src w st) (newFileProtocol env ctx) token (ft_at z s d src w)"
  unfolding ft_does_def
proof (intro allI impI)
  fix st assume "ft_clock st = k \<and> ft_at z (ft_pending st @ s) d src w st"
  then have k: "ft_clock st = k" and a: "ft_at z (ft_pending st @ s) d src w st" by simp_all
  obtain c where c: "fe_recent env (ft_clock st) = Inr c" using assms(1) unfolding calm_transfer_def by blast
  have "ft_at z s d src w (st\<lparr>ft_cursor := c, ft_pending := []\<rparr>)"
    using a by (simp add: ft_at_def feeds_def ft_live_def ft_payload_def)
  then show "\<exists>st'. newFileProtocol env ctx st = Some (Inr token, st') \<and> ft_at z s d src w st'"
    using assms k c by (simp add: newFileProtocol_def ft_bind_def ft_check_def ft_ret_def newFileTransferToken_def calm_transfer_def)
qed

end
