(* ===== verification/File_Discipline.thy ===== *)
theory File_Discipline
  imports File_Safety
begin

text \<open>
  The discipline of \<open>File_Safety\<close> for the start and the end of the file-transfer
  shell, and the theorem for whole transfers.
\<close>

section \<open>Start and end of the shell\<close>

text \<open>No command owns an idle shell, and no recovery has failed.\<close>

definition ft_open :: "ft \<Rightarrow> bool" where
  "ft_open st \<longleftrightarrow> ft_inv st \<and> sh_recovery st = None \<and> \<not> sh_idle st"

definition keeps_open :: "ft \<Rightarrow> ft \<Rightarrow> bool" where
  "keeps_open st st' \<longleftrightarrow> (ft_open st \<longrightarrow> ft_open st')"

lemma open_preorder: "ft_preorder keeps_open"
  by (simp add: ft_preorder_def keeps_open_def)

lemmas open_bind = ft_keeps_bind [OF open_preorder]
lemmas open_wrap = ft_keeps_wrap [OF open_preorder]
lemmas open_handle = ft_keeps_handle [OF open_preorder]
lemmas open_same = ft_keeps_same [OF open_preorder]

lemma open_cong:
  "ft_open st \<Longrightarrow> ft_trace st' = ft_trace st \<Longrightarrow> sh_idle st' = sh_idle st \<Longrightarrow> sh_recovery st' = sh_recovery st \<Longrightarrow> ft_open st'"
  by (auto simp: ft_open_def ft_inv_def)

lemma shell_write_open: "ft_keeps keeps_open (shell_write env ctx command)"
proof (rule ft_keepsI)
  fix st r st' assume w: "shell_write env ctx command st = Some (r, st')"
  have "keeps_open a (snd (base_write env FromShell d a))" for a d
    by (auto simp: keeps_open_def ft_open_def base_write_def ft_inv_def)
  from writeFilePayload_keeps [OF open_preorder this]
  have "keeps_open st (snd (writeFilePayload ctx (base_write env FromShell) (command @ [CHR 0x0A]) st))" .
  then show "keeps_open st st'" using w by (auto simp: shell_write_def split: prod.splits option.splits)
qed

lemma wait_marker_open:
  "wait_marker_loop env marker pending rs st = Some (r, st') \<Longrightarrow> ft_open st \<Longrightarrow> ft_open st'"
proof (induction rs arbitrary: pending st)
  case (Cons a rs)
  have b: "beat_turn env st = st" using Cons.prems(2) beat_turn_idle by (simp add: ft_open_def)
  have o: "ft_open (st\<lparr>ft_reads := rs\<rparr>)" "ft_open (st\<lparr>ft_reads := rs, ft_cursor := c\<rparr>)" for c
    by (rule open_cong [OF Cons.prems(2)]; simp)+
  show ?case
  proof (cases a)
    case (Inl e)
    then show ?thesis using Cons.prems(1) b o by auto
  next
    case (Inr chunk)
    then show ?thesis using Cons.prems(1) b o Cons.IH
      by (auto simp: Let_def split: if_splits)
  qed
qed simp

lemma waitMarker_open: "ft_keeps keeps_open (waitForFileTransferShellMarker env cursor marker)"
proof (rule ft_keepsI)
  fix st r st' assume "waitForFileTransferShellMarker env cursor marker st = Some (r, st')"
  then have "ft_open (st\<lparr>ft_cursor := cursor\<rparr>) \<Longrightarrow> ft_open st'"
    unfolding waitForFileTransferShellMarker_def by (rule wait_marker_open)
  then show "keeps_open st st'" using open_cong [of st "st\<lparr>ft_cursor := cursor\<rparr>"] by (simp add: keeps_open_def)
qed

lemma read_cursor_open: "ft_keeps keeps_open (read_cursor env message)"
  by (rule ft_keepsI) (auto simp: read_cursor_def keeps_open_def split: sum.splits)

lemma started_open: "ft_keeps keeps_open (shell_started b)"
  by (rule ft_keepsI) (auto simp: shell_started_def keeps_open_def intro: open_cong)

lemma expect_loop_outside:
  "expect_loop env False token phase rs st = Some (r, st') \<Longrightarrow> \<not> sh_idle st \<Longrightarrow>
    \<not> sh_idle st' \<and> sh_recovery st' = sh_recovery st"
proof (induction rs arbitrary: st)
  case Nil
  then show ?case
    by (auto simp: expect_loop.simps [of _ _ _ _ "[]"] answer_seen_def split: sum.splits prod.splits)
next
  case (Cons a rs)
  note b = beat_turn_idle [OF Cons.prems(2), of env]
  show ?case
  proof (cases "take_answer token (ft_pending st)")
    case (Inl kept)
    then show ?thesis using Cons.prems b Cons.IH
      by (auto simp: expect_loop.simps [of _ _ _ _ "x # xs" for x xs] Let_def split: sum.splits if_splits)
  next
    case (Inr x)
    then show ?thesis using Cons.prems
      by (auto simp: expect_loop.simps [of _ _ _ _ "x # xs" for x xs] answer_seen_def split: prod.splits)
  qed
qed

text \<open>The answer to the initialisation, read outside the shell.\<close>

lemma shell_answer:
  assumes "ft_wrap m (\<lambda>st. expect_loop env False token ''SHELL'' (ft_reads st) (st\<lparr>ft_cursor := recent, ft_pending := []\<rparr>)) st = Some (r, st')"
    and "ft_open st"
  shows "ft_open st' \<and> (r = Inr args \<longrightarrow> ft_owner (ft_trace st') = owner_step (ft_owner (ft_trace st)) (FtMarker (''SHELL'' # args)))"
proof -
  let ?s = "st\<lparr>ft_cursor := recent, ft_pending := []\<rparr>"
  have s: "ft_open ?s" by (rule open_cong [OF assms(2)]) simp_all
  obtain r1 where x: "expect_loop env False token ''SHELL'' (ft_reads st) ?s = Some (r1, st')"
      "\<And>a. r = Inr a \<Longrightarrow> r1 = Inr a"
    using assms(1) unfolding ft_wrap_def by (cases rule: ft_handle_cases) (auto simp: ft_fail_def)
  note a = expect_loop_spec [OF x(1)] and q = expect_loop_outside [OF x(1)]
  have "ft_open st'" using a q s by (simp add: ft_open_def answered_def ft_calm_def)
  moreover have "ft_owner (ft_trace st') = owner_step (ft_owner (ft_trace st)) (FtMarker (''SHELL'' # args))" if "r = Inr args"
    using a x(2) [OF that] answer_of_Inr unfolding answered_def by (auto simp del: owner_step.simps)
  ultimately show ?thesis by blast
qed

lemma shell_ready_disciplined:
  assumes "shell_ready env recent event st = Some (r, st')" "ft_open st"
    and "event = [''READY''] \<Longrightarrow> ft_owner (ft_trace st) = Waiting"
  shows "ft_inv st'"
proof (cases "event = [''READY'']")
  case True
  then show ?thesis using assms by (auto simp: shell_ready_def Let_def ft_open_def ft_inv_def)
next
  case False
  have "ft_keeps keeps_open (shell_ready env recent event)"
    unfolding shell_ready_def Let_def using False
    by (auto intro!: open_bind open_handle open_same waitMarker_open started_open)
  then show ?thesis using assms(1,2) by (auto dest!: ft_keepsD simp: keeps_open_def ft_open_def)
qed

lemma shell_recovered_inv:
  "ft_keeps keeps_open m \<Longrightarrow> shell_recovered env m st = Some (r, st') \<Longrightarrow> ft_open st \<Longrightarrow>
    ft_inv st' \<and> (\<forall>a. r = Inr a \<longrightarrow> ft_open st')"
  unfolding shell_recovered_def
proof (erule ft_handle_cases, goal_cases)
  case (1 e st1)
  have "ft_open st1" using ft_keepsD [OF 1(1,3)] 1(2) by (simp add: keeps_open_def)
  then show ?case using 1(4) shell_recoveryError_spec [of env e st1]
    by (auto simp: ft_open_def ft_calm_def split: prod.splits)
next
  case (2 a)
  then show ?case using ft_keepsD [OF 2(1,3)] by (simp add: keeps_open_def ft_open_def)
qed

text \<open>
  Runs from an open shell: those that keep it open unless they fail, and those that
  end it with the discipline kept.
\<close>

definition open_unless_failed :: "'a ft_run \<Rightarrow> bool" where
  "open_unless_failed m \<longleftrightarrow> (\<forall>st r st'. m st = Some (r, st') \<longrightarrow> ft_open st \<longrightarrow>
     ft_inv st' \<and> (\<forall>a. r = Inr a \<longrightarrow> ft_open st'))"

definition open_ends :: "'a ft_run \<Rightarrow> bool" where
  "open_ends m \<longleftrightarrow> (\<forall>st r st'. m st = Some (r, st') \<longrightarrow> ft_open st \<longrightarrow> ft_inv st')"

lemma open_unless_kept: "ft_keeps keeps_open m \<Longrightarrow> open_unless_failed m"
  by (auto simp: open_unless_failed_def ft_keeps_def keeps_open_def ft_open_def)

lemma open_unless_recovered: "ft_keeps keeps_open m \<Longrightarrow> open_unless_failed (shell_recovered env m)"
  unfolding open_unless_failed_def using shell_recovered_inv by blast

lemma open_ends_bind: "open_unless_failed m \<Longrightarrow> (\<And>a. open_ends (f a)) \<Longrightarrow> open_ends (ft_bind m f)"
  unfolding open_ends_def by (auto simp: open_unless_failed_def elim!: ft_bind_cases)

lemma shell_phase [simp]: "isFileTransferCommandComplete ''SHELL''"
  by code_simp

lemma shell_ready_ends:
  "open_ends (ft_bind (ft_wrap m
     (\<lambda>st. expect_loop env False token ''SHELL'' (ft_reads st) (st\<lparr>ft_cursor := recent, ft_pending := []\<rparr>))) (shell_ready env recent))"
  unfolding open_ends_def
proof (intro allI impI)
  fix st :: ft and r st' assume o: "ft_open st" and b: "ft_bind (ft_wrap m
     (\<lambda>st. expect_loop env False token ''SHELL'' (ft_reads st) (st\<lparr>ft_cursor := recent, ft_pending := []\<rparr>)))
     (shell_ready env recent) st = Some (r, st')"
  from b show "ft_inv st'"
  proof (cases rule: ft_bind_cases)
    case (failed e)
    then show ?thesis using shell_answer [OF failed(1) o] by (simp add: ft_open_def)
  next
    case (went event st1)
    note a = shell_answer [OF went(1) o]
    have "ft_owner (ft_trace st1) = Waiting" if "event = [''READY'']" using a [of event] that by simp
    then show ?thesis using shell_ready_disciplined [OF went(2)] a by blast
  qed
qed

lemma start_shell_ends: "open_ends (start_shell env ctx token)"
  unfolding start_shell_def
  by (intro open_ends_bind open_unless_recovered open_unless_kept read_cursor_open open_wrap shell_write_open
      started_open waitMarker_open shell_ready_ends)

lemma close_shell_disciplined: "ft_keeps ft_disciplined (close_shell env)"
  unfolding close_shell_def
proof (rule disciplined_bind)
  show "ft_keeps ft_disciplined (\<lambda>st. if \<not> sh_beat_on st then Some (Inr (), st)
       else let st1 = beat_turn env st
            in case fe_beat_done env of
                 Some e \<Rightarrow> (let (e', st2) = shell_recoveryError env e st1 in Some (Inl e', st2))
               | None \<Rightarrow> Some (Inr (), st1\<lparr>sh_beat_on := False\<rparr>))"
  proof (rule ft_keepsI, goal_cases)
    case (1 st r st')
    have b: "ft_inv st \<Longrightarrow> ft_inv (beat_turn env st)" by (rule beat_turn_inv)
    then have "ft_inv st \<Longrightarrow> ft_inv ((beat_turn env st)\<lparr>sh_beat_on := False\<rparr>)" by (simp add: ft_inv_def)
    then show ?case using 1 b shell_recoveryError_spec [of env _ "beat_turn env st"]
      by (auto simp: ft_disciplined_def ft_calm_def Let_def split: if_splits option.splits prod.splits)
  qed
next
  fix u :: unit
  let ?m = "ft_bind (read_cursor env ''initialize file-transfer shell exit cursor'') (\<lambda>recent.
      ft_bind (ft_wrap ''close remote file-transfer shell'' (shell_write env (fe_recovery env) fileTransferShellCloseCommand)) (\<lambda>u.
      ft_wrap ''confirm remote file-transfer shell exit''
        (waitForFileTransferShellMarker env recent fileTransferShellExitedMarker)))"
  have m: "ft_keeps keeps_open ?m" by (intro open_bind open_wrap read_cursor_open shell_write_open waitMarker_open)
  show "ft_keeps ft_disciplined (\<lambda>st. case sh_recovery st of Some e \<Rightarrow> Some (Inl e, st)
     | None \<Rightarrow> if \<not> sh_started st \<or> sh_closed st then Some (Inr (), st)
         else shell_recovered env ?m (st\<lparr>sh_closed := True, sh_idle := False\<rparr>))"
  proof (rule ft_keepsI, goal_cases)
    case (1 st r st')
    have "ft_inv st \<Longrightarrow> sh_recovery st = None \<Longrightarrow> ft_open (st\<lparr>sh_closed := True, sh_idle := False\<rparr>)"
      by (auto simp: ft_open_def ft_inv_def)
    then show ?case using 1 shell_recovered_inv [OF m]
      by (auto simp: ft_disciplined_def split: option.splits if_splits)
  qed
qed

section \<open>A transfer in its shell\<close>

lemma token_state: "newFileTransferToken env st = Some (r, st') \<Longrightarrow> st' = st"
  by (auto simp: newFileTransferToken_def split: sum.splits)

lemma newShell_inv:
  assumes "newShellFileTransferSession env st = Some (r, st')" "ft_trace st = []"
  shows "ft_inv st'"
  using assms(1) unfolding newShellFileTransferSession_def
proof (cases rule: ft_bind_cases)
  case (failed e)
  then show ?thesis using token_state [OF failed(1)] assms(2) by (simp add: ft_inv_def)
next
  case (went token st1)
  have "ft_open (fresh_shell st1)"
    using token_state [OF went(1)] assms(2) by (simp add: ft_open_def ft_inv_def fresh_shell_def)
  then have s: "start_shell env (fe_start env) token (fresh_shell st1) = Some (x, st2) \<Longrightarrow> ft_inv st2" for x st2
    using start_shell_ends by (auto simp: open_ends_def)
  from went(2) show ?thesis
  proof (cases rule: ft_bind_cases)
    case (failed e)
    from failed(1) show ?thesis
    proof (cases rule: ft_handle_cases)
      case (handled e1 st2)
      then show ?thesis using s ft_keepsD [OF close_shell_disciplined, of env st2]
        by (auto simp: ft_disciplined_def split: option.splits sum.splits)
    qed (use failed in simp)
  next
    case (went u st2)
    from went(1) have "start_shell env (fe_start env) token (fresh_shell st1) = Some (Inr u, st2)"
      by (cases rule: ft_handle_cases) (auto split: option.splits sum.splits)
    then show ?thesis using s went(2) by (auto simp: ft_inv_def)
  qed
qed

lemma With_disciplined:
  assumes "ft_keeps ft_disciplined operation" "WithFileTransferShell env operation st = Some (r, st')" "ft_trace st = []"
  shows "ft_inv st'"
  using assms(2) unfolding WithFileTransferShell_def
proof (cases rule: ft_bind_cases)
  case (failed e)
  then show ?thesis using newShell_inv assms(3) by blast
next
  case (went u st1)
  note c = ft_keepsD [OF close_shell_disciplined, unfolded ft_disciplined_def, rule_format]
  obtain r2 st2 where "operation st1 = Some (r2, st2)" "close_shell env st2 \<noteq> None"
    using went(2) by (auto split: option.splits)
  then show ?thesis using went ft_keepsD [OF assms(1)] newShell_inv [OF went(1) assms(3)] c
    by (auto simp: ft_disciplined_def split: option.splits sum.splits)
qed

text \<open>
  The discipline of the terminal in every transfer: however the remote side answers,
  whatever writes and reads fail, whenever the keep-alive ticker fires and wherever
  a cancellation is asked for, a transfer of a file in either direction writes a
  keep-alive line only while the remote shell waits for a command, raw file bytes
  and padding only after the announcement that they are taken and before the next
  answer, and nothing at all once a recovery has failed.
\<close>

theorem file_transfer_discipline:
  assumes "ft_trace st = []"
    and "SendFileWithCancellation env ctx cancel n path st = Some (r, st') \<or>
      ReceiveFileWithCancellation env ctx cancel path st = Some (q, st')"
  shows "trace_ok (ft_trace st')"
proof -
  have "SendFileWithCancellation env ctx cancel n path st = Some (r, st') \<Longrightarrow> ft_inv st'"
    using With_disciplined [OF send_scoped_disciplined _ assms(1)] assms(1)
    by (auto simp: SendFileWithCancellation_def ft_fail_def ft_inv_def split: if_splits sum.splits)
  moreover have "ReceiveFileWithCancellation env ctx cancel path st = Some (q, st') \<Longrightarrow> ft_inv st'"
    using With_disciplined [OF receive_scoped_disciplined _ assms(1)] assms(1)
    by (auto simp: ReceiveFileWithCancellation_def ft_fail_def ft_inv_def split: sum.splits)
  ultimately show ?thesis using assms(2) by (auto simp: ft_inv_def)
qed

end
