(* ===== verification/File_Verified.thy ===== *)
theory File_Verified
  imports File_Discipline
begin

text \<open>
  What the success of a transfer means, whatever the remote side answered: sizes and
  digests were compared, and the bytes stored or sent are the bytes they belong to.
\<close>

section \<open>Runs that store and send nothing\<close>

definition ft_still :: "ft \<Rightarrow> ft \<Rightarrow> bool" where
  "ft_still st st' \<longleftrightarrow> ft_source st' = ft_source st \<and> ft_dest st' = ft_dest st \<and> ft_payload st' = ft_payload st \<and>
     set (ft_trace st) \<subseteq> set (ft_trace st')"

lemma still_preorder: "ft_preorder ft_still"
  unfolding ft_preorder_def ft_still_def by (metis subset_trans order_refl)

lemmas still_bind = ft_keeps_bind [OF still_preorder]
lemmas still_wrap = ft_keeps_wrap [OF still_preorder]
lemmas still_handle = ft_keeps_handle [OF still_preorder]
lemmas still_same = ft_keeps_same [OF still_preorder]

lemma calm_still: "ft_calm st st' \<Longrightarrow> ft_still st st'"
  by (simp add: ft_calm_def ft_still_def)

lemma still_calm: "ft_keeps ft_calm m \<Longrightarrow> ft_keeps ft_still m"
  by (auto simp: ft_keeps_def intro: calm_still)

lemma still_cong:
  "ft_still st st1 \<Longrightarrow> ft_source st2 = ft_source st1 \<Longrightarrow> ft_dest st2 = ft_dest st1 \<Longrightarrow> ft_trace st2 = ft_trace st1 \<Longrightarrow> ft_still st st2"
  by (simp add: ft_still_def ft_payload_def)

lemmas still_refl = ft_preorder_refl [OF still_preorder]
lemmas still_trans = ft_preorder_trans [OF still_preorder]

lemma shell_write_still: "ft_keeps ft_still (shell_write env ctx command)"
proof (rule ft_keepsI)
  fix st r st' assume w: "shell_write env ctx command st = Some (r, st')"
  have "ft_still a (snd (base_write env FromShell d a))" for a d by (auto simp: ft_still_def base_write_def)
  from writeFilePayload_keeps [OF still_preorder this]
  have "ft_still st (snd (writeFilePayload ctx (base_write env FromShell) (command @ [CHR 0x0A]) st))" .
  then show "ft_still st st'" using w by (auto simp: shell_write_def split: prod.splits option.splits)
qed

lemma wait_marker_still: "wait_marker_loop env marker pending rs st = Some (r, st') \<Longrightarrow> ft_still st st'"
proof (induction rs arbitrary: pending st)
  case (Cons a rs)
  have b: "ft_still st ((beat_turn env st)\<lparr>ft_reads := rs\<rparr>)" "ft_still st ((beat_turn env st)\<lparr>ft_reads := rs, ft_cursor := c\<rparr>)" for c
    by (rule still_cong [OF calm_still [OF beat_turn_calm]]; simp)+
  show ?case
  proof (cases "\<exists>chunk. a = Inr chunk \<and> \<not> oc_dropped chunk")
    case True
    then obtain chunk where a: "a = Inr chunk" "\<not> oc_dropped chunk" by blast
    show ?thesis using Cons.prems a b(2) [of "oc_next chunk"] still_trans [OF b(2) Cons.IH]
      by (auto simp: Let_def split: if_splits)
  next
    case False
    then show ?thesis using Cons.prems b(1) by (cases a) (auto simp: Let_def)
  qed
qed simp

lemma waitMarker_still: "ft_keeps ft_still (waitForFileTransferShellMarker env cursor marker)"
proof (rule ft_keepsI)
  fix st r st' assume "waitForFileTransferShellMarker env cursor marker st = Some (r, st')"
  then have "ft_still (st\<lparr>ft_cursor := cursor\<rparr>) st'"
    unfolding waitForFileTransferShellMarker_def by (rule wait_marker_still)
  then show "ft_still st st'" by (simp add: ft_still_def ft_payload_def)
qed

lemma shell_steps_still:
  "ft_keeps ft_still (read_cursor env message)" "ft_keeps ft_still (shell_started b)"
  by (rule ft_keepsI, auto simp: read_cursor_def shell_started_def ft_still_def ft_payload_def split: sum.splits)+

lemma shell_recovered_still: "ft_keeps ft_still m \<Longrightarrow> ft_keeps ft_still (shell_recovered env m)"
  unfolding shell_recovered_def
  by (rule still_handle, assumption, rule ft_keepsI)
    (auto dest!: shell_recoveryError_spec intro: calm_still split: prod.splits)

lemma shell_ready_still: "ft_keeps ft_still (shell_ready env recent event)"
proof -
  have "ft_keeps ft_still (\<lambda>st. Some (Inr (), st\<lparr>sh_idle := True\<rparr>))"
    by (rule ft_keepsI) (auto simp: ft_still_def ft_payload_def)
  then show ?thesis unfolding shell_ready_def Let_def
    by (auto intro!: still_bind still_handle still_same waitMarker_still shell_steps_still)
qed

lemma shell_expect_still:
  "ft_keeps ft_still (\<lambda>st. expect_loop env False token phase (ft_reads st) (st\<lparr>ft_cursor := c, ft_pending := []\<rparr>))"
proof (rule ft_keepsI)
  fix st r st' assume "expect_loop env False token phase (ft_reads st) (st\<lparr>ft_cursor := c, ft_pending := []\<rparr>) = Some (r, st')"
  from expect_loop_spec [OF this] have "ft_still (st\<lparr>ft_cursor := c, ft_pending := []\<rparr>) st'"
    by (auto simp: answered_def intro: calm_still)
  then show "ft_still st st'" by (simp add: ft_still_def ft_payload_def)
qed

lemma start_shell_still: "ft_keeps ft_still (start_shell env ctx token)"
  unfolding start_shell_def
  by (intro still_bind still_wrap shell_recovered_still shell_write_still waitMarker_still shell_steps_still
      shell_expect_still shell_ready_still)

lemma close_shell_still: "ft_keeps ft_still (close_shell env)"
  unfolding close_shell_def
proof (rule still_bind)
  show "ft_keeps ft_still (\<lambda>st. if \<not> sh_beat_on st then Some (Inr (), st)
       else let st1 = beat_turn env st
            in case fe_beat_done env of
                 Some e \<Rightarrow> (let (e', st2) = shell_recoveryError env e st1 in Some (Inl e', st2))
               | None \<Rightarrow> Some (Inr (), st1\<lparr>sh_beat_on := False\<rparr>))"
  proof (rule ft_keepsI, goal_cases)
    case (1 st r st')
    have b: "ft_still st (beat_turn env st)" by (rule calm_still [OF beat_turn_calm])
    then have "ft_still st ((beat_turn env st)\<lparr>sh_beat_on := False\<rparr>)" by (rule still_cong) simp_all
    then show ?case using 1 b still_refl still_trans [OF b] calm_still shell_recoveryError_spec [of env _ "beat_turn env st"]
      by (auto simp: Let_def split: if_splits option.splits prod.splits)
  qed
next
  fix u :: unit
  let ?m = "ft_bind (read_cursor env ''initialize file-transfer shell exit cursor'') (\<lambda>recent.
      ft_bind (ft_wrap ''close remote file-transfer shell'' (shell_write env (fe_recovery env) fileTransferShellCloseCommand)) (\<lambda>u.
      ft_wrap ''confirm remote file-transfer shell exit''
        (waitForFileTransferShellMarker env recent fileTransferShellExitedMarker)))"
  have m: "ft_keeps ft_still (shell_recovered env ?m)"
    by (intro shell_recovered_still still_bind still_wrap shell_steps_still shell_write_still waitMarker_still)
  have c: "ft_still (st\<lparr>sh_closed := True, sh_idle := False\<rparr>) st' \<Longrightarrow> ft_still st st'" for st st'
    by (simp add: ft_still_def ft_payload_def)
  show "ft_keeps ft_still (\<lambda>st. case sh_recovery st of Some e \<Rightarrow> Some (Inl e, st)
     | None \<Rightarrow> if \<not> sh_started st \<or> sh_closed st then Some (Inr (), st)
         else shell_recovered env ?m (st\<lparr>sh_closed := True, sh_idle := False\<rparr>))"
    by (rule ft_keepsI) (auto split: option.splits if_splits dest: ft_keepsD [OF m] intro: c still_refl)
qed

lemma newShell_still: "ft_keeps ft_still (newShellFileTransferSession env)"
  unfolding newShellFileTransferSession_def
proof (rule still_bind)
  show "ft_keeps ft_still (newFileTransferToken env)" by (intro still_calm ft_kept)
  have c: "ft_still (fresh_shell st) st' \<Longrightarrow> ft_still st st'" for st st'
    by (simp add: ft_still_def ft_payload_def fresh_shell_def)
  have h: "ft_keeps ft_still (\<lambda>st1. case close_shell env st1 of
             None \<Rightarrow> None
           | Some (Inl e', st2) \<Rightarrow> Some (Inl (ErrJoin e e'), st2)
           | Some (Inr u, st2) \<Rightarrow> Some (Inl e, st2))" for e
    by (rule ft_keepsI) (auto split: option.splits sum.splits dest: ft_keepsD [OF close_shell_still])
  have on: "ft_keeps ft_still (\<lambda>st1. Some (Inr (), st1\<lparr>sh_beat_on := True\<rparr>))"
    by (rule ft_keepsI) (auto simp: ft_still_def ft_payload_def)
  have m: "ft_keeps ft_still (ft_bind (ft_handle (start_shell env (fe_start env) token) (\<lambda>e st1. case close_shell env st1 of
             None \<Rightarrow> None
           | Some (Inl e', st2) \<Rightarrow> Some (Inl (ErrJoin e e'), st2)
           | Some (Inr u, st2) \<Rightarrow> Some (Inl e, st2))) (\<lambda>u st1. Some (Inr (), st1\<lparr>sh_beat_on := True\<rparr>)))" for token
    by (intro still_bind still_handle start_shell_still h on)
  show "ft_keeps ft_still (\<lambda>st. ft_bind (ft_handle (start_shell env (fe_start env) token) (\<lambda>e st1. case close_shell env st1 of
             None \<Rightarrow> None
           | Some (Inl e', st2) \<Rightarrow> Some (Inl (ErrJoin e e'), st2)
           | Some (Inr u, st2) \<Rightarrow> Some (Inl e, st2))) (\<lambda>u st1. Some (Inr (), st1\<lparr>sh_beat_on := True\<rparr>)) (fresh_shell st))" for token
    by (rule ft_keepsI) (rule c, rule ft_keepsD [OF m])
qed

lemma With_Inr:
  assumes "WithFileTransferShell env operation st = Some (Inr a, st')" "ft_trace st = []"
  obtains st1 st2 where "ft_still st st1" "ft_inv st1" "operation st1 = Some (Inr a, st2)" "ft_still st2 st'"
  using assms(1) unfolding WithFileTransferShell_def
proof (cases rule: ft_bind_cases)
  case (went u st1)
  then show ?thesis using that [of st1] ft_keepsD [OF newShell_still went(1)] newShell_inv [OF went(1) assms(2)]
      ft_keepsD [OF close_shell_still]
    by (auto split: option.splits sum.splits)
qed simp

section \<open>Successful blocks\<close>

lemma receive_payload_length:
  "file_receive_payload env token message n st = Some (Inr d, st') \<Longrightarrow> 0 \<le> n \<Longrightarrow> int (length d) = n"
  using readExact_spec [of env n st] ft_interrupted_cases
  by (fastforce simp: file_receive_payload_def split: option.splits)

lemma receive_block_Inr:
  assumes "receive_block env ctx texts token quoted k i n st = Some (Inr d, st')" "0 \<le> n"
  shows "int (length d) = n" "ft_still st st'"
proof -
  show "ft_still st st'" using ft_keepsD [OF receive_block_kept assms(1)] by (rule calm_still)
  show "int (length d) = n" using assms receive_payload_length unfolding receive_block_def
    by (fastforce dest!: ft_bind_Inr simp: ft_ret_def)
qed

lemma writeAllTo_Inr:
  "writeAllTo env d st = Some (Inr u, st') \<Longrightarrow>
    ft_dest st' = ft_dest st @ d \<and> ft_trace st' = ft_trace st \<and> ft_source st' = ft_source st"
proof (induction env d st rule: writeAllTo.induct)
  case (1 env d st)
  obtain c err st1 where w: "dest_write env d st = ((c, err), st1)" by (metis surj_pair)
  have s: "ft_dest st1 = ft_dest st @ take c d" "ft_trace st1 = ft_trace st" "ft_source st1 = ft_source st"
    using w by (auto simp: dest_write_def)
  show ?case
  proof (cases "d = []")
    case False
    then have r: "err = None" "c \<noteq> 0" "writeAllTo env (drop c d) st1 = Some (Inr u, st')"
      using "1.prems" w by (auto simp: writeAllTo.simps [of env d st] split: option.splits if_splits)
    have "ft_dest st' = ft_dest st1 @ drop c d \<and> ft_trace st' = ft_trace st1 \<and> ft_source st' = ft_source st1"
      using "1.IH" [OF False w [symmetric] refl r(1,2)] r(3) by simp
    then show ?thesis using s by simp
  qed (use "1.prems" in \<open>simp add: writeAllTo.simps\<close>)
qed

text \<open>A relation of start and success of the receiving loop: what was stored.\<close>

lemma receive_loop_Inr:
  "receive_loop env ctx cancel texts token quoted n k i hashed st = Some (Inr x, st') \<Longrightarrow> k \<le> n \<Longrightarrow>
    \<exists>c. x = hashed @ c \<and> int (length c) = n - k \<and> ft_dest st' = ft_dest st @ c \<and> set (ft_trace st) \<subseteq> set (ft_trace st')"
proof (induction "nat (n - k)" arbitrary: k i hashed st rule: less_induct)
  case less
  show ?case
  proof (cases "k < n")
    case True
    let ?b = "block_size n k"
    have b: "0 < ?b" "k + ?b \<le> n" using True by (auto simp: block_size_def FileTransferChunkSize_def)
    obtain u1 s1 d s2 u3 s3 u4 s4 where
      1: "fileTransferCancellationCheckpoint env cancel st = Some (Inr u1, s1)" and
      2: "receive_block env ctx texts token quoted k i ?b s1 = Some (Inr d, s2)" and
      3: "writeAllTo env d s2 = Some (Inr u3, s3)" and
      4: "report_progress env (k + ?b) n s3 = Some (Inr u4, s4)" and
      5: "receive_loop env ctx cancel texts token quoted n (k + ?b) (i + 1) (hashed @ d) s4 = Some (Inr x, st')"
      using less.prems(1) True by (subst (asm) receive_loop.simps) (auto simp: Let_def dest!: ft_bind_Inr ft_wrap_Inr)
    have "nat (n - (k + ?b)) < nat (n - k)" using b True by linarith
    from less.hyps [OF this 5 b(2)] obtain c where
      c: "x = (hashed @ d) @ c" "int (length c) = n - (k + ?b)" "ft_dest st' = ft_dest s4 @ c" "set (ft_trace s4) \<subseteq> set (ft_trace st')"
      by blast
    have d: "int (length d) = ?b" "ft_still s1 s2" using receive_block_Inr [OF 2] b by simp_all
    have "ft_still st s1" "ft_still s3 s4"
      using ft_keepsD [OF checkpoint_kept 1] ft_keepsD [OF progress_kept 4] calm_still by blast+
    then show ?thesis using c d writeAllTo_Inr [OF 3] by (intro exI [of _ "d @ c"]) (auto simp: ft_still_def)
  next
    case False
    then show ?thesis using less.prems by (subst (asm) receive_loop.simps) (simp add: ft_ret_def)
  qed
qed

lemma expectPhase_Inr:
  assumes "ft_wrap message (expectPhase env token phase) st = Some (Inr fs, st')"
  shows "ft_still st st'" "FtMarker (phase # fs) \<in> set (ft_trace st')" "ft_inv st \<Longrightarrow> ft_inv st'"
proof -
  have e: "expectPhase env token phase st = Some (Inr fs, st')" using assms by (rule ft_wrap_Inr)
  note a = expectPhase_spec [OF e]
  show "ft_still st st'" "ft_inv st \<Longrightarrow> ft_inv st'" using a calm_still by (auto simp: answered_def ft_calm_def)
  show "FtMarker (phase # fs) \<in> set (ft_trace st')" using a answer_of_Inr unfolding answered_def by fastforce
qed

lemma when_kept: "ft_keeps ft_calm (if b then report_progress env k n else ft_ret ())"
  using ft_kept by auto

lemma verify_received_Inr:
  assumes "verify_received env ctx token path quoted n digest hashed st = Some (Inr r, st')"
  shows "ft_still st st' \<and> fr_size r = n \<and> fr_sha256 r = fe_sha256 env hashed \<and> equal_fold digest (fe_sha256 env hashed) \<and>
    (\<exists>gs d. FtMarker (''FINAL'' # gs) \<in> set (ft_trace st') \<and> parseVerifiedFile gs = Inr (n, d) \<and> equal_fold d digest)"
proof -
  obtain u1 s1 gs s2 where 1: "ft_command env ctx (verifyCommand token quoted) st = Some (Inr u1, s1)"
    and 2: "ft_wrap (''recheck remote file '' @ path) (expectPhase env token ''FINAL'') s1 = Some (Inr gs, s2)"
    and 3: "(case parseVerifiedFile gs of Inl e \<Rightarrow> ft_fail e | Inr (finalSize, finalDigest) \<Rightarrow>
      if finalSize \<noteq> n then ft_fail (ErrWrap ErrFileTransferSizeMismatch ''announced, final'')
      else if \<not> equal_fold finalDigest digest
      then ft_fail (ErrWrap ErrFileTransferChecksumMismatch ''remote file changed during transfer: announced, final'')
      else let localDigest = fe_sha256 env hashed
           in if \<not> equal_fold digest localDigest then ft_fail (ErrWrap ErrFileTransferChecksumMismatch ''remote, local'')
              else ft_bind (if n = 0 then report_progress env 0 0 else ft_ret ())
                (\<lambda>u. ft_ret \<lparr>fr_size = n, fr_sha256 = localDigest, fr_path = []\<rparr>)) s2 = Some (Inr r, st')"
    using assms unfolding verify_received_def by (blast dest: ft_bind_Inr)
  obtain d where d: "parseVerifiedFile gs = Inr (n, d)" "equal_fold d digest" "equal_fold digest (fe_sha256 env hashed)"
    and 4: "ft_bind (if n = 0 then report_progress env 0 0 else ft_ret ())
      (\<lambda>u. ft_ret \<lparr>fr_size = n, fr_sha256 = fe_sha256 env hashed, fr_path = []\<rparr>) s2 = Some (Inr r, st')"
    using 3 by (auto simp: ft_fail_def Let_def split: sum.splits if_splits)
  obtain u5 s5 where 5: "(if n = 0 then report_progress env 0 0 else ft_ret ()) s2 = Some (Inr u5, s5)"
    and r: "r = \<lparr>fr_size = n, fr_sha256 = fe_sha256 env hashed, fr_path = []\<rparr>" "st' = s5"
    using ft_bind_Inr [OF 4] by (auto simp: ft_ret_def)
  have s: "ft_still st s1" "ft_still s2 s5"
    using ft_keepsD [OF command_kept 1] ft_keepsD [OF when_kept 5] calm_still by blast+
  note e = expectPhase_Inr [OF 2]
  have "ft_still st st'" using s e(1) r(2) still_trans by blast
  moreover have "FtMarker (''FINAL'' # gs) \<in> set (ft_trace st')" using e(2) s(2) r(2) by (auto simp: ft_still_def)
  ultimately show ?thesis using d r(1) by auto
qed

lemma receive_scoped_Inr:
  assumes "receive_scoped env ctx cancel path st = Some (Inr r, st')"
  shows "\<exists>c fs gs d d'. ft_dest st' = ft_dest st @ c \<and> int (length c) = fr_size r \<and> fr_sha256 r = fe_sha256 env c \<and>
    FtMarker (''META'' # fs) \<in> set (ft_trace st') \<and> parseVerifiedFile fs = Inr (fr_size r, d) \<and>
    FtMarker (''FINAL'' # gs) \<in> set (ft_trace st') \<and> parseVerifiedFile gs = Inr (fr_size r, d') \<and>
    equal_fold d (fe_sha256 env c) \<and> equal_fold d' (fe_sha256 env c)"
proof -
  obtain q where "quoteRemotePath path = Inr q" using assms by (auto simp: receive_scoped_def ft_fail_def split: sum.splits)
  note body = assms [unfolded receive_scoped_def this sum.case]
  obtain token s1 u2 s2 fs s3 where 1: "newFileProtocol env ctx st = Some (Inr token, s1)"
    and 2: "ft_command env ctx (receiveInitCommand token q) s1 = Some (Inr u2, s2)"
    and 3: "ft_wrap (''read remote file metadata '' @ path) (expectPhase env token ''META'') s2 = Some (Inr fs, s3)"
    and 4: "(case parseVerifiedFile fs of Inl e \<Rightarrow> ft_fail e | Inr (n, remoteDigest) \<Rightarrow>
        ft_bind (if n > 0 then report_progress env 0 n else ft_ret ()) (\<lambda>u.
        ft_bind (fileTransferCancellationCheckpoint env cancel) (\<lambda>u.
        ft_bind (receive_loop env ctx cancel file_receive_texts token q n 0 0 []) (\<lambda>hashed.
        ft_bind (fileTransferCancellationCheckpoint env cancel) (\<lambda>u.
        verify_received env ctx token path q n remoteDigest hashed))))) s3 = Some (Inr r, st')"
    using body by (blast dest: ft_bind_Inr)
  obtain n d where d: "parseVerifiedFile fs = Inr (n, d)" using 4 by (auto simp: ft_fail_def split: sum.splits)
  have n: "0 \<le> n" using d by (auto simp: parseVerifiedFile_def Let_def split: list.splits option.splits if_splits)
  obtain u5 s5 u6 s6 c s7 u8 s8 where 5: "(if n > 0 then report_progress env 0 n else ft_ret ()) s3 = Some (Inr u5, s5)"
    and 6: "fileTransferCancellationCheckpoint env cancel s5 = Some (Inr u6, s6)"
    and 7: "receive_loop env ctx cancel file_receive_texts token q n 0 0 [] s6 = Some (Inr c, s7)"
    and 8: "fileTransferCancellationCheckpoint env cancel s7 = Some (Inr u8, s8)"
    and 9: "verify_received env ctx token path q n d c s8 = Some (Inr r, st')"
    using 4 [unfolded d sum.case prod.case] by (blast dest: ft_bind_Inr)
  have still: "ft_still st s2" "ft_still s3 s6" "ft_still s7 s8"
    using ft_keepsD [OF newFileProtocol_kept 1] ft_keepsD [OF command_kept 2] ft_keepsD [OF when_kept 5]
      ft_keepsD [OF checkpoint_kept 6] ft_keepsD [OF checkpoint_kept 8] calm_still still_trans by blast+
  note e = expectPhase_Inr [OF 3] and l = receive_loop_Inr [OF 7 n] and v = verify_received_Inr [OF 9]
  have dest: "ft_dest st' = ft_dest st @ c" "int (length c) = n"
    using still e(1) l v by (auto simp: ft_still_def)
  have "set (ft_trace s3) \<subseteq> set (ft_trace s6)" "set (ft_trace s6) \<subseteq> set (ft_trace s7)" "set (ft_trace s7) \<subseteq> set (ft_trace s8)"
    "set (ft_trace s8) \<subseteq> set (ft_trace st')" using still l v unfolding ft_still_def by blast+
  then have "FtMarker (''META'' # fs) \<in> set (ft_trace st')" using e(2) by blast
  moreover obtain gs d' where "FtMarker (''FINAL'' # gs) \<in> set (ft_trace st')" "parseVerifiedFile gs = Inr (n, d')" "equal_fold d' d"
    using v by blast
  moreover have "fr_size r = n" "fr_sha256 r = fe_sha256 env c" "equal_fold d (fe_sha256 env c)" using v by auto
  ultimately show ?thesis using d dest by (auto simp: equal_fold_def)
qed

text \<open>
  C25 A reported receipt is a verified one. Whatever the remote side, the channel and the
  local file do, when receiving a file succeeds, exactly the bytes appended to the
  local file have the size that the remote side announced before and after the
  transfer, and their digest is the reported one and the one it announced both times.
\<close>

theorem file_receive_verified:
  assumes "ReceiveFileWithCancellation env ctx cancel path st = Some (Inr r, st')" "ft_trace st = []"
  shows "\<exists>c fs gs d d'. ft_dest st' = ft_dest st @ c \<and> int (length c) = fr_size r \<and> fr_sha256 r = fe_sha256 env c \<and>
    FtMarker (''META'' # fs) \<in> set (ft_trace st') \<and> parseVerifiedFile fs = Inr (fr_size r, d) \<and>
    FtMarker (''FINAL'' # gs) \<in> set (ft_trace st') \<and> parseVerifiedFile gs = Inr (fr_size r, d') \<and>
    equal_fold d (fe_sha256 env c) \<and> equal_fold d' (fe_sha256 env c)"
proof -
  have "WithFileTransferShell env (receive_scoped env ctx cancel path) st = Some (Inr r, st')"
    using assms(1) by (auto simp: ReceiveFileWithCancellation_def ft_fail_def split: sum.splits)
  then obtain s1 s2 where s: "ft_still st s1" "receive_scoped env ctx cancel path s1 = Some (Inr r, s2)" "ft_still s2 st'"
    using assms(2) by (rule With_Inr)
  have "ft_dest st' = ft_dest s2" "ft_dest s1 = ft_dest st" "set (ft_trace s2) \<subseteq> set (ft_trace st')"
    using s(1,3) by (auto simp: ft_still_def)
  then show ?thesis using receive_scoped_Inr [OF s(2)] unfolding subset_iff by metis
qed

section \<open>Successful sending\<close>

lemma send_loop_Inr:
  "send_loop env ctx cancel texts token quoted n k hashed st = Some (Inr x, st') \<Longrightarrow> k \<le> n \<Longrightarrow> ft_inv st \<Longrightarrow>
    \<exists>c. x = hashed @ c \<and> int (length c) = n - k \<and> ft_payload st' = ft_payload st @ c \<and> ft_source st = c @ ft_source st' \<and> ft_inv st'"
proof (induction "nat (n - k)" arbitrary: k hashed st rule: less_induct)
  case less
  show ?case
  proof (cases "k < n")
    case True
    let ?b = "block_size n k"
    have b: "0 < ?b" "k + ?b \<le> n" using True by (auto simp: block_size_def FileTransferChunkSize_def)
    obtain u1 s1 d s2 u3 s3 u4 s4 where
      1: "fileTransferCancellationCheckpoint env cancel st = Some (Inr u1, s1)" and
      2: "source_ReadFull env ?b s1 = Some (Inr d, s2)" and
      3: "send_block env ctx texts token quoted k ?b d s2 = Some (Inr u3, s3)" and
      4: "report_progress env (k + ?b) n s3 = Some (Inr u4, s4)" and
      5: "send_loop env ctx cancel texts token quoted n (k + ?b) (hashed @ d) s4 = Some (Inr x, st')"
      using less.prems(1) True by (subst (asm) send_loop.simps) (auto simp: Let_def dest!: ft_bind_Inr ft_wrap_Inr)
    have s1: "ft_inv s1" "ft_still st s1"
      using ft_keepsD [OF checkpoint_kept 1] less.prems(3) calm_still by (auto simp: ft_calm_def)
    have s2: "ft_source s1 = d @ ft_source s2" "int (length d) = ?b" "ft_payload s2 = ft_payload s1" "ft_inv s2"
      using 2 s1(1) b(1) by (auto simp: source_ReadFull_def Let_def ft_payload_def ft_inv_def split: if_splits)
    note s3 = send_block_inv [OF s2(4) 3]
    have s4: "ft_still s3 s4" "ft_inv s4" using ft_keepsD [OF progress_kept 4] s3 calm_still by (auto simp: ft_calm_def)
    have "nat (n - (k + ?b)) < nat (n - k)" using b True by linarith
    from less.hyps [OF this 5 b(2) s4(2)] obtain c where c: "x = (hashed @ d) @ c" "int (length c) = n - (k + ?b)"
      "ft_payload st' = ft_payload s4 @ c" "ft_source s4 = c @ ft_source st'" "ft_inv st'" by blast
    then show ?thesis using s1(2) s2 s3 s4(1) by (intro exI [of _ "d @ c"]) (auto simp: ft_still_def)
  next
    case False
    then show ?thesis using less.prems by (subst (asm) send_loop.simps) (simp add: ft_ret_def)
  qed
qed

lemma verify_sent_Inr:
  assumes "verify_sent env ctx token path quoted n hashed st = Some (Inr r, st')"
  shows "ft_still st st' \<and> fr_size r = n \<and> fr_sha256 r = fe_sha256 env hashed \<and> fr_path r = path \<and>
    (\<exists>gs d. FtMarker (''FINAL'' # gs) \<in> set (ft_trace st') \<and> parseVerifiedFile gs = Inr (n, d) \<and> equal_fold d (fe_sha256 env hashed))"
proof -
  obtain u1 s1 gs s2 where 1: "ft_command env ctx (verifyCommand token quoted) st = Some (Inr u1, s1)"
    and 2: "ft_wrap (''verify remote file '' @ path) (expectPhase env token ''FINAL'') s1 = Some (Inr gs, s2)"
    and 3: "(case parseVerifiedFile gs of Inl e \<Rightarrow> ft_fail e | Inr (remoteSize, remoteDigest) \<Rightarrow>
      if remoteSize \<noteq> n then ft_fail (ErrWrap ErrFileTransferSizeMismatch ''local, remote'')
      else if \<not> equal_fold remoteDigest (fe_sha256 env hashed) then ft_fail (ErrWrap ErrFileTransferChecksumMismatch ''local, remote'')
      else ft_bind (if n = 0 then report_progress env 0 0 else ft_ret ())
        (\<lambda>u. ft_ret \<lparr>fr_size = n, fr_sha256 = fe_sha256 env hashed, fr_path = path\<rparr>)) s2 = Some (Inr r, st')"
    using assms unfolding verify_sent_def Let_def by (blast dest: ft_bind_Inr)
  obtain d where d: "parseVerifiedFile gs = Inr (n, d)" "equal_fold d (fe_sha256 env hashed)"
    and 4: "ft_bind (if n = 0 then report_progress env 0 0 else ft_ret ())
      (\<lambda>u. ft_ret \<lparr>fr_size = n, fr_sha256 = fe_sha256 env hashed, fr_path = path\<rparr>) s2 = Some (Inr r, st')"
    using 3 by (auto simp: ft_fail_def split: sum.splits if_splits)
  obtain u5 s5 where 5: "(if n = 0 then report_progress env 0 0 else ft_ret ()) s2 = Some (Inr u5, s5)"
    and r: "r = \<lparr>fr_size = n, fr_sha256 = fe_sha256 env hashed, fr_path = path\<rparr>" "st' = s5"
    using ft_bind_Inr [OF 4] by (auto simp: ft_ret_def)
  have s: "ft_still st s1" "ft_still s2 s5"
    using ft_keepsD [OF command_kept 1] ft_keepsD [OF when_kept 5] calm_still by blast+
  note e = expectPhase_Inr [OF 2]
  have "ft_still st st'" using s e(1) r(2) still_trans by blast
  moreover have "FtMarker (''FINAL'' # gs) \<in> set (ft_trace st')" using e(2) s(2) r(2) by (auto simp: ft_still_def)
  ultimately show ?thesis using d r(1) by auto
qed

lemma send_scoped_Inr:
  assumes "send_scoped env ctx cancel n wanted st = Some (Inr r, st')" "ft_inv st" "0 \<le> n"
  shows "\<exists>gs d. ft_payload st' = ft_payload st @ ft_source st \<and> int (length (ft_source st)) = n \<and> fr_size r = n \<and>
    fr_sha256 r = fe_sha256 env (ft_source st) \<and> FtMarker (''FINAL'' # gs) \<in> set (ft_trace st') \<and>
    parseVerifiedFile gs = Inr (n, d) \<and> equal_fold d (fe_sha256 env (ft_source st))"
proof -
  obtain token s1 u2 s2 path q s3 u4 s4 where 1: "newFileProtocol env ctx st = Some (Inr token, s1)"
    and 2: "fileTransferCancellationCheckpoint env cancel s1 = Some (Inr u2, s2)"
    and 3: "selectAvailableRemotePath env ctx token wanted s2 = Some (Inr (path, q), s3)"
    and 4: "fileTransferCancellationCheckpoint env cancel s3 = Some (Inr u4, s4)"
    and 5: "(case quoteRemotePath (path_Dir path) of Inl e \<Rightarrow> ft_fail e | Inr directory \<Rightarrow>
        ft_bind (ft_command env ctx (sendInitCommand token q directory)) (\<lambda>u.
        ft_bind (ft_wrap (''initialize remote file '' @ path) (expect env token ''INIT'' [''OK''])) (\<lambda>u.
        ft_bind (fileTransferCancellationCheckpoint env cancel) (\<lambda>u.
        ft_bind (send_loop env ctx cancel file_send_texts token q n 0 []) (\<lambda>hashed.
        ft_bind (fileTransferCancellationCheckpoint env cancel) (\<lambda>u.
        ft_bind (ft_wrap ''local file changed while sending'' (\<lambda>st. ft_check (source_trailing env st) st)) (\<lambda>u.
        verify_sent env ctx token path q n hashed))))))) s4 = Some (Inr r, st')"
    using assms(1) unfolding send_scoped_def by (fastforce dest!: ft_bind_Inr)
  obtain dir where dir: "quoteRemotePath (path_Dir path) = Inr dir" using 5 by (auto simp: ft_fail_def split: sum.splits)
  obtain u6 s6 u7 s7 u8 s8 c s9 u10 s10 u11 s11 where 6: "ft_command env ctx (sendInitCommand token q dir) s4 = Some (Inr u6, s6)"
    and 7: "ft_wrap (''initialize remote file '' @ path) (expect env token ''INIT'' [''OK'']) s6 = Some (Inr u7, s7)"
    and 8: "fileTransferCancellationCheckpoint env cancel s7 = Some (Inr u8, s8)"
    and 9: "send_loop env ctx cancel file_send_texts token q n 0 [] s8 = Some (Inr c, s9)"
    and 10: "fileTransferCancellationCheckpoint env cancel s9 = Some (Inr u10, s10)"
    and 11: "ft_wrap ''local file changed while sending'' (\<lambda>st. ft_check (source_trailing env st) st) s10 = Some (Inr u11, s11)"
    and 12: "verify_sent env ctx token path q n c s11 = Some (Inr r, st')"
    using 5 [unfolded dir sum.case] by (auto dest!: ft_bind_Inr)
  have "ft_calm st s8"
    using ft_keepsD [OF newFileProtocol_kept 1] ft_keepsD [OF checkpoint_kept 2] ft_keepsD [OF select_kept 3]
      ft_keepsD [OF checkpoint_kept 4] ft_keepsD [OF command_kept 6] ft_keepsD [OF expect_kept ft_wrap_Inr [OF 7]]
      ft_keepsD [OF checkpoint_kept 8] ft_calm_trans by blast
  then have s8: "ft_source s8 = ft_source st" "ft_payload s8 = ft_payload st" "ft_inv s8" using assms(2) by (auto simp: ft_calm_def)
  note l = send_loop_Inr [OF 9 assms(3) s8(3)]
  have "source_trailing env s10 = None" "s11 = s10"
    using ft_wrap_Inr [OF 11] by (auto simp: ft_check_def ft_fail_def ft_ret_def split: option.splits)
  then have "ft_source s10 = []" by (auto simp: source_trailing_def split: if_splits)
  moreover have "ft_still s9 s10" using ft_keepsD [OF checkpoint_kept 10] by (rule calm_still)
  ultimately have "ft_source st = c" "ft_payload s11 = ft_payload st @ c" "int (length c) = n"
    using l s8 \<open>s11 = s10\<close> by (auto simp: ft_still_def)
  then show ?thesis using verify_sent_Inr [OF 12] by (auto simp: ft_still_def)
qed

text \<open>
  C26 A reported send is a verified one. Whatever the remote side, the channel and the
  keep-alive do, when sending a file succeeds, the raw bytes written to the terminal
  are exactly the local source, its length is the announced size, and the remote side
  answered its final check with that size and with the digest of those bytes.
\<close>

theorem file_send_verified:
  assumes "SendFileWithCancellation env ctx cancel n path st = Some (Inr r, st')" "ft_trace st = []"
  shows "\<exists>gs d. ft_payload st' = ft_source st \<and> int (length (ft_source st)) = n \<and> fr_size r = n \<and>
    fr_sha256 r = fe_sha256 env (ft_source st) \<and> FtMarker (''FINAL'' # gs) \<in> set (ft_trace st') \<and>
    parseVerifiedFile gs = Inr (n, d) \<and> equal_fold d (fe_sha256 env (ft_source st))"
proof -
  have n: "0 \<le> n" and w: "WithFileTransferShell env (send_scoped env ctx cancel n path) st = Some (Inr r, st')"
    using assms(1) by (auto simp: SendFileWithCancellation_def ft_fail_def split: sum.splits if_splits)
  obtain s1 s2 where s: "ft_still st s1" "ft_inv s1" "send_scoped env ctx cancel n path s1 = Some (Inr r, s2)" "ft_still s2 st'"
    using w assms(2) by (rule With_Inr)
  have "ft_source s1 = ft_source st" "ft_payload s1 = []" "ft_payload st' = ft_payload s2" "set (ft_trace s2) \<subseteq> set (ft_trace st')"
    using s(1,4) assms(2) by (auto simp: ft_still_def ft_payload_def)
  then show ?thesis using send_scoped_Inr [OF s(3,2) n] unfolding subset_iff by auto
qed

end
