(* ===== verification/File_Exact.thy ===== *)
theory File_Exact
  imports File_Roundtrip File_Verified File_Discipline
begin

text \<open>
  The exactness of whole transfers: with a remote side that follows the protocol, a
  file arrives as it is, through the start of the shell, the blocks and its end.
\<close>

section \<open>A remote side that follows the protocol\<close>

text \<open>
  Its output while it sends a content: for every block, after other output, the
  announcement, the raw bytes, other output and the acknowledgement. A block is full
  unless it is the last one. The bytes of the content may contain anything.
\<close>

definition full_block :: "string \<Rightarrow> string \<Rightarrow> bool" where
  "full_block b rest \<longleftrightarrow> b \<noteq> [] \<and> int (length b) \<le> FileTransferChunkSize \<and> (rest \<noteq> [] \<longrightarrow> int (length b) = FileTransferChunkSize)"

inductive receive_talk :: "string \<Rightarrow> string \<Rightarrow> string \<Rightarrow> bool" for token where
  receive_end: "receive_talk token [] []"
| receive_more: "full_block b rest \<Longrightarrow> quiet (ft_prefix token) n1 \<Longrightarrow> quiet (ft_prefix token) n2 \<Longrightarrow> receive_talk token rest s \<Longrightarrow>
    receive_talk token (b @ rest)
      (n1 @ answer_line token cr1 [''DATA'', format_int (int (length b))] @ b @
       n2 @ answer_line token cr2 [''ACK'', format_int (int (length b))] @ s)"

text \<open>And while it takes one: readiness and acknowledgement for every block.\<close>

inductive send_talk :: "string \<Rightarrow> string \<Rightarrow> string \<Rightarrow> bool" for token where
  send_end: "send_talk token [] []"
| send_more: "full_block b rest \<Longrightarrow> quiet (ft_prefix token) n1 \<Longrightarrow> quiet (ft_prefix token) n2 \<Longrightarrow> send_talk token rest s \<Longrightarrow>
    send_talk token (b @ rest)
      (n1 @ answer_line token cr1 [''READY'', format_int (int (length b))] @
       n2 @ answer_line token cr2 [''ACK'', format_int (int (length b))] @ s)"

lemma block_size_full: "full_block b rest \<Longrightarrow> n = k + int (length (b @ rest)) \<Longrightarrow> block_size n k = int (length b) \<and> k < n"
  by (auto simp: full_block_def block_size_def FileTransferChunkSize_def)

lemma clean_number: "clean_field (format_int n)"
proof -
  have "c \<noteq> CHR '':'' \<and> c \<noteq> CHR 0x0A \<and> c \<noteq> CHR 0x0D" if "is_digit c" for c using that by (auto simp: is_digit_def)
  then show ?thesis using format_nat_digits unfolding clean_field_def format_int_def by (fastforce split: if_splits)
qed

lemma clean_phases:
  "clean_event [''DATA'', format_int n]" "clean_event [''ACK'', format_int n]" "clean_event [''READY'', format_int n]"
  "clean_event [''INIT'', ''OK'']" "clean_event [''PICK'', ''FREE'']"
  using clean_number [of n] by (simp_all add: clean_event_def clean_field_def)

lemma does_receive_loop:
  assumes "calm_transfer env ctx cancel" "plain_token token" "receive_talk token c s"
  shows "n = k + int (length c) \<Longrightarrow>
    ft_does (ft_at z (s @ t) d src w) (receive_loop env ctx cancel texts token quoted n k i hashed) (hashed @ c) (ft_at z t (d @ c) src w)"
  using assms(3)
proof (induction arbitrary: k i hashed d rule: receive_talk.induct)
  case receive_end
  then show ?case by (subst receive_loop.simps) (simp add: does_ret)
next
  case (receive_more b rest n1 n2 s cr1 cr2)
  note size = block_size_full [OF receive_more.hyps(1) receive_more.prems]
  have ih: "ft_does (ft_at z (s @ t) (d @ b) src w)
      (receive_loop env ctx cancel texts token quoted n (k + int (length b)) (i + 1) (hashed @ b)) ((hashed @ b) @ rest)
      (ft_at z t ((d @ b) @ rest) src w)"
    by (rule receive_more.IH) (use receive_more.prems in simp)
  have block: "ft_does (ft_at z ((n1 @ answer_line token cr1 [''DATA'', format_int (int (length b))] @ b @
       n2 @ answer_line token cr2 [''ACK'', format_int (int (length b))] @ s) @ t) d src w)
     (receive_block env ctx texts token quoted k i (int (length b))) b (ft_at z (s @ t) d src w)"
    unfolding receive_block_def append_assoc
    by (rule does_bind [OF does_command [OF assms(1)]], rule does_bind [OF does_handle [OF does_expect]],
        (rule assms clean_phases receive_more.hyps | simp)+,
        rule does_bind [OF does_receive_payload [OF assms(1) refl]],
        rule does_bind [OF does_handle [OF does_expect] does_ret], (rule assms clean_phases receive_more.hyps | simp)+)
  show ?case
    by (subst receive_loop.simps) (simp add: size Let_def,
      rule does_bind [OF does_checkpoint [OF assms(1)]], rule does_bind [OF block [simplified]],
      rule does_bind [OF does_wrap [OF does_store [OF assms(1)]]], rule does_bind [OF does_progress [OF assms(1)]],
      use ih in simp)
qed

lemma does_send_loop:
  assumes "calm_transfer env ctx cancel" "plain_token token" "send_talk token c s"
  shows "n = k + int (length c) \<Longrightarrow>
    ft_does (ft_at z (s @ t) d (c @ src) w) (send_loop env ctx cancel texts token quoted n k hashed) (hashed @ c) (ft_at z t d src (w @ c))"
  using assms(3)
proof (induction arbitrary: k hashed w rule: send_talk.induct)
  case send_end
  then show ?case by (subst send_loop.simps) (simp add: does_ret)
next
  case (send_more b rest n1 n2 s cr1 cr2)
  note size = block_size_full [OF send_more.hyps(1) send_more.prems]
  have ih: "ft_does (ft_at z (s @ t) d (rest @ src) (w @ b))
      (send_loop env ctx cancel texts token quoted n (k + int (length b)) (hashed @ b)) ((hashed @ b) @ rest)
      (ft_at z t d src ((w @ b) @ rest))"
    by (rule send_more.IH) (use send_more.prems in simp)
  have block: "ft_does (ft_at z ((n1 @ answer_line token cr1 [''READY'', format_int (int (length b))] @
       n2 @ answer_line token cr2 [''ACK'', format_int (int (length b))] @ s) @ t) d (rest @ src) w)
     (send_block env ctx texts token quoted k (int (length b)) b) () (ft_at z (s @ t) d (rest @ src) (w @ b))"
    unfolding send_block_def append_assoc
    by (rule does_bind [OF does_command [OF assms(1)]], rule does_bind [OF does_handle [OF does_expect]],
        (rule assms clean_phases send_more.hyps | simp)+,
        rule does_bind [OF does_payload [OF assms(1)]],
        rule does_handle [OF does_expect], (rule assms clean_phases send_more.hyps | simp)+)
  show ?case
    by (subst send_loop.simps) (simp add: size Let_def,
      rule does_bind [OF does_checkpoint [OF assms(1)]], rule does_bind [OF does_wrap [OF does_source [OF refl]]],
      rule does_bind [OF block [simplified]], rule does_bind [OF does_progress [OF assms(1)]],
      use ih in simp)
qed

text \<open>The digest of the remote side, as \<open>parseVerifiedFile\<close> reads it, is the local one.\<close>

definition tells_file :: "ft_env \<Rightarrow> string list \<Rightarrow> string \<Rightarrow> bool" where
  "tells_file env fs c \<longleftrightarrow> (\<forall>f \<in> set fs. clean_field f) \<and> parseVerifiedFile fs = Inr (int (length c), fe_sha256 env c)"

lemma does_when:
  assumes "calm_transfer env ctx cancel"
  shows "ft_does (ft_at z s d src w) (if b then report_progress env k n else ft_ret ()) () (ft_at z s d src w)"
  using does_progress [OF assms] by (simp add: does_ret)

lemma equal_fold_refl [simp]: "equal_fold a a"
  by (simp add: equal_fold_def)

lemma does_verify_received:
  assumes "calm_transfer env ctx cancel" "plain_token token" "tells_file env fs c" "quiet (ft_prefix token) noise"
  shows "ft_does (ft_at z (noise @ answer_line token cr (''FINAL'' # fs) @ t) d src w)
    (verify_received env ctx token path quoted (int (length c)) (fe_sha256 env c) c)
    \<lparr>fr_size = int (length c), fr_sha256 = fe_sha256 env c, fr_path = []\<rparr> (ft_at z t d src w)"
proof -
  have e: "clean_event (''FINAL'' # fs)" using assms(3) by (simp add: tells_file_def clean_event_def clean_field_def)
  have v: "parseVerifiedFile fs = Inr (int (length c), fe_sha256 env c)" using assms(3) by (simp add: tells_file_def)
  show ?thesis unfolding verify_received_def
    by (rule does_bind [OF does_command [OF assms(1)]],
        rule does_bind [OF does_wrap [OF does_expectPhase [OF assms(1,2) e _ assms(4)]]], simp,
        simp only: v sum.case prod.case Let_def equal_fold_refl simp_thms if_False,
        rule does_bind [OF does_when [OF assms(1)] does_ret])
qed

lemma does_verify_sent:
  assumes "calm_transfer env ctx cancel" "plain_token token" "tells_file env fs c" "quiet (ft_prefix token) noise"
  shows "ft_does (ft_at z (noise @ answer_line token cr (''FINAL'' # fs) @ t) d src w)
    (verify_sent env ctx token path quoted (int (length c)) c)
    \<lparr>fr_size = int (length c), fr_sha256 = fe_sha256 env c, fr_path = path\<rparr> (ft_at z t d src w)"
proof -
  have e: "clean_event (''FINAL'' # fs)" using assms(3) by (simp add: tells_file_def clean_event_def clean_field_def)
  have v: "parseVerifiedFile fs = Inr (int (length c), fe_sha256 env c)" using assms(3) by (simp add: tells_file_def)
  show ?thesis unfolding verify_sent_def Let_def
    by (rule does_bind [OF does_command [OF assms(1)]],
        rule does_bind [OF does_wrap [OF does_expectPhase [OF assms(1,2) e _ assms(4)]]], simp,
        simp only: v sum.case prod.case Let_def equal_fold_refl simp_thms if_False,
        rule does_bind [OF does_when [OF assms(1)] does_ret])
qed

section \<open>Exact transfers\<close>

lemma clean_tells: "tells_file env fs c \<Longrightarrow> clean_event [phase] \<Longrightarrow> clean_event (phase # fs)"
  by (simp add: tells_file_def clean_event_def)

lemma does_receive:
  assumes "calm_transfer env ctx cancel" "plain_token token" "fe_random env k = Inr token" "quoteRemotePath path = Inr q"
    and "tells_file env fs c" "tells_file env gs c" "receive_talk token c s"
    and "quiet (ft_prefix token) n1" "quiet (ft_prefix token) n2"
  shows "ft_does (\<lambda>st. ft_clock st = k \<and> ft_at z (ft_pending st @ n1 @ answer_line token cr1 (''META'' # fs) @ s @ n2 @
      answer_line token cr2 (''FINAL'' # gs) @ rest) d src w st) (receive_scoped env ctx cancel path)
    \<lparr>fr_size = int (length c), fr_sha256 = fe_sha256 env c, fr_path = []\<rparr> (ft_at z rest (d @ c) src w)"
proof -
  have e: "clean_event (''META'' # fs)" by (rule clean_tells [OF assms(5)]) (simp add: clean_event_def clean_field_def)
  have v: "parseVerifiedFile fs = Inr (int (length c), fe_sha256 env c)" using assms(5) by (simp add: tells_file_def)
  have l: "ft_does (ft_at z (s @ t) d src w) (receive_loop env ctx cancel file_receive_texts token quoted (int (length c)) 0 0 []) c (ft_at z t (d @ c) src w)"
    for t quoted using does_receive_loop [OF assms(1,2,7), of "int (length c)" 0 z t d src w file_receive_texts quoted 0 "[]"] by simp
  show ?thesis unfolding receive_scoped_def assms(4) sum.case
    by (rule does_bind [OF does_protocol [OF assms(1,3)]], rule does_bind [OF does_command [OF assms(1)]],
        rule does_bind [OF does_wrap [OF does_expectPhase [OF assms(1,2) e _ assms(8)]]], simp, simp only: v sum.case prod.case,
        rule does_bind [OF does_when [OF assms(1)]], rule does_bind [OF does_checkpoint [OF assms(1)]],
        rule does_bind [OF l], rule does_bind [OF does_checkpoint [OF assms(1)]],
        rule does_verify_received [OF assms(1,2,6,9)])
qed

lemma does_select_free:
  assumes "calm_transfer env ctx cancel" "plain_token token" "quoteRemotePath path = Inr q" "quiet (ft_prefix token) noise"
  shows "ft_does (ft_at z (noise @ answer_line token cr [''PICK'', ''FREE''] @ s) d src w)
    (selectAvailableRemotePath env ctx token path) (path, q) (ft_at z s d src w)"
proof -
  have "ft_does (ft_at z (noise @ answer_line token cr [''PICK'', ''FREE''] @ s) d src w)
    (select_loop (Suc k) env ctx token path path 0) (path, q) (ft_at z s d src w)" for k
    unfolding select_loop.simps assms(3) sum.case
    by (rule does_bind [OF does_command [OF assms(1)]],
        rule does_bind [OF does_expectPhase [OF assms(1,2) clean_phases(5) _ assms(4)]], simp, simp add: does_ret)
  then show ?thesis unfolding selectAvailableRemotePath_def ft_does_def ft_fuel_def by blast
qed

lemma does_trailing:
  "fe_source_end env = IoEOF \<Longrightarrow> ft_does (ft_at z s d [] w) (\<lambda>st. ft_check (source_trailing env st) st) () (ft_at z s d [] w)"
  by (auto simp: ft_does_def ft_check_def ft_ret_def source_trailing_def ft_at_def)

lemma does_send:
  assumes "calm_transfer env ctx cancel" "plain_token token" "fe_random env k = Inr token" "quoteRemotePath path = Inr q"
    and "quoteRemotePath (path_Dir path) = Inr dq" "fe_source_end env = IoEOF" "tells_file env fs c" "send_talk token c s"
    and "quiet (ft_prefix token) n1" "quiet (ft_prefix token) n2" "quiet (ft_prefix token) n3"
  shows "ft_does (\<lambda>st. ft_clock st = k \<and> ft_at z (ft_pending st @ n1 @ answer_line token cr1 [''PICK'', ''FREE''] @ n2 @ answer_line token cr2 [''INIT'', ''OK''] @
      s @ n3 @ answer_line token cr3 (''FINAL'' # fs) @ rest) d c w st) (send_scoped env ctx cancel (int (length c)) path)
    \<lparr>fr_size = int (length c), fr_sha256 = fe_sha256 env c, fr_path = path\<rparr> (ft_at z rest d [] (w @ c))"
proof -
  have l: "ft_does (ft_at z (s @ t) d c w) (send_loop env ctx cancel file_send_texts token quoted (int (length c)) 0 []) c (ft_at z t d [] (w @ c))"
    for t quoted using does_send_loop [OF assms(1,2,8), of "int (length c)" 0 z t d "[]" w file_send_texts quoted "[]"] by simp
  show ?thesis unfolding send_scoped_def
    by (rule does_bind [OF does_protocol [OF assms(1,3)]], rule does_bind [OF does_checkpoint [OF assms(1)]],
        rule does_bind [OF does_select_free [OF assms(1,2,4,9)]], unfold prod.case,
        rule does_bind [OF does_checkpoint [OF assms(1)]], unfold assms(5) sum.case,
        rule does_bind [OF does_command [OF assms(1)]],
        rule does_bind [OF does_wrap [OF does_expect [OF assms(1,2) clean_phases(4) _ assms(10)]]], simp,
        rule does_bind [OF does_checkpoint [OF assms(1)]], rule does_bind [OF l],
        rule does_bind [OF does_checkpoint [OF assms(1)]], rule does_bind [OF does_wrap [OF does_trailing [OF assms(6)]]],
        rule does_verify_sent [OF assms(1,2,7,11)])
qed

section \<open>Start and end of the shell\<close>

text \<open>A shell, live if \<open>v\<close>, with reads \<open>z\<close> to come, whatever is pending of an earlier reader.\<close>

definition ft_raw :: "bool \<Rightarrow> read_script \<Rightarrow> string \<Rightarrow> string \<Rightarrow> string \<Rightarrow> ft \<Rightarrow> bool" where
  "ft_raw v z d src w st \<longleftrightarrow> (v \<longrightarrow> ft_live st) \<and> ft_reads st = z \<and> ft_dest st = d \<and> ft_source st = src \<and> ft_payload st = w"

lemma raw_at: "ft_raw v z d src w (st\<lparr>ft_cursor := c, ft_pending := []\<rparr>) = ft_raw v z d src w st"
  by (simp add: ft_raw_def ft_live_def ft_payload_def)

lemma raw_beat:
  assumes "calm_transfer env ctx cancel" shows "ft_raw v z d src w (beat_turn env st) = ft_raw v z d src w st"
  using live_beat [OF assms, of st] by (simp add: ft_raw_def beat_turn_frame)

lemma does_cursor:
  assumes "calm_transfer env ctx cancel" "\<And>c. ft_does P (f c) b Q"
  shows "ft_does P (ft_bind (read_cursor env message) f) b Q"
  unfolding ft_does_def
proof (intro allI impI)
  fix st assume "P st"
  obtain c where "fe_recent env (ft_clock st) = Inr c" using assms(1) unfolding calm_transfer_def by blast
  then have "ft_bind (read_cursor env message) f st = f c st" by (simp add: ft_bind_def read_cursor_def)
  then show "\<exists>st'. ft_bind (read_cursor env message) f st = Some (Inr b, st') \<and> Q st'"
    using assms(2) [of c] \<open>P st\<close> by (simp add: ft_does_def)
qed

lemma does_shell_write:
  assumes "\<forall>t d. fe_write env t d = (length d, None)" "\<forall>t. ctx t = None"
  shows "ft_does (ft_raw v z d src w) (shell_write env ctx command) () (ft_raw v z d src w)"
  using calm_payload [OF assms, of FromShell "command @ [CHR 0x0A]"]
  by (auto simp: ft_does_def shell_write_def ft_raw_def ft_live_def)

lemma does_started: "ft_does (ft_raw v z d src w) (shell_started b) () (ft_raw v z d src w)"
  by (auto simp: ft_does_def shell_started_def ft_raw_def ft_live_def ft_payload_def)

lemma does_recovered: "ft_does P m a Q \<Longrightarrow> ft_does P (shell_recovered env m) a Q"
  unfolding shell_recovered_def by (rule does_handle)

text \<open>A wait for a control marker ends with the read that completes its first occurrence.\<close>

definition first_marker :: "string \<Rightarrow> read_script \<Rightarrow> bool" where
  "first_marker m r \<longleftrightarrow> good_reads r \<and> r \<noteq> [] \<and> \<not> str_contains (read_bytes (butlast r)) m \<and> str_contains (read_bytes r) m"

lemma read_bytes_append [simp]: "read_bytes (a @ b) = read_bytes a @ read_bytes b"
  by (simp add: read_bytes_def)

lemma good_reads_append [simp]: "good_reads (a @ b) \<longleftrightarrow> good_reads a \<and> good_reads b"
  by (simp add: good_reads_def)

lemma wait_marker_finds:
  assumes "calm_transfer env ctx cancel" "m \<noteq> []"
  shows "good_reads r \<Longrightarrow> r \<noteq> [] \<Longrightarrow> \<not> str_contains (S @ read_bytes (butlast r)) m \<Longrightarrow> str_contains (S @ read_bytes r) m \<Longrightarrow>
    ft_raw v x d src w st \<Longrightarrow>
    \<exists>st'. wait_marker_loop env m (window (length m - 1) S) (r @ z) st = Some (Inr (), st') \<and> ft_raw v z d src w st'"
proof (induction r arbitrary: S st x)
  case (Cons a r)
  obtain chunk where c: "a = Inr chunk" "\<not> oc_dropped chunk" using Cons.prems(1) by (cases a) (auto simp: good_reads_def)
  have "\<not> str_contains S m" using Cons.prems(3) str_contains_append by blast
  then have none: "str_index S m = None" by (simp add: str_contains_def)
  have bytes: "read_bytes (a # r) = oc_data chunk @ read_bytes r" using c by (simp add: read_bytes_def)
  have found: "str_contains (window (length m - 1) S @ oc_data chunk) m = str_contains (S @ oc_data chunk) m"
    using window_search(1) [OF none _ assms(2), of "length m - 1" "oc_data chunk"] by (simp add: str_contains_def)
  let ?s = "(beat_turn env st)\<lparr>ft_reads := r @ z, ft_cursor := oc_next chunk\<rparr>"
  have "ft_raw v x d src w (beat_turn env st)" using Cons.prems(5) raw_beat [OF assms(1)] by simp
  then have s: "ft_raw v (r @ z) d src w ?s" by (simp add: ft_raw_def ft_live_def ft_payload_def)
  show ?case
  proof (cases "str_contains (S @ oc_data chunk) m")
    case True
    have "r = []"
    proof (rule ccontr)
      assume "r \<noteq> []"
      then have "read_bytes (butlast (a # r)) = oc_data chunk @ read_bytes (butlast r)" using c by (simp add: read_bytes_def)
      then show False using Cons.prems(3) str_contains_append [OF True, of "read_bytes (butlast r)"] by simp
    qed
    then show ?thesis using c found True s by (simp add: Let_def)
  next
    case False
    then have r: "r \<noteq> []" using Cons.prems(4) bytes by (auto simp: read_bytes_def)
    have "\<exists>st'. wait_marker_loop env m (window (length m - 1) (S @ oc_data chunk)) (r @ z) ?s = Some (Inr (), st') \<and> ft_raw v z d src w st'"
    proof (rule Cons.IH)
      show "\<not> str_contains ((S @ oc_data chunk) @ read_bytes (butlast r)) m"
        using Cons.prems(3) r c by (simp add: read_bytes_def)
    qed (use Cons.prems bytes r s in \<open>auto simp: good_reads_def\<close>)
    then show ?thesis using c found False by (simp add: Let_def window_window)
  qed
qed simp

lemma does_wait:
  assumes "calm_transfer env ctx cancel" "m \<noteq> []" "good_reads e" "read_bytes e = []" "first_marker m r"
  shows "ft_does (ft_raw v (e @ r @ z) d src w) (waitForFileTransferShellMarker env cursor m) () (ft_raw v z d src w)"
  unfolding ft_does_def
proof (intro allI impI)
  fix st assume a: "ft_raw v (e @ r @ z) d src w st"
  have r: "good_reads (e @ r)" "e @ r \<noteq> []" "\<not> str_contains ([] @ read_bytes (butlast (e @ r))) m" "str_contains ([] @ read_bytes (e @ r)) m"
    using assms(3-5) by (auto simp: first_marker_def butlast_append)
  have "ft_raw v (e @ r @ z) d src w (st\<lparr>ft_cursor := cursor\<rparr>)" using a by (simp add: ft_raw_def ft_live_def ft_payload_def)
  from wait_marker_finds [OF assms(1,2) r this, of z] a
  show "\<exists>st'. waitForFileTransferShellMarker env cursor m st = Some (Inr (), st') \<and> ft_raw v z d src w st'"
    by (simp add: waitForFileTransferShellMarker_def ft_raw_def window_def)
qed

text \<open>The start: the marker that echo is off, then readiness.\<close>

lemma does_shell_ready:
  assumes "calm_transfer env ctx cancel" "plain_token token" "good_reads r" "quiet (ft_prefix token) noise"
    and "read_bytes r = noise @ answer_line token cr [''SHELL'', ''READY'']"
  shows "ft_does (ft_raw True (r @ z) d src w)
    (\<lambda>st. expect_loop env False token ''SHELL'' (ft_reads st) (st\<lparr>ft_cursor := c, ft_pending := []\<rparr>)) [''READY''] (ft_at z [] d src w)"
  unfolding ft_does_def
proof (intro allI impI)
  fix st assume a: "ft_raw True (r @ z) d src w st"
  let ?s = "st\<lparr>ft_cursor := c, ft_pending := []\<rparr>"
  have "ft_at z (noise @ answer_line token cr [''SHELL'', ''READY''] @ []) d src w (?s\<lparr>ft_reads := r @ z\<rparr>)"
    using a assms(3,5) by (simp add: ft_at_def feeds_def ft_raw_def ft_live_def ft_payload_def)
  from loop_answer [OF assms(1,2) _ this assms(4), of False "''SHELL''"] a
  show "\<exists>st'. expect_loop env False token ''SHELL'' (ft_reads st) ?s = Some (Inr [''READY''], st') \<and> ft_at z [] d src w st'"
    by (simp add: ft_raw_def phase_answer clean_event_def clean_field_def)
qed

lemma does_start:
  assumes "calm_transfer env ctx cancel" "plain_token token" "first_marker fileTransferShellEchoHiddenMarker r1"
    and "good_reads r2" "quiet (ft_prefix token) noise" "read_bytes r2 = noise @ answer_line token cr [''SHELL'', ''READY'']"
  shows "ft_does (ft_raw True (r1 @ r2 @ z) d src w) (start_shell env (fe_start env) token) () (ft_at z [] d src w)"
proof -
  have c: "\<forall>t d. fe_write env t d = (length d, None)" "\<forall>t. fe_start env t = None" using assms(1) by (auto simp: calm_transfer_def)
  have m: "fileTransferShellEchoHiddenMarker \<noteq> []" by (simp add: fileTransferShellEchoHiddenMarker_def)
  have w: "ft_does (ft_raw True (r1 @ y) d src w) (waitForFileTransferShellMarker env k fileTransferShellEchoHiddenMarker) () (ft_raw True y d src w)" for k y
    using does_wait [where e = "[]" and z = y, OF assms(1) m _ _ assms(3)] by (simp add: good_reads_def read_bytes_def)
  have ready: "ft_does (ft_at z [] d src w) (shell_ready env k [''READY'']) () (ft_at z [] d src w)" for k
    by (simp add: shell_ready_def ft_does_def at_idle)
  show ?thesis unfolding start_shell_def
    by (rule does_cursor [OF assms(1)], rule does_bind [OF does_recovered [OF does_wrap [OF does_shell_write [OF c]]]],
        rule does_bind [OF does_started], rule does_bind [OF does_wrap [OF w]],
        rule does_bind [OF does_wrap [OF does_shell_write [OF c]]],
        rule does_bind [OF does_wrap [OF does_shell_ready [OF assms(1,2,4-6)]]], rule ready)
qed

text \<open>
  The time the start takes: two writes and the answer line, since the keep-alive does not run yet. So a new shell draws its token at the
  time \<open>k\<close> of the call, and the operation inside it draws its own at \<open>k + 3\<close>.
\<close>

lemma clock_shell_write:
  assumes "\<forall>t d. fe_write env t d = (length d, None)" "\<forall>t. ctx t = None" "shell_write env ctx command st = Some (Inr u, st')"
  shows "ft_clock st' = Suc (ft_clock st) \<and> sh_beat_on st' = sh_beat_on st"
  using assms(3) calm_payload [OF assms(1,2), of FromShell "command @ [CHR 0x0A]" st] by (auto simp: shell_write_def ft_emit_def)

lemma clock_wait_marker:
  "wait_marker_loop env m p rs st = Some (r, st') \<Longrightarrow> \<not> sh_beat_on st \<Longrightarrow> ft_clock st' = ft_clock st \<and> \<not> sh_beat_on st'"
proof (induction rs arbitrary: p st)
  case (Cons a rs)
  have b: "beat_turn env st = st" using Cons.prems(2) by (simp add: beat_turn_def)
  show ?case
  proof (cases a)
    case (Inr chunk)
    show ?thesis
    proof (cases "oc_dropped chunk \<or> str_contains (p @ oc_data chunk) m")
      case True
      then show ?thesis using Cons.prems Inr b by (auto simp: Let_def split: if_splits)
    next
      case False
      then have "wait_marker_loop env m (window (length m - 1) (p @ oc_data chunk)) rs (st\<lparr>ft_reads := rs, ft_cursor := oc_next chunk\<rparr>) = Some (r, st')"
        using Cons.prems(1) Inr b by (simp add: Let_def)
      from Cons.IH [OF this] Cons.prems(2) show ?thesis by simp
    qed
  qed (use Cons.prems b in \<open>auto simp: Let_def\<close>)
qed simp

lemma clock_expect:
  "expect_loop env False token phase rs st = Some (Inr event, st') \<Longrightarrow> \<not> sh_beat_on st \<Longrightarrow>
     ft_clock st' = Suc (ft_clock st) \<and> \<not> sh_beat_on st'"
proof (induction rs arbitrary: st)
  case Nil
  then show ?case by (simp add: expect_loop.simps [of _ _ _ _ "[]"] answer_seen_def ft_emit_def split: sum.splits prod.splits) auto
next
  case (Cons a rs)
  have b: "beat_turn env st = st" using Cons.prems(2) by (simp add: beat_turn_def)
  show ?case
  proof (cases "take_answer token (ft_pending st)")
    case (Inr e)
    obtain ev rest where e: "e = (ev, rest)" by (cases e)
    have "st' = answer_seen False ev (st\<lparr>ft_pending := rest, ft_reads := a # rs\<rparr>)"
      using Cons.prems(1) unfolding expect_loop.simps [of _ _ _ _ "a # rs"] Inr e by simp
    then show ?thesis using Cons.prems(2) by (simp add: answer_seen_def ft_emit_def)
  next
    case (Inl kept)
    note run = Cons.prems(1) [unfolded expect_loop.simps [of _ _ _ _ "a # rs"] Inl sum.case list.case b Let_def]
    obtain chunk where c: "a = Inr chunk" "\<not> oc_dropped chunk" using run by (cases a) (auto split: if_splits)
    then have "expect_loop env False token phase rs (st\<lparr>ft_cursor := oc_next chunk, ft_pending := kept @ oc_data chunk\<rparr>) = Some (Inr event, st')"
      using run by simp
    from Cons.IH [OF this] Cons.prems(2) show ?thesis by simp
  qed
qed

text \<open>A step that takes \<open>n\<close> operations and does not start the keep-alive.\<close>

definition ft_takes :: "nat \<Rightarrow> 'a ft_run \<Rightarrow> bool" where
  "ft_takes n m \<longleftrightarrow> (\<forall>st a st'. m st = Some (Inr a, st') \<longrightarrow> \<not> sh_beat_on st \<longrightarrow> ft_clock st' = ft_clock st + n \<and> \<not> sh_beat_on st')"

lemma takes_bind: "ft_takes n m \<Longrightarrow> (\<And>a. ft_takes k (f a)) \<Longrightarrow> ft_takes (n + k) (ft_bind m f)"
  unfolding ft_takes_def by (auto dest!: ft_bind_Inr)

lemma takes_wrap: "ft_takes n m \<Longrightarrow> ft_takes n (ft_wrap message m)"
  unfolding ft_takes_def by (blast dest: ft_wrap_Inr)

lemma takes_recovered: "ft_takes n m \<Longrightarrow> ft_takes n (shell_recovered env m)"
  unfolding ft_takes_def shell_recovered_def by (auto elim!: ft_handle_cases split: prod.splits)

lemma takes_wait: "ft_takes 0 (waitForFileTransferShellMarker env cursor marker)"
  unfolding ft_takes_def waitForFileTransferShellMarker_def
proof (intro allI impI)
  fix st :: ft and a st'
  assume "wait_marker_loop env marker [] (ft_reads st) (st\<lparr>ft_cursor := cursor\<rparr>) = Some (Inr a, st')" "\<not> sh_beat_on st"
  then show "ft_clock st' = ft_clock st + 0 \<and> \<not> sh_beat_on st'" using clock_wait_marker by fastforce
qed

lemma takes_expect:
  "ft_takes 1 (\<lambda>st. expect_loop env False token phase (ft_reads st) (st\<lparr>ft_cursor := c, ft_pending := []\<rparr>))"
  unfolding ft_takes_def
proof (intro allI impI)
  fix st :: ft and a st'
  assume "expect_loop env False token phase (ft_reads st) (st\<lparr>ft_cursor := c, ft_pending := []\<rparr>) = Some (Inr a, st')" "\<not> sh_beat_on st"
  then show "ft_clock st' = ft_clock st + 1 \<and> \<not> sh_beat_on st'" using clock_expect by fastforce
qed

lemma takes_steps: "ft_takes 0 (read_cursor env message)" "ft_takes 0 (shell_started b)"
  by (auto simp: ft_takes_def read_cursor_def shell_started_def split: sum.splits)

lemma takes_write:
  "\<forall>t d. fe_write env t d = (length d, None) \<Longrightarrow> \<forall>t. ctx t = None \<Longrightarrow> ft_takes 1 (shell_write env ctx command)"
  unfolding ft_takes_def
proof (intro allI impI)
  fix st :: ft and a st'
  assume w: "\<forall>t d. fe_write env t d = (length d, None)" "\<forall>t. ctx t = None" and r: "shell_write env ctx command st = Some (Inr a, st')"
    and b: "\<not> sh_beat_on st"
  from clock_shell_write [OF w r] b show "ft_clock st' = ft_clock st + 1 \<and> \<not> sh_beat_on st'" by simp
qed

lemma takes_fail: "ft_takes n (ft_bind m (\<lambda>u. ft_fail e))" "ft_takes n (ft_fail e)"
  by (auto simp: ft_takes_def ft_fail_def dest!: ft_bind_Inr)

lemma takes_fail2: "ft_takes n (ft_bind m (\<lambda>u. ft_bind m2 (\<lambda>u. ft_fail e)))"
  unfolding ft_takes_def by (auto simp: ft_fail_def dest!: ft_bind_Inr)

lemma takes_ready: "ft_takes 0 (shell_ready env cursor event)"
proof -
  have "ft_takes 0 (\<lambda>st. Some (Inr (), st\<lparr>sh_idle := True\<rparr>))" by (simp add: ft_takes_def)
  then show ?thesis unfolding shell_ready_def Let_def by (simp add: takes_fail takes_fail2)
qed

lemma clock_start:
  assumes "calm_transfer env ctx cancel" "start_shell env (fe_start env) token st = Some (Inr u, st')" "\<not> sh_beat_on st"
  shows "ft_clock st' = ft_clock st + 3"
proof -
  have w: "\<forall>t d. fe_write env t d = (length d, None)" "\<forall>t. fe_start env t = None" using assms(1) by (auto simp: calm_transfer_def)
  have "ft_takes (0 + (1 + (0 + (0 + (1 + (1 + 0)))))) (start_shell env (fe_start env) token)"
    unfolding start_shell_def
    by (intro takes_bind takes_recovered takes_wrap takes_steps takes_wait takes_expect takes_ready takes_write [OF w])
  then show ?thesis using assms(2,3) unfolding ft_takes_def by force
qed

lemma does_newShell:
  assumes "calm_transfer env ctx cancel" "plain_token token" "fe_random env k = Inr token"
    and "first_marker fileTransferShellEchoHiddenMarker r1"
    and "good_reads r2" "quiet (ft_prefix token) noise" "read_bytes r2 = noise @ answer_line token cr [''SHELL'', ''READY'']"
  shows "ft_does (\<lambda>st. ft_clock st = k \<and> ft_reads st = r1 @ r2 @ z \<and> ft_dest st = d \<and> ft_source st = src \<and> ft_payload st = w)
    (newShellFileTransferSession env) () (\<lambda>st. ft_clock st = k + 3 \<and> ft_at z [] d src w st)"
  unfolding ft_does_def
proof (intro allI impI)
  fix st assume a: "ft_clock st = k \<and> ft_reads st = r1 @ r2 @ z \<and> ft_dest st = d \<and> ft_source st = src \<and> ft_payload st = w"
  have "ft_raw True (r1 @ r2 @ z) d src w (fresh_shell st)"
    using a by (simp add: ft_raw_def fresh_shell_def ft_live_def ft_payload_def)
  then obtain s1 where s: "start_shell env (fe_start env) token (fresh_shell st) = Some (Inr (), s1)" "ft_at z [] d src w s1"
    using does_start [OF assms(1,2,4-7)] unfolding ft_does_def by blast
  have c: "ft_clock s1 = k + 3" using clock_start [OF assms(1) s(1)] a by (simp add: fresh_shell_def)
  have "ft_at z [] d src w (s1\<lparr>sh_beat_on := True\<rparr>)" using s(2) by (simp add: ft_at_def feeds_def ft_live_def ft_payload_def)
  then show "\<exists>st'. newShellFileTransferSession env st = Some (Inr (), st') \<and> (ft_clock st' = k + 3 \<and> ft_at z [] d src w st')"
    using s(1) assms(3) a c by (simp add: newShellFileTransferSession_def ft_bind_def ft_handle_def newFileTransferToken_def)
qed

text \<open>The end: the marker that the interactive parent is back.\<close>

lemma does_close:
  assumes "calm_transfer env ctx cancel" "first_marker fileTransferShellExitedMarker r"
  shows "ft_does (ft_at (r @ z) [] d src w) (close_shell env) () (\<lambda>st. ft_dest st = d \<and> ft_source st = src \<and> ft_payload st = w)"
  unfolding ft_does_def
proof (intro allI impI)
  fix st assume a: "ft_at (r @ z) [] d src w st"
  define s1 where "s1 = (if \<not> sh_beat_on st then st else (beat_turn env st)\<lparr>sh_beat_on := False\<rparr>)"
  have b: "ft_at (r @ z) [] d src w (beat_turn env st)" using a at_beat [OF assms(1)] by simp
  have s1: "ft_at (r @ z) [] d src w s1"
    using a b by (simp add: s1_def) (simp add: ft_at_def feeds_def ft_live_def ft_payload_def)
  let ?m = "ft_bind (read_cursor env ''initialize file-transfer shell exit cursor'') (\<lambda>recent.
      ft_bind (ft_wrap ''close remote file-transfer shell'' (shell_write env (fe_recovery env) fileTransferShellCloseCommand)) (\<lambda>u.
      ft_wrap ''confirm remote file-transfer shell exit'' (waitForFileTransferShellMarker env recent fileTransferShellExitedMarker)))"
  let ?c = "s1\<lparr>sh_closed := True, sh_idle := False\<rparr>"
  have run: "close_shell env st = (if \<not> sh_started s1 \<or> sh_closed s1 then Some (Inr (), s1) else shell_recovered env ?m ?c)"
  proof -
    have "fe_beat_done env = None" using assms(1) by (simp add: calm_transfer_def)
    moreover have "sh_recovery st = None" "sh_recovery (beat_turn env st) = None" using a b by (simp_all add: ft_at_def ft_live_def)
    ultimately show ?thesis by (cases "sh_beat_on st") (simp_all add: close_shell_def ft_bind_def [of "\<lambda>st. if _ st then _ st else _ st"] s1_def Let_def)
  qed
  show "\<exists>st'. close_shell env st = Some (Inr (), st') \<and> (ft_dest st' = d \<and> ft_source st' = src \<and> ft_payload st' = w)"
  proof (cases "\<not> sh_started s1 \<or> sh_closed s1")
    case True
    then show ?thesis using run s1 by (simp add: ft_at_def)
  next
    case False
    obtain e where e: "ft_reads s1 = e @ r @ z" "good_reads e" "read_bytes e = []"
      using s1 by (auto simp: ft_at_def feeds_def)
    have w: "\<forall>t d. fe_write env t d = (length d, None)" "\<forall>t. fe_recovery env t = None" using assms(1) by (auto simp: calm_transfer_def)
    have m: "fileTransferShellExitedMarker \<noteq> []" by (simp add: fileTransferShellExitedMarker_def)
    have "ft_does (ft_raw False (e @ r @ z) d src w) (shell_recovered env ?m) () (ft_raw False z d src w)"
      by (rule does_recovered, rule does_cursor [OF assms(1)], rule does_bind [OF does_wrap [OF does_shell_write [OF w]]],
          rule does_wrap, rule does_wait [OF assms(1) m e(2,3) assms(2)])
    moreover have "ft_raw False (e @ r @ z) d src w ?c" using s1 e(1) by (simp add: ft_raw_def ft_at_def ft_payload_def)
    ultimately obtain s2 where "shell_recovered env ?m ?c = Some (Inr (), s2)" "ft_raw False z d src w s2"
      unfolding ft_does_def by blast
    then show ?thesis using run False by (simp add: ft_raw_def)
  qed
qed

section \<open>Exact transfers\<close>

text \<open>
  The reads of a whole transfer: the start of the shell, the protocol, and the exit
  of the shell.
\<close>

definition shell_script :: "string \<Rightarrow> read_script \<Rightarrow> read_script \<Rightarrow> read_script \<Rightarrow> bool" where
  "shell_script token r1 r2 r4 \<longleftrightarrow>
     first_marker fileTransferShellEchoHiddenMarker r1 \<and> good_reads r2 \<and>
     (\<exists>noise cr. quiet (ft_prefix token) noise \<and> read_bytes r2 = noise @ answer_line token cr [''SHELL'', ''READY'']) \<and>
     first_marker fileTransferShellExitedMarker r4"

lemma does_with:
  assumes "calm_transfer env ctx cancel" "plain_token token" "fe_random env k = Inr token" "shell_script token r1 r2 r4"
    and "good_reads r3" "ft_does (\<lambda>st. ft_clock st = k + 3 \<and> ft_at (r4 @ z) (ft_pending st @ read_bytes r3) d src w st) operation a (ft_at (r4 @ z) [] d' src' w')"
  shows "ft_does (\<lambda>st. ft_clock st = k \<and> ft_reads st = r1 @ r2 @ r3 @ r4 @ z \<and> ft_dest st = d \<and> ft_source st = src \<and> ft_payload st = w)
    (WithFileTransferShell env operation) a (\<lambda>st. ft_dest st = d' \<and> ft_source st = src' \<and> ft_payload st = w')"
  unfolding ft_does_def
proof (intro allI impI)
  fix st assume s: "ft_clock st = k \<and> ft_reads st = r1 @ r2 @ r3 @ r4 @ z \<and> ft_dest st = d \<and> ft_source st = src \<and> ft_payload st = w"
  obtain noise cr where sh: "first_marker fileTransferShellEchoHiddenMarker r1" "good_reads r2" "quiet (ft_prefix token) noise"
      "read_bytes r2 = noise @ answer_line token cr [''SHELL'', ''READY'']" "first_marker fileTransferShellExitedMarker r4"
    using assms(4) by (auto simp: shell_script_def)
  obtain s1 where n: "newShellFileTransferSession env st = Some (Inr (), s1)" "ft_at (r3 @ r4 @ z) [] d src w s1" "ft_clock s1 = k + 3"
    using does_newShell [OF assms(1-3) sh(1-4), of "r3 @ r4 @ z" d src w] s unfolding ft_does_def by blast
  have "ft_at (r4 @ z) (ft_pending s1 @ read_bytes r3) d src w s1"
    using n(2) assms(5) by (auto simp: ft_at_def feeds_def)
  then obtain s2 where o: "operation s1 = Some (Inr a, s2)" "ft_at (r4 @ z) [] d' src' w' s2"
    using assms(6) n(3) unfolding ft_does_def by blast
  obtain s3 where "close_shell env s2 = Some (Inr (), s3)" "ft_dest s3 = d' \<and> ft_source s3 = src' \<and> ft_payload s3 = w'"
    using does_close [OF assms(1) sh(5)] o(2) unfolding ft_does_def by blast
  then show "\<exists>st'. WithFileTransferShell env operation st = Some (Inr a, st') \<and>
      (ft_dest st' = d' \<and> ft_source st' = src' \<and> ft_payload st' = w')"
    using n(1) o(1) by (simp add: WithFileTransferShell_def ft_bind_def)
qed

lemma does_whole_receive:
  assumes "calm_transfer env ctx cancel" "plain_token token" "plain_token shell" "fe_random env k = Inr shell" "fe_random env (k + 3) = Inr token" "quoteRemotePath path = Inr q"
    and "tells_file env fs c" "tells_file env gs c" "receive_talk token c s" "quiet (ft_prefix token) n1" "quiet (ft_prefix token) n2"
    and "shell_script shell r1 r2 r4" "good_reads r3"
    and "read_bytes r3 = n1 @ answer_line token cr1 (''META'' # fs) @ s @ n2 @ answer_line token cr2 (''FINAL'' # gs)"
  shows "ft_does (\<lambda>st. ft_clock st = k \<and> ft_reads st = r1 @ r2 @ r3 @ r4 @ z \<and> ft_dest st = d \<and> ft_source st = src \<and> ft_payload st = w)
    (ReceiveFileWithCancellation env ctx cancel path)
    \<lparr>fr_size = int (length c), fr_sha256 = fe_sha256 env c, fr_path = []\<rparr>
    (\<lambda>st. ft_dest st = d @ c \<and> ft_source st = src \<and> ft_payload st = w)"
  unfolding ReceiveFileWithCancellation_def assms(6) sum.case
  by (rule does_with [OF assms(1,3,4,12,13)]) (use does_receive [where rest = "[]", OF assms(1,2,5-11)] assms(14) in simp)

lemma does_whole_send:
  assumes "calm_transfer env ctx cancel" "plain_token token" "plain_token shell" "fe_random env k = Inr shell" "fe_random env (k + 3) = Inr token" "quoteRemotePath path = Inr q"
    and "quoteRemotePath (path_Dir path) = Inr dq" "fe_source_end env = IoEOF" "tells_file env fs c" "send_talk token c s"
    and "quiet (ft_prefix token) n1" "quiet (ft_prefix token) n2" "quiet (ft_prefix token) n3"
    and "shell_script shell r1 r2 r4" "good_reads r3"
    and "read_bytes r3 = n1 @ answer_line token cr1 [''PICK'', ''FREE''] @ n2 @ answer_line token cr2 [''INIT'', ''OK''] @
      s @ n3 @ answer_line token cr3 (''FINAL'' # fs)"
  shows "ft_does (\<lambda>st. ft_clock st = k \<and> ft_reads st = r1 @ r2 @ r3 @ r4 @ z \<and> ft_dest st = d \<and> ft_source st = c \<and> ft_payload st = w)
    (SendFileWithCancellation env ctx cancel (int (length c)) path)
    \<lparr>fr_size = int (length c), fr_sha256 = fe_sha256 env c, fr_path = path\<rparr>
    (\<lambda>st. ft_dest st = d \<and> ft_source st = [] \<and> ft_payload st = w @ c)"
proof -
  have "\<not> int (length c) < 0" by simp
  then show ?thesis unfolding SendFileWithCancellation_def assms(6) sum.case if_False
    by (simp only: if_False, intro does_with [OF assms(1,3,4,14,15)])
      (use does_send [where rest = "[]", OF assms(1,2,5-13)] assms(16) in simp)
qed

text \<open>
  C23 A received file is exactly the remote content. When the output of the terminal holds
  the start of the shell, the announcement, the blocks and the final check of a remote side that
  follows the protocol, and the exit of the shell, in any cut into reads, with other terminal output between
  its lines, with line ends in either form, and with any bytes in the content (the
  marker of the transfer itself included), then the transfer succeeds, reports the size and the
  digest, and appends exactly the content to the local file, however often the
  keep-alive writes meanwhile.
  The shell and the protocol draw a token each, any two tokens: the first at the time of
  the call, the second three operations later, when the shell has started.
\<close>

theorem file_receive_exact:
  assumes "calm_transfer env ctx cancel" "plain_token token" "plain_token shell" "fe_random env (ft_clock st) = Inr shell" "fe_random env (ft_clock st + 3) = Inr token" "quoteRemotePath path = Inr q"
    and "tells_file env fs c" "tells_file env gs c" "receive_talk token c s" "quiet (ft_prefix token) n1" "quiet (ft_prefix token) n2"
    and "shell_script shell r1 r2 r4" "good_reads r3" "ft_reads st = r1 @ r2 @ r3 @ r4 @ z"
    and "read_bytes r3 = n1 @ answer_line token cr1 (''META'' # fs) @ s @ n2 @ answer_line token cr2 (''FINAL'' # gs)"
  shows "\<exists>st'. ReceiveFileWithCancellation env ctx cancel path st =
      Some (Inr \<lparr>fr_size = int (length c), fr_sha256 = fe_sha256 env c, fr_path = []\<rparr>, st') \<and> ft_dest st' = ft_dest st @ c"
  using does_whole_receive [OF assms(1-13,15), of z "ft_dest st" "ft_source st" "ft_payload st"] assms(14)
  unfolding ft_does_def by blast

text \<open>
  C24 A sent file is exactly the local content: when the remote side answers by the
  protocol, in any cut into reads and with other output between its lines, the
  transfer succeeds, and the raw bytes written to the terminal are exactly the bytes of
  the local source, which is used up. Again the tokens of the shell and of the protocol
  are the answers of two draws and need not agree.
\<close>

theorem file_send_exact:
  assumes "calm_transfer env ctx cancel" "plain_token token" "plain_token shell" "fe_random env (ft_clock st) = Inr shell" "fe_random env (ft_clock st + 3) = Inr token" "quoteRemotePath path = Inr q"
    and "quoteRemotePath (path_Dir path) = Inr dq" "fe_source_end env = IoEOF" "tells_file env fs (ft_source st)"
    and "send_talk token (ft_source st) s"
    and "quiet (ft_prefix token) n1" "quiet (ft_prefix token) n2" "quiet (ft_prefix token) n3"
    and "shell_script shell r1 r2 r4" "good_reads r3" "ft_reads st = r1 @ r2 @ r3 @ r4 @ z"
    and "read_bytes r3 = n1 @ answer_line token cr1 [''PICK'', ''FREE''] @ n2 @ answer_line token cr2 [''INIT'', ''OK''] @
      s @ n3 @ answer_line token cr3 (''FINAL'' # fs)"
  shows "\<exists>st'. SendFileWithCancellation env ctx cancel (int (length (ft_source st))) path st =
      Some (Inr \<lparr>fr_size = int (length (ft_source st)), fr_sha256 = fe_sha256 env (ft_source st), fr_path = path\<rparr>, st') \<and>
    ft_payload st' = ft_payload st @ ft_source st \<and> ft_source st' = []"
  using does_whole_send [OF assms(1-15,17), of z "ft_dest st" "ft_payload st"] assms(16)
  unfolding ft_does_def by blast

section \<open>A small transfer\<close>

definition demo_chunk :: "string \<Rightarrow> goerr + output_chunk" where
  "demo_chunk d = Inr \<lparr>oc_data = d, oc_next = 0, oc_dropped = False\<rparr>"

definition demo_digest :: string where "demo_digest = replicate 64 (CHR ''a'')"

text \<open>Everything succeeds, and the keep-alive fires before every turn.\<close>

definition demo_transfer :: ft_env where
  "demo_transfer = \<lparr>fe_recent = \<lambda>t. Inr 0, fe_write = \<lambda>t d. (length d, None), fe_contextual = True, fe_checkpoint = None,
     fe_requested = None, fe_abort = None, fe_random = \<lambda>t. Inr (if t = 0 then ''cd'' else ''ab''), fe_start = \<lambda>t. None, fe_recovery = \<lambda>t. None, fe_beats = \<lambda>t. 1,
     fe_beat_ctx = \<lambda>t. None, fe_beat_done = None, fe_sha256 = \<lambda>s. demo_digest, fe_progress = None,
     fe_dest = \<lambda>t d. (length d, None), fe_source_end = IoEOF\<rparr>"

definition demo_state :: "string \<Rightarrow> read_script \<Rightarrow> ft" where
  "demo_state source reads = \<lparr>ft_clock = 0, ft_reads = reads, ft_cursor = 0, ft_pending = [], ft_source = source, ft_dest = [],
     sh_idle = False, sh_started = False, sh_closed = False, sh_beat_on = False, sh_beat_err = None, sh_recovery = None, ft_trace = []\<rparr>"

text \<open>The content is the marker of the transfer itself; the conversation comes in two reads.\<close>

definition demo_content :: string where "demo_content = ''@CTERM:ab:ACK:9''"

definition demo_receive :: string where
  "demo_receive = [] @ answer_line ''ab'' True [''META'', ''15'', demo_digest] @
     ([CHR 0x0A] @ answer_line ''ab'' False [''DATA'', format_int (int (length demo_content))] @ demo_content @
      [CHR 0x0A] @ answer_line ''ab'' True [''ACK'', format_int (int (length demo_content))] @ []) @
     ''$ '' @ answer_line ''ab'' True [''FINAL'', ''15'', demo_digest]"

definition demo_send :: string where
  "demo_send = ''$ '' @ answer_line ''ab'' True [''PICK'', ''FREE''] @ [] @ answer_line ''ab'' True [''INIT'', ''OK''] @
     ([CHR 0x0A] @ answer_line ''ab'' False [''READY'', format_int (int (length demo_content))] @
      [CHR 0x0A] @ answer_line ''ab'' True [''ACK'', format_int (int (length demo_content))] @ []) @
     [] @ answer_line ''ab'' True [''FINAL'', ''15'', demo_digest]"

definition demo_reads :: "string \<Rightarrow> read_script" where
  "demo_reads s = [demo_chunk fileTransferShellEchoHiddenMarker] @ [demo_chunk (answer_line ''cd'' True [''SHELL'', ''READY''])] @
     [demo_chunk (take 30 s), demo_chunk (drop 30 s)] @ [demo_chunk fileTransferShellExitedMarker] @ []"

lemma demo_parse: "parseVerifiedFile [''15'', demo_digest] = Inr (15, demo_digest)"
proof -
  have t: "trim_space s = s" if "lead_space s = 0" "tail_space s = 0" for s
    using that by (simp add: trim_space_def trim_left.simps trim_right.simps)
  have "lead_space demo_digest = 0" "tail_space demo_digest = 0" by code_simp+
  then have d: "trim_space demo_digest = demo_digest" by (rule t)
  have "trim_space ''15'' = ''15''" "go_Atoi ''15'' = Some 15" "is_hex (CHR ''a'')" "lower_byte (CHR ''a'') = CHR ''a''" by code_simp+
  moreover have "to_lower demo_digest = demo_digest" "length demo_digest = 64" "list_all is_hex demo_digest"
    using calculation by (simp_all add: demo_digest_def to_lower_def list_all_iff)
  ultimately show ?thesis using d by (simp add: parseVerifiedFile_def)
qed

lemma demo_facts:
  "calm_transfer demo_transfer (\<lambda>t. None) None" "plain_token ''ab''" "plain_token ''cd''"
  "fe_random demo_transfer (ft_clock (demo_state src reads)) = Inr ''cd''" "fe_random demo_transfer (ft_clock (demo_state src reads) + 3) = Inr ''ab''"
  "fe_random demo_transfer 0 = Inr ''cd''" "fe_random demo_transfer (0 + 3) = Inr ''ab''"
  "quoteRemotePath ''f'' = Inr (quoteTerminalCommand ''f'')" "quoteRemotePath (path_Dir ''f'') = Inr (quoteTerminalCommand ''.'')"
  "fe_source_end demo_transfer = IoEOF" "tells_file demo_transfer [''15'', demo_digest] demo_content"
  "full_block demo_content []" "quiet (ft_prefix ''ab'') []" "quiet (ft_prefix ''ab'') [CHR 0x0A]" "quiet (ft_prefix ''ab'') ''$ ''" "quiet (ft_prefix ''cd'') []"
proof -
  show "tells_file demo_transfer [''15'', demo_digest] demo_content"
    using demo_parse by (auto simp: tells_file_def demo_transfer_def demo_content_def clean_field_def demo_digest_def)
  show "plain_token ''ab''" "plain_token ''cd''" "quoteRemotePath ''f'' = Inr (quoteTerminalCommand ''f'')"
    "quoteRemotePath (path_Dir ''f'') = Inr (quoteTerminalCommand ''.'')" by code_simp+
qed (simp_all add: calm_transfer_def demo_transfer_def demo_state_def terminal_checkpoint_def full_block_def demo_content_def
    FileTransferChunkSize_def quiet_plain)

lemma demo_chunk_reads [simp]:
  "read_bytes [] = []" "good_reads []" "read_bytes (demo_chunk d # r) = d @ read_bytes r" "good_reads (demo_chunk d # r) = good_reads r"
  by (simp_all add: read_bytes_def good_reads_def demo_chunk_def)

lemma demo_shell:
  "shell_script ''cd'' [demo_chunk fileTransferShellEchoHiddenMarker] [demo_chunk (answer_line ''cd'' True [''SHELL'', ''READY''])]
    [demo_chunk fileTransferShellExitedMarker]"
proof -
  have first: "first_marker m [demo_chunk m]" if "m \<noteq> []" for m
  proof -
    have "str_index m m = Some 0" using that by (cases m) (simp_all add: has_prefix_def)
    moreover have "str_index [] m = None" using that by (cases m) (simp_all add: has_prefix_def)
    ultimately show ?thesis by (simp add: first_marker_def str_contains_def)
  qed
  have "quiet (ft_prefix ''cd'') []" by (rule demo_facts)
  then have "\<exists>noise cr. quiet (ft_prefix ''cd'') noise \<and>
      read_bytes [demo_chunk (answer_line ''cd'' True [''SHELL'', ''READY''])] = noise @ answer_line ''cd'' cr [''SHELL'', ''READY'']"
    by (intro exI [of _ "[]"] exI [of _ True]) simp
  moreover have "fileTransferShellEchoHiddenMarker \<noteq> []" "fileTransferShellExitedMarker \<noteq> []"
    by (simp_all add: fileTransferShellEchoHiddenMarker_def fileTransferShellExitedMarker_def)
  ultimately show ?thesis unfolding shell_script_def using first by simp
qed

lemma demo_talk:
  "receive_talk ''ab'' demo_content ([CHR 0x0A] @ answer_line ''ab'' False [''DATA'', format_int (int (length demo_content))] @ demo_content @
      [CHR 0x0A] @ answer_line ''ab'' True [''ACK'', format_int (int (length demo_content))] @ [])"
  "send_talk ''ab'' demo_content ([CHR 0x0A] @ answer_line ''ab'' False [''READY'', format_int (int (length demo_content))] @
      [CHR 0x0A] @ answer_line ''ab'' True [''ACK'', format_int (int (length demo_content))] @ [])"
  using receive_more [OF demo_facts(12,14,14) receive_end, of False True] send_more [OF demo_facts(12,14,14) send_end, of False True]
  by simp_all

lemma demo_middle: "good_reads [demo_chunk (take 30 s), demo_chunk (drop 30 s)]" "read_bytes [demo_chunk (take 30 s), demo_chunk (drop 30 s)] = s"
  by simp_all

lemma demo_clock: "ft_clock (demo_state src reads) = 0"
  by (simp add: demo_state_def)

lemma demo_stream: "ft_reads (demo_state src (demo_reads s)) = [demo_chunk fileTransferShellEchoHiddenMarker] @
    [demo_chunk (answer_line ''cd'' True [''SHELL'', ''READY''])] @ [demo_chunk (take 30 s), demo_chunk (drop 30 s)] @
    [demo_chunk fileTransferShellExitedMarker] @ []"
  by (simp add: demo_state_def demo_reads_def)

lemma demo_receive_bytes: "read_bytes [demo_chunk (take 30 demo_receive), demo_chunk (drop 30 demo_receive)] = [] @
    answer_line ''ab'' True (''META'' # [''15'', demo_digest]) @
    ([CHR 0x0A] @ answer_line ''ab'' False [''DATA'', format_int (int (length demo_content))] @ demo_content @
      [CHR 0x0A] @ answer_line ''ab'' True [''ACK'', format_int (int (length demo_content))] @ []) @
    ''$ '' @ answer_line ''ab'' True (''FINAL'' # [''15'', demo_digest])"
  by (simp only: demo_middle) (simp only: demo_receive_def)

lemma demo_send_bytes: "read_bytes [demo_chunk (take 30 demo_send), demo_chunk (drop 30 demo_send)] =
    ''$ '' @ answer_line ''ab'' True [''PICK'', ''FREE''] @ [] @ answer_line ''ab'' True [''INIT'', ''OK''] @
    ([CHR 0x0A] @ answer_line ''ab'' False [''READY'', format_int (int (length demo_content))] @
      [CHR 0x0A] @ answer_line ''ab'' True [''ACK'', format_int (int (length demo_content))] @ []) @
    [] @ answer_line ''ab'' True (''FINAL'' # [''15'', demo_digest])"
  by (simp only: demo_middle) (simp only: demo_send_def)

lemma file_receive_exact_witness:
  "\<exists>st'. ReceiveFileWithCancellation demo_transfer (\<lambda>t. None) None ''f'' (demo_state [] (demo_reads demo_receive)) =
      Some (Inr \<lparr>fr_size = 15, fr_sha256 = demo_digest, fr_path = []\<rparr>, st') \<and> ft_dest st' = ''@CTERM:ab:ACK:9''"
  using file_receive_exact [OF demo_facts(1-5,8,11,11) demo_talk(1) demo_facts(13,15) demo_shell demo_middle(1) demo_stream demo_receive_bytes]
  by (simp add: demo_state_def demo_transfer_def demo_content_def)

lemma file_send_exact_witness:
  "\<exists>st'. SendFileWithCancellation demo_transfer (\<lambda>t. None) None 15 ''f'' (demo_state demo_content (demo_reads demo_send)) =
      Some (Inr \<lparr>fr_size = 15, fr_sha256 = demo_digest, fr_path = ''f''\<rparr>, st') \<and>
    ft_payload st' = ''@CTERM:ab:ACK:9'' \<and> ft_source st' = []"
proof -
  have src: "ft_source (demo_state demo_content reads) = demo_content" for reads by (simp add: demo_state_def)
  from file_send_exact [where st = "demo_state demo_content (demo_reads demo_send)" and fs = "[''15'', demo_digest]",
      OF demo_facts(1-5,8-10), unfolded src,
      OF demo_facts(11) demo_talk(2) demo_facts(15,13,13) demo_shell demo_middle(1) demo_stream demo_send_bytes]
  show ?thesis by (simp add: demo_state_def demo_transfer_def demo_content_def ft_payload_def)
qed

section \<open>The checks of the client at work\<close>

lemma demo_receive_runs:
  obtains st' where "ReceiveFileWithCancellation demo_transfer (\<lambda>t. None) None ''f'' (demo_state [] (demo_reads demo_receive)) =
    Some (Inr \<lparr>fr_size = 15, fr_sha256 = demo_digest, fr_path = []\<rparr>, st')"
proof -
  note runs = does_whole_receive [OF demo_facts(1-3,6,7,8,11,11) demo_talk(1) demo_facts(13,15) demo_shell demo_middle(1) demo_receive_bytes,
    of "[]" "[]" "[]" "[]", unfolded ft_does_def]
  have "\<exists>st'. ReceiveFileWithCancellation demo_transfer (\<lambda>t. None) None ''f'' (demo_state [] (demo_reads demo_receive)) =
      Some (Inr \<lparr>fr_size = int (length demo_content), fr_sha256 = fe_sha256 demo_transfer demo_content, fr_path = []\<rparr>, st')"
    using runs [rule_format, OF conjI [OF demo_clock conjI [OF demo_stream]]] by (auto simp: demo_state_def ft_payload_def)
  then show ?thesis using that by (auto simp: demo_transfer_def demo_content_def)
qed

lemma demo_send_runs:
  obtains st' where "SendFileWithCancellation demo_transfer (\<lambda>t. None) None 15 ''f'' (demo_state demo_content (demo_reads demo_send)) =
    Some (Inr \<lparr>fr_size = 15, fr_sha256 = demo_digest, fr_path = ''f''\<rparr>, st')"
proof -
  note runs = does_whole_send [OF demo_facts(1-3,6-11) demo_talk(2) demo_facts(15,13,13) demo_shell demo_middle(1) demo_send_bytes,
    of "[]" "[]" "[]", unfolded ft_does_def]
  have "\<exists>st'. SendFileWithCancellation demo_transfer (\<lambda>t. None) None (int (length demo_content)) ''f'' (demo_state demo_content (demo_reads demo_send)) =
      Some (Inr \<lparr>fr_size = int (length demo_content), fr_sha256 = fe_sha256 demo_transfer demo_content, fr_path = ''f''\<rparr>, st')"
    using runs [rule_format, OF conjI [OF demo_clock conjI [OF demo_stream]]] by (auto simp: demo_state_def ft_payload_def)
  then show ?thesis using that by (auto simp: demo_transfer_def demo_content_def)
qed

lemma demo_silent: "ft_trace (demo_state src reads) = []"
  by (simp add: demo_state_def)

lemma file_receive_verified_witness:
  "\<exists>st' c fs d. ReceiveFileWithCancellation demo_transfer (\<lambda>t. None) None ''f'' (demo_state [] (demo_reads demo_receive)) =
      Some (Inr \<lparr>fr_size = 15, fr_sha256 = demo_digest, fr_path = []\<rparr>, st') \<and>
    ft_dest st' = c \<and> length c = 15 \<and> FtMarker (''META'' # fs) \<in> set (ft_trace st') \<and> parseVerifiedFile fs = Inr (15, d)"
proof -
  obtain st' where r: "ReceiveFileWithCancellation demo_transfer (\<lambda>t. None) None ''f'' (demo_state [] (demo_reads demo_receive)) =
    Some (Inr \<lparr>fr_size = 15, fr_sha256 = demo_digest, fr_path = []\<rparr>, st')" by (rule demo_receive_runs)
  from file_receive_verified [OF r demo_silent] r show ?thesis by (auto simp: demo_state_def)
qed

lemma file_send_verified_witness:
  "\<exists>st'. SendFileWithCancellation demo_transfer (\<lambda>t. None) None 15 ''f'' (demo_state demo_content (demo_reads demo_send)) =
      Some (Inr \<lparr>fr_size = 15, fr_sha256 = demo_digest, fr_path = ''f''\<rparr>, st') \<and> ft_payload st' = demo_content"
proof -
  obtain st' where r: "SendFileWithCancellation demo_transfer (\<lambda>t. None) None 15 ''f'' (demo_state demo_content (demo_reads demo_send)) =
    Some (Inr \<lparr>fr_size = 15, fr_sha256 = demo_digest, fr_path = ''f''\<rparr>, st')" by (rule demo_send_runs)
  from file_send_verified [OF r demo_silent] r show ?thesis by (auto simp: demo_state_def)
qed

lemma file_transfer_discipline_witness:
  "\<exists>st'. SendFileWithCancellation demo_transfer (\<lambda>t. None) None 15 ''f'' (demo_state demo_content (demo_reads demo_send)) =
      Some (Inr \<lparr>fr_size = 15, fr_sha256 = demo_digest, fr_path = ''f''\<rparr>, st') \<and> trace_ok (ft_trace st')"
proof -
  obtain st' where r: "SendFileWithCancellation demo_transfer (\<lambda>t. None) None 15 ''f'' (demo_state demo_content (demo_reads demo_send)) =
    Some (Inr \<lparr>fr_size = 15, fr_sha256 = demo_digest, fr_path = ''f''\<rparr>, st')" by (rule demo_send_runs)
  from file_transfer_discipline [OF demo_silent disjI1 [OF r]] r show ?thesis by blast
qed

end
