(* ===== verification/Directory_Archive.thy ===== *)
theory Directory_Archive
  imports File_Commands
begin

text \<open>
  The archive of a directory transfer (\<open>internal/core/app/directory_transfer.go\<close>): the
  plan over a local directory and its size, the stream that is written from it, and the
  extraction of a received archive. The listing of \<open>WalkDir\<close>, the files and the answers
  of the operating system are parameters, as is the encoding of one header by
  \<open>archive/tar\<close>; the framing of \<open>tar.Writer\<close> around it is modelled.
\<close>

definition ErrUnsupportedDirectoryEntry :: goerr where "ErrUnsupportedDirectoryEntry = ErrSentinel ''ErrUnsupportedDirectoryEntry''"
definition ErrUnsafeTarPath :: goerr where "ErrUnsafeTarPath = ErrSentinel ''ErrUnsafeTarPath''"
definition ErrDirectoryTarUnavailable :: goerr where "ErrDirectoryTarUnavailable = ErrSentinel ''ErrDirectoryTarUnavailable''"

section \<open>Relative paths\<close>

text \<open>\<open>filepath.Rel\<close> on a POSIX host, over the elements of the cleaned paths.\<close>

definition path_parts :: "string \<Rightarrow> string list" where
  "path_parts p = filter (\<lambda>w. w \<noteq> []) (split_byte (CHR ''/'') p)"

fun strip_common :: "string list \<Rightarrow> string list \<Rightarrow> string list \<times> string list" where
  "strip_common (a # as) (b # bs) = (if a = b then strip_common as bs else (a # as, b # bs))"
| "strip_common as bs = (as, bs)"

definition path_Rel :: "string \<Rightarrow> string \<Rightarrow> goerr + string" where
  "path_Rel basepath targpath =
     (let base = path_Clean basepath; targ = path_Clean targpath in
      if targ = base then Inr ''.''
      else let base = (if base = ''.'' then [] else base) in
        if has_prefix base ''/'' \<noteq> has_prefix targ ''/'' then Inl (ErrText ''Rel: can't make relative'')
        else let (b, t) = strip_common (path_parts base) (path_parts targ) in
          if b \<noteq> [] \<and> hd b = ''..'' then Inl (ErrText ''Rel: can't make relative'')
          else Inr (str_join ''/'' (replicate (length b) ''..'' @ t)))"

section \<open>Planning\<close>

datatype file_kind = KindRegular | KindDir | KindOther

record file_info =
  fi_kind :: file_kind
  fi_size :: int
  fi_perm :: int

text \<open>\<open>tar.Header\<close>, as far as the code sets or reads it.\<close>

record tar_header =
  th_name :: string
  th_type :: byte
  th_size :: int
  th_perm :: int

definition tar_TypeReg :: byte where "tar_TypeReg = CHR ''0''"
definition tar_TypeRegA :: byte where "tar_TypeRegA = CHR 0x00"
definition tar_TypeDir :: byte where "tar_TypeDir = CHR ''5''"

record directory_entry =
  de_path :: string
  de_head :: tar_header

text \<open>One call of the \<open>WalkDir\<close> function: the path, its error, and the answer of \<open>Lstat\<close>.\<close>

type_synonym walk_call = "string \<times> goerr option \<times> (goerr + file_info)"

definition plan_entry :: "string \<Rightarrow> walk_call \<Rightarrow> goerr + directory_entry option" where
  "plan_entry base call =
     (case call of (current, walkErr, lstat) \<Rightarrow>
        case walkErr of Some e \<Rightarrow> Inl e
        | None \<Rightarrow>
            if current = base then Inr None
            else case lstat of Inl e \<Rightarrow> Inl e
            | Inr info \<Rightarrow>
                if fi_kind info = KindOther then Inl (ErrWrap ErrUnsupportedDirectoryEntry current)
                else case path_Rel base current of Inl e \<Rightarrow> Inl e
                | Inr name \<Rightarrow>
                    Inr (Some \<lparr>de_path = current, de_head =
                      \<lparr>th_name = name, th_type = (if fi_kind info = KindDir then tar_TypeDir else tar_TypeReg),
                       th_size = (if fi_kind info = KindDir then 0 else fi_size info), th_perm = fi_perm info\<rparr>\<rparr>))"

fun plan_walk :: "string \<Rightarrow> walk_call list \<Rightarrow> goerr + directory_entry list" where
  "plan_walk base [] = Inr []"
| "plan_walk base (call # calls) =
     (case plan_entry base call of Inl e \<Rightarrow> Inl e
      | Inr entry \<Rightarrow>
          (case plan_walk base calls of Inl e \<Rightarrow> Inl e
           | Inr entries \<Rightarrow> Inr (case entry of None \<Rightarrow> entries | Some x \<Rightarrow> x # entries)))"

section \<open>Writing the archive\<close>

text \<open>\<open>tar.Writer\<close>: what it has written, and what the current entry still lacks.\<close>

record tar_writer =
  tw_out :: string
  tw_left :: int
  tw_pad :: nat

definition tar_zeros :: "nat \<Rightarrow> string" where "tar_zeros n = replicate n (CHR 0x00)"

definition tar_padding :: "int \<Rightarrow> nat" where "tar_padding n = nat ((- n) mod 512)"

definition tar_NewWriter :: tar_writer where "tar_NewWriter = \<lparr>tw_out = [], tw_left = 0, tw_pad = 0\<rparr>"

definition tar_Flush :: "tar_writer \<Rightarrow> goerr option \<times> tar_writer" where
  "tar_Flush w =
     (if tw_left w > 0 then (Some (ErrText ''archive/tar: missed writing bytes''), w)
      else (None, w\<lparr>tw_out := tw_out w @ tar_zeros (tw_pad w), tw_pad := 0\<rparr>))"

definition tar_WriteHeader :: "(tar_header \<Rightarrow> goerr + string) \<Rightarrow> tar_header \<Rightarrow> tar_writer \<Rightarrow> goerr option \<times> tar_writer" where
  "tar_WriteHeader encode head w =
     (case tar_Flush w of
        (Some e, w1) \<Rightarrow> (Some e, w1)
      | (None, w1) \<Rightarrow>
          (case encode head of Inl e \<Rightarrow> (Some e, w1)
           | Inr h \<Rightarrow> (None, w1\<lparr>tw_out := tw_out w1 @ h, tw_left := th_size head, tw_pad := tar_padding (th_size head)\<rparr>)))"

text \<open>\<open>io.CopyN(writer, source, n)\<close> from a source that holds the content and then ends.\<close>

definition tar_CopyN :: "string \<Rightarrow> int \<Rightarrow> tar_writer \<Rightarrow> goerr option \<times> tar_writer" where
  "tar_CopyN content n w =
     (let d = take (nat n) content in
      (if int (length d) < n then Some IoEOF else None,
       w\<lparr>tw_out := tw_out w @ d, tw_left := tw_left w - int (length d)\<rparr>))"

definition tar_Close :: "tar_writer \<Rightarrow> goerr option \<times> tar_writer" where
  "tar_Close w =
     (case tar_Flush w of (Some e, w1) \<Rightarrow> (Some e, w1)
      | (None, w1) \<Rightarrow> (None, w1\<lparr>tw_out := tw_out w1 @ tar_zeros 1024\<rparr>))"

text \<open>
  The body of one entry: zeros when the sizes are counted, else what the file holds. A
  local file is what \<open>Open\<close> and \<open>Stat\<close> answer, its content, and what \<open>Close\<close> answers.
\<close>

record local_file =
  lf_info :: "goerr + file_info"
  lf_content :: string
  lf_close :: "goerr option"

definition entry_body :: "(string \<Rightarrow> goerr + local_file) option \<Rightarrow> directory_entry \<Rightarrow> tar_writer \<Rightarrow> goerr option \<times> tar_writer" where
  "entry_body files entry w =
     (let n = th_size (de_head entry); path = de_path entry in
      case files of
        None \<Rightarrow> tar_CopyN (tar_zeros (nat n)) n w
      | Some open_file \<Rightarrow>
          (case open_file path of
             Inl e \<Rightarrow> (Some (ErrWrap e (''open local source '' @ path)), w)
           | Inr file \<Rightarrow>
               (case lf_info file of
                  Inl e \<Rightarrow> (Some (ErrWrap e (''stat local source '' @ path)), w)
                | Inr info \<Rightarrow>
                    if fi_kind info \<noteq> KindRegular \<or> fi_size info \<noteq> n
                    then (Some (ErrText (''local source changed while sending: '' @ path)), w)
                    else case tar_CopyN (lf_content file) n w of
                      (Some e, w1) \<Rightarrow> (Some (ErrWrap e (''read local source '' @ path)), w1)
                    | (None, w1) \<Rightarrow>
                        (case lf_close file of
                           Some e \<Rightarrow> (Some (ErrWrap e (''close local source '' @ path)), w1)
                         | None \<Rightarrow> (None, w1)))))"

fun write_entries :: "(tar_header \<Rightarrow> goerr + string) \<Rightarrow> (string \<Rightarrow> goerr + local_file) option \<Rightarrow> directory_entry list \<Rightarrow>
    tar_writer \<Rightarrow> goerr option \<times> tar_writer" where
  "write_entries encode files [] w = (None, w)"
| "write_entries encode files (entry # entries) w =
     (case tar_WriteHeader encode (de_head entry) w of
        (Some e, w1) \<Rightarrow> (Some e, w1)
      | (None, w1) \<Rightarrow>
          if th_type (de_head entry) \<noteq> tar_TypeReg then write_entries encode files entries w1
          else (case entry_body files entry w1 of
                  (Some e, w2) \<Rightarrow> (Some e, w2)
                | (None, w2) \<Rightarrow> write_entries encode files entries w2))"

text \<open>\<open>writeTo\<close>: the bytes that reach the destination, and the error.\<close>

definition plan_writeTo :: "(tar_header \<Rightarrow> goerr + string) \<Rightarrow> (string \<Rightarrow> goerr + local_file) option \<Rightarrow> directory_entry list \<Rightarrow>
    goerr option \<times> string" where
  "plan_writeTo encode files entries =
     (let (err, w) = write_entries encode files entries tar_NewWriter; (closeErr, w1) = tar_Close w
      in (if err = None then closeErr else err, tw_out w1))"

record directory_plan =
  dp_entries :: "directory_entry list"
  dp_size :: int

text \<open>\<open>makeDirectoryPlan\<close>, from the answers for the root and the calls of the walk.\<close>

definition makeDirectoryPlan :: "(tar_header \<Rightarrow> goerr + string) \<Rightarrow> goerr + string \<Rightarrow> goerr + file_info \<Rightarrow> walk_call list \<Rightarrow>
    goerr + directory_plan" where
  "makeDirectoryPlan encode absolute rootStat calls =
     (case absolute of Inl e \<Rightarrow> Inl (ErrWrap e ''resolve local directory'')
      | Inr base \<Rightarrow>
          (case rootStat of Inl e \<Rightarrow> Inl (ErrWrap e ''stat local source'')
           | Inr info \<Rightarrow>
               if fi_kind info \<noteq> KindDir then Inl (ErrText ''local source is not a directory'')
               else case plan_walk base calls of Inl e \<Rightarrow> Inl (ErrWrap e ''scan local directory'')
               | Inr entries \<Rightarrow>
                   (case plan_writeTo encode None entries of
                      (Some e, s) \<Rightarrow> Inl e
                    | (None, s) \<Rightarrow> Inr \<lparr>dp_entries = entries, dp_size = int (length s)\<rparr>)))"

definition PlanDirectory :: "(tar_header \<Rightarrow> goerr + string) \<Rightarrow> goerr + string \<Rightarrow> goerr + file_info \<Rightarrow> walk_call list \<Rightarrow> goerr + int" where
  "PlanDirectory encode absolute rootStat calls = map_sum id dp_size (makeDirectoryPlan encode absolute rootStat calls)"

section \<open>Extraction\<close>

definition path_separator :: "byte \<Rightarrow> bool" where
  "path_separator c \<longleftrightarrow> c = CHR ''/'' \<or> c = CHR 0x5C"

fun split_if :: "(byte \<Rightarrow> bool) \<Rightarrow> string \<Rightarrow> string list" where
  "split_if f [] = [[]]"
| "split_if f (c # s) =
     (if f c then [] # split_if f s else case split_if f s of w # ws \<Rightarrow> (c # w) # ws | [] \<Rightarrow> [[c]])"

text \<open>\<open>strings.FieldsFunc\<close>.\<close>

definition fields_func :: "(byte \<Rightarrow> bool) \<Rightarrow> string \<Rightarrow> string list" where
  "fields_func f s = filter (\<lambda>w. w \<noteq> []) (split_if f s)"

definition safeTarTarget :: "string \<Rightarrow> string \<Rightarrow> goerr + string" where
  "safeTarTarget base name =
     (let unsafe = Inl (ErrWrap ErrUnsafeTarPath name) in
      if name = [] \<or> has_prefix name ''/'' \<or> has_prefix name [CHR 0x5C] then unsafe
      else if ''..'' \<in> set (fields_func path_separator name) then unsafe
      else let target = path_Join [base, name] in
        case path_Rel base target of
          Inl e \<Rightarrow> unsafe
        | Inr relative \<Rightarrow> if relative = ''..'' \<or> has_prefix relative ''../'' then unsafe else Inr target)"

text \<open>A member of the archive as \<open>tar.Reader\<close> delivers it: its header, its body, and the error of reading it.\<close>

record tar_member =
  tm_head :: tar_header
  tm_body :: string
  tm_err :: "goerr option"

text \<open>What the extraction does to the local file system.\<close>

datatype extract_call =
    ExMkdirAll string int
  | ExCreate string int            \<comment> \<open>\<open>OpenFile\<close> with \<open>O_WRONLY|O_CREATE|O_EXCL\<close>\<close>
  | ExWrite string string
  | ExClose string

text \<open>The answer of the operating system to a call, given the calls before.\<close>

type_synonym extract_answers = "extract_call list \<Rightarrow> extract_call \<Rightarrow> goerr option"

definition extract_file :: "extract_answers \<Rightarrow> string \<Rightarrow> tar_member \<Rightarrow> extract_call list \<Rightarrow> goerr option \<times> extract_call list" where
  "extract_file os target member tr =
     (let write = ExWrite target (tm_body member); tr1 = tr @ [write]; closing = ExClose target
      in (case (case os tr write of Some e \<Rightarrow> Some e | None \<Rightarrow> tm_err member) of
            Some e \<Rightarrow> Some (ErrWrap e (''extract file '' @ target))
          | None \<Rightarrow> map_option (\<lambda>e. ErrWrap e (''close extracted file '' @ target)) (os tr1 closing),
          tr1 @ [closing]))"

definition extract_member :: "extract_answers \<Rightarrow> string \<Rightarrow> tar_member \<Rightarrow> extract_call list \<Rightarrow> goerr option \<times> extract_call list" where
  "extract_member os base member tr =
     (let head = tm_head member in
      case safeTarTarget base (th_name head) of Inl e \<Rightarrow> (Some e, tr)
      | Inr target \<Rightarrow>
          if th_type head = tar_TypeDir then
            (let call = ExMkdirAll target (th_perm head)
             in (map_option (\<lambda>e. ErrWrap e (''create extracted directory '' @ target)) (os tr call), tr @ [call]))
          else if th_type head = tar_TypeReg \<or> th_type head = tar_TypeRegA then
            (let parent = ExMkdirAll (path_Dir target) 0x1ED; tr1 = tr @ [parent]; create = ExCreate target (th_perm head)
             in case os tr parent of
                  Some e \<Rightarrow> (Some (ErrWrap e (''create parent for extracted file '' @ target)), tr1)
                | None \<Rightarrow>
                    (case os tr1 create of
                       Some e \<Rightarrow> (Some (ErrWrap e (''create extracted file '' @ target)), tr1 @ [create])
                     | None \<Rightarrow> extract_file os target member (tr1 @ [create])))
          else (Some (ErrWrap ErrUnsupportedDirectoryEntry (th_name head)), tr))"

text \<open>\<open>extractDirectoryTar\<close>: \<open>ending\<close> is what \<open>reader.Next\<close> answers behind the last member.\<close>

fun extract_members :: "extract_answers \<Rightarrow> string \<Rightarrow> tar_member list \<Rightarrow> goerr \<Rightarrow> extract_call list \<Rightarrow> goerr option \<times> extract_call list" where
  "extract_members os base [] ending tr =
     (if err_is ending IoEOF then (None, tr) else (Some (ErrWrap ending ''read tar stream''), tr))"
| "extract_members os base (member # members) ending tr =
     (case extract_member os base member tr of
        (Some e, tr1) \<Rightarrow> (Some e, tr1)
      | (None, tr1) \<Rightarrow> extract_members os base members ending tr1)"

definition extractDirectoryTar :: "extract_answers \<Rightarrow> goerr + string \<Rightarrow> tar_member list \<Rightarrow> goerr \<Rightarrow> goerr option \<times> extract_call list" where
  "extractDirectoryTar os absolute members ending =
     (case absolute of Inl e \<Rightarrow> (Some (ErrWrap e ''resolve extraction staging directory''), [])
      | Inr base \<Rightarrow> extract_members os base members ending [])"

end
