(* ===== verification/File_Directory.thy ===== *)
theory File_Directory
  imports File_Transfer Directory_Archive
begin

text \<open>
  Directories over the terminal (\<open>internal/core/app/directory_transfer.go\<close>): an
  archive is sent and received in the blocks of a file transfer, with commands of its own around
  them and a cleanup of the temporary paths. The local archive stream is \<open>ft_source\<close>, ended by
  \<open>fe_source_end\<close> (the error of the producer, or the end of the archive); the pipe to the
  extraction is \<open>ft_dest\<close>, and \<open>fe_dest\<close> answers the error of an extraction that
  has ended. What \<open>Close\<close> of the stream and the extraction answer are parameters, given the state.
\<close>

record directory_result =
  dr_size :: int
  dr_sha256 :: string
  dr_path :: string

section \<open>What the remote side has\<close>

definition remote_path_kinds :: "string list" where
  "remote_path_kinds = [''file'', ''directory'', ''missing'', ''unsupported'']"

definition detect_scoped :: "ft_env \<Rightarrow> go_context \<Rightarrow> string \<Rightarrow> string ft_run" where
  "detect_scoped env ctx quoted =
     ft_bind (newFileProtocol env ctx) (\<lambda>token.
     ft_bind (ft_command env ctx (remotePathKindCommand token quoted)) (\<lambda>u.
     ft_bind (expectPhase env token ''KIND'') (\<lambda>event.
       case event of
         [kind] \<Rightarrow> if kind \<in> set remote_path_kinds then ft_ret kind
                  else ft_fail (ErrWrap ErrFileTransferProtocol (''remote path kind '' @ kind))
       | _ \<Rightarrow> ft_fail (ErrWrap ErrFileTransferProtocol ''KIND arguments''))))"

definition DetectRemotePath :: "ft_env \<Rightarrow> go_context \<Rightarrow> string \<Rightarrow> string ft_run" where
  "DetectRemotePath env ctx remotePath =
     (case quoteRemotePath remotePath of Inl e \<Rightarrow> ft_fail e
      | Inr quoted \<Rightarrow> WithFileTransferShell env (detect_scoped env ctx quoted))"

section \<open>Errors\<close>

text \<open>
  \<open>directoryTarError\<close>. Of the errors it is given only the one of a completed remote
  command has the text it looks for.
\<close>

definition directoryTarError :: "goerr \<Rightarrow> goerr" where
  "directoryTarError e =
     (case e of
        ErrWrap (ErrSentinel s) reason \<Rightarrow>
          if e = fileTransferRemoteError reason \<and>
             str_contains (''remote file transfer failed: '' @ reason) ''remote file transfer failed: tar''
          then ErrDirectoryTarUnavailable else e
      | _ \<Rightarrow> e)"

text \<open>\<open>cleanupErr := protocol.cleanupDirectory(...); return errors.Join(err, cleanupErr)\<close>.\<close>

definition ft_cleaning :: "ft_env \<Rightarrow> string \<Rightarrow> string \<Rightarrow> string \<Rightarrow> goerr \<Rightarrow> 'a ft_run" where
  "ft_cleaning env token archive staging e st =
     (case cleanupDirectory env token archive staging st of
        None \<Rightarrow> None
      | Some (Inl e', st') \<Rightarrow> Some (Inl (ErrJoin e e'), st')
      | Some (Inr u, st') \<Rightarrow> Some (Inl e, st'))"

section \<open>Sending\<close>

definition tar_send_texts :: block_texts where
  "tar_send_texts = \<lparr>bt_local = ''read local tar stream'', bt_prepare = ''prepare remote tar chunk'', bt_payload = ''send tar stream'', bt_confirm = ''confirm remote tar chunk''\<rparr>"

text \<open>The bytes that were copied are those the hash has seen.\<close>

definition copyDirectoryStream :: "ft_env \<Rightarrow> go_context \<Rightarrow> string \<Rightarrow> string \<Rightarrow> int \<Rightarrow> string ft_run" where
  "copyDirectoryStream env ctx token archive n =
     ft_bind (send_loop env ctx None tar_send_texts token archive n 0 []) (\<lambda>hashed.
     ft_bind (ft_wrap ''local directory changed while sending'' (\<lambda>st. ft_check (source_trailing env st) st)) (\<lambda>u.
     ft_bind (if n = 0 then report_progress env 0 0 else ft_ret ()) (\<lambda>u. ft_ret hashed)))"

definition verify_directory :: "ft_env \<Rightarrow> go_context \<Rightarrow> string \<Rightarrow> string \<Rightarrow> string \<Rightarrow> int \<Rightarrow> string \<Rightarrow> directory_result ft_run" where
  "verify_directory env ctx token remotePath localDigest n hashed =
     ft_bind (ft_handle (expectPhase env token ''FINAL'') (\<lambda>e. ft_fail (directoryTarError e))) (\<lambda>event.
       case parseVerifiedFile event of
         Inl e \<Rightarrow> ft_fail e
       | Inr (remoteSize, remoteDigest) \<Rightarrow>
           if remoteSize \<noteq> n then ft_fail (ErrWrap ErrFileTransferSizeMismatch ''sent, remote has'')
           else if remoteDigest \<noteq> localDigest then ft_fail (ErrWrap ErrFileTransferChecksumMismatch ''local, remote'')
           else ft_ret \<lparr>dr_size = n, dr_sha256 = localDigest, dr_path = remotePath\<rparr>)"

text \<open>\<open>streamErr := stream.Close()\<close>, behind a copy that succeeded.\<close>

definition close_producer :: "ft_env \<Rightarrow> (ft \<Rightarrow> goerr option) \<Rightarrow> string \<Rightarrow> string \<Rightarrow> string \<Rightarrow> unit ft_run" where
  "close_producer env closeStream token archive stage st =
     (case closeStream st of
        None \<Rightarrow> Some (Inr (), st)
      | Some e \<Rightarrow> ft_cleaning env token archive stage (ErrWrap e ''stream local directory'') st)"

text \<open>From the initialisation of the remote archive to its extraction.\<close>

definition send_archive :: "ft_env \<Rightarrow> go_context \<Rightarrow> (ft \<Rightarrow> goerr option) \<Rightarrow> string \<Rightarrow> string \<Rightarrow> string \<Rightarrow> string \<Rightarrow> string \<Rightarrow> string \<Rightarrow> int \<Rightarrow>
    directory_result ft_run" where
  "send_archive env ctx closeStream token remotePath quoted stage archive directory n =
     ft_bind (ft_command env ctx (directorySendInitCommand token archive directory)) (\<lambda>u.
     ft_bind (ft_handle (expect env token ''INIT'' [''OK'']) (\<lambda>e. ft_fail (directoryTarError e))) (\<lambda>u.
     ft_bind (ft_handle (fileTransferCancellationCheckpoint env None) (ft_cleaning env token archive stage)) (\<lambda>u.
     ft_bind (ft_handle (copyDirectoryStream env ctx token archive n) (ft_cleaning env token archive stage)) (\<lambda>hashed.
     ft_bind (close_producer env closeStream token archive stage) (\<lambda>u.
     let localDigest = fe_sha256 env hashed in
     ft_bind (ft_handle (ft_command env ctx (directorySendFinishCommand token quoted stage archive n localDigest))
       (ft_cleaning env token archive stage)) (\<lambda>u.
     verify_directory env ctx token remotePath localDigest n hashed))))))"

definition send_directory_scoped :: "ft_env \<Rightarrow> go_context \<Rightarrow> (ft \<Rightarrow> goerr option) \<Rightarrow> goerr + int \<Rightarrow> string \<Rightarrow> directory_result ft_run" where
  "send_directory_scoped env ctx closeStream plan wanted =
     (case plan of Inl e \<Rightarrow> ft_fail e
      | Inr n \<Rightarrow>
          let remotePath = (if has_suffix wanted ''/'' then butlast wanted else wanted) in
          if remotePath = [] then ft_fail (ErrText ''remote directory path must not be empty'')
          else case quoteRemotePath remotePath of Inl e \<Rightarrow> ft_fail e
          | Inr q \<Rightarrow>
              ft_bind (newFileProtocol env ctx) (\<lambda>token.
              ft_bind (fileTransferCancellationCheckpoint env None) (\<lambda>u.
              ft_bind (selectAvailableRemotePath env ctx token remotePath) (\<lambda>(path, quoted).
              ft_bind (fileTransferCancellationCheckpoint env None) (\<lambda>u.
                case quoteRemotePath (posixDirectoryStagePath path token) of Inl e \<Rightarrow> ft_fail e
                | Inr stage \<Rightarrow>
                    (case quoteRemotePath (posixDirectoryArchivePath path token) of Inl e \<Rightarrow> ft_fail e
                     | Inr archive \<Rightarrow>
                         (case quoteRemotePath (path_Dir path) of Inl e \<Rightarrow> ft_fail e
                          | Inr directory \<Rightarrow> send_archive env ctx closeStream token path quoted stage archive directory n)))))))"

definition SendDirectory :: "ft_env \<Rightarrow> go_context \<Rightarrow> (ft \<Rightarrow> goerr option) \<Rightarrow> goerr + int \<Rightarrow> string \<Rightarrow> directory_result ft_run" where
  "SendDirectory env ctx closeStream plan remotePath = WithFileTransferShell env (send_directory_scoped env ctx closeStream plan remotePath)"

section \<open>Receiving\<close>

definition tar_receive_texts :: block_texts where
  "tar_receive_texts = \<lparr>bt_local = ''extract tar stream'', bt_prepare = ''start remote tar chunk'', bt_payload = ''receive tar stream'', bt_confirm = ''confirm remote tar chunk''\<rparr>"

definition receiveDirectoryStream :: "ft_env \<Rightarrow> go_context \<Rightarrow> string \<Rightarrow> string \<Rightarrow> int \<Rightarrow> string ft_run" where
  "receiveDirectoryStream env ctx token archive n = receive_loop env ctx None tar_receive_texts token archive n 0 0 []"

text \<open>\<open>extracted\<close> is what the extraction answered, given all it was to get.\<close>

definition receive_archive :: "ft_env \<Rightarrow> go_context \<Rightarrow> (ft \<Rightarrow> goerr option) \<Rightarrow> string \<Rightarrow> string \<Rightarrow> int \<Rightarrow> string \<Rightarrow> directory_result ft_run" where
  "receive_archive env ctx extracted token archive n remoteDigest =
     ft_bind (ft_handle (fileTransferCancellationCheckpoint env None) (ft_cleaning env token archive [])) (\<lambda>u.
     ft_bind (ft_handle (receiveDirectoryStream env ctx token archive n) (ft_cleaning env token archive [])) (\<lambda>hashed st.
       let extractErr = extracted st in
       ft_bind (ft_command env ctx (directoryReceiveFinishCommand token archive)) (\<lambda>u.
       ft_bind (expect env token ''FINAL'' [''OK'']) (\<lambda>u.
       ft_bind (ft_check extractErr) (\<lambda>u.
       let localDigest = fe_sha256 env hashed in
       if localDigest \<noteq> remoteDigest then ft_fail (ErrWrap ErrFileTransferChecksumMismatch ''local, remote'')
       else ft_ret \<lparr>dr_size = n, dr_sha256 = localDigest, dr_path = []\<rparr>))) st))"

definition receive_directory_scoped :: "ft_env \<Rightarrow> go_context \<Rightarrow> (ft \<Rightarrow> goerr option) \<Rightarrow> string \<Rightarrow> directory_result ft_run" where
  "receive_directory_scoped env ctx extracted quoted =
     ft_bind (newFileProtocol env ctx) (\<lambda>token.
     ft_bind (fileTransferCancellationCheckpoint env None) (\<lambda>u.
       case quoteRemotePath (posixDirectoryReceiveArchivePath token) of Inl e \<Rightarrow> ft_fail e
       | Inr archive \<Rightarrow>
           ft_bind (ft_command env ctx (directoryReceiveInitCommand token quoted archive)) (\<lambda>u.
           ft_bind (ft_handle (expectPhase env token ''META'') (\<lambda>e. ft_fail (directoryTarError e))) (\<lambda>event.
             case parseVerifiedFile event of
               Inl e \<Rightarrow> ft_fail e
             | Inr (n, remoteDigest) \<Rightarrow> receive_archive env ctx extracted token archive n remoteDigest))))"

text \<open>\<open>destination\<close> is the answer of \<open>Stat\<close> for the extraction directory.\<close>

definition ReceiveDirectory :: "ft_env \<Rightarrow> go_context \<Rightarrow> goerr + file_info \<Rightarrow> (ft \<Rightarrow> goerr option) \<Rightarrow> string \<Rightarrow> directory_result ft_run" where
  "ReceiveDirectory env ctx destination extracted remotePath =
     (case quoteRemotePath remotePath of Inl e \<Rightarrow> ft_fail e
      | Inr quoted \<Rightarrow>
          (case destination of Inl e \<Rightarrow> ft_fail (ErrWrap e ''inspect extraction staging directory'')
           | Inr info \<Rightarrow>
               if fi_kind info \<noteq> KindDir then ft_fail (ErrText ''extraction staging path is not a directory'')
               else WithFileTransferShell env (receive_directory_scoped env ctx extracted quoted)))"

end
