(* ===== verification/Directory_Safety.thy ===== *)
theory Directory_Safety
  imports Directory_Archive
begin

text \<open>
  What the archive of a directory transfer guarantees: the planned size is the size of the stream, and
  an extraction stays below its directory.
\<close>

section \<open>The planned size\<close>

















section \<open>Where an extraction writes\<close>

text \<open>The elements of a clean absolute path, and the path of such elements.\<close>

definition plain_part :: "string \<Rightarrow> bool" where
  "plain_part w \<longleftrightarrow> w \<noteq> [] \<and> w \<noteq> ''.'' \<and> w \<noteq> ''..'' \<and> CHR ''/'' \<notin> set w"

definition abs_path :: "string list \<Rightarrow> string" where
  "abs_path ws = ''/'' @ str_join ''/'' ws"

definition name_parts :: "string \<Rightarrow> string list" where
  "name_parts name = filter (\<lambda>w. w \<noteq> [] \<and> w \<noteq> ''.'') (split_byte (CHR ''/'') name)"

lemma split_no_byte: "w \<in> set (split_byte d s) \<Longrightarrow> d \<notin> set w"
proof (induction s arbitrary: w)
  case (Cons c s)
  obtain v vs where v: "split_byte d s = v # vs" by (cases "split_byte d s") auto
  show ?case using Cons v by (cases "c = d") auto
qed simp

lemma split_join_all: "list_all (\<lambda>w. d \<notin> set w) ws \<Longrightarrow> ws \<noteq> [] \<Longrightarrow> split_byte d (str_join [d] ws) = ws"
  by (simp add: split_join list_all_iff)

lemma clean_parts_append: "clean_parts r out (xs @ ys) = clean_parts r (rev (clean_parts r out xs)) ys"
  by (induction r out xs rule: clean_parts.induct) (auto split: list.splits)

lemma clean_parts_plain:
  "''..'' \<notin> set ws \<Longrightarrow> clean_parts r out ws = rev out @ filter (\<lambda>w. w \<noteq> [] \<and> w \<noteq> ''.'') ws"
  by (induction ws arbitrary: out) auto

lemma clean_parts_rooted:
  "list_all plain_part out \<Longrightarrow> list_all (\<lambda>w. CHR ''/'' \<notin> set w) ws \<Longrightarrow> list_all plain_part (clean_parts True out ws)"
proof (induction ws arbitrary: out)
  case (Cons w ws)
  show ?case
  proof (cases "w = ''..''")
    case True
    then show ?thesis using Cons by (cases out) (auto simp: plain_part_def)
  next
    case False
    then show ?thesis using Cons by (auto simp: plain_part_def)
  qed
qed (simp add: list_all_iff)

lemma plain_no_slash: "list_all plain_part ws \<Longrightarrow> list_all (\<lambda>w. CHR ''/'' \<notin> set w) ws"
  by (auto simp: list_all_iff plain_part_def)

lemma split_abs_path:
  assumes "list_all plain_part ws"
  shows "split_byte (CHR ''/'') (abs_path ws) = [] # (if ws = [] then [[]] else ws)"
  using split_join_all [OF plain_no_slash [OF assms]] by (simp add: abs_path_def)

lemma clean_rooted: "path_Clean (CHR ''/'' # s) = CHR ''/'' # str_join ''/'' (clean_parts True [] (split_byte (CHR ''/'') (CHR ''/'' # s)))"
  by (simp add: path_Clean_def Let_def has_prefix_def)

lemma clean_abs_path:
  assumes "list_all plain_part ws"
  shows "path_Clean (abs_path ws) = abs_path ws"
proof -
  have "''..'' \<notin> set ws" "filter (\<lambda>w. w \<noteq> [] \<and> w \<noteq> ''.'') ws = ws"
    using assms by (auto simp: list_all_iff plain_part_def intro!: filter_True)
  then have "clean_parts True [] (split_byte (CHR ''/'') (abs_path ws)) = ws"
    using split_abs_path [OF assms] clean_parts_plain [of "split_byte (CHR ''/'') (abs_path ws)" True "[]"] by auto
  then show ?thesis by (simp add: abs_path_def clean_rooted)
qed

text \<open>A clean absolute path, as \<open>filepath.Abs\<close> answers it.\<close>

definition clean_absolute :: "string \<Rightarrow> bool" where
  "clean_absolute p \<longleftrightarrow> path_Clean p = p \<and> has_prefix p ''/''"

lemma clean_absolute_parts:
  assumes "clean_absolute p"
  obtains ws where "p = abs_path ws" "list_all plain_part ws"
proof -
  have "list_all (\<lambda>w. CHR ''/'' \<notin> set w) (split_byte (CHR ''/'') p)" using split_no_byte by (auto simp: list_all_iff)
  then have "list_all plain_part (clean_parts True [] (split_byte (CHR ''/'') p))" by (rule clean_parts_rooted [rotated]) simp
  moreover have "p = abs_path (clean_parts True [] (split_byte (CHR ''/'') p))"
    using assms clean_rooted by (auto simp: clean_absolute_def abs_path_def has_prefix_iff)
  ultimately show ?thesis using that by blast
qed

lemma name_parts_plain: "''..'' \<notin> set (split_byte (CHR ''/'') name) \<Longrightarrow> list_all plain_part (name_parts name)"
  using split_no_byte by (auto simp: name_parts_def list_all_iff plain_part_def)

lemma join_below:
  assumes "list_all plain_part ws" "name \<noteq> []" "''..'' \<notin> set (split_byte (CHR ''/'') name)"
  shows "path_Join [abs_path ws, name] = abs_path (ws @ name_parts name)"
proof -
  let ?p = "abs_path ws @ CHR ''/'' # name"
  have w: "''..'' \<notin> set ws" "filter (\<lambda>w. w \<noteq> [] \<and> w \<noteq> ''.'') ws = ws"
    using assms(1) by (auto simp: list_all_iff plain_part_def intro!: filter_True)
  have "clean_parts True [] (split_byte (CHR ''/'') ?p) = ws @ name_parts name"
    using w assms(3) by (simp add: split_byte_append split_abs_path [OF assms(1)] clean_parts_plain name_parts_def)
  then have "path_Clean ?p = abs_path (ws @ name_parts name)" by (simp add: abs_path_def clean_rooted)
  then show ?thesis using assms(2) by (simp add: path_Join_def) (simp add: abs_path_def)
qed

text \<open>A parent reference between slashes is one between slashes and backslashes.\<close>

lemma split_if_ne: "split_if f s \<noteq> []"
  by (induction s) (auto split: list.splits)

lemma split_if_finer:
  assumes "f d"
  shows "\<forall>v. (\<forall>c \<in> set v. \<not> f c) \<longrightarrow>
    (v \<in> set (tl (split_byte d s)) \<longrightarrow> v \<in> set (tl (split_if f s))) \<and> (v = hd (split_byte d s) \<longrightarrow> v = hd (split_if f s))"
proof (induction s)
  case (Cons c s)
  obtain a as where a: "split_byte d s = a # as" by (cases "split_byte d s") auto
  obtain b bs where b: "split_if f s = b # bs" using split_if_ne [of f s] by (cases "split_if f s") auto
  have ih: "v \<in> set as \<Longrightarrow> v \<in> set bs" "v = a \<Longrightarrow> v = b" if "\<forall>c \<in> set v. \<not> f c" for v using Cons that a b by auto
  consider "c = d" | "c \<noteq> d" "f c" | "c \<noteq> d" "\<not> f c" by blast
  then show ?case
  proof cases
    case 1
    then show ?thesis using assms a b ih by auto
  next
    case 2
    then show ?thesis using a b ih by auto
  next
    case 3
    then show ?thesis using a b ih by auto
  qed
qed simp

lemma no_parent_reference:
  assumes "''..'' \<notin> set (fields_func path_separator name)"
  shows "''..'' \<notin> set (split_byte (CHR ''/'') name)"
proof
  assume dots: "''..'' \<in> set (split_byte (CHR ''/'') name)"
  have sep: "\<not> path_separator c" if "c \<in> set ''..''" for c using that by (auto simp: path_separator_def)
  have "path_separator (CHR ''/'')" by (simp add: path_separator_def)
  moreover have "\<forall>c \<in> set ''..''. \<not> path_separator c" using sep by blast
  ultimately have "(''..'' \<in> set (tl (split_byte (CHR ''/'') name)) \<longrightarrow> ''..'' \<in> set (tl (split_if path_separator name))) \<and>
      (''..'' = hd (split_byte (CHR ''/'') name) \<longrightarrow> ''..'' = hd (split_if path_separator name))"
    using split_if_finer by blast
  with dots have "''..'' \<in> set (split_if path_separator name)"
    using split_if_ne [of path_separator name] by (cases "split_byte (CHR ''/'') name"; cases "split_if path_separator name") auto
  then show False using assms by (simp add: fields_func_def)
qed


lemma parts_abs_path: "list_all plain_part ws \<Longrightarrow> path_parts (abs_path ws) = ws"
  by (auto simp: path_parts_def split_abs_path list_all_iff plain_part_def intro!: filter_True)

lemma strip_common_append: "strip_common ws (ws @ vs) = ([], vs)"
  by (induction ws) (cases vs, auto)

lemma abs_path_Nil: "abs_path ws = abs_path vs \<Longrightarrow> list_all plain_part ws \<Longrightarrow> list_all plain_part vs \<Longrightarrow> ws = vs"
  using parts_abs_path by metis

lemma join_not_up:
  assumes "list_all plain_part vs" "vs \<noteq> []"
  shows "str_join ''/'' vs \<noteq> ''..'' \<and> \<not> has_prefix (str_join ''/'' vs) ''../''"
proof -
  have split: "split_byte (CHR ''/'') (str_join ''/'' vs) = vs" using split_join_all [OF plain_no_slash [OF assms(1)] assms(2)] .
  have hd: "hd vs \<noteq> ''..''" using assms by (cases vs) (auto simp: plain_part_def)
  have "split_byte (CHR ''/'') (''../'' @ s) = ''..'' # split_byte (CHR ''/'') s" for s by simp
  moreover have "split_byte (CHR ''/'') ''..'' = [''..'']" by simp
  ultimately show ?thesis using split hd by (metis has_prefix_iff list.sel(1))
qed

lemma Rel_below:
  assumes "list_all plain_part ws" "list_all plain_part vs"
  shows "path_Rel (abs_path ws) (abs_path (ws @ vs)) = Inr (if vs = [] then ''.'' else str_join ''/'' vs)"
proof -
  have p: "list_all plain_part (ws @ vs)" using assms by simp
  have "abs_path ws \<noteq> ''.''" "has_prefix (abs_path ws) ''/''" "has_prefix (abs_path (ws @ vs)) ''/''"
    by (simp_all add: abs_path_def has_prefix_def)
  moreover have "abs_path (ws @ vs) = abs_path ws \<longleftrightarrow> vs = []" using abs_path_Nil [OF _ p assms(1)] by auto
  ultimately show ?thesis
    by (simp add: path_Rel_def Let_def clean_abs_path [OF p] clean_abs_path [OF assms(1)] parts_abs_path [OF p]
        parts_abs_path [OF assms(1)] strip_common_append)
qed

text \<open>What the names of members are refused for, and where the others go.\<close>

definition unsafe_name :: "string \<Rightarrow> bool" where
  "unsafe_name name \<longleftrightarrow>
     name = [] \<or> has_prefix name ''/'' \<or> has_prefix name [CHR 0x5C] \<or> ''..'' \<in> set (fields_func path_separator name)"

lemma safeTarTarget_exact:
  assumes "list_all plain_part ws"
  shows "safeTarTarget (abs_path ws) name =
    (if unsafe_name name then Inl (ErrWrap ErrUnsafeTarPath name) else Inr (abs_path (ws @ name_parts name)))"
proof (cases "unsafe_name name")
  case True
  then show ?thesis by (auto simp: safeTarTarget_def unsafe_name_def Let_def)
next
  case False
  then have n: "name \<noteq> []" "''..'' \<notin> set (split_byte (CHR ''/'') name)"
    using no_parent_reference by (auto simp: unsafe_name_def)
  note plain = name_parts_plain [OF n(2)]
  have "path_Rel (abs_path ws) (abs_path (ws @ name_parts name)) =
      Inr (if name_parts name = [] then ''.'' else str_join ''/'' (name_parts name))" by (rule Rel_below [OF assms plain])
  then show ?thesis using False join_below [OF assms n] join_not_up [OF plain]
    by (auto simp: safeTarTarget_def Let_def unsafe_name_def has_prefix_def)
qed

text \<open>A path at or below a directory: its elements continue those of the directory, and none of them leads up.\<close>

definition path_below :: "string \<Rightarrow> string \<Rightarrow> bool" where
  "path_below base p \<longleftrightarrow> (\<exists>ws vs. base = abs_path ws \<and> list_all plain_part (ws @ vs) \<and> p = abs_path (ws @ vs))"

fun call_path :: "extract_call \<Rightarrow> string" where
  "call_path (ExMkdirAll p mode) = p"
| "call_path (ExCreate p mode) = p"
| "call_path (ExWrite p d) = p"
| "call_path (ExClose p) = p"

lemma safe_target_below:
  assumes "clean_absolute base" "safeTarTarget base name = Inr target"
  shows "path_below base target"
proof -
  obtain ws where ws: "base = abs_path ws" "list_all plain_part ws" using assms(1) by (rule clean_absolute_parts)
  have name: "\<not> unsafe_name name" "target = abs_path (ws @ name_parts name)"
    using assms(2) safeTarTarget_exact [OF ws(2), of name] ws(1) by (auto split: if_splits)
  then have "list_all plain_part (name_parts name)" using no_parent_reference name_parts_plain by (auto simp: unsafe_name_def)
  then show ?thesis using ws name(2) unfolding path_below_def by (intro exI [of _ ws] exI [of _ "name_parts name"]) simp
qed

text \<open>The directory made for a file: above the file, and below the base unless the file is the base itself.\<close>

lemma Dir_abs_path:
  assumes "list_all plain_part (ws @ [w])"
  shows "path_Dir (abs_path (ws @ [w])) = abs_path ws"
proof -
  have w: "CHR ''/'' \<notin> set w" and ws: "list_all plain_part ws" using assms by (auto simp: plain_part_def)
  have "\<exists>s. abs_path (ws @ [w]) = s @ CHR ''/'' # w \<and> path_Clean (s @ ''/'') = abs_path ws"
  proof (cases "ws = []")
    case True
    then show ?thesis by (intro exI [of _ "[]"]) (simp add: abs_path_def clean_rooted)
  next
    case False
    have "str_join ''/'' (ws @ [w]) = str_join ''/'' ws @ CHR ''/'' # w" using False
      by (induction ws rule: induct_list012) auto
    moreover have "filter (\<lambda>w. w \<noteq> [] \<and> w \<noteq> ''.'') ws = ws" "''..'' \<notin> set ws"
      using ws by (auto simp: list_all_iff plain_part_def intro!: filter_True)
    then have "path_Clean (abs_path ws @ ''/'') = abs_path ws"
      using split_byte_append [of "CHR ''/''" "abs_path ws" "[]"] split_abs_path [OF ws] False
      by (simp add: abs_path_def clean_rooted clean_parts_plain)
    ultimately show ?thesis by (intro exI [of _ "abs_path ws"]) (simp add: abs_path_def)
  qed
  then obtain s where s: "abs_path (ws @ [w]) = s @ CHR ''/'' # w" "path_Clean (s @ ''/'') = abs_path ws" by blast
  have "takeWhile (\<lambda>c. c \<noteq> CHR ''/'') (rev (s @ CHR ''/'' # w)) = rev w"
    using w by (simp add: takeWhile_append1 takeWhile_append2 takeWhile_append split: if_splits)
  then show ?thesis unfolding path_Dir_def path_Split_def s(1) using s(2) by (simp add: Let_def)
qed

lemma parent_below:
  assumes "path_below base target" "target \<noteq> base"
  shows "path_below base (path_Dir target)"
proof -
  obtain ws vs where v: "base = abs_path ws" "list_all plain_part (ws @ vs)" "target = abs_path (ws @ vs)"
    using assms(1) by (auto simp: path_below_def)
  then obtain us u where "vs = us @ [u]" using assms(2) by (cases vs rule: rev_cases) auto
  then have "path_Dir target = abs_path (ws @ us)" "list_all plain_part (ws @ us)" using v Dir_abs_path [of "ws @ us" u] by auto
  then show ?thesis using v(1) by (auto simp: path_below_def)
qed

text \<open>A file member whose name is the extraction directory itself, as \<open>.\<close> is.\<close>

definition names_base :: "string \<Rightarrow> tar_member \<Rightarrow> bool" where
  "names_base base m \<longleftrightarrow> safeTarTarget base (th_name (tm_head m)) = Inr base \<and> th_type (tm_head m) \<in> {tar_TypeReg, tar_TypeRegA}"

definition call_contained :: "string \<Rightarrow> tar_member list \<Rightarrow> extract_call \<Rightarrow> bool" where
  "call_contained base members call \<longleftrightarrow>
     path_below base (call_path call) \<or> call = ExMkdirAll (path_Dir base) 0x1ED \<and> (\<exists>m \<in> set members. names_base base m)"

lemma extract_member_contained:
  assumes "clean_absolute base" "list_all (call_contained base ms) tr" "extract_member os base member tr = (e, tr')" "member \<in> set ms"
  shows "list_all (call_contained base ms) tr'"
proof (cases "safeTarTarget base (th_name (tm_head member))")
  case (Inr target)
  note b = safe_target_below [OF assms(1) Inr]
  have parent: "call_contained base ms (ExMkdirAll (path_Dir target) 0x1ED)" if "th_type (tm_head member) \<in> {tar_TypeReg, tar_TypeRegA}"
    using parent_below [OF b] assms(4) Inr that by (cases "target = base") (auto simp: call_contained_def names_base_def)
  have below: "call_contained base ms (ExMkdirAll target m)" "call_contained base ms (ExCreate target m)" "call_contained base ms (ExWrite target d)"
    "call_contained base ms (ExClose target)" for m d using b by (auto simp: call_contained_def)
  show ?thesis using assms(2,3) Inr parent below
    by (auto simp: extract_member_def extract_file_def Let_def split: if_splits option.splits)
qed (use assms(2,3) in \<open>simp add: extract_member_def\<close>)

lemma extract_members_contained:
  "clean_absolute base \<Longrightarrow> list_all (call_contained base ms) tr \<Longrightarrow> set members \<subseteq> set ms \<Longrightarrow>
    extract_members os base members ending tr = (e, tr') \<Longrightarrow> list_all (call_contained base ms) tr'"
proof (induction members arbitrary: tr)
  case (Cons member members)
  obtain r tr1 where m: "extract_member os base member tr = (r, tr1)" by (cases "extract_member os base member tr")
  have t: "list_all (call_contained base ms) tr1" using extract_member_contained [OF Cons.prems(1,2) m] Cons.prems(3) by simp
  show ?case using Cons.IH [OF Cons.prems(1) t] Cons.prems(3,4) m t by (auto split: option.splits)
qed (auto split: if_splits)

text \<open>The members that are refused: by their name, or by their type.\<close>

definition refused_member :: "tar_member \<Rightarrow> bool" where
  "refused_member m \<longleftrightarrow>
     unsafe_name (th_name (tm_head m)) \<or> th_type (tm_head m) \<notin> {tar_TypeDir, tar_TypeReg, tar_TypeRegA}"

lemma extract_member_refused:
  assumes "clean_absolute base"
  shows "extract_member os base m tr =
      (Some (ErrWrap (if unsafe_name (th_name (tm_head m)) then ErrUnsafeTarPath else ErrUnsupportedDirectoryEntry) (th_name (tm_head m))), tr)
      \<longleftrightarrow> refused_member m"
    and "\<not> refused_member m \<Longrightarrow> \<exists>call calls. snd (extract_member os base m tr) = tr @ call # calls"
proof -
  obtain ws where ws: "base = abs_path ws" "list_all plain_part ws" using assms by (rule clean_absolute_parts)
  note t = safeTarTarget_exact [OF ws(2), of "th_name (tm_head m)", folded ws(1)]
  show grows: "\<exists>call calls. snd (extract_member os base m tr) = tr @ call # calls" if "\<not> refused_member m"
    using that t by (auto simp: refused_member_def extract_member_def extract_file_def Let_def split: option.splits)
  have "extract_member os base m tr =
      (Some (ErrWrap (if unsafe_name (th_name (tm_head m)) then ErrUnsafeTarPath else ErrUnsupportedDirectoryEntry) (th_name (tm_head m))), tr)"
    if "refused_member m" using that t by (auto simp: refused_member_def extract_member_def Let_def)
  then show "extract_member os base m tr =
      (Some (ErrWrap (if unsafe_name (th_name (tm_head m)) then ErrUnsafeTarPath else ErrUnsupportedDirectoryEntry) (th_name (tm_head m))), tr)
      \<longleftrightarrow> refused_member m" using grows by fastforce
qed

lemma extract_members_accepted:
  "clean_absolute base \<Longrightarrow> extract_members os base members ending tr = (None, tr') \<Longrightarrow> \<forall>m \<in> set members. \<not> refused_member m"
proof (induction members arbitrary: tr)
  case (Cons m members)
  obtain tr1 where m: "extract_member os base m tr = (None, tr1)" "extract_members os base members ending tr1 = (None, tr')"
    using Cons.prems(2) by (cases "extract_member os base m tr") (auto split: option.splits)
  have "\<not> refused_member m" using extract_member_refused(1) [where os = os and m = m and tr = tr, OF Cons.prems(1)] m(1) by auto
  then show ?case using Cons.IH [OF Cons.prems(1) m(2)] by simp
qed simp

text \<open>
  C28 The extraction of a received archive stays in its directory. Whatever the members are called
  and of whatever type they are, and whatever the operating system answers, every directory and file
  that the extraction makes, writes or closes lies at or below the absolute path of the extraction
  directory, by elements none of which leads up; the only other call is to make the parent of that
  directory (which is there) for a file member whose name is that directory itself, such as \<open>.\<close>. A member is refused with an error and
  without any call exactly when its name is empty, absolute by slash or backslash, or has a parent reference between slashes or
  backslashes, or when it is neither a directory nor a regular file (a link, a device); an extraction that succeeds had no such
  member.
\<close>

theorem directory_extraction_contained:
  assumes "clean_absolute base" "extractDirectoryTar os (Inr base) members ending = (e, tr)"
  shows "(\<forall>call \<in> set tr. path_below base (call_path call) \<or>
      call = ExMkdirAll (path_Dir base) 0x1ED \<and> (\<exists>m \<in> set members. names_base base m)) \<and>
    (e = None \<longrightarrow> (\<forall>m \<in> set members. \<not> refused_member m)) \<and>
    (\<forall>calls. (\<exists>r. extract_member os base m calls = (Some r, calls)) \<longleftrightarrow>
       (th_name (tm_head m) = [] \<or> has_prefix (th_name (tm_head m)) ''/'' \<or> has_prefix (th_name (tm_head m)) [CHR 0x5C] \<or>
        ''..'' \<in> set (fields_func path_separator (th_name (tm_head m))) \<or>
        th_type (tm_head m) \<notin> {tar_TypeDir, tar_TypeReg, tar_TypeRegA}))"
proof (intro conjI allI)
  have "list_all (call_contained base members) tr"
    using extract_members_contained [OF assms(1), of members "[]" members os ending e tr] assms(2) by (simp add: extractDirectoryTar_def)
  then show "\<forall>call \<in> set tr. path_below base (call_path call) \<or>
      call = ExMkdirAll (path_Dir base) 0x1ED \<and> (\<exists>m \<in> set members. names_base base m)"
    by (simp add: list_all_iff call_contained_def)
  show "e = None \<longrightarrow> (\<forall>m \<in> set members. \<not> refused_member m)"
    using extract_members_accepted [OF assms(1), of os members ending "[]" tr] assms(2) by (simp add: extractDirectoryTar_def)
  fix calls
  have "(\<exists>r. extract_member os base m calls = (Some r, calls)) \<longleftrightarrow> refused_member m"
    using extract_member_refused [where os = os and m = m and tr = calls, OF assms(1)] by fastforce
  then show "(\<exists>r. extract_member os base m calls = (Some r, calls)) \<longleftrightarrow>
       (th_name (tm_head m) = [] \<or> has_prefix (th_name (tm_head m)) ''/'' \<or> has_prefix (th_name (tm_head m)) [CHR 0x5C] \<or>
        ''..'' \<in> set (fields_func path_separator (th_name (tm_head m))) \<or>
        th_type (tm_head m) \<notin> {tar_TypeDir, tar_TypeReg, tar_TypeRegA})"
    unfolding refused_member_def unsafe_name_def by blast
qed

theorem directory_extraction_contained_witness:
  "\<exists>tr. extractDirectoryTar (\<lambda>tr call. None) (Inr ''/s'')
      [\<lparr>tm_head = \<lparr>th_name = ''a/./b'', th_type = tar_TypeReg, th_size = 2, th_perm = 420\<rparr>, tm_body = ''ok'', tm_err = None\<rparr>] IoEOF = (None, tr) \<and>
    path_below ''/s'' (call_path (tr ! 1)) \<and> tr ! 1 = ExCreate ''/s/a/b'' 420"
proof -
  have c: "clean_absolute ''/s''" by (simp add: clean_absolute_def) code_simp
  have r: "extractDirectoryTar (\<lambda>tr call. None) (Inr ''/s'')
      [\<lparr>tm_head = \<lparr>th_name = ''a/./b'', th_type = tar_TypeReg, th_size = 2, th_perm = 420\<rparr>, tm_body = ''ok'', tm_err = None\<rparr>] IoEOF =
      (None, [ExMkdirAll ''/s/a'' 493, ExCreate ''/s/a/b'' 420, ExWrite ''/s/a/b'' ''ok'', ExClose ''/s/a/b''])" by code_simp
  from directory_extraction_contained [OF c r] r show ?thesis by auto
qed

end
