(* ===== verification/Directory_Transfer.thy ===== *)
theory Directory_Transfer
  imports File_Directory File_Verified Directory_Safety
begin

text \<open>
  Runs of the directory transfer: the discipline of the terminal, what a reported success means,
  and the state in which a cleanup command can be written.
\<close>

section \<open>The discipline of the terminal\<close>

lemma cleaning_kept: "ft_keeps ft_calm (ft_cleaning env token archive staging e)"
proof (rule ft_keepsI)
  have "ft_keeps ft_calm (cleanupDirectory env token archive staging)"
    unfolding cleanupDirectory_def Let_def by (intro keeps_recovered calm_bind command_kept expect_kept)
  then show "ft_calm st st'" if "ft_cleaning env token archive staging e st = Some (r, st')" for st r st'
    using that by (auto simp: ft_cleaning_def ft_keeps_def split: option.splits sum.splits)
qed

lemma trailing_kept: "ft_keeps ft_calm (\<lambda>st. ft_check (source_trailing env st) st)"
  by (rule ft_keepsI) (auto simp: ft_check_def ft_fail_def ft_ret_def ft_calm_refl split: option.splits)

lemmas disciplined_handle = ft_keeps_handle [OF disciplined_preorder]

lemmas directory_parts =
  disciplined_bind disciplined_wrap disciplined_handle disciplined_same send_loop_disciplined receive_loop_disciplined
  calm_disciplined [OF cleaning_kept] calm_disciplined [OF checkpoint_kept] calm_disciplined [OF command_kept]
  calm_disciplined [OF expect_kept] calm_disciplined [OF expectPhase_kept] calm_disciplined [OF when_kept]
  calm_disciplined [OF trailing_kept] calm_disciplined [OF newFileProtocol_kept] calm_disciplined [OF select_kept]

lemma detect_disciplined: "ft_keeps ft_disciplined (detect_scoped env ctx quoted)"
  unfolding detect_scoped_def by (intro directory_parts) (auto split: list.splits intro!: disciplined_same)

lemma copy_disciplined: "ft_keeps ft_disciplined (copyDirectoryStream env ctx token archive n)"
  unfolding copyDirectoryStream_def by (intro directory_parts)

lemma verify_directory_disciplined: "ft_keeps ft_disciplined (verify_directory env ctx token path digest n hashed)"
  unfolding verify_directory_def by (intro directory_parts) (auto split: sum.splits intro!: disciplined_same)

lemma keeps_close_stream: "ft_keeps ft_disciplined (close_producer env closeStream token archive stage)"
  by (rule ft_keepsI) (auto simp: close_producer_def ft_preorder_refl [OF disciplined_preorder]
      dest: ft_keepsD [OF calm_disciplined [OF cleaning_kept]] split: option.splits)

lemma send_archive_disciplined: "ft_keeps ft_disciplined (send_archive env ctx closeStream token path quoted stage archive directory n)"
  unfolding send_archive_def Let_def
  by (intro directory_parts copy_disciplined verify_directory_disciplined keeps_close_stream)

lemma send_directory_disciplined: "ft_keeps ft_disciplined (send_directory_scoped env ctx closeStream plan wanted)"
  unfolding send_directory_scoped_def Let_def
  by (cases plan) (auto simp: split_def split: sum.splits intro!: directory_parts send_archive_disciplined)

lemma receive_archive_disciplined: "ft_keeps ft_disciplined (receive_archive env ctx extracted token archive n digest)"
proof -
  have rest: "ft_keeps ft_disciplined (\<lambda>st. ft_bind (ft_command env ctx c) (\<lambda>u. ft_bind (expect env token phase args) (\<lambda>u.
       ft_bind (ft_check (extracted st)) (\<lambda>u. if b then ft_fail e else ft_ret r))) st)" for c phase args b e and r :: directory_result
    by (rule ft_keepsI, erule ft_keepsD [rotated]) (auto intro!: directory_parts)
  show ?thesis unfolding receive_archive_def receiveDirectoryStream_def Let_def by (intro directory_parts rest)
qed

lemma receive_directory_disciplined: "ft_keeps ft_disciplined (receive_directory_scoped env ctx extracted quoted)"
  unfolding receive_directory_scoped_def
  by (auto split: sum.splits intro!: directory_parts receive_archive_disciplined)

text \<open>
  C32 The discipline of the terminal holds for directories too: however the remote side answers,
  whatever writes and reads fail and whenever the keep-alive ticker fires, a transfer of a
  directory in either direction and the look at a remote path write a keep-alive line only while
  the remote shell waits for a command, raw bytes of the archive and padding only
  after the announcement that they are taken and before the next answer, and nothing at all once a
  recovery has failed.
\<close>

theorem directory_transfer_discipline:
  assumes "ft_trace st = []"
    and "SendDirectory env ctx closeStream plan path st = Some (r, st') \<or>
      ReceiveDirectory env ctx destination extracted path st = Some (r, st') \<or> DetectRemotePath env ctx path st = Some (q, st')"
  shows "trace_ok (ft_trace st')"
proof -
  have start: "ft_inv st" using assms(1) by (simp add: ft_inv_def)
  from assms(2) consider "SendDirectory env ctx closeStream plan path st = Some (r, st')"
    | "ReceiveDirectory env ctx destination extracted path st = Some (r, st')" | "DetectRemotePath env ctx path st = Some (q, st')" by blast
  then have "ft_inv st'"
  proof cases
    case 1
    then show ?thesis using With_disciplined [OF send_directory_disciplined _ assms(1)] by (simp add: SendDirectory_def)
  next
    case 2
    then show ?thesis using With_disciplined [OF receive_directory_disciplined _ assms(1)] start
      by (auto simp: ReceiveDirectory_def ft_fail_def split: sum.splits if_splits)
  next
    case 3
    then show ?thesis using With_disciplined [OF detect_disciplined _ assms(1)] start
      by (auto simp: DetectRemotePath_def ft_fail_def split: sum.splits)
  qed
  then show ?thesis by (simp add: ft_inv_def)
qed


section \<open>Reported successes\<close>

lemma directory_FINAL:
  assumes "verify_directory env ctx token path digest n hashed st = Some (Inr r, st')"
  shows "ft_still st st' \<and> r = \<lparr>dr_size = n, dr_sha256 = digest, dr_path = path\<rparr> \<and>
    (\<exists>gs. FtMarker (''FINAL'' # gs) \<in> set (ft_trace st') \<and> parseVerifiedFile gs = Inr (n, digest))"
proof -
  obtain gs s1 where 1: "ft_handle (expectPhase env token ''FINAL'') (\<lambda>e. ft_fail (directoryTarError e)) st = Some (Inr gs, s1)"
    and 2: "(case parseVerifiedFile gs of Inl e \<Rightarrow> ft_fail e | Inr (remoteSize, remoteDigest) \<Rightarrow>
      if remoteSize \<noteq> n then ft_fail (ErrWrap ErrFileTransferSizeMismatch ''sent, remote has'')
      else if remoteDigest \<noteq> digest then ft_fail (ErrWrap ErrFileTransferChecksumMismatch ''local, remote'')
      else ft_ret \<lparr>dr_size = n, dr_sha256 = digest, dr_path = path\<rparr>) s1 = Some (Inr r, st')"
    using assms unfolding verify_directory_def by (blast dest: ft_bind_Inr)
  have "ft_wrap [] (expectPhase env token ''FINAL'') st = Some (Inr gs, s1)"
    using 1 by (auto simp: ft_wrap_def ft_handle_def ft_fail_def split: option.splits sum.splits)
  note e = expectPhase_Inr [OF this]
  show ?thesis using 2 e by (auto simp: ft_fail_def ft_ret_def split: sum.splits if_splits)
qed

lemma ft_handle_fails: "ft_handle m h st = Some (Inr a, st') \<Longrightarrow> (\<And>e s x s'. h e s = Some (x, s') \<Longrightarrow> \<exists>e'. x = Inl e') \<Longrightarrow> m st = Some (Inr a, st')"
  by (cases rule: ft_handle_cases) fastforce+

lemma cleaning_fails: "ft_cleaning env token archive stage e st = Some (x, st') \<Longrightarrow> \<exists>e'. x = Inl e'"
  by (auto simp: ft_cleaning_def split: option.splits sum.splits)

lemma cleaning_Inr: "ft_handle m (ft_cleaning env token archive stage) st = Some (Inr a, st') \<Longrightarrow> m st = Some (Inr a, st')"
  by (erule ft_handle_fails, erule cleaning_fails)

lemma tarError_Inr: "ft_handle m (\<lambda>e. ft_fail (directoryTarError e)) st = Some (Inr a, st') \<Longrightarrow> m st = Some (Inr a, st')"
  by (erule ft_handle_fails) (simp add: ft_fail_def)

lemma copy_Inr:
  assumes "copyDirectoryStream env ctx token archive n st = Some (Inr c, st')" "ft_inv st" "0 \<le> n"
  shows "c = ft_source st \<and> int (length c) = n \<and> ft_payload st' = ft_payload st @ c \<and> ft_inv st'"
proof -
  obtain s1 u2 s2 u3 s3 where 1: "send_loop env ctx None tar_send_texts token archive n 0 [] st = Some (Inr c, s1)"
    and 2: "ft_wrap ''local directory changed while sending'' (\<lambda>st. ft_check (source_trailing env st) st) s1 = Some (Inr u2, s2)"
    and 3: "(if n = 0 then report_progress env 0 0 else ft_ret ()) s2 = Some (Inr u3, s3)" "st' = s3"
    using assms(1) unfolding copyDirectoryStream_def by (fastforce dest!: ft_bind_Inr simp: ft_ret_def)
  note l = send_loop_Inr [OF 1 assms(3,2)]
  have "source_trailing env s1 = None" "s2 = s1"
    using ft_wrap_Inr [OF 2] by (auto simp: ft_check_def ft_fail_def ft_ret_def split: option.splits)
  then have "ft_source s1 = []" by (auto simp: source_trailing_def split: if_splits)
  moreover have "ft_calm s2 s3" by (rule ft_keepsD [OF when_kept 3(1)])
  ultimately show ?thesis using l 3(2) \<open>s2 = s1\<close> by (auto simp: ft_calm_def)
qed

lemma send_archive_Inr:
  assumes "send_archive env ctx closeStream token path quoted stage archive directory n st = Some (Inr r, st')" "ft_inv st" "0 \<le> n"
  shows "ft_payload st' = ft_payload st @ ft_source st \<and> int (length (ft_source st)) = n \<and> dr_size r = n \<and>
    dr_sha256 r = fe_sha256 env (ft_source st) \<and>
    (\<exists>gs. FtMarker (''FINAL'' # gs) \<in> set (ft_trace st') \<and> parseVerifiedFile gs = Inr (n, fe_sha256 env (ft_source st)))"
proof -
  obtain u1 s1 u2 s2 u3 s3 c s4 u5 s5 u6 s6 where 1: "ft_command env ctx (directorySendInitCommand token archive directory) st = Some (Inr u1, s1)"
    and 2: "ft_handle (expect env token ''INIT'' [''OK'']) (\<lambda>e. ft_fail (directoryTarError e)) s1 = Some (Inr u2, s2)"
    and 3: "ft_handle (fileTransferCancellationCheckpoint env None) (ft_cleaning env token archive stage) s2 = Some (Inr u3, s3)"
    and 4: "ft_handle (copyDirectoryStream env ctx token archive n) (ft_cleaning env token archive stage) s3 = Some (Inr c, s4)"
    and 5: "close_producer env closeStream token archive stage s4 = Some (Inr u5, s5)"
    and 6: "ft_handle (ft_command env ctx (directorySendFinishCommand token quoted stage archive n (fe_sha256 env c)))
        (ft_cleaning env token archive stage) s5 = Some (Inr u6, s6)"
    and 7: "verify_directory env ctx token path (fe_sha256 env c) n c s6 = Some (Inr r, st')"
    using assms(1) unfolding send_archive_def Let_def
    by - ((drule ft_bind_Inr, elim exE conjE)+, rule that; assumption)
  have "ft_calm st s3"
    using ft_keepsD [OF command_kept 1] ft_keepsD [OF expect_kept tarError_Inr [OF 2]] ft_keepsD [OF checkpoint_kept cleaning_Inr [OF 3]]
      ft_calm_trans by blast
  then have s3: "ft_source s3 = ft_source st" "ft_payload s3 = ft_payload st" "ft_inv s3" using assms(2) by (auto simp: ft_calm_def)
  note c = copy_Inr [OF cleaning_Inr [OF 4] s3(3) assms(3)]
  have "s5 = s4" using 5 cleaning_fails by (fastforce simp: close_producer_def split: option.splits)
  moreover have "ft_calm s5 s6" by (rule ft_keepsD [OF command_kept cleaning_Inr [OF 6]])
  ultimately show ?thesis using c s3 directory_FINAL [OF 7] by (auto simp: ft_calm_def ft_still_def)
qed

text \<open>
  C30 A reported sending of a directory is a verified one. Whatever the remote side, the channel and the
  keep-alive do, when sending a directory succeeds, the raw bytes written to the terminal are exactly
  the local archive, its length is the planned size, closing the producer reported
  no error, and the remote side answered, before it put the directory in place, with that size and the digest of those bytes.
\<close>

theorem directory_send_verified:
  assumes "SendDirectory env ctx closeStream (Inr n) wanted st = Some (Inr r, st')" "ft_trace st = []" "0 \<le> n"
  shows "\<exists>gs. ft_payload st' = ft_source st \<and> int (length (ft_source st)) = n \<and> dr_size r = n \<and>
    dr_sha256 r = fe_sha256 env (ft_source st) \<and> FtMarker (''FINAL'' # gs) \<in> set (ft_trace st') \<and>
    parseVerifiedFile gs = Inr (n, fe_sha256 env (ft_source st))"
proof -
  obtain s1 s2 where s: "ft_still st s1" "ft_inv s1" "send_directory_scoped env ctx closeStream (Inr n) wanted s1 = Some (Inr r, s2)"
    "ft_still s2 st'" using assms(1,2) unfolding SendDirectory_def by (rule With_Inr)
  let ?p = "if has_suffix wanted ''/'' then butlast wanted else wanted"
  obtain token a1 u2 a2 path quoted a3 u4 a4 stage archive directory where 1: "newFileProtocol env ctx s1 = Some (Inr token, a1)"
    and 2: "fileTransferCancellationCheckpoint env None a1 = Some (Inr u2, a2)"
    and 3: "selectAvailableRemotePath env ctx token ?p a2 = Some (Inr (path, quoted), a3)"
    and 4: "fileTransferCancellationCheckpoint env None a3 = Some (Inr u4, a4)"
    and 5: "send_archive env ctx closeStream token path quoted stage archive directory n a4 = Some (Inr r, s2)"
    using s(3) unfolding send_directory_scoped_def Let_def
    by (fastforce dest!: ft_bind_Inr simp: ft_fail_def split: sum.splits if_splits)
  have "ft_calm s1 a4" using ft_keepsD [OF newFileProtocol_kept 1] ft_keepsD [OF checkpoint_kept 2] ft_keepsD [OF select_kept 3]
      ft_keepsD [OF checkpoint_kept 4] ft_calm_trans by blast
  then have a: "ft_inv a4" "ft_source a4 = ft_source st" "ft_payload a4 = []"
    using s(1,2) assms(2) by (auto simp: ft_calm_def ft_still_def ft_payload_def)
  show ?thesis using send_archive_Inr [OF 5 a(1) assms(3)] a(2,3) s(4) by (auto simp: ft_still_def)
qed

text \<open>
  C31 A reported receipt of a directory is a verified one. Whatever the remote side, the channel and the
  local side do, when receiving a directory succeeds, the bytes given to the extraction have the size and the
  digest that the remote side announced for its archive, the extraction had ended without an error when all of them
  were given to it, and the remote archive has been removed.
\<close>

theorem directory_receive_verified:
  assumes "ReceiveDirectory env ctx destination extracted path st = Some (Inr r, st')" "ft_trace st = []"
  shows "\<exists>c fs s. ft_dest st' = ft_dest st @ c \<and> int (length c) = dr_size r \<and> dr_sha256 r = fe_sha256 env c \<and>
    FtMarker (''META'' # fs) \<in> set (ft_trace st') \<and> parseVerifiedFile fs = Inr (dr_size r, fe_sha256 env c) \<and>
    extracted s = None \<and> ft_dest s = ft_dest st' \<and> FtMarker [''FINAL'', ''OK''] \<in> set (ft_trace st')"
proof -
  obtain q where q: "WithFileTransferShell env (receive_directory_scoped env ctx extracted q) st = Some (Inr r, st')"
    using assms(1) by (auto simp: ReceiveDirectory_def ft_fail_def split: sum.splits if_splits)
  obtain s1 s2 where s: "ft_still st s1" "ft_inv s1" "receive_directory_scoped env ctx extracted q s1 = Some (Inr r, s2)" "ft_still s2 st'"
    using q assms(2) by (rule With_Inr)
  obtain token a1 u2 a2 archive u3 a3 fs a4 n digest where 1: "newFileProtocol env ctx s1 = Some (Inr token, a1)"
    and 2: "fileTransferCancellationCheckpoint env None a1 = Some (Inr u2, a2)"
    and 3: "ft_command env ctx (directoryReceiveInitCommand token q archive) a2 = Some (Inr u3, a3)"
    and 4: "ft_handle (expectPhase env token ''META'') (\<lambda>e. ft_fail (directoryTarError e)) a3 = Some (Inr fs, a4)"
    and 5: "parseVerifiedFile fs = Inr (n, digest)" "receive_archive env ctx extracted token archive n digest a4 = Some (Inr r, s2)"
    using s(3) unfolding receive_directory_scoped_def
    by (fastforce dest!: ft_bind_Inr simp: ft_fail_def split: sum.splits)
  have m: "ft_wrap [] (expectPhase env token ''META'') a3 = Some (Inr fs, a4)" using tarError_Inr [OF 4] by (simp add: ft_wrap_def ft_handle_def)
  obtain u6 a6 c a7 where 6: "ft_handle (fileTransferCancellationCheckpoint env None) (ft_cleaning env token archive []) a4 = Some (Inr u6, a6)"
    and 7: "ft_handle (receiveDirectoryStream env ctx token archive n) (ft_cleaning env token archive []) a6 = Some (Inr c, a7)"
    and 8: "ft_bind (ft_command env ctx (directoryReceiveFinishCommand token archive)) (\<lambda>u.
       ft_bind (expect env token ''FINAL'' [''OK'']) (\<lambda>u. ft_bind (ft_check (extracted a7)) (\<lambda>u.
       if fe_sha256 env c \<noteq> digest then ft_fail (ErrWrap ErrFileTransferChecksumMismatch ''local, remote'')
       else ft_ret \<lparr>dr_size = n, dr_sha256 = fe_sha256 env c, dr_path = []\<rparr>))) a7 = Some (Inr r, s2)"
    using 5(2) unfolding receive_archive_def Let_def by (blast dest: ft_bind_Inr)
  obtain u9 a9 u10 where 9: "ft_command env ctx (directoryReceiveFinishCommand token archive) a7 = Some (Inr u9, a9)"
    and 10: "expect env token ''FINAL'' [''OK''] a9 = Some (Inr u10, s2)" and 11: "extracted a7 = None" "fe_sha256 env c = digest"
      "r = \<lparr>dr_size = n, dr_sha256 = fe_sha256 env c, dr_path = []\<rparr>"
    using 8 by (fastforce dest!: ft_bind_Inr simp: ft_check_def ft_fail_def ft_ret_def split: option.splits if_splits)
  have n: "0 \<le> n" using 5(1) by (auto simp: parseVerifiedFile_def Let_def split: list.splits option.splits if_splits)
  obtain d where d: "c = [] @ d" "int (length d) = n - 0" "ft_dest a7 = ft_dest a6 @ d" "set (ft_trace a6) \<subseteq> set (ft_trace a7)"
    using receive_loop_Inr [OF cleaning_Inr [OF 7, unfolded receiveDirectoryStream_def] n] by blast
  have c1: "ft_calm s1 a3" using ft_keepsD [OF newFileProtocol_kept 1] ft_keepsD [OF checkpoint_kept 2] ft_keepsD [OF command_kept 3]
      ft_calm_trans by blast
  have c2: "ft_calm a4 a6" by (rule ft_keepsD [OF checkpoint_kept cleaning_Inr [OF 6]])
  have c3: "ft_calm a7 s2" using ft_keepsD [OF command_kept 9] ft_keepsD [OF expect_kept 10] ft_calm_trans by blast
  note e = expectPhase_Inr [OF m]
  have "ft_dest a6 = ft_dest st" using s(1) c1 c2 e(1) by (auto simp: ft_calm_def ft_still_def)
  moreover have "ft_dest st' = ft_dest a7" "FtMarker (''META'' # fs) \<in> set (ft_trace st')"
    using c2 c3 d(4) e(2) s(4) by (auto simp: ft_calm_def ft_still_def)
  moreover have "FtMarker [''FINAL'', ''OK''] \<in> set (ft_trace st')" using expect_spec(2) [OF 10] s(4) by (auto simp: ft_still_def)
  ultimately show ?thesis using d(1-3) 5(1) 11 by (intro exI [of _ c] exI [of _ fs] exI [of _ a7]) simp
qed

section \<open>A cleanup inside a block\<close>

text \<open>
  \<open>cleanupDirectory\<close> says it runs only after the current block was acknowledged. But
  when the wait for the announcement of a block ends without a context error, as it does when
  output was overwritten, the block is not completed first: the cleanup command is written while
  the command of the block owns the terminal, whose \<open>dd\<close> takes it for archive bytes.
\<close>

lemma directory_cleanup_inside_block:
  assumes "ft_command env ctx (sendChunkCommand token archive k) st = Some (Inr u, s1)"
    and "expect env token ''READY'' [format_int k] s1 = Some (Inl ErrOverwrittenTransfer, s2)"
  shows "ft_handle (send_block env ctx texts token archive transferred k d) (ft_cleaning env token archive stage) st =
      (ft_cleaning env token archive stage (ErrWrap ErrOverwrittenTransfer (at_byte (bt_prepare texts) transferred)) s2 :: _)" (is ?run)
    and "ft_owner (ft_trace s1) = Running"
proof -
  show "ft_owner (ft_trace s1) = Running" using ft_command_spec [OF assms(1)] by simp
  have "\<not> (err_is ErrOverwrittenTransfer CtxCanceled \<or> err_is ErrOverwrittenTransfer CtxDeadlineExceeded)"
    using protocol_not_ctx(3) unfolding ctx_error_def .
  then have "send_block env ctx texts token archive transferred k d st =
      Some (Inl (ErrWrap ErrOverwrittenTransfer (at_byte (bt_prepare texts) transferred)), s2)"
    using assms by (simp add: send_block_def ft_bind_def ft_handle_def ft_interrupted_def)
  then show ?run by (simp add: ft_handle_def)
qed

end
