(* ===== verification/Directory_Exact.thy ===== *)
theory Directory_Exact
  imports Directory_Transfer File_Exact
begin

text \<open>
  The exactness of directory transfers: with a remote side that follows the protocol the
  archive arrives as it is, in both directions, and the witnesses over small transfers.
\<close>

section \<open>Whole transfers\<close>

lemma does_cleaned: "ft_does P m a Q \<Longrightarrow> ft_does P (ft_handle m (ft_cleaning env token archive stage)) a Q"
  by (rule does_handle)

lemma does_copy:
  assumes "calm_transfer env ctx None" "plain_token token" "send_talk token c s" "fe_source_end env = IoEOF"
  shows "ft_does (ft_at z (s @ t) d c w) (copyDirectoryStream env ctx token archive (int (length c))) c (ft_at z t d [] (w @ c))"
proof -
  have l: "ft_does (ft_at z (s @ t) d c w) (send_loop env ctx None tar_send_texts token archive (int (length c)) 0 []) c (ft_at z t d [] (w @ c))"
    using does_send_loop [OF assms(1-3), of "int (length c)" 0 z t d "[]" w tar_send_texts archive "[]"] by simp
  show ?thesis unfolding copyDirectoryStream_def
    by (rule does_bind [OF l], rule does_bind [OF does_wrap [OF does_trailing [OF assms(4)]]],
        rule does_bind [OF does_when [OF assms(1)] does_ret])
qed

lemma does_verify_directory:
  assumes "calm_transfer env ctx None" "plain_token token" "tells_file env fs c" "quiet (ft_prefix token) noise"
  shows "ft_does (ft_at z (noise @ answer_line token cr (''FINAL'' # fs) @ t) d src w)
    (verify_directory env ctx token path (fe_sha256 env c) (int (length c)) c)
    \<lparr>dr_size = int (length c), dr_sha256 = fe_sha256 env c, dr_path = path\<rparr> (ft_at z t d src w)"
proof -
  have e: "clean_event (''FINAL'' # fs)" by (rule clean_tells [OF assms(3)]) (simp add: clean_event_def clean_field_def)
  have v: "parseVerifiedFile fs = Inr (int (length c), fe_sha256 env c)" using assms(3) by (simp add: tells_file_def)
  show ?thesis unfolding verify_directory_def
    by (rule does_bind [OF does_handle [OF does_expectPhase [OF assms(1,2) e _ assms(4)]]], simp,
        simp only: v sum.case prod.case simp_thms if_False, rule does_ret)
qed

lemma does_send_directory:
  assumes "calm_transfer env ctx None" "plain_token token" "fe_random env k = Inr token" "wanted \<noteq> []" "\<not> has_suffix wanted ''/''"
    and "quoteRemotePath wanted = Inr q" "quoteRemotePath (path_Dir wanted) = Inr dq"
    and "quoteRemotePath (posixDirectoryStagePath wanted token) = Inr sq" "quoteRemotePath (posixDirectoryArchivePath wanted token) = Inr aq"
    and "fe_source_end env = IoEOF" "\<forall>st. closeStream st = None" "tells_file env fs c" "send_talk token c s"
    and "quiet (ft_prefix token) n1" "quiet (ft_prefix token) n2" "quiet (ft_prefix token) n3"
  shows "ft_does (\<lambda>st. ft_clock st = k \<and> ft_at z (ft_pending st @ n1 @ answer_line token cr1 [''PICK'', ''FREE''] @ n2 @ answer_line token cr2 [''INIT'', ''OK''] @
      s @ n3 @ answer_line token cr3 (''FINAL'' # fs) @ rest) d c w st) (send_directory_scoped env ctx closeStream (Inr (int (length c))) wanted)
    \<lparr>dr_size = int (length c), dr_sha256 = fe_sha256 env c, dr_path = wanted\<rparr> (ft_at z rest d [] (w @ c))"
proof -
  have closed: "ft_does P (close_producer env closeStream token archive stage) () P" for P archive stage
    using assms(11) by (simp add: ft_does_def close_producer_def)
  have p: "(if has_suffix wanted ''/'' then butlast wanted else wanted) = wanted" using assms(5) by simp
  show ?thesis unfolding send_directory_scoped_def sum.case Let_def p assms(6) if_not_P [OF assms(4)]
    by (rule does_bind [OF does_protocol [OF assms(1,3)]], rule does_bind [OF does_checkpoint [OF assms(1)]],
        rule does_bind [OF does_select_free [OF assms(1,2,6,14)]], unfold prod.case,
        rule does_bind [OF does_checkpoint [OF assms(1)]], unfold assms(7-9) sum.case send_archive_def Let_def,
        rule does_bind [OF does_command [OF assms(1)]],
        rule does_bind [OF does_handle [OF does_expect [OF assms(1,2) clean_phases(4) _ assms(15)]]], simp,
        rule does_bind [OF does_cleaned [OF does_checkpoint [OF assms(1)]]],
        rule does_bind [OF does_cleaned [OF does_copy [OF assms(1,2,13,10)]]], rule does_bind [OF closed],
        rule does_bind [OF does_cleaned [OF does_command [OF assms(1)]]], rule does_verify_directory [OF assms(1,2,12,16)])
qed

lemma does_receive_directory:
  assumes "calm_transfer env ctx None" "plain_token token" "fe_random env k = Inr token"
    and "quoteRemotePath (posixDirectoryReceiveArchivePath token) = Inr aq" "\<forall>st. extracted st = None"
    and "tells_file env fs c" "receive_talk token c s" "quiet (ft_prefix token) n1" "quiet (ft_prefix token) n2"
  shows "ft_does (\<lambda>st. ft_clock st = k \<and> ft_at z (ft_pending st @ n1 @ answer_line token cr1 (''META'' # fs) @ s @ n2 @
      answer_line token cr2 [''FINAL'', ''OK''] @ rest) d src w st) (receive_directory_scoped env ctx extracted q)
    \<lparr>dr_size = int (length c), dr_sha256 = fe_sha256 env c, dr_path = []\<rparr> (ft_at z rest (d @ c) src w)"
proof -
  have e: "clean_event (''META'' # fs)" by (rule clean_tells [OF assms(6)]) (simp add: clean_event_def clean_field_def)
  have f: "clean_event [''FINAL'', ''OK'']" by (simp add: clean_event_def clean_field_def)
  have v: "parseVerifiedFile fs = Inr (int (length c), fe_sha256 env c)" using assms(6) by (simp add: tells_file_def)
  have l: "ft_does (ft_at z (s @ t) d src w) (receiveDirectoryStream env ctx token aq (int (length c))) c (ft_at z t (d @ c) src w)" for t
    unfolding receiveDirectoryStream_def
    using does_receive_loop [OF assms(1,2,7), of "int (length c)" 0 z t d src w tar_receive_texts aq 0 "[]"] by simp
  have rest: "ft_does (ft_at z (n2 @ answer_line token cr2 [''FINAL'', ''OK''] @ rest) d src w)
      (\<lambda>st. ft_bind (ft_command env ctx command) (\<lambda>u. ft_bind (expect env token ''FINAL'' [''OK'']) (\<lambda>u.
         ft_bind (ft_check (extracted st)) (\<lambda>u. ft_ret r))) st) r (ft_at z rest d src w)" for command d and r :: directory_result
    by (simp only: assms(5) [rule_format], rule does_bind [OF does_command [OF assms(1)]],
        rule does_bind [OF does_expect [OF assms(1,2) f _ assms(9)]], simp, simp add: ft_check_def ft_does_def ft_bind_def ft_ret_def)
  show ?thesis unfolding receive_directory_scoped_def
    by (rule does_bind [OF does_protocol [OF assms(1,3)]], rule does_bind [OF does_checkpoint [OF assms(1)]], unfold assms(4) sum.case,
        rule does_bind [OF does_command [OF assms(1)]],
        rule does_bind [OF does_handle [OF does_expectPhase [OF assms(1,2) e _ assms(8)]]], simp, simp only: v sum.case prod.case,
        unfold receive_archive_def Let_def, rule does_bind [OF does_cleaned [OF does_checkpoint [OF assms(1)]]],
        rule does_bind [OF does_cleaned [OF l]], simp only: simp_thms if_False, rule rest)
qed

lemma does_whole_directories:
  assumes "calm_transfer env ctx None" "plain_token token" "plain_token shell" "fe_random env k = Inr shell" "fe_random env (k + 3) = Inr token"
    and "shell_script shell r1 r2 r4" "good_reads r3"
  shows "wanted \<noteq> [] \<Longrightarrow> \<not> has_suffix wanted ''/'' \<Longrightarrow> quoteRemotePath wanted = Inr q \<Longrightarrow> quoteRemotePath (path_Dir wanted) = Inr dq \<Longrightarrow>
      quoteRemotePath (posixDirectoryStagePath wanted token) = Inr sq \<Longrightarrow> quoteRemotePath (posixDirectoryArchivePath wanted token) = Inr aq \<Longrightarrow>
      fe_source_end env = IoEOF \<Longrightarrow> \<forall>st. closeStream st = None \<Longrightarrow> tells_file env fs c \<Longrightarrow> send_talk token c s \<Longrightarrow>
      quiet (ft_prefix token) n1 \<Longrightarrow> quiet (ft_prefix token) n2 \<Longrightarrow> quiet (ft_prefix token) n3 \<Longrightarrow>
      read_bytes r3 = n1 @ answer_line token cr1 [''PICK'', ''FREE''] @ n2 @ answer_line token cr2 [''INIT'', ''OK''] @
        s @ n3 @ answer_line token cr3 (''FINAL'' # fs) \<Longrightarrow>
      ft_does (\<lambda>st. ft_clock st = k \<and> ft_reads st = r1 @ r2 @ r3 @ r4 @ z \<and> ft_dest st = d \<and> ft_source st = c \<and> ft_payload st = w)
        (SendDirectory env ctx closeStream (Inr (int (length c))) wanted)
        \<lparr>dr_size = int (length c), dr_sha256 = fe_sha256 env c, dr_path = wanted\<rparr>
        (\<lambda>st. ft_dest st = d \<and> ft_source st = [] \<and> ft_payload st = w @ c)"
    and "quoteRemotePath path = Inr pq \<Longrightarrow> fi_kind info = KindDir \<Longrightarrow> quoteRemotePath (posixDirectoryReceiveArchivePath token) = Inr raq \<Longrightarrow>
      \<forall>st. extracted st = None \<Longrightarrow> tells_file env fs c \<Longrightarrow> receive_talk token c s \<Longrightarrow>
      quiet (ft_prefix token) n1 \<Longrightarrow> quiet (ft_prefix token) n2 \<Longrightarrow>
      read_bytes r3 = n1 @ answer_line token cr1 (''META'' # fs) @ s @ n2 @ answer_line token cr2 [''FINAL'', ''OK''] \<Longrightarrow>
      ft_does (\<lambda>st. ft_clock st = k \<and> ft_reads st = r1 @ r2 @ r3 @ r4 @ z \<and> ft_dest st = d \<and> ft_source st = src \<and> ft_payload st = w)
        (ReceiveDirectory env ctx (Inr info) extracted path)
        \<lparr>dr_size = int (length c), dr_sha256 = fe_sha256 env c, dr_path = []\<rparr>
        (\<lambda>st. ft_dest st = d @ c \<and> ft_source st = src \<and> ft_payload st = w)"
proof -
  assume a: "wanted \<noteq> []" "\<not> has_suffix wanted ''/''" "quoteRemotePath wanted = Inr q" "quoteRemotePath (path_Dir wanted) = Inr dq"
      "quoteRemotePath (posixDirectoryStagePath wanted token) = Inr sq" "quoteRemotePath (posixDirectoryArchivePath wanted token) = Inr aq"
      "fe_source_end env = IoEOF" "\<forall>st. closeStream st = None" "tells_file env fs c" "send_talk token c s"
      "quiet (ft_prefix token) n1" "quiet (ft_prefix token) n2" "quiet (ft_prefix token) n3"
      "read_bytes r3 = n1 @ answer_line token cr1 [''PICK'', ''FREE''] @ n2 @ answer_line token cr2 [''INIT'', ''OK''] @
        s @ n3 @ answer_line token cr3 (''FINAL'' # fs)"
  show "ft_does (\<lambda>st. ft_clock st = k \<and> ft_reads st = r1 @ r2 @ r3 @ r4 @ z \<and> ft_dest st = d \<and> ft_source st = c \<and> ft_payload st = w)
        (SendDirectory env ctx closeStream (Inr (int (length c))) wanted)
        \<lparr>dr_size = int (length c), dr_sha256 = fe_sha256 env c, dr_path = wanted\<rparr>
        (\<lambda>st. ft_dest st = d \<and> ft_source st = [] \<and> ft_payload st = w @ c)"
    unfolding SendDirectory_def
    by (rule does_with [OF assms(1,3,4,6,7)]) (use does_send_directory [where rest = "[]", OF assms(1,2,5) a(1-13)] a(14) in simp)
next
  assume a: "quoteRemotePath path = Inr pq" "fi_kind info = KindDir" "quoteRemotePath (posixDirectoryReceiveArchivePath token) = Inr raq"
      "\<forall>st. extracted st = None" "tells_file env fs c" "receive_talk token c s"
      "quiet (ft_prefix token) n1" "quiet (ft_prefix token) n2"
      "read_bytes r3 = n1 @ answer_line token cr1 (''META'' # fs) @ s @ n2 @ answer_line token cr2 [''FINAL'', ''OK'']"
  have k: "\<not> fi_kind info \<noteq> KindDir" using a(2) by simp
  show "ft_does (\<lambda>st. ft_clock st = k \<and> ft_reads st = r1 @ r2 @ r3 @ r4 @ z \<and> ft_dest st = d \<and> ft_source st = src \<and> ft_payload st = w)
        (ReceiveDirectory env ctx (Inr info) extracted path)
        \<lparr>dr_size = int (length c), dr_sha256 = fe_sha256 env c, dr_path = []\<rparr>
        (\<lambda>st. ft_dest st = d @ c \<and> ft_source st = src \<and> ft_payload st = w)"
    unfolding ReceiveDirectory_def a(1) sum.case if_not_P [OF k]
    by (rule does_with [OF assms(1,3,4,6,7)]) (use does_receive_directory [where rest = "[]", OF assms(1,2,5) a(3-8)] a(9) in simp)
qed

section \<open>Small transfers\<close>

lemma demo_paths:
  "quoteRemotePath (posixDirectoryStagePath ''f'' ''ab'') = Inr (quoteTerminalCommand ''.f.cterm-part-ab'')"
  "quoteRemotePath (posixDirectoryArchivePath ''f'' ''ab'') = Inr (quoteTerminalCommand ''.f.cterm-archive-ab.tar'')"
  "quoteRemotePath (posixDirectoryReceiveArchivePath ''ab'') = Inr (quoteTerminalCommand ''/tmp/.channelterm-ab.tar'')"
  "''f'' \<noteq> []" "\<not> has_suffix ''f'' ''/''"
  by code_simp+

definition demo_receive_directory :: string where
  "demo_receive_directory = [] @ answer_line ''ab'' True [''META'', ''15'', demo_digest] @
     ([CHR 0x0A] @ answer_line ''ab'' False [''DATA'', format_int (int (length demo_content))] @ demo_content @
      [CHR 0x0A] @ answer_line ''ab'' True [''ACK'', format_int (int (length demo_content))] @ []) @
     ''$ '' @ answer_line ''ab'' True [''FINAL'', ''OK'']"

lemma demo_directory_bytes: "read_bytes [demo_chunk (take 30 demo_receive_directory), demo_chunk (drop 30 demo_receive_directory)] = [] @
    answer_line ''ab'' True (''META'' # [''15'', demo_digest]) @
    ([CHR 0x0A] @ answer_line ''ab'' False [''DATA'', format_int (int (length demo_content))] @ demo_content @
      [CHR 0x0A] @ answer_line ''ab'' True [''ACK'', format_int (int (length demo_content))] @ []) @
    ''$ '' @ answer_line ''ab'' True [''FINAL'', ''OK'']"
  by (simp only: demo_middle) (simp only: demo_receive_directory_def)

lemma demo_send_directory_runs:
  obtains st' where "SendDirectory demo_transfer (\<lambda>t. None) (\<lambda>st. None) (Inr 15) ''f'' (demo_state demo_content (demo_reads demo_send)) =
    Some (Inr \<lparr>dr_size = 15, dr_sha256 = demo_digest, dr_path = ''f''\<rparr>, st')"
proof -
  have none: "\<forall>st :: ft. (\<lambda>st. None :: goerr option) st = None" by simp
  note runs = does_whole_directories(1) [OF demo_facts(1-3,6,7) demo_shell demo_middle(1) demo_paths(4,5) demo_facts(8,9) demo_paths(1,2)
    demo_facts(10) none demo_facts(11) demo_talk(2) demo_facts(15,13,13) demo_send_bytes, of "[]" "[]" "[]", unfolded ft_does_def]
  have "\<exists>st'. SendDirectory demo_transfer (\<lambda>t. None) (\<lambda>st. None) (Inr (int (length demo_content))) ''f'' (demo_state demo_content (demo_reads demo_send)) =
      Some (Inr \<lparr>dr_size = int (length demo_content), dr_sha256 = fe_sha256 demo_transfer demo_content, dr_path = ''f''\<rparr>, st')"
    using runs [rule_format, OF conjI [OF demo_clock conjI [OF demo_stream]]] by (auto simp: demo_state_def ft_payload_def)
  then show ?thesis using that by (auto simp: demo_transfer_def demo_content_def)
qed

lemma demo_receive_directory_runs:
  obtains st' where "ReceiveDirectory demo_transfer (\<lambda>t. None) (Inr \<lparr>fi_kind = KindDir, fi_size = 0, fi_perm = 493\<rparr>) (\<lambda>st. None) ''f''
    (demo_state [] (demo_reads demo_receive_directory)) = Some (Inr \<lparr>dr_size = 15, dr_sha256 = demo_digest, dr_path = []\<rparr>, st')"
proof -
  have none: "\<forall>st :: ft. (\<lambda>st. None :: goerr option) st = None" by simp
  have dir: "fi_kind \<lparr>fi_kind = KindDir, fi_size = 0, fi_perm = 493\<rparr> = KindDir" by simp
  note runs = does_whole_directories(2) [OF demo_facts(1-3,6,7) demo_shell demo_middle(1) demo_facts(8) dir demo_paths(3)
    none demo_facts(11) demo_talk(1) demo_facts(13,15) demo_directory_bytes, of "[]" "[]" "[]" "[]", unfolded ft_does_def]
  have "\<exists>st'. ReceiveDirectory demo_transfer (\<lambda>t. None) (Inr \<lparr>fi_kind = KindDir, fi_size = 0, fi_perm = 493\<rparr>) (\<lambda>st. None) ''f''
      (demo_state [] (demo_reads demo_receive_directory)) =
      Some (Inr \<lparr>dr_size = int (length demo_content), dr_sha256 = fe_sha256 demo_transfer demo_content, dr_path = []\<rparr>, st')"
    using runs [rule_format, OF conjI [OF demo_clock conjI [OF demo_stream]]] by (auto simp: demo_state_def ft_payload_def)
  then show ?thesis using that by (auto simp: demo_transfer_def demo_content_def)
qed

theorem directory_transfer_discipline_witness:
  "\<exists>st'. SendDirectory demo_transfer (\<lambda>t. None) (\<lambda>st. None) (Inr 15) ''f'' (demo_state demo_content (demo_reads demo_send)) =
    Some (Inr \<lparr>dr_size = 15, dr_sha256 = demo_digest, dr_path = ''f''\<rparr>, st') \<and> trace_ok (ft_trace st')"
proof -
  obtain st' where r: "SendDirectory demo_transfer (\<lambda>t. None) (\<lambda>st. None) (Inr 15) ''f'' (demo_state demo_content (demo_reads demo_send)) =
    Some (Inr \<lparr>dr_size = 15, dr_sha256 = demo_digest, dr_path = ''f''\<rparr>, st')" by (rule demo_send_directory_runs)
  from directory_transfer_discipline [OF demo_silent disjI1 [OF r]] r show ?thesis by blast
qed

theorem directory_send_verified_witness:
  "\<exists>st'. SendDirectory demo_transfer (\<lambda>t. None) (\<lambda>st. None) (Inr 15) ''f'' (demo_state demo_content (demo_reads demo_send)) =
    Some (Inr \<lparr>dr_size = 15, dr_sha256 = demo_digest, dr_path = ''f''\<rparr>, st') \<and> ft_payload st' = demo_content"
proof -
  obtain st' where r: "SendDirectory demo_transfer (\<lambda>t. None) (\<lambda>st. None) (Inr 15) ''f'' (demo_state demo_content (demo_reads demo_send)) =
    Some (Inr \<lparr>dr_size = 15, dr_sha256 = demo_digest, dr_path = ''f''\<rparr>, st')" by (rule demo_send_directory_runs)
  from directory_send_verified [OF r demo_silent] r show ?thesis by (auto simp: demo_state_def)
qed

theorem directory_receive_verified_witness:
  "\<exists>st' c. ReceiveDirectory demo_transfer (\<lambda>t. None) (Inr \<lparr>fi_kind = KindDir, fi_size = 0, fi_perm = 493\<rparr>) (\<lambda>st. None) ''f''
    (demo_state [] (demo_reads demo_receive_directory)) = Some (Inr \<lparr>dr_size = 15, dr_sha256 = demo_digest, dr_path = []\<rparr>, st') \<and>
    ft_dest st' = c \<and> length c = 15"
proof -
  obtain st' where r: "ReceiveDirectory demo_transfer (\<lambda>t. None) (Inr \<lparr>fi_kind = KindDir, fi_size = 0, fi_perm = 493\<rparr>) (\<lambda>st. None) ''f''
    (demo_state [] (demo_reads demo_receive_directory)) = Some (Inr \<lparr>dr_size = 15, dr_sha256 = demo_digest, dr_path = []\<rparr>, st')"
    by (rule demo_receive_directory_runs)
  from directory_receive_verified [OF r demo_silent] r show ?thesis by (auto simp: demo_state_def)
qed

end
