(* ===== verification/Attach_Input.thy ===== *)
theory Attach_Input
  imports Interactive_Controller File_Commands
begin

text \<open>
  The input dispatcher of an attached console
  (\<open>internal/cli/command/attach_input_dispatcher.go\<close>) and the cancellation latch it
  shares with the transfer worker (\<open>attach_file_shortcut.go\<close>). One turn of \<open>run\<close> takes an
  event: bytes from the pump, a process interrupt, the end of the worker, the
  confirmation timer, or the end of the context. Clock, local and remote writes, the toggle and the
  control calls of the terminal are parameters, indexed by the operations before
  (\<open>at_clock\<close>); the worker itself is the event of its end.
\<close>

section \<open>The cancellation latch\<close>

datatype cancel_state = CancelRunning | CancelConfirming | CancelCancelled

text \<open>Bytes transferred, total, and the formatted percentage.\<close>

record cancel_snapshot =
  cs_transferred :: int
  cs_total :: int
  cs_percent :: string

record file_cancel =
  xc_state :: cancel_state
  xc_closed :: bool                  \<comment> \<open>\<open>ch\<close> is closed\<close>
  xc_progress :: cancel_snapshot

definition newFileTransferCancellation :: file_cancel where
  "newFileTransferCancellation =
     \<lparr>xc_state = CancelRunning, xc_closed = False, xc_progress = \<lparr>cs_transferred = 0, cs_total = 0, cs_percent = ''0.0''\<rparr>\<rparr>"

definition BeginConfirmation :: "file_cancel \<Rightarrow> bool \<times> file_cancel" where
  "BeginConfirmation c =
     (if xc_state c \<noteq> CancelRunning then (False, c) else (True, c\<lparr>xc_state := CancelConfirming\<rparr>))"

definition ResolveConfirmation :: "bool \<Rightarrow> file_cancel \<Rightarrow> file_cancel" where
  "ResolveConfirmation cancel c =
     (if xc_state c \<noteq> CancelConfirming then c
      else if cancel then c\<lparr>xc_state := CancelCancelled, xc_closed := True\<rparr> else c\<lparr>xc_state := CancelRunning\<rparr>)"

definition RequestCancellation :: "file_cancel \<Rightarrow> file_cancel" where
  "RequestCancellation c =
     (if xc_state c = CancelCancelled then c else c\<lparr>xc_state := CancelCancelled, xc_closed := True\<rparr>)"

definition Cancelled :: "file_cancel \<Rightarrow> bool" where
  "Cancelled c \<longleftrightarrow> xc_state c = CancelCancelled"

text \<open>\<open>Requested\<close> waits while a prompt is open: \<open>None\<close>.\<close>

definition Requested :: "file_cancel \<Rightarrow> bool option" where
  "Requested c = (if xc_state c = CancelConfirming then None else Some (Cancelled c))"

definition ObserveProgress :: "cancel_snapshot \<Rightarrow> file_cancel \<Rightarrow> file_cancel" where
  "ObserveProgress p c = c\<lparr>xc_progress := p\<rparr>"

section \<open>The dispatcher\<close>

datatype attach_mode =
    ModeAttach | ModeFileMenu | ModeSendLocalPath | ModeSendRemotePath | ModeReceiveRemotePath | ModeReceiveLocalPath
  | ModeFileTransfer | ModeFileTransferCancelConfirm

definition path_mode :: "attach_mode \<Rightarrow> bool" where
  "path_mode m \<longleftrightarrow> m \<in> {ModeSendLocalPath, ModeSendRemotePath, ModeReceiveRemotePath, ModeReceiveLocalPath}"

definition controlCRecoveryWindow :: int where "controlCRecoveryWindow = 500 * 1000000"
definition confirmationLimit :: int where "confirmationLimit = 30 * 1000000000"

text \<open>What the dispatcher does.\<close>

datatype attach_event =
    AeRemote string                  \<comment> \<open>bytes written to the remote side\<close>
  | AeLocal string
  | AeStatus string
  | AeToggle
  | AeStop                           \<comment> \<open>\<open>stopAttach\<close>\<close>
  | AeStarted string string string   \<comment> \<open>the worker, with direction and paths\<close>
  | AeFinished                       \<comment> \<open>the worker has ended\<close>
  | AeBegin string                   \<comment> \<open>an active transfer of another owner, by request\<close>
  | AeResolve string bool
  | AePrompt bool                    \<comment> \<open>the presenter: prompt started, prompt finished\<close>

text \<open>The control calls of a terminal that has them.\<close>

record cancel_controller =
  cc_begin :: "nat \<Rightarrow> goerr + string option"            \<comment> \<open>the request of an active transfer\<close>
  cc_resolve :: "nat \<Rightarrow> string \<Rightarrow> bool \<Rightarrow> goerr + string"

record attach_env =
  ae_now :: "nat \<Rightarrow> int"
  ae_prefix :: "nat \<Rightarrow> string"                            \<comment> \<open>\<open>fileTransferStatusPrefix\<close>\<close>
  ae_error :: "goerr \<Rightarrow> string"
  ae_quote :: "byte \<Rightarrow> string"                            \<comment> \<open>\<open>%q\<close> of a byte\<close>
  ae_local :: "(nat \<Rightarrow> string \<Rightarrow> goerr option) option"   \<comment> \<open>\<open>writeLocal\<close>\<close>
  ae_status :: "(nat \<Rightarrow> string \<Rightarrow> goerr option) option"
  ae_remote :: "nat \<Rightarrow> string \<Rightarrow> goerr option"
  ae_toggle :: "(nat \<Rightarrow> goerr option) option"
  ae_stops :: bool
  ae_command :: "(nat \<Rightarrow> bool) option"                   \<comment> \<open>\<open>terminalCommandActive\<close>\<close>
  ae_cancel :: "cancel_controller option"
  ae_presenter :: bool

record attach =
  at_clock :: nat
  at_controller :: controller
  at_mode :: attach_mode
  at_line :: string
  at_skip :: bool
  at_localPath :: string
  at_remotePath :: string
  at_running :: bool                 \<comment> \<open>\<open>transferDone\<close>\<close>
  at_cancel :: "file_cancel option"
  at_request :: string               \<comment> \<open>\<open>externalCancelRequest\<close>\<close>
  at_timer :: bool
  at_deadline :: int
  at_ignored :: bool
  at_cmdIgnored :: bool
  at_until :: int                    \<comment> \<open>\<open>ignoreControlCUntil\<close>\<close>
  at_trace :: "attach_event list"

text \<open>The zero time is before every time.\<close>

definition zero_time :: int where "zero_time = - 62135596800000000000"

definition newAttachInputDispatcher :: attach where
  "newAttachInputDispatcher =
     \<lparr>at_clock = 0, at_controller = NewController DefaultEscapeByte, at_mode = ModeAttach, at_line = [], at_skip = False,
      at_localPath = [], at_remotePath = [], at_running = False, at_cancel = None, at_request = [], at_timer = False,
      at_deadline = zero_time, at_ignored = False, at_cmdIgnored = False, at_until = zero_time, at_trace = []\<rparr>"

definition at_emit :: "attach_event \<Rightarrow> attach \<Rightarrow> attach" where
  "at_emit e st = st\<lparr>at_trace := at_trace st @ [e], at_clock := Suc (at_clock st)\<rparr>"

text \<open>\<open>d.writeLocal != nil && d.writeLocal(data) == nil\<close>.\<close>

definition write_local :: "attach_env \<Rightarrow> string \<Rightarrow> attach \<Rightarrow> bool \<times> attach" where
  "write_local env d st =
     (case ae_local env of None \<Rightarrow> (False, st)
      | Some write \<Rightarrow> (write (at_clock st) d = None, at_emit (AeLocal d) st))"

definition writeTransferStatus :: "attach_env \<Rightarrow> string \<Rightarrow> attach \<Rightarrow> bool \<times> attach" where
  "writeTransferStatus env d st =
     (case ae_status env of Some write \<Rightarrow> (write (at_clock st) d = None, at_emit (AeStatus d) st)
      | None \<Rightarrow> (case ae_local env of None \<Rightarrow> (True, st) | Some write \<Rightarrow> write_local env d st))"

definition at_crlf :: string where "at_crlf = [CHR 0x0D, CHR 0x0A]"

definition notice :: "string \<Rightarrow> string" where
  "notice text = at_crlf @ ''[ChannelTerm] '' @ text @ at_crlf"

definition terminalCommandInputIgnoredText :: string where
  "terminalCommandInputIgnoredText = notice ''Input ignored while an AI command is running. Cancel it from the MCP client.''"
definition fileTransferInputIgnoredText :: string where
  "fileTransferInputIgnoredText = notice ''Input ignored during file transfer. Ctrl+C to cancel.''"
definition fileTransferResumedText :: string where "fileTransferResumedText = notice ''File transfer resumed''"
definition fileTransferCancelConfirmationText :: string where
  "fileTransferCancelConfirmationText = at_crlf @ ''[ChannelTerm] Cancel file transfer? [y/N]: ''"
definition fileTransferMenuText :: string where
  "fileTransferMenuText = at_crlf @ ''File transfer:'' @ at_crlf @ ''  s  Send PC -> Board'' @ at_crlf @
     ''  r  Receive Board -> PC'' @ at_crlf @ ''  Esc  Cancel'' @ at_crlf @ ''Select: ''"
definition escapePendingText :: string where
  "escapePendingText = notice ''Escape: q quit | ? help | ] send Ctrl+] | f file transfer | t prompt time | Esc cancel''"
definition escapeCancelledText :: string where "escapeCancelledText = notice ''Escape cancelled''"
definition escapeHelpText :: string where
  "escapeHelpText = at_crlf @ ''ChannelTerm escape commands:'' @ at_crlf @ at_crlf @ ''  q    Quit session'' @ at_crlf @
     ''  ?    Show this help'' @ at_crlf @ ''  ]    Send Ctrl+] to remote'' @ at_crlf @ ''  f    Open file transfer (attach)'' @ at_crlf @
     ''  t    Toggle prompt timestamps'' @ at_crlf @ ''  Esc  Cancel escape mode'' @ at_crlf"
definition unknownEscapeText :: "attach_env \<Rightarrow> byte \<Rightarrow> string" where
  "unknownEscapeText env c = at_crlf @ ''Unknown escape command '' @ ae_quote env c @ ''. Use Ctrl+] ? for help.'' @ at_crlf"
definition writeFailureText :: "attach_env \<Rightarrow> goerr \<Rightarrow> string" where
  "writeFailureText env e = notice (''write failed: '' @ ae_error env e)"

section \<open>A transfer of another owner\<close>

definition prompt_finished :: "attach_env \<Rightarrow> attach \<Rightarrow> attach" where
  "prompt_finished env st = (if ae_presenter env then at_emit (AePrompt False) st else st)"

definition resolve_request :: "attach_env \<Rightarrow> string \<Rightarrow> bool \<Rightarrow> attach \<Rightarrow> (goerr + string) \<times> attach" where
  "resolve_request env request cancel st =
     (case ae_cancel env of None \<Rightarrow> (Inr [], st)
      | Some c \<Rightarrow> (cc_resolve c (at_clock st) request cancel, at_emit (AeResolve request cancel) st))"

definition abandonExternalTransferCancellation :: "attach_env \<Rightarrow> attach \<Rightarrow> attach" where
  "abandonExternalTransferCancellation env st =
     (let st1 = st\<lparr>at_timer := False\<rparr>
      in if at_request st1 = [] then st1
         else (prompt_finished env (snd (resolve_request env (at_request st1) False st1)))\<lparr>at_request := []\<rparr>)"

definition cancelAttach :: "attach_env \<Rightarrow> attach \<Rightarrow> attach" where
  "cancelAttach env st =
     (let st1 = abandonExternalTransferCancellation env st in if ae_stops env then at_emit AeStop st1 else st1)"

text \<open>The notice and the question; both must be written.\<close>

definition ask_external :: "attach_env \<Rightarrow> attach \<Rightarrow> bool \<times> attach" where
  "ask_external env st =
     (let (ok, st1) = write_local env (notice ''Confirmation limit: 30s; unanswered requests are withdrawn.'') st
      in if ok then write_local env fileTransferCancelConfirmationText st1 else (False, st1))"

definition beginExternalTransferCancellationConfirmation :: "attach_env \<Rightarrow> attach \<Rightarrow> bool \<times> attach" where
  "beginExternalTransferCancellationConfirmation env st =
     (case ae_cancel env of None \<Rightarrow> (False, st)
      | Some c \<Rightarrow>
          let deadline = ae_now env (at_clock st) + confirmationLimit in
          (case cc_begin c (at_clock st) of
             Inl e \<Rightarrow> (True, snd (write_local env (notice (''File transfer cancellation check failed: '' @ ae_error env e)) st))
           | Inr None \<Rightarrow> (False, st)
           | Inr (Some request) \<Rightarrow>
               let st1 = (at_emit (AeBegin request) st)\<lparr>at_request := request, at_deadline := deadline, at_timer := True,
                           at_mode := ModeFileTransferCancelConfirm\<rparr>;
                   st2 = st1\<lparr>at_until := ae_now env (at_clock st1) + controlCRecoveryWindow\<rparr>;
                   st3 = (if ae_presenter env then at_emit (AePrompt True) st2 else st2);
                   (ok, st4) = ask_external env st3
               in (True, if ok then st4 else cancelAttach env (abandonExternalTransferCancellation env st4))))"

text \<open>The status of a withdrawn request.\<close>

definition withdrawn_status :: "attach_env \<Rightarrow> goerr + string \<Rightarrow> string" where
  "withdrawn_status env r =
     (case r of
        Inl e \<Rightarrow> ''Transfer status is unconfirmed. '' @ ae_error env e
      | Inr state \<Rightarrow>
          if state = ''completed'' then ''File transfer already completed.''
          else if state = ''resumed'' then ''Pending request withdrawn; the transfer may continue.''
          else ''Transfer status is unconfirmed.'')"

definition expireExternalConfirmation :: "attach_env \<Rightarrow> attach \<Rightarrow> attach" where
  "expireExternalConfirmation env st =
     (let request = at_request st; st1 = st\<lparr>at_request := [], at_timer := False\<rparr>
      in if request = [] then st1
         else let (r, st2) = resolve_request env request False st1
              in snd (write_local env (notice (''Cancellation confirmation window ended. '' @ withdrawn_status env r @
                   '' Press any key to dismiss.'')) (prompt_finished env st2)))"

text \<open>What is shown for the answer of the other owner.\<close>

definition resolved_notice :: "attach_env \<Rightarrow> bool \<Rightarrow> goerr + string \<Rightarrow> attach \<Rightarrow> attach" where
  "resolved_notice env cancel r st =
     (if ae_local env = None then st
      else case r of
        Inl e \<Rightarrow> snd (write_local env (notice (''Cancellation answer could not be confirmed (the request may have expired or ended): '' @
                   ae_error env e)) (prompt_finished env st))
      | Inr state \<Rightarrow>
          if \<not> cancel \<and> state = ''resumed'' then prompt_finished env (snd (write_local env fileTransferResumedText st))
          else if state = ''completed'' then prompt_finished env (snd (write_local env (notice ''File transfer already completed.'') st))
          else st)"

definition resolveExternalTransferCancellationConfirmation :: "attach_env \<Rightarrow> bool \<Rightarrow> attach \<Rightarrow> attach" where
  "resolveExternalTransferCancellationConfirmation env cancel st =
     (if ae_cancel env = None \<or> at_request st = [] then st\<lparr>at_mode := ModeAttach\<rparr>
      else if \<not> ae_now env (at_clock st) < at_deadline st then expireExternalConfirmation env st
      else let st1 = st\<lparr>at_timer := False\<rparr>;
               st2 = (if cancel then snd (write_local env at_crlf st1) else st1);
               (r, st3) = resolve_request env (at_request st2) cancel st2;
               st4 = st3\<lparr>at_request := [], at_mode := ModeAttach, at_until := ae_now env (at_clock st3) + controlCRecoveryWindow\<rparr>
           in resolved_notice env cancel r st4)"

section \<open>A transfer of this attachment\<close>

definition cancellation_update :: "(file_cancel \<Rightarrow> file_cancel) \<Rightarrow> attach \<Rightarrow> attach" where
  "cancellation_update f st = st\<lparr>at_cancel := map_option f (at_cancel st)\<rparr>"

definition requestTransferCancellation :: "attach \<Rightarrow> attach" where
  "requestTransferCancellation st =
     (if at_mode st \<noteq> ModeFileTransfer \<and> at_mode st \<noteq> ModeFileTransferCancelConfirm then st
      else cancellation_update RequestCancellation st)"

definition beginTransferCancellationConfirmation :: "attach_env \<Rightarrow> attach \<Rightarrow> attach" where
  "beginTransferCancellationConfirmation env st =
     (case at_cancel st of None \<Rightarrow> st
      | Some c \<Rightarrow>
          (case BeginConfirmation c of
             (False, c1) \<Rightarrow> st
           | (True, c1) \<Rightarrow>
               let st1 = st\<lparr>at_cancel := Some c1, at_mode := ModeFileTransferCancelConfirm,
                           at_until := ae_now env (at_clock st) + controlCRecoveryWindow\<rparr>;
                   (ok, st2) = write_local env fileTransferCancelConfirmationText st1
               in if ok then st2 else cancelAttach env (requestTransferCancellation st2)))"

definition resolveTransferCancellationConfirmation :: "attach_env \<Rightarrow> bool \<Rightarrow> attach \<Rightarrow> attach" where
  "resolveTransferCancellationConfirmation env cancel st =
     (if at_mode st \<noteq> ModeFileTransferCancelConfirm then st
      else case at_cancel st of
        None \<Rightarrow> resolveExternalTransferCancellationConfirmation env cancel st
      | Some c \<Rightarrow>
          let st1 = st\<lparr>at_mode := ModeFileTransfer, at_until := zero_time, at_cancel := Some (ResolveConfirmation cancel c)\<rparr>
          in snd (write_local env (if cancel then at_crlf else fileTransferResumedText) st1))"

definition startTransfer :: "attach_env \<Rightarrow> string \<Rightarrow> string \<Rightarrow> string \<Rightarrow> attach \<Rightarrow> attach" where
  "startTransfer env direction firstPath secondPath st =
     (let st1 = st\<lparr>at_mode := ModeFileTransfer, at_until := zero_time, at_ignored := False, at_cancel := Some newFileTransferCancellation\<rparr>;
          (localPath, remotePath) = (if direction = ''receive'' then (secondPath, firstPath) else (firstPath, secondPath))
      in if ae_local env = None then cancelAttach env st1
         else let (ok, st2) = writeTransferStatus env (ae_prefix env (at_clock st1) @ ''File transfer started: '' @ localPath @ '' -> '' @
                    remotePath @ at_crlf @ ''[ChannelTerm] Terminal input locked. Ctrl+C to cancel.'' @ at_crlf) st1
              in if \<not> ok then cancelAttach env st2
                 else at_emit (AeStarted direction firstPath secondPath) (st2\<lparr>at_running := True\<rparr>))"

text \<open>The texts of an end.\<close>

definition fileTransferCancelledSummaryText :: "string \<Rightarrow> cancel_snapshot \<Rightarrow> string" where
  "fileTransferCancelledSummaryText prefix p =
     prefix @ ''File transfer cancelled'' @ at_crlf @ ''  Transferred: '' @ format_int (cs_transferred p) @ ''/'' @ format_int (cs_total p) @
     '' bytes ('' @ cs_percent p @ ''%)'' @ at_crlf @ ''  Reason     : cancelled by user'' @ at_crlf"

text \<open>\<open>localOutputWriter.Write\<close>: a line feed without a carriage return before it gets one.\<close>

fun local_newlines :: "bool \<Rightarrow> string \<Rightarrow> string" where
  "local_newlines cr [] = []"
| "local_newlines cr (v # vs) = (if v = CHR 0x0A \<and> \<not> cr then [CHR 0x0D] else []) @ v # local_newlines (v = CHR 0x0D) vs"

text \<open>\<open>finishTransfer\<close>, with the error of the worker and what the summary buffer holds.\<close>

definition finishTransfer :: "attach_env \<Rightarrow> goerr option \<Rightarrow> string \<Rightarrow> attach \<Rightarrow> attach" where
  "finishTransfer env err summary st =
     (let cancelled = (case at_cancel st of None \<Rightarrow> False | Some c \<Rightarrow> Cancelled c);
          confirmationPending = (at_mode st = ModeFileTransferCancelConfirm);
          progress = (case at_cancel st of None \<Rightarrow> xc_progress newFileTransferCancellation | Some c \<Rightarrow> xc_progress c);
          st1 = (at_emit AeFinished st)\<lparr>at_running := False, at_cancel := None, at_ignored := False, at_mode := ModeAttach\<rparr>;
          st2 = (if cancelled \<or> confirmationPending then st1\<lparr>at_until := ae_now env (at_clock st1) + controlCRecoveryWindow\<rparr> else st1);
          prefix = ae_prefix env (at_clock st2)
      in if ae_local env = None then st2
         else case err of
           None \<Rightarrow>
             (let (ok, st3) = writeTransferStatus env (prefix @ ''File transfer completed'' @ at_crlf) st2
              in if ok \<and> summary \<noteq> [] then snd (write_local env (local_newlines False summary) st3) else st3)
         | Some e \<Rightarrow>
             snd (writeTransferStatus env
               (if (cancelled \<or> err_is e CtxCanceled) \<and> \<not> err_is e CtxDeadlineExceeded \<and> \<not> err_is e ErrFileTransferRecoveryUnconfirmed
                then fileTransferCancelledSummaryText prefix progress
                else prefix @ ''File transfer failed: '' @ ae_error env e @ at_crlf) st2))"

definition cancelFileShortcut :: "attach_env \<Rightarrow> attach \<Rightarrow> attach" where
  "cancelFileShortcut env st =
     (let st1 = st\<lparr>at_mode := ModeAttach, at_line := []\<rparr>
      in if ae_local env = None then st1
         else snd (writeTransferStatus env (ae_prefix env (at_clock st1) @ ''File transfer cancelled'' @ at_crlf) st1))"

section \<open>Menu and paths\<close>

definition enterFileMenu :: "attach_env \<Rightarrow> attach \<Rightarrow> bool \<times> attach" where
  "enterFileMenu env st = write_local env fileTransferMenuText (st\<lparr>at_mode := ModeFileMenu\<rparr>)"

text \<open>The choice of a direction asks for its first path.\<close>

definition choose_direction :: "attach_env \<Rightarrow> byte \<Rightarrow> attach_mode \<Rightarrow> string \<Rightarrow> attach \<Rightarrow> attach" where
  "choose_direction env v mode question st =
     (let (ok, st1) = write_local env [v] st
      in if \<not> ok then cancelAttach env st1
         else let (ok2, st2) = write_local env (at_crlf @ question) (st1\<lparr>at_mode := mode, at_line := []\<rparr>)
              in if ok2 then st2 else cancelAttach env st2)"

definition dispatchFileMenuByte :: "attach_env \<Rightarrow> byte \<Rightarrow> attach \<Rightarrow> attach" where
  "dispatchFileMenuByte env v st =
     (if v = CHR 0x1B then cancelFileShortcut env st
      else if v = CHR ''s'' \<or> v = CHR ''S'' then choose_direction env v ModeSendLocalPath ''Local path: '' st
      else if v = CHR ''r'' \<or> v = CHR ''R'' then choose_direction env v ModeReceiveRemotePath ''Remote path: '' st
      else st)"

definition userRemoteFileDirectory :: string where "userRemoteFileDirectory = ''/tmp/cterm/user-files''"

definition defaultRemoteTransferPath :: "string \<Rightarrow> string" where
  "defaultRemoteTransferPath localPath = path_Join [userRemoteFileDirectory, path_Base localPath]"

definition defaultLocalTransferPath :: "string \<Rightarrow> string" where
  "defaultLocalTransferPath remotePath = ''./'' @ path_Base remotePath"

text \<open>\<open>if d.writeLocal == nil || d.writeLocal(question) != nil { d.cancelAttach() }\<close>.\<close>

definition ask_path :: "attach_env \<Rightarrow> string \<Rightarrow> attach \<Rightarrow> attach" where
  "ask_path env question st = (let (ok, st1) = write_local env question st in if ok then st1 else cancelAttach env st1)"

definition finishPathLine :: "attach_env \<Rightarrow> attach \<Rightarrow> attach" where
  "finishPathLine env st0 =
     (let value = at_line st0; st = st0\<lparr>at_line := []\<rparr>; empty = (trim_space value = [])
      in case at_mode st of
           ModeSendLocalPath \<Rightarrow>
             if empty then cancelFileShortcut env st
             else ask_path env (''Remote path ['' @ defaultRemoteTransferPath value @ '']: '')
                    (st\<lparr>at_localPath := value, at_mode := ModeSendRemotePath\<rparr>)
         | ModeSendRemotePath \<Rightarrow>
             startTransfer env ''send'' (at_localPath st) (if empty then defaultRemoteTransferPath (at_localPath st) else value) st
         | ModeReceiveRemotePath \<Rightarrow>
             if empty then cancelFileShortcut env st
             else ask_path env (''Local path ['' @ defaultLocalTransferPath value @ '']: '')
                    (st\<lparr>at_remotePath := value, at_mode := ModeReceiveLocalPath\<rparr>)
         | ModeReceiveLocalPath \<Rightarrow>
             startTransfer env ''receive'' (at_remotePath st) (if empty then defaultLocalTransferPath (at_remotePath st) else value) st
         | _ \<Rightarrow> st)"

definition path_byte :: "attach_env \<Rightarrow> byte \<Rightarrow> attach \<Rightarrow> bool \<times> attach" where
  "path_byte env v st =
     (if v = CHR 0x1B then (True, cancelFileShortcut env st)
      else if v = CHR 0x0D \<or> v = CHR 0x0A then
        (let (ok, st1) = write_local env at_crlf (st\<lparr>at_skip := (v = CHR 0x0D)\<rparr>)
         in if ok then (True, finishPathLine env st1) else (False, st1))
      else if v = CHR 0x7F \<or> v = CHR 0x08 then
        (if at_line st = [] then (True, st)
         else write_local env [CHR 0x08, CHR 0x20, CHR 0x08] (st\<lparr>at_line := butlast (at_line st)\<rparr>))
      else write_local env [v] (st\<lparr>at_line := at_line st @ [v]\<rparr>))"

definition dispatchPathByte :: "attach_env \<Rightarrow> byte \<Rightarrow> attach \<Rightarrow> bool \<times> attach" where
  "dispatchPathByte env v st =
     (if at_skip st \<and> v = CHR 0x0A then (True, st\<lparr>at_skip := False\<rparr>) else path_byte env v (st\<lparr>at_skip := False\<rparr>))"

section \<open>Ignored input\<close>

definition terminalCommandInputActive :: "attach_env \<Rightarrow> attach \<Rightarrow> bool" where
  "terminalCommandInputActive env st = (case ae_command env of None \<Rightarrow> False | Some active \<Rightarrow> active (at_clock st))"

definition ignoreTerminalCommandInput :: "attach_env \<Rightarrow> attach \<Rightarrow> bool \<times> attach" where
  "ignoreTerminalCommandInput env st =
     (if at_cmdIgnored st then (True, st) else write_local env terminalCommandInputIgnoredText (st\<lparr>at_cmdIgnored := True\<rparr>))"

definition ignoreTransferInput :: "attach_env \<Rightarrow> attach \<Rightarrow> bool \<times> attach" where
  "ignoreTransferInput env st =
     (if at_ignored st then (True, st) else write_local env fileTransferInputIgnoredText (st\<lparr>at_ignored := True\<rparr>))"

section \<open>Dispatching\<close>

text \<open>\<open>flushRemote\<close>: nothing is written for no bytes, and a failed write is reported.\<close>

definition flush_remote :: "attach_env \<Rightarrow> string \<Rightarrow> attach \<Rightarrow> bool \<times> attach" where
  "flush_remote env remote st =
     (if remote = [] then (True, st)
      else case ae_remote env (at_clock st) remote of
        None \<Rightarrow> (True, at_emit (AeRemote remote) st)
      | Some e \<Rightarrow> write_local env (writeFailureText env e) (at_emit (AeRemote remote) st))"

text \<open>What stays in the buffer: the bytes of a failed write, which the next flush sends again.\<close>

definition unsent :: "attach_env \<Rightarrow> string \<Rightarrow> attach \<Rightarrow> string" where
  "unsent env remote st = (if remote = [] \<or> ae_remote env (at_clock st) remote = None then [] else remote)"

text \<open>A local action: the bytes before it are flushed, then it is performed; any failure ends the attachment.\<close>

definition local_action :: "attach_env \<Rightarrow> string \<Rightarrow> (attach \<Rightarrow> bool \<times> attach) \<Rightarrow> attach \<Rightarrow> bool \<times> attach" where
  "local_action env remote act st =
     (let (ok, st1) = flush_remote env remote st; (ok2, st2) = (if ok then act st1 else (False, st1))
      in if ok2 then (True, st2) else (False, cancelAttach env st2))"

definition toggle_timestamp :: "attach_env \<Rightarrow> attach \<Rightarrow> bool \<times> attach" where
  "toggle_timestamp env st =
     (case ae_toggle env of None \<Rightarrow> (False, st) | Some toggle \<Rightarrow> (toggle (at_clock st) = None, at_emit AeToggle st))"

text \<open>\<open>handleControlC\<close> up to the byte itself: \<open>None\<close> when it is to be dispatched.\<close>

definition control_c :: "attach_env \<Rightarrow> attach \<Rightarrow> bool option \<times> attach" where
  "control_c env st =
     (if terminalCommandInputActive env st then (case ignoreTerminalCommandInput env st of (ok, st1) \<Rightarrow> (Some ok, st1))
      else if at_mode st \<noteq> ModeFileTransfer \<and> ae_now env (at_clock st) < at_until st then (Some True, st)
      else case at_mode st of
        ModeAttach \<Rightarrow>
          (case beginExternalTransferCancellationConfirmation env st of
             (True, st1) \<Rightarrow> (Some True, st1) | (False, st1) \<Rightarrow> (None, st1))
      | ModeFileTransfer \<Rightarrow> (Some True, beginTransferCancellationConfirmation env st)
      | _ \<Rightarrow> (Some True, st))"

text \<open>The answer to the question: one byte, echoed when it is printable.\<close>

definition confirm_byte :: "attach_env \<Rightarrow> byte \<Rightarrow> attach \<Rightarrow> attach" where
  "confirm_byte env v st =
     (let st1 = (if of_char v \<ge> (0x20 :: nat) \<and> v \<noteq> CHR 0x7F then snd (write_local env [v] st) else st)
      in resolveTransferCancellationConfirmation env (v = CHR ''y'' \<or> v = CHR ''Y'') st1)"

text \<open>The reasons for which a whole read is dropped.\<close>

definition input_dropped :: "attach_env \<Rightarrow> string \<Rightarrow> attach \<Rightarrow> bool" where
  "input_dropped env data st \<longleftrightarrow>
     ae_now env (at_clock st) < at_until st \<and>
     (at_mode st = ModeAttach \<or>
      at_mode st = ModeFileTransferCancelConfirm \<and> data \<noteq> [] \<and> (hd data = CHR ''c'' \<or> hd data = CHR ''C''))"

function (sequential) dispatch :: "attach_env \<Rightarrow> string \<Rightarrow> attach \<Rightarrow> bool \<times> attach"
  and dispatch_loop :: "attach_env \<Rightarrow> string \<Rightarrow> attach \<Rightarrow> bool \<times> attach"
  and dispatchAttach :: "attach_env \<Rightarrow> string \<Rightarrow> string \<Rightarrow> attach \<Rightarrow> bool \<times> attach" where
  "dispatch env data st =
     (if input_dropped env data st then (True, st)
      else if terminalCommandInputActive env st then ignoreTerminalCommandInput env st
      else dispatch_loop env data (st\<lparr>at_cmdIgnored := False\<rparr>))"
| "dispatch_loop env [] st = (True, st)"
| "dispatch_loop env (v # vs) st =
     (if v = CHR 0x03 then
        (case control_c env st of
           (Some True, st1) \<Rightarrow> dispatch_loop env vs st1
         | (Some False, st1) \<Rightarrow> (False, st1)
         | (None, st1) \<Rightarrow>
             (case dispatchAttach env [] [CHR 0x03] st1 of
                (True, st2) \<Rightarrow> dispatch_loop env vs st2 | (False, st2) \<Rightarrow> (False, st2)))
      else if at_mode st = ModeAttach then dispatchAttach env [] (v # vs) st
      else if at_mode st = ModeFileTransferCancelConfirm then (True, confirm_byte env v st)
      else case (if at_mode st = ModeFileMenu then (True, dispatchFileMenuByte env v st)
                 else if at_mode st = ModeFileTransfer then ignoreTransferInput env st
                 else dispatchPathByte env v st) of
        (True, st1) \<Rightarrow> dispatch_loop env vs st1 | (False, st1) \<Rightarrow> (False, st1))"
| "dispatchAttach env remote [] st = flush_remote env remote st"
| "dispatchAttach env remote (v # vs) st =
     (case controller_Process (at_controller st) [v] of
        (actions, c1) \<Rightarrow>
          let st1 = st\<lparr>at_controller := c1\<rparr>;
              local = (\<lambda>act. case local_action env remote act st1 of
                         (True, st2) \<Rightarrow> dispatchAttach env (unsent env remote st1) vs st2 | (False, st2) \<Rightarrow> (False, st2))
          in case actions of
               [ActionRemote d] \<Rightarrow> dispatchAttach env (remote @ d) vs st1
             | [ActionEscapePending] \<Rightarrow> local (write_local env escapePendingText)
             | [ActionCancelEscape] \<Rightarrow> local (write_local env escapeCancelledText)
             | [ActionHelp] \<Rightarrow> local (write_local env escapeHelpText)
             | [ActionTogglePromptTimestamp] \<Rightarrow> local (toggle_timestamp env)
             | [ActionUnknownEscape u] \<Rightarrow> local (write_local env (unknownEscapeText env u))
             | [ActionQuit] \<Rightarrow>
                 (let (ok, st2) = flush_remote env remote st1; st3 = (if ok then st2 else cancelAttach env st2)
                  in (False, cancelAttach env st3))
             | [ActionFileTransfer] \<Rightarrow>
                 (let (ok, st2) = flush_remote env remote st1
                  in if \<not> ok then (False, st2)
                     else let (ok2, st3) = enterFileMenu env st2 in if ok2 then dispatch env vs st3 else (False, st3))
             | _ \<Rightarrow> dispatchAttach env remote vs st1)"
  by pat_completeness auto
termination
  by (relation "measure (case_sum (\<lambda>(env, data, st). 3 * length data + 2)
       (case_sum (\<lambda>(env, data, st). 3 * length data + 1) (\<lambda>(env, remote, data, st). 3 * length data)))") auto

declare dispatch.simps [simp del] dispatch_loop.simps [simp del] dispatchAttach.simps [simp del]

definition handleControlC :: "attach_env \<Rightarrow> attach \<Rightarrow> bool \<times> attach" where
  "handleControlC env st =
     (case control_c env st of (Some ok, st1) \<Rightarrow> (ok, st1) | (None, st1) \<Rightarrow> dispatchAttach env [] [CHR 0x03] st1)"

datatype interrupt = NoInterrupt | OsInterrupt | OtherSignal

definition dispatchInterrupt :: "attach_env \<Rightarrow> interrupt \<Rightarrow> attach \<Rightarrow> bool \<times> attach" where
  "dispatchInterrupt env i st =
     (case i of
        NoInterrupt \<Rightarrow> (True, st)
      | OtherSignal \<Rightarrow> (False, cancelAttach env st)
      | OsInterrupt \<Rightarrow> handleControlC env st)"

section \<open>The loop\<close>

text \<open>
  What \<open>run\<close> receives. The events that end it carry the end of a worker that is still running: its
  error, and what the summary buffer holds.
\<close>

datatype attach_input =
    InData string
  | InInterrupt interrupt
  | InProgress cancel_snapshot          \<comment> \<open>the worker reports to the latch\<close>
  | InTransferDone "goerr option" string
  | InTimeout
  | InClosed "goerr option" string      \<comment> \<open>the pump has ended\<close>
  | InCtxDone "goerr option" string

text \<open>The end of the loop: a running worker is cancelled and awaited, then the deferred call.\<close>

definition end_run :: "attach_env \<Rightarrow> goerr option \<Rightarrow> string \<Rightarrow> attach \<Rightarrow> attach" where
  "end_run env err summary st =
     abandonExternalTransferCancellation env
       (if at_running st then finishTransfer env err summary (requestTransferCancellation st) else st)"

text \<open>
  One turn: whether the loop goes on, and the state. An event the select does not wait for in this
  state leaves it unchanged.
\<close>

definition attach_turn :: "attach_env \<Rightarrow> attach_input \<Rightarrow> attach \<Rightarrow> bool \<times> attach" where
  "attach_turn env input st =
     (let continue = (\<lambda>(ok, st1). if ok then (True, st1) else (False, abandonExternalTransferCancellation env st1))
      in case input of
           InData d \<Rightarrow> continue (dispatch env d st)
         | InInterrupt i \<Rightarrow> continue (dispatchInterrupt env i st)
         | InProgress p \<Rightarrow> (True, if at_running st then cancellation_update (ObserveProgress p) st else st)
         | InTransferDone err summary \<Rightarrow> (True, if at_running st then finishTransfer env err summary st else st)
         | InTimeout \<Rightarrow> (True, if \<not> at_running st \<and> at_timer st then expireExternalConfirmation env st else st)
         | InClosed err summary \<Rightarrow> (False, end_run env err summary st)
         | InCtxDone err summary \<Rightarrow> (False, end_run env err summary st))"

fun attach_run :: "attach_env \<Rightarrow> attach_input list \<Rightarrow> attach \<Rightarrow> bool \<times> attach" where
  "attach_run env [] st = (True, st)"
| "attach_run env (input # inputs) st =
     (case attach_turn env input st of (True, st1) \<Rightarrow> attach_run env inputs st1 | (False, st1) \<Rightarrow> (False, st1))"

end
