(* ===== verification/Attach_Safety.thy ===== *)
theory Attach_Safety
  imports Attach_Input
begin

text \<open>
  What the input dispatcher guarantees over every sequence of inputs: nothing is sent to
  the remote side while a transfer of the attachment runs or a question about a transfer
  of another owner is open, and every such question is settled exactly once.
\<close>

section \<open>Allowed effects\<close>

fun open_step :: "bool \<Rightarrow> attach_event \<Rightarrow> bool" where
  "open_step b (AeStarted direction p q) = True"
| "open_step b AeFinished = False"
| "open_step b e = b"

fun pending_step :: "string list \<Rightarrow> attach_event \<Rightarrow> string list" where
  "pending_step ps (AeBegin r) = ps @ [r]"
| "pending_step ps (AeResolve r b) = remove1 r ps"
| "pending_step ps e = ps"

text \<open>Whether a transfer runs behind a trace, and the requests that are not answered in it.\<close>

definition open_of :: "attach_event list \<Rightarrow> bool" where "open_of tr = foldl open_step False tr"
definition pending_of :: "attach_event list \<Rightarrow> string list" where "pending_of tr = foldl pending_step [] tr"

fun effect_allowed :: "attach_event list \<Rightarrow> attach_event \<Rightarrow> bool" where
  "effect_allowed before (AeRemote d) = (\<not> open_of before \<and> pending_of before = [])"
| "effect_allowed before (AeStarted direction p q) = (\<not> open_of before \<and> pending_of before = [])"
| "effect_allowed before AeFinished = open_of before"
| "effect_allowed before (AeBegin r) = (\<not> open_of before \<and> pending_of before = [])"
| "effect_allowed before (AeResolve r b) = (pending_of before = [r])"
| "effect_allowed before e = True"

definition effects_ok :: "attach_event list \<Rightarrow> bool" where
  "effects_ok tr \<longleftrightarrow> (\<forall>i < length tr. effect_allowed (take i tr) (tr ! i))"

lemma trace_snoc [simp]:
  "open_of (tr @ [e]) = open_step (open_of tr) e" "pending_of (tr @ [e]) = pending_step (pending_of tr) e"
  "effects_ok (tr @ [e]) \<longleftrightarrow> effects_ok tr \<and> effect_allowed tr e"
  by (simp_all add: open_of_def pending_of_def) (auto simp: effects_ok_def less_Suc_eq nth_append)

lemma trace_Nil [simp]: "open_of [] = False" "pending_of [] = []" "effects_ok []"
  by (simp_all add: open_of_def pending_of_def effects_ok_def)

text \<open>The fields an effect leaves alone.\<close>

lemma emit_sel [simp]:
  "at_trace (at_emit e st) = at_trace st @ [e]" "at_mode (at_emit e st) = at_mode st" "at_running (at_emit e st) = at_running st"
  "at_cancel (at_emit e st) = at_cancel st" "at_request (at_emit e st) = at_request st" "at_line (at_emit e st) = at_line st"
  "at_until (at_emit e st) = at_until st"
  by (simp_all add: at_emit_def)

lemma write_local_sel [simp]:
  "open_of (at_trace (snd (write_local env d st))) = open_of (at_trace st)"
  "pending_of (at_trace (snd (write_local env d st))) = pending_of (at_trace st)"
  "effects_ok (at_trace (snd (write_local env d st))) = effects_ok (at_trace st)"
  "at_mode (snd (write_local env d st)) = at_mode st" "at_running (snd (write_local env d st)) = at_running st"
  "at_cancel (snd (write_local env d st)) = at_cancel st" "at_request (snd (write_local env d st)) = at_request st"
  by (simp_all add: write_local_def split: option.splits)

lemma status_sel [simp]:
  "open_of (at_trace (snd (writeTransferStatus env d st))) = open_of (at_trace st)"
  "pending_of (at_trace (snd (writeTransferStatus env d st))) = pending_of (at_trace st)"
  "effects_ok (at_trace (snd (writeTransferStatus env d st))) = effects_ok (at_trace st)"
  "at_mode (snd (writeTransferStatus env d st)) = at_mode st" "at_running (snd (writeTransferStatus env d st)) = at_running st"
  "at_cancel (snd (writeTransferStatus env d st)) = at_cancel st" "at_request (snd (writeTransferStatus env d st)) = at_request st"
  by (simp_all add: writeTransferStatus_def split: option.splits)

lemma prompt_sel [simp]:
  "open_of (at_trace (prompt_finished env st)) = open_of (at_trace st)"
  "pending_of (at_trace (prompt_finished env st)) = pending_of (at_trace st)"
  "effects_ok (at_trace (prompt_finished env st)) = effects_ok (at_trace st)"
  "at_mode (prompt_finished env st) = at_mode st" "at_running (prompt_finished env st) = at_running st"
  "at_cancel (prompt_finished env st) = at_cancel st" "at_request (prompt_finished env st) = at_request st"
  by (simp_all add: prompt_finished_def)

section \<open>The invariant\<close>

text \<open>The latch agrees with the mode: confirming in the question's mode alone, unless it is cancelled for good.\<close>

definition latch_fits :: "attach_mode \<Rightarrow> file_cancel option \<Rightarrow> bool" where
  "latch_fits m latch \<longleftrightarrow> (case latch of None \<Rightarrow> True
     | Some c \<Rightarrow> (m = ModeFileTransfer \<longrightarrow> xc_state c \<noteq> CancelConfirming) \<and> (m = ModeFileTransferCancelConfirm \<longrightarrow> xc_state c \<noteq> CancelRunning))"

lemma latch_fits_simps [simp]:
  "latch_fits m None" "m \<noteq> ModeFileTransfer \<Longrightarrow> m \<noteq> ModeFileTransferCancelConfirm \<Longrightarrow> latch_fits m latch"
  "latch_fits ModeFileTransfer (Some newFileTransferCancellation)"
  "latch_fits m (Some (RequestCancellation c))"
  "latch_fits m (map_option RequestCancellation latch)"
  "latch_fits m (Some (ObserveProgress p c)) = latch_fits m (Some c)"
  "latch_fits m (map_option (ObserveProgress p) latch) = latch_fits m latch"
  "latch_fits ModeFileTransferCancelConfirm (Some c) \<Longrightarrow> latch_fits ModeFileTransfer (Some (ResolveConfirmation b c))"
  "latch_fits ModeFileTransferCancelConfirm (Some (c\<lparr>xc_state := CancelConfirming\<rparr>))"
  by (auto simp: latch_fits_def newFileTransferCancellation_def RequestCancellation_def ObserveProgress_def ResolveConfirmation_def
      split: option.splits)

definition attach_ok :: "attach \<Rightarrow> bool" where
  "attach_ok st \<longleftrightarrow>
     effects_ok (at_trace st) \<and> open_of (at_trace st) = at_running st \<and>
     pending_of (at_trace st) = (if at_request st = [] then [] else [at_request st]) \<and>
     (at_running st \<longrightarrow> at_cancel st \<noteq> None) \<and>
     (at_mode st = ModeFileTransfer \<longrightarrow> at_cancel st \<noteq> None) \<and>
     (at_mode st \<noteq> ModeFileTransfer \<and> at_mode st \<noteq> ModeFileTransferCancelConfirm \<longrightarrow> at_cancel st = None) \<and>
     (at_request st \<noteq> [] \<longrightarrow> at_mode st = ModeFileTransferCancelConfirm \<and> at_cancel st = None) \<and>
     latch_fits (at_mode st) (at_cancel st)"

text \<open>Requests of the Host have a name, and only a terminal with control calls has any.\<close>

definition named_requests :: "attach_env \<Rightarrow> bool" where
  "named_requests env \<longleftrightarrow> (\<forall>c t r. ae_cancel env = Some c \<longrightarrow> cc_begin c t = Inr (Some r) \<longrightarrow> r \<noteq> [])"

definition controlled :: "attach_env \<Rightarrow> attach \<Rightarrow> bool" where
  "controlled env st \<longleftrightarrow> attach_ok st \<and> (at_request st \<noteq> [] \<longrightarrow> ae_cancel env \<noteq> None)"

lemma new_controlled: "controlled env newAttachInputDispatcher"
  by (simp add: controlled_def attach_ok_def newAttachInputDispatcher_def)

lemma write_local_ok [simp]: "controlled env (snd (write_local env d st)) = controlled env st"
  by (simp add: controlled_def attach_ok_def)

lemma status_ok [simp]: "controlled env (snd (writeTransferStatus env d st)) = controlled env st"
  by (simp add: controlled_def attach_ok_def)

lemma prompt_ok [simp]: "controlled env (prompt_finished env st) = controlled env st"
  by (simp add: controlled_def attach_ok_def)

lemma silent_update [simp]:
  "controlled env (st\<lparr>at_timer := b\<rparr>) = controlled env st" "controlled env (st\<lparr>at_until := t\<rparr>) = controlled env st"
  "controlled env (st\<lparr>at_line := l\<rparr>) = controlled env st" "controlled env (st\<lparr>at_skip := s\<rparr>) = controlled env st"
  "controlled env (st\<lparr>at_ignored := b\<rparr>) = controlled env st" "controlled env (st\<lparr>at_cmdIgnored := b\<rparr>) = controlled env st"
  "controlled env (st\<lparr>at_controller := c\<rparr>) = controlled env st" "controlled env (st\<lparr>at_localPath := p\<rparr>) = controlled env st"
  "controlled env (st\<lparr>at_remotePath := p\<rparr>) = controlled env st"
  by (simp_all add: controlled_def attach_ok_def)

lemma abandon_sel [simp]:
  "at_mode (abandonExternalTransferCancellation env st) = at_mode st"
  "at_running (abandonExternalTransferCancellation env st) = at_running st"
  "at_cancel (abandonExternalTransferCancellation env st) = at_cancel st"
  "at_request (abandonExternalTransferCancellation env st) = []"
  by (simp_all add: abandonExternalTransferCancellation_def Let_def resolve_request_def split: option.splits)

lemma abandon_ok: "controlled env st \<Longrightarrow> controlled env (abandonExternalTransferCancellation env st)"
  by (auto simp: abandonExternalTransferCancellation_def Let_def resolve_request_def controlled_def attach_ok_def split: option.splits)

lemma cancelAttach_sel [simp]:
  "at_mode (cancelAttach env st) = at_mode st" "at_running (cancelAttach env st) = at_running st"
  "at_cancel (cancelAttach env st) = at_cancel st" "at_request (cancelAttach env st) = []"
  by (simp_all add: cancelAttach_def Let_def)

lemma cancelAttach_ok: "controlled env st \<Longrightarrow> controlled env (cancelAttach env st)"
  using abandon_ok [of env st] by (simp add: cancelAttach_def Let_def) (simp add: controlled_def attach_ok_def)

lemma expire_ok: "controlled env st \<Longrightarrow> controlled env (expireExternalConfirmation env st)"
  by (auto simp: expireExternalConfirmation_def Let_def resolve_request_def split_def split: option.splits)
    (auto simp: controlled_def attach_ok_def)

lemma resolved_notice_ok [simp]: "controlled env (resolved_notice env cancel r st) = controlled env st"
  by (simp add: resolved_notice_def split: sum.splits)

lemma resolveExternal_ok:
  assumes "controlled env st" "at_mode st = ModeFileTransferCancelConfirm" "at_cancel st = None"
  shows "controlled env (resolveExternalTransferCancellationConfirmation env cancel st)"
proof (cases "ae_cancel env")
  case None
  then show ?thesis using assms by (simp add: resolveExternalTransferCancellationConfirmation_def) (auto simp: controlled_def attach_ok_def)
next
  case (Some c)
  then show ?thesis using assms expire_ok [OF assms(1)]
    by (auto simp: resolveExternalTransferCancellationConfirmation_def Let_def resolve_request_def split_def)
      (auto simp: controlled_def attach_ok_def)
qed

lemma beginExternal_ok:
  assumes "controlled env st" "named_requests env" "at_mode st = ModeAttach"
    and "beginExternalTransferCancellationConfirmation env st = (b, st')"
  shows "controlled env st' \<and> (\<not> b \<longrightarrow> st' = st)"
proof (cases "ae_cancel env")
  case (Some c)
  have none: "at_cancel st = None" "at_request st = []" "\<not> at_running st"
    using assms(1,3) by (auto simp: controlled_def attach_ok_def)
  show ?thesis
  proof (cases "\<exists>r. cc_begin c (at_clock st) = Inr (Some r)")
    case True
    then obtain r where r: "cc_begin c (at_clock st) = Inr (Some r)" by blast
    then have "r \<noteq> []" using assms(2) Some unfolding named_requests_def by blast
    let ?m = "\<lambda>u d. (at_emit (AeBegin r) st)\<lparr>at_request := r, at_deadline := d, at_timer := True, at_mode := ModeFileTransferCancelConfirm, at_until := u\<rparr>"
    have m: "controlled env (?m u d)" for u d
      using assms(1) none \<open>r \<noteq> []\<close> Some by (auto simp: controlled_def attach_ok_def)
    have prompt: "controlled env (at_emit (AePrompt True) s) = controlled env s" for s
      by (simp add: controlled_def attach_ok_def)
    have m2: "controlled env (if ae_presenter env then at_emit (AePrompt True) (?m u d) else ?m u d)" for u d
      using m [of u d] by (simp add: prompt)
    have ask: "controlled env (snd (ask_external env s)) = controlled env s" for s
      by (simp add: ask_external_def Let_def split_def)
    show ?thesis using assms(4) Some r m2 ask abandon_ok cancelAttach_ok
      by (auto simp: beginExternalTransferCancellationConfirmation_def Let_def split_def)
  next
    case False
    then show ?thesis using assms(1,4) Some
      by (auto simp: beginExternalTransferCancellationConfirmation_def Let_def split: sum.splits option.splits)
  qed
qed (use assms in \<open>simp add: beginExternalTransferCancellationConfirmation_def\<close>)

lemma request_ok: "controlled env st \<Longrightarrow> controlled env (requestTransferCancellation st)"
  by (auto simp: requestTransferCancellation_def cancellation_update_def controlled_def attach_ok_def)

lemma beginTransfer_ok: "controlled env st \<Longrightarrow> controlled env (beginTransferCancellationConfirmation env st)"
proof (cases "at_cancel st")
  case (Some c)
  assume ok: "controlled env st"
  let ?m = "\<lambda>c' u. st\<lparr>at_cancel := Some c', at_mode := ModeFileTransferCancelConfirm, at_until := u\<rparr>"
  let ?c = "c\<lparr>xc_state := CancelConfirming\<rparr>"
  have m: "controlled env (st\<lparr>at_cancel := Some ?c, at_mode := ModeFileTransferCancelConfirm\<rparr>)"
    using ok Some by (auto simp: controlled_def attach_ok_def)
  have "controlled env (cancelAttach env (requestTransferCancellation (snd (write_local env d (?m ?c u)))))" for d u
    by (intro cancelAttach_ok request_ok) (simp add: m)
  then show ?thesis using ok Some m by (auto simp: beginTransferCancellationConfirmation_def BeginConfirmation_def Let_def split_def)
qed (simp add: beginTransferCancellationConfirmation_def)

lemma resolve_ok: "controlled env st \<Longrightarrow> controlled env (resolveTransferCancellationConfirmation env cancel st)"
  using resolveExternal_ok
  by (auto simp: resolveTransferCancellationConfirmation_def Let_def split: option.splits)
    (auto simp: controlled_def attach_ok_def)

lemma startTransfer_ok:
  assumes "controlled env st" "path_mode (at_mode st)"
  shows "controlled env (startTransfer env direction p q st)"
proof -
  have none: "at_cancel st = None" "at_request st = []" "\<not> at_running st" "\<not> open_of (at_trace st)" "pending_of (at_trace st) = []"
    using assms by (auto simp: controlled_def attach_ok_def path_mode_def)
  let ?m = "st\<lparr>at_mode := ModeFileTransfer, at_until := zero_time, at_ignored := False, at_cancel := Some newFileTransferCancellation\<rparr>"
  have m: "controlled env ?m" using assms(1) none by (auto simp: controlled_def attach_ok_def)
  have s: "controlled env (at_emit (AeStarted direction p q) ((snd (writeTransferStatus env d ?m))\<lparr>at_running := True\<rparr>))" for d
    using m none by (auto simp: controlled_def attach_ok_def)
  show ?thesis using m s cancelAttach_ok by (auto simp: startTransfer_def Let_def split_def)
qed

lemma finishTransfer_ok:
  assumes "controlled env st" "at_running st"
  shows "controlled env (finishTransfer env err summary st) \<and> \<not> at_running (finishTransfer env err summary st)"
proof -
  have none: "at_request st = []" using assms by (auto simp: controlled_def attach_ok_def)
  let ?m = "(at_emit AeFinished st)\<lparr>at_running := False, at_cancel := None, at_ignored := False, at_mode := ModeAttach\<rparr>"
  have "controlled env ?m" using assms none by (auto simp: controlled_def attach_ok_def)
  then show ?thesis by (auto simp: finishTransfer_def Let_def split_def split: option.splits)
qed

lemma local_mode_ok:
  assumes "controlled env st" "at_mode st \<noteq> ModeFileTransfer" "at_mode st \<noteq> ModeFileTransferCancelConfirm"
    and "m \<noteq> ModeFileTransfer" "m \<noteq> ModeFileTransferCancelConfirm"
  shows "controlled env (st\<lparr>at_mode := m\<rparr>)"
  using assms by (auto simp: controlled_def attach_ok_def)

lemma cancelShortcut_ok:
  assumes "controlled env st" "at_mode st \<noteq> ModeFileTransfer" "at_mode st \<noteq> ModeFileTransferCancelConfirm"
  shows "controlled env (cancelFileShortcut env st)"
  using local_mode_ok [OF assms, of ModeAttach] by (simp add: cancelFileShortcut_def Let_def)

lemma menu_ok:
  assumes "controlled env st" "at_mode st = ModeFileMenu"
  shows "controlled env (dispatchFileMenuByte env v st)"
proof -
  have "controlled env (choose_direction env v m q st)" if "path_mode m" for m q
    using local_mode_ok [of env "snd (write_local env [v] st)" m] that assms cancelAttach_ok
    by (auto simp: choose_direction_def Let_def split_def path_mode_def)
  then show ?thesis using assms cancelShortcut_ok by (simp add: dispatchFileMenuByte_def path_mode_def)
qed

lemma finishPath_ok:
  assumes "controlled env st" "path_mode (at_mode st)"
  shows "controlled env (finishPathLine env st)"
proof -
  have s: "controlled env (st\<lparr>at_line := []\<rparr>)" "path_mode (at_mode (st\<lparr>at_line := []\<rparr>))" using assms by simp_all
  have ask: "controlled env (ask_path env q (st\<lparr>at_line := [], at_localPath := p, at_mode := m\<rparr>))"
    "controlled env (ask_path env q (st\<lparr>at_line := [], at_remotePath := p, at_mode := m\<rparr>))" if "path_mode m" for q p m
    using local_mode_ok [of env "st\<lparr>at_line := [], at_localPath := p\<rparr>" m] local_mode_ok [of env "st\<lparr>at_line := [], at_remotePath := p\<rparr>" m]
      assms that cancelAttach_ok by (auto simp: ask_path_def Let_def split_def path_mode_def)
  note c = cancelShortcut_ok [OF s(1)] startTransfer_ok [OF s]
  show ?thesis using c ask assms(2) by (auto simp: finishPathLine_def Let_def path_mode_def)
qed

lemma pathByte_ok:
  assumes "controlled env st" "path_mode (at_mode st)"
  shows "controlled env (snd (dispatchPathByte env v st))"
proof -
  have p: "controlled env (snd (path_byte env v s))" if s: "controlled env s" "path_mode (at_mode s)" for s
    using s cancelShortcut_ok [OF s(1)] finishPath_ok
    by (auto simp: path_byte_def Let_def split_def path_mode_def)
  show ?thesis using p [of "st\<lparr>at_skip := False\<rparr>"] assms by (simp add: dispatchPathByte_def)
qed

section \<open>Dispatching\<close>

lemma flush_ok:
  assumes "controlled env st" "at_mode st = ModeAttach"
  shows "controlled env (snd (flush_remote env remote st)) \<and> at_mode (snd (flush_remote env remote st)) = ModeAttach"
proof -
  have "controlled env (at_emit (AeRemote remote) st)"
    using assms by (auto simp: controlled_def attach_ok_def)
  then show ?thesis using assms by (simp add: flush_remote_def split: option.split)
qed

text \<open>A local effect keeps the invariant and the mode.\<close>

definition local_effect :: "attach_env \<Rightarrow> (attach \<Rightarrow> bool \<times> attach) \<Rightarrow> bool" where
  "local_effect env act \<longleftrightarrow>
     (\<forall>st. controlled env st \<longrightarrow> controlled env (snd (act st)) \<and> at_mode (snd (act st)) = at_mode st)"

lemma local_effects [simp]: "local_effect env (write_local env d)" "local_effect env (toggle_timestamp env)"
  by (auto simp: local_effect_def toggle_timestamp_def split: option.splits)
    (auto simp: controlled_def attach_ok_def)

lemma local_action_ok:
  assumes "controlled env st" "at_mode st = ModeAttach" "local_effect env act"
  shows "controlled env (snd (local_action env remote act st)) \<and> at_mode (snd (local_action env remote act st)) = ModeAttach"
  using flush_ok [OF assms(1,2), of remote] assms(3) cancelAttach_ok
  by (auto simp: local_action_def Let_def split_def local_effect_def)

lemma ignored_ok [simp]:
  "controlled env (snd (ignoreTerminalCommandInput env st)) = controlled env st"
  "controlled env (snd (ignoreTransferInput env st)) = controlled env st"
  by (simp_all add: ignoreTerminalCommandInput_def ignoreTransferInput_def)

lemma enter_ok:
  "controlled env st \<Longrightarrow> at_mode st = ModeAttach \<Longrightarrow> controlled env (snd (enterFileMenu env st))"
  using local_mode_ok [of env st ModeFileMenu] by (simp add: enterFileMenu_def)

lemma control_c_ok:
  assumes "controlled env st" "named_requests env" "control_c env st = (r, st')"
  shows "controlled env st' \<and> (r = None \<longrightarrow> at_mode st' = ModeAttach)"
proof (cases "at_mode st = ModeAttach \<and> \<not> terminalCommandInputActive env st \<and> \<not> ae_now env (at_clock st) < at_until st")
  case True
  then show ?thesis using assms beginExternal_ok [OF assms(1,2)]
    by (auto simp: control_c_def split: prod.splits bool.splits)
next
  case False
  have i: "ignoreTerminalCommandInput env st = (b, s) \<Longrightarrow> controlled env s" for b s
    using ignored_ok(1) [of env st] assms(1) by simp
  show ?thesis using False assms beginTransfer_ok i
    by (auto simp: control_c_def split: prod.splits bool.splits attach_mode.splits if_splits)
qed

lemma confirm_ok: "controlled env st \<Longrightarrow> controlled env (confirm_byte env v st)"
  by (auto simp: confirm_byte_def Let_def intro!: resolve_ok)

lemma one_action:
  assumes "fst (controller_Process c [v]) = acts"
  obtains "acts = []" | a where "acts = [a]"
  using assms by (auto simp: controller_Process_def flushRemote_def split: if_splits)

lemma byte_ok:
  assumes "controlled env st" "at_mode st \<noteq> ModeAttach" "at_mode st \<noteq> ModeFileTransferCancelConfirm"
  shows "controlled env (snd (if at_mode st = ModeFileMenu then (True, dispatchFileMenuByte env v st)
                 else if at_mode st = ModeFileTransfer then ignoreTransferInput env st
                 else dispatchPathByte env v st))"
  using assms menu_ok pathByte_ok by (cases "at_mode st") (auto simp: path_mode_def)

lemma attach_step_ok:
  assumes st: "controlled env st" "at_mode st = ModeAttach"
    and attach: "\<And>r s. controlled env s \<Longrightarrow> at_mode s = ModeAttach \<Longrightarrow> controlled env (snd (dispatchAttach env r vs s))"
    and other: "\<And>s. controlled env s \<Longrightarrow> controlled env (snd (dispatch env vs s))"
  shows "controlled env (snd (dispatchAttach env remote (v # vs) st))"
proof -
  obtain acts c1 where c: "controller_Process (at_controller st) [v] = (acts, c1)" by fastforce
  let ?s = "st\<lparr>at_controller := c1\<rparr>"
  have s: "controlled env ?s" "at_mode ?s = ModeAttach" using st by simp_all
  note fl = flush_ok [OF s]
  have local: "controlled env (snd (case local_action env remote act ?s of
      (True, st2) \<Rightarrow> dispatchAttach env (unsent env remote ?s) vs st2 | (False, st2) \<Rightarrow> (False, st2)))" if e: "local_effect env act" for act
    using local_action_ok [OF s e, of remote] attach by (auto split: prod.splits bool.splits)
  have menu: "controlled env (snd (case flush_remote env remote ?s of (ok, st2) \<Rightarrow>
      if \<not> ok then (False, st2)
      else let (ok2, st3) = enterFileMenu env st2 in if ok2 then dispatch env vs st3 else (False, st3)))"
  proof -
    have "controlled env (snd (enterFileMenu env (snd (flush_remote env remote ?s))))" using fl enter_ok by blast
    then show ?thesis using fl [of remote] other by (auto simp: Let_def split: prod.split)
  qed
  from c have "fst (controller_Process (at_controller st) [v]) = acts" by simp
  then show ?thesis
  proof (cases rule: one_action)
    case 1
    then show ?thesis using attach c s by (simp add: dispatchAttach.simps)
  next
    case (2 a)
    show ?thesis
    proof (cases a)
      case ActionFileTransfer
      then show ?thesis using menu c 2 by (simp add: dispatchAttach.simps Let_def)
    next
      case ActionQuit
      then show ?thesis using c 2 fl [of remote] cancelAttach_ok by (simp add: dispatchAttach.simps Let_def split_def)
    next
      case (ActionRemote d)
      then show ?thesis using attach c 2 s by (simp add: dispatchAttach.simps Let_def)
    qed (use local in \<open>simp_all add: dispatchAttach.simps c 2 Let_def\<close>)
  qed
qed

lemma loop_step_ok:
  assumes st: "controlled env st" "named_requests env"
    and attach: "\<And>r w s. controlled env s \<Longrightarrow> at_mode s = ModeAttach \<Longrightarrow> w \<in> {v # vs, [CHR 0x03]} \<Longrightarrow> controlled env (snd (dispatchAttach env r w s))"
    and loop: "\<And>s. controlled env s \<Longrightarrow> controlled env (snd (dispatch_loop env vs s))"
  shows "controlled env (snd (dispatch_loop env (v # vs) st))"
proof (cases "v = CHR 0x03")
  case True
  obtain r s where c: "control_c env st = (r, s)" by fastforce
  note ok = control_c_ok [OF st c]
  show ?thesis
  proof (cases r)
    case None
    then have "controlled env (snd (dispatchAttach env [] [CHR 0x03] s))" using attach ok by simp
    then show ?thesis using True c None loop by (auto simp: dispatch_loop.simps split: prod.splits bool.splits)
  next
    case (Some b)
    then show ?thesis using True c ok loop by (cases b) (simp_all add: dispatch_loop.simps)
  qed
next
  case False
  consider "at_mode st = ModeAttach" | "at_mode st = ModeFileTransferCancelConfirm"
    | "at_mode st \<noteq> ModeAttach" "at_mode st \<noteq> ModeFileTransferCancelConfirm" by blast
  then show ?thesis
  proof cases
    case 3
    then show ?thesis using byte_ok [OF st(1) 3, of v] loop False
      by (simp add: dispatch_loop.simps) (auto split: prod.splits bool.splits)
  qed (use st False attach confirm_ok in \<open>simp_all add: dispatch_loop.simps\<close>)
qed

lemma dispatch_from_loop_ok:
  assumes "\<And>s. controlled env s \<Longrightarrow> controlled env (snd (dispatch_loop env data s))" "controlled env st"
  shows "controlled env (snd (dispatch env data st))"
  using assms by (auto simp: dispatch.simps)

lemma dispatchings_ok:
  assumes n: "named_requests env"
  shows "(\<forall>st. controlled env st \<longrightarrow> controlled env (snd (dispatch_loop env data st)) \<and>
     (\<forall>remote. at_mode st = ModeAttach \<longrightarrow> controlled env (snd (dispatchAttach env remote data st))))"
proof (induction data)
  case Nil
  then show ?case using flush_ok by (simp add: dispatch_loop.simps dispatchAttach.simps)
next
  case (Cons v vs)
  have e: "controlled env (snd (dispatchAttach env r [w] s))" if "controlled env s" "at_mode s = ModeAttach" for r w s
    by (rule attach_step_ok [OF that]) (use flush_ok in \<open>auto simp: dispatchAttach.simps dispatch.simps dispatch_loop.simps\<close>)
  have a: "controlled env (snd (dispatchAttach env r (v # vs) s))" if "controlled env s" "at_mode s = ModeAttach" for r s
    by (rule attach_step_ok [OF that]) (use Cons.IH dispatch_from_loop_ok in blast)+
  have "controlled env (snd (dispatch_loop env (v # vs) s))" if "controlled env s" for s
    by (rule loop_step_ok [OF that n]) (use a e Cons.IH in auto)
  with a show ?case by blast
qed

lemma dispatch_ok:
  "controlled env st \<Longrightarrow> named_requests env \<Longrightarrow> controlled env (snd (dispatch env data st))"
  "controlled env st \<Longrightarrow> named_requests env \<Longrightarrow> at_mode st = ModeAttach \<Longrightarrow> controlled env (snd (dispatchAttach env remote data st))"
  using dispatchings_ok dispatch_from_loop_ok by blast+

section \<open>Runs\<close>

lemma interrupt_ok:
  assumes "controlled env st" "named_requests env"
  shows "controlled env (snd (dispatchInterrupt env i st))"
proof -
  obtain r s where c: "control_c env st = (r, s)" by fastforce
  note ok = control_c_ok [OF assms c]
  then have "controlled env (snd (handleControlC env st))"
    using c dispatch_ok(2) [OF _ assms(2)] by (cases r) (simp_all add: handleControlC_def)
  then show ?thesis using assms(1) cancelAttach_ok by (cases i) (simp_all add: dispatchInterrupt_def)
qed

lemma progress_ok [simp]:
  "controlled env st \<Longrightarrow> controlled env (cancellation_update (ObserveProgress p) st)"
  by (auto simp: cancellation_update_def controlled_def attach_ok_def)

lemma end_run_ok:
  assumes "controlled env st"
  shows "controlled env (end_run env err summary st)" "\<not> at_running (end_run env err summary st)"
    "at_request (end_run env err summary st) = []"
  using finishTransfer_ok [OF request_ok [OF assms], of err summary] abandon_ok assms
  by (auto simp: end_run_def requestTransferCancellation_def cancellation_update_def)

lemma turn_ok:
  assumes "controlled env st" "named_requests env" "attach_turn env input st = (go, st')"
  shows "controlled env st' \<and> (\<not> go \<longrightarrow> at_request st' = [])"
  using assms dispatch_ok(1) interrupt_ok expire_ok abandon_ok finishTransfer_ok end_run_ok
  by (cases input) (auto simp: attach_turn_def Let_def split_def split: if_splits)

lemma run_ok:
  "controlled env st \<Longrightarrow> named_requests env \<Longrightarrow> attach_run env inputs st = (go, st') \<Longrightarrow>
     controlled env st' \<and> (inputs \<noteq> [] \<and> \<not> go \<longrightarrow> at_request st' = [])"
proof (induction inputs arbitrary: st)
  case (Cons input inputs)
  obtain b s where t: "attach_turn env input st = (b, s)" by fastforce
  show ?case using Cons t turn_ok [OF Cons.prems(1,2) t] by (cases b; cases inputs) auto
qed simp

end
