(* ===== verification/Attach_Rules.thy ===== *)
theory Attach_Rules
  imports Attach_Safety
begin

text \<open>
  The properties of the input dispatcher: the lock of the remote side while a transfer
  runs, and the confirmation a cancellation needs.
\<close>

section \<open>Only a confirmation cancels\<close>

definition writes_ok :: "attach_env \<Rightarrow> bool" where
  "writes_ok env \<longleftrightarrow> (case ae_local env of None \<Rightarrow> False | Some write \<Rightarrow> (\<forall>n d. write n d = None))"

lemma write_local_writes:
  "writes_ok env \<Longrightarrow> write_local env d st = (True, at_emit (AeLocal d) st)"
  by (simp add: write_local_def writes_ok_def split: option.splits)

text \<open>A running transfer that nobody has cancelled.\<close>

definition uncancelled :: "attach \<Rightarrow> bool" where
  "uncancelled st \<longleftrightarrow> at_running st \<and> at_mode st \<in> {ModeFileTransfer, ModeFileTransferCancelConfirm} \<and>
     (\<exists>c. at_cancel st = Some c \<and> \<not> Cancelled c) \<and> latch_fits (at_mode st) (at_cancel st)"

lemma uncancelled_updates [simp]:
  "uncancelled (at_emit e st) = uncancelled st" "uncancelled (st\<lparr>at_cmdIgnored := b\<rparr>) = uncancelled st"
  "uncancelled (st\<lparr>at_ignored := b\<rparr>) = uncancelled st" "uncancelled (st\<lparr>at_timer := b\<rparr>) = uncancelled st"
  by (simp_all add: uncancelled_def)

text \<open>Its latch is that of its mode.\<close>

lemma uncancelled_latch:
  assumes "uncancelled st"
  obtains c where "at_cancel st = Some c" "xc_state c = (if at_mode st = ModeFileTransfer then CancelRunning else CancelConfirming)"
proof -
  obtain c where c: "at_cancel st = Some c" "\<not> Cancelled c" using assms by (auto simp: uncancelled_def)
  then show ?thesis using assms that [of c] by (cases "xc_state c") (auto simp: uncancelled_def latch_fits_def Cancelled_def)
qed

text \<open>No command of an AI client runs, whose activity would make every key ignored.\<close>

definition no_command :: "attach_env \<Rightarrow> bool" where
  "no_command env \<longleftrightarrow> (case ae_command env of None \<Rightarrow> True | Some active \<Rightarrow> \<forall>n. \<not> active n)"

lemma no_command_inactive: "no_command env \<Longrightarrow> \<not> terminalCommandInputActive env st"
  by (simp add: no_command_def terminalCommandInputActive_def split: option.splits)

lemma uncancelled_ignores:
  "writes_ok env \<Longrightarrow> uncancelled st \<Longrightarrow> uncancelled (snd (ignoreTransferInput env st)) \<and> fst (ignoreTransferInput env st) \<and>
     at_mode (snd (ignoreTransferInput env st)) = at_mode st"
  "writes_ok env \<Longrightarrow> uncancelled st \<Longrightarrow> uncancelled (snd (ignoreTerminalCommandInput env st)) \<and> fst (ignoreTerminalCommandInput env st)"
  by (simp_all add: ignoreTransferInput_def ignoreTerminalCommandInput_def write_local_writes)

text \<open>Ctrl+C asks, and when no command is active the question is then open.\<close>

lemma uncancelled_control_c:
  assumes "writes_ok env" "uncancelled st" "control_c env st = (r, st')"
  shows "uncancelled st' \<and> r = Some True \<and> (no_command env \<longrightarrow> at_mode st' = ModeFileTransferCancelConfirm)"
proof -
  obtain c where c: "at_cancel st = Some c" "xc_state c = (if at_mode st = ModeFileTransfer then CancelRunning else CancelConfirming)"
    using assms(2) by (rule uncancelled_latch)
  have m: "at_mode st \<in> {ModeFileTransfer, ModeFileTransferCancelConfirm}" using assms(2) by (simp add: uncancelled_def)
  have b: "uncancelled (beginTransferCancellationConfirmation env st)"
    "at_mode (beginTransferCancellationConfirmation env st) = ModeFileTransferCancelConfirm" if "at_mode st = ModeFileTransfer"
    using assms(2) c that
    by (simp_all add: beginTransferCancellationConfirmation_def BeginConfirmation_def Let_def
        write_local_writes [OF assms(1)] uncancelled_def Cancelled_def)
  show ?thesis using m assms(2,3) uncancelled_ignores(2) [OF assms(1,2)] b no_command_inactive [of env st]
    by (auto simp: control_c_def split: if_splits prod.splits)
qed

text \<open>The answer: y cancels, everything else resumes.\<close>

lemma uncancelled_answer:
  assumes "writes_ok env" "uncancelled st" "at_mode st = ModeFileTransferCancelConfirm"
  shows "at_running (confirm_byte env v st)"
    "\<exists>c. at_cancel (confirm_byte env v st) = Some c \<and> (Cancelled c \<longleftrightarrow> v = CHR ''y'' \<or> v = CHR ''Y'')"
proof -
  obtain c where c: "at_cancel st = Some c" "xc_state c = CancelConfirming" using uncancelled_latch [OF assms(2)] assms(3) by auto
  have r: "at_running st" using assms(2) by (simp add: uncancelled_def)
  show "at_running (confirm_byte env v st)" "\<exists>c. at_cancel (confirm_byte env v st) = Some c \<and> (Cancelled c \<longleftrightarrow> v = CHR ''y'' \<or> v = CHR ''Y'')"
    using assms(3) c r
    by (simp_all add: confirm_byte_def Let_def write_local_writes [OF assms(1)] resolveTransferCancellationConfirmation_def
        ResolveConfirmation_def Cancelled_def)
qed

text \<open>
  What a read says to the question, which is open at its start if \<open>asked\<close>: Ctrl+C opens it, other bytes are ignored while it is
  closed, and the first other byte while it is open is the answer.
\<close>

fun confirms :: "bool \<Rightarrow> string \<Rightarrow> bool" where
  "confirms asked [] = False"
| "confirms asked (v # vs) =
     (if v = CHR 0x03 then confirms True vs else if asked then v = CHR ''y'' \<or> v = CHR ''Y'' else confirms False vs)"

text \<open>A y that answers: directly behind a Ctrl+C, or at the start of a read when the question was open.\<close>

definition answered_yes :: "bool \<Rightarrow> string \<Rightarrow> bool" where
  "answered_yes asked data \<longleftrightarrow>
     (\<exists>pre v post. data = pre @ v # post \<and> (v = CHR ''y'' \<or> v = CHR ''Y'') \<and> (if pre = [] then asked else last pre = CHR 0x03))"

lemma answered_yes_start: "v = CHR ''y'' \<or> v = CHR ''Y'' \<Longrightarrow> answered_yes True (v # vs)"
  unfolding answered_yes_def by (intro exI [of _ "[]"] exI [of _ v] exI [of _ vs]) auto

lemma answered_yes_later:
  assumes "answered_yes asked vs" "asked \<longrightarrow> v = CHR 0x03"
  shows "answered_yes asked' (v # vs)"
proof -
  obtain pre u post where u: "vs = pre @ u # post" "u = CHR ''y'' \<or> u = CHR ''Y''" "if pre = [] then asked else last pre = CHR 0x03"
    using assms(1) by (auto simp: answered_yes_def)
  then show ?thesis using assms(2) unfolding answered_yes_def
    by (intro exI [of _ "v # pre"] exI [of _ u] exI [of _ post]) auto
qed

definition decided :: "attach_env \<Rightarrow> bool \<Rightarrow> string \<Rightarrow> attach \<Rightarrow> bool" where
  "decided env asked data st \<longleftrightarrow> at_running st \<and>
     (\<exists>c. at_cancel st = Some c \<and> (Cancelled c \<longrightarrow> answered_yes asked data) \<and> (no_command env \<longrightarrow> (Cancelled c \<longleftrightarrow> confirms asked data)))"

lemma undecided: "uncancelled st \<Longrightarrow> (no_command env \<Longrightarrow> \<not> confirms asked data) \<Longrightarrow> decided env asked data st"
  by (auto simp: uncancelled_def decided_def)

lemma decided_loop:
  assumes "writes_ok env"
  shows "uncancelled st \<Longrightarrow> decided env (at_mode st = ModeFileTransferCancelConfirm) data (snd (dispatch_loop env data st))"
proof (induction data arbitrary: st)
  case (Cons v vs)
  consider "v = CHR 0x03" | "v \<noteq> CHR 0x03" "at_mode st = ModeFileTransferCancelConfirm" | "v \<noteq> CHR 0x03" "at_mode st = ModeFileTransfer"
    using Cons.prems(1) by (auto simp: uncancelled_def)
  then show ?case
  proof cases
    case 1
    obtain r s where c: "control_c env st = (r, s)" by fastforce
    note u = uncancelled_control_c [OF assms(1) Cons.prems(1) c]
    then have "dispatch_loop env (v # vs) st = dispatch_loop env vs s" using 1 c by (simp add: dispatch_loop.simps(2))
    moreover have "decided env (at_mode s = ModeFileTransferCancelConfirm) vs (snd (dispatch_loop env vs s))" using Cons.IH u by blast
    ultimately show ?thesis using 1 u answered_yes_later [of "at_mode s = ModeFileTransferCancelConfirm" vs v]
      by (auto simp: decided_def)
  next
    case 2
    then have "snd (dispatch_loop env (v # vs) st) = confirm_byte env v st" by (simp add: dispatch_loop.simps(2))
    then show ?thesis using uncancelled_answer [OF assms(1) Cons.prems 2(2), of v] answered_yes_start [of v vs] 2
      by (auto simp: decided_def)
  next
    case 3
    note i = uncancelled_ignores(1) [OF assms(1) Cons.prems(1)]
    then have "dispatch_loop env (v # vs) st = dispatch_loop env vs (snd (ignoreTransferInput env st))"
      using 3 by (cases "ignoreTransferInput env st") (simp add: dispatch_loop.simps(2))
    moreover have "decided env False vs (snd (dispatch_loop env vs (snd (ignoreTransferInput env st))))"
      using Cons.IH [of "snd (ignoreTransferInput env st)"] i 3(2) by simp
    ultimately show ?thesis using 3 answered_yes_later [of False vs v] by (auto simp: decided_def)
  qed
qed (simp add: dispatch_loop.simps undecided)

lemma decided_dispatch:
  assumes "writes_ok env" "uncancelled st"
  shows "decided env (at_mode st = ModeFileTransferCancelConfirm) data (snd (dispatch env data st))"
proof -
  consider "input_dropped env data st" | "\<not> input_dropped env data st" "terminalCommandInputActive env st"
    | "\<not> input_dropped env data st" "\<not> terminalCommandInputActive env st" by blast
  then show ?thesis
  proof cases
    case 1
    then have "at_mode st = ModeFileTransferCancelConfirm" "data \<noteq> []" "hd data = CHR ''c'' \<or> hd data = CHR ''C''"
      using assms(2) by (auto simp: input_dropped_def uncancelled_def)
    then have "\<not> confirms (at_mode st = ModeFileTransferCancelConfirm) data" by (cases data) auto
    then show ?thesis using 1 undecided [OF assms(2)] by (simp add: dispatch.simps)
  next
    case 2
    have "decided env (at_mode st = ModeFileTransferCancelConfirm) data (snd (ignoreTerminalCommandInput env st))"
      by (rule undecided) (use 2 uncancelled_ignores(2) [OF assms] no_command_inactive [of env st] in auto)
    then show ?thesis using 2 by (simp add: dispatch.simps)
  next
    case 3
    then show ?thesis using decided_loop [OF assms(1), of "st\<lparr>at_cmdIgnored := False\<rparr>" data] assms(2) by (simp add: dispatch.simps)
  qed
qed

lemma abandon_uncancelled [simp]: "uncancelled (abandonExternalTransferCancellation env st) = uncancelled st"
  by (simp add: uncancelled_def)

lemma uncancelled_interrupt:
  assumes "writes_ok env" "uncancelled st"
  shows "uncancelled (snd (dispatchInterrupt env i st))"
proof -
  obtain r s where c: "control_c env st = (r, s)" by fastforce
  note u = uncancelled_control_c [OF assms c]
  then have "uncancelled (snd (handleControlC env st))" using c by (auto simp: handleControlC_def)
  then show ?thesis using assms by (cases i) (simp_all add: dispatchInterrupt_def cancelAttach_def Let_def)
qed

lemma controlled_uncancelled:
  "controlled env st \<Longrightarrow> at_running st \<Longrightarrow> at_cancel st = Some c \<Longrightarrow> \<not> Cancelled c \<Longrightarrow> uncancelled st"
  by (auto simp: controlled_def attach_ok_def uncancelled_def)

text \<open>The confirmation itself, also between commands.\<close>

lemma confirmed:
  assumes "writes_ok env" "at_mode st = ModeFileTransfer" "at_cancel st = Some c" "xc_state c = CancelRunning"
    and "\<not> terminalCommandInputActive env st" "v = CHR ''y'' \<or> v = CHR ''Y''"
  shows "at_cancel (snd (dispatch env [CHR 0x03, v] st)) = Some (c\<lparr>xc_state := CancelCancelled, xc_closed := True\<rparr>)"
proof -
  have "\<not> input_dropped env [CHR 0x03, v] st" using assms(2) by (simp add: input_dropped_def)
  moreover have "terminalCommandInputActive env (st\<lparr>at_cmdIgnored := False\<rparr>) = terminalCommandInputActive env st"
    by (simp add: terminalCommandInputActive_def split: option.split)
  ultimately show ?thesis using assms
    by (auto simp: dispatch.simps dispatch_loop.simps control_c_def beginTransferCancellationConfirmation_def BeginConfirmation_def
        confirm_byte_def resolveTransferCancellationConfirmation_def ResolveConfirmation_def Let_def write_local_writes at_emit_def)
qed

section \<open>The properties\<close>

text \<open>
  C33 Over every sequence of inputs (reads, process interrupts, progress and end of the worker, the timer, the end of the
  pump or of the context), the dispatcher writes nothing to the remote side while a transfer of the attachment runs or a
  question about a transfer of another owner is open; it starts a transfer only when none runs and no question is open,
  and asks about another owner's transfer only then; and it answers exactly the question that is open. A run that has
  ended leaves no question open, whatever failed.
\<close>

theorem attach_transfer_locked:
  assumes "named_requests env" "attach_run env inputs newAttachInputDispatcher = (go, st)"
  shows "(\<forall>i < length (at_trace st). effect_allowed (take i (at_trace st)) (at_trace st ! i)) \<and>
    open_of (at_trace st) = at_running st \<and> (\<not> go \<longrightarrow> pending_of (at_trace st) = [])"
proof -
  have c: "controlled env st \<and> (inputs \<noteq> [] \<and> \<not> go \<longrightarrow> at_request st = [])"
    using run_ok [OF new_controlled assms] .
  moreover have "\<not> go \<Longrightarrow> inputs \<noteq> []" using assms(2) by auto
  ultimately show ?thesis by (auto simp: controlled_def attach_ok_def effects_ok_def)
qed

text \<open>
  C34 While a transfer of the attachment runs and is not cancelled, and the local terminal takes what is written to it, only a confirmation
  cancels the transfer. A read, whatever its bytes, cancels it only by a y or Y that directly follows a Ctrl+C in the read, or that
  begins the read while the question is open; a y while no question is open is ignored. When no AI command is active meanwhile the read
  cancels it exactly if its first byte other than Ctrl+C behind the opening of the question is y or Y. A process interrupt never cancels it.
  And in particular Ctrl+C followed by y does: the latch is in its final state and its channel is closed.
\<close>

theorem attach_cancellation_confirmed:
  assumes "named_requests env" "writes_ok env" "attach_run env inputs newAttachInputDispatcher = (True, st)"
    and "at_running st" "at_cancel st = Some c" "\<not> Cancelled c"
  shows "(\<exists>c'. at_running (snd (dispatch env data st)) \<and> at_cancel (snd (dispatch env data st)) = Some c' \<and>
        (Cancelled c' \<longrightarrow> answered_yes (at_mode st = ModeFileTransferCancelConfirm) data) \<and>
        (no_command env \<longrightarrow> (Cancelled c' \<longleftrightarrow> confirms (at_mode st = ModeFileTransferCancelConfirm) data))) \<and>
    (\<exists>c'. at_cancel (snd (dispatchInterrupt env i st)) = Some c' \<and> \<not> Cancelled c') \<and>
    (at_mode st = ModeFileTransfer \<and> \<not> terminalCommandInputActive env st \<longrightarrow>
        at_cancel (snd (dispatch env [CHR 0x03, CHR ''y''] st)) = Some (c\<lparr>xc_state := CancelCancelled, xc_closed := True\<rparr>))"
proof (intro conjI impI)
  have u: "uncancelled st" using run_ok [OF new_controlled assms(1,3)] controlled_uncancelled assms(4-6) by blast
  show "\<exists>c'. at_running (snd (dispatch env data st)) \<and> at_cancel (snd (dispatch env data st)) = Some c' \<and>
        (Cancelled c' \<longrightarrow> answered_yes (at_mode st = ModeFileTransferCancelConfirm) data) \<and>
        (no_command env \<longrightarrow> (Cancelled c' \<longleftrightarrow> confirms (at_mode st = ModeFileTransferCancelConfirm) data))"
    using decided_dispatch [OF assms(2) u, of data] unfolding decided_def by blast
  show "\<exists>c'. at_cancel (snd (dispatchInterrupt env i st)) = Some c' \<and> \<not> Cancelled c'"
    using uncancelled_interrupt [OF assms(2) u, of i] by (auto simp: uncancelled_def)
  assume m: "at_mode st = ModeFileTransfer \<and> \<not> terminalCommandInputActive env st"
  moreover have "xc_state c = CancelRunning" using uncancelled_latch [OF u] assms(5) m by auto
  ultimately show "at_cancel (snd (dispatch env [CHR 0x03, CHR ''y''] st)) = Some (c\<lparr>xc_state := CancelCancelled, xc_closed := True\<rparr>)"
    using confirmed [OF assms(2) _ assms(5)] by blast
qed

section \<open>Concrete runs\<close>

text \<open>A terminal whose writes succeed, one second between operations, and a transfer of another owner.\<close>

definition sample_attach :: attach_env where
  "sample_attach =
     \<lparr>ae_now = (\<lambda>n. 1000000000 * int n), ae_prefix = (\<lambda>n. ''[ChannelTerm] ''), ae_error = (\<lambda>e. ''failed''), ae_quote = (\<lambda>b. [b]),
      ae_local = Some (\<lambda>n d. None), ae_status = None, ae_remote = (\<lambda>n d. None), ae_toggle = None, ae_stops = True,
      ae_command = None,
      ae_cancel = Some \<lparr>cc_begin = (\<lambda>n. Inr (Some ''r1'')), cc_resolve = (\<lambda>n r b. Inr ''resumed'')\<rparr>, ae_presenter = True\<rparr>"

text \<open>The shortcut, a local path and the default remote path; then the start.\<close>

definition sample_start :: "attach_input list" where
  "sample_start = [InData (''ls'' @ [CHR 0x1D]), InData ''fsa'', InData [CHR 0x0D, CHR 0x0A], InData [CHR 0x0D]]"

lemma sample_named: "named_requests sample_attach" "writes_ok sample_attach"
  by (auto simp: named_requests_def writes_ok_def sample_attach_def)

text \<open>Typing while it runs, its end, a question about another owner's transfer, an answer, and the end of the pump.\<close>

definition sample_inputs :: "attach_input list" where
  "sample_inputs = sample_start @ [InData ''x'', InTransferDone None [], InData [CHR 0x03], InData ''n'', InClosed None []]"

definition visible :: "attach_event \<Rightarrow> bool" where
  "visible e \<longleftrightarrow> (case e of AeLocal d \<Rightarrow> False | AeStatus d \<Rightarrow> False | AePrompt b \<Rightarrow> False | _ \<Rightarrow> True)"

lemma sample_run:
  "fst (attach_run sample_attach sample_inputs newAttachInputDispatcher) = False \<and>
   filter visible (at_trace (snd (attach_run sample_attach sample_inputs newAttachInputDispatcher))) =
     [AeRemote ''ls'', AeStarted ''send'' ''a'' ''/tmp/cterm/user-files/a'', AeFinished, AeBegin ''r1'', AeResolve ''r1'' False]"
  by code_simp

lemma sample_started:
  "fst (attach_run sample_attach sample_start newAttachInputDispatcher) \<and>
   at_running (snd (attach_run sample_attach sample_start newAttachInputDispatcher)) \<and>
   at_mode (snd (attach_run sample_attach sample_start newAttachInputDispatcher)) = ModeFileTransfer \<and>
   at_cancel (snd (attach_run sample_attach sample_start newAttachInputDispatcher)) = Some newFileTransferCancellation"
  by code_simp

theorem attach_transfer_locked_witness:
  "\<exists>st. attach_run sample_attach sample_inputs newAttachInputDispatcher = (False, st) \<and>
     filter visible (at_trace st) =
       [AeRemote ''ls'', AeStarted ''send'' ''a'' ''/tmp/cterm/user-files/a'', AeFinished, AeBegin ''r1'', AeResolve ''r1'' False] \<and>
     (\<forall>i < length (at_trace st). effect_allowed (take i (at_trace st)) (at_trace st ! i)) \<and> pending_of (at_trace st) = []"
proof (cases "attach_run sample_attach sample_inputs newAttachInputDispatcher")
  case (Pair go st)
  then show ?thesis using attach_transfer_locked [OF sample_named(1) Pair] sample_run by auto
qed

theorem attach_cancellation_confirmed_witness:
  "\<exists>st. attach_run sample_attach sample_start newAttachInputDispatcher = (True, st) \<and> at_running st \<and>
     (\<exists>c. at_cancel (snd (dispatch sample_attach ''yes'' st)) = Some c \<and> \<not> Cancelled c) \<and>
     at_cancel (snd (dispatch sample_attach [CHR 0x03, CHR ''y''] st)) =
       Some (newFileTransferCancellation\<lparr>xc_state := CancelCancelled, xc_closed := True\<rparr>)"
proof (cases "attach_run sample_attach sample_start newAttachInputDispatcher")
  case (Pair go st)
  have latch: "\<not> Cancelled newFileTransferCancellation" by (simp add: Cancelled_def newFileTransferCancellation_def)
  have st: "attach_run sample_attach sample_start newAttachInputDispatcher = (True, st)" "at_running st"
    "at_cancel st = Some newFileTransferCancellation" "at_mode st = ModeFileTransfer"
    using Pair sample_started by simp_all
  have "no_command sample_attach" "\<not> terminalCommandInputActive sample_attach st"
    by (simp_all add: terminalCommandInputActive_def no_command_def sample_attach_def)
  then show ?thesis
    using attach_cancellation_confirmed [OF sample_named st(1-3) latch, of "''yes''" NoInterrupt] st by auto
qed

section \<open>What reaches the board\<close>

text \<open>A terminal where no other transfer exists.\<close>

definition plain_attach :: attach_env where "plain_attach = sample_attach\<lparr>ae_cancel := None\<rparr>"

definition sent :: "bool \<times> attach \<Rightarrow> string list" where
  "sent r = concat (map (\<lambda>e. case e of AeRemote d \<Rightarrow> [d] | _ \<Rightarrow> []) (at_trace (snd r)))"

text \<open>
  An arrow key at a path prompt is an escape, which leaves the shortcut, and two bytes that are written to the board; an
  empty path that is ended by carriage return and line feed writes the line feed.
\<close>

lemma path_escape_forwarded:
  "sent (attach_run plain_attach [InData [CHR 0x1D, CHR ''f'', CHR ''s''], InData [CHR 0x1B, CHR ''['', CHR ''A'']] newAttachInputDispatcher) = [''[A'']"
  "sent (attach_run plain_attach [InData [CHR 0x1D, CHR ''f'', CHR ''s''], InData [CHR 0x0D, CHR 0x0A]] newAttachInputDispatcher) = [[CHR 0x0A]]"
  by code_simp+

text \<open>Ctrl+C asks about another owner's transfer when it is the first byte of a read; after another byte it is written through.\<close>

lemma late_control_c_forwarded:
  "sent (attach_run sample_attach [InData [CHR 0x03]] newAttachInputDispatcher) = []"
  "sent (attach_run sample_attach [InData [CHR ''a'', CHR 0x03]] newAttachInputDispatcher) = [[CHR ''a'', CHR 0x03]]"
  by code_simp+

text \<open>The bytes of a failed write are reported, and written again after a local command of the same read.\<close>

lemma failed_write_repeated:
  "sent (attach_run (plain_attach\<lparr>ae_remote := (\<lambda>n d. if n = 0 then Some CtxCanceled else None)\<rparr>)
     [InData [CHR ''a'', CHR 0x1D, CHR ''?'', CHR ''b'']] newAttachInputDispatcher) = [''a'', ''a'', ''b'']"
  by code_simp

end
