(* ===== verification/SSH_Files.thy ===== *)
theory SSH_Files
  imports File_Commands Directory_Archive "HOL-Library.List_Lexorder" "HOL-Library.Char_ord"
begin

text \<open>
  File operations on a dedicated SSH connection (\<open>internal/core/app/ssh_files.go\<close>,
  \<open>ssh_files_replace.go\<close>, \<open>ssh_files_verify.go\<close>): put and get over SFTP, directly or by staging, with SHA-256
  verification. The SFTP server, the local file system, the listing of the local walk, SHA-256 and the random names
  are parameters, indexed by the operations before (\<open>sf_clock\<close>); paths are those of a POSIX host.
\<close>

section \<open>Requests, answers and state\<close>

datatype sf_place = SfLocal | SfRemote

type_synonym sf_path = "sf_place \<times> string"

record sf_request =
  sq_scp :: bool                          \<comment> \<open>the protocol\<close>
  sq_protocol_ok :: bool                  \<comment> \<open>it is sftp or scp\<close>
  sq_operation :: string
  sq_local :: string
  sq_remote :: string
  sq_target :: string
  sq_recursive :: bool
  sq_overwrite :: bool
  sq_safe :: bool
  sq_verify :: string

datatype sf_event =
    SfCreate sf_path bool                 \<comment> \<open>opened for writing, exclusively or truncating\<close>
  | SfOpen sf_path
  | SfRead sf_path string
  | SfWrite sf_path string                \<comment> \<open>the bytes that were taken\<close>
  | SfSync sf_path
  | SfClose sf_path
  | SfMkdir sf_path
  | SfRename sf_path sf_path bool         \<comment> \<open>the last: replacing\<close>
  | SfRemove sf_path bool                 \<comment> \<open>the last: a directory\<close>
  | SfProgress string int int
  | SfVerification string string string
  | SfOpenRoot string
  | SfConnect
  | SfDisconnect
  | SfFailed sf_event                     \<comment> \<open>a call that answered with an error\<close>

datatype sf_kind = SfDir | SfRegular | SfLink | SfSpecial

record sf_info =
  si_name :: string
  si_size :: int
  si_kind :: sf_kind

text \<open>A call of a \<open>WalkDir\<close> function: the path, its error, the type of the entry, and the answer of \<open>Info\<close>.\<close>

type_synonym sf_walk_call = "string \<times> goerr option \<times> sf_kind \<times> (goerr + sf_info)"

record sf_env =
  sa_ctx :: "nat \<Rightarrow> goerr option"
  sa_read :: "nat \<Rightarrow> nat \<Rightarrow> string \<times> goerr option"
  sa_write :: "nat \<Rightarrow> string \<Rightarrow> nat \<times> goerr option"
  sa_call :: "nat \<Rightarrow> sf_event \<Rightarrow> goerr option"
  sa_stat :: "nat \<Rightarrow> sf_path \<Rightarrow> goerr + sf_info"  \<comment> \<open>\<open>Lstat\<close>\<close>
  sa_list :: "nat \<Rightarrow> string \<Rightarrow> goerr + sf_info list"
  sa_abs :: "string \<Rightarrow> goerr + string"
  sa_walk :: "sf_walk_call list"                     \<comment> \<open>of the root of an upload\<close>
  sa_tree :: "sf_walk_call list"                     \<comment> \<open>of the check before it, by absolute path\<close>
  sa_lower :: "string \<Rightarrow> string"                     \<comment> \<open>\<open>strings.ToLower\<close>\<close>
  sa_posix_rename :: "nat \<Rightarrow> goerr option"
  sa_nonce :: "nat \<Rightarrow> goerr + string"                \<comment> \<open>sixteen random bytes, in hexadecimal\<close>
  sa_sha256 :: "string \<Rightarrow> string"
  sa_progress :: bool                               \<comment> \<open>the callback is set; \<open>sa_call\<close> answers it\<close>
  sa_verification :: bool

record sf_state =
  sf_clock :: nat
  sf_trace :: "sf_event list"
  sf_files :: int
  sf_bytes :: int
  sf_verified :: int
  sf_seen :: "string list"
  sf_entries :: "sf_info list"

definition sf_initial :: sf_state where
  "sf_initial = \<lparr>sf_clock = 0, sf_trace = [], sf_files = 0, sf_bytes = 0, sf_verified = 0, sf_seen = [], sf_entries = []\<rparr>"

definition FsErrNotExist :: goerr where "FsErrNotExist = ErrSentinel ''fs.ErrNotExist''"
definition IoErrNoProgress :: goerr where "IoErrNoProgress = ErrSentinel ''io.ErrNoProgress''"

definition sf_tick :: "sf_state \<Rightarrow> sf_state" where "sf_tick st = st\<lparr>sf_clock := Suc (sf_clock st)\<rparr>"

definition sf_emit :: "sf_event \<Rightarrow> sf_state \<Rightarrow> sf_state" where
  "sf_emit e st = st\<lparr>sf_trace := sf_trace st @ [e], sf_clock := Suc (sf_clock st)\<rparr>"

type_synonym sf_result = "goerr option \<times> sf_state"

text \<open>A call that answers with an error or nothing; the trace says which.\<close>

definition sf_answered :: "goerr option \<Rightarrow> sf_event \<Rightarrow> sf_event" where
  "sf_answered x e = (if x = None then e else SfFailed e)"

lemma sf_answered_simps [simp]: "sf_answered None e = e" "sf_answered (Some x) e = SfFailed e"
  by (simp_all add: sf_answered_def)

definition sf_do :: "sf_env \<Rightarrow> sf_event \<Rightarrow> sf_state \<Rightarrow> sf_result" where
  "sf_do env e st = (let x = sa_call env (sf_clock st) e in (x, sf_emit (sf_answered x e) st))"

definition sf_check :: "sf_env \<Rightarrow> sf_state \<Rightarrow> sf_result" where
  "sf_check env st = (sa_ctx env (sf_clock st), sf_tick st)"

definition sf_then :: "sf_result \<Rightarrow> (sf_state \<Rightarrow> sf_result) \<Rightarrow> sf_result" where
  "sf_then r k = (case r of (Some e, st) \<Rightarrow> (Some e, st) | (None, st) \<Rightarrow> k st)"

definition sf_report :: "sf_env \<Rightarrow> string \<Rightarrow> int \<Rightarrow> int \<Rightarrow> sf_state \<Rightarrow> sf_result" where
  "sf_report env name transferred full st =
     (if sa_progress env then sf_do env (SfProgress name transferred full) st else (None, st))"

section \<open>Copying\<close>

text \<open>
  The writer is a file, or the hash when there is none: a hash takes everything. Besides the bytes copied and the
  error, the loop gives the bytes read, which \<open>io.TeeReader\<close> hands to the hash of the source.
\<close>

definition sf_put :: "sf_env \<Rightarrow> sf_path option \<Rightarrow> string \<Rightarrow> sf_state \<Rightarrow> nat \<times> goerr option \<times> sf_state" where
  "sf_put env dst d st =
     (case dst of None \<Rightarrow> (length d, None, st)
      | Some p \<Rightarrow> (case sa_write env (sf_clock st) d of (n, e) \<Rightarrow> (n, e, sf_emit (sf_answered e (SfWrite p (take n d))) st)))"

definition sf_limit :: "int \<Rightarrow> int \<Rightarrow> nat" where
  "sf_limit len copied = (if len - copied < 32 * 1024 then nat (len - copied) + 1 else 32 * 1024)"

text \<open>After the bytes of a read: whether the loop ends, and how.\<close>

definition sf_read_end :: "int \<Rightarrow> int \<Rightarrow> string \<Rightarrow> goerr option \<Rightarrow> goerr option option" where
  "sf_read_end len copied d readErr =
     (if readErr = Some IoEOF then Some (if copied \<noteq> len then Some (ErrText ''file size changed: copied, expected'') else None)
      else case readErr of
        Some e \<Rightarrow> Some (Some e)
      | None \<Rightarrow> if d = [] then Some (Some IoErrNoProgress) else None)"

text \<open>The write of a read: an error and the new count.\<close>

definition sf_block :: "sf_env \<Rightarrow> bool \<Rightarrow> string \<Rightarrow> int \<Rightarrow> sf_path option \<Rightarrow> int \<Rightarrow> string \<Rightarrow> sf_state \<Rightarrow> goerr option \<times> int \<times> sf_state" where
  "sf_block env report name len dst copied d st =
     (if d = [] then (None, copied, st)
      else case sf_put env dst d st of
        (n, Some e, st1) \<Rightarrow> (Some e, copied + int n, st1)
      | (n, None, st1) \<Rightarrow>
          if n \<noteq> length d then (Some IoErrShortWrite, copied + int n, st1)
          else if report then (case sf_report env name (copied + int n) len st1 of (e, st2) \<Rightarrow> (e, copied + int n, st2))
          else (None, copied + int n, st1))"

lemma sf_block_count: "sf_block env report name len dst copied d st = (None, copied', st') \<Longrightarrow> copied' = copied + int (length d)"
  by (auto simp: sf_block_def split: if_splits prod.splits option.splits)

lemma block_fits: "d \<noteq> [] \<Longrightarrow> \<not> len - copied < int (length d) \<Longrightarrow> copied < len"
  by (cases d) auto

function sf_copy_loop :: "sf_env \<Rightarrow> bool \<Rightarrow> string \<Rightarrow> int \<Rightarrow> sf_path \<Rightarrow> sf_path option \<Rightarrow> int \<Rightarrow> string \<Rightarrow> sf_state \<Rightarrow>
    int \<times> goerr option \<times> string \<times> sf_state" where
  "sf_copy_loop env report name len src dst copied seen st =
     (case sf_check env st of
        (Some e, st1) \<Rightarrow> (copied, Some e, seen, st1)
      | (None, st1) \<Rightarrow>
          (case sa_read env (sf_clock st1) (sf_limit len copied) of
             (d, readErr) \<Rightarrow>
               let st2 = sf_emit (SfRead src d) st1; seen2 = seen @ d
               in if int (length d) > len - copied then (copied, Some (ErrText ''file grew during transfer''), seen2, st2)
                  else case sf_block env report name len dst copied d st2 of
                    (Some e, copied2, st3) \<Rightarrow> (copied2, Some e, seen2, st3)
                  | (None, copied2, st3) \<Rightarrow>
                      (case sf_read_end len copied2 d readErr of
                         Some e \<Rightarrow> (copied2, e, seen2, st3)
                       | None \<Rightarrow> sf_copy_loop env report name len src dst copied2 seen2 st3)))"
  by pat_completeness auto
termination
  by (relation "measure (\<lambda>(env, report, name, len, src, dst, copied, seen, st). nat (len - copied))")
    (auto dest!: sf_block_count [OF sym] intro: block_fits simp: sf_read_end_def split: if_splits option.splits)

declare sf_copy_loop.simps [simp del]

definition copySSHFile :: "sf_env \<Rightarrow> bool \<Rightarrow> string \<Rightarrow> int \<Rightarrow> sf_path \<Rightarrow> sf_path option \<Rightarrow> sf_state \<Rightarrow>
    int \<times> goerr option \<times> string \<times> sf_state" where
  "copySSHFile env report name len src dst st =
     (if len < 0 then (0, Some (ErrText ''invalid negative file size''), [], st)
      else case sf_check env st of
        (Some e, st1) \<Rightarrow> (0, Some e, [], st1)
      | (None, st1) \<Rightarrow>
          (case (if report then sf_report env name 0 len st1 else (None, st1)) of
             (Some e, st2) \<Rightarrow> (0, Some e, [], st2)
           | (None, st2) \<Rightarrow> sf_copy_loop env report name len src dst 0 [] st2))"

definition copySSHFileChecked :: "sf_env \<Rightarrow> sf_request \<Rightarrow> string \<Rightarrow> int \<Rightarrow> sf_path \<Rightarrow> sf_path \<Rightarrow> sf_state \<Rightarrow>
    int \<times> string \<times> goerr option \<times> sf_state" where
  "copySSHFileChecked env r name len src dst st =
     (case copySSHFile env True name len src (Some dst) st of
        (n, e, seen, st1) \<Rightarrow> (n, if sq_verify r = ''sha256'' then sa_sha256 env seen else [], e, st1))"

section \<open>Verification\<close>

definition hashSSHFile :: "sf_env \<Rightarrow> int \<Rightarrow> sf_path \<Rightarrow> sf_state \<Rightarrow> (goerr + string) \<times> sf_state" where
  "hashSSHFile env len p st =
     (case sf_check env st of
        (Some e, st1) \<Rightarrow> (Inl e, st1)
      | (None, st1) \<Rightarrow>
          (case sf_do env (SfOpen p) st1 of
             (Some e, st2) \<Rightarrow> (Inl e, st2)
           | (None, st2) \<Rightarrow>
               (case copySSHFile env False [] len p None st2 of
                  (n, readErr, seen, st3) \<Rightarrow>
                    (case sf_do env (SfClose p) st3 of
                       (closeErr, st4) \<Rightarrow>
                         (case err_join readErr closeErr of Some e \<Rightarrow> (Inl e, st4) | None \<Rightarrow> (Inr (sa_sha256 env seen), st4))))))"

definition startSSHVerification :: "sf_env \<Rightarrow> string \<Rightarrow> sf_state \<Rightarrow> sf_result" where
  "startSSHVerification env name st = (if sa_verification env then sf_do env (SfVerification name [] []) st else (None, st))"

definition finishSSHVerification :: "sf_env \<Rightarrow> string \<Rightarrow> string \<Rightarrow> string \<Rightarrow> sf_state \<Rightarrow> sf_result" where
  "finishSSHVerification env name source destination st =
     (if source \<noteq> destination then (Some (ErrText ''SHA-256 mismatch''), st)
      else if sa_verification env then sf_do env (SfVerification name source destination) st else (None, st))"

definition verifySSHCopy :: "sf_env \<Rightarrow> sf_request \<Rightarrow> string \<Rightarrow> int \<Rightarrow> string \<Rightarrow> sf_path \<Rightarrow> sf_state \<Rightarrow> sf_result" where
  "verifySSHCopy env r name len source p st =
     (if sq_verify r \<noteq> ''sha256'' then (None, st)
      else sf_then (startSSHVerification env name st) (\<lambda>st1.
        case hashSSHFile env len p st1 of
          (Inl e, st2) \<Rightarrow> (Some (ErrWrap e ''verify SHA-256''), st2)
        | (Inr destination, st2) \<Rightarrow> finishSSHVerification env name source destination st2))"

definition completeSSHFile :: "sf_request \<Rightarrow> sf_state \<Rightarrow> sf_state" where
  "completeSSHFile r st =
     st\<lparr>sf_files := sf_files st + 1, sf_verified := (if sq_verify r = ''sha256'' then sf_verified st + 1 else sf_verified st)\<rparr>"

section \<open>Staged replacement\<close>

definition sshTemporaryName :: "sf_env \<Rightarrow> sf_state \<Rightarrow> (goerr + string) \<times> sf_state" where
  "sshTemporaryName env st =
     ((case sa_nonce env (sf_clock st) of Inl e \<Rightarrow> Inl e | Inr nonce \<Rightarrow> Inr (''.channelterm-'' @ nonce @ ''.part'')), sf_tick st)"

text \<open>The part of a path up to its last separator, as it is.\<close>

definition sf_parent :: "string \<Rightarrow> string" where
  "sf_parent target = rev (dropWhile (\<lambda>c. c \<noteq> CHR ''/'') (rev target))"

text \<open>What a copy wrote is counted, whatever comes of it; then the file is closed, after a sync where one is due.\<close>

definition sf_copy_close :: "sf_env \<Rightarrow> sf_request \<Rightarrow> bool \<Rightarrow> string \<Rightarrow> int \<Rightarrow> sf_path \<Rightarrow> sf_path \<Rightarrow> sf_state \<Rightarrow> string \<times> goerr option \<times> sf_state" where
  "sf_copy_close env r sync name len src dst st =
     (case copySSHFileChecked env r name len src dst st of
        (n, digest, copyErr, st1) \<Rightarrow>
          let st2 = st1\<lparr>sf_bytes := sf_bytes st1 + n\<rparr>;
              (copyErr2, st3) = (if sync \<and> copyErr = None then sf_do env (SfSync dst) st2 else (copyErr, st2));
              (closeErr, st4) = sf_do env (SfClose dst) st3
          in (digest, err_join copyErr2 closeErr, st4))"

text \<open>The common body: copy, verify, context, rename.\<close>

definition sf_stage :: "sf_env \<Rightarrow> sf_request \<Rightarrow> bool \<Rightarrow> string \<Rightarrow> int \<Rightarrow> sf_path \<Rightarrow> sf_path \<Rightarrow> sf_path \<Rightarrow> sf_state \<Rightarrow> sf_result" where
  "sf_stage env r sync name len src temporary target st =
     (case sf_copy_close env r sync name len src temporary st of
        (digest, Some e, st1) \<Rightarrow> (Some e, st1)
      | (digest, None, st1) \<Rightarrow>
          sf_then (verifySSHCopy env r name len digest temporary st1) (\<lambda>st2.
          sf_then (sf_check env st2) (\<lambda>st3.
          sf_do env (SfRename temporary target True) st3)))"

text \<open>The deferred removal: only what was not renamed.\<close>

definition sf_commit :: "sf_env \<Rightarrow> sf_request \<Rightarrow> sf_path \<Rightarrow> sf_result \<Rightarrow> sf_result" where
  "sf_commit env r temporary result =
     (case result of
        (None, st) \<Rightarrow> (None, completeSSHFile r st)
      | (Some e, st) \<Rightarrow>
          (case sf_do env (SfRemove temporary False) st of
             (None, st1) \<Rightarrow> (Some e, st1)
           | (Some c, st1) \<Rightarrow> (Some (ErrJoin e (ErrWrap c ''temporary file may remain'')), st1)))"

definition replaceSFTPUpload :: "sf_env \<Rightarrow> sf_request \<Rightarrow> string \<Rightarrow> string \<Rightarrow> int \<Rightarrow> sf_path \<Rightarrow> sf_state \<Rightarrow> sf_result" where
  "replaceSFTPUpload env r target name len src st =
     (case sshTemporaryName env st of
        (Inl e, st1) \<Rightarrow> (Some e, st1)
      | (Inr t, st1) \<Rightarrow>
          let temporary = (SfRemote, sf_parent target @ t)
          in sf_then (sf_do env (SfCreate temporary True) st1) (\<lambda>st2.
             sf_commit env r temporary (sf_stage env r False name len src temporary (SfRemote, target) st2)))"

definition replaceSFTPDownload :: "sf_env \<Rightarrow> sf_request \<Rightarrow> string \<Rightarrow> string \<Rightarrow> int \<Rightarrow> sf_path \<Rightarrow> sf_state \<Rightarrow> sf_result" where
  "replaceSFTPDownload env r target name len src st =
     (case sshTemporaryName env st of
        (Inl e, st1) \<Rightarrow> (Some e, st1)
      | (Inr t, st1) \<Rightarrow>
          let temporary = (SfLocal, path_Join [path_Dir target, t])
          in sf_then (sf_do env (SfCreate temporary True) st1) (\<lambda>st2.
             sf_commit env r temporary (sf_stage env r True name len src temporary (SfLocal, target) st2)))"

section \<open>Upload\<close>

definition sf_stat :: "sf_env \<Rightarrow> sf_path \<Rightarrow> sf_state \<Rightarrow> (goerr + sf_info) \<times> sf_state" where
  "sf_stat env p st = (sa_stat env (sf_clock st) p, sf_tick st)"

definition trim_prefix :: "string \<Rightarrow> string \<Rightarrow> string" where
  "trim_prefix s prefix = (if has_prefix s prefix then drop (length prefix) s else s)"

definition sshRemoteChild :: "string \<Rightarrow> string \<Rightarrow> string" where
  "sshRemoteChild parent name = trim_right_byte (CHR ''/'') parent @ ''/'' @ name"

text \<open>A handle that is closed when its function returns; the error of the close is dropped.\<close>

definition sf_closing :: "sf_env \<Rightarrow> sf_path \<Rightarrow> sf_result \<Rightarrow> sf_result" where
  "sf_closing env p r = (case r of (e, st) \<Rightarrow> (e, snd (sf_do env (SfClose p) st)))"

text \<open>The direct copy: the destination itself is opened, then verified by reading it again.\<close>

definition sf_direct :: "sf_env \<Rightarrow> sf_request \<Rightarrow> string \<Rightarrow> int \<Rightarrow> sf_path \<Rightarrow> sf_path \<Rightarrow> sf_state \<Rightarrow> sf_result" where
  "sf_direct env r name len src dst st =
     sf_then (sf_do env (SfCreate dst (\<not> sq_overwrite r)) st) (\<lambda>st1.
       case sf_copy_close env r False name len src dst st1 of
         (digest, Some e, st2) \<Rightarrow> (Some e, st2)
       | (digest, None, st2) \<Rightarrow>
           (if sq_scp r then (None, st2)
            else sf_then (verifySSHCopy env r name len digest dst st2) (\<lambda>st3. (None, completeSSHFile r st3))))"

text \<open>Whether an existing destination may take an entry: the error, or whether it exists.\<close>

definition sf_existing :: "sf_request \<Rightarrow> bool \<Rightarrow> goerr + sf_info \<Rightarrow> goerr + bool" where
  "sf_existing r isDir stat =
     (case stat of
        Inl e \<Rightarrow> if err_is e FsErrNotExist then Inr False else Inl e
      | Inr x \<Rightarrow>
          if \<not> sq_overwrite r then Inl (ErrText ''destination exists'')
          else if si_kind x = SfLink \<or> (si_kind x = SfDir) \<noteq> isDir \<or> \<not> isDir \<and> si_kind x \<noteq> SfRegular
          then Inl (ErrText ''refusing to replace a symlink or different file type'')
          else Inr True)"

definition upload_entry :: "sf_env \<Rightarrow> sf_request \<Rightarrow> string \<Rightarrow> string \<Rightarrow> sf_walk_call \<Rightarrow> sf_state \<Rightarrow> sf_result" where
  "upload_entry env r name destination call st =
     (case call of (current, walkErr, kind, info) \<Rightarrow>
        case walkErr of Some e \<Rightarrow> (Some e, st)
        | None \<Rightarrow>
            sf_then (sf_check env st) (\<lambda>st1.
              if kind = SfLink then (Some (ErrText ''upload does not follow symlinks''), st1)
              else case info of Inl e \<Rightarrow> (Some e, st1)
              | Inr i \<Rightarrow>
                  let target = destination @ trim_prefix current name; (stat, st2) = sf_stat env (SfRemote, target) st1
                  in case sf_existing r (si_kind i = SfDir) stat of
                    Inl e \<Rightarrow> (Some e, st2)
                  | Inr existing \<Rightarrow>
                      if si_kind i = SfDir then (if existing then (None, st2) else sf_do env (SfMkdir (SfRemote, target)) st2)
                      else if si_kind i \<noteq> SfRegular then (Some (ErrText ''unsupported source type''), st2)
                      else sf_then (sf_do env (SfOpen (SfLocal, current)) st2) (\<lambda>st3.
                        sf_closing env (SfLocal, current)
                          (if sq_safe r then replaceSFTPUpload env r target current (si_size i) (SfLocal, current) st3
                           else sf_direct env r current (si_size i) (SfLocal, current) (SfRemote, target) st3))))"

fun upload_walk :: "sf_env \<Rightarrow> sf_request \<Rightarrow> string \<Rightarrow> string \<Rightarrow> sf_walk_call list \<Rightarrow> sf_state \<Rightarrow> sf_result" where
  "upload_walk env r name destination [] st = (None, st)"
| "upload_walk env r name destination (call # calls) st =
     sf_then (upload_entry env r name destination call st) (upload_walk env r name destination calls)"

definition uploadSFTP :: "sf_env \<Rightarrow> sf_request \<Rightarrow> sf_state \<Rightarrow> sf_result" where
  "uploadSFTP env r st =
     sf_then (if sq_safe r then (sa_posix_rename env (sf_clock st), sf_tick st) else (None, st)) (\<lambda>st1.
       case sa_abs env (sq_local r) of Inl e \<Rightarrow> (Some e, st1)
       | Inr absolute \<Rightarrow>
           sf_then (sf_do env (SfOpenRoot (path_Dir absolute)) st1) (\<lambda>st2.
             let name = path_Base absolute; (stat, st3) = sf_stat env (SfRemote, sq_remote r) st2
             in case stat of
               Inl e \<Rightarrow> if err_is e FsErrNotExist then upload_walk env r name (sq_remote r) (sa_walk env) st3 else (Some e, st3)
             | Inr x \<Rightarrow> upload_walk env r name
                 (if si_kind x = SfDir then sshRemoteChild (sq_remote r) name else sq_remote r) (sa_walk env) st3))"

section \<open>Download\<close>

definition receive_name :: "sf_env \<Rightarrow> string \<Rightarrow> string \<Rightarrow> string list \<Rightarrow> goerr option" where
  "receive_name env base path seen =
     (let parts = split_byte (CHR ''/'') path
      in if hd parts \<noteq> base then Some (ErrText ''unexpected transfer root'')
         else if \<not> list_all ValidFileName parts then Some (ErrText ''unsafe download name'')
         else if sa_lower env path \<in> set seen \<or> length seen \<ge> 100000 \<or> length parts > 128
         then Some (ErrText ''duplicate download name or tree limit exceeded'')
         else None)"

definition sf_receive :: "sf_env \<Rightarrow> sf_request \<Rightarrow> string \<Rightarrow> string \<Rightarrow> string \<Rightarrow> int \<Rightarrow> sf_kind \<Rightarrow> sf_path \<Rightarrow> sf_state \<Rightarrow> sf_result" where
  "sf_receive env r base localBase path len kind src st =
     sf_then (sf_check env st) (\<lambda>st1.
       case receive_name env base path (sf_seen st1) of Some e \<Rightarrow> (Some e, st1)
       | None \<Rightarrow>
           let st2 = st1\<lparr>sf_seen := sf_seen st1 @ [sa_lower env path]\<rparr>;
               local = path_Join (localBase # tl (split_byte (CHR ''/'') path));
               (stat, st3) = sf_stat env (SfLocal, local) st2
           in case sf_existing r (kind = SfDir) stat of
             Inl e \<Rightarrow> (Some e, st3)
           | Inr existing \<Rightarrow>
               if kind = SfDir then (if existing then (None, st3) else sf_do env (SfMkdir (SfLocal, local)) st3)
               else if kind \<noteq> SfRegular then (Some (ErrText ''download supports only regular files and directories''), st3)
               else if sq_safe r then replaceSFTPDownload env r local path len src st3
               else sf_direct env r path len src (SfLocal, local) st3)"

function download_walk :: "sf_env \<Rightarrow> sf_request \<Rightarrow> string \<Rightarrow> string \<Rightarrow> string \<Rightarrow> string \<Rightarrow> nat \<Rightarrow> sf_state \<Rightarrow> sf_result"
  and download_children :: "sf_env \<Rightarrow> sf_request \<Rightarrow> string \<Rightarrow> string \<Rightarrow> string \<Rightarrow> string \<Rightarrow> nat \<Rightarrow> sf_info list \<Rightarrow> sf_state \<Rightarrow> sf_result" where
  "download_walk env r base localBase remote relative depth st =
     (if depth > 128 then (Some (ErrText ''remote directory depth exceeds 128''), st)
      else case sf_stat env (SfRemote, remote) st of
        (Inl e, st1) \<Rightarrow> (Some e, st1)
      | (Inr i, st1) \<Rightarrow>
          if si_kind i = SfDir then
            (if \<not> sq_recursive r then (Some (ErrText ''directory transfer requires --recursive''), st1)
             else case sf_receive env r base localBase relative (si_size i) SfDir (SfRemote, remote) st1 of
               (Some e, st2) \<Rightarrow> (Some e, st2)
             | (None, st2) \<Rightarrow>
                 (case sa_list env (sf_clock st2) remote of
                    Inl e \<Rightarrow> (Some e, sf_tick st2)
                  | Inr children \<Rightarrow> download_children env r base localBase remote relative depth children (sf_tick st2)))
          else if si_kind i \<noteq> SfRegular then (Some (ErrText ''SFTP download does not follow symlinks or special files''), st1)
          else sf_then (sf_do env (SfOpen (SfRemote, remote)) st1) (\<lambda>st2.
            sf_closing env (SfRemote, remote) (sf_receive env r base localBase relative (si_size i) SfRegular (SfRemote, remote) st2)))"
| "download_children env r base localBase remote relative depth [] st = (None, st)"
| "download_children env r base localBase remote relative depth (child # children) st =
     (if \<not> ValidFileName (si_name child) then (Some (ErrText ''unsafe remote directory entry''), st)
      else case download_walk env r base localBase (sshRemoteChild remote (si_name child)) (path_Join [relative, si_name child]) (Suc depth) st of
        (Some e, st1) \<Rightarrow> (Some e, st1)
      | (None, st1) \<Rightarrow> download_children env r base localBase remote relative depth children st1)"
  by pat_completeness auto
termination
  by (relation "inv_image (less_than <*lex*> less_than) (case_sum (\<lambda>(env, r, base, localBase, remote, relative, depth, st). (130 - depth, 0))
       (\<lambda>(env, r, base, localBase, remote, relative, depth, children, st). (129 - depth, Suc (length children))))") auto

declare download_walk.simps [simp del] download_children.simps [simp del]

definition downloadSSH :: "sf_env \<Rightarrow> sf_request \<Rightarrow> sf_state \<Rightarrow> sf_result" where
  "downloadSSH env r st =
     (let base = path_Base (path_Clean (sq_remote r))
      in if \<not> ValidFileName base then (Some (ErrText ''remote source must name a portable file or directory''), st)
         else case sa_abs env (sq_local r) of Inl e \<Rightarrow> (Some e, st)
         | Inr absolute \<Rightarrow>
             (case sf_stat env (SfLocal, absolute) st of
                (stat, st1) \<Rightarrow>
                  (case (case stat of
                           Inr x \<Rightarrow> Inr (if si_kind x = SfDir then path_Join [absolute, base] else absolute)
                         | Inl e \<Rightarrow> if err_is e FsErrNotExist then Inr absolute else Inl e) of
                     Inl e \<Rightarrow> (Some e, st1)
                   | Inr destination \<Rightarrow>
                       sf_then (sf_do env (SfOpenRoot (path_Dir destination)) st1) (\<lambda>st2.
                         download_walk env r base (path_Base destination) (sq_remote r) base 0 st2))))"

section \<open>One operation\<close>

definition validateSSHFiles :: "sf_request \<Rightarrow> goerr option" where
  "validateSSHFiles r =
     (let copy = (sq_operation r = ''put'' \<or> sq_operation r = ''get'') in
      if sq_verify r \<notin> {[], ''none'', ''sha256''} then Some (ErrText ''verify must be none or sha256'')
      else if sq_verify r = ''sha256'' \<and> \<not> copy then Some (ErrText ''SHA-256 verification requires put or get'')
      else if sq_safe r \<and> (\<not> (sq_protocol_ok r \<and> \<not> sq_scp r) \<or> \<not> sq_overwrite r \<or> \<not> copy)
      then Some (ErrText ''safe replacement requires SFTP put/get and explicit overwrite'')
      else if \<not> sq_protocol_ok r then Some (ErrText ''protocol must be sftp or scp'')
      else if sq_remote r = [] \<or> CHR 0x00 \<in> set (sq_remote r) then Some (ErrText ''remote path is required and must not contain NUL'')
      else if sq_scp r \<and> \<not> copy then Some (ErrText ''SCP supports put and get; use SFTP for file management'')
      else if copy then (if sq_local r = [] then Some (ErrText ''local path is required'') else None)
      else if sq_operation r = ''rename'' then
        (if sq_target r = [] \<or> CHR 0x00 \<in> set (sq_target r) then Some (ErrText ''rename target is required and must not contain NUL'') else None)
      else if sq_operation r \<in> {''ls'', ''stat'', ''mkdir'', ''rm'', ''rmdir''} then None
      else Some (ErrText ''unknown SSH file operation''))"

fun validate_walk :: "sf_env \<Rightarrow> sf_walk_call list \<Rightarrow> sf_state \<Rightarrow> sf_result" where
  "validate_walk env [] st = (None, st)"
| "validate_walk env ((current, walkErr, kind, info) # calls) st =
     sf_then (sf_check env st) (\<lambda>st1.
       case walkErr of Some e \<Rightarrow> (Some e, st1)
       | None \<Rightarrow>
           if \<not> ValidFileName (path_Base current) then (Some (ErrText ''unsupported filename''), st1)
           else case info of Inl e \<Rightarrow> (Some e, st1)
           | Inr i \<Rightarrow>
               if si_kind i \<noteq> SfDir \<and> si_kind i \<noteq> SfRegular then (Some (ErrText ''only regular files and directories may be uploaded''), st1)
               else validate_walk env calls st1)"

definition validateUploadTree :: "sf_env \<Rightarrow> string \<Rightarrow> bool \<Rightarrow> sf_state \<Rightarrow> sf_result" where
  "validateUploadTree env local recursive st =
     (case sa_abs env local of Inl e \<Rightarrow> (Some e, st)
      | Inr absolute \<Rightarrow>
          (case sf_stat env (SfLocal, absolute) st of
             (Inl e, st1) \<Rightarrow> (Some e, st1)
           | (Inr i, st1) \<Rightarrow>
               if si_kind i = SfDir \<and> \<not> recursive then (Some (ErrText ''directory transfer requires --recursive''), st1)
               else validate_walk env (sa_tree env) st1))"

text \<open>The operations of the SFTP protocol.\<close>

definition sftp_operation :: "sf_env \<Rightarrow> sf_request \<Rightarrow> sf_state \<Rightarrow> sf_result" where
  "sftp_operation env r st =
     (let remote = (SfRemote, sq_remote r); entries = (\<lambda>es st1. (None, st1\<lparr>sf_entries := es\<rparr>)) in
      if sq_operation r = ''ls'' then
        (case sa_list env (sf_clock st) (sq_remote r) of Inl e \<Rightarrow> (Some e, sf_tick st) | Inr es \<Rightarrow> entries es (sf_tick st))
      else if sq_operation r = ''stat'' then
        (case sf_stat env remote st of (Inl e, st1) \<Rightarrow> (Some e, st1) | (Inr i, st1) \<Rightarrow> entries [i] st1)
      else if sq_operation r = ''mkdir'' then sf_do env (SfMkdir remote) st
      else if sq_operation r = ''rename'' then sf_do env (SfRename remote (SfRemote, sq_target r) (sq_overwrite r)) st
      else if sq_operation r = ''rm'' \<or> sq_operation r = ''rmdir'' then sf_do env (SfRemove remote (sq_operation r = ''rmdir'')) st
      else if sq_operation r = ''put'' then uploadSFTP env r st
      else if sq_operation r = ''get'' then downloadSSH env r st
      else (None, st))"

definition runSSHFiles :: "sf_env \<Rightarrow> sf_request \<Rightarrow> sf_state \<Rightarrow> sf_result" where
  "runSSHFiles env r st =
     (case sftp_operation env r st of
        (Some e, st1) \<Rightarrow> (Some (ErrWrap (ErrWrap e (sq_operation r)) ''transfer''), st1)
      | (None, st1) \<Rightarrow> (None, st1\<lparr>sf_entries := sort_key si_name (sf_entries st1)\<rparr>))"

definition RunSSHFiles :: "sf_env \<Rightarrow> sf_request \<Rightarrow> sf_state \<Rightarrow> sf_result" where
  "RunSSHFiles env r st =
     (case validateSSHFiles r of Some e \<Rightarrow> (Some e, st)
      | None \<Rightarrow>
          sf_then (if sq_operation r = ''put'' then validateUploadTree env (sq_local r) (sq_recursive r) st else (None, st)) (\<lambda>st1.
          sf_then (sf_do env SfConnect st1) (\<lambda>st2.
            case runSSHFiles env r st2 of (err, st3) \<Rightarrow>
              case sf_do env SfDisconnect st3 of (closeErr, st4) \<Rightarrow>
                let err1 = err_join err closeErr
                in case sf_check env st4 of
                  (None, st5) \<Rightarrow> (err1, st5)
                | (Some c, st5) \<Rightarrow> (err_join (Some c) err1, st5))))"

end
