(* ===== verification/SSH_Copy.thy ===== *)
theory SSH_Copy
  imports SSH_Files
begin

text \<open>
  What one copy, one verification and one staged replacement do, as the events they add to the trace.
\<close>

section \<open>Added events\<close>

definition sf_adds :: "sf_event list \<Rightarrow> sf_state \<Rightarrow> sf_state \<Rightarrow> bool" where
  "sf_adds ext st st' \<longleftrightarrow> sf_trace st' = sf_trace st @ ext \<and> sf_seen st' = sf_seen st \<and> sf_files st' = sf_files st"

named_theorems sf_steps

lemma adds_same [sf_steps]: "sf_adds [] st st" "sf_adds [] st (sf_tick st)" "sf_adds [] st (st\<lparr>sf_bytes := n\<rparr>)"
  by (simp_all add: sf_adds_def sf_tick_def)

lemma adds_trans: "sf_adds a st s1 \<Longrightarrow> sf_adds b s1 s2 \<Longrightarrow> sf_adds (a @ b) st s2"
  by (simp add: sf_adds_def)

lemma adds_emit [sf_steps]: "sf_adds [e] st (sf_emit e st)"
  by (simp add: sf_adds_def sf_emit_def)

lemma do_adds: "sf_do env e st = (x, st') \<Longrightarrow> sf_adds [sf_answered x e] st st'"
  by (auto simp: sf_do_def sf_steps Let_def)

text \<open>The call of an event, and whether no call of a list failed.\<close>

fun ev_call :: "sf_event \<Rightarrow> sf_event" where
  "ev_call (SfFailed e) = ev_call e"
| "ev_call e = e"

lemma ev_call_answered [simp]: "ev_call (sf_answered x e) = ev_call e"
  by (cases x) simp_all

definition no_failure :: "sf_event list \<Rightarrow> bool" where
  "no_failure tr \<longleftrightarrow> (\<forall>e. SfFailed e \<notin> set tr)"

lemma no_failure_simps [simp]:
  "no_failure []" "no_failure (a @ b) \<longleftrightarrow> no_failure a \<and> no_failure b" "no_failure (e # tr) \<longleftrightarrow> (\<forall>c. e \<noteq> SfFailed c) \<and> no_failure tr"
  by (auto simp: no_failure_def)

lemma check_adds: "sf_check env st = (x, st') \<Longrightarrow> sf_adds [] st st'"
  by (auto simp: sf_check_def sf_steps)

lemma stat_adds: "sf_stat env p st = (x, st') \<Longrightarrow> sf_adds [] st st'"
  by (auto simp: sf_stat_def sf_steps)

lemma then_None: "sf_then r k = (None, st') \<longleftrightarrow> (\<exists>st1. r = (None, st1) \<and> k st1 = (None, st'))"
  by (auto simp: sf_then_def split: prod.splits option.splits)

lemma then_Some: "sf_then r k = (Some e, st') \<longleftrightarrow> r = (Some e, st') \<or> (\<exists>st1. r = (None, st1) \<and> k st1 = (Some e, st'))"
  by (auto simp: sf_then_def split: prod.splits option.splits)

lemma then_cases:
  assumes "sf_then r k = (e, st')"
  obtains x where "e = Some x" "r = (Some x, st')" | st1 where "r = (None, st1)" "k st1 = (e, st')"
  using assms by (auto simp: sf_then_def split: prod.splits option.splits)

text \<open>The bytes written to a path, those read from it, and how many reads there were.\<close>

definition written :: "sf_path \<Rightarrow> sf_event list \<Rightarrow> string" where
  "written p tr = concat (map (\<lambda>e. case e of SfWrite q d \<Rightarrow> if q = p then d else [] | _ \<Rightarrow> []) tr)"

definition bytes_read :: "sf_path \<Rightarrow> sf_event list \<Rightarrow> string" where
  "bytes_read p tr = concat (map (\<lambda>e. case e of SfRead q d \<Rightarrow> if q = p then d else [] | _ \<Rightarrow> []) tr)"

definition read_count :: "sf_event list \<Rightarrow> nat" where
  "read_count tr = length (filter (\<lambda>e. case e of SfRead q d \<Rightarrow> True | _ \<Rightarrow> False) tr)"

lemma sums_append [simp]:
  "written p (a @ b) = written p a @ written p b" "bytes_read p (a @ b) = bytes_read p a @ bytes_read p b"
  "read_count (a @ b) = read_count a + read_count b"
  by (simp_all add: written_def bytes_read_def read_count_def)

lemma sums_Nil [simp]: "written p [] = []" "bytes_read p [] = []" "read_count [] = 0"
  by (simp_all add: written_def bytes_read_def read_count_def)

lemma sums_Cons [simp]:
  "written p (e # tr) = (case e of SfWrite q d \<Rightarrow> if q = p then d else [] | _ \<Rightarrow> []) @ written p tr"
  "bytes_read p (e # tr) = (case e of SfRead q d \<Rightarrow> if q = p then d else [] | _ \<Rightarrow> []) @ bytes_read p tr"
  "read_count (e # tr) = (case e of SfRead q d \<Rightarrow> 1 | _ \<Rightarrow> 0) + read_count tr"
  by (simp_all add: written_def bytes_read_def read_count_def split: sf_event.split)

section \<open>One copy\<close>

fun copy_event :: "sf_path \<Rightarrow> sf_path option \<Rightarrow> sf_event \<Rightarrow> bool" where
  "copy_event src dst (SfRead p d) = (p = src)"
| "copy_event src dst (SfWrite p d) = (dst = Some p)"
| "copy_event src dst (SfProgress name a b) = True"
| "copy_event src dst (SfFailed e) = copy_event src dst e"
| "copy_event src dst e = False"

lemma copy_event_answered [simp]: "copy_event src dst (sf_answered x e) = copy_event src dst e"
  by (cases x) simp_all

lemma report_adds:
  assumes "sf_report env name a b st = (x, st')"
  shows "\<exists>ext. sf_adds ext st st' \<and> (\<forall>src dst. list_all (copy_event src dst) ext) \<and> (\<forall>p. written p ext = [] \<and> bytes_read p ext = []) \<and>
    read_count ext = 0 \<and> (x = None \<longrightarrow> no_failure ext)"
proof (cases "sa_progress env")
  case True
  then show ?thesis using assms do_adds [of env "SfProgress name a b" st x st']
    by (intro exI [of _ "[sf_answered x (SfProgress name a b)]"]) (cases x; simp add: sf_report_def)
next
  case False
  then show ?thesis using assms by (intro exI [of _ "[]"]) (simp add: sf_report_def sf_steps)
qed

lemma put_adds:
  assumes "sf_put env dst d st = (n, e, st')"
  shows "\<exists>ext. sf_adds ext st st' \<and> list_all (copy_event src dst) ext \<and> (\<forall>p. bytes_read p ext = []) \<and> read_count ext = 0 \<and>
    (e = None \<longrightarrow> no_failure ext \<and> (\<forall>p. dst = Some p \<longrightarrow> written p ext = take n d))"
proof (cases dst)
  case None
  then show ?thesis using assms by (intro exI [of _ "[]"]) (simp add: sf_put_def sf_steps)
next
  case (Some p)
  then have st': "st' = sf_emit (sf_answered e (SfWrite p (take n d))) st" using assms by (auto simp: sf_put_def split: prod.splits)
  show ?thesis unfolding st' using Some
    by (intro exI [of _ "[sf_answered e (SfWrite p (take n d))]"]) (cases e; simp add: sf_steps)
qed

text \<open>What one block adds.\<close>

lemma block_adds:
  assumes "sf_block env report name len dst copied d st = (e, copied', st')"
  shows "\<exists>ext. sf_adds ext st st' \<and> list_all (copy_event src dst) ext \<and> bytes_read src ext = [] \<and> read_count ext = 0 \<and>
    (e = None \<longrightarrow> copied' = copied + int (length d) \<and> no_failure ext \<and> (\<forall>p. dst = Some p \<longrightarrow> written p ext = d))"
proof (cases "d = []")
  case True
  then show ?thesis using assms by (auto simp: sf_block_def intro!: exI [of _ "[]"] sf_steps)
next
  case False
  obtain n we s1 where put: "sf_put env dst d st = (n, we, s1)" by (cases "sf_put env dst d st") auto
  obtain w where w: "sf_adds w st s1" "list_all (copy_event src dst) w" "bytes_read src w = []" "read_count w = 0"
      "we = None \<Longrightarrow> no_failure w" "\<And>p. we = None \<Longrightarrow> dst = Some p \<Longrightarrow> written p w = take n d"
    using put_adds [OF put, of src] by blast
  show ?thesis
  proof (cases "we = None \<and> n = length d \<and> report")
    case True
    obtain x s2 where r: "sf_report env name (copied + int n) len s1 = (x, s2)" by fastforce
    obtain g where g: "sf_adds g s1 s2" "list_all (copy_event src dst) g" "\<And>p. written p g = []" "bytes_read src g = []" "read_count g = 0"
        "x = None \<Longrightarrow> no_failure g"
      using report_adds [OF r] by blast
    have "st' = s2" "e = x" "copied' = copied + int n" using assms True False put r by (simp_all add: sf_block_def)
    then show ?thesis using True adds_trans [OF w(1) g(1)] g w by (intro exI [of _ "w @ g"]) auto
  next
    case no: False
    then show ?thesis using assms False put w by (auto simp: sf_block_def split: option.splits if_splits intro!: exI [of _ w])
  qed
qed

lemma copy_loop_adds:
  assumes "sf_copy_loop env report name len src dst copied seen st = (n, e, seen', st')" "copied \<le> len"
  shows "\<exists>ext. sf_adds ext st st' \<and> list_all (copy_event src dst) ext \<and> seen' = seen @ bytes_read src ext \<and>
    read_count ext \<le> nat (len - copied) + 1 \<and>
    (e = None \<longrightarrow> n = len \<and> int (length (bytes_read src ext)) = len - copied \<and> no_failure ext \<and>
       (\<forall>p. dst = Some p \<longrightarrow> written p ext = bytes_read src ext))"
  using assms
proof (induction env report name len src dst copied seen st rule: sf_copy_loop.induct)
  case (1 env report name len src dst copied seen st)
  obtain x s1 where c: "sf_check env st = (x, s1)" by fastforce
  note s1 = check_adds [OF c]
  show ?case
  proof (cases x)
    case (Some y)
    then show ?thesis using 1 c s1 by (auto simp: sf_copy_loop.simps [of env report] intro!: exI [of _ "[]"])
  next
    case None
    obtain d re where rd: "sa_read env (sf_clock s1) (sf_limit len copied) = (d, re)" by fastforce
    let ?s2 = "sf_emit (SfRead src d) s1"
    have s2: "sf_adds [SfRead src d] st ?s2" using adds_trans [OF s1 adds_emit] by simp
    show ?thesis
    proof (cases "int (length d) > len - copied")
      case True
      then show ?thesis using "1.prems" c None rd s2 by (auto simp: sf_copy_loop.simps [of env report] Let_def intro!: exI [of _ "[SfRead src d]"])
    next
      case small: False
      obtain be c2 s3 where b: "sf_block env report name len dst copied d ?s2 = (be, c2, s3)" by (cases "sf_block env report name len dst copied d ?s2") auto
      obtain w where w: "sf_adds w ?s2 s3" "list_all (copy_event src dst) w" "bytes_read src w = []" "read_count w = 0"
          "be = None \<Longrightarrow> c2 = copied + int (length d)" "be = None \<Longrightarrow> no_failure w" "\<And>p. be = None \<Longrightarrow> dst = Some p \<Longrightarrow> written p w = d"
        using block_adds [OF b, of src] by blast
      have s3: "sf_adds (SfRead src d # w) st s3" using adds_trans [OF s2 w(1)] by simp
      show ?thesis
      proof (cases be)
        case (Some y)
        then show ?thesis using "1.prems" c None rd small b s3 w
          by (auto simp: sf_copy_loop.simps [of env report] Let_def intro!: exI [of _ "SfRead src d # w"])
      next
        case bn: None
        show ?thesis
        proof (cases "sf_read_end len c2 d re")
          case (Some y)
          then show ?thesis using "1.prems" c None rd small b s3 w bn
            by (auto simp: sf_copy_loop.simps [of env report] Let_def sf_read_end_def split: if_splits option.splits intro!: exI [of _ "SfRead src d # w"])
        next
          case more: None
          then have ne: "d \<noteq> []" by (auto simp: sf_read_end_def split: if_splits option.splits)
          have c2: "c2 = copied + int (length d)" "c2 \<le> len" "nat (len - c2) < nat (len - copied)"
            using w(5) bn small ne block_fits [OF ne small] by auto
          have "sf_copy_loop env report name len src dst c2 (seen @ d) s3 = (n, e, seen', st')"
            using "1.prems"(1) c None rd small b bn more by (simp add: sf_copy_loop.simps [of env report name len src dst copied] Let_def)
          from "1.IH" [OF c [symmetric] None rd [symmetric] refl refl small b [symmetric] bn refl more this c2(2)]
          obtain g where g: "sf_adds g s3 st'" "list_all (copy_event src dst) g" "seen' = (seen @ d) @ bytes_read src g"
            "read_count g \<le> nat (len - c2) + 1" "e = None \<Longrightarrow> n = len" "e = None \<Longrightarrow> int (length (bytes_read src g)) = len - c2"
            "e = None \<Longrightarrow> no_failure g" "\<And>p. e = None \<Longrightarrow> dst = Some p \<Longrightarrow> written p g = bytes_read src g" by blast
          have "read_count g + 1 \<le> nat (len - copied) + 1" using g(4) c2(3) by linarith
          then show ?thesis
            using adds_trans [OF s3 g(1)] g(2,3,5-8) w c2 bn by (intro exI [of _ "SfRead src d # w @ g"]) auto
        qed
      qed
    qed
  qed
qed

lemma copy_adds:
  assumes "copySSHFile env report name len src dst st = (n, e, seen, st')"
  shows "\<exists>ext. sf_adds ext st st' \<and> list_all (copy_event src dst) ext \<and> seen = bytes_read src ext \<and>
    read_count ext \<le> nat len + 1 \<and>
    (e = None \<longrightarrow> n = len \<and> int (length seen) = len \<and> no_failure ext \<and> (\<forall>p. dst = Some p \<longrightarrow> written p ext = seen))"
proof (cases "len < 0")
  case True
  then show ?thesis using assms by (auto simp: copySSHFile_def intro!: exI [of _ "[]"] sf_steps)
next
  case False
  obtain x s1 where c: "sf_check env st = (x, s1)" by fastforce
  note s1 = check_adds [OF c]
  show ?thesis
  proof (cases x)
    case (Some y)
    then show ?thesis using assms c s1 False by (auto simp: copySSHFile_def intro!: exI [of _ "[]"])
  next
    case None
    obtain y s2 where r: "(if report then sf_report env name 0 len s1 else (None, s1)) = (y, s2)" by fastforce
    have "\<exists>g. sf_adds g s1 s2 \<and> list_all (copy_event src dst) g \<and> bytes_read src g = [] \<and> read_count g = 0 \<and> (\<forall>p. written p g = []) \<and>
      (y = None \<longrightarrow> no_failure g)"
    proof (cases report)
      case True
      then obtain g where "sf_adds g s1 s2" "\<forall>src dst. list_all (copy_event src dst) g" "\<forall>p. written p g = [] \<and> bytes_read p g = []"
          "read_count g = 0" "y = None \<longrightarrow> no_failure g"
        using r report_adds [of env name 0 len s1 y s2] by (simp only: if_True) blast
      then show ?thesis by blast
    next
      case False
      then show ?thesis using r by (intro exI [of _ "[]"]) (auto simp: sf_steps)
    qed
    then obtain g where g: "sf_adds g s1 s2" "list_all (copy_event src dst) g" "bytes_read src g = []" "read_count g = 0" "\<And>p. written p g = []"
      "y = None \<Longrightarrow> no_failure g" by blast
    have s2: "sf_adds g st s2" using adds_trans [OF s1 g(1)] by simp
    show ?thesis
    proof (cases y)
      case (Some z)
      then show ?thesis using assms c None r s2 g False by (auto simp: copySSHFile_def intro!: exI [of _ g])
    next
      case yn: None
      have "sf_copy_loop env report name len src dst 0 [] s2 = (n, e, seen, st')"
        using assms c None r yn False by (simp add: copySSHFile_def)
      from copy_loop_adds [OF this] False
      obtain h where h: "sf_adds h s2 st'" "list_all (copy_event src dst) h" "seen = bytes_read src h" "read_count h \<le> nat len + 1"
        "e = None \<Longrightarrow> n = len \<and> int (length (bytes_read src h)) = len \<and> no_failure h \<and> (\<forall>p. dst = Some p \<longrightarrow> written p h = bytes_read src h)" by auto
      then show ?thesis using adds_trans [OF s2 h(1)] g yn by (intro exI [of _ "g @ h"]) auto
    qed
  qed
qed

section \<open>Verification\<close>

text \<open>The verification of a path opens, reads and closes it, and reports.\<close>

fun verify_event :: "sf_path \<Rightarrow> sf_event \<Rightarrow> bool" where
  "verify_event p (SfOpen q) = (q = p)"
| "verify_event p (SfRead q d) = (q = p)"
| "verify_event p (SfClose q) = (q = p)"
| "verify_event p (SfVerification name a b) = True"
| "verify_event p (SfProgress name a b) = True"
| "verify_event p (SfFailed e) = verify_event p e"
| "verify_event p e = False"

lemma verify_event_answered [simp]: "verify_event p (sf_answered x e) = verify_event p e"
  by (cases x) simp_all

lemma answered_unread [simp]: "bytes_read p [sf_answered x (SfOpen q)] = []" "bytes_read p [sf_answered x (SfClose q)] = []"
    "bytes_read p [sf_answered x (SfVerification n a b)] = []"
  by (cases x; simp)+

lemma copy_is_verify: "copy_event p None e \<Longrightarrow> verify_event p e"
  by (induction e) auto

lemma hash_adds:
  assumes "hashSSHFile env len p st = (h, st')"
  shows "\<exists>ext. sf_adds ext st st' \<and> list_all (verify_event p) ext \<and>
    (\<forall>x. h = Inr x \<longrightarrow> x = sa_sha256 env (bytes_read p ext) \<and> no_failure ext)"
proof -
  obtain x s1 where c: "sf_check env st = (x, s1)" by fastforce
  obtain y s2 where o: "sf_do env (SfOpen p) s1 = (y, s2)" by fastforce
  obtain n re seen s3 where cp: "copySSHFile env False [] len p None s2 = (n, re, seen, s3)" by (cases "copySSHFile env False [] len p None s2") auto
  obtain ce s4 where cl: "sf_do env (SfClose p) s3 = (ce, s4)" by fastforce
  note s1 = check_adds [OF c] and s2 = do_adds [OF o] and s4 = do_adds [OF cl]
  obtain g where g: "sf_adds g s2 s3" "list_all (copy_event p None) g" "seen = bytes_read p g" "re = None \<Longrightarrow> no_failure g"
    using copy_adds [OF cp] by blast
  have v: "list_all (verify_event p) g" using g(2) copy_is_verify by (auto simp: list_all_iff)
  have 2: "sf_adds [sf_answered y (SfOpen p)] st s2" using adds_trans [OF s1 s2] by simp
  let ?all = "[sf_answered y (SfOpen p)] @ g @ [sf_answered ce (SfClose p)]"
  have 4: "sf_adds ?all st s4" using adds_trans [OF adds_trans [OF 2 g(1)] s4] by simp
  have av: "list_all (verify_event p) ?all" using v by simp
  have ar: "bytes_read p ?all = bytes_read p g" by (cases y; cases ce) simp_all
  show ?thesis
  proof (cases "x = None \<and> y = None")
    case True
    then have r: "hashSSHFile env len p st = (case err_join re ce of Some e \<Rightarrow> (Inl e, s4) | None \<Rightarrow> (Inr (sa_sha256 env seen), s4))"
      unfolding hashSSHFile_def c o cp cl prod.case by (simp add: o cp cl)
    have st': "st' = s4" "h = (case err_join re ce of Some e \<Rightarrow> Inl e | None \<Rightarrow> Inr (sa_sha256 env seen))"
      using assms unfolding r by (auto split: option.splits)
    have "z = sa_sha256 env (bytes_read p ?all) \<and> no_failure ?all" if "h = Inr z" for z
    proof -
      have "re = None" "ce = None" "z = sa_sha256 env seen" using st'(2) that by (auto simp: err_join_def split: option.splits)
      then show ?thesis using ar g(3,4) True by simp
    qed
    then show ?thesis using 4 av st'(1) by (intro exI [of _ ?all]) simp
  next
    case False
    then have "(st' = s1 \<or> st' = s2) \<and> (\<forall>z. h \<noteq> Inr z)" using assms c o by (auto simp: hashSSHFile_def split: option.splits)
    then show ?thesis using s1 2 by (elim conjE disjE) (auto intro: exI [of _ "[]"] exI [of _ "[sf_answered y (SfOpen p)]"])
  qed
qed

lemma verification_adds:
  "startSSHVerification env name st = (e, st') \<Longrightarrow>
     \<exists>ext. sf_adds ext st st' \<and> list_all (verify_event p) ext \<and> bytes_read p ext = [] \<and> (e = None \<longrightarrow> no_failure ext)"
  "finishSSHVerification env name a b st = (e, st') \<Longrightarrow>
     \<exists>ext. sf_adds ext st st' \<and> list_all (verify_event p) ext \<and> bytes_read p ext = [] \<and> (e = None \<longrightarrow> a = b \<and> no_failure ext)"
proof -
  have one: "\<exists>ext. sf_adds ext st st' \<and> list_all (verify_event p) ext \<and> bytes_read p ext = [] \<and> (e = None \<longrightarrow> no_failure ext)"
    if "sf_do env (SfVerification n x y) st = (e, st')" for n x y
    using do_adds [OF that] by (intro exI [of _ "[sf_answered e (SfVerification n x y)]"]) (cases e; simp)
  have none: "\<exists>ext. sf_adds ext st st \<and> list_all (verify_event p) ext \<and> bytes_read p ext = [] \<and> no_failure ext"
    by (intro exI [of _ "[]"]) (simp add: sf_steps)
  show "startSSHVerification env name st = (e, st') \<Longrightarrow>
     \<exists>ext. sf_adds ext st st' \<and> list_all (verify_event p) ext \<and> bytes_read p ext = [] \<and> (e = None \<longrightarrow> no_failure ext)"
    using one none by (auto simp: startSSHVerification_def split: if_splits)
  show "finishSSHVerification env name a b st = (e, st') \<Longrightarrow>
     \<exists>ext. sf_adds ext st st' \<and> list_all (verify_event p) ext \<and> bytes_read p ext = [] \<and> (e = None \<longrightarrow> a = b \<and> no_failure ext)"
    using one [of name a b] none by (cases "a = b") (auto simp: finishSSHVerification_def split: if_splits)
qed

lemma verify_adds:
  assumes "verifySSHCopy env r name len source p st = (e, st')"
  shows "\<exists>ext. sf_adds ext st st' \<and> list_all (verify_event p) ext \<and>
    (e = None \<longrightarrow> no_failure ext \<and> (sq_verify r = ''sha256'' \<longrightarrow> sa_sha256 env (bytes_read p ext) = source))"
proof (cases "sq_verify r = ''sha256''")
  case False
  then show ?thesis using assms by (auto simp: verifySSHCopy_def intro!: exI [of _ "[]"] sf_steps)
next
  case True
  obtain x s1 where b: "startSSHVerification env name st = (x, s1)" by fastforce
  obtain f where f: "sf_adds f st s1" "list_all (verify_event p) f" "bytes_read p f = []" "x = None \<Longrightarrow> no_failure f"
    using verification_adds(1) [OF b] by blast
  obtain h s2 where hh: "hashSSHFile env len p s1 = (h, s2)" by fastforce
  obtain g where g: "sf_adds g s1 s2" "list_all (verify_event p) g" "\<And>x. h = Inr x \<Longrightarrow> x = sa_sha256 env (bytes_read p g) \<and> no_failure g"
    using hash_adds [OF hh] by blast
  note fg = adds_trans [OF f(1) g(1)]
  show ?thesis
  proof (cases "x = None \<and> (\<exists>d. h = Inr d)")
    case no: False
    then have "(st' = s1 \<or> st' = s2) \<and> e \<noteq> None" using assms True b hh by (auto simp: verifySSHCopy_def sf_then_def split: option.splits sum.splits)
    then show ?thesis using f fg g(2) by (elim conjE disjE) (auto intro: exI [of _ f] exI [of _ "f @ g"])
  next
    case yes: True
    then obtain d where d: "h = Inr d" by blast
    have "finishSSHVerification env name source d s2 = (e, st')" using assms True b hh yes d by (simp add: verifySSHCopy_def sf_then_def)
    then obtain k where k: "sf_adds k s2 st'" "list_all (verify_event p) k" "bytes_read p k = []" "e = None \<Longrightarrow> source = d \<and> no_failure k"
      using verification_adds(2) by blast
    show ?thesis using adds_trans [OF fg k(1)] f g(2) g(3) [OF d] k d yes by (intro exI [of _ "f @ g @ k"]) auto
  qed
qed

section \<open>Staged replacement\<close>

text \<open>
  A whole copy behind the creation of its file: its body reads exactly \<open>len\<close> bytes of the source, writes them, and syncs them where that is
  due; then the close succeeds; then the check reads the file back where verification is asked for. No call of it fails.
\<close>

definition whole_copy :: "sf_env \<Rightarrow> sf_request \<Rightarrow> bool \<Rightarrow> int \<Rightarrow> sf_path \<Rightarrow> sf_path \<Rightarrow> sf_event list \<Rightarrow> bool" where
  "whole_copy env r sync len src p mid \<longleftrightarrow>
     (\<exists>body check. mid = body @ SfClose p # check \<and> no_failure mid \<and> int (length (bytes_read src body)) = len \<and>
        written p body = bytes_read src body \<and> written p check = [] \<and> (sync \<longrightarrow> SfSync p \<in> set body) \<and>
        (sq_verify r = ''sha256'' \<longrightarrow> sa_sha256 env (bytes_read p check) = sa_sha256 env (bytes_read src body)))"

definition stage_event :: "sf_path \<Rightarrow> sf_path \<Rightarrow> sf_event \<Rightarrow> bool" where
  "stage_event src temp e \<longleftrightarrow> copy_event src (Some temp) e \<or> ev_call e = SfSync temp \<or> verify_event temp e"

lemma copy_close_adds:
  assumes "sf_copy_close env r sync name len src dst st = (digest, e, st')"
  shows "\<exists>body x. sf_adds (body @ [sf_answered x (SfClose dst)]) st st' \<and> list_all (stage_event src dst) (body @ [sf_answered x (SfClose dst)]) \<and>
    (e = None \<longrightarrow> x = None \<and> no_failure body \<and> int (length (bytes_read src body)) = len \<and> written dst body = bytes_read src body \<and>
       (sync \<longrightarrow> SfSync dst \<in> set body) \<and> (sq_verify r = ''sha256'' \<longrightarrow> digest = sa_sha256 env (bytes_read src body)))"
proof -
  obtain n e1 seen s1 where cp: "copySSHFile env True name len src (Some dst) st = (n, e1, seen, s1)"
    by (cases "copySSHFile env True name len src (Some dst) st") auto
  obtain g where g: "sf_adds g st s1" "list_all (copy_event src (Some dst)) g" "seen = bytes_read src g"
    "e1 = None \<Longrightarrow> int (length seen) = len \<and> no_failure g \<and> written dst g = seen" using copy_adds [OF cp] by blast
  let ?s2 = "s1\<lparr>sf_bytes := sf_bytes s1 + n\<rparr>"
  have s2: "sf_adds g st ?s2" using adds_trans [OF g(1) adds_same(3)] by simp
  obtain e2 s3 where sy: "(if sync \<and> e1 = None then sf_do env (SfSync dst) ?s2 else (e1, ?s2)) = (e2, s3)" by fastforce
  obtain h where h: "sf_adds h ?s2 s3" "list_all (stage_event src dst) h" "e2 = None \<Longrightarrow> e1 = None \<and> no_failure h \<and> (sync \<longrightarrow> SfSync dst \<in> set h)"
    "bytes_read src h = []" "written dst h = []"
  proof (cases "sync \<and> e1 = None")
    case True
    then have "sf_do env (SfSync dst) ?s2 = (e2, s3)" using sy by simp
    from do_adds [OF this] True show ?thesis
      by (intro that [of "[sf_answered e2 (SfSync dst)]"]) (cases e2; simp add: stage_event_def)+
  next
    case False
    then show ?thesis using sy that [of "[]"] by (auto simp: sf_steps)
  qed
  obtain ce s4 where cl: "sf_do env (SfClose dst) s3 = (ce, s4)" by fastforce
  have 4: "sf_adds ((g @ h) @ [sf_answered ce (SfClose dst)]) st s4"
    using adds_trans [OF adds_trans [OF s2 h(1)] do_adds [OF cl]] by simp
  have r: "st' = s4" "e = err_join e2 ce" "digest = (if sq_verify r = ''sha256'' then sa_sha256 env seen else [])"
    using assms unfolding sf_copy_close_def copySSHFileChecked_def cp prod.case Let_def sy cl by simp_all
  have none: "e2 = None \<and> ce = None" if "e = None" using r(2) that by (auto simp: err_join_def split: option.splits)
  have "list_all (stage_event src dst) ((g @ h) @ [sf_answered ce (SfClose dst)])"
    using g(2) h(2) by (auto simp: stage_event_def list_all_iff)
  moreover have "ce = None \<and> no_failure (g @ h) \<and> int (length (bytes_read src (g @ h))) = len \<and> written dst (g @ h) = bytes_read src (g @ h) \<and>
       (sync \<longrightarrow> SfSync dst \<in> set (g @ h)) \<and> (sq_verify r = ''sha256'' \<longrightarrow> digest = sa_sha256 env (bytes_read src (g @ h)))"
    if "e = None"
  proof -
    have e: "e1 = None" "ce = None" "no_failure h" "sync \<longrightarrow> SfSync dst \<in> set h" using none [OF that] h(3) by auto
    then show ?thesis using g(3) g(4) [OF e(1)] h(4,5) r(3) by simp
  qed
  ultimately show ?thesis using 4 unfolding r(1) by blast
qed

lemma verify_reads_only: "list_all (verify_event p) ext \<Longrightarrow> written q ext = []"
  by (induction ext) (auto split: sf_event.splits elim!: verify_event.elims)

text \<open>What a staged copy adds: when its rename is tried, everything before it is a whole copy.\<close>

lemma stage_adds:
  assumes "sf_stage env r sync name len src temp target st = (e, st')"
  shows "\<exists>mid. list_all (stage_event src temp) mid \<and>
    (e \<noteq> None \<and> sf_adds mid st st' \<or>
     sf_adds (mid @ [sf_answered e (SfRename temp target True)]) st st' \<and> whole_copy env r sync len src temp mid)"
proof -
  obtain digest e1 s1 where c: "sf_copy_close env r sync name len src temp st = (digest, e1, s1)"
    by (cases "sf_copy_close env r sync name len src temp st") auto
  obtain body x where g: "sf_adds (body @ [sf_answered x (SfClose temp)]) st s1"
      "list_all (stage_event src temp) (body @ [sf_answered x (SfClose temp)])"
    "e1 = None \<Longrightarrow> x = None \<and> no_failure body \<and> int (length (bytes_read src body)) = len \<and> written temp body = bytes_read src body \<and>
       (sync \<longrightarrow> SfSync temp \<in> set body) \<and> (sq_verify r = ''sha256'' \<longrightarrow> digest = sa_sha256 env (bytes_read src body))"
    using copy_close_adds [OF c] by blast
  let ?g = "body @ [sf_answered x (SfClose temp)]"
  show ?thesis
  proof (cases e1)
    case (Some y)
    then have "st' = s1" "e \<noteq> None" using assms c by (auto simp: sf_stage_def)
    then show ?thesis using g(1,2) by (intro exI [of _ ?g]) simp
  next
    case None
    note full = g(3) [OF None]
    obtain e2 s2 where v: "verifySSHCopy env r name len digest temp s1 = (e2, s2)" by fastforce
    obtain h where h: "sf_adds h s1 s2" "list_all (verify_event temp) h"
      "e2 = None \<Longrightarrow> no_failure h \<and> (sq_verify r = ''sha256'' \<longrightarrow> sa_sha256 env (bytes_read temp h) = digest)" using verify_adds [OF v] by blast
    have sh: "list_all (stage_event src temp) (?g @ h)" using g(2) h(2) by (auto simp: stage_event_def list_all_iff)
    note gh = adds_trans [OF g(1) h(1)]
    obtain e3 s3 where k: "sf_check env s2 = (e3, s3)" by fastforce
    have 3: "sf_adds (?g @ h) st s3" using adds_trans [OF gh check_adds [OF k]] by simp
    obtain e4 s4 where m: "sf_do env (SfRename temp target True) s3 = (e4, s4)" by fastforce
    have 4: "sf_adds ((?g @ h) @ [sf_answered e4 (SfRename temp target True)]) st s4" using adds_trans [OF 3 do_adds [OF m]] .
    show ?thesis
    proof (cases "e2 = None \<and> e3 = None")
      case True
      then have "st' = s4" "e = e4" using assms(1) c None v k m by (simp_all add: sf_stage_def sf_then_def)
      moreover have "whole_copy env r sync len src temp (?g @ h)"
        unfolding whole_copy_def using full h(3) True verify_reads_only [OF h(2)]
        by (intro exI [of _ body] exI [of _ h]) auto
      ultimately show ?thesis using 4 sh by (intro exI [of _ "?g @ h"]) simp
    next
      case False
      then have "(st' = s2 \<or> st' = s3) \<and> e \<noteq> None" using assms(1) c None v k by (auto simp: sf_stage_def sf_then_def split: option.splits)
      then show ?thesis using gh 3 sh by (elim conjE disjE) (auto intro!: exI [of _ "?g @ h"])
    qed
  qed
qed

end
