(* ===== verification/SSH_Walk.thy ===== *)
theory SSH_Walk
  imports SSH_Copy
begin

text \<open>
  The walk of a download over the remote tree keeps whatever the receipt of one entry keeps: the interface of the walk to the
  lemmas about its steps.
\<close>

text \<open>A size that was announced for a source: by \<open>Lstat\<close>, or by the listing of the upload.\<close>

definition announced :: "sf_env \<Rightarrow> sf_path \<Rightarrow> int \<Rightarrow> bool" where
  "announced env src len \<longleftrightarrow>
     (\<exists>n i. sa_stat env n src = Inr i \<and> si_size i = len) \<or>
     (\<exists>c w k i. (c, w, k, Inr i) \<in> set (sa_walk env) \<and> src = (SfLocal, c) \<and> si_size i = len)"

text \<open>The calls of a download that touch no file of the local side.\<close>

definition quiet_call :: "sf_event \<Rightarrow> bool" where
  "quiet_call e \<longleftrightarrow> (case e of SfOpen p \<Rightarrow> fst p = SfRemote | SfClose p \<Rightarrow> fst p = SfRemote | _ \<Rightarrow> False)"

lemma quiet_call_simps [simp]:
  "quiet_call (SfOpen (SfRemote, p))" "quiet_call (SfClose (SfRemote, p))"
  by (simp_all add: quiet_call_def)

locale sf_receiver =
  fixes env :: sf_env and r :: sf_request and base localBase :: string
    and ok :: "sf_state \<Rightarrow> goerr option \<Rightarrow> sf_state \<Rightarrow> bool"
  assumes seq: "ok st x s1 \<Longrightarrow> (e = None \<Longrightarrow> x = None) \<Longrightarrow> ok s1 e st' \<Longrightarrow> ok st e st'"
    and same: "sf_trace st' = sf_trace st \<Longrightarrow> sf_seen st' = sf_seen st \<Longrightarrow> ok st e st'"
    and does: "sf_do env ev st = (x, st') \<Longrightarrow> quiet_call ev \<Longrightarrow> ok st e st'"
    and receive: "sf_receive env r base localBase path len kind src st = (e, st') \<Longrightarrow> announced env src len \<Longrightarrow>
      fst src = SfRemote \<Longrightarrow> ok st e st'"
begin

lemma trans: "ok st None s1 \<Longrightarrow> ok s1 e st' \<Longrightarrow> ok st e st'"
  using seq by blast

lemma stat: "sf_stat env p st = (x, st') \<Longrightarrow> ok st e st'"
  by (rule same) (auto simp: sf_stat_def sf_tick_def)

lemma opened:
  assumes "sf_then (sf_do env ev st) k = (e, st')" "quiet_call ev" "\<And>s. k s = (e, st') \<Longrightarrow> ok s e st'"
  shows "ok st e st'"
  using assms(1)
proof (cases rule: then_cases)
  case (1 x)
  then show ?thesis using does assms(2) by blast
next
  case (2 s)
  then show ?thesis using does [OF 2(1) assms(2)] assms(3) trans by blast
qed

lemma closed:
  assumes "sf_closing env (SfRemote, p) (x, s) = (e, st')" "ok st x s"
  shows "ok st e st'"
proof -
  obtain a b where c: "sf_do env (SfClose (SfRemote, p)) s = (a, b)" by fastforce
  then show ?thesis using assms seq [OF assms(2) _ does [OF c]] by (simp add: sf_closing_def)
qed

lemma walk_steps:
  "download_walk E R B L remote relative depth st = (e, st') \<Longrightarrow> E = env \<Longrightarrow> R = r \<Longrightarrow> B = base \<Longrightarrow> L = localBase \<Longrightarrow> ok st e st'"
  "download_children E R B L remote relative depth children st = (e, st') \<Longrightarrow> E = env \<Longrightarrow> R = r \<Longrightarrow> B = base \<Longrightarrow> L = localBase \<Longrightarrow> ok st e st'"
proof (induction E R B L remote relative depth st and E R B L remote relative depth children st
    arbitrary: e st' and e st' rule: download_walk_download_children.induct)
  case (1 E R B L remote relative depth st)
  note eqs [simp] = "1.prems"(2-5)
  show ?case
  proof (cases "depth > 128")
    case True
    then show ?thesis using "1.prems" by (auto simp: download_walk.simps intro: same)
  next
    case False
    obtain stat s1 where t: "sf_stat env (SfRemote, remote) st = (stat, s1)" by fastforce
    note s1 = stat [OF t]
    show ?thesis
    proof (cases stat)
      case (Inl y)
      then show ?thesis using "1.prems"(1) False t s1 by (simp add: download_walk.simps)
    next
      case (Inr i)
      have ann: "announced env (SfRemote, remote) (si_size i)" using t Inr unfolding announced_def sf_stat_def by auto
      consider "st' = s1" | "si_kind i = SfDir" "sq_recursive r" | "si_kind i = SfRegular"
        using "1.prems"(1) False t Inr by (auto simp: download_walk.simps split: if_splits)
      then show ?thesis
      proof cases
        case 1
        then show ?thesis using s1 by blast
      next
        case 3
        have run: "sf_then (sf_do env (SfOpen (SfRemote, remote)) s1) (\<lambda>s2.
            sf_closing env (SfRemote, remote) (sf_receive env r base localBase relative (si_size i) SfRegular (SfRemote, remote) s2)) = (e, st')"
          using "1.prems"(1) False t Inr 3 by (simp add: download_walk.simps)
        have "ok s1 e st'"
        proof (rule opened [OF run])
          fix s2
          assume c: "sf_closing env (SfRemote, remote) (sf_receive env r base localBase relative (si_size i) SfRegular (SfRemote, remote) s2) = (e, st')"
          obtain x s3 where x: "sf_receive env r base localBase relative (si_size i) SfRegular (SfRemote, remote) s2 = (x, s3)" by fastforce
          show "ok s2 e st'" using closed [OF c [unfolded x]] receive [OF x ann] by simp
        qed simp
        then show ?thesis using trans [OF s1] by blast
      next
        case 2
        obtain x s2 where x: "sf_receive env r base localBase relative (si_size i) SfDir (SfRemote, remote) s1 = (x, s2)" by fastforce
        have s2: "ok st x s2" using trans [OF s1 receive [OF x ann]] by simp
        show ?thesis
        proof (cases x)
          case (Some y)
          then show ?thesis using "1.prems"(1) False t Inr 2 x s2 by (simp add: download_walk.simps)
        next
          case None
          note s2 = s2 [unfolded None]
          show ?thesis
          proof (cases "sa_list env (sf_clock s2) remote")
            case (Inl y)
            then have "st' = sf_tick s2" using "1.prems"(1) False t Inr 2 x None \<open>stat = Inr i\<close> by (simp add: download_walk.simps)
            then show ?thesis using trans [OF s2 same] by (simp add: sf_tick_def)
          next
            case (Inr children)
            then have "download_children env r base localBase remote relative depth children (sf_tick s2) = (e, st')"
              using "1.prems"(1) False t 2 x None \<open>stat = Inr i\<close> by (simp add: download_walk.simps)
            then have "ok (sf_tick s2) e st'"
              using "1.IH" [unfolded eqs, OF False t [symmetric] \<open>stat = Inr i\<close> 2(1) _ x [symmetric] None Inr] 2(2) by simp
            moreover have "ok s2 None (sf_tick s2)" by (rule same) (simp_all add: sf_tick_def)
            ultimately show ?thesis using trans s2 by blast
          qed
        qed
      qed
    qed
  qed
next
  case (2 E R B L remote relative depth st)
  note eqs [simp] = "2.prems"(2-5)
  have "st' = st" using "2.prems"(1) by (simp add: download_children.simps)
  then show ?case by (simp add: same)
next
  case (3 E R B L remote relative depth child children st)
  note eqs [simp] = "3.prems"(2-5)
  show ?case
  proof (cases "ValidFileName (si_name child)")
    case False
    then show ?thesis using "3.prems"(1) by (auto simp: download_children.simps intro: same)
  next
    case True
    obtain x s1 where w: "download_walk env r base localBase (sshRemoteChild remote (si_name child)) (path_Join [relative, si_name child]) (Suc depth) st = (x, s1)"
      by fastforce
    have s1: "ok st x s1" using "3.IH"(1) True w by simp
    show ?thesis
    proof (cases x)
      case (Some y)
      then show ?thesis using "3.prems"(1) True w s1 by (simp add: download_children.simps)
    next
      case None
      then have "download_children env r base localBase remote relative depth children s1 = (e, st')"
        using "3.prems"(1) True w by (simp add: download_children.simps)
      then have "ok s1 e st'" using "3.IH"(2) [unfolded eqs, OF _ w [symmetric] None] True by simp
      then show ?thesis using trans s1 None by blast
    qed
  qed
qed

lemmas walk_ok = walk_steps(1) [OF _ refl refl refl refl]

end

end
