(* ===== verification/SSH_Safety.thy ===== *)
theory SSH_Safety
  imports SSH_Walk
begin

text \<open>
  What a whole operation does, whatever the server, the file systems and the context answer: a successful copy is
  complete and verified, and with safe replacement nothing but complete staging files ever takes the place of a file.
\<close>

section \<open>Complete copies\<close>

text \<open>
  The events after the creation of a file that make it a complete copy of a source: exactly the announced number of bytes is read
  from the source, those bytes are written, a staging file on the local side is synced, the close succeeds, and when asked for the bytes read
  back have the same hash; no call in between fails.
\<close>

definition complete_copy :: "sf_env \<Rightarrow> sf_request \<Rightarrow> sf_path \<Rightarrow> sf_path \<Rightarrow> sf_event list \<Rightarrow> bool" where
  "complete_copy env r src p mid \<longleftrightarrow>
     src \<noteq> p \<and> (\<exists>len. announced env src len \<and> whole_copy env r (sq_safe r \<and> fst p = SfLocal) len src p mid)"

lemma whole_copy_weaken: "whole_copy env r sync len src p mid \<Longrightarrow> (sync' \<Longrightarrow> sync) \<Longrightarrow> whole_copy env r sync' len src p mid"
  unfolding whole_copy_def by blast

definition all_complete :: "sf_env \<Rightarrow> sf_request \<Rightarrow> sf_event list \<Rightarrow> bool" where
  "all_complete env r tr \<longleftrightarrow>
     (\<forall>pre p x post. tr = pre @ SfCreate p x # post \<longrightarrow> (\<exists>mid rest src. post = mid @ rest \<and> complete_copy env r src p mid))"

lemma all_complete_append:
  assumes "all_complete env r a" "all_complete env r b"
  shows "all_complete env r (a @ b)"
  unfolding all_complete_def
proof (intro allI impI)
  fix pre p x post
  assume "a @ b = pre @ SfCreate p x # post"
  then obtain us where "a = pre @ us \<and> us @ b = SfCreate p x # post \<or> a @ us = pre \<and> b = us @ SfCreate p x # post"
    unfolding append_eq_append_conv2 by blast
  then consider us where "a = pre @ SfCreate p x # us" "post = us @ b" | us where "pre = a @ us" "b = us @ SfCreate p x # post"
    by (cases us) auto
  then show "\<exists>mid rest src. post = mid @ rest \<and> complete_copy env r src p mid"
  proof cases
    case (1 us)
    then obtain mid rest src where "us = mid @ rest" "complete_copy env r src p mid" using assms(1) unfolding all_complete_def by blast
    then show ?thesis using 1 by (intro exI [of _ mid] exI [of _ "rest @ b"] exI [of _ src]) simp
  next
    case (2 us)
    then show ?thesis using assms(2) unfolding all_complete_def by blast
  qed
qed

definition creates :: "sf_event \<Rightarrow> bool" where
  "creates e \<longleftrightarrow> (case e of SfCreate p x \<Rightarrow> True | _ \<Rightarrow> False)"

lemma creates_SfCreate [simp]: "creates (SfCreate p x)"
  by (simp add: creates_def)

lemma all_complete_none: "list_all (\<lambda>e. \<not> creates e) ext \<Longrightarrow> all_complete env r ext"
  by (auto simp: all_complete_def)

lemma all_complete_one:
  assumes "list_all (\<lambda>e. \<not> creates e) mid" "list_all (\<lambda>e. \<not> creates e) rest" "complete_copy env r src p mid"
  shows "all_complete env r (SfCreate p x # mid @ rest)"
proof -
  have "list_all (\<lambda>e. \<not> creates e) (mid @ rest)" using assms by simp
  then have n: "SfCreate q y \<notin> set (mid @ rest)" for q y unfolding list_all_iff by (metis creates_SfCreate)
  show ?thesis unfolding all_complete_def
  proof (intro allI impI)
    fix pre q y post
    assume "SfCreate p x # mid @ rest = pre @ SfCreate q y # post"
    then have "pre = [] \<and> q = p \<and> post = mid @ rest" using n [of q y] by (cases pre) auto
    then show "\<exists>m t s. post = m @ t \<and> complete_copy env r s q m" using assms(3) by blast
  qed
qed

section \<open>Safe replacement\<close>

definition rename_ready :: "sf_env \<Rightarrow> sf_request \<Rightarrow> sf_event list \<Rightarrow> sf_path \<Rightarrow> bool" where
  "rename_ready env r before t \<longleftrightarrow> (\<exists>pre mid src. before = pre @ SfCreate t True # mid \<and> complete_copy env r src t mid)"

text \<open>
  What an operation with safe replacement may try, whatever the answer is: create only new files, write and remove only files that it has
  created itself before, successfully, and replace only by renaming a complete copy.
\<close>

fun safe_event :: "sf_env \<Rightarrow> sf_request \<Rightarrow> sf_event list \<Rightarrow> sf_event \<Rightarrow> bool" where
  "safe_event env r before (SfCreate p x) = x"
| "safe_event env r before (SfWrite p d) = (SfCreate p True \<in> set before)"
| "safe_event env r before (SfRemove p dir) = (\<not> dir \<and> SfCreate p True \<in> set before)"
| "safe_event env r before (SfRename t p x) = (x \<and> fst t = fst p \<and> rename_ready env r before t)"
| "safe_event env r before (SfFailed e) = safe_event env r before e"
| "safe_event env r before e = True"

definition safe_trace :: "sf_env \<Rightarrow> sf_request \<Rightarrow> sf_event list \<Rightarrow> bool" where
  "safe_trace env r tr \<longleftrightarrow> (\<forall>i < length tr. safe_event env r (take i tr) (tr ! i))"

lemma safe_Nil [simp]: "safe_trace env r []"
  by (simp add: safe_trace_def)

lemma safe_snoc [simp]: "safe_trace env r (tr @ [e]) \<longleftrightarrow> safe_trace env r tr \<and> safe_event env r tr e"
  by (auto simp: safe_trace_def less_Suc_eq nth_append)

lemma rename_ready_mono: "rename_ready env r b t \<Longrightarrow> rename_ready env r (a @ b) t"
  unfolding rename_ready_def by (metis append.assoc)

lemma safe_event_mono: "safe_event env r b e \<Longrightarrow> safe_event env r (a @ b) e"
  by (induction e) (auto intro: rename_ready_mono)

lemma safe_event_answered [simp]: "safe_event env r b (sf_answered x e) = safe_event env r b e"
  by (cases x) simp_all

lemma safe_append:
  assumes "safe_trace env r a"
  shows "safe_trace env r b \<Longrightarrow> safe_trace env r (a @ b)"
proof (induction b rule: rev_induct)
  case (snoc e b)
  then show ?case using safe_event_mono [of env r b e a] safe_snoc [of env r "a @ b" e] safe_snoc [of env r b e]
    by (simp del: safe_snoc)
qed (simp add: assms)

text \<open>Whatever was created, or written to, is renamed, successfully, or its removal is tried.\<close>

definition disposed :: "sf_event list \<Rightarrow> sf_path \<Rightarrow> bool" where
  "disposed tr t \<longleftrightarrow> (\<exists>e \<in> set tr. ev_call e = SfRemove t False) \<or> (\<exists>p. SfRename t p True \<in> set tr)"

definition settled :: "sf_event list \<Rightarrow> bool" where
  "settled tr \<longleftrightarrow> (\<forall>t. SfCreate t True \<in> set tr \<or> (\<exists>e \<in> set tr. \<exists>d. ev_call e = SfWrite t d) \<longrightarrow> disposed tr t)"

lemma settled_append: "settled a \<Longrightarrow> settled b \<Longrightarrow> settled (a @ b)"
  unfolding settled_def disposed_def set_append by blast

section \<open>Operations\<close>

text \<open>What every part of an operation keeps.\<close>

definition sf_ok :: "sf_env \<Rightarrow> sf_request \<Rightarrow> sf_state \<Rightarrow> goerr option \<Rightarrow> sf_state \<Rightarrow> bool" where
  "sf_ok env r st e st' \<longleftrightarrow>
     (\<exists>ext. sf_trace st' = sf_trace st @ ext \<and> (sq_safe r \<longrightarrow> safe_trace env r ext \<and> settled ext) \<and> (e = None \<longrightarrow> all_complete env r ext))"

lemma ok_seq: "sf_ok env r st x s1 \<Longrightarrow> (e = None \<Longrightarrow> x = None) \<Longrightarrow> sf_ok env r s1 e st' \<Longrightarrow> sf_ok env r st e st'"
  unfolding sf_ok_def by (metis append.assoc safe_append settled_append all_complete_append)

lemma ok_trans: "sf_ok env r st None s1 \<Longrightarrow> sf_ok env r s1 e st' \<Longrightarrow> sf_ok env r st e st'"
  using ok_seq by blast

text \<open>Events that neither create nor change a file.\<close>

fun harmless :: "sf_event \<Rightarrow> bool" where
  "harmless (SfCreate p x) = False"
| "harmless (SfWrite p d) = False"
| "harmless (SfRemove p x) = False"
| "harmless (SfRename p q x) = False"
| "harmless (SfFailed e) = harmless e"
| "harmless e = True"

lemma harmless_answered [simp]: "harmless (sf_answered x e) = harmless e"
  by (cases x) simp_all

lemma harmless_safe: "harmless e \<Longrightarrow> safe_event env r b e" "harmless e \<Longrightarrow> ev_call e \<noteq> SfWrite t d" "harmless e \<Longrightarrow> \<not> creates e"
  by (induction e) (auto simp: creates_def)

lemma harmless_ok:
  assumes "sf_trace st' = sf_trace st @ ext" "list_all harmless ext"
  shows "sf_ok env r st e st'"
proof -
  have "safe_trace env r ext" using assms(2)
    by (induction ext rule: rev_induct) (simp_all add: harmless_safe(1))
  moreover have "settled ext" using assms(2) harmless_safe(2) by (fastforce simp: settled_def list_all_iff)
  moreover have "all_complete env r ext"
    using assms(2) harmless_safe(3) by (intro all_complete_none) (auto simp: list_all_iff)
  ultimately show ?thesis using assms(1) unfolding sf_ok_def by blast
qed

lemma ok_do: "sf_do env ev st = (e, st') \<Longrightarrow> harmless ev \<Longrightarrow> sf_ok env r st x st'"
  by (rule harmless_ok [of _ _ "[sf_answered e ev]"]) (auto simp: sf_do_def sf_emit_def Let_def)

lemma ok_same: "sf_trace st' = sf_trace st \<Longrightarrow> sf_ok env r st e st'"
  by (rule harmless_ok [of _ _ "[]"]) simp_all

lemma ok_then:
  assumes "sf_then p k = (e, st')" "\<And>x s. p = (x, s) \<Longrightarrow> sf_ok env r st x s" "\<And>s. p = (None, s) \<Longrightarrow> k s = (e, st') \<Longrightarrow> sf_ok env r s e st'"
  shows "sf_ok env r st e st'"
  using assms(1)
proof (cases rule: then_cases)
  case (1 x)
  then show ?thesis using assms(2) by blast
next
  case (2 s)
  then show ?thesis using assms(2,3) ok_trans by blast
qed

lemma stage_event_Failed [simp]: "stage_event src temp (SfFailed e) = stage_event src temp e"
  by (simp add: stage_event_def)

lemma stage_event_facts:
  "stage_event src temp e \<Longrightarrow> \<not> creates e" "stage_event src temp e \<Longrightarrow> ev_call e = SfWrite t d \<Longrightarrow> t = temp"
  "stage_event src temp e \<Longrightarrow> SfCreate temp True \<in> set b \<Longrightarrow> safe_event env r b e"
proof -
  show "stage_event src temp e \<Longrightarrow> \<not> creates e" by (cases e) (auto simp: stage_event_def creates_def)
  show "stage_event src temp e \<Longrightarrow> ev_call e = SfWrite t d \<Longrightarrow> t = temp"
    by (induction e) (simp_all, auto simp: stage_event_def)
  show "stage_event src temp e \<Longrightarrow> SfCreate temp True \<in> set b \<Longrightarrow> safe_event env r b e"
    by (induction e) (simp_all, auto simp: stage_event_def)
qed

lemma stage_no_creates: "list_all (stage_event src temp) mid \<Longrightarrow> list_all (\<lambda>e. \<not> creates e) mid"
  using stage_event_facts(1) unfolding list_all_iff by blast

lemma stage_safe:
  assumes "list_all (stage_event src temp) mid"
  shows "safe_trace env r (SfCreate temp True # mid)"
  using assms
proof (induction mid rule: rev_induct)
  case Nil
  show ?case by (simp add: safe_trace_def)
next
  case (snoc e mid)
  then have "safe_event env r (SfCreate temp True # mid) e"
    using stage_event_facts(3) [of src temp e "SfCreate temp True # mid" env r] by simp
  then show ?case using snoc safe_snoc [of env r "SfCreate temp True # mid" e] by simp
qed

text \<open>The staged replacement of one file.\<close>

lemma commit_ok:
  assumes create: "sf_do env (SfCreate temp True) st = (None, s1)"
    and run: "sf_commit env r temp (sf_stage env r sync name len src temp target s1) = (e, st')"
    and src: "src \<noteq> temp" "announced env src len" "fst temp = fst target" "fst temp = SfLocal \<Longrightarrow> sync"
  shows "sf_ok env r st e st'"
proof -
  obtain e1 s2 where s: "sf_stage env r sync name len src temp target s1 = (e1, s2)" by fastforce
  let ?ren = "sf_answered e1 (SfRename temp target True)"
  obtain mid where mid: "list_all (stage_event src temp) mid"
    "e1 \<noteq> None \<and> sf_adds mid s1 s2 \<or> sf_adds (mid @ [?ren]) s1 s2 \<and> whole_copy env r sync len src temp mid"
    using stage_adds [OF s] by blast
  have s1: "sf_trace s1 = sf_trace st @ [SfCreate temp True]" using do_adds [OF create] by (simp add: sf_adds_def)
  let ?a = "SfCreate temp True # mid"
  have sa: "safe_trace env r ?a" by (rule stage_safe [OF mid(1)])
  have nc: "list_all (\<lambda>e. \<not> creates e) mid" by (rule stage_no_creates [OF mid(1)])
  have wr: "ev \<in> set mid \<Longrightarrow> ev_call ev = SfWrite t d \<Longrightarrow> t = temp" for ev t d
    using mid(1) stage_event_facts(2) unfolding list_all_iff by blast
  have cr: "SfCreate t x \<notin> set mid" for t x using nc unfolding list_all_iff by (metis creates_SfCreate)
  obtain tail where tl: "tail = [] \<and> e1 \<noteq> None \<or> tail = [?ren] \<and> complete_copy env r src temp mid"
    and s2': "sf_trace s2 = sf_trace s1 @ mid @ tail"
    using mid(2)
  proof (elim disjE conjE)
    assume "e1 \<noteq> None" "sf_adds mid s1 s2"
    then show ?thesis using that [of "[]"] by (simp add: sf_adds_def)
  next
    assume a: "sf_adds (mid @ [?ren]) s1 s2" "whole_copy env r sync len src temp mid"
    have "complete_copy env r src temp mid"
      unfolding complete_copy_def using src(1,2,4) whole_copy_weaken [OF a(2), of "sq_safe r \<and> fst temp = SfLocal"] by blast
    then show ?thesis using that [of "[?ren]"] a(1) by (simp add: sf_adds_def)
  qed
  have s2: "sf_trace s2 = sf_trace st @ ?a @ tail" using s2' s1 by simp
  have "rename_ready env r ?a temp" if "complete_copy env r src temp mid" unfolding rename_ready_def using that
    by (intro exI [of _ "[]"] exI [of _ mid] exI [of _ src]) simp
  then have st: "safe_trace env r (?a @ tail)" using sa tl src(3) safe_snoc [of env r ?a ?ren] by (auto simp del: safe_snoc)
  have tn: "ev \<in> set tail \<Longrightarrow> ev_call ev = SfRename temp target True" for ev using tl by (elim disjE conjE) simp_all
  have only: "t = temp" if "SfCreate t True \<in> set (?a @ tail) \<or> (\<exists>ev \<in> set (?a @ tail). \<exists>d. ev_call ev = SfWrite t d)" for t
    using that
  proof (elim disjE bexE exE)
    assume "SfCreate t True \<in> set (?a @ tail)"
    then have "t = temp \<or> SfCreate t True \<in> set tail" using cr [of t True] by simp
    then show "t = temp" using tn [of "SfCreate t True"] by (elim disjE) simp_all
  next
    fix ev d assume ev: "ev \<in> set (?a @ tail)" "ev_call ev = SfWrite t d"
    then consider "ev = SfCreate temp True" | "ev \<in> set mid" | "ev \<in> set tail" by (simp only: set_append set_simps Un_iff insert_iff) blast
    then show "t = temp"
    proof cases
      case 2
      then show ?thesis using wr ev(2) by blast
    qed (use ev(2) tn in simp_all)
  qed
  show ?thesis
  proof (cases e1)
    case None
    then have st': "e = None" "sf_trace st' = sf_trace s2" using run s by (auto simp: sf_commit_def completeSSHFile_def)
    have t: "tail = [SfRename temp target True]" "complete_copy env r src temp mid" using tl None by auto
    have "all_complete env r (?a @ tail)" using all_complete_one [OF nc _ t(2), of tail True] t(1) by (simp add: creates_def)
    moreover have "disposed (?a @ tail) temp" unfolding disposed_def using t(1) by (intro disjI2 exI [of _ target]) simp
    then have "settled (?a @ tail)" using only unfolding settled_def by blast
    ultimately show ?thesis using st' s2 st unfolding sf_ok_def by (intro exI [of _ "?a @ tail"]) simp
  next
    case (Some x)
    obtain c s3 where rm: "sf_do env (SfRemove temp False) s2 = (c, s3)" by fastforce
    let ?rm = "sf_answered c (SfRemove temp False)"
    have "st' = s3" "e \<noteq> None" using run s Some rm by (auto simp: sf_commit_def split: option.splits)
    then have "sf_trace st' = sf_trace st @ (?a @ tail) @ [?rm]" using s2 do_adds [OF rm] by (simp add: sf_adds_def)
    moreover have "safe_trace env r ((?a @ tail) @ [?rm])" using st safe_snoc [of env r "?a @ tail" ?rm] by (simp del: safe_snoc)
    moreover have "settled ((?a @ tail) @ [?rm])"
    proof -
      have "disposed ((?a @ tail) @ [?rm]) temp" unfolding disposed_def by (intro disjI1 bexI [of _ ?rm]) simp_all
      moreover have "t = temp" if "SfCreate t True \<in> set ((?a @ tail) @ [?rm]) \<or> (\<exists>ev \<in> set ((?a @ tail) @ [?rm]). \<exists>d. ev_call ev = SfWrite t d)" for t
        using that only [of t] by (cases c) auto
      ultimately show ?thesis unfolding settled_def by blast
    qed
    ultimately show ?thesis using \<open>e \<noteq> None\<close> unfolding sf_ok_def by blast
  qed
qed

lemma ok_create:
  assumes "sf_do env (SfCreate p x) st = (Some e, st')" "sq_safe r \<Longrightarrow> x"
  shows "sf_ok env r st (Some e) st'"
proof -
  have "sf_trace st' = sf_trace st @ [SfFailed (SfCreate p x)]" using do_adds [OF assms(1)] by (simp add: sf_adds_def)
  moreover have "sq_safe r \<longrightarrow> safe_trace env r [SfFailed (SfCreate p x)]" using assms(2) by (simp add: safe_trace_def)
  ultimately show ?thesis unfolding sf_ok_def by (intro exI [of _ "[SfFailed (SfCreate p x)]"]) (simp add: settled_def)
qed

lemma replace_ok:
  assumes "announced env src len"
  shows "replaceSFTPUpload env r target name len src st = (e, st') \<Longrightarrow> fst src = SfLocal \<Longrightarrow> sf_ok env r st e st'"
    "replaceSFTPDownload env r target name len src st = (e, st') \<Longrightarrow> fst src = SfRemote \<Longrightarrow> sf_ok env r st e st'"
proof -
  obtain t s1 where n: "sshTemporaryName env st = (t, s1)" by fastforce
  have s1: "sf_ok env r st None s1" using n by (intro ok_same) (auto simp: sshTemporaryName_def sf_tick_def)
  have *: "sf_ok env r st e st'"
    if run: "sf_then (sf_do env (SfCreate temp True) s1) (\<lambda>s. sf_commit env r temp (sf_stage env r sync name len src temp tg s)) = (e, st')"
      and f: "fst src \<noteq> fst temp" "fst temp = fst tg" "fst temp = SfLocal \<Longrightarrow> sync" for temp tg sync
  proof (rule ok_trans [OF s1], use run in \<open>cases rule: then_cases\<close>)
    case (1 x)
    then show "sf_ok env r s1 e st'" using ok_create by blast
  next
    case (2 s)
    then show "sf_ok env r s1 e st'" using commit_ok [OF 2 _ assms f(2,3)] f(1) by auto
  qed
  have err: "sf_ok env r st (Some x) s1" for x using n by (intro ok_same) (auto simp: sshTemporaryName_def sf_tick_def)
  show "replaceSFTPUpload env r target name len src st = (e, st') \<Longrightarrow> fst src = SfLocal \<Longrightarrow> sf_ok env r st e st'"
    using * err n by (cases t) (auto simp: replaceSFTPUpload_def Let_def)
  show "replaceSFTPDownload env r target name len src st = (e, st') \<Longrightarrow> fst src = SfRemote \<Longrightarrow> sf_ok env r st e st'"
    using * err n by (cases t) (auto simp: replaceSFTPDownload_def Let_def)
qed

text \<open>The direct copy, where nothing is promised about files that were there.\<close>

lemma direct_ok:
  assumes run: "sf_direct env r name len src dst st = (e, st')"
    and "announced env src len" "src \<noteq> dst" "\<not> sq_safe r" "\<not> sq_scp r"
  shows "sf_ok env r st e st'"
  using run unfolding sf_direct_def
proof (cases rule: then_cases)
  case (1 x)
  then show ?thesis using ok_create assms(4) by blast
next
  case (2 s1)
  obtain digest e1 s2 where c: "sf_copy_close env r False name len src dst s1 = (digest, e1, s2)"
    by (cases "sf_copy_close env r False name len src dst s1") auto
  obtain body x where g: "sf_adds (body @ [sf_answered x (SfClose dst)]) s1 s2"
      "list_all (stage_event src dst) (body @ [sf_answered x (SfClose dst)])"
    "e1 = None \<Longrightarrow> x = None \<and> no_failure body \<and> int (length (bytes_read src body)) = len \<and> written dst body = bytes_read src body \<and>
       (sq_verify r = ''sha256'' \<longrightarrow> digest = sa_sha256 env (bytes_read src body))"
    using copy_close_adds [OF c] by blast
  let ?g = "body @ [sf_answered x (SfClose dst)]"
  obtain e2 s3 where v: "verifySSHCopy env r name len digest dst s2 = (e2, s3)" by fastforce
  obtain h where h: "sf_adds h s2 s3" "list_all (verify_event dst) h"
    "e2 = None \<Longrightarrow> no_failure h \<and> (sq_verify r = ''sha256'' \<longrightarrow> sa_sha256 env (bytes_read dst h) = digest)" using verify_adds [OF v] by blast
  have s1: "sf_trace s1 = sf_trace st @ [SfCreate dst (\<not> sq_overwrite r)]" using do_adds [OF 2(1)] by (simp add: sf_adds_def)
  show ?thesis
  proof (cases "e1 = None \<and> e2 = None")
    case True
    then have st': "sf_trace st' = sf_trace st @ SfCreate dst (\<not> sq_overwrite r) # (?g @ h) @ []"
      using 2(2) c v assms(5) s1 g(1) h(1) by (auto simp: sf_then_def sf_adds_def completeSSHFile_def)
    have "list_all (stage_event src dst) (?g @ h)" using g(2) h(2) by (auto simp: stage_event_def list_all_iff)
    from stage_no_creates [OF this] have "list_all (\<lambda>e. \<not> creates e) (?g @ h)" .
    moreover have "whole_copy env r (sq_safe r \<and> fst dst = SfLocal) len src dst (?g @ h)"
      unfolding whole_copy_def using g(3) h(3) verify_reads_only [OF h(2)] True assms(4)
      by (intro exI [of _ body] exI [of _ h]) auto
    then have "complete_copy env r src dst (?g @ h)" using assms(2,3) unfolding complete_copy_def by blast
    ultimately have "all_complete env r (SfCreate dst (\<not> sq_overwrite r) # (?g @ h) @ [])"
      by (intro all_complete_one) simp_all
    then show ?thesis using st' assms(4) unfolding sf_ok_def by blast
  next
    case False
    then have "e \<noteq> None" "\<exists>ext. sf_trace st' = sf_trace st @ ext"
      using 2(2) c v assms(5) s1 g(1) h(1) by (auto simp: sf_then_def sf_adds_def split: option.splits)
    then show ?thesis using assms(4) unfolding sf_ok_def by auto
  qed
qed

section \<open>Whole transfers\<close>

lemma ok_check: "sf_check env st = (x, st') \<Longrightarrow> sf_ok env r st e st'"
  by (rule ok_same) (auto simp: sf_check_def sf_tick_def)

lemma ok_stat: "sf_stat env p st = (x, st') \<Longrightarrow> sf_ok env r st e st'"
  by (rule ok_same) (auto simp: sf_stat_def sf_tick_def)

lemma closing_ok:
  assumes "sf_closing env p (x, s) = (e, st')" "sf_ok env r st x s"
  shows "sf_ok env r st e st'"
proof -
  obtain a b where c: "sf_do env (SfClose p) s = (a, b)" by fastforce
  then show ?thesis using assms ok_seq [OF assms(2) _ ok_do [OF c]] by (simp add: sf_closing_def)
qed

lemma upload_entry_ok:
  assumes "upload_entry env r name destination call st = (e, st')" "call \<in> set (sa_walk env)" "\<not> sq_scp r"
  shows "sf_ok env r st e st'"
proof -
  obtain current w kind info where call: "call = (current, w, kind, info)" by (cases call)
  show ?thesis
  proof (cases w)
    case (Some y)
    then show ?thesis using assms(1) call ok_same [of st st] by (auto simp: upload_entry_def)
  next
    case None
    let ?target = "destination @ trim_prefix current name"
    let ?copy = "\<lambda>i s. sf_closing env (SfLocal, current)
        (if sq_safe r then replaceSFTPUpload env r ?target current (si_size i) (SfLocal, current) s
         else sf_direct env r current (si_size i) (SfLocal, current) (SfRemote, ?target) s)"
    have copy: "sf_ok env r s e st'" if "?copy i s = (e, st')" "info = Inr i" for i s
    proof -
      have a: "announced env (SfLocal, current) (si_size i)" using assms(2) call that(2) unfolding announced_def by blast
      obtain x s2 where c: "(if sq_safe r then replaceSFTPUpload env r ?target current (si_size i) (SfLocal, current) s
         else sf_direct env r current (si_size i) (SfLocal, current) (SfRemote, ?target) s) = (x, s2)" by fastforce
      have "sf_ok env r s x s2" using c replace_ok(1) [OF a] direct_ok [OF _ a] assms(3) by (auto split: if_splits)
      then show ?thesis using closing_ok that(1) unfolding c by blast
    qed
    have run: "sf_then (sf_check env st) (\<lambda>st1.
              if kind = SfLink then (Some (ErrText ''upload does not follow symlinks''), st1)
              else case info of Inl e \<Rightarrow> (Some e, st1)
              | Inr i \<Rightarrow>
                  let (stat, st2) = sf_stat env (SfRemote, ?target) st1
                  in case sf_existing r (si_kind i = SfDir) stat of
                    Inl e \<Rightarrow> (Some e, st2)
                  | Inr existing \<Rightarrow>
                      if si_kind i = SfDir then (if existing then (None, st2) else sf_do env (SfMkdir (SfRemote, ?target)) st2)
                      else if si_kind i \<noteq> SfRegular then (Some (ErrText ''unsupported source type''), st2)
                      else sf_then (sf_do env (SfOpen (SfLocal, current)) st2) (?copy i)) = (e, st')"
      using assms(1) call None unfolding upload_entry_def Let_def by simp
    show ?thesis
    proof (rule ok_then [OF run ok_check], assumption)
      fix s assume s: "(if kind = SfLink then (Some (ErrText ''upload does not follow symlinks''), s)
              else case info of Inl e \<Rightarrow> (Some e, s)
              | Inr i \<Rightarrow>
                  let (stat, st2) = sf_stat env (SfRemote, ?target) s
                  in case sf_existing r (si_kind i = SfDir) stat of
                    Inl e \<Rightarrow> (Some e, st2)
                  | Inr existing \<Rightarrow>
                      if si_kind i = SfDir then (if existing then (None, st2) else sf_do env (SfMkdir (SfRemote, ?target)) st2)
                      else if si_kind i \<noteq> SfRegular then (Some (ErrText ''unsupported source type''), st2)
                      else sf_then (sf_do env (SfOpen (SfLocal, current)) st2) (?copy i)) = (e, st')"
      show "sf_ok env r s e st'"
      proof (cases "kind = SfLink \<or> (\<exists>y. info = Inl y)")
        case True
        then show ?thesis using s ok_same [of s s] by (cases "kind = SfLink") auto
      next
        case False
        then obtain i where i: "info = Inr i" by (cases info) auto
        obtain stat s2 where t: "sf_stat env (SfRemote, ?target) s = (stat, s2)" by fastforce
        note s2 = ok_stat [OF t]
        show ?thesis
        proof (cases "sf_existing r (si_kind i = SfDir) stat")
          case (Inl y)
          then show ?thesis using s False i t s2 by auto
        next
          case (Inr existing)
          consider "st' = s2" | "sf_do env (SfMkdir (SfRemote, ?target)) s2 = (e, st')"
            | "sf_then (sf_do env (SfOpen (SfLocal, current)) s2) (?copy i) = (e, st')"
            using s False i t Inr by (auto split: if_splits)
          then show ?thesis
          proof cases
            case 1
            then show ?thesis using s2 by blast
          next
            case 2
            then show ?thesis using ok_trans [OF s2 ok_do [OF 2]] by simp
          next
            case 3
            have "sf_ok env r s2 e st'" by (rule ok_then [OF 3 ok_do]) (use copy i in auto)
            then show ?thesis using ok_trans [OF s2] by blast
          qed
        qed
      qed
    qed
  qed
qed

lemma upload_walk_ok:
  "upload_walk env r name destination calls st = (e, st') \<Longrightarrow> set calls \<subseteq> set (sa_walk env) \<Longrightarrow> \<not> sq_scp r \<Longrightarrow> sf_ok env r st e st'"
proof (induction calls arbitrary: st)
  case (Cons call calls)
  show ?case
  proof (rule ok_then)
    show "sf_then (upload_entry env r name destination call st) (upload_walk env r name destination calls) = (e, st')"
      using Cons.prems(1) by simp
    show "sf_ok env r st x s" if "upload_entry env r name destination call st = (x, s)" for x s
      using upload_entry_ok [OF that _ Cons.prems(3)] Cons.prems(2) by simp
    show "sf_ok env r s e st'" if "upload_walk env r name destination calls s = (e, st')" for s
      using Cons.IH [OF that _ Cons.prems(3)] Cons.prems(2) by simp
  qed
qed (use ok_same [of st' st'] in \<open>auto intro: ok_same\<close>)

lemma uploadSFTP_ok:
  assumes "uploadSFTP env r st = (e, st')" "\<not> sq_scp r"
  shows "sf_ok env r st e st'"
  using assms(1) unfolding uploadSFTP_def
proof (rule ok_then)
  fix x s assume "(if sq_safe r then (sa_posix_rename env (sf_clock st), sf_tick st) else (None, st)) = (x, s)"
  then show "sf_ok env r st x s" by (intro ok_same) (auto simp: sf_tick_def split: if_splits)
next
  fix s1
  assume run: "(case sa_abs env (sq_local r) of Inl e \<Rightarrow> (Some e, s1)
       | Inr absolute \<Rightarrow>
           sf_then (sf_do env (SfOpenRoot (path_Dir absolute)) s1) (\<lambda>st2.
             let name = path_Base absolute; (stat, st3) = sf_stat env (SfRemote, sq_remote r) st2
             in case stat of
               Inl e \<Rightarrow> if err_is e FsErrNotExist then upload_walk env r name (sq_remote r) (sa_walk env) st3 else (Some e, st3)
             | Inr x \<Rightarrow> upload_walk env r name
                 (if si_kind x = SfDir then sshRemoteChild (sq_remote r) name else sq_remote r) (sa_walk env) st3)) = (e, st')"
  show "sf_ok env r s1 e st'"
  proof (cases "sa_abs env (sq_local r)")
    case (Inl y)
    then show ?thesis using run by (auto intro: ok_same)
  next
    case (Inr absolute)
    note r2 = run [unfolded Inr sum.case]
    show ?thesis
    proof (rule ok_then [OF r2 ok_do])
      fix s2
      assume u: "(let name = path_Base absolute; (stat, st3) = sf_stat env (SfRemote, sq_remote r) s2
             in case stat of
               Inl e \<Rightarrow> if err_is e FsErrNotExist then upload_walk env r name (sq_remote r) (sa_walk env) st3 else (Some e, st3)
             | Inr x \<Rightarrow> upload_walk env r name
                 (if si_kind x = SfDir then sshRemoteChild (sq_remote r) name else sq_remote r) (sa_walk env) st3) = (e, st')"
      obtain stat s3 where t: "sf_stat env (SfRemote, sq_remote r) s2 = (stat, s3)" by fastforce
      have "sf_ok env r s3 e st'" using u t upload_walk_ok [OF _ subset_refl assms(2)] ok_same [of s3 s3]
        by (auto simp: Let_def split: sum.splits if_splits)
      then show "sf_ok env r s2 e st'" using ok_trans [OF ok_stat [OF t]] by blast
    qed (assumption, simp)
  qed
qed

lemma receive_ok:
  assumes "sf_receive env r base localBase path len kind src st = (e, st')" "announced env src len" "fst src = SfRemote" "\<not> sq_scp r"
  shows "sf_ok env r st e st'"
  using assms(1) unfolding sf_receive_def
proof (rule ok_then)
  fix s1
  let ?local = "path_Join (localBase # tl (split_byte (CHR ''/'') path))"
  assume run: "(case receive_name env base path (sf_seen s1) of Some e \<Rightarrow> (Some e, s1)
       | None \<Rightarrow>
           let st2 = s1\<lparr>sf_seen := sf_seen s1 @ [sa_lower env path]\<rparr>; local = ?local; (stat, st3) = sf_stat env (SfLocal, local) st2
           in case sf_existing r (kind = SfDir) stat of
             Inl e \<Rightarrow> (Some e, st3)
           | Inr existing \<Rightarrow>
               if kind = SfDir then (if existing then (None, st3) else sf_do env (SfMkdir (SfLocal, local)) st3)
               else if kind \<noteq> SfRegular then (Some (ErrText ''download supports only regular files and directories''), st3)
               else if sq_safe r then replaceSFTPDownload env r local path len src st3
               else sf_direct env r path len src (SfLocal, local) st3) = (e, st')"
  show "sf_ok env r s1 e st'"
  proof (cases "receive_name env base path (sf_seen s1)")
    case (Some y)
    then show ?thesis using run by (auto intro: ok_same)
  next
    case None
    let ?s2 = "s1\<lparr>sf_seen := sf_seen s1 @ [sa_lower env path]\<rparr>"
    obtain stat s3 where t: "sf_stat env (SfLocal, ?local) ?s2 = (stat, s3)" by fastforce
    have s3: "sf_ok env r s1 None s3" using t by (intro ok_same) (auto simp: sf_stat_def sf_tick_def)
    show ?thesis
    proof (cases "sf_existing r (kind = SfDir) stat")
      case (Inl y)
      then have "st' = s3" using run None t by (simp add: Let_def)
      then show ?thesis using t by (intro ok_same) (auto simp: sf_stat_def sf_tick_def)
    next
      case (Inr existing)
      consider "st' = s3" | "sf_do env (SfMkdir (SfLocal, ?local)) s3 = (e, st')"
        | "sq_safe r" "replaceSFTPDownload env r ?local path len src s3 = (e, st')"
        | "\<not> sq_safe r" "sf_direct env r path len src (SfLocal, ?local) s3 = (e, st')"
        using run None t Inr by (auto simp: Let_def split: if_splits)
      then have "sf_ok env r s3 e st'"
      proof cases
        case 2
        then show ?thesis by (rule ok_do) simp
      next
        case 3
        then show ?thesis using replace_ok(2) [OF assms(2)] assms(3) by blast
      next
        case 4
        have "src \<noteq> (SfLocal, ?local)" using assms(3) by auto
        then show ?thesis using direct_ok [OF 4(2) assms(2) _ 4(1) assms(4)] by blast
      qed (simp add: ok_same)
      then show ?thesis using ok_trans [OF s3] by blast
    qed
  qed
qed (rule ok_check)

interpretation sf_download: sf_receiver env r base localBase "\<lambda>st e st'. \<not> sq_scp r \<longrightarrow> sf_ok env r st e st'"
  for env r base localBase
proof
  show "\<not> sq_scp r \<longrightarrow> sf_ok env r st e st'" if "sf_receive env r base localBase path len kind src st = (e, st')"
    "announced env src len" "fst src = SfRemote" for path len kind src st e st'
    using receive_ok [OF that] by blast
  show "\<not> sq_scp r \<longrightarrow> sf_ok env r st e st'" if "sf_do env ev st = (x, st')" "quiet_call ev" for ev x st e st'
    using ok_do [OF that(1)] that(2) by (cases ev) (auto simp: quiet_call_def)
qed (use ok_seq ok_same in blast)+

lemma downloadSSH_ok:
  assumes "downloadSSH env r st = (e, st')" "\<not> sq_scp r"
  shows "sf_ok env r st e st'"
proof -
  let ?base = "path_Base (path_Clean (sq_remote r))"
  show ?thesis
  proof (cases "\<not> ValidFileName ?base \<or> (\<exists>y. sa_abs env (sq_local r) = Inl y)")
    case True
    then have "st' = st" using assms(1) by (auto simp: downloadSSH_def Let_def split: if_splits)
    then show ?thesis by (simp add: ok_same)
  next
    case False
    then obtain absolute where a: "ValidFileName ?base" "sa_abs env (sq_local r) = Inr absolute" by (cases "sa_abs env (sq_local r)") auto
    obtain stat s1 where t: "sf_stat env (SfLocal, absolute) st = (stat, s1)" by fastforce
    note s1 = ok_stat [OF t]
    consider "st' = s1" | d where "sf_then (sf_do env (SfOpenRoot (path_Dir d)) s1) (\<lambda>s2.
        download_walk env r ?base (path_Base d) (sq_remote r) ?base 0 s2) = (e, st')"
      using assms(1) a t by (auto simp: downloadSSH_def Let_def split: sum.splits if_splits)
    then show ?thesis
    proof cases
      case 1
      then show ?thesis using s1 by blast
    next
      case (2 d)
      have "sf_ok env r s1 e st'"
        by (rule ok_then [OF 2 ok_do]) (use sf_download.walk_ok assms(2) in auto)
      then show ?thesis using ok_trans [OF s1] by blast
    qed
  qed
qed

lemma validate_walk_trace: "validate_walk env calls st = (e, st') \<Longrightarrow> sf_trace st' = sf_trace st"
proof (induction calls arbitrary: st)
  case (Cons call calls)
  obtain c w k i where call: "call = (c, w, k, i)" by (cases call)
  obtain x s where x: "sf_check env st = (x, s)" by fastforce
  have s: "sf_trace s = sf_trace st" using check_adds [OF x] by (simp add: sf_adds_def)
  show ?case using Cons s x call
    by (auto simp: sf_then_def split: option.splits sum.splits if_splits)
qed simp

lemma validateUploadTree_ok: "validateUploadTree env local recursive st = (e, st') \<Longrightarrow> sf_ok env r st x st'"
  using validate_walk_trace
  by (intro ok_same) (fastforce simp: validateUploadTree_def sf_stat_def sf_tick_def split: sum.splits if_splits)

lemma run_files_ok:
  assumes "runSSHFiles env r st = (e, st')" "sq_operation r = ''put'' \<or> sq_operation r = ''get''" "\<not> sq_scp r"
  shows "sf_ok env r st e st'"
proof -
  obtain x s where x: "sftp_operation env r st = (x, s)" by fastforce
  have s: "sf_ok env r st x s" using x assms(2,3) uploadSFTP_ok downloadSSH_ok by (auto simp: sftp_operation_def Let_def)
  have "x = None \<longleftrightarrow> e = None" "sf_trace st' = sf_trace s" using assms(1) x by (auto simp: runSSHFiles_def split: option.splits)
  then show ?thesis using ok_seq [OF s _ ok_same] by blast
qed

lemma RunSSHFiles_ok:
  assumes "RunSSHFiles env r st = (e, st')" "sq_operation r = ''put'' \<or> sq_operation r = ''get''" "\<not> sq_scp r"
  shows "sf_ok env r st e st'"
proof (cases "validateSSHFiles r")
  case (Some y)
  then show ?thesis using assms(1) by (auto simp: RunSSHFiles_def intro: ok_same)
next
  case None
  note run = assms(1) [unfolded RunSSHFiles_def None option.case]
  show ?thesis
  proof (rule ok_then [OF run])
    fix x s
    assume "(if sq_operation r = ''put'' then validateUploadTree env (sq_local r) (sq_recursive r) st else (None, st)) = (x, s)"
    then show "sf_ok env r st x s" using validateUploadTree_ok by (auto split: if_splits intro: ok_same)
  next
    fix s1
    assume 1: "sf_then (sf_do env SfConnect s1) (\<lambda>st2.
            case runSSHFiles env r st2 of (err, st3) \<Rightarrow>
              case sf_do env SfDisconnect st3 of (closeErr, st4) \<Rightarrow>
                let err1 = err_join err closeErr
                in case sf_check env st4 of
                  (None, st5) \<Rightarrow> (err1, st5)
                | (Some c, st5) \<Rightarrow> (err_join (Some c) err1, st5)) = (e, st')"
    show "sf_ok env r s1 e st'"
    proof (rule ok_then [OF 1 ok_do])
      fix s2
      assume 2: "(case runSSHFiles env r s2 of (err, st3) \<Rightarrow>
              case sf_do env SfDisconnect st3 of (closeErr, st4) \<Rightarrow>
                let err1 = err_join err closeErr
                in case sf_check env st4 of
                  (None, st5) \<Rightarrow> (err1, st5)
                | (Some c, st5) \<Rightarrow> (err_join (Some c) err1, st5)) = (e, st')"
      obtain err s3 where f: "runSSHFiles env r s2 = (err, s3)" by fastforce
      obtain ce s4 where d: "sf_do env SfDisconnect s3 = (ce, s4)" by fastforce
      obtain c s5 where k: "sf_check env s4 = (c, s5)" by fastforce
      have st': "st' = s5" "e = None \<longrightarrow> err = None"
        using 2 f d k by (auto simp: Let_def err_join_def split: option.splits)
      have "sf_ok env r s2 err s3" using run_files_ok [OF f assms(2,3)] .
      moreover have "sf_ok env r s3 e s5" using ok_trans [OF ok_do [OF d] ok_check [OF k]] by simp
      ultimately show "sf_ok env r s2 e st'" using ok_seq st' by blast
    qed (assumption, simp)
  qed
qed

section \<open>The properties\<close>

text \<open>
  C35 A put or get over SFTP that reports success, with or without safe replacement, has completed every file it created,
  whatever the server, the file systems and the context answered: behind the creation exactly the announced number of bytes was read from the
  source and these bytes were written, a local staging file was synced, the close of the file succeeded, nothing was written to it after the
  close, and where SHA-256 verification was asked for, the bytes read back after the close have the hash of the bytes read from the source. No call
  of the copy, the close and the check failed.
\<close>

theorem ssh_copies_complete:
  assumes "sq_operation r = ''put'' \<or> sq_operation r = ''get''" "\<not> sq_scp r"
    and "RunSSHFiles env r sf_initial = (None, st)" "sf_trace st = pre @ SfCreate p x # post"
  shows "\<exists>body check rest src. post = body @ SfClose p # check @ rest \<and> src \<noteq> p \<and> no_failure (body @ SfClose p # check) \<and>
    written p body = bytes_read src body \<and> written p check = [] \<and> announced env src (int (length (bytes_read src body))) \<and>
    (sq_safe r \<and> fst p = SfLocal \<longrightarrow> SfSync p \<in> set body) \<and>
    (sq_verify r = ''sha256'' \<longrightarrow> sa_sha256 env (bytes_read p check) = sa_sha256 env (bytes_read src body))"
proof -
  have "all_complete env r (sf_trace st)"
    using RunSSHFiles_ok [OF assms(3,1,2)] by (simp add: sf_ok_def sf_initial_def)
  then obtain mid rest src where "post = mid @ rest" "complete_copy env r src p mid" using assms(4) unfolding all_complete_def by blast
  then show ?thesis unfolding complete_copy_def whole_copy_def by (elim exE conjE) (intro exI conjI; auto)
qed

text \<open>
  C36 With safe replacement no answer of the server, the file systems or the context makes a put or get damage a file that
  was there: over its whole run it creates files only exclusively; it writes to and removes only files that it has created itself, by a creation that
  succeeded; and it replaces only by renaming, on the same side, a file that is a complete copy, whose close succeeded, which is synced on the
  local side and verified where asked for. Every file it created or wrote to is renamed or its removal is tried.
\<close>

theorem ssh_safe_replacement:
  assumes "sq_safe r" "sq_operation r = ''put'' \<or> sq_operation r = ''get''" "\<not> sq_scp r" "RunSSHFiles env r sf_initial = (e, st)"
  shows "(\<forall>i < length (sf_trace st). safe_event env r (take i (sf_trace st)) (sf_trace st ! i)) \<and>
    (\<forall>t. SfCreate t True \<in> set (sf_trace st) \<or> (\<exists>ev \<in> set (sf_trace st). \<exists>d. ev_call ev = SfWrite t d) \<longrightarrow>
       (\<exists>ev \<in> set (sf_trace st). ev_call ev = SfRemove t False) \<or> (\<exists>p. SfRename t p True \<in> set (sf_trace st)))"
  using RunSSHFiles_ok [OF assms(4,2,3)] assms(1) by (simp add: sf_ok_def sf_initial_def safe_trace_def settled_def disposed_def)

end
