(* ===== verification/SSH_Contained.thy ===== *)
theory SSH_Contained
  imports SSH_Safety Directory_Safety
begin

text \<open>
  Where a download writes: below its destination, or beside it for the staging file, whatever names the server lists.
\<close>

section \<open>Relative paths\<close>

lemma clean_relative:
  assumes "\<not> has_prefix p ''/''" "''..'' \<notin> set (split_byte (CHR ''/'') p)" "name_parts p \<noteq> []"
  shows "path_Clean p = str_join ''/'' (name_parts p)"
proof -
  have c: "clean_parts False [] (split_byte (CHR ''/'') p) = name_parts p"
    using clean_parts_plain [OF assms(2), of False "[]"] by (simp add: name_parts_def)
  have "hd (name_parts p) \<noteq> []" using name_parts_plain [OF assms(2)] assms(3) by (cases "name_parts p") (auto simp: plain_part_def)
  then have "str_join ''/'' (name_parts p) \<noteq> []" using assms(3) by (cases "name_parts p" rule: list.exhaust; cases "tl (name_parts p)") auto
  then show ?thesis using assms(1) c by (simp add: path_Clean_def Let_def)
qed

lemma plain_join:
  assumes "list_all plain_part ws" "ws \<noteq> []"
  shows "split_byte (CHR ''/'') (str_join ''/'' ws) = ws" "name_parts (str_join ''/'' ws) = ws" "\<not> has_prefix (str_join ''/'' ws) ''/''"
    "str_join ''/'' ws \<noteq> []" "''..'' \<notin> set ws"
proof -
  show s: "split_byte (CHR ''/'') (str_join ''/'' ws) = ws" using split_join_all [OF plain_no_slash [OF assms(1)] assms(2)] .
  have f: "filter (\<lambda>w. w \<noteq> [] \<and> w \<noteq> ''.'') ws = ws" using assms(1) by (auto simp: list_all_iff plain_part_def intro!: filter_True)
  then show "name_parts (str_join ''/'' ws) = ws" by (simp add: name_parts_def s)
  obtain w vs where w: "ws = w # vs" using assms(2) by (cases ws) auto
  then have "plain_part w" using assms(1) by simp
  then have "w \<noteq> []" "CHR ''/'' \<notin> set w" by (simp_all add: plain_part_def)
  moreover from this have "hd w \<noteq> CHR ''/''" using hd_in_set by metis
  moreover have "\<exists>z. str_join ''/'' ws = w @ z" using w by (cases vs) auto
  ultimately show "\<not> has_prefix (str_join ''/'' ws) ''/''" "str_join ''/'' ws \<noteq> []" by (cases w; auto simp: has_prefix_def)+
  show "''..'' \<notin> set ws" using assms(1) by (auto simp: list_all_iff plain_part_def)
qed

lemma clean_plain: "list_all plain_part ws \<Longrightarrow> ws \<noteq> [] \<Longrightarrow> path_Clean (str_join ''/'' ws) = str_join ''/'' ws"
  using clean_relative [of "str_join ''/'' ws"] plain_join by simp

lemma join_plain:
  assumes "list_all plain_part ws" "ws \<noteq> []"
  shows "path_Join ws = str_join ''/'' ws"
proof -
  have "filter (\<lambda>e. e \<noteq> []) ws = ws" using assms(1) by (auto simp: list_all_iff plain_part_def intro!: filter_True)
  then show ?thesis using assms clean_plain by (simp add: path_Join_def)
qed

lemma join_snoc: "ws \<noteq> [] \<Longrightarrow> str_join ''/'' (ws @ [w]) = str_join ''/'' ws @ CHR ''/'' # w"
  by (induction ws rule: induct_list012) auto

lemma dir_plain:
  assumes "list_all plain_part (ws @ [w])"
  shows "path_Dir (str_join ''/'' (ws @ [w])) = (if ws = [] then ''.'' else str_join ''/'' ws)"
proof -
  have w: "CHR ''/'' \<notin> set w" and ws: "list_all plain_part ws" using assms by (auto simp: plain_part_def)
  show ?thesis
  proof (cases "ws = []")
    case True
    have tw: "takeWhile (\<lambda>c. c \<noteq> CHR ''/'') (rev w) = rev w" using w by (auto simp: takeWhile_eq_all_conv)
    have "path_Split w = ([], w)" unfolding path_Split_def Let_def tw by simp
    moreover have "path_Clean [] = ''.''" by (simp add: path_Clean_def has_prefix_def)
    ultimately show ?thesis using True by (simp add: path_Dir_def)
  next
    case False
    let ?s = "str_join ''/'' ws"
    have j: "str_join ''/'' (ws @ [w]) = ?s @ CHR ''/'' # w" by (rule join_snoc [OF False])
    have "takeWhile (\<lambda>c. c \<noteq> CHR ''/'') (rev (?s @ CHR ''/'' # w)) = rev w"
      using w by (simp add: takeWhile_append1 takeWhile_append2 takeWhile_append split: if_splits)
    then have sp: "fst (path_Split (?s @ CHR ''/'' # w)) = ?s @ ''/''" by (simp add: path_Split_def Let_def)
    note p = plain_join [OF ws False]
    have sb: "split_byte (CHR ''/'') (?s @ ''/'') = ws @ [[]]" using split_byte_append [of "CHR ''/''" ?s "[]"] p(1) by simp
    have "name_parts (?s @ ''/'') = ws" using p(2) sb unfolding name_parts_def by (simp add: p(1))
    moreover have "\<not> has_prefix (?s @ ''/'') ''/''" using p(3,4) by (cases ?s) (auto simp: has_prefix_def)
    ultimately have "path_Clean (?s @ ''/'') = ?s" using clean_relative [of "?s @ ''/''"] sb p(5) False by auto
    then show ?thesis using False j sp by (simp add: path_Dir_def)
  qed
qed

section \<open>Below the destination\<close>

text \<open>The names of staging files: the random part is hexadecimal.\<close>

definition staging_name :: "string \<Rightarrow> bool" where
  "staging_name t \<longleftrightarrow> (\<exists>x. t = ''.channelterm-'' @ x @ ''.part'' \<and> list_all is_hex x)"

text \<open>A path of plain elements in the opened directory, whose first element is the name of the destination, or a staging file in it.\<close>

definition in_root :: "string \<Rightarrow> string \<Rightarrow> bool" where
  "in_root b p \<longleftrightarrow> (\<exists>ws. ws \<noteq> [] \<and> list_all plain_part ws \<and> p = str_join ''/'' ws \<and> (hd ws = b \<or> tl ws = [] \<and> staging_name p))"

definition hex_names :: "sf_env \<Rightarrow> bool" where
  "hex_names env \<longleftrightarrow> (\<forall>n x. sa_nonce env n = Inr x \<longrightarrow> list_all is_hex x)"

lemma temporary_staging:
  assumes "hex_names env" "sshTemporaryName env st = (Inr t, st')"
  shows "staging_name t"
proof -
  obtain x where "sa_nonce env (sf_clock st) = Inr x" "t = ''.channelterm-'' @ x @ ''.part''"
    using assms(2) by (auto simp: sshTemporaryName_def split: sum.splits)
  then show ?thesis using assms(1) unfolding hex_names_def staging_name_def by blast
qed

lemma staging_plain: "staging_name t \<Longrightarrow> plain_part t"
proof -
  assume "staging_name t"
  moreover have "\<not> is_hex (CHR ''/'')" by code_simp
  ultimately show ?thesis unfolding staging_name_def plain_part_def list_all_iff by auto
qed

lemma temporary_in_root:
  assumes "list_all plain_part ws" "ws \<noteq> []" "hd ws = b" "staging_name t"
  shows "in_root b (path_Join [path_Dir (str_join ''/'' ws), t])"
proof -
  note plain = staging_plain [OF assms(4)]
  obtain vs w where ws: "ws = vs @ [w]" using assms(2) by (cases ws rule: rev_cases) auto
  have t: "CHR ''/'' \<notin> set t" "t \<noteq> []" using plain by (auto simp: plain_part_def)
  show ?thesis
  proof (cases "vs = []")
    case True
    have "split_byte (CHR ''/'') (''./'' @ t) = [''.'', t]" using split_byte_plain [OF t(1)] by simp
    then have "path_Clean (''./'' @ t) = t"
      using clean_relative [of "''./'' @ t"] plain by (auto simp: name_parts_def plain_part_def has_prefix_def)
    then have "path_Join [''.'', t] = t" using t by (simp add: path_Join_def)
    then have "path_Join [path_Dir (str_join ''/'' ws), t] = str_join ''/'' [t]" using dir_plain [of vs w] assms(1) ws True by simp
    then show ?thesis using assms(4) plain unfolding in_root_def by (intro exI [of _ "[t]"]) simp
  next
    case False
    have vs: "list_all plain_part vs" using assms(1) ws by simp
    have "str_join ''/'' vs \<noteq> []" using plain_join(4) [OF vs False] .
    then have "path_Join [str_join ''/'' vs, t] = path_Clean (str_join ''/'' (vs @ [t]))"
      using t join_snoc [OF False, of t] by (simp add: path_Join_def)
    then have "path_Join [path_Dir (str_join ''/'' ws), t] = str_join ''/'' (vs @ [t])"
      using dir_plain [of vs w] assms(1) plain ws False clean_plain [of "vs @ [t]"] vs by simp
    then show ?thesis using vs assms(3) plain ws False unfolding in_root_def by (intro exI [of _ "vs @ [t]"]) (cases vs; simp)
  qed
qed

fun event_paths :: "sf_event \<Rightarrow> sf_path list" where
  "event_paths (SfCreate p x) = [p]"
| "event_paths (SfOpen p) = [p]"
| "event_paths (SfRead p d) = [p]"
| "event_paths (SfWrite p d) = [p]"
| "event_paths (SfSync p) = [p]"
| "event_paths (SfClose p) = [p]"
| "event_paths (SfMkdir p) = [p]"
| "event_paths (SfRename p q x) = [p, q]"
| "event_paths (SfRemove p x) = [p]"
| "event_paths (SfFailed e) = event_paths e"
| "event_paths e = []"

definition local_in :: "string \<Rightarrow> sf_event \<Rightarrow> bool" where
  "local_in b e \<longleftrightarrow> (\<forall>p \<in> set (event_paths e). fst p = SfLocal \<longrightarrow> in_root b (snd p)) \<and> (\<forall>d. ev_call e \<noteq> SfOpenRoot d)"

lemma answered_paths [simp]: "event_paths (sf_answered x e) = event_paths e"
  by (cases x) simp_all

lemma answered_in [simp]: "local_in b (sf_answered x e) = local_in b e"
  by (simp add: local_in_def)

text \<open>The local paths that take a received entry: directories made, and files created in place or renamed to.\<close>

fun target_of :: "bool \<Rightarrow> sf_event \<Rightarrow> string list" where
  "target_of safe (SfMkdir p) = (if fst p = SfLocal then [snd p] else [])"
| "target_of safe (SfRename t p x) = (if fst p = SfLocal then [snd p] else [])"
| "target_of safe (SfCreate p x) = (if fst p = SfLocal \<and> \<not> safe then [snd p] else [])"
| "target_of safe (SfFailed e) = target_of safe e"
| "target_of safe e = []"

lemma answered_target [simp]: "target_of safe (sf_answered x e) = target_of safe e"
  by (cases x) simp_all

text \<open>Their names in the remote tree, which has another root, in lower case.\<close>

definition target_keys :: "sf_env \<Rightarrow> sf_request \<Rightarrow> string \<Rightarrow> string \<Rightarrow> sf_event list \<Rightarrow> string list" where
  "target_keys env r base b tr = map (\<lambda>p. sa_lower env (base @ drop (length b) p)) (concat (map (target_of (sq_safe r)) tr))"

lemma target_keys_simps [simp]:
  "target_keys env r base b [] = []" "target_keys env r base b (x @ y) = target_keys env r base b x @ target_keys env r base b y"
  "target_keys env r base b (e # y) = target_keys env r base b [e] @ target_keys env r base b y"
  by (simp_all add: target_keys_def)

definition names_ok :: "sf_env \<Rightarrow> sf_request \<Rightarrow> string \<Rightarrow> string \<Rightarrow> sf_state \<Rightarrow> bool" where
  "names_ok env r base b st \<longleftrightarrow> distinct (sf_seen st) \<and> length (sf_seen st) \<le> 100000 \<and>
     distinct (target_keys env r base b (sf_trace st)) \<and> set (target_keys env r base b (sf_trace st)) \<subseteq> set (sf_seen st)"

definition stays_in :: "sf_env \<Rightarrow> sf_request \<Rightarrow> string \<Rightarrow> string \<Rightarrow> sf_state \<Rightarrow> sf_state \<Rightarrow> bool" where
  "stays_in env r base b st st' \<longleftrightarrow>
     (\<exists>ext. sf_trace st' = sf_trace st @ ext \<and> list_all (local_in b) ext) \<and> (names_ok env r base b st \<longrightarrow> names_ok env r base b st')"

lemma within_trans: "stays_in env r base b st s1 \<Longrightarrow> stays_in env r base b s1 st' \<Longrightarrow> stays_in env r base b st st'"
  unfolding stays_in_def by (metis append.assoc list_all_append)

lemma within_same: "sf_trace st' = sf_trace st \<Longrightarrow> sf_seen st' = sf_seen st \<Longrightarrow> stays_in env r base b st st'"
  by (simp add: stays_in_def names_ok_def)

text \<open>The events of one entry, with the names they take.\<close>

definition entry_adds :: "sf_env \<Rightarrow> sf_request \<Rightarrow> string \<Rightarrow> string \<Rightarrow> string list \<Rightarrow> sf_state \<Rightarrow> sf_state \<Rightarrow> bool" where
  "entry_adds env r base b ks st st' \<longleftrightarrow>
     (\<exists>ext. sf_trace st' = sf_trace st @ ext \<and> sf_seen st' = sf_seen st \<and> list_all (local_in b) ext \<and> target_keys env r base b ext = ks)"

lemma entry_trans:
  "entry_adds env r base b ks st s1 \<Longrightarrow> entry_adds env r base b ls s1 st' \<Longrightarrow> entry_adds env r base b (ks @ ls) st st'"
  unfolding entry_adds_def by (elim exE conjE) (auto intro!: exI)

lemma entry_then:
  "entry_adds env r base b [] st s1 \<Longrightarrow> entry_adds env r base b ls s1 st' \<Longrightarrow> entry_adds env r base b ls st st'"
  "entry_adds env r base b ls st s1 \<Longrightarrow> entry_adds env r base b [] s1 st' \<Longrightarrow> entry_adds env r base b ls st st'"
  using entry_trans [of env r base b "[]" st s1 ls st'] entry_trans [of env r base b ls st s1 "[]" st'] by simp_all

lemma entry_same: "sf_trace st' = sf_trace st \<Longrightarrow> sf_seen st' = sf_seen st \<Longrightarrow> entry_adds env r base b [] st st'"
  by (simp add: entry_adds_def)

lemma entry_ext:
  "sf_adds ext st st' \<Longrightarrow> list_all (local_in b) ext \<Longrightarrow> target_keys env r base b ext = ks \<Longrightarrow> entry_adds env r base b ks st st'"
  unfolding entry_adds_def sf_adds_def by blast

lemma entry_do:
  "sf_do env ev st = (e, st') \<Longrightarrow> local_in b ev \<Longrightarrow> target_keys env r base b [ev] = ks \<Longrightarrow> entry_adds env r base b ks st st'"
  by (rule entry_ext [OF do_adds]) (simp_all add: target_keys_def)

lemma entry_within:
  assumes "\<exists>ks \<in> {[], [k]}. entry_adds env r base b ks s2 st'" "sf_trace s2 = sf_trace st" "sf_seen s2 = sf_seen st @ [k]"
    "k \<notin> set (sf_seen st)" "length (sf_seen st) < 100000"
  shows "stays_in env r base b st st'"
proof -
  obtain ks ext where ks: "ks = [] \<or> ks = [k]" and ext: "sf_trace st' = sf_trace st @ ext" "sf_seen st' = sf_seen st @ [k]"
      "list_all (local_in b) ext" "target_keys env r base b ext = ks"
    using assms(1-3) unfolding entry_adds_def by auto
  have "names_ok env r base b st'" if "names_ok env r base b st"
  proof -
    have "k \<notin> set (target_keys env r base b (sf_trace st))" using that assms(4) unfolding names_ok_def by blast
    then show ?thesis using that ks ext assms(4,5) unfolding names_ok_def by auto
  qed
  then show ?thesis using ext(1,3) unfolding stays_in_def by blast
qed

lemma quiet_within: "entry_adds env r base b [] st st' \<Longrightarrow> stays_in env r base b st st'"
  unfolding entry_adds_def stays_in_def names_ok_def by auto

lemma stage_in:
  assumes "list_all (stage_event src dst) ext" "fst src = SfRemote" "in_root b (snd dst)"
  shows "list_all (local_in b) ext" "target_keys env r base b ext = []"
proof -
  have "local_in b e \<and> target_of (sq_safe r) e = []" if "stage_event src dst e" for e
    using that
  proof (induction e)
    case (SfFailed e)
    then show ?case by (simp add: local_in_def)
  qed (use assms(2,3) in \<open>auto simp: stage_event_def local_in_def\<close>)
  then show "list_all (local_in b) ext" "target_keys env r base b ext = []"
    using assms(1) by (auto simp: list_all_iff target_keys_def)
qed

lemma stage_entry:
  "sf_adds ext st st' \<Longrightarrow> list_all (stage_event src dst) ext \<Longrightarrow> fst src = SfRemote \<Longrightarrow> in_root b (snd dst) \<Longrightarrow> entry_adds env r base b [] st st'"
  by (rule entry_ext) (auto intro: stage_in)

text \<open>The local path of an entry below the root, and its name.\<close>

lemma direct_within:
  assumes run: "sf_direct env r name len src (SfLocal, b @ rest) st = (e, st')" and "fst src = SfRemote" "in_root b (b @ rest)" "\<not> sq_safe r"
  shows "entry_adds env r base b [sa_lower env (base @ rest)] st st'"
proof -
  let ?dst = "(SfLocal, b @ rest)" and ?k = "[sa_lower env (base @ rest)]"
  have dst: "in_root b (snd ?dst)" using assms(3) by simp
  have create: "entry_adds env r base b ?k st s" if "sf_do env (SfCreate ?dst x) st = (y, s)" for x y s
    using entry_do [OF that, of b r base ?k] assms(3,4) by (simp add: local_in_def target_keys_def)
  show ?thesis using run unfolding sf_direct_def
  proof (cases rule: then_cases)
    case (1 x)
    then show ?thesis using create by blast
  next
    case (2 s1)
    note c1 = create [OF 2(1)]
    obtain digest e1 s2 where c: "sf_copy_close env r False name len src ?dst s1 = (digest, e1, s2)"
      by (cases "sf_copy_close env r False name len src ?dst s1") auto
    have c2: "entry_adds env r base b [] s1 s2" using copy_close_adds [OF c] stage_entry [OF _ _ assms(2) dst] by blast
    obtain e2 s3 where v: "verifySSHCopy env r name len digest ?dst s2 = (e2, s3)" by fastforce
    obtain h where h: "sf_adds h s2 s3" "list_all (verify_event ?dst) h" using verify_adds [OF v] by blast
    have "list_all (stage_event src ?dst) h" using h(2) unfolding stage_event_def list_all_iff by blast
    then have c3: "entry_adds env r base b [] s2 s3" using stage_entry [OF h(1) _ assms(2) dst] by blast
    have "st' = s2 \<or> st' = s3 \<or> st' = completeSSHFile r s3"
      using 2(2) c v by (auto simp: sf_then_def split: option.splits if_splits)
    moreover have "entry_adds env r base b [] s3 (completeSSHFile r s3)" by (rule entry_same) (simp_all add: completeSSHFile_def)
    ultimately show ?thesis using entry_then(2) [OF c1 c2] entry_then(2) [OF entry_then(2) [OF c1 c2] c3] entry_then(2) by blast
  qed
qed

lemma staged_within:
  assumes run: "replaceSFTPDownload env r (str_join ''/'' ws) name len src st = (e, st')" and "fst src = SfRemote" "hex_names env" "sq_safe r"
    and ws: "list_all plain_part ws" "ws \<noteq> []" "hd ws = b" and rest: "str_join ''/'' ws = b @ rest"
  shows "\<exists>ks \<in> {[], [sa_lower env (base @ rest)]}. entry_adds env r base b ks st st'"
proof -
  let ?target = "str_join ''/'' ws" and ?k = "[sa_lower env (base @ rest)]"
  let ?done = "\<lambda>s. \<exists>ks \<in> {[], ?k}. entry_adds env r base b ks st s"
  obtain t s1 where n: "sshTemporaryName env st = (t, s1)" by fastforce
  have s1: "entry_adds env r base b [] st s1" using n by (intro entry_same) (auto simp: sshTemporaryName_def sf_tick_def)
  have more: "?done s'" if "?done s" "entry_adds env r base b [] s s'" for s s' using that entry_then(2) by blast
  show ?thesis
  proof (cases t)
    case (Inl y)
    then show ?thesis using run n s1 by (simp add: replaceSFTPDownload_def)
  next
    case (Inr u)
    let ?temp = "(SfLocal, path_Join [path_Dir ?target, u])"
    have temp: "in_root b (snd ?temp)" using temporary_in_root [OF ws temporary_staging [OF assms(3)]] n Inr by simp
    have target: "in_root b ?target" using ws unfolding in_root_def by blast
    have create: "entry_adds env r base b [] st s" if "sf_do env (SfCreate ?temp True) s1 = (y, s)" for y s
      using entry_then(1) [OF s1 entry_do [OF that, of b r base "[]"]] temp assms(4) by (simp add: local_in_def target_keys_def)
    have "sf_then (sf_do env (SfCreate ?temp True) s1) (\<lambda>s. sf_commit env r ?temp (sf_stage env r True name len src ?temp (SfLocal, ?target) s)) = (e, st')"
      using run n Inr by (simp add: replaceSFTPDownload_def Let_def)
    then show ?thesis
    proof (cases rule: then_cases)
      case (1 x)
      then show ?thesis using create by blast
    next
      case (2 s2)
      note c2 = create [OF 2(1)]
      obtain e1 s3 where s: "sf_stage env r True name len src ?temp (SfLocal, ?target) s2 = (e1, s3)" by fastforce
      let ?ren = "sf_answered e1 (SfRename ?temp (SfLocal, ?target) True)"
      obtain mid where m: "list_all (stage_event src ?temp) mid" "sf_adds mid s2 s3 \<or> sf_adds (mid @ [?ren]) s2 s3"
        using stage_adds [OF s] by blast
      note mid = stage_in [OF m(1) assms(2) temp]
      have ren: "local_in b ?ren" "target_keys env r base b [?ren] = ?k"
        using temp target rest by (simp_all add: local_in_def target_keys_def)
      have c3: "?done s3"
        using m(2)
      proof
        assume "sf_adds mid s2 s3"
        from entry_ext [OF this mid(1) mid(2) [of env r base]] show ?thesis using entry_then(1) [OF c2] by blast
      next
        assume "sf_adds (mid @ [?ren]) s2 s3"
        from entry_ext [OF this, of b env r base ?k] show ?thesis
          using entry_then(1) [OF c2] mid(1) mid(2) [of env r base] ren by (simp del: target_keys_simps(3))
      qed
      obtain x s4 where rm: "sf_do env (SfRemove ?temp False) s3 = (x, s4)" by fastforce
      have c4: "entry_adds env r base b [] s3 s4" using entry_do [OF rm] temp by (simp add: local_in_def target_keys_def)
      have "st' = completeSSHFile r s3 \<or> st' = s4"
        using 2(2) s rm by (auto simp: sf_commit_def split: option.splits)
      moreover have "entry_adds env r base b [] s3 (completeSSHFile r s3)" by (rule entry_same) (simp_all add: completeSSHFile_def)
      ultimately show ?thesis using more [OF c3] c4 by blast
    qed
  qed
qed

section \<open>The walk\<close>

lemma valid_plain: "list_all ValidFileName ws \<Longrightarrow> list_all plain_part ws"
  by (auto simp: list_all_iff plain_part_def dest: valid_name)

lemma receive_name_None:
  assumes "receive_name env base path seen = None"
  shows "list_all ValidFileName (split_byte (CHR ''/'') path)" "sa_lower env path \<notin> set seen" "length seen < 100000" "hd (split_byte (CHR ''/'') path) = base"
  using assms by (auto simp: receive_name_def Let_def split: if_splits)

lemma str_join_Cons: "str_join ''/'' (w # ws) = w @ concat (map (\<lambda>v. CHR ''/'' # v) ws)"
  by (induction ws arbitrary: w) auto

text \<open>The local path of an entry is its path with another first element.\<close>

lemma local_path:
  assumes "hd (split_byte (CHR ''/'') path) = base" "list_all plain_part (split_byte (CHR ''/'') path)" "plain_part b"
  obtains rest where "path = base @ rest" "path_Join (b # tl (split_byte (CHR ''/'') path)) = b @ rest"
    "str_join ''/'' (b # tl (split_byte (CHR ''/'') path)) = b @ rest" "list_all plain_part (b # tl (split_byte (CHR ''/'') path))"
proof -
  obtain vs where vs: "split_byte (CHR ''/'') path = base # vs" using assms(1) split_byte_ne by (metis list.collapse)
  have p: "list_all plain_part (b # vs)" using assms(2,3) vs by simp
  have "path = str_join ''/'' (base # vs)" using join_split_byte [of "CHR ''/''" path] vs by simp
  then show ?thesis using that [of "concat (map (\<lambda>v. CHR ''/'' # v) vs)"] join_plain [OF p] p vs unfolding vs list.sel by (simp add: str_join_Cons)
qed

lemma receive_within:
  assumes "sf_receive env r base b path len kind src st = (e, st')" "fst src = SfRemote" "plain_part b" "hex_names env"
  shows "stays_in env r base b st st'"
proof -
  obtain x s1 where c: "sf_check env st = (x, s1)" by fastforce
  have s1: "stays_in env r base b st s1" using c by (intro within_same) (auto simp: sf_check_def sf_tick_def)
  show ?thesis
  proof (cases "x = None \<and> receive_name env base path (sf_seen s1) = None")
    case False
    then have "st' = s1" using assms(1) c by (auto simp: sf_receive_def sf_then_def split: option.splits)
    then show ?thesis using s1 by simp
  next
    case True
    note rn = receive_name_None [OF True [THEN conjunct2]]
    let ?ws = "b # tl (split_byte (CHR ''/'') path)" and ?k = "sa_lower env path"
    obtain rest where rest: "path = base @ rest" "path_Join ?ws = b @ rest" "str_join ''/'' ?ws = b @ rest" "list_all plain_part ?ws"
      using local_path [OF rn(4) valid_plain [OF rn(1)] assms(3)] by blast
    have inr: "in_root b (b @ rest)" using rest(3,4) unfolding in_root_def by (intro exI [of _ ?ws]) simp
    let ?s2 = "s1\<lparr>sf_seen := sf_seen s1 @ [?k]\<rparr>"
    obtain stat s3 where t: "sf_stat env (SfLocal, b @ rest) ?s2 = (stat, s3)" by fastforce
    have s3: "sf_trace s3 = sf_trace s1" "sf_seen s3 = sf_seen s1 @ [?k]" using t by (auto simp: sf_stat_def sf_tick_def)
    consider "st' = s3" | "sf_do env (SfMkdir (SfLocal, b @ rest)) s3 = (e, st')"
      | "sq_safe r" "replaceSFTPDownload env r (b @ rest) path len src s3 = (e, st')"
      | "\<not> sq_safe r" "sf_direct env r path len src (SfLocal, b @ rest) s3 = (e, st')"
      using assms(1) c True rest(2) t by (auto simp: sf_receive_def sf_then_def Let_def split: sum.splits if_splits)
    then have "\<exists>ks \<in> {[], [?k]}. entry_adds env r base b ks s3 st'"
    proof cases
      case 1
      then show ?thesis using entry_same [of st' s3] by blast
    next
      case 2
      have "entry_adds env r base b [?k] s3 st'"
        using entry_do [OF 2, of b r base "[?k]"] inr rest(1) by (simp add: local_in_def target_keys_def)
      then show ?thesis by blast
    next
      case 3
      show "\<exists>ks \<in> {[], [?k]}. entry_adds env r base b ks s3 st'"
        using staged_within [of env r ?ws path len src s3 e st' b rest base] 3 assms(2,4) rest by simp
    next
      case 4
      have "entry_adds env r base b [?k] s3 st'" using direct_within [OF 4(2) assms(2) inr 4(1)] rest(1) by simp
      then show ?thesis by blast
    qed
    then have "stays_in env r base b s1 st'" using entry_within s3 rn(2,3) by blast
    then show ?thesis using s1 within_trans by blast
  qed
qed

interpretation sf_contained: sf_receiver env r base b "\<lambda>st e st'. plain_part b \<and> hex_names env \<longrightarrow> stays_in env r base b st st'"
  for env r base b
proof
  show "plain_part b \<and> hex_names env \<longrightarrow> stays_in env r base b st st'" if "sf_receive env r base b path len kind src st = (e, st')"
    "announced env src len" "fst src = SfRemote" for path len kind src st e st'
    using receive_within [OF that(1,3)] by blast
  show "plain_part b \<and> hex_names env \<longrightarrow> stays_in env r base b st st'" if "sf_do env ev st = (x, st')" "quiet_call ev" for ev x st st'
  proof -
    have "local_in b ev" "target_keys env r base b [ev] = []" using that(2) by (cases ev; auto simp: quiet_call_def local_in_def target_keys_def)+
    then show ?thesis using quiet_within [OF entry_do [OF that(1)]] by blast
  qed
  show "plain_part b \<and> hex_names env \<longrightarrow> stays_in env r base b st st'" if "sf_trace st' = sf_trace st" "sf_seen st' = sf_seen st" for st st'
    using within_same that by blast
qed (use within_trans in blast)

lemma base_abs:
  assumes "list_all plain_part (ws @ [w])"
  shows "path_Base (abs_path (ws @ [w])) = w"
proof -
  have w: "plain_part w" "list_all plain_part (ws @ [w])" using assms by simp_all
  have "\<exists>s. abs_path (ws @ [w]) = s @ CHR ''/'' # w"
    using join_snoc [of ws w] by (cases "ws = []") (auto simp: abs_path_def)
  then obtain s where s: "abs_path (ws @ [w]) = s @ CHR ''/'' # w" by blast
  have "trim_right_byte (CHR ''/'') (s @ CHR ''/'' # w) = s @ CHR ''/'' # w"
    using w(1) by (cases w rule: rev_cases) (auto simp: trim_right_byte_def plain_part_def)
  moreover have "List.last (split_byte (CHR ''/'') (s @ CHR ''/'' # w)) = w"
    using w(1) by (simp add: split_byte_append split_byte_plain plain_part_def)
  ultimately show ?thesis unfolding path_Base_def s by (simp add: Let_def)
qed

text \<open>The directory a download opens and the name of its destination in it: a directory that is there takes the source by its own name.\<close>

definition download_place :: "goerr + sf_info \<Rightarrow> string list \<Rightarrow> string \<Rightarrow> string \<times> string" where
  "download_place stat ws base =
     (if (\<exists>x. stat = Inr x \<and> si_kind x = SfDir) then (abs_path ws, base) else (abs_path (butlast ws), List.last ws))"

text \<open>No local path before the directory has been opened, no other directory, and no path outside.\<close>

definition root_event :: "string \<Rightarrow> string \<Rightarrow> sf_event list \<Rightarrow> sf_event \<Rightarrow> bool" where
  "root_event d b before ev \<longleftrightarrow>
     (\<forall>c. ev_call ev = SfOpenRoot c \<longrightarrow> c = d) \<and>
     (\<forall>p \<in> set (event_paths ev). fst p = SfLocal \<longrightarrow> SfOpenRoot d \<in> set before \<and> in_root b (snd p))"

definition root_trace :: "string \<Rightarrow> string \<Rightarrow> sf_event list \<Rightarrow> bool" where
  "root_trace d b tr \<longleftrightarrow> (\<forall>i < length tr. root_event d b (take i tr) (tr ! i))"

lemma root_Nil [simp]: "root_trace d b []"
  by (simp add: root_trace_def)

lemma root_snoc [simp]: "root_trace d b (tr @ [e]) \<longleftrightarrow> root_trace d b tr \<and> root_event d b tr e"
  by (auto simp: root_trace_def less_Suc_eq nth_append)

lemma root_append:
  assumes "root_trace d b a" "list_all (local_in b) ext" "SfOpenRoot d \<in> set a \<or> list_all (\<lambda>e. event_paths e = []) ext"
  shows "root_trace d b (a @ ext)"
  using assms(2,3)
proof (induction ext rule: rev_induct)
  case (snoc e ext)
  have "root_event d b (a @ ext) e"
  proof (cases "event_paths e = []")
    case True
    then show ?thesis using snoc.prems(1) by (simp add: root_event_def local_in_def)
  next
    case False
    then have "SfOpenRoot d \<in> set a" using snoc.prems(2) by auto
    then show ?thesis using snoc.prems(1) by (simp add: root_event_def local_in_def)
  qed
  moreover have "root_trace d b (a @ ext)" using snoc by auto
  ultimately show ?case using root_snoc [of d b "a @ ext" e] by simp
qed (simp add: assms(1))

definition stays_rooted :: "sf_env \<Rightarrow> sf_request \<Rightarrow> string \<Rightarrow> string \<Rightarrow> string \<Rightarrow> sf_state \<Rightarrow> bool" where
  "stays_rooted env r d base b st \<longleftrightarrow> root_trace d b (sf_trace st) \<and> names_ok env r base b st"

lemma rooted_quiet:
  assumes "stays_rooted env r d base b st" "sf_trace st' = sf_trace st @ ext" "sf_seen st' = sf_seen st"
    "list_all (\<lambda>e. local_in b e \<and> event_paths e = []) ext"
  shows "stays_rooted env r d base b st'"
proof -
  have t: "target_of s e = []" if "event_paths e = []" for s e using that by (induction s e rule: target_of.induct) auto
  have "concat (map (target_of s) ext) = []" for s using assms(4) t by (auto simp: list_all_iff)
  then have "target_keys env r base b ext = []" by (simp add: target_keys_def)
  moreover have "root_trace d b (sf_trace st @ ext)"
    using assms(1,4) by (intro root_append) (auto simp: stays_rooted_def list_all_iff)
  ultimately show ?thesis using assms(1-3) unfolding stays_rooted_def names_ok_def by simp
qed

lemma rooted_in:
  assumes "stays_rooted env r d base b st" "stays_in env r base b st st'" "SfOpenRoot d \<in> set (sf_trace st)"
  shows "stays_rooted env r d base b st'"
  using assms root_append [of d b "sf_trace st"] unfolding stays_rooted_def stays_in_def by auto

lemma rooted_open:
  assumes "sf_do env (SfOpenRoot d) st = (x, st')" "stays_rooted env r d base b st"
  shows "stays_rooted env r d base b st'" "x = None \<Longrightarrow> SfOpenRoot d \<in> set (sf_trace st')"
proof -
  have st': "sf_trace st' = sf_trace st @ [sf_answered x (SfOpenRoot d)]" "sf_seen st' = sf_seen st"
    using do_adds [OF assms(1)] by (simp_all add: sf_adds_def)
  have "target_keys env r base b [sf_answered x (SfOpenRoot d)] = []" by (simp add: target_keys_def)
  then show "stays_rooted env r d base b st'" using assms(2) st' unfolding stays_rooted_def names_ok_def
    by (simp add: root_event_def del: target_keys_simps(3))
  show "x = None \<Longrightarrow> SfOpenRoot d \<in> set (sf_trace st')" using st'(1) by simp
qed

lemma place_paths:
  assumes "list_all plain_part ws" "ws \<noteq> []" "plain_part base" "download_place stat ws base = (d, b)"
  shows "\<exists>p. (if (\<exists>x. stat = Inr x \<and> si_kind x = SfDir) then path_Join [abs_path ws, base] else abs_path ws) = p \<and>
    path_Dir p = d \<and> path_Base p = b \<and> plain_part b"
proof (cases "\<exists>x. stat = Inr x \<and> si_kind x = SfDir")
  case True
  have "name_parts base = [base]" "''..'' \<notin> set (split_byte (CHR ''/'') base)"
    using plain_join(2,1,5) [of "[base]"] assms(3) by simp_all
  then have "path_Join [abs_path ws, base] = abs_path (ws @ [base])" using join_below [OF assms(1), of base] assms(3) by (simp add: plain_part_def)
  then show ?thesis using True assms base_abs [of ws base] Dir_abs_path [of ws base] by (auto simp: download_place_def)
next
  case False
  obtain vs w where ws: "ws = vs @ [w]" using assms(2) by (cases ws rule: rev_cases) auto
  then show ?thesis using assms base_abs [of vs w] Dir_abs_path [of vs w] unfolding download_place_def if_not_P [OF False] by auto
qed

lemma downloadSSH_within:
  assumes "downloadSSH env r st = (e, st')" "hex_names env" "sa_abs env (sq_local r) = Inr (abs_path ws)" "list_all plain_part ws" "ws \<noteq> []"
    and "base = path_Base (path_Clean (sq_remote r))" "download_place (sa_stat env (sf_clock st) (SfLocal, abs_path ws)) ws base = (d, b)"
    and rooted: "stays_rooted env r d base b st"
  shows "stays_rooted env r d base b st'"
proof -
  obtain stat s1 where t: "sf_stat env (SfLocal, abs_path ws) st = (stat, s1)" by fastforce
  have s1: "stays_rooted env r d base b s1" using rooted_quiet [OF rooted, of s1 "[]"] t by (auto simp: sf_stat_def sf_tick_def)
  have stat: "stat = sa_stat env (sf_clock st) (SfLocal, abs_path ws)" using t by (simp add: sf_stat_def)
  show ?thesis
  proof (cases "ValidFileName base")
    case False
    then have "st' = st" using assms(1,6) by (simp add: downloadSSH_def)
    then show ?thesis using rooted by simp
  next
    case True
    then have bp: "plain_part base" using valid_plain [of "[base]"] by simp
    let ?p = "if (\<exists>x. stat = Inr x \<and> si_kind x = SfDir) then path_Join [abs_path ws, base] else abs_path ws"
    have p: "path_Dir ?p = d" "path_Base ?p = b" "plain_part b" using place_paths [OF assms(4,5) bp, of stat d b] assms(7) stat by auto
    have "st' = s1 \<or> sf_then (sf_do env (SfOpenRoot (path_Dir ?p)) s1) (\<lambda>s2.
        download_walk env r base (path_Base ?p) (sq_remote r) base 0 s2) = (e, st')"
      using assms(1,3) True t unfolding downloadSSH_def assms(6) [symmetric] by (cases stat) (simp_all add: Let_def split: if_splits)
    then consider "st' = s1" | "sf_then (sf_do env (SfOpenRoot d) s1) (\<lambda>s2. download_walk env r base b (sq_remote r) base 0 s2) = (e, st')"
      unfolding p by blast
    then show ?thesis
    proof cases
      case 1
      then show ?thesis using s1 by simp
    next
      case 2
      then show ?thesis
      proof (cases rule: then_cases)
        case (1 x)
        then show ?thesis using rooted_open(1) s1 by blast
      next
        case (2 s2)
        note s2 = rooted_open [OF 2(1) s1]
        have "stays_in env r base b s2 st'" using sf_contained.walk_ok [OF 2(2)] p(3) assms(2) by blast
        then show ?thesis using rooted_in [OF s2(1)] s2(2) by blast
      qed
    qed
  qed
qed

lemma run_get_within:
  assumes run: "RunSSHFiles env r sf_initial = (e, st')" and "sq_operation r = ''get''"
    and ws: "hex_names env" "sa_abs env (sq_local r) = Inr (abs_path ws)" "list_all plain_part ws" "ws \<noteq> []"
    and place: "base = path_Base (path_Clean (sq_remote r))" "download_place (sa_stat env 1 (SfLocal, abs_path ws)) ws base = (d, b)"
  shows "stays_rooted env r d base b st'"
proof -
  have init: "stays_rooted env r d base b sf_initial" by (simp add: stays_rooted_def names_ok_def sf_initial_def)
  have quiet: "stays_rooted env r d base b s'" if "sf_do env ev s = (x, s')" "ev \<in> {SfConnect, SfDisconnect}" "stays_rooted env r d base b s" for s s' x ev
    using do_adds [OF that(1)] that(2) by (intro rooted_quiet [OF that(3)]) (auto simp: sf_adds_def local_in_def)
  show ?thesis
  proof (cases "validateSSHFiles r")
    case (Some y)
    then show ?thesis using run init by (simp add: RunSSHFiles_def)
  next
    case None
    obtain x s1 where c: "sf_do env SfConnect sf_initial = (x, s1)" by fastforce
    have s1: "stays_rooted env r d base b s1" "sf_clock s1 = 1"
      using quiet [OF c _ init] c by (auto simp: sf_do_def sf_emit_def sf_initial_def Let_def)
    obtain f s2 where f: "downloadSSH env r s1 = (f, s2)" by fastforce
    have s2: "stays_rooted env r d base b s2" using downloadSSH_within [OF f ws place(1) _ s1(1)] place(2) s1(2) by simp
    obtain g s3 where g: "runSSHFiles env r s1 = (g, s3)" by fastforce
    have "sf_trace s3 = sf_trace s2 \<and> sf_seen s3 = sf_seen s2"
      using f g assms(2) by (auto simp: runSSHFiles_def sftp_operation_def Let_def split: option.splits)
    then have s3: "stays_rooted env r d base b s3" using rooted_quiet [OF s2, of s3 "[]"] by simp
    obtain ce s4 where dc: "sf_do env SfDisconnect s3 = (ce, s4)" by fastforce
    obtain k s5 where k: "sf_check env s4 = (k, s5)" by fastforce
    have s4: "stays_rooted env r d base b s4" using quiet [OF dc _ s3] by simp
    have s5: "stays_rooted env r d base b s5" using rooted_quiet [OF s4, of s5 "[]"] k by (auto simp: sf_check_def sf_tick_def)
    have "st' = s1 \<or> st' = s5"
      using run None assms(2) c g dc k by (auto simp: RunSSHFiles_def sf_then_def Let_def split: option.splits)
    then show ?thesis using s1(1) s5 by blast
  qed
qed

section \<open>The property\<close>

text \<open>
  C37 Whatever names and answers the server gives, a get over SFTP touches local files only in the one directory it opens, after it has been
  opened: the parent of the destination, or, when the destination is a directory, this directory itself; no other directory is opened.
  There every path it opens, creates, reads, writes, renames and removes is the destination (which has the name of the source in the second
  case), below it, or a staging file in that directory. No two of the paths that take a received entry, made, created or renamed to,
  successfully or not, have the same name up to case, and there are at most 100,000.
\<close>

theorem ssh_download_contained:
  assumes "sq_operation r = ''get''" "hex_names env" "sa_abs env (sq_local r) = Inr (abs_path ws)" "list_all plain_part ws" "ws \<noteq> []"
    and "RunSSHFiles env r sf_initial = (e, st)" "\<not> sq_scp r"
    and "base = path_Base (path_Clean (sq_remote r))" "download_place (sa_stat env 1 (SfLocal, abs_path ws)) ws base = (d, b)"
  shows "(\<forall>i < length (sf_trace st).
      (\<forall>c. ev_call (sf_trace st ! i) = SfOpenRoot c \<longrightarrow> c = d) \<and>
      (\<forall>p \<in> set (event_paths (sf_trace st ! i)). fst p = SfLocal \<longrightarrow> SfOpenRoot d \<in> set (take i (sf_trace st)) \<and> in_root b (snd p))) \<and>
    distinct (target_keys env r base b (sf_trace st)) \<and> length (target_keys env r base b (sf_trace st)) \<le> 100000"
proof -
  have k: "stays_rooted env r d base b st" by (rule run_get_within [OF assms(6,1,2-5,8,9)])
  then have n: "names_ok env r base b st" and t: "root_trace d b (sf_trace st)" by (simp_all add: stays_rooted_def)
  have "length (target_keys env r base b (sf_trace st)) \<le> length (sf_seen st)"
    using n unfolding names_ok_def by (metis card_length card_mono distinct_card dual_order.trans finite_set)
  then show ?thesis using n t unfolding names_ok_def root_trace_def root_event_def by auto
qed

section \<open>A concrete transfer\<close>

text \<open>A server and a local file system where every file has three bytes, every call succeeds, and the hash is the content.\<close>

definition sample_info :: sf_info where "sample_info = \<lparr>si_name = ''f'', si_size = 3, si_kind = SfRegular\<rparr>"

definition sample_files :: "string \<Rightarrow> sf_env" where
  "sample_files local =
     \<lparr>sa_ctx = (\<lambda>n. None), sa_read = (\<lambda>n k. (''abc'', Some IoEOF)), sa_write = (\<lambda>n d. (length d, None)), sa_call = (\<lambda>n ev. None),
      sa_stat = (\<lambda>n p. Inr sample_info), sa_list = (\<lambda>n p. Inr []), sa_abs = (\<lambda>p. Inr local),
      sa_walk = [(''f'', None, SfRegular, Inr sample_info)], sa_tree = [(''/h/f'', None, SfRegular, Inr sample_info)],
      sa_lower = to_lower, sa_posix_rename = (\<lambda>n. None), sa_nonce = (\<lambda>n. Inr ''0f''), sa_sha256 = id, sa_progress = False,
      sa_verification = False\<rparr>"

definition sample_request :: "string \<Rightarrow> bool \<Rightarrow> sf_request" where
  "sample_request operation safe =
     \<lparr>sq_scp = False, sq_protocol_ok = True, sq_operation = operation, sq_local = ''f'', sq_remote = ''/r/f'', sq_target = [],
      sq_recursive = False, sq_overwrite = True, sq_safe = safe, sq_verify = ''sha256''\<rparr>"

lemma then_cong: "p = p' \<Longrightarrow> sf_then p k = sf_then p' k"
  by simp

lemma then_eval: "sf_then (None, st) k = k st" "sf_then (Some e, st) k = (Some e, st)"
  by (simp_all add: sf_then_def)

lemmas sf_eval = RunSSHFiles_def runSSHFiles_def sftp_operation_def uploadSFTP_def upload_entry_def downloadSSH_def validateSSHFiles_def
  validateUploadTree_def sf_receive_def receive_name_def replaceSFTPUpload_def replaceSFTPDownload_def sf_direct_def sf_commit_def sf_stage_def
  sf_copy_close_def copySSHFileChecked_def copySSHFile_def sf_copy_loop.simps download_walk.simps sf_block_def sf_put_def sf_report_def
  sf_read_end_def verifySSHCopy_def hashSSHFile_def startSSHVerification_def finishSSHVerification_def completeSSHFile_def sshTemporaryName_def
  sf_closing_def sf_do_def sf_check_def sf_stat_def sf_tick_def sf_emit_def sf_existing_def sample_files_def sample_request_def sample_info_def
  sf_initial_def Let_def sf_limit_def err_join_def

lemma sample_paths:
  "path_Base ''/h/f'' = ''f''" "path_Dir ''/h/f'' = ''/h''" "ValidFileName ''f''" "trim_prefix ''f'' ''f'' = []" "sf_parent ''/r/f'' = ''/r/''"
  "path_Base (path_Clean ''/r/f'') = ''f''" "path_Base (abs_path [''h'', ''g'']) = ''g''" "path_Dir (abs_path [''h'', ''g'']) = ''/h''"
  "split_byte (CHR ''/'') ''f'' = [''f'']" "path_Join [''g''] = ''g''" "path_Dir ''g'' = ''.''"
  "path_Join [''.'', ''.channelterm-0f.part''] = ''.channelterm-0f.part''" "to_lower ''f'' = ''f''"
  by code_simp+

lemma sample_put:
  "fst (RunSSHFiles (sample_files ''/h/f'') (sample_request ''put'' False) sf_initial) = None"
  "sf_trace (snd (RunSSHFiles (sample_files ''/h/f'') (sample_request ''put'' False) sf_initial)) =
     [SfConnect, SfOpenRoot ''/h'', SfOpen (SfLocal, ''f'')] @ SfCreate (SfRemote, ''/r/f'') False #
     [SfRead (SfLocal, ''f'') ''abc'', SfWrite (SfRemote, ''/r/f'') ''abc'', SfClose (SfRemote, ''/r/f''),
      SfOpen (SfRemote, ''/r/f''), SfRead (SfRemote, ''/r/f'') ''abc'', SfClose (SfRemote, ''/r/f''), SfClose (SfLocal, ''f''), SfDisconnect]"
  by (simp_all add: sf_eval sample_paths then_eval cong: then_cong)

lemma sample_safe_put:
  "fst (RunSSHFiles (sample_files ''/h/f'') (sample_request ''put'' True) sf_initial) = None"
  "filter (\<lambda>ev. \<not> harmless ev) (sf_trace (snd (RunSSHFiles (sample_files ''/h/f'') (sample_request ''put'' True) sf_initial))) =
     [SfCreate (SfRemote, ''/r/.channelterm-0f.part'') True, SfWrite (SfRemote, ''/r/.channelterm-0f.part'') ''abc'',
      SfRename (SfRemote, ''/r/.channelterm-0f.part'') (SfRemote, ''/r/f'') True]"
  by (simp_all add: sf_eval sample_paths then_eval cong: then_cong)

lemma sample_get:
  "fst (RunSSHFiles (sample_files (abs_path [''h'', ''g''])) (sample_request ''get'' True) sf_initial) = None"
  "SfOpenRoot ''/h'' \<in> set (sf_trace (snd (RunSSHFiles (sample_files (abs_path [''h'', ''g''])) (sample_request ''get'' True) sf_initial)))"
  "target_keys (sample_files (abs_path [''h'', ''g''])) (sample_request ''get'' True) ''f'' ''g''
     (sf_trace (snd (RunSSHFiles (sample_files (abs_path [''h'', ''g''])) (sample_request ''get'' True) sf_initial))) = [''f'']"
  by (simp_all add: sf_eval sample_paths then_eval target_keys_def cong: then_cong)

theorem ssh_copies_complete_witness:
  "\<exists>body check rest src. [SfRead (SfLocal, ''f'') ''abc'', SfWrite (SfRemote, ''/r/f'') ''abc'', SfClose (SfRemote, ''/r/f''),
      SfOpen (SfRemote, ''/r/f''), SfRead (SfRemote, ''/r/f'') ''abc'', SfClose (SfRemote, ''/r/f''), SfClose (SfLocal, ''f''), SfDisconnect] =
     body @ SfClose (SfRemote, ''/r/f'') # check @ rest \<and> no_failure (body @ SfClose (SfRemote, ''/r/f'') # check) \<and>
     written (SfRemote, ''/r/f'') body = bytes_read src body"
proof (cases "RunSSHFiles (sample_files ''/h/f'') (sample_request ''put'' False) sf_initial")
  case (Pair e st)
  then have run: "RunSSHFiles (sample_files ''/h/f'') (sample_request ''put'' False) sf_initial = (None, st)" using sample_put(1) by simp
  have r: "sq_operation (sample_request ''put'' False) = ''put'' \<or> sq_operation (sample_request ''put'' False) = ''get''"
    "\<not> sq_scp (sample_request ''put'' False)" by (simp_all add: sample_request_def)
  show ?thesis using ssh_copies_complete [OF r run sample_put(2) [unfolded Pair snd_conv]]
    by (elim exE conjE) (intro exI conjI, assumption+)
qed

theorem ssh_safe_replacement_witness:
  "\<exists>st. RunSSHFiles (sample_files ''/h/f'') (sample_request ''put'' True) sf_initial = (None, st) \<and>
     (\<forall>i < length (sf_trace st). safe_event (sample_files ''/h/f'') (sample_request ''put'' True) (take i (sf_trace st)) (sf_trace st ! i)) \<and>
     filter (\<lambda>ev. \<not> harmless ev) (sf_trace st) =
       [SfCreate (SfRemote, ''/r/.channelterm-0f.part'') True, SfWrite (SfRemote, ''/r/.channelterm-0f.part'') ''abc'',
        SfRename (SfRemote, ''/r/.channelterm-0f.part'') (SfRemote, ''/r/f'') True]"
proof (cases "RunSSHFiles (sample_files ''/h/f'') (sample_request ''put'' True) sf_initial")
  case (Pair e st)
  then show ?thesis
    using ssh_safe_replacement [OF _ _ _ Pair] sample_safe_put by (simp add: sample_request_def)
qed

theorem ssh_download_contained_witness:
  "\<exists>st. RunSSHFiles (sample_files (abs_path [''h'', ''g''])) (sample_request ''get'' True) sf_initial = (None, st) \<and>
     SfOpenRoot ''/h'' \<in> set (sf_trace st) \<and>
     (\<forall>i < length (sf_trace st). \<forall>p \<in> set (event_paths (sf_trace st ! i)). fst p = SfLocal \<longrightarrow>
        SfOpenRoot (abs_path [''h'']) \<in> set (take i (sf_trace st)) \<and> in_root ''g'' (snd p)) \<and>
     target_keys (sample_files (abs_path [''h'', ''g''])) (sample_request ''get'' True) ''f'' ''g'' (sf_trace st) = [''f'']"
proof (cases "RunSSHFiles (sample_files (abs_path [''h'', ''g''])) (sample_request ''get'' True) sf_initial")
  case (Pair e st)
  have base: "''f'' = path_Base (path_Clean (sq_remote (sample_request ''get'' True)))" by code_simp
  have h: "hex_names (sample_files (abs_path [''h'', ''g'']))" by (simp add: hex_names_def sample_files_def) code_simp
  have p: "list_all plain_part [''h'', ''g'']" by (simp add: plain_part_def)
  have a: "sa_abs (sample_files (abs_path [''h'', ''g''])) (sq_local (sample_request ''get'' True)) = Inr (abs_path [''h'', ''g''])"
    by (simp add: sample_files_def)
  have r: "sq_operation (sample_request ''get'' True) = ''get''" "\<not> sq_scp (sample_request ''get'' True)" by (simp_all add: sample_request_def)
  have d: "download_place (sa_stat (sample_files (abs_path [''h'', ''g''])) 1 (SfLocal, abs_path [''h'', ''g''])) [''h'', ''g''] ''f'' = (abs_path [''h''], ''g'')"
    by (simp add: download_place_def sample_files_def sample_info_def)
  show ?thesis
    using ssh_download_contained [OF r(1) h a p _ Pair r(2) base d] sample_get unfolding Pair fst_conv snd_conv by simp
qed

text \<open>
  C38 A copy returns, whatever the source delivers: it reads at most one time more than the announced size has bytes. When it reports success
  it has read exactly the announced number of bytes and written exactly these.
\<close>

theorem ssh_copy_returns:
  "case copySSHFile env report name len src (Some dst) st of (n, e, seen, st') \<Rightarrow>
     \<exists>ext. sf_trace st' = sf_trace st @ ext \<and> read_count ext \<le> nat len + 1 \<and> seen = bytes_read src ext \<and>
       (e = None \<longrightarrow> n = len \<and> int (length seen) = len \<and> written dst ext = seen)"
proof (cases "copySSHFile env report name len src (Some dst) st")
  case (fields n e seen st')
  then show ?thesis using copy_adds [OF fields] by (auto simp: sf_adds_def)
qed

theorem ssh_copy_returns_witness:
  "\<exists>n seen st'. copySSHFile (sample_files ''/h/f'') False ''f'' 3 (SfLocal, ''f'') (Some (SfRemote, ''g'')) sf_initial = (n, None, seen, st') \<and>
     n = 3 \<and> read_count (sf_trace st') \<le> 4 \<and> written (SfRemote, ''g'') (sf_trace st') = seen"
proof (cases "copySSHFile (sample_files ''/h/f'') False ''f'' 3 (SfLocal, ''f'') (Some (SfRemote, ''g'')) sf_initial")
  case (fields n e seen st')
  have "fst (snd (copySSHFile (sample_files ''/h/f'') False ''f'' 3 (SfLocal, ''f'') (Some (SfRemote, ''g'')) sf_initial)) = None" by code_simp
  then have "e = None" using fields by simp
  then show ?thesis
    using ssh_copy_returns [where env = "sample_files ''/h/f''" and report = False and name = "''f''" and len = 3 and
        src = "(SfLocal, ''f'')" and dst = "(SfRemote, ''g'')" and st = sf_initial] fields
    by (auto simp: sf_initial_def)
qed

end
