(* ===== verification/Debugger_Endpoint.thy ===== *)
theory Debugger_Endpoint
  imports Debugger_Ports
begin

text \<open>
  The RSP endpoint (\<open>internal/core/debugger/endpoint.go\<close>, \<open>endpoint_keepalive.go\<close>): the authentication of peers, the one data
  and one control connection it admits, the heartbeat on the latter, and its end. A step is one locked section of one of its
  goroutines (the accepting caller, the control acceptor, the heartbeat, the timer of a missing control connection, the
  closing callers) or one close of a connection; an event that is not enabled changes nothing, so every interleaving is a list of
  events. TLS, the clock and the bytes of the peers are in the events.
\<close>

section \<open>State\<close>

definition bridgePreface :: string where "bridgePreface = ''ChannelTerm-RSP/1 ''"
definition bridgeAlivePreface :: string where "bridgeAlivePreface = ''ChannelTerm-RSP/2 ''"
definition bridgeControlPreface :: string where "bridgeControlPreface = ''ChannelTerm-HBT/1 ''"
definition bridgeAliveInterval :: int where "bridgeAliveInterval = 10 * 1000000000"
definition bridgeAliveTimeout :: int where "bridgeAliveTimeout = 30 * 1000000000"

text \<open>What a listener was given: the token, the allowed peer, and which addresses are loopback ones.\<close>

record endpoint_config =
  ec_token :: string
  ec_peer :: "string option"
  ec_loopback :: "string \<Rightarrow> bool"
  ec_timeout :: int

text \<open>
  Where the goroutines are. \<open>AcDropping\<close> and \<open>CtDropping\<close> are before the close of a connection that is not admitted (the flag: \<open>Accept\<close>
  returns then), \<open>CtChecked\<close> is between the two locked sections before a control handshake, \<open>HbLosing\<close> and \<open>TmMissing\<close> are before the call of
  \<open>stopClient\<close>.
\<close>

datatype accept_pc = AcIdle | AcListening | AcAuthenticating nat | AcAuthenticated nat string | AcDropping nat bool | AcReturned "nat option"
datatype control_pc = CtOff | CtListening | CtChecked nat | CtAuthenticating nat | CtAuthenticated nat | CtDropping nat | CtStopped
datatype heart_pc = HbOff | HbRound nat | HbSleeping nat | HbLosing | HbOver
datatype timer_pc = TmOff | TmRunning | TmMissing | TmOver
datatype client_ender = EnHeart | EnTimer | EnData | EnClose
datatype close_pc = ClNone | ClStopping | ClReleasing | ClDone

record bridge_endpoint =
  en_pending :: "nat option"
  en_closed :: bool
  en_accepting :: bool
  en_data :: "nat option"
  en_control :: "nat option"
  en_dataEnded :: bool
  en_ender :: "client_ender option"  \<comment> \<open>who ended the client\<close>
  en_ending :: "nat list"            \<comment> \<open>what it has still to close, in order\<close>
  en_leaving :: nat                  \<comment> \<open>callers of the \<open>Close\<close> of the data connection behind \<open>stopClient\<close>\<close>
  en_keepalive :: bool
  en_lastAlive :: "int option"
  en_keepaliveErr :: "goerr option"
  en_doneClosed :: nat               \<comment> \<open>how often \<open>clientDone\<close> was closed: the second time panics\<close>
  en_released :: nat
  en_open :: "nat set"               \<comment> \<open>accepted connections that are not closed\<close>
  en_accept :: accept_pc
  en_ctl :: control_pc
  en_heart :: heart_pc
  en_timer :: timer_pc
  en_close :: close_pc
  en_admitted :: "(nat \<times> string \<times> string) list"   \<comment> \<open>connection, address and preface of those authenticated\<close>
  en_addr :: "nat \<Rightarrow> string"

definition newEndpoint :: bridge_endpoint where
  "newEndpoint =
     \<lparr>en_pending = None, en_closed = False, en_accepting = False, en_data = None, en_control = None, en_dataEnded = False, en_ender = None, en_ending = [], en_leaving = 0,
      en_keepalive = False, en_lastAlive = None, en_keepaliveErr = None, en_doneClosed = 0, en_released = 0, en_open = {},
      en_accept = AcIdle, en_ctl = CtOff, en_heart = HbOff, en_timer = TmOff, en_close = ClNone, en_admitted = [], en_addr = (\<lambda>c. [])\<rparr>"

text \<open>The handshake of the pending connection: its preface and whether the answer was written, or a failure, which may be a closed socket.\<close>

datatype handshake = HsPreface string bool | HsFailed bool

datatype endpoint_event =
    EvAccept
  | EvConnection nat string          \<comment> \<open>the listener delivers a new connection from an address\<close>
  | EvListenerClosed
  | EvPending
  | EvHandshake handshake
  | EvAdmit
  | EvDrop
  | EvBeat int string "string option" bool   \<comment> \<open>time, challenge, response, and whether the challenge was written\<close>
  | EvWake
  | EvHeartDone
  | EvHeartStop
  | EvTimer
  | EvTimerDone
  | EvTimerStop
  | EvDataClose
  | EvDataConn
  | EvShut                           \<comment> \<open>the next close of a connection by whoever ended the client\<close>
  | EvClose
  | EvCloseNext

section \<open>Operations\<close>

definition shut :: "nat option \<Rightarrow> bridge_endpoint \<Rightarrow> bridge_endpoint" where
  "shut c e = (case c of None \<Rightarrow> e | Some n \<Rightarrow> e\<lparr>en_open := en_open e - {n}\<rparr>)"

text \<open>The locked section of \<open>stopClient\<close>; the connections are closed after it, one by one.\<close>

definition stopClient :: "client_ender \<Rightarrow> goerr option \<Rightarrow> bridge_endpoint \<Rightarrow> bridge_endpoint" where
  "stopClient who cause e =
     (if en_dataEnded e then e
      else e\<lparr>en_dataEnded := True, en_doneClosed := Suc (en_doneClosed e), en_keepaliveErr := cause, en_ender := Some who,
             en_ending := (case en_data e of None \<Rightarrow> [] | Some d \<Rightarrow> [d]) @ (case en_control e of None \<Rightarrow> [] | Some c \<Rightarrow> [c])\<rparr>)"

definition ep_shut :: "bridge_endpoint \<Rightarrow> bridge_endpoint" where
  "ep_shut e =
     (case en_ending e of
        [] \<Rightarrow> e
      | c # cs \<Rightarrow> (shut (Some c) e)\<lparr>en_ending := cs,
          en_leaving := (if cs = [] \<and> en_ender e = Some EnData then Suc (en_leaving e) else en_leaving e)\<rparr>)"

definition ClientAlive :: "endpoint_config \<Rightarrow> int \<Rightarrow> bridge_endpoint \<Rightarrow> bool" where
  "ClientAlive cfg now e \<longleftrightarrow>
     \<not> en_closed e \<and> \<not> en_dataEnded e \<and> en_control e \<noteq> None \<and>
     (case en_lastAlive e of None \<Rightarrow> False | Some t \<Rightarrow> now - t < ec_timeout cfg)"

definition ClientError :: "bridge_endpoint \<Rightarrow> goerr option" where "ClientError e = en_keepaliveErr e"

definition peer_allowed :: "endpoint_config \<Rightarrow> string \<Rightarrow> bool" where
  "peer_allowed cfg addr \<longleftrightarrow> (case ec_peer cfg of Some p \<Rightarrow> addr = p | None \<Rightarrow> ec_loopback cfg addr)"

text \<open>The protocols a loop offers; the last that matches counts.\<close>

fun match_preface :: "endpoint_config \<Rightarrow> string list \<Rightarrow> string \<Rightarrow> string \<Rightarrow> string" where
  "match_preface cfg [] preface protocol = protocol"
| "match_preface cfg (p # ps) preface protocol =
     match_preface cfg ps preface (if preface = p @ ec_token cfg @ [CHR 0x0A] then p else protocol)"

text \<open>\<open>authenticate\<close> up to the handshake: \<open>None\<close> rejects, \<open>Some False\<close> finds the endpoint closed.\<close>

definition authenticate_begin :: "endpoint_config \<Rightarrow> string \<Rightarrow> bridge_endpoint \<Rightarrow> bool option" where
  "authenticate_begin cfg addr e = (if \<not> peer_allowed cfg addr then None else if en_closed e then Some False else Some True)"

text \<open>Its end: the protocol.\<close>

definition authenticate_end :: "endpoint_config \<Rightarrow> string list \<Rightarrow> handshake \<Rightarrow> string option" where
  "authenticate_end cfg protocols h =
     (case h of HsFailed c \<Rightarrow> None
      | HsPreface preface written \<Rightarrow>
          if length preface \<noteq> length bridgePreface + 64 + 1 then None
          else let protocol = match_preface cfg protocols preface [] in if protocol = [] \<or> \<not> written then None else Some protocol)"

definition handshake_closed :: "handshake \<Rightarrow> bool" where
  "handshake_closed h \<longleftrightarrow> (case h of HsFailed c \<Rightarrow> c | _ \<Rightarrow> False)"

definition preface_of :: "handshake \<Rightarrow> string" where
  "preface_of h = (case h of HsPreface p w \<Rightarrow> p | HsFailed c \<Rightarrow> [])"

definition ep_accept :: "bridge_endpoint \<Rightarrow> bridge_endpoint" where
  "ep_accept e =
     (if en_accepting e \<or> en_closed e then e else e\<lparr>en_accepting := True, en_accept := AcListening\<rparr>)"

text \<open>The data loop takes a connection while it listens, the control loop after it. A refused connection is open until it is dropped.\<close>

definition ep_connection :: "endpoint_config \<Rightarrow> nat \<Rightarrow> string \<Rightarrow> bridge_endpoint \<Rightarrow> bridge_endpoint" where
  "ep_connection cfg c addr e0 =
     (let e = e0\<lparr>en_addr := (en_addr e0)(c := addr), en_open := insert c (en_open e0)\<rparr> in
      if en_accept e = AcListening then
        (case authenticate_begin cfg addr e of
           None \<Rightarrow> e\<lparr>en_accept := AcDropping c False\<rparr>
         | Some False \<Rightarrow> e\<lparr>en_accept := AcDropping c True\<rparr>
         | Some True \<Rightarrow> e\<lparr>en_pending := Some c, en_accept := AcAuthenticating c\<rparr>)
      else if en_ctl e = CtListening then
        (if \<not> (en_keepalive e \<and> \<not> en_dataEnded e \<and> \<not> en_closed e \<and> en_control e = None) then e\<lparr>en_ctl := CtDropping c\<rparr>
         else e\<lparr>en_ctl := CtChecked c\<rparr>)
      else e0)"

text \<open>The beginning of the authentication of a control connection, under the lock again.\<close>

definition ep_pending :: "endpoint_config \<Rightarrow> bridge_endpoint \<Rightarrow> bridge_endpoint" where
  "ep_pending cfg e =
     (case en_ctl e of
        CtChecked c \<Rightarrow>
          if authenticate_begin cfg (en_addr e c) e = Some True then e\<lparr>en_pending := Some c, en_ctl := CtAuthenticating c\<rparr>
          else e\<lparr>en_ctl := CtDropping c\<rparr>
      | _ \<Rightarrow> e)"

definition ep_handshake :: "endpoint_config \<Rightarrow> handshake \<Rightarrow> bridge_endpoint \<Rightarrow> bridge_endpoint" where
  "ep_handshake cfg h e =
     (case en_accept e of
        AcAuthenticating c \<Rightarrow>
          (case authenticate_end cfg [bridgePreface, bridgeAlivePreface] h of
             Some protocol \<Rightarrow> e\<lparr>en_pending := None, en_accept := AcAuthenticated c protocol,
               en_admitted := en_admitted e @ [(c, en_addr e c, preface_of h)]\<rparr>
           | None \<Rightarrow> e\<lparr>en_pending := None, en_accept := AcDropping c (handshake_closed h)\<rparr>)
      | _ \<Rightarrow>
        (case en_ctl e of
           CtAuthenticating c \<Rightarrow>
             (case authenticate_end cfg [bridgeControlPreface] h of
                Some protocol \<Rightarrow> e\<lparr>en_pending := None, en_ctl := CtAuthenticated c,
                  en_admitted := en_admitted e @ [(c, en_addr e c, preface_of h)]\<rparr>
              | None \<Rightarrow> e\<lparr>en_pending := None, en_ctl := CtDropping c\<rparr>)
         | _ \<Rightarrow> e))"

text \<open>The admission after the handshake, under the lock again.\<close>

definition ep_admit :: "bridge_endpoint \<Rightarrow> bridge_endpoint" where
  "ep_admit e =
     (case en_accept e of
        AcAuthenticated c protocol \<Rightarrow>
          if en_closed e then e\<lparr>en_accept := AcDropping c True\<rparr>
          else e\<lparr>en_data := Some c, en_keepalive := (protocol = bridgeAlivePreface), en_accept := AcReturned (Some c), en_ctl := CtListening,
                  en_timer := (if protocol = bridgeAlivePreface then TmRunning else en_timer e)\<rparr>
      | _ \<Rightarrow>
        (case en_ctl e of
           CtAuthenticated c \<Rightarrow>
             if en_closed e \<or> en_dataEnded e then e\<lparr>en_ctl := CtDropping c\<rparr>
             else e\<lparr>en_control := Some c, en_ctl := CtListening, en_heart := HbRound c\<rparr>
         | _ \<Rightarrow> e))"

text \<open>The close of a connection that is not admitted, outside the lock.\<close>

definition ep_drop :: "bridge_endpoint \<Rightarrow> bridge_endpoint" where
  "ep_drop e =
     (case en_accept e of
        AcDropping c returns \<Rightarrow> (shut (Some c) e)\<lparr>en_accept := (if returns then AcReturned None else AcListening)\<rparr>
      | _ \<Rightarrow> (case en_ctl e of CtDropping c \<Rightarrow> (shut (Some c) e)\<lparr>en_ctl := CtListening\<rparr> | _ \<Rightarrow> e))"

definition heartbeat_lost :: goerr where
  "heartbeat_lost = ErrText ''bridge client heartbeat lost; target state remains unverified''"

definition ep_beat :: "int \<Rightarrow> string \<Rightarrow> string option \<Rightarrow> bool \<Rightarrow> bridge_endpoint \<Rightarrow> bridge_endpoint" where
  "ep_beat now challenge response written e =
     (case en_heart e of
        HbRound c \<Rightarrow>
          if \<not> written \<or> response \<noteq> Some challenge \<or> length challenge \<noteq> 16 \<or> en_dataEnded e \<or> en_closed e
          then e\<lparr>en_heart := HbLosing\<rparr>
          else e\<lparr>en_lastAlive := Some now, en_heart := HbSleeping c\<rparr>
      | _ \<Rightarrow> e)"

text \<open>The interval, or the end of the client, ends the sleep; the deferred call ends the heartbeat.\<close>

definition ep_wake :: "bridge_endpoint \<Rightarrow> bridge_endpoint" where
  "ep_wake e = (case en_heart e of HbSleeping c \<Rightarrow> e\<lparr>en_heart := HbRound c\<rparr> | _ \<Rightarrow> e)"

definition ep_heart_done :: "bridge_endpoint \<Rightarrow> bridge_endpoint" where
  "ep_heart_done e = (case en_heart e of HbSleeping c \<Rightarrow> if en_dataEnded e then e\<lparr>en_heart := HbLosing\<rparr> else e | _ \<Rightarrow> e)"

definition ep_heart_stop :: "bridge_endpoint \<Rightarrow> bridge_endpoint" where
  "ep_heart_stop e = (if en_heart e = HbLosing then (stopClient EnHeart (Some heartbeat_lost) e)\<lparr>en_heart := HbOver\<rparr> else e)"

text \<open>The timer of the data connection: it ends with the client, or looks for a control connection, and ends the client in another locked section.\<close>

definition ep_timer :: "bridge_endpoint \<Rightarrow> bridge_endpoint" where
  "ep_timer e = (if en_timer e = TmRunning then e\<lparr>en_timer := (if en_control e = None then TmMissing else TmOver)\<rparr> else e)"

definition ep_timer_done :: "bridge_endpoint \<Rightarrow> bridge_endpoint" where
  "ep_timer_done e = (if en_timer e = TmRunning \<and> en_dataEnded e then e\<lparr>en_timer := TmOver\<rparr> else e)"

definition ep_timer_stop :: "bridge_endpoint \<Rightarrow> bridge_endpoint" where
  "ep_timer_stop e =
     (if en_timer e = TmMissing then (stopClient EnTimer (Some (ErrText ''bridge client control connection missing'')) e)\<lparr>en_timer := TmOver\<rparr> else e)"

text \<open>\<open>endpointDataConn.Close\<close>, by the owners of the accepted connection: \<open>stopClient\<close>, then the close of the connection itself.\<close>

definition ep_data_close :: "bridge_endpoint \<Rightarrow> bridge_endpoint" where
  "ep_data_close e =
     (case en_accept e of
        AcReturned (Some c) \<Rightarrow> if en_dataEnded e then e\<lparr>en_leaving := Suc (en_leaving e)\<rparr> else stopClient EnData None e
      | _ \<Rightarrow> e)"

definition ep_data_conn :: "bridge_endpoint \<Rightarrow> bridge_endpoint" where
  "ep_data_conn e =
     (case en_accept e of
        AcReturned (Some c) \<Rightarrow> if en_leaving e = 0 then e else (shut (Some c) e)\<lparr>en_leaving := en_leaving e - 1\<rparr>
      | _ \<Rightarrow> e)"

text \<open>\<open>Close\<close> and its parts after the first locked section.\<close>

definition ep_close :: "bridge_endpoint \<Rightarrow> bridge_endpoint" where
  "ep_close e = (if en_closed e then e else (shut (en_pending e) e)\<lparr>en_closed := True, en_close := ClStopping\<rparr>)"

definition ep_close_next :: "bridge_endpoint \<Rightarrow> bridge_endpoint" where
  "ep_close_next e =
     (case en_close e of
        ClStopping \<Rightarrow> (stopClient EnClose None e)\<lparr>en_close := ClReleasing\<rparr>
      | ClReleasing \<Rightarrow>
          if en_ender e = Some EnClose \<and> en_ending e \<noteq> [] then e else e\<lparr>en_released := Suc (en_released e), en_close := ClDone\<rparr>
      | _ \<Rightarrow> e)"

definition ep_listener_closed :: "bridge_endpoint \<Rightarrow> bridge_endpoint" where
  "ep_listener_closed e =
     (if en_accept e = AcListening then e\<lparr>en_accept := AcReturned None\<rparr>
      else if en_ctl e = CtListening then e\<lparr>en_ctl := CtStopped\<rparr> else e)"

fun ep_step :: "endpoint_config \<Rightarrow> endpoint_event \<Rightarrow> bridge_endpoint \<Rightarrow> bridge_endpoint" where
  "ep_step cfg EvAccept e = ep_accept e"
| "ep_step cfg (EvConnection c addr) e = ep_connection cfg c addr e"
| "ep_step cfg EvListenerClosed e = ep_listener_closed e"
| "ep_step cfg EvPending e = ep_pending cfg e"
| "ep_step cfg (EvHandshake h) e = ep_handshake cfg h e"
| "ep_step cfg EvAdmit e = ep_admit e"
| "ep_step cfg EvDrop e = ep_drop e"
| "ep_step cfg (EvBeat now challenge response written) e = ep_beat now challenge response written e"
| "ep_step cfg EvWake e = ep_wake e"
| "ep_step cfg EvHeartDone e = ep_heart_done e"
| "ep_step cfg EvHeartStop e = ep_heart_stop e"
| "ep_step cfg EvTimer e = ep_timer e"
| "ep_step cfg EvTimerDone e = ep_timer_done e"
| "ep_step cfg EvTimerStop e = ep_timer_stop e"
| "ep_step cfg EvDataClose e = ep_data_close e"
| "ep_step cfg EvDataConn e = ep_data_conn e"
| "ep_step cfg EvShut e = ep_shut e"
| "ep_step cfg EvClose e = ep_close e"
| "ep_step cfg EvCloseNext e = ep_close_next e"

fun ep_run :: "endpoint_config \<Rightarrow> endpoint_event list \<Rightarrow> bridge_endpoint \<Rightarrow> bridge_endpoint" where
  "ep_run cfg [] e = e"
| "ep_run cfg (ev # evs) e = ep_run cfg evs (ep_step cfg ev e)"

section \<open>The state of the endpoint\<close>

text \<open>
  The connection a goroutine authenticates, the one it has authenticated and not yet admitted, the one it has only checked or is about to drop,
  and the one \<open>Accept\<close> returned.
\<close>

fun acc_auth :: "accept_pc \<Rightarrow> nat set" where
  "acc_auth (AcAuthenticating c) = {c}"
| "acc_auth _ = {}"

fun ctl_auth :: "control_pc \<Rightarrow> nat set" where
  "ctl_auth (CtAuthenticating c) = {c}"
| "ctl_auth _ = {}"

fun acc_ready :: "accept_pc \<Rightarrow> nat set" where
  "acc_ready (AcAuthenticated c p) = {c}"
| "acc_ready _ = {}"

fun ctl_ready :: "control_pc \<Rightarrow> nat set" where
  "ctl_ready (CtAuthenticated c) = {c}"
| "ctl_ready _ = {}"

fun acc_drop :: "accept_pc \<Rightarrow> nat set" where
  "acc_drop (AcDropping c b) = {c}"
| "acc_drop _ = {}"

fun ctl_drop :: "control_pc \<Rightarrow> nat set" where
  "ctl_drop (CtDropping c) = {c}"
| "ctl_drop _ = {}"

fun ctl_checked :: "control_pc \<Rightarrow> nat set" where
  "ctl_checked (CtChecked c) = {c}"
| "ctl_checked _ = {}"

fun acc_data :: "accept_pc \<Rightarrow> nat option" where
  "acc_data (AcReturned x) = x"
| "acc_data _ = None"

definition in_flight :: "bridge_endpoint \<Rightarrow> nat set" where
  "in_flight e = acc_auth (en_accept e) \<union> ctl_auth (en_ctl e) \<union> acc_ready (en_accept e) \<union> ctl_ready (en_ctl e) \<union>
     acc_drop (en_accept e) \<union> ctl_drop (en_ctl e) \<union> ctl_checked (en_ctl e)"

definition ep_roles :: "bridge_endpoint \<Rightarrow> bool" where
  "ep_roles e \<longleftrightarrow>
     (en_accepting e \<longleftrightarrow> en_accept e \<noteq> AcIdle) \<and>
     en_data e = acc_data (en_accept e) \<and>
     (en_ctl e \<noteq> CtOff \<longleftrightarrow> en_data e \<noteq> None) \<and>
     set_option (en_pending e) = acc_auth (en_accept e) \<union> ctl_auth (en_ctl e) \<and>
     (en_data e = None \<longrightarrow> \<not> en_keepalive e \<and> en_control e = None) \<and>
     (en_control e \<noteq> None \<longrightarrow> en_keepalive e) \<and>
     (ctl_checked (en_ctl e) \<union> ctl_auth (en_ctl e) \<union> ctl_ready (en_ctl e) \<noteq> {} \<longrightarrow> en_keepalive e \<and> en_control e = None)"

definition ep_apart :: "bridge_endpoint \<Rightarrow> bool" where
  "ep_apart e \<longleftrightarrow>
     in_flight e \<inter> (set_option (en_data e) \<union> set_option (en_control e)) = {} \<and>
     set_option (en_data e) \<inter> set_option (en_control e) = {}"

text \<open>Between the end of the client and the closes of its connections these are still open, or already closed by another caller.\<close>

definition ep_live :: "bridge_endpoint \<Rightarrow> nat set" where
  "ep_live e = (if en_dataEnded e then set (en_ending e) else set_option (en_data e) \<union> set_option (en_control e))"

definition ep_conns :: "bridge_endpoint \<Rightarrow> bool" where
  "ep_conns e \<longleftrightarrow> (\<not> en_dataEnded e \<longrightarrow> ep_live e \<subseteq> en_open e) \<and> en_open e \<subseteq> ep_live e \<union> in_flight e \<and>
     (\<not> en_closed e \<longrightarrow> in_flight e \<subseteq> en_open e)"

definition ep_ended :: "bridge_endpoint \<Rightarrow> bool" where
  "ep_ended e \<longleftrightarrow> (en_ending e \<noteq> [] \<or> en_leaving e \<noteq> 0 \<longrightarrow> en_dataEnded e) \<and> (en_ender e \<noteq> None \<longleftrightarrow> en_dataEnded e) \<and>
     set (en_ending e) \<subseteq> set_option (en_data e) \<union> set_option (en_control e) \<and> length (en_ending e) \<le> 2"

definition ep_done :: "bridge_endpoint \<Rightarrow> bool" where
  "ep_done e \<longleftrightarrow> en_doneClosed e = (if en_dataEnded e then 1 else 0) \<and> (en_dataEnded e \<and> en_data e = None \<longrightarrow> en_closed e)"

definition ep_released :: "bridge_endpoint \<Rightarrow> bool" where
  "ep_released e \<longleftrightarrow>
     (en_closed e \<longleftrightarrow> en_close e \<noteq> ClNone) \<and> en_released e = (if en_close e = ClDone then 1 else 0) \<and>
     (en_close e = ClReleasing \<or> en_close e = ClDone \<longrightarrow> en_dataEnded e) \<and>
     (en_close e = ClDone \<and> en_ender e = Some EnClose \<longrightarrow> en_ending e = [])"

definition ep_cause :: "bridge_endpoint \<Rightarrow> bool" where
  "ep_cause e \<longleftrightarrow>
     (\<not> en_dataEnded e \<longrightarrow> en_keepaliveErr e = None) \<and>
     (en_keepaliveErr e = None \<or> en_keepalive e \<and>
        (en_keepaliveErr e = Some heartbeat_lost \<or> en_keepaliveErr e = Some (ErrText ''bridge client control connection missing'')))"

definition ep_workers :: "bridge_endpoint \<Rightarrow> bool" where
  "ep_workers e \<longleftrightarrow> (en_heart e \<noteq> HbOff \<longleftrightarrow> en_control e \<noteq> None) \<and> (en_timer e \<noteq> TmOff \<longleftrightarrow> en_keepalive e)"

lemmas ep_ops = ep_accept_def ep_connection_def ep_handshake_def ep_admit_def ep_beat_def ep_wake_def ep_timer_def ep_data_close_def ep_close_def
  ep_close_next_def ep_listener_closed_def ep_pending_def ep_drop_def ep_heart_done_def ep_heart_stop_def ep_timer_done_def ep_timer_stop_def
  ep_data_conn_def ep_shut_def

lemma shut_fields [simp]:
  "en_open (shut c e) = en_open e - set_option c" "en_pending (shut c e) = en_pending e" "en_closed (shut c e) = en_closed e"
  "en_data (shut c e) = en_data e" "en_control (shut c e) = en_control e" "en_dataEnded (shut c e) = en_dataEnded e"
  "en_keepalive (shut c e) = en_keepalive e" "en_lastAlive (shut c e) = en_lastAlive e" "en_keepaliveErr (shut c e) = en_keepaliveErr e"
  "en_doneClosed (shut c e) = en_doneClosed e" "en_released (shut c e) = en_released e" "en_accept (shut c e) = en_accept e"
  "en_ctl (shut c e) = en_ctl e" "en_heart (shut c e) = en_heart e" "en_timer (shut c e) = en_timer e" "en_close (shut c e) = en_close e"
  "en_admitted (shut c e) = en_admitted e" "en_addr (shut c e) = en_addr e" "en_accepting (shut c e) = en_accepting e"
  "en_ender (shut c e) = en_ender e" "en_ending (shut c e) = en_ending e" "en_leaving (shut c e) = en_leaving e"
  by (simp_all add: shut_def split: option.split)

lemma stopClient_fields [simp]:
  "en_open (stopClient w x e) = en_open e" "en_pending (stopClient w x e) = en_pending e" "en_closed (stopClient w x e) = en_closed e"
  "en_data (stopClient w x e) = en_data e" "en_control (stopClient w x e) = en_control e" "en_dataEnded (stopClient w x e)"
  "en_keepalive (stopClient w x e) = en_keepalive e" "en_lastAlive (stopClient w x e) = en_lastAlive e"
  "en_keepaliveErr (stopClient w x e) = (if en_dataEnded e then en_keepaliveErr e else x)"
  "en_doneClosed (stopClient w x e) = (if en_dataEnded e then en_doneClosed e else Suc (en_doneClosed e))"
  "en_ender (stopClient w x e) = (if en_dataEnded e then en_ender e else Some w)"
  "set (en_ending (stopClient w x e)) = (if en_dataEnded e then set (en_ending e) else set_option (en_data e) \<union> set_option (en_control e))"
  "en_leaving (stopClient w x e) = en_leaving e" "length (en_ending e) \<le> 2 \<Longrightarrow> length (en_ending (stopClient w x e)) \<le> 2"
  "en_released (stopClient w x e) = en_released e" "en_accept (stopClient w x e) = en_accept e"
  "en_ctl (stopClient w x e) = en_ctl e" "en_heart (stopClient w x e) = en_heart e" "en_timer (stopClient w x e) = en_timer e"
  "en_close (stopClient w x e) = en_close e" "en_admitted (stopClient w x e) = en_admitted e" "en_addr (stopClient w x e) = en_addr e"
  "en_accepting (stopClient w x e) = en_accepting e"
  by (auto simp add: stopClient_def split: option.splits)

lemma stopClient_ended: "en_dataEnded e \<Longrightarrow> stopClient w x e = e"
  by (simp add: stopClient_def)

fun ep_uses :: "endpoint_event \<Rightarrow> nat set" where
  "ep_uses (EvConnection c addr) = {c}"
| "ep_uses _ = {}"

definition ep_known :: "bridge_endpoint \<Rightarrow> nat set" where
  "ep_known e = set_option (en_data e) \<union> set_option (en_control e) \<union> in_flight e"

lemma roles_ctl:
  assumes "ep_roles e" "en_ctl e \<noteq> CtOff"
  obtains d where "en_accept e = AcReturned (Some d)" "en_data e = Some d"
  using assms by (cases "en_accept e") (auto simp: ep_roles_def)

section \<open>The moves of its goroutines\<close>

text \<open>What a step may do, by the place of the goroutine that makes it; \<open>ep_step_move\<close> shows that the code does nothing else.\<close>

inductive ep_move :: "endpoint_config \<Rightarrow> endpoint_event \<Rightarrow> bridge_endpoint \<Rightarrow> bridge_endpoint \<Rightarrow> bool"
  for cfg :: endpoint_config
where
  stay: "ep_move cfg ev e e"
| listen: "en_accept e = AcIdle \<Longrightarrow> \<not> en_closed e \<Longrightarrow> ep_move cfg ev e (e\<lparr>en_accepting := True, en_accept := AcListening\<rparr>)"
| give_up: "en_accept e = AcListening \<Longrightarrow> ep_move cfg ev e (e\<lparr>en_accept := AcReturned None\<rparr>)"
| hang_up: "en_accept e = AcReturned (Some d) \<Longrightarrow> en_ctl e = CtListening \<Longrightarrow> ep_move cfg ev e (e\<lparr>en_ctl := CtStopped\<rparr>)"
| turn_data: "en_accept e = AcListening \<Longrightarrow>
    ep_move cfg (EvConnection c a) e
      (e\<lparr>en_addr := (en_addr e)(c := a), en_open := insert c (en_open e), en_accept := AcDropping c b\<rparr>)"
| turn_control: "en_accept e = AcReturned (Some d) \<Longrightarrow> en_ctl e = CtListening \<Longrightarrow>
    ep_move cfg (EvConnection c a) e
      (e\<lparr>en_addr := (en_addr e)(c := a), en_open := insert c (en_open e), en_ctl := CtDropping c\<rparr>)"
| take_data: "en_accept e = AcListening \<Longrightarrow> \<not> en_closed e \<Longrightarrow> peer_allowed cfg a \<Longrightarrow>
    ep_move cfg (EvConnection c a) e
      (e\<lparr>en_addr := (en_addr e)(c := a), en_open := insert c (en_open e), en_pending := Some c, en_accept := AcAuthenticating c\<rparr>)"
| check_control: "en_accept e = AcReturned (Some d) \<Longrightarrow> en_ctl e = CtListening \<Longrightarrow> en_keepalive e \<Longrightarrow> en_control e = None \<Longrightarrow>
    ep_move cfg (EvConnection c a) e
      (e\<lparr>en_addr := (en_addr e)(c := a), en_open := insert c (en_open e), en_ctl := CtChecked c\<rparr>)"
| take_control: "en_accept e = AcReturned (Some d) \<Longrightarrow> en_ctl e = CtChecked c \<Longrightarrow> \<not> en_closed e \<Longrightarrow> peer_allowed cfg (en_addr e c) \<Longrightarrow>
    ep_move cfg ev e (e\<lparr>en_pending := Some c, en_ctl := CtAuthenticating c\<rparr>)"
| trust_data: "en_accept e = AcAuthenticating c \<Longrightarrow> authenticate_end cfg [bridgePreface, bridgeAlivePreface] (HsPreface p w) = Some protocol \<Longrightarrow>
    ep_move cfg (EvHandshake (HsPreface p w)) e
      (e\<lparr>en_pending := None, en_accept := AcAuthenticated c protocol, en_admitted := en_admitted e @ [(c, en_addr e c, p)]\<rparr>)"
| reject_data: "en_accept e = AcAuthenticating c \<Longrightarrow> ep_move cfg ev e (e\<lparr>en_pending := None, en_accept := AcDropping c b\<rparr>)"
| trust_control: "en_accept e = AcReturned (Some d) \<Longrightarrow> en_ctl e = CtAuthenticating c \<Longrightarrow>
    authenticate_end cfg [bridgeControlPreface] (HsPreface p w) = Some protocol \<Longrightarrow>
    ep_move cfg (EvHandshake (HsPreface p w)) e
      (e\<lparr>en_pending := None, en_ctl := CtAuthenticated c, en_admitted := en_admitted e @ [(c, en_addr e c, p)]\<rparr>)"
| reject_control: "en_accept e = AcReturned (Some d) \<Longrightarrow> en_ctl e = CtAuthenticating c \<Longrightarrow>
    ep_move cfg ev e (e\<lparr>en_pending := None, en_ctl := CtDropping c\<rparr>)"
| turn_away_data: "en_accept e = AcAuthenticated c p \<Longrightarrow> ep_move cfg ev e (e\<lparr>en_accept := AcDropping c b\<rparr>)"
| turn_away_control: "en_accept e = AcReturned (Some d) \<Longrightarrow> en_ctl e = CtAuthenticated c \<or> en_ctl e = CtChecked c \<Longrightarrow>
    ep_move cfg ev e (e\<lparr>en_ctl := CtDropping c\<rparr>)"
| drop_data: "en_accept e = AcDropping c b \<Longrightarrow>
    ep_move cfg ev e ((shut (Some c) e)\<lparr>en_accept := (if b then AcReturned None else AcListening)\<rparr>)"
| drop_control: "en_accept e = AcReturned (Some d) \<Longrightarrow> en_ctl e = CtDropping c \<Longrightarrow>
    ep_move cfg ev e ((shut (Some c) e)\<lparr>en_ctl := CtListening\<rparr>)"
| admit_data: "en_accept e = AcAuthenticated c p \<Longrightarrow> \<not> en_closed e \<Longrightarrow>
    ep_move cfg ev e (e\<lparr>en_data := Some c, en_keepalive := (p = bridgeAlivePreface), en_accept := AcReturned (Some c), en_ctl := CtListening,
      en_timer := (if p = bridgeAlivePreface then TmRunning else en_timer e)\<rparr>)"
| admit_control: "en_accept e = AcReturned (Some d) \<Longrightarrow> en_ctl e = CtAuthenticated c \<Longrightarrow> \<not> en_closed e \<Longrightarrow> \<not> en_dataEnded e \<Longrightarrow>
    ep_move cfg ev e (e\<lparr>en_control := Some c, en_ctl := CtListening, en_heart := HbRound c\<rparr>)"
| lose: "en_heart e = HbRound c \<or> en_heart e = HbSleeping c \<Longrightarrow> ep_move cfg ev e (e\<lparr>en_heart := HbLosing\<rparr>)"
| heart_stop: "en_heart e = HbLosing \<Longrightarrow> ep_move cfg ev e ((stopClient EnHeart (Some heartbeat_lost) e)\<lparr>en_heart := HbOver\<rparr>)"
| beat: "en_heart e = HbRound c \<Longrightarrow> length challenge = 16 \<Longrightarrow> \<not> en_dataEnded e \<Longrightarrow> \<not> en_closed e \<Longrightarrow>
    ep_move cfg (EvBeat now challenge (Some challenge) True) e (e\<lparr>en_lastAlive := Some now, en_heart := HbSleeping c\<rparr>)"
| wake: "en_heart e = HbSleeping c \<Longrightarrow> ep_move cfg ev e (e\<lparr>en_heart := HbRound c\<rparr>)"
| expire: "en_timer e = TmRunning \<Longrightarrow> ep_move cfg ev e (e\<lparr>en_timer := TmOver\<rparr>)"
| miss: "en_timer e = TmRunning \<Longrightarrow> ep_move cfg ev e (e\<lparr>en_timer := TmMissing\<rparr>)"
| timer_stop: "en_timer e = TmMissing \<Longrightarrow>
    ep_move cfg ev e ((stopClient EnTimer (Some (ErrText ''bridge client control connection missing'')) e)\<lparr>en_timer := TmOver\<rparr>)"
| leave: "en_accept e = AcReturned (Some c) \<Longrightarrow> ep_move cfg ev e (stopClient EnData None e)"
| left: "en_accept e = AcReturned (Some c) \<Longrightarrow> en_dataEnded e \<Longrightarrow> ep_move cfg ev e (e\<lparr>en_leaving := Suc (en_leaving e)\<rparr>)"
| gone: "en_accept e = AcReturned (Some c) \<Longrightarrow> en_leaving e \<noteq> 0 \<Longrightarrow> ep_move cfg ev e ((shut (Some c) e)\<lparr>en_leaving := n\<rparr>)"
| shut_one: "en_ending e = c # cs \<Longrightarrow> ep_move cfg EvShut e ((shut (Some c) e)\<lparr>en_ending := cs, en_leaving := n\<rparr>)"
| close: "\<not> en_closed e \<Longrightarrow> ep_move cfg ev e ((shut (en_pending e) e)\<lparr>en_closed := True, en_close := ClStopping\<rparr>)"
| stop: "en_close e = ClStopping \<Longrightarrow> ep_move cfg ev e ((stopClient EnClose None e)\<lparr>en_close := ClReleasing\<rparr>)"
| release: "en_close e = ClReleasing \<Longrightarrow> \<not> (en_ender e = Some EnClose \<and> en_ending e \<noteq> []) \<Longrightarrow>
    ep_move cfg ev e (e\<lparr>en_released := Suc (en_released e), en_close := ClDone\<rparr>)"

lemma move_connection: "ep_roles e \<Longrightarrow> ep_move cfg (EvConnection c a) e (ep_connection cfg c a e)"
proof -
  assume R: "ep_roles e"
  consider (a) "en_accept e = AcListening" | (b) "en_accept e \<noteq> AcListening" "en_ctl e \<noteq> CtListening"
    | (c) "en_accept e \<noteq> AcListening" "en_ctl e = CtListening" by blast
  then show ?thesis
  proof cases
    case a
    then show ?thesis using turn_data [OF a, of cfg c a] take_data [OF a, of cfg a c]
      by (cases "peer_allowed cfg a"; cases "en_closed e") (simp_all add: ep_connection_def authenticate_begin_def)
  next
    case b then show ?thesis by (simp add: ep_connection_def stay)
  next
    case c
    obtain d where d: "en_accept e = AcReturned (Some d)" "en_data e = Some d" using roles_ctl [OF R] c by auto
    show ?thesis using turn_control [OF d(1) c(2), of cfg _ a] check_control [OF d(1) c(2), of cfg _ a] c d
      by (cases "en_keepalive e \<and> \<not> en_dataEnded e \<and> \<not> en_closed e \<and> en_control e = None") (simp_all add: ep_connection_def)
  qed
qed

lemma move_pending: "ep_roles e \<Longrightarrow> ep_move cfg ev e (ep_pending cfg e)"
proof (cases "\<exists>c. en_ctl e = CtChecked c")
  case True
  assume R: "ep_roles e"
  obtain c where c: "en_ctl e = CtChecked c" using True by blast
  obtain d where d: "en_accept e = AcReturned (Some d)" using roles_ctl [OF R] c by auto
  show ?thesis using take_control [OF d c] turn_away_control [OF d, of c] c
    by (cases "authenticate_begin cfg (en_addr e c) e = Some True") (auto simp: ep_pending_def authenticate_begin_def split: if_splits)
qed (auto simp: ep_pending_def stay split: control_pc.split)

lemma authenticate_end_preface: "authenticate_end cfg ps h = Some protocol \<Longrightarrow> \<exists>p w. h = HsPreface p w"
  by (cases h) (auto simp: authenticate_end_def)

lemma move_handshake: "ep_roles e \<Longrightarrow> ep_move cfg (EvHandshake h) e (ep_handshake cfg h e)"
proof -
  assume R: "ep_roles e"
  consider (a) c where "en_accept e = AcAuthenticating c" | (b) c where "en_ctl e = CtAuthenticating c"
    | (c) "\<And>c. en_accept e \<noteq> AcAuthenticating c" "\<And>c. en_ctl e \<noteq> CtAuthenticating c" by blast
  then show ?thesis
  proof cases
    case (a c)
    show ?thesis
    proof (cases "authenticate_end cfg [bridgePreface, bridgeAlivePreface] h")
      case None
      then show ?thesis using reject_data [OF a] a by (simp add: ep_handshake_def)
    next
      case (Some protocol)
      then show ?thesis using trust_data [OF a] a authenticate_end_preface [OF Some] by (auto simp: ep_handshake_def preface_of_def)
    qed
  next
    case (b c)
    obtain d where d: "en_accept e = AcReturned (Some d)" "en_data e = Some d" using roles_ctl [OF R] b by auto
    show ?thesis
    proof (cases "authenticate_end cfg [bridgeControlPreface] h")
      case None
      then show ?thesis using reject_control [OF d(1) b] b d by (simp add: ep_handshake_def)
    next
      case (Some protocol)
      then show ?thesis using trust_control [OF d(1) b] b d authenticate_end_preface [OF Some] by (auto simp: ep_handshake_def preface_of_def)
    qed
  next
    case c then show ?thesis by (cases "en_accept e"; cases "en_ctl e") (auto simp: ep_handshake_def stay)
  qed
qed

lemma move_admit: "ep_roles e \<Longrightarrow> ep_move cfg ev e (ep_admit e)"
proof -
  assume R: "ep_roles e"
  consider (a) c p where "en_accept e = AcAuthenticated c p" | (b) c where "en_ctl e = CtAuthenticated c"
    | (c) "\<And>c p. en_accept e \<noteq> AcAuthenticated c p" "\<And>c. en_ctl e \<noteq> CtAuthenticated c" by blast
  then show ?thesis
  proof cases
    case (a c p) then show ?thesis using turn_away_data [OF a] admit_data [OF a] by (cases "en_closed e") (simp_all add: ep_admit_def)
  next
    case (b c)
    then obtain d where d: "en_accept e = AcReturned (Some d)" "en_data e = Some d" using roles_ctl [OF R] by auto
    show ?thesis using turn_away_control [OF d(1), of c] admit_control [OF d(1) b] d b
      by (cases "en_closed e \<or> en_dataEnded e") (simp_all add: ep_admit_def)
  next
    case c then show ?thesis by (cases "en_accept e"; cases "en_ctl e") (auto simp: ep_admit_def stay)
  qed
qed

lemma move_drop: "ep_roles e \<Longrightarrow> ep_move cfg ev e (ep_drop e)"
proof -
  assume R: "ep_roles e"
  consider (a) c b where "en_accept e = AcDropping c b" | (b) c where "en_ctl e = CtDropping c"
    | (c) "\<And>c b. en_accept e \<noteq> AcDropping c b" "\<And>c. en_ctl e \<noteq> CtDropping c" by blast
  then show ?thesis
  proof cases
    case (a c b) then show ?thesis using drop_data [OF a] by (simp add: ep_drop_def)
  next
    case (b c)
    then obtain d where d: "en_accept e = AcReturned (Some d)" "en_data e = Some d" using roles_ctl [OF R] by auto
    show ?thesis using drop_control [OF d(1) b] d b by (simp add: ep_drop_def)
  next
    case c then show ?thesis by (cases "en_accept e"; cases "en_ctl e") (auto simp: ep_drop_def stay)
  qed
qed

lemma move_listener: "ep_roles e \<Longrightarrow> ep_move cfg ev e (ep_listener_closed e)"
proof -
  assume R: "ep_roles e"
  consider (a) "en_accept e = AcListening" | (b) "en_accept e \<noteq> AcListening" "en_ctl e = CtListening"
    | (c) "en_accept e \<noteq> AcListening" "en_ctl e \<noteq> CtListening" by blast
  then show ?thesis
  proof cases
    case a then show ?thesis using give_up [OF a] by (simp add: ep_listener_closed_def)
  next
    case b
    then obtain d where "en_accept e = AcReturned (Some d)" using roles_ctl [OF R] by auto
    then show ?thesis using hang_up [of e d cfg ev] b by (simp add: ep_listener_closed_def)
  next
    case c then show ?thesis by (simp add: ep_listener_closed_def stay)
  qed
qed

lemma move_accept: "ep_roles e \<Longrightarrow> ep_move cfg ev e (ep_accept e)"
  using listen [of e cfg ev] by (simp add: ep_accept_def ep_roles_def stay)

lemma move_beat: "ep_move cfg (EvBeat now ch r w) e (ep_beat now ch r w e)"
  by (cases "en_heart e") (auto simp: ep_beat_def stay lose beat)

lemma move_rest:
  "ep_move cfg ev e (ep_wake e)" "ep_move cfg ev e (ep_heart_done e)" "ep_move cfg ev e (ep_heart_stop e)" "ep_move cfg ev e (ep_timer e)"
  "ep_move cfg ev e (ep_timer_done e)" "ep_move cfg ev e (ep_timer_stop e)" "ep_move cfg ev e (ep_close e)" "ep_move cfg ev e (ep_close_next e)"
  by (auto simp: ep_wake_def ep_heart_done_def ep_heart_stop_def ep_timer_def ep_timer_done_def ep_timer_stop_def ep_close_def ep_close_next_def
      stay lose heart_stop wake expire miss timer_stop close stop release split: heart_pc.split close_pc.split)

lemma move_data_close: "ep_move cfg ev e (ep_data_close e)" "ep_move cfg ev e (ep_data_conn e)"
  by (auto simp: ep_data_close_def ep_data_conn_def stay leave left gone split: accept_pc.split option.split)

lemma move_shut: "ep_move cfg EvShut e (ep_shut e)"
  using shut_one [of e _ _ cfg] stay by (auto simp: ep_shut_def split: list.split)

lemma ep_step_move: "ep_roles e \<Longrightarrow> ep_move cfg ev e (ep_step cfg ev e)"
  by (cases ev) (simp_all add: move_connection move_pending move_handshake move_admit move_drop move_listener move_accept move_beat move_rest
      move_data_close move_shut)

lemma ep_move_roles: "ep_move cfg ev e e' \<Longrightarrow> ep_roles e \<Longrightarrow> ep_roles e'"
  by (induction rule: ep_move.induct) (auto simp: ep_roles_def)

lemma ep_move_known: "ep_move cfg ev e e' \<Longrightarrow> ep_known e' \<subseteq> ep_known e \<union> ep_uses ev"
  by (induction rule: ep_move.induct) (auto simp: ep_known_def in_flight_def)

lemma ep_move_apart: "ep_move cfg ev e e' \<Longrightarrow> ep_roles e \<Longrightarrow> ep_apart e \<Longrightarrow> ep_uses ev \<inter> ep_known e = {} \<Longrightarrow> ep_apart e'"
  by (induction rule: ep_move.induct) (auto simp: ep_roles_def ep_apart_def ep_known_def in_flight_def)

lemma ep_move_ended: "ep_move cfg ev e e' \<Longrightarrow> ep_roles e \<Longrightarrow> ep_ended e \<Longrightarrow> ep_ended e'"
proof (induction rule: ep_move.induct)
  case (admit_data e c p ev)
  then have "en_data e = None" "en_control e = None" by (auto simp: ep_roles_def)
  then show ?case using admit_data by (auto simp: ep_ended_def)
qed (auto simp: ep_roles_def ep_ended_def)

lemma ep_move_done: "ep_move cfg ev e e' \<Longrightarrow> ep_roles e \<Longrightarrow> ep_workers e \<Longrightarrow> ep_released e \<Longrightarrow> ep_done e \<Longrightarrow> ep_done e'"
  by (induction rule: ep_move.induct) (auto simp: ep_roles_def ep_workers_def ep_done_def ep_released_def)

lemma ep_move_released: "ep_move cfg ev e e' \<Longrightarrow> ep_released e \<Longrightarrow> ep_released e'"
  by (induction rule: ep_move.induct) (auto simp: ep_released_def stopClient_ended)

lemma ep_move_workers: "ep_move cfg ev e e' \<Longrightarrow> ep_roles e \<Longrightarrow> ep_workers e \<Longrightarrow> ep_workers e'"
  by (induction rule: ep_move.induct) (auto simp: ep_roles_def ep_workers_def)

lemma ep_move_cause: "ep_move cfg ev e e' \<Longrightarrow> ep_roles e \<Longrightarrow> ep_workers e \<Longrightarrow> ep_done e \<Longrightarrow> ep_cause e \<Longrightarrow> ep_cause e'"
  by (induction rule: ep_move.induct) (auto simp: ep_roles_def ep_workers_def ep_done_def ep_cause_def)

lemma stopClient_conns:
  assumes "ep_conns e"
  shows "ep_conns (stopClient w x e)"
  using assms by (cases "en_dataEnded e") (simp_all add: ep_conns_def ep_live_def in_flight_def stopClient_ended)

text \<open>Only the closes of a connection take it out of the open ones.\<close>

lemma conns_shut:
  "ep_conns e \<Longrightarrow> en_dataEnded e \<Longrightarrow> c \<notin> in_flight e \<Longrightarrow>
     en_open e' = en_open e - {c} \<Longrightarrow> in_flight e' = in_flight e \<Longrightarrow> en_closed e' = en_closed e \<Longrightarrow> en_dataEnded e' \<Longrightarrow>
     set (en_ending e) - {c} \<subseteq> set (en_ending e') \<Longrightarrow> ep_conns e'"
  unfolding ep_conns_def ep_live_def by auto

lemma ep_move_conns:
  "ep_move cfg ev e e' \<Longrightarrow> ep_roles e \<Longrightarrow> ep_done e \<Longrightarrow> ep_apart e \<Longrightarrow> ep_ended e \<Longrightarrow> ep_conns e \<Longrightarrow> ep_uses ev \<inter> ep_known e = {} \<Longrightarrow> ep_conns e'"
proof (induction rule: ep_move.induct)
  case (heart_stop e ev)
  then show ?case using stopClient_conns [of e EnHeart "Some heartbeat_lost"] by (simp add: ep_conns_def ep_live_def in_flight_def)
next
  case (timer_stop e ev)
  then show ?case using stopClient_conns [of e EnTimer "Some (ErrText ''bridge client control connection missing'')"]
    by (simp add: ep_conns_def ep_live_def in_flight_def)
next
  case (leave e c ev)
  then show ?case using stopClient_conns by blast
next
  case (stop e ev)
  then show ?case using stopClient_conns [of e EnClose None] by (simp add: ep_conns_def ep_live_def in_flight_def)
next
  case (gone e c ev n)
  then have "c \<notin> in_flight e" "en_dataEnded e" by (auto simp: ep_roles_def ep_apart_def ep_ended_def)
  then show ?case using conns_shut [OF gone(7)] by (simp add: in_flight_def)
next
  case (shut_one e c cs n)
  then have "c \<notin> in_flight e" "en_dataEnded e" by (auto simp: ep_apart_def ep_ended_def)
  then show ?case using conns_shut [OF shut_one(6)] shut_one(1) by (auto simp: in_flight_def)
next
  case (admit_data e c p ev)
  then have "en_data e = None" "en_control e = None" "en_ctl e = CtOff" "\<not> en_dataEnded e" by (auto simp: ep_roles_def ep_done_def)
  then show ?case using admit_data(1,2,7) by (auto simp: ep_conns_def ep_live_def in_flight_def)
next
  case (admit_control e d c ev)
  then have "en_control e = None" by (auto simp: ep_roles_def)
  then show ?case using admit_control by (auto simp: ep_conns_def ep_live_def in_flight_def)
next
  case (close e ev)
  then have "set_option (en_pending e) \<subseteq> in_flight e" by (auto simp: ep_roles_def in_flight_def)
  moreover have "in_flight e \<inter> ep_live e = {}" using close by (auto simp: ep_apart_def ep_ended_def ep_live_def)
  ultimately show ?case using close(6) by (auto simp: ep_conns_def ep_live_def in_flight_def)
next
  case (drop_data e c b ev)
  then have "c \<in> in_flight e" by (simp add: in_flight_def)
  then have "c \<notin> ep_live e" using drop_data by (auto simp: ep_apart_def ep_ended_def ep_live_def)
  moreover have "en_ctl e = CtOff" using drop_data(1,2) by (auto simp: ep_roles_def)
  ultimately show ?case using drop_data(1,6) by (auto simp: ep_conns_def ep_live_def in_flight_def)
next
  case (drop_control e d c ev)
  then have "c \<in> in_flight e" by (simp add: in_flight_def)
  then have "c \<notin> ep_live e" using drop_control by (auto simp: ep_apart_def ep_ended_def ep_live_def)
  then show ?case using drop_control(1,2,7) by (auto simp: ep_conns_def ep_live_def in_flight_def)
qed (auto simp: ep_conns_def ep_live_def in_flight_def split: if_splits)

text \<open>Once the client has ended, only the closes of its connections change what is left to close.\<close>

lemma ep_move_ending:
  "ep_move cfg ev e e' \<Longrightarrow> en_dataEnded e \<Longrightarrow>
     en_ending e' = (if ev = EvShut then en_ending e' else en_ending e) \<and> en_ender e' = en_ender e \<and> en_keepaliveErr e' = en_keepaliveErr e"
  by (induction rule: ep_move.induct) (auto simp: stopClient_ended)

section \<open>What the endpoint admits\<close>

lemma match_preface_end:
  "match_preface cfg ps preface q = r \<Longrightarrow> r = q \<or> r \<in> set ps \<and> preface = r @ ec_token cfg @ [CHR 0x0A]"
proof (induction ps arbitrary: q)
  case (Cons p ps)
  show ?case
  proof (cases "preface = p @ ec_token cfg @ [CHR 0x0A]")
    case True
    then show ?thesis using Cons.IH [of p] Cons.prems by auto
  next
    case False
    then show ?thesis using Cons.IH [of q] Cons.prems by auto
  qed
qed simp

lemma authenticate_end_some:
  "authenticate_end cfg ps (HsPreface p w) = Some r \<Longrightarrow> r \<in> set ps \<and> p = r @ ec_token cfg @ [CHR 0x0A] \<and> w"
  using match_preface_end [of cfg ps p "[]"] by (auto simp: authenticate_end_def Let_def split: if_splits)

text \<open>A connection was accepted from an allowed peer and showed that it knows the token, for a protocol.\<close>

definition ep_proved :: "endpoint_config \<Rightarrow> endpoint_event list \<Rightarrow> nat \<Rightarrow> string \<Rightarrow> bool" where
  "ep_proved cfg evs c protocol \<longleftrightarrow>
     (\<exists>a. peer_allowed cfg a \<and> EvConnection c a \<in> set evs) \<and>
     EvHandshake (HsPreface (protocol @ ec_token cfg @ [CHR 0x0A]) True) \<in> set evs"

definition ep_beaten :: "endpoint_event list \<Rightarrow> int \<Rightarrow> bool" where
  "ep_beaten evs t \<longleftrightarrow> (\<exists>challenge. length challenge = 16 \<and> EvBeat t challenge (Some challenge) True \<in> set evs)"

definition data_preface :: "bridge_endpoint \<Rightarrow> string" where
  "data_preface e = (if en_keepalive e then bridgeAlivePreface else bridgePreface)"

definition ep_evidence :: "endpoint_config \<Rightarrow> endpoint_event list \<Rightarrow> bridge_endpoint \<Rightarrow> bool" where
  "ep_evidence cfg evs e \<longleftrightarrow>
     (\<forall>c \<in> acc_auth (en_accept e) \<union> ctl_auth (en_ctl e). peer_allowed cfg (en_addr e c) \<and> EvConnection c (en_addr e c) \<in> set evs) \<and>
     (\<forall>c \<in> ctl_checked (en_ctl e). EvConnection c (en_addr e c) \<in> set evs) \<and>
     (\<forall>c p. en_accept e = AcAuthenticated c p \<longrightarrow> p \<in> {bridgePreface, bridgeAlivePreface} \<and> ep_proved cfg evs c p) \<and>
     (\<forall>c. en_ctl e = CtAuthenticated c \<longrightarrow> ep_proved cfg evs c bridgeControlPreface) \<and>
     (\<forall>c. en_data e = Some c \<longrightarrow> ep_proved cfg evs c (data_preface e)) \<and>
     (\<forall>c. en_control e = Some c \<longrightarrow> ep_proved cfg evs c bridgeControlPreface) \<and>
     (\<forall>t. en_lastAlive e = Some t \<longrightarrow> ep_beaten evs t)"

lemma ep_proved_mono: "ep_proved cfg evs c p \<Longrightarrow> ep_proved cfg (evs @ evs') c p"
  by (auto simp: ep_proved_def)

lemma ep_evidence_mono: "ep_evidence cfg evs e \<Longrightarrow> ep_evidence cfg (evs @ evs') e"
  by (auto simp: ep_evidence_def ep_proved_def ep_beaten_def)

lemma data_preface_simps [simp]:
  "data_preface (shut c e) = data_preface e" "data_preface (stopClient w x e) = data_preface e"
  by (simp_all add: data_preface_def)

lemma ep_move_evidence:
  "ep_move cfg ev e e' \<Longrightarrow> ep_roles e \<Longrightarrow> ev \<in> set evs \<Longrightarrow> ep_evidence cfg evs e \<Longrightarrow> ep_evidence cfg evs e'"
proof (induction rule: ep_move.induct)
  case (trust_data e c p w protocol)
  then show ?case using authenticate_end_some [OF trust_data(2)] by (auto simp: ep_roles_def ep_evidence_def ep_proved_def data_preface_def)
next
  case (trust_control e d c p w protocol)
  then show ?case using authenticate_end_some [OF trust_control(3)] by (auto simp: ep_roles_def ep_evidence_def ep_proved_def data_preface_def)
next
  case (admit_data e c p ev)
  then show ?case by (auto simp: ep_roles_def ep_evidence_def data_preface_def)
next
  case (beat e c challenge now)
  then show ?case by (auto simp: ep_evidence_def ep_beaten_def data_preface_def)
qed (auto simp: ep_roles_def ep_evidence_def data_preface_def)

section \<open>All interleavings\<close>

text \<open>The connections a listener delivers, in order; each is delivered once.\<close>

fun ep_connections :: "endpoint_event list \<Rightarrow> nat list" where
  "ep_connections [] = []"
| "ep_connections (EvConnection c a # evs) = c # ep_connections evs"
| "ep_connections (_ # evs) = ep_connections evs"

definition ep_inv :: "endpoint_config \<Rightarrow> endpoint_event list \<Rightarrow> bridge_endpoint \<Rightarrow> bool" where
  "ep_inv cfg evs e \<longleftrightarrow>
     ep_roles e \<and> ep_apart e \<and> ep_done e \<and> ep_released e \<and> ep_ended e \<and> ep_workers e \<and> ep_cause e \<and> ep_conns e \<and> ep_evidence cfg evs e \<and>
     ep_known e \<subseteq> set (ep_connections evs)"

lemma ep_connections_append [simp]: "ep_connections (evs @ evs') = ep_connections evs @ ep_connections evs'"
  by (induction evs rule: ep_connections.induct) auto

lemma ep_connections_uses: "set (ep_connections [ev]) = ep_uses ev"
  by (cases ev) auto

lemma ep_run_append: "ep_run cfg (evs @ evs') e = ep_run cfg evs' (ep_run cfg evs e)"
  by (induction evs arbitrary: e) simp_all

lemma ep_run_roles: "ep_roles e \<Longrightarrow> ep_roles (ep_run cfg evs e)"
  by (induction evs arbitrary: e) (auto intro: ep_move_roles ep_step_move)

lemma newEndpoint_roles: "ep_roles newEndpoint"
  by (simp add: newEndpoint_def ep_roles_def)

lemma newEndpoint_inv: "ep_inv cfg [] newEndpoint"
  by (simp add: newEndpoint_def ep_inv_def ep_roles_def ep_apart_def ep_done_def ep_released_def ep_workers_def ep_cause_def ep_conns_def
      ep_live_def in_flight_def ep_evidence_def ep_known_def ep_ended_def)

lemma ep_step_inv:
  assumes "ep_inv cfg evs e" "distinct (ep_connections (evs @ [ev]))"
  shows "ep_inv cfg (evs @ [ev]) (ep_step cfg ev e)"
proof -
  have R: "ep_roles e" and I: "ep_apart e" "ep_done e" "ep_released e" "ep_workers e" "ep_cause e" "ep_conns e" "ep_evidence cfg evs e" "ep_ended e"
    and K: "ep_known e \<subseteq> set (ep_connections evs)" using assms(1) by (auto simp: ep_inv_def)
  have M: "ep_move cfg ev e (ep_step cfg ev e)" by (rule ep_step_move [OF R])
  have "set (ep_connections evs) \<inter> set (ep_connections [ev]) = {}" using assms(2) by (simp add: distinct_append)
  then have F: "ep_uses ev \<inter> ep_known e = {}" using K by (auto simp: ep_connections_uses)
  have "ep_known (ep_step cfg ev e) \<subseteq> set (ep_connections (evs @ [ev]))"
    using ep_move_known [OF M] K ep_connections_uses [of ev] by auto
  moreover have "ep_evidence cfg (evs @ [ev]) (ep_step cfg ev e)"
    using ep_move_evidence [OF M R _ ep_evidence_mono [OF I(7)]] by simp
  ultimately show ?thesis
    unfolding ep_inv_def using ep_move_roles [OF M R] ep_move_apart [OF M R I(1) F] ep_move_done [OF M R I(4,3,2)] ep_move_released [OF M I(3)]
      ep_move_workers [OF M R I(4)] ep_move_cause [OF M R I(4,2,5)] ep_move_conns [OF M R I(2,1,8,6) F]
      ep_move_ended [OF M R I(8)] by blast
qed

lemma ep_run_inv: "distinct (ep_connections evs) \<Longrightarrow> ep_inv cfg evs (ep_run cfg evs newEndpoint)"
proof (induction evs rule: rev_induct)
  case Nil
  show ?case by (simp add: newEndpoint_inv)
next
  case (snoc ev evs)
  then have "ep_inv cfg evs (ep_run cfg evs newEndpoint)" by (simp add: distinct_append)
  from ep_step_inv [OF this snoc.prems] show ?case by (simp add: ep_run_append)
qed

lemma ep_move_stable:
  "ep_move cfg ev e e' \<Longrightarrow> ep_roles e \<Longrightarrow>
     (en_data e = Some c \<longrightarrow> en_data e' = Some c) \<and> (en_control e = Some c \<longrightarrow> en_control e' = Some c) \<and>
     (en_dataEnded e \<longrightarrow> en_dataEnded e') \<and> (en_closed e \<longrightarrow> en_closed e')"
  by (induction rule: ep_move.induct) (auto simp: ep_roles_def)

lemma ep_run_stable:
  "ep_roles e \<Longrightarrow>
     (en_data e = Some c \<longrightarrow> en_data (ep_run cfg evs e) = Some c) \<and> (en_control e = Some c \<longrightarrow> en_control (ep_run cfg evs e) = Some c) \<and>
     (en_dataEnded e \<longrightarrow> en_dataEnded (ep_run cfg evs e)) \<and> (en_closed e \<longrightarrow> en_closed (ep_run cfg evs e))"
proof (induction evs arbitrary: e)
  case (Cons ev evs)
  note M = ep_step_move [OF Cons.prems, of cfg ev]
  show ?case using Cons.IH [OF ep_move_roles [OF M Cons.prems]] ep_move_stable [OF M Cons.prems] by simp
qed simp

lemma in_flight_single: "ep_roles e \<Longrightarrow> c \<in> in_flight e \<Longrightarrow> c' \<in> in_flight e \<Longrightarrow> c = c'"
  by (cases "en_accept e"; cases "en_ctl e") (auto simp: in_flight_def ep_roles_def)

text \<open>What an ended client has left, and what may follow.\<close>

lemma inv_left_open:
  assumes "ep_inv cfg evs e" "en_dataEnded e"
  shows "\<exists>c. en_open e \<subseteq> insert c (set (en_ending e))" "en_data e = Some c \<or> en_control e = Some c \<Longrightarrow> c \<in> en_open e \<Longrightarrow> c \<in> set (en_ending e)"
    "length (en_ending e) \<le> 2"
proof -
  have O: "en_open e \<subseteq> set (en_ending e) \<union> in_flight e" and A: "in_flight e \<inter> (set_option (en_data e) \<union> set_option (en_control e)) = {}"
    and R: "ep_roles e"
    using assms by (auto simp: ep_inv_def ep_conns_def ep_live_def ep_apart_def)
  obtain f where "in_flight e \<subseteq> {f}" using in_flight_single [OF R] by blast
  then show "\<exists>c. en_open e \<subseteq> insert c (set (en_ending e))" using O by (intro exI [of _ f]) auto
  show "en_data e = Some c \<or> en_control e = Some c \<Longrightarrow> c \<in> en_open e \<Longrightarrow> c \<in> set (en_ending e)" using O A by auto
  show "length (en_ending e) \<le> 2" using assms(1) by (simp add: ep_inv_def ep_ended_def)
qed

lemma ended_later:
  assumes "ep_inv cfg evs e" "en_dataEnded e"
  shows "ep_run cfg later e = e' \<Longrightarrow> en_dataEnded e' \<and> ClientError e' = ClientError e \<and>
    en_ending e' = drop (length (filter (\<lambda>ev. ev = EvShut) later)) (en_ending e)"
proof -
  have "ep_roles e" using assms(1) by (simp add: ep_inv_def)
  then show "ep_run cfg later e = e' \<Longrightarrow> en_dataEnded e' \<and> ClientError e' = ClientError e \<and>
    en_ending e' = drop (length (filter (\<lambda>ev. ev = EvShut) later)) (en_ending e)"
    using assms(2)
  proof (induction later arbitrary: e)
    case (Cons ev later)
    let ?e = "ep_step cfg ev e"
    note M = ep_step_move [OF Cons.prems(2), of cfg ev]
    have d: "en_dataEnded ?e" using ep_move_stable [OF M Cons.prems(2)] Cons.prems(3) by blast
    have k: "ClientError ?e = ClientError e" using ep_move_ending [OF M Cons.prems(3)] by (simp add: ClientError_def)
    have "en_ending ?e = drop (if ev = EvShut then 1 else 0) (en_ending e)"
      using ep_move_ending [OF M Cons.prems(3)] by (auto simp: ep_shut_def split: list.split if_splits)
    moreover have "en_ending e' = drop (length (filter (\<lambda>ev. ev = EvShut) later)) (en_ending ?e)" "en_dataEnded e'" "ClientError e' = ClientError ?e"
      using Cons.IH [OF _ ep_move_roles [OF M Cons.prems(2)] d] Cons.prems(1) by auto
    ultimately show ?case using k by (auto simp: add.commute)
  qed simp
qed

section \<open>Properties\<close>

text \<open>
  C39 Whatever connects, and however the goroutines of an endpoint interleave: the one data connection and the one control
  connection it ever admits are different connections from allowed peers that sent the preface of their protocol and the
  token; they are never replaced; a control connection exists only beside a data connection that asked for it; and the
  client counts as alive only while both are open and a heartbeat was answered correctly less than the timeout ago.
\<close>

theorem endpoint_admission:
  assumes "distinct (ep_connections evs)" and "e = ep_run cfg evs newEndpoint"
  shows "(\<forall>c. en_data e = Some c \<longrightarrow>
            ep_proved cfg evs c (if en_keepalive e then bridgeAlivePreface else bridgePreface) \<and> en_data (ep_run cfg later e) = Some c) \<and>
         (\<forall>c. en_control e = Some c \<longrightarrow>
            ep_proved cfg evs c bridgeControlPreface \<and> en_control (ep_run cfg later e) = Some c \<and>
            en_keepalive e \<and> (\<exists>d. en_data e = Some d \<and> d \<noteq> c)) \<and>
         (ClientAlive cfg now e \<longrightarrow>
            (\<exists>d c t. en_data e = Some d \<and> en_control e = Some c \<and> {d, c} \<subseteq> en_open e \<and> ep_beaten evs t \<and> now - t < ec_timeout cfg))"
proof -
  have I: "ep_inv cfg evs e" using ep_run_inv [OF assms(1)] assms(2) by simp
  then have R: "ep_roles e" by (simp add: ep_inv_def)
  have S: "\<And>c. en_data e = Some c \<Longrightarrow> en_data (ep_run cfg later e) = Some c"
    "\<And>c. en_control e = Some c \<Longrightarrow> en_control (ep_run cfg later e) = Some c"
    using ep_run_stable [OF R] by blast+
  have D: "\<And>c. en_control e = Some c \<Longrightarrow> en_keepalive e \<and> (\<exists>d. en_data e = Some d \<and> d \<noteq> c)"
  proof -
    fix c assume "en_control e = Some c"
    then have "en_keepalive e" "en_data e \<noteq> None" "en_data e \<noteq> Some c" using I by (auto simp: ep_inv_def ep_roles_def ep_apart_def)
    then show "en_keepalive e \<and> (\<exists>d. en_data e = Some d \<and> d \<noteq> c)" by auto
  qed
  have E: "ep_evidence cfg evs e" "\<not> en_dataEnded e \<longrightarrow> ep_live e \<subseteq> en_open e" using I by (simp_all add: ep_inv_def ep_conns_def)
  have A: "\<exists>d c t. en_data e = Some d \<and> en_control e = Some c \<and> {d, c} \<subseteq> en_open e \<and> ep_beaten evs t \<and> now - t < ec_timeout cfg"
    if L: "ClientAlive cfg now e"
  proof -
    obtain c t where c: "en_control e = Some c" "en_lastAlive e = Some t" "now - t < ec_timeout cfg" "\<not> en_dataEnded e"
      using L unfolding ClientAlive_def by (cases "en_control e"; cases "en_lastAlive e") simp_all
    then show ?thesis using D [OF c(1)] E by (auto simp: ep_evidence_def ep_live_def)
  qed
  show ?thesis using E(1) S D A by (auto simp: ep_evidence_def data_preface_def)
qed

text \<open>
  C40 The end of a client is irrevocable: however the goroutines interleave, the channel of its end is closed at most once (a second
  close would panic) and the reservation released at most once, after the endpoint is closed and its client ended, and, when \<open>Close\<close>
  itself ended the client, with both connections closed. Once the client has ended, whatever follows, it is never alive again, its error stays,
  and of all connections no more are open than one that is still being authenticated or refused and those that whoever ended the client
  has not closed yet: no goroutine adds to these, every close takes one away, and after two none of the admitted connections is open. An error is
  reported only for an ended keepalive client.
\<close>

theorem endpoint_ends:
  assumes "distinct (ep_connections (evs @ later))" and "e = ep_run cfg evs newEndpoint" and "e' = ep_run cfg later e"
  shows "en_doneClosed e \<le> 1 \<and> en_released e \<le> 1 \<and> (en_released e = 1 \<longrightarrow> en_closed e \<and> en_dataEnded e) \<and>
         (en_released e = 1 \<and> en_ender e = Some EnClose \<longrightarrow> (\<forall>c. en_data e = Some c \<or> en_control e = Some c \<longrightarrow> c \<notin> en_open e)) \<and>
         (en_dataEnded e \<longrightarrow> \<not> ClientAlive cfg now e' \<and> ClientError e' = ClientError e \<and>
            (\<exists>c. en_open e' \<subseteq> insert c (set (en_ending e'))) \<and> (\<exists>n. en_ending e' = drop n (en_ending e)) \<and>
            (\<forall>c. (en_data e' = Some c \<or> en_control e' = Some c) \<and> c \<in> en_open e' \<longrightarrow> c \<in> set (en_ending e')) \<and>
            (length (filter (\<lambda>ev. ev = EvShut) later) \<ge> 2 \<longrightarrow> en_ending e' = [])) \<and>
         (ClientError e \<noteq> None \<longrightarrow> en_dataEnded e \<and> en_keepalive e)"
proof -
  have I: "ep_inv cfg evs e" using ep_run_inv [of evs cfg] assms by simp
  have I': "ep_inv cfg (evs @ later) e'" using ep_run_inv [OF assms(1), of cfg] assms(2,3) by (simp add: ep_run_append)
  have "en_doneClosed e \<le> 1" "en_released e \<le> 1" "en_released e = 1 \<longrightarrow> en_closed e \<and> en_dataEnded e"
    "en_released e = 1 \<and> en_ender e = Some EnClose \<longrightarrow> en_dataEnded e \<and> en_ending e = []"
    "ClientError e \<noteq> None \<longrightarrow> en_dataEnded e \<and> en_keepalive e"
    using I by (auto simp: ep_inv_def ep_done_def ep_released_def ep_cause_def ClientError_def split: if_splits)
  moreover have "\<forall>c. en_data e = Some c \<or> en_control e = Some c \<longrightarrow> c \<notin> en_open e" if "en_released e = 1 \<and> en_ender e = Some EnClose"
    using inv_left_open(2) [OF I] calculation(4) that by fastforce
  moreover have "\<not> ClientAlive cfg now e' \<and> ClientError e' = ClientError e \<and>
            (\<exists>c. en_open e' \<subseteq> insert c (set (en_ending e'))) \<and> (\<exists>n. en_ending e' = drop n (en_ending e)) \<and>
            (\<forall>c. (en_data e' = Some c \<or> en_control e' = Some c) \<and> c \<in> en_open e' \<longrightarrow> c \<in> set (en_ending e')) \<and>
            (length (filter (\<lambda>ev. ev = EvShut) later) \<ge> 2 \<longrightarrow> en_ending e' = [])" if "en_dataEnded e"
  proof -
    note L = ended_later [OF I that assms(3) [symmetric]]
    then have D: "en_dataEnded e'" by blast
    show ?thesis using L inv_left_open(1,2) [OF I' D] inv_left_open(3) [OF I that] D by (auto simp: ClientAlive_def)
  qed
  ultimately show ?thesis by blast
qed

section \<open>Examples\<close>

definition sample_token :: string where "sample_token = replicate 64 (CHR ''a'')"

definition sample_endpoint :: endpoint_config where
  "sample_endpoint = \<lparr>ec_token = sample_token, ec_peer = None, ec_loopback = (\<lambda>a. a = ''127.0.0.1''), ec_timeout = bridgeAliveTimeout\<rparr>"

definition sample_events :: "endpoint_event list" where
  "sample_events =
     [EvAccept, EvConnection 1 ''10.0.0.9'', EvDrop, EvConnection 2 ''127.0.0.1'', EvHandshake (HsPreface (bridgeAlivePreface @ sample_token @ [CHR 0x0A]) True),
      EvAdmit, EvConnection 3 ''127.0.0.1'', EvPending, EvHandshake (HsPreface (bridgeControlPreface @ sample_token @ [CHR 0x0A]) True), EvAdmit,
      EvBeat 5 (replicate 16 (CHR ''x'')) (Some (replicate 16 (CHR ''x''))) True]"

lemma sample_alive: "ClientAlive sample_endpoint 6 (ep_run sample_endpoint sample_events newEndpoint)"
  by code_simp

text \<open>
  While the data client is between the end of the client and its closes, \<open>Close\<close> finds the client ended and releases the reservation
  with both connections open.
\<close>

lemma endpoint_released_while_open:
  "let e = ep_run sample_endpoint (sample_events @ [EvDataClose, EvClose, EvCloseNext, EvCloseNext]) newEndpoint
   in en_released e = 1 \<and> (\<exists>d c. en_data e = Some d \<and> en_control e = Some c \<and> {d, c} \<subseteq> en_open e)"
proof -
  let ?e = "ep_run sample_endpoint (sample_events @ [EvDataClose, EvClose, EvCloseNext, EvCloseNext]) newEndpoint"
  have "en_released ?e = 1" "en_data ?e = Some 2" "en_control ?e = Some 3" "2 \<in> en_open ?e" "3 \<in> en_open ?e" by code_simp+
  then show ?thesis by simp
qed

theorem endpoint_admission_witness:
  "\<exists>d c t. en_data (ep_run sample_endpoint sample_events newEndpoint) = Some d \<and> en_control (ep_run sample_endpoint sample_events newEndpoint) = Some c \<and>
     ep_beaten sample_events t"
  using endpoint_admission [of sample_events "ep_run sample_endpoint sample_events newEndpoint" sample_endpoint "[]" 6] sample_alive
  by (auto simp: sample_events_def)

theorem endpoint_ends_witness:
  "\<not> ClientAlive sample_endpoint 7 (ep_run sample_endpoint [EvWake] (ep_run sample_endpoint (sample_events @ [EvDataClose]) newEndpoint))"
proof -
  have "en_dataEnded (ep_run sample_endpoint (sample_events @ [EvDataClose]) newEndpoint)" by code_simp
  then show ?thesis
    using endpoint_ends [of "sample_events @ [EvDataClose]" "[EvWake]" _ sample_endpoint _ 7, OF _ refl refl] by (simp add: sample_events_def)
qed

end
