(* ===== verification/Spec2Isabelle.thy ===== *)
theory Spec2Isabelle
  imports Session_Lifecycle Event_Buffer Activity_Buffer Receive_Buffer Manager_Safety
    Lease_Safety Debugger_MI Debugger_RSP Debugger_Ports Device_Registry
    Interactive_Controller Config_Profile Prompt_Timestamp
    UBoot SCP_Session File_Exact Directory_Archive File_Directory Directory_Safety Directory_Transfer Directory_Exact Attach_Input Attach_Safety Attach_Rules SSH_Files SSH_Copy SSH_Safety SSH_Walk SSH_Contained Debugger_Endpoint
begin

text \<open>
  ChannelTerm keeps serial, SSH and similar terminal connections open as Sessions
  that people (command line) and agents (MCP) share. This library models the core of
  the Go program under \<open>src/internal\<close> and proves what makes it correct.

  \<^bold>\<open>The program's parts.\<close> A \<open>Session\<close> (\<open>core/session/session.go\<close>) owns one byte channel.
  Its reader goroutine appends output to a receive ring (\<open>ring_buffer.go\<close>); writes are
  recorded in an activity ring (\<open>activity_buffer.go\<close>) and lifecycle facts in an event
  ring (\<open>event_buffer.go\<close>). The \<open>Manager\<close> (\<open>manager.go\<close>) registers Sessions, gives them short
  references and opens one usable Session per endpoint. The application (\<open>core/app\<close>) puts a
  lease coordinator (\<open>lease.go\<close>) in front of writes, runs Agent commands in a
  Session's shell (\<open>terminal_command.go\<close>), stops a boot at the U-Boot prompt (\<open>uboot.go\<close>), moves files and
  directories through a terminal (\<open>file_transfer.go\<close>, \<open>file_transfer_shell.go\<close>,
  \<open>directory_transfer.go\<close>) and over SSH connections (\<open>ssh_files.go\<close>, \<open>transport/ssh/scp.go\<close>). \<open>core/device\<close>
  watches serial endpoints and gives them durable identities. \<open>core/debugger\<close> relays GDB remote serial
  packets over a Session, through an authenticated endpoint, and reads GDB/MI. \<open>core/config\<close> and
  \<open>core/connectionpolicy\<close> hold settings. The attached console (\<open>cli\<close>) interprets keys
  (\<open>interactive\<close>, \<open>command/attach_input_dispatcher.go\<close>) and decorates output (\<open>highlight\<close>,
  \<open>command/prompt_timestamp.go\<close>).

  \<^bold>\<open>Theories.\<close>
  \<^item> \<open>Prelude\<close> (errors, \<open>copy\<close>), \<open>Go_Strings\<close> (the functions of \<open>strings\<close> and \<open>strconv\<close>),
    \<open>Go_Regexp\<close> (regular expressions, runes), \<open>Sliding_Window\<close> (a marker searched in a bounded window of a stream),
    \<open>Ring\<close> (an array read as a ring), \<open>Cursor_Log\<close> (the locale \<open>cursor_log\<close>: the contract of
    a bounded log that readers follow by cursor, with the lemmas every reader gets).
  \<^item> \<open>Receive_Buffer\<close>, \<open>Activity_Buffer\<close>, \<open>Event_Buffer\<close>, \<open>Device_Events\<close>: the four rings, one
    definition per Go method, each interpreting \<open>cursor_log\<close>. Their lemmas: the ring is
    the newest suffix of the stream within its bounds, readers lose nothing silently and
    are woken.
  \<^item> \<open>Session_Types\<close>, \<open>Session_Core\<close>, \<open>Session_Lifecycle\<close>: the Session. An operation that
    gives up its mutex is cut into its critical sections and what follows them (\<open>signalManagerDone\<close> of \<open>Close\<close> is a step of its
    own); \<open>core_step\<close> interleaves them with the reader goroutine, and the lemmas are an invariant of all reachable states.
  \<^item> \<open>Manager\<close>, \<open>Manager_Safety\<close>: the registry, again by critical sections. \<open>mgr_exec\<close>
    interleaves callers, watchers, shutdown and the changes of the Sessions' own states; every action is shown to be a step of an
    abstract ledger (\<open>ledger_step\<close>), whose invariant gives unique references and single
    ownership; separate invariants cover the openings and the endpoints.
  \<^item> \<open>Lease\<close>, \<open>Lease_Safety\<close>: leases, write admission and the transfer-cancellation protocol;
    clock readings are arguments, a Go panic is \<open>None\<close>. The lemmas: a well-formedness invariant, exclusive writing,
    and the fence that follows when a lease is taken away from a holder that only closing the Session can stop.
  \<^item> \<open>Device_State\<close>, \<open>Device_Identity\<close>, \<open>Device_Registry\<close>: durable identities and presence.
  \<^item> \<open>Debugger_MI\<close>, \<open>Debugger_RSP\<close>, \<open>Debugger_Ports\<close>, \<open>Debugger_Endpoint\<close>: the MI reader and writer, the packet
    observer of the relay with the grammar of what it accepts, the allocation of listening ports, and the endpoint: its goroutines as
    steps in any order, every locked section and every close of a connection one step.
  \<^item> \<open>Interactive_Controller\<close>, \<open>Config_Profile\<close>: the escape machine; profiles and policy.
  \<^item> \<open>Highlight_VT\<close>, \<open>Highlight_Patterns\<close>, \<open>Highlight\<close>, \<open>Highlight_Safety\<close>, \<open>Prompt_Timestamp\<close>: the presentation of
    remote output. The locale \<open>byte_output\<close> is the writer below the timestamps; what is shown is the remote output with insertions.
  \<^item> \<open>Terminal_Command\<close>, \<open>Terminal_Command_Run\<close>, \<open>UBoot\<close>: protocols over an echoing terminal, as functions from the
    answers of their calls to a result and a trace of effects.
  \<^item> \<open>SCP\<close>, \<open>SCP_Upload\<close>, \<open>SCP_Roundtrip\<close>, \<open>SCP_Session\<close>: the legacy SCP protocol, its sink and source, their agreement.
  \<^item> \<open>File_Commands\<close>, \<open>File_Session\<close>, \<open>File_Shell\<close>, \<open>File_Transfer\<close>, \<open>File_Directory\<close>, \<open>Directory_Archive\<close>: files and directories
    through a terminal. \<open>File_Rules\<close>, \<open>File_Safety\<close>, \<open>File_Discipline\<close>, \<open>Directory_Transfer\<close>: who may write to the terminal when;
    \<open>File_Roundtrip\<close>, \<open>File_Exact\<close>, \<open>Directory_Exact\<close>: transfers with a remote side that follows the protocol are exact;
    \<open>File_Verified\<close>: what a reported success means for any remote side; \<open>Directory_Safety\<close>: where an extraction writes and what the plan
    of an archive promises.
  \<^item> \<open>Attach_Input\<close>, \<open>Attach_Safety\<close>, \<open>Attach_Rules\<close>: the input dispatcher of the attached console and its cancellation latch.
  \<^item> \<open>SSH_Files\<close>, \<open>SSH_Copy\<close>, \<open>SSH_Walk\<close>, \<open>SSH_Safety\<close>, \<open>SSH_Contained\<close>: file operations over SFTP. A trace records every call with its
    answer (\<open>SfFailed\<close> marks an error), so that the lemmas tell a failed close or creation from a successful one; the locale
    \<open>sf_receiver\<close> carries what the receipt of one entry keeps over the walk of a remote tree.

  \<^bold>\<open>How state and operations correspond.\<close> A Go struct is a record with the code's fields
  (prefixed by the component), a method is a function from the old to the new state, a
  returned error is the left of a sum, and an operation that can panic returns an
  option. Maps are functions or, where they are iterated, association lists. What other
  code decides (the operating system, servers, clocks, random tokens, callbacks, SHA-256, third-party packages) is a
  parameter: a function from the number of calls before, or a script of answers. Locks are not modelled as data: a critical section is
  one step, and a component whose goroutines matter is a list of such steps in any order. A protocol that runs in one goroutine is
  a function from the answers to the result and the trace.

  \<^bold>\<open>Bounds and fuel.\<close> The MI reader recurses at most \<open>mi_levels\<close> deep, which is the code's
  depth limit of 64, and its loops carry the input length as fuel, which bounds their
  turns because each consumes a byte (\<open>mi_Parse_total\<close>). The choice of a free remote name
  has the bytes still to come as fuel (\<open>ft_fuel\<close>), as every turn takes an answer; the parser of patterns has three units a byte, and every pattern of
  the program is shown to compile. A wait that has not ended when the script of answers ends is \<open>None\<close>. A copy over SFTP ends by the announced size, a walk by the
  depth limit of 128. The numbering loop of references
  terminates because finitely many numbers are taken. Port scans run once around the
  pool.

  \<^bold>\<open>Not modelled.\<close> Sockets, TLS, processes and files themselves (SSH and serial transports, the
  installer, configuration files), the MCP and command-line adapters, the composition of the services of \<open>core/app\<close>, GDB client processes,
  the dialling side of the RSP endpoint, and the SCP branches of the SSH file operations.
\<close>

end
